(* ===== verification/Prelude.thy ===== *)
theory Prelude
  imports Main "HOL-Library.Word" "HOL-Library.Monad_Syntax"
begin

text \<open>
  Shared vocabulary of the development: the machine integer types of the C sources, bounds-checked
  C arrays (\<open>buf\<close>), little-endian packing of bytes, and the generic lemmas on options, words
  and function updates that the component theories use.

  Undefined behaviour of the C code that the model keeps visible (a null dereference, an access
  outside an allocated array) is the value \<open>None\<close> of an option; the safety theorems of the
  components show when it cannot happen.
\<close>

unbundle bit_operations_syntax

type_synonym u8 = "8 word"
type_synonym u16 = "16 word"
type_synonym u32 = "32 word"
type_synonym u64 = "64 word"

named_theorems le_simps \<open>packing and unpacking of little-endian values\<close>

section \<open>Defined computations\<close>

text \<open>
  \<open>ok_with Q x\<close>: the computation \<open>x\<close> is defined and its result satisfies \<open>Q\<close>. The rules follow the
  structure of the \<open>do\<close> blocks.
\<close>

definition ok_with :: "('a \<Rightarrow> bool) \<Rightarrow> 'a option \<Rightarrow> bool" where
  "ok_with Q x \<longleftrightarrow> (\<exists>y. x = Some y \<and> Q y)"

lemma ok_with_Some [simp]: "ok_with Q (Some y) \<longleftrightarrow> Q y"
  by (simp add: ok_with_def)

lemma ok_with_None [simp]: "\<not> ok_with Q None"
  by (simp add: ok_with_def)

lemma ok_with_bind:
  assumes "ok_with Q x" and "\<And>y. Q y \<Longrightarrow> ok_with R (f y)"
  shows "ok_with R (x \<bind> f)"
  using assms by (auto simp: ok_with_def)

lemma ok_with_mono: "ok_with Q x \<Longrightarrow> (\<And>y. Q y \<Longrightarrow> R y) \<Longrightarrow> ok_with R x"
  by (auto simp: ok_with_def)

lemma ok_with_if:
  "(b \<Longrightarrow> ok_with Q x) \<Longrightarrow> (\<not> b \<Longrightarrow> ok_with Q y) \<Longrightarrow> ok_with Q (if b then x else y)"
  by simp

lemma ok_withE:
  assumes "ok_with Q x"
  obtains y where "x = Some y" and "Q y"
  using assms by (auto simp: ok_with_def)

section \<open>C arrays with a known extent\<close>

text \<open>
  A C array or heap block: its extent in bytes and its contents. Reading or writing outside the
  extent is undefined behaviour and yields \<open>None\<close>.
\<close>

datatype buf = Buf (buf_len: nat) (buf_cells: "nat \<Rightarrow> u8")

definition buf_zero :: "nat \<Rightarrow> buf" where
  "buf_zero n = Buf n (\<lambda>_. 0)"

definition buf_get :: "buf \<Rightarrow> nat \<Rightarrow> u8 option" where
  "buf_get b i = (if i < buf_len b then Some (buf_cells b i) else None)"

definition buf_put :: "buf \<Rightarrow> nat \<Rightarrow> u8 \<Rightarrow> buf option" where
  "buf_put b i v = (if i < buf_len b then Some (Buf (buf_len b) ((buf_cells b)(i := v))) else None)"

text \<open>Storing a run of bytes, as \<open>fread\<close> and \<open>memcpy\<close> into the array do.\<close>

fun buf_blit :: "buf \<Rightarrow> nat \<Rightarrow> u8 list \<Rightarrow> buf option" where
  "buf_blit b i [] = Some b"
| "buf_blit b i (v # vs) = (case buf_put b i v of None \<Rightarrow> None | Some b' \<Rightarrow> buf_blit b' (Suc i) vs)"

lemma buf_len_zero [simp]: "buf_len (buf_zero n) = n"
  by (simp add: buf_zero_def)

lemma buf_cells_zero [simp]: "buf_cells (buf_zero n) i = 0"
  by (simp add: buf_zero_def)

lemma buf_get_Some [simp]: "i < buf_len b \<Longrightarrow> buf_get b i = Some (buf_cells b i)"
  by (simp add: buf_get_def)

lemma buf_put_Some [simp]:
  "i < buf_len b \<Longrightarrow> buf_put b i v = Some (Buf (buf_len b) ((buf_cells b)(i := v)))"
  by (simp add: buf_put_def)

lemma buf_put_None [simp]: "\<not> i < buf_len b \<Longrightarrow> buf_put b i v = None"
  by (simp add: buf_put_def)

lemma buf_put_len: "buf_put b i v = Some b' \<Longrightarrow> buf_len b' = buf_len b"
  by (auto simp: buf_put_def split: if_splits)

lemma buf_blit_len: "buf_blit b i vs = Some b' \<Longrightarrow> buf_len b' = buf_len b"
proof (induction vs arbitrary: b i)
  case Nil
  then show ?case by simp
next
  case (Cons v vs)
  then show ?case by (fastforce dest: buf_put_len split: option.splits)
qed

text \<open>A blit is defined exactly when the run fits, and then stores the bytes in order.\<close>

lemma buf_blit_Some:
  assumes "i + length vs \<le> buf_len b"
  shows "buf_blit b i vs =
    Some (Buf (buf_len b)
      (\<lambda>k. if i \<le> k \<and> k < i + length vs then vs ! (k - i) else buf_cells b k))"
  using assms
proof (induction vs arbitrary: b i)
  case Nil
  then show ?case by (cases b) (auto simp: fun_eq_iff)
next
  case (Cons v vs)
  then show ?case
    by (auto simp: fun_eq_iff nth_Cons' intro!: arg_cong [where f = "(!) vs"])
qed

lemma buf_blit_None:
  assumes "\<not> i + length vs \<le> buf_len b" "vs \<noteq> []"
  shows "buf_blit b i vs = None"
  using assms
proof (induction vs arbitrary: b i)
  case Nil
  then show ?case by simp
next
  case (Cons v vs)
  show ?case
  proof (cases "i < buf_len b")
    case True
    with Cons.prems have "vs \<noteq> []" by auto
    with Cons.IH [of "Suc i" "Buf (buf_len b) ((buf_cells b)(i := v))"] True Cons.prems
    show ?thesis by simp
  next
    case False
    then show ?thesis by simp
  qed
qed

section \<open>Words as naturals\<close>

text \<open>Clearing the low bits rounds down.\<close>

lemma and_not_mask: "w AND NOT (mask k) = push_bit k (drop_bit k (w :: u32))"
  by (rule bit_word_eqI)
    (auto simp: bit_and_iff bit_not_iff bit_mask_iff bit_push_bit_iff bit_drop_bit_eq not_less)

lemma align_down:
  assumes "n < 2 ^ 32"
  shows "(of_nat n :: u32) AND NOT (mask k) = of_nat (n div 2 ^ k * 2 ^ k)"
proof -
  have u: "unat (of_nat n :: u32) = n" using assms by (simp add: unat_of_nat)
  have "unat (drop_bit k (of_nat n :: u32)) = n div 2 ^ k"
    unfolding unat_drop_bit_eq u by (simp add: drop_bit_eq_div)
  moreover have "n div 2 ^ k < 2 ^ 32" using assms by (meson div_le_dividend le_less_trans)
  ultimately have "drop_bit k (of_nat n :: u32) = of_nat (n div 2 ^ k)"
    by (simp add: word_unat_eq_iff unat_of_nat)
  then show ?thesis by (simp add: and_not_mask push_bit_eq_mult)
qed

lemma align_down_numerals:
  assumes "n < 2 ^ 32"
  shows "(of_nat n :: u32) AND - 2 = of_nat (n div 2 * 2)"
    "(of_nat n :: u32) AND - 4 = of_nat (n div 4 * 4)"
    "(of_nat n :: u32) AND - 16 = of_nat (n div 16 * 16)"
proof -
  have "(- 2 :: u32) = NOT (mask 1)" "(- 4 :: u32) = NOT (mask 2)" "(- 16 :: u32) = NOT (mask 4)"
    by (simp_all add: mask_eq_exp_minus_1)
  then show "(of_nat n :: u32) AND - 2 = of_nat (n div 2 * 2)"
    "(of_nat n :: u32) AND - 4 = of_nat (n div 4 * 4)"
    "(of_nat n :: u32) AND - 16 = of_nat (n div 16 * 16)"
    using align_down [OF assms, of 1] align_down [OF assms, of 2] align_down [OF assms, of 4] by simp_all
qed

lemma unat_plus_1:
  assumes "(x :: 'a::len word) < y"
  shows "unat (x + 1) = unat x + 1"
proof -
  have "unat y < 2 ^ LENGTH('a)" by (rule unsigned_less)
  moreover have "unat x < unat y" using assms by (simp add: word_less_nat_alt)
  ultimately have "unat x + 1 < 2 ^ LENGTH('a)" by linarith
  then show ?thesis by (simp add: unat_word_ariths)
qed

section \<open>Single bits of words\<close>

lemma drop_bit_and_1 [simp]: "drop_bit n (w :: 'a::len word) AND 1 = of_bool (bit w n)"
  by (simp add: and_one_eq bit_iff_odd_drop_bit odd_iff_mod_2_eq_one)

lemma and_top_bit [simp]: "w AND 0x80000000 \<noteq> (0 :: u32) \<longleftrightarrow> bit w 31"
  using and_exp_eq_0_iff_not_bit [of w 31] by simp

lemma and_push_bit_1 [simp]: "w AND push_bit n 1 \<noteq> (0 :: 'a::len word) \<longleftrightarrow> bit w n"
  using and_exp_eq_0_iff_not_bit [of w n] by (simp add: push_bit_eq_mult)

section \<open>Little-endian packing\<close>

definition le16 :: "u8 \<Rightarrow> u8 \<Rightarrow> u16" where
  "le16 b0 b1 = ucast b0 OR push_bit 8 (ucast b1)"

definition le32 :: "u8 \<Rightarrow> u8 \<Rightarrow> u8 \<Rightarrow> u8 \<Rightarrow> u32" where
  "le32 b0 b1 b2 b3 =
     ucast b0 OR push_bit 8 (ucast b1) OR push_bit 16 (ucast b2) OR push_bit 24 (ucast b3)"

definition le64 :: "u32 \<Rightarrow> u32 \<Rightarrow> u64" where
  "le64 lo hi = ucast lo OR push_bit 32 (ucast hi)"

definition byte_of :: "nat \<Rightarrow> 'a::len word \<Rightarrow> u8" where
  "byte_of i w = ucast (drop_bit (8 * i) w AND 0xFF)"

lemma bit_byte_of [le_simps]:
  "bit (byte_of i w) n \<longleftrightarrow> n < 8 \<and> bit w (8 * i + n)"
proof -
  have mask: "(0xFF :: 'a word) = mask 8"
    by (simp add: mask_eq_exp_minus_1)
  show ?thesis
    unfolding byte_of_def mask
    by (auto simp: bit_simps dest: bit_imp_le_length)
qed

lemma bit_le16 [le_simps]:
  "bit (le16 b0 b1) n \<longleftrightarrow> (if n < 8 then bit b0 n else n < 16 \<and> bit b1 (n - 8))"
  by (auto simp: le16_def bit_simps dest: bit_imp_le_length)

lemma bit_le32 [le_simps]:
  "bit (le32 b0 b1 b2 b3) n \<longleftrightarrow>
    (if n < 8 then bit b0 n else if n < 16 then bit b1 (n - 8)
     else if n < 24 then bit b2 (n - 16) else n < 32 \<and> bit b3 (n - 24))"
  by (auto simp: le32_def bit_simps dest: bit_imp_le_length)

lemma bit_le64 [le_simps]:
  "bit (le64 lo hi) n \<longleftrightarrow> (if n < 32 then bit lo n else n < 64 \<and> bit hi (n - 32))"
  by (auto simp: le64_def bit_simps dest: bit_imp_le_length)

text \<open>Unpacking and packing are inverse in both directions.\<close>

lemma le16_split [simp]: "le16 (byte_of 0 v) (byte_of 1 v) = v"
  by (rule bit_word_eqI) (auto simp: le_simps)

lemma le32_split [simp]: "le32 (byte_of 0 v) (byte_of 1 v) (byte_of 2 v) (byte_of 3 v) = v"
  by (rule bit_word_eqI) (auto simp: le_simps)

lemmas le_split_Suc [simp] = le16_split [unfolded One_nat_def] le32_split [unfolded One_nat_def]

lemma byte_of_le32 [simp]:
  "byte_of 0 (le32 b0 b1 b2 b3) = b0" "byte_of 1 (le32 b0 b1 b2 b3) = b1"
  "byte_of 2 (le32 b0 b1 b2 b3) = b2" "byte_of 3 (le32 b0 b1 b2 b3) = b3"
  by (rule bit_word_eqI, simp add: le_simps)+

lemma le64_split [simp]: "le64 (ucast v) (ucast (drop_bit 32 v)) = v"
  by (rule bit_word_eqI) (auto simp: le_simps bit_simps)

end
