(* ===== verification/Sim_Cpu.thy ===== *)
theory Sim_Cpu
  imports Prelude
begin

text \<open>
  The ARM interpreter of the MSM8916 simulator: \<^verbatim>\<open>src/Tools/msm8simu/cpu.h\<close> and
  \<^verbatim>\<open>src/Tools/msm8simu/cpu.c\<close>. The CPU is a record with the fields of \<open>arm_cpu_t\<close>; the memory
  callbacks are fields too, \<open>None\<close> standing for a null function pointer, and the object behind
  \<open>mem_userdata\<close> is the state \<open>'p\<close> that every memory access threads. A step that dereferences a
  null callback, or whose callback does, has the value \<open>None\<close>.

  The register file is indexed by \<open>4 word\<close>: each index of the source is masked with \<open>0xF\<close> before
  use, which is truncation to four bits (\<open>reg_field\<close>).
\<close>

section \<open>State\<close>

type_synonym ('p, 'v) reader = "u32 \<Rightarrow> 'p \<Rightarrow> ('v \<times> 'p) option"
type_synonym ('p, 'v) writer = "u32 \<Rightarrow> 'v \<Rightarrow> 'p \<Rightarrow> 'p option"
type_synonym reg = "4 word"

record 'p arm_cpu =
  regs :: "reg \<Rightarrow> u32"
  cpsr :: u32
  spsr :: u32
  sp_svc :: u32
  lr_svc :: u32
  sp_irq :: u32
  lr_irq :: u32
  sp_abt :: u32
  lr_abt :: u32
  sp_und :: u32
  lr_und :: u32
  sp_fiq :: u32
  lr_fiq :: u32
  r8_fiq :: u32
  r9_fiq :: u32
  r10_fiq :: u32
  r11_fiq :: u32
  r12_fiq :: u32
  cp15 :: "5 word \<Rightarrow> u32"
  cb_read8 :: "('p, u8) reader option"
  cb_write8 :: "('p, u8) writer option"
  cb_read16 :: "('p, u16) reader option"
  cb_write16 :: "('p, u16) writer option"
  cb_read32 :: "('p, u32) reader option"
  cb_write32 :: "('p, u32) writer option"
  halted :: bool
  cycle_count :: u64
  exception_base :: u32
  trace_enabled :: bool
  trace_addr_start :: u32
  trace_addr_end :: u32

abbreviation ARM_REG_SP :: reg where "ARM_REG_SP \<equiv> 13"
abbreviation ARM_REG_LR :: reg where "ARM_REG_LR \<equiv> 14"
abbreviation ARM_REG_PC :: reg where "ARM_REG_PC \<equiv> 15"

abbreviation CPSR_N :: u32 where "CPSR_N \<equiv> 0x80000000"
abbreviation CPSR_Z :: u32 where "CPSR_Z \<equiv> 0x40000000"
abbreviation CPSR_C :: u32 where "CPSR_C \<equiv> 0x20000000"
abbreviation CPSR_V :: u32 where "CPSR_V \<equiv> 0x10000000"
abbreviation CPSR_I :: u32 where "CPSR_I \<equiv> 0x80"
abbreviation CPSR_F :: u32 where "CPSR_F \<equiv> 0x40"
abbreviation CPSR_T :: u32 where "CPSR_T \<equiv> 0x20"
abbreviation CPSR_MODE_MASK :: u32 where "CPSR_MODE_MASK \<equiv> 0x1F"
abbreviation CPSR_MODE_FIQ :: u32 where "CPSR_MODE_FIQ \<equiv> 0x11"
abbreviation CPSR_MODE_IRQ :: u32 where "CPSR_MODE_IRQ \<equiv> 0x12"
abbreviation CPSR_MODE_SVC :: u32 where "CPSR_MODE_SVC \<equiv> 0x13"
abbreviation CPSR_MODE_ABT :: u32 where "CPSR_MODE_ABT \<equiv> 0x17"
abbreviation CPSR_MODE_UND :: u32 where "CPSR_MODE_UND \<equiv> 0x1B"

text \<open>\<open>(insn >> n) & 0xF\<close> used as a register index.\<close>

definition reg_field :: "nat \<Rightarrow> u32 \<Rightarrow> reg" where
  "reg_field n insn = ucast (drop_bit n insn)"

abbreviation set_reg :: "reg \<Rightarrow> u32 \<Rightarrow> 'p arm_cpu \<Rightarrow> 'p arm_cpu" where
  "set_reg r v c \<equiv> c\<lparr>regs := (regs c)(r := v)\<rparr>"

section \<open>Initialisation and the inline accessors of cpu.h\<close>

definition cpu_init :: "'p arm_cpu" where
  "cpu_init = \<lparr>regs = (\<lambda>_. 0), cpsr = 0, spsr = 0, sp_svc = 0, lr_svc = 0, sp_irq = 0, lr_irq = 0,
     sp_abt = 0, lr_abt = 0, sp_und = 0, lr_und = 0, sp_fiq = 0, lr_fiq = 0,
     r8_fiq = 0, r9_fiq = 0, r10_fiq = 0, r11_fiq = 0, r12_fiq = 0, cp15 = (\<lambda>_. 0),
     cb_read8 = None, cb_write8 = None, cb_read16 = None, cb_write16 = None,
     cb_read32 = None, cb_write32 = None,
     halted = False, cycle_count = 0, exception_base = 0,
     trace_enabled = False, trace_addr_start = 0, trace_addr_end = 0\<rparr>"

definition cpu_reset :: "'p arm_cpu \<Rightarrow> u32 \<Rightarrow> 'p arm_cpu" where
  "cpu_reset c entry_point = c\<lparr>
     regs := (\<lambda>_. 0)(ARM_REG_PC := entry_point - 8),
     cpsr := CPSR_MODE_SVC OR CPSR_I OR CPSR_F,
     spsr := 0,
     halted := False,
     cycle_count := 0,
     cp15 := (\<lambda>_. 0)(0 := 0x00C50078)\<rparr>"

definition cpu_get_reg :: "'p arm_cpu \<Rightarrow> reg \<Rightarrow> u32" where
  "cpu_get_reg c r = (if r = ARM_REG_PC then regs c r + 8 else regs c r)"

definition cpu_set_reg :: "'p arm_cpu \<Rightarrow> reg \<Rightarrow> u32 \<Rightarrow> 'p arm_cpu" where
  "cpu_set_reg c r v = (if r = ARM_REG_PC then set_reg r (v - 8) c else set_reg r v c)"

definition cpu_condition_met :: "'p arm_cpu \<Rightarrow> u32 \<Rightarrow> bool" where
  "cpu_condition_met cpu cond =
    (let n = drop_bit 31 (cpsr cpu) AND 1;
         z = drop_bit 30 (cpsr cpu) AND 1;
         c = drop_bit 29 (cpsr cpu) AND 1;
         v = drop_bit 28 (cpsr cpu) AND 1
     in if cond = 0x0 then z = 1
        else if cond = 0x1 then z = 0
        else if cond = 0x2 then c = 1
        else if cond = 0x3 then c = 0
        else if cond = 0x4 then n = 1
        else if cond = 0x5 then n = 0
        else if cond = 0x6 then v = 1
        else if cond = 0x7 then v = 0
        else if cond = 0x8 then c = 1 \<and> z = 0
        else if cond = 0x9 then c = 0 \<or> z = 1
        else if cond = 0xA then n = v
        else if cond = 0xB then n \<noteq> v
        else if cond = 0xC then z = 0 \<and> n = v
        else if cond = 0xD then z = 1 \<or> n \<noteq> v
        else if cond = 0xE then True
        else False)"

definition cpu_set_cpsr_modebits :: "'p arm_cpu \<Rightarrow> u32 \<Rightarrow> 'p arm_cpu" where
  "cpu_set_cpsr_modebits c mode =
     c\<lparr>cpsr := (cpsr c AND NOT CPSR_MODE_MASK) OR (mode AND CPSR_MODE_MASK)\<rparr>"

definition cpu_get_spsr :: "'p arm_cpu \<Rightarrow> u32" where
  "cpu_get_spsr c = spsr c"

section \<open>Barrel shifter and flags\<close>

definition carry_flag :: "'p arm_cpu \<Rightarrow> u32" where
  "carry_flag c = drop_bit 29 (cpsr c) AND 1"

text \<open>The result and the value stored through \<open>carry_out\<close>.\<close>

definition barrel_shift :: "'p arm_cpu \<Rightarrow> u32 \<Rightarrow> u32 \<Rightarrow> u32 \<Rightarrow> u32 \<times> bool" where
  "barrel_shift cpu v type amount =
    (let old_c = carry_flag cpu in
     if amount = 0 \<and> type \<noteq> 3 then (v, old_c \<noteq> 0)
     else if type = 0 then
       (if amount = 0 then (v, old_c \<noteq> 0)
        else if amount < 32 then
          (push_bit (unat amount) v, drop_bit (unat (32 - amount)) v AND 1 \<noteq> 0)
        else if amount = 32 then (0, v AND 1 \<noteq> 0)
        else (0, False))
     else if type = 1 then
       (if amount = 0 then (v, old_c \<noteq> 0)
        else if amount < 32 then
          (drop_bit (unat amount) v, drop_bit (unat (amount - 1)) v AND 1 \<noteq> 0)
        else if amount = 32 then (0, drop_bit 31 v AND 1 \<noteq> 0)
        else (0, False))
     else if type = 2 then
       (if amount = 0 then (v, old_c \<noteq> 0)
        else if amount < 32 then
          (signed_drop_bit (unat amount) v, drop_bit (unat (amount - 1)) v AND 1 \<noteq> 0)
        else (signed_drop_bit 31 v, drop_bit 31 v AND 1 \<noteq> 0))
     else if type = 3 then
       (if amount = 0 then (push_bit 31 old_c OR drop_bit 1 v, v AND 1 \<noteq> 0)
        else
          (let amount' = amount AND 31 in
           if amount' = 0 then (v, old_c \<noteq> 0)
           else
             (let result = drop_bit (unat amount') v OR push_bit (unat (32 - amount')) v
              in (result, drop_bit 31 result AND 1 \<noteq> 0))))
     else (v, old_c \<noteq> 0))"

definition cpu_update_flags_nz :: "'p arm_cpu \<Rightarrow> u32 \<Rightarrow> 'p arm_cpu" where
  "cpu_update_flags_nz c result =
     c\<lparr>cpsr := (cpsr c AND NOT (CPSR_N OR CPSR_Z)) OR
               (if result AND 0x80000000 \<noteq> 0 then CPSR_N else 0) OR
               (if result = 0 then CPSR_Z else 0)\<rparr>"

definition cpu_set_carry :: "'p arm_cpu \<Rightarrow> bool \<Rightarrow> 'p arm_cpu" where
  "cpu_set_carry c carry =
     c\<lparr>cpsr := (cpsr c AND NOT CPSR_C) OR (if carry then CPSR_C else 0)\<rparr>"

definition cpu_set_overflow :: "'p arm_cpu \<Rightarrow> bool \<Rightarrow> 'p arm_cpu" where
  "cpu_set_overflow c overflow =
     c\<lparr>cpsr := (cpsr c AND NOT CPSR_V) OR (if overflow then CPSR_V else 0)\<rparr>"

section \<open>Memory helpers\<close>

text \<open>A call through a null function pointer is undefined.\<close>

definition call_read :: "('p, 'v) reader option \<Rightarrow> u32 \<Rightarrow> 'p \<Rightarrow> ('v \<times> 'p) option" where
  "call_read cb addr p = (case cb of None \<Rightarrow> None | Some f \<Rightarrow> f addr p)"

definition call_write :: "('p, 'v) writer option \<Rightarrow> u32 \<Rightarrow> 'v \<Rightarrow> 'p \<Rightarrow> 'p option" where
  "call_write cb addr v p = (case cb of None \<Rightarrow> None | Some f \<Rightarrow> f addr v p)"

definition mem_read32 :: "'p arm_cpu \<Rightarrow> u32 \<Rightarrow> 'p \<Rightarrow> (u32 \<times> 'p) option" where
  "mem_read32 c = call_read (cb_read32 c)"

definition mem_read16 :: "'p arm_cpu \<Rightarrow> u32 \<Rightarrow> 'p \<Rightarrow> (u16 \<times> 'p) option" where
  "mem_read16 c = call_read (cb_read16 c)"

definition mem_read8 :: "'p arm_cpu \<Rightarrow> u32 \<Rightarrow> 'p \<Rightarrow> (u8 \<times> 'p) option" where
  "mem_read8 c = call_read (cb_read8 c)"

definition mem_write32 :: "'p arm_cpu \<Rightarrow> u32 \<Rightarrow> u32 \<Rightarrow> 'p \<Rightarrow> 'p option" where
  "mem_write32 c = call_write (cb_write32 c)"

definition mem_write16 :: "'p arm_cpu \<Rightarrow> u32 \<Rightarrow> u16 \<Rightarrow> 'p \<Rightarrow> 'p option" where
  "mem_write16 c = call_write (cb_write16 c)"

definition mem_write8 :: "'p arm_cpu \<Rightarrow> u32 \<Rightarrow> u8 \<Rightarrow> 'p \<Rightarrow> 'p option" where
  "mem_write8 c = call_write (cb_write8 c)"

section \<open>Banked registers\<close>

definition cpu_get_reg_banked :: "'p arm_cpu \<Rightarrow> reg \<Rightarrow> u32" where
  "cpu_get_reg_banked c r =
    (let mode = cpsr c AND CPSR_MODE_MASK in
     if r \<ge> 8 \<and> r \<le> 12 \<and> mode = CPSR_MODE_FIQ then
       (if r = 8 then r8_fiq c else if r = 9 then r9_fiq c else if r = 10 then r10_fiq c
        else if r = 11 then r11_fiq c else r12_fiq c)
     else if r = ARM_REG_SP then
       (if mode = CPSR_MODE_IRQ then sp_irq c
        else if mode = CPSR_MODE_SVC then sp_svc c
        else if mode = CPSR_MODE_ABT then sp_abt c
        else if mode = CPSR_MODE_UND then sp_und c
        else if mode = CPSR_MODE_FIQ then sp_fiq c
        else regs c r)
     else if r = ARM_REG_LR then
       (if mode = CPSR_MODE_IRQ then lr_irq c
        else if mode = CPSR_MODE_SVC then lr_svc c
        else if mode = CPSR_MODE_ABT then lr_abt c
        else if mode = CPSR_MODE_UND then lr_und c
        else if mode = CPSR_MODE_FIQ then lr_fiq c
        else regs c r)
     else regs c r)"

definition cpu_set_reg_banked :: "'p arm_cpu \<Rightarrow> reg \<Rightarrow> u32 \<Rightarrow> 'p arm_cpu" where
  "cpu_set_reg_banked c r v =
    (let mode = cpsr c AND CPSR_MODE_MASK in
     if r \<ge> 8 \<and> r \<le> 12 \<and> mode = CPSR_MODE_FIQ then
       (if r = 8 then c\<lparr>r8_fiq := v\<rparr> else if r = 9 then c\<lparr>r9_fiq := v\<rparr>
        else if r = 10 then c\<lparr>r10_fiq := v\<rparr>
        else if r = 11 then c\<lparr>r11_fiq := v\<rparr> else c\<lparr>r12_fiq := v\<rparr>)
     else if r = ARM_REG_SP then
       (if mode = CPSR_MODE_IRQ then c\<lparr>sp_irq := v\<rparr>
        else if mode = CPSR_MODE_SVC then c\<lparr>sp_svc := v\<rparr>
        else if mode = CPSR_MODE_ABT then c\<lparr>sp_abt := v\<rparr>
        else if mode = CPSR_MODE_UND then c\<lparr>sp_und := v\<rparr>
        else if mode = CPSR_MODE_FIQ then c\<lparr>sp_fiq := v\<rparr>
        else set_reg r v c)
     else if r = ARM_REG_LR then
       (if mode = CPSR_MODE_IRQ then c\<lparr>lr_irq := v\<rparr>
        else if mode = CPSR_MODE_SVC then c\<lparr>lr_svc := v\<rparr>
        else if mode = CPSR_MODE_ABT then c\<lparr>lr_abt := v\<rparr>
        else if mode = CPSR_MODE_UND then c\<lparr>lr_und := v\<rparr>
        else if mode = CPSR_MODE_FIQ then c\<lparr>lr_fiq := v\<rparr>
        else set_reg r v c)
     else set_reg r v c)"

definition cpu_get_lr :: "'p arm_cpu \<Rightarrow> u32" where
  "cpu_get_lr c = cpu_get_reg_banked c ARM_REG_LR"

definition cpu_set_lr :: "'p arm_cpu \<Rightarrow> u32 \<Rightarrow> 'p arm_cpu" where
  "cpu_set_lr c v = cpu_set_reg_banked c ARM_REG_LR v"

section \<open>Operand decoding\<close>

text \<open>The carry is an in-out parameter: a zero rotation leaves it as it was.\<close>

definition decode_imm :: "u32 \<Rightarrow> bool \<Rightarrow> u32 \<times> bool" where
  "decode_imm insn carry =
    (let imm8 = insn AND 0xFF;
         rot = (drop_bit 8 insn AND 0xF) * 2
     in if rot = 0 then (imm8, carry)
        else
          (let result = drop_bit (unat rot) imm8 OR push_bit (unat (32 - rot)) imm8
           in (result, drop_bit 31 result AND 1 \<noteq> 0)))"

definition decode_reg_shift :: "'p arm_cpu \<Rightarrow> u32 \<Rightarrow> u32 \<times> bool" where
  "decode_reg_shift c insn =
    (let rm = reg_field 0 insn;
         shift_type = drop_bit 5 insn AND 0x3;
         rs = reg_field 8 insn;
         amount = regs c rs AND 0xFF
     in if amount = 0 then (regs c rm, carry_flag c \<noteq> 0)
        else if amount < 32 then barrel_shift c (regs c rm) shift_type amount
        else if amount = 32 then
          (if shift_type = 0 then (0, regs c rm AND 1 \<noteq> 0)
           else if shift_type = 1 then (0, drop_bit 31 (regs c rm) AND 1 \<noteq> 0)
           else if shift_type = 2 then
             (signed_drop_bit 31 (regs c rm), drop_bit 31 (regs c rm) AND 1 \<noteq> 0)
           else barrel_shift c (regs c rm) shift_type (amount AND 31))
        else (0, False))"

definition decode_imm_shift :: "'p arm_cpu \<Rightarrow> u32 \<Rightarrow> u32 \<times> bool" where
  "decode_imm_shift c insn =
    (let rm = reg_field 0 insn;
         shift_type = drop_bit 5 insn AND 0x3;
         shift_amount = drop_bit 7 insn AND 0x1F
     in if shift_amount = 0 \<and> shift_type = 0 then (regs c rm, carry_flag c \<noteq> 0)
        else barrel_shift c (regs c rm) shift_type shift_amount)"

end
