(* ===== verification/Sim_Exec.thy ===== *)
theory Sim_Exec
  imports Sim_Cpu
begin

text \<open>
  \<open>cpu_step\<close> of \<^verbatim>\<open>src/Tools/msm8simu/cpu.c\<close>: one definition per instruction group, in the order
  the source tests them, and \<open>cpu_step\<close> composing them. The diagnostics on \<^verbatim>\<open>stderr\<close> are not modelled.
\<close>

section \<open>Multiplications\<close>

definition is_multiply :: "u32 \<Rightarrow> u32 \<Rightarrow> bool" where
  "is_multiply op0 insn \<longleftrightarrow>
     op0 = 0 \<and> drop_bit 25 insn AND 1 = 0 \<and> drop_bit 4 insn AND 0xF = 0x9 \<and>
     insn AND 0x0FC00000 = 0x00000000"

definition exec_multiply :: "u32 \<Rightarrow> 'p arm_cpu \<Rightarrow> 'p arm_cpu" where
  "exec_multiply insn c =
    (let rd = reg_field 16 insn;
         rn = reg_field 12 insn;
         rs = reg_field 8 insn;
         rm = reg_field 0 insn;
         a = drop_bit 21 insn AND 1;
         s = drop_bit 20 insn AND 1;
         product = regs c rm * regs c rs;
         result = (if a \<noteq> 0 then product + regs c rn else product);
         c' = set_reg rd result c
     in if s \<noteq> 0 then cpu_update_flags_nz c' result else c')"

definition is_long_multiply :: "u32 \<Rightarrow> u32 \<Rightarrow> bool" where
  "is_long_multiply op0 insn \<longleftrightarrow>
     op0 = 0 \<and> drop_bit 25 insn AND 1 = 0 \<and> drop_bit 4 insn AND 0xF = 0x9 \<and>
     insn AND 0x0F800000 = 0x00800000"

text \<open>
  The signed product is computed on \<open>int64_t\<close>; all operations on it are modulo \<open>2 ^ 64\<close>, so it is a
  \<open>u64\<close> whose operands are sign-extended.
\<close>

definition exec_long_multiply :: "u32 \<Rightarrow> 'p arm_cpu \<Rightarrow> 'p arm_cpu" where
  "exec_long_multiply insn c =
    (let rd_hi = reg_field 16 insn;
         rd_lo = reg_field 12 insn;
         rs = reg_field 8 insn;
         rm = reg_field 0 insn;
         u = drop_bit 22 insn AND 1;
         a = drop_bit 21 insn AND 1;
         s = drop_bit 20 insn AND 1;
         acc = push_bit 32 (ucast (regs c rd_hi) :: u64) OR ucast (regs c rd_lo);
         product = (if u \<noteq> 0 then (ucast (regs c rm) :: u64) * ucast (regs c rs)
                    else (scast (regs c rm) :: u64) * scast (regs c rs));
         res = (if a \<noteq> 0 then product + acc else product);
         c1 = set_reg rd_lo (ucast res) c;
         c2 = set_reg rd_hi (ucast (drop_bit 32 res)) c1
     in if s \<noteq> 0 then cpu_update_flags_nz c2 (regs c2 rd_hi) else c2)"

section \<open>Status register transfers, branches and CLZ\<close>

definition is_mrs :: "u32 \<Rightarrow> bool" where
  "is_mrs insn \<longleftrightarrow> drop_bit 25 insn AND 1 = 0 \<and> insn AND 0xF1FF0000 = 0x010F0000"

definition exec_mrs :: "u32 \<Rightarrow> 'p arm_cpu \<Rightarrow> 'p arm_cpu" where
  "exec_mrs insn c =
     set_reg (reg_field 12 insn) (if drop_bit 22 insn AND 1 \<noteq> 0 then spsr c else cpsr c) c"

definition msr_mask :: "u32 \<Rightarrow> u32" where
  "msr_mask insn =
    (let field = drop_bit 16 insn AND 0xFF in
     (if field AND 0x80 \<noteq> 0 then 0xFF000000 else 0) OR
     (if field AND 0x40 \<noteq> 0 then 0x00FF0000 else 0) OR
     (if field AND 0x20 \<noteq> 0 then 0x0000FF00 else 0) OR
     (if field AND 0x10 \<noteq> 0 then 0x000000FF else 0))"

definition write_psr :: "u32 \<Rightarrow> u32 \<Rightarrow> 'p arm_cpu \<Rightarrow> 'p arm_cpu" where
  "write_psr insn v c =
    (let mask = msr_mask insn in
     if drop_bit 22 insn AND 1 \<noteq> 0 then c\<lparr>spsr := (spsr c AND NOT mask) OR (v AND mask)\<rparr>
     else c\<lparr>cpsr := (cpsr c AND NOT mask) OR (v AND mask)\<rparr>)"

definition is_msr_reg :: "u32 \<Rightarrow> bool" where
  "is_msr_reg insn \<longleftrightarrow> drop_bit 25 insn AND 1 = 0 \<and> insn AND 0xF1FF0FF0 = 0x0129F000"

definition exec_msr_reg :: "u32 \<Rightarrow> 'p arm_cpu \<Rightarrow> 'p arm_cpu" where
  "exec_msr_reg insn c = write_psr insn (regs c (reg_field 0 insn)) c"

definition is_msr_imm :: "u32 \<Rightarrow> bool" where
  "is_msr_imm insn \<longleftrightarrow> drop_bit 25 insn AND 1 \<noteq> 0 \<and> insn AND 0xF1FF0FF0 = 0x0329F000"

text \<open>The carry that \<open>decode_imm\<close> may leave unset is dropped here.\<close>

definition exec_msr_imm :: "u32 \<Rightarrow> 'p arm_cpu \<Rightarrow> 'p arm_cpu" where
  "exec_msr_imm insn c = write_psr insn (fst (decode_imm insn False)) c"

definition is_bx :: "u32 \<Rightarrow> bool" where
  "is_bx insn \<longleftrightarrow> drop_bit 25 insn AND 1 = 0 \<and> drop_bit 4 insn AND 0xF = 0x1 \<and>
     reg_field 12 insn = 0xF"

definition exec_bx :: "u32 \<Rightarrow> 'p arm_cpu \<Rightarrow> 'p arm_cpu" where
  "exec_bx insn c =
    (let addr = regs c (reg_field 0 insn);
         addr' = (if addr AND 1 \<noteq> 0 then addr AND NOT 1 else addr)
     in set_reg ARM_REG_PC (addr' - 8) c)"

definition is_blx :: "u32 \<Rightarrow> bool" where
  "is_blx insn \<longleftrightarrow> drop_bit 25 insn AND 1 = 0 \<and> drop_bit 4 insn AND 0xF = 0x3 \<and>
     reg_field 12 insn = 0xF"

definition exec_blx :: "u32 \<Rightarrow> u32 \<Rightarrow> 'p arm_cpu \<Rightarrow> 'p arm_cpu" where
  "exec_blx insn pc c =
    (let addr = regs c (reg_field 0 insn);
         c' = cpu_set_lr c (pc + 4);
         addr' = (if addr AND 1 \<noteq> 0 then addr AND NOT 1 else addr)
     in set_reg ARM_REG_PC (addr' - 8) c')"

definition is_clz :: "u32 \<Rightarrow> bool" where
  "is_clz insn \<longleftrightarrow> drop_bit 25 insn AND 1 = 0 \<and> drop_bit 4 insn AND 0xF = 0x1 \<and>
     drop_bit 16 insn AND 0xF = 0x1"

text \<open>
  \<open>while (!(val & 0x80000000)) { count++; val <<= 1; }\<close>: at most 31 iterations for a nonzero value;
  the first argument bounds them (\<open>clz_loop_count\<close> shows that 32 is enough).
\<close>

fun clz_loop :: "nat \<Rightarrow> u32 \<Rightarrow> u32 \<Rightarrow> u32 option" where
  "clz_loop 0 v count = None"
| "clz_loop (Suc n) v count =
     (if v AND 0x80000000 \<noteq> 0 then Some count else clz_loop n (push_bit 1 v) (count + 1))"

definition clz_count :: "u32 \<Rightarrow> u32 option" where
  "clz_count v = (if v = 0 then Some 32 else clz_loop 32 v 0)"

definition exec_clz :: "u32 \<Rightarrow> 'p arm_cpu \<Rightarrow> 'p arm_cpu option" where
  "exec_clz insn c =
     (case clz_count (regs c (reg_field 0 insn)) of
        None \<Rightarrow> None
      | Some count \<Rightarrow> Some (set_reg (reg_field 12 insn) count c))"

section \<open>Data processing\<close>

text \<open>
  The switch over the opcode: the result, and the locals \<open>carry\<close> and \<open>overflow\<close> as the case leaves
  them (a case that does not assign them keeps the current flags). \<open>oc\<close> is the current carry.
\<close>

definition alu_op :: "u32 \<Rightarrow> u32 \<Rightarrow> u32 \<Rightarrow> u32 \<Rightarrow> bool \<Rightarrow> u32 \<times> bool \<times> bool" where
  "alu_op opcode rn_val op2 oc v_in =
    (let c_in = (oc \<noteq> 0);
         rn64 = (ucast rn_val :: u64);
         op64 = (ucast op2 :: u64)
     in
     if opcode = 0x0 then (rn_val AND op2, c_in, v_in)
     else if opcode = 0x1 then (rn_val XOR op2, c_in, v_in)
     else if opcode = 0x2 then
       (let result = rn_val - op2 in
        (result, rn64 \<ge> op64, drop_bit 31 ((rn_val XOR op2) AND (rn_val XOR result)) \<noteq> 0))
     else if opcode = 0x3 then
       (let result = op2 - rn_val in
        (result, op64 \<ge> rn64, drop_bit 31 ((op2 XOR rn_val) AND (op2 XOR result)) \<noteq> 0))
     else if opcode = 0x4 then
       (let result = rn_val + op2 in
        (result, rn64 + op64 > 0xFFFFFFFF,
         NOT ((rn_val XOR op2) AND 0x80000000) AND ((rn_val XOR result) AND 0x80000000) \<noteq> 0))
     else if opcode = 0x5 then
       (let r64 = rn64 + op64 + ucast oc; result = ucast r64 in
        (result, r64 > 0xFFFFFFFF,
         NOT ((rn_val XOR op2) AND 0x80000000) AND ((rn_val XOR result) AND 0x80000000) \<noteq> 0))
     else if opcode = 0x6 then
       (let r64 = rn64 - op64 - ucast (1 - oc); result = ucast r64 in
        (result, rn64 \<ge> op64 + ucast (1 - oc),
         drop_bit 31 ((rn_val XOR op2) AND (rn_val XOR result)) \<noteq> 0))
     else if opcode = 0x7 then
       (let r64 = op64 - rn64 - ucast (1 - oc); result = ucast r64 in
        (result, op64 \<ge> rn64 + ucast (1 - oc),
         drop_bit 31 ((op2 XOR rn_val) AND (op2 XOR result)) \<noteq> 0))
     else if opcode = 0x8 then (rn_val AND op2, c_in, v_in)
     else if opcode = 0x9 then (rn_val XOR op2, c_in, v_in)
     else if opcode = 0xA then
       (let result = rn_val - op2 in
        (result, rn64 \<ge> op64, drop_bit 31 ((rn_val XOR result) AND (op2 XOR result)) \<noteq> 0))
     else if opcode = 0xB then
       (let result = rn_val + op2 in
        (result, rn64 + op64 > 0xFFFFFFFF,
         NOT ((rn_val XOR op2) AND 0x80000000) AND ((rn_val XOR result) AND 0x80000000) \<noteq> 0))
     else if opcode = 0xC then (rn_val OR op2, c_in, v_in)
     else if opcode = 0xD then (op2, c_in, v_in)
     else if opcode = 0xE then (rn_val AND NOT op2, c_in, v_in)
     else if opcode = 0xF then (NOT op2, c_in, v_in)
     else (0, c_in, v_in))"

text \<open>The second operand and the shifter carry.\<close>

definition decode_op2 :: "u32 \<Rightarrow> 'p arm_cpu \<Rightarrow> u32 \<times> bool" where
  "decode_op2 insn c =
    (if drop_bit 25 insn AND 1 \<noteq> 0 then decode_imm insn (carry_flag c \<noteq> 0)
     else if (drop_bit 4 insn AND 0xF) AND 0x1 \<noteq> 0 then decode_reg_shift c insn
     else decode_imm_shift c insn)"

text \<open>
  TST, TEQ, CMP and CMN set the flags and return; every other opcode reaches the tail that copies
  the saved status (destination PC), sets N, Z and C, and writes the result.
\<close>

definition exec_alu :: "u32 \<Rightarrow> 'p arm_cpu \<Rightarrow> 'p arm_cpu" where
  "exec_alu insn c =
    (let opcode = drop_bit 21 insn AND 0xF;
         s_flag = drop_bit 20 insn AND 1;
         rn_val = regs c (reg_field 16 insn);
         rd_idx = reg_field 12 insn;
         (op2, shifter_carry) = decode_op2 insn c;
         (result, carry, overflow) =
           alu_op opcode rn_val op2 (carry_flag c) (drop_bit 28 (cpsr c) AND 1 \<noteq> 0)
     in
     if opcode = 0x8 \<or> opcode = 0x9 then
       cpu_set_carry (cpu_update_flags_nz c result) shifter_carry
     else if opcode = 0xA \<or> opcode = 0xB then
       cpu_set_overflow (cpu_set_carry (cpu_update_flags_nz c result) carry) overflow
     else
       (let c1 = (if s_flag \<noteq> 0 \<and> rd_idx = 15 then c\<lparr>cpsr := spsr c\<rparr>
                  else if s_flag \<noteq> 0 then cpu_set_carry (cpu_update_flags_nz c result) shifter_carry
                  else c);
            c2 = set_reg rd_idx result c1
        in if rd_idx = 15 then set_reg ARM_REG_PC (result - 8) c2 else c2))"

definition exec_data :: "u32 \<Rightarrow> u32 \<Rightarrow> u32 \<Rightarrow> 'p arm_cpu \<Rightarrow> 'p arm_cpu option" where
  "exec_data op0 insn pc c =
    (if is_multiply op0 insn then Some (exec_multiply insn c)
     else if is_long_multiply op0 insn then Some (exec_long_multiply insn c)
     else if is_mrs insn then Some (exec_mrs insn c)
     else if is_msr_reg insn then Some (exec_msr_reg insn c)
     else if is_msr_imm insn then Some (exec_msr_imm insn c)
     else if is_bx insn then Some (exec_bx insn c)
     else if is_blx insn then Some (exec_blx insn pc c)
     else if is_clz insn then exec_clz insn c
     else Some (exec_alu insn c))"

section \<open>Loads and stores\<close>

text \<open>Address and base update, shared by the two blocks that compute them.\<close>

definition ls_address :: "u32 \<Rightarrow> u32 \<Rightarrow> 'p arm_cpu \<Rightarrow> u32 \<times> 'p arm_cpu" where
  "ls_address insn offset c =
    (let p = drop_bit 24 insn AND 1;
         u = drop_bit 23 insn AND 1;
         w = drop_bit 21 insn AND 1;
         rn = reg_field 16 insn;
         rn_val = regs c rn;
         moved = (if u \<noteq> 0 then rn_val + offset else rn_val - offset)
     in if p \<noteq> 0 then (moved, if w \<noteq> 0 then set_reg rn moved c else c)
        else (rn_val, set_reg rn moved c))"

definition store_value :: "reg \<Rightarrow> 'p arm_cpu \<Rightarrow> u32" where
  "store_value rd c = (if rd = 15 then regs c rd + 12 else regs c rd)"

definition exec_halfword :: "u32 \<Rightarrow> u32 \<Rightarrow> 'p arm_cpu \<Rightarrow> 'p \<Rightarrow> ('p arm_cpu \<times> 'p) option" where
  "exec_halfword bits7_4 insn c p =
    (let l = drop_bit 20 insn AND 1;
         rd = reg_field 12 insn;
         imm4h = drop_bit 4 insn AND 0xF0;
         imm4l = insn AND 0xF;
         offset = imm4h OR imm4l;
         (addr, c1) = ls_address insn offset c
     in if l \<noteq> 0 then
          (if bits7_4 = 0xB then
             do { (v, p') \<leftarrow> mem_read16 c1 addr p; Some (set_reg rd (ucast v) c1, p') }
           else if bits7_4 = 0xD then
             do { (v, p') \<leftarrow> mem_read16 c1 addr p; Some (set_reg rd (scast v) c1, p') }
           else if bits7_4 = 0xF then
             do { (v, p') \<leftarrow> mem_read8 c1 addr p; Some (set_reg rd (scast v) c1, p') }
           else if bits7_4 = 0xE then
             do { (v, p') \<leftarrow> mem_read8 c1 addr p; Some (set_reg rd (ucast v) c1, p') }
           else Some (c1, p))
        else
          do { p' \<leftarrow> mem_write16 c1 addr (ucast (store_value rd c1)) p; Some (c1, p') })"

definition exec_swp :: "u32 \<Rightarrow> 'p arm_cpu \<Rightarrow> 'p \<Rightarrow> ('p arm_cpu \<times> 'p) option" where
  "exec_swp insn c p =
    (let b = drop_bit 22 insn AND 1;
         rn_val = regs c (reg_field 16 insn);
         rd = reg_field 12 insn;
         rm = reg_field 0 insn
     in if b \<noteq> 0 then
          do { (v, p1) \<leftarrow> mem_read8 c rn_val p;
               p2 \<leftarrow> mem_write8 c rn_val (ucast (regs c rm AND 0xFF)) p1;
               Some (set_reg rd (ucast v) c, p2) }
        else
          do { (v, p1) \<leftarrow> mem_read32 c rn_val p;
               p2 \<leftarrow> mem_write32 c rn_val (regs c rm) p1;
               Some (set_reg rd v c, p2) })"

definition exec_word_byte :: "u32 \<Rightarrow> u32 \<Rightarrow> 'p arm_cpu \<Rightarrow> 'p \<Rightarrow> ('p arm_cpu \<times> 'p) option" where
  "exec_word_byte offset insn c p =
    (let b = drop_bit 22 insn AND 1;
         l = drop_bit 20 insn AND 1;
         rd = reg_field 12 insn;
         (addr, c1) = ls_address insn offset c
     in if l \<noteq> 0 then
          (if b \<noteq> 0 then
             do { (v, p') \<leftarrow> mem_read8 c1 addr p; Some (set_reg rd (ucast v) c1, p') }
           else
             do { (v, p') \<leftarrow> mem_read32 c1 (addr AND NOT 3) p;
                  let rot = (addr AND 3) * 8;
                  Some (set_reg rd
                    (if rot \<noteq> 0 then drop_bit (unat rot) v OR push_bit (unat (32 - rot)) v else v)
                    c1, p') })
        else
          (if b \<noteq> 0 then
             do { p' \<leftarrow> mem_write8 c1 addr (ucast (store_value rd c1)) p; Some (c1, p') }
           else
             do { p' \<leftarrow> mem_write32 c1 (addr AND NOT 3) (store_value rd c1) p; Some (c1, p') }))"

definition exec_load_store :: "u32 \<Rightarrow> u32 \<Rightarrow> 'p arm_cpu \<Rightarrow> 'p \<Rightarrow> ('p arm_cpu \<times> 'p) option" where
  "exec_load_store op0 insn c p =
    (if op0 = 2 then exec_word_byte (insn AND 0xFFF) insn c p
     else
       (let bits7_4 = drop_bit 4 insn AND 0xF in
        if bits7_4 = 0xB \<or> bits7_4 = 0xD \<or> bits7_4 = 0xF \<or> bits7_4 = 0xE
        then exec_halfword bits7_4 insn c p
        else if bits7_4 = 0x9 then exec_swp insn c p
        else exec_word_byte
          (fst (if bits7_4 AND 1 \<noteq> 0 then decode_reg_shift c insn else decode_imm_shift c insn))
          insn c p))"

section \<open>Load and store multiple\<close>

definition popcount :: "u32 \<Rightarrow> u32" where
  "popcount w = of_nat (length (filter (bit w) [0..<32]))"

definition all_regs :: "reg list" where
  "all_regs = map of_nat [0..<16]"

fun ldm_loop :: "reg list \<Rightarrow> u32 \<Rightarrow> u32 \<Rightarrow> 'p arm_cpu \<Rightarrow> 'p \<Rightarrow> ('p arm_cpu \<times> 'p) option" where
  "ldm_loop [] reglist addr c p = Some (c, p)"
| "ldm_loop (i # is) reglist addr c p =
     (if reglist AND push_bit (unat i) 1 \<noteq> 0
      then do { (v, p') \<leftarrow> mem_read32 c addr p; ldm_loop is reglist (addr + 4) (set_reg i v c) p' }
      else ldm_loop is reglist addr c p)"

fun stm_loop :: "reg list \<Rightarrow> u32 \<Rightarrow> u32 \<Rightarrow> 'p arm_cpu \<Rightarrow> 'p \<Rightarrow> 'p option" where
  "stm_loop [] reglist addr c p = Some p"
| "stm_loop (i # is) reglist addr c p =
     (if reglist AND push_bit (unat i) 1 \<noteq> 0
      then do { p' \<leftarrow> mem_write32 c addr (store_value i c) p; stm_loop is reglist (addr + 4) c p' }
      else stm_loop is reglist addr c p)"

definition ldm_base :: "u32 \<Rightarrow> 'p arm_cpu \<Rightarrow> u32" where
  "ldm_base insn c =
    (let p = drop_bit 24 insn AND 1;
         u = drop_bit 23 insn AND 1;
         rn = reg_field 16 insn;
         count = popcount (insn AND 0xFFFF);
         base0 = (if u \<noteq> 0 then regs c rn - count * 4 else regs c rn + count * 4);
         base1 = (if p \<noteq> 0 \<and> u \<noteq> 0 then base0 + 4 else base0)
     in if p \<noteq> 0 \<and> u = 0 then base1 - 4 else base1)"

definition exec_block :: "u32 \<Rightarrow> 'p arm_cpu \<Rightarrow> 'p \<Rightarrow> ('p arm_cpu \<times> 'p) option" where
  "exec_block insn c p =
    (let u = drop_bit 23 insn AND 1;
         w = drop_bit 21 insn AND 1;
         l = drop_bit 20 insn AND 1;
         rn = reg_field 16 insn;
         reglist = insn AND 0xFFFF;
         count = popcount reglist;
         base = ldm_base insn c;
         back = (if u \<noteq> 0 then base + count * 4 else base - count * 4)
     in if l \<noteq> 0 then
          do { (c', p') \<leftarrow> ldm_loop all_regs reglist base c p;
               Some (if w \<noteq> 0 then set_reg rn back c' else c', p') }
        else
          do { p' \<leftarrow> stm_loop all_regs reglist base c p;
               Some (if w \<noteq> 0 then set_reg rn back c else c, p') })"

section \<open>Branches and coprocessor transfers\<close>

text \<open>The \<open>int32_t\<close> offset in two's complement.\<close>

definition branch_offset :: "u32 \<Rightarrow> u32" where
  "branch_offset insn =
    (let offset = push_bit 2 (insn AND 0x00FFFFFF);
         offset' = (if offset AND 0x02000000 \<noteq> 0 then offset OR 0xFD000000 else offset)
     in offset' - 8)"

definition exec_branch :: "u32 \<Rightarrow> u32 \<Rightarrow> 'p arm_cpu \<Rightarrow> 'p arm_cpu" where
  "exec_branch insn pc c =
    (let l = drop_bit 24 insn AND 1;
         offset = branch_offset insn;
         c1 = (if l \<noteq> 0 then cpu_set_lr c ((regs c ARM_REG_PC + 8) - 4) else c)
     in set_reg ARM_REG_PC (pc + offset - 8) c1)"

definition exec_coproc :: "u32 \<Rightarrow> 'p arm_cpu \<Rightarrow> 'p arm_cpu" where
  "exec_coproc insn c =
    (let l = drop_bit 20 insn AND 1;
         cp = drop_bit 8 insn AND 0xF;
         crn = drop_bit 16 insn AND 0xF;
         crm = insn AND 0xF;
         rd = reg_field 12 insn
     in if cp = 0x15 then
          (let reg_idx = push_bit 4 crn OR crm in
           if reg_idx < 32 then
             (if l \<noteq> 0 then set_reg rd (cp15 c (ucast reg_idx)) c
              else c\<lparr>cp15 := (cp15 c)(ucast reg_idx := regs c rd)\<rparr>)
           else c)
        else c)"

section \<open>One instruction\<close>

definition is_hint :: "u32 \<Rightarrow> bool" where
  "is_hint insn \<longleftrightarrow>
     drop_bit 20 insn AND 0xF = 0x7 \<or>
     insn AND 0xFFFFFFF0 = 0xF57FF010 \<or>
     insn AND 0xFFFFFFF0 = 0xF57FF020"

definition execute :: "u32 \<Rightarrow> u32 \<Rightarrow> 'p arm_cpu \<Rightarrow> 'p \<Rightarrow> ('p arm_cpu \<times> 'p) option" where
  "execute insn pc c p =
    (let cond = drop_bit 28 insn AND 0xF;
         op0 = drop_bit 25 insn AND 0x7
     in if cond = 0xF \<and> op0 = 2 \<and> is_hint insn then Some (c, p)
        else if op0 = 0 \<or> op0 = 1 then
          do { c' \<leftarrow> exec_data op0 insn pc c; Some (c', p) }
        else if op0 = 2 \<or> op0 = 3 then exec_load_store op0 insn c p
        else if op0 = 4 then exec_block insn c p
        else if op0 = 5 then Some (exec_branch insn pc c, p)
        else if op0 = 6 \<or> op0 = 7 then Some (exec_coproc insn c, p)
        else Some (c\<lparr>halted := True\<rparr>, p))"

definition fetched :: "'p arm_cpu \<Rightarrow> 'p arm_cpu" where
  "fetched c = c\<lparr>regs := (regs c)(ARM_REG_PC := regs c ARM_REG_PC + 4),
                 cycle_count := cycle_count c + 1\<rparr>"

definition cpu_step :: "'p arm_cpu \<Rightarrow> 'p \<Rightarrow> (u32 \<times> 'p arm_cpu \<times> 'p) option" where
  "cpu_step c p =
    (if halted c then Some (0, c, p)
     else
       (let pc = regs c ARM_REG_PC + 8 in
        do { (insn, p1) \<leftarrow> mem_read32 c pc p;
             let c1 = fetched c;
             let cond = drop_bit 28 insn AND 0xF;
             if cond < 0xE \<and> \<not> cpu_condition_met c1 cond then Some (1, c1, p1)
             else do { (c2, p2) \<leftarrow> execute insn pc c1 p1; Some (1, c2, p2) } }))"

section \<open>Disassembly\<close>

text \<open>The lines \<open>cpu_dump_disasm\<close> prints, by the arguments of their formats.\<close>

datatype disasm_line =
    Disasm_nop u32
  | Disasm_branch u32 bool u32 u32  \<comment> \<open>address, with link, condition, printed target\<close>
  | Disasm_word u32 u32

definition disasm_insn :: "u32 \<Rightarrow> u32 \<Rightarrow> disasm_line" where
  "disasm_insn addr insn =
    (let c = drop_bit 28 insn AND 0xF;
         op0 = drop_bit 25 insn AND 0x7
     in if insn = 0 then Disasm_nop addr
        else if op0 = 5 then
          (let l = drop_bit 24 insn AND 1;
               off = push_bit 2 (insn AND 0x00FFFFFF);
               off' = (if off AND 0x02000000 \<noteq> 0 then off OR 0xFD000000 else off)
           in Disasm_branch addr (l \<noteq> 0) c (addr + off' + 8))
        else Disasm_word addr insn)"

fun disasm_loop :: "nat \<Rightarrow> u32 \<Rightarrow> 'p arm_cpu \<Rightarrow> 'p \<Rightarrow> (disasm_line list \<times> 'p) option" where
  "disasm_loop 0 addr c p = Some ([], p)"
| "disasm_loop (Suc n) addr c p =
     do { (insn, p1) \<leftarrow> mem_read32 c addr p;
          (ls, p2) \<leftarrow> disasm_loop n (addr + 4) c p1;
          Some (disasm_insn addr insn # ls, p2) }"

definition cpu_dump_disasm ::
    "'p arm_cpu \<Rightarrow> u32 \<Rightarrow> 'p \<Rightarrow> (disasm_line list \<times> 'p) option" where
  "cpu_dump_disasm c count p = disasm_loop (unat count) (regs c ARM_REG_PC + 8) c p"

end
