(* ===== verification/Sim_Safety.thy ===== *)
theory Sim_Safety
  imports Sim_Exec
begin

text \<open>
  Safety of the interpreter over any memory. The locale \<open>memory_bus\<close> is the contract between
  \<^verbatim>\<open>cpu.c\<close> and the callbacks a platform installs: on every state satisfying the platform's invariant
  each access is defined and keeps the invariant, at every address. Under it \<open>cpu_step\<close> is defined
  for every instruction word, keeps the wiring and never halts the CPU.
\<close>

section \<open>The part of the CPU no instruction changes\<close>

definition fixed_part where
  "fixed_part c = (cb_read8 c, cb_write8 c, cb_read16 c, cb_write16 c, cb_read32 c, cb_write32 c,
     halted c, exception_base c, trace_enabled c, trace_addr_start c, trace_addr_end c)"

lemma fixed_part_updates [simp]:
  "fixed_part (c\<lparr>regs := r\<rparr>) = fixed_part c"
  "fixed_part (c\<lparr>cpsr := w\<rparr>) = fixed_part c"
  "fixed_part (c\<lparr>spsr := w\<rparr>) = fixed_part c"
  "fixed_part (c\<lparr>cp15 := f\<rparr>) = fixed_part c"
  "fixed_part (c\<lparr>cycle_count := n\<rparr>) = fixed_part c"
  by (simp_all add: fixed_part_def)

lemma fixed_part_set_reg_banked [simp]: "fixed_part (cpu_set_reg_banked c r v) = fixed_part c"
  by (simp add: cpu_set_reg_banked_def Let_def) (simp add: fixed_part_def)

lemma fixed_part_flags [simp]:
  "fixed_part (cpu_update_flags_nz c r) = fixed_part c"
  "fixed_part (cpu_set_carry c b) = fixed_part c"
  "fixed_part (cpu_set_overflow c b) = fixed_part c"
  "fixed_part (cpu_set_lr c w) = fixed_part c"
  by (simp_all add: cpu_update_flags_nz_def cpu_set_carry_def cpu_set_overflow_def cpu_set_lr_def)

lemma counter_helpers [simp]:
  "cycle_count (cpu_set_reg_banked c r v) = cycle_count c"
  "cycle_count (cpu_update_flags_nz c w) = cycle_count c"
  "cycle_count (cpu_set_carry c b) = cycle_count c"
  "cycle_count (cpu_set_overflow c b) = cycle_count c"
  "cycle_count (cpu_set_lr c w) = cycle_count c"
  "spsr (cpu_set_reg_banked c r v) = spsr c"
  "spsr (cpu_update_flags_nz c w) = spsr c"
  "spsr (cpu_set_carry c b) = spsr c"
  "spsr (cpu_set_overflow c b) = spsr c"
  "spsr (cpu_set_lr c w) = spsr c"
  "cp15 (cpu_set_reg_banked c r v) = cp15 c"
  "cp15 (cpu_update_flags_nz c w) = cp15 c"
  "cp15 (cpu_set_carry c b) = cp15 c"
  "cp15 (cpu_set_overflow c b) = cp15 c"
  "cp15 (cpu_set_lr c w) = cp15 c"
  by (simp_all add: cpu_update_flags_nz_def cpu_set_carry_def cpu_set_overflow_def cpu_set_lr_def
      cpu_set_reg_banked_def Let_def)

text \<open>
  No instruction word matches the MSR patterns (their value has bits outside their mask), and a
  four-bit coprocessor number is never \<open>0x15\<close>, so the system registers cannot be written.
\<close>

lemma and_eq_mask: "w AND m = k \<Longrightarrow> k AND m = (k :: u32)"
  by (auto simp: and.assoc)

lemma msr_never: "\<not> is_msr_reg insn" "\<not> is_msr_imm insn"
  using and_eq_mask [of insn "0xF1FF0FF0" "0x0129F000"] and_eq_mask [of insn "0xF1FF0FF0" "0x0329F000"]
  by (auto simp: is_msr_reg_def is_msr_imm_def)

lemma exec_coproc_id: "exec_coproc insn c = c"
proof -
  have "drop_bit 8 insn AND 0xF \<noteq> 0x15"
    using and_eq_mask [of "drop_bit 8 insn" "0xF" "0x15"] by auto
  then show ?thesis by (simp add: exec_coproc_def Let_def)
qed

text \<open>What an instruction body keeps: the fixed part, the cycle counter, the system registers.\<close>

definition keeps :: "'p arm_cpu \<Rightarrow> 'p arm_cpu \<Rightarrow> bool" where
  "keeps c c' \<longleftrightarrow> fixed_part c' = fixed_part c \<and> cycle_count c' = cycle_count c \<and>
     spsr c' = spsr c \<and> cp15 c' = cp15 c"

lemma keeps_refl [simp]: "keeps c c"
  by (simp add: keeps_def)

lemma keeps_exec_simple:
  "keeps c (exec_multiply insn c)" "keeps c (exec_long_multiply insn c)"
  "keeps c (exec_mrs insn c)"
  "keeps c (exec_bx insn c)" "keeps c (exec_blx insn pc c)"
  "keeps c (exec_branch insn pc c)" "keeps c (exec_coproc insn c)"
  by (simp_all add: keeps_def exec_multiply_def exec_long_multiply_def exec_mrs_def exec_bx_def
      exec_blx_def exec_branch_def exec_coproc_id Let_def)

lemma keeps_exec_alu: "keeps c (exec_alu insn c)"
  by (simp add: exec_alu_def keeps_def Let_def split: prod.splits)

lemma keeps_ls_address: "ls_address insn offset c = (a, c') \<Longrightarrow> keeps c c'"
  by (auto simp: ls_address_def keeps_def Let_def split: if_splits)

section \<open>CLZ terminates\<close>

lemma clz_loop_count:
  assumes "bit v k" "\<And>i. k < i \<Longrightarrow> \<not> bit v i" "k < 32" "n + k \<ge> 32"
  shows "clz_loop n v count = Some (count + of_nat (31 - k))"
  using assms
proof (induction n arbitrary: v count k)
  case 0
  then show ?case by simp
next
  case (Suc n)
  show ?case
  proof (cases "k = 31")
    case True
    with Suc.prems show ?thesis by simp
  next
    case False
    with Suc.prems have k: "Suc k < 32" and n: "n + Suc k \<ge> 32" by auto
    have pb: "bit (push_bit 1 v) i \<longleftrightarrow> 1 \<le> i \<and> i < 32 \<and> bit v (i - 1)" for i
      by (subst bit_push_bit_iff) auto
    have "\<not> bit v 31" using Suc.prems(2) [of 31] k by simp
    moreover have "clz_loop n (push_bit 1 v) (count + 1) = Some (count + 1 + of_nat (31 - Suc k))"
      by (rule Suc.IH [OF _ _ k n]) (use Suc.prems k in \<open>simp_all only: pb, auto\<close>)
    moreover have "31 - k = Suc (31 - Suc k)" using k by simp
    ultimately show ?thesis by simp
  qed
qed

lemma top_bit_exists:
  assumes "v \<noteq> (0 :: 'a::len word)"
  obtains k where "bit v k" "\<And>i. k < i \<Longrightarrow> \<not> bit v i" "k < LENGTH('a)"
proof -
  let ?S = "{i. bit v i}"
  have sub: "?S \<subseteq> {..<LENGTH('a)}" by (auto dest: bit_imp_le_length)
  then have fin: "finite ?S" by (rule finite_subset) simp
  have "?S \<noteq> {}"
  proof
    assume "?S = {}"
    then have "v = 0" by (auto intro: bit_word_eqI)
    with assms show False ..
  qed
  with fin have "Max ?S \<in> ?S" by (rule Max_in)
  moreover have "\<not> bit v i" if "Max ?S < i" for i
    using that by (meson Max_ge fin leD mem_Collect_eq)
  ultimately show ?thesis using that sub by blast
qed

lemma clz_count_defined: "ok_with (\<lambda>_. True) (clz_count v)"
proof (cases "v = 0")
  case True
  then show ?thesis by (simp add: clz_count_def)
next
  case False
  from top_bit_exists [OF this] obtain k
    where "bit v k" "\<And>i. k < i \<Longrightarrow> \<not> bit v i" "k < LENGTH(32)" by blast
  with False show ?thesis
    using clz_loop_count [of v k 32 0] by (simp add: clz_count_def)
qed

lemma exec_data_ok: "ok_with (keeps c) (exec_data op0 insn pc c)"
proof -
  have "ok_with (keeps c) (exec_clz insn c)"
    using clz_count_defined [of "regs c (reg_field 0 insn)"]
    by (auto simp: exec_clz_def keeps_def elim!: ok_withE)
  then show ?thesis
    by (simp add: exec_data_def msr_never keeps_exec_simple keeps_exec_alu)
qed

section \<open>The bus contract\<close>

locale memory_bus =
  fixes rd8 :: "('p, u8) reader" and wr8 :: "('p, u8) writer"
    and rd16 :: "('p, u16) reader" and wr16 :: "('p, u16) writer"
    and rd32 :: "('p, u32) reader" and wr32 :: "('p, u32) writer"
    and inv :: "'p \<Rightarrow> bool"
  assumes rd8_ok: "inv p \<Longrightarrow> ok_with (\<lambda>(v, p'). inv p') (rd8 a p)"
    and wr8_ok: "inv p \<Longrightarrow> ok_with inv (wr8 a b p)"
    and rd16_ok: "inv p \<Longrightarrow> ok_with (\<lambda>(v, p'). inv p') (rd16 a p)"
    and wr16_ok: "inv p \<Longrightarrow> ok_with inv (wr16 a h p)"
    and rd32_ok: "inv p \<Longrightarrow> ok_with (\<lambda>(v, p'). inv p') (rd32 a p)"
    and wr32_ok: "inv p \<Longrightarrow> ok_with inv (wr32 a w p)"
begin

definition wired :: "'p arm_cpu \<Rightarrow> bool" where
  "wired c \<longleftrightarrow> cb_read8 c = Some rd8 \<and> cb_write8 c = Some wr8 \<and> cb_read16 c = Some rd16 \<and>
     cb_write16 c = Some wr16 \<and> cb_read32 c = Some rd32 \<and> cb_write32 c = Some wr32"

lemma wired_fixed: "fixed_part c' = fixed_part c \<Longrightarrow> wired c' = wired c"
  by (simp add: wired_def fixed_part_def)

lemma wired_keeps: "keeps c c' \<Longrightarrow> wired c \<Longrightarrow> wired c'"
  using wired_fixed [of c' c] by (simp add: keeps_def)

lemma mem_ok:
  assumes "wired c" "inv p"
  shows "ok_with (\<lambda>(v, p'). inv p') (mem_read8 c a p)"
    and "ok_with (\<lambda>(v, p'). inv p') (mem_read16 c a p)"
    and "ok_with (\<lambda>(v, p'). inv p') (mem_read32 c a p)"
    and "ok_with inv (mem_write8 c a b p)"
    and "ok_with inv (mem_write16 c a h p)"
    and "ok_with inv (mem_write32 c a w p)"
  using assms
  by (simp_all add: wired_def mem_read8_def mem_read16_def mem_read32_def mem_write8_def
      mem_write16_def mem_write32_def call_read_def call_write_def
      rd8_ok wr8_ok rd16_ok wr16_ok rd32_ok wr32_ok)

abbreviation post :: "'p arm_cpu \<Rightarrow> 'p arm_cpu \<times> 'p \<Rightarrow> bool" where
  "post c \<equiv> (\<lambda>(c', p'). keeps c c' \<and> inv p')"

lemma exec_halfword_ok:
  assumes "wired c" "inv p"
  shows "ok_with (post c) (exec_halfword b insn c p)"
proof -
  let ?off = "drop_bit 4 insn AND 0xF0 OR insn AND 0xF"
  obtain a c1 where a: "ls_address insn ?off c = (a, c1)" by force
  then have k: "keeps c c1" by (rule keeps_ls_address)
  with assms have m: "wired c1" by (auto intro: wired_keeps)
  show ?thesis
    unfolding exec_halfword_def Let_def a prod.case
    by (intro ok_with_if ok_with_bind [OF mem_ok(1) [OF m assms(2)]]
        ok_with_bind [OF mem_ok(2) [OF m assms(2)]] ok_with_bind [OF mem_ok(5) [OF m assms(2)]])
      (use k assms in \<open>auto simp: keeps_def\<close>)
qed

lemma exec_swp_ok:
  assumes "wired c" "inv p"
  shows "ok_with (post c) (exec_swp insn c p)"
  unfolding exec_swp_def Let_def
proof (rule ok_with_if)
  show "ok_with (post c) (do { (v, p1) \<leftarrow> mem_read8 c a p; p2 \<leftarrow> mem_write8 c a b p1;
      Some (set_reg rd (ucast v) c, p2) })" for a b rd
    by (rule ok_with_bind [OF mem_ok(1) [OF assms]])
      (auto intro!: ok_with_bind [OF mem_ok(4) [OF assms(1)]] simp: keeps_def)
next
  show "ok_with (post c) (do { (v, p1) \<leftarrow> mem_read32 c a p; p2 \<leftarrow> mem_write32 c a b p1;
      Some (set_reg rd v c, p2) })" for a b rd
    by (rule ok_with_bind [OF mem_ok(3) [OF assms]])
      (auto intro!: ok_with_bind [OF mem_ok(6) [OF assms(1)]] simp: keeps_def)
qed

lemma exec_word_byte_ok:
  assumes "wired c" "inv p"
  shows "ok_with (post c) (exec_word_byte offset insn c p)"
proof -
  obtain a c1 where a: "ls_address insn offset c = (a, c1)" by force
  then have k: "keeps c c1" by (rule keeps_ls_address)
  with assms have m: "wired c1" by (auto intro: wired_keeps)
  show ?thesis
    unfolding exec_word_byte_def Let_def a prod.case
    by (intro ok_with_if ok_with_bind [OF mem_ok(1) [OF m assms(2)]]
        ok_with_bind [OF mem_ok(3) [OF m assms(2)]] ok_with_bind [OF mem_ok(4) [OF m assms(2)]]
        ok_with_bind [OF mem_ok(6) [OF m assms(2)]])
      (use k assms in \<open>auto simp: keeps_def\<close>)
qed

lemma exec_load_store_ok:
  "wired c \<Longrightarrow> inv p \<Longrightarrow> ok_with (post c) (exec_load_store op0 insn c p)"
  by (simp add: exec_load_store_def Let_def exec_word_byte_ok exec_halfword_ok exec_swp_ok)

lemma ldm_loop_ok:
  "wired c \<Longrightarrow> inv p \<Longrightarrow> ok_with (post c) (ldm_loop is reglist addr c p)"
proof (induction "is" arbitrary: addr c p)
  case Nil
  then show ?case by simp
next
  case (Cons i "is")
  have "ok_with (post c) (ldm_loop is reglist (addr + 4) (set_reg i v c) p')" if "inv p'" for v p'
  proof -
    have "wired (set_reg i v c)" using Cons.prems(1) wired_fixed [of "set_reg i v c" c] by simp
    from Cons.IH [OF this that] show ?thesis
      by (rule ok_with_mono) (auto simp: keeps_def)
  qed
  then have "ok_with (post c)
      (do { (v, p') \<leftarrow> mem_read32 c addr p; ldm_loop is reglist (addr + 4) (set_reg i v c) p' })"
    by (intro ok_with_bind [OF mem_ok(3) [OF Cons.prems]]) auto
  with Cons show ?case by simp
qed

lemma stm_loop_ok: "wired c \<Longrightarrow> inv p \<Longrightarrow> ok_with inv (stm_loop is reglist addr c p)"
proof (induction "is" arbitrary: addr p)
  case Nil
  then show ?case by simp
next
  case (Cons i "is")
  have "ok_with inv (do { p' \<leftarrow> mem_write32 c addr w p; stm_loop is reglist (addr + 4) c p' })" for w
    by (rule ok_with_bind [OF mem_ok(6) [OF Cons.prems]]) (rule Cons.IH [OF Cons.prems(1)])
  with Cons show ?case by simp
qed

lemma exec_block_ok:
  assumes "wired c" "inv p"
  shows "ok_with (post c) (exec_block insn c p)"
  unfolding exec_block_def Let_def
  by (intro ok_with_if ok_with_bind [OF ldm_loop_ok [OF assms]] ok_with_bind [OF stm_loop_ok [OF assms]])
    (auto simp: keeps_def)

text \<open>The three bits of \<open>op0\<close> leave no instruction for the \<open>Undefined\<close> branch.\<close>

lemma op0_cases:
  fixes insn :: u32
  defines "op0 \<equiv> drop_bit 25 insn AND 0x7"
  shows "op0 = 0 \<or> op0 = 1 \<or> op0 = 2 \<or> op0 = 3 \<or> op0 = 4 \<or> op0 = 5 \<or> op0 = 6 \<or> op0 = 7"
proof -
  have "op0 \<le> 7" unfolding op0_def by (rule word_and_le1)
  then have "unat op0 \<le> 7" by (simp add: word_le_nat_alt)
  then have "unat op0 = 0 \<or> unat op0 = 1 \<or> unat op0 = 2 \<or> unat op0 = 3 \<or> unat op0 = 4 \<or>
    unat op0 = 5 \<or> unat op0 = 6 \<or> unat op0 = 7" by arith
  then show ?thesis by (simp only: word_unat_eq_iff) simp
qed

lemma execute_ok:
  assumes "wired c" "inv p"
  shows "ok_with (post c) (execute insn pc c p)"
proof -
  have data: "ok_with (post c) (do { c' \<leftarrow> exec_data op0 insn pc c; Some (c', p) })" for op0
    by (rule ok_with_bind [OF exec_data_ok]) (use assms in simp)
  have ls: "ok_with (post c) (exec_load_store op0 insn c p)" for op0
    by (rule exec_load_store_ok [OF assms])
  have blk: "ok_with (post c) (exec_block insn c p)" by (rule exec_block_ok [OF assms])
  show ?thesis
    unfolding execute_def Let_def
    by (intro ok_with_if data ls blk)
      (use assms op0_cases [of insn] in \<open>simp_all only: ok_with_Some prod.case keeps_exec_simple
          keeps_refl simp_thms\<close>)
qed

text \<open>
  A step from a wired CPU over a state that satisfies the invariant is defined, whatever the
  instruction; it keeps the wiring, the invariant and the fixed part, counts one cycle and leaves SPSR and CP15 alone.
\<close>

lemma cpu_step_ok:
  assumes "wired c" "inv p" "\<not> halted c"
  shows "ok_with (\<lambda>(r, c', p'). r = 1 \<and> wired c' \<and> inv p' \<and> fixed_part c' = fixed_part c \<and>
    cycle_count c' = cycle_count c + 1 \<and> spsr c' = spsr c \<and> cp15 c' = cp15 c) (cpu_step c p)"
proof -
  let ?Q = "\<lambda>(r, c', p'). r = 1 \<and> wired c' \<and> inv p' \<and> fixed_part c' = fixed_part c \<and>
    cycle_count c' = cycle_count c + 1 \<and> spsr c' = spsr c \<and> cp15 c' = cp15 c"
  have f: "fixed_part (fetched c) = fixed_part c" "cycle_count (fetched c) = cycle_count c + 1"
      "spsr (fetched c) = spsr c" "cp15 (fetched c) = cp15 c"
    by (simp_all add: fetched_def fixed_part_def)
  then have w: "wired (fetched c)" using assms(1) wired_fixed by blast
  have "ok_with ?Q (do { (c2, p2) \<leftarrow> execute insn pc (fetched c) p1; Some (1, c2, p2) })"
    if "inv p1" for insn pc p1
    by (rule ok_with_bind [OF execute_ok [OF w that]])
      (use f w wired_keeps [of "fetched c"] in \<open>auto simp: keeps_def\<close>)
  then show ?thesis
    unfolding cpu_step_def Let_def using assms(3) f w
    by (auto intro!: ok_with_bind [OF mem_ok(3) [OF assms(1,2)]])
qed

end

end
