(* ===== verification/Sim_Platform.thy ===== *)
theory Sim_Platform
  imports Sim_Safety
begin

text \<open>
  The simulated MSM8916: \<^verbatim>\<open>src/Tools/msm8simu/platform.h\<close> and \<^verbatim>\<open>platform.c\<close>. Every array of
  \<open>msm8916_platform_t\<close> is a bounds-checked \<open>buf\<close>; \<open>ram = None\<close> is the null pointer. \<open>console\<close> is
  the sequence of bytes written with \<open>fputc\<close> to the standard output, oldest first.
\<close>

section \<open>State and memory map\<close>

record platform =
  ram :: "buf option"
  ram_base :: u32
  ram_size :: u32
  uart_status :: u8
  uart_fifo :: buf
  uart_fifo_head :: nat
  uart_fifo_tail :: nat
  timer_value :: u32
  gic_dist :: buf
  gic_cpu :: buf
  clk_ctl :: buf
  gpio :: buf
  console :: "u8 list"

abbreviation MSM8916_RAM_BASE :: u32 where "MSM8916_RAM_BASE \<equiv> 0x80000000"
abbreviation MSM8916_RAM_SIZE :: u32 where "MSM8916_RAM_SIZE \<equiv> 0x10000000"
abbreviation MSM8916_GIC_DIST :: u32 where "MSM8916_GIC_DIST \<equiv> 0xB000000"
abbreviation MSM8916_GIC_CPU :: u32 where "MSM8916_GIC_CPU \<equiv> 0xB002000"
abbreviation MSM8916_BLSP1_UART2 :: u32 where "MSM8916_BLSP1_UART2 \<equiv> 0x78B0000"
abbreviation MSM8916_BLSP1_UART2_SIZE :: u32 where "MSM8916_BLSP1_UART2_SIZE \<equiv> 0x200"
abbreviation MSM8916_CLK_CTL :: u32 where "MSM8916_CLK_CTL \<equiv> 0x1800000"
abbreviation MSM8916_CLK_CTL_SIZE :: u32 where "MSM8916_CLK_CTL_SIZE \<equiv> 0x80000"
abbreviation MSM8916_GPIO :: u32 where "MSM8916_GPIO \<equiv> 0x1000000"
abbreviation MSM8916_GPIO_SIZE :: u32 where "MSM8916_GPIO_SIZE \<equiv> 0x1000"
abbreviation MSM8916_WDT_BASE :: u32 where "MSM8916_WDT_BASE \<equiv> 0xB017000"
abbreviation MSM8916_SPMI_BASE :: u32 where "MSM8916_SPMI_BASE \<equiv> 0x200F000"
abbreviation MSM8916_TIMER_BASE :: u32 where "MSM8916_TIMER_BASE \<equiv> 0xB020000"
abbreviation MSM8916_DLOAD_MSG :: u32 where "MSM8916_DLOAD_MSG \<equiv> 0x00058000"
abbreviation MSM8916_DLOAD_MSG_SIZE :: u32 where "MSM8916_DLOAD_MSG_SIZE \<equiv> 0x10000"

text \<open>\<open>addr >= base && addr < base + sz\<close>, in 32-bit arithmetic.\<close>

definition in_range :: "u32 \<Rightarrow> u32 \<Rightarrow> u32 \<Rightarrow> bool" where
  "in_range addr base sz \<longleftrightarrow> base \<le> addr \<and> addr < base + sz"

section \<open>Byte reads and writes\<close>

definition ram_get :: "platform \<Rightarrow> nat \<Rightarrow> u8 option" where
  "ram_get p i = (case ram p of None \<Rightarrow> None | Some b \<Rightarrow> buf_get b i)"

definition ram_put :: "platform \<Rightarrow> nat \<Rightarrow> u8 \<Rightarrow> platform option" where
  "ram_put p i v = (case ram p of None \<Rightarrow> None
     | Some b \<Rightarrow> map_option (\<lambda>b'. p\<lparr>ram := Some b'\<rparr>) (buf_put b i v))"

text \<open>The UART data register pops the FIFO; every other register reads as a constant.\<close>

definition uart_read :: "u32 \<Rightarrow> platform \<Rightarrow> (u8 \<times> platform) option" where
  "uart_read off p =
    (if off = 0x00 then
       (if uart_fifo_head p \<noteq> uart_fifo_tail p then
          do { ch \<leftarrow> buf_get (uart_fifo p) (uart_fifo_tail p);
               Some (ch, p\<lparr>uart_fifo_tail := (uart_fifo_tail p + 1) mod 64\<rparr>) }
        else Some (0, p))
     else if off = 0x08 then Some (0x10, p)
     else if off = 0x04 then Some (0, p)
     else Some (0, p))"

definition platform_read8 :: "u32 \<Rightarrow> platform \<Rightarrow> (u8 \<times> platform) option" where
  "platform_read8 addr p =
    (if in_range addr (ram_base p) (ram_size p) then
       do { v \<leftarrow> ram_get p (unat (addr - ram_base p)); Some (v, p) }
     else if in_range addr MSM8916_BLSP1_UART2 MSM8916_BLSP1_UART2_SIZE then
       uart_read (addr - MSM8916_BLSP1_UART2) p
     else if in_range addr MSM8916_GIC_DIST 0x1000 then
       do { v \<leftarrow> buf_get (gic_dist p) (unat (addr - MSM8916_GIC_DIST)); Some (v, p) }
     else if in_range addr MSM8916_GIC_CPU 0x1000 then
       do { v \<leftarrow> buf_get (gic_cpu p) (unat (addr - MSM8916_GIC_CPU)); Some (v, p) }
     else if in_range addr MSM8916_CLK_CTL MSM8916_CLK_CTL_SIZE then
       do { v \<leftarrow> buf_get (clk_ctl p) (unat ((addr - MSM8916_CLK_CTL) mod 0x1000)); Some (v, p) }
     else if in_range addr MSM8916_GPIO MSM8916_GPIO_SIZE then
       do { v \<leftarrow> buf_get (gpio p) (unat (addr - MSM8916_GPIO)); Some (v, p) }
     else if in_range addr MSM8916_WDT_BASE 0x1000 then Some (0, p)
     else if in_range addr MSM8916_DLOAD_MSG MSM8916_DLOAD_MSG_SIZE then Some (0, p)
     else if in_range addr MSM8916_TIMER_BASE 0x1000 then Some (0, p)
     else if in_range addr MSM8916_SPMI_BASE 0x1000 then Some (0, p)
     else Some (0, p))"

definition uart_write :: "u32 \<Rightarrow> u8 \<Rightarrow> platform \<Rightarrow> platform" where
  "uart_write off v p =
    (if off = 0x00 then (if v = 0x0D then p else p\<lparr>console := console p @ [v]\<rparr>) else p)"

definition platform_write8 :: "u32 \<Rightarrow> u8 \<Rightarrow> platform \<Rightarrow> platform option" where
  "platform_write8 addr v p =
    (if in_range addr (ram_base p) (ram_size p) then ram_put p (unat (addr - ram_base p)) v
     else if in_range addr MSM8916_BLSP1_UART2 MSM8916_BLSP1_UART2_SIZE then
       Some (uart_write (addr - MSM8916_BLSP1_UART2) v p)
     else if in_range addr MSM8916_GIC_DIST 0x1000 then
       do { b \<leftarrow> buf_put (gic_dist p) (unat (addr - MSM8916_GIC_DIST)) v; Some (p\<lparr>gic_dist := b\<rparr>) }
     else if in_range addr MSM8916_GIC_CPU 0x1000 then
       do { b \<leftarrow> buf_put (gic_cpu p) (unat (addr - MSM8916_GIC_CPU)) v; Some (p\<lparr>gic_cpu := b\<rparr>) }
     else if in_range addr MSM8916_CLK_CTL MSM8916_CLK_CTL_SIZE then
       do { b \<leftarrow> buf_put (clk_ctl p) (unat ((addr - MSM8916_CLK_CTL) mod 0x1000)) v;
            Some (p\<lparr>clk_ctl := b\<rparr>) }
     else if in_range addr MSM8916_GPIO MSM8916_GPIO_SIZE then
       do { b \<leftarrow> buf_put (gpio p) (unat (addr - MSM8916_GPIO)) v; Some (p\<lparr>gpio := b\<rparr>) }
     else if in_range addr MSM8916_WDT_BASE 0x1000 then Some p
     else if in_range addr MSM8916_SPMI_BASE 0x1000 then Some p
     else Some p)"

section \<open>Halfword and word accesses\<close>

definition platform_read16 :: "u32 \<Rightarrow> platform \<Rightarrow> (u16 \<times> platform) option" where
  "platform_read16 addr p =
     do { (lo, p1) \<leftarrow> platform_read8 addr p;
          (hi, p2) \<leftarrow> platform_read8 (addr + 1) p1;
          Some (le16 lo hi, p2) }"

definition platform_read32 :: "u32 \<Rightarrow> platform \<Rightarrow> (u32 \<times> platform) option" where
  "platform_read32 addr p =
     do { (b0, p1) \<leftarrow> platform_read8 addr p;
          (b1, p2) \<leftarrow> platform_read8 (addr + 1) p1;
          (b2, p3) \<leftarrow> platform_read8 (addr + 2) p2;
          (b3, p4) \<leftarrow> platform_read8 (addr + 3) p3;
          Some (le32 b0 b1 b2 b3, p4) }"

definition platform_write16 :: "u32 \<Rightarrow> u16 \<Rightarrow> platform \<Rightarrow> platform option" where
  "platform_write16 addr v p =
     do { p1 \<leftarrow> platform_write8 addr (byte_of 0 v) p;
          platform_write8 (addr + 1) (byte_of 1 v) p1 }"

definition platform_write32 :: "u32 \<Rightarrow> u32 \<Rightarrow> platform \<Rightarrow> platform option" where
  "platform_write32 addr v p =
     do { p1 \<leftarrow> platform_write8 addr (byte_of 0 v) p;
          p2 \<leftarrow> platform_write8 (addr + 1) (byte_of 1 v) p1;
          p3 \<leftarrow> platform_write8 (addr + 2) (byte_of 2 v) p2;
          platform_write8 (addr + 3) (byte_of 3 v) p3 }"

section \<open>Initialisation and destruction\<close>

text \<open>
  \<open>calloc_ok\<close> says whether \<open>calloc\<close> returned a block; a failure exits the process (\<open>None\<close>).
\<close>

definition platform_init :: "bool \<Rightarrow> platform arm_cpu \<Rightarrow> (platform \<times> platform arm_cpu) option" where
  "platform_init calloc_ok c =
    (if \<not> calloc_ok then None
     else Some
      (\<lparr>ram = Some (buf_zero (unat MSM8916_RAM_SIZE)),
        ram_base = MSM8916_RAM_BASE, ram_size = MSM8916_RAM_SIZE,
        uart_status = 0, uart_fifo = buf_zero 64, uart_fifo_head = 0, uart_fifo_tail = 0,
        timer_value = 0, gic_dist = buf_zero 0x1000, gic_cpu = buf_zero 0x1000,
        clk_ctl = buf_zero 0x1000, gpio = buf_zero 0x1000, console = []\<rparr>,
       c\<lparr>cb_read8 := Some platform_read8, cb_write8 := Some platform_write8,
         cb_read16 := Some platform_read16, cb_write16 := Some platform_write16,
         cb_read32 := Some platform_read32, cb_write32 := Some platform_write32\<rparr>))"

definition platform_destroy :: "platform \<Rightarrow> platform" where
  "platform_destroy p = (if ram p \<noteq> None then p\<lparr>ram := None\<rparr> else p)"

section \<open>Invariant\<close>

text \<open>
  The RAM block has exactly \<open>ram_size\<close> bytes and its window does not wrap around; the other arrays
  have the extents of the header file and the FIFO cursor is inside its ring.
\<close>

definition platform_wf :: "platform \<Rightarrow> bool" where
  "platform_wf p \<longleftrightarrow>
     (\<exists>b. ram p = Some b \<and> buf_len b = unat (ram_size p)) \<and>
     ram_base p \<le> ram_base p + ram_size p \<and>
     buf_len (uart_fifo p) = 64 \<and> uart_fifo_tail p < 64 \<and> uart_fifo_head p < 64 \<and>
     buf_len (gic_dist p) = 0x1000 \<and> buf_len (gic_cpu p) = 0x1000 \<and>
     buf_len (clk_ctl p) = 0x1000 \<and> buf_len (gpio p) = 0x1000"

lemma in_range_offset:
  assumes "in_range addr base sz" "base \<le> base + sz"
  shows "unat (addr - base) < unat sz"
  using assms unfolding in_range_def by unat_arith

lemma ram_offset:
  assumes "platform_wf p" "in_range addr (ram_base p) (ram_size p)" "ram p = Some b"
  shows "unat (addr - ram_base p) < buf_len b"
  using assms in_range_offset [of addr "ram_base p" "ram_size p"] by (auto simp: platform_wf_def)

lemma uart_read_ok:
  "platform_wf p \<Longrightarrow> ok_with (\<lambda>(v, p'). platform_wf p') (uart_read off p)"
  by (simp add: uart_read_def platform_wf_def)

lemma ram_get_ok:
  assumes "platform_wf p" "in_range addr (ram_base p) (ram_size p)"
  shows "ok_with (\<lambda>_. True) (ram_get p (unat (addr - ram_base p)))"
  using assms ram_offset [OF assms] by (auto simp: ram_get_def platform_wf_def)

lemma platform_read8_ok:
  assumes wf: "platform_wf p"
  shows "ok_with (\<lambda>(v, p'). platform_wf p') (platform_read8 addr p)"
proof -
  have m: "unat ((addr - MSM8916_CLK_CTL) mod 0x1000) < 0x1000"
    by (simp add: unat_mod)
  show ?thesis
    unfolding platform_read8_def
    by (intro ok_with_if ok_with_bind [OF ram_get_ok [OF wf]] uart_read_ok wf)
      (use wf m in \<open>auto simp: platform_wf_def dest!: in_range_offset\<close>)
qed

lemma ram_put_ok:
  assumes "platform_wf p" "in_range addr (ram_base p) (ram_size p)"
  shows "ok_with platform_wf (ram_put p (unat (addr - ram_base p)) v)"
  using assms ram_offset [OF assms] by (auto simp: ram_put_def platform_wf_def)

lemma platform_write8_ok:
  assumes wf: "platform_wf p"
  shows "ok_with platform_wf (platform_write8 addr v p)"
proof -
  have m: "unat ((addr - MSM8916_CLK_CTL) mod 0x1000) < 0x1000"
    by (simp add: unat_mod)
  have u: "platform_wf (uart_write off v p)" for off
    using wf by (simp add: uart_write_def platform_wf_def)
  show ?thesis
    unfolding platform_write8_def
    by (intro ok_with_if ram_put_ok wf)
      (use wf m u in \<open>auto simp: platform_wf_def dest!: in_range_offset\<close>)
qed

lemma platform_read16_ok:
  "platform_wf p \<Longrightarrow> ok_with (\<lambda>(v, p'). platform_wf p') (platform_read16 addr p)"
  unfolding platform_read16_def
  by (rule ok_with_bind [OF platform_read8_ok], assumption,
      clarsimp, rule ok_with_bind [OF platform_read8_ok], assumption, clarsimp)

lemma platform_read32_ok:
  "platform_wf p \<Longrightarrow> ok_with (\<lambda>(v, p'). platform_wf p') (platform_read32 addr p)"
  unfolding platform_read32_def
  by (rule ok_with_bind [OF platform_read8_ok], assumption,
      clarsimp, rule ok_with_bind [OF platform_read8_ok], assumption,
      clarsimp, rule ok_with_bind [OF platform_read8_ok], assumption,
      clarsimp, rule ok_with_bind [OF platform_read8_ok], assumption, clarsimp)

lemma platform_write16_ok: "platform_wf p \<Longrightarrow> ok_with platform_wf (platform_write16 addr h p)"
  unfolding platform_write16_def
  by (blast intro: ok_with_bind platform_write8_ok)

lemma platform_write32_ok: "platform_wf p \<Longrightarrow> ok_with platform_wf (platform_write32 addr w p)"
  unfolding platform_write32_def
  by (blast intro: ok_with_bind platform_write8_ok)

text \<open>The platform's callbacks meet the contract that the interpreter relies on.\<close>

interpretation bus: memory_bus platform_read8 platform_write8 platform_read16 platform_write16
  platform_read32 platform_write32 platform_wf
  by unfold_locales
    (rule platform_read8_ok platform_write8_ok platform_read16_ok platform_write16_ok
      platform_read32_ok platform_write32_ok, assumption)+

section \<open>RAM as a flat memory\<close>

text \<open>
  A window of addresses on which byte accesses behave as a plain array: a read returns the byte of
  the view and changes nothing, a write updates exactly one byte of the view. Word accesses composed
  of four byte accesses then store and fetch whole words.
\<close>

locale ram_window =
  fixes rd8 :: "('p, u8) reader" and wr8 :: "('p, u8) writer"
    and inv :: "'p \<Rightarrow> bool" and view :: "'p \<Rightarrow> u32 \<Rightarrow> u8" and window :: "'p \<Rightarrow> u32 \<Rightarrow> bool"
  assumes rd: "inv p \<Longrightarrow> window p a \<Longrightarrow> rd8 a p = Some (view p a, p)"
    and wr: "inv p \<Longrightarrow> window p a \<Longrightarrow>
      \<exists>p'. wr8 a v p = Some p' \<and> inv p' \<and> window p' = window p \<and> view p' = (view p)(a := v)"
begin

lemma read_word:
  assumes "inv p" "window p a" "window p (a + 1)" "window p (a + 2)" "window p (a + 3)"
  shows "do { (b0, p1) \<leftarrow> rd8 a p; (b1, p2) \<leftarrow> rd8 (a + 1) p1;
              (b2, p3) \<leftarrow> rd8 (a + 2) p2; (b3, p4) \<leftarrow> rd8 (a + 3) p3;
              Some (le32 b0 b1 b2 b3, p4) } =
    Some (le32 (view p a) (view p (a + 1)) (view p (a + 2)) (view p (a + 3)), p)"
  using assms by (simp add: rd)

lemma write_word:
  assumes "inv p" "window p a" "window p (a + 1)" "window p (a + 2)" "window p (a + 3)"
  shows "\<exists>p'. do { p1 \<leftarrow> wr8 a b0 p; p2 \<leftarrow> wr8 (a + 1) b1 p1;
                  p3 \<leftarrow> wr8 (a + 2) b2 p2; wr8 (a + 3) b3 p3 } = Some p' \<and>
    inv p' \<and> window p' = window p \<and>
    view p' = (view p)(a := b0, a + 1 := b1, a + 2 := b2, a + 3 := b3)"
proof -
  obtain p1 where 1: "wr8 a b0 p = Some p1" "inv p1" "window p1 = window p"
      "view p1 = (view p)(a := b0)" using wr assms by blast
  obtain p2 where 2: "wr8 (a + 1) b1 p1 = Some p2" "inv p2" "window p2 = window p"
      "view p2 = (view p1)(a + 1 := b1)" using wr 1 assms by metis
  obtain p3 where 3: "wr8 (a + 2) b2 p2 = Some p3" "inv p3" "window p3 = window p"
      "view p3 = (view p2)(a + 2 := b2)" using wr 2 assms by metis
  obtain p4 where 4: "wr8 (a + 3) b3 p3 = Some p4" "inv p4" "window p4 = window p"
      "view p4 = (view p3)(a + 3 := b3)" using wr 3 assms by metis
  from 1 2 3 4 show ?thesis by simp
qed

lemma write_read_word:
  assumes "inv p" "window p a" "window p (a + 1)" "window p (a + 2)" "window p (a + 3)"
  shows "\<exists>p'. do { p1 \<leftarrow> wr8 a (byte_of 0 w) p; p2 \<leftarrow> wr8 (a + 1) (byte_of 1 w) p1;
                  p3 \<leftarrow> wr8 (a + 2) (byte_of 2 w) p2; wr8 (a + 3) (byte_of 3 w) p3 } = Some p' \<and>
    inv p' \<and> (\<forall>b. b \<notin> {a, a + 1, a + 2, a + 3} \<longrightarrow> view p' b = view p b) \<and>
    do { (b0, p1) \<leftarrow> rd8 a p'; (b1, p2) \<leftarrow> rd8 (a + 1) p1;
         (b2, p3) \<leftarrow> rd8 (a + 2) p2; (b3, p4) \<leftarrow> rd8 (a + 3) p3;
         Some (le32 b0 b1 b2 b3, p4) } = Some (w, p')"
proof -
  from write_word [OF assms, of "byte_of 0 w" "byte_of 1 w" "byte_of 2 w" "byte_of 3 w"]
  obtain p' where p': "do { p1 \<leftarrow> wr8 a (byte_of 0 w) p; p2 \<leftarrow> wr8 (a + 1) (byte_of 1 w) p1;
      p3 \<leftarrow> wr8 (a + 2) (byte_of 2 w) p2; wr8 (a + 3) (byte_of 3 w) p3 } = Some p'"
    and i: "inv p'" and win: "window p' = window p"
    and v: "view p' = (view p)(a := byte_of 0 w, a + 1 := byte_of 1 w, a + 2 := byte_of 2 w,
      a + 3 := byte_of 3 w)" by blast
  have "do { (b0, p1) \<leftarrow> rd8 a p'; (b1, p2) \<leftarrow> rd8 (a + 1) p1;
         (b2, p3) \<leftarrow> rd8 (a + 2) p2; (b3, p4) \<leftarrow> rd8 (a + 3) p3;
         Some (le32 b0 b1 b2 b3, p4) } = Some (w, p')"
    using read_word [of p' a] i win assms by (simp add: v)
  with p' i v show ?thesis by auto
qed

end

definition ram_addr :: "platform \<Rightarrow> u32 \<Rightarrow> bool" where
  "ram_addr p a \<longleftrightarrow> in_range a (ram_base p) (ram_size p)"

definition ram_view :: "platform \<Rightarrow> u32 \<Rightarrow> u8" where
  "ram_view p a = (case ram p of None \<Rightarrow> 0 | Some b \<Rightarrow> buf_cells b (unat (a - ram_base p)))"

interpretation dram: ram_window platform_read8 platform_write8 platform_wf ram_view ram_addr
proof unfold_locales
  fix p a
  assume wf: "platform_wf p" and a: "ram_addr p a"
  then obtain b where b: "ram p = Some b" by (auto simp: platform_wf_def)
  with wf a have i: "unat (a - ram_base p) < buf_len b"
    by (auto simp: ram_addr_def intro: ram_offset)
  show "platform_read8 a p = Some (ram_view p a, p)"
    using a b i by (simp add: platform_read8_def ram_addr_def ram_get_def ram_view_def)
  have eq: "unat (x - ram_base p) = unat (a - ram_base p) \<longleftrightarrow> x = a" for x
    by (metis diff_add_cancel word_unat_eq_iff)
  fix v
  show "\<exists>p'. platform_write8 a v p = Some p' \<and> platform_wf p' \<and> ram_addr p' = ram_addr p \<and>
      ram_view p' = (ram_view p)(a := v)"
    using a b i wf
    by (auto simp: platform_write8_def ram_addr_def ram_put_def ram_view_def platform_wf_def
        fun_eq_iff eq)
qed

end
