(* ===== verification/Sim_Elf.thy ===== *)
theory Sim_Elf
  imports Sim_Platform
begin

text \<open>
  \<open>platform_load_elf\<close> of \<^verbatim>\<open>src/Tools/msm8simu/platform.c\<close>. A file is its list of bytes; \<open>fread\<close> of one
  item of \<open>n\<close> bytes at position \<open>pos\<close> yields the bytes that are there and reports success when all
  \<open>n\<close> are. The headers are the 32-bit ELF structures, read on a little-endian host.
\<close>

section \<open>Reading structures from a file\<close>

type_synonym fbytes = "u8 list"

definition fread_at :: "fbytes \<Rightarrow> nat \<Rightarrow> nat \<Rightarrow> u8 list" where
  "fread_at f pos n = take n (drop pos f)"

definition u16_at :: "u8 list \<Rightarrow> nat \<Rightarrow> u16" where
  "u16_at bs i = le16 (bs ! i) (bs ! (i + 1))"

definition u32_at :: "u8 list \<Rightarrow> nat \<Rightarrow> u32" where
  "u32_at bs i = le32 (bs ! i) (bs ! (i + 1)) (bs ! (i + 2)) (bs ! (i + 3))"

record elf32_ehdr =
  e_ident :: "u8 list"
  e_machine :: u16
  e_entry :: u32
  e_phoff :: u32
  e_phentsize :: u16
  e_phnum :: u16

definition elf32_ehdr_of :: "u8 list \<Rightarrow> elf32_ehdr" where
  "elf32_ehdr_of bs = \<lparr>e_ident = take 16 bs, e_machine = u16_at bs 18, e_entry = u32_at bs 24,
     e_phoff = u32_at bs 28, e_phentsize = u16_at bs 42, e_phnum = u16_at bs 44\<rparr>"

record elf32_phdr =
  p_type :: u32
  p_offset :: u32
  p_vaddr :: u32
  p_paddr :: u32
  p_filesz :: u32
  p_memsz :: u32
  p_flags :: u32

definition elf32_phdr_of :: "u8 list \<Rightarrow> elf32_phdr" where
  "elf32_phdr_of bs = \<lparr>p_type = u32_at bs 0, p_offset = u32_at bs 4, p_vaddr = u32_at bs 8,
     p_paddr = u32_at bs 12, p_filesz = u32_at bs 16, p_memsz = u32_at bs 20,
     p_flags = u32_at bs 24\<rparr>"

section \<open>Loading one segment\<close>

text \<open>
  The bytes of the file are stored first, then the rest of the segment is cleared; both stores go
  through the host pointer \<open>plat->ram + offset\<close>.
\<close>

definition copy_segment :: "fbytes \<Rightarrow> elf32_phdr \<Rightarrow> nat \<Rightarrow> platform \<Rightarrow> platform option" where
  "copy_segment f ph offset p =
     do { b \<leftarrow> ram p;
          b1 \<leftarrow> (if p_filesz ph > 0
                 then buf_blit b offset (fread_at f (unat (p_offset ph)) (unat (p_filesz ph)))
                 else Some b);
          b2 \<leftarrow> (if p_memsz ph > p_filesz ph
                 then buf_blit b1 (offset + unat (p_filesz ph))
                   (replicate (unat (p_memsz ph - p_filesz ph)) 0)
                 else Some b1);
          Some (p\<lparr>ram := Some b2\<rparr>) }"

definition load_segment :: "fbytes \<Rightarrow> elf32_phdr \<Rightarrow> platform \<Rightarrow> platform option" where
  "load_segment f ph p =
    (if p_type ph \<noteq> 1 then Some p
     else
       (let load_addr = (if p_paddr ph \<noteq> 0 then p_paddr ph else p_vaddr ph);
            top = ram_base p + ram_size p
        in if load_addr < ram_base p \<or> load_addr + p_memsz ph > top then
             (if load_addr \<ge> ram_base p \<and> load_addr + p_memsz ph \<le> top
              then copy_segment f ph (unat (load_addr - ram_base p)) p
              else Some p)
           else copy_segment f ph (unat (load_addr - ram_base p)) p))"

section \<open>The loader\<close>

text \<open>The position of program header \<open>i\<close>, in 32-bit arithmetic.\<close>

definition phdr_pos :: "elf32_ehdr \<Rightarrow> nat \<Rightarrow> nat" where
  "phdr_pos eh i = unat (e_phoff eh + of_nat i * ucast (e_phentsize eh))"

fun load_phdrs :: "fbytes \<Rightarrow> elf32_ehdr \<Rightarrow> nat list \<Rightarrow> platform \<Rightarrow> platform option" where
  "load_phdrs f eh [] p = Some p"
| "load_phdrs f eh (i # is) p =
    (let bs = fread_at f (phdr_pos eh i) 32 in
     if length bs \<noteq> 32 then load_phdrs f eh is p
     else do { p' \<leftarrow> load_segment f (elf32_phdr_of bs) p; load_phdrs f eh is p' })"

text \<open>
  The file is \<open>None\<close> when \<open>fopen\<close> fails. The result is the return code, the value stored through
  \<open>entry_out\<close> (if any) and the platform; \<open>None\<close> is a host memory access outside the RAM block.
\<close>

definition platform_load_elf ::
    "fbytes option \<Rightarrow> platform \<Rightarrow> (int \<times> u32 option \<times> platform) option" where
  "platform_load_elf fo p =
    (case fo of
       None \<Rightarrow> Some (-1, None, p)
     | Some f \<Rightarrow>
        (let hd = fread_at f 0 52 in
         if length hd \<noteq> 52 then Some (-1, None, p)
         else
           (let eh = elf32_ehdr_of hd in
            if e_ident eh ! 0 \<noteq> 0x7F \<or> e_ident eh ! 1 \<noteq> 0x45 \<or>
               e_ident eh ! 2 \<noteq> 0x4C \<or> e_ident eh ! 3 \<noteq> 0x46 then Some (-1, None, p)
            else if e_ident eh ! 4 \<noteq> 1 then Some (-1, None, p)
            else if e_machine eh \<noteq> 40 then Some (-1, None, p)
            else do { p' \<leftarrow> load_phdrs f eh [0..<unat (e_phnum eh)] p;
                      Some (0, Some (e_entry eh), p') })))"

section \<open>When the loader is safe\<close>

text \<open>
  What the loader's range check leaves to the file: no 32-bit wrap-around in the end address, and no
  more bytes in the file than in memory.
\<close>

definition phdr_fits :: "elf32_phdr \<Rightarrow> bool" where
  "phdr_fits ph \<longleftrightarrow> p_filesz ph \<le> p_memsz ph \<and>
     (let load_addr = (if p_paddr ph \<noteq> 0 then p_paddr ph else p_vaddr ph)
      in load_addr \<le> load_addr + p_memsz ph)"

lemma fread_at_length: "length (fread_at f pos n) \<le> n"
  by (simp add: fread_at_def)

lemma copy_segment_cells:
  assumes b: "ram p = Some b" and fit: "offset + unat (p_memsz ph) \<le> buf_len b"
    and le: "p_filesz ph \<le> p_memsz ph"
    and full: "length (fread_at f (unat (p_offset ph)) (unat (p_filesz ph))) = unat (p_filesz ph)"
  shows "copy_segment f ph offset p =
    Some (p\<lparr>ram := Some (Buf (buf_len b) (\<lambda>k.
      if offset \<le> k \<and> k < offset + unat (p_filesz ph) then f ! (unat (p_offset ph) + (k - offset))
      else if offset \<le> k \<and> k < offset + unat (p_memsz ph) then 0 else buf_cells b k))\<rparr>)"
proof -
  let ?vs = "fread_at f (unat (p_offset ph)) (unat (p_filesz ph))"
  have le': "unat (p_filesz ph) \<le> unat (p_memsz ph)" using le by (simp add: word_le_nat_alt)
  have diff: "unat (p_memsz ph - p_filesz ph) = unat (p_memsz ph) - unat (p_filesz ph)"
    using le by (simp add: unat_sub)
  have nth: "?vs ! k = f ! (unat (p_offset ph) + k)" if "k < unat (p_filesz ph)" for k
    using that full by (auto simp: fread_at_def)
  have e: "?vs = []" if "p_filesz ph = 0" using that by (simp add: fread_at_def)
  have 1: "(if p_filesz ph > 0 then buf_blit b offset ?vs else Some b) =
      Some (Buf (buf_len b) (\<lambda>k. if offset \<le> k \<and> k < offset + unat (p_filesz ph)
        then f ! (unat (p_offset ph) + (k - offset)) else buf_cells b k))"
  proof (cases "p_filesz ph = 0")
    case True
    then show ?thesis by (cases b) (auto simp: fun_eq_iff)
  next
    case False
    then show ?thesis
      using buf_blit_Some [of offset ?vs b] full fit le'
      by (auto simp: fun_eq_iff nth word_gt_0 intro!: nth)
  qed
  let ?b1 = "Buf (buf_len b) (\<lambda>k. if offset \<le> k \<and> k < offset + unat (p_filesz ph)
        then f ! (unat (p_offset ph) + (k - offset)) else buf_cells b k)"
  have 2: "(if p_memsz ph > p_filesz ph
      then buf_blit ?b1 (offset + unat (p_filesz ph)) (replicate (unat (p_memsz ph - p_filesz ph)) 0)
      else Some ?b1) =
    Some (Buf (buf_len b) (\<lambda>k.
      if offset \<le> k \<and> k < offset + unat (p_filesz ph) then f ! (unat (p_offset ph) + (k - offset))
      else if offset \<le> k \<and> k < offset + unat (p_memsz ph) then 0 else buf_cells b k))"
  proof (cases "p_memsz ph > p_filesz ph")
    case True
    have "offset + unat (p_filesz ph) + length (replicate (unat (p_memsz ph - p_filesz ph)) (0::u8))
        \<le> buf_len ?b1" using fit le' by (simp add: diff)
    from buf_blit_Some [OF this] True le' show ?thesis
      by (auto simp: fun_eq_iff diff)
  next
    case False
    with le have "p_memsz ph = p_filesz ph" by simp
    then show ?thesis by (auto simp: fun_eq_iff)
  qed
  show ?thesis unfolding copy_segment_def b Option.bind.simps 1 2 ..
qed

lemma copy_segment_ok:
  assumes wf: "platform_wf p" and b: "ram p = Some b"
    and fit: "offset + unat (p_memsz ph) \<le> buf_len b" and le: "p_filesz ph \<le> p_memsz ph"
  shows "ok_with platform_wf (copy_segment f ph offset p)"
proof -
  let ?vs = "fread_at f (unat (p_offset ph)) (unat (p_filesz ph))"
  have le': "unat (p_filesz ph) \<le> unat (p_memsz ph)" using le by (simp add: word_le_nat_alt)
  have vs: "offset + length ?vs \<le> buf_len b"
    using fit le' fread_at_length [of f "unat (p_offset ph)" "unat (p_filesz ph)"] by linarith
  have z: "offset + unat (p_filesz ph) + length (replicate (unat (p_memsz ph - p_filesz ph)) (0::u8))
      \<le> buf_len b" using fit le le' by (simp add: unat_sub)
  obtain b1 where b1: "(if p_filesz ph > 0 then buf_blit b offset ?vs else Some b) = Some b1"
    and l1: "buf_len b1 = buf_len b"
    using buf_blit_Some [OF vs] by (cases "p_filesz ph > 0") auto
  obtain b2 where b2: "(if p_memsz ph > p_filesz ph
      then buf_blit b1 (offset + unat (p_filesz ph)) (replicate (unat (p_memsz ph - p_filesz ph)) 0)
      else Some b1) = Some b2" and l2: "buf_len b2 = buf_len b"
    using buf_blit_Some [of "offset + unat (p_filesz ph)" _ b1] z l1
    by (cases "p_memsz ph > p_filesz ph") auto
  show ?thesis
    unfolding copy_segment_def b Option.bind.simps b1 b2
    using wf b l2 by (auto simp: platform_wf_def)
qed

lemma load_segment_fit:
  assumes wf: "platform_wf p" and b: "ram p = Some b"
    and lo: "\<not> a < ram_base p" and hi: "\<not> a + m > ram_base p + ram_size p" and nw: "a \<le> a + m"
  shows "unat (a - ram_base p) + unat m \<le> buf_len b"
proof -
  have "unat (a - ram_base p) + unat m \<le> unat (ram_size p)"
    using lo hi nw wf unfolding platform_wf_def by unat_arith
  with wf b show ?thesis by (auto simp: platform_wf_def)
qed

lemma load_segment_ok:
  assumes wf: "platform_wf p" and fits: "phdr_fits ph"
  shows "ok_with platform_wf (load_segment f ph p)"
proof -
  obtain b where b: "ram p = Some b" using wf by (auto simp: platform_wf_def)
  let ?a = "if p_paddr ph \<noteq> 0 then p_paddr ph else p_vaddr ph"
  have le: "p_filesz ph \<le> p_memsz ph" and nw: "?a \<le> ?a + p_memsz ph"
    using fits unfolding phdr_fits_def Let_def by blast+
  have "ok_with platform_wf (copy_segment f ph (unat (?a - ram_base p)) p)"
    if "\<not> (?a < ram_base p \<or> ?a + p_memsz ph > ram_base p + ram_size p)"
    using copy_segment_ok [OF wf b load_segment_fit [OF wf b _ _ nw] le] that by blast
  then show ?thesis
    unfolding load_segment_def Let_def using wf
    by (intro ok_with_if) auto
qed

text \<open>The program headers a file presents to the loader.\<close>

definition phdrs_of :: "fbytes \<Rightarrow> elf32_ehdr \<Rightarrow> nat list \<Rightarrow> elf32_phdr list" where
  "phdrs_of f eh is = map (\<lambda>i. elf32_phdr_of (fread_at f (phdr_pos eh i) 32))
     (filter (\<lambda>i. length (fread_at f (phdr_pos eh i) 32) = 32) is)"

lemma load_phdrs_ok:
  "platform_wf p \<Longrightarrow> list_all phdr_fits (phdrs_of f eh is) \<Longrightarrow>
    ok_with platform_wf (load_phdrs f eh is p)"
proof (induction "is" arbitrary: p)
  case Nil
  then show ?case by simp
next
  case (Cons i "is")
  then show ?case
    by (auto simp: Let_def phdrs_of_def intro!: ok_with_bind [OF load_segment_ok])
qed

end
