(* ===== verification/Sim_Main.thy ===== *)
theory Sim_Main
  imports Sim_Elf
begin

text \<open>
  \<^verbatim>\<open>src/Tools/msm8simu/main.c\<close>: the command line, the set-up of CPU and platform, and the execution
  loop. The loop may run forever when no instruction limit is given, so it takes fuel and
  distinguishes running out of it from an undefined host access (\<open>Faulted\<close>) and from stopping.
\<close>

section \<open>Command line\<close>

record options =
  elf_path :: "string option"
  trace :: bool
  dump_state :: bool
  max_insns :: u64
  verbose :: bool

definition default_options :: options where
  "default_options = \<lparr>elf_path = None, trace = False, dump_state = False, max_insns = 0,
     verbose = False\<rparr>"

datatype parsed = Exit int | Run options

text \<open>
  \<open>strtoull(s, NULL, 0)\<close> of the C library: white space, an optional sign, a base prefix, then the
  longest run of digits; a value that does not fit is \<open>ULLONG_MAX\<close>.
\<close>

definition c_isspace :: "char \<Rightarrow> bool" where
  "c_isspace ch \<longleftrightarrow> ch \<in> {CHR '' '', CHR 0x09, CHR 0x0A, CHR 0x0B, CHR 0x0C, CHR 0x0D}"

definition digit_value :: "char \<Rightarrow> nat" where
  "digit_value ch =
    (let n = (of_char ch :: nat) in
     if 48 \<le> n \<and> n \<le> 57 then n - 48
     else if 97 \<le> n \<and> n \<le> 122 then n - 87
     else if 65 \<le> n \<and> n \<le> 90 then n - 55
     else 99)"

fun digits_value :: "nat \<Rightarrow> string \<Rightarrow> nat \<Rightarrow> nat" where
  "digits_value base [] acc = acc"
| "digits_value base (ch # s) acc =
     (if digit_value ch < base then digits_value base s (acc * base + digit_value ch) else acc)"

definition unsigned_value :: "string \<Rightarrow> nat" where
  "unsigned_value s =
    (case s of
       CHR ''0'' # x # d # rest \<Rightarrow>
         (if (x = CHR ''x'' \<or> x = CHR ''X'') \<and> digit_value d < 16
          then digits_value 16 (d # rest) 0 else digits_value 8 s 0)
     | CHR ''0'' # _ \<Rightarrow> digits_value 8 s 0
     | _ \<Rightarrow> digits_value 10 s 0)"

definition strtoull0 :: "string \<Rightarrow> u64" where
  "strtoull0 s =
    (let s' = dropWhile c_isspace s;
         neg = (s' \<noteq> [] \<and> hd s' = CHR ''-'');
         s'' = (if s' \<noteq> [] \<and> (hd s' = CHR ''-'' \<or> hd s' = CHR ''+'') then tl s' else s');
         n = unsigned_value s''
     in if n \<ge> 2 ^ 64 then - 1 else if neg then - of_nat n else of_nat n)"

fun parse_args :: "string list \<Rightarrow> options \<Rightarrow> parsed" where
  "parse_args [] opts = Run opts"
| "parse_args (a # rest) opts =
    (if a = [] \<or> hd a \<noteq> CHR ''-'' then Run (opts\<lparr>elf_path := Some a\<rparr>)
     else if a = ''-t'' then parse_args rest (opts\<lparr>trace := True\<rparr>)
     else
       (case (a = ''-n'', rest) of
          (True, n # rest') \<Rightarrow> parse_args rest' (opts\<lparr>max_insns := strtoull0 n\<rparr>)
        | _ \<Rightarrow>
          (if a = ''-v'' then parse_args rest (opts\<lparr>verbose := True\<rparr>)
           else if a = ''-d'' then parse_args rest (opts\<lparr>dump_state := True\<rparr>)
           else if a = ''-h'' then Exit 0
           else Exit 1)))"

section \<open>The execution loop\<close>

abbreviation trace_start :: u32 where "trace_start \<equiv> 0x80000000"
abbreviation trace_end :: u32 where "trace_end \<equiv> 0x80100000"

record run_state =
  r_cpu :: "platform arm_cpu"
  r_plat :: platform
  insn_count :: u64
  last_pc :: u32
  same_pc_count :: u32

datatype stop_reason = CpuHalted | InfiniteLoop | InsnLimit

text \<open>
  The trace reads the traced word through the CPU's callback, which can pop the UART.
\<close>

definition trace_insn :: "bool \<Rightarrow> u32 \<Rightarrow> platform arm_cpu \<Rightarrow> platform \<Rightarrow> platform option" where
  "trace_insn tr pc_before c p =
    (if tr \<and> trace_start \<le> pc_before \<and> pc_before < trace_end
     then map_option snd (call_read (cb_read32 c) pc_before p)
     else Some p)"

text \<open>What an iteration does with the stepped CPU \<open>c\<close> and platform \<open>p\<close>, and its breaks.\<close>

definition after_step ::
    "bool \<Rightarrow> u64 \<Rightarrow> run_state \<Rightarrow> platform arm_cpu \<Rightarrow> platform \<Rightarrow>
     (stop_reason option \<times> run_state) option" where
  "after_step tr limit s c p =
    (let pc_before = regs (r_cpu s) ARM_REG_PC + 8;
         count = insn_count s + 1;
         pc_now = regs c ARM_REG_PC + 8;
         same = (if pc_now = last_pc s then same_pc_count s + 1 else 0);
         s1 = s\<lparr>r_cpu := c, r_plat := p, insn_count := count, same_pc_count := same\<rparr>
     in if pc_now = last_pc s \<and> same > 100 then Some (Some InfiniteLoop, s1)
        else do {
          p' \<leftarrow> trace_insn tr pc_before c p;
          Some (if limit > 0 \<and> count \<ge> limit then Some InsnLimit else None,
                s1\<lparr>r_plat := p', last_pc := pc_now\<rparr>) })"

definition loop_body :: "bool \<Rightarrow> u64 \<Rightarrow> run_state \<Rightarrow> (stop_reason option \<times> run_state) option" where
  "loop_body tr limit s =
     do { (r, c, p) \<leftarrow> cpu_step (r_cpu s) (r_plat s); after_step tr limit s c p }"

datatype run_result = OutOfFuel | Faulted | Stopped stop_reason run_state

fun run_loop :: "bool \<Rightarrow> u64 \<Rightarrow> nat \<Rightarrow> run_state \<Rightarrow> run_result" where
  "run_loop tr limit fuel s =
    (if halted (r_cpu s) then Stopped CpuHalted s
     else
       (case fuel of
          0 \<Rightarrow> OutOfFuel
        | Suc n \<Rightarrow>
           (case loop_body tr limit s of
              None \<Rightarrow> Faulted
            | Some (Some why, s') \<Rightarrow> Stopped why s'
            | Some (None, s') \<Rightarrow> run_loop tr limit n s')))"

declare run_loop.simps [simp del]

section \<open>main\<close>

datatype outcome = ExitCode int | HostFault | StillRunning

definition start_state :: "bool \<Rightarrow> u32 \<Rightarrow> platform arm_cpu \<Rightarrow> platform \<Rightarrow> run_state" where
  "start_state tr entry c p =
    (let c1 = cpu_reset c entry;
         c2 = set_reg ARM_REG_SP (MSM8916_RAM_BASE + MSM8916_RAM_SIZE - 0x1000) c1
     in \<lparr>r_cpu = c2, r_plat = p, insn_count = 0, last_pc = 0, same_pc_count = 0\<rparr>)"

text \<open>\<open>fs\<close> is the file system and \<open>calloc_ok\<close> the answer of the allocator.\<close>

definition sim_main ::
    "bool \<Rightarrow> (string \<Rightarrow> fbytes option) \<Rightarrow> nat \<Rightarrow> string list \<Rightarrow> outcome" where
  "sim_main calloc_ok fs fuel argv =
    (case parse_args (tl argv) default_options of
       Exit n \<Rightarrow> ExitCode n
     | Run opts \<Rightarrow>
        (case elf_path opts of
           None \<Rightarrow> ExitCode 1
         | Some path \<Rightarrow>
            (let c = cpu_init\<lparr>trace_enabled := trace opts, trace_addr_start := trace_start,
                              trace_addr_end := trace_end\<rparr>
             in case platform_init calloc_ok c of
                  None \<Rightarrow> ExitCode 1
                | Some (p, c') \<Rightarrow>
                   (case platform_load_elf (fs path) p of
                      None \<Rightarrow> HostFault
                    | Some (code, entry, p') \<Rightarrow>
                       (case (code = 0, entry) of
                          (True, Some e) \<Rightarrow>
                            (case run_loop (trace opts) (max_insns opts) fuel
                                    (start_state (trace opts) e c' p') of
                               OutOfFuel \<Rightarrow> StillRunning
                             | Faulted \<Rightarrow> HostFault
                             | Stopped _ _ \<Rightarrow> ExitCode 0)
                        | _ \<Rightarrow> ExitCode 1)))))"

section \<open>Safety and termination of the loop\<close>

definition platform_wired :: "platform arm_cpu \<Rightarrow> bool" where
  "platform_wired c \<longleftrightarrow>
     cb_read8 c = Some platform_read8 \<and> cb_write8 c = Some platform_write8 \<and>
     cb_read16 c = Some platform_read16 \<and> cb_write16 c = Some platform_write16 \<and>
     cb_read32 c = Some platform_read32 \<and> cb_write32 c = Some platform_write32"

lemma platform_wired_eq: "bus.wired = platform_wired"
  by (simp add: fun_eq_iff bus.wired_def platform_wired_def)

definition run_inv :: "run_state \<Rightarrow> bool" where
  "run_inv s \<longleftrightarrow> platform_wired (r_cpu s) \<and> platform_wf (r_plat s) \<and> \<not> halted (r_cpu s)"

lemma fixed_part_halted: "fixed_part c = fixed_part c' \<Longrightarrow> halted c = halted c'"
  by (simp add: fixed_part_def)

definition loop_post :: "u64 \<Rightarrow> run_state \<Rightarrow> stop_reason option \<times> run_state \<Rightarrow> bool" where
  "loop_post limit s = (\<lambda>(stop, s'). run_inv s' \<and> insn_count s' = insn_count s + 1 \<and>
    (stop = None \<longrightarrow> limit = 0 \<or> insn_count s' < limit))"

lemma trace_insn_ok:
  assumes "platform_wired c" "platform_wf p"
  shows "ok_with platform_wf (trace_insn tr a c p)"
  using platform_read32_ok [OF assms(2), of a] assms
  by (auto simp: trace_insn_def call_read_def platform_wired_def elim!: ok_withE)

lemma after_step_ok:
  assumes "platform_wired c" "platform_wf p" "\<not> halted c"
  shows "ok_with (loop_post limit s) (after_step tr limit s c p)"
  unfolding after_step_def Let_def
  by (intro ok_with_if ok_with_bind [OF trace_insn_ok [OF assms(1,2)]])
    (use assms in \<open>auto simp: loop_post_def run_inv_def not_le word_gt_0\<close>)

lemma loop_body_ok:
  assumes "run_inv s"
  shows "ok_with (loop_post limit s) (loop_body tr limit s)"
  unfolding loop_body_def
  by (rule ok_with_bind [OF bus.cpu_step_ok [of "r_cpu s" "r_plat s", unfolded platform_wired_eq]])
    (use assms in \<open>auto simp: run_inv_def dest: fixed_part_halted intro!: after_step_ok\<close>)

text \<open>With an instruction limit the loop stops within that many iterations; it never faults.\<close>

lemma run_loop_no_fault: "run_inv s \<Longrightarrow> run_loop tr limit fuel s \<noteq> Faulted"
proof (induction fuel arbitrary: s)
  case 0
  then show ?case by (simp add: run_loop.simps)
next
  case (Suc n)
  from loop_body_ok [OF Suc.prems, of limit tr] obtain stop s'
    where "loop_body tr limit s = Some (stop, s')" "run_inv s'"
    by (auto simp: loop_post_def elim!: ok_withE)
  with Suc show ?case by (cases stop) (simp_all add: run_loop.simps [of tr limit "Suc n"])
qed

lemma run_loop_limit:
  assumes "run_inv s" "insn_count s < limit" "unat limit - unat (insn_count s) \<le> fuel"
  shows "\<exists>why s'. run_loop tr limit fuel s = Stopped why s' \<and> insn_count s' \<le> limit \<and>
    run_inv s' \<and> why \<noteq> CpuHalted"
  using assms
proof (induction fuel arbitrary: s)
  case 0
  then show ?case by (simp add: word_less_nat_alt)
next
  case (Suc n)
  from loop_body_ok [OF Suc.prems(1), of limit tr] obtain stop s'
    where b: "loop_body tr limit s = Some (stop, s')" and p: "loop_post limit s (stop, s')"
    by (auto elim!: ok_withE)
  have inc: "unat (insn_count s + 1) = unat (insn_count s) + 1"
    using Suc.prems(2) by (rule unat_plus_1)
  have nh: "\<not> halted (r_cpu s)" using Suc.prems(1) by (simp add: run_inv_def)
  show ?case
  proof (cases stop)
    case None
    with p have "run_inv s'" "insn_count s' < limit"
      using Suc.prems(2) by (auto simp: loop_post_def)
    moreover have "unat limit - unat (insn_count s') \<le> n"
      using p inc Suc.prems(3) by (simp add: loop_post_def)
    ultimately show ?thesis
      using Suc.IH [of s'] b None nh by (simp add: run_loop.simps [of tr limit "Suc n"])
  next
    case (Some why)
    have "why \<noteq> CpuHalted"
      using b Some
      by (auto simp: loop_body_def after_step_def Let_def bind_eq_Some_conv split: if_splits)
    moreover have "insn_count s' \<le> limit"
      using p inc Suc.prems(2) by (simp add: loop_post_def word_le_nat_alt word_less_nat_alt)
    ultimately show ?thesis
      using p b Some nh by (simp add: run_loop.simps [of tr limit "Suc n"] loop_post_def)
  qed
qed

end
