(* ===== verification/Sim_Isa.thy ===== *)
theory Sim_Isa
  imports Sim_Safety
begin

text \<open>
  What the instructions of the interpreter compute: the barrel shifter and the arithmetic against
  integer arithmetic, the condition codes, the banked registers, and the effect of branches, block
  transfers and coprocessor instructions on the machine state.
\<close>

section \<open>Signs and carries as integer facts\<close>

lemma uint_u32_bounds: "0 \<le> uint (w :: u32)" "uint w < 4294967296"
  using uint_bounded [of w] by simp_all

lemma bit_31_uint: "bit (w :: u32) 31 \<longleftrightarrow> 2147483648 \<le> uint w"
proof -
  define q where "q = uint w div 2 ^ 31"
  have "bit w 31 \<longleftrightarrow> bit (uint w) 31" by (simp add: bit_uint_iff)
  then have b: "bit w 31 \<longleftrightarrow> odd q" unfolding q_def by (simp only: bit_iff_odd)
  have m: "uint w = 2147483648 * q + uint w mod 2147483648" by (simp add: q_def)
  have r: "0 \<le> uint w mod 2147483648" "uint w mod 2147483648 < 2147483648" by simp_all
  have "q = 0 \<or> q = 1" using m r uint_u32_bounds [of w] by linarith
  with b m r show ?thesis by auto
qed

lemma sint_u32: "sint (w :: u32) = (if bit w 31 then uint w - 4294967296 else uint w)"
proof -
  have "sint w = signed_take_bit 31 (uint w)" by (simp add: sint_uint)
  also have "\<dots> = (if bit w 31 then uint w - 4294967296 else uint w)"
    using uint_bounded [of w]
    by (simp add: signed_take_bit_eq_take_bit_minus bit_uint_iff take_bit_int_eq_self)
  finally show ?thesis .
qed

lemma mod_within:
  fixes x m :: int
  assumes "- m \<le> x" "x < 2 * m"
  shows "x mod m = (if x < 0 then x + m else if x < m then x else x - m)"
  using assms mod_pos_pos_trivial [of "x + m" m] mod_pos_pos_trivial [of "x - m" m]
  by (auto simp: minus_mod_self2)

lemma uint_sum_u32:
  fixes a b :: u32
  shows "(uint a + uint b + of_bool c) mod 4294967296 =
    (if uint a + uint b + of_bool c < 4294967296 then uint a + uint b + of_bool c
     else uint a + uint b + of_bool c - 4294967296)"
proof -
  define s where "s = uint a + uint b + of_bool c"
  have "0 \<le> s" "s < 2 * 4294967296"
    using uint_u32_bounds [of a] uint_u32_bounds [of b] by (auto simp: s_def)
  then show ?thesis unfolding s_def [symmetric] by (subst mod_within) auto
qed

lemma uint_diff_u32:
  fixes a b :: u32
  shows "(uint a - uint b - of_bool c) mod 4294967296 =
    (if uint a < uint b + of_bool c then uint a - uint b - of_bool c + 4294967296
     else uint a - uint b - of_bool c)"
proof -
  define s where "s = uint a - uint b - of_bool c"
  have s: "-4294967296 \<le> s" "s < 4294967296" "uint a < uint b + of_bool c \<longleftrightarrow> s < 0"
    using uint_u32_bounds [of a] uint_u32_bounds [of b]
    by (cases c; simp only: s_def of_bool_eq; linarith)+
  then show ?thesis unfolding s_def [symmetric] s(3) by (subst mod_within) auto
qed

text \<open>The sign bits tell exactly when a 32-bit sum or difference leaves the signed range.\<close>

lemma sign_add:
  fixes a b r :: u32
  assumes "uint r = (uint a + uint b + of_bool c) mod 4294967296"
  shows "bit a 31 = bit b 31 \<and> bit a 31 \<noteq> bit r 31 \<longleftrightarrow>
    sint a + sint b + of_bool c \<notin> {-2147483648..<2147483648}"
  using uint_u32_bounds [of a] uint_u32_bounds [of b] uint_u32_bounds [of r] assms
  unfolding uint_sum_u32 sint_u32 bit_31_uint
  by (smt (verit) atLeastLessThan_iff of_bool_def)

lemma sign_sub:
  fixes a b r :: u32
  assumes "uint r = (uint a - uint b - of_bool c) mod 4294967296"
  shows "bit a 31 \<noteq> bit b 31 \<and> bit a 31 \<noteq> bit r 31 \<longleftrightarrow>
    sint a - sint b - of_bool c \<notin> {-2147483648..<2147483648}"
  using uint_u32_bounds [of a] uint_u32_bounds [of b] uint_u32_bounds [of r] assms
  unfolding uint_diff_u32 sint_u32 bit_31_uint
  by (smt (verit) atLeastLessThan_iff of_bool_def)

lemma drop_bit_31: "drop_bit 31 (w :: u32) \<noteq> 0 \<longleftrightarrow> bit w 31"
proof
  assume "drop_bit 31 w \<noteq> 0"
  then obtain k where "bit (drop_bit 31 w) k" by (metis bit_eqI bit_0_eq bot_apply bot_bool_def)
  then have "bit w (31 + k)" by (simp only: bit_drop_bit_eq o_def)
  moreover from this have "31 + k < 32" using bit_imp_le_length by fastforce
  ultimately show "bit w 31" by (cases k) auto
next
  assume "bit w 31"
  then have "bit (drop_bit 31 w) 0" by (simp only: bit_drop_bit_eq o_def) simp
  then show "drop_bit 31 w \<noteq> 0" by auto
qed

lemma sub_overflow_bit: "drop_bit 31 ((a XOR b) AND (a XOR r)) \<noteq> (0 :: u32) \<longleftrightarrow>
    bit a 31 \<noteq> bit b 31 \<and> bit a 31 \<noteq> bit r 31"
  unfolding drop_bit_31 by (simp add: bit_simps)

lemma add_overflow_bit:
  "NOT ((a XOR b) AND 0x80000000) AND ((a XOR r) AND 0x80000000) \<noteq> (0 :: u32) \<longleftrightarrow>
    bit a 31 = bit b 31 \<and> bit a 31 \<noteq> bit r 31"
proof -
  let ?m = "push_bit 31 1 :: u32"
  have m: "0x80000000 = ?m" by simp
  have "NOT ((a XOR b) AND ?m) AND ((a XOR r) AND ?m) = (NOT (a XOR b) AND (a XOR r)) AND ?m"
    by (rule bit_word_eqI) (auto simp only: bit_simps)
  then show ?thesis unfolding m by (simp only: and_push_bit_1) (simp add: bit_simps)
qed

text \<open>The 64-bit intermediate results of the carry computations.\<close>

lemma low_of_int: "(ucast (of_int n :: u64) :: u32) = of_int n"
  by transfer (simp add: take_bit_take_bit)

lemma u64_sum:
  "(ucast (a :: u32) + ucast (b :: u32) + of_bool c :: u64) = of_int (uint a + uint b + of_bool c)"
  by simp

lemma u64_diff:
  "(ucast (a :: u32) - ucast (b :: u32) - of_bool c :: u64) = of_int (uint a - uint b - of_bool c)"
  by simp

lemma uint_u64_sum:
  "uint (ucast (a :: u32) + ucast (b :: u32) + of_bool c :: u64) = uint a + uint b + of_bool c"
proof -
  define n where "n = uint a + uint b + of_bool c"
  have "0 \<le> n" "n < 18446744073709551616"
    using uint_u32_bounds [of a] uint_u32_bounds [of b]
    by (cases c; simp only: n_def of_bool_eq; linarith)+
  then show ?thesis unfolding u64_sum n_def [symmetric] by (simp add: uint_word_of_int)
qed

lemma carry_add: "ucast (a :: u32) + ucast (b :: u32) + of_bool c > (0xFFFFFFFF :: u64) \<longleftrightarrow>
    4294967296 \<le> uint a + uint b + of_bool c"
  unfolding word_less_def uint_u64_sum by (simp, linarith)

lemma carry_sub: "(ucast (a :: u32) :: u64) \<ge> ucast (b :: u32) + of_bool c \<longleftrightarrow>
    uint b + of_bool c \<le> uint a"
  using uint_u64_sum [of a 0 False] uint_u64_sum [of b 0 c]
  unfolding word_le_def by simp

section \<open>Arithmetic instructions\<close>

text \<open>
  The reference: the exact integer result of an addition or subtraction with a carry or borrow,
  reduced to 32 bits, with the carry and the signed overflow of the architecture.
\<close>

definition add_spec :: "u32 \<Rightarrow> u32 \<Rightarrow> bool \<Rightarrow> u32 \<times> bool \<times> bool" where
  "add_spec a b c =
    (of_int (uint a + uint b + of_bool c),
     uint a + uint b + of_bool c \<ge> 2 ^ 32,
     sint a + sint b + of_bool c < - (2 ^ 31) \<or> sint a + sint b + of_bool c \<ge> 2 ^ 31)"

definition sub_spec :: "u32 \<Rightarrow> u32 \<Rightarrow> bool \<Rightarrow> u32 \<times> bool \<times> bool" where
  "sub_spec a b borrow =
    (of_int (uint a - uint b - of_bool borrow),
     uint a - uint b - of_bool borrow \<ge> 0,
     sint a - sint b - of_bool borrow < - (2 ^ 31) \<or> sint a - sint b - of_bool borrow \<ge> 2 ^ 31)"

lemma add_spec_bits:
  fixes a b r :: u32
  assumes "r = of_int (uint a + uint b + of_bool c)"
  shows "add_spec a b c = (r, ucast a + ucast b + of_bool c > (0xFFFFFFFF :: u64),
    NOT ((a XOR b) AND 0x80000000) AND ((a XOR r) AND 0x80000000) \<noteq> 0)"
proof -
  have "uint r = (uint a + uint b + of_bool c) mod 4294967296"
    unfolding assms by (simp only: uint_word_of_int) simp
  from sign_add [OF this] show ?thesis
    unfolding add_overflow_bit carry_add add_spec_def by (auto simp: assms)
qed

lemma sub_spec_bits:
  fixes a b r :: u32
  assumes "r = of_int (uint a - uint b - of_bool c)"
  shows "sub_spec a b c = (r, ucast a \<ge> (ucast b + of_bool c :: u64),
    drop_bit 31 ((a XOR b) AND (a XOR r)) \<noteq> 0)"
proof -
  have "uint r = (uint a - uint b - of_bool c) mod 4294967296"
    unfolding assms by (simp only: uint_word_of_int) simp
  from sign_sub [OF this] show ?thesis
    unfolding sub_overflow_bit carry_sub sub_spec_def by (auto simp: assms)
qed


section \<open>Flags and condition codes\<close>

lemma bit_flag_masks:
  "bit CPSR_N n \<longleftrightarrow> n = 31" "bit CPSR_Z n \<longleftrightarrow> n = 30"
  "bit CPSR_C n \<longleftrightarrow> n = 29" "bit CPSR_V n \<longleftrightarrow> n = 28"
proof -
  have e: "bit (push_bit m 1 :: u32) n \<longleftrightarrow> n = m" if "m < 32" for m
    using that by (subst bit_push_bit_iff) (auto simp: bit_simps)
  show "bit CPSR_N n \<longleftrightarrow> n = 31" using e [of 31] by simp
  show "bit CPSR_Z n \<longleftrightarrow> n = 30" using e [of 30] by simp
  show "bit CPSR_C n \<longleftrightarrow> n = 29" using e [of 29] by simp
  show "bit CPSR_V n \<longleftrightarrow> n = 28" using e [of 28] by simp
qed

lemma bit_flags:
  assumes "n < 32"
  shows "bit (cpsr (cpu_update_flags_nz c r)) n \<longleftrightarrow>
      (if n = 31 then bit r 31 else if n = 30 then r = 0 else bit (cpsr c) n)"
    and "bit (cpsr (cpu_set_carry c b)) n \<longleftrightarrow> (if n = 29 then b else bit (cpsr c) n)"
    and "bit (cpsr (cpu_set_overflow c b)) n \<longleftrightarrow> (if n = 28 then b else bit (cpsr c) n)"
proof -
  have sel: "cpsr (c\<lparr>cpsr := x\<rparr>) = x" for x by simp
  have m: "bit (if P then w else 0 :: u32) n \<longleftrightarrow> P \<and> bit w n" for P w by simp
  note bits = m bit_or_iff bit_and_iff bit_not_iff_eq bit_flag_masks and_top_bit
  have n: "2 ^ n \<noteq> (0 :: u32)" using assms by (simp add: exp_eq_zero_iff)
  show "bit (cpsr (cpu_update_flags_nz c r)) n \<longleftrightarrow>
      (if n = 31 then bit r 31 else if n = 30 then r = 0 else bit (cpsr c) n)"
    "bit (cpsr (cpu_set_carry c b)) n \<longleftrightarrow> (if n = 29 then b else bit (cpsr c) n)"
    "bit (cpsr (cpu_set_overflow c b)) n \<longleftrightarrow> (if n = 28 then b else bit (cpsr c) n)"
    unfolding cpu_update_flags_nz_def cpu_set_carry_def cpu_set_overflow_def sel bits
    using n by auto
qed

lemma condition_met_bits:
  fixes c :: "'p arm_cpu"
  defines "f \<equiv> bit (cpsr c)"
  shows "cpu_condition_met c 0 \<longleftrightarrow> f 30" "cpu_condition_met c 1 \<longleftrightarrow> \<not> f 30"
    "cpu_condition_met c 2 \<longleftrightarrow> f 29" "cpu_condition_met c 3 \<longleftrightarrow> \<not> f 29"
    "cpu_condition_met c 4 \<longleftrightarrow> f 31" "cpu_condition_met c 5 \<longleftrightarrow> \<not> f 31"
    "cpu_condition_met c 6 \<longleftrightarrow> f 28" "cpu_condition_met c 7 \<longleftrightarrow> \<not> f 28"
    "cpu_condition_met c 8 \<longleftrightarrow> f 29 \<and> \<not> f 30" "cpu_condition_met c 9 \<longleftrightarrow> \<not> f 29 \<or> f 30"
    "cpu_condition_met c 0xA \<longleftrightarrow> f 31 = f 28" "cpu_condition_met c 0xB \<longleftrightarrow> f 31 \<noteq> f 28"
    "cpu_condition_met c 0xC \<longleftrightarrow> \<not> f 30 \<and> f 31 = f 28"
    "cpu_condition_met c 0xD \<longleftrightarrow> f 30 \<or> f 31 \<noteq> f 28"
    "cpu_condition_met c 0xE"
  by (simp_all add: cpu_condition_met_def f_def Let_def)

lemma alu_cmp: "alu_op 0xA a b oc v =
    (a - b, b \<le> a, bit a 31 \<noteq> bit (a - b) 31 \<and> bit b 31 \<noteq> bit (a - b) 31)"
proof -
  have "(ucast b :: u64) \<le> ucast a \<longleftrightarrow> b \<le> a"
    using carry_sub [of b False a] by (simp add: word_le_def)
  moreover have "drop_bit 31 ((a XOR (a - b)) AND (b XOR (a - b))) \<noteq> 0 \<longleftrightarrow>
      bit a 31 \<noteq> bit (a - b) 31 \<and> bit b 31 \<noteq> bit (a - b) 31"
    unfolding drop_bit_31 by (simp add: bit_simps)
  ultimately show ?thesis by (simp add: alu_op_def Let_def)
qed

lemma exec_cmp:
  assumes "drop_bit 21 insn AND 0xF = (0xA :: u32)"
  defines "a \<equiv> \<lambda>c. regs c (reg_field 16 insn)" and "b \<equiv> \<lambda>c. fst (decode_op2 insn c)"
  shows "exec_alu insn c = cpu_set_overflow (cpu_set_carry (cpu_update_flags_nz c (a c - b c))
      (b c \<le> a c)) (bit (a c) 31 \<noteq> bit (a c - b c) 31 \<and> bit (b c) 31 \<noteq> bit (a c - b c) 31)"
  unfolding exec_alu_def Let_def assms(1)
  by (simp add: alu_cmp a_def b_def split: prod.splits)

text \<open>
  After CMP the unsigned conditions EQ, NE, HS, LO, HI and LS hold exactly when the corresponding
  unsigned comparison of the first operand with the decoded second operand holds.
\<close>

theorem cmp_unsigned_conditions:
  fixes c :: "'p arm_cpu"
  defines "a \<equiv> \<lambda>insn. regs c (reg_field 16 insn)" and "b \<equiv> \<lambda>insn. fst (decode_op2 insn c)"
  assumes "drop_bit 21 insn AND 0xF = (0xA :: u32)"
  shows "(cpu_condition_met (exec_alu insn c) 0x0 \<longleftrightarrow> a insn = b insn) \<and>
    (cpu_condition_met (exec_alu insn c) 0x1 \<longleftrightarrow> a insn \<noteq> b insn) \<and>
    (cpu_condition_met (exec_alu insn c) 0x2 \<longleftrightarrow> b insn \<le> a insn) \<and>
    (cpu_condition_met (exec_alu insn c) 0x3 \<longleftrightarrow> a insn < b insn) \<and>
    (cpu_condition_met (exec_alu insn c) 0x8 \<longleftrightarrow> b insn < a insn) \<and>
    (cpu_condition_met (exec_alu insn c) 0x9 \<longleftrightarrow> a insn \<le> b insn)"
  unfolding exec_cmp [OF assms(3)] condition_met_bits a_def b_def
  by (auto simp: bit_flags not_le le_less)

text \<open>A CPU with the values 1 and 2 in its first registers, and CMP of the two.\<close>

definition two_regs :: "unit arm_cpu" where
  "two_regs = cpu_init\<lparr>regs := (\<lambda>_. 0)(0 := 1, 1 := 2)\<rparr>"

lemma two_regs_cmp:
  "regs two_regs (reg_field 16 0xE1500001) = 1" "fst (decode_op2 0xE1500001 two_regs) = 2"
  by (simp_all add: two_regs_def cpu_init_def reg_field_def decode_op2_def decode_imm_shift_def Let_def
      carry_flag_def)

theorem cmp_unsigned_conditions_witness:
  "\<not> cpu_condition_met (exec_alu 0xE1500001 two_regs) 0x0 \<and>
   cpu_condition_met (exec_alu 0xE1500001 two_regs) 0x3 \<and>
   \<not> cpu_condition_met (exec_alu 0xE1500001 two_regs) 0x8"
  using cmp_unsigned_conditions [where insn = "0xE1500001" and c = two_regs] by (simp add: two_regs_cmp)

text \<open>
  After CMP the signed conditions GE and LT do not depend on the comparison when the operands
  have the same sign (GE holds exactly for non-negative operands), and for operands of different
  sign they follow the sign of the wrapped difference; the architecture's GE is the signed
  comparison of the operands.
\<close>

theorem cmp_signed_conditions:
  fixes c :: "'p arm_cpu"
  defines "a \<equiv> \<lambda>insn. regs c (reg_field 16 insn)" and "b \<equiv> \<lambda>insn. fst (decode_op2 insn c)"
  assumes "drop_bit 21 insn AND 0xF = (0xA :: u32)"
  shows "(cpu_condition_met (exec_alu insn c) 0xA \<longleftrightarrow>
      (if bit (a insn) 31 = bit (b insn) 31 then 0 \<le> sint (a insn)
       else 0 \<le> sint (a insn - b insn))) \<and>
    (cpu_condition_met (exec_alu insn c) 0xB \<longleftrightarrow> \<not> cpu_condition_met (exec_alu insn c) 0xA)"
proof -
  have s: "0 \<le> sint w \<longleftrightarrow> \<not> bit w 31" for w :: u32
    using uint_u32_bounds [of w] by (simp add: sint_u32)
  show ?thesis
    unfolding exec_cmp [OF assms(3)] condition_met_bits a_def b_def s
    by (auto simp: bit_flags)
qed

theorem cmp_signed_conditions_witness:
  "cpu_condition_met (exec_alu 0xE1500001 two_regs) 0xA \<and>
   \<not> cpu_condition_met (exec_alu 0xE1500001 two_regs) 0xB"
  using cmp_signed_conditions [where insn = "0xE1500001" and c = two_regs] by (simp add: two_regs_cmp)

section \<open>Barrel shifter\<close>

lemma and_1_ne_0: "v AND 1 \<noteq> (0 :: 'a::len word) \<longleftrightarrow> bit v 0"
  using drop_bit_and_1 [of 0 v] by simp

lemma lsr_int: "(of_int (uint v div 2 ^ n) :: 'a::len word) = drop_bit n v"
  unfolding drop_bit_eq_div [symmetric] by transfer simp

lemma asr_int: "(of_int (sint v div 2 ^ n) :: 'a::len word) = signed_drop_bit n v"
  unfolding drop_bit_eq_div [symmetric] by transfer simp

lemma asr_far:
  assumes "31 \<le> n"
  shows "signed_drop_bit n v = signed_drop_bit 31 (v :: u32)"
proof (rule bit_word_eqI)
  fix k assume "k < LENGTH(32)"
  then show "bit (signed_drop_bit n v) k \<longleftrightarrow> bit (signed_drop_bit 31 v) k"
    using assms by (cases "n = 31"; cases k) (auto simp: bit_signed_drop_bit_iff)
qed

lemma rotr_split:
  assumes "0 < m" "m < 32"
  shows "drop_bit m v OR push_bit (32 - m) v = word_rotr m (v :: u32)"
proof (rule bit_word_eqI)
  fix k assume "k < LENGTH(32)"
  then show "bit (drop_bit m v OR push_bit (32 - m) v) k \<longleftrightarrow> bit (word_rotr m v) k"
    using assms
    by (auto simp: bit_simps mod_if add.commute [of m] diff_diff_right dest: bit_imp_le_length)
qed

lemma rotr_0: "word_rotr 0 (v :: u32) = v"
  by (rule bit_word_eqI) (simp add: bit_word_rotr_iff)

lemma rotr_mod: "word_rotr n (v :: u32) = word_rotr (n mod 32) v"
  by (rule bit_word_eqI) (simp add: bit_word_rotr_iff mod_simps)

text \<open>
  The reference: shifts of the integer value, the bit shifted out last as the carry, rotation with
  extend for a zero rotation.
\<close>

definition shift_spec :: "bool \<Rightarrow> u32 \<Rightarrow> u32 \<Rightarrow> nat \<Rightarrow> u32 \<times> bool" where
  "shift_spec c v type n =
    (if type = 0 then
       (of_int (uint v * 2 ^ n), if n = 0 then c else n \<le> 32 \<and> bit v (32 - n))
     else if type = 1 then
       (of_int (uint v div 2 ^ n), if n = 0 then c else bit v (n - 1))
     else if type = 2 then
       (of_int (sint v div 2 ^ n), if n = 0 then c else bit v (min (n - 1) 31))
     else if n = 0 then (push_bit 31 (of_bool c) OR drop_bit 1 v, bit v 0)
     else (word_rotr n v, if n mod 32 = 0 then c else bit (word_rotr n v) 31))"

lemma unat_32_minus: "x < 32 \<Longrightarrow> unat (32 - x :: u32) = 32 - unat x"
  by (simp add: unat_sub word_le_nat_alt word_less_nat_alt)

lemma carry_flag_bit: "carry_flag c = of_bool (bit (cpsr c) 29)"
  by (simp add: carry_flag_def)

lemma barrel_shift_logical:
  "barrel_shift c v 0 a = shift_spec (bit (cpsr c) 29) v 0 (unat a)"
  "barrel_shift c v 1 a = shift_spec (bit (cpsr c) 29) v 1 (unat a)"
proof -
  consider "a = 0" | "0 < a" "a < 32" | "a = 32" | "32 < a" using word_gt_0 by force
  then have "barrel_shift c v 0 a = shift_spec (bit (cpsr c) 29) v 0 (unat a) \<and>
    barrel_shift c v 1 a = shift_spec (bit (cpsr c) 29) v 1 (unat a)"
  proof cases
    case 2
    then have "unat a \<noteq> 0" "unat a < 32" "unat (a - 1) = unat a - 1"
      by (auto simp: word_less_nat_alt unat_minus_one unat_gt_0)
    with 2 show ?thesis
      by (simp add: barrel_shift_def shift_spec_def Let_def carry_flag_bit lsr_int unat_32_minus
          push_bit_eq_mult unat_eq_zero word_gt_0)
  next
    case 3
    have "push_bit 32 v = 0" by (rule bit_word_eqI) (simp add: bit_simps)
    then have "v * 2 ^ 32 = 0" by (simp only: push_bit_eq_mult)
    moreover have "(of_int (uint v div 2 ^ 32) :: u32) = 0"
      unfolding lsr_int by (simp add: drop_bit_word_beyond)
    ultimately show ?thesis using 3
      by (simp add: barrel_shift_def shift_spec_def Let_def and_1_ne_0)
  next
    case 4
    then have n: "32 < unat a" by (simp add: word_less_nat_alt)
    then have "2 ^ unat a = (0 :: u32)" by simp
    then have "v * 2 ^ unat a = 0" by (simp only: mult_zero_right)
    with 4 n show ?thesis
      by (auto simp: barrel_shift_def shift_spec_def Let_def lsr_int push_bit_eq_mult word_gt_0
          drop_bit_word_beyond dest: bit_imp_le_length)
  qed (simp_all add: barrel_shift_def shift_spec_def Let_def carry_flag_bit)
  then show "barrel_shift c v 0 a = shift_spec (bit (cpsr c) 29) v 0 (unat a)"
    "barrel_shift c v 1 a = shift_spec (bit (cpsr c) 29) v 1 (unat a)" by auto
qed

lemma barrel_shift_arith:
  "barrel_shift c v 2 a = shift_spec (bit (cpsr c) 29) v 2 (unat a)"
proof -
  consider "a = 0" | "0 < a" "a < 32" | "32 \<le> a" using word_gt_0 by force
  then show ?thesis
  proof cases
    case 2
    then have "unat a \<noteq> 0" "unat a < 32" "unat (a - 1) = unat a - 1"
      by (auto simp: word_less_nat_alt unat_minus_one unat_gt_0)
    with 2 show ?thesis
      by (simp add: barrel_shift_def shift_spec_def Let_def asr_int unat_eq_zero word_gt_0)
  next
    case 3
    then have "32 \<le> unat a" by (simp add: word_le_nat_alt)
    moreover from this have "signed_drop_bit (unat a) v = signed_drop_bit 31 v"
      by (intro asr_far) simp
    moreover have "min (unat a - 1) 31 = 31" using 3 by (simp add: word_le_nat_alt)
    moreover have "\<not> a < 32" "a \<noteq> 0" using 3 by auto
    ultimately show ?thesis
      by (simp add: barrel_shift_def shift_spec_def Let_def asr_int unat_eq_zero)
  qed (simp_all add: barrel_shift_def shift_spec_def Let_def carry_flag_bit asr_int)
qed

lemma barrel_shift_rotate:
  "barrel_shift c v 3 a = shift_spec (bit (cpsr c) 29) v 3 (unat a)"
proof (cases "a = 0")
  case True
  then show ?thesis
    by (simp add: barrel_shift_def shift_spec_def Let_def carry_flag_bit and_1_ne_0)
next
  case False
  define m where "m = a AND 31"
  have m: "unat m = unat a mod 32"
  proof -
    have "m = take_bit 5 a" unfolding m_def take_bit_eq_mask by (simp add: mask_eq_exp_minus_1)
    then show ?thesis by (simp add: take_bit_eq_mod unat_mod)
  qed
  show ?thesis
  proof (cases "m = 0")
    case True
    then have "unat a mod 32 = 0" using m by simp
    with True False show ?thesis
      by (simp add: barrel_shift_def shift_spec_def Let_def carry_flag_bit m_def [symmetric]
          rotr_mod [of "unat a"] rotr_0 unat_eq_zero)
  next
    case F: False
    then have "0 < unat m" by (simp add: unat_gt_0)
    moreover have "unat m < 32" using m by simp
    moreover from this have "unat (32 - m) = 32 - unat m"
      by (simp add: unat_32_minus word_less_nat_alt)
    ultimately show ?thesis using False F rotr_split [of "unat m" v] m
      by (simp add: barrel_shift_def shift_spec_def Let_def m_def [symmetric]
          rotr_mod [of "unat a"] unat_eq_zero)
  qed
qed



section \<open>Banked registers\<close>

definition exception_modes :: "u32 list" where
  "exception_modes =
    [CPSR_MODE_FIQ, CPSR_MODE_IRQ, CPSR_MODE_SVC, CPSR_MODE_ABT, CPSR_MODE_UND]"

lemma fiq_regs: "8 \<le> r \<Longrightarrow> r \<le> 12 \<Longrightarrow> r = 8 \<or> r = 9 \<or> r = 10 \<or> r = 11 \<or> r = (12 :: reg)"
proof -
  assume "8 \<le> r" "r \<le> 12"
  then have "unat r \<in> {8, 9, 10, 11, 12}" by (auto simp: word_le_nat_alt)
  then show ?thesis by (simp add: word_unat_eq_iff)
qed

lemma mode_modebits: "cpsr (cpu_set_cpsr_modebits c m) AND CPSR_MODE_MASK = m AND CPSR_MODE_MASK"
  unfolding cpu_set_cpsr_modebits_def
  by (rule bit_word_eqI) (auto simp: bit_simps)

lemma banked_get_set: "cpu_get_reg_banked (cpu_set_reg_banked c r v) r' =
     (if r' = r then v else cpu_get_reg_banked c r')"
proof -
  have m: "cpsr (cpu_set_reg_banked c r v) = cpsr c" by (simp add: cpu_set_reg_banked_def Let_def)
  show ?thesis
    unfolding cpu_get_reg_banked_def Let_def m
    unfolding cpu_set_reg_banked_def Let_def
    by (auto dest: fiq_regs)
qed

lemma banked_isolated:
 assumes "r = ARM_REG_SP \<or> r = ARM_REG_LR" "cpsr c AND CPSR_MODE_MASK \<noteq> m"
    "cpsr c AND CPSR_MODE_MASK \<in> set exception_modes" "m \<in> set exception_modes"
 shows "cpu_get_reg_banked (cpu_set_cpsr_modebits (cpu_set_reg_banked c r v) m) r' =
    cpu_get_reg_banked (cpu_set_cpsr_modebits c m) r'"
proof -
  have m: "m AND CPSR_MODE_MASK = m" using assms(4) by (auto simp: exception_modes_def)
  define k where "k = cpsr c AND CPSR_MODE_MASK"
  have k: "k = CPSR_MODE_FIQ \<or> k = CPSR_MODE_IRQ \<or> k = CPSR_MODE_SVC \<or> k = CPSR_MODE_ABT \<or>
      k = CPSR_MODE_UND" "k \<noteq> m"
    using assms by (simp_all add: k_def exception_modes_def)
  have "m = CPSR_MODE_FIQ \<or> m = CPSR_MODE_IRQ \<or> m = CPSR_MODE_SVC \<or> m = CPSR_MODE_ABT \<or>
      m = CPSR_MODE_UND" using assms by (simp add: exception_modes_def)
  with k assms(1) show ?thesis
    unfolding cpu_get_reg_banked_def Let_def mode_modebits m
    unfolding cpu_set_reg_banked_def cpu_set_cpsr_modebits_def Let_def k_def [symmetric]
    by (elim disjE) simp_all
qed

text \<open>
  A banked register keeps what was stored in it and no other register changes, in every mode;
  a stack pointer or link register stored in one exception mode is invisible from every other
  exception mode.
\<close>

theorem banked_registers:
  "cpu_get_reg_banked (cpu_set_reg_banked c r v) r' =
     (if r' = r then v else cpu_get_reg_banked c r') \<and>
   (list_ex (\<lambda>x. x = r) [ARM_REG_SP, ARM_REG_LR] \<longrightarrow>
    cpsr c AND CPSR_MODE_MASK \<in> set exception_modes \<longrightarrow> m \<in> set exception_modes \<longrightarrow>
    m \<noteq> cpsr c AND CPSR_MODE_MASK \<longrightarrow>
    cpu_get_reg_banked (cpu_set_cpsr_modebits (cpu_set_reg_banked c r v) m) r' =
    cpu_get_reg_banked (cpu_set_cpsr_modebits c m) r')"
  using banked_isolated [of r c m v r'] by (auto simp: banked_get_set)

theorem banked_registers_witness:
  "cpu_get_reg_banked (cpu_set_cpsr_modebits (cpu_set_reg_banked
     (two_regs\<lparr>cpsr := CPSR_MODE_SVC\<rparr>) ARM_REG_SP 7) CPSR_MODE_IRQ) ARM_REG_SP = 0"
  using banked_registers [of "two_regs\<lparr>cpsr := CPSR_MODE_SVC\<rparr>" ARM_REG_SP 7 ARM_REG_SP CPSR_MODE_IRQ]
  by (simp add: exception_modes_def two_regs_def cpu_init_def cpu_set_cpsr_modebits_def
      cpu_get_reg_banked_def)

section \<open>Immediates and CLZ\<close>

text \<open>
  An immediate operand is its eight-bit value rotated right by twice its four-bit rotation
  field, and its carry is bit 31 of the result unless the rotation is zero.
\<close>

theorem decode_imm_rotr:
  "decode_imm insn carry =
    (let rot = 2 * unat (drop_bit 8 insn AND 0xF); v = word_rotr rot (insn AND 0xFF)
     in (v, if rot = 0 then carry else bit v 31))"
proof -
  define f where "f = drop_bit 8 insn AND 0xF"
  have "f \<le> 0xF" unfolding f_def by (rule word_and_le1)
  then have f: "unat f \<le> 15" by (simp add: word_le_nat_alt)
  then have rot: "unat (f * 2) = 2 * unat f" by (simp add: unat_word_ariths)
  show ?thesis
  proof (cases "f = 0")
    case True
    then show ?thesis by (simp add: decode_imm_def f_def [symmetric] Let_def rotr_0)
  next
    case False
    then have pos: "0 < unat f" by (simp add: unat_gt_0)
    with rot have ne: "f * 2 \<noteq> 0" by (metis mult_eq_0_iff neq0_conv unat_0 zero_neq_numeral)
    have "unat (32 - f * 2) = 32 - 2 * unat f"
      using rot f unat_32_minus [of "f * 2"] by (simp add: word_less_nat_alt)
    with rotr_split [of "2 * unat f" "insn AND 0xFF"] pos f rot ne show ?thesis
      by (simp add: decode_imm_def f_def [symmetric] Let_def)
  qed
qed

text \<open>
  The CLZ loop terminates for every operand and counts the zero bits above the highest one;
  the result is 32 for zero.
\<close>

theorem clz_count_leading_zeros:
  "\<exists>n. clz_count v = Some (of_nat n) \<and> n \<le> 32 \<and>
     list_all (\<lambda>i. \<not> bit v i) [32 - n..<32] \<and> (n = 32 \<or> bit v (31 - n))"
proof (cases "v = 0")
  case True
  then show ?thesis by (auto simp: clz_count_def list_all_iff intro!: exI [of _ 32])
next
  case False
  from top_bit_exists [OF this] obtain k
    where k: "bit v k" "\<And>i. k < i \<Longrightarrow> \<not> bit v i" "k < LENGTH(32)" by blast
  with False have "clz_count v = Some (of_nat (31 - k))"
    using clz_loop_count [of v k 32 0] by (simp add: clz_count_def)
  with k show ?thesis by (auto simp: list_all_iff intro!: exI [of _ "31 - k"])
qed

section \<open>Branches and block transfers\<close>

text \<open>The address the next step fetches from.\<close>

definition next_fetch :: "'p arm_cpu \<Rightarrow> u32" where
  "next_fetch c = regs c ARM_REG_PC + 8"

text \<open>
  A branch goes to the address of the instruction plus the offset that the disassembler uses
  minus eight, sixteen bytes before the target that \<open>cpu_dump_disasm\<close> prints for it; and a branch
  with link executed in supervisor mode leaves register 14, which BX reads, unchanged.
\<close>

theorem branch_target:
  assumes "drop_bit 25 insn AND 0x7 = (5 :: u32)"
  shows "disasm_insn pc insn = Disasm_branch pc (bit insn 24) (drop_bit 28 insn AND 0xF)
      (next_fetch (exec_branch insn pc c) + 16) \<and>
    (cpsr c AND CPSR_MODE_MASK = CPSR_MODE_SVC \<longrightarrow>
      regs (exec_branch insn pc c) ARM_REG_LR = regs c ARM_REG_LR)"
proof -
  have "insn \<noteq> 0" using assms by auto
  then show ?thesis
    using assms
    by (auto simp: disasm_insn_def next_fetch_def exec_branch_def branch_offset_def Let_def
        cpu_set_lr_def cpu_set_reg_banked_def)
qed

theorem branch_target_witness:
  "disasm_insn 0x80000000 0xEB000002 = Disasm_branch 0x80000000 True 0xE
      (next_fetch (exec_branch 0xEB000002 0x80000000 (two_regs\<lparr>cpsr := CPSR_MODE_SVC\<rparr>)) + 16) \<and>
    regs (exec_branch 0xEB000002 0x80000000 (two_regs\<lparr>cpsr := CPSR_MODE_SVC\<rparr>)) ARM_REG_LR = 0"
  using branch_target [of "0xEB000002" "0x80000000" "two_regs\<lparr>cpsr := CPSR_MODE_SVC\<rparr>"]
  by (simp add: two_regs_def cpu_init_def bit_simps)

text \<open>
  The base write-back of a store multiple does not move the base register by the size of the
  transfer: whatever the register list, the base comes back unchanged for the post-indexed forms,
  plus four for increment-before and minus four for decrement-before.
\<close>

theorem stm_writeback:
  assumes "drop_bit 20 insn AND 1 = (0 :: u32)" and "drop_bit 21 insn AND 1 = (1 :: u32)"
    and "exec_block insn c p = Some (c', p')"
  shows "regs c' (reg_field 16 insn) = regs c (reg_field 16 insn) +
    (if \<not> bit insn 24 then 0 else if bit insn 23 then 4 else - 4)"
  using assms
  by (auto simp: exec_block_def ldm_base_def Let_def bind_eq_Some_conv split: if_splits)

theorem stm_writeback_witness:
  "\<exists>c' p'. exec_block 0xE92D000F (two_regs\<lparr>cb_write32 := Some (\<lambda>_ _. Some)\<rparr>) () = Some (c', p') \<and>
    regs c' ARM_REG_SP = - 4"
proof -
  let ?c = "two_regs\<lparr>cb_write32 := Some (\<lambda>_ _. Some)\<rparr>"
  have "stm_loop is rl a ?c () = Some ()" for "is" rl a
    by (induction "is" arbitrary: a) (simp_all add: mem_write32_def call_write_def)
  then have "\<exists>c' p'. exec_block 0xE92D000F ?c () = Some (c', p')"
    by (simp add: exec_block_def Let_def)
  then obtain c' p' where x: "exec_block 0xE92D000F ?c () = Some (c', p')" by blast
  have sp: "reg_field 16 0xE92D000F = ARM_REG_SP" by (simp add: reg_field_def)
  from stm_writeback [OF _ _ x, unfolded sp] x show ?thesis
    by (auto simp: two_regs_def cpu_init_def bit_simps)
qed

end
