(* ===== verification/Sim_Props.thy ===== *)
theory Sim_Props
  imports Sim_Main Sim_Isa
begin

text \<open>
  The simulator as a whole: what the interpreter does on the modelled MSM8916, from one step to the
  complete program, and what the loader and the devices guarantee.
\<close>

section \<open>A fresh machine\<close>

text \<open>The platform and the CPU that \<open>platform_init\<close> leaves behind.\<close>

definition fresh :: "platform \<times> platform arm_cpu" where
  "fresh = (case platform_init True cpu_init of Some pc \<Rightarrow> pc)"

lemma fresh_ok: "platform_wf (fst fresh)" "platform_wired (snd fresh)" "\<not> halted (snd fresh)"
  "ram_base (fst fresh) = MSM8916_RAM_BASE" "ram_size (fst fresh) = MSM8916_RAM_SIZE"
  by (simp_all add: fresh_def platform_init_def platform_wf_def platform_wired_def cpu_init_def)

section \<open>Steps and runs\<close>

text \<open>
  C2: on a well-formed platform a step of a running CPU is defined for every instruction word and
  every register content: no access leaves an array of the platform or goes through a null
  callback. The step keeps the platform well-formed and the callbacks installed, counts one
  cycle, never halts the CPU and never changes SPSR or CP15.
\<close>

theorem cpu_step_safe:
  assumes "platform_wired c" and "platform_wf p" and "\<not> halted c"
  shows "\<exists>c' p'. cpu_step c p = Some (1, c', p') \<and> platform_wired c' \<and> platform_wf p' \<and>
    \<not> halted c' \<and> cycle_count c' = cycle_count c + 1 \<and> spsr c' = spsr c \<and> cp15 c' = cp15 c"
  using bus.cpu_step_ok [of c p, unfolded platform_wired_eq] assms
  by (auto simp: ok_with_def dest: fixed_part_halted)

theorem cpu_step_safe_witness:
  "\<exists>c' p'. cpu_step (snd fresh) (fst fresh) = Some (1, c', p') \<and> platform_wired c' \<and>
    platform_wf p' \<and> \<not> halted c' \<and> cycle_count c' = cycle_count (snd fresh) + 1 \<and>
    spsr c' = spsr (snd fresh) \<and> cp15 c' = cp15 (snd fresh)"
  using cpu_step_safe [OF fresh_ok(2,1,3)] .

lemma platform_init_ok:
  assumes "platform_init ok c = Some (p, c')"
  shows "platform_wf p" "platform_wired c'" "halted c' = halted c"
  using assms by (auto simp: platform_init_def platform_wf_def platform_wired_def split: if_splits)

lemma start_state_ok:
  assumes "platform_wired c" "platform_wf p"
  shows "run_inv (start_state tr e c p)" "insn_count (start_state tr e c p) = 0"
  using assms by (simp_all add: start_state_def run_inv_def platform_wired_def cpu_reset_def Let_def)

text \<open>Every program header that the loader reads from the file is in range.\<close>

definition elf_fits :: "fbytes \<Rightarrow> bool" where
  "elf_fits f \<longleftrightarrow>
    (let eh = elf32_ehdr_of (fread_at f 0 52)
     in list_all phdr_fits (phdrs_of f eh [0..<unat (e_phnum eh)]))"

lemma platform_load_elf_ok:
  assumes "platform_wf p" and "\<And>f. fo = Some f \<Longrightarrow> elf_fits f"
  shows "ok_with (\<lambda>(code, e, p'). platform_wf p' \<and> (code = 0 \<longleftrightarrow> e \<noteq> None)) (platform_load_elf fo p)"
proof (cases fo)
  case None
  then show ?thesis using assms by (simp add: platform_load_elf_def)
next
  case (Some f)
  then have "elf_fits f" by (rule assms(2))
  then have "ok_with platform_wf (load_phdrs f (elf32_ehdr_of (fread_at f 0 52))
      [0..<unat (e_phnum (elf32_ehdr_of (fread_at f 0 52)))] p)"
    using assms(1) by (intro load_phdrs_ok) (simp_all add: elf_fits_def Let_def)
  then obtain p' where "load_phdrs f (elf32_ehdr_of (fread_at f 0 52))
      [0..<unat (e_phnum (elf32_ehdr_of (fread_at f 0 52)))] p = Some p'" "platform_wf p'"
    by (rule ok_withE)
  then show ?thesis
    using assms(1) by (simp add: Some platform_load_elf_def Let_def)
qed

text \<open>
  C1: run with an instruction limit and an ELF file whose program headers neither wrap around nor
  hold more bytes in the file than in memory, the simulator terminates with exit code 0 or 1 within
  that many iterations of its loop, and never accesses host memory outside its arrays.
\<close>

theorem sim_main_terminates:
  assumes "parse_args (tl argv) default_options = Run opts" and "0 < max_insns opts"
    and "\<And>path f. elf_path opts = Some path \<Longrightarrow> fs path = Some f \<Longrightarrow> elf_fits f"
    and "unat (max_insns opts) \<le> fuel"
  shows "sim_main calloc_ok fs fuel argv \<in> {ExitCode 0, ExitCode 1}"
proof (cases "elf_path opts")
  case None
  then show ?thesis by (simp add: sim_main_def assms(1))
next
  case path: (Some path)
  let ?c = "cpu_init\<lparr>trace_enabled := trace opts, trace_addr_start := trace_start,
    trace_addr_end := trace_end\<rparr>"
  show ?thesis
  proof (cases "platform_init calloc_ok ?c")
    case None
    then show ?thesis by (simp add: sim_main_def assms(1) path Let_def)
  next
    case (Some pc)
    then obtain p c where init: "platform_init calloc_ok ?c = Some (p, c)" by (cases pc) simp
    note wf = platform_init_ok [OF init]
    from platform_load_elf_ok [OF wf(1), of "fs path"] assms(3) [OF path]
    obtain code e p' where ld: "platform_load_elf (fs path) p = Some (code, e, p')"
      and wf': "platform_wf p'" and ce: "code = 0 \<longleftrightarrow> e \<noteq> None" by (auto elim!: ok_withE)
    have run: "run_loop (trace opts) (max_insns opts) fuel (start_state (trace opts) e' c p')
        \<notin> {OutOfFuel, Faulted}" for e'
      using run_loop_limit [OF start_state_ok(1) [OF wf(2) wf', where tr = "trace opts" and e = e'],
          where limit = "max_insns opts" and fuel = fuel and tr = "trace opts"] assms(2,4)
      by (auto simp: start_state_ok [OF wf(2) wf'])
    show ?thesis
      using ce run by (cases e) (auto simp: sim_main_def assms(1) path Let_def init ld split: run_result.split)
  qed
qed

text \<open>A file with one loadable segment of four bytes in the file and eight in memory.\<close>

definition tiny_elf :: fbytes where
  "tiny_elf =
    [0x7F, 0x45, 0x4C, 0x46, 1, 1, 1, 0, 0, 0, 0, 0, 0, 0, 0, 0,
     2, 0, 40, 0, 1, 0, 0, 0, 0, 0, 0, 0x80, 52, 0, 0, 0, 0, 0, 0, 0, 0, 0, 0, 0,
     52, 0, 32, 0, 1, 0, 0, 0, 0, 0, 0, 0,
     1, 0, 0, 0, 84, 0, 0, 0, 0, 0, 0, 0x80, 0, 0, 0, 0x80, 4, 0, 0, 0, 8, 0, 0, 0,
     5, 0, 0, 0, 4, 0, 0, 0,
     0xFE, 0xFF, 0xFF, 0xEA]"

definition tiny_phdr :: elf32_phdr where
  "tiny_phdr = \<lparr>p_type = 1, p_offset = 84, p_vaddr = 0x80000000, p_paddr = 0x80000000,
     p_filesz = 4, p_memsz = 8, p_flags = 5\<rparr>"

lemma tiny_elf_fits: "elf_fits tiny_elf"
proof -
  have h: "elf32_ehdr_of (fread_at tiny_elf 0 52) =
      \<lparr>e_ident = [0x7F, 0x45, 0x4C, 0x46, 1, 1, 1, 0, 0, 0, 0, 0, 0, 0, 0, 0],
       e_machine = 40, e_entry = 0x80000000, e_phoff = 52, e_phentsize = 32, e_phnum = 1\<rparr>"
    by (simp add: tiny_elf_def fread_at_def elf32_ehdr_of_def u16_at_def u32_at_def le16_def le32_def)
  have "elf32_phdr_of (fread_at tiny_elf 52 32) = tiny_phdr"
    by (simp add: tiny_elf_def tiny_phdr_def fread_at_def elf32_phdr_of_def u32_at_def le32_def)
  moreover have "phdr_fits tiny_phdr" by (simp add: phdr_fits_def tiny_phdr_def)
  ultimately show ?thesis
    by (simp add: elf_fits_def h phdrs_of_def phdr_pos_def)
qed

theorem sim_main_terminates_witness:
  "sim_main True (\<lambda>_. Some tiny_elf) 5 [''msm8simu'', ''-n'', ''5'', ''a.elf''] \<in>
    {ExitCode 0, ExitCode 1}"
proof (rule sim_main_terminates)
  show "parse_args (tl [''msm8simu'', ''-n'', ''5'', ''a.elf'']) default_options =
      Run (default_options\<lparr>max_insns := 5, elf_path := Some ''a.elf''\<rparr>)"
    by (simp add: strtoull0_def unsigned_value_def digit_value_def c_isspace_def Let_def)
qed (auto simp: default_options_def tiny_elf_fits)

section \<open>Memory\<close>

text \<open>
  In RAM a word store followed by a word load at the same address returns the stored word, at
  any alignment, and the store changes no other byte of RAM.
\<close>

theorem ram_word_roundtrip:
  assumes "platform_wf p"
    and "ram_addr p a" and "ram_addr p (a + 1)" and "ram_addr p (a + 2)" and "ram_addr p (a + 3)"
  shows "\<exists>p'. platform_write32 a w p = Some p' \<and> platform_wf p' \<and>
    platform_read32 a p' = Some (w, p') \<and>
    (\<forall>b. b \<notin> {a, a + 1, a + 2, a + 3} \<longrightarrow> ram_view p' b = ram_view p b)"
  using dram.write_read_word [OF assms, of w]
  unfolding platform_write32_def platform_read32_def by blast

theorem ram_word_roundtrip_witness:
  "\<exists>p'. platform_write32 0x80000003 0xDEADBEEF (fst fresh) = Some p' \<and> platform_wf p' \<and>
    platform_read32 0x80000003 p' = Some (0xDEADBEEF, p') \<and>
    (\<forall>b. b \<notin> {0x80000003, 0x80000003 + 1, 0x80000003 + 2, 0x80000003 + 3} \<longrightarrow>
      ram_view p' b = ram_view (fst fresh) b)"
  by (rule ram_word_roundtrip [OF fresh_ok(1)]) (simp_all add: ram_addr_def fresh_ok in_range_def)

text \<open>Words of RAM: \<open>n\<close> of them from address \<open>a\<close> on, without wrap-around.\<close>

definition ram_words :: "platform \<Rightarrow> u32 \<Rightarrow> nat \<Rightarrow> bool" where
  "ram_words p a n \<longleftrightarrow> unat a + 4 * n < 2 ^ 32 \<and> (\<forall>k < 4 * n. ram_addr p (a + of_nat k))"

lemma ram_words_next:
  assumes "ram_words p a (Suc n)"
  shows "unat (a + 4) = unat a + 4" "ram_words p (a + 4) n"
proof -
  show u: "unat (a + 4) = unat a + 4"
    using assms by (auto simp: ram_words_def unat_word_ariths)
  have all: "ram_addr p (a + of_nat k)" if "k < 4 * Suc n" for k
    using assms that by (simp add: ram_words_def)
  have "ram_addr p (a + 4 + of_nat k)" if "k < 4 * n" for k
    using all [of "4 + k"] that by (simp add: add.assoc)
  then show "ram_words p (a + 4) n" using assms u by (auto simp: ram_words_def)
qed

lemma ram_words_unat:
  assumes "ram_words p a (Suc n)" "k < 4"
  shows "unat (a + of_nat k) = unat a + k"
  using assms by (auto simp: ram_words_def unat_word_ariths unat_of_nat)

lemma ram_words_bytes:
  assumes "ram_words p a (Suc n)"
  shows "ram_addr p a" "ram_addr p (a + 1)" "ram_addr p (a + 2)" "ram_addr p (a + 3)"
proof -
  have "ram_addr p (a + of_nat k)" if "k < 4" for k
    using assms that by (simp add: ram_words_def)
  from this [of 0] this [of 1] this [of 2] this [of 3]
  show "ram_addr p a" "ram_addr p (a + 1)" "ram_addr p (a + 2)" "ram_addr p (a + 3)"
    by simp_all
qed

lemma ram_word_write:
  assumes "platform_wf p" "ram_words p a (Suc n)"
  shows "\<exists>p'. platform_write32 a w p = Some p' \<and> platform_wf p' \<and> ram_addr p' = ram_addr p \<and>
    ram_view p' = (ram_view p)(a := byte_of 0 w, a + 1 := byte_of 1 w, a + 2 := byte_of 2 w,
      a + 3 := byte_of 3 w)"
  using dram.write_word [OF assms(1) ram_words_bytes [OF assms(2)]]
  unfolding platform_write32_def by blast

lemma ram_word_read:
  assumes "platform_wf p" "ram_words p a (Suc n)"
  shows "platform_read32 a p = Some (le32 (ram_view p a) (ram_view p (a + 1)) (ram_view p (a + 2))
    (ram_view p (a + 3)), p)"
  using dram.read_word [OF assms(1) ram_words_bytes [OF assms(2)]]
  unfolding platform_read32_def by blast

lemma stm_ldm_loop:
  assumes "platform_wf p" "ram_words p a (length is)" "distinct is"
    "platform_wired c" "platform_wired c2"
  shows "\<exists>p'. stm_loop is rl a c p = Some p' \<and> platform_wf p' \<and> ram_addr p' = ram_addr p \<and>
    (\<forall>b. unat b < unat a \<longrightarrow> ram_view p' b = ram_view p b) \<and>
    (\<exists>c3. ldm_loop is rl a c2 p' = Some (c3, p') \<and>
      (\<forall>i. regs c3 i = (if i \<in> set is \<and> bit rl (unat i) then store_value i c else regs c2 i)))"
  using assms
proof (induction "is" arbitrary: a p c2)
  case Nil
  then show ?case by simp
next
  case (Cons i "is")
  show ?case
  proof (cases "bit rl (unat i)")
    case False
    from Cons.prems have "ram_words p a (length is)" by (auto simp: ram_words_def)
    with Cons.IH [of p a c2] Cons.prems False show ?thesis
      by (auto simp: and_exp_eq_0_iff_not_bit split: if_splits)
  next
    case True
    let ?v = "store_value i c"
    have rw: "ram_words p a (Suc (length is))" using Cons.prems(2) by simp
    note nx = ram_words_next [OF rw]
    obtain p1 where w: "platform_write32 a ?v p = Some p1" "platform_wf p1"
      and v1: "ram_addr p1 = ram_addr p" "ram_view p1 = (ram_view p)(a := byte_of 0 ?v,
        a + 1 := byte_of 1 ?v, a + 2 := byte_of 2 ?v, a + 3 := byte_of 3 ?v)"
      using ram_word_write [OF Cons.prems(1) rw] by blast
    have rw1: "ram_words p1 (a + 4) (length is)" using nx(2) v1(1) by (simp add: ram_words_def)
    have wired: "platform_wired (set_reg i ?v c2)"
      using Cons.prems(5) by (simp add: platform_wired_def)
    from Cons.IH [OF w(2) rw1 _ Cons.prems(4) wired] Cons.prems(3)
    obtain p' c3 where st: "stm_loop is rl (a + 4) c p1 = Some p'" "platform_wf p'"
      "ram_addr p' = ram_addr p1" and fr: "\<And>b. unat b < unat (a + 4) \<Longrightarrow> ram_view p' b = ram_view p1 b"
      and ld: "ldm_loop is rl (a + 4) (set_reg i ?v c2) p' = Some (c3, p')"
      and rg: "\<And>j. regs c3 j = (if j \<in> set is \<and> bit rl (unat j) then store_value j c
        else regs (set_reg i ?v c2) j)" by auto
    have u: "unat (a + 1) = unat a + 1" "unat (a + 2) = unat a + 2" "unat (a + 3) = unat a + 3"
      using ram_words_unat [OF rw, of 1] ram_words_unat [OF rw, of 2] ram_words_unat [OF rw, of 3]
      by simp_all
    have rw': "ram_words p' a (Suc (length is))" using rw st(3) v1(1) by (simp add: ram_words_def)
    have rd: "platform_read32 a p' = Some (?v, p')"
      using ram_word_read [OF st(2) rw'] u nx(1) by (simp add: fr v1(2))
    have frame: "ram_view p' b = ram_view p b" if "unat b < unat a" for b
      using fr [of b] that nx(1) u by (auto simp: v1(2))
    show ?thesis
      using True st(1,2,3) w(1) v1(1) ld rd frame rg Cons.prems(3-5)
      by (auto simp: mem_write32_def mem_read32_def call_write_def call_read_def platform_wired_def
          and_exp_eq_0_iff_not_bit)
  qed
qed



section \<open>The loader\<close>

text \<open>
  C25: a loadable segment that lies in RAM, does not wrap around and has at most as many bytes in the
  file as in memory appears in RAM at its load address: first the bytes of the file, then zeros up to
  its memory size; every other byte of RAM is unchanged.
\<close>

theorem load_segment_image:
  assumes "platform_wf p" and "p_type ph = 1" and "phdr_fits ph"
    and "a = (if p_paddr ph \<noteq> 0 then p_paddr ph else p_vaddr ph)"
    and "ram_base p \<le> a" and "a + p_memsz ph \<le> ram_base p + ram_size p"
    and "unat (p_offset ph) + unat (p_filesz ph) \<le> length f"
  shows "\<exists>p'. load_segment f ph p = Some p' \<and> platform_wf p' \<and>
    (\<forall>x. ram_addr p x \<longrightarrow> ram_view p' x =
      (if a \<le> x \<and> unat (x - a) < unat (p_filesz ph) then f ! (unat (p_offset ph) + unat (x - a))
       else if a \<le> x \<and> unat (x - a) < unat (p_memsz ph) then 0 else ram_view p x))"
proof -
  obtain b where b: "ram p = Some b" using assms(1) by (auto simp: platform_wf_def)
  let ?o = "unat (a - ram_base p)"
  have le: "p_filesz ph \<le> p_memsz ph" and nw: "a \<le> a + p_memsz ph"
    using assms(3) unfolding phdr_fits_def Let_def assms(4) [symmetric] by blast+
  have fit: "?o + unat (p_memsz ph) \<le> buf_len b"
    using load_segment_fit [OF assms(1) b _ _ nw] assms(5,6) by (simp add: not_less)
  have full: "length (fread_at f (unat (p_offset ph)) (unat (p_filesz ph))) = unat (p_filesz ph)"
    using assms(7) by (simp add: fread_at_def)
  have ld: "load_segment f ph p = copy_segment f ph ?o p"
    using assms(2,5,6) unfolding load_segment_def Let_def assms(4) [symmetric]
    by (simp add: not_less)
  have pos: "(?o \<le> unat (x - ram_base p) \<longleftrightarrow> a \<le> x) \<and>
      (a \<le> x \<longrightarrow> unat (x - ram_base p) = ?o + unat (x - a))" if "ram_addr p x" for x
    using that assms(5) unfolding ram_addr_def in_range_def by unat_arith
  obtain p' where p': "load_segment f ph p = Some p'" "platform_wf p'"
    using copy_segment_ok [OF assms(1) b fit le] unfolding ld by (rule ok_withE)
  have "ram_view p' x =
      (if a \<le> x \<and> unat (x - a) < unat (p_filesz ph) then f ! (unat (p_offset ph) + unat (x - a))
       else if a \<le> x \<and> unat (x - a) < unat (p_memsz ph) then 0 else ram_view p x)"
    if "ram_addr p x" for x
    using p'(1) pos [OF that] unfolding ld copy_segment_cells [OF b fit le full]
    by (auto simp: ram_view_def b)
  with p' show ?thesis by blast
qed

theorem load_segment_image_witness:
  "\<exists>p'. load_segment tiny_elf tiny_phdr (fst fresh) = Some p' \<and> platform_wf p' \<and>
    (\<forall>x. ram_addr (fst fresh) x \<longrightarrow> ram_view p' x =
      (if 0x80000000 \<le> x \<and> unat (x - 0x80000000) < unat (p_filesz tiny_phdr)
       then tiny_elf ! (unat (p_offset tiny_phdr) + unat (x - 0x80000000))
       else if 0x80000000 \<le> x \<and> unat (x - 0x80000000) < unat (p_memsz tiny_phdr) then 0
       else ram_view (fst fresh) x))"
  by (rule load_segment_image [OF fresh_ok(1)])
    (simp_all add: tiny_phdr_def tiny_elf_def phdr_fits_def fresh_ok)

text \<open>
  The loader's range check does not protect the host. A loadable segment whose end address
  passes the check but whose file part is longer than the rest of RAM (more bytes in the file than
  in memory, or an end address that wraps around) makes the loader write behind the RAM block.
\<close>

theorem load_segment_overflow:
  assumes "platform_wf p" and "p_type ph = 1"
    and "a = (if p_paddr ph \<noteq> 0 then p_paddr ph else p_vaddr ph)"
    and "ram_base p \<le> a" and "a + p_memsz ph \<le> ram_base p + ram_size p"
    and "unat (p_offset ph) + unat (p_filesz ph) \<le> length f"
    and "unat (ram_size p) < unat (a - ram_base p) + unat (p_filesz ph)" and "0 < p_filesz ph"
  shows "load_segment f ph p = None"
proof -
  obtain b where b: "ram p = Some b" "buf_len b = unat (ram_size p)"
    using assms(1) by (auto simp: platform_wf_def)
  let ?vs = "fread_at f (unat (p_offset ph)) (unat (p_filesz ph))"
  have len: "length ?vs = unat (p_filesz ph)" using assms(6) by (simp add: fread_at_def)
  with assms(8) have "?vs \<noteq> []" by (auto simp: word_less_nat_alt)
  then have "buf_blit b (unat (a - ram_base p)) ?vs = None"
    using assms(7) b len by (intro buf_blit_None) auto
  moreover have "load_segment f ph p = copy_segment f ph (unat (a - ram_base p)) p"
    using assms(2,4,5) unfolding load_segment_def Let_def assms(3) [symmetric]
    by (simp add: not_less)
  ultimately show ?thesis using assms(8) b by (simp add: copy_segment_def)
qed

theorem load_segment_overflow_witness:
  "load_segment [1, 2] \<lparr>p_type = 1, p_offset = 0, p_vaddr = 0, p_paddr = 0x8FFFFFFF, p_filesz = 2,
     p_memsz = 1, p_flags = 0\<rparr> (fst fresh) = None"
  by (rule load_segment_overflow [OF fresh_ok(1), where a = "0x8FFFFFFF"]) (simp_all add: fresh_ok)

text \<open>
  The loader returns -1, sets no entry point and leaves the platform alone when the file cannot
  be opened, is shorter than an ELF header, or is not a 32-bit ARM ELF file; otherwise, if its
  program headers fit, it returns 0 with the entry point of the header.
\<close>

theorem platform_load_elf_result:
  assumes "platform_wf p" and "elf_fits f"
  shows "platform_load_elf None p = Some (-1, None, p) \<and>
    (if 52 \<le> length f \<and> take 5 f = [0x7F, 0x45, 0x4C, 0x46, 1] \<and> u16_at f 18 = 40
     then \<exists>p'. platform_load_elf (Some f) p = Some (0, Some (u32_at f 24), p') \<and> platform_wf p'
     else platform_load_elf (Some f) p = Some (-1, None, p))"
proof (cases "52 \<le> length f")
  case True
  let ?h = "elf32_ehdr_of (fread_at f 0 52)"
  have nth: "fread_at f 0 52 ! i = f ! i" if "i < 52" for i
    using that by (simp add: fread_at_def)
  have h: "e_machine ?h = u16_at f 18" "e_entry ?h = u32_at f 24"
    "\<And>i. i < 16 \<Longrightarrow> e_ident ?h ! i = f ! i"
    by (simp_all add: elf32_ehdr_of_def u16_at_def u32_at_def nth)
  have t: "take 5 f = [0x7F, 0x45, 0x4C, 0x46, 1] \<longleftrightarrow>
      f ! 0 = 0x7F \<and> f ! 1 = 0x45 \<and> f ! 2 = 0x4C \<and> f ! 3 = 0x46 \<and> f ! 4 = 1"
    using True by (auto simp: list_eq_iff_nth_eq numeral_eq_Suc less_Suc_eq)
  have l: "length (fread_at f 0 52) = 52" using True by (simp add: fread_at_def)
  show ?thesis
    using platform_load_elf_ok [of p "Some f"] assms True
    unfolding t by (auto simp: platform_load_elf_def Let_def l h bind_eq_Some_conv elim!: ok_withE)
next
  case False
  then show ?thesis by (auto simp: platform_load_elf_def Let_def fread_at_def)
qed

theorem platform_load_elf_result_witness:
  "platform_load_elf None (fst fresh) = Some (-1, None, fst fresh) \<and>
    (\<exists>p'. platform_load_elf (Some tiny_elf) (fst fresh) = Some (0, Some 0x80000000, p') \<and>
      platform_wf p')"
proof -
  have "take 5 tiny_elf = [0x7F, 0x45, 0x4C, 0x46, 1]" "length tiny_elf = 88"
    by (simp_all add: tiny_elf_def)
  moreover have "u16_at tiny_elf 18 = 40" "u32_at tiny_elf 24 = 0x80000000"
    by (simp_all add: tiny_elf_def u16_at_def u32_at_def le16_def le32_def)
  ultimately show ?thesis
    using platform_load_elf_result [OF fresh_ok(1) tiny_elf_fits] by simp
qed

section \<open>The console\<close>

lemma uart_status_word:
  assumes "ram_base p = MSM8916_RAM_BASE" "ram_size p = MSM8916_RAM_SIZE"
  shows "platform_read32 (MSM8916_BLSP1_UART2 + 8) p = Some (0x10, p)"
  using assms
  by (simp add: platform_read32_def platform_read8_def in_range_def uart_read_def le32_def)

text \<open>
  Storing a word through the CPU's bus at the UART data register prints its low byte and
  nothing else, unless that byte is a carriage return, which is dropped; the status register reads
  0x10 whatever was written before.
\<close>

theorem uart_console:
  assumes "platform_wf p" and "ram_base p = MSM8916_RAM_BASE" and "ram_size p = MSM8916_RAM_SIZE"
  shows "platform_write32 MSM8916_BLSP1_UART2 w p =
      Some (if byte_of 0 w = 0x0D then p else p\<lparr>console := console p @ [byte_of 0 w]\<rparr>) \<and>
    platform_read32 (MSM8916_BLSP1_UART2 + 8) p = Some (0x10, p)"
  using assms uart_status_word [OF assms(2,3)]
  by (simp add: platform_write32_def platform_write8_def in_range_def uart_write_def)

theorem uart_console_witness:
  "platform_write32 MSM8916_BLSP1_UART2 0x41 (fst fresh) =
      Some ((fst fresh)\<lparr>console := console (fst fresh) @ [0x41]\<rparr>) \<and>
    platform_read32 (MSM8916_BLSP1_UART2 + 8) (fst fresh) = Some (0x10, fst fresh)"
  using uart_console [OF fresh_ok(1,4,5), of "0x41"] by (simp add: byte_of_def)

end
