(* ===== verification/Flat_Mem.thy ===== *)
theory Flat_Mem
  imports Prelude
begin

text \<open>
  The flat 32-bit address space of the bare-metal programs (the boot loader and the C library):
  byte memory, little-endian loads and stores of wider values, and blocks of addresses. Addresses
  wrap around, so a block is the set of addresses at a small distance behind its start.
\<close>

type_synonym mem = "u32 \<Rightarrow> u8"

definition ld16 :: "mem \<Rightarrow> u32 \<Rightarrow> u16" where
  "ld16 m a = le16 (m a) (m (a + 1))"

definition ld32 :: "mem \<Rightarrow> u32 \<Rightarrow> u32" where
  "ld32 m a = le32 (m a) (m (a + 1)) (m (a + 2)) (m (a + 3))"

definition ld64 :: "mem \<Rightarrow> u32 \<Rightarrow> u64" where
  "ld64 m a = le64 (ld32 m a) (ld32 m (a + 4))"

definition st16 :: "u32 \<Rightarrow> u16 \<Rightarrow> mem \<Rightarrow> mem" where
  "st16 a v m = m(a := byte_of 0 v, a + 1 := byte_of 1 v)"

definition st32 :: "u32 \<Rightarrow> u32 \<Rightarrow> mem \<Rightarrow> mem" where
  "st32 a v m = m(a := byte_of 0 v, a + 1 := byte_of 1 v, a + 2 := byte_of 2 v, a + 3 := byte_of 3 v)"

section \<open>Blocks\<close>

definition in_block :: "u32 \<Rightarrow> nat \<Rightarrow> u32 \<Rightarrow> bool" where
  "in_block a n x \<longleftrightarrow> unat (x - a) < n"

lemma in_block_0 [simp]: "\<not> in_block a 0 x"
  by (simp add: in_block_def)

lemma unat_minus_1:
  assumes "x \<noteq> (0 :: u32)"
  shows "unat (x - 1) = unat x - 1"
  using assms by (simp add: unat_minus_one)

lemma unat_shift:
  assumes "unat a + unat d < 2 ^ 32"
  shows "unat (a + d :: u32) = unat a + unat d"
  using assms by (simp add: unat_word_ariths)

lemma in_block_Suc:
  assumes "Suc n \<le> 2 ^ 32"
  shows "in_block a (Suc n) x \<longleftrightarrow> x = a \<or> (x \<noteq> a \<and> in_block (a + 1) n x)"
proof (cases "x = a")
  case False
  then have "x - a \<noteq> 0" by simp
  then have "unat (x - (a + 1)) = unat (x - a) - 1" "0 < unat (x - a)"
    using unat_minus_1 [of "x - a"] by (simp_all add: unat_gt_0 diff_diff_add)
  then show ?thesis using False by (auto simp: in_block_def)
qed (simp add: in_block_def)

lemma in_block_start_next:
  assumes "Suc n \<le> 2 ^ 32"
  shows "\<not> in_block (a + 1) n a"
proof -
  have "a - (a + 1) = (- 1 :: u32)" by simp
  then have "unat (a - (a + 1)) = 2 ^ 32 - 1" by (simp add: unsigned_minus_1_eq_mask mask_eq_exp_minus_1)
  then show ?thesis using assms by (simp add: in_block_def)
qed

lemma in_block_le:
  assumes "a \<le> x" "unat x < unat a + n"
  shows "in_block a n x"
  using assms by (auto simp: in_block_def unat_sub word_le_nat_alt)

lemma in_block_range:
  assumes "in_block a n x" "unat a + n \<le> 2 ^ 32"
  shows "a \<le> x" "unat x < unat a + n"
proof -
  have u: "unat x = unat a + unat (x - a)"
    using assms unat_shift [of a "x - a"] by (simp add: in_block_def)
  then show "a \<le> x" by (simp add: word_le_nat_alt)
  show "unat x < unat a + n" using u assms(1) by (simp add: in_block_def)
qed

text \<open>Blocks inside blocks.\<close>

lemma in_block_sub:
  assumes "in_block (a + d) k x" "unat d + k \<le> n" "n \<le> 2 ^ 32"
  shows "in_block a n x"
proof -
  have "unat (d + (x - (a + d))) = unat d + unat (x - (a + d))"
    using assms by (intro unat_shift) (simp add: in_block_def)
  moreover have "d + (x - (a + d)) = x - a" by simp
  ultimately show ?thesis using assms by (simp add: in_block_def)
qed

section \<open>Loads after stores\<close>

lemma add_small_neq [simp]:
  "a + 1 \<noteq> (a :: u32)" "a + 2 \<noteq> a" "a + 3 \<noteq> a" "a \<noteq> a + 1" "a \<noteq> a + 2" "a \<noteq> a + 3"
  by simp_all

lemma ld16_st16 [simp]: "ld16 (st16 a v m) a = v"
  by (simp add: ld16_def st16_def)

lemma ld32_st32 [simp]: "ld32 (st32 a v m) a = v"
  by (simp add: ld32_def st32_def)

lemma ld32_cong:
  assumes "\<And>x. in_block a 4 x \<Longrightarrow> m x = m' x"
  shows "ld32 m a = ld32 m' a"
  using assms by (simp add: ld32_def in_block_def)

lemma ld64_cong:
  assumes "\<And>x. in_block a 8 x \<Longrightarrow> m x = m' x"
  shows "ld64 m a = ld64 m' a"
proof -
  have "in_block (a + 4) 4 x \<Longrightarrow> in_block a 8 x" for x
    by (erule in_block_sub) simp_all
  moreover have "in_block a 4 x \<Longrightarrow> in_block a 8 x" for x by (simp add: in_block_def)
  ultimately show ?thesis
    unfolding ld64_def using ld32_cong [of a m m'] ld32_cong [of "a + 4" m m'] assms by metis
qed

end
