(* ===== verification/Kick_Console.thy ===== *)
theory Kick_Console
  imports Flat_Mem
begin

text \<open>
  The boot loader \<^verbatim>\<open>src/boot/kickstart/boot.c\<close>, first part: its memory routines, its configuration
  and the serial console. The build modelled is the default one: 32-bit ARM, platform Harpia.

  The loader runs on bare metal. Its state is the flat memory, the words written to the UART data
  register, the number of times the UART status register was read, and the coprocessor
  operations executed. The machine around it is a parameter: the value each read of the status
  register returns, the values read from the coprocessor, and the linker symbols of the
  embedded device tree. A computation that never returns has the value \<open>None\<close>.
\<close>

section \<open>Configuration\<close>

abbreviation (input) PLATFORM_UNKNOWN :: nat where "PLATFORM_UNKNOWN \<equiv> 0"
abbreviation (input) PLATFORM_HARPIA :: nat where "PLATFORM_HARPIA \<equiv> 1"
abbreviation (input) PLATFORM_QEMU_ARM :: nat where "PLATFORM_QEMU_ARM \<equiv> 2"
abbreviation (input) PLATFORM_QEMU_ARM64 :: nat where "PLATFORM_QEMU_ARM64 \<equiv> 3"
abbreviation (input) TARGET_PLATFORM :: nat where "TARGET_PLATFORM \<equiv> PLATFORM_HARPIA"

abbreviation (input) BOOTLOADER_BASE :: u32 where "BOOTLOADER_BASE \<equiv> 0x80000000"
abbreviation (input) KERNEL_LOAD_BASE :: u32 where "KERNEL_LOAD_BASE \<equiv> 0x81000000"
abbreviation (input) DEVICE_TREE_BASE :: u32 where "DEVICE_TREE_BASE \<equiv> 0x82000000"
abbreviation (input) FBMEM_BASE :: u32 where "FBMEM_BASE \<equiv> 0x83000000"
abbreviation (input) FBMEM_SIZE :: u32 where "FBMEM_SIZE \<equiv> 0x00800000"
abbreviation (input) MAX_KERNEL_SIZE :: u32 where "MAX_KERNEL_SIZE \<equiv> 0x00C00000"
abbreviation (input) MAX_DEVICETREE_SIZE :: u32 where "MAX_DEVICETREE_SIZE \<equiv> 0x00100000"
abbreviation (input) DISPLAY_WIDTH :: u32 where "DISPLAY_WIDTH \<equiv> 480"
abbreviation (input) DISPLAY_HEIGHT :: u32 where "DISPLAY_HEIGHT \<equiv> 800"
abbreviation (input) DISPLAY_DEPTH :: u32 where "DISPLAY_DEPTH \<equiv> 16"
abbreviation (input) DISPLAY_BPP :: u32 where "DISPLAY_BPP \<equiv> 2"
abbreviation (input) UART_BASE :: u32 where "UART_BASE \<equiv> 0x78B0000"

section \<open>Memory routines\<close>

text \<open>The loops of \<open>memcpy\<close> and \<open>memset\<close>; the count is the number of iterations left.\<close>

fun boot_memcpy :: "u32 \<Rightarrow> u32 \<Rightarrow> nat \<Rightarrow> mem \<Rightarrow> mem" where
  "boot_memcpy d s 0 m = m"
| "boot_memcpy d s (Suc n) m = boot_memcpy (d + 1) (s + 1) n (m(d := m s))"

fun boot_memset :: "u32 \<Rightarrow> u8 \<Rightarrow> nat \<Rightarrow> mem \<Rightarrow> mem" where
  "boot_memset s c 0 m = m"
| "boot_memset s c (Suc n) m = boot_memset (s + 1) c n (m(s := c))"

text \<open>
  Filling sets exactly the block. Copying upwards is right unless the destination starts strictly
  inside the source.
\<close>

lemma boot_memset_block:
  assumes "n \<le> 2 ^ 32"
  shows "boot_memset s c n m x = (if in_block s n x then c else m x)"
  using assms
proof (induction n arbitrary: s m)
  case 0
  then show ?case by simp
next
  case (Suc n)
  then show ?case
    using in_block_Suc [OF Suc.prems, of s x] in_block_start_next [OF Suc.prems, of s] by auto
qed

lemma boot_memcpy_block:
  assumes "n \<le> 2 ^ 32" "d = s \<or> \<not> in_block s n d"
  shows "boot_memcpy d s n m x = (if in_block d n x then m (s + (x - d)) else m x)"
  using assms
proof (induction n arbitrary: d s m)
  case 0
  then show ?case by simp
next
  case (Suc n)
  have h: "d + 1 = s + 1 \<or> \<not> in_block (s + 1) n (d + 1)"
    using Suc.prems by (auto simp: in_block_def)
  have ih: "boot_memcpy (d + 1) (s + 1) n (m(d := m s)) x =
      (if in_block (d + 1) n x then (m(d := m s)) (s + 1 + (x - (d + 1))) else (m(d := m s)) x)"
    using Suc.IH [OF _ h] Suc.prems(1) by simp
  have src: "(m(d := m s)) (s + 1 + (x - (d + 1))) = m (s + (x - d))"
    if "in_block (d + 1) n x" "x \<noteq> d"
  proof -
    have "s + (x - d) \<noteq> d \<or> d = s"
    proof (rule ccontr)
      assume "\<not> (s + (x - d) \<noteq> d \<or> d = s)"
      then have "x - d = d - s" "d \<noteq> s" by (auto simp: algebra_simps)
      moreover have "in_block d (Suc n) x" using that in_block_Suc [OF Suc.prems(1), of d x] by simp
      ultimately show False using Suc.prems(2) by (simp add: in_block_def)
    qed
    then show ?thesis by auto
  qed
  show ?case
    using ih src in_block_Suc [OF Suc.prems(1), of d x] in_block_start_next [OF Suc.prems(1), of d]
    by auto
qed

section \<open>State and environment\<close>

text \<open>A write of \<open>mcr\<close>, and the two instructions of the MMU set-up that are inline assembly.\<close>

datatype cp_event = Mcr u32 u32 u32 u32 | Tlb_invalidate | Barrier

record boot_state =
  bmem :: mem
  uart_tx :: "u32 list"
  uart_polls :: nat
  cp_log :: "cp_event list"

record boot_env =
  uart_status :: "nat \<Rightarrow> u32"
  mrc_value :: "u32 \<Rightarrow> u32 \<Rightarrow> u32 \<Rightarrow> u32"
  device_tree_start :: u32
  device_tree_end :: u32

section \<open>Serial console\<close>

text \<open>\<open>while ((*uart_status & 0x08) == 0) {}\<close>: the number of status reads once it ends.\<close>

partial_function (option) uart_wait :: "(nat \<Rightarrow> u32) \<Rightarrow> nat \<Rightarrow> nat option" where
  "uart_wait status n =
    (if status n AND 0x08 = 0 then uart_wait status (Suc n) else Some (Suc n))"

definition uart_send :: "boot_env \<Rightarrow> u8 \<Rightarrow> boot_state \<Rightarrow> boot_state option" where
  "uart_send env ch s =
     do { n \<leftarrow> uart_wait (uart_status env) (uart_polls s);
          Some (s\<lparr>uart_polls := n, uart_tx := uart_tx s @ [ucast ch]\<rparr>) }"

definition uart_putc :: "boot_env \<Rightarrow> u8 \<Rightarrow> boot_state \<Rightarrow> boot_state option" where
  "uart_putc env ch s =
     do { s1 \<leftarrow> uart_send env ch s;
          if ch = 10 then uart_send env 13 s1 else Some s1 }"

definition debug_putc :: "boot_env \<Rightarrow> u8 \<Rightarrow> boot_state \<Rightarrow> boot_state option" where
  "debug_putc = uart_putc"

fun debug_print :: "boot_env \<Rightarrow> string \<Rightarrow> boot_state \<Rightarrow> boot_state option" where
  "debug_print env [] s = Some s"
| "debug_print env (ch # str) s = do { s' \<leftarrow> uart_putc env (of_char ch) s; debug_print env str s' }"

definition hex_digit :: "u64 \<Rightarrow> u8" where
  "hex_digit v = of_char (''0123456789abcdef'' ! unat v)"

fun debug_hex :: "boot_env \<Rightarrow> u64 \<Rightarrow> nat \<Rightarrow> boot_state \<Rightarrow> boot_state option" where
  "debug_hex env v 0 s = Some s"
| "debug_hex env v (Suc i) s =
     do { s' \<leftarrow> uart_putc env (hex_digit (drop_bit (4 * i) v AND 0xF)) s; debug_hex env v i s' }"

section \<open>The console is live exactly when the status bit keeps coming\<close>

definition uart_live :: "boot_env \<Rightarrow> bool" where
  "uart_live env \<longleftrightarrow> (\<forall>n. \<exists>m \<ge> n. uart_status env m AND 0x08 \<noteq> 0)"

lemma uart_wait_least:
  assumes "st m AND 0x08 \<noteq> 0" "n \<le> m" "\<And>k. n \<le> k \<Longrightarrow> k < m \<Longrightarrow> st k AND 0x08 = 0"
  shows "uart_wait st n = Some (Suc m)"
  using assms(2,1,3)
proof (induction n rule: inc_induct)
  case base
  then show ?case by (simp add: uart_wait.simps)
next
  case (step n)
  then show ?case by (simp add: uart_wait.simps [of st n])
qed

lemma uart_wait_defined:
  assumes "\<forall>n. \<exists>m \<ge> n. st m AND 0x08 \<noteq> 0"
  shows "\<exists>k. uart_wait st n = Some k"
proof -
  obtain m where "n \<le> m \<and> st m AND 0x08 \<noteq> 0" using assms by blast
  then have "\<exists>m. (n \<le> m \<and> st m AND 0x08 \<noteq> 0) \<and> (\<forall>k < m. \<not> (n \<le> k \<and> st k AND 0x08 \<noteq> 0))"
    using exists_least_iff [of "\<lambda>m. n \<le> m \<and> st m AND 0x08 \<noteq> 0"] by blast
  then show ?thesis using uart_wait_least by blast
qed

lemma uart_wait_live: "uart_live env \<Longrightarrow> \<exists>k. uart_wait (uart_status env) n = Some k"
  unfolding uart_live_def by (rule uart_wait_defined)

lemma uart_wait_stuck:
  assumes "\<And>k. n \<le> k \<Longrightarrow> st k AND 0x08 = 0"
  shows "uart_wait st n = None"
proof -
  have "\<exists>k \<ge> n. st k AND 0x08 \<noteq> 0" if "uart_wait st n = Some m" for m
  proof (rule uart_wait.raw_induct [OF _ that])
    fix uw :: "(nat \<Rightarrow> u32) \<Rightarrow> nat \<Rightarrow> nat option" and st n y
    assume "\<And>st n y. uw st n = Some y \<Longrightarrow> \<exists>k \<ge> n. st k AND 0x08 \<noteq> 0"
      and "(if st n AND 0x08 = 0 then uw st (Suc n) else Some (Suc n)) = Some y"
    then show "\<exists>k \<ge> n. st k AND 0x08 \<noteq> 0"
      by (cases "st n AND 0x08 = 0") (simp_all, meson Suc_leD, blast)
  qed
  with assms show ?thesis by (cases "uart_wait st n") auto
qed

text \<open>What every console routine keeps: memory and coprocessor log. Output only grows.\<close>

definition quiet :: "boot_state \<Rightarrow> boot_state \<Rightarrow> bool" where
  "quiet s s' \<longleftrightarrow> bmem s' = bmem s \<and> cp_log s' = cp_log s"

lemma quiet_refl [simp]: "quiet s s"
  by (simp add: quiet_def)

lemma quiet_trans [trans]: "quiet s s' \<Longrightarrow> quiet s' s'' \<Longrightarrow> quiet s s''"
  by (simp add: quiet_def)

lemma uart_send_live:
  assumes "uart_live env"
  shows "ok_with (\<lambda>s'. quiet s s' \<and> uart_tx s' = uart_tx s @ [ucast ch]) (uart_send env ch s)"
  using uart_wait_live [OF assms, of "uart_polls s"]
  by (auto simp: uart_send_def quiet_def)

text \<open>The words a string puts on the line: a carriage return follows every line feed.\<close>

definition line_bytes :: "u8 \<Rightarrow> u32 list" where
  "line_bytes ch = (if ch = 10 then [10, 13] else [ucast ch])"

lemma uart_putc_live:
  assumes "uart_live env"
  shows "ok_with (\<lambda>s'. quiet s s' \<and> uart_tx s' = uart_tx s @ line_bytes ch) (uart_putc env ch s)"
  unfolding uart_putc_def
  by (rule ok_with_bind [OF uart_send_live [OF assms]], cases "ch = 10")
    (auto simp: line_bytes_def intro: ok_with_mono [OF uart_send_live [OF assms]] quiet_trans)

lemma debug_print_live:
  assumes "uart_live env"
  shows "ok_with (\<lambda>s'. quiet s s' \<and>
    uart_tx s' = uart_tx s @ concat (map (\<lambda>ch. line_bytes (of_char ch)) str)) (debug_print env str s)"
proof (induction str arbitrary: s)
  case Nil
  then show ?case by simp
next
  case (Cons ch str)
  show ?case
    unfolding debug_print.simps
    by (rule ok_with_bind [OF uart_putc_live [OF assms]])
      (auto intro!: ok_with_mono [OF Cons.IH] intro: quiet_trans)
qed

lemma debug_hex_live:
  assumes "uart_live env"
  shows "ok_with (\<lambda>s'. quiet s s' \<and> uart_tx s' = uart_tx s @
    concat (map (\<lambda>i. line_bytes (hex_digit (drop_bit (4 * i) v AND 0xF))) (rev [0..<w])))
    (debug_hex env v w s)"
proof (induction w arbitrary: s)
  case 0
  then show ?case by simp
next
  case (Suc i)
  show ?case
    unfolding debug_hex.simps
    by (rule ok_with_bind [OF uart_putc_live [OF assms]])
      (auto intro!: ok_with_mono [OF Suc.IH] intro: quiet_trans)
qed

declare debug_print.simps [simp del] and debug_hex.simps [simp del]

text \<open>Any console routine, as the later theories use it: it returns and is quiet.\<close>

lemma console_quiet:
  assumes "uart_live env"
  shows "ok_with (quiet s) (debug_print env str s)" "ok_with (quiet s) (debug_hex env v w s)"
    "ok_with (quiet s) (uart_putc env ch s)" "ok_with (quiet s) (debug_putc env ch s)"
  using debug_print_live [OF assms, of s str] debug_hex_live [OF assms, of s v w]
    uart_putc_live [OF assms, of s ch]
  by (auto simp: debug_putc_def elim: ok_with_mono)

section \<open>Hexadecimal output\<close>

text \<open>Reading a hexadecimal number back from the line.\<close>

definition hex_val :: "u32 \<Rightarrow> nat" where
  "hex_val w = (if unat w \<le> 57 then unat w - 48 else unat w - 87)"

definition hex_value :: "u32 list \<Rightarrow> nat" where
  "hex_value ds = foldl (\<lambda>acc d. acc * 16 + hex_val d) 0 ds"

lemma hex_digit_val:
  assumes "unat d < 16"
  shows "line_bytes (hex_digit d) = [ucast (hex_digit d)]" "hex_val (ucast (hex_digit d)) = unat d"
proof -
  have "unat d \<in> {0, 1, 2, 3, 4, 5, 6, 7, 8, 9, 10, 11, 12, 13, 14, 15}"
    using assms by (simp, arith)
  then have "line_bytes (hex_digit d) = [ucast (hex_digit d)] \<and> hex_val (ucast (hex_digit d)) = unat d"
    by (auto simp: line_bytes_def hex_val_def hex_digit_def)
  then show "line_bytes (hex_digit d) = [ucast (hex_digit d)]"
    "hex_val (ucast (hex_digit d)) = unat d" by auto
qed

lemma nibble:
  fixes v :: u64
  shows "unat (drop_bit (4 * i) v AND 0xF) = unat v div 16 ^ i mod 16"
proof -
  have "(0xF :: u64) = mask 4" by (simp add: mask_eq_exp_minus_1)
  then have "unat (drop_bit (4 * i) v AND 0xF) = take_bit 4 (drop_bit (4 * i) (unat v))"
    by (simp only: take_bit_eq_mask [symmetric] unsigned_take_bit_eq unat_drop_bit_eq)
  then show ?thesis by (simp add: take_bit_eq_mod drop_bit_eq_div power_mult)
qed

lemma hex_digits_fold:
  "foldl (\<lambda>acc d. acc * 16 + hex_val d) a
     (concat (map (\<lambda>i. line_bytes (hex_digit (drop_bit (4 * i) v AND 0xF))) (rev [0..<w]))) =
   a * 16 ^ w + unat v mod 16 ^ w"
proof (induction w arbitrary: a)
  case 0
  then show ?case by simp
next
  case (Suc i)
  have n: "unat (drop_bit (4 * i) v AND 0xF) < 16" by (simp add: nibble)
  have "unat v mod 16 ^ Suc i = unat v div 16 ^ i mod 16 * 16 ^ i + unat v mod 16 ^ i"
    using mod_mult2_eq [of "unat v" "16 ^ i" 16] by (simp add: mult.commute)
  moreover have "(a * 16 + unat v div 16 ^ i mod 16) * 16 ^ i =
      a * 16 ^ Suc i + unat v div 16 ^ i mod 16 * 16 ^ i" by (simp add: algebra_simps)
  ultimately show ?case
    by (simp add: Suc.IH hex_digit_val [OF n] nibble del: power_Suc)
qed

lemma hex_digits_length:
  "length (concat (map (\<lambda>i. line_bytes (hex_digit (drop_bit (4 * i) v AND 0xF))) (rev [0..<w]))) = w"
proof (induction w)
  case (Suc i)
  have "unat (drop_bit (4 * i) v AND 0xF) < 16" by (simp add: nibble)
  then show ?case using Suc by (simp add: hex_digit_val)
qed simp

text \<open>
  When the UART keeps signalling that it can transmit, \<open>debug_hex\<close> returns after sending exactly
  \<open>width\<close> digits, which read back as the value modulo \<open>16 ^ width\<close>; memory is untouched.
\<close>

theorem debug_hex_roundtrip:
  assumes "uart_live env"
  shows "\<exists>s' ds. debug_hex env v w s = Some s' \<and> uart_tx s' = uart_tx s @ ds \<and> length ds = w \<and>
    hex_value ds = unat v mod 16 ^ w \<and> bmem s' = bmem s"
proof -
  from debug_hex_live [OF assms, of s v w] obtain s' where s': "debug_hex env v w s = Some s'"
    "quiet s s'" "uart_tx s' = uart_tx s @
      concat (map (\<lambda>i. line_bytes (hex_digit (drop_bit (4 * i) v AND 0xF))) (rev [0..<w]))"
    by (auto elim!: ok_withE)
  then show ?thesis
    using hex_digits_fold [of 0 v w] hex_digits_length [of v w]
    by (auto simp: hex_value_def quiet_def)
qed

text \<open>A machine whose UART is always ready, with no device tree.\<close>

definition ready_env :: boot_env where
  "ready_env = \<lparr>uart_status = (\<lambda>_. 0x08), mrc_value = (\<lambda>_ _ _. 0), device_tree_start = 0,
     device_tree_end = 0\<rparr>"

definition blank_state :: boot_state where
  "blank_state = \<lparr>bmem = (\<lambda>_. 0), uart_tx = [], uart_polls = 0, cp_log = []\<rparr>"

lemma ready_env_live: "uart_live ready_env"
  by (auto simp: uart_live_def ready_env_def)

theorem debug_hex_roundtrip_witness:
  "\<exists>s' ds. debug_hex ready_env 0x78B0000 8 blank_state = Some s' \<and> uart_tx s' = [] @ ds \<and>
    length ds = 8 \<and> hex_value ds = 126550016 \<and> bmem s' = bmem blank_state"
  using debug_hex_roundtrip [OF ready_env_live, of "0x78B0000" 8 blank_state]
  by (simp add: blank_state_def)

text \<open>
  \<open>uart_putc\<close> returns exactly when the transmit bit shows up in a later status read; it then
  sends the character, followed by a carriage return for a line feed. If the bit never shows
  up again, \<open>uart_putc\<close> does not return.
\<close>

theorem uart_putc_liveness:
  "(uart_live env \<longrightarrow> (\<exists>s'. uart_putc env ch s = Some s' \<and>
      uart_tx s' = uart_tx s @ (if ch = 10 then [10, 13] else [ucast ch]) \<and> bmem s' = bmem s)) \<and>
   ((\<forall>k \<ge> uart_polls s. uart_status env k AND 0x08 = 0) \<longrightarrow> uart_putc env ch s = None)"
  using uart_putc_live [of env s ch] uart_wait_stuck [of "uart_polls s" "uart_status env"]
  by (auto simp: line_bytes_def quiet_def uart_putc_def uart_send_def elim!: ok_withE)

theorem uart_putc_liveness_witness:
  "\<exists>s'. uart_putc ready_env 10 blank_state = Some s' \<and> uart_tx s' = [10, 13]"
  using uart_putc_liveness [of ready_env 10 blank_state] ready_env_live
  by (simp add: blank_state_def) blast

end
