(* ===== verification/Kick_Display.thy ===== *)
theory Kick_Display
  imports Kick_Console
begin

text \<open>
  The boot loader's framebuffer output (\<^verbatim>\<open>src/boot/kickstart/boot.c\<close>): colour conversion, clearing,
  pixels, the 8x8 font and text. \<open>display_info\<close> is the static structure of the source, which no
  code changes. Every routine writes only inside the framebuffer.
\<close>

section \<open>Model\<close>

record display_info_t =
  di_width :: u32
  di_height :: u32
  di_stride :: u32
  di_depth :: u32
  di_bpp :: u32
  di_base :: u32
  di_phys_base :: u64

definition display_info :: display_info_t where
  "display_info = \<lparr>di_width = DISPLAY_WIDTH, di_height = DISPLAY_HEIGHT,
     di_stride = DISPLAY_WIDTH * DISPLAY_BPP, di_depth = DISPLAY_DEPTH, di_bpp = DISPLAY_BPP,
     di_base = FBMEM_BASE, di_phys_base = ucast FBMEM_BASE\<rparr>"

text \<open>The channels are \<open>uint8_t\<close>; the shifts are on the promoted \<open>int\<close>, the result is cut to 16 bits.\<close>

definition rgb888_to_rgb565 :: "u32 \<Rightarrow> u16" where
  "rgb888_to_rgb565 rgb888 =
    (let r = (ucast (drop_bit 16 rgb888 AND 0xFF) :: u8);
         g = (ucast (drop_bit 8 rgb888 AND 0xFF) :: u8);
         b = (ucast (rgb888 AND 0xFF) :: u8)
     in push_bit 11 (ucast (drop_bit 3 r)) OR push_bit 5 (ucast (drop_bit 2 g)) OR ucast (drop_bit 3 b))"

text \<open>\<open>fb[i] = v\<close> for a \<open>uint16_t\<close> framebuffer.\<close>

definition fb_store :: "u32 \<Rightarrow> u16 \<Rightarrow> mem \<Rightarrow> mem" where
  "fb_store i v = st16 (di_base display_info + 2 * i) v"

fun clear_loop :: "nat \<Rightarrow> u32 \<Rightarrow> u16 \<Rightarrow> mem \<Rightarrow> mem" where
  "clear_loop 0 i v m = m"
| "clear_loop (Suc n) i v m = clear_loop n (i + 1) v (fb_store i v m)"

definition display_clear :: "u32 \<Rightarrow> mem \<Rightarrow> mem" where
  "display_clear color m =
     clear_loop (unat (di_width display_info * di_height display_info)) 0 (rgb888_to_rgb565 color) m"

definition display_put_pixel :: "u32 \<Rightarrow> u32 \<Rightarrow> u32 \<Rightarrow> mem \<Rightarrow> mem" where
  "display_put_pixel x y color m =
    (if x \<ge> di_width display_info \<or> y \<ge> di_height display_info then m
     else fb_store (y * di_width display_info + x) (rgb888_to_rgb565 color) m)"

definition bootstrap_font :: "(char \<times> u8 list) list" where
  "bootstrap_font =
    [(CHR ''A'', [0x18, 0x3c, 0x66, 0x7e, 0x66, 0x66, 0x66, 0x00]),
     (CHR ''B'', [0x7c, 0x66, 0x66, 0x7c, 0x66, 0x66, 0x7c, 0x00]),
     (CHR ''C'', [0x3c, 0x66, 0x60, 0x60, 0x60, 0x66, 0x3c, 0x00]),
     (CHR ''D'', [0x78, 0x6c, 0x66, 0x66, 0x66, 0x6c, 0x78, 0x00]),
     (CHR ''E'', [0x7e, 0x60, 0x60, 0x7c, 0x60, 0x60, 0x7e, 0x00]),
     (CHR ''L'', [0x60, 0x60, 0x60, 0x60, 0x60, 0x66, 0x7e, 0x00]),
     (CHR ''O'', [0x3c, 0x66, 0x66, 0x66, 0x66, 0x66, 0x3c, 0x00]),
     (CHR ''R'', [0x7c, 0x66, 0x66, 0x7c, 0x78, 0x6c, 0x66, 0x00]),
     (CHR ''S'', [0x3c, 0x66, 0x60, 0x3c, 0x06, 0x66, 0x3c, 0x00]),
     (CHR ''T'', [0x7e, 0x18, 0x18, 0x18, 0x18, 0x18, 0x18, 0x00]),
     (CHR ''X'', [0x66, 0x66, 0x3c, 0x18, 0x3c, 0x66, 0x66, 0x00]),
     (CHR ''N'', [0x66, 0x76, 0x7e, 0x6e, 0x66, 0x66, 0x66, 0x00]),
     (CHR ''U'', [0x66, 0x66, 0x66, 0x66, 0x66, 0x66, 0x3c, 0x00])]"

text \<open>The two nested loops over rows and columns, as one pass over the pixels in their order.\<close>

definition put_glyph :: "u32 \<Rightarrow> u32 \<Rightarrow> u8 list \<Rightarrow> u32 \<Rightarrow> mem \<Rightarrow> mem" where
  "put_glyph x y bitmap fg m =
     fold (\<lambda>(row, col) m. if drop_bit (7 - col) (bitmap ! row) AND 1 \<noteq> 0
        then display_put_pixel (x + of_nat col) (y + of_nat row) fg m else m)
       (List.product [0..<8] [0..<8]) m"

definition display_putchar :: "u32 \<Rightarrow> u32 \<Rightarrow> char \<Rightarrow> u32 \<Rightarrow> mem \<Rightarrow> mem" where
  "display_putchar x y ch fg m =
    (case map_of bootstrap_font ch of None \<Rightarrow> m | Some bitmap \<Rightarrow> put_glyph x y bitmap fg m)"

fun display_puts :: "u32 \<Rightarrow> u32 \<Rightarrow> string \<Rightarrow> u32 \<Rightarrow> mem \<Rightarrow> mem" where
  "display_puts x y [] fg m = m"
| "display_puts x y (ch # str) fg m =
    (let m' = display_putchar x y ch fg m; x' = x + 10
     in if x' \<ge> di_width display_info then display_puts 0 (y + 12) str fg m'
        else display_puts x' y str fg m')"

section \<open>Everything stays inside the framebuffer\<close>

text \<open>The bytes of the visible framebuffer: 480 by 800 pixels of two bytes.\<close>

definition fb_addr :: "u32 \<Rightarrow> bool" where
  "fb_addr = in_block FBMEM_BASE 768000"

definition fb_only :: "(mem \<Rightarrow> mem) \<Rightarrow> bool" where
  "fb_only f \<longleftrightarrow> (\<forall>m x. \<not> fb_addr x \<longrightarrow> f m x = m x)"

lemma fb_only_id [simp]: "fb_only (\<lambda>m. m)"
  by (simp add: fb_only_def)

lemma fb_only_comp: "fb_only f \<Longrightarrow> fb_only g \<Longrightarrow> fb_only (\<lambda>m. g (f m))"
  by (simp add: fb_only_def)

lemma fb_only_fold: "(\<And>k. fb_only (f k)) \<Longrightarrow> fb_only (fold f ks)"
  by (induction ks) (auto simp: fb_only_def)

lemma fb_store_only:
  assumes "unat i < 384000"
  shows "fb_only (fb_store i v)"
proof -
  have u: "unat (2 * i) = 2 * unat i" using assms by (simp add: unat_word_ariths)
  have "fb_addr (FBMEM_BASE + 2 * i)" using u assms by (simp add: fb_addr_def in_block_def)
  moreover have "fb_addr (FBMEM_BASE + 2 * i + 1)"
    using u assms by (simp add: fb_addr_def in_block_def unat_word_ariths add.assoc)
  ultimately show ?thesis
    by (auto simp: fb_only_def fb_store_def st16_def display_info_def)
qed

lemma clear_loop_only: "unat i + n \<le> 384000 \<Longrightarrow> fb_only (clear_loop n i v)"
proof (induction n arbitrary: i)
  case 0
  then show ?case by (simp add: fb_only_def)
next
  case (Suc n)
  have "unat (i + 1) = unat i + 1" using Suc.prems by (simp add: unat_word_ariths)
  then have "fb_only (clear_loop n (i + 1) v)" using Suc by simp
  moreover have "fb_only (fb_store i v)" using Suc.prems by (intro fb_store_only) simp
  ultimately show ?case by (simp add: fb_only_def)
qed

lemma display_clear_only: "fb_only (display_clear color)"
  using clear_loop_only [of 0 384000] by (simp add: fb_only_def display_clear_def display_info_def)

lemma pixel_index:
  assumes "x < DISPLAY_WIDTH" "y < DISPLAY_HEIGHT"
  shows "unat (y * DISPLAY_WIDTH + x) = unat y * 480 + unat x" "unat y * 480 + unat x < 384000"
proof -
  have "unat x < 480" "unat y < 800" using assms by (simp_all add: word_less_nat_alt)
  then show "unat y * 480 + unat x < 384000" by linarith
  then show "unat (y * DISPLAY_WIDTH + x) = unat y * 480 + unat x"
    by (simp add: unat_word_ariths)
qed

lemma display_put_pixel_only: "fb_only (display_put_pixel x y color)"
proof (cases "x < DISPLAY_WIDTH \<and> y < DISPLAY_HEIGHT")
  case True
  then have "fb_only (fb_store (y * DISPLAY_WIDTH + x) (rgb888_to_rgb565 color))"
    using pixel_index [of x y] by (intro fb_store_only) simp
  with True show ?thesis by (simp add: fb_only_def display_put_pixel_def display_info_def)
next
  case False
  then show ?thesis by (auto simp: fb_only_def display_put_pixel_def display_info_def)
qed

lemma display_putchar_only: "fb_only (display_putchar x y ch fg)"
proof -
  have g: "fb_only (put_glyph x y bitmap fg)" for bitmap
  proof -
    have "fb_only (case k of (row, col) \<Rightarrow> (\<lambda>m. if drop_bit (7 - col) (bitmap ! row) AND 1 \<noteq> 0
        then display_put_pixel (x + of_nat col) (y + of_nat row) fg m else m))" for k
      using display_put_pixel_only by (auto simp: fb_only_def split: prod.split)
    from fb_only_fold [OF this] show ?thesis by (simp add: put_glyph_def [abs_def])
  qed
  then show ?thesis
    by (cases "map_of bootstrap_font ch") (simp_all add: display_putchar_def [abs_def])
qed

lemma display_puts_only: "fb_only (display_puts x y str fg)"
proof (induction str arbitrary: x y)
  case Nil
  then show ?case by (simp add: fb_only_def)
next
  case (Cons ch str)
  then show ?case using display_putchar_only by (simp add: fb_only_def Let_def)
qed

declare display_puts.simps [simp del]

text \<open>
  C37: clearing the screen, putting a pixel and printing text change no byte of memory outside the
  visible framebuffer, for all coordinates and strings; so the kernel image and the device tree,
  which lie below it, are safe from the display code.
\<close>

theorem display_confined:
  assumes "x < FBMEM_BASE \<or> FBMEM_BASE + 768000 \<le> x"
  shows "display_clear color m x = m x \<and> display_put_pixel px py color m x = m x \<and>
    display_puts px py str color m x = m x"
proof -
  have "\<not> fb_addr x"
  proof
    assume "fb_addr x"
    then have "in_block FBMEM_BASE 768000 x" by (simp add: fb_addr_def)
    from in_block_range [OF this] assms show False
      by (auto simp: word_le_nat_alt word_less_nat_alt)
  qed
  then show ?thesis
    using display_clear_only display_put_pixel_only display_puts_only by (simp add: fb_only_def)
qed

theorem display_confined_witness:
  "display_clear 0xFFFFFF (\<lambda>_. 7) KERNEL_LOAD_BASE = 7 \<and>
   display_put_pixel 479 799 0xFF (\<lambda>_. 7) KERNEL_LOAD_BASE = 7 \<and>
   display_puts 470 790 ''XNU BOOT'' 0xFFFFFF (\<lambda>_. 7) KERNEL_LOAD_BASE = 7"
  using display_confined [of KERNEL_LOAD_BASE "0xFFFFFF" "\<lambda>_. 7"]
    display_confined [of KERNEL_LOAD_BASE "0xFF" "\<lambda>_. 7"] by simp

section \<open>What is drawn\<close>

definition fb_load :: "mem \<Rightarrow> nat \<Rightarrow> u16" where
  "fb_load m k = ld16 m (FBMEM_BASE + 2 * of_nat k)"

lemma fb_load_store:
  assumes "k < 384000" "unat i < 384000"
  shows "fb_load (fb_store i v m) k = (if k = unat i then v else fb_load m k)"
proof (cases "k = unat i")
  case True
  then show ?thesis by (simp add: fb_load_def fb_store_def display_info_def)
next
  case False
  have a: "unat (2 * of_nat k :: u32) = 2 * k" "unat (2 * i) = 2 * unat i"
    using assms by (simp_all add: unat_word_ariths unat_of_nat)
  have b: "unat (2 * of_nat k + 1 :: u32) = 2 * k + 1" "unat (2 * i + 1) = 2 * unat i + 1"
    using assms a by (simp_all add: unat_word_ariths)
  have "(2 * of_nat k :: u32) \<noteq> 2 * i" "(2 * of_nat k + 1 :: u32) \<noteq> 2 * i + 1"
    "(2 * of_nat k :: u32) \<noteq> 2 * i + 1" "(2 * of_nat k + 1 :: u32) \<noteq> 2 * i"
    unfolding word_unat_eq_iff a b using False by presburger+
  then have "(2 * of_nat k :: u32) \<noteq> 2 * i" "(1 + 2 * of_nat k :: u32) \<noteq> 2 * i"
    "(2 * of_nat k :: u32) \<noteq> 1 + 2 * i" by (simp_all add: add.commute)
  with False show ?thesis
    by (simp add: fb_load_def fb_store_def display_info_def st16_def ld16_def add.assoc)
qed

lemma clear_loop_load:
  "unat i + n \<le> 384000 \<Longrightarrow> k < 384000 \<Longrightarrow>
    fb_load (clear_loop n i v m) k = (if unat i \<le> k \<and> k < unat i + n then v else fb_load m k)"
proof (induction n arbitrary: i m)
  case 0
  then show ?case by auto
next
  case (Suc n)
  have "unat (i + 1) = unat i + 1" using Suc.prems by (simp add: unat_word_ariths)
  with Suc show ?case by (auto simp: fb_load_store)
qed

text \<open>
  After \<open>display_clear\<close> every one of the 480 by 800 pixels has the converted colour; an
  in-range \<open>display_put_pixel\<close> sets its own pixel and no other, and one out of range does nothing.
\<close>

theorem display_pixels:
  assumes "k < 384000"
  shows "fb_load (display_clear color m) k = rgb888_to_rgb565 color \<and>
    fb_load (display_put_pixel x y color m) k =
      (if x < DISPLAY_WIDTH \<and> y < DISPLAY_HEIGHT \<and> k = unat y * 480 + unat x
       then rgb888_to_rgb565 color else fb_load m k)"
proof -
  have "fb_load (display_clear color m) k = rgb888_to_rgb565 color"
    using clear_loop_load [of 0 384000 k] assms by (simp add: display_clear_def display_info_def)
  moreover have "fb_load (fb_store (y * DISPLAY_WIDTH + x) v m) k =
      (if k = unat y * 480 + unat x then v else fb_load m k)"
    if "x < DISPLAY_WIDTH" "y < DISPLAY_HEIGHT" for v
    using fb_load_store [OF assms, of "y * DISPLAY_WIDTH + x"] pixel_index [OF that] by simp
  ultimately show ?thesis
    by (auto simp: display_put_pixel_def display_info_def not_le)
qed

theorem display_pixels_witness:
  "fb_load (display_clear 0xFF0000 (\<lambda>_. 0)) 383999 = rgb888_to_rgb565 0xFF0000 \<and>
    fb_load (display_put_pixel 479 799 0xFF0000 (\<lambda>_. 0)) 383999 = rgb888_to_rgb565 0xFF0000"
  using display_pixels [of 383999 "0xFF0000" "\<lambda>_. 0" 479 799] by simp

text \<open>
  The RGB565 value holds the upper five, six and five bits of the red, green and blue channels
  at bits 11, 5 and 0, and nothing else.
\<close>

theorem rgb565_channels:
  "bit (rgb888_to_rgb565 c) n \<longleftrightarrow>
    (if n < 5 then bit c (n + 3) else if n < 11 then bit c (n + 5) else n < 16 \<and> bit c (n + 8))"
proof -
  have ch: "(ucast (drop_bit 16 c AND 0xFF) :: u8) = byte_of 2 c"
    "(ucast (drop_bit 8 c AND 0xFF) :: u8) = byte_of 1 c" "(ucast (c AND 0xFF) :: u8) = byte_of 0 c"
    by (simp_all add: byte_of_def)
  show ?thesis
    unfolding rgb888_to_rgb565_def Let_def ch
    unfolding bit_or_iff bit_push_bit_iff bit_unsigned_iff bit_drop_bit_eq o_def bit_byte_of
      possible_bit_word
    by (auto simp: add.commute)
qed

end
