(* ===== verification/Kick_Macho.thy ===== *)
theory Kick_Macho
  imports Kick_Display
begin

text \<open>
  The boot loader's Mach-O kernel loader \<open>macho_load\<close> (\<^verbatim>\<open>src/boot/kickstart/boot.c\<close>). The loader
  reads the headers through pointers into the same memory that it copies the segments to, so every
  field is read from the current memory at the point where the source reads it.
\<close>

section \<open>Mach-O structures\<close>

abbreviation (input) MH_MAGIC :: u32 where "MH_MAGIC \<equiv> 0xfeedface"
abbreviation (input) MH_MAGIC_64 :: u32 where "MH_MAGIC_64 \<equiv> 0xfeedfacf"
abbreviation (input) MH_CIGAM :: u32 where "MH_CIGAM \<equiv> 0xcefaedfe"
abbreviation (input) MH_CIGAM_64 :: u32 where "MH_CIGAM_64 \<equiv> 0xcffaedfe"
abbreviation (input) LC_SEGMENT :: u32 where "LC_SEGMENT \<equiv> 0x1"
abbreviation (input) LC_SEGMENT_64 :: u32 where "LC_SEGMENT_64 \<equiv> 0x19"
abbreviation (input) LC_MAIN :: u32 where "LC_MAIN \<equiv> 0x28"
abbreviation (input) LC_UNIXTHREAD :: u32 where "LC_UNIXTHREAD \<equiv> 0x5"

record mach_header_64_t =
  mh_magic :: u32
  mh_cputype :: u32
  mh_cpusubtype :: u32
  mh_filetype :: u32
  mh_ncmds :: u32
  mh_sizeofcmds :: u32
  mh_flags :: u32
  mh_reserved :: u32

definition mach_header_at :: "mem \<Rightarrow> u32 \<Rightarrow> mach_header_64_t" where
  "mach_header_at m a = \<lparr>mh_magic = ld32 m a, mh_cputype = ld32 m (a + 4),
     mh_cpusubtype = ld32 m (a + 8), mh_filetype = ld32 m (a + 12), mh_ncmds = ld32 m (a + 16),
     mh_sizeofcmds = ld32 m (a + 20), mh_flags = ld32 m (a + 24), mh_reserved = ld32 m (a + 28)\<rparr>"

record load_command_t =
  lc_cmd :: u32
  lc_cmdsize :: u32

definition load_command_at :: "mem \<Rightarrow> u32 \<Rightarrow> load_command_t" where
  "load_command_at m a = \<lparr>lc_cmd = ld32 m a, lc_cmdsize = ld32 m (a + 4)\<rparr>"

record segment_command_64_t =
  s64_vmaddr :: u64
  s64_vmsize :: u64
  s64_fileoff :: u64
  s64_filesize :: u64

definition segment_command_64_at :: "mem \<Rightarrow> u32 \<Rightarrow> segment_command_64_t" where
  "segment_command_64_at m a = \<lparr>s64_vmaddr = ld64 m (a + 24), s64_vmsize = ld64 m (a + 32),
     s64_fileoff = ld64 m (a + 40), s64_filesize = ld64 m (a + 48)\<rparr>"

record segment_command_32_t =
  s32_vmaddr :: u32
  s32_vmsize :: u32
  s32_fileoff :: u32
  s32_filesize :: u32

definition segment_command_32_at :: "mem \<Rightarrow> u32 \<Rightarrow> segment_command_32_t" where
  "segment_command_32_at m a = \<lparr>s32_vmaddr = ld32 m (a + 24), s32_vmsize = ld32 m (a + 28),
     s32_fileoff = ld32 m (a + 32), s32_filesize = ld32 m (a + 36)\<rparr>"

record entry_point_command_t =
  ep_entry_off :: u32
  ep_stacksize :: u32

definition entry_point_command_at :: "mem \<Rightarrow> u32 \<Rightarrow> entry_point_command_t" where
  "entry_point_command_at m a = \<lparr>ep_entry_off = ld32 m (a + 8), ep_stacksize = ld32 m (a + 12)\<rparr>"

record kernel_info_t =
  entry_point :: u64
  load_base :: u64
  is_64bit :: u32
  is_valid :: u32

section \<open>Loading segments\<close>

text \<open>The characters of \<open>segname\<close> that are not zero, position \<open>j\<close> on.\<close>

fun print_segname :: "boot_env \<Rightarrow> u32 \<Rightarrow> nat list \<Rightarrow> boot_state \<Rightarrow> boot_state option" where
  "print_segname env cmd [] s = Some s"
| "print_segname env cmd (j # js) s =
    (if bmem s (cmd + 8 + of_nat j) \<noteq> 0
     then do { s' \<leftarrow> debug_putc env (bmem s (cmd + 8 + of_nat j)) s; print_segname env cmd js s' }
     else print_segname env cmd js s)"

text \<open>
  \<open>uintptr_t\<close> and \<open>size_t\<close> have 32 bits: the 64-bit address, offset and sizes of the segment are cut
  where the source converts them.
\<close>

definition copy_segment_64 :: "u32 \<Rightarrow> u32 \<Rightarrow> mem \<Rightarrow> mem" where
  "copy_segment_64 image_base cmd m =
    (let seg = segment_command_64_at m cmd in
     if s64_filesize seg > 0 then
       (let dest = (ucast (s64_vmaddr seg) :: u32);
            src = image_base + ucast (s64_fileoff seg);
            m1 = boot_memcpy dest src (unat (ucast (s64_filesize seg) :: u32)) m;
            seg1 = segment_command_64_at m1 cmd
        in if s64_vmsize seg1 > s64_filesize seg1
           then boot_memset (dest + ucast (s64_filesize seg1)) 0
                  (unat (ucast (s64_vmsize seg1 - s64_filesize seg1) :: u32)) m1
           else m1)
     else m)"

definition copy_segment_32 :: "u32 \<Rightarrow> u32 \<Rightarrow> mem \<Rightarrow> mem" where
  "copy_segment_32 image_base cmd m =
    (let seg = segment_command_32_at m cmd in
     if s32_filesize seg > 0 then
       (let dest = s32_vmaddr seg;
            src = image_base + s32_fileoff seg;
            m1 = boot_memcpy dest src (unat (s32_filesize seg)) m;
            seg1 = segment_command_32_at m1 cmd
        in if s32_vmsize seg1 > s32_filesize seg1
           then boot_memset (dest + s32_filesize seg1) 0
                  (unat (s32_vmsize seg1 - s32_filesize seg1)) m1
           else m1)
     else m)"

record macho_acc =
  acc_entry :: u64
  acc_min :: u64
  acc_max :: u64

definition track_range :: "segment_command_64_t \<Rightarrow> macho_acc \<Rightarrow> macho_acc" where
  "track_range seg acc =
    (if s64_vmsize seg > 0 then
       (let lo = (if s64_vmaddr seg < acc_min acc then s64_vmaddr seg else acc_min acc);
            end = s64_vmaddr seg + s64_vmsize seg
        in acc\<lparr>acc_min := lo, acc_max := (if end > acc_max acc then end else acc_max acc)\<rparr>)
     else acc)"

definition load_cmd ::
    "boot_env \<Rightarrow> bool \<Rightarrow> u32 \<Rightarrow> u32 \<Rightarrow> macho_acc \<Rightarrow> boot_state \<Rightarrow> (macho_acc \<times> boot_state) option" where
  "load_cmd env is64 image_base cmd acc s =
    (let lc = lc_cmd (load_command_at (bmem s) cmd) in
     if is64 \<and> lc = LC_SEGMENT_64 then
       do { let seg = segment_command_64_at (bmem s) cmd;
            s1 \<leftarrow> debug_print env ''[MACHO] LC_SEGMENT_64: '' s;
            s2 \<leftarrow> print_segname env cmd [0..<16] s1;
            s3 \<leftarrow> debug_print env '' -> 0x'' s2;
            s4 \<leftarrow> debug_hex env (s64_vmaddr seg) 16 s3;
            s5 \<leftarrow> debug_print env '' size: 0x'' s4;
            s6 \<leftarrow> debug_hex env (s64_vmsize seg) 8 s5;
            s7 \<leftarrow> debug_print env [CHR 0x0A] s6;
            Some (track_range seg acc, s7\<lparr>bmem := copy_segment_64 image_base cmd (bmem s7)\<rparr>) }
     else if \<not> is64 \<and> lc = LC_SEGMENT then
       do { let seg = segment_command_32_at (bmem s) cmd;
            s1 \<leftarrow> debug_print env ''[MACHO] LC_SEGMENT: '' s;
            s2 \<leftarrow> print_segname env cmd [0..<16] s1;
            s3 \<leftarrow> debug_print env '' -> 0x'' s2;
            s4 \<leftarrow> debug_hex env (ucast (s32_vmaddr seg)) 8 s3;
            s5 \<leftarrow> debug_print env [CHR 0x0A] s4;
            Some (acc, s5\<lparr>bmem := copy_segment_32 image_base cmd (bmem s5)\<rparr>) }
     else if lc = LC_MAIN \<or> lc = LC_UNIXTHREAD then
       (if lc = LC_MAIN then
          do { let ep = ucast (image_base + ep_entry_off (entry_point_command_at (bmem s) cmd));
               s1 \<leftarrow> debug_print env ''[MACHO] Entry point (LC_MAIN): 0x'' s;
               s2 \<leftarrow> debug_hex env ep 16 s1;
               s3 \<leftarrow> debug_print env [CHR 0x0A] s2;
               Some (acc\<lparr>acc_entry := ep\<rparr>, s3) }
        else Some (acc, s))
     else Some (acc, s))"

text \<open>The loop re-reads \<open>ncmds\<close> and the size of the command from the memory it has just written.\<close>

function load_cmds ::
    "boot_env \<Rightarrow> bool \<Rightarrow> u32 \<Rightarrow> u32 \<Rightarrow> u32 \<Rightarrow> macho_acc \<Rightarrow> boot_state \<Rightarrow>
     (macho_acc \<times> boot_state) option" where
  "load_cmds env is64 image_base i cmd acc s =
    (if i < mh_ncmds (mach_header_at (bmem s) image_base) then
       do { (acc', s') \<leftarrow> load_cmd env is64 image_base cmd acc s;
            load_cmds env is64 image_base (i + 1)
              (cmd + lc_cmdsize (load_command_at (bmem s') cmd)) acc' s' }
     else Some (acc, s))"
  by auto

termination
proof (relation "measure (\<lambda>(env, is64, image_base, i, cmd, acc, s). 2 ^ 32 - unat i)", simp, goal_cases)
  case (1 env is64 image_base i cmd acc s)
  moreover have "unat i < 2 ^ 32" using unsigned_less [of i] by simp
  ultimately show ?case by (simp add: unat_plus_1)
qed

declare load_cmds.simps [simp del]

definition macho_is_64 :: "u32 \<Rightarrow> bool option" where
  "macho_is_64 magic =
    (if magic = MH_MAGIC_64 then Some True
     else if magic = MH_MAGIC then Some False
     else if magic = MH_CIGAM_64 then Some True
     else if magic = MH_CIGAM then Some False
     else None)"

definition invalid_kernel :: kernel_info_t where
  "invalid_kernel = \<lparr>entry_point = 0, load_base = 0, is_64bit = 0, is_valid = 0\<rparr>"

definition macho_load ::
    "boot_env \<Rightarrow> u32 \<Rightarrow> u32 \<Rightarrow> boot_state \<Rightarrow> (kernel_info_t \<times> boot_state) option" where
  "macho_load env image_base image_size s =
    (if image_size < 32 then
       do { s1 \<leftarrow> debug_print env (''[MACHO] Image too small'' @ [CHR 0x0A]) s; Some (invalid_kernel, s1) }
     else
       (let header = mach_header_at (bmem s) image_base in
        case macho_is_64 (mh_magic header) of
          None \<Rightarrow>
            do { s1 \<leftarrow> debug_print env ''[MACHO] Invalid magic: 0x'' s;
                 s2 \<leftarrow> debug_hex env (ucast (mh_magic header)) 8 s1;
                 s3 \<leftarrow> debug_print env [CHR 0x0A] s2;
                 Some (invalid_kernel, s3) }
        | Some is64 \<Rightarrow>
            do { s1 \<leftarrow> debug_print env ''[MACHO] Found '' s;
                 s2 \<leftarrow> debug_print env (if is64 then ''64-bit'' else ''32-bit'') s1;
                 s3 \<leftarrow> debug_print env '' Mach-O, CPU type: 0x'' s2;
                 s4 \<leftarrow> debug_hex env (ucast (mh_cputype header)) 4 s3;
                 s5 \<leftarrow> debug_print env [CHR 0x0A] s4;
                 (acc, s6) \<leftarrow> load_cmds env is64 image_base 0 (image_base + (if is64 then 32 else 28))
                   \<lparr>acc_entry = 0, acc_min = - 1, acc_max = 0\<rparr> s5;
                 s7 \<leftarrow> debug_print env ''[MACHO] Load base: 0x'' s6;
                 s8 \<leftarrow> debug_hex env (acc_min acc) 16 s7;
                 s9 \<leftarrow> debug_print env '', Kernel size: 0x'' s8;
                 s10 \<leftarrow> debug_hex env (acc_max acc - acc_min acc) 16 s9;
                 s11 \<leftarrow> debug_print env [CHR 0x0A] s10;
                 Some (\<lparr>entry_point = acc_entry acc, load_base = acc_min acc,
                        is_64bit = (if is64 then 1 else 0), is_valid = 1\<rparr>, s11) }))"

section \<open>The loader returns\<close>

lemma print_segname_quiet:
  assumes "uart_live env"
  shows "ok_with (quiet s) (print_segname env cmd js s)"
proof (induction js arbitrary: s)
  case Nil
  then show ?case by simp
next
  case (Cons j js)
  show ?case
    unfolding print_segname.simps
    by (intro ok_with_if ok_with_bind [OF console_quiet(4) [OF assms]] Cons.IH)
      (auto intro!: ok_with_mono [OF Cons.IH] intro: quiet_trans)
qed

text \<open>Stepping through a block of output: nothing but the line changes.\<close>

lemma quiet_binds:
  assumes "uart_live env"
  shows "(\<And>s1. quiet s s1 \<Longrightarrow> ok_with Q (f s1)) \<Longrightarrow> ok_with Q (debug_print env str s \<bind> f)"
    and "(\<And>s1. quiet s s1 \<Longrightarrow> ok_with Q (f s1)) \<Longrightarrow> ok_with Q (debug_hex env v w s \<bind> f)"
    and "(\<And>s1. quiet s s1 \<Longrightarrow> ok_with Q (f s1)) \<Longrightarrow> ok_with Q (print_segname env cmd js s \<bind> f)"
  by (rule ok_with_bind [OF console_quiet(1) [OF assms]] ok_with_bind [OF console_quiet(2) [OF assms]]
      ok_with_bind [OF print_segname_quiet [OF assms]]; assumption)+

text \<open>What a command does to memory and to the accumulated information.\<close>

definition cmd_mem :: "bool \<Rightarrow> u32 \<Rightarrow> u32 \<Rightarrow> mem \<Rightarrow> mem" where
  "cmd_mem is64 image_base cmd m =
    (if is64 \<and> ld32 m cmd = LC_SEGMENT_64 then copy_segment_64 image_base cmd m
     else if \<not> is64 \<and> ld32 m cmd = LC_SEGMENT then copy_segment_32 image_base cmd m else m)"

definition cmd_acc :: "bool \<Rightarrow> u32 \<Rightarrow> u32 \<Rightarrow> mem \<Rightarrow> macho_acc \<Rightarrow> macho_acc" where
  "cmd_acc is64 image_base cmd m acc =
    (if is64 \<and> ld32 m cmd = LC_SEGMENT_64 then track_range (segment_command_64_at m cmd) acc
     else if ld32 m cmd = LC_MAIN then acc\<lparr>acc_entry := ucast (image_base + ld32 m (cmd + 8))\<rparr>
     else acc)"

lemma load_cmd_ok:
  assumes "uart_live env"
  shows "ok_with (\<lambda>(acc', s'). acc' = cmd_acc is64 image_base cmd (bmem s) acc \<and>
      bmem s' = cmd_mem is64 image_base cmd (bmem s) \<and> cp_log s' = cp_log s)
    (load_cmd env is64 image_base cmd acc s)"
  unfolding load_cmd_def Let_def
  by (intro ok_with_if quiet_binds [OF assms])
    (auto simp: cmd_acc_def cmd_mem_def load_command_at_def entry_point_command_at_def quiet_def)

text \<open>The loop on memory alone.\<close>

function run_cmds :: "bool \<Rightarrow> u32 \<Rightarrow> u32 \<Rightarrow> u32 \<Rightarrow> macho_acc \<Rightarrow> mem \<Rightarrow> macho_acc \<times> mem" where
  "run_cmds is64 image_base i cmd acc m =
    (if i < ld32 m (image_base + 16) then
       (let m' = cmd_mem is64 image_base cmd m
        in run_cmds is64 image_base (i + 1) (cmd + ld32 m' (cmd + 4))
             (cmd_acc is64 image_base cmd m acc) m')
     else (acc, m))"
  by auto

termination
proof (relation "measure (\<lambda>(is64, image_base, i, cmd, acc, m). 2 ^ 32 - unat i)", simp, goal_cases)
  case (1 is64 image_base i cmd acc m)
  moreover have "unat i < 2 ^ 32" using unsigned_less [of i] by simp
  ultimately show ?case by (simp add: unat_plus_1)
qed

declare run_cmds.simps [simp del]

lemma load_cmds_ok:
  assumes "uart_live env"
  shows "ok_with (\<lambda>(acc', s'). (acc', bmem s') = run_cmds is64 image_base i cmd acc (bmem s) \<and>
      cp_log s' = cp_log s) (load_cmds env is64 image_base i cmd acc s)"
proof (induction is64 image_base i cmd acc "bmem s" arbitrary: s rule: run_cmds.induct)
  case (1 is64 image_base i cmd acc)
  show ?case
  proof (cases "i < ld32 (bmem s) (image_base + 16)")
    case True
    then show ?thesis
      unfolding load_cmds.simps [of env is64 image_base i] run_cmds.simps [of is64 image_base i]
      by (auto simp: mach_header_at_def load_command_at_def Let_def
          intro!: ok_with_bind [OF load_cmd_ok [OF assms]] ok_with_mono [OF 1(1)])
  next
    case False
    then show ?thesis
      by (simp add: load_cmds.simps [of env is64 image_base i] mach_header_at_def
          run_cmds.simps [of is64 image_base i])
  qed
qed

section \<open>What an image specifies\<close>

text \<open>
  A segment to load: destination, offset of its bytes in the image, their number, and the number of
  zero bytes behind them.
\<close>

definition segment_of :: "bool \<Rightarrow> mem \<Rightarrow> u32 \<Rightarrow> (u32 \<times> u32 \<times> nat \<times> nat) option" where
  "segment_of is64 m cmd =
    (if is64 \<and> ld32 m cmd = LC_SEGMENT_64 \<and> ld64 m (cmd + 48) > 0 then
       Some (ucast (ld64 m (cmd + 24)), ucast (ld64 m (cmd + 40)),
         unat (ucast (ld64 m (cmd + 48)) :: u32),
         if ld64 m (cmd + 32) > ld64 m (cmd + 48)
         then unat (ucast (ld64 m (cmd + 32) - ld64 m (cmd + 48)) :: u32) else 0)
     else if \<not> is64 \<and> ld32 m cmd = LC_SEGMENT \<and> ld32 m (cmd + 36) > 0 then
       Some (ld32 m (cmd + 24), ld32 m (cmd + 32), unat (ld32 m (cmd + 36)),
         if ld32 m (cmd + 28) > ld32 m (cmd + 36)
         then unat (ld32 m (cmd + 28) - ld32 m (cmd + 36)) else 0)
     else None)"

text \<open>Placing the segment: \<open>m0\<close> is the memory that holds the image.\<close>

definition place :: "bool \<Rightarrow> mem \<Rightarrow> u32 \<Rightarrow> u32 \<Rightarrow> mem \<Rightarrow> mem" where
  "place is64 m0 image_base cmd m =
    (case segment_of is64 m0 cmd of
       None \<Rightarrow> m
     | Some (dest, off, n, z) \<Rightarrow>
        (\<lambda>x. if in_block (dest + of_nat n) z x then 0
             else if in_block dest n x then m0 (image_base + off + (x - dest)) else m x))"

fun cmd_addrs :: "mem \<Rightarrow> u32 \<Rightarrow> nat \<Rightarrow> u32 list" where
  "cmd_addrs m cmd 0 = []"
| "cmd_addrs m cmd (Suc n) = cmd # cmd_addrs m (cmd + ld32 m (cmd + 4)) n"

text \<open>Ranges without wrap-around, inside the image or apart from it.\<close>

definition inside :: "u32 \<Rightarrow> nat \<Rightarrow> u32 \<Rightarrow> nat \<Rightarrow> bool" where
  "inside base sz a n \<longleftrightarrow> unat base \<le> unat a \<and> unat a + n \<le> unat base + sz"

definition apart :: "u32 \<Rightarrow> nat \<Rightarrow> u32 \<Rightarrow> nat \<Rightarrow> bool" where
  "apart base sz a n \<longleftrightarrow> n = 0 \<or> unat a + n \<le> unat base \<or>
     (unat base + sz \<le> unat a \<and> unat a + n \<le> 2 ^ 32)"

definition command_ok :: "bool \<Rightarrow> mem \<Rightarrow> u32 \<Rightarrow> nat \<Rightarrow> u32 \<Rightarrow> bool" where
  "command_ok is64 m base sz cmd \<longleftrightarrow> inside base sz cmd 56 \<and>
    (case segment_of is64 m cmd of
       None \<Rightarrow> True
     | Some (dest, off, n, z) \<Rightarrow> inside base sz (base + off) n \<and> apart base sz dest n \<and>
         apart base sz (dest + of_nat n) z)"

definition image_ok :: "bool \<Rightarrow> mem \<Rightarrow> u32 \<Rightarrow> nat \<Rightarrow> bool" where
  "image_ok is64 m base sz \<longleftrightarrow> 32 \<le> sz \<and> unat base + sz \<le> 2 ^ 32 \<and>
     list_all (command_ok is64 m base sz)
       (cmd_addrs m (base + (if is64 then 32 else 28)) (unat (ld32 m (base + 16))))"

lemma inside_block:
  assumes "inside base sz a n" "unat base + sz \<le> 2 ^ 32" "in_block a n x"
  shows "in_block base sz x"
proof -
  have "unat a + n \<le> 2 ^ 32" using assms(1,2) by (simp add: inside_def)
  from in_block_range [OF assms(3) this] assms(1) show ?thesis
    by (intro in_block_le) (auto simp: inside_def word_le_nat_alt)
qed

lemma apart_block:
  assumes "apart base sz a n" "unat base + sz \<le> 2 ^ 32" "in_block base sz x"
  shows "\<not> in_block a n x"
proof
  assume b: "in_block a n x"
  then have "n \<noteq> 0" by (auto simp: in_block_def)
  with assms(1) have "unat a + n \<le> 2 ^ 32" using assms(2) by (auto simp: apart_def)
  from in_block_range [OF b this] in_block_range [OF assms(3,2)] assms(1) \<open>n \<noteq> 0\<close>
  show False by (auto simp: apart_def word_le_nat_alt)
qed

section \<open>The loader implements the specification\<close>

definition agree :: "u32 \<Rightarrow> nat \<Rightarrow> mem \<Rightarrow> mem \<Rightarrow> bool" where
  "agree base sz m m' \<longleftrightarrow> (\<forall>x. in_block base sz x \<longrightarrow> m x = m' x)"

lemma agree_ld32:
  assumes "agree base sz m m'" "unat base + sz \<le> 2 ^ 32" "inside base sz a n"
    "unat d + 4 \<le> n"
  shows "ld32 m (a + d) = ld32 m' (a + d)"
proof (rule ld32_cong)
  fix x assume "in_block (a + d) 4 x"
  moreover have "n \<le> 2 ^ 32" using assms(2,3) by (simp add: inside_def)
  ultimately have "in_block a n x" using in_block_sub [OF _ assms(4)] by blast
  then show "m x = m' x"
    using inside_block [OF assms(3,2)] assms(1) unfolding agree_def by blast
qed

lemma agree_ld64:
  assumes "agree base sz m m'" "unat base + sz \<le> 2 ^ 32" "inside base sz a n"
    "unat d + 8 \<le> n"
  shows "ld64 m (a + d) = ld64 m' (a + d)"
proof (rule ld64_cong)
  fix x assume "in_block (a + d) 8 x"
  moreover have "n \<le> 2 ^ 32" using assms(2,3) by (simp add: inside_def)
  ultimately have "in_block a n x" using in_block_sub [OF _ assms(4)] by blast
  then show "m x = m' x"
    using inside_block [OF assms(3,2)] assms(1) unfolding agree_def by blast
qed

lemma agree_command:
  assumes "agree base sz m m'" "unat base + sz \<le> 2 ^ 32" "inside base sz cmd 56"
  shows "ld32 m cmd = ld32 m' cmd" "ld32 m (cmd + 4) = ld32 m' (cmd + 4)"
    "ld32 m (cmd + 8) = ld32 m' (cmd + 8)"
    "segment_of is64 m cmd = segment_of is64 m' cmd"
    "segment_command_64_at m cmd = segment_command_64_at m' cmd"
    "segment_command_32_at m cmd = segment_command_32_at m' cmd"
  using agree_ld32 [OF assms, of 0]
  by (simp_all add: segment_of_def segment_command_64_at_def segment_command_32_at_def
      agree_ld32 [OF assms] agree_ld64 [OF assms])

text \<open>A place outside the image keeps the image.\<close>

lemma agree_place:
  assumes "agree base sz m m0" "unat base + sz \<le> 2 ^ 32" "command_ok is64 m0 base sz cmd"
  shows "agree base sz (place is64 m0 base cmd m) m0"
  using assms apart_block [of base sz]
  by (auto simp: agree_def place_def command_ok_def split: option.splits)

lemma copy_block:
  assumes ag: "agree base sz m m0" and bd: "unat base + sz \<le> 2 ^ 32"
    and src: "inside base sz src n" and dst: "apart base sz dest n"
  shows "boot_memcpy dest src n m = (\<lambda>x. if in_block dest n x then m0 (src + (x - dest)) else m x)"
    and "agree base sz (boot_memcpy dest src n m) m0"
proof -
  have n: "n \<le> 2 ^ 32" using src bd by (simp add: inside_def)
  have "\<not> in_block src n dest"
  proof
    assume b: "in_block src n dest"
    then have "in_block dest n dest" by (auto simp: in_block_def)
    with apart_block [OF dst bd inside_block [OF src bd b]] show False ..
  qed
  then have c: "boot_memcpy dest src n m x = (if in_block dest n x then m (src + (x - dest)) else m x)"
    for x using boot_memcpy_block [OF n] by blast
  have "m (src + (x - dest)) = m0 (src + (x - dest))" if "in_block dest n x" for x
  proof -
    have "in_block src n (src + (x - dest))" using that by (simp add: in_block_def)
    from inside_block [OF src bd this] ag show ?thesis by (simp add: agree_def)
  qed
  with c show eq: "boot_memcpy dest src n m =
      (\<lambda>x. if in_block dest n x then m0 (src + (x - dest)) else m x)"
    by (auto simp: fun_eq_iff)
  show "agree base sz (boot_memcpy dest src n m) m0"
    unfolding eq using ag apart_block [OF dst bd] by (simp add: agree_def)
qed

lemma unat_u32_le: "unat (w :: u32) \<le> 4294967296"
proof -
  have "unat w < 2 ^ 32" using unsigned_less [of w] by simp
  then show ?thesis by simp
qed

lemma cmd_mem_place:
  assumes ag: "agree base sz m m0" and bd: "unat base + sz \<le> 2 ^ 32"
    and ok: "command_ok is64 m0 base sz cmd"
  shows "cmd_mem is64 base cmd m = place is64 m0 base cmd m"
proof -
  have ins: "inside base sz cmd 56" using ok by (simp add: command_ok_def)
  note same = agree_command [OF ag bd ins]
  show ?thesis
  proof (cases "segment_of is64 m0 cmd")
    case None
    then show ?thesis
      using same by (auto simp: cmd_mem_def place_def segment_of_def copy_segment_64_def
          copy_segment_32_def segment_command_64_at_def segment_command_32_at_def Let_def
          split: if_splits)
  next
    case (Some t)
    obtain dest off n z where t: "t = (dest, off, n, z)" by (cases t)
    have src: "inside base sz (base + off) n" and dst: "apart base sz dest n"
      using ok Some t by (simp_all add: command_ok_def)
    note cp = copy_block [OF ag bd src dst]
    note same1 = agree_command [OF cp(2) bd ins]
    have zs: "z \<le> 2 ^ 32"
      using Some t unat_u32_le by (auto simp: segment_of_def split: if_splits)
    have "boot_memset (dest + of_nat n) 0 z (boot_memcpy dest (base + off) n m) =
        place is64 m0 base cmd m"
      using boot_memset_block [OF zs] by (auto simp: fun_eq_iff place_def Some t cp(1))
    moreover have "boot_memset a c 0 m' = m'" for a c m' by simp
    ultimately show ?thesis
      using Some t same same1
      by (auto simp: cmd_mem_def segment_of_def copy_segment_64_def copy_segment_32_def Let_def
          segment_command_64_at_def segment_command_32_at_def split: if_splits)
  qed
qed

lemma run_cmds_spec:
  assumes "agree base sz m m0" and "unat base + sz \<le> 2 ^ 32" and "32 \<le> sz"
    and "i \<le> ld32 m0 (base + 16)"
    and "list_all (command_ok is64 m0 base sz) (cmd_addrs m0 cmd (unat (ld32 m0 (base + 16) - i)))"
  shows "run_cmds is64 base i cmd acc m =
    (fold (\<lambda>c. cmd_acc is64 base c m0) (cmd_addrs m0 cmd (unat (ld32 m0 (base + 16) - i))) acc,
     fold (place is64 m0 base) (cmd_addrs m0 cmd (unat (ld32 m0 (base + 16) - i))) m)"
  using assms
proof (induction is64 base i cmd acc m rule: run_cmds.induct)
  case (1 is64 base i cmd acc m)
  note bd = 1(3,4)
  have hdr: "inside base sz base 32" using bd by (simp add: inside_def)
  have n: "ld32 m (base + 16) = ld32 m0 (base + 16)"
    using agree_ld32 [OF 1(2) bd(1) hdr, of 16] by simp
  show ?case
  proof (cases "i < ld32 m0 (base + 16)")
    case True
    define k where "k = unat (ld32 m0 (base + 16) - (i + 1))"
    have k: "unat (ld32 m0 (base + 16) - i) = Suc k"
      unfolding k_def using True by unat_arith
    have ok: "command_ok is64 m0 base sz cmd" using 1(6) k by simp
    then have ins: "inside base sz cmd 56" by (simp add: command_ok_def)
    let ?m = "cmd_mem is64 base cmd m"
    have p: "?m = place is64 m0 base cmd m" by (rule cmd_mem_place [OF 1(2) bd(1) ok])
    have ag: "agree base sz ?m m0" unfolding p by (rule agree_place [OF 1(2) bd(1) ok])
    have next_cmd: "ld32 ?m (cmd + 4) = ld32 m0 (cmd + 4)"
      by (rule agree_command(2) [OF ag bd(1) ins])
    have acc: "cmd_acc is64 base cmd m acc = cmd_acc is64 base cmd m0 acc"
      using agree_command [OF 1(2) bd(1) ins] by (simp add: cmd_acc_def)
    have "i + 1 \<le> ld32 m0 (base + 16)" using True by (simp add: inc_le)
    moreover have "list_all (command_ok is64 m0 base sz) (cmd_addrs m0 (cmd + ld32 m0 (cmd + 4)) k)"
      using 1(6) k by simp
    ultimately show ?thesis
      using True 1(1) [OF _ refl ag] n bd
      by (simp add: run_cmds.simps [of is64 base i] Let_def next_cmd next_cmd [unfolded p]
          acc k k_def [symmetric] p)
  next
    case False
    with 1(5) have "ld32 m0 (base + 16) = i" by simp
    with n show ?thesis by (simp add: run_cmds.simps [of is64 base i])
  qed
qed

lemma macho_load_rejects:
  assumes "uart_live env"
    and "image_size < 32 \<or> macho_is_64 (ld32 (bmem s) image_base) = None"
  shows "ok_with (\<lambda>(info, s'). info = invalid_kernel \<and> bmem s' = bmem s \<and> cp_log s' = cp_log s)
    (macho_load env image_base image_size s)"
  using assms(2) unfolding macho_load_def Let_def
  by (auto simp: mach_header_at_def quiet_def intro!: quiet_binds [OF assms(1)])

lemma macho_load_accepts:
  assumes "uart_live env" and "\<not> image_size < 32"
    and "macho_is_64 (ld32 (bmem s) image_base) = Some is64"
    and "run_cmds is64 image_base 0 (image_base + (if is64 then 32 else 28))
        \<lparr>acc_entry = 0, acc_min = - 1, acc_max = 0\<rparr> (bmem s) = (acc, m)"
  shows "ok_with (\<lambda>(info, s'). info = \<lparr>entry_point = acc_entry acc, load_base = acc_min acc,
      is_64bit = (if is64 then 1 else 0), is_valid = 1\<rparr> \<and> bmem s' = m \<and> cp_log s' = cp_log s)
    (macho_load env image_base image_size s)"
proof -
  have h: "macho_is_64 (mh_magic (mach_header_at (bmem s) image_base)) = Some is64"
    using assms(3) by (simp add: mach_header_at_def)
  have lc: "ok_with (\<lambda>(a, s6). a = acc \<and> bmem s6 = m \<and> cp_log s6 = cp_log s)
      (load_cmds env is64 image_base 0 (image_base + (if is64 then 32 else 28))
        \<lparr>acc_entry = 0, acc_min = - 1, acc_max = 0\<rparr> s5)"
    if "quiet s s5" for s5
    using that assms(4) by (auto simp: quiet_def intro: ok_with_mono [OF load_cmds_ok [OF assms(1)]])
  have q: "quiet s s'" if "quiet s s1" "quiet s1 s2" "quiet s2 s3" "quiet s3 s4" "quiet s4 s'"
    for s1 s2 s3 s4 s' using that by (simp add: quiet_def)
  show ?thesis
    unfolding macho_load_def Let_def h option.case if_not_P [OF assms(2)]
    by (rule quiet_binds [OF assms(1)] ok_with_bind [OF lc] | erule (4) q)+
      (auto intro!: quiet_binds [OF assms(1)] simp: quiet_def)
qed

text \<open>
  C6: given a live console, \<open>macho_load\<close> returns for every memory content. It reports a valid kernel
  exactly when the image is at least as large as a header and its magic is one of the four Mach-O
  magics, and an image it rejects leaves memory unchanged.
\<close>

theorem macho_load_total:
  assumes "uart_live env"
  shows "\<exists>info s'. macho_load env image_base image_size s = Some (info, s') \<and>
    (is_valid info = 1 \<longleftrightarrow> 32 \<le> image_size \<and> ld32 (bmem s) image_base \<in>
      {MH_MAGIC, MH_MAGIC_64, MH_CIGAM, MH_CIGAM_64}) \<and>
    (is_valid info \<noteq> 1 \<longrightarrow> info = invalid_kernel \<and> bmem s' = bmem s)"
proof -
  have magic: "macho_is_64 w \<noteq> None \<longleftrightarrow> w \<in> {MH_MAGIC, MH_MAGIC_64, MH_CIGAM, MH_CIGAM_64}" for w
    by (auto simp: macho_is_64_def)
  show ?thesis
  proof (cases "image_size < 32 \<or> macho_is_64 (ld32 (bmem s) image_base) = None")
    case True
    from macho_load_rejects [OF assms this] True magic [of "ld32 (bmem s) image_base"] show ?thesis
      by (auto simp: ok_with_def invalid_kernel_def not_le)
  next
    case False
    then obtain is64 where i: "macho_is_64 (ld32 (bmem s) image_base) = Some is64" by auto
    obtain acc m where "run_cmds is64 image_base 0 (image_base + (if is64 then 32 else 28))
        \<lparr>acc_entry = 0, acc_min = - 1, acc_max = 0\<rparr> (bmem s) = (acc, m)" by force
    from macho_load_accepts [OF assms _ i this, of image_size] False
      magic [of "ld32 (bmem s) image_base"]
    show ?thesis by (auto simp: ok_with_def not_less)
  qed
qed

theorem macho_load_total_witness:
  "\<exists>info s'. macho_load ready_env KERNEL_LOAD_BASE MAX_KERNEL_SIZE blank_state = Some (info, s') \<and>
    info = invalid_kernel \<and> bmem s' = bmem blank_state"
  using macho_load_total [OF ready_env_live, of KERNEL_LOAD_BASE MAX_KERNEL_SIZE blank_state]
  by (auto simp: blank_state_def ld32_def le32_def)

text \<open>The load commands of an image, and the information they carry.\<close>

definition image_cmds :: "bool \<Rightarrow> mem \<Rightarrow> u32 \<Rightarrow> u32 list" where
  "image_cmds is64 m image_base =
     cmd_addrs m (image_base + (if is64 then 32 else 28)) (unat (ld32 m (image_base + 16)))"

definition image_info :: "bool \<Rightarrow> mem \<Rightarrow> u32 \<Rightarrow> macho_acc" where
  "image_info is64 m image_base = fold (\<lambda>c. cmd_acc is64 image_base c m) (image_cmds is64 m image_base)
     \<lparr>acc_entry = 0, acc_min = - 1, acc_max = 0\<rparr>"

text \<open>
  C5: for an image whose load commands and segment data lie inside it and whose segments go
  elsewhere, \<open>macho_load\<close> ends with exactly the memory that placing the segments one after the other
  gives (bytes of the image first, zeros behind them, nothing else changed), reading every header
  and byte from the original image; entry point and load base are those of the commands.
\<close>

theorem macho_load_places_segments:
  assumes "uart_live env" and "32 \<le> image_size"
    and "macho_is_64 (ld32 (bmem s) image_base) = Some is64"
    and "image_ok is64 (bmem s) image_base sz"
  shows "\<exists>info s'. macho_load env image_base image_size s = Some (info, s') \<and> is_valid info = 1 \<and>
    bmem s' = fold (place is64 (bmem s) image_base) (image_cmds is64 (bmem s) image_base) (bmem s) \<and>
    entry_point info = acc_entry (image_info is64 (bmem s) image_base) \<and>
    load_base info = acc_min (image_info is64 (bmem s) image_base)"
proof -
  have "run_cmds is64 image_base 0 (image_base + (if is64 then 32 else 28))
        \<lparr>acc_entry = 0, acc_min = - 1, acc_max = 0\<rparr> (bmem s) =
      (image_info is64 (bmem s) image_base,
       fold (place is64 (bmem s) image_base) (image_cmds is64 (bmem s) image_base) (bmem s))"
    using run_cmds_spec [of image_base sz "bmem s" "bmem s" 0 is64] assms(4)
    by (simp add: image_ok_def image_cmds_def image_info_def agree_def)
  from macho_load_accepts [OF assms(1) _ assms(3) this, of image_size] assms(2) show ?thesis
    by (auto simp: ok_with_def not_less)
qed

lemma run_cmds_32_min: "acc_min (fst (run_cmds False image_base i cmd acc m)) = acc_min acc"
proof (induction False image_base i cmd acc m rule: run_cmds.induct)
  case (1 image_base i cmd acc m)
  then show ?case
    by (simp add: run_cmds.simps [of False image_base i] Let_def cmd_acc_def)
qed

text \<open>
  The load base of a 32-bit kernel is always reported as the largest 64-bit number, whatever
  its segments are: only the 64-bit branch records the addresses.
\<close>

theorem macho32_load_base:
  assumes "uart_live env" and "32 \<le> image_size"
    and "macho_is_64 (ld32 (bmem s) image_base) = Some False"
  shows "\<exists>info s'. macho_load env image_base image_size s = Some (info, s') \<and>
    load_base info = 0xFFFFFFFFFFFFFFFF"
proof -
  obtain acc m where r: "run_cmds False image_base 0 (image_base + (if False then 32 else 28))
      \<lparr>acc_entry = 0, acc_min = - 1, acc_max = 0\<rparr> (bmem s) = (acc, m)" by force
  have "acc_min acc = - 1" using run_cmds_32_min [of image_base 0] r by (metis fst_conv macho_acc.simps(2))
  with macho_load_accepts [OF assms(1) _ assms(3) r, of image_size] assms(2) show ?thesis
    by (auto simp: ok_with_def not_less)
qed

section \<open>A small image\<close>

text \<open>Two commands at the kernel's address: one segment of eight bytes and eight zeros, and LC_MAIN.\<close>

definition small_bytes :: "u8 list" where
  "small_bytes =
    [0xCF, 0xFA, 0xED, 0xFE, 0x0C, 0, 0, 1, 0, 0, 0, 0, 2, 0, 0, 0,
     2, 0, 0, 0, 96, 0, 0, 0, 0, 0, 0, 0, 0, 0, 0, 0,
     0x19, 0, 0, 0, 72, 0, 0, 0, 0, 0, 0, 0, 0, 0, 0, 0, 0, 0, 0, 0, 0, 0, 0, 0,
     0, 0, 0, 0x84, 0, 0, 0, 0, 16, 0, 0, 0, 0, 0, 0, 0,
     128, 0, 0, 0, 0, 0, 0, 0, 8, 0, 0, 0, 0, 0, 0, 0,
     7, 0, 0, 0, 5, 0, 0, 0, 0, 0, 0, 0, 0, 0, 0, 0,
     0x28, 0, 0, 0, 24, 0, 0, 0, 128, 0, 0, 0, 0, 0, 0, 0, 0, 0, 0, 0, 0, 0, 0, 0,
     1, 2, 3, 4, 5, 6, 7, 8]"

definition small_image :: mem where
  "small_image a = (if in_block KERNEL_LOAD_BASE 136 a then small_bytes ! unat (a - KERNEL_LOAD_BASE) else 0)"

lemma small_image_cmds:
  "image_cmds True small_image KERNEL_LOAD_BASE = [KERNEL_LOAD_BASE + 32, KERNEL_LOAD_BASE + 104]"
proof -
  have "ld32 small_image (KERNEL_LOAD_BASE + 16) = 2" "ld32 small_image (KERNEL_LOAD_BASE + 36) = 72"
    by (simp_all add: ld32_def small_image_def in_block_def small_bytes_def le32_def)
  moreover have "cmd_addrs m c 2 = [c, c + ld32 m (c + 4)]" for m c by (simp add: eval_nat_numeral)
  ultimately show ?thesis by (simp add: image_cmds_def)
qed

lemma small_image_segments:
  "segment_of True small_image (KERNEL_LOAD_BASE + 32) = Some (0x84000000, 128, 8, 8)"
  "segment_of True small_image (KERNEL_LOAD_BASE + 104) = None"
proof -
  have "ld32 small_image (KERNEL_LOAD_BASE + 32) = 0x19" "ld32 small_image (KERNEL_LOAD_BASE + 104) = 0x28"
    "ld64 small_image (KERNEL_LOAD_BASE + 56) = 0x84000000" "ld64 small_image (KERNEL_LOAD_BASE + 64) = 16"
    "ld64 small_image (KERNEL_LOAD_BASE + 72) = 128" "ld64 small_image (KERNEL_LOAD_BASE + 80) = 8"
    by (simp_all add: ld64_def le64_def ld32_def small_image_def in_block_def small_bytes_def le32_def)
  then show "segment_of True small_image (KERNEL_LOAD_BASE + 32) = Some (0x84000000, 128, 8, 8)"
    "segment_of True small_image (KERNEL_LOAD_BASE + 104) = None"
    by (simp_all add: segment_of_def)
qed

lemma small_image_ok: "image_ok True small_image KERNEL_LOAD_BASE 192"
  using small_image_cmds small_image_segments
  by (simp add: image_ok_def image_cmds_def command_ok_def inside_def apart_def)

theorem macho_load_places_segments_witness:
  "\<exists>info s'. macho_load ready_env KERNEL_LOAD_BASE MAX_KERNEL_SIZE (blank_state\<lparr>bmem := small_image\<rparr>) =
      Some (info, s') \<and> is_valid info = 1 \<and>
    bmem s' = place True small_image KERNEL_LOAD_BASE (KERNEL_LOAD_BASE + 104)
      (place True small_image KERNEL_LOAD_BASE (KERNEL_LOAD_BASE + 32) small_image)"
proof -
  have "macho_is_64 (ld32 small_image KERNEL_LOAD_BASE) = Some True"
    by (simp add: ld32_def small_image_def in_block_def small_bytes_def le32_def macho_is_64_def)
  with macho_load_places_segments [OF ready_env_live, of MAX_KERNEL_SIZE
      "blank_state\<lparr>bmem := small_image\<rparr>" KERNEL_LOAD_BASE True 192] small_image_ok small_image_cmds
  show ?thesis by (auto simp: blank_state_def)
qed

theorem macho32_load_base_witness:
  "\<exists>info s'. macho_load ready_env 0 64 (blank_state\<lparr>bmem := (\<lambda>_. 0)(0 := 0xCE, 1 := 0xFA, 2 := 0xED, 3 := 0xFE)\<rparr>) =
      Some (info, s') \<and> load_base info = 0xFFFFFFFFFFFFFFFF"
  by (rule macho32_load_base [OF ready_env_live])
    (simp_all add: blank_state_def ld32_def le32_def macho_is_64_def)

end
