(* ===== verification/Kick_Main.thy ===== *)
theory Kick_Main
  imports Kick_Macho
begin

text \<open>
  The rest of the boot loader \<^verbatim>\<open>src/boot/kickstart/boot.c\<close>: device tree, MMU set-up, the board table
  with its initialisation functions, and \<open>bootloader_main\<close>. The final call of the kernel and the
  endless \<^verbatim>\<open>wfi\<close> loop are the two outcomes of \<open>bootloader_main\<close>.
\<close>

section \<open>Device tree\<close>

definition print_line :: "boot_env \<Rightarrow> string \<Rightarrow> boot_state \<Rightarrow> boot_state option" where
  "print_line env str = debug_print env (str @ [CHR 0x0A])"

definition device_tree_set_chosen_display ::
    "boot_env \<Rightarrow> u32 \<Rightarrow> u64 \<Rightarrow> u32 \<Rightarrow> u32 \<Rightarrow> u32 \<Rightarrow> boot_state \<Rightarrow> (int \<times> boot_state) option" where
  "device_tree_set_chosen_display env dt_base fb_phys w h stride s =
    (if dt_base = 0 then Some (- 1, s)
     else if ld32 (bmem s) dt_base \<noteq> 0x54440000 then
       do { s1 \<leftarrow> print_line env ''[DT] Invalid device tree signature'' s; Some (- 1, s1) }
     else
       do { s1 \<leftarrow> debug_print env ''[DT] Device tree found at 0x'' s;
            s2 \<leftarrow> debug_hex env (ucast dt_base) 8 s1;
            s3 \<leftarrow> debug_print env '', size: '' s2;
            s4 \<leftarrow> debug_hex env (ucast (ld32 (bmem s3) (dt_base + 8))) 4 s3;
            s5 \<leftarrow> debug_print env [CHR 0x0A] s4;
            Some (0, s5) })"

section \<open>MMU\<close>

definition mcr :: "u32 \<Rightarrow> u32 \<Rightarrow> u32 \<Rightarrow> u32 \<Rightarrow> boot_state \<Rightarrow> boot_state" where
  "mcr op1 op2 reg v s = s\<lparr>cp_log := cp_log s @ [Mcr op1 op2 reg v]\<rparr>"

definition mrc :: "boot_env \<Rightarrow> u32 \<Rightarrow> u32 \<Rightarrow> u32 \<Rightarrow> u32" where
  "mrc env op1 op2 reg = mrc_value env op1 op2 reg"

definition mmu_init_arm32 :: "boot_env \<Rightarrow> boot_state \<Rightarrow> boot_state" where
  "mmu_init_arm32 env s =
    (let ttbr = KERNEL_LOAD_BASE OR 0x4a;
         s1 = mcr 0 0 2 ttbr s;
         s2 = mcr 0 0 3 0x55555555 s1;
         id_mmfr0 = mrc env 0 0 1;
         s3 = (if drop_bit 28 id_mmfr0 AND 0xF \<noteq> 0
               then mcr 0 0 1 (mrc env 0 0 1 OR push_bit 31 1) s2 else s2)
     in s3\<lparr>cp_log := cp_log s3 @ [Tlb_invalidate, Barrier]\<rparr>)"

definition mmu_init :: "boot_env \<Rightarrow> boot_state \<Rightarrow> boot_state option" where
  "mmu_init env s = print_line env ''[MMU] Memory management unit initialized'' (mmu_init_arm32 env s)"

section \<open>Boards\<close>

type_synonym board_fn = "boot_env \<Rightarrow> boot_state \<Rightarrow> boot_state option"

record board_config =
  bc_name :: string
  bc_platform_id :: nat
  bc_uart_init :: "board_fn option"
  bc_display_init :: "board_fn option"
  bc_mmu_init_custom :: "board_fn option"
  bc_clock_init :: "board_fn option"
  bc_power_init :: "board_fn option"

definition paint :: "(mem \<Rightarrow> mem) \<Rightarrow> boot_state \<Rightarrow> boot_state" where
  "paint f s = s\<lparr>bmem := f (bmem s)\<rparr>"

definition harpia_uart_init :: board_fn where
  "harpia_uart_init env s =
     do { s1 \<leftarrow> debug_print env ''[HARPIA] UART2 (BLSP1) initialized at 0x'' s;
          s2 \<leftarrow> debug_hex env (ucast UART_BASE) 8 s1;
          debug_print env [CHR 0x0A] s2 }"

definition harpia_display_init :: board_fn where
  "harpia_display_init env s =
     do { s1 \<leftarrow> debug_print env ''[HARPIA] Display initialized: '' s;
          s2 \<leftarrow> debug_hex env (ucast DISPLAY_WIDTH) 3 s1;
          s3 \<leftarrow> debug_print env ''x'' s2;
          s4 \<leftarrow> debug_hex env (ucast DISPLAY_HEIGHT) 3 s3;
          s5 \<leftarrow> debug_print env '' RGB565 at 0x'' s4;
          s6 \<leftarrow> debug_hex env (ucast FBMEM_BASE) 8 s5;
          s7 \<leftarrow> debug_print env [CHR 0x0A] s6;
          Some (paint (display_clear 0x000000) s7) }"

definition harpia_mmu_init :: board_fn where
  "harpia_mmu_init env s =
     do { s1 \<leftarrow> print_line env ''[HARPIA] Custom MMU setup for LPAE (Cortex-A53)'' s; mmu_init env s1 }"

definition harpia_clock_init :: board_fn where
  "harpia_clock_init env s = print_line env ''[HARPIA] Clock initialization for MSM8916'' s"

definition harpia_power_init :: board_fn where
  "harpia_power_init env s = print_line env ''[HARPIA] Power domain initialization'' s"

definition qemu_arm64_uart_init :: board_fn where
  "qemu_arm64_uart_init env s =
     do { s1 \<leftarrow> debug_print env ''[QEMU-ARM64] PL011 UART initialized at 0x'' s;
          s2 \<leftarrow> debug_hex env (ucast UART_BASE) 8 s1;
          debug_print env [CHR 0x0A] s2 }"

definition qemu_arm64_display_init :: board_fn where
  "qemu_arm64_display_init env s =
     do { s1 \<leftarrow> debug_print env ''[QEMU-ARM64] Display initialized: '' s;
          s2 \<leftarrow> debug_hex env (ucast DISPLAY_WIDTH) 4 s1;
          s3 \<leftarrow> debug_print env ''x'' s2;
          s4 \<leftarrow> debug_hex env (ucast DISPLAY_HEIGHT) 4 s3;
          s5 \<leftarrow> debug_print env '' ARGB8888 at 0x'' s4;
          s6 \<leftarrow> debug_hex env (ucast FBMEM_BASE) 8 s5;
          s7 \<leftarrow> debug_print env [CHR 0x0A] s6;
          Some (paint (display_clear 0x1e1e1e) s7) }"

definition qemu_arm64_clock_init :: board_fn where
  "qemu_arm64_clock_init env s = print_line env ''[QEMU-ARM64] Clock initialization'' s"

definition qemu_arm64_power_init :: board_fn where
  "qemu_arm64_power_init env s = print_line env ''[QEMU-ARM64] Power initialization'' s"

definition board_configs :: "board_config list" where
  "board_configs =
    [\<lparr>bc_name = ''Motorola Harpia (XT1622/MSM8916)'', bc_platform_id = PLATFORM_HARPIA,
      bc_uart_init = Some harpia_uart_init, bc_display_init = Some harpia_display_init,
      bc_mmu_init_custom = Some harpia_mmu_init, bc_clock_init = Some harpia_clock_init,
      bc_power_init = Some harpia_power_init\<rparr>,
     \<lparr>bc_name = ''QEMU ARM64 Generic'', bc_platform_id = PLATFORM_QEMU_ARM64,
      bc_uart_init = Some qemu_arm64_uart_init, bc_display_init = Some qemu_arm64_display_init,
      bc_mmu_init_custom = None, bc_clock_init = Some qemu_arm64_clock_init,
      bc_power_init = Some qemu_arm64_power_init\<rparr>]"

text \<open>\<open>if (f) f();\<close>\<close>

definition call_fn :: "board_fn option \<Rightarrow> boot_env \<Rightarrow> boot_state \<Rightarrow> boot_state option" where
  "call_fn fo env s = (case fo of None \<Rightarrow> Some s | Some f \<Rightarrow> f env s)"

section \<open>Embedded device tree\<close>

definition embed_device_tree :: "boot_env \<Rightarrow> boot_state \<Rightarrow> boot_state option" where
  "embed_device_tree env s =
    (let dt_size = device_tree_end env - device_tree_start env in
     if dt_size = 0 then print_line env ''[DT] No embedded device tree'' s
     else if dt_size > MAX_DEVICETREE_SIZE then
       do { s1 \<leftarrow> debug_print env ''[DT] Device tree too large: 0x'' s;
            s2 \<leftarrow> debug_hex env (ucast dt_size) 8 s1;
            debug_print env [CHR 0x0A] s2 }
     else
       do { let s0 = paint (boot_memcpy DEVICE_TREE_BASE (device_tree_start env) (unat dt_size)) s;
            s1 \<leftarrow> debug_print env ''[DT] Embedded device tree copied: 0x'' s0;
            s2 \<leftarrow> debug_hex env (ucast dt_size) 8 s1;
            s3 \<leftarrow> debug_print env '' bytes at 0x'' s2;
            s4 \<leftarrow> debug_hex env (ucast DEVICE_TREE_BASE) 8 s3;
            s5 \<leftarrow> debug_print env [CHR 0x0A] s4;
            (r, s6) \<leftarrow> device_tree_set_chosen_display env DEVICE_TREE_BASE
              (di_phys_base display_info) (di_width display_info) (di_height display_info)
              (di_stride display_info) s5;
            Some s6 })"

section \<open>Main\<close>

datatype boot_outcome = Boot_halt | Jump_kernel u32 u32 u32 u32

definition print_banner :: "boot_env \<Rightarrow> string \<Rightarrow> boot_state \<Rightarrow> boot_state option" where
  "print_banner env name s =
     do { s1 \<leftarrow> debug_print env [CHR 0x0A] s;
          s2 \<leftarrow> print_line env ''====================================='' s1;
          s3 \<leftarrow> print_line env ''  XNU ARM/ARM64 Bootloader v1.0'' s2;
          s4 \<leftarrow> debug_print env ''  Target: '' s3;
          s5 \<leftarrow> debug_print env name s4;
          s6 \<leftarrow> debug_print env [CHR 0x0A] s5;
          s7 \<leftarrow> debug_print env (''====================================='' @ [CHR 0x0A, CHR 0x0A]) s6;
          s8 \<leftarrow> debug_print env ''[BOOT] Initializing board: '' s7;
          s9 \<leftarrow> debug_print env name s8;
          debug_print env [CHR 0x0A] s9 }"

definition print_layout :: "boot_env \<Rightarrow> boot_state \<Rightarrow> boot_state option" where
  "print_layout env s =
     do { s1 \<leftarrow> print_line env ''[BOOT] Memory layout:'' s;
          s2 \<leftarrow> debug_print env ''[BOOT]   Bootloader: 0x'' s1;
          s3 \<leftarrow> debug_hex env (ucast BOOTLOADER_BASE) 8 s2;
          s4 \<leftarrow> debug_print env [CHR 0x0A] s3;
          s5 \<leftarrow> debug_print env ''[BOOT]   Kernel:     0x'' s4;
          s6 \<leftarrow> debug_hex env (ucast KERNEL_LOAD_BASE) 8 s5;
          s7 \<leftarrow> debug_print env [CHR 0x0A] s6;
          s8 \<leftarrow> debug_print env ''[BOOT]   DeviceTree: 0x'' s7;
          s9 \<leftarrow> debug_hex env (ucast DEVICE_TREE_BASE) 8 s8;
          s10 \<leftarrow> debug_print env [CHR 0x0A] s9;
          s11 \<leftarrow> debug_print env ''[BOOT]   Framebuffer: 0x'' s10;
          s12 \<leftarrow> debug_hex env (ucast FBMEM_BASE) 8 s11;
          s13 \<leftarrow> debug_print env '' ('' s12;
          s14 \<leftarrow> debug_hex env (ucast FBMEM_SIZE) 8 s13;
          print_line env '' bytes)'' s14 }"

text \<open>\<open>board_configs[TARGET_PLATFORM]\<close>; an index outside the table is undefined.\<close>

definition selected_board :: "board_config option" where
  "selected_board = (if TARGET_PLATFORM < length board_configs then Some (board_configs ! TARGET_PLATFORM) else None)"

definition boot_kernel :: "boot_env \<Rightarrow> boot_state \<Rightarrow> (boot_outcome \<times> boot_state) option" where
  "boot_kernel env s =
     do { s1 \<leftarrow> print_line env ''[BOOT] Loading kernel...'' s;
          (kernel, s2) \<leftarrow> macho_load env KERNEL_LOAD_BASE MAX_KERNEL_SIZE s1;
          if is_valid kernel = 0 then
            do { s3 \<leftarrow> print_line env ''[BOOT] Failed to load kernel'' s2;
                 Some (Boot_halt, paint (display_puts 10 90 ''KERN FAIL'' 0xff0000) s3) }
          else
            do { s3 \<leftarrow> print_line env ''[BOOT] Kernel loaded successfully'' s2;
                 s4 \<leftarrow> print_line env ''[BOOT] Setting up XNU environment...''
                   (paint (display_puts 10 90 ''KERN OK'' 0x00ff00) s3);
                 s5 \<leftarrow> debug_print env ''[BOOT] Jumping to kernel entry point: 0x'' s4;
                 s6 \<leftarrow> debug_hex env (entry_point kernel) 16 s5;
                 s7 \<leftarrow> debug_print env [CHR 0x0A] s6;
                 Some (Jump_kernel (ucast (entry_point kernel)) DEVICE_TREE_BASE 0 DEVICE_TREE_BASE,
                       paint (display_puts 10 130 ''JUMP'' 0xffff00) s7) } }"

definition bootloader_main :: "boot_env \<Rightarrow> boot_state \<Rightarrow> (boot_outcome \<times> boot_state) option" where
  "bootloader_main env s =
     do { let s0 = paint (display_puts 10 10 ''XNU BOOT'' 0xffffff) (paint (display_clear 0x000000) s);
          board \<leftarrow> selected_board;
          s1 \<leftarrow> print_banner env (bc_name board) s0;
          s2 \<leftarrow> call_fn (bc_uart_init board) env s1;
          s3 \<leftarrow> call_fn (bc_clock_init board) env s2;
          s4 \<leftarrow> call_fn (bc_power_init board) env s3;
          s5 \<leftarrow> call_fn (bc_mmu_init_custom board) env s4;
          s6 \<leftarrow> print_layout env s5;
          s7 \<leftarrow> call_fn (bc_display_init board) env s6;
          s8 \<leftarrow> embed_device_tree env (paint (display_puts 10 50 ''INIT DONE'' 0x00ff00) s7);
          boot_kernel env s8 }"

section \<open>What the start-up code may change\<close>

text \<open>
  Up to the loading of the kernel the boot loader writes memory only in the framebuffer and in the
  area of the device tree, and it does not touch the coprocessor.
\<close>

definition dt_addr :: "u32 \<Rightarrow> bool" where
  "dt_addr = in_block DEVICE_TREE_BASE (unat MAX_DEVICETREE_SIZE)"

definition confined :: "boot_state \<Rightarrow> boot_state \<Rightarrow> bool" where
  "confined s s' \<longleftrightarrow> cp_log s' = cp_log s \<and>
     (\<forall>x. \<not> fb_addr x \<longrightarrow> \<not> dt_addr x \<longrightarrow> bmem s' x = bmem s x)"

lemma confined_refl [simp]: "confined s s"
  by (simp add: confined_def)

lemma confined_trans [trans]: "confined s s' \<Longrightarrow> confined s' s'' \<Longrightarrow> confined s s''"
  by (simp add: confined_def)

lemma quiet_confined: "quiet s s' \<Longrightarrow> confined s s'"
  by (simp add: quiet_def confined_def)

lemma paint_confined: "fb_only f \<Longrightarrow> confined s (paint f s)"
  by (simp add: confined_def paint_def fb_only_def)

text \<open>Running a confined computation and then another one.\<close>

lemma confined_bind:
  assumes "ok_with (confined s) x" "\<And>s1. confined s s1 \<Longrightarrow> ok_with (confined s) (f s1)"
  shows "ok_with (confined s) (x \<bind> f)"
  using assms by (rule ok_with_bind)

lemma confined_from:
  assumes "confined s s1" "ok_with (confined s1) x"
  shows "ok_with (confined s) x"
  using assms by (auto intro: ok_with_mono confined_trans)

lemma print_confined:
  assumes "uart_live env" "confined s s1"
  shows "ok_with (confined s) (debug_print env str s1)"
    "ok_with (confined s) (debug_hex env v w s1)"
    "ok_with (confined s) (print_line env str s1)"
proof -
  have "ok_with (confined s) x" if "ok_with (quiet s1) x" for x
    using that assms(2) by (auto intro: ok_with_mono confined_trans quiet_confined)
  then show "ok_with (confined s) (debug_print env str s1)"
    "ok_with (confined s) (debug_hex env v w s1)" "ok_with (confined s) (print_line env str s1)"
    using console_quiet [OF assms(1)] by (simp_all add: print_line_def)
qed

lemma board_fns_confined:
  assumes "uart_live env"
  shows "ok_with (confined s) (qemu_arm64_uart_init env s)"
    "ok_with (confined s) (qemu_arm64_display_init env s)"
    "ok_with (confined s) (qemu_arm64_clock_init env s)"
    "ok_with (confined s) (qemu_arm64_power_init env s)"
proof -
  show "ok_with (confined s) (qemu_arm64_uart_init env s)"
    unfolding qemu_arm64_uart_init_def by (intro confined_bind print_confined [OF assms]) auto
  have "confined s' (paint (display_clear 0x1e1e1e) s')" for s'
    by (rule paint_confined [OF display_clear_only])
  then show "ok_with (confined s) (qemu_arm64_display_init env s)"
    unfolding qemu_arm64_display_init_def
    by (intro confined_bind print_confined [OF assms]) (auto intro: confined_trans)
  show "ok_with (confined s) (qemu_arm64_clock_init env s)"
    "ok_with (confined s) (qemu_arm64_power_init env s)"
    unfolding qemu_arm64_clock_init_def qemu_arm64_power_init_def
    by (intro print_confined [OF assms]; simp)+
qed

lemma print_blocks_confined:
  assumes "uart_live env"
  shows "ok_with (confined s) (print_banner env name s)" "ok_with (confined s) (print_layout env s)"
  unfolding print_banner_def print_layout_def
  by ((intro confined_bind print_confined [OF assms]; simp))+

lemma set_chosen_display_quiet:
  assumes "uart_live env"
  shows "ok_with (\<lambda>(r, s'). quiet s s') (device_tree_set_chosen_display env dt fb w h st s)"
  unfolding device_tree_set_chosen_display_def print_line_def
  by (auto intro!: quiet_binds [OF assms] simp: quiet_def)

lemma memcpy_confined:
  assumes "n \<le> unat MAX_DEVICETREE_SIZE"
  shows "confined s (paint (boot_memcpy DEVICE_TREE_BASE src n) s)"
proof -
  have "boot_memcpy d src k m x = m x" if "k \<le> n" "unat d + k \<le> unat DEVICE_TREE_BASE + n"
    "unat DEVICE_TREE_BASE \<le> unat d" "\<not> dt_addr x" for d src k m x
    using that
  proof (induction k arbitrary: d src m)
    case 0
    then show ?case by simp
  next
    case (Suc k)
    have "unat (d + 1) = unat d + 1"
      using Suc.prems(2) assms by (simp add: unat_word_ariths)
    then have "boot_memcpy (d + 1) (src + 1) k m' x = m' x" for m'
      using Suc by simp
    moreover have "dt_addr d"
      unfolding dt_addr_def using Suc.prems(2,3) assms
      by (intro in_block_le) (simp_all add: word_le_nat_alt)
    ultimately show ?case using Suc.prems(4) by auto
  qed
  then show ?thesis by (auto simp: confined_def paint_def)
qed

lemma embed_device_tree_confined:
  assumes "uart_live env"
  shows "ok_with (confined s) (embed_device_tree env s)"
proof -
  have "ok_with (confined s) (do { (r, s6) \<leftarrow> device_tree_set_chosen_display env a b c d e s5; Some s6 })"
    if "confined s s5" for a b c d e s5
    by (rule ok_with_bind [OF set_chosen_display_quiet [OF assms]])
      (auto intro: confined_trans [OF that quiet_confined])
  moreover have "confined s (paint (boot_memcpy DEVICE_TREE_BASE src (unat n)) s)"
    if "\<not> MAX_DEVICETREE_SIZE < n" for src n
    using that by (intro memcpy_confined) (simp add: not_less word_le_nat_alt)
  ultimately show ?thesis
    unfolding embed_device_tree_def Let_def
    by (intro ok_with_if confined_bind print_confined [OF assms]) simp_all
qed

text \<open>The kernel image is outside both areas.\<close>

lemma kernel_not_confined:
  assumes "in_block KERNEL_LOAD_BASE (unat MAX_KERNEL_SIZE) x"
  shows "\<not> fb_addr x" "\<not> dt_addr x"
proof -
  have k: "unat x < 2176843776" using in_block_range(2) [OF assms] by simp
  show "\<not> fb_addr x"
  proof
    assume "fb_addr x"
    from in_block_range(1) [OF this [unfolded fb_addr_def]] k show False
      by (simp add: word_le_nat_alt)
  qed
  show "\<not> dt_addr x"
  proof
    assume "dt_addr x"
    from in_block_range(1) [OF this [unfolded dt_addr_def]] k show False
      by (simp add: word_le_nat_alt)
  qed
qed

lemma confined_kernel:
  assumes "confined s s'" "in_block KERNEL_LOAD_BASE (unat MAX_KERNEL_SIZE) x"
  shows "bmem s' x = bmem s x"
  using assms kernel_not_confined by (simp add: confined_def)

section \<open>The boot sequence\<close>

lemma startup_confined:
  assumes "uart_live env" and "\<And>s8. confined s s8 \<Longrightarrow> ok_with Q (boot_kernel env s8)"
  shows "ok_with Q (bootloader_main env s)"
proof -
  have b: "selected_board = Some (board_configs ! 1)" by (simp add: selected_board_def board_configs_def)
  note fns = board_fns_confined [OF assms(1)] print_blocks_confined [OF assms(1)]
    embed_device_tree_confined [OF assms(1)]
  have p: "confined s (paint f s1)" if "confined s s1" "fb_only f" for f s1
    using that by (auto intro: confined_trans paint_confined)
  have step: "ok_with Q (g s1 \<bind> f)" if "confined s s1" "\<And>s. ok_with (confined s) (g s)"
    "\<And>s2. confined s s2 \<Longrightarrow> ok_with Q (f s2)" for g f s1
    using that by (auto intro: ok_with_bind confined_trans)
  show ?thesis
    unfolding bootloader_main_def b Let_def Option.bind.simps board_configs_def nth_Cons_Suc nth_Cons_0
      One_nat_def board_config.simps call_fn_def option.case
    by (rule step, intro p confined_refl display_clear_only display_puts_only, rule fns,
        rule step, assumption, rule fns, rule step, assumption, rule fns, rule step, assumption, rule fns,
        rule step, assumption, rule fns, rule step, assumption, rule fns,
        rule step, erule p, rule display_puts_only, rule fns, erule assms(2))
qed

lemma boot_kernel_rejects:
  assumes "uart_live env" and "macho_is_64 (ld32 (bmem s) KERNEL_LOAD_BASE) = None"
  shows "ok_with (\<lambda>(out, s'). out = Boot_halt \<and> cp_log s' = cp_log s) (boot_kernel env s)"
proof -
  have load: "ok_with (\<lambda>(info, s'). info = invalid_kernel \<and> cp_log s' = cp_log s)
      (macho_load env KERNEL_LOAD_BASE MAX_KERNEL_SIZE s1)" if "quiet s s1" for s1
    using that assms by (auto simp: quiet_def intro: ok_with_mono [OF macho_load_rejects [OF assms(1)]])
  show ?thesis
    unfolding boot_kernel_def print_line_def
    by (rule quiet_binds [OF assms(1)], rule ok_with_bind [OF load])
      (auto simp: invalid_kernel_def quiet_def paint_def intro!: quiet_binds [OF assms(1)])
qed

lemma boot_kernel_accepts:
  assumes "uart_live env" and "macho_is_64 (ld32 (bmem s) KERNEL_LOAD_BASE) = Some is64"
    and "run_cmds is64 KERNEL_LOAD_BASE 0 (KERNEL_LOAD_BASE + (if is64 then 32 else 28))
        \<lparr>acc_entry = 0, acc_min = - 1, acc_max = 0\<rparr> (bmem s) = (acc, m)"
  shows "ok_with (\<lambda>(out, s'). cp_log s' = cp_log s \<and>
    out = Jump_kernel (ucast (acc_entry acc)) DEVICE_TREE_BASE 0 DEVICE_TREE_BASE) (boot_kernel env s)"
proof -
  have load: "ok_with (\<lambda>(info, s'). is_valid info = 1 \<and> entry_point info = acc_entry acc \<and>
      cp_log s' = cp_log s) (macho_load env KERNEL_LOAD_BASE MAX_KERNEL_SIZE s1)"
    if "quiet s s1" for s1
  proof -
    have "bmem s1 = bmem s" "cp_log s1 = cp_log s" using that by (simp_all add: quiet_def)
    then show ?thesis
      using assms(2,3)
      by (auto intro!: ok_with_mono [OF macho_load_accepts [OF assms(1), where s = s1]])
  qed
  show ?thesis
    unfolding boot_kernel_def print_line_def
    by (rule quiet_binds [OF assms(1)], rule ok_with_bind [OF load])
      (auto simp: quiet_def paint_def intro!: quiet_binds [OF assms(1)])
qed

text \<open>
  C3: given a live console, the boot loader always reaches one of its two ends, whatever is in
  memory. It halts exactly when the word at the kernel address is no Mach-O magic, otherwise it
  jumps with the device tree address in the first and third argument and zero in the second; up to
  then it has executed no coprocessor operation, so the MMU set-up of the board is never run.
\<close>

theorem bootloader_main_outcome:
  assumes "uart_live env"
  shows "\<exists>out s'. bootloader_main env s = Some (out, s') \<and> cp_log s' = cp_log s \<and>
    (if ld32 (bmem s) KERNEL_LOAD_BASE \<in> {MH_MAGIC, MH_MAGIC_64, MH_CIGAM, MH_CIGAM_64}
     then \<exists>entry. out = Jump_kernel entry DEVICE_TREE_BASE 0 DEVICE_TREE_BASE
     else out = Boot_halt)"
proof -
  let ?Q = "\<lambda>(out, s'). cp_log s' = cp_log s \<and>
    (if ld32 (bmem s) KERNEL_LOAD_BASE \<in> {MH_MAGIC, MH_MAGIC_64, MH_CIGAM, MH_CIGAM_64}
     then \<exists>entry. out = Jump_kernel entry DEVICE_TREE_BASE 0 DEVICE_TREE_BASE
     else out = Boot_halt)"
  have "ok_with ?Q (boot_kernel env s8)" if c: "confined s s8" for s8
  proof -
    have m: "ld32 (bmem s8) KERNEL_LOAD_BASE = ld32 (bmem s) KERNEL_LOAD_BASE"
      by (rule ld32_cong, rule confined_kernel [OF c]) (simp add: in_block_def)
    have cp: "cp_log s8 = cp_log s" using c by (simp add: confined_def)
    show ?thesis
    proof (cases "macho_is_64 (ld32 (bmem s8) KERNEL_LOAD_BASE)")
      case None
      then have "ld32 (bmem s) KERNEL_LOAD_BASE \<notin> {MH_MAGIC, MH_MAGIC_64, MH_CIGAM, MH_CIGAM_64}"
        by (auto simp: macho_is_64_def m split: if_splits)
      then show ?thesis
        using boot_kernel_rejects [OF assms None] cp by (auto elim!: ok_with_mono)
    next
      case (Some is64)
      then have "ld32 (bmem s) KERNEL_LOAD_BASE \<in> {MH_MAGIC, MH_MAGIC_64, MH_CIGAM, MH_CIGAM_64}"
        by (auto simp: macho_is_64_def m split: if_splits)
      moreover obtain acc mm where "run_cmds is64 KERNEL_LOAD_BASE 0
          (KERNEL_LOAD_BASE + (if is64 then 32 else 28))
          \<lparr>acc_entry = 0, acc_min = - 1, acc_max = 0\<rparr> (bmem s8) = (acc, mm)" by force
      ultimately show ?thesis
        using boot_kernel_accepts [OF assms Some] cp by (auto elim!: ok_with_mono)
    qed
  qed
  from startup_confined [OF assms this] show ?thesis by (auto simp: ok_with_def)
qed

theorem bootloader_main_outcome_witness:
  "\<exists>s'. bootloader_main ready_env blank_state = Some (Boot_halt, s') \<and> cp_log s' = []"
  using bootloader_main_outcome [OF ready_env_live, of blank_state]
  by (simp add: blank_state_def ld32_def le32_def)

text \<open>
  C4: a kernel image whose load commands and data lie in the kernel area and whose segments go
  elsewhere boots: the loader jumps to the entry point that the load commands of the image in
  the initial memory give. Clearing and writing the screen, copying the device tree and loading
  the segments do not disturb it.
\<close>

theorem bootloader_boots_image:
  assumes "uart_live env" and "macho_is_64 (ld32 (bmem s) KERNEL_LOAD_BASE) = Some is64"
    and "image_ok is64 (bmem s) KERNEL_LOAD_BASE sz" and "sz \<le> unat MAX_KERNEL_SIZE"
  shows "\<exists>s'. bootloader_main env s =
    Some (Jump_kernel (ucast (acc_entry (image_info is64 (bmem s) KERNEL_LOAD_BASE)))
      DEVICE_TREE_BASE 0 DEVICE_TREE_BASE, s')"
proof -
  have "ok_with (\<lambda>(out, s'). out = Jump_kernel
      (ucast (acc_entry (image_info is64 (bmem s) KERNEL_LOAD_BASE))) DEVICE_TREE_BASE 0 DEVICE_TREE_BASE)
      (boot_kernel env s8)" if c: "confined s s8" for s8
  proof -
    have ag: "agree KERNEL_LOAD_BASE sz (bmem s8) (bmem s)"
      using confined_kernel [OF c] assms(4) by (simp add: agree_def in_block_def)
    have m: "ld32 (bmem s8) KERNEL_LOAD_BASE = ld32 (bmem s) KERNEL_LOAD_BASE"
      by (rule ld32_cong, rule confined_kernel [OF c]) (simp add: in_block_def)
    obtain mm where "run_cmds is64 KERNEL_LOAD_BASE 0 (KERNEL_LOAD_BASE + (if is64 then 32 else 28))
        \<lparr>acc_entry = 0, acc_min = - 1, acc_max = 0\<rparr> (bmem s8) =
        (image_info is64 (bmem s) KERNEL_LOAD_BASE, mm)"
      using run_cmds_spec [OF ag, of 0 is64] assms(3)
      by (simp add: image_ok_def image_cmds_def image_info_def)
    from boot_kernel_accepts [OF assms(1) _ this] assms(2) m show ?thesis
      by (auto elim!: ok_with_mono)
  qed
  from startup_confined [OF assms(1) this] show ?thesis by (auto simp: ok_with_def)
qed

theorem bootloader_boots_image_witness:
  "\<exists>s'. bootloader_main ready_env (blank_state\<lparr>bmem := small_image\<rparr>) =
    Some (Jump_kernel 0x81000080 DEVICE_TREE_BASE 0 DEVICE_TREE_BASE, s')"
proof -
  have magic: "macho_is_64 (ld32 small_image KERNEL_LOAD_BASE) = Some True"
    by (simp add: ld32_def small_image_def in_block_def small_bytes_def le32_def macho_is_64_def)
  have lds: "ld32 small_image (KERNEL_LOAD_BASE + 32) = 0x19"
    "ld32 small_image (KERNEL_LOAD_BASE + 104) = 0x28" "ld32 small_image (KERNEL_LOAD_BASE + 112) = 128"
    by (simp_all add: ld32_def small_image_def in_block_def small_bytes_def le32_def)
  have "acc_entry (image_info True small_image KERNEL_LOAD_BASE) = 0x81000080"
    unfolding image_info_def small_image_cmds using lds
    by (simp add: cmd_acc_def track_range_def Let_def)
  with bootloader_boots_image [OF ready_env_live, of "blank_state\<lparr>bmem := small_image\<rparr>" True 192]
    small_image_ok magic show ?thesis by (simp add: blank_state_def)
qed

lemma embed_device_tree_result:
  assumes "uart_live env" and "n = unat (device_tree_end env - device_tree_start env)"
    and "\<not> in_block (device_tree_start env) n DEVICE_TREE_BASE"
  shows "\<exists>s'. embed_device_tree env s = Some s' \<and>
    (\<forall>x. bmem s' x = (if n \<le> 0x100000 \<and> in_block DEVICE_TREE_BASE n x
      then bmem s (device_tree_start env + (x - DEVICE_TREE_BASE)) else bmem s x))"
proof -
  let ?sz = "device_tree_end env - device_tree_start env"
  have n: "n \<le> 2 ^ 32" using assms(2) unat_u32_le by simp
  have big: "?sz > MAX_DEVICETREE_SIZE \<longleftrightarrow> 0x100000 < n" "?sz = 0 \<longleftrightarrow> n = 0"
    by (simp_all add: assms(2) word_less_nat_alt unat_eq_0)
  show ?thesis
  proof (cases "n = 0 \<or> 0x100000 < n")
    case True
    then have "ok_with (quiet s) (embed_device_tree env s)"
      unfolding embed_device_tree_def Let_def print_line_def
      using big console_quiet(1) [OF assms(1)]
      by (auto intro!: quiet_binds [OF assms(1)] ok_with_mono [OF console_quiet(1) [OF assms(1)]]
          intro: quiet_trans)
    with True show ?thesis by (auto simp: ok_with_def quiet_def)
  next
    case False
    let ?s = "paint (boot_memcpy DEVICE_TREE_BASE (device_tree_start env) n) s"
    have q: "ok_with (quiet ?s)
        (do { (r, s6) \<leftarrow> device_tree_set_chosen_display env a b c d e s5; Some s6 })"
      if "quiet ?s s5" for a b c d e s5
      by (rule ok_with_bind [OF set_chosen_display_quiet [OF assms(1)]])
        (auto intro: quiet_trans [OF that])
    have "ok_with (quiet ?s) (embed_device_tree env s)"
      using False unfolding embed_device_tree_def Let_def big assms(2) [symmetric]
      by (auto intro!: quiet_binds [OF assms(1)] q simp: big) (simp add: quiet_def)
    then show ?thesis
      using False boot_memcpy_block [OF n disjI2 [OF assms(3)]]
      by (auto simp: ok_with_def quiet_def paint_def)
  qed
qed

text \<open>
  A device tree between one byte and one megabyte that lies outside its destination is copied
  there byte by byte and everything else stays; a missing or larger one leaves memory alone.
\<close>

theorem embed_device_tree_copies:
  assumes "uart_live env" and "n = unat (device_tree_end env - device_tree_start env)"
    and "\<not> in_block (device_tree_start env) n DEVICE_TREE_BASE"
  shows "\<exists>s'. embed_device_tree env s = Some s' \<and>
    (\<forall>x. bmem s' x = (if n \<le> 0x100000 \<and> in_block DEVICE_TREE_BASE n x
      then bmem s (device_tree_start env + (x - DEVICE_TREE_BASE)) else bmem s x))"
  by (rule embed_device_tree_result [OF assms])

theorem embed_device_tree_copies_witness:
  "\<exists>s'. embed_device_tree (ready_env\<lparr>device_tree_start := 0x80010000, device_tree_end := 0x80010010\<rparr>)
      (blank_state\<lparr>bmem := (\<lambda>_. 5)\<rparr>) = Some s' \<and> bmem s' = (\<lambda>_. 5)"
proof -
  let ?env = "ready_env\<lparr>device_tree_start := 0x80010000, device_tree_end := 0x80010010\<rparr>"
  have "uart_live ?env" using ready_env_live by (simp add: uart_live_def)
  from embed_device_tree_copies [OF this refl, of "blank_state\<lparr>bmem := (\<lambda>_. 5)\<rparr>"] show ?thesis
    by (auto simp: in_block_def fun_eq_iff blank_state_def)
qed

end
