(* ===== verification/Libc_String.thy ===== *)
theory Libc_String
  imports Flat_Mem
begin

text \<open>
  The string, memory and character functions of the minimal C library (\<open>minlibc/libc.c\<close>), on the
  flat byte memory. Pointers are 32-bit words. The scans that stop at a NUL byte only are
  \<open>partial_function\<close>s, so that a scan which never ends is the value \<open>None\<close>; the counted loops are
  total. \<open>int\<close> arguments that are converted to \<open>char\<close> are 32-bit words, and the differences that
  the comparison functions return are integers (they lie between -255 and 255).
\<close>

section \<open>Strings\<close>

partial_function (option) strlen_loop :: "mem \<Rightarrow> u32 \<Rightarrow> u32 \<Rightarrow> u32 option" where
  "strlen_loop m s len = (if m (s + len) \<noteq> 0 then strlen_loop m s (len + 1) else Some len)"

definition strlen :: "mem \<Rightarrow> u32 \<Rightarrow> u32 option" where
  "strlen m s = strlen_loop m s 0"

partial_function (option) strcpy_loop :: "u32 \<Rightarrow> u32 \<Rightarrow> mem \<Rightarrow> mem option" where
  "strcpy_loop d src m =
     (let c = m src; m' = m(d := c)
      in if c \<noteq> 0 then strcpy_loop (d + 1) (src + 1) m' else Some m')"

definition strcpy :: "u32 \<Rightarrow> u32 \<Rightarrow> mem \<Rightarrow> (u32 \<times> mem) option" where
  "strcpy dest src m = map_option (Pair dest) (strcpy_loop dest src m)"

function strncpy_copy :: "u32 \<Rightarrow> u32 \<Rightarrow> u32 \<Rightarrow> u32 \<Rightarrow> mem \<Rightarrow> u32 \<times> mem" where
  "strncpy_copy dest src n i m =
     (if i < n \<and> m (src + i) \<noteq> 0
      then strncpy_copy dest src n (i + 1) (m(dest + i := m (src + i)))
      else (i, m))"
  by pat_completeness auto
termination
  by (relation "measure (\<lambda>(dest, src, n, i, m). unat n - unat i)")
    (auto simp: unat_plus_1 word_less_nat_alt)

function strncpy_pad :: "u32 \<Rightarrow> u32 \<Rightarrow> u32 \<Rightarrow> mem \<Rightarrow> mem" where
  "strncpy_pad dest n i m = (if i < n then strncpy_pad dest n (i + 1) (m(dest + i := 0)) else m)"
  by pat_completeness auto
termination
  by (relation "measure (\<lambda>(dest, n, i, m). unat n - unat i)")
    (auto simp: unat_plus_1 word_less_nat_alt)

definition strncpy :: "u32 \<Rightarrow> u32 \<Rightarrow> u32 \<Rightarrow> mem \<Rightarrow> u32 \<times> mem" where
  "strncpy dest src n m = (case strncpy_copy dest src n 0 m of (i, m') \<Rightarrow> (dest, strncpy_pad dest n i m'))"

partial_function (option) strcmp :: "mem \<Rightarrow> u32 \<Rightarrow> u32 \<Rightarrow> int option" where
  "strcmp m s1 s2 =
     (if m s1 \<noteq> 0 \<and> m s1 = m s2 then strcmp m (s1 + 1) (s2 + 1)
      else Some (uint (m s1) - uint (m s2)))"

function strncmp_loop :: "mem \<Rightarrow> u32 \<Rightarrow> u32 \<Rightarrow> u32 \<Rightarrow> u32 \<Rightarrow> int" where
  "strncmp_loop m s1 s2 n i =
     (if i < n then
        if m (s1 + i) \<noteq> m (s2 + i) then uint (m (s1 + i)) - uint (m (s2 + i))
        else if m (s1 + i) = 0 then 0
        else strncmp_loop m s1 s2 n (i + 1)
      else 0)"
  by pat_completeness auto
termination
  by (relation "measure (\<lambda>(m, s1, s2, n, i). unat n - unat i)")
    (auto simp: unat_plus_1 word_less_nat_alt)

definition strncmp :: "mem \<Rightarrow> u32 \<Rightarrow> u32 \<Rightarrow> u32 \<Rightarrow> int" where
  "strncmp m s1 s2 n = strncmp_loop m s1 s2 n 0"

partial_function (option) strchr :: "mem \<Rightarrow> u32 \<Rightarrow> u32 \<Rightarrow> u32 option" where
  "strchr m s c =
     (if m s \<noteq> 0 then if m s = ucast c then Some s else strchr m (s + 1) c
      else Some (if c = 0 then s else 0))"

partial_function (option) strrchr_loop :: "mem \<Rightarrow> u32 \<Rightarrow> u32 \<Rightarrow> u32 \<Rightarrow> u32 option" where
  "strrchr_loop m s c last_p =
     (if m s \<noteq> 0 then strrchr_loop m (s + 1) c (if m s = ucast c then s else last_p)
      else Some (if c = 0 then s else last_p))"

definition strrchr :: "mem \<Rightarrow> u32 \<Rightarrow> u32 \<Rightarrow> u32 option" where
  "strrchr m s c = strrchr_loop m s c 0"

section \<open>Blocks of memory\<close>

function memset_loop :: "u32 \<Rightarrow> u32 \<Rightarrow> u32 \<Rightarrow> u32 \<Rightarrow> mem \<Rightarrow> mem" where
  "memset_loop p c n i m = (if i < n then memset_loop p c n (i + 1) (m(p + i := ucast c)) else m)"
  by pat_completeness auto
termination
  by (relation "measure (\<lambda>(p, c, n, i, m). unat n - unat i)")
    (auto simp: unat_plus_1 word_less_nat_alt)

definition memset :: "u32 \<Rightarrow> u32 \<Rightarrow> u32 \<Rightarrow> mem \<Rightarrow> u32 \<times> mem" where
  "memset s c n m = (s, memset_loop s c n 0 m)"

function memcpy_loop :: "u32 \<Rightarrow> u32 \<Rightarrow> u32 \<Rightarrow> u32 \<Rightarrow> mem \<Rightarrow> mem" where
  "memcpy_loop d s n i m =
     (if i < n then memcpy_loop d s n (i + 1) (m(d + i := m (s + i))) else m)"
  by pat_completeness auto
termination
  by (relation "measure (\<lambda>(d, s, n, i, m). unat n - unat i)")
    (auto simp: unat_plus_1 word_less_nat_alt)

definition memcpy :: "u32 \<Rightarrow> u32 \<Rightarrow> u32 \<Rightarrow> mem \<Rightarrow> u32 \<times> mem" where
  "memcpy dest src n m = (dest, memcpy_loop dest src n 0 m)"

function memcmp_loop :: "mem \<Rightarrow> u32 \<Rightarrow> u32 \<Rightarrow> u32 \<Rightarrow> u32 \<Rightarrow> int" where
  "memcmp_loop m a b n i =
     (if i < n then
        if m (a + i) \<noteq> m (b + i) then uint (m (a + i)) - uint (m (b + i))
        else memcmp_loop m a b n (i + 1)
      else 0)"
  by pat_completeness auto
termination
  by (relation "measure (\<lambda>(m, a, b, n, i). unat n - unat i)")
    (auto simp: unat_plus_1 word_less_nat_alt)

definition memcmp :: "mem \<Rightarrow> u32 \<Rightarrow> u32 \<Rightarrow> u32 \<Rightarrow> int" where
  "memcmp m s1 s2 n = memcmp_loop m s1 s2 n 0"

function memmove_down :: "u32 \<Rightarrow> u32 \<Rightarrow> u32 \<Rightarrow> mem \<Rightarrow> mem" where
  "memmove_down d s i m =
     (if i > 0 then memmove_down d s (i - 1) (m(d + (i - 1) := m (s + (i - 1)))) else m)"
  by pat_completeness auto
termination
  by (relation "measure (\<lambda>(d, s, i, m). unat i)") (auto simp: unat_minus_1 unat_gt_0 word_gt_0)

definition memmove :: "u32 \<Rightarrow> u32 \<Rightarrow> u32 \<Rightarrow> mem \<Rightarrow> u32 \<times> mem" where
  "memmove dest src n m =
     (dest, if dest \<le> src then memcpy_loop dest src n 0 m else memmove_down dest src n m)"

declare strncpy_copy.simps [simp del] strncpy_pad.simps [simp del] strncmp_loop.simps [simp del]
  memset_loop.simps [simp del] memcpy_loop.simps [simp del] memcmp_loop.simps [simp del]
  memmove_down.simps [simp del]

section \<open>Characters\<close>

definition isspace :: "int \<Rightarrow> bool" where
  "isspace c \<longleftrightarrow> c = 32 \<or> c = 9 \<or> c = 10 \<or> c = 13 \<or> c = 12 \<or> c = 11"

definition isalpha :: "int \<Rightarrow> bool" where
  "isalpha c \<longleftrightarrow> (c \<ge> 97 \<and> c \<le> 122) \<or> (c \<ge> 65 \<and> c \<le> 90)"

definition isdigit :: "int \<Rightarrow> bool" where
  "isdigit c \<longleftrightarrow> c \<ge> 48 \<and> c \<le> 57"

definition isalnum :: "int \<Rightarrow> bool" where
  "isalnum c \<longleftrightarrow> isalpha c \<or> isdigit c"

definition tolower :: "int \<Rightarrow> int" where
  "tolower c = (if c \<ge> 65 \<and> c \<le> 90 then c - 65 + 97 else c)"

definition toupper :: "int \<Rightarrow> int" where
  "toupper c = (if c \<ge> 97 \<and> c \<le> 122 then c - 97 + 65 else c)"

section \<open>Strings and blocks in memory\<close>

text \<open>
  \<open>cstr m a s\<close>: the bytes \<open>s\<close>, none of them NUL, stand at address \<open>a\<close> and a NUL follows them.
  \<open>bytes m a n\<close> are the \<open>n\<close> bytes from address \<open>a\<close>.
\<close>

fun cstr :: "mem \<Rightarrow> u32 \<Rightarrow> u8 list \<Rightarrow> bool" where
  "cstr m a [] \<longleftrightarrow> m a = 0"
| "cstr m a (c # s) \<longleftrightarrow> m a = c \<and> c \<noteq> 0 \<and> cstr m (a + 1) s"

fun bytes :: "mem \<Rightarrow> u32 \<Rightarrow> nat \<Rightarrow> u8 list" where
  "bytes m a 0 = []"
| "bytes m a (Suc n) = m a # bytes m (a + 1) n"

text \<open>A memory with a string at each of the given addresses, as concrete input.\<close>

fun put_bytes :: "u32 \<Rightarrow> u8 list \<Rightarrow> mem \<Rightarrow> mem" where
  "put_bytes a [] m = m"
| "put_bytes a (b # bs) m = (put_bytes (a + 1) bs m)(a := b)"

lemma bytes_add: "bytes m a (k + n) = bytes m a k @ bytes m (a + of_nat k) n"
  by (induction k arbitrary: a) (simp_all add: add.assoc)

lemma length_bytes [simp]: "length (bytes m a n) = n"
  by (induction n arbitrary: a) auto

lemma bytes_numeral [simp]: "bytes m a (numeral k) = m a # bytes m (a + 1) (pred_numeral k)"
  by (simp add: numeral_eq_Suc)

lemma unat_of_nat_le:
  assumes "i \<le> unat (n :: u32)"
  shows "unat (of_nat i :: u32) = i"
proof -
  have "unat n < 2 ^ 32" using unsigned_less [of n] by simp
  then show ?thesis using assms by (simp add: unat_of_nat)
qed

lemma nth_bytes: "i < n \<Longrightarrow> bytes m a n ! i = m (a + of_nat i)"
proof (induction n arbitrary: a i)
  case (Suc n)
  then show ?case by (cases i) (simp_all add: ac_simps)
qed simp

lemma next_addr: "a + 1 + of_nat i = (a + of_nat (Suc i) :: u32)"
  by simp

lemma cstr_iff:
  "cstr m a s \<longleftrightarrow>
    (\<forall>i < length s. m (a + of_nat i) = s ! i \<and> s ! i \<noteq> 0) \<and> m (a + of_nat (length s)) = 0"
proof (induction s arbitrary: a)
  case (Cons c s)
  then show ?case by (auto simp: All_less_Suc2 next_addr simp del: of_nat_Suc)
qed simp

lemma cstr_nth: "cstr m a s \<Longrightarrow> i < length s \<Longrightarrow> m (a + of_nat i) = s ! i \<and> s ! i \<noteq> 0"
  by (simp add: cstr_iff)

lemma cstr_end: "cstr m a s \<Longrightarrow> m (a + of_nat (length s)) = 0"
  by (simp add: cstr_iff)

lemma cstr_nonzero: "cstr m a s \<Longrightarrow> 0 \<notin> set s"
  by (induction s arbitrary: a) auto

text \<open>A string ends before the address space repeats.\<close>

lemma cstr_length:
  assumes "cstr m a s"
  shows "length s < 2 ^ 32"
proof (rule ccontr)
  define k where "k = length s - 2 ^ 32"
  assume "\<not> length s < 2 ^ 32"
  then have k: "length s = k + 2 ^ 32" unfolding k_def by linarith
  have "of_nat (length s) = (of_nat k :: u32)"
    unfolding k of_nat_add of_nat_power by simp
  then have "m (a + of_nat k) = 0" using cstr_end [OF assms] by simp
  moreover have "k < length s" unfolding k by simp
  ultimately show False using cstr_nth [OF assms, of k] by simp
qed

lemma cstr_determ: "cstr m a s \<Longrightarrow> cstr m a t \<Longrightarrow> s = t"
proof (induction s arbitrary: a t)
  case Nil
  then show ?case by (cases t) auto
next
  case (Cons c s)
  then show ?case by (cases t) auto
qed

lemma cstr_append:
  "cstr m a (s @ t) \<longleftrightarrow> (\<forall>i < length s. m (a + of_nat i) = s ! i \<and> s ! i \<noteq> 0) \<and>
     cstr m (a + of_nat (length s)) t"
  by (induction s arbitrary: a) (auto simp: All_less_Suc2 next_addr simp del: of_nat_Suc)

lemma cstr_cong:
  assumes "cstr m a s" and "\<And>i. i \<le> length s \<Longrightarrow> m' (a + of_nat i) = m (a + of_nat i)"
  shows "cstr m' a s"
  using assms by (simp add: cstr_iff)

lemma in_block_iff:
  assumes "n \<le> 2 ^ 32"
  shows "in_block a n x \<longleftrightarrow> (\<exists>i < n. x = a + of_nat i)"
proof
  assume "in_block a n x"
  then show "\<exists>i < n. x = a + of_nat i"
    by (intro exI [of _ "unat (x - a)"]) (simp add: in_block_def)
next
  assume "\<exists>i < n. x = a + of_nat i"
  then show "in_block a n x" using assms by (auto simp: in_block_def unat_of_nat)
qed

section \<open>Correctness of the scans\<close>

lemma strlen_loop_cstr:
  "cstr m (s + len) t \<Longrightarrow> strlen_loop m s len = Some (len + of_nat (length t))"
proof (induction t arbitrary: len)
  case Nil
  then show ?case by (subst strlen_loop.simps) simp
next
  case (Cons c t)
  then show ?case by (subst strlen_loop.simps) (simp add: ac_simps)
qed

lemma strlen_cstr [simp]: "cstr m s t \<Longrightarrow> strlen m s = Some (of_nat (length t))"
  by (simp add: strlen_def strlen_loop_cstr)

lemma strchr_cstr:
  assumes "cstr m s t" "c \<noteq> 0" "(ucast c :: u8) \<noteq> 0"
  shows "strchr m s c =
    Some (if ucast c \<in> set t then s + of_nat (length (takeWhile (\<lambda>b. b \<noteq> ucast c) t)) else 0)"
  using assms
proof (induction t arbitrary: s)
  case Nil
  then show ?case by (subst strchr.simps) simp
next
  case (Cons b t)
  then show ?case by (subst strchr.simps) (auto simp: ac_simps)
qed

lemma strrchr_loop_cstr:
  assumes "cstr m s t" "c \<noteq> 0"
  shows "strrchr_loop m s c l =
    Some (if ucast c \<in> set t
          then s + of_nat (length t - 1 - length (takeWhile (\<lambda>b. b \<noteq> ucast c) (rev t))) else l)"
  using assms
proof (induction t arbitrary: s l)
  case Nil
  then show ?case by (subst strrchr_loop.simps) simp
next
  case (Cons b t)
  show ?case
  proof (cases "ucast c \<in> set t")
    case True
    then have "takeWhile (\<lambda>b. b \<noteq> ucast c) (rev (b # t)) = takeWhile (\<lambda>b. b \<noteq> ucast c) (rev t)"
      by (simp add: takeWhile_append1)
    moreover have "length (takeWhile (\<lambda>b. b \<noteq> ucast c) (rev t)) < length t"
      using True takeWhile_eq_all_conv [of _ "rev t"]
      by (metis (mono_tags, lifting) length_rev length_takeWhile_le le_neq_implies_less set_rev
          takeWhile_eq_take take_all_iff order_refl)
    ultimately show ?thesis using Cons True
      by (subst strrchr_loop.simps) (simp add: of_nat_diff Suc_le_eq add_diff_eq)
  next
    case False
    then have "takeWhile (\<lambda>b. b \<noteq> ucast c) (rev t @ xs) = rev t @ takeWhile (\<lambda>b. b \<noteq> ucast c) xs" for xs
      by (subst takeWhile_append2) auto
    from this [of "[b]"] show ?thesis using Cons False by (subst strrchr_loop.simps) auto
  qed
qed

lemma byte_diff_iff [simp]:
  "uint a - uint b < 0 \<longleftrightarrow> a < (b :: u8)" "uint a < uint b \<longleftrightarrow> a < b" "uint a = uint b \<longleftrightarrow> a = b"
  by (auto simp: word_less_def word_uint_eq_iff)

lemma shift_diff: "s + k = d + i \<Longrightarrow> d - s = k - (i :: u32)"
  by (metis add_diff_cancel_left' add_diff_eq add.commute diff_diff_eq2)

lemma next_le:
  assumes "i < (n :: u32)"
  shows "i + 1 \<le> k \<longleftrightarrow> i < k"
  by (simp add: word_le_nat_alt word_less_nat_alt unat_plus_1 [OF assms] Suc_le_eq)

lemma strcmp_cstr:
  assumes "cstr m a s" "cstr m b t"
  shows "\<exists>r. strcmp m a b = Some r \<and> (r = 0 \<longleftrightarrow> s = t) \<and> (r < 0 \<longleftrightarrow> ord_class.lexordp s t)"
  using assms
proof (induction s arbitrary: a b t)
  case Nil
  then show ?case
    using byte_diff_iff [of 0 "m b"]
    by (cases t) (auto simp: strcmp.simps [of m a b] word_gt_0 simp del: byte_diff_iff)
next
  case (Cons c s)
  show ?case
  proof (cases t)
    case Nil
    then show ?thesis using Cons.prems byte_diff_iff [of "m a" 0]
      by (auto simp: strcmp.simps [of m a b] simp del: byte_diff_iff)
  next
    case t: (Cons d t')
    then show ?thesis using Cons.prems Cons.IH [of "a + 1" "b + 1" t']
      by (cases "c = d"; subst strcmp.simps) auto
  qed
qed

lemma word_step:
  assumes "i < (n :: u32)"
  shows "unat n - unat i = Suc (unat n - unat (i + 1))"
  using assms by (simp add: unat_plus_1 word_less_nat_alt)

lemma strncmp_loop_cstr:
  assumes "cstr m (a + i) s" "cstr m (b + i) t"
  shows "(strncmp_loop m a b n i = 0 \<longleftrightarrow> take (unat n - unat i) s = take (unat n - unat i) t) \<and>
    (strncmp_loop m a b n i < 0 \<longleftrightarrow>
      ord_class.lexordp (take (unat n - unat i) s) (take (unat n - unat i) t))"
  using assms
proof (induction m a b n i arbitrary: s t rule: strncmp_loop.induct)
  case (1 m a b n i)
  show ?case
  proof (cases "i < n")
    case True
    note unfold = strncmp_loop.simps [of m a b n i] word_step [OF True]
    show ?thesis
    proof (cases s)
      case Nil
      then show ?thesis using 1(2,3) True byte_diff_iff [of 0 "m (b + i)"]
        by (cases t) (auto simp: unfold word_gt_0 simp del: byte_diff_iff)
    next
      case s: (Cons c s')
      show ?thesis
      proof (cases t)
        case Nil
        then show ?thesis using 1(2,3) True s byte_diff_iff [of "m (a + i)" 0]
          by (auto simp: unfold simp del: byte_diff_iff)
      next
        case t: (Cons d t')
        then show ?thesis
          using 1(1) [of s' t'] 1(2,3) True s by (cases "c = d") (auto simp: unfold add.assoc)
      qed
    qed
  next
    case False
    then have "unat n - unat i = 0" by (simp add: word_less_nat_alt)
    then show ?thesis using False by (simp add: strncmp_loop.simps [of m a b n i])
  qed
qed

lemma memcmp_loop_bytes:
  "(memcmp_loop m a b n i = 0 \<longleftrightarrow>
     bytes m (a + i) (unat n - unat i) = bytes m (b + i) (unat n - unat i)) \<and>
   (memcmp_loop m a b n i < 0 \<longleftrightarrow>
     ord_class.lexordp (bytes m (a + i) (unat n - unat i)) (bytes m (b + i) (unat n - unat i)))"
proof (induction m a b n i rule: memcmp_loop.induct)
  case (1 m a b n i)
  show ?case
  proof (cases "i < n")
    case True
    then show ?thesis using 1
      by (auto simp: memcmp_loop.simps [of m a b n i] word_step [OF True] add.assoc)
  next
    case False
    then have "unat n - unat i = 0" by (simp add: word_less_nat_alt)
    then show ?thesis using False by (simp add: memcmp_loop.simps [of m a b n i])
  qed
qed

section \<open>Correctness of the copies\<close>

lemma memset_loop_apply:
  "memset_loop p c n i m x = (if i \<le> x - p \<and> x - p < n then ucast c else m x)"
proof (induction p c n i m rule: memset_loop.induct)
  case (1 p c n i m)
  show ?case
  proof (cases "i < n")
    case True
    have "memset_loop p c n i m x =
        (if i < x - p \<and> x - p < n then ucast c else (m(p + i := ucast c)) x)"
      using 1 [OF True] unfolding memset_loop.simps [of p c n i m] if_P [OF True] next_le [OF True] .
    then show ?thesis using True by (auto simp: le_less)
  next
    case False
    then show ?thesis by (auto simp: memset_loop.simps [of p c n i m])
  qed
qed

lemma memcpy_loop_apply:
  assumes "d = s \<or> n \<le> d - s"
  shows "memcpy_loop d s n i m x = (if i \<le> x - d \<and> x - d < n then m (s + (x - d)) else m x)"
  using assms
proof (induction d s n i m rule: memcpy_loop.induct)
  case (1 d s n i m)
  show ?case
  proof (cases "i < n")
    case True
    have safe: "s + (x - d) \<noteq> d + i" if "i < x - d" "x - d < n"
    proof
      assume "s + (x - d) = d + i"
      then have "d - s = (x - d) - i" by (rule shift_diff)
      then have "unat (d - s) = unat (x - d) - unat i" using unat_sub [OF less_imp_le [OF that(1)]] by (simp only:)
      then have "d - s < n" "d - s \<noteq> 0"
        using that by (auto simp: word_less_nat_alt simp flip: unat_eq_zero)
      then show False using 1(2) by auto
    qed
    have "memcpy_loop d s n i m x = (if i < x - d \<and> x - d < n
        then (m(d + i := m (s + i))) (s + (x - d)) else (m(d + i := m (s + i))) x)"
      using 1(1) [OF True 1(2)]
      unfolding memcpy_loop.simps [of d s n i m] if_P [OF True] next_le [OF True] .
    then show ?thesis using True safe by (auto simp: le_less)
  next
    case False
    then show ?thesis by (auto simp: memcpy_loop.simps [of d s n i m])
  qed
qed

lemma memmove_down_apply:
  assumes "i \<le> s - d \<or> d = s"
  shows "memmove_down d s i m x = (if x - d < i then m (s + (x - d)) else m x)"
  using assms
proof (induction d s i m rule: memmove_down.induct)
  case (1 d s i m)
  show ?case
  proof (cases "i > 0")
    case True
    then have u: "unat (i - 1) = unat i - 1" "0 < unat i"
      using unat_minus_1 [of i] by (auto simp: word_gt_0 unat_gt_0)
    have step: "x - d < i \<longleftrightarrow> x - d < i - 1 \<or> x - d = i - 1"
      using u by (auto simp: word_less_nat_alt word_unat_eq_iff)
    have safe: "s + (x - d) \<noteq> d + (i - 1)" if "x - d < i - 1"
    proof
      assume "s + (x - d) = d + (i - 1)"
      then have "s - d = (i - 1) - (x - d)" using shift_diff [of d "i - 1" s "x - d"] by simp
      then have "unat (s - d) = unat (i - 1) - unat (x - d)" using unat_sub [OF less_imp_le [OF that]] by (simp only:)
      then have "s - d < i" "s - d \<noteq> 0"
        using u that by (auto simp: word_less_nat_alt simp flip: unat_eq_zero)
      then show False using 1(2) by auto
    qed
    have hyp: "i - 1 \<le> s - d \<or> d = s" using 1(2) u by (auto simp: word_le_nat_alt)
    have "memmove_down d s i m x = (if x - d < i - 1
        then (m(d + (i - 1) := m (s + (i - 1)))) (s + (x - d)) else (m(d + (i - 1) := m (s + (i - 1)))) x)"
      using 1(1) [OF True hyp] unfolding memmove_down.simps [of d s i m] if_P [OF True] .
    moreover have "x - d = i - 1 \<longleftrightarrow> x = d + (i - 1)" by (auto simp: algebra_simps)
    ultimately show ?thesis unfolding step using safe by auto
  next
    case False
    then show ?thesis by (simp add: memmove_down.simps [of d s 0 m] word_gt_0)
  qed
qed

lemma bytes_cong:
  assumes "\<And>k. k < n \<Longrightarrow> m' (a + of_nat k) = m (a + of_nat k)"
  shows "bytes m' a n = bytes m a n"
  using assms by (intro nth_equalityI) (simp_all add: nth_bytes)

text \<open>The copying loop of \<open>strcpy\<close>, when it does not overwrite what it still has to read.\<close>

lemma strcpy_loop_cstr:
  assumes "cstr m src t" "d = src \<or> length t < unat (d - src)"
  shows "strcpy_loop d src m =
    Some (\<lambda>x. if in_block d (Suc (length t)) x then m (src + (x - d)) else m x)"
  using assms
proof (induction t arbitrary: d src m)
  case Nil
  then show ?case
    by (subst strcpy_loop.simps) (auto simp: in_block_def fun_eq_iff unat_eq_zero)
next
  case (Cons c t)
  let ?m = "m(d := c)"
  have len: "Suc (length t) < 2 ^ 32" using cstr_length [OF Cons.prems(1)] by simp
  have safe: "src + (x - d) \<noteq> d" if "in_block (d + 1) (Suc (length t)) x" for x
  proof
    assume "src + (x - d) = d"
    then have "d - src = x - d" using shift_diff [of src "x - d" d 0] by simp
    moreover have "in_block d (Suc (Suc (length t))) x" "x \<noteq> d"
      using in_block_sub [of d 1 "Suc (length t)" x "Suc (Suc (length t))"] that len
        in_block_start_next [of "Suc (length t)" d] by auto
    ultimately show False using Cons.prems(2) by (auto simp: in_block_def)
  qed
  have "cstr ?m (src + 1) t"
  proof (rule cstr_cong)
    show "cstr m (src + 1) t" using Cons.prems by simp
    fix i assume "i \<le> length t"
    then have "in_block (d + 1) (Suc (length t)) (d + 1 + of_nat i)"
      using len by (subst in_block_iff) (auto intro: exI [of _ i])
    from safe [OF this] show "?m (src + 1 + of_nat i) = m (src + 1 + of_nat i)"
      by (simp add: add.assoc)
  qed
  moreover have "d + 1 = src + 1 \<or> length t < unat (d + 1 - (src + 1))"
    using Cons.prems(2) by auto
  ultimately have "strcpy_loop (d + 1) (src + 1) ?m =
      Some (\<lambda>x. if in_block (d + 1) (Suc (length t)) x then ?m (src + 1 + (x - (d + 1))) else ?m x)"
    by (rule Cons.IH)
  moreover have "strcpy_loop d src m = strcpy_loop (d + 1) (src + 1) ?m"
    using Cons.prems by (subst strcpy_loop.simps) auto
  ultimately show ?case
    using safe in_block_Suc [of "Suc (length t)" d] in_block_start_next [of "Suc (length t)" d] len Cons.prems(1)
    by (auto simp: fun_eq_iff)
qed

lemma strncpy_pad_memset: "strncpy_pad dest n i m = memset_loop dest 0 n i m"
proof (induction dest n i m rule: strncpy_pad.induct)
  case (1 dest n i m)
  then show ?case
    unfolding strncpy_pad.simps [of dest n i m] memset_loop.simps [of dest 0 n i m] by (simp del: fun_upd_apply)
qed

lemma bytes_after_write:
  assumes "dest = src \<or> n \<le> dest - src" "i < n"
  shows "bytes (m(dest + i := v)) (src + (i + 1)) (unat n - unat (i + 1)) =
    bytes m (src + (i + 1)) (unat n - unat (i + 1))"
proof (rule bytes_cong)
  fix k assume k: "k < unat n - unat (i + 1)"
  have n: "unat n < 2 ^ 32" using unsigned_less [of n] by simp
  have "src + (i + 1) + of_nat k \<noteq> dest + i"
  proof
    assume "src + (i + 1) + of_nat k = dest + i"
    then have "dest - src = of_nat (Suc k)"
      using shift_diff [of src "of_nat (Suc k) + i" dest i] by (simp add: ac_simps)
    moreover have "Suc k < unat n" using k unat_plus_1 [OF assms(2)] by simp
    ultimately have "unat (dest - src) < unat n" "dest - src \<noteq> 0"
      using n by (auto simp: unat_of_nat simp flip: unat_eq_zero simp del: of_nat_Suc)
    then show False using assms(1) by (auto simp: word_le_nat_alt)
  qed
  then show "(m(dest + i := v)) (src + (i + 1) + of_nat k) = m (src + (i + 1) + of_nat k)" by simp
qed

lemma strncpy_copy_memcpy:
  assumes "dest = src \<or> n \<le> dest - src" "i \<le> n"
    and "j = i + of_nat (length (takeWhile (\<lambda>b. b \<noteq> 0) (bytes m (src + i) (unat n - unat i))))"
  shows "strncpy_copy dest src n i m = (j, memcpy_loop dest src j i m) \<and> i \<le> j \<and> j \<le> n"
  using assms
proof (induction dest src n i m rule: strncpy_copy.induct)
  case (1 dest src n i m)
  show ?case
  proof (cases "i < n \<and> m (src + i) \<noteq> 0")
    case True
    let ?m = "m(dest + i := m (src + i))"
    have "j = i + 1 + of_nat (length (takeWhile (\<lambda>b. b \<noteq> 0) (bytes m (src + (i + 1)) (unat n - unat (i + 1)))))"
      using 1(4) True word_step [of i n] by (simp add: add.assoc)
    then have "j = i + 1 + of_nat (length (takeWhile (\<lambda>b. b \<noteq> 0) (bytes ?m (src + (i + 1)) (unat n - unat (i + 1)))))"
      using True by (subst bytes_after_write [OF 1(2)]) auto
    moreover have le: "i + 1 \<le> n" using True next_le [of i n n] by simp
    ultimately have ih: "strncpy_copy dest src n (i + 1) ?m = (j, memcpy_loop dest src j (i + 1) ?m)"
        "i + 1 \<le> j" "j \<le> n"
      using 1(1) [OF True 1(2) le] by blast+
    moreover have "i < j" using ih(2) True next_le [of i n j] by simp
    ultimately show ?thesis using True
      by (subst strncpy_copy.simps, subst memcpy_loop.simps) auto
  next
    case False
    then have "j = i" using 1(3,4) by (cases "i < n") (auto simp: word_step le_less)
    then show ?thesis using False 1(3)
      by (subst strncpy_copy.simps, subst memcpy_loop.simps) auto
  qed
qed

end
