(* ===== verification/Libc_Main.thy ===== *)
theory Libc_Main
  imports Libc_String
begin

text \<open>
  The stateful part of the minimal C library (\<open>minlibc/libc.c\<close>): the system call stub and its
  wrappers, the heap, \<open>strdup\<close>, \<open>strtok\<close> and \<open>getenv\<close>. The static variables of the file are
  fields of a record. The kernel behind \<open>svc 0\<close> is a parameter: it gets the call number (r7) and
  the registers r0 to r3, may change user memory and its own state, and returns r0.
\<close>

record 'k libc =
  lc_mem :: mem
  heap_ptr :: u32
  strtok_last :: u32
  lc_environ :: u32
  lc_kernel :: 'k

type_synonym 'k svc = "u32 \<Rightarrow> u32 \<Rightarrow> u32 \<Rightarrow> u32 \<Rightarrow> u32 \<Rightarrow> mem \<times> 'k \<Rightarrow> u32 \<times> mem \<times> 'k"

section \<open>System calls\<close>

datatype sysno = SYS_exit | SYS_fork | SYS_read | SYS_write | SYS_open | SYS_close | SYS_wait4
  | SYS_mmap | SYS_munmap | SYS_mprotect | SYS_brk | SYS_dup2 | SYS_pipe | SYS_fork_new
  | SYS_execve | SYS_getpid | SYS_getppid | SYS_getcwd | SYS_chdir | SYS_stat | SYS_lstat
  | SYS_fstat | SYS_isatty | SYS_ioctl

fun sysno_code :: "sysno \<Rightarrow> u32" where
  "sysno_code SYS_exit = 1"
| "sysno_code SYS_fork = 2"
| "sysno_code SYS_read = 3"
| "sysno_code SYS_write = 4"
| "sysno_code SYS_open = 5"
| "sysno_code SYS_close = 6"
| "sysno_code SYS_wait4 = 114"
| "sysno_code SYS_mmap = 197"
| "sysno_code SYS_munmap = 73"
| "sysno_code SYS_mprotect = 74"
| "sysno_code SYS_brk = 45"
| "sysno_code SYS_dup2 = 63"
| "sysno_code SYS_pipe = 42"
| "sysno_code SYS_fork_new = 442"
| "sysno_code SYS_execve = 59"
| "sysno_code SYS_getpid = 20"
| "sysno_code SYS_getppid = 39"
| "sysno_code SYS_getcwd = 326"
| "sysno_code SYS_chdir = 12"
| "sysno_code SYS_stat = 188"
| "sysno_code SYS_lstat = 190"
| "sysno_code SYS_fstat = 189"
| "sysno_code SYS_isatty = 54"
| "sysno_code SYS_ioctl = 54"

text \<open>The stub loads r7 and r0 to r3; its arguments \<open>a5\<close> and \<open>a6\<close> reach no register.\<close>

definition syscall ::
  "'k svc \<Rightarrow> sysno \<Rightarrow> u32 \<Rightarrow> u32 \<Rightarrow> u32 \<Rightarrow> u32 \<Rightarrow> u32 \<Rightarrow> u32 \<Rightarrow> 'k libc \<Rightarrow> u32 \<times> 'k libc" where
  "syscall svc num a1 a2 a3 a4 a5 a6 st =
     (case svc (sysno_code num) a1 a2 a3 a4 (lc_mem st, lc_kernel st) of
        (r0, m, k) \<Rightarrow> (r0, st\<lparr>lc_mem := m, lc_kernel := k\<rparr>))"

text \<open>\<open>exit\<close> does not return: the value is the state in which its loop spins.\<close>

definition exit_spin :: "'k svc \<Rightarrow> u32 \<Rightarrow> 'k libc \<Rightarrow> 'k libc" where
  "exit_spin svc status st = snd (syscall svc SYS_exit status 0 0 0 0 0 st)"

definition exit_spin' :: "'k svc \<Rightarrow> u32 \<Rightarrow> 'k libc \<Rightarrow> 'k libc" where
  "exit_spin' svc status st = exit_spin svc status st"

definition fork :: "'k svc \<Rightarrow> 'k libc \<Rightarrow> u32 \<times> 'k libc" where
  "fork svc st = syscall svc SYS_fork 0 0 0 0 0 0 st"

definition getpid :: "'k svc \<Rightarrow> 'k libc \<Rightarrow> u32 \<times> 'k libc" where
  "getpid svc st = syscall svc SYS_getpid 0 0 0 0 0 0 st"

definition getppid :: "'k svc \<Rightarrow> 'k libc \<Rightarrow> u32 \<times> 'k libc" where
  "getppid svc st = syscall svc SYS_getppid 0 0 0 0 0 0 st"

definition waitpid :: "'k svc \<Rightarrow> u32 \<Rightarrow> u32 \<Rightarrow> u32 \<Rightarrow> 'k libc \<Rightarrow> u32 \<times> 'k libc" where
  "waitpid svc pid status options st = syscall svc SYS_wait4 pid status options 0 0 0 st"

definition wait :: "'k svc \<Rightarrow> u32 \<Rightarrow> 'k libc \<Rightarrow> u32 \<times> 'k libc" where
  "wait svc status st = waitpid svc (- 1) status 0 st"

definition execve :: "'k svc \<Rightarrow> u32 \<Rightarrow> u32 \<Rightarrow> u32 \<Rightarrow> 'k libc \<Rightarrow> u32 \<times> 'k libc" where
  "execve svc filename argv envp st = syscall svc SYS_execve filename argv envp 0 0 0 st"

definition libc_open :: "'k svc \<Rightarrow> u32 \<Rightarrow> u32 \<Rightarrow> u32 \<Rightarrow> 'k libc \<Rightarrow> u32 \<times> 'k libc" where
  "libc_open svc path flags mode st = syscall svc SYS_open path flags mode 0 0 0 st"

definition libc_close :: "'k svc \<Rightarrow> u32 \<Rightarrow> 'k libc \<Rightarrow> u32 \<times> 'k libc" where
  "libc_close svc fd st = syscall svc SYS_close fd 0 0 0 0 0 st"

definition libc_read :: "'k svc \<Rightarrow> u32 \<Rightarrow> u32 \<Rightarrow> u32 \<Rightarrow> 'k libc \<Rightarrow> u32 \<times> 'k libc" where
  "libc_read svc fd buf cnt st = syscall svc SYS_read fd buf cnt 0 0 0 st"

definition libc_write :: "'k svc \<Rightarrow> u32 \<Rightarrow> u32 \<Rightarrow> u32 \<Rightarrow> 'k libc \<Rightarrow> u32 \<times> 'k libc" where
  "libc_write svc fd buf cnt st = syscall svc SYS_write fd buf cnt 0 0 0 st"

definition dup2 :: "'k svc \<Rightarrow> u32 \<Rightarrow> u32 \<Rightarrow> 'k libc \<Rightarrow> u32 \<times> 'k libc" where
  "dup2 svc oldfd newfd st = syscall svc SYS_dup2 oldfd newfd 0 0 0 0 st"

definition pipe :: "'k svc \<Rightarrow> u32 \<Rightarrow> 'k libc \<Rightarrow> u32 \<times> 'k libc" where
  "pipe svc pipefd st = syscall svc SYS_pipe pipefd 0 0 0 0 0 st"

definition chdir :: "'k svc \<Rightarrow> u32 \<Rightarrow> 'k libc \<Rightarrow> u32 \<times> 'k libc" where
  "chdir svc path st = syscall svc SYS_chdir path 0 0 0 0 0 st"

definition getcwd :: "'k svc \<Rightarrow> u32 \<Rightarrow> u32 \<Rightarrow> 'k libc \<Rightarrow> u32 \<times> 'k libc" where
  "getcwd svc buf n st =
     (case syscall svc SYS_getcwd buf n 0 0 0 0 st of
        (ret, st') \<Rightarrow> (if sint ret \<ge> 0 then buf else 0, st'))"

definition libc_stat :: "'k svc \<Rightarrow> u32 \<Rightarrow> u32 \<Rightarrow> 'k libc \<Rightarrow> u32 \<times> 'k libc" where
  "libc_stat svc pathname statbuf st = syscall svc SYS_stat pathname statbuf 0 0 0 0 st"

definition libc_fstat :: "'k svc \<Rightarrow> u32 \<Rightarrow> u32 \<Rightarrow> 'k libc \<Rightarrow> u32 \<times> 'k libc" where
  "libc_fstat svc fd statbuf st = syscall svc SYS_fstat fd statbuf 0 0 0 0 st"

definition isatty :: "'k svc \<Rightarrow> u32 \<Rightarrow> 'k libc \<Rightarrow> u32 \<times> 'k libc" where
  "isatty svc fd st = syscall svc SYS_isatty fd 0 0 0 0 0 st"

section \<open>The heap\<close>

definition malloc :: "u32 \<Rightarrow> 'k libc \<Rightarrow> u32 \<times> 'k libc" where
  "malloc n st = (heap_ptr st, st\<lparr>heap_ptr := heap_ptr st + n\<rparr>)"

definition free :: "u32 \<Rightarrow> 'k libc \<Rightarrow> 'k libc" where
  "free ptr st = st"

function calloc_clear :: "u32 \<Rightarrow> u32 \<Rightarrow> u32 \<Rightarrow> mem \<Rightarrow> mem" where
  "calloc_clear p tot i m = (if i < tot then calloc_clear p tot (i + 1) (m(p + i := 0)) else m)"
  by pat_completeness auto
termination
  by (relation "measure (\<lambda>(p, tot, i, m). unat tot - unat i)")
    (auto simp: unat_plus_1 word_less_nat_alt)

definition calloc :: "u32 \<Rightarrow> u32 \<Rightarrow> 'k libc \<Rightarrow> u32 \<times> 'k libc" where
  "calloc nmemb n st =
     (let tot = nmemb * n in
      case malloc tot st of (ptr, st') \<Rightarrow>
        (ptr, if ptr \<noteq> 0 then st'\<lparr>lc_mem := calloc_clear ptr tot 0 (lc_mem st')\<rparr> else st'))"

definition realloc :: "u32 \<Rightarrow> u32 \<Rightarrow> 'k libc \<Rightarrow> u32 \<times> 'k libc" where
  "realloc ptr n st = malloc n st"

definition strdup :: "u32 \<Rightarrow> 'k libc \<Rightarrow> (u32 \<times> 'k libc) option" where
  "strdup s st =
     do {
       l \<leftarrow> strlen (lc_mem st) s;
       let (dup, st') = malloc (l + 1) st;
       if dup \<noteq> 0 then do {
         (_, m) \<leftarrow> strcpy dup s (lc_mem st');
         Some (dup, st'\<lparr>lc_mem := m\<rparr>)
       } else Some (dup, st')
     }"

section \<open>Tokens\<close>

partial_function (option) strtok_skip :: "mem \<Rightarrow> u32 \<Rightarrow> u32 \<Rightarrow> u32 option" where
  "strtok_skip m delim str =
     (if m str \<noteq> 0 then do {
        p \<leftarrow> strchr m delim (ucast (m str));
        if p \<noteq> 0 then strtok_skip m delim (str + 1) else Some str
      } else Some str)"

partial_function (option) strtok_end :: "mem \<Rightarrow> u32 \<Rightarrow> u32 \<Rightarrow> u32 option" where
  "strtok_end m delim str =
     (if m str \<noteq> 0 then do {
        p \<leftarrow> strchr m delim (ucast (m str));
        if p = 0 then strtok_end m delim (str + 1) else Some str
      } else Some str)"

definition strtok :: "u32 \<Rightarrow> u32 \<Rightarrow> 'k libc \<Rightarrow> (u32 \<times> 'k libc) option" where
  "strtok str delim st =
     (let str = (if str = 0 then strtok_last st else str); m = lc_mem st in
      if str = 0 then Some (0, st)
      else do {
        start \<leftarrow> strtok_skip m delim str;
        if m start = 0 then Some (0, st\<lparr>strtok_last := 0\<rparr>)
        else do {
          e \<leftarrow> strtok_end m delim start;
          if m e \<noteq> 0
          then Some (start, st\<lparr>lc_mem := m(e := 0), strtok_last := e + 1\<rparr>)
          else Some (start, st\<lparr>strtok_last := 0\<rparr>)
        }
      })"

section \<open>The environment\<close>

text \<open>The index \<open>i\<close> is an \<open>int\<close>; the entry at index \<open>i\<close> is the pointer at \<open>environ + 4 * i\<close>.\<close>

partial_function (option) getenv_loop :: "mem \<Rightarrow> u32 \<Rightarrow> u32 \<Rightarrow> u32 \<Rightarrow> u32 \<Rightarrow> u32 option" where
  "getenv_loop m envp name namelen i =
     (let e = ld32 m (envp + 4 * i) in
      if e \<noteq> 0 then
        if strncmp m e name namelen = 0 \<and> m (e + namelen) = 61 then Some (e + namelen + 1)
        else getenv_loop m envp name namelen (i + 1)
      else Some 0)"

definition getenv :: "u32 \<Rightarrow> 'k libc \<Rightarrow> u32 option" where
  "getenv name st =
     (if lc_environ st = 0 then Some 0
      else do {
        namelen \<leftarrow> strlen (lc_mem st) name;
        getenv_loop (lc_mem st) (lc_environ st) name namelen 0
      })"

section \<open>Runtime support\<close>

definition cxa_atexit :: "u32 \<Rightarrow> u32 \<Rightarrow> u32 \<Rightarrow> 'k libc \<Rightarrow> u32 \<times> 'k libc" where
  "cxa_atexit func arg dso st = (0, st)"

definition cxa_finalize :: "u32 \<Rightarrow> 'k libc \<Rightarrow> 'k libc" where
  "cxa_finalize dso st = st"

definition libc_main_stub :: "u32 \<Rightarrow> u32 \<Rightarrow> u32 \<Rightarrow> 'k libc \<Rightarrow> u32 \<times> 'k libc" where
  "libc_main_stub argc argv envp st = (0, st)"

declare calloc_clear.simps [simp del]

section \<open>The heap as a sequence of blocks\<close>

text \<open>
  What a client may rely on: the frontier moves up by the size of the block, which lies between
  the old and the new frontier. From it follows that the blocks of a sequence of allocations are
  disjoint as long as the sizes fit between the first frontier and the end of the address space.
\<close>

fun run_allocs :: "(u32 \<Rightarrow> 's \<Rightarrow> u32 \<times> 's) \<Rightarrow> u32 list \<Rightarrow> 's \<Rightarrow> u32 list \<times> 's" where
  "run_allocs alloc [] s = ([], s)"
| "run_allocs alloc (n # ns) s =
     (case alloc n s of (p, s') \<Rightarrow> (case run_allocs alloc ns s' of (ps, s'') \<Rightarrow> (p # ps, s'')))"

locale bump_heap =
  fixes alloc :: "u32 \<Rightarrow> 's \<Rightarrow> u32 \<times> 's"
    and frontier :: "'s \<Rightarrow> u32"
  assumes alloc_block: "alloc n s = (p, s') \<Longrightarrow> unat (frontier s) + unat n < 2 ^ 32 \<Longrightarrow>
    unat (frontier s) \<le> unat p \<and> unat p + unat n \<le> unat (frontier s')"
    and alloc_frontier: "alloc n s = (p, s') \<Longrightarrow> unat (frontier s) + unat n < 2 ^ 32 \<Longrightarrow>
    unat (frontier s') = unat (frontier s) + unat n"
begin

lemma run_allocs_bounds:
  assumes "run_allocs alloc ns s = (ps, s')" "unat (frontier s) + sum_list (map unat ns) < 2 ^ 32"
  shows "length ps = length ns \<and> unat (frontier s') = unat (frontier s) + sum_list (map unat ns) \<and>
    (\<forall>i < length ns. unat (frontier s) \<le> unat (ps ! i) \<and> unat (ps ! i) + unat (ns ! i) \<le> unat (frontier s'))"
  using assms
proof (induction ns arbitrary: s ps)
  case Nil
  then show ?case by simp
next
  case (Cons n ns)
  from Cons.prems(1) obtain p s1 qs where a: "alloc n s = (p, s1)"
    and r: "run_allocs alloc ns s1 = (qs, s')" and ps: "ps = p # qs"
    by (auto split: prod.splits)
  have fit: "unat (frontier s) + unat n < 2 ^ 32" using Cons.prems(2) by simp
  note b = alloc_block [OF a fit] alloc_frontier [OF a fit]
  then have "length qs = length ns \<and> unat (frontier s') = unat (frontier s1) + sum_list (map unat ns) \<and>
    (\<forall>i < length ns. unat (frontier s1) \<le> unat (qs ! i) \<and> unat (qs ! i) + unat (ns ! i) \<le> unat (frontier s'))"
    using Cons.prems(2) by (intro Cons.IH [OF r]) simp
  moreover from this have "\<forall>i < length ns. unat (frontier s) \<le> unat (qs ! i)"
    using b by (auto dest!: spec)
  ultimately show ?case using b ps by (auto simp: All_less_Suc2)
qed

lemma run_allocs_disjoint:
  assumes "run_allocs alloc ns s = (ps, s')" "unat (frontier s) + sum_list (map unat ns) < 2 ^ 32"
    and "i < j" "j < length ns"
  shows "unat (ps ! i) + unat (ns ! i) \<le> unat (ps ! j)"
  using assms
proof (induction ns arbitrary: s ps i j)
  case (Cons n ns)
  from Cons.prems(1) obtain p s1 qs where a: "alloc n s = (p, s1)"
    and r: "run_allocs alloc ns s1 = (qs, s')" and ps: "ps = p # qs"
    by (auto split: prod.splits)
  have fit: "unat (frontier s) + unat n < 2 ^ 32" using Cons.prems(2) by simp
  have rest: "unat (frontier s1) + sum_list (map unat ns) < 2 ^ 32"
    using alloc_frontier [OF a fit] Cons.prems(2) by simp
  obtain k where k: "j = Suc k" using Cons.prems(3) by (cases j) auto
  show ?case
  proof (cases i)
    case 0
    then show ?thesis
      using alloc_block [OF a fit] run_allocs_bounds [OF r rest] Cons.prems(4) k ps by auto
  next
    case (Suc i')
    then show ?thesis using Cons.IH [OF r rest, of i' k] Cons.prems(3,4) k ps by simp
  qed
qed simp

end

interpretation heap: bump_heap malloc heap_ptr
  by unfold_locales (auto simp: malloc_def unat_shift)

lemma calloc_clear_memset: "calloc_clear p n i m = memset_loop p 0 n i m"
proof (induction p n i m rule: calloc_clear.induct)
  case (1 p n i m)
  then show ?case
    unfolding calloc_clear.simps [of p n i m] memset_loop.simps [of p 0 n i m] by (simp del: fun_upd_apply)
qed

lemma bytes_replicate:
  assumes "\<And>k. k < n \<Longrightarrow> m (a + of_nat k) = c"
  shows "bytes m a n = replicate n c"
  using assms by (intro nth_equalityI) (simp_all add: nth_bytes)

section \<open>Tokens of a string\<close>

function tokens :: "u8 list \<Rightarrow> u8 list \<Rightarrow> u8 list list" where
  "tokens d s =
     (let t = dropWhile (\<lambda>c. c \<in> set d) s in
      if t = [] then []
      else takeWhile (\<lambda>c. c \<notin> set d) t # tokens d (tl (dropWhile (\<lambda>c. c \<notin> set d) t)))"
  by pat_completeness auto
termination
proof (relation "measure (\<lambda>(d, s). length s)")
  fix d s t assume t: "t = dropWhile (\<lambda>c. c \<in> set d) s" "t \<noteq> []"
  have "length (tl (dropWhile (\<lambda>c. c \<notin> set d) t)) < length t"
    using t(2) length_dropWhile_le [of "\<lambda>c. c \<notin> set d" t] by (cases t) (simp_all add: less_Suc_eq_le)
  then show "((d, tl (dropWhile (\<lambda>c. c \<notin> set d) t)), d, s) \<in> measure (\<lambda>(d, s). length s)"
    using t(1) length_dropWhile_le [of "\<lambda>c. c \<in> set d" s] by simp
qed simp

declare tokens.simps [simp del]

lemma strchr_delim:
  assumes "cstr m delim d" "delim \<noteq> 0" "unat delim + length d < 2 ^ 32" "c \<noteq> 0"
  shows "\<exists>p. strchr m delim (ucast c) = Some p \<and> (p = 0 \<longleftrightarrow> c \<notin> set d)"
proof -
  have c: "(ucast (ucast c :: u32) :: u8) = c" by (rule bit_word_eqI) (auto simp: bit_simps)
  then have nz: "(ucast c :: u32) \<noteq> 0" using assms(4) by (metis unsigned_0)
  let ?k = "length (takeWhile (\<lambda>b. b \<noteq> c) d)"
  have "?k \<le> length d" by (rule length_takeWhile_le)
  then have "unat (delim + of_nat ?k) = unat delim + ?k"
    using assms(3) by (subst unat_shift) (auto simp: unat_of_nat)
  then have "delim + of_nat ?k \<noteq> 0" using assms(2) by (metis add_is_0 unat_0 unat_eq_zero)
  then show ?thesis using strchr_cstr [OF assms(1) nz] assms(4) unfolding c by auto
qed

lemma strtok_skip_cstr:
  assumes "cstr m delim d" "delim \<noteq> 0" "unat delim + length d < 2 ^ 32" "cstr m p s"
  shows "strtok_skip m delim p = Some (p + of_nat (length (takeWhile (\<lambda>c. c \<in> set d) s)))"
  using assms(4)
proof (induction s arbitrary: p)
  case Nil
  then show ?case by (subst strtok_skip.simps) simp
next
  case (Cons c s)
  obtain q where "strchr m delim (ucast c) = Some q" "q = 0 \<longleftrightarrow> c \<notin> set d"
    using strchr_delim [OF assms(1-3), of c] Cons.prems by auto
  then show ?case using Cons by (subst strtok_skip.simps) (auto simp: add.assoc)
qed

lemma strtok_end_cstr:
  assumes "cstr m delim d" "delim \<noteq> 0" "unat delim + length d < 2 ^ 32" "cstr m p s"
  shows "strtok_end m delim p = Some (p + of_nat (length (takeWhile (\<lambda>c. c \<notin> set d) s)))"
  using assms(4)
proof (induction s arbitrary: p)
  case Nil
  then show ?case by (subst strtok_end.simps) simp
next
  case (Cons c s)
  obtain q where "strchr m delim (ucast c) = Some q" "q = 0 \<longleftrightarrow> c \<notin> set d"
    using strchr_delim [OF assms(1-3), of c] Cons.prems by auto
  then show ?case using Cons by (subst strtok_end.simps) (auto simp: add.assoc)
qed

text \<open>One call: what is returned, what is remembered and which byte is overwritten.\<close>

lemma strtok_cstr:
  assumes "cstr (lc_mem st) delim d" "delim \<noteq> 0" "unat delim + length d < 2 ^ 32"
    and p: "p = (if str = 0 then strtok_last st else str)" "p \<noteq> 0" "cstr (lc_mem st) p s"
    and t: "t = dropWhile (\<lambda>c. c \<in> set d) s" "r = p + of_nat (length s - length t)"
    and u: "u = takeWhile (\<lambda>c. c \<notin> set d) t" "e = r + of_nat (length u)"
  shows "strtok str delim st =
    (if t = [] then Some (0, st\<lparr>strtok_last := 0\<rparr>)
     else if u = t then Some (r, st\<lparr>strtok_last := 0\<rparr>)
     else Some (r, st\<lparr>lc_mem := (lc_mem st)(e := 0), strtok_last := e + 1\<rparr>))"
proof -
  let ?m = "lc_mem st" and ?w = "takeWhile (\<lambda>c. c \<in> set d) s"
  have s: "s = ?w @ t" unfolding t(1) by simp
  then have r: "r = p + of_nat (length ?w)" unfolding t(2) by (metis add_diff_cancel_right' length_append)
  have ct: "cstr ?m r t" using p(3) s unfolding r by (metis cstr_append)
  have skip: "strtok_skip ?m delim p = Some r"
    unfolding r by (rule strtok_skip_cstr [OF assms(1-3) p(3)])
  have end_: "strtok_end ?m delim r = Some e"
    unfolding u by (rule strtok_end_cstr [OF assms(1-3) ct])
  have empty: "?m r = 0 \<longleftrightarrow> t = []" using ct by (cases t) auto
  have "cstr ?m e (dropWhile (\<lambda>c. c \<notin> set d) t)"
    using ct takeWhile_dropWhile_id [of "\<lambda>c. c \<notin> set d" t] unfolding u by (metis cstr_append)
  then have last_: "?m e = 0 \<longleftrightarrow> u = t"
    unfolding u(1) by (metis cstr.simps(1) cstr.simps(2) dropWhile_eq_Nil_conv list.exhaust takeWhile_eq_all_conv)
  show ?thesis using skip end_ empty last_ p(1,2) by (simp add: strtok_def Let_def)
qed

text \<open>
  A client that calls \<open>strtok(str, delim)\<close> and then \<open>strtok(NULL, delim)\<close> until it gets NULL.
  The fuel bounds the number of calls.
\<close>

fun strtok_seq :: "nat \<Rightarrow> u32 \<Rightarrow> u32 \<Rightarrow> 'k libc \<Rightarrow> (u32 list \<times> 'k libc) option" where
  "strtok_seq 0 str delim st = None"
| "strtok_seq (Suc fuel) str delim st =
     do {
       (r, st') \<leftarrow> strtok str delim st;
       if r = 0 then Some ([], st')
       else do { (rs, st'') \<leftarrow> strtok_seq fuel 0 delim st'; Some (r # rs, st'') }
     }"

lemma split_string:
  assumes "cstr m r (u @ c # v)" "e = r + of_nat (length u)"
  shows "cstr (m(e := 0)) r u \<and> cstr (m(e := 0)) (e + 1) v"
proof -
  have len: "length u + Suc (length v) < 2 ^ 32" using cstr_length [OF assms(1)] by simp
  have neq: "r + of_nat i \<noteq> e" if "i \<noteq> length u" "i \<le> length u + Suc (length v)" for i
    using that len unfolding assms(2) by (simp add: word_of_nat_eq_iff take_bit_nat_eq_self)
  have a: "\<forall>i < length u. m (r + of_nat i) = u ! i \<and> u ! i \<noteq> 0" and v: "cstr m (e + 1) v"
    using assms by (auto simp: cstr_append)
  have "cstr (m(e := 0)) r u" using a neq assms(2) by (simp add: cstr_iff)
  moreover have "cstr (m(e := 0)) (e + 1) v"
  proof (rule cstr_cong [OF v])
    fix i assume "i \<le> length v"
    then have "r + of_nat (length u + Suc i) \<noteq> e" by (intro neq) auto
    then show "(m(e := 0)) (e + 1 + of_nat i) = m (e + 1 + of_nat i)"
      unfolding assms(2) by (simp add: add.assoc)
  qed
  ultimately show ?thesis ..
qed

lemma addr_unat: "unat p + k < 2 ^ 32 \<Longrightarrow> unat (p + of_nat k :: u32) = unat p + k"
  by (subst unat_shift) (simp_all add: unat_of_nat)

text \<open>The three outcomes of a call, in terms of the tokens that are left.\<close>

lemma strtok_step:
  assumes "cstr (lc_mem st) delim d" "delim \<noteq> 0" "unat delim + length d < 2 ^ 32"
    and "p = (if str = 0 then strtok_last st else str)" "p \<noteq> 0" "cstr (lc_mem st) p s"
    and fit: "unat p + length s < 2 ^ 32"
  obtains
    (none) "tokens d s = []" "strtok str delim st = Some (0, st\<lparr>strtok_last := 0\<rparr>)"
  | (only) r u where "r \<noteq> 0" "tokens d s = [u]" "cstr (lc_mem st) r u" "s \<noteq> []"
      "strtok str delim st = Some (r, st\<lparr>strtok_last := 0\<rparr>)"
  | (more) r u e v where "r \<noteq> 0" "tokens d s = u # tokens d v" "length v < length s"
      "strtok str delim st = Some (r, st\<lparr>lc_mem := (lc_mem st)(e := 0), strtok_last := e + 1\<rparr>)"
      "cstr ((lc_mem st)(e := 0)) r u" "cstr ((lc_mem st)(e := 0)) (e + 1) v"
      "e = r + of_nat (length u)" "unat e = unat r + length u"
      "unat p \<le> unat e" "unat e + 1 + length v = unat p + length s"
proof -
  define t where "t = dropWhile (\<lambda>c. c \<in> set d) s"
  define u where "u = takeWhile (\<lambda>c. c \<notin> set d) t"
  define v where "v = dropWhile (\<lambda>c. c \<notin> set d) t"
  define r where "r = p + of_nat (length s - length t)"
  define e where "e = r + of_nat (length u)"
  note call = strtok_cstr [OF assms(1-6) t_def r_def u_def e_def]
  have s: "s = takeWhile (\<lambda>c. c \<in> set d) s @ t" and t: "t = u @ v"
    by (simp_all add: t_def u_def v_def)
  have toks: "tokens d s = (if t = [] then [] else u # tokens d (tl v))"
    by (simp add: tokens.simps [of d s] t_def u_def v_def Let_def)
  have lens: "length t \<le> length s" "length t = length u + length v"
    unfolding t_def by (rule length_dropWhile_le) (simp add: t flip: t_def)
  have ur: "unat r = unat p + (length s - length t)" unfolding r_def
    by (rule addr_unat) (use fit lens in linarith)
  then have r0: "r \<noteq> 0" using assms(5) by (metis add_is_0 unat_0 unat_eq_zero)
  have ue: "unat e = unat r + length u" unfolding e_def
    by (rule addr_unat) (use fit lens ur in linarith)
  have ct: "cstr (lc_mem st) r t"
    using assms(6) s unfolding r_def by (metis add_diff_cancel_right' cstr_append length_append)
  consider "t = []" | "t \<noteq> []" "v = []" | c w where "v = c # w" using t by (cases v) auto
  then show thesis
  proof cases
    case 1
    then show ?thesis using call toks none by simp
  next
    case 2
    then show ?thesis
      using call toks t ct r0 lens tokens.simps [of d "[]"] by (intro only [of r u]) auto
  next
    case 3
    then have "cstr ((lc_mem st)(e := 0)) r u" "cstr ((lc_mem st)(e := 0)) (e + 1) w"
      using split_string [of "lc_mem st" r u c w e] ct t e_def by auto
    then show ?thesis using call toks t r0 lens ur ue 3 by (intro more [of r u w e]) (auto simp: e_def)
  qed
qed

text \<open>All the calls: the pointers returned stand for the tokens, and nothing else is written.\<close>

lemma strtok_seq_tokens:
  assumes "cstr (lc_mem st) delim d" "delim \<noteq> 0" "unat delim + length d < 2 ^ 32"
    and "p = (if str = 0 then strtok_last st else str)" "p \<noteq> 0" "cstr (lc_mem st) p s"
    and "unat p + length s < 2 ^ 32" "length s < fuel"
    and "\<forall>i \<le> length d. \<not> in_block p (Suc (length s)) (delim + of_nat i)"
  shows "\<exists>ps st'. strtok_seq fuel str delim st = Some (ps, st') \<and>
    list_all2 (cstr (lc_mem st')) ps (tokens d s) \<and>
    (\<forall>x. \<not> in_block p (Suc (length s)) x \<longrightarrow> lc_mem st' x = lc_mem st x)"
  using assms
proof (induction "length s" arbitrary: s st p str fuel rule: less_induct)
  case less
  obtain f where f: "fuel = Suc f" using less.prems(8) by (cases fuel) auto
  from less.prems(1-7) show ?case
  proof (cases rule: strtok_step)
    case none
    then show ?thesis using f by auto
  next
    case (only r u)
    then obtain f' where "f = Suc f'" using less.prems(8) f by (cases f) auto
    then show ?thesis using only f by (auto simp: strtok_def)
  next
    case (more r u e v)
    let ?st = "st\<lparr>lc_mem := (lc_mem st)(e := 0), strtok_last := e + 1\<rparr>"
    have ue: "unat (e + 1) = unat e + 1" using addr_unat [of e 1] more(9,10) less.prems(7) by simp
    have in_e: "in_block p (Suc (length s)) e"
      by (rule in_block_le) (use more in \<open>auto simp: word_le_nat_alt\<close>)
    have sub: "in_block p (Suc (length s)) x" if "in_block (e + 1) (Suc (length v)) x" for x
      using in_block_range [OF that] ue more(9,10) less.prems(7)
      by (intro in_block_le) (auto simp: word_le_nat_alt)
    have "cstr (lc_mem ?st) delim d"
      by (rule cstr_cong [OF less.prems(1)]) (use in_e less.prems(9) in auto)
    moreover have "e + 1 \<noteq> 0" using ue by (metis add_is_0 one_neq_zero unat_0)
    ultimately obtain ps st' where ih: "strtok_seq f 0 delim ?st = Some (ps, st')"
      "list_all2 (cstr (lc_mem st')) ps (tokens d v)"
      "\<And>x. \<not> in_block (e + 1) (Suc (length v)) x \<Longrightarrow> lc_mem st' x = lc_mem ?st x"
      using less.hyps [OF more(3), of ?st "e + 1" 0 f] more less.prems f ue sub by auto
    have "cstr (lc_mem st') r u"
    proof (rule cstr_cong [OF more(5)])
      fix i assume "i \<le> length u"
      then have "unat (r + of_nat i) \<le> unat e"
        using addr_unat [of r i] more(8-10) less.prems(7) by simp
      then have "\<not> in_block (e + 1) (Suc (length v)) (r + of_nat i)"
        using in_block_range(1) [of "e + 1" "Suc (length v)" "r + of_nat i"] ue more(10) less.prems(7)
        by (auto simp: word_le_nat_alt)
      then show "lc_mem st' (r + of_nat i) = ((lc_mem st)(e := 0)) (r + of_nat i)"
        using ih(3) by simp
    qed
    moreover have "lc_mem st' x = lc_mem st x" if "\<not> in_block p (Suc (length s)) x" for x
      using ih(3) [of x] sub [of x] in_e that by (cases "x = e") auto
    ultimately show ?thesis using ih more f by auto
  qed
qed

section \<open>Environment lookups\<close>

text \<open>\<open>env_at m a es\<close>: the array at \<open>a\<close> points to the strings \<open>es\<close> and ends with a null pointer.\<close>

fun env_at :: "mem \<Rightarrow> u32 \<Rightarrow> u8 list list \<Rightarrow> bool" where
  "env_at m a [] \<longleftrightarrow> ld32 m a = 0"
| "env_at m a (e # es) \<longleftrightarrow> ld32 m a \<noteq> 0 \<and> cstr m (ld32 m a) e \<and> env_at m (a + 4) es"

definition env_defines :: "u8 list \<Rightarrow> u8 list \<Rightarrow> bool" where
  "env_defines name e \<longleftrightarrow> take (Suc (length name)) e = name @ [61]"

lemma defines_test:
  assumes "cstr m a e" "cstr m name n" "namelen = of_nat (length n)"
  shows "strncmp m a name namelen = 0 \<and> m (a + namelen) = 61 \<longleftrightarrow> env_defines n e"
proof -
  have len: "unat namelen = length n"
    using cstr_length [OF assms(2)] assms(3) by (simp add: unat_of_nat)
  have cmp: "strncmp m a name namelen = 0 \<longleftrightarrow> take (length n) e = n"
    using strncmp_loop_cstr [of m a 0 e name n namelen] assms(1,2) len by (simp add: strncmp_def)
  have at: "m (a + namelen) = (if length n < length e then e ! length n else 0)"
    if "take (length n) e = n"
  proof -
    have "length n \<le> length e" using that by (metis length_take min.cobounded1)
    then show ?thesis using cstr_nth [OF assms(1)] cstr_end [OF assms(1)] assms(3)
      by (auto simp: le_less)
  qed
  have "env_defines n e \<longleftrightarrow> take (length n) e = n \<and> length n < length e \<and> e ! length n = 61"
  proof (cases "length n < length e")
    case True
    then show ?thesis by (simp add: env_defines_def take_Suc_conv_app_nth)
  next
    case False
    then show ?thesis by (auto simp: env_defines_def dest: arg_cong [where f = length])
  qed
  then show ?thesis using cmp at by (auto split: if_splits)
qed

lemma getenv_loop_env:
  assumes "cstr m name n" "namelen = of_nat (length n)"
    and "env_at m (envp + 4 * i) es"
  shows "\<exists>p. getenv_loop m envp name namelen i = Some p \<and>
    (case find (env_defines n) es of None \<Rightarrow> p = 0 | Some e \<Rightarrow> cstr m p (drop (Suc (length n)) e))"
  using assms(3)
proof (induction es arbitrary: i)
  case Nil
  then show ?case by (subst getenv_loop.simps) simp
next
  case (Cons e es)
  let ?p = "ld32 m (envp + 4 * i)"
  have e: "?p \<noteq> 0" "cstr m ?p e" and rest: "env_at m (envp + 4 * (i + 1)) es"
    using Cons.prems by (simp_all add: distrib_left ac_simps)
  note test = defines_test [OF e(2) assms(1,2)]
  show ?case
  proof (cases "env_defines n e")
    case True
    then have "e = (n @ [61]) @ drop (Suc (length n)) e"
      by (metis append_take_drop_id env_defines_def)
    then have "cstr m (?p + of_nat (length (n @ [61 :: u8]))) (drop (Suc (length n)) e)"
      using e(2) cstr_append [of m ?p "n @ [61]"] by metis
    then show ?thesis using True e(1) test assms(2)
      by (subst getenv_loop.simps) (simp add: Let_def add.assoc add.commute)
  next
    case False
    then show ?thesis using Cons.IH [OF rest] e(1) test
      by (subst getenv_loop.simps) (auto simp: Let_def)
  qed
qed

end
