(* ===== verification/Libc_Props.thy ===== *)
theory Libc_Props
  imports Libc_Main
begin

text \<open>
  Properties of the minimal C library: the comparison functions order strings, the copying
  functions copy, the allocator hands out disjoint blocks, \<open>strtok\<close> splits a string and
  \<open>getenv\<close> finds a variable.
\<close>

text \<open>A start state of the library, for the witnesses.\<close>

definition libc_start :: "mem \<Rightarrow> u32 \<Rightarrow> unit libc" where
  "libc_start m env = \<lparr>lc_mem = m, heap_ptr = 0x8000, strtok_last = 0, lc_environ = env, lc_kernel = ()\<rparr>"

lemmas libc_start_sel [simp] = libc_start_def

lemma below_far:
  assumes "a \<le> b" "unat b + unat n \<le> 2 ^ 32"
  shows "a = b \<or> (n :: u32) \<le> a - b"
  using in_block_range(1) [of b "unat n" a] assms
  by (auto simp: in_block_def word_le_nat_alt word_less_nat_alt not_le word_unat_eq_iff)

lemma memmove_apply:
  assumes "unat src + unat n \<le> 2 ^ 32" "unat dest + unat n \<le> 2 ^ 32"
  shows "snd (memmove dest src n m) x = (if in_block dest (unat n) x then m (src + (x - dest)) else m x)"
proof (cases "dest \<le> src")
  case True
  then show ?thesis using below_far [OF True assms(1)]
    by (simp add: memmove_def memcpy_loop_apply in_block_def word_less_nat_alt)
next
  case False
  then have "src \<le> dest" by simp
  from below_far [OF this assms(2)] have "n \<le> src - dest \<or> dest = src" by auto
  then show ?thesis using False
    by (simp add: memmove_def memmove_down_apply in_block_def word_less_nat_alt)
qed

lemma bytes_copied:
  fixes n :: u32
  assumes "\<And>x. in_block dest (unat n) x \<Longrightarrow> m' x = m (src + (x - dest))"
  shows "bytes m' dest (unat n) = bytes m src (unat n)"
proof (rule nth_equalityI)
  fix i assume "i < length (bytes m' dest (unat n))"
  moreover from this have "in_block dest (unat n) (dest + of_nat i)"
    using unat_of_nat_le [of i n] by (simp add: in_block_def)
  ultimately show "bytes m' dest (unat n) ! i = bytes m src (unat n) ! i"
    using assms by (simp add: nth_bytes)
qed simp

text \<open>C32: \<open>memmove\<close> copies the old contents of the source block whatever the overlap of the two
  blocks is, as long as neither wraps around the end of memory, and changes nothing else; a
  \<open>memcmp\<close> of the copy with another block then gives 0 exactly when that block holds the old bytes
  of the source.\<close>

theorem memmove_any_overlap:
  assumes "unat src + unat n \<le> 2 ^ 32" "unat dest + unat n \<le> 2 ^ 32" "memmove dest src n m = (r, m')"
  shows "r = dest \<and> bytes m' dest (unat n) = bytes m src (unat n) \<and>
    (\<forall>x. \<not> in_block dest (unat n) x \<longrightarrow> m' x = m x) \<and>
    (memcmp m' dest a n = 0 \<longleftrightarrow> bytes m' a (unat n) = bytes m src (unat n))"
proof -
  have m': "m' x = (if in_block dest (unat n) x then m (src + (x - dest)) else m x)" for x
    using memmove_apply [OF assms(1,2), of m x] assms(3) by simp
  then have "bytes m' dest (unat n) = bytes m src (unat n)" by (intro bytes_copied) simp
  moreover have "r = dest" using assms(3) by (simp add: memmove_def)
  moreover have "memcmp m' dest a n = 0 \<longleftrightarrow> bytes m' dest (unat n) = bytes m' a (unat n)"
    using memcmp_loop_bytes [of m' dest a n 0] by (simp add: memcmp_def)
  ultimately show ?thesis using m' by auto
qed

theorem memmove_any_overlap_witness:
  "bytes (snd (memmove 0x102 0x100 4 (put_bytes 0x100 [1, 2, 3, 4] (\<lambda>_. 0)))) 0x102 4 = [1, 2, 3, 4]"
  using memmove_any_overlap [OF _ _ prod.collapse [symmetric],
      where src = "0x100" and n = 4 and dest = "0x102" and m = "put_bytes 0x100 [1, 2, 3, 4] (\<lambda>_. 0)"]
  by simp

text \<open>\<open>strcmp\<close> ends on two strings and the sign of its result is their lexicographic order on
  unsigned bytes; \<open>strncmp\<close> does the same with at most \<open>n\<close> bytes of each.\<close>

theorem strcmp_lexicographic:
  assumes "cstr m a s" "cstr m b t"
  shows "\<exists>r. strcmp m a b = Some r \<and> (r = 0 \<longleftrightarrow> s = t) \<and> (r < 0 \<longleftrightarrow> ord_class.lexordp s t) \<and>
    (strncmp m a b n = 0 \<longleftrightarrow> take (unat n) s = take (unat n) t) \<and>
    (strncmp m a b n < 0 \<longleftrightarrow> ord_class.lexordp (take (unat n) s) (take (unat n) t))"
  using strcmp_cstr [OF assms] strncmp_loop_cstr [of m a 0 s b t n] assms
  by (auto simp: strncmp_def)

theorem strcmp_lexicographic_witness:
  "\<exists>r. strcmp (put_bytes 0x10 [97, 98, 0] (put_bytes 0x20 [97, 200, 0] (\<lambda>_. 0))) 0x10 0x20 = Some r \<and> r < 0"
  using strcmp_lexicographic [of "put_bytes 0x10 [97, 98, 0] (put_bytes 0x20 [97, 200, 0] (\<lambda>_. 0))"
      "0x10" "[97, 98]" "0x20" "[97, 200]" 1]
  by auto

lemma memcpy_prefix_bytes:
  assumes "j \<le> n"
    and copy: "\<And>x. x - dest < j \<Longrightarrow> m' x = m (src + (x - dest))"
    and pad: "\<And>x. j \<le> x - dest \<Longrightarrow> x - dest < n \<Longrightarrow> m' x = 0"
  shows "bytes m' dest (unat n) = take (unat j) (bytes m src (unat n)) @ replicate (unat n - unat j) 0"
proof (rule nth_equalityI)
  show "length (bytes m' dest (unat n)) = length (take (unat j) (bytes m src (unat n)) @ replicate (unat n - unat j) 0)"
    using assms(1) by (simp add: word_le_nat_alt)
  fix i assume "i < length (bytes m' dest (unat n))"
  then have i: "i < unat n" by simp
  then have u: "unat (of_nat i :: u32) = i" using unat_of_nat_le [of i n] by simp
  show "bytes m' dest (unat n) ! i = (take (unat j) (bytes m src (unat n)) @ replicate (unat n - unat j) 0) ! i"
  proof (cases "i < unat j")
    case True
    then show ?thesis using i u copy [of "dest + of_nat i"]
      by (simp add: nth_append nth_bytes word_less_nat_alt)
  next
    case False
    then show ?thesis using i u pad [of "dest + of_nat i"] assms(1)
      by (simp add: nth_append nth_bytes word_less_nat_alt word_le_nat_alt)
  qed
qed

text \<open>\<open>strncpy\<close> writes exactly the \<open>n\<close> bytes of the destination: the source up to its first
  NUL or \<open>n\<close> bytes of it, then NUL bytes; the source needs no terminator, and the blocks may overlap
  when the destination does not start inside the source.\<close>

theorem strncpy_pads:
  assumes "dest = src \<or> n \<le> dest - src" "strncpy dest src n m = (r, m')"
  shows "r = dest \<and>
    bytes m' dest (unat n) =
      (let t = takeWhile (\<lambda>b. b \<noteq> 0) (bytes m src (unat n)) in t @ replicate (unat n - length t) 0) \<and>
    (\<forall>x. \<not> in_block dest (unat n) x \<longrightarrow> m' x = m x)"
proof -
  let ?t = "takeWhile (\<lambda>b. b \<noteq> 0) (bytes m src (unat n))"
  define j where "j = (0 :: u32) + of_nat (length ?t)"
  have copy: "strncpy_copy dest src n 0 m = (j, memcpy_loop dest src j 0 m)" "j \<le> n"
    using strncpy_copy_memcpy [OF assms(1), of 0 j m] by (simp_all add: j_def)
  have "length ?t \<le> unat n" by (rule order_trans [OF length_takeWhile_le]) simp
  then have uj: "unat j = length ?t" by (simp add: j_def unat_of_nat_le)
  have sep: "dest = src \<or> j \<le> dest - src" using assms(1) copy(2) by auto
  have m': "m' x = (if j \<le> x - dest \<and> x - dest < n then 0
      else if x - dest < j then m (src + (x - dest)) else m x)" for x
    using assms(2) copy(1) sep
    by (auto simp: strncpy_def strncpy_pad_memset memset_loop_apply memcpy_loop_apply)
  have "bytes m' dest (unat n) = take (unat j) (bytes m src (unat n)) @ replicate (unat n - unat j) 0"
    by (rule memcpy_prefix_bytes [OF copy(2)]) (auto simp: m')
  moreover have "take (unat j) (bytes m src (unat n)) = ?t"
    unfolding uj by (rule takeWhile_eq_take [symmetric])
  moreover have "m' x = m x" if "\<not> in_block dest (unat n) x" for x
    using that copy(2) m' by (auto simp: in_block_def word_less_nat_alt word_le_nat_alt)
  moreover have "r = dest" using assms(2) copy(1) by (simp add: strncpy_def)
  ultimately show ?thesis by (simp add: Let_def uj)
qed

theorem strncpy_pads_witness:
  "bytes (snd (strncpy 0x40 0x10 4 (put_bytes 0x10 [97, 98, 0, 99] (\<lambda>_. 7)))) 0x40 4 = [97, 98] @ replicate 2 0"
  using strncpy_pads [OF _ prod.collapse [symmetric],
      where src = "0x10" and n = 4 and dest = "0x40" and m = "put_bytes 0x10 [97, 98, 0, 99] (\<lambda>_. 7)"]
  by simp

text \<open>C33: calling \<open>strtok\<close> on a string and then on NULL until it returns NULL takes at most one
  call per byte and one more, the pointers it returns stand for the tokens of the string in order
  (the maximal runs of bytes that are no delimiters), and nothing outside the string is written.
  The string and the delimiters are disjoint and do not contain address 0.\<close>

theorem strtok_splits:
  assumes "cstr (lc_mem st) delim d" "delim \<noteq> 0" "unat delim + length d < 2 ^ 32"
    and "p \<noteq> 0" "cstr (lc_mem st) p s" "unat p + length s < 2 ^ 32"
    and "\<forall>i \<le> length d. \<not> in_block p (Suc (length s)) (delim + of_nat i)"
  shows "\<exists>ps st'. strtok_seq (length s + 1) p delim st = Some (ps, st') \<and>
    list_all2 (cstr (lc_mem st')) ps (tokens d s) \<and>
    (\<forall>x. \<not> in_block p (Suc (length s)) x \<longrightarrow> lc_mem st' x = lc_mem st x)"
  using assms by (intro strtok_seq_tokens) simp_all

theorem strtok_splits_witness:
  "\<exists>ps st'. strtok_seq 6 0x100 0x200
      (libc_start (put_bytes 0x100 [44, 97, 98, 44, 99, 0] (put_bytes 0x200 [44, 0] (\<lambda>_. 0))) 0) = Some (ps, st') \<and>
    list_all2 (cstr (lc_mem st')) ps [[97, 98], [99]]"
proof -
  let ?m = "put_bytes 0x100 [44, 97, 98, 44, 99, 0] (put_bytes 0x200 [44, 0] (\<lambda>_. 0))"
  have "tokens [44] [44, 97, 98, 44, 99] = [[97, 98], [99 :: u8]]"
    by (simp add: tokens.simps)
  then have "\<exists>ps st'. strtok_seq (length [44, 97, 98, 44, 99 :: u8] + 1) 0x100 0x200 (libc_start ?m 0) = Some (ps, st') \<and>
      list_all2 (cstr (lc_mem st')) ps [[97, 98], [99]]"
    using strtok_splits [of "libc_start ?m 0" "0x200" "[44]" "0x100" "[44, 97, 98, 44, 99]"]
    by (fastforce simp: in_block_def le_Suc_eq simp del: strtok_seq.simps)
  moreover have "length [44, 97, 98, 44, 99 :: u8] + 1 = 6" by simp
  ultimately show ?thesis by (simp only:)
qed

text \<open>C23: the blocks that a sequence of \<open>malloc\<close> calls returns are pairwise disjoint, lie above
  the initial frontier and leave memory as it is, as long as the sizes fit below the end of the
  address space. (The code does not check that they fit, and never reuses a freed block.)\<close>

theorem malloc_disjoint:
  assumes "run_allocs malloc ns st = (ps, st')" "unat (heap_ptr st) + sum_list (map unat ns) < 2 ^ 32"
  shows "length ps = length ns \<and> lc_mem st' = lc_mem st \<and>
    (\<forall>i < length ns. unat (heap_ptr st) \<le> unat (ps ! i) \<and> unat (ps ! i) + unat (ns ! i) \<le> unat (heap_ptr st')) \<and>
    (\<forall>j < length ns. \<forall>i < j. unat (ps ! i) + unat (ns ! i) \<le> unat (ps ! j))"
proof -
  have "lc_mem st' = lc_mem st" using assms(1)
    by (induction ns arbitrary: st ps) (auto simp: malloc_def split: prod.splits)
  then show ?thesis
    using heap.run_allocs_bounds [OF assms] heap.run_allocs_disjoint [OF assms] by blast
qed

theorem malloc_disjoint_witness:
  "fst (run_allocs malloc [5, 8] (libc_start (\<lambda>_. 0) 0)) = [0x8000, 0x8005]"
  using malloc_disjoint [of "[5, 8]" "libc_start (\<lambda>_. 0) 0" "[0x8000, 0x8005]"
      "(libc_start (\<lambda>_. 0) 0)\<lparr>heap_ptr := 0x800D\<rparr>"]
  by (simp add: malloc_def)

text \<open>\<open>calloc\<close> returns a block of \<open>nmemb * size\<close> zero bytes when that product does not
  overflow; when the true product is a multiple of 2 to the 32 it reserves nothing at all, and the
  next allocation returns the same pointer.\<close>

theorem calloc_zeroed_or_overflow:
  assumes "calloc nmemb n st = (p, st')" "heap_ptr st \<noteq> 0"
  shows "(unat nmemb * unat n < 2 ^ 32 \<longrightarrow>
      bytes (lc_mem st') p (unat nmemb * unat n) = replicate (unat nmemb * unat n) 0) \<and>
    (\<forall>x. \<not> in_block p (unat (nmemb * n)) x \<longrightarrow> lc_mem st' x = lc_mem st x) \<and>
    (2 ^ 32 dvd unat nmemb * unat n \<longrightarrow> st' = st \<and> fst (malloc k st') = p)"
proof -
  have p: "p = heap_ptr st" and st': "st' = st\<lparr>heap_ptr := p + nmemb * n,
      lc_mem := calloc_clear p (nmemb * n) 0 (lc_mem st)\<rparr>"
    using assms by (auto simp: calloc_def malloc_def Let_def)
  have m: "lc_mem st' x = (if x - p < nmemb * n then 0 else lc_mem st x)" for x
    by (simp add: st' calloc_clear_memset memset_loop_apply)
  have "bytes (lc_mem st') p (unat nmemb * unat n) = replicate (unat nmemb * unat n) 0"
    if fit: "unat nmemb * unat n < 2 ^ 32"
  proof (rule bytes_replicate)
    fix i assume "i < unat nmemb * unat n"
    moreover from fit have "unat (nmemb * n) = unat nmemb * unat n" by (simp add: unat_word_ariths)
    ultimately show "lc_mem st' (p + of_nat i) = 0"
      using unat_of_nat_le [of i "nmemb * n"] by (simp add: m word_less_nat_alt)
  qed
  moreover have "st' = st \<and> fst (malloc k st') = p" if "2 ^ 32 dvd unat nmemb * unat n"
  proof -
    have "nmemb * n = 0" using that by (simp add: unat_word_ariths flip: unat_eq_zero)
    then have "lc_mem st' = lc_mem st" "heap_ptr st' = p" using m by (auto simp: st' fun_eq_iff)
    then have "st' = st" using p st' by (cases st) simp
    then show ?thesis using p by (simp add: malloc_def)
  qed
  ultimately show ?thesis using m by (auto simp: in_block_def word_less_nat_alt)
qed

theorem calloc_zeroed_or_overflow_witness:
  "fst (calloc 0x10000 0x10000 (libc_start (\<lambda>_. 0) 0)) =
   fst (malloc 16 (snd (calloc 0x10000 0x10000 (libc_start (\<lambda>_. 0) 0))))"
  using calloc_zeroed_or_overflow [OF prod.collapse [symmetric],
      where nmemb = "0x10000" and n = "0x10000" and st = "libc_start (\<lambda>_. 0) 0" and k = 16]
  by (auto simp del: bytes_numeral)

text \<open>\<open>strdup\<close> of a string outside the free part of the heap returns, at the old frontier, a
  copy of it with its terminator, and leaves everything outside the new block as it was, so also
  the original.\<close>

theorem strdup_copies:
  assumes "cstr (lc_mem st) s t" "heap_ptr st \<noteq> 0" "unat (heap_ptr st) + length t + 1 < 2 ^ 32"
    and "unat s + length t < unat (heap_ptr st)"
  shows "\<exists>st'. strdup s st = Some (heap_ptr st, st') \<and> cstr (lc_mem st') (heap_ptr st) t \<and>
    cstr (lc_mem st') s t \<and> unat (heap_ptr st') = unat (heap_ptr st) + length t + 1 \<and>
    (\<forall>x. \<not> in_block (heap_ptr st) (length t + 1) x \<longrightarrow> lc_mem st' x = lc_mem st x)"
proof -
  let ?h = "heap_ptr st" and ?m = "lc_mem st"
  define m' where "m' = (\<lambda>x. if in_block ?h (Suc (length t)) x then ?m (s + (x - ?h)) else ?m x)"
  have "unat (?h - s) = unat ?h - unat s" using assms(4) by (intro unat_sub) (simp add: word_le_nat_alt)
  then have "strcpy_loop ?h s ?m = Some m'"
    unfolding m'_def using assms(4) by (intro strcpy_loop_cstr [OF assms(1)]) linarith
  then have res: "strdup s st = Some (?h, st\<lparr>heap_ptr := ?h + (of_nat (length t) + 1), lc_mem := m'\<rparr>)"
    using assms(1,2) by (simp add: strdup_def malloc_def strcpy_def)
  have small: "unat (of_nat i :: u32) = i" if "i \<le> length t" for i
    using that assms(3) by (simp add: unat_of_nat)
  have "cstr m' ?h t"
    using assms(1) small by (auto simp: cstr_iff m'_def in_block_def)
  moreover have "cstr m' s t"
  proof (rule cstr_cong [OF assms(1)])
    fix i assume "i \<le> length t"
    then have "unat (s + of_nat i) < unat ?h" using addr_unat [of s i] assms(3,4) by simp
    then have "\<not> in_block ?h (Suc (length t)) (s + of_nat i)"
      using in_block_range(1) [of ?h "Suc (length t)" "s + of_nat i"] assms(3)
      by (auto simp: word_le_nat_alt)
    then show "m' (s + of_nat i) = ?m (s + of_nat i)" by (simp add: m'_def)
  qed
  moreover have "unat (?h + (of_nat (length t) + 1)) = unat ?h + length t + 1"
    using addr_unat [of ?h "length t + 1"] assms(3) by (simp add: add.commute)
  ultimately show ?thesis using res by (simp add: m'_def)
qed

theorem strdup_copies_witness:
  "\<exists>st'. strdup 0x10 (libc_start (put_bytes 0x10 [104, 105, 0] (\<lambda>_. 9)) 0) = Some (0x8000, st') \<and>
    cstr (lc_mem st') 0x8000 [104, 105]"
  using strdup_copies [of "libc_start (put_bytes 0x10 [104, 105, 0] (\<lambda>_. 9)) 0" "0x10" "[104, 105]"]
  by auto

text \<open>\<open>getenv\<close> ends on a null-terminated environment and returns the value of the first entry
  of the form \<open>name=value\<close>, and NULL when there is none.\<close>

theorem getenv_first_match:
  assumes "cstr (lc_mem st) name n" "lc_environ st \<noteq> 0" "env_at (lc_mem st) (lc_environ st) es"
  shows "\<exists>p. getenv name st = Some p \<and>
    (case find (env_defines n) es of None \<Rightarrow> p = 0
     | Some e \<Rightarrow> cstr (lc_mem st) p (drop (Suc (length n)) e))"
  using getenv_loop_env [OF assms(1) refl, of "lc_environ st" 0 es] assms by (simp add: getenv_def)

theorem getenv_first_match_witness:
  "\<exists>p. getenv 0x10 (libc_start (put_bytes 0x10 [65, 0] (put_bytes 0x20 [66, 61, 49, 0]
      (put_bytes 0x30 [65, 61, 50, 0] (put_bytes 0x40 [0x20, 0, 0, 0, 0x30, 0, 0, 0, 0, 0, 0, 0] (\<lambda>_. 0))))) 0x40) = Some p \<and>
    cstr (put_bytes 0x10 [65, 0] (put_bytes 0x20 [66, 61, 49, 0]
      (put_bytes 0x30 [65, 61, 50, 0] (put_bytes 0x40 [0x20, 0, 0, 0, 0x30, 0, 0, 0, 0, 0, 0, 0] (\<lambda>_. 0))))) p [50]"
  using getenv_first_match [of "libc_start (put_bytes 0x10 [65, 0] (put_bytes 0x20 [66, 61, 49, 0]
      (put_bytes 0x30 [65, 61, 50, 0] (put_bytes 0x40 [0x20, 0, 0, 0, 0x30, 0, 0, 0, 0, 0, 0, 0] (\<lambda>_. 0))))) 0x40"
      "0x10" "[65]" "[[66, 61, 49], [65, 61, 50]]"]
  by (simp add: ld32_def le32_def env_defines_def)

end
