(* ===== verification/Dyld_Os.thy ===== *)
theory Dyld_Os
  imports Prelude
begin

text \<open>
  The system under the dynamic linker \<open>mindyld\<close>: the calls of the C library and of POSIX that its
  sources use (\<open>open\<close>, \<open>read\<close>, \<open>lseek\<close>, \<open>close\<close>, \<open>access\<close>, \<open>mmap\<close>, \<open>munmap\<close>, \<open>mprotect\<close>, \<open>malloc\<close>,
  \<open>free\<close>, \<open>memset\<close>) on a state with files, descriptors, byte memory with page protections, and the
  heap of library handles. What the system is free to choose (the address of a new mapping, the
  address of a heap block, the number of a descriptor) is a field of an environment record.

  A computation of type \<open>option\<close> is \<open>None\<close> where the C code has no defined behaviour: a store to
  memory that is not writable, a dereference of a null or freed handle, a read past a buffer, or
  a loop over a cyclic list that never ends.
\<close>

section \<open>The state\<close>

record mindyld_handle_t =
  base_address :: u64
  h_size :: u64
  is_executable :: bool
  h_next :: u64

record dyld =
  d_files :: "string \<Rightarrow> u8 list option"
  d_fds :: "nat \<Rightarrow> (u8 list \<times> nat) option"
  d_mem :: "u64 \<Rightarrow> u8"
  d_pages :: "u64 \<Rightarrow> u32 option"
  d_handles :: "u64 \<Rightarrow> mindyld_handle_t option"
  loaded_objects :: u64
  dependencies :: u64
  num_dependencies :: u32

record dyld_env =
  open_fd :: "dyld \<Rightarrow> nat option"
  mmap_pick :: "u64 \<Rightarrow> dyld \<Rightarrow> u64 option"
  map_zero :: bool
  malloc_pick :: "u64 \<Rightarrow> dyld \<Rightarrow> u64"

abbreviation (input) MAP_FAILED :: u64 where "MAP_FAILED \<equiv> - 1"
abbreviation (input) PROT_READ :: u32 where "PROT_READ \<equiv> 1"
abbreviation (input) PROT_WRITE :: u32 where "PROT_WRITE \<equiv> 2"
abbreviation (input) PROT_EXEC :: u32 where "PROT_EXEC \<equiv> 4"

section \<open>Files\<close>

definition sys_open :: "dyld_env \<Rightarrow> string \<Rightarrow> dyld \<Rightarrow> nat option \<times> dyld" where
  "sys_open env path st =
     (case (d_files st path, open_fd env st) of
        (Some bs, Some fd) \<Rightarrow> (Some fd, st\<lparr>d_fds := (d_fds st)(fd := Some (bs, 0))\<rparr>)
      | _ \<Rightarrow> (None, st))"

definition sys_close :: "nat \<Rightarrow> dyld \<Rightarrow> dyld" where
  "sys_close fd st = st\<lparr>d_fds := (d_fds st)(fd := None)\<rparr>"

definition sys_access :: "string \<Rightarrow> dyld \<Rightarrow> bool" where
  "sys_access path st \<longleftrightarrow> d_files st path \<noteq> None"

text \<open>A read into a local buffer: the bytes that were read (at most \<open>n\<close>).\<close>

definition sys_read_local :: "nat \<Rightarrow> nat \<Rightarrow> dyld \<Rightarrow> u8 list \<times> dyld" where
  "sys_read_local fd n st =
     (case d_fds st fd of
        None \<Rightarrow> ([], st)
      | Some (bs, pos) \<Rightarrow>
          (let got = take n (drop pos bs)
           in (got, st\<lparr>d_fds := (d_fds st)(fd := Some (bs, pos + length got))\<rparr>)))"

text \<open>The offset is signed: a negative one is refused.\<close>

definition sys_lseek :: "nat \<Rightarrow> u64 \<Rightarrow> dyld \<Rightarrow> bool \<times> dyld" where
  "sys_lseek fd off st =
     (case d_fds st fd of
        None \<Rightarrow> (False, st)
      | Some (bs, pos) \<Rightarrow>
          if sint off < 0 then (False, st)
          else (True, st\<lparr>d_fds := (d_fds st)(fd := Some (bs, unat off))\<rparr>))"

section \<open>Memory\<close>

definition page_of :: "u64 \<Rightarrow> u64" where
  "page_of a = drop_bit 12 a"

definition pages :: "u64 \<Rightarrow> u64 \<Rightarrow> u64 list" where
  "pages a len = map (\<lambda>i. page_of a + of_nat i) [0..<(unat len + 4095) div 4096]"

definition page_aligned :: "u64 \<Rightarrow> bool" where
  "page_aligned a \<longleftrightarrow> a AND 0xFFF = 0"

definition writable :: "dyld \<Rightarrow> u64 \<Rightarrow> bool" where
  "writable st a \<longleftrightarrow> (case d_pages st (page_of a) of None \<Rightarrow> False | Some p \<Rightarrow> p AND PROT_WRITE \<noteq> 0)"

definition add_mapping :: "u64 \<Rightarrow> u64 \<Rightarrow> dyld \<Rightarrow> dyld" where
  "add_mapping a len st = st\<lparr>
     d_pages := (\<lambda>p. if p \<in> set (pages a len) then Some PROT_WRITE else d_pages st p),
     d_mem := (\<lambda>x. if page_of x \<in> set (pages a len) then 0 else d_mem st x)\<rparr>"

text \<open>
  An anonymous mapping at \<open>NULL\<close> with write access. Without \<open>MAP_FIXED\<close> the system chooses the
  address; with it the mapping starts at address 0, which the system may refuse.
\<close>

definition sys_mmap :: "dyld_env \<Rightarrow> u64 \<Rightarrow> bool \<Rightarrow> dyld \<Rightarrow> u64 \<times> dyld" where
  "sys_mmap env len fixed st =
     (if len = 0 then (MAP_FAILED, st)
      else if fixed then if map_zero env then (0, add_mapping 0 len st) else (MAP_FAILED, st)
      else case mmap_pick env len st of
        None \<Rightarrow> (MAP_FAILED, st)
      | Some a \<Rightarrow> (a, add_mapping a len st))"

definition sys_munmap :: "u64 \<Rightarrow> u64 \<Rightarrow> dyld \<Rightarrow> dyld" where
  "sys_munmap a len st =
     (if \<not> page_aligned a \<or> len = 0 then st
      else st\<lparr>d_pages := (\<lambda>p. if p \<in> set (pages a len) then None else d_pages st p)\<rparr>)"

definition sys_mprotect :: "u64 \<Rightarrow> u64 \<Rightarrow> u32 \<Rightarrow> dyld \<Rightarrow> bool \<times> dyld" where
  "sys_mprotect a len prot st =
     (if \<not> page_aligned a \<or> \<not> list_all (\<lambda>p. d_pages st p \<noteq> None) (pages a len) then (False, st)
      else (True, st\<lparr>d_pages := (\<lambda>p. if p \<in> set (pages a len) then Some prot else d_pages st p)\<rparr>))"

text \<open>Copying to user memory stops at the first byte that is not writable.\<close>

fun copy_user :: "u8 list \<Rightarrow> u64 \<Rightarrow> dyld \<Rightarrow> nat \<times> dyld" where
  "copy_user [] a st = (0, st)"
| "copy_user (b # bs) a st =
     (if writable st a
      then (case copy_user bs (a + 1) (st\<lparr>d_mem := (d_mem st)(a := b)\<rparr>) of (k, st') \<Rightarrow> (Suc k, st'))
      else (0, st))"

definition sys_read :: "nat \<Rightarrow> u64 \<Rightarrow> u64 \<Rightarrow> dyld \<Rightarrow> int \<times> dyld" where
  "sys_read fd a n st =
     (case d_fds st fd of
        None \<Rightarrow> (- 1, st)
      | Some (bs, pos) \<Rightarrow>
          (let got = take (unat n) (drop pos bs) in
           case copy_user got a st of (k, st') \<Rightarrow>
             (if k = 0 \<and> got \<noteq> [] then (- 1, st')
              else (int k, st'\<lparr>d_fds := (d_fds st')(fd := Some (bs, pos + k))\<rparr>))))"

fun user_memset :: "nat \<Rightarrow> u64 \<Rightarrow> u8 \<Rightarrow> dyld \<Rightarrow> dyld option" where
  "user_memset 0 a c st = Some st"
| "user_memset (Suc n) a c st =
     (if writable st a then user_memset n (a + 1) c (st\<lparr>d_mem := (d_mem st)(a := c)\<rparr>) else None)"

declare user_memset.simps [simp del]

section \<open>Little-endian fields of a buffer\<close>

definition fld16 :: "u8 list \<Rightarrow> nat \<Rightarrow> u16" where
  "fld16 bs i = le16 (bs ! i) (bs ! (i + 1))"

definition fld32 :: "u8 list \<Rightarrow> nat \<Rightarrow> u32" where
  "fld32 bs i = le32 (bs ! i) (bs ! (i + 1)) (bs ! (i + 2)) (bs ! (i + 3))"

definition fld64 :: "u8 list \<Rightarrow> nat \<Rightarrow> u64" where
  "fld64 bs i = le64 (fld32 bs i) (fld32 bs (i + 4))"

section \<open>Strings in a buffer\<close>

text \<open>The string that starts at offset \<open>i\<close>; undefined when it does not end inside the buffer.\<close>

definition str_at :: "u8 list \<Rightarrow> nat \<Rightarrow> u8 list option" where
  "str_at bs i = (if 0 \<in> set (drop i bs) then Some (takeWhile (\<lambda>b. b \<noteq> 0) (drop i bs)) else None)"

end
