(* ===== verification/Dyld_Elf.thy ===== *)
theory Dyld_Elf
  imports Dyld_Os
begin

text \<open>
  The ELF loader of the dynamic linker (\<open>mindyld/elf_loader.c\<close>): header validation, mapping of the
  loadable segments, symbol table search, relocation and \<open>elf_load\<close>.
\<close>

section \<open>Shared types (\<open>mindyld_common.h\<close>)\<close>

record mindyld_symbol_t =
  sym_name :: "u8 list"
  sym_address :: u64
  sym_size :: u32
  sym_binding :: int
  sym_type :: int

definition MINDYLD_OK :: int where "MINDYLD_OK = 0"
definition MINDYLD_ERR_OPEN :: int where "MINDYLD_ERR_OPEN = - 1"
definition MINDYLD_ERR_INVALID :: int where "MINDYLD_ERR_INVALID = - 3"

section \<open>Data (\<open>mindyld_elf.h\<close>)\<close>

abbreviation (input) ET_EXEC :: u16 where "ET_EXEC \<equiv> 2"
abbreviation (input) ET_DYN :: u16 where "ET_DYN \<equiv> 3"
abbreviation (input) PT_LOAD :: u32 where "PT_LOAD \<equiv> 1"
abbreviation (input) PF_X :: u32 where "PF_X \<equiv> 1"
abbreviation (input) PF_W :: u32 where "PF_W \<equiv> 2"
abbreviation (input) PF_R :: u32 where "PF_R \<equiv> 4"

record elf64_header_t =
  e_ident :: "u8 list"
  e_type :: u16
  e_machine :: u16
  e_version :: u32
  e_entry :: u64
  e_phoff :: u64
  e_shoff :: u64
  e_flags :: u32
  e_ehsize :: u16
  e_phentsize :: u16
  e_phnum :: u16
  e_shentsize :: u16
  e_shnum :: u16
  e_shstrndx :: u16

definition elf64_header_of :: "u8 list \<Rightarrow> elf64_header_t" where
  "elf64_header_of b = \<lparr>e_ident = take 16 b, e_type = fld16 b 16, e_machine = fld16 b 18,
     e_version = fld32 b 20, e_entry = fld64 b 24, e_phoff = fld64 b 32, e_shoff = fld64 b 40,
     e_flags = fld32 b 48, e_ehsize = fld16 b 52, e_phentsize = fld16 b 54, e_phnum = fld16 b 56,
     e_shentsize = fld16 b 58, e_shnum = fld16 b 60, e_shstrndx = fld16 b 62\<rparr>"

record elf64_phdr_t =
  p_type :: u32
  p_flags :: u32
  p_offset :: u64
  p_vaddr :: u64
  p_paddr :: u64
  p_filesz :: u64
  p_memsz :: u64
  p_align :: u64

definition elf64_phdr_of :: "u8 list \<Rightarrow> elf64_phdr_t" where
  "elf64_phdr_of b = \<lparr>p_type = fld32 b 0, p_flags = fld32 b 4, p_offset = fld64 b 8,
     p_vaddr = fld64 b 16, p_paddr = fld64 b 24, p_filesz = fld64 b 32, p_memsz = fld64 b 40,
     p_align = fld64 b 48\<rparr>"

record elf64_sym_t =
  st_name :: u32
  st_info :: u8
  st_other :: u8
  st_shndx :: u16
  st_value :: u64
  st_size :: u64

record elf64_rela_t =
  r_offset :: u64
  r_info :: u64
  r_addend :: u64

section \<open>Validation\<close>

definition elf_validate_header :: "elf64_header_t \<Rightarrow> int" where
  "elf_validate_header header =
     (if e_ident header ! 0 \<noteq> 0x7F \<or> e_ident header ! 1 \<noteq> 0x45 \<or>
         e_ident header ! 2 \<noteq> 0x4C \<or> e_ident header ! 3 \<noteq> 0x46 then MINDYLD_ERR_INVALID
      else if e_ident header ! 4 \<noteq> 1 \<and> e_ident header ! 4 \<noteq> 2 then MINDYLD_ERR_INVALID
      else if e_ident header ! 5 \<noteq> 1 \<and> e_ident header ! 5 \<noteq> 2 then MINDYLD_ERR_INVALID
      else if e_ident header ! 6 \<noteq> 1 then MINDYLD_ERR_INVALID
      else if e_type header \<noteq> ET_DYN \<and> e_type header \<noteq> ET_EXEC then MINDYLD_ERR_INVALID
      else MINDYLD_OK)"

section \<open>Mapping of segments\<close>

text \<open>
  The array of program headers: \<open>e_phnum\<close> structures of 56 bytes each, out of a buffer of
  \<open>e_phentsize * e_phnum\<close> bytes. An entry that is not inside the buffer is undefined.
\<close>

fun elf_phdrs :: "nat \<Rightarrow> u8 list \<Rightarrow> elf64_phdr_t list option" where
  "elf_phdrs 0 b = Some []"
| "elf_phdrs (Suc n) b =
     (if length b < 56 then None
      else map_option ((#) (elf64_phdr_of b)) (elf_phdrs n (drop 56 b)))"

fun elf_extent :: "elf64_phdr_t list \<Rightarrow> u64 \<Rightarrow> u64 \<Rightarrow> u64 \<times> u64" where
  "elf_extent [] min_addr max_addr = (min_addr, max_addr)"
| "elf_extent (ph # phs) min_addr max_addr =
     (if p_type ph = PT_LOAD then
        elf_extent phs
          (if p_vaddr ph < min_addr then p_vaddr ph else min_addr)
          (if p_vaddr ph + p_memsz ph > max_addr then p_vaddr ph + p_memsz ph else max_addr)
      else elf_extent phs min_addr max_addr)"

text \<open>
  Reading one segment to its place: seek, read, clear the rest, set the protection. The result
  tells whether every call succeeded. Both loaders have this code.
\<close>

definition place_segment ::
  "nat \<Rightarrow> u64 \<Rightarrow> u64 \<Rightarrow> u64 \<Rightarrow> u64 \<Rightarrow> u32 \<Rightarrow> dyld \<Rightarrow> (bool \<times> dyld) option" where
  "place_segment fd segment_addr off filesz memsz prot st =
     (case sys_lseek fd off st of (ok, st1) \<Rightarrow>
        if \<not> ok then Some (False, st1)
        else case sys_read fd segment_addr filesz st1 of (read_bytes, st2) \<Rightarrow>
          if read_bytes \<noteq> sint filesz then Some (False, st2)
          else do {
            st3 \<leftarrow> (if filesz < memsz
                   then user_memset (unat (memsz - filesz)) (segment_addr + filesz) 0 st2
                   else Some st2);
            Some (sys_mprotect segment_addr memsz prot st3)
          })"

definition elf_prot :: "u32 \<Rightarrow> u32" where
  "elf_prot flags =
     (if flags AND PF_R \<noteq> 0 then PROT_READ else 0) OR
     (if flags AND PF_W \<noteq> 0 then PROT_WRITE else 0) OR
     (if flags AND PF_X \<noteq> 0 then PROT_EXEC else 0)"

fun elf_load_segments ::
  "nat \<Rightarrow> u64 \<Rightarrow> u64 \<Rightarrow> u64 \<Rightarrow> elf64_phdr_t list \<Rightarrow> dyld \<Rightarrow> (u64 \<times> dyld) option" where
  "elf_load_segments fd base min_addr total_size [] st = Some (base, st)"
| "elf_load_segments fd base min_addr total_size (ph # phs) st =
     (if p_type ph \<noteq> PT_LOAD then elf_load_segments fd base min_addr total_size phs st
      else do {
        (ok, st') \<leftarrow> place_segment fd (base + (p_vaddr ph - min_addr)) (p_offset ph)
                      (p_filesz ph) (p_memsz ph) (elf_prot (p_flags ph)) st;
        if ok then elf_load_segments fd base min_addr total_size phs st'
        else Some (0, sys_munmap base total_size st')
      })"

text \<open>
  The product of the two 16-bit fields is an \<open>int\<close>; a product that does not fit is undefined.
  \<open>malloc\<close> of the header buffer may fail.
\<close>

definition elf_map_segments :: "dyld_env \<Rightarrow> nat \<Rightarrow> elf64_header_t \<Rightarrow> dyld \<Rightarrow> (u64 \<times> dyld) option" where
  "elf_map_segments env fd header st =
     (let phdrs_size = unat (e_phentsize header) * unat (e_phnum header) in
      if phdrs_size \<ge> 2 ^ 31 then None
      else if malloc_pick env (of_nat phdrs_size) st = 0 then Some (0, st)
      else case sys_lseek fd (e_phoff header) st of (ok, st1) \<Rightarrow>
        if \<not> ok then Some (0, st1)
        else case sys_read_local fd phdrs_size st1 of (b, st2) \<Rightarrow>
          if length b \<noteq> phdrs_size then Some (0, st2)
          else do {
            phdrs \<leftarrow> elf_phdrs (unat (e_phnum header)) b;
            let (min_addr, max_addr) = elf_extent phdrs (- 1) 0;
            let total_size = max_addr - min_addr;
            let (base, st3) = sys_mmap env total_size (e_type header = ET_EXEC) st2;
            if base = 0 then Some (0, st3)
            else elf_load_segments fd base min_addr total_size phdrs st3
          })"

section \<open>Symbols\<close>

fun elf_symtab_loop ::
  "dyld_env \<Rightarrow> dyld \<Rightarrow> u64 \<Rightarrow> u8 list \<Rightarrow> elf64_sym_t list \<Rightarrow> nat \<Rightarrow> u8 list \<Rightarrow> mindyld_symbol_t option option"
where
  "elf_symtab_loop env st base name symtab 0 strtab = Some None"
| "elf_symtab_loop env st base name [] (Suc n) strtab = None"
| "elf_symtab_loop env st base name (entry # symtab) (Suc n) strtab =
     do {
       sname \<leftarrow> str_at strtab (unat (st_name entry));
       if sname = name then
         Some (if malloc_pick env 32 st = 0 then None
               else Some \<lparr>sym_name = sname, sym_address = base + st_value entry,
                      sym_size = ucast (st_size entry), sym_binding = uint (drop_bit 4 (st_info entry)),
                      sym_type = uint (st_info entry AND 0x0F)\<rparr>)
       else elf_symtab_loop env st base name symtab n strtab
     }"

text \<open>The size of the table is given in bytes, 24 per symbol.\<close>

definition elf_find_symbol_in_symtab ::
  "dyld_env \<Rightarrow> dyld \<Rightarrow> mindyld_handle_t \<Rightarrow> u8 list \<Rightarrow> elf64_sym_t list \<Rightarrow> u32 \<Rightarrow> u8 list \<Rightarrow>
   mindyld_symbol_t option option" where
  "elf_find_symbol_in_symtab env st handle name symtab symtab_size strtab =
     elf_symtab_loop env st (base_address handle) name symtab (unat (symtab_size div 24)) strtab"

section \<open>Relocations\<close>

datatype rela_action = Rela_relative | Rela_absolute | Rela_symbol | Rela_none

definition rela_action :: "u32 \<Rightarrow> rela_action" where
  "rela_action t =
     (if t \<in> {23, 1027, 8} then Rela_relative
      else if t \<in> {2, 257, 1} then Rela_absolute
      else if t \<in> {21, 1025, 6} then Rela_symbol
      else if t \<in> {22, 1026, 7} then Rela_symbol
      else Rela_none)"

definition ld_u64 :: "(u64 \<Rightarrow> u8) \<Rightarrow> u64 \<Rightarrow> u64" where
  "ld_u64 m a = le64 (le32 (m a) (m (a + 1)) (m (a + 2)) (m (a + 3)))
                     (le32 (m (a + 4)) (m (a + 5)) (m (a + 6)) (m (a + 7)))"

definition st_u64 :: "u64 \<Rightarrow> u64 \<Rightarrow> (u64 \<Rightarrow> u8) \<Rightarrow> u64 \<Rightarrow> u8" where
  "st_u64 a v m = m(a := byte_of 0 v, a + 1 := byte_of 1 v, a + 2 := byte_of 2 v, a + 3 := byte_of 3 v,
     a + 4 := byte_of 4 v, a + 5 := byte_of 5 v, a + 6 := byte_of 6 v, a + 7 := byte_of 7 v)"

definition put_u64 :: "u64 \<Rightarrow> u64 \<Rightarrow> dyld \<Rightarrow> dyld option" where
  "put_u64 a v st =
     (if writable st a \<and> writable st (a + 7) then Some (st\<lparr>d_mem := st_u64 a v (d_mem st)\<rparr>) else None)"

definition elf_apply_rela :: "u64 \<Rightarrow> elf64_sym_t list \<Rightarrow> elf64_rela_t \<Rightarrow> dyld \<Rightarrow> dyld option" where
  "elf_apply_rela base symtab rel st =
     (let sym_index = unat (drop_bit 32 (r_info rel));
          rel_type = ucast (r_info rel AND 0xFFFFFFFF);
          rel_addr = base + r_offset rel in
      do {
        sym_value \<leftarrow> (if sym_index \<noteq> 0
                     then if sym_index < length symtab
                          then Some (base + st_value (symtab ! sym_index)) else None
                     else Some 0);
        (case rela_action rel_type of
           Rela_relative \<Rightarrow> put_u64 rel_addr (ld_u64 (d_mem st) rel_addr + base) st
         | Rela_absolute \<Rightarrow> put_u64 rel_addr (sym_value + r_addend rel) st
         | Rela_symbol \<Rightarrow> put_u64 rel_addr sym_value st
         | Rela_none \<Rightarrow> Some st)
      })"

fun elf_rela_loop :: "u64 \<Rightarrow> elf64_sym_t list \<Rightarrow> elf64_rela_t list \<Rightarrow> dyld \<Rightarrow> dyld option" where
  "elf_rela_loop base symtab [] st = Some st"
| "elf_rela_loop base symtab (rel # rela) st =
     do { st' \<leftarrow> elf_apply_rela base symtab rel st; elf_rela_loop base symtab rela st' }"

definition elf_process_rela ::
  "mindyld_handle_t \<Rightarrow> elf64_rela_t list \<Rightarrow> u32 \<Rightarrow> elf64_sym_t list \<Rightarrow> dyld \<Rightarrow> (int \<times> dyld) option" where
  "elf_process_rela handle rela rela_count symtab st =
     (if length rela < unat rela_count then None
      else map_option (Pair MINDYLD_OK)
             (elf_rela_loop (base_address handle) symtab (take (unat rela_count) rela) st))"

section \<open>Loading\<close>

definition elf_load :: "dyld_env \<Rightarrow> string \<Rightarrow> dyld \<Rightarrow> (u64 \<times> dyld) option" where
  "elf_load env path st =
     (case sys_open env path st of
        (None, st1) \<Rightarrow> Some (0, st1)
      | (Some fd, st1) \<Rightarrow>
          (case sys_read_local fd 64 st1 of (b, st2) \<Rightarrow>
             if length b \<noteq> 64 then Some (0, sys_close fd st2)
             else let header = elf64_header_of b in
               if elf_validate_header header \<noteq> MINDYLD_OK then Some (0, sys_close fd st2)
               else do {
                 (base_addr, st3) \<leftarrow> elf_map_segments env fd header st2;
                 if base_addr = 0 then Some (0, sys_close fd st3)
                 else let handle = malloc_pick env 32 st3 in
                   if handle = 0 then Some (0, sys_close fd st3)
                   else Some (handle, sys_close fd (st3\<lparr>d_handles := (d_handles st3)(handle := Some
                     \<lparr>base_address = base_addr, h_size = 0, is_executable = (e_type header = ET_EXEC),
                      h_next = 0\<rparr>)\<rparr>))
               }))"

definition elf_find_symbol :: "mindyld_handle_t \<Rightarrow> u8 list \<Rightarrow> mindyld_symbol_t option" where
  "elf_find_symbol handle name = None"

definition elf_apply_relocations :: "u64 \<Rightarrow> dyld \<Rightarrow> int \<times> dyld" where
  "elf_apply_relocations handle st = (MINDYLD_OK, st)"

end
