(* ===== verification/Dyld_Macho.thy ===== *)
theory Dyld_Macho
  imports Dyld_Elf
begin

text \<open>
  The Mach-O loader of the dynamic linker (\<open>mindyld/macho_loader.c\<close>): header validation, the two
  passes over the load commands, symbol table search and \<open>macho_load\<close>. Reading and protecting a
  segment is the same code as in the ELF loader and is shared with it.
\<close>

section \<open>Data (\<open>mindyld_macho.h\<close>)\<close>

abbreviation (input) DYLD_MH_MAGIC :: u32 where "DYLD_MH_MAGIC \<equiv> 0xFEEDFACE"
abbreviation (input) DYLD_MH_MAGIC_64 :: u32 where "DYLD_MH_MAGIC_64 \<equiv> 0xFEEDFACF"
abbreviation (input) DYLD_MH_EXECUTE :: u32 where "DYLD_MH_EXECUTE \<equiv> 2"
abbreviation (input) DYLD_MH_DYLIB :: u32 where "DYLD_MH_DYLIB \<equiv> 6"
abbreviation (input) DYLD_MH_DYLINKER :: u32 where "DYLD_MH_DYLINKER \<equiv> 7"
abbreviation (input) DYLD_MH_BUNDLE :: u32 where "DYLD_MH_BUNDLE \<equiv> 8"
abbreviation (input) DYLD_LC_SEGMENT_64 :: u32 where "DYLD_LC_SEGMENT_64 \<equiv> 0x19"

record dyld_mach_header =
  mh_magic :: u32
  mh_cputype :: u32
  mh_cpusubtype :: u32
  mh_filetype :: u32
  mh_ncmds :: u32
  mh_sizeofcmds :: u32
  mh_flags :: u32
  mh_reserved :: u32

definition dyld_mach_header_of :: "u8 list \<Rightarrow> dyld_mach_header" where
  "dyld_mach_header_of b = \<lparr>mh_magic = fld32 b 0, mh_cputype = fld32 b 4, mh_cpusubtype = fld32 b 8,
     mh_filetype = fld32 b 12, mh_ncmds = fld32 b 16, mh_sizeofcmds = fld32 b 20, mh_flags = fld32 b 24,
     mh_reserved = fld32 b 28\<rparr>"

record dyld_load_command =
  lc_cmd :: u32
  lc_cmdsize :: u32

record dyld_segment_command =
  sg_vmaddr :: u64
  sg_vmsize :: u64
  sg_fileoff :: u64
  sg_filesize :: u64
  sg_maxprot :: u32
  sg_initprot :: u32
  sg_nsects :: u32
  sg_flags :: u32

text \<open>The command or segment command at an offset of the buffer, when it lies inside it.\<close>

definition load_command_in :: "u8 list \<Rightarrow> nat \<Rightarrow> dyld_load_command option" where
  "load_command_in b off =
     (if off + 8 \<le> length b then Some \<lparr>lc_cmd = fld32 b off, lc_cmdsize = fld32 b (off + 4)\<rparr> else None)"

definition segment_command_in :: "u8 list \<Rightarrow> nat \<Rightarrow> dyld_segment_command option" where
  "segment_command_in b off =
     (if off + 72 \<le> length b
      then Some \<lparr>sg_vmaddr = fld64 b (off + 24), sg_vmsize = fld64 b (off + 32),
        sg_fileoff = fld64 b (off + 40), sg_filesize = fld64 b (off + 48), sg_maxprot = fld32 b (off + 56),
        sg_initprot = fld32 b (off + 60), sg_nsects = fld32 b (off + 64), sg_flags = fld32 b (off + 68)\<rparr>
      else None)"

record nlist_64_t =
  n_strx :: u32
  n_type :: u8
  n_sect :: u8
  n_desc :: u16
  n_value :: u64

section \<open>Validation\<close>

definition macho_validate_header :: "dyld_mach_header \<Rightarrow> int" where
  "macho_validate_header header =
     (if mh_magic header \<noteq> DYLD_MH_MAGIC_64 \<and> mh_magic header \<noteq> DYLD_MH_MAGIC then MINDYLD_ERR_INVALID
      else if mh_filetype header \<noteq> DYLD_MH_DYLIB \<and> mh_filetype header \<noteq> DYLD_MH_EXECUTE \<and>
        mh_filetype header \<noteq> DYLD_MH_DYLINKER \<and> mh_filetype header \<noteq> DYLD_MH_BUNDLE then MINDYLD_ERR_INVALID
      else if mh_sizeofcmds header > 10 * 1024 * 1024 then MINDYLD_ERR_INVALID
      else MINDYLD_OK)"

section \<open>Mapping of segments\<close>

fun macho_extent :: "nat \<Rightarrow> u8 list \<Rightarrow> nat \<Rightarrow> u64 \<Rightarrow> u64 \<Rightarrow> (u64 \<times> u64) option" where
  "macho_extent 0 b off min_addr max_addr = Some (min_addr, max_addr)"
| "macho_extent (Suc n) b off min_addr max_addr =
     do {
       cmd \<leftarrow> load_command_in b off;
       (min_addr, max_addr) \<leftarrow>
         (if lc_cmd cmd = DYLD_LC_SEGMENT_64 then do {
            seg \<leftarrow> segment_command_in b off;
            Some (if sg_vmaddr seg < min_addr then sg_vmaddr seg else min_addr,
                  if sg_vmaddr seg + sg_vmsize seg > max_addr then sg_vmaddr seg + sg_vmsize seg else max_addr)
          } else Some (min_addr, max_addr));
       macho_extent n b (off + unat (lc_cmdsize cmd)) min_addr max_addr
     }"

definition macho_prot :: "u32 \<Rightarrow> u32" where
  "macho_prot initprot =
     (if initprot AND 1 \<noteq> 0 then PROT_READ else 0) OR
     (if initprot AND 2 \<noteq> 0 then PROT_WRITE else 0) OR
     (if initprot AND 4 \<noteq> 0 then PROT_EXEC else 0)"

fun macho_load_segments ::
  "nat \<Rightarrow> u64 \<Rightarrow> u64 \<Rightarrow> u64 \<Rightarrow> nat \<Rightarrow> u8 list \<Rightarrow> nat \<Rightarrow> dyld \<Rightarrow> (u64 \<times> dyld) option" where
  "macho_load_segments fd base min_addr total_size 0 b off st = Some (base, st)"
| "macho_load_segments fd base min_addr total_size (Suc n) b off st =
     do {
       cmd \<leftarrow> load_command_in b off;
       (ok, st') \<leftarrow>
         (if lc_cmd cmd = DYLD_LC_SEGMENT_64 then do {
            seg \<leftarrow> segment_command_in b off;
            place_segment fd (base + (sg_vmaddr seg - min_addr)) (sg_fileoff seg)
              (sg_filesize seg) (sg_vmsize seg) (macho_prot (sg_initprot seg)) st
          } else Some (True, st));
       if ok
       then macho_load_segments fd base min_addr total_size n b (off + unat (lc_cmdsize cmd)) st'
       else Some (0, sys_munmap base total_size st')
     }"

definition macho_map_segments :: "dyld_env \<Rightarrow> nat \<Rightarrow> dyld_mach_header \<Rightarrow> dyld \<Rightarrow> (u64 \<times> dyld) option" where
  "macho_map_segments env fd header st =
     (if malloc_pick env (ucast (mh_sizeofcmds header)) st = 0 then Some (0, st)
      else let header_size = (if mh_magic header = DYLD_MH_MAGIC_64 then 32 else 28) in
        case sys_lseek fd header_size st of (ok, st1) \<Rightarrow>
          if \<not> ok then Some (0, st1)
          else case sys_read_local fd (unat (mh_sizeofcmds header)) st1 of (b, st2) \<Rightarrow>
            if length b \<noteq> unat (mh_sizeofcmds header) then Some (0, st2)
            else do {
              (min_addr, max_addr) \<leftarrow> macho_extent (unat (mh_ncmds header)) b 0 (- 1) 0;
              if min_addr = - 1 then Some (0, st2)
              else
                let total_size = max_addr - min_addr;
                    (base, st3) = sys_mmap env total_size False st2
                in if base = 0 then Some (0, st3)
                   else macho_load_segments fd base min_addr total_size (unat (mh_ncmds header)) b 0 st3
            })"

section \<open>Symbols\<close>

text \<open>A leading underscore of the table's name is skipped when the wanted name has none.\<close>

definition macho_strip :: "u8 list \<Rightarrow> u8 list \<Rightarrow> u8 list" where
  "macho_strip name sname =
     (case sname of c # cs \<Rightarrow> if (name = [] \<or> hd name \<noteq> 0x5F) \<and> c = 0x5F then cs else sname | [] \<Rightarrow> [])"

fun macho_symtab_loop ::
  "dyld_env \<Rightarrow> dyld \<Rightarrow> u64 \<Rightarrow> u8 list \<Rightarrow> nlist_64_t list \<Rightarrow> nat \<Rightarrow> u8 list \<Rightarrow> mindyld_symbol_t option option"
where
  "macho_symtab_loop env st base name symtab 0 strtab = Some None"
| "macho_symtab_loop env st base name [] (Suc n) strtab = None"
| "macho_symtab_loop env st base name (entry # symtab) (Suc n) strtab =
     do {
       sname \<leftarrow> map_option (macho_strip name) (str_at strtab (unat (n_strx entry)));
       if sname = name then
         Some (if malloc_pick env 32 st = 0 then None
               else Some \<lparr>sym_name = sname, sym_address = base + n_value entry, sym_size = 0,
                      sym_binding = uint (drop_bit 8 (n_desc entry) AND 0xF),
                      sym_type = uint (n_type entry AND 0x0E)\<rparr>)
       else macho_symtab_loop env st base name symtab n strtab
     }"

definition macho_find_symbol_in_symtab ::
  "dyld_env \<Rightarrow> dyld \<Rightarrow> mindyld_handle_t \<Rightarrow> u8 list \<Rightarrow> nlist_64_t list \<Rightarrow> u32 \<Rightarrow> u8 list \<Rightarrow>
   mindyld_symbol_t option option" where
  "macho_find_symbol_in_symtab env st handle name symtab symtab_size strtab =
     macho_symtab_loop env st (base_address handle) name symtab (unat (symtab_size div 16)) strtab"

section \<open>Relocations and loading\<close>

text \<open>Every branch of the relocation switch only leaves it, so nothing is written.\<close>

definition macho_process_relocations :: "mindyld_handle_t \<Rightarrow> u32 list \<Rightarrow> u32 \<Rightarrow> dyld \<Rightarrow> (int \<times> dyld) option" where
  "macho_process_relocations handle rel_types reloc_count st =
     (if length rel_types < unat reloc_count then None else Some (MINDYLD_OK, st))"

definition dyld_macho_load :: "dyld_env \<Rightarrow> string \<Rightarrow> dyld \<Rightarrow> (u64 \<times> dyld) option" where
  "dyld_macho_load env path st =
     (case sys_open env path st of
        (None, st1) \<Rightarrow> Some (0, st1)
      | (Some fd, st1) \<Rightarrow>
          (case sys_read_local fd 32 st1 of (b, st2) \<Rightarrow>
             if length b \<noteq> 32 then Some (0, sys_close fd st2)
             else let header = dyld_mach_header_of b in
               if macho_validate_header header \<noteq> MINDYLD_OK then Some (0, sys_close fd st2)
               else do {
                 (base_addr, st3) \<leftarrow> macho_map_segments env fd header st2;
                 if base_addr = 0 then Some (0, sys_close fd st3)
                 else let handle = malloc_pick env 32 st3 in
                   if handle = 0 then Some (0, sys_close fd st3)
                   else Some (handle, sys_close fd (st3\<lparr>d_handles := (d_handles st3)(handle := Some
                     \<lparr>base_address = base_addr, h_size = 0,
                      is_executable = (mh_filetype header = DYLD_MH_EXECUTE), h_next = 0\<rparr>)\<rparr>))
               }))"

definition macho_find_symbol :: "mindyld_handle_t \<Rightarrow> u8 list \<Rightarrow> mindyld_symbol_t option" where
  "macho_find_symbol handle name = None"

definition macho_apply_relocations :: "u64 \<Rightarrow> dyld \<Rightarrow> int \<times> dyld" where
  "macho_apply_relocations handle st = (MINDYLD_OK, st)"

end
