(* ===== verification/Dyld_Core.thy ===== *)
theory Dyld_Core
  imports Dyld_Macho
begin

text \<open>
  The core of the dynamic linker (\<open>mindyld/mindyld_core.c\<close>): format detection, library search, the
  list of loaded objects, loading, unloading and symbol resolution. The platform that the build
  selects is a parameter.
\<close>

datatype dyld_platform = MINDYLD_LINUX | MINDYLD_BSD | MINDYLD_APPLE

definition MINDYLD_ELF :: "dyld_platform \<Rightarrow> bool" where
  "MINDYLD_ELF pf \<longleftrightarrow> pf = MINDYLD_LINUX \<or> pf = MINDYLD_BSD"

definition MINDYLD_MACHO :: "dyld_platform \<Rightarrow> bool" where
  "MINDYLD_MACHO pf \<longleftrightarrow> pf = MINDYLD_APPLE"

section \<open>Format detection\<close>

definition magic_format :: "dyld_platform \<Rightarrow> u8 list \<Rightarrow> int" where
  "magic_format pf magic =
     (if magic = [0x7F, 0x45, 0x4C, 0x46] then if MINDYLD_ELF pf then 1 else MINDYLD_ERR_INVALID
      else if magic = [0xFE, 0xED, 0xFA, 0xCF] then if MINDYLD_MACHO pf then 2 else MINDYLD_ERR_INVALID
      else if magic = [0xCF, 0xFA, 0xED, 0xFE] then if MINDYLD_MACHO pf then 2 else MINDYLD_ERR_INVALID
      else MINDYLD_ERR_INVALID)"

definition detect_binary_format :: "dyld_platform \<Rightarrow> dyld_env \<Rightarrow> string \<Rightarrow> dyld \<Rightarrow> int \<times> dyld" where
  "detect_binary_format pf env path st =
     (case sys_open env path st of
        (None, st1) \<Rightarrow> (MINDYLD_ERR_OPEN, st1)
      | (Some fd, st1) \<Rightarrow>
          (case sys_read_local fd 4 st1 of (magic, st2) \<Rightarrow>
             if length magic \<noteq> 4 then (MINDYLD_ERR_INVALID, sys_close fd st2)
             else (magic_format pf magic, sys_close fd st2)))"

section \<open>Library search\<close>

fun standard_search_paths :: "dyld_platform \<Rightarrow> string list" where
  "standard_search_paths MINDYLD_LINUX =
     [''/lib'', ''/lib64'', ''/usr/lib'', ''/usr/lib64'', ''/usr/local/lib'', ''/usr/local/lib64'',
      ''/opt/lib'', ''/opt/lib64'']"
| "standard_search_paths MINDYLD_BSD = [''/lib'', ''/usr/lib'', ''/usr/local/lib'', ''/opt/lib'']"
| "standard_search_paths MINDYLD_APPLE = [''/usr/local/lib'', ''/usr/lib'', ''/opt/local/lib'']"

definition lib_suffix :: "dyld_platform \<Rightarrow> string" where
  "lib_suffix pf = (if MINDYLD_ELF pf then ''.so'' else []) @ (if MINDYLD_MACHO pf then ''.dylib'' else [])"

text \<open>The path is built in a buffer of 4096 bytes; a longer path is a buffer overflow.\<close>

fun search_paths :: "dyld_platform \<Rightarrow> string \<Rightarrow> string list \<Rightarrow> dyld \<Rightarrow> string option option" where
  "search_paths pf libname [] st = Some None"
| "search_paths pf libname (search_path # rest) st =
     (let full = search_path @ ''/'' @ libname @ lib_suffix pf; plain = search_path @ ''/'' @ libname in
      if length full \<ge> 4096 then None
      else if sys_access full st then Some (Some full)
      else if sys_access plain st then Some (Some plain)
      else search_paths pf libname rest st)"

definition find_library :: "dyld_platform \<Rightarrow> string \<Rightarrow> dyld \<Rightarrow> string option option" where
  "find_library pf libname st =
     (if sys_access libname st then if length libname \<ge> 4096 then None else Some (Some libname)
      else search_paths pf libname (standard_search_paths pf) st)"

section \<open>The list of loaded objects\<close>

partial_function (option) list_end :: "(u64 \<Rightarrow> mindyld_handle_t option) \<Rightarrow> u64 \<Rightarrow> u64 option" where
  "list_end h current =
     (case h current of
        None \<Rightarrow> None
      | Some obj \<Rightarrow> if h_next obj \<noteq> 0 then list_end h (h_next obj) else Some current)"

definition set_next :: "u64 \<Rightarrow> u64 \<Rightarrow> dyld \<Rightarrow> dyld option" where
  "set_next p nxt st =
     map_option (\<lambda>obj. st\<lparr>d_handles := (d_handles st)(p := Some (obj\<lparr>h_next := nxt\<rparr>))\<rparr>) (d_handles st p)"

definition register_loaded_object :: "u64 \<Rightarrow> dyld \<Rightarrow> dyld option" where
  "register_loaded_object handle st =
     (if handle = 0 then Some st
      else if loaded_objects st = 0 then Some (st\<lparr>loaded_objects := handle\<rparr>)
      else do {
        current \<leftarrow> list_end (d_handles st) (loaded_objects st);
        set_next current handle st
      })"

section \<open>Loading and unloading\<close>

definition mindyld_load :: "dyld_platform \<Rightarrow> dyld_env \<Rightarrow> string option \<Rightarrow> dyld \<Rightarrow> (u64 \<times> dyld) option" where
  "mindyld_load pf env path st =
     (case path of
        None \<Rightarrow> Some (0, st)
      | Some path \<Rightarrow>
          (case detect_binary_format pf env path st of (format, st1) \<Rightarrow>
             do {
               (handle, st2) \<leftarrow>
                 (if MINDYLD_ELF pf \<and> format = 1 then do {
                    (handle, st2) \<leftarrow> elf_load env path st1;
                    if handle \<noteq> 0 then do {
                      st3 \<leftarrow> register_loaded_object handle (snd (elf_apply_relocations handle st2));
                      Some (handle, st3)
                    } else Some (handle, st2)
                  } else Some (0, st1));
               (if MINDYLD_MACHO pf \<and> format = 2 then do {
                  (handle, st3) \<leftarrow> dyld_macho_load env path st2;
                  if handle \<noteq> 0 then do {
                    st4 \<leftarrow> register_loaded_object handle (snd (macho_apply_relocations handle st3));
                    Some (handle, st4)
                  } else Some (handle, st3)
                } else Some (handle, st2))
             }))"

partial_function (option) unlink_loop :: "u64 \<Rightarrow> u64 \<Rightarrow> u64 \<Rightarrow> dyld \<Rightarrow> dyld option" where
  "unlink_loop handle current prev st =
     (if current = 0 then Some st
      else case d_handles st current of
        None \<Rightarrow> None
      | Some obj \<Rightarrow>
          if current = handle then
            if prev \<noteq> 0 then set_next prev (h_next obj) st
            else Some (st\<lparr>loaded_objects := h_next obj\<rparr>)
          else unlink_loop handle (h_next obj) current st)"

definition mindyld_unload :: "u64 \<Rightarrow> dyld \<Rightarrow> (int \<times> dyld) option" where
  "mindyld_unload handle st =
     (if handle = 0 then Some (MINDYLD_ERR_INVALID, st)
      else do {
        obj \<leftarrow> d_handles st handle;
        let st1 = (if base_address obj \<noteq> 0 \<and> h_size obj > 0
                   then sys_munmap (base_address obj) (h_size obj) st else st);
        st2 \<leftarrow> unlink_loop handle (loaded_objects st1) 0 st1;
        Some (MINDYLD_OK, st2\<lparr>d_handles := (d_handles st2)(handle := None)\<rparr>)
      })"

section \<open>Symbol resolution\<close>

partial_function (option) resolve_loop ::
  "dyld_platform \<Rightarrow> u8 list \<Rightarrow> (u64 \<Rightarrow> mindyld_handle_t option) \<Rightarrow> u64 \<Rightarrow> u64 option" where
  "resolve_loop pf name h handle =
     (if handle = 0 then Some 0
      else case h handle of
        None \<Rightarrow> None
      | Some obj \<Rightarrow>
          (case (if MINDYLD_MACHO pf then macho_find_symbol obj name
                 else if MINDYLD_ELF pf then elf_find_symbol obj name else None) of
             Some symbol \<Rightarrow> Some (sym_address symbol)
           | None \<Rightarrow> resolve_loop pf name h (h_next obj)))"

definition mindyld_resolve_symbol :: "dyld_platform \<Rightarrow> u8 list option \<Rightarrow> dyld \<Rightarrow> u64 option" where
  "mindyld_resolve_symbol pf name st =
     (case name of None \<Rightarrow> Some 0 | Some name \<Rightarrow> resolve_loop pf name (d_handles st) (loaded_objects st))"

section \<open>Initialisation\<close>

text \<open>Without \<open>MINDYLD_DEBUG\<close> the debug print does nothing.\<close>

definition mindyld_init :: "dyld \<Rightarrow> dyld" where
  "mindyld_init st = st\<lparr>loaded_objects := 0, dependencies := 0, num_dependencies := 0\<rparr>"

definition mindyld_start :: "dyld \<Rightarrow> dyld" where
  "mindyld_start st = mindyld_init st"

end
