(* ===== verification/Dyld_Registry.thy ===== *)
theory Dyld_Registry
  imports Dyld_Core
begin

text \<open>
  The registry of loaded objects: the linked list of handles refines a list of distinct handles,
  to which a load appends and from which an unload removes; loading leaks no file descriptor.
\<close>

section \<open>What loading leaves alone\<close>

text \<open>Everything that the loaders keep of a state while they work on descriptor \<open>fd\<close>.\<close>

definition frame where
  "frame fd st = ((d_fds st)(fd := None), d_handles st, loaded_objects st, d_files st)"

lemma sys_lseek_frame: "sys_lseek fd off st = (ok, st') \<Longrightarrow> frame fd st' = frame fd st"
  by (auto simp: frame_def sys_lseek_def split: option.splits if_splits)

lemma sys_read_local_frame: "sys_read_local fd n st = (b, st') \<Longrightarrow> frame fd st' = frame fd st"
  by (auto simp: frame_def sys_read_local_def Let_def split: option.splits)

lemma copy_user_mem: "copy_user bs a st = (k, st') \<Longrightarrow> \<exists>m. st' = st\<lparr>d_mem := m\<rparr>"
proof (induction bs a st arbitrary: k rule: copy_user.induct)
  case (1 a st)
  then show ?case by (auto intro: exI [of _ "d_mem st"])
next
  case (2 b bs a st)
  show ?case
  proof (cases "writable st a")
    case True
    with 2 show ?thesis by (fastforce split: prod.splits)
  next
    case False
    with 2 show ?thesis by (auto intro: exI [of _ "d_mem st"])
  qed
qed

lemma user_memset_mem: "user_memset n a c st = Some st' \<Longrightarrow> \<exists>m. st' = st\<lparr>d_mem := m\<rparr>"
proof (induction n a c st rule: user_memset.induct)
  case (1 a c st)
  then show ?case by (auto simp: user_memset.simps intro: exI [of _ "d_mem st"])
next
  case (2 n a c st)
  then show ?case by (fastforce simp: user_memset.simps split: if_splits)
qed

lemma sys_read_frame: "sys_read fd a n st = (k, st') \<Longrightarrow> frame fd st' = frame fd st"
  by (auto simp: frame_def sys_read_def Let_def split: option.splits prod.splits if_splits
      dest!: copy_user_mem)

lemma user_memset_frame: "user_memset n a c st = Some st' \<Longrightarrow> frame fd st' = frame fd st"
  by (auto simp: frame_def dest!: user_memset_mem)

lemma sys_mmap_frame: "sys_mmap env len fixed st = (a, st') \<Longrightarrow> frame fd st' = frame fd st"
  by (auto simp: frame_def sys_mmap_def add_mapping_def split: option.splits if_splits)

lemma sys_munmap_frame [simp]: "frame fd (sys_munmap a len st) = frame fd st"
  by (simp add: frame_def sys_munmap_def)

lemma sys_mprotect_frame: "sys_mprotect a len prot st = (ok, st') \<Longrightarrow> frame fd st' = frame fd st"
  by (auto simp: frame_def sys_mprotect_def split: if_splits)

lemma place_segment_frame:
  assumes "place_segment fd a off fsz msz prot st = Some (ok, st')"
  shows "frame fd st' = frame fd st"
  using assms unfolding place_segment_def
  by (auto split: if_splits bind_splits prod.splits
      dest!: sys_lseek_frame sys_read_frame user_memset_frame [where fd = fd] sys_mprotect_frame [where fd = fd])

lemma elf_load_segments_frame:
  "elf_load_segments fd base mn sz phs st = Some (b, st') \<Longrightarrow> frame fd st' = frame fd st"
proof (induction phs arbitrary: st)
  case (Cons ph phs)
  then show ?case
    by (auto split: if_splits bind_splits dest!: place_segment_frame)
qed simp

lemma macho_load_segments_frame:
  "macho_load_segments fd base mn sz n b off st = Some (r, st') \<Longrightarrow> frame fd st' = frame fd st"
proof (induction n arbitrary: off st)
  case (Suc n)
  then show ?case
    by (auto split: if_splits bind_splits dest!: place_segment_frame)
qed simp

lemma elf_map_segments_frame:
  assumes "elf_map_segments env fd header st = Some (b, st')"
  shows "frame fd st' = frame fd st"
  using assms unfolding elf_map_segments_def Let_def
  by (auto split: if_splits bind_splits prod.splits
      dest!: sys_lseek_frame sys_read_local_frame sys_mmap_frame [where fd = fd] elf_load_segments_frame)

lemma macho_map_segments_frame:
  assumes "macho_map_segments env fd header st = Some (b, st')"
  shows "frame fd st' = frame fd st"
  using assms unfolding macho_map_segments_def Let_def
  by (auto split: if_splits bind_splits prod.splits
      dest!: sys_lseek_frame sys_read_local_frame sys_mmap_frame [where fd = fd] macho_load_segments_frame)

section \<open>What the loaders return\<close>

text \<open>A new descriptor and a new heap block were not in use before.\<close>

definition fresh_env :: "dyld_env \<Rightarrow> bool" where
  "fresh_env env \<longleftrightarrow>
     (\<forall>st fd. open_fd env st = Some fd \<longrightarrow> d_fds st fd = None) \<and>
     (\<forall>n st. malloc_pick env n st = 0 \<or> d_handles st (malloc_pick env n st) = None)"

text \<open>
  The outcome of a loader: the descriptors are as before, and either NULL was returned or a
  fresh handle that ends a list.
\<close>

definition load_outcome :: "dyld \<Rightarrow> u64 \<Rightarrow> dyld \<Rightarrow> bool" where
  "load_outcome st h st' \<longleftrightarrow>
     d_fds st' = d_fds st \<and> loaded_objects st' = loaded_objects st \<and>
     (if h = 0 then d_handles st' = d_handles st
      else d_handles st h = None \<and>
        (\<exists>obj. h_next obj = 0 \<and> h_size obj = 0 \<and> d_handles st' = (d_handles st)(h := Some obj)))"

lemma sys_open_fresh:
  assumes "fresh_env env" "sys_open env path st = (Some fd, st1)"
  shows "d_fds st fd = None" "frame fd st1 = frame fd st"
  using assms by (auto simp: fresh_env_def sys_open_def frame_def split: option.splits)

lemma sys_open_fail: "sys_open env path st = (None, st1) \<Longrightarrow> st1 = st"
  by (auto simp: sys_open_def split: option.splits)

lemma load_outcome_close:
  assumes "d_fds st fd = None" "frame fd st' = frame fd st"
  shows "load_outcome st 0 (sys_close fd st')"
  using assms by (simp add: load_outcome_def sys_close_def frame_def fun_upd_idem)

lemma load_outcome_handle:
  assumes "d_fds st fd = None" "frame fd st' = frame fd st" "h \<noteq> 0" "d_handles st' h = None"
    and "h_next obj = 0" "h_size obj = 0"
  shows "load_outcome st h (sys_close fd (st'\<lparr>d_handles := (d_handles st')(h := Some obj)\<rparr>))"
  using assms by (auto simp: load_outcome_def sys_close_def frame_def fun_upd_idem)

lemma elf_load_outcome:
  assumes "fresh_env env" "elf_load env path st = Some (h, st')"
  shows "load_outcome st h st'"
proof (cases "sys_open env path st")
  case (Pair r st1)
  show ?thesis
  proof (cases r)
    case None
    then show ?thesis using assms(2) Pair sys_open_fail [of env path st st1]
      by (auto simp: elf_load_def load_outcome_def)
  next
    case (Some fd)
    note o = sys_open_fresh [OF assms(1) Pair [unfolded Some]]
    have fresh: "malloc_pick env n s = 0 \<or> d_handles s (malloc_pick env n s) = None" for n s
      using assms(1) by (simp add: fresh_env_def)
    show ?thesis using assms(2) Pair Some o fresh [of 32]
      by (auto simp: elf_load_def Let_def split: if_splits bind_splits prod.splits
          dest!: sys_read_local_frame elf_map_segments_frame
          intro!: load_outcome_close load_outcome_handle)
  qed
qed

lemma dyld_macho_load_outcome:
  assumes "fresh_env env" "dyld_macho_load env path st = Some (h, st')"
  shows "load_outcome st h st'"
proof (cases "sys_open env path st")
  case (Pair r st1)
  show ?thesis
  proof (cases r)
    case None
    then show ?thesis using assms(2) Pair sys_open_fail [of env path st st1]
      by (auto simp: dyld_macho_load_def load_outcome_def)
  next
    case (Some fd)
    note o = sys_open_fresh [OF assms(1) Pair [unfolded Some]]
    have fresh: "malloc_pick env n s = 0 \<or> d_handles s (malloc_pick env n s) = None" for n s
      using assms(1) by (simp add: fresh_env_def)
    show ?thesis using assms(2) Pair Some o fresh [of 32]
      by (auto simp: dyld_macho_load_def Let_def split: if_splits bind_splits prod.splits
          dest!: sys_read_local_frame macho_map_segments_frame
          intro!: load_outcome_close load_outcome_handle)
  qed
qed

lemma detect_outcome:
  assumes "fresh_env env" "detect_binary_format pf env path st = (f, st')"
  shows "load_outcome st 0 st'"
proof (cases "sys_open env path st")
  case (Pair r st1)
  show ?thesis
  proof (cases r)
    case None
    then show ?thesis using assms(2) Pair sys_open_fail [of env path st st1]
      by (auto simp: detect_binary_format_def load_outcome_def)
  next
    case (Some fd)
    note o = sys_open_fresh [OF assms(1) Pair [unfolded Some]]
    show ?thesis using assms(2) Pair Some o
      by (auto simp: detect_binary_format_def split: if_splits prod.splits
          dest!: sys_read_local_frame intro!: load_outcome_close)
  qed
qed

section \<open>The list of handles\<close>

fun objs :: "(u64 \<Rightarrow> mindyld_handle_t option) \<Rightarrow> u64 \<Rightarrow> u64 list \<Rightarrow> bool" where
  "objs h p [] \<longleftrightarrow> p = 0"
| "objs h p (x # xs) \<longleftrightarrow> p = x \<and> x \<noteq> 0 \<and> (case h x of None \<Rightarrow> False | Some obj \<Rightarrow> objs h (h_next obj) xs)"

text \<open>The list of the state is \<open>xs\<close>; \<open>tracked\<close>: and its handles are all the handles there are.\<close>

definition registry :: "dyld \<Rightarrow> u64 list \<Rightarrow> bool" where
  "registry st xs \<longleftrightarrow> objs (d_handles st) (loaded_objects st) xs \<and> distinct xs"

definition tracked :: "dyld \<Rightarrow> u64 list \<Rightarrow> bool" where
  "tracked st xs \<longleftrightarrow> registry st xs \<and> dom (d_handles st) = set xs"

lemma objs_cong:
  "objs h p xs \<Longrightarrow> (\<And>x. x \<in> set xs \<Longrightarrow> h' x = h x) \<Longrightarrow> objs h' p xs"
  by (induction xs arbitrary: p) (auto split: option.splits)

lemma objs_null: "objs h p xs \<Longrightarrow> p = 0 \<longleftrightarrow> xs = []"
  by (cases xs) auto

lemma objs_alloc: "objs h p xs \<Longrightarrow> x \<in> set xs \<Longrightarrow> x \<noteq> 0 \<and> h x \<noteq> None"
  by (induction xs arbitrary: p) (auto split: option.splits)

lemma list_end_objs:
  "objs h p xs \<Longrightarrow> xs \<noteq> [] \<Longrightarrow> list_end h p = Some (last xs)"
proof (induction xs arbitrary: p)
  case (Cons x xs)
  then show ?case by (subst list_end.simps) (auto split: option.splits dest: objs_null)
qed simp

lemma objs_append:
  assumes "objs h p xs" "xs \<noteq> []" "distinct xs" "y \<notin> set xs" "y \<noteq> 0" "h y = Some obj" "h_next obj = 0"
    and "h (last xs) = Some l"
  shows "objs (h(last xs := Some (l\<lparr>h_next := y\<rparr>))) p (xs @ [y])"
  using assms
proof (induction xs arbitrary: p)
  case (Cons x xs)
  show ?case
  proof (cases "xs = []")
    case True
    then show ?thesis using Cons.prems by auto
  next
    case False
    then have "last xs \<noteq> x" using Cons.prems(3) by auto
    then show ?thesis using Cons False by (auto split: option.splits)
  qed
qed simp

lemma register_registry:
  assumes "registry st xs" "y \<notin> set xs" "y \<noteq> 0" "d_handles st y = Some obj" "h_next obj = 0"
  shows "\<exists>st'. register_loaded_object y st = Some st' \<and> registry st' (xs @ [y]) \<and> d_fds st' = d_fds st \<and>
    dom (d_handles st') = dom (d_handles st)"
proof (cases "xs = []")
  case True
  then show ?thesis using assms
    by (auto simp: registry_def register_loaded_object_def)
next
  case False
  have o: "objs (d_handles st) (loaded_objects st) xs" "distinct xs" using assms by (auto simp: registry_def)
  obtain l where l: "d_handles st (last xs) = Some l"
    using objs_alloc [OF o(1), of "last xs"] False by auto
  then show ?thesis
    using list_end_objs [OF o(1) False] objs_append [OF o(1) False o(2) assms(2-5) l] objs_null [OF o(1)] False assms o
    by (auto simp: registry_def register_loaded_object_def set_next_def)
qed

lemma unlink_loop_objs:
  assumes "objs (d_handles st) current (ys @ x # zs)" "x \<notin> set ys" "d_handles st x = Some obj"
  shows "unlink_loop x current prev st =
    (let p = (if ys = [] then prev else last ys) in
     if p \<noteq> 0 then set_next p (h_next obj) st else Some (st\<lparr>loaded_objects := h_next obj\<rparr>))"
  using assms(1,2)
proof (induction ys arbitrary: current prev)
  case Nil
  then show ?case using assms(3) by (subst unlink_loop.simps) (auto simp: Let_def)
next
  case (Cons y ys)
  then obtain ob where "d_handles st y = Some ob" "objs (d_handles st) (h_next ob) (ys @ x # zs)" "current = y"
    by (auto split: option.splits)
  then show ?case using Cons.prems Cons.IH [of "h_next ob" y] by (subst unlink_loop.simps) (auto simp: Let_def)
qed

lemma unlink_loop_missing:
  "objs (d_handles st) current xs \<Longrightarrow> x \<notin> set xs \<Longrightarrow> unlink_loop x current prev st = Some st"
proof (induction xs arbitrary: current prev)
  case Nil
  then show ?case by (subst unlink_loop.simps) simp
next
  case (Cons y ys)
  then show ?case by (subst unlink_loop.simps) (auto split: option.splits)
qed

lemma objs_remove:
  assumes "objs h p (ys @ x # zs)" "distinct (ys @ x # zs)" "ys \<noteq> []" "h x = Some obj" "h (last ys) = Some l"
  shows "objs (h(last ys := Some (l\<lparr>h_next := h_next obj\<rparr>))) p (ys @ zs)"
  using assms
proof (induction ys arbitrary: p)
  case (Cons y ys)
  show ?case
  proof (cases "ys = []")
    case True
    have "objs h (h_next obj) zs" using Cons.prems True by (auto split: option.splits)
    then have "objs (h(y := Some (l\<lparr>h_next := h_next obj\<rparr>))) (h_next obj) zs"
      by (rule objs_cong) (use Cons.prems in auto)
    then show ?thesis using Cons.prems True by (simp del: fun_upd_apply add: fun_upd_same split: option.splits)
  next
    case False
    then have "last ys \<noteq> y" using Cons.prems(2) by (auto dest: last_in_set)
    then show ?thesis using Cons False by (auto split: option.splits)
  qed
qed simp

lemma unload_registry:
  assumes "registry st xs" "x \<in> set xs"
  shows "\<exists>st'. mindyld_unload x st = Some (MINDYLD_OK, st') \<and> registry st' (remove1 x xs) \<and>
    dom (d_handles st') = dom (d_handles st) - {x} \<and> d_fds st' = d_fds st"
proof -
  have o: "objs (d_handles st) (loaded_objects st) xs" "distinct xs" using assms by (auto simp: registry_def)
  obtain ys zs where xs: "xs = ys @ x # zs" "x \<notin> set ys" using assms(2) by (meson split_list_first)
  obtain obj where obj: "d_handles st x = Some obj" "x \<noteq> 0" using objs_alloc [OF o(1) assms(2)] by auto
  define st1 where "st1 = (if base_address obj \<noteq> 0 \<and> h_size obj > 0
    then sys_munmap (base_address obj) (h_size obj) st else st)"
  have st1: "d_handles st1 = d_handles st" "loaded_objects st1 = loaded_objects st" "d_fds st1 = d_fds st"
    by (auto simp: st1_def sys_munmap_def)
  have rem: "remove1 x xs = ys @ zs" using xs by (simp add: remove1_append)
  have "\<exists>st2. unlink_loop x (loaded_objects st1) 0 st1 = Some st2 \<and> d_fds st2 = d_fds st \<and> dom (d_handles st2) = dom (d_handles st) \<and>
      objs (d_handles st2) (loaded_objects st2) (ys @ zs)"
  proof (cases "ys = []")
    case True
    then show ?thesis using o(1) xs obj st1 unlink_loop_objs [of st1 "loaded_objects st1" ys x zs obj 0]
      by (auto split: option.splits)
  next
    case False
    then obtain l where l: "d_handles st (last ys) = Some l" "last ys \<noteq> 0"
      using objs_alloc [OF o(1), of "last ys"] xs by auto
    show ?thesis
      using unlink_loop_objs [of st1 "loaded_objects st1" ys x zs obj 0] objs_remove [of "d_handles st" "loaded_objects st" ys x zs obj l]
        False l o xs obj st1
      by (auto simp: set_next_def Let_def)
  qed
  then obtain st2 where st2: "unlink_loop x (loaded_objects st1) 0 st1 = Some st2" "d_fds st2 = d_fds st"
    "dom (d_handles st2) = dom (d_handles st)" "objs (d_handles st2) (loaded_objects st2) (ys @ zs)" by blast
  have "objs ((d_handles st2)(x := None)) (loaded_objects st2) (ys @ zs)"
    by (rule objs_cong [OF st2(4)]) (use o(2) xs in auto)
  moreover have "distinct (ys @ zs)" using o(2) xs by simp
  ultimately show ?thesis unfolding rem using st2 obj
    by (simp add: mindyld_unload_def registry_def flip: st1_def)
qed

lemma load_registry:
  assumes "fresh_env env" "registry st xs" "mindyld_load pf env path st = Some (h, st')"
  shows "d_fds st' = d_fds st \<and> (if h = 0 then registry st' xs \<and> d_handles st' = d_handles st
    else h \<notin> set xs \<and> registry st' (xs @ [h]) \<and> dom (d_handles st') = insert h (dom (d_handles st)))"
proof (cases path)
  case None
  then show ?thesis using assms by (simp add: mindyld_load_def)
next
  case (Some p)
  obtain f st1 where d: "detect_binary_format pf env p st = (f, st1)" by fastforce
  have reg: "d_fds s = d_fds st \<and> registry s xs \<and> d_handles s = d_handles st" if "load_outcome st1 0 s" for s
    using that detect_outcome [OF assms(1) d] assms(2) by (auto simp: load_outcome_def registry_def)
  have new: "d_fds s' = d_fds st \<and> h' \<notin> set xs \<and> registry s' (xs @ [h']) \<and> dom (d_handles s') = insert h' (dom (d_handles st))"
    if out: "load_outcome st1 h' s" and h: "h' \<noteq> 0" and r: "register_loaded_object h' s = Some s'" for h' s s'
  proof -
    from out h obtain obj where s: "d_handles s = (d_handles st1)(h' := Some obj)" "h_next obj = 0"
      "d_handles st1 h' = None" "loaded_objects s = loaded_objects st1" "d_fds s = d_fds st1"
      by (auto simp: load_outcome_def)
    have st1: "registry st1 xs" "d_fds st1 = d_fds st" "d_handles st1 = d_handles st" using reg [of st1] by (auto simp: load_outcome_def)
    then have no: "h' \<notin> set xs" using objs_alloc [of "d_handles st1" _ xs h'] s(3) by (auto simp: registry_def)
    then have "registry s xs" using st1 s by (auto simp: registry_def intro: objs_cong)
    then show ?thesis using register_registry [of s xs h' obj] no h s r st1 by auto
  qed
  have fin: ?thesis if "load_outcome st1 h' s"
    "(if h' \<noteq> 0 then do { s' \<leftarrow> register_loaded_object h' s; Some (h', s') } else Some (h', s)) = Some (h, st')" for h' s
    using that new [of h' s] reg [of s] by (auto split: if_splits bind_splits)
  consider (elf) "MINDYLD_ELF pf" "f = 1" | (macho) "MINDYLD_MACHO pf" "f = 2"
    | (other) "\<not> (MINDYLD_ELF pf \<and> f = 1)" "\<not> (MINDYLD_MACHO pf \<and> f = 2)" by auto
  then show ?thesis
  proof cases
    case elf
    then obtain h' s where l: "elf_load env p st1 = Some (h', s)"
      using assms(3) Some d by (cases "elf_load env p st1") (auto simp: mindyld_load_def)
    from elf l show ?thesis using assms(3) Some d
      by (intro fin [OF elf_load_outcome [OF assms(1) l]])
        (simp add: mindyld_load_def elf_apply_relocations_def split: if_splits)
  next
    case macho
    then obtain h' s where l: "dyld_macho_load env p st1 = Some (h', s)"
      using assms(3) Some d by (cases "dyld_macho_load env p st1") (auto simp: mindyld_load_def)
    from macho l show ?thesis using assms(3) Some d
      by (intro fin [OF dyld_macho_load_outcome [OF assms(1) l]])
        (simp add: mindyld_load_def macho_apply_relocations_def split: if_splits)
  next
    case other
    then show ?thesis using assms(3) Some d reg [of st1]
      by (auto simp: mindyld_load_def load_outcome_def)
  qed
qed

lemma resolve_null: "objs h p xs \<Longrightarrow> resolve_loop pf name h p = Some 0"
proof (induction xs arbitrary: p)
  case Nil
  then show ?case by (subst resolve_loop.simps) simp
next
  case (Cons x xs)
  then show ?case
    by (subst resolve_loop.simps) (auto simp: elf_find_symbol_def macho_find_symbol_def split: option.splits)
qed

end
