(* ===== verification/Dyld_Image.thy ===== *)
theory Dyld_Image
  imports Dyld_Core
begin

text \<open>
  What the segment loop of the dynamic linker leaves in memory: pages and addresses, the copying
  primitives, one segment, and all segments of an ELF file.
\<close>

section \<open>Pages\<close>

lemma page_of_unat: "unat (page_of x) = unat x div 4096"
  by (simp add: page_of_def drop_bit_eq_div unat_div)

lemma page_aligned_iff: "page_aligned a \<longleftrightarrow> unat a mod 4096 = 0"
proof -
  have "a AND 0xFFF = take_bit 12 a" by (simp add: take_bit_eq_mask mask_eq_exp_minus_1)
  moreover have "unat (take_bit 12 a) = unat a mod 4096" by (simp add: take_bit_eq_mod unat_mod)
  ultimately show ?thesis by (metis page_aligned_def unat_eq_zero)
qed

lemma unat_add_u64:
  assumes "unat a + k < 2 ^ 64"
  shows "unat (a + of_nat k :: u64) = unat a + k"
  using assms by (simp add: unat_word_ariths unat_of_nat)

lemma pages_iff:
  assumes "page_aligned a" "unat a + unat len \<le> 2 ^ 64"
  shows "p \<in> set (pages a len) \<longleftrightarrow>
    unat a div 4096 \<le> unat p \<and> unat p < (unat a + unat len + 4095) div 4096"
proof -
  obtain k where k: "unat a = 4096 * k" using assms(1) by (auto simp: page_aligned_iff mod_eq_0_iff_dvd)
  then have pa: "unat (page_of a) = k" by (simp add: page_of_unat)
  let ?n = "(unat len + 4095) div 4096"
  have n: "(unat a + unat len + 4095) div 4096 = k + ?n" using k by simp
  have "?n * 4096 \<le> unat len + 4095" by (rule div_times_less_eq_dividend)
  then have "k + ?n < 2 ^ 64" using assms(2) k by simp
  then have u: "unat (page_of a + of_nat i) = k + i" if "i < ?n" for i
    using that unat_add_u64 [of "page_of a" i] pa by simp
  show ?thesis
  proof
    assume "p \<in> set (pages a len)"
    then show "unat a div 4096 \<le> unat p \<and> unat p < (unat a + unat len + 4095) div 4096"
      unfolding n using u k by (auto simp: pages_def)
  next
    assume "unat a div 4096 \<le> unat p \<and> unat p < (unat a + unat len + 4095) div 4096"
    then have i: "unat p - k < ?n" "k \<le> unat p" unfolding n using k by auto
    then have "p = page_of a + of_nat (unat p - k)" using u [OF i(1)] by (simp add: word_unat_eq_iff)
    then show "p \<in> set (pages a len)" using i(1) by (auto simp: pages_def)
  qed
qed

lemma offset_unat:
  assumes "unat (x - a) < n" "unat a + n \<le> 2 ^ 64"
  shows "unat (x :: u64) = unat a + unat (x - a)"
  using unat_add_u64 [of a "unat (x - a)"] assms by simp

lemma in_pages:
  assumes "page_aligned a" "unat a + unat len \<le> 2 ^ 64" "unat (x - a) < unat len"
  shows "page_of x \<in> set (pages a len)"
  using offset_unat [OF assms(3,2)] assms by (auto simp: pages_iff page_of_unat)

lemma pages_sub:
  assumes "page_aligned a" "unat a + unat len \<le> 2 ^ 64" "page_aligned b"
    and "unat a \<le> unat b" "unat b + unat l \<le> unat a + unat len"
  shows "set (pages b l) \<subseteq> set (pages a len)"
proof
  fix p assume "p \<in> set (pages b l)"
  then have "unat b div 4096 \<le> unat p" "unat p < (unat b + unat l + 4095) div 4096"
    using pages_iff [of b l] assms by auto
  moreover have "unat a div 4096 \<le> unat b div 4096" using assms(4) by (rule div_le_mono)
  moreover have "(unat b + unat l + 4095) div 4096 \<le> (unat a + unat len + 4095) div 4096"
    by (rule div_le_mono) (use assms(5) in simp)
  ultimately show "p \<in> set (pages a len)" using pages_iff [OF assms(1,2)] by simp
qed

section \<open>Copying\<close>

lemma offset_next: "x \<noteq> a \<Longrightarrow> unat (x - a) = Suc (unat (x - (a + 1 :: u64)))"
  using unat_minus_one [of "x - a"] unat_gt_0 [of "x - a"] by (simp add: diff_diff_add)

lemma offset_wrap: "unat (a - (a + 1 :: u64)) = 2 ^ 64 - 1"
proof -
  have "a - (a + 1) = (- 1 :: u64)" by simp
  then show ?thesis by (simp add: unsigned_minus_1_eq_mask mask_eq_exp_minus_1)
qed

definition overlay :: "u64 \<Rightarrow> u8 list \<Rightarrow> (u64 \<Rightarrow> u8) \<Rightarrow> u64 \<Rightarrow> u8" where
  "overlay a bs m = (\<lambda>x. if unat (x - a) < length bs then bs ! unat (x - a) else m x)"

lemma overlay_Nil [simp]: "overlay a [] m = m"
  by (simp add: overlay_def)

lemma overlay_Cons:
  assumes "Suc (length bs) \<le> 2 ^ 64"
  shows "overlay (a + 1) bs (m(a := b)) = overlay a (b # bs) m"
proof
  fix x
  show "overlay (a + 1) bs (m(a := b)) x = overlay a (b # bs) m x"
    using assms offset_next [of x a] offset_wrap [of a] by (cases "x = a") (auto simp: overlay_def)
qed

lemma copy_user_overlay:
  assumes "length bs \<le> 2 ^ 64" "\<And>i. i < length bs \<Longrightarrow> writable st (a + of_nat i)"
  shows "copy_user bs a st = (length bs, st\<lparr>d_mem := overlay a bs (d_mem st)\<rparr>)"
  using assms
proof (induction bs arbitrary: a st)
  case (Cons b bs)
  have "writable st a" using Cons.prems(2) [of 0] by simp
  moreover have "copy_user bs (a + 1) (st\<lparr>d_mem := (d_mem st)(a := b)\<rparr>) =
      (length bs, st\<lparr>d_mem := overlay (a + 1) bs ((d_mem st)(a := b))\<rparr>)"
    using Cons.IH [of "st\<lparr>d_mem := (d_mem st)(a := b)\<rparr>" "a + 1"] Cons.prems(1) Cons.prems(2) [of "Suc _"]
    by (simp add: writable_def ac_simps del: fun_upd_apply)
  ultimately show ?case using Cons.prems(1) by (simp add: overlay_Cons)
qed simp

lemma user_memset_overlay:
  assumes "n \<le> 2 ^ 64" "\<And>i. i < n \<Longrightarrow> writable st (a + of_nat i)"
  shows "user_memset n a c st = Some (st\<lparr>d_mem := overlay a (replicate n c) (d_mem st)\<rparr>)"
  using assms
proof (induction n arbitrary: a st)
  case (Suc n)
  have "writable st a" using Suc.prems(2) [of 0] by simp
  moreover have "user_memset n (a + 1) c (st\<lparr>d_mem := (d_mem st)(a := c)\<rparr>) =
      Some (st\<lparr>d_mem := overlay (a + 1) (replicate n c) ((d_mem st)(a := c))\<rparr>)"
    using Suc.IH [of "st\<lparr>d_mem := (d_mem st)(a := c)\<rparr>" "a + 1"] Suc.prems(1) Suc.prems(2) [of "Suc _"]
    by (simp add: writable_def ac_simps del: fun_upd_apply)
  ultimately show ?case using Suc.prems(1) by (simp add: user_memset.simps overlay_Cons)
qed (simp add: user_memset.simps)

section \<open>One segment\<close>

text \<open>The contents that a segment shall have: bytes of the file, then zeros.\<close>

definition seg_bytes :: "u8 list \<Rightarrow> u64 \<Rightarrow> u64 \<Rightarrow> u64 \<Rightarrow> u8 list" where
  "seg_bytes file off fsz msz = take (unat fsz) (drop (unat off) file) @ replicate (unat msz - unat fsz) 0"

lemma sint_small: "unat w < 2 ^ 63 \<Longrightarrow> sint (w :: u64) = int (unat w)"
proof -
  assume w: "unat w < 2 ^ 63"
  then have "int (unat w) < int (2 ^ 63)" by (simp only: of_nat_less_iff)
  then have u: "uint w < 2 ^ 63" by simp
  have "sint w = signed_take_bit 63 (uint w)" by (simp add: sint_uint)
  also have "\<dots> = uint w" by (rule signed_take_bit_int_eq_self) (use u in \<open>simp_all add: order_trans [OF _ uint_ge_0]\<close>)
  finally show ?thesis by simp
qed

lemma overlay_append:
  assumes "length bs + length cs \<le> 2 ^ 64"
  shows "overlay (a + of_nat (length bs)) cs (overlay a bs m) = overlay a (bs @ cs) m"
proof (cases "cs = []")
  case False
  then have "length bs < 2 ^ 64" using assms by (cases cs) auto
  then have u: "unat (of_nat (length bs) :: u64) = length bs" by (simp add: unat_of_nat)
  show ?thesis
  proof
    fix x
    let ?k = "x - a"
    have sub: "x - (a + of_nat (length bs)) = ?k - of_nat (length bs)" by simp
    show "overlay (a + of_nat (length bs)) cs (overlay a bs m) x = overlay a (bs @ cs) m x"
    proof (cases "unat ?k < length bs")
      case True
      have "unat (?k - of_nat (length bs)) = 2 ^ 64 + unat ?k - length bs"
        using True u unat_sub_if_size [of ?k "of_nat (length bs)"] by (simp add: word_size not_le)
      then have "\<not> unat (?k - of_nat (length bs)) < length cs" using assms by linarith
      then show ?thesis using True unfolding overlay_def sub by (simp add: nth_append)
    next
      case False
      then have "unat (?k - of_nat (length bs)) = unat ?k - length bs"
        using u by (subst unat_sub) (auto simp: word_le_nat_alt)
      then show ?thesis using False unfolding overlay_def sub by (auto simp: nth_append)
    qed
  qed
qed simp

text \<open>The destination pages are still the fresh writable mapping.\<close>

definition fresh_pages :: "u64 \<Rightarrow> u64 \<Rightarrow> dyld \<Rightarrow> bool" where
  "fresh_pages a len st \<longleftrightarrow> page_aligned a \<and> unat a + unat len \<le> 2 ^ 64 \<and>
     (\<forall>p \<in> set (pages a len). d_pages st p = Some PROT_WRITE)"

lemma fresh_writable:
  assumes "fresh_pages a len st" "i < unat len"
  shows "writable st (a + of_nat i)"
proof -
  have "unat len < 2 ^ 64" using unsigned_less [of len] by simp
  then have "unat (of_nat i :: u64) = i" using assms(2) by (simp add: unat_of_nat)
  then have "page_of (a + of_nat i) \<in> set (pages a len)"
    using assms by (intro in_pages) (simp_all add: fresh_pages_def)
  then show ?thesis using assms(1) by (simp add: writable_def fresh_pages_def)
qed

lemma seek_and_read:
  assumes "d_fds st fd = Some (contents, pos)" "length contents < 2 ^ 63"
    and "unat off + unat fsz \<le> length contents" "fsz \<le> msz" "fresh_pages a msz st"
  shows "\<exists>s1 s2. sys_lseek fd off st = (True, s1) \<and> sys_read fd a fsz s1 = (sint fsz, s2) \<and>
    s2 = st\<lparr>d_mem := overlay a (take (unat fsz) (drop (unat off) contents)) (d_mem st),
            d_fds := (d_fds st)(fd := Some (contents, unat off + unat fsz))\<rparr>"
proof -
  let ?got = "take (unat fsz) (drop (unat off) contents)"
  define s1 where "s1 = st\<lparr>d_fds := (d_fds st)(fd := Some (contents, unat off))\<rparr>"
  have got: "length ?got = unat fsz" using assms(3) by simp
  have "fresh_pages a msz s1" using assms(5) by (simp add: fresh_pages_def s1_def)
  then have "writable s1 (a + of_nat i)" if "i < unat fsz" for i
    using fresh_writable [of a msz s1 i] that assms(4) by (simp add: word_le_nat_alt)
  moreover have "unat fsz < 2 ^ 64" using unsigned_less [of fsz] by simp
  ultimately have "copy_user ?got a s1 = (unat fsz, s1\<lparr>d_mem := overlay a ?got (d_mem s1)\<rparr>)"
    using copy_user_overlay [of ?got s1 a] got by simp
  moreover have "sint fsz = int (unat fsz)" "sint off = int (unat off)"
    using assms(2,3) sint_small [of fsz] sint_small [of off] by simp_all
  moreover have "?got = []" if "unat fsz = 0" using that by simp
  ultimately have "sys_lseek fd off st = (True, s1)"
    "sys_read fd a fsz s1 = (sint fsz, s1\<lparr>d_mem := overlay a ?got (d_mem s1),
       d_fds := (d_fds s1)(fd := Some (contents, unat off + unat fsz))\<rparr>)"
    using assms(1) by (auto simp: sys_lseek_def sys_read_def s1_def Let_def)
  then show ?thesis by (simp add: s1_def)
qed

lemma clear_rest:
  assumes "fsz \<le> msz" "fresh_pages a msz st" "length bs = unat fsz" "d_mem st = overlay a bs m"
  shows "(if fsz < msz then user_memset (unat (msz - fsz)) (a + fsz) 0 st else Some st) =
    Some (st\<lparr>d_mem := overlay a (bs @ replicate (unat msz - unat fsz) 0) m\<rparr>)"
proof (cases "fsz < msz")
  case True
  have n: "unat (msz - fsz) = unat msz - unat fsz" using assms(1) by (rule unat_sub)
  have msz: "unat msz < 2 ^ 64" using unsigned_less [of msz] by simp
  have "writable st (a + fsz + of_nat i)" if "i < unat (msz - fsz)" for i
    using fresh_writable [OF assms(2), of "unat fsz + i"] that n by (simp add: add.assoc)
  then have "user_memset (unat (msz - fsz)) (a + fsz) 0 st =
      Some (st\<lparr>d_mem := overlay (a + fsz) (replicate (unat msz - unat fsz) 0) (d_mem st)\<rparr>)"
    using user_memset_overlay [of "unat (msz - fsz)" st "a + fsz" 0] n msz by simp
  moreover have "overlay (a + fsz) (replicate (unat msz - unat fsz) 0) (overlay a bs m) =
      overlay a (bs @ replicate (unat msz - unat fsz) 0) m"
    using overlay_append [of bs "replicate (unat msz - unat fsz) 0" a m] assms(1,3) msz
    by (simp add: word_le_nat_alt)
  ultimately show ?thesis using True assms(4) by simp
next
  case False
  then have "unat msz - unat fsz = 0" by (simp add: word_less_nat_alt)
  then show ?thesis using False assms(4) by simp
qed

lemma place_segment_image:
  assumes "d_fds st fd = Some (contents, pos)" "length contents < 2 ^ 63"
    and "unat off + unat fsz \<le> length contents" "fsz \<le> msz" "fresh_pages a msz st"
  shows "\<exists>st'. place_segment fd a off fsz msz prot st = Some (True, st') \<and>
    d_mem st' = overlay a (seg_bytes contents off fsz msz) (d_mem st) \<and>
    d_pages st' = (\<lambda>p. if p \<in> set (pages a msz) then Some prot else d_pages st p) \<and>
    (\<exists>pos'. d_fds st' fd = Some (contents, pos'))"
proof -
  obtain s1 s2 where r: "sys_lseek fd off st = (True, s1)" "sys_read fd a fsz s1 = (sint fsz, s2)"
    and s2: "s2 = st\<lparr>d_mem := overlay a (take (unat fsz) (drop (unat off) contents)) (d_mem st),
            d_fds := (d_fds st)(fd := Some (contents, unat off + unat fsz))\<rparr>"
    using seek_and_read [OF assms] by blast
  have "fresh_pages a msz s2" using assms(5) by (simp add: fresh_pages_def s2)
  then have "(if fsz < msz then user_memset (unat (msz - fsz)) (a + fsz) 0 s2 else Some s2) =
      Some (s2\<lparr>d_mem := overlay a (seg_bytes contents off fsz msz) (d_mem st)\<rparr>)"
    unfolding seg_bytes_def by (rule clear_rest [OF assms(4)]) (use assms(3) s2 in simp_all)
  moreover have "list_all (\<lambda>p. d_pages st p \<noteq> None) (pages a msz)" "page_aligned a"
    using assms(5) by (simp_all add: list_all_iff fresh_pages_def)
  moreover have "place_segment fd a off fsz msz prot st =
      Some (sys_mprotect a msz prot (s2\<lparr>d_mem := overlay a (seg_bytes contents off fsz msz) (d_mem st)\<rparr>))"
    using r calculation(1) by (simp add: place_segment_def)
  ultimately show ?thesis by (simp add: sys_mprotect_def s2 fun_eq_iff)
qed

section \<open>All segments of an ELF file\<close>

definition seg_addr :: "u64 \<Rightarrow> u64 \<Rightarrow> elf64_phdr_t \<Rightarrow> u64" where
  "seg_addr base mn ph = base + (p_vaddr ph - mn)"

definition loads :: "elf64_phdr_t list \<Rightarrow> elf64_phdr_t list" where
  "loads phs = filter (\<lambda>ph. p_type ph = PT_LOAD) phs"

text \<open>A loadable segment that the file really holds and that does not wrap around.\<close>

definition seg_ok :: "u8 list \<Rightarrow> elf64_phdr_t \<Rightarrow> bool" where
  "seg_ok contents ph \<longleftrightarrow>
     unat (p_offset ph) + unat (p_filesz ph) \<le> length contents \<and> p_filesz ph \<le> p_memsz ph \<and>
     unat (p_vaddr ph) + unat (p_memsz ph) < 2 ^ 64"

definition seg_pages :: "u64 \<Rightarrow> u64 \<Rightarrow> elf64_phdr_t \<Rightarrow> u64 set" where
  "seg_pages base mn ph = set (pages (seg_addr base mn ph) (p_memsz ph))"

text \<open>The segment's bytes are in memory and its pages have its protection.\<close>

definition seg_loaded :: "u8 list \<Rightarrow> u64 \<Rightarrow> u64 \<Rightarrow> dyld \<Rightarrow> elf64_phdr_t \<Rightarrow> bool" where
  "seg_loaded contents base mn st ph \<longleftrightarrow>
     (\<forall>x. unat (x - seg_addr base mn ph) < unat (p_memsz ph) \<longrightarrow>
        d_mem st x = seg_bytes contents (p_offset ph) (p_filesz ph) (p_memsz ph) ! unat (x - seg_addr base mn ph)) \<and>
     (\<forall>p \<in> seg_pages base mn ph. d_pages st p = Some (elf_prot (p_flags ph)))"

lemma length_seg_bytes:
  assumes "seg_ok contents ph"
  shows "length (seg_bytes contents (p_offset ph) (p_filesz ph) (p_memsz ph)) = unat (p_memsz ph)"
  using assms by (auto simp: seg_ok_def seg_bytes_def word_le_nat_alt)

lemma elf_load_segments_image:
  assumes "d_fds st fd = Some (contents, pos)" "length contents < 2 ^ 63"
    and "\<And>ph. ph \<in> set (loads phs) \<Longrightarrow> seg_ok contents ph \<and> fresh_pages (seg_addr base mn ph) (p_memsz ph) st"
    and "sorted_wrt (\<lambda>p q. seg_pages base mn p \<inter> seg_pages base mn q = {}) (loads phs)"
  shows "\<exists>st'. elf_load_segments fd base mn sz phs st = Some (base, st') \<and>
    (\<forall>ph \<in> set (loads phs). seg_loaded contents base mn st' ph) \<and>
    (\<forall>x. (\<forall>ph \<in> set (loads phs). page_of x \<notin> seg_pages base mn ph) \<longrightarrow>
       d_mem st' x = d_mem st x) \<and>
    (\<forall>p. (\<forall>ph \<in> set (loads phs). p \<notin> seg_pages base mn ph) \<longrightarrow> d_pages st' p = d_pages st p)"
  using assms
proof (induction phs arbitrary: st pos)
  case Nil
  then show ?case by (simp add: loads_def)
next
  case (Cons ph phs)
  show ?case
  proof (cases "p_type ph = PT_LOAD")
    case False
    then show ?thesis using Cons by (simp add: loads_def)
  next
    case True
    let ?a = "seg_addr base mn ph" and ?b = "seg_bytes contents (p_offset ph) (p_filesz ph) (p_memsz ph)"
    have ls: "loads (ph # phs) = ph # loads phs" using True by (simp add: loads_def)
    have ok: "seg_ok contents ph" and fresh: "fresh_pages ?a (p_memsz ph) st"
      using Cons.prems(3) [of ph] ls by auto
    obtain s1 pos1 where s1: "place_segment fd ?a (p_offset ph) (p_filesz ph) (p_memsz ph) (elf_prot (p_flags ph)) st = Some (True, s1)"
      "d_mem s1 = overlay ?a ?b (d_mem st)"
      "d_pages s1 = (\<lambda>p. if p \<in> seg_pages base mn ph then Some (elf_prot (p_flags ph)) else d_pages st p)"
      "d_fds s1 fd = Some (contents, pos1)"
      using place_segment_image [OF Cons.prems(1,2) _ _ fresh] ok unfolding seg_ok_def seg_pages_def by blast
    have apart: "seg_pages base mn ph \<inter> seg_pages base mn q = {}" if "q \<in> set (loads phs)" for q
      using Cons.prems(4) ls that by simp
    obtain st' where ih: "elf_load_segments fd base mn sz phs s1 = Some (base, st')"
      "\<forall>q \<in> set (loads phs). seg_loaded contents base mn st' q"
      "\<And>x. (\<forall>q \<in> set (loads phs). page_of x \<notin> seg_pages base mn q) \<Longrightarrow> d_mem st' x = d_mem s1 x"
      "\<And>p. (\<forall>q \<in> set (loads phs). p \<notin> seg_pages base mn q) \<Longrightarrow> d_pages st' p = d_pages s1 p"
    proof -
      have fr: "seg_ok contents q \<and> fresh_pages (seg_addr base mn q) (p_memsz q) s1" if q: "q \<in> set (loads phs)" for q
        using Cons.prems(3) [of q] ls q apart [OF q] by (auto simp: fresh_pages_def s1(3) seg_pages_def)
      have "sorted_wrt (\<lambda>p q. seg_pages base mn p \<inter> seg_pages base mn q = {}) (loads phs)"
        using Cons.prems(4) ls by simp
      then show thesis using Cons.IH [OF s1(4) Cons.prems(2) fr] that by blast
    qed
    have in_pg: "page_of x \<in> seg_pages base mn ph" if "unat (x - ?a) < unat (p_memsz ph)" for x
      using in_pages [of ?a "p_memsz ph" x] fresh that by (simp add: fresh_pages_def seg_pages_def)
    have "seg_loaded contents base mn st' ph"
      unfolding seg_loaded_def using ih(3,4) apart s1(2,3) in_pg length_seg_bytes [OF ok]
      by (fastforce simp: overlay_def)
    moreover have "d_mem st' x = d_mem st x" if "\<forall>q \<in> set (loads (ph # phs)). page_of x \<notin> seg_pages base mn q" for x
      using ih(3) [of x] s1(2) in_pg [of x] that ls length_seg_bytes [OF ok] by (auto simp: overlay_def)
    moreover have "d_pages st' p = d_pages st p" if "\<forall>q \<in> set (loads (ph # phs)). p \<notin> seg_pages base mn q" for p
      using ih(4) [of p] s1(3) that ls by auto
    ultimately show ?thesis using ih(1,2) s1(1) True ls by (simp add: seg_addr_def)
  qed
qed

section \<open>The extent of the segments\<close>

lemma elf_extent_bounds:
  assumes "elf_extent phs mn mx = (mn', mx')"
  shows "mn' \<le> mn \<and> mx \<le> mx' \<and> (mn' = mn \<or> (\<exists>ph \<in> set (loads phs). p_vaddr ph = mn')) \<and>
    (\<forall>ph \<in> set (loads phs). mn' \<le> p_vaddr ph \<and> p_vaddr ph + p_memsz ph \<le> mx')"
  using assms
proof (induction phs mn mx rule: elf_extent.induct)
  case (1 mn mx)
  then show ?case by (simp add: loads_def)
next
  case (2 ph phs mn mx)
  show ?case
  proof (cases "p_type ph = PT_LOAD")
    case True
    let ?mn = "if p_vaddr ph < mn then p_vaddr ph else mn"
    let ?mx = "if p_vaddr ph + p_memsz ph > mx then p_vaddr ph + p_memsz ph else mx"
    have le: "?mn \<le> mn" "?mn \<le> p_vaddr ph" "mx \<le> ?mx" "p_vaddr ph + p_memsz ph \<le> ?mx"
      "?mn = mn \<or> ?mn = p_vaddr ph" by auto
    have "mn' \<le> ?mn \<and> ?mx \<le> mx' \<and> (mn' = ?mn \<or> (\<exists>q \<in> set (loads phs). p_vaddr q = mn')) \<and>
        (\<forall>q \<in> set (loads phs). mn' \<le> p_vaddr q \<and> p_vaddr q + p_memsz q \<le> mx')"
      using 2 True by simp
    then show ?thesis using le True unfolding loads_def by (auto intro: order_trans)
  next
    case False
    then show ?thesis using 2 by (simp add: loads_def)
  qed
qed

lemma extent_fresh:
  assumes ext: "elf_extent phs (- 1) 0 = (mn, mx)" and ph: "ph \<in> set (loads phs)" "seg_ok contents ph"
    and base: "page_aligned base" "unat base + unat (mx - mn) < 2 ^ 64"
    and al: "page_aligned (p_vaddr ph - mn)"
  shows "fresh_pages (seg_addr base mn ph) (p_memsz ph) (add_mapping base (mx - mn) st)"
proof -
  have e: "mn \<le> p_vaddr ph" "p_vaddr ph + p_memsz ph \<le> mx" using elf_extent_bounds [OF ext] ph(1) by auto
  have hi: "unat (p_vaddr ph + p_memsz ph) = unat (p_vaddr ph) + unat (p_memsz ph)"
    using ph(2) by (simp add: seg_ok_def unat_word_ariths)
  have d: "unat (p_vaddr ph - mn) = unat (p_vaddr ph) - unat mn" using e(1) by (rule unat_sub)
  have le: "unat mn \<le> unat (p_vaddr ph)" "unat (p_vaddr ph) + unat (p_memsz ph) \<le> unat mx"
    using e hi by (simp_all add: word_le_nat_alt)
  have t: "unat (mx - mn) = unat mx - unat mn" using le by (intro unat_sub) (simp add: word_le_nat_alt)
  have fits: "unat base + (unat (p_vaddr ph) - unat mn) + unat (p_memsz ph) \<le> unat base + unat (mx - mn)"
    using le t by simp
  have "unat base + unat (p_vaddr ph - mn) < 2 ^ 64" using fits base(2) d by linarith
  from unat_add_u64 [OF this] have "unat (seg_addr base mn ph) = unat base + unat (p_vaddr ph - mn)"
    by (simp add: seg_addr_def)
  then have a: "unat (seg_addr base mn ph) = unat base + (unat (p_vaddr ph) - unat mn)" using d by simp
  have al': "page_aligned (seg_addr base mn ph)"
    using base(1) al a d by (simp add: page_aligned_iff mod_add_eq [symmetric])
  have "set (pages (seg_addr base mn ph) (p_memsz ph)) \<subseteq> set (pages base (mx - mn))"
    by (rule pages_sub [OF base(1) less_imp_le [OF base(2)] al']) (use a fits in simp_all)
  then show ?thesis using a al' fits base(2) by (auto simp: fresh_pages_def add_mapping_def)
qed

section \<open>Mapping an ELF file\<close>

text \<open>The program headers that the loader reads from the file.\<close>

definition phdr_table :: "elf64_header_t \<Rightarrow> u8 list \<Rightarrow> elf64_phdr_t list option" where
  "phdr_table header contents =
     (let n = unat (e_phentsize header) * unat (e_phnum header);
          b = take n (drop (unat (e_phoff header)) contents) in
      if n < 2 ^ 31 \<and> length b = n then elf_phdrs (unat (e_phnum header)) b else None)"

lemma elf_map_segments_unfold:
  assumes "d_fds st fd = Some (contents, pos)" "length contents < 2 ^ 63" "unat (e_phoff header) \<le> length contents"
    and "phdr_table header contents = Some phdrs" "elf_extent phdrs (- 1) 0 = (mn, mx)"
    and "\<And>n s. malloc_pick env n s \<noteq> 0"
  shows "\<exists>st2 pos2. d_fds st2 fd = Some (contents, pos2) \<and> d_mem st2 = d_mem st \<and> d_pages st2 = d_pages st \<and>
    elf_map_segments env fd header st =
      (let (base, st3) = sys_mmap env (mx - mn) (e_type header = ET_EXEC) st2 in
       if base = 0 then Some (0, st3) else elf_load_segments fd base mn (mx - mn) phdrs st3)"
proof -
  let ?n = "unat (e_phentsize header) * unat (e_phnum header)"
  let ?b = "take ?n (drop (unat (e_phoff header)) contents)"
  define st2 where "st2 = st\<lparr>d_fds := (d_fds st)(fd := Some (contents, unat (e_phoff header) + length ?b))\<rparr>"
  have "sint (e_phoff header) = int (unat (e_phoff header))" using assms(2,3) by (intro sint_small) simp
  moreover have "?n < 2 ^ 31" "length ?b = ?n" "elf_phdrs (unat (e_phnum header)) ?b = Some phdrs"
    using assms(4) by (auto simp: phdr_table_def Let_def split: if_splits)
  ultimately have "elf_map_segments env fd header st =
      (let (base, st3) = sys_mmap env (mx - mn) (e_type header = ET_EXEC) st2 in
       if base = 0 then Some (0, st3) else elf_load_segments fd base mn (mx - mn) phdrs st3)"
    using assms(1,5,6) by (simp add: elf_map_segments_def sys_lseek_def sys_read_local_def st2_def Let_def)
  then show ?thesis by (intro exI [of _ st2]) (simp add: st2_def)
qed

end
