(* ===== verification/Dyld_Props.thy ===== *)
theory Dyld_Props
  imports Dyld_Registry Dyld_Image
begin

text \<open>
  Properties of the dynamic linker: sequences of calls refine a list of handles, the segments of
  an ELF file arrive in memory, executables and failed mappings never yield a base address, and
  the symbol searches return the first symbol of the name.
\<close>

section \<open>Sequences of calls\<close>

text \<open>A call of the public interface with its result.\<close>

datatype dyld_call = Load "string option" u64 | Unload u64 int | Resolve "u8 list option" u64

inductive dyld_step :: "dyld_platform \<Rightarrow> dyld_env \<Rightarrow> dyld \<Rightarrow> dyld_call \<Rightarrow> dyld \<Rightarrow> bool" for pf env where
  load: "mindyld_load pf env path st = Some (h, st') \<Longrightarrow> dyld_step pf env st (Load path h) st'"
| unload: "mindyld_unload h st = Some (r, st') \<Longrightarrow> dyld_step pf env st (Unload h r) st'"
| resolve: "mindyld_resolve_symbol pf name st = Some a \<Longrightarrow> dyld_step pf env st (Resolve name a) st"

inductive dyld_steps :: "dyld_platform \<Rightarrow> dyld_env \<Rightarrow> dyld \<Rightarrow> dyld_call list \<Rightarrow> dyld \<Rightarrow> bool" for pf env where
  none: "dyld_steps pf env st [] st"
| more: "dyld_step pf env st c st' \<Longrightarrow> dyld_steps pf env st' cs st'' \<Longrightarrow> dyld_steps pf env st (c # cs) st''"

text \<open>
  The specification: a list of loaded handles. A load that succeeds appends a new handle, an
  unload of a loaded handle removes it, resolving finds nothing. \<open>None\<close>: not a possible result.
\<close>

fun spec_step :: "u64 list \<Rightarrow> dyld_call \<Rightarrow> u64 list option" where
  "spec_step xs (Load path h) = (if h = 0 then Some xs else if h \<in> set xs then None else Some (xs @ [h]))"
| "spec_step xs (Unload h r) =
     (if h = 0 then if r = MINDYLD_ERR_INVALID then Some xs else None
      else if h \<in> set xs \<and> r = MINDYLD_OK then Some (remove1 h xs) else None)"
| "spec_step xs (Resolve name a) = (if a = 0 then Some xs else None)"

fun spec_run :: "u64 list \<Rightarrow> dyld_call list \<Rightarrow> u64 list option" where
  "spec_run xs [] = Some xs"
| "spec_run xs (c # cs) = do { ys \<leftarrow> spec_step xs c; spec_run ys cs }"

lemma step_refines:
  assumes "fresh_env env" "tracked st xs" "dyld_step pf env st c st'"
  shows "\<exists>ys. spec_step xs c = Some ys \<and> tracked st' ys \<and> d_fds st' = d_fds st"
  using assms(3)
proof cases
  case (load path h)
  then show ?thesis using load_registry [OF assms(1) _ load(2), of xs] assms(2)
    by (simp add: tracked_def split: if_splits)
next
  case (unload h r)
  show ?thesis
  proof (cases "h \<in> set xs")
    case True
    then have "h \<noteq> 0" using objs_alloc assms(2) by (auto simp: tracked_def registry_def)
    then show ?thesis using unload_registry [of st xs h] True unload assms(2)
      by (auto simp: tracked_def registry_def set_remove1_eq)
  next
    case False
    then have "h = 0" using unload(2) assms(2)
      by (auto simp: mindyld_unload_def tracked_def dom_def split: if_splits bind_splits)
    then show ?thesis using unload assms(2) by (auto simp: mindyld_unload_def)
  qed
next
  case (resolve name a)
  then show ?thesis using assms(2) resolve_null
    by (auto simp: mindyld_resolve_symbol_def tracked_def registry_def split: option.splits)
qed

lemma steps_refine:
  assumes "dyld_steps pf env st cs st'" "fresh_env env" "tracked st xs"
  shows "\<exists>ys. spec_run xs cs = Some ys \<and> tracked st' ys \<and> d_fds st' = d_fds st"
  using assms(1,3)
proof (induction arbitrary: xs)
  case (more st c st' cs st'')
  obtain ys where ys: "spec_step xs c = Some ys" "tracked st' ys" "d_fds st' = d_fds st"
    using step_refines [OF assms(2) more.prems more.hyps(1)] by blast
  with more.IH [OF ys(2)] show ?case by simp
qed simp


text \<open>A small system for the examples: one descriptor, a handle block that is used once.\<close>

definition demo_env :: "u64 \<Rightarrow> dyld_env" where
  "demo_env base = \<lparr>open_fd = (\<lambda>st. if d_fds st 3 = None then Some 3 else None),
     mmap_pick = (\<lambda>len st. Some base), map_zero = False,
     malloc_pick = (\<lambda>n st. if d_handles st 0x1000 = None then 0x1000 else 0)\<rparr>"

definition demo_state :: "(string \<Rightarrow> u8 list option) \<Rightarrow> dyld" where
  "demo_state files = \<lparr>d_files = files, d_fds = (\<lambda>_. None), d_mem = (\<lambda>_. 0), d_pages = (\<lambda>_. None),
     d_handles = (\<lambda>_. None), loaded_objects = 0, dependencies = 0, num_dependencies = 0\<rparr>"

lemma fresh_demo: "fresh_env (demo_env base)"
  by (simp add: fresh_env_def demo_env_def)

lemma tracked_demo: "tracked (demo_state files) []"
  by (simp add: tracked_def registry_def demo_state_def)

text \<open>A shared object with no program headers: 64 bytes that pass the validation.\<close>

definition demo_header :: "u8 list" where
  "demo_header = [0x7F, 0x45, 0x4C, 0x46, 2, 1, 1, 0, 0, 0, 0, 0, 0, 0, 0, 0, 3, 0, 0, 0, 0, 0, 0, 0,
     0, 0, 0, 0, 0, 0, 0, 0, 0, 0, 0, 0, 0, 0, 0, 0, 0, 0, 0, 0, 0, 0, 0, 0,
     0, 0, 0, 0, 0, 0, 0, 0, 0, 0, 0, 0, 0, 0, 0, 0]"

lemma demo_fields:
  "length demo_header = 64" "elf_validate_header (elf64_header_of demo_header) = MINDYLD_OK"
  "e_type (elf64_header_of demo_header) = 3" "e_phoff (elf64_header_of demo_header) = 0"
  "e_phnum (elf64_header_of demo_header) = 0" "e_phentsize (elf64_header_of demo_header) = 0"
  by (simp_all add: elf64_header_of_def demo_header_def elf_validate_header_def fld16_def fld32_def fld64_def
      le16_def le32_def le64_def)

lemma demo_elf_load:
  assumes "d_files st ''a'' = Some demo_header" "d_fds st = (\<lambda>_. None)" "d_handles st = (\<lambda>_. None)"
  shows "\<exists>st'. elf_load (demo_env 0x10000) ''a'' st = Some (0x1000, st')"
  using assms demo_fields
  by (simp add: elf_load_def sys_open_def demo_env_def sys_read_local_def Let_def elf_map_segments_def
      sys_lseek_def sys_mmap_def add_mapping_def)

lemma demo_load:
  "\<exists>st'. mindyld_load MINDYLD_LINUX (demo_env 0x10000) (Some ''a'') (demo_state [''a'' \<mapsto> demo_header]) =
   Some (0x1000, st')"
proof -
  have d: "detect_binary_format MINDYLD_LINUX (demo_env 0x10000) ''a'' (demo_state [''a'' \<mapsto> demo_header]) =
      (1, demo_state [''a'' \<mapsto> demo_header])"
    by (simp add: detect_binary_format_def sys_open_def demo_env_def demo_state_def sys_read_local_def
        sys_close_def magic_format_def MINDYLD_ELF_def demo_header_def fun_upd_idem)
  obtain s where "elf_load (demo_env 0x10000) ''a'' (demo_state [''a'' \<mapsto> demo_header]) = Some (0x1000, s)"
    using demo_elf_load [of "demo_state [''a'' \<mapsto> demo_header]"] by (auto simp: demo_state_def)
  moreover from elf_load_outcome [OF fresh_demo this] have "loaded_objects s = 0"
    by (simp add: load_outcome_def demo_state_def)
  ultimately show ?thesis using d
    by (simp add: mindyld_load_def MINDYLD_ELF_def MINDYLD_MACHO_def elf_apply_relocations_def register_loaded_object_def)
qed


section \<open>The image of an ELF file\<close>

text \<open>C20: when the program headers of a shared object lie in the file, its loadable segments are
  in the file, do not wrap, lie at page distances from the lowest one and share no page, and the
  system gives a page-aligned mapping, then the mapping succeeds and every segment is in memory at
  its distance from the base: the bytes of the file, then zeros up to its size in memory, on pages
  with exactly the protection of its flags.\<close>

theorem elf_map_segments_image:
  assumes "d_fds st fd = Some (contents, pos)" "length contents < 2 ^ 63" "unat (e_phoff header) \<le> length contents"
    and "phdr_table header contents = Some phdrs" "elf_extent phdrs (- 1) 0 = (mn, mx)" "e_type header = ET_DYN"
    and "\<forall>n s. malloc_pick env n s \<noteq> 0" "\<forall>s. mmap_pick env (mx - mn) s = Some base"
    and "base \<noteq> 0" "page_aligned base" "unat base + unat (mx - mn) < 2 ^ 64" "mx \<noteq> mn"
    and "\<forall>ph \<in> set (loads phdrs). seg_ok contents ph \<and> page_aligned (p_vaddr ph - mn)"
    and "sorted_wrt (\<lambda>p q. seg_pages base mn p \<inter> seg_pages base mn q = {}) (loads phdrs)"
  shows "\<exists>st'. elf_map_segments env fd header st = Some (base, st') \<and>
    (\<forall>ph \<in> set (loads phdrs). seg_loaded contents base mn st' ph)"
proof -
  have malloc: "\<And>n s. malloc_pick env n s \<noteq> 0" using assms(7) by blast
  obtain st2 pos2 where st2: "d_fds st2 fd = Some (contents, pos2)"
    "elf_map_segments env fd header st =
      (let (base, st3) = sys_mmap env (mx - mn) (e_type header = ET_EXEC) st2 in
       if base = 0 then Some (0, st3) else elf_load_segments fd base mn (mx - mn) phdrs st3)"
    using elf_map_segments_unfold [OF assms(1-5) malloc] by blast
  define st3 where "st3 = add_mapping base (mx - mn) st2"
  have "sys_mmap env (mx - mn) (e_type header = ET_EXEC) st2 = (base, st3)"
    using assms(6,8,12) by (simp add: sys_mmap_def st3_def)
  then have "elf_map_segments env fd header st = elf_load_segments fd base mn (mx - mn) phdrs st3"
    using st2(2) assms(9) by simp
  moreover have "d_fds st3 fd = Some (contents, pos2)" using st2(1) by (simp add: st3_def add_mapping_def)
  moreover have "seg_ok contents ph \<and> fresh_pages (seg_addr base mn ph) (p_memsz ph) st3"
    if "ph \<in> set (loads phdrs)" for ph
    unfolding st3_def using extent_fresh [OF assms(5) that _ assms(10,11)] assms(13) that by blast
  ultimately show ?thesis
    using elf_load_segments_image [of st3 fd contents pos2 phdrs base mn "mx - mn"] assms(2,14) by auto
qed

definition demo_phdr :: "u8 list" where
  "demo_phdr = [1, 0, 0, 0, 5, 0, 0, 0, 56, 0, 0, 0, 0, 0, 0, 0, 0, 16, 0, 0, 0, 0, 0, 0,
     0, 16, 0, 0, 0, 0, 0, 0, 2, 0, 0, 0, 0, 0, 0, 0, 4, 0, 0, 0, 0, 0, 0, 0,
     0, 16, 0, 0, 0, 0, 0, 0]"

definition demo_so :: "u16 \<Rightarrow> elf64_header_t" where
  "demo_so t = \<lparr>e_ident = [], e_type = t, e_machine = 62, e_version = 1, e_entry = 0, e_phoff = 0, e_shoff = 0,
     e_flags = 0, e_ehsize = 64, e_phentsize = 56, e_phnum = 1, e_shentsize = 0, e_shnum = 0, e_shstrndx = 0\<rparr>"

definition demo_segment :: elf64_phdr_t where
  "demo_segment = \<lparr>p_type = 1, p_flags = 5, p_offset = 56, p_vaddr = 0x1000, p_paddr = 0x1000, p_filesz = 2,
     p_memsz = 4, p_align = 0x1000\<rparr>"

definition always_env :: dyld_env where
  "always_env = \<lparr>open_fd = (\<lambda>_. Some 3), mmap_pick = (\<lambda>_ _. Some 0x10000), map_zero = False, malloc_pick = (\<lambda>_ _. 0x1000)\<rparr>"

lemma demo_table: "phdr_table (demo_so t) (demo_phdr @ [7, 8]) = Some [demo_segment]"
proof -
  have "elf64_phdr_of demo_phdr = demo_segment"
    by (simp add: elf64_phdr_of_def demo_phdr_def demo_segment_def fld32_def fld64_def le32_def le64_def)
  moreover have "length demo_phdr = 56" by (simp add: demo_phdr_def)
  ultimately show ?thesis by (simp add: phdr_table_def demo_so_def)
qed

lemma demo_extent: "elf_extent [demo_segment] (- 1) 0 = (0x1000, 0x1004)" "loads [demo_segment] = [demo_segment]"
  by (simp_all add: demo_segment_def loads_def)

theorem elf_map_segments_image_witness:
  "\<exists>st'. elf_map_segments always_env 3 (demo_so 3)
      ((demo_state (\<lambda>_. None))\<lparr>d_fds := (\<lambda>_. Some (demo_phdr @ [7, 8], 64))\<rparr>) = Some (0x10000, st') \<and>
    d_mem st' 0x10001 = 8 \<and> d_pages st' 0x10 = Some 5"
proof -
  let ?st = "(demo_state (\<lambda>_. None))\<lparr>d_fds := (\<lambda>_. Some (demo_phdr @ [7, 8], 64))\<rparr>"
  have len: "length demo_phdr = 56" by (simp add: demo_phdr_def)
  obtain st' where m: "elf_map_segments always_env 3 (demo_so 3) ?st = Some (0x10000, st')"
    and l: "seg_loaded (demo_phdr @ [7, 8]) 0x10000 0x1000 st' demo_segment"
    using elf_map_segments_image [of ?st 3 "demo_phdr @ [7, 8]" 64 "demo_so 3" "[demo_segment]" "0x1000" "0x1004" always_env "0x10000"]
      demo_table [of 3] demo_extent len
    by (auto simp: demo_so_def always_env_def page_aligned_def seg_ok_def demo_segment_def)
  have "d_mem st' 0x10001 = 8"
    using l len by (auto simp: seg_loaded_def seg_addr_def demo_segment_def seg_bytes_def dest!: spec [of _ "0x10001"])
  moreover have "d_pages st' 0x10 = Some 5"
    using l by (simp add: seg_loaded_def seg_pages_def pages_def seg_addr_def demo_segment_def page_of_def elf_prot_def)
  ultimately show ?thesis using m by blast
qed

section \<open>Rejected files\<close>

lemma place_unaligned:
  assumes "place_segment fd a off fsz msz prot st = Some (ok, st')" "\<not> page_aligned a"
  shows "\<not> ok"
  using assms by (auto simp: place_segment_def sys_mprotect_def split: prod.splits if_splits bind_splits)

lemma elf_load_segments_unaligned:
  assumes "elf_load_segments fd base mn sz phs st = Some (b, st')"
    and "\<exists>ph \<in> set (loads phs). \<not> page_aligned (seg_addr base mn ph)"
  shows "b = 0"
  using assms
proof (induction phs arbitrary: st)
  case (Cons ph phs)
  then show ?case
    by (fastforce simp: loads_def seg_addr_def split: if_splits bind_splits dest: place_unaligned)
qed (simp add: loads_def)

lemma not_aligned_sum:
  assumes "page_aligned base" "\<not> page_aligned d"
  shows "\<not> page_aligned (base + d)"
proof
  have sum: "unat (base + d) mod 4096 = (unat base + unat d) mod 4096"
    by (simp add: unat_word_ariths mod_mod_cancel)
  assume "page_aligned (base + d)"
  then have "4096 dvd unat base + unat d" using sum by (simp add: page_aligned_iff mod_eq_0_iff_dvd)
  moreover have "4096 dvd unat base" using assms(1) by (simp add: page_aligned_iff mod_eq_0_iff_dvd)
  ultimately have "4096 dvd unat d" by (simp only: dvd_add_right_iff)
  then show False using assms(2) by (simp add: page_aligned_iff mod_eq_0_iff_dvd)
qed

text \<open>A file is refused, by every system that gives page-aligned mappings, when it is an
  executable with a loadable segment, or when a loadable segment does not lie at a page distance
  from the lowest one (the segments of ordinary shared objects do not). If the mapping code
  returns at all for such a file, it returns NULL.\<close>

theorem elf_map_segments_rejects:
  assumes "d_fds st fd = Some (contents, pos)" "length contents < 2 ^ 63" "unat (e_phoff header) \<le> length contents"
    and "phdr_table header contents = Some phdrs" "elf_extent phdrs (- 1) 0 = (mn, mx)"
    and "\<forall>n s. malloc_pick env n s \<noteq> 0" "\<forall>n s a. mmap_pick env n s = Some a \<longrightarrow> page_aligned a"
    and "(e_type header = ET_EXEC \<and> loads phdrs \<noteq> []) \<or> (\<exists>ph \<in> set (loads phdrs). \<not> page_aligned (p_vaddr ph - mn))"
    and "elf_map_segments env fd header st = Some (b, st')"
  shows "b = 0"
proof -
  have malloc: "\<And>n s. malloc_pick env n s \<noteq> 0" using assms(6) by blast
  obtain st2 where un: "elf_map_segments env fd header st =
      (let (base, st3) = sys_mmap env (mx - mn) (e_type header = ET_EXEC) st2 in
       if base = 0 then Some (0, st3) else elf_load_segments fd base mn (mx - mn) phdrs st3)"
    using elf_map_segments_unfold [OF assms(1-5) malloc] by blast
  obtain base st3 where mm: "sys_mmap env (mx - mn) (e_type header = ET_EXEC) st2 = (base, st3)" by fastforce
  show ?thesis
  proof (cases "base = 0")
    case True
    then show ?thesis using un mm assms(9) by simp
  next
    case False
    then have run: "elf_load_segments fd base mn (mx - mn) phdrs st3 = Some (b, st')"
      using un mm assms(9) by simp
    have "\<exists>ph \<in> set (loads phdrs). \<not> page_aligned (seg_addr base mn ph)"
    proof (cases "base = MAP_FAILED")
      case True
      have "loads phdrs \<noteq> []" using assms(8) by auto
      then obtain q where q: "q \<in> set (loads phdrs)" by (cases "loads phdrs") auto
      have "mn = - 1 \<or> (\<exists>ph \<in> set (loads phdrs). p_vaddr ph = mn)" "mn \<le> p_vaddr q"
        using elf_extent_bounds [OF assms(5)] q by auto
      then obtain ph where ph: "ph \<in> set (loads phdrs)" "p_vaddr ph = mn"
        using q by (metis word_n1_ge antisym)
      then have "\<not> page_aligned (seg_addr base mn ph)" using True by (simp add: seg_addr_def page_aligned_def)
      then show ?thesis using ph(1) by blast
    next
      case False
      then have "e_type header \<noteq> ET_EXEC" "page_aligned base"
        using mm \<open>base \<noteq> 0\<close> assms(7) by (auto simp: sys_mmap_def split: if_splits option.splits)
      then show ?thesis using assms(8) not_aligned_sum by (auto simp: seg_addr_def)
    qed
    then show ?thesis using elf_load_segments_unaligned [OF run] by blast
  qed
qed

theorem elf_map_segments_rejects_witness:
  "\<exists>st'. elf_map_segments always_env 3 (demo_so 2)
      ((demo_state (\<lambda>_. None))\<lparr>d_fds := (\<lambda>_. Some (demo_phdr @ [7, 8], 64))\<rparr>) = Some (0, st')"
proof -
  let ?st = "(demo_state (\<lambda>_. None))\<lparr>d_fds := (\<lambda>_. Some (demo_phdr @ [7, 8], 64))\<rparr>"
  have len: "length demo_phdr = 56" by (simp add: demo_phdr_def)
  have "\<exists>b st'. elf_map_segments always_env 3 (demo_so 2) ?st = Some (b, st')"
    using demo_table [of 2] demo_extent len
    by (simp add: elf_map_segments_def phdr_table_def Let_def demo_so_def always_env_def sys_lseek_def
        sys_read_local_def sys_mmap_def demo_segment_def place_segment_def sys_read_def writable_def
        demo_state_def split: if_splits)
  then obtain b st' where m: "elf_map_segments always_env 3 (demo_so 2) ?st = Some (b, st')" by blast
  have "b = 0"
    using elf_map_segments_rejects [OF _ _ _ demo_table demo_extent(1) _ _ _ m] len demo_extent(2)
    by (simp add: demo_so_def always_env_def page_aligned_def)
  then show ?thesis using m by blast
qed

section \<open>Symbols\<close>

definition elf_symbol :: "u64 \<Rightarrow> u8 list \<Rightarrow> elf64_sym_t \<Rightarrow> mindyld_symbol_t" where
  "elf_symbol base name e = \<lparr>sym_name = name, sym_address = base + st_value e, sym_size = ucast (st_size e),
     sym_binding = uint (drop_bit 4 (st_info e)), sym_type = uint (st_info e AND 0x0F)\<rparr>"

definition macho_symbol :: "u64 \<Rightarrow> u8 list \<Rightarrow> nlist_64_t \<Rightarrow> mindyld_symbol_t" where
  "macho_symbol base name e = \<lparr>sym_name = name, sym_address = base + n_value e, sym_size = 0,
     sym_binding = uint (drop_bit 8 (n_desc e) AND 0xF), sym_type = uint (n_type e AND 0x0E)\<rparr>"

lemma elf_symtab_loop_find:
  assumes "\<forall>e \<in> set symtab. str_at strtab (unat (st_name e)) \<noteq> None" "malloc_pick env 32 st \<noteq> 0" "n \<le> length symtab"
  shows "elf_symtab_loop env st base name symtab n strtab =
    Some (map_option (elf_symbol base name)
      (find (\<lambda>e. str_at strtab (unat (st_name e)) = Some name) (take n symtab)))"
  using assms
proof (induction env st base name symtab n strtab rule: elf_symtab_loop.induct)
  case (3 env st base name e symtab n strtab)
  obtain sn where "str_at strtab (unat (st_name e)) = Some sn" using 3(2) by auto
  then show ?case using 3 by (auto simp: elf_symbol_def)
qed simp_all

lemma macho_symtab_loop_find:
  assumes "\<forall>e \<in> set symtab. str_at strtab (unat (n_strx e)) \<noteq> None" "malloc_pick env 32 st \<noteq> 0" "n \<le> length symtab"
  shows "macho_symtab_loop env st base name symtab n strtab =
    Some (map_option (macho_symbol base name)
      (find (\<lambda>e. map_option (macho_strip name) (str_at strtab (unat (n_strx e))) = Some name) (take n symtab)))"
  using assms
proof (induction env st base name symtab n strtab rule: macho_symtab_loop.induct)
  case (3 env st base name e symtab n strtab)
  obtain sn where "str_at strtab (unat (n_strx e)) = Some sn" using 3(2) by auto
  then show ?case using 3 by (auto simp: macho_symbol_def)
qed simp_all

lemma strip_iff:
  "macho_strip name sn = name \<longleftrightarrow> (if take 1 name = [0x5F] then sn = name else sn = name \<or> sn = 0x5F # name)"
  by (cases name; cases sn) (auto simp: macho_strip_def)

text \<open>The symbol table searches are defined when every name of the table ends inside the string
  table, and return the first symbol with the name, with its address relative to the load base; a
  Mach-O search for a name without a leading underscore also accepts the name with one.\<close>

theorem find_symbol_first_match:
  assumes "\<forall>e \<in> set symtab. str_at strtab (unat (st_name e)) \<noteq> None" "unat (sz div 24) \<le> length symtab"
    and "\<forall>e \<in> set nlists. str_at strtab (unat (n_strx e)) \<noteq> None" "unat (sz' div 16) \<le> length nlists"
    and "malloc_pick env 32 st \<noteq> 0"
  shows "elf_find_symbol_in_symtab env st handle name symtab sz strtab =
      Some (map_option (elf_symbol (base_address handle) name)
        (find (\<lambda>e. str_at strtab (unat (st_name e)) = Some name) (take (unat (sz div 24)) symtab))) \<and>
    macho_find_symbol_in_symtab env st handle name nlists sz' strtab =
      Some (map_option (macho_symbol (base_address handle) name)
        (find (\<lambda>e. case str_at strtab (unat (n_strx e)) of None \<Rightarrow> False
           | Some sn \<Rightarrow> sn = name \<or> take 1 name \<noteq> [0x5F] \<and> sn = 0x5F # name) (take (unat (sz' div 16)) nlists)))"
proof -
  have "elf_find_symbol_in_symtab env st handle name symtab sz strtab =
      Some (map_option (elf_symbol (base_address handle) name)
        (find (\<lambda>e. str_at strtab (unat (st_name e)) = Some name) (take (unat (sz div 24)) symtab)))"
    unfolding elf_find_symbol_in_symtab_def using assms by (intro elf_symtab_loop_find) auto
  moreover have "macho_find_symbol_in_symtab env st handle name nlists sz' strtab =
      Some (map_option (macho_symbol (base_address handle) name)
        (find (\<lambda>e. map_option (macho_strip name) (str_at strtab (unat (n_strx e))) = Some name) (take (unat (sz' div 16)) nlists)))"
    unfolding macho_find_symbol_in_symtab_def using assms by (intro macho_symtab_loop_find) auto
  moreover have "find (\<lambda>e. map_option (macho_strip name) (str_at strtab (unat (n_strx e))) = Some name) xs =
      find (\<lambda>e. case str_at strtab (unat (n_strx e)) of None \<Rightarrow> False
         | Some sn \<Rightarrow> sn = name \<or> take 1 name \<noteq> [0x5F] \<and> sn = 0x5F # name) xs" for xs :: "nlist_64_t list"
    by (rule find_cong) (auto simp: strip_iff split: option.splits if_splits)
  ultimately show ?thesis by (simp only: simp_thms)
qed

definition demo_sym :: elf64_sym_t where
  "demo_sym = \<lparr>st_name = 1, st_info = 0x12, st_other = 0, st_shndx = 1, st_value = 0x40, st_size = 8\<rparr>"

theorem find_symbol_first_match_witness:
  "elf_find_symbol_in_symtab always_env (demo_state (\<lambda>_. None))
     \<lparr>base_address = 0x10000, h_size = 0, is_executable = False, h_next = 0\<rparr> [97, 98] [demo_sym] 24 [0, 97, 98, 0] =
   Some (Some (elf_symbol 0x10000 [97, 98] demo_sym))"
  using find_symbol_first_match [of "[demo_sym]" "[0, 97, 98, 0]" 24 "[]" 0 always_env "demo_state (\<lambda>_. None)"
      "\<lparr>base_address = 0x10000, h_size = 0, is_executable = False, h_next = 0\<rparr>" "[97, 98]"]
  by (simp add: demo_sym_def always_env_def str_at_def)

section \<open>Relocations\<close>

lemma ld_u64_st_u64 [simp]: "ld_u64 (st_u64 a v m) a = v"
  by (rule bit_word_eqI) (auto simp: ld_u64_def st_u64_def le_simps)

definition slot :: "u64 \<Rightarrow> u64 set" where
  "slot a = {a, a + 1, a + 2, a + 3, a + 4, a + 5, a + 6, a + 7}"

lemma ld_u64_st_u64_other: "slot a \<inter> slot b = {} \<Longrightarrow> ld_u64 (st_u64 a v m) b = ld_u64 m b"
  by (simp add: ld_u64_def st_u64_def slot_def)

lemma st_u64_other: "x \<notin> slot a \<Longrightarrow> st_u64 a v m x = m x"
  by (simp add: st_u64_def slot_def)

definition rela_slot :: "u64 \<Rightarrow> elf64_rela_t \<Rightarrow> u64" where
  "rela_slot base rel = base + r_offset rel"

definition rela_sym :: "u64 \<Rightarrow> elf64_sym_t list \<Rightarrow> elf64_rela_t \<Rightarrow> u64" where
  "rela_sym base symtab rel =
     (let i = unat (drop_bit 32 (r_info rel)) in if i = 0 then 0 else base + st_value (symtab ! i))"

text \<open>The value that a relocation shall give its slot, whose old value is \<open>old\<close>.\<close>

definition rela_value :: "u64 \<Rightarrow> elf64_sym_t list \<Rightarrow> elf64_rela_t \<Rightarrow> u64 \<Rightarrow> u64" where
  "rela_value base symtab rel old =
     (case rela_action (ucast (r_info rel AND 0xFFFFFFFF)) of
        Rela_relative \<Rightarrow> old + base
      | Rela_absolute \<Rightarrow> rela_sym base symtab rel + r_addend rel
      | Rela_symbol \<Rightarrow> rela_sym base symtab rel
      | Rela_none \<Rightarrow> old)"

definition rela_ok :: "u64 \<Rightarrow> elf64_sym_t list \<Rightarrow> dyld \<Rightarrow> elf64_rela_t \<Rightarrow> bool" where
  "rela_ok base symtab st rel \<longleftrightarrow>
     (unat (drop_bit 32 (r_info rel)) = 0 \<or> unat (drop_bit 32 (r_info rel)) < length symtab) \<and>
     writable st (rela_slot base rel) \<and> writable st (rela_slot base rel + 7)"

lemma elf_apply_rela_value:
  assumes "rela_ok base symtab st rel"
  shows "\<exists>m. elf_apply_rela base symtab rel st = Some (st\<lparr>d_mem := m\<rparr>) \<and>
    ld_u64 m (rela_slot base rel) = rela_value base symtab rel (ld_u64 (d_mem st) (rela_slot base rel)) \<and>
    (\<forall>x. x \<notin> slot (rela_slot base rel) \<longrightarrow> m x = d_mem st x)"
proof -
  have sym: "(if unat (drop_bit 32 (r_info rel)) \<noteq> 0
      then if unat (drop_bit 32 (r_info rel)) < length symtab
           then Some (base + st_value (symtab ! unat (drop_bit 32 (r_info rel)))) else None
      else Some 0) = Some (rela_sym base symtab rel)"
    using assms by (auto simp: rela_ok_def rela_sym_def Let_def)
  have put: "put_u64 (rela_slot base rel) v st = Some (st\<lparr>d_mem := st_u64 (rela_slot base rel) v (d_mem st)\<rparr>)" for v
    using assms by (simp add: put_u64_def rela_ok_def)
  show ?thesis
    unfolding elf_apply_rela_def Let_def sym rela_slot_def [symmetric] put
    by (cases "rela_action (ucast (r_info rel AND 0xFFFFFFFF))")
      (auto simp: rela_value_def st_u64_other intro: exI [of _ "d_mem st"])
qed

lemma elf_rela_loop_values:
  assumes "\<And>r. r \<in> set rela \<Longrightarrow> rela_ok base symtab st r"
    and "sorted_wrt (\<lambda>r q. slot (rela_slot base r) \<inter> slot (rela_slot base q) = {}) rela"
  shows "\<exists>m. elf_rela_loop base symtab rela st = Some (st\<lparr>d_mem := m\<rparr>) \<and>
    (\<forall>r \<in> set rela. ld_u64 m (rela_slot base r) = rela_value base symtab r (ld_u64 (d_mem st) (rela_slot base r))) \<and>
    (\<forall>x. (\<forall>r \<in> set rela. x \<notin> slot (rela_slot base r)) \<longrightarrow> m x = d_mem st x)"
  using assms
proof (induction rela arbitrary: st)
  case Nil
  then show ?case by (auto intro: exI [of _ "d_mem st"])
next
  case (Cons r rela)
  obtain m1 where m1: "elf_apply_rela base symtab r st = Some (st\<lparr>d_mem := m1\<rparr>)"
    "ld_u64 m1 (rela_slot base r) = rela_value base symtab r (ld_u64 (d_mem st) (rela_slot base r))"
    "\<And>x. x \<notin> slot (rela_slot base r) \<Longrightarrow> m1 x = d_mem st x"
    using elf_apply_rela_value [of base symtab st r] Cons.prems(1) by auto
  have apart: "slot (rela_slot base r) \<inter> slot (rela_slot base q) = {}" if "q \<in> set rela" for q
    using Cons.prems(2) that by simp
  have ld: "ld_u64 m b = ld_u64 m' b" if "\<And>x. x \<in> slot b \<Longrightarrow> m x = m' x" for m m' b
    using that by (simp add: ld_u64_def slot_def)
  obtain m where m: "elf_rela_loop base symtab rela (st\<lparr>d_mem := m1\<rparr>) = Some (st\<lparr>d_mem := m\<rparr>)"
    "\<forall>q \<in> set rela. ld_u64 m (rela_slot base q) = rela_value base symtab q (ld_u64 m1 (rela_slot base q))"
    "\<And>x. \<forall>q \<in> set rela. x \<notin> slot (rela_slot base q) \<Longrightarrow> m x = m1 x"
    using Cons.IH [of "st\<lparr>d_mem := m1\<rparr>"] Cons.prems by (auto simp: rela_ok_def writable_def)
  have "ld_u64 m (rela_slot base r) = ld_u64 m1 (rela_slot base r)"
    by (rule ld) (use m(3) apart in blast)
  moreover have "ld_u64 m1 (rela_slot base q) = ld_u64 (d_mem st) (rela_slot base q)" if "q \<in> set rela" for q
    by (rule ld) (use m1(3) apart [OF that] in blast)
  ultimately show ?case using m1 m by auto
qed

text \<open>Relocations with disjoint writable slots and symbols inside the table all succeed: every
  slot gets exactly the value of its kind, computed from the original contents, and no other byte
  changes. (All kinds write eight bytes, also the ones of the 32-bit machines.)\<close>

theorem elf_process_rela_values:
  assumes "\<forall>r \<in> set rela. rela_ok (base_address handle) symtab st r" "length rela = unat n"
    and "sorted_wrt (\<lambda>r q. slot (rela_slot (base_address handle) r) \<inter> slot (rela_slot (base_address handle) q) = {}) rela"
  shows "\<exists>st'. elf_process_rela handle rela n symtab st = Some (MINDYLD_OK, st') \<and>
    (\<forall>r \<in> set rela. ld_u64 (d_mem st') (rela_slot (base_address handle) r) =
       rela_value (base_address handle) symtab r (ld_u64 (d_mem st) (rela_slot (base_address handle) r))) \<and>
    (\<forall>x. (\<forall>r \<in> set rela. x \<notin> slot (rela_slot (base_address handle) r)) \<longrightarrow> d_mem st' x = d_mem st x)"
  using elf_rela_loop_values [of rela "base_address handle" symtab st] assms
  by (auto simp: elf_process_rela_def)

theorem elf_process_rela_values_witness:
  "\<exists>st'. elf_process_rela \<lparr>base_address = 0x10000, h_size = 0, is_executable = False, h_next = 0\<rparr>
      [\<lparr>r_offset = 8, r_info = 8, r_addend = 0\<rparr>] 1 []
      ((demo_state (\<lambda>_. None))\<lparr>d_pages := (\<lambda>_. Some 2)\<rparr>) = Some (MINDYLD_OK, st') \<and>
    ld_u64 (d_mem st') 0x10008 = 0x10000"
  using elf_process_rela_values [of "[\<lparr>r_offset = 8, r_info = 8, r_addend = 0\<rparr>]"
      "\<lparr>base_address = 0x10000, h_size = 0, is_executable = False, h_next = 0\<rparr>" "[]"
      "(demo_state (\<lambda>_. None))\<lparr>d_pages := (\<lambda>_. Some 2)\<rparr>" 1]
  by (auto simp: rela_ok_def writable_def rela_slot_def rela_value_def rela_action_def demo_state_def
      ld_u64_def [of "\<lambda>_. 0"] le32_def le64_def)

end
