(* ===== verification/Pex_Tree.thy ===== *)
theory Pex_Tree
  imports Libc_String
begin

text \<open>
  The kernel's reader of the flattened device tree (\<open>pexpert/gen/device_tree.c\<close>), on the flat 32-bit
  memory. An entry is the address of its node: two counts, then the properties, then the children.
  A pointer result that may be NULL is the address 0. The recursive walks over memory are
  \<open>partial_function\<close>s: \<open>None\<close> is a walk that never ends, as it may on a malformed tree.

  The names that callers pass are byte lists without NUL; comparing a string in memory with such a
  list by \<open>strcmp\<close> is the predicate \<open>cstr\<close>. The stack of saved scopes of an entry iterator, a linked
  list that only the iterator reaches, is a list.
\<close>

abbreviation (input) kSuccess :: int where "kSuccess \<equiv> 1"
abbreviation (input) kError :: int where "kError \<equiv> - 1"
abbreviation (input) kIterationDone :: int where "kIterationDone \<equiv> 0"

text \<open>The fields of a node and of a property.\<close>

definition nProperties :: "mem \<Rightarrow> u32 \<Rightarrow> u32" where "nProperties m entry = ld32 m entry"
definition nChildren :: "mem \<Rightarrow> u32 \<Rightarrow> u32" where "nChildren m entry = ld32 m (entry + 4)"
definition prop_length :: "mem \<Rightarrow> u32 \<Rightarrow> u32" where "prop_length m prop = ld32 m (prop + 32)"

definition round_long :: "u32 \<Rightarrow> u32" where
  "round_long x = (x + 3) AND NOT 3"

definition next_prop :: "mem \<Rightarrow> u32 \<Rightarrow> u32" where
  "next_prop m prop = prop + 36 + round_long (prop_length m prop)"

section \<open>Support routines\<close>

fun skip_props :: "mem \<Rightarrow> nat \<Rightarrow> u32 \<Rightarrow> u32" where
  "skip_props m 0 prop = prop"
| "skip_props m (Suc k) prop = skip_props m k (next_prop m prop)"

definition skipProperties :: "mem \<Rightarrow> u32 \<Rightarrow> u32" where
  "skipProperties m entry =
     (if entry = 0 \<or> nProperties m entry = 0 then 0
      else skip_props m (unat (nProperties m entry)) (entry + 8))"

text \<open>Skipping \<open>n\<close> sibling trees, each by its properties and then its children.\<close>

partial_function (option) skip_trees :: "mem \<Rightarrow> nat \<Rightarrow> u32 \<Rightarrow> u32 option" where
  "skip_trees m n entry =
     (case n of
        0 \<Rightarrow> Some entry
      | Suc k \<Rightarrow> do {
          e \<leftarrow> (let s = skipProperties m entry in
               if s = 0 then Some 0 else skip_trees m (unat (nChildren m entry)) s);
          skip_trees m k e
        })"

definition skipTree :: "mem \<Rightarrow> u32 \<Rightarrow> u32 option" where
  "skipTree m root =
     (let entry = skipProperties m root in
      if entry = 0 then Some 0 else skip_trees m (unat (nChildren m root)) entry)"

definition GetFirstChild :: "mem \<Rightarrow> u32 \<Rightarrow> u32" where
  "GetFirstChild m parent = skipProperties m parent"

definition GetNextChild :: "mem \<Rightarrow> u32 \<Rightarrow> u32 option" where
  "GetNextChild m sibling = skipTree m sibling"

text \<open>
  The next component of a path and the rest of the path. A component of more than 63 bytes
  gives an empty component and stops inside the path.
\<close>

fun next_component :: "nat \<Rightarrow> u8 list \<Rightarrow> u8 list \<Rightarrow> u8 list \<times> u8 list" where
  "next_component len buf [] = (buf, [])"
| "next_component len buf (c # cp) =
     (if c = 0x2F then (buf, cp)
      else if len + 1 > 63 then ([], c # cp)
      else next_component (len + 1) (buf @ [c]) cp)"

definition GetNextComponent :: "u8 list \<Rightarrow> u8 list \<times> u8 list" where
  "GetNextComponent cp = next_component 0 [] cp"

section \<open>Properties\<close>

fun get_prop_loop :: "mem \<Rightarrow> nat \<Rightarrow> u32 \<Rightarrow> u8 list \<Rightarrow> (u32 \<times> u32) option" where
  "get_prop_loop m 0 prop name = None"
| "get_prop_loop m (Suc k) prop name =
     (if cstr m prop name then Some (prop + 36, prop_length m prop)
      else get_prop_loop m k (next_prop m prop) name)"

text \<open>\<open>None\<close> is \<open>kError\<close>, otherwise the address of the value and its size.\<close>

definition DTGetProperty :: "mem \<Rightarrow> u32 \<Rightarrow> u8 list \<Rightarrow> (u32 \<times> u32) option" where
  "DTGetProperty m entry name =
     (if entry = 0 \<or> nProperties m entry = 0 then None
      else get_prop_loop m (unat (nProperties m entry)) (entry + 8) name)"

abbreviation (input) name_prop :: "u8 list" where "name_prop \<equiv> [0x6E, 0x61, 0x6D, 0x65]"

section \<open>Children and paths\<close>

text \<open>\<open>left\<close> children are still to be looked at, the first of them at \<open>child\<close>.\<close>

fun find_child_loop :: "mem \<Rightarrow> nat \<Rightarrow> u32 \<Rightarrow> u8 list \<Rightarrow> u32 option" where
  "find_child_loop m 0 child buf = Some 0"
| "find_child_loop m (Suc left) child buf =
     (case DTGetProperty m child name_prop of
        None \<Rightarrow> Some 0
      | Some (str, _) \<Rightarrow>
          if cstr m str buf then Some child
          else if left = 0 then Some 0
          else do { child' \<leftarrow> GetNextChild m child; find_child_loop m left child' buf })"

definition FindChild :: "mem \<Rightarrow> u32 \<Rightarrow> u8 list \<Rightarrow> u32 option" where
  "FindChild m cur buf =
     (if nChildren m cur = 0 then Some 0
      else find_child_loop m (unat (nChildren m cur)) (GetFirstChild m cur) buf)"

record dtree_state =
  DTInitialized :: bool
  DTRootNode :: u32

definition DTInit :: "u32 \<Rightarrow> dtree_state" where
  "DTInit base = \<lparr>DTInitialized = (base \<noteq> 0), DTRootNode = base\<rparr>"

definition DTEntryIsEqual :: "u32 \<Rightarrow> u32 \<Rightarrow> bool" where
  "DTEntryIsEqual ref1 ref2 \<longleftrightarrow> ref1 = ref2"

lemma next_component_shorter:
  "next_component len buf cp = (b, cp') \<Longrightarrow> b \<noteq> buf \<Longrightarrow> b \<noteq> [] \<Longrightarrow> length cp' < length cp"
proof (induction len buf cp rule: next_component.induct)
  case (2 len buf c cp)
  show ?case
  proof (cases "c = 0x2F \<or> len + 1 > 63")
    case False
    then have n: "next_component (len + 1) (buf @ [c]) cp = (b, cp')" using 2(2) by simp
    show ?thesis
    proof (cases "b = buf @ [c]")
      case True
      have "length cp'' \<le> length cp" if "next_component l bb cp = (b, cp'')" for l bb cp''
        using that by (induction l bb cp rule: next_component.induct) (auto split: if_splits)
      then show ?thesis using n by (simp add: less_Suc_eq_le)
    next
      case b: False
      then show ?thesis using 2(1) [OF _ _ n] False 2(4) by simp
    qed
  qed (use 2 in \<open>auto split: if_splits\<close>)
qed simp

function lookup_loop :: "mem \<Rightarrow> u32 \<Rightarrow> u8 list \<Rightarrow> u32 option option" where
  "lookup_loop m cur cp =
     (case GetNextComponent cp of (buf, cp') \<Rightarrow>
        if buf = [] then Some (if cp' = [] then Some cur else None)
        else case FindChild m cur buf of
          None \<Rightarrow> None
        | Some child \<Rightarrow> if child = 0 then Some None else lookup_loop m child cp')"
  by pat_completeness auto
termination
  by (relation "measure (\<lambda>(m, cur, cp). length cp)")
    (auto simp: GetNextComponent_def dest: next_component_shorter [OF sym])

declare lookup_loop.simps [simp del]

text \<open>\<open>Some None\<close> is \<open>kError\<close>, \<open>Some (Some e)\<close> is \<open>kSuccess\<close> with the entry \<open>e\<close>.\<close>

definition DTLookupEntry :: "mem \<Rightarrow> dtree_state \<Rightarrow> u32 \<Rightarrow> u8 list \<Rightarrow> u32 option option" where
  "DTLookupEntry m dt searchPoint pathName =
     (if \<not> DTInitialized dt then Some None
      else let cur = (if searchPoint = 0 then DTRootNode dt else searchPoint) in
        case pathName of
          [] \<Rightarrow> lookup_loop m cur []
        | c # cp \<Rightarrow>
            if c = 0x2F then if cp = [] then Some (Some cur) else lookup_loop m cur cp
            else lookup_loop m cur pathName)"

section \<open>Search by property\<close>

text \<open>
  The properties of a node: whether one matches, and the position after the last one looked at.
  A missing value matches every value.
\<close>

fun search_props :: "mem \<Rightarrow> u8 list \<Rightarrow> u8 list option \<Rightarrow> nat \<Rightarrow> u32 \<Rightarrow> bool \<times> u32" where
  "search_props m pn pv 0 p = (False, p)"
| "search_props m pn pv (Suc k) p =
     (let p' = p + 36 + ((prop_length m p + 3) AND (- 4)) in
      if cstr m p pn \<and> (case pv of None \<Rightarrow> True | Some v \<Rightarrow> cstr m (p + 36) v) then (True, p')
      else search_props m pn pv k p')"

text \<open>
  \<open>n\<close> calls of \<open>find_entry\<close> in a row from \<open>startingP\<close>, until one succeeds: the entry found, if
  any, and the new \<open>startingP\<close>.
\<close>

partial_function (option) find_entries ::
  "mem \<Rightarrow> u8 list \<Rightarrow> u8 list option \<Rightarrow> nat \<Rightarrow> u32 \<Rightarrow> (u32 option \<times> u32) option" where
  "find_entries m pn pv n p =
     (case n of
        0 \<Rightarrow> Some (None, p)
      | Suc k \<Rightarrow> do {
          (r, p') \<leftarrow>
            (if nProperties m p = 0 then Some (None, p)
             else case search_props m pn pv (unat (nProperties m p)) (p + 8) of
               (hit, p'') \<Rightarrow> if hit then Some (Some p, p'')
                 else find_entries m pn pv (unat (nChildren m p)) p'');
          case r of Some e \<Rightarrow> Some (Some e, p') | None \<Rightarrow> find_entries m pn pv k p'
        })"

definition find_entry :: "mem \<Rightarrow> u8 list \<Rightarrow> u8 list option \<Rightarrow> u32 \<Rightarrow> (u32 option \<times> u32) option" where
  "find_entry m pn pv startingP = find_entries m pn pv 1 startingP"

definition DTFindEntry :: "mem \<Rightarrow> dtree_state \<Rightarrow> u8 list \<Rightarrow> u8 list option \<Rightarrow> u32 option option" where
  "DTFindEntry m dt propName propValue =
     (if \<not> DTInitialized dt then Some None
      else map_option fst (find_entry m propName propValue (DTRootNode dt)))"

section \<open>Entry iterators\<close>

record DTSavedScope =
  sv_scope :: u32
  sv_entry :: u32
  sv_index :: u32

record OpaqueDTEntryIterator =
  outerScope :: u32
  currentScope :: u32
  currentEntry :: u32
  savedScope :: "DTSavedScope list"
  currentIndex :: u32

definition DTCreateEntryIterator :: "dtree_state \<Rightarrow> u32 \<Rightarrow> OpaqueDTEntryIterator option" where
  "DTCreateEntryIterator dt startEntry =
     (if \<not> DTInitialized dt then None
      else let s = (if startEntry \<noteq> 0 then startEntry else DTRootNode dt) in
        Some \<lparr>outerScope = s, currentScope = s, currentEntry = 0, savedScope = [], currentIndex = 0\<rparr>)"

text \<open>Disposing frees the saved scopes and the iterator; the value is the status.\<close>

definition DTDisposeEntryIterator :: "OpaqueDTEntryIterator \<Rightarrow> int" where
  "DTDisposeEntryIterator iter = kSuccess"

definition DTEnterEntry :: "u32 \<Rightarrow> OpaqueDTEntryIterator \<Rightarrow> int \<times> OpaqueDTEntryIterator" where
  "DTEnterEntry childEntry iter =
     (if childEntry = 0 then (kError, iter)
      else (kSuccess, iter\<lparr>
        savedScope := \<lparr>sv_scope = currentScope iter, sv_entry = currentEntry iter, sv_index = currentIndex iter\<rparr>
          # savedScope iter,
        currentScope := childEntry, currentEntry := 0, currentIndex := 0\<rparr>))"

text \<open>The third component is the position that is returned through the pointer argument.\<close>

definition DTExitEntry :: "OpaqueDTEntryIterator \<Rightarrow> int \<times> OpaqueDTEntryIterator \<times> u32 option" where
  "DTExitEntry iter =
     (case savedScope iter of
        [] \<Rightarrow> (kError, iter, None)
      | s # rest \<Rightarrow>
          (kSuccess, iter\<lparr>savedScope := rest, currentScope := sv_scope s, currentEntry := sv_entry s,
             currentIndex := sv_index s\<rparr>, Some (sv_entry s)))"

definition DTIterateEntries :: "mem \<Rightarrow> OpaqueDTEntryIterator \<Rightarrow> (int \<times> OpaqueDTEntryIterator \<times> u32) option" where
  "DTIterateEntries m iter =
     (if currentIndex iter \<ge> nChildren m (currentScope iter) then Some (kIterationDone, iter, 0)
      else do {
        let i = currentIndex iter + 1;
        e \<leftarrow> (if i = 1 then Some (GetFirstChild m (currentScope iter))
             else GetNextChild m (currentEntry iter));
        Some (kSuccess, iter\<lparr>currentIndex := i, currentEntry := e\<rparr>, e)
      })"

definition DTRestartEntryIteration :: "OpaqueDTEntryIterator \<Rightarrow> int \<times> OpaqueDTEntryIterator" where
  "DTRestartEntryIteration iter = (kSuccess, iter\<lparr>currentEntry := 0, currentIndex := 0\<rparr>)"

section \<open>Property iterators\<close>

record OpaqueDTPropertyIterator =
  pi_entry :: u32
  pi_currentProperty :: u32
  pi_currentIndex :: u32

definition DTCreatePropertyIterator :: "u32 \<Rightarrow> OpaqueDTPropertyIterator" where
  "DTCreatePropertyIterator entry = \<lparr>pi_entry = entry, pi_currentProperty = 0, pi_currentIndex = 0\<rparr>"

definition DTDisposePropertyIterator :: "OpaqueDTPropertyIterator \<Rightarrow> int" where
  "DTDisposePropertyIterator iter = kSuccess"

definition DTIterateProperties :: "mem \<Rightarrow> OpaqueDTPropertyIterator \<Rightarrow> int \<times> OpaqueDTPropertyIterator \<times> u32" where
  "DTIterateProperties m iter =
     (if pi_currentIndex iter \<ge> nProperties m (pi_entry iter) then (kIterationDone, iter, 0)
      else let i = pi_currentIndex iter + 1;
               p = (if i = 1 then pi_entry iter + 8 else next_prop m (pi_currentProperty iter))
        in (kSuccess, iter\<lparr>pi_currentIndex := i, pi_currentProperty := p\<rparr>, p))"

definition DTRestartPropertyIteration :: "OpaqueDTPropertyIterator \<Rightarrow> int \<times> OpaqueDTPropertyIterator" where
  "DTRestartPropertyIteration iter = (kSuccess, iter\<lparr>pi_currentProperty := 0, pi_currentIndex := 0\<rparr>)"

end
