(* ===== verification/Pex_Args.thy ===== *)
theory Pex_Args
  imports Pex_Tree
begin

text \<open>
  The kernel's boot arguments and defaults (\<open>pexpert/gen/bootargs.c\<close>). A position in the argument
  string is the byte list from there to the end; the empty list is the terminating NUL. What the
  parser stores through its pointer argument is a change of the flat memory. The build option
  \<open>CONFIG_EMBEDDED\<close> is a parameter.
\<close>

section \<open>Helpers\<close>

text \<open>The byte at a position.\<close>

definition at :: "u8 list \<Rightarrow> u8" where
  "at s = (case s of [] \<Rightarrow> 0 | c # _ \<Rightarrow> c)"

definition isargsep :: "u8 \<Rightarrow> bool" where
  "isargsep c \<longleftrightarrow> c = 0x20 \<or> c = 0 \<or> c = 0x09"

text \<open>Copying a word: the number of bytes and the memory, in which the copy is terminated.\<close>

fun argstrcpy :: "u8 list \<Rightarrow> u32 \<Rightarrow> mem \<Rightarrow> nat \<times> mem" where
  "argstrcpy [] dst m = (0, m(dst := 0))"
| "argstrcpy (c # from) dst m =
     (if isargsep c then (0, m(dst := 0))
      else case argstrcpy from (dst + 1) (m(dst := c)) of (i, m') \<Rightarrow> (Suc i, m'))"

fun argstrcpy2 :: "u8 list \<Rightarrow> u32 \<Rightarrow> nat \<Rightarrow> mem \<Rightarrow> nat \<times> mem" where
  "argstrcpy2 [] dst maxlen m = (0, m(dst := 0))"
| "argstrcpy2 (c # from) dst maxlen m =
     (if isargsep c \<or> maxlen = 0 then (0, m(dst := 0))
      else case argstrcpy2 from (dst + 1) (maxlen - 1) (m(dst := c)) of (i, m') \<Rightarrow> (Suc i, m'))"

text \<open>
  Storing a number in the size of the caller's variable; the 24-bit field is its three low bytes.
  The maximal length arrives as an unsigned number, so that \<open>- 1\<close> is a large one.
\<close>

definition argnumcpy :: "u32 \<Rightarrow> u32 \<Rightarrow> u32 \<Rightarrow> mem \<Rightarrow> u32 \<times> mem" where
  "argnumcpy val dst maxlen m =
     (if maxlen = 0 then (maxlen, m)
      else if maxlen = 1 then (maxlen, m(dst := byte_of 0 val))
      else if maxlen = 2 then (maxlen, m(dst := byte_of 0 val, dst + 1 := byte_of 1 val))
      else if maxlen = 3 then
        (maxlen, m(dst := byte_of 0 val, dst + 1 := byte_of 1 val, dst + 2 := byte_of 2 val))
      else (4, st32 dst val m))"

section \<open>Numbers\<close>

text \<open>The digit that a byte is in a radix, and the factor that a suffix letter stands for.\<close>

definition arg_digit :: "u32 \<Rightarrow> u8 \<Rightarrow> u8 option" where
  "arg_digit radix c =
     (if radix \<le> 10 \<and> c \<ge> 0x30 \<and> ucast c \<le> 0x39 - (10 - radix) then Some (c - 0x30)
      else if radix = 16 \<and> c \<ge> 0x30 \<and> c \<le> 0x39 then Some (c - 0x30)
      else if radix = 16 \<and> c \<ge> 0x61 \<and> c \<le> 0x66 then Some (c - (0x61 - 10))
      else if radix = 16 \<and> c \<ge> 0x41 \<and> c \<le> 0x46 then Some (c - (0x41 - 10))
      else None)"

definition arg_suffix :: "u8 \<Rightarrow> u32 option" where
  "arg_suffix c =
     (if c = 0x6B \<or> c = 0x4B then Some 1024
      else if c = 0x6D \<or> c = 0x4D then Some (1024 * 1024)
      else if c = 0x67 \<or> c = 0x47 then Some (1024 * 1024 * 1024)
      else None)"

text \<open>The loop over the digits. \<open>None\<close> is \<open>STR\<close>, \<open>Some v\<close> is \<open>NUM\<close> with the value \<open>v\<close>.\<close>

fun getval_loop :: "u32 \<Rightarrow> u32 \<Rightarrow> u32 \<Rightarrow> u8 list \<Rightarrow> u32 option" where
  "getval_loop radix sign intval [] = Some (intval * sign)"
| "getval_loop radix sign intval (c # s) =
     (if isargsep c then Some (intval * sign)
      else case arg_digit radix c of
          Some d \<Rightarrow>
            if ucast d \<ge> radix then None
            else getval_loop radix sign (intval * radix + ucast d) s
        | None \<Rightarrow>
            (case arg_suffix c of
               Some k \<Rightarrow> if isargsep (at s) then Some (intval * (sign * k)) else None
             | None \<Rightarrow> None))"

text \<open>The number after the sign: its first byte, perhaps a prefix for the radix, and the loop.\<close>

definition getval_number :: "u32 \<Rightarrow> u8 list \<Rightarrow> u32 option" where
  "getval_number sign s =
     (let intval = ucast (at s) - 0x30 in
      if intval = 0 then
        (let c = at (tl s) in
         if c = 0x78 then getval_loop 16 sign intval (tl (tl s))
         else if c = 0x62 then getval_loop 2 sign intval (tl (tl s))
         else if 0x30 \<le> c \<and> c \<le> 0x37 then getval_loop 8 sign (ucast c - 0x30) (tl (tl s))
         else if \<not> isargsep c then None
         else getval_loop 10 sign intval (tl s))
      else if intval \<ge> 10 then None
      else getval_loop 10 sign intval (tl s))"

definition getval :: "u8 list \<Rightarrow> u32 option" where
  "getval s =
     (if at s = 0x3D then
        if at (tl s) = 0x2D then getval_number (- 1) (tl (tl s)) else getval_number 1 (tl s)
      else Some 1)"

section \<open>Searching the arguments\<close>

text \<open>The end of an iteration: the rest of the current word and the white space behind it.\<close>

definition next_arg :: "u8 list \<Rightarrow> u8 list" where
  "next_arg args = dropWhile isargsep (dropWhile (\<lambda>c. \<not> isargsep c) args)"

text \<open>
  What is done with a value: \<open>cp\<close> is at the equals sign. A name with an underscore copies a string
  of at most 16 bytes, or of the caller's length if that is more.
\<close>

definition store_string :: "bool \<Rightarrow> u8 list \<Rightarrow> u32 \<Rightarrow> int \<Rightarrow> mem \<Rightarrow> mem" where
  "store_string embedded cp arg_ptr max_len m =
     (if max_len > 0 then snd (argstrcpy2 (tl cp) arg_ptr (nat (max_len - 1)) m)
      else if \<not> embedded \<and> max_len = - 1 then snd (argstrcpy (tl cp) arg_ptr m)
      else m)"

function parse_loop ::
  "bool \<Rightarrow> u8 list \<Rightarrow> u32 \<Rightarrow> int \<Rightarrow> u8 list \<Rightarrow> bool \<Rightarrow> mem \<Rightarrow> bool \<times> mem" where
  "parse_loop embedded arg_string arg_ptr max_len args arg_found m =
     (if args = [] then (arg_found, m)
      else
        let arg_boolean = (at args = 0x2D);
            name = takeWhile (\<lambda>c. \<not> isargsep c \<and> c \<noteq> 0x3D) args;
            cp = dropWhile (\<lambda>c. \<not> isargsep c \<and> c \<noteq> 0x3D) args;
            c = at cp;
            i = length name
        in
        if c \<noteq> 0x3D \<and> \<not> arg_boolean then
          parse_loop embedded arg_string arg_ptr max_len (next_arg args) arg_found m
        else if take i args \<noteq> take i arg_string \<or> i \<noteq> length arg_string then
          parse_loop embedded arg_string arg_ptr max_len (next_arg args) arg_found m
        else if arg_boolean then (True, snd (argnumcpy 1 arg_ptr (of_int max_len) m))
        else
          let cp2 = dropWhile isargsep cp in
          if at cp2 = 0x3D \<and> c \<noteq> 0x3D then
            parse_loop embedded arg_string arg_ptr max_len (next_arg (tl cp2)) arg_found m
          else if at arg_string = 0x5F then
            (True, snd (argstrcpy2 (tl cp2) arg_ptr (nat ((if 17 > max_len then 17 else max_len) - 1)) m))
          else
            parse_loop embedded arg_string arg_ptr max_len (next_arg args) True
              (case getval cp2 of
                 Some val \<Rightarrow> snd (argnumcpy val arg_ptr (of_int max_len) m)
               | None \<Rightarrow> store_string embedded cp2 arg_ptr max_len m))"
  by pat_completeness auto


lemma length_next_arg: "length (next_arg args) \<le> length args" "args \<noteq> [] \<Longrightarrow> length (next_arg args) < length args"
proof -
  show le: "length (next_arg args) \<le> length args"
    unfolding next_arg_def by (meson le_trans length_dropWhile_le)
  assume "args \<noteq> []"
  then obtain c cs where "args = c # cs" by (cases args) auto
  moreover have "length (dropWhile P cs) < Suc (length cs)" for P :: "u8 \<Rightarrow> bool"
    by (simp add: length_dropWhile_le less_Suc_eq_le)
  moreover have "length (dropWhile isargsep (dropWhile P cs)) < Suc (length cs)" for P
    by (meson length_dropWhile_le le_trans less_Suc_eq_le)
  ultimately show "length (next_arg args) < length args" by (simp add: next_arg_def)
qed

lemma length_after_value:
  assumes "args \<noteq> []"
  shows "length (next_arg (tl (dropWhile isargsep (dropWhile P args)))) < length args"
proof -
  have "length (dropWhile isargsep (dropWhile P args)) \<le> length args"
    by (meson le_trans length_dropWhile_le)
  then have "length (tl (dropWhile isargsep (dropWhile P args))) < length args"
    using assms by (cases args) (auto simp: length_tl)
  then show ?thesis using length_next_arg(1) le_less_trans by blast
qed

termination parse_loop
  by (relation "measure (\<lambda>(embedded, arg_string, arg_ptr, max_len, args, arg_found, m). length args)")
    (auto simp: length_next_arg length_after_value)

declare parse_loop.simps [simp del]

definition PE_parse_boot_argn ::
  "bool \<Rightarrow> u8 list \<Rightarrow> u8 list \<Rightarrow> u32 \<Rightarrow> int \<Rightarrow> mem \<Rightarrow> bool \<times> mem" where
  "PE_parse_boot_argn embedded boot_args arg_string arg_ptr max_len m =
     (if boot_args = [] then (False, m)
      else if embedded \<and> max_len = - 1 then (False, m)
      else parse_loop embedded arg_string arg_ptr max_len (dropWhile isargsep boot_args) False m)"

definition PE_parse_boot_arg :: "bool \<Rightarrow> u8 list \<Rightarrow> u8 list \<Rightarrow> u32 \<Rightarrow> mem \<Rightarrow> bool \<times> mem" where
  "PE_parse_boot_arg embedded boot_args arg_string arg_ptr m =
     PE_parse_boot_argn embedded boot_args arg_string arg_ptr (if embedded then 4 else - 1) m"

definition PE_imgsrc_mount_supported :: bool where
  "PE_imgsrc_mount_supported \<longleftrightarrow> True"

section \<open>Defaults\<close>

text \<open>The C library's \<open>memcpy\<close> of the kernel: a block of bytes, read before it is written.\<close>

definition copy_block :: "u32 \<Rightarrow> u32 \<Rightarrow> u32 \<Rightarrow> mem \<Rightarrow> mem" where
  "copy_block dst src n m = (\<lambda>x. if in_block dst (unat n) x then m (src + (x - dst)) else m x)"

text \<open>
  \<open>IODTGetDefault\<close> is I/O Kit's reader, given the name, the pointer, the size and the memory. The
  path is \<open>/defaults\<close>. \<open>None\<close> is a device tree on which the walk does not end.
\<close>

definition defaults_path :: "u8 list" where
  "defaults_path = [0x2F, 0x64, 0x65, 0x66, 0x61, 0x75, 0x6C, 0x74, 0x73]"

definition PE_get_default ::
  "(u8 list \<Rightarrow> u32 \<Rightarrow> u32 \<Rightarrow> mem \<Rightarrow> int \<times> mem) \<Rightarrow> dtree_state \<Rightarrow> u8 list \<Rightarrow> u32 \<Rightarrow> u32 \<Rightarrow> mem
    \<Rightarrow> (bool \<times> mem) option" where
  "PE_get_default IODTGetDefault dt property_name property_ptr max_property m = do {
     r \<leftarrow> DTLookupEntry m dt 0 defaults_path;
     Some (case r of
       Some dte \<Rightarrow>
         (case DTGetProperty m dte property_name of
            None \<Rightarrow> (False, m)
          | Some (property_data, property_size) \<Rightarrow>
              if property_size > max_property then (False, m)
              else (True, copy_block property_ptr property_data property_size m))
     | None \<Rightarrow>
         (case IODTGetDefault property_name property_ptr max_property m of (e, m') \<Rightarrow> (e = 0, m')))
   }"

section \<open>Words\<close>

text \<open>The words of an argument string, and what a word says: a name, and perhaps a value.\<close>

function arg_words :: "u8 list \<Rightarrow> u8 list list" where
  "arg_words s =
     (let s' = dropWhile isargsep s in
      if s' = [] then [] else takeWhile (\<lambda>c. \<not> isargsep c) s' # arg_words (dropWhile (\<lambda>c. \<not> isargsep c) s'))"
  by pat_completeness auto
termination
proof (relation "measure length", goal_cases)
  case (2 s s')
  then have "\<not> isargsep (hd s')" by (metis hd_dropWhile)
  moreover obtain c cs where "s' = c # cs" using 2(2) by (meson neq_Nil_conv)
  ultimately have "s' = c # cs" "\<not> isargsep c" by simp_all
  moreover have "length s' \<le> length s" using 2 by (simp add: length_dropWhile_le)
  moreover have "length (dropWhile (\<lambda>c. \<not> isargsep c) cs) \<le> length cs" by (rule length_dropWhile_le)
  ultimately show ?case by simp
qed simp

declare arg_words.simps [simp del]

definition word_name :: "u8 list \<Rightarrow> u8 list" where
  "word_name w = takeWhile (\<lambda>c. c \<noteq> 0x3D) w"

definition word_matches :: "u8 list \<Rightarrow> u8 list \<Rightarrow> bool" where
  "word_matches name w \<longleftrightarrow> word_name w = name \<and> (at w = 0x2D \<or> 0x3D \<in> set w)"

text \<open>Storing the value of a matching word, and whether the search ends with it.\<close>

definition word_store :: "bool \<Rightarrow> u8 list \<Rightarrow> u32 \<Rightarrow> int \<Rightarrow> u8 list \<Rightarrow> mem \<Rightarrow> mem" where
  "word_store embedded name p max_len w m =
     (let value = dropWhile (\<lambda>c. c \<noteq> 0x3D) w in
      if at w = 0x2D then snd (argnumcpy 1 p (of_int max_len) m)
      else if at name = 0x5F then snd (argstrcpy2 (tl value) p (nat (max 17 max_len - 1)) m)
      else case getval value of
          Some val \<Rightarrow> snd (argnumcpy val p (of_int max_len) m)
        | None \<Rightarrow> store_string embedded value p max_len m)"

definition word_ends :: "u8 list \<Rightarrow> u8 list \<Rightarrow> bool" where
  "word_ends name w \<longleftrightarrow> at w = 0x2D \<or> at name = 0x5F"

fun parse_words :: "bool \<Rightarrow> u8 list \<Rightarrow> u32 \<Rightarrow> int \<Rightarrow> u8 list list \<Rightarrow> bool \<Rightarrow> mem \<Rightarrow> bool \<times> mem" where
  "parse_words embedded name p max_len [] found m = (found, m)"
| "parse_words embedded name p max_len (w # ws) found m =
     (if \<not> word_matches name w then parse_words embedded name p max_len ws found m
      else if word_ends name w then (True, word_store embedded name p max_len w m)
      else parse_words embedded name p max_len ws True (word_store embedded name p max_len w m))"

end
