(* ===== verification/Pex_Layout.thy ===== *)
theory Pex_Layout
  imports Pex_Tree
begin

text \<open>
  Device trees as data and their flattened form in memory, and the lemmas that the walks over
  the flattened form follow the tree.
\<close>

section \<open>Trees and their layout\<close>

datatype dtree = DT (dt_props: "(u8 list \<times> u8 list) list") (dt_kids: "dtree list")

definition prop_size :: "u8 list \<Rightarrow> nat" where
  "prop_size v = 36 + (length v + 3) div 4 * 4"

definition props_size :: "(u8 list \<times> u8 list) list \<Rightarrow> nat" where
  "props_size ps = sum_list (map (\<lambda>(n, v). prop_size v) ps)"

fun dt_size :: "dtree \<Rightarrow> nat" and dts_size :: "dtree list \<Rightarrow> nat" where
  "dt_size (DT ps ts) = 8 + props_size ps + dts_size ts"
| "dts_size [] = 0"
| "dts_size (t # ts) = dt_size t + dts_size ts"

fun props_at :: "mem \<Rightarrow> u32 \<Rightarrow> (u8 list \<times> u8 list) list \<Rightarrow> bool" where
  "props_at m p [] \<longleftrightarrow> True"
| "props_at m p ((n, v) # ps) \<longleftrightarrow>
     cstr m p n \<and> length n < 32 \<and> prop_length m p = of_nat (length v) \<and>
     bytes m (p + 36) (length v) = v \<and> props_at m (p + of_nat (prop_size v)) ps"

text \<open>\<open>dt_at m p t\<close>: the tree \<open>t\<close> is flattened at address \<open>p\<close>. Every node has a property.\<close>

fun dt_at :: "mem \<Rightarrow> u32 \<Rightarrow> dtree \<Rightarrow> bool" and dts_at :: "mem \<Rightarrow> u32 \<Rightarrow> dtree list \<Rightarrow> bool" where
  "dt_at m p (DT ps ts) \<longleftrightarrow>
     ps \<noteq> [] \<and> nProperties m p = of_nat (length ps) \<and> nChildren m p = of_nat (length ts) \<and>
     props_at m (p + 8) ps \<and> dts_at m (p + of_nat (8 + props_size ps)) ts"
| "dts_at m p [] \<longleftrightarrow> True"
| "dts_at m p (t # ts) \<longleftrightarrow> dt_at m p t \<and> dts_at m (p + of_nat (dt_size t)) ts"

text \<open>A block that does not contain address 0 and ends before the last address.\<close>

definition fits :: "u32 \<Rightarrow> nat \<Rightarrow> bool" where
  "fits p n \<longleftrightarrow> p \<noteq> 0 \<and> unat p + n < 2 ^ 32"

lemma fits_unat: "fits p n \<Longrightarrow> k \<le> n \<Longrightarrow> unat (p + of_nat k) = unat p + k"
  by (simp add: fits_def unat_word_ariths unat_of_nat)

lemma fits_le: "fits p n \<Longrightarrow> k \<le> n \<Longrightarrow> fits p k"
  by (simp add: fits_def)

lemma fits_add: "fits p (k + n) \<Longrightarrow> fits (p + of_nat k) n"
  using fits_unat [of p "k + n" k] by (auto simp: fits_def simp flip: unat_eq_zero)

lemma fits_nonzero: "fits p n \<Longrightarrow> k \<le> n \<Longrightarrow> p + of_nat k \<noteq> 0"
  using fits_unat [of p n k] by (auto simp: fits_def simp flip: unat_eq_zero)

section \<open>Sizes\<close>

lemma round_long_nat:
  assumes "n + 3 < 2 ^ 32"
  shows "round_long (of_nat n) = of_nat ((n + 3) div 4 * 4)"
  using align_down_numerals(2) [of "n + 3"] assms by (simp add: round_long_def)

lemma props_size_simps [simp]:
  "props_size [] = 0" "props_size ((n, v) # ps) = prop_size v + props_size ps"
  by (simp_all add: props_size_def)

lemma next_prop_at:
  assumes "prop_length m p = of_nat (length v)" "prop_size v < 2 ^ 32"
  shows "next_prop m p = p + of_nat (prop_size v)"
proof -
  have "length v + 3 < 2 ^ 32" using assms(2) by (simp add: prop_size_def)
  then show ?thesis using assms(1) by (simp add: next_prop_def prop_size_def round_long_nat add.assoc)
qed

lemma length_props: "length ps \<le> props_size ps"
  by (induction ps) (auto simp: prop_size_def)

lemma length_dts: "length ts \<le> dts_size ts"
proof (induction ts)
  case (Cons t ts)
  then show ?case by (cases t) simp
qed simp

lemma unat_count: "n < 2 ^ 32 \<Longrightarrow> unat (of_nat n :: u32) = n"
  by (simp add: unat_of_nat)

lemma count_inj: "a < 2 ^ 32 \<Longrightarrow> b < 2 ^ 32 \<Longrightarrow> (of_nat a :: u32) = of_nat b \<longleftrightarrow> a = b"
  by (metis unat_count)

lemma count_one: "Suc i < 2 ^ 32 \<Longrightarrow> (of_nat (Suc i) :: u32) = 1 \<longleftrightarrow> i = 0"
  using count_inj [of "Suc i" 1] unfolding of_nat_1 by simp

lemma skip_props_at:
  "props_at m p ps \<Longrightarrow> props_size ps < 2 ^ 32 \<Longrightarrow>
    skip_props m (length ps) p = p + of_nat (props_size ps)"
proof (induction ps arbitrary: p)
  case (Cons nv ps)
  obtain n v where [simp]: "nv = (n, v)" by fastforce
  have "next_prop m p = p + of_nat (prop_size v)" using Cons.prems by (intro next_prop_at) auto
  then show ?case using Cons by (simp add: add.assoc)
qed simp

lemma skipProperties_at:
  assumes "dt_at m p (DT ps ts)" "fits p (dt_size (DT ps ts))"
  shows "skipProperties m p = p + of_nat (8 + props_size ps)"
proof -
  have "props_size ps < 2 ^ 32" using assms(2) by (simp add: fits_def)
  moreover from this have "unat (nProperties m p) = length ps" "nProperties m p \<noteq> 0"
    using assms(1) length_props [of ps] by (auto simp: unat_count simp flip: unat_eq_zero)
  ultimately show ?thesis
    using assms skip_props_at [of m "p + 8" ps] by (simp add: skipProperties_def fits_def add.assoc)
qed

lemma skip_trees_0 [simp]: "skip_trees m 0 e = Some e"
  by (simp add: skip_trees.simps)

lemma skip_trees_Suc [simp]: "skip_trees m (Suc k) e = skipTree m e \<bind> skip_trees m k"
  by (subst skip_trees.simps) (simp add: skipTree_def Let_def)

lemma nChildren_at:
  assumes "dt_at m p (DT ps ts)" "fits p (dt_size (DT ps ts))"
  shows "unat (nChildren m p) = length ts"
  using assms length_dts [of ts] by (simp add: fits_def unat_count)

text \<open>Skipping a flattened tree ends right behind it.\<close>

lemma skip_trees_at:
  "dt_at m p t \<Longrightarrow> fits p (dt_size t) \<Longrightarrow> skipTree m p = Some (p + of_nat (dt_size t))"
  "dts_at m p ts \<Longrightarrow> fits p (dts_size ts) \<Longrightarrow>
    skip_trees m (length ts) p = Some (p + of_nat (dts_size ts))"
proof (induction m p t and m p ts rule: dt_at_dts_at.induct)
  case (1 m p ps ts)
  note at = skipProperties_at [OF "1.prems"] nChildren_at [OF "1.prems"]
  have f: "fits (p + of_nat (8 + props_size ps)) (dts_size ts)"
    by (rule fits_add) (use "1.prems" in simp)
  have "p + of_nat (8 + props_size ps) \<noteq> 0" using f by (simp add: fits_def)
  moreover have "skip_trees m (length ts) (p + of_nat (8 + props_size ps)) =
      Some (p + of_nat (8 + props_size ps) + of_nat (dts_size ts))"
    using "1.IH" [OF _ f] "1.prems" by simp
  ultimately show ?case
    unfolding skipTree_def at Let_def by (simp add: add.assoc)
next
  case (3 m p t ts)
  have "fits p (dt_size t)" using "3.prems" by (auto intro: fits_le)
  moreover have "fits (p + of_nat (dt_size t)) (dts_size ts)" by (rule fits_add) (use "3.prems" in simp)
  ultimately show ?case using 3 by (simp add: add.assoc)
qed simp

section \<open>Addressed nodes\<close>

fun kid_list :: "u32 \<Rightarrow> dtree list \<Rightarrow> (u32 \<times> dtree) list" where
  "kid_list p [] = []"
| "kid_list p (t # ts) = (p, t) # kid_list (p + of_nat (dt_size t)) ts"

fun kids_of :: "u32 \<times> dtree \<Rightarrow> (u32 \<times> dtree) list" where
  "kids_of (p, DT ps ts) = kid_list (p + of_nat (8 + props_size ps)) ts"

text \<open>A node that is flattened where it fits.\<close>

definition node_at :: "mem \<Rightarrow> u32 \<times> dtree \<Rightarrow> bool" where
  "node_at m n \<longleftrightarrow> dt_at m (fst n) (snd n) \<and> fits (fst n) (dt_size (snd n))"

lemma kid_list_at:
  "dts_at m p ts \<Longrightarrow> fits p (dts_size ts) \<Longrightarrow> \<forall>n \<in> set (kid_list p ts). node_at m n"
proof (induction ts arbitrary: p)
  case (Cons t ts)
  have "fits (p + of_nat (dt_size t)) (dts_size ts)" by (rule fits_add) (use Cons.prems in simp)
  then show ?case using Cons by (auto simp: node_at_def intro: fits_le)
qed simp

lemma kids_of_at:
  assumes "node_at m n" "k \<in> set (kids_of n)"
  shows "node_at m k"
proof -
  obtain p ps ts where [simp]: "n = (p, DT ps ts)" by (metis dtree.exhaust surj_pair)
  have "fits (p + of_nat (8 + props_size ps)) (dts_size ts)"
    by (rule fits_add) (use assms(1) in \<open>simp add: node_at_def\<close>)
  then show ?thesis using assms kid_list_at by (fastforce simp: node_at_def)
qed

lemma length_kid_list [simp]: "length (kid_list p ts) = length ts"
  by (induction p ts rule: kid_list.induct) simp_all

lemma nth_kid_list_Suc:
  "Suc i < length ts \<Longrightarrow> fst (kid_list p ts ! Suc i) =
     fst (kid_list p ts ! i) + of_nat (dt_size (snd (kid_list p ts ! i)))"
proof (induction ts arbitrary: p i)
  case (Cons t ts)
  then show ?case by (cases i; cases ts) auto
qed simp

lemma GetFirstChild_at:
  "node_at m n \<Longrightarrow> kids_of n \<noteq> [] \<Longrightarrow> GetFirstChild m (fst n) = fst (hd (kids_of n))"
  by (cases n rule: kids_of.cases)
    (auto simp: node_at_def GetFirstChild_def skipProperties_at neq_Nil_conv simp del: dt_at.simps
      elim: kid_list.elims)

lemma GetNextChild_at:
  "node_at m n \<Longrightarrow> GetNextChild m (fst n) = Some (fst n + of_nat (dt_size (snd n)))"
  by (simp add: node_at_def GetNextChild_def skip_trees_at(1))

section \<open>Properties\<close>

lemma cstr_value:
  assumes "bytes m a (length v) = v" "0 \<in> set v"
  shows "cstr m a s \<longleftrightarrow> s = takeWhile (\<lambda>c. c \<noteq> 0) v"
proof -
  have "cstr m a (takeWhile (\<lambda>c. c \<noteq> 0) v)"
    using assms
  proof (induction v arbitrary: a)
    case (Cons c v)
    then show ?case by auto
  qed simp
  then show ?thesis by (auto dest: cstr_determ)
qed

text \<open>A property lookup finds the value \<open>v\<close>, or nothing.\<close>

fun finds :: "mem \<Rightarrow> (u32 \<times> u32) option \<Rightarrow> u8 list option \<Rightarrow> bool" where
  "finds m r None \<longleftrightarrow> r = None"
| "finds m r (Some v) \<longleftrightarrow> (\<exists>a. r = Some (a, of_nat (length v)) \<and> bytes m a (length v) = v)"

lemma get_prop_loop_at:
  "props_at m p ps \<Longrightarrow> props_size ps < 2 ^ 32 \<Longrightarrow>
    finds m (get_prop_loop m (length ps) p name) (map_of ps name)"
proof (induction ps arbitrary: p)
  case (Cons nv ps)
  obtain n v where [simp]: "nv = (n, v)" by fastforce
  have "next_prop m p = p + of_nat (prop_size v)" using Cons.prems by (intro next_prop_at) auto
  moreover have "cstr m p name \<longleftrightarrow> n = name" using Cons.prems by (auto dest: cstr_determ)
  ultimately show ?case using Cons by simp
qed simp

lemma DTGetProperty_at:
  assumes "node_at m (p, DT ps ts)"
  shows "finds m (DTGetProperty m p name) (map_of ps name)"
proof -
  have "props_size ps < 2 ^ 32" using assms by (simp add: node_at_def fits_def)
  moreover from this have "unat (nProperties m p) = length ps" "nProperties m p \<noteq> 0"
    using assms length_props [of ps]
    by (auto simp: unat_count node_at_def simp flip: unat_eq_zero)
  moreover have "p \<noteq> 0" "props_at m (p + 8) ps" using assms by (simp_all add: node_at_def fits_def)
  ultimately show ?thesis
    using get_prop_loop_at [of m "p + 8" ps name] by (simp add: DTGetProperty_def)
qed

section \<open>Children by name and paths\<close>

text \<open>The name of a node, if its \<open>name\<close> property holds a terminated string.\<close>

fun dt_name :: "dtree \<Rightarrow> u8 list option" where
  "dt_name (DT ps ts) =
     (case map_of ps name_prop of
        Some v \<Rightarrow> if 0 \<in> set v then Some (takeWhile (\<lambda>c. c \<noteq> 0) v) else None
      | None \<Rightarrow> None)"

text \<open>Every node below the root has a name.\<close>

fun named :: "dtree \<Rightarrow> bool" where
  "named (DT ps ts) \<longleftrightarrow> (\<forall>t \<in> set ts. dt_name t \<noteq> None \<and> named t)"

definition find_kid :: "u8 list \<Rightarrow> u32 \<times> dtree \<Rightarrow> (u32 \<times> dtree) option" where
  "find_kid c n = find (\<lambda>k. dt_name (snd k) = Some c) (kids_of n)"

fun descend :: "u32 \<times> dtree \<Rightarrow> u8 list list \<Rightarrow> (u32 \<times> dtree) option" where
  "descend n [] = Some n"
| "descend n (c # cs) = (case find_kid c n of None \<Rightarrow> None | Some k \<Rightarrow> descend k cs)"

definition addr :: "(u32 \<times> dtree) option \<Rightarrow> u32" where
  "addr r = (case r of None \<Rightarrow> 0 | Some n \<Rightarrow> fst n)"

lemma name_at:
  assumes "node_at m (p, t)" "dt_name t = Some c"
  obtains a l where "DTGetProperty m p name_prop = Some (a, l)" "\<forall>s. cstr m a s \<longleftrightarrow> s = c"
proof -
  obtain ps ts where t: "t = DT ps ts" by (cases t)
  obtain v where v: "map_of ps name_prop = Some v" "0 \<in> set v" "c = takeWhile (\<lambda>c. c \<noteq> 0) v"
    using assms(2) by (auto simp: t split: option.splits if_splits)
  have "finds m (DTGetProperty m p name_prop) (Some v)"
    using DTGetProperty_at [of m p ps ts name_prop] assms(1) v(1) by (simp add: t)
  then obtain a where "DTGetProperty m p name_prop = Some (a, of_nat (length v))" "bytes m a (length v) = v"
    by auto
  with v cstr_value that show ?thesis by blast
qed

lemma find_child_loop_at:
  "dts_at m p ts \<Longrightarrow> fits p (dts_size ts) \<Longrightarrow> \<forall>t \<in> set ts. dt_name t \<noteq> None \<Longrightarrow>
    find_child_loop m (length ts) p c = Some (addr (find (\<lambda>k. dt_name (snd k) = Some c) (kid_list p ts)))"
proof (induction ts arbitrary: p)
  case (Cons t ts)
  have n: "node_at m (p, t)" using Cons.prems by (auto simp: node_at_def intro: fits_le)
  obtain d where d: "dt_name t = Some d" using Cons.prems by auto
  obtain a l where g: "DTGetProperty m p name_prop = Some (a, l)" "\<forall>s. cstr m a s \<longleftrightarrow> s = d"
    by (rule name_at [OF n d])
  have "fits (p + of_nat (dt_size t)) (dts_size ts)" by (rule fits_add) (use Cons.prems in simp)
  then show ?case
    using Cons GetNextChild_at [OF n] g d by (cases ts) (auto simp: addr_def)
qed (simp add: addr_def)

lemma kid_names: "named t \<Longrightarrow> k \<in> set (kids_of (p, t)) \<Longrightarrow> named (snd k)"
proof (cases t)
  case (DT ps ts)
  have "snd k \<in> set ts" if "k \<in> set (kid_list q ts)" for q
    using that by (induction q ts rule: kid_list.induct) auto
  then show "named t \<Longrightarrow> k \<in> set (kids_of (p, t)) \<Longrightarrow> named (snd k)" by (auto simp: DT)
qed

lemma FindChild_at:
  assumes "node_at m n" "named (snd n)"
  shows "FindChild m (fst n) c = Some (addr (find_kid c n))"
proof -
  obtain p ps ts where n: "n = (p, DT ps ts)" by (metis dtree.exhaust surj_pair)
  have at: "dt_at m p (DT ps ts)" "fits p (dt_size (DT ps ts))"
    using assms by (simp_all add: node_at_def n del: dt_at.simps dt_size.simps)
  have f: "fits (p + of_nat (8 + props_size ps)) (dts_size ts)"
    by (rule fits_add) (use at(2) in simp)
  have "nChildren m p = 0 \<longleftrightarrow> ts = []" using nChildren_at [OF at] by (auto simp flip: unat_eq_zero)
  then show ?thesis
    unfolding FindChild_def nChildren_at [OF at] n fst_conv GetFirstChild_def skipProperties_at [OF at]
    using find_child_loop_at [OF _ f, of m c] at(1) assms(2) by (auto simp: n find_kid_def addr_def)
qed

lemma addr_nonzero: "node_at m n \<Longrightarrow> find_kid c n = Some k \<Longrightarrow> node_at m k \<and> fst k \<noteq> 0 \<and> k \<in> set (kids_of n)"
  using kids_of_at [of m n k] by (auto simp: find_kid_def find_Some_iff node_at_def fits_def)

text \<open>Paths: components are not empty, hold no separator and fit the name buffer.\<close>

fun join_path :: "u8 list list \<Rightarrow> u8 list" where
  "join_path [] = []"
| "join_path [c] = c"
| "join_path (c # cs) = c @ 0x2F # join_path cs"

definition component :: "u8 list \<Rightarrow> bool" where
  "component c \<longleftrightarrow> c \<noteq> [] \<and> 0x2F \<notin> set c \<and> length c \<le> 63"

lemma next_component_app:
  "0x2F \<notin> set c \<Longrightarrow> len + length c \<le> 63 \<Longrightarrow>
    next_component len buf (c @ cp) = next_component (len + length c) (buf @ c) cp"
  by (induction c arbitrary: len buf) auto

lemma GetNextComponent_join:
  assumes "component c"
  shows "GetNextComponent (join_path (c # cs)) = (c, join_path cs)"
  using assms next_component_app [of c 0 "[]" "[]"] next_component_app [of c 0 "[]" "0x2F # join_path cs"]
  by (cases cs) (auto simp: GetNextComponent_def component_def)

lemma lookup_loop_at:
  "node_at m n \<Longrightarrow> named (snd n) \<Longrightarrow> \<forall>c \<in> set cs. component c \<Longrightarrow>
    lookup_loop m (fst n) (join_path cs) = Some (map_option fst (descend n cs))"
proof (induction cs arbitrary: n)
  case Nil
  then show ?case by (subst lookup_loop.simps) (simp add: GetNextComponent_def)
next
  case (Cons c cs)
  have c: "component c" "c \<noteq> []" using Cons.prems by (auto simp: component_def)
  show ?case
  proof (cases "find_kid c n")
    case None
    then show ?thesis
      using Cons.prems c
      by (subst lookup_loop.simps) (simp add: GetNextComponent_join FindChild_at addr_def)
  next
    case (Some k)
    have k: "node_at m k" "fst k \<noteq> 0" "named (snd k)"
      using addr_nonzero [OF Cons.prems(1) Some] Cons.prems(2) kid_names [of "snd n" k "fst n"] by auto
    then show ?thesis
      using Cons c Some
      by (subst lookup_loop.simps) (simp add: GetNextComponent_join FindChild_at addr_def)
  qed
qed

section \<open>Search in depth-first order\<close>

fun preorder :: "u32 \<Rightarrow> dtree \<Rightarrow> (u32 \<times> dtree) list"
  and preorders :: "u32 \<Rightarrow> dtree list \<Rightarrow> (u32 \<times> dtree) list" where
  "preorder p (DT ps ts) = (p, DT ps ts) # preorders (p + of_nat (8 + props_size ps)) ts"
| "preorders p [] = []"
| "preorders p (t # ts) = preorder p t @ preorders (p + of_nat (dt_size t)) ts"

text \<open>A property matches a name and, if one is asked for, a string value.\<close>

fun prop_matches :: "u8 list \<Rightarrow> u8 list option \<Rightarrow> u8 list \<times> u8 list \<Rightarrow> bool" where
  "prop_matches pn pv (n, v) \<longleftrightarrow>
     n = pn \<and> (case pv of None \<Rightarrow> True | Some w \<Rightarrow> w = takeWhile (\<lambda>c. c \<noteq> 0) v)"

definition node_matches :: "u8 list \<Rightarrow> u8 list option \<Rightarrow> u32 \<times> dtree \<Rightarrow> bool" where
  "node_matches pn pv n \<longleftrightarrow> (\<exists>p \<in> set (dt_props (snd n)). prop_matches pn pv p)"

text \<open>All values of the property \<open>pn\<close> are terminated strings.\<close>

fun terminated :: "u8 list \<Rightarrow> dtree \<Rightarrow> bool" where
  "terminated pn (DT ps ts) \<longleftrightarrow> (\<forall>(n, v) \<in> set ps. n = pn \<longrightarrow> 0 \<in> set v) \<and> (\<forall>t \<in> set ts. terminated pn t)"

lemma search_props_at:
  "props_at m p ps \<Longrightarrow> props_size ps < 2 ^ 32 \<Longrightarrow>
    pv \<noteq> None \<longrightarrow> (\<forall>(n, v) \<in> set ps. n = pn \<longrightarrow> 0 \<in> set v) \<Longrightarrow>
    (if \<exists>p \<in> set ps. prop_matches pn pv p then fst (search_props m pn pv (length ps) p)
     else search_props m pn pv (length ps) p = (False, p + of_nat (props_size ps)))"
proof (induction ps arbitrary: p)
  case (Cons nv ps)
  obtain n v where [simp]: "nv = (n, v)" by fastforce
  have nx: "p + 36 + ((prop_length m p + 3) AND - 4) = p + of_nat (prop_size v)"
    using Cons.prems next_prop_at [of m p v] by (simp add: next_prop_def round_long_def)
  have hit: "cstr m p pn \<and> (case pv of None \<Rightarrow> True | Some w \<Rightarrow> cstr m (p + 36) w) \<longleftrightarrow> prop_matches pn pv (n, v)"
    using Cons.prems cstr_value [of m "p + 36" v] by (auto dest: cstr_determ split: option.splits)
  show ?case
  proof (cases "prop_matches pn pv (n, v)")
    case True
    then show ?thesis unfolding list.size(4) add_Suc_right add_0_right search_props.simps hit by simp
  next
    case False
    have "search_props m pn pv (length (nv # ps)) p =
        search_props m pn pv (length ps) (p + of_nat (prop_size v))"
      unfolding list.size(4) add_Suc_right add_0_right search_props.simps hit nx Let_def using False by (simp del: prop_matches.simps)
    then show ?thesis using Cons.IH [of "p + of_nat (prop_size v)"] Cons.prems False
      by (simp add: add.assoc del: search_props.simps prop_matches.simps)
  qed
qed simp

lemma find_entries_0 [simp]: "find_entries m pn pv 0 p = Some (None, p)"
  by (simp add: find_entries.simps)

lemma find_entries_Suc:
  "find_entries m pn pv (Suc k) p = do {
     (r, p') \<leftarrow> find_entry m pn pv p;
     case r of Some e \<Rightarrow> Some (Some e, p') | None \<Rightarrow> find_entries m pn pv k p'
   }"
proof -
  have s: "(case y of (None, p') \<Rightarrow> find_entries m pn pv 0 p' | (Some e, p') \<Rightarrow> Some (Some e, p')) = Some y"
    for y by (auto split: prod.splits option.splits)
  show ?thesis
    unfolding find_entry_def One_nat_def
    by (subst (1 2) find_entries.simps) (simp add: s)
qed

lemma find_entry_node:
  assumes "nProperties m p \<noteq> 0"
  shows "find_entry m pn pv p =
    (case search_props m pn pv (unat (nProperties m p)) (p + 8) of
       (hit, q) \<Rightarrow> if hit then Some (Some p, q) else find_entries m pn pv (unat (nChildren m p)) q)"
  unfolding find_entry_def One_nat_def
  by (subst find_entries.simps) (use assms in \<open>auto split: prod.splits option.splits bind_splits\<close>)

text \<open>The outcome of a search that has to visit the nodes \<open>ns\<close> and would end at \<open>q\<close>.\<close>

definition search_outcome ::
  "u8 list \<Rightarrow> u8 list option \<Rightarrow> (u32 \<times> dtree) list \<Rightarrow> u32 \<Rightarrow> (u32 option \<times> u32) option \<Rightarrow> bool" where
  "search_outcome pn pv ns q r \<longleftrightarrow>
     (case find (node_matches pn pv) ns of
        None \<Rightarrow> r = Some (None, q)
      | Some n \<Rightarrow> \<exists>q'. r = Some (Some (fst n), q'))"

lemma find_append: "find P (xs @ ys) = (case find P xs of None \<Rightarrow> find P ys | Some x \<Rightarrow> Some x)"
  by (induction xs) auto

lemma find_entries_at:
  "dt_at m p t \<Longrightarrow> fits p (dt_size t) \<Longrightarrow> pv \<noteq> None \<longrightarrow> terminated pn t \<Longrightarrow>
    search_outcome pn pv (preorder p t) (p + of_nat (dt_size t)) (find_entry m pn pv p)"
  "dts_at m p ts \<Longrightarrow> fits p (dts_size ts) \<Longrightarrow> pv \<noteq> None \<longrightarrow> (\<forall>t \<in> set ts. terminated pn t) \<Longrightarrow>
    search_outcome pn pv (preorders p ts) (p + of_nat (dts_size ts)) (find_entries m pn pv (length ts) p)"
proof (induction m p t and m p ts rule: dt_at_dts_at.induct)
  case (1 m p ps ts)
  have sz: "props_size ps < 2 ^ 32" using "1.prems"(2) by (simp add: fits_def)
  have np: "unat (nProperties m p) = length ps" "nProperties m p \<noteq> 0"
    using "1.prems"(1) sz length_props [of ps] by (auto simp: unat_count simp flip: unat_eq_zero)
  have f: "fits (p + of_nat (8 + props_size ps)) (dts_size ts)"
    by (rule fits_add) (use "1.prems" in simp)
  have rest: "search_outcome pn pv (preorders (p + of_nat (8 + props_size ps)) ts)
      (p + of_nat (8 + props_size ps) + of_nat (dts_size ts))
      (find_entries m pn pv (length ts) (p + of_nat (8 + props_size ps)))"
    using "1.IH" [OF _ f] "1.prems" by simp
  note sp = search_props_at [of m "p + 8" ps pv pn]
  show ?case
    unfolding find_entry_node [OF np(2)] np(1) nChildren_at [OF "1.prems"(1,2)]
    using sp rest "1.prems" sz
    by (auto simp: search_outcome_def node_matches_def add.assoc split: if_splits prod.splits)
next
  case (3 m p t ts)
  have "fits p (dt_size t)" using "3.prems" by (auto intro: fits_le)
  moreover have "fits (p + of_nat (dt_size t)) (dts_size ts)" by (rule fits_add) (use "3.prems" in simp)
  ultimately show ?case
    using 3 by (auto simp: search_outcome_def find_append find_entries_Suc add.assoc split: option.splits)
qed (simp add: search_outcome_def)

section \<open>Iteration\<close>

text \<open>
  Calling an iterator until it reports the end: the items it returns and the iterator left. A call
  gives an item or the end, and the new iterator.
\<close>

fun visit :: "('s \<Rightarrow> ('e option \<times> 's) option) \<Rightarrow> nat \<Rightarrow> 's \<Rightarrow> ('e list \<times> 's) option" where
  "visit next_item 0 s = None"
| "visit next_item (Suc k) s = do {
     (r, s') \<leftarrow> next_item s;
     case r of
       None \<Rightarrow> Some ([], s')
     | Some e \<Rightarrow> do { (es, s'') \<leftarrow> visit next_item k s'; Some (e # es, s'') }
   }"

text \<open>
  The contract of an iterator: at position \<open>i\<close> of its items it returns item \<open>i\<close> and moves on,
  at the end it says so and stays, and the part \<open>keep\<close> of it never changes.
\<close>

locale iteration =
  fixes next_item :: "'s \<Rightarrow> ('e option \<times> 's) option"
    and position :: "nat \<Rightarrow> 's \<Rightarrow> bool"
    and items :: "'e list"
    and keep :: "'s \<Rightarrow> 'k"
  assumes advance: "position i s \<Longrightarrow> i < length items \<Longrightarrow>
      \<exists>s'. next_item s = Some (Some (items ! i), s') \<and> position (Suc i) s' \<and> keep s' = keep s"
    and at_end: "position i s \<Longrightarrow> \<not> i < length items \<Longrightarrow> next_item s = Some (None, s)"
begin

lemma visit_from:
  "position i s \<Longrightarrow> length items - i < k \<Longrightarrow>
    \<exists>s'. visit next_item k s = Some (drop i items, s') \<and> keep s' = keep s"
proof (induction k arbitrary: i s)
  case (Suc k)
  show ?case
  proof (cases "i < length items")
    case True
    obtain s' where s': "next_item s = Some (Some (items ! i), s')" "position (Suc i) s'" "keep s' = keep s"
      using advance [OF Suc.prems(1) True] by blast
    moreover have "length items - Suc i < k" using Suc.prems(2) True by linarith
    ultimately show ?thesis using Suc.IH [OF s'(2)] True by (auto simp: Cons_nth_drop_Suc [symmetric])
  next
    case False
    then show ?thesis using at_end [OF Suc.prems(1)] by simp
  qed
qed simp

lemma visit_all: "position 0 s \<Longrightarrow> length items < k \<Longrightarrow> \<exists>s'. visit next_item k s = Some (items, s') \<and> keep s' = keep s"
  using visit_from [of 0 s k] by simp

end

subsection \<open>Entries\<close>

definition next_entry :: "mem \<Rightarrow> OpaqueDTEntryIterator \<Rightarrow> (u32 option \<times> OpaqueDTEntryIterator) option" where
  "next_entry m iter = do {
     (r, iter', e) \<leftarrow> DTIterateEntries m iter;
     Some (if r = kSuccess then Some e else None, iter')
   }"

text \<open>The iterator has returned the first \<open>i\<close> children of the node \<open>n\<close>.\<close>

definition iter_at :: "u32 \<times> dtree \<Rightarrow> nat \<Rightarrow> OpaqueDTEntryIterator \<Rightarrow> bool" where
  "iter_at n i iter \<longleftrightarrow>
     currentScope iter = fst n \<and> i \<le> length (kids_of n) \<and> currentIndex iter = of_nat i \<and>
     (0 < i \<longrightarrow> currentEntry iter = fst (kids_of n ! (i - 1)))"

lemma kids_count:
  assumes "node_at m n"
  shows "nChildren m (fst n) = of_nat (length (kids_of n))" "length (kids_of n) < 2 ^ 32"
proof -
  obtain p ps ts where [simp]: "n = (p, DT ps ts)" by (metis dtree.exhaust surj_pair)
  show "nChildren m (fst n) = of_nat (length (kids_of n))" "length (kids_of n) < 2 ^ 32"
    using assms length_dts [of ts] by (simp_all add: node_at_def fits_def)
qed

lemma kids_step:
  assumes "Suc i < length (kids_of n)"
  shows "fst (kids_of n ! Suc i) = fst (kids_of n ! i) + of_nat (dt_size (snd (kids_of n ! i)))"
proof -
  obtain p ps ts where [simp]: "n = (p, DT ps ts)" by (metis dtree.exhaust surj_pair)
  show ?thesis using assms by (simp add: nth_kid_list_Suc)
qed

lemma DTIterateEntries_at:
  assumes n: "node_at m n" and it: "iter_at n i iter"
  shows "DTIterateEntries m iter =
    (if i = length (kids_of n) then Some (kIterationDone, iter, 0)
     else Some (kSuccess,
       iter\<lparr>currentIndex := of_nat (Suc i), currentEntry := fst (kids_of n ! i)\<rparr>, fst (kids_of n ! i)))"
proof -
  note c = kids_count [OF n]
  have i: "i \<le> length (kids_of n)" "unat (currentIndex iter) = i" "currentScope iter = fst n"
    using it c by (simp_all add: iter_at_def unat_count)
  have ge: "currentIndex iter \<ge> nChildren m (currentScope iter) \<longleftrightarrow> i = length (kids_of n)"
    using i c by (auto simp: word_le_nat_alt unat_count)
  have one: "currentIndex iter + 1 = of_nat (Suc i)" using it by (simp add: iter_at_def add.commute)
  have e1: "of_nat (Suc i) = (1 :: u32) \<longleftrightarrow> i = 0" if "i < length (kids_of n)"
    using that c(2) by (intro count_one) simp
  show ?thesis
  proof (cases "i = length (kids_of n)")
    case True
    then show ?thesis using ge by (simp add: DTIterateEntries_def)
  next
    case False
    then have lt: "i < length (kids_of n)" using i by simp
    have "(if i = 0 then Some (GetFirstChild m (fst n)) else GetNextChild m (currentEntry iter))
        = Some (fst (kids_of n ! i))"
    proof (cases i)
      case 0
      then show ?thesis using GetFirstChild_at [OF n] lt by (simp add: hd_conv_nth)
    next
      case (Suc j)
      have "node_at m (kids_of n ! j)" using kids_of_at [OF n] lt Suc by simp
      then show ?thesis using GetNextChild_at kids_step [of j n] lt it Suc by (simp add: iter_at_def)
    qed
    then show ?thesis
      using ge False one e1 [OF lt] i(3)
      by (cases "i = 0") (simp_all add: DTIterateEntries_def del: of_nat_Suc)
  qed
qed

interpretation entries: iteration "next_entry m" "\<lambda>i s. node_at m n \<and> iter_at n i s" "map fst (kids_of n)"
  "\<lambda>s. (outerScope s, savedScope s)" for m n
proof
  fix i s assume a: "node_at m n \<and> iter_at n i s" "i < length (map fst (kids_of n))"
  have "DTIterateEntries m s = Some (kSuccess,
      s\<lparr>currentIndex := of_nat (Suc i), currentEntry := fst (kids_of n ! i)\<rparr>, fst (kids_of n ! i))"
    using a DTIterateEntries_at [of m n i s] by simp
  then show "\<exists>s'. next_entry m s = Some (Some (map fst (kids_of n) ! i), s') \<and>
      (node_at m n \<and> iter_at n (Suc i) s') \<and> (outerScope s', savedScope s') = (outerScope s, savedScope s)"
    using a by (simp add: next_entry_def iter_at_def)
next
  fix i s assume a: "node_at m n \<and> iter_at n i s" "\<not> i < length (map fst (kids_of n))"
  then have "i = length (kids_of n)" by (simp add: iter_at_def)
  then show "next_entry m s = Some (None, s)" using a DTIterateEntries_at [of m n i s] by (simp add: next_entry_def)
qed

subsection \<open>Properties\<close>

definition next_property :: "mem \<Rightarrow> OpaqueDTPropertyIterator \<Rightarrow> (u32 option \<times> OpaqueDTPropertyIterator) option" where
  "next_property m iter =
     (case DTIterateProperties m iter of (r, iter', p) \<Rightarrow> Some (if r = kSuccess then Some p else None, iter'))"

definition prop_iter_at :: "u32 \<Rightarrow> (u8 list \<times> u8 list) list \<Rightarrow> nat \<Rightarrow> OpaqueDTPropertyIterator \<Rightarrow> bool" where
  "prop_iter_at p ps i iter \<longleftrightarrow>
     pi_entry iter = p \<and> i \<le> length ps \<and> pi_currentIndex iter = of_nat i \<and>
     (0 < i \<longrightarrow> pi_currentProperty iter = p + of_nat (8 + props_size (take (i - 1) ps)))"

lemma props_at_nth:
  "props_at m p ps \<Longrightarrow> i < length ps \<Longrightarrow>
    cstr m (p + of_nat (props_size (take i ps))) (fst (ps ! i)) \<and>
    prop_length m (p + of_nat (props_size (take i ps))) = of_nat (length (snd (ps ! i)))"
proof (induction ps arbitrary: p i)
  case (Cons nv ps)
  obtain n v where [simp]: "nv = (n, v)" by fastforce
  show ?case
  proof (cases i)
    case (Suc j)
    then show ?thesis using Cons.IH [of "p + of_nat (prop_size v)" j] Cons.prems by (simp add: add.assoc)
  qed (use Cons.prems in simp)
qed simp

lemma props_size_take_Suc:
  "i < length ps \<Longrightarrow> props_size (take (Suc i) ps) = props_size (take i ps) + prop_size (snd (ps ! i))"
  by (simp add: take_Suc_conv_app_nth props_size_def split: prod.splits)

lemma DTIterateProperties_at:
  assumes n: "node_at m (p, DT ps ts)" and it: "prop_iter_at p ps i iter"
  shows "DTIterateProperties m iter =
    (if i = length ps then (kIterationDone, iter, 0)
     else let q = p + of_nat (8 + props_size (take i ps)) in
       (kSuccess, iter\<lparr>pi_currentIndex := of_nat (Suc i), pi_currentProperty := q\<rparr>, q))"
proof -
  have sz: "props_size ps < 2 ^ 32" using n by (simp add: node_at_def fits_def)
  then have len: "length ps < 2 ^ 32" using length_props [of ps] by simp
  have i: "i \<le> length ps" "unat (pi_currentIndex iter) = i" "pi_entry iter = p" "nProperties m p = of_nat (length ps)"
    using it len n by (simp_all add: prop_iter_at_def unat_count node_at_def)
  have ge: "pi_currentIndex iter \<ge> nProperties m (pi_entry iter) \<longleftrightarrow> i = length ps"
    using i len by (auto simp: word_le_nat_alt unat_count)
  have one: "pi_currentIndex iter + 1 = of_nat (Suc i)" using it by (simp add: prop_iter_at_def add.commute)
  show ?thesis
  proof (cases "i = length ps")
    case True
    then show ?thesis using ge by (simp add: DTIterateProperties_def)
  next
    case False
    then have lt: "i < length ps" using i by simp
    have e1: "of_nat (Suc i) = (1 :: u32) \<longleftrightarrow> i = 0"
      using lt len by (intro count_one) simp
    have "(if i = 0 then p + 8 else next_prop m (pi_currentProperty iter)) =
        p + of_nat (8 + props_size (take i ps))"
    proof (cases i)
      case (Suc j)
      let ?q = "p + of_nat (8 + props_size (take j ps))"
      have "props_at m (p + 8) ps" using n by (simp add: node_at_def)
      then have "prop_length m ?q = of_nat (length (snd (ps ! j)))"
        using props_at_nth [of m "p + 8" ps j] lt Suc by (simp add: add.assoc)
      moreover have "prop_size (snd (ps ! j)) < 2 ^ 32"
        using sz props_size_take_Suc [of j ps] lt Suc
        by (metis Suc_lessD append_take_drop_id le_add1 le_add2 le_less_trans map_append props_size_def sum_list_append)
      ultimately show ?thesis
        using next_prop_at it Suc props_size_take_Suc [of j ps] lt by (simp add: prop_iter_at_def add.assoc)
    qed simp
    then show ?thesis
      using ge False one e1 i(3)
      by (cases "i = 0") (simp_all add: DTIterateProperties_def Let_def del: of_nat_Suc of_nat_add)
  qed
qed

definition prop_addrs :: "u32 \<Rightarrow> (u8 list \<times> u8 list) list \<Rightarrow> u32 list" where
  "prop_addrs p ps = map (\<lambda>i. p + of_nat (8 + props_size (take i ps))) [0..<length ps]"

interpretation properties: iteration "next_property m" "\<lambda>i s. (\<exists>ts. node_at m (p, DT ps ts)) \<and> prop_iter_at p ps i s"
  "prop_addrs p ps" pi_entry for m p ps
proof
  fix i s assume a: "(\<exists>ts. node_at m (p, DT ps ts)) \<and> prop_iter_at p ps i s" "i < length (prop_addrs p ps)"
  then obtain ts where "node_at m (p, DT ps ts)" by blast
  from DTIterateProperties_at [OF this, of i s] a
  show "\<exists>s'. next_property m s = Some (Some (prop_addrs p ps ! i), s') \<and>
      ((\<exists>ts. node_at m (p, DT ps ts)) \<and> prop_iter_at p ps (Suc i) s') \<and> pi_entry s' = pi_entry s"
    by (simp add: next_property_def prop_addrs_def Let_def) (auto simp: prop_iter_at_def)
next
  fix i s assume a: "(\<exists>ts. node_at m (p, DT ps ts)) \<and> prop_iter_at p ps i s" "\<not> i < length (prop_addrs p ps)"
  then have "i = length ps" by (simp add: prop_iter_at_def prop_addrs_def)
  then show "next_property m s = Some (None, s)" using a DTIterateProperties_at by (auto simp: next_property_def)
qed

lemma prop_addrs_names:
  "props_at m (p + 8) ps \<Longrightarrow> list_all2 (\<lambda>a nv. cstr m a (fst nv)) (prop_addrs p ps) ps"
  using props_at_nth [of m "p + 8" ps] by (simp add: list_all2_conv_all_nth prop_addrs_def add.assoc)

end
