(* ===== verification/Pex_Props.thy ===== *)
theory Pex_Props
  imports Pex_Layout
begin

text \<open>
  Properties of the kernel's device-tree reader: what a tree written to memory in the flattened
  format gives back through lookups by path, by property and through the iterators.
\<close>

section \<open>Writing a tree\<close>

definition le_bytes :: "u32 \<Rightarrow> u8 list" where
  "le_bytes w = [byte_of 0 w, byte_of 1 w, byte_of 2 w, byte_of 3 w]"

definition flatten_prop :: "u8 list \<times> u8 list \<Rightarrow> u8 list" where
  "flatten_prop nv = (case nv of (n, v) \<Rightarrow>
     (n @ replicate (32 - length n) 0) @ le_bytes (of_nat (length v)) @ v
       @ replicate ((length v + 3) div 4 * 4 - length v) 0)"

fun flatten :: "dtree \<Rightarrow> u8 list" where
  "flatten (DT ps ts) =
     le_bytes (of_nat (length ps)) @ le_bytes (of_nat (length ts)) @
     concat (map flatten_prop ps) @ concat (map flatten ts)"

text \<open>Trees that the format can hold: property names of at most 31 bytes, and a property in every node.\<close>

definition good_prop :: "u8 list \<times> u8 list \<Rightarrow> bool" where
  "good_prop nv \<longleftrightarrow> length (fst nv) < 32 \<and> 0 \<notin> set (fst nv)"

fun good_tree :: "dtree \<Rightarrow> bool" where
  "good_tree (DT ps ts) \<longleftrightarrow> ps \<noteq> [] \<and> (\<forall>p \<in> set ps. good_prop p) \<and> (\<forall>t \<in> set ts. good_tree t)"

lemma length_le_bytes [simp]: "length (le_bytes w) = 4"
  by (simp add: le_bytes_def)

lemma bytes_append_iff:
  "bytes m a (length xs + n) = xs @ ys \<longleftrightarrow> bytes m a (length xs) = xs \<and> bytes m (a + of_nat (length xs)) n = ys"
  by (simp add: bytes_add)

lemma ld32_bytes: "bytes m a 4 = le_bytes w \<Longrightarrow> ld32 m a = w"
  by (simp add: ld32_def le_bytes_def add.assoc)

lemma cstr_bytes: "bytes m a (length n + k) = n @ replicate k 0 \<Longrightarrow> 0 \<notin> set n \<Longrightarrow> 0 < k \<Longrightarrow> cstr m a n"
proof (induction n arbitrary: a)
  case Nil
  then show ?case by (cases k) auto
qed auto

lemma length_flatten_prop: "good_prop (n, v) \<Longrightarrow> length (flatten_prop (n, v)) = prop_size v"
  by (simp add: flatten_prop_def good_prop_def prop_size_def)

lemma length_flatten_props:
  "\<forall>p \<in> set ps. good_prop p \<Longrightarrow> length (concat (map flatten_prop ps)) = props_size ps"
  by (induction ps) (auto simp: length_flatten_prop)

lemma flatten_prop_at:
  assumes "good_prop (n, v)" "bytes m a (prop_size v) = flatten_prop (n, v)"
  shows "cstr m a n \<and> prop_length m a = of_nat (length v) \<and> bytes m (a + 36) (length v) = v"
proof -
  let ?pad = "(length v + 3) div 4 * 4 - length v"
  let ?n = "n @ replicate (32 - length n) 0"
  have n: "length n < 32" "0 \<notin> set n" and len: "length ?n = 32"
    using assms(1) by (simp_all add: good_prop_def)
  have sz: "prop_size v = length ?n + (length (le_bytes (of_nat (length v))) + (length v + ?pad))"
    using n by (simp add: prop_size_def)
  have b: "bytes m a (length ?n) = ?n" "bytes m (a + 32) 4 = le_bytes (of_nat (length v))"
    "bytes m (a + 36) (length v) = v"
    using assms(2) unfolding sz flatten_prop_def prod.case bytes_append_iff
    unfolding len by (simp_all add: add.assoc)
  have "cstr m a n" using cstr_bytes [of m a n "32 - length n"] b(1) n by simp
  then show ?thesis using b ld32_bytes by (simp add: prop_length_def)
qed

lemma flatten_props_at:
  "\<forall>p \<in> set ps. good_prop p \<Longrightarrow> bytes m a (props_size ps) = concat (map flatten_prop ps) \<Longrightarrow> props_at m a ps"
proof (induction ps arbitrary: a)
  case (Cons nv ps)
  obtain n v where nv [simp]: "nv = (n, v)" by fastforce
  have g: "good_prop (n, v)" using Cons.prems by simp
  have "bytes m a (length (flatten_prop (n, v)) + props_size ps) = flatten_prop (n, v) @ concat (map flatten_prop ps)"
    using Cons.prems g by (simp add: length_flatten_prop)
  then have "bytes m a (prop_size v) = flatten_prop (n, v)"
    "bytes m (a + of_nat (prop_size v)) (props_size ps) = concat (map flatten_prop ps)"
    unfolding bytes_append_iff by (simp_all add: length_flatten_prop [OF g])
  with Cons flatten_prop_at [OF g] show ?case by (auto simp: good_prop_def)
qed simp

lemma length_flatten:
  "good_tree t \<Longrightarrow> length (flatten t) = dt_size t"
  "\<forall>t \<in> set ts. good_tree t \<Longrightarrow> length (concat (map flatten ts)) = dts_size ts"
  by (induction t and ts rule: dt_size_dts_size.induct) (auto simp: length_flatten_props)

text \<open>The bytes of a flattened tree are a flattened tree wherever they lie.\<close>

lemma flatten_at:
  "good_tree t \<Longrightarrow> bytes m a (dt_size t) = flatten t \<Longrightarrow> dt_at m a t"
  "\<forall>t \<in> set ts. good_tree t \<Longrightarrow> bytes m a (dts_size ts) = concat (map flatten ts) \<Longrightarrow> dts_at m a ts"
proof (induction m a t and m a ts rule: dt_at_dts_at.induct)
  case (1 m p ps ts)
  let ?np = "le_bytes (of_nat (length ps))" and ?nc = "le_bytes (of_nat (length ts))"
  let ?fp = "concat (map flatten_prop ps)"
  have l: "length ?fp = props_size ps" using "1.prems" by (auto intro: length_flatten_props)
  have sz: "dt_size (DT ps ts) = length ?np + (length ?nc + (length ?fp + dts_size ts))" by (simp add: l)
  have b: "bytes m p 4 = ?np" "bytes m (p + 4) 4 = ?nc" "bytes m (p + 8) (props_size ps) = ?fp"
    "bytes m (p + of_nat (8 + props_size ps)) (dts_size ts) = concat (map flatten ts)"
    using "1.prems"(2) unfolding sz flatten.simps bytes_append_iff
    unfolding l by (simp_all add: add.assoc)
  have "dts_at m (p + of_nat (8 + props_size ps)) ts" using 1(1) "1.prems"(1) b(4) by simp
  then show ?case
    using "1.prems"(1) b flatten_props_at [of ps m "p + 8"] ld32_bytes
    by (simp add: nProperties_def nChildren_def)
next
  case (3 m p t ts)
  have l: "length (flatten t) = dt_size t" using "3.prems" by (simp add: length_flatten)
  have "bytes m p (length (flatten t) + dts_size ts) = flatten t @ concat (map flatten ts)"
    using "3.prems" by (simp add: l)
  then have "bytes m p (dt_size t) = flatten t"
    "bytes m (p + of_nat (dt_size t)) (dts_size ts) = concat (map flatten ts)"
    unfolding bytes_append_iff unfolding l by simp_all
  then show ?case using 3 by simp
qed simp

text \<open>A tree written at an address where it fits.\<close>

definition written :: "mem \<Rightarrow> u32 \<Rightarrow> dtree \<Rightarrow> bool" where
  "written m p t \<longleftrightarrow> good_tree t \<and> bytes m p (length (flatten t)) = flatten t \<and> p \<noteq> 0 \<and>
     unat p + length (flatten t) < 2 ^ 32"

lemma written_at: "written m p t \<Longrightarrow> node_at m (p, t)"
  by (auto simp: written_def node_at_def fits_def length_flatten intro: flatten_at)

lemma put_bytes_apply:
  "length bs \<le> 2 ^ 32 \<Longrightarrow> in_block a (length bs) x \<Longrightarrow> put_bytes a bs m x = bs ! unat (x - a)"
proof (induction bs arbitrary: a)
  case (Cons b bs)
  show ?case
  proof (cases "x = a")
    case False
    then have "unat (x - (a + 1)) = unat (x - a) - 1" "x - a \<noteq> 0"
      using unat_minus_1 [of "x - a"] by (simp_all add: diff_diff_add)
    moreover have "in_block (a + 1) (length bs) x" using Cons.prems False in_block_Suc [of "length bs" a x] by simp
    ultimately show ?thesis using Cons False by (cases "unat (x - a)") (auto simp: unat_eq_0)
  qed simp
qed simp

lemma bytes_put_bytes: "length bs < 2 ^ 32 \<Longrightarrow> bytes (put_bytes a bs m) a (length bs) = bs"
  by (rule nth_equalityI)
    (auto simp: nth_bytes put_bytes_apply in_block_def unat_count)

lemma written_put_bytes:
  "good_tree t \<Longrightarrow> p \<noteq> 0 \<Longrightarrow> unat p + length (flatten t) < 2 ^ 32 \<Longrightarrow> written (put_bytes p (flatten t) m) p t"
  by (simp add: written_def bytes_put_bytes)

lemma descend_at: "node_at m n \<Longrightarrow> descend n cs = Some k \<Longrightarrow> node_at m k"
proof (induction cs arbitrary: n)
  case (Cons c cs)
  then show ?case by (auto dest: addr_nonzero split: option.splits)
qed simp

section \<open>Lookup by path and by property\<close>

text \<open>A small tree for the witnesses: a root \<open>r\<close> with the children \<open>a\<close> (which has a property \<open>x\<close>) and \<open>b\<close>.\<close>

definition sample_tree :: dtree where
  "sample_tree = DT [(name_prop, [0x72, 0])]
     [DT [(name_prop, [0x61, 0]), ([0x78], [1, 2, 3, 4, 5])] [], DT [(name_prop, [0x62, 0])] []]"

definition sample_mem :: mem where
  "sample_mem = put_bytes 0x1000 (flatten sample_tree) (\<lambda>_. 0xEE)"

lemma sample_written: "written sample_mem 0x1000 sample_tree"
  unfolding sample_mem_def
  by (rule written_put_bytes)
    (simp_all add: sample_tree_def good_prop_def flatten_prop_def le_bytes_def)

lemma lookup_written:
  assumes "written m p t" "named t" "\<forall>c \<in> set cs. component c"
  shows "DTLookupEntry m (DTInit p) 0 (0x2F # join_path cs) = Some (map_option fst (descend (p, t) cs))"
proof -
  note n = written_at [OF assms(1)]
  have "p \<noteq> 0" using n by (simp add: node_at_def fits_def)
  moreover have "cs = [] \<longleftrightarrow> join_path cs = []"
    using assms(3) by (cases cs rule: join_path.cases) (auto simp: component_def)
  ultimately show ?thesis
    using lookup_loop_at [OF n _ assms(3)] assms(2) by (auto simp: DTLookupEntry_def DTInit_def)
qed

text \<open>
  C18: a tree written in the flattened format is read back: a path of names leads
  \<open>DTLookupEntry\<close> to the node that following the names in the tree reaches (to \<open>kError\<close> when there is
  none), and \<open>DTGetProperty\<close> on that node returns the address and size of the first property of the
  given name with exactly its bytes, or \<open>kError\<close>.
\<close>

theorem device_tree_read_back:
  assumes "written m p t" "named t" "\<forall>c \<in> set cs. component c"
  shows "DTLookupEntry m (DTInit p) 0 (0x2F # join_path cs) = Some (map_option fst (descend (p, t) cs)) \<and>
    (\<forall>q u. descend (p, t) cs = Some (q, u) \<longrightarrow>
      finds m (DTGetProperty m q name) (map_of (dt_props u) name))"
proof (intro conjI allI impI)
  fix q u assume "descend (p, t) cs = Some (q, u)"
  then show "finds m (DTGetProperty m q name) (map_of (dt_props u) name)"
    using descend_at [OF written_at [OF assms(1)]] DTGetProperty_at [of m q "dt_props u" "dt_kids u"] by simp
qed (rule lookup_written [OF assms])

theorem device_tree_read_back_witness:
  "DTLookupEntry sample_mem (DTInit 0x1000) 0 [0x2F, 0x61] = Some (Some 0x1030) \<and>
    (\<exists>a. DTGetProperty sample_mem 0x1030 [0x78] = Some (a, 5) \<and> bytes sample_mem a 5 = [1, 2, 3, 4, 5])"
proof -
  have "descend (0x1000, sample_tree) [[0x61]] =
      Some (0x1030, DT [(name_prop, [0x61, 0]), ([0x78], [1, 2, 3, 4, 5])] [])"
    by (simp add: sample_tree_def find_kid_def prop_size_def)
  moreover have "named sample_tree" by (simp add: sample_tree_def)
  ultimately show ?thesis
    using device_tree_read_back [OF sample_written, of "[[0x61]]" "[0x78]"]
    by (auto simp: component_def)
qed

text \<open>
  C38: \<open>DTFindEntry\<close> returns the first node in depth-first order that has the given
  property, with the given string value when one is asked for, and \<open>kError\<close> when no node has.
\<close>

theorem DTFindEntry_first_in_preorder:
  assumes "written m p t" "pv \<noteq> None \<longrightarrow> terminated pn t"
  shows "DTFindEntry m (DTInit p) pn pv = Some (map_option fst (find (node_matches pn pv) (preorder p t)))"
proof -
  have n: "dt_at m p t" "fits p (dt_size t)" using written_at [OF assms(1)] by (simp_all add: node_at_def)
  then show ?thesis
    using find_entries_at(1) [OF n assms(2)]
    by (auto simp: DTFindEntry_def DTInit_def fits_def search_outcome_def split: option.splits)
qed

theorem DTFindEntry_first_in_preorder_witness:
  "DTFindEntry sample_mem (DTInit 0x1000) name_prop (Some [0x62]) = Some (Some 0x108C)"
proof -
  have "terminated name_prop sample_tree" by (simp add: sample_tree_def)
  then show ?thesis
    using DTFindEntry_first_in_preorder [OF sample_written, of "Some [0x62]" name_prop]
    by (simp add: sample_tree_def node_matches_def prop_size_def)
qed

section \<open>Iterators\<close>

text \<open>
  Entering a node of the tree from any position, calling \<open>DTIterateEntries\<close> until it
  reports the end, and leaving again returns the children of the node, each once and in order, and
  gives back the iterator as it was before, with the position it had; the end is reported after as
  many calls as there are children, and one more. Restarting repeats the walk.
\<close>

theorem entry_iterator_scope:
  assumes "node_at m n" "length (kids_of n) < k"
  shows "\<exists>iter' iter''. DTEnterEntry (fst n) iter = (kSuccess, iter') \<and>
    visit (next_entry m) k iter' = Some (map fst (kids_of n), iter'') \<and>
    visit (next_entry m) k (snd (DTRestartEntryIteration iter')) = Some (map fst (kids_of n), iter'') \<and>
    DTExitEntry iter'' = (kSuccess, iter, Some (currentEntry iter))"
proof -
  have "fst n \<noteq> 0" using assms(1) by (simp add: node_at_def fits_def)
  then obtain iter' where e: "DTEnterEntry (fst n) iter = (kSuccess, iter')" "iter_at n 0 iter'"
    "DTRestartEntryIteration iter' = (kSuccess, iter')" "outerScope iter' = outerScope iter"
    "savedScope iter' = \<lparr>sv_scope = currentScope iter, sv_entry = currentEntry iter,
       sv_index = currentIndex iter\<rparr> # savedScope iter"
    by (auto simp: DTEnterEntry_def iter_at_def DTRestartEntryIteration_def)
  then obtain iter'' where "visit (next_entry m) k iter' = Some (map fst (kids_of n), iter'')"
    "savedScope iter'' = savedScope iter'" "outerScope iter'' = outerScope iter'"
    using entries.visit_all [of m n iter' k] assms e(2) by auto
  then show ?thesis using e by (auto simp: DTExitEntry_def)
qed

theorem entry_iterator_scope_witness:
  "\<exists>iter iter' iter''. DTCreateEntryIterator (DTInit 0x1000) 0 = Some iter \<and>
    DTEnterEntry 0x1000 iter = (kSuccess, iter') \<and>
    visit (next_entry sample_mem) 3 iter' = Some ([0x1030, 0x108C], iter'') \<and>
    DTExitEntry iter'' = (kSuccess, iter, Some 0)"
proof -
  have "kids_of (0x1000, sample_tree) = [(0x1030, dt_kids sample_tree ! 0), (0x108C, dt_kids sample_tree ! 1)]"
    by (simp add: sample_tree_def prop_size_def)
  then show ?thesis
    using entry_iterator_scope [OF written_at [OF sample_written], of 3
        "the (DTCreateEntryIterator (DTInit 0x1000) 0)"]
    by (auto simp: DTCreateEntryIterator_def DTInit_def)
qed

text \<open>
  Iterating over the properties of a node returns the addresses of their names, one for
  each property and in order, and then reports the end.
\<close>

theorem property_iterator_names:
  assumes "node_at m (p, DT ps ts)" "length ps < k"
  shows "\<exists>as iter. visit (next_property m) k (DTCreatePropertyIterator p) = Some (as, iter) \<and>
    list_all2 (\<lambda>a nv. cstr m a (fst nv)) as ps"
proof -
  have "prop_iter_at p ps 0 (DTCreatePropertyIterator p)"
    by (simp add: prop_iter_at_def DTCreatePropertyIterator_def)
  moreover have "props_at m (p + 8) ps" using assms(1) by (simp add: node_at_def)
  ultimately show ?thesis
    using properties.visit_all [of m p ps "DTCreatePropertyIterator p" k] assms prop_addrs_names
    by (fastforce simp: prop_addrs_def)
qed

theorem property_iterator_names_witness:
  "\<exists>a iter. visit (next_property sample_mem) 2 (DTCreatePropertyIterator 0x1000) = Some ([a], iter) \<and>
    cstr sample_mem a name_prop"
  using property_iterator_names [of sample_mem "0x1000" "dt_props sample_tree" "dt_kids sample_tree" 2]
    written_at [OF sample_written]
  by (auto simp: list_all2_Cons2 sample_tree_def)

section \<open>Errors\<close>

text \<open>
  Without a device tree every lookup is \<open>kError\<close>; with one, a path that has a component
  of more than 63 bytes is \<open>kError\<close> whatever the tree holds.
\<close>

theorem DTLookupEntry_rejects:
  assumes "0x2F \<notin> set c" "length c > 63"
  shows "DTLookupEntry m (DTInit p) e (0x2F # c @ rest) = Some None \<and>
    DTLookupEntry m (DTInit 0) e path = Some None \<and> DTFindEntry m (DTInit 0) pn pv = Some None \<and>
    DTCreateEntryIterator (DTInit 0) e = None"
proof -
  obtain x y where xy: "drop 63 c = x # y" using assms(2) by (cases "drop 63 c") auto
  have "x \<in> set c" using xy by (metis in_set_dropD list.set_intros(1))
  moreover have "0x2F \<notin> set (take 63 c)" using assms(1) by (meson in_set_takeD)
  ultimately have "next_component 0 [] (take 63 c @ drop 63 c @ rest) = ([], x # y @ rest)"
    using assms xy by (subst next_component_app) auto
  then have "GetNextComponent (c @ rest) = ([], x # y @ rest)"
    by (simp add: GetNextComponent_def flip: append_assoc)
  then have "lookup_loop m cur (c @ rest) = Some None" for cur
    by (subst lookup_loop.simps) simp
  moreover have "c @ rest \<noteq> []" using assms(2) by auto
  ultimately show ?thesis
    by (auto simp: DTLookupEntry_def DTFindEntry_def DTCreateEntryIterator_def DTInit_def)
qed

theorem DTLookupEntry_rejects_witness:
  "DTLookupEntry sample_mem (DTInit 0x1000) 0 (0x2F # replicate 64 0x61) = Some None"
  using DTLookupEntry_rejects [of "replicate 64 0x61" sample_mem "0x1000" 0 "[]"] by simp

end
