(* ===== verification/Pex_Args_Props.thy ===== *)
theory Pex_Args_Props
  imports Pex_Args Pex_Props
begin

text \<open>
  Properties of the boot-argument parser: it treats its string word by word, the numbers it
  reads, which of several matching words wins, and where it writes; and what the defaults of the
  device tree give.
\<close>

section \<open>Positions inside a word\<close>

lemma at_simps [simp]: "at [] = 0" "at (c # s) = c"
  by (simp_all add: at_def)

lemma getval_loop_word:
  "isargsep (at rest) \<Longrightarrow> getval_loop radix sign intval (v @ rest) = getval_loop radix sign intval v"
proof (induction v arbitrary: intval)
  case Nil
  then show ?case by (cases rest) auto
next
  case (Cons c v)
  have "isargsep (at (v @ rest)) \<longleftrightarrow> isargsep (at v)" using Cons.prems by (cases v) (auto simp: isargsep_def)
  then show ?case using Cons by (simp split: option.splits)
qed

lemma getval_number_word:
  assumes rest: "isargsep (at rest)"
  shows "getval_number sign (v @ rest) = getval_number sign v"
proof -
  have r: "at rest = 0x20 \<or> at rest = 0 \<or> at rest = 9" using rest by (auto simp: isargsep_def)
  have n: "getval_loop radix sign intval rest = getval_loop radix sign intval []" for radix sign intval
    using getval_loop_word [OF rest, where v = "[]"] by simp
  show ?thesis
  proof (cases v)
    case Nil
    have "ucast (at rest) - 0x30 \<ge> (10 :: u32)" "ucast (at rest) \<noteq> (0x30 :: u32)" using r by auto
    then show ?thesis using Nil by (simp add: getval_number_def Let_def)
  next
    case (Cons c s)
    show ?thesis
    proof (cases s)
      case Nil
      then show ?thesis using Cons r n rest by (auto simp: getval_number_def Let_def isargsep_def)
    next
      case (Cons d s')
      then show ?thesis using \<open>v = c # s\<close> getval_loop_word [OF rest] getval_loop_word [OF rest, where v = "d # s'"]
        by (simp add: getval_number_def Let_def del: getval_loop.simps)
    qed
  qed
qed

lemma getval_word:
  assumes rest: "isargsep (at rest)"
  shows "getval (v @ rest) = getval v"
proof -
  have r: "at rest = 0x20 \<or> at rest = 0 \<or> at rest = 9" using rest by (auto simp: isargsep_def)
  note w = getval_number_word [OF rest]
  show ?thesis
  proof (cases v)
    case Nil
    then show ?thesis using r by (auto simp: getval_def)
  next
    case (Cons c s)
    then show ?thesis
      using r w [of 1 s] w [of "- 1" "tl s"] by (cases s) (auto simp: getval_def)
  qed
qed

lemma argstrcpy2_word:
  "isargsep (at rest) \<Longrightarrow> argstrcpy2 (v @ rest) dst n m = argstrcpy2 v dst n m"
proof (induction v arbitrary: dst n m)
  case Nil
  then show ?case by (cases rest) auto
qed simp

lemma argstrcpy_word:
  "isargsep (at rest) \<Longrightarrow> argstrcpy (v @ rest) dst m = argstrcpy v dst m"
proof (induction v arbitrary: dst m)
  case Nil
  then show ?case by (cases rest) auto
qed simp

lemma store_string_word:
  assumes "isargsep (at rest)" "v \<noteq> []"
  shows "store_string embedded (v @ rest) p max_len m = store_string embedded v p max_len m"
  using assms by (cases v) (simp_all add: store_string_def argstrcpy2_word argstrcpy_word)

section \<open>Word by word\<close>

lemma takeWhile_both: "takeWhile P (takeWhile Q xs) = takeWhile (\<lambda>x. Q x \<and> P x) xs"
  by (induction xs) auto

lemma dropWhile_both:
  "dropWhile (\<lambda>x. Q x \<and> P x) xs = dropWhile P (takeWhile Q xs) @ dropWhile Q xs"
  by (induction xs) auto

lemma at_after_word: "isargsep (at (dropWhile (\<lambda>c. \<not> isargsep c) s))"
  by (induction s) (auto simp: isargsep_def)

lemma arg_words_next:
  "s \<noteq> [] \<Longrightarrow> \<not> isargsep (at s) \<Longrightarrow>
    arg_words s = takeWhile (\<lambda>c. \<not> isargsep c) s # arg_words (next_arg s)"
proof -
  have "arg_words (dropWhile isargsep t) = arg_words t" for t
    by (subst (1 2) arg_words.simps) (simp add: Let_def)
  then show "s \<noteq> [] \<Longrightarrow> \<not> isargsep (at s) \<Longrightarrow> ?thesis"
    by (subst arg_words.simps) (cases s; auto simp: next_arg_def Let_def)
qed

lemma value_of_word:
  assumes "isargsep (at rest)"
  shows "at (dropWhile (\<lambda>c. c \<noteq> 0x3D) w @ rest) = 0x3D \<longleftrightarrow> 0x3D \<in> set w"
proof (cases "0x3D \<in> set w")
  case True
  then obtain c v where "dropWhile (\<lambda>c. c \<noteq> 0x3D) w = c # v" by (cases "dropWhile (\<lambda>c. c \<noteq> 0x3D) w") auto
  then show ?thesis using True hd_dropWhile [of "\<lambda>c. c \<noteq> 0x3D" w] by auto
next
  case False
  then have "dropWhile (\<lambda>c. c \<noteq> 0x3D) w = []" by auto
  then have "at (dropWhile (\<lambda>c. c \<noteq> 0x3D) w @ rest) = at rest" by (simp only: append_Nil)
  then show ?thesis using assms False by (auto simp: isargsep_def)
qed

lemma at_dropWhile: "dropWhile P s = [] \<or> \<not> P (at (dropWhile P s))"
  by (induction s) auto

lemma next_arg_start: "next_arg args = [] \<or> \<not> isargsep (at (next_arg args))"
  unfolding next_arg_def by (rule at_dropWhile)

lemma word_test:
  "take (length (takeWhile P s)) s \<noteq> take (length (takeWhile P s)) name \<or> length (takeWhile P s) \<noteq> length name
    \<longleftrightarrow> takeWhile P s \<noteq> name"
proof -
  have "take (length (takeWhile P s)) s = takeWhile P s" by (simp flip: takeWhile_eq_take)
  then show ?thesis by auto
qed

lemma parse_loop_step:
  assumes "args \<noteq> []" "\<not> isargsep (at args)"
  shows "parse_loop embedded name p max_len args found m =
    (let w = takeWhile (\<lambda>c. \<not> isargsep c) args in
     if \<not> word_matches name w then parse_loop embedded name p max_len (next_arg args) found m
     else if word_ends name w then (True, word_store embedded name p max_len w m)
     else parse_loop embedded name p max_len (next_arg args) True (word_store embedded name p max_len w m))"
proof -
  define w where "w = takeWhile (\<lambda>c. \<not> isargsep c) args"
  define rest where "rest = dropWhile (\<lambda>c. \<not> isargsep c) args"
  define vl where "vl = dropWhile (\<lambda>c. c \<noteq> 0x3D) w"
  have sep: "isargsep (at rest)" unfolding rest_def by (rule at_after_word)
  have aw: "at args = at w" using assms by (cases args) (auto simp: w_def)
  have nm: "takeWhile (\<lambda>c. \<not> isargsep c \<and> c \<noteq> 0x3D) args = word_name w"
    by (simp add: w_def word_name_def takeWhile_both)
  have cp: "dropWhile (\<lambda>c. \<not> isargsep c \<and> c \<noteq> 0x3D) args = vl @ rest"
    by (simp add: w_def vl_def rest_def dropWhile_both)
  have eq: "at (vl @ rest) = 0x3D \<longleftrightarrow> 0x3D \<in> set w" unfolding vl_def by (rule value_of_word [OF sep])
  note tk = word_test [of "\<lambda>c. \<not> isargsep c \<and> c \<noteq> 0x3D" args name, unfolded nm]
  have v: "dropWhile isargsep (vl @ rest) = vl @ rest" "vl \<noteq> []" if "0x3D \<in> set w"
  proof -
    have "\<not> isargsep (at (vl @ rest))" using that eq by (simp add: isargsep_def)
    then show "dropWhile isargsep (vl @ rest) = vl @ rest" by (cases "vl @ rest") auto
    show "vl \<noteq> []" using that by (auto simp: vl_def)
  qed
  have tlv: "tl (vl @ rest) = tl vl @ rest" if "0x3D \<in> set w" using v(2) [OF that] by simp
  have mx: "(if 17 > max_len then 17 else max_len) = max 17 max_len" by simp
  show ?thesis
  proof (cases "word_matches name w")
    case False
    then show ?thesis
      unfolding parse_loop.simps [of embedded name p max_len args] nm cp tk aw eq Let_def w_def [symmetric]
      using assms(1) by (auto simp: word_matches_def)
  next
    case True
    then have n: "word_name w = name" "at w = 0x2D \<or> 0x3D \<in> set w" by (simp_all add: word_matches_def)
    show ?thesis
    proof (cases "at w = 0x2D")
      case flag: True
      then show ?thesis
        unfolding parse_loop.simps [of embedded name p max_len args] nm cp tk aw eq Let_def w_def [symmetric]
        using assms(1) True n by (simp add: word_ends_def word_store_def)
    next
      case flag: False
      then have e: "0x3D \<in> set w" using n by simp
      show ?thesis
        unfolding parse_loop.simps [of embedded name p max_len args] nm cp tk aw Let_def w_def [symmetric] v(1) [OF e] mx
          getval_word [OF sep] tlv [OF e] argstrcpy2_word [OF sep] store_string_word [OF sep v(2) [OF e]]
        using assms(1) True flag n e eq
        by (auto simp: word_ends_def word_store_def vl_def Let_def split: option.split)
    qed
  qed
qed

lemma parse_loop_words:
  "args = [] \<or> \<not> isargsep (at args) \<Longrightarrow>
    parse_loop embedded name p max_len args found m =
    parse_words embedded name p max_len (arg_words args) found m"
proof (induction "length args" arbitrary: args found m rule: less_induct)
  case less
  show ?case
  proof (cases "args = []")
    case True
    then show ?thesis by (simp add: parse_loop.simps arg_words.simps)
  next
    case ne: False
    have ih: "parse_loop embedded name p max_len (next_arg args) f m' =
        parse_words embedded name p max_len (arg_words (next_arg args)) f m'" for f m'
      using less.hyps [OF _ next_arg_start] length_next_arg(2) [OF ne] by simp
    have s: "\<not> isargsep (at args)" using less.prems ne by simp
    show ?thesis
      unfolding parse_loop_step [OF ne s] arg_words_next [OF ne s] parse_words.simps Let_def ih ..
  qed
qed

lemma arg_words_dropWhile: "arg_words (dropWhile isargsep s) = arg_words s"
  by (subst (1 2) arg_words.simps) (simp add: Let_def)

lemma parse_boot_argn_words:
  "PE_parse_boot_argn embedded args name p max_len m =
    (if embedded \<and> max_len = - 1 then (False, m)
     else parse_words embedded name p max_len (arg_words args) False m)"
proof -
  have "arg_words [] = []" by (simp add: arg_words.simps)
  then show ?thesis
    using parse_loop_words [OF at_dropWhile] by (simp add: PE_parse_boot_argn_def arg_words_dropWhile)
qed

text \<open>
  C30: parsing the boot arguments is a walk over the words of the argument string: a word
  counts when the bytes before its first equals sign are exactly the name and it either starts with a
  dash or has an equals sign; a dash word stores 1 and ends the search, a name with an underscore
  copies a string and ends it, and any other matching word stores its number or string and the
  search goes on. An embedded kernel refuses the length \<open>- 1\<close>.
\<close>

theorem PE_parse_boot_argn_words:
  "PE_parse_boot_argn embedded args name p max_len m =
    (if embedded \<and> max_len = - 1 then (False, m)
     else parse_words embedded name p max_len (arg_words args) False m)"
  by (rule parse_boot_argn_words)

section \<open>Numbers\<close>

text \<open>The number that a list of digits denotes, and the byte of a digit.\<close>

definition digits_value :: "nat \<Rightarrow> nat list \<Rightarrow> nat" where
  "digits_value b ds = foldl (\<lambda>n d. n * b + d) 0 ds"

definition digit_byte :: "nat \<Rightarrow> u8" where
  "digit_byte d = (if d < 10 then 0x30 + of_nat d else 0x61 + of_nat (d - 10))"

lemma below_16: "d < 16 \<Longrightarrow> d \<in> {0, 1, 2, 3, 4, 5, 6, 7, 8, 9, 10, 11, 12, 13, 14, 15}" for d :: nat
  by simp arith

lemma arg_digit_byte:
  assumes "d < b" "b = 2 \<or> b = 8 \<or> b = 10 \<or> b = 16"
  shows "arg_digit (of_nat b) (digit_byte d) = Some (of_nat d) \<and> \<not> isargsep (digit_byte d)"
proof -
  have "d < 16" using assms by auto
  from below_16 [OF this] show ?thesis
    using assms by (elim disjE; elim insertE) (simp_all add: arg_digit_def digit_byte_def isargsep_def)
qed

definition radix :: "nat \<Rightarrow> bool" where
  "radix b \<longleftrightarrow> b = 2 \<or> b = 8 \<or> b = 10 \<or> b = 16"

definition radix_prefix :: "nat \<Rightarrow> u8 list" where
  "radix_prefix b = (if b = 16 then [0x30, 0x78] else if b = 2 then [0x30, 0x62] else if b = 8 then [0x30] else [])"

text \<open>The suffix for the factor \<open>1024 ^ i\<close>.\<close>

definition scale :: "nat \<Rightarrow> u8 list" where
  "scale i = (if i = 1 then [0x6B] else if i = 2 then [0x6D] else if i = 3 then [0x67] else [])"

lemma scale_loop:
  assumes "radix b" "i < 4"
  shows "getval_loop (of_nat b) sign v (scale i) = Some (v * (sign * 1024 ^ i))"
proof -
  have "i = 0 \<or> i = 1 \<or> i = 2 \<or> i = 3" using assms(2) by arith
  then show ?thesis
    using assms(1) unfolding radix_def
    by (elim disjE) (simp_all add: scale_def arg_digit_def arg_suffix_def isargsep_def)
qed

lemma getval_loop_digits:
  "radix b \<Longrightarrow> i < 4 \<Longrightarrow> \<forall>d \<in> set ds. d < b \<Longrightarrow>
    getval_loop (of_nat b) sign (of_nat n) (map digit_byte ds @ scale i) =
    Some (of_nat (foldl (\<lambda>n d. n * b + d) n ds) * (sign * 1024 ^ i))"
proof (induction ds arbitrary: n)
  case Nil
  then show ?case by (simp add: scale_loop)
next
  case (Cons d ds)
  have d: "d < b" "b \<le> 16" using Cons.prems by (auto simp: radix_def)
  have u: "ucast (of_nat d :: u8) = (of_nat d :: u32)"
    using d below_16 [of d] by (auto elim!: insertE)
  have "\<not> (of_nat b :: u32) \<le> of_nat d"
    using d by (simp add: word_le_nat_alt unat_count)
  then have "getval_loop (of_nat b) sign (of_nat n) (digit_byte d # map digit_byte ds @ scale i) =
      getval_loop (of_nat b) sign (of_nat (n * b + d)) (map digit_byte ds @ scale i)"
    using arg_digit_byte [of d b] Cons.prems(1) d by (simp add: u radix_def)
  then show ?case using Cons by (simp del: getval_loop.simps of_nat_add of_nat_mult)
qed

lemma getval_number_oct:
  assumes "d < 8"
  shows "getval_number sign (0x30 # digit_byte d # s) = getval_loop 8 sign (of_nat d) s"
proof -
  have "d < 16" using assms by simp
  from below_16 [OF this] show ?thesis
    using assms by (elim insertE) (simp_all add: getval_number_def digit_byte_def del: getval_loop.simps)
qed

lemma getval_number_dec:
  assumes "0 < d" "d < 10"
  shows "getval_number sign (digit_byte d # s) = getval_loop 10 sign (of_nat d) s"
proof -
  have "d < 16" using assms by simp
  from below_16 [OF this] show ?thesis
    using assms by (elim insertE) (simp_all add: getval_number_def digit_byte_def word_le_nat_alt del: getval_loop.simps)
qed

text \<open>
  A value after the equals sign is read as C reads numbers: binary after \<open>0b\<close>, octal
  after \<open>0\<close>, hexadecimal after \<open>0x\<close>, otherwise decimal, with an optional minus sign and an optional
  suffix for a power of 1024; the result is the number modulo \<open>2\<^sup>3\<^sup>2\<close>.
\<close>

theorem getval_reads_numbers:
  assumes "radix b" "i < 4" "\<forall>d \<in> set ds. d < b" "ds \<noteq> []" "b = 10 \<longrightarrow> hd ds \<noteq> 0"
  shows "getval ([0x3D] @ (if neg then [0x2D] else []) @ radix_prefix b @ map digit_byte ds @ scale i) =
    Some (of_int ((if neg then - 1 else 1) * int (digits_value b ds * 1024 ^ i)))"
proof -
  let ?v = "digits_value b ds" and ?s = "map digit_byte ds @ scale i"
  obtain d ds' where ds: "ds = d # ds'" using assms(4) by (cases ds) auto
  have d: "d < b" "d < 16" using assms(1,3) by (auto simp: ds radix_def)
  note loop = getval_loop_digits [OF assms(1,2)]
  have number: "getval_number sign (radix_prefix b @ ?s) = Some (of_nat ?v * (sign * 1024 ^ i))" for sign
  proof -
    have all: "getval_loop (of_nat b) sign 0 ?s = Some (of_nat ?v * (sign * 1024 ^ i))"
      using loop [of ds sign 0] assms(3) by (simp add: digits_value_def)
    have rest: "getval_loop (of_nat b) sign (of_nat d) (map digit_byte ds' @ scale i) =
        Some (of_nat ?v * (sign * 1024 ^ i))"
      using loop [of ds' sign d] assms(3) by (simp add: digits_value_def ds)
    consider "b = 16" | "b = 2" | "b = 8" | "b = 10" using assms(1) by (auto simp: radix_def)
    then show ?thesis
    proof cases
      case 3
      then show ?thesis using rest d ds by (simp add: radix_prefix_def getval_number_oct)
    next
      case 4
      then show ?thesis using rest d ds assms(5) by (simp add: radix_prefix_def getval_number_dec)
    qed (use all in \<open>simp_all add: getval_number_def radix_prefix_def Let_def del: getval_loop.simps\<close>)
  qed
  have "at (radix_prefix b @ ?s) \<noteq> 0x2D"
    using below_16 [OF d(2)] by (auto simp: radix_prefix_def ds digit_byte_def)
  then show ?thesis by (simp add: getval_def number)
qed

theorem getval_reads_numbers_witness:
  "getval [0x3D, 0x2D, 0x30, 0x78, 0x31, 0x66, 0x6B] = Some (of_int (- 31744))"
  using getval_reads_numbers [of 16 1 "[1, 15]" True]
  by (simp add: radix_def radix_prefix_def scale_def digit_byte_def digits_value_def)

section \<open>Which word wins\<close>

lemma parse_words_no_match:
  "\<forall>w \<in> set ws. \<not> word_matches name w \<Longrightarrow> parse_words embedded name p max_len ws found m = (found, m)"
  by (induction ws) simp_all

lemma parse_words_last:
  assumes "at name \<noteq> 0x2D" "at name \<noteq> 0x5F" "name \<noteq> []" "word_matches name w"
    "\<forall>v \<in> set ws'. \<not> word_matches name v"
  shows "\<exists>m'. parse_words embedded name p max_len (ws @ w # ws') found m =
    (True, word_store embedded name p max_len w m')"
proof -
  have open_word: "\<not> word_ends name v" if "word_matches name v" for v
  proof -
    have "at v = at name" using that assms(3)
      by (cases v) (auto simp: word_matches_def word_name_def split: if_splits)
    then show ?thesis using assms by (simp add: word_ends_def)
  qed
  show ?thesis
  proof (induction ws arbitrary: found m)
    case Nil
    then show ?case using assms(4,5) open_word by (auto simp: parse_words_no_match)
  next
    case (Cons v ws)
    then show ?case using open_word [of v] by auto
  qed
qed

text \<open>
  Of several settings \<open>name=value\<close> for a name that starts with neither a dash nor an
  underscore the last one counts: when its value is a number, the 32-bit variable of the caller
  holds that number afterwards.
\<close>

theorem last_setting_wins:
  assumes "arg_words args = ws @ (name @ 0x3D # digits) # ws'"
    and "\<forall>w \<in> set ws'. \<not> word_matches name w" and "getval (0x3D # digits) = Some v"
    and "name \<noteq> []" "at name \<noteq> 0x2D" "at name \<noteq> 0x5F" "0x3D \<notin> set name"
  shows "\<exists>m'. PE_parse_boot_argn embedded args name p 4 m = (True, m') \<and> ld32 m' p = v"
proof -
  let ?w = "name @ 0x3D # digits"
  have w: "takeWhile (\<lambda>c. c \<noteq> 0x3D) ?w = name" "dropWhile (\<lambda>c. c \<noteq> 0x3D) ?w = 0x3D # digits"
    using assms(7) by (subst takeWhile_append2 dropWhile_append2; auto)+
  have "word_matches name ?w" by (simp add: word_matches_def word_name_def w)
  from parse_words_last [OF assms(5,6,4) this assms(2), of embedded p 4 ws False m]
  obtain m' where "parse_words embedded name p 4 (arg_words args) False m =
      (True, word_store embedded name p 4 ?w m')" using assms(1) by auto
  moreover have "at ?w = at name" using assms(4) by (cases name) auto
  then have "word_store embedded name p 4 ?w m' = st32 p v m'"
    using assms(3,5,6) by (simp add: word_store_def w argnumcpy_def)
  ultimately show ?thesis by (simp add: parse_boot_argn_words)
qed

theorem last_setting_wins_witness:
  "\<exists>m'. PE_parse_boot_argn True [0x78, 0x3D, 0x31, 0x20, 0x78, 0x3D, 0x35] [0x78] 0x100 4 (\<lambda>_. 0) = (True, m') \<and>
    ld32 m' 0x100 = 5"
proof -
  have "arg_words [0x78, 0x3D, 0x31, 0x20, 0x78, 0x3D, 0x35] = [[0x78, 0x3D, 0x31]] @ ([0x78] @ 0x3D # [0x35]) # []"
    by (simp add: arg_words.simps isargsep_def)
  moreover have "getval [0x3D, 0x35] = Some 5" by (simp add: getval_def getval_number_def word_le_nat_alt)
  ultimately show ?thesis
    using last_setting_wins [of "[0x78, 0x3D, 0x31, 0x20, 0x78, 0x3D, 0x35]" "[[0x78, 0x3D, 0x31]]" "[0x78]" "[0x35]" "[]" 5
        True "0x100" "\<lambda>_. 0"] by simp
qed

section \<open>Where the parser writes\<close>

lemma argnumcpy_frame: "\<not> in_block p (unat n) x \<Longrightarrow> snd (argnumcpy v p n m) x = m x"
proof -
  assume x: "\<not> in_block p (unat n) x"
  have "in_block p (unat n) (p + k)" if "k < n" for k using that by (simp add: in_block_def word_less_nat_alt)
  then have "x \<noteq> p + k" if "k < n" for k using x that by blast
  from this [of 0] this [of 1] this [of 2] this [of 3] show ?thesis
    by (auto simp: argnumcpy_def st32_def word_less_nat_alt word_unat_eq_iff)
qed

lemma argstrcpy2_frame:
  "Suc n \<le> 2 ^ 32 \<Longrightarrow> \<not> in_block p (Suc n) x \<Longrightarrow> snd (argstrcpy2 s p n m) x = m x"
proof (induction s p n m rule: argstrcpy2.induct)
  case (1 dst n m)
  then show ?case using in_block_Suc [of n dst x] by auto
next
  case (2 c s dst n m)
  then show ?case using in_block_Suc [of n dst x] by (cases n) (auto simp: fun_upd_other simp del: fun_upd_apply split: prod.splits)
qed

lemma in_block_mono: "in_block a n x \<Longrightarrow> n \<le> k \<Longrightarrow> in_block a k x"
  by (simp add: in_block_def)

text \<open>The number of bytes that a caller with the limit \<open>max_len\<close> must provide.\<close>

definition room :: "u8 list \<Rightarrow> int \<Rightarrow> nat" where
  "room name max_len = nat (if at name = 0x5F then max 17 max_len else max_len)"

lemma word_store_frame:
  assumes "0 \<le> max_len" "max_len < 2 ^ 31" "\<not> in_block p (room name max_len) x"
  shows "word_store embedded name p max_len w m x = m x"
proof -
  have u: "unat (of_int max_len :: u32) = nat max_len"
    using assms(1,2) by (simp add: unat_eq_nat_uint uint_word_of_int)
  have le: "nat max_len \<le> room name max_len" by (auto simp: room_def intro: nat_mono)
  have num: "snd (argnumcpy v p (of_int max_len) m) x = m x" for v
    using in_block_mono [OF _ le] assms(3) u by (auto intro!: argnumcpy_frame)
  have str: "snd (argstrcpy2 s p (nat (k - 1)) m) x = m x" if "0 < k" "k < 2 ^ 31" "nat k \<le> room name max_len" for s k
    using in_block_mono [OF _ that(3)] assms(3) that by (auto intro!: argstrcpy2_frame simp: Suc_nat_eq_nat_zadd1)
  have "store_string embedded s p max_len m x = m x" for s
    using str [of max_len] assms(1,2) le by (simp add: store_string_def)
  moreover have "snd (argstrcpy2 s p (nat (max 17 max_len - 1)) m) x = m x" if "at name = 0x5F" for s
    using that assms(2) by (intro str) (simp_all add: room_def)
  ultimately show ?thesis using num by (simp add: word_store_def Let_def split: option.split)
qed

text \<open>
  C31: with a limit that is not negative the parser writes only that many bytes at the
  caller's pointer, except that a name with an underscore may need 17 whatever the limit says.
\<close>

theorem PE_parse_boot_argn_bounds:
  assumes "0 \<le> max_len" "max_len < 2 ^ 31" "PE_parse_boot_argn embedded args name p max_len m = (r, m')"
    and "\<not> in_block p (room name max_len) x"
  shows "m' x = m x"
proof -
  have "snd (parse_words embedded name p max_len ws found m) x = m x" for ws found m
    using word_store_frame [OF assms(1,2,4)] by (induction ws arbitrary: found m) auto
  then show ?thesis
    using assms(1,3) unfolding parse_boot_argn_words by (metis snd_conv)
qed

theorem PE_parse_boot_argn_bounds_witness:
  "snd (PE_parse_boot_argn True [0x78, 0x3D, 0x31, 0x20, 0x78, 0x3D, 0x35] [0x78] 0x100 4 (\<lambda>_. 0)) 0x104 = 0"
  by (rule PE_parse_boot_argn_bounds [where max_len = 4 and r = "fst (PE_parse_boot_argn True
        [0x78, 0x3D, 0x31, 0x20, 0x78, 0x3D, 0x35] [0x78] 0x100 4 (\<lambda>_. 0))" and embedded = True
        and args = "[0x78, 0x3D, 0x31, 0x20, 0x78, 0x3D, 0x35]" and name = "[0x78]" and p = "0x100"
        and m = "\<lambda>_. 0", THEN trans])
    (simp_all add: room_def in_block_def)

section \<open>Defaults of the device tree\<close>


lemma value_count:
  assumes "node_at m (p, DT ps ts)" "map_of ps name = Some v"
  shows "length v < 2 ^ 32"
proof -
  have "prop_size v \<le> props_size ps"
    using map_of_SomeD [OF assms(2)] by (induction ps) auto
  moreover have "props_size ps < 2 ^ 32" using assms(1) by (simp add: node_at_def fits_def)
  moreover have "length v \<le> prop_size v" by (simp add: prop_size_def)
  ultimately show ?thesis by linarith
qed

lemma bytes_copy_block:
  "bytes (copy_block dst src n m) dst (unat n) = bytes m src (unat n)"
proof (rule nth_equalityI)
  fix i assume "i < length (bytes (copy_block dst src n m) dst (unat n))"
  then have "i < unat n" by simp
  moreover from this have "unat (of_nat i :: u32) = i" by (intro unat_of_nat_le [of i n]) simp
  ultimately show "bytes (copy_block dst src n m) dst (unat n) ! i = bytes m src (unat n) ! i"
    by (simp add: nth_bytes copy_block_def in_block_def)
qed simp

text \<open>
  On a written device tree \<open>PE_get_default\<close> answers from the node \<open>/defaults\<close>: a property
  that is not larger than the caller's buffer is copied there byte by byte and nothing else
  changes; a missing or larger one is refused with the memory as it was. Only without that
  node is I/O Kit asked.
\<close>

theorem PE_get_default_reads:
  assumes "written m p t" "named t"
  shows "\<exists>ok m'. PE_get_default iokit (DTInit p) name dst limit m = Some (ok, m') \<and>
    (case descend (p, t) [tl defaults_path] of
       None \<Rightarrow> (ok \<longleftrightarrow> fst (iokit name dst limit m) = 0) \<and> m' = snd (iokit name dst limit m)
     | Some (q, u) \<Rightarrow>
         (case map_of (dt_props u) name of
            Some v \<Rightarrow>
              if length v \<le> unat limit
              then ok \<and> bytes m' dst (length v) = v \<and> (\<forall>x. \<not> in_block dst (length v) x \<longrightarrow> m' x = m x)
              else \<not> ok \<and> m' = m
          | None \<Rightarrow> \<not> ok \<and> m' = m))"
proof -
  note n = written_at [OF assms(1)]
  have c: "component (tl defaults_path)" by (simp add: defaults_path_def component_def)
  have look: "DTLookupEntry m (DTInit p) 0 defaults_path = Some (map_option fst (descend (p, t) [tl defaults_path]))"
    using lookup_written [OF assms, of "[tl defaults_path]"] c by (simp add: defaults_path_def)
  show ?thesis
  proof (cases "descend (p, t) [tl defaults_path]")
    case None
    then show ?thesis unfolding PE_get_default_def look by (auto split: prod.splits)
  next
    case (Some k)
    obtain q u where k: "k = (q, u)" by fastforce
    have nu: "node_at m (q, DT (dt_props u) (dt_kids u))" using descend_at [OF n Some] by (simp add: k)
    note g = DTGetProperty_at [OF nu, of name]
    show ?thesis
    proof (cases "map_of (dt_props u) name")
      case None
      then show ?thesis using g unfolding PE_get_default_def look Some k by auto
    next
      case v: (Some v)
      then obtain a where a: "DTGetProperty m q name = Some (a, of_nat (length v))" "bytes m a (length v) = v"
        using g by auto
      have len: "unat (of_nat (length v) :: u32) = length v" using value_count [OF nu v] by (rule unat_count)
      have r: "PE_get_default iokit (DTInit p) name dst limit m =
          Some (if length v \<le> unat limit then (True, copy_block dst a (of_nat (length v)) m) else (False, m))"
        unfolding PE_get_default_def look Some k
        by (simp add: a(1) word_less_nat_alt len not_le)
      have b: "bytes (copy_block dst a (of_nat (length v)) m) dst (length v) = v"
        using bytes_copy_block [of dst a "of_nat (length v)" m] a(2) unfolding len by simp
      show ?thesis unfolding r Some k using b len
        by (cases "length v \<le> unat limit") (auto simp: v copy_block_def)
    qed
  qed
qed

theorem PE_get_default_reads_witness:
  "\<exists>m'. PE_get_default (\<lambda>_ _ _ m. (1, m)) (DTInit 0x1000) [0x78] 0x2000 8
      (put_bytes 0x1000 (flatten (DT [(name_prop, [0])] [DT [(name_prop, tl defaults_path @ [0]), ([0x78], [7, 8, 9])] []]))
        (\<lambda>_. 0)) = Some (True, m') \<and> bytes m' 0x2000 3 = [7, 8, 9]"
proof -
  let ?t = "DT [(name_prop, [0])] [DT [(name_prop, tl defaults_path @ [0]), ([0x78], [7, 8, 9])] []]"
  have d: "defaults_path = [0x2F, 0x64, 0x65, 0x66, 0x61, 0x75, 0x6C, 0x74, 0x73]" by (rule defaults_path_def)
  have "written (put_bytes 0x1000 (flatten ?t) (\<lambda>_. 0)) 0x1000 ?t"
    by (rule written_put_bytes) (simp_all add: good_prop_def flatten_prop_def le_bytes_def d)
  moreover have "named ?t" by (simp add: d)
  moreover have "descend (0x1000, ?t) [tl defaults_path] =
      Some (0x102C + 4, DT [(name_prop, tl defaults_path @ [0]), ([0x78], [7, 8, 9])] [])"
    by (simp add: find_kid_def prop_size_def d)
  ultimately show ?thesis
    using PE_get_default_reads [of "put_bytes 0x1000 (flatten ?t) (\<lambda>_. 0)" "0x1000" ?t "\<lambda>_ _ _ m. (1, m)" "[0x78]" "0x2000" 8]
    by (auto simp: numeral_3_eq_3)
qed

end
