(* ===== verification/Pex_Soc.thy ===== *)
theory Pex_Soc
  imports Kick_Console
begin

text \<open>
  The kernel's board support for the MSM8916 (\<open>pexpert/arm/pe_msm8916.c\<close>): console, interrupt
  controller, timer and the dispatch table. Device registers are reached through volatile reads,
  whose values an environment gives by the number of the read, and stores, which are kept in order
  in a trace together with the calls into the rest of the kernel. \<open>assert\<close> is compiled out and the
  text of \<open>kprintf\<close> is not kept.
\<close>

section \<open>State\<close>

record soc_env =
  io_read :: "nat \<Rightarrow> u32 \<Rightarrow> u32"
  ml_io_map :: "u32 \<Rightarrow> u32 \<Rightarrow> u32"
  counter :: "nat \<Rightarrow> u64"
  irq_line :: "nat \<Rightarrow> bool"

datatype soc_event =
    Store u32 u32
  | Rtc_configure u64
  | Rtclock_intr
  | Irq_iokit_dispatch u32
  | Set_interrupts_enabled bool
  | Vcputc u32

datatype soc_routine =
    Msm8916_getc | Msm8916_putc | Msm8916_uart_init | Msm8916_interrupt_init | Msm8916_timebase_init
  | Msm8916_get_timebase | Msm8916_handle_interrupt | Msm8916_timer_value | Msm8916_timer_enabled
  | Msm8916_framebuffer_init

record SocDeviceDispatch =
  d_uart_getc :: soc_routine
  d_uart_putc :: soc_routine
  d_uart_init :: soc_routine
  d_interrupt_init :: soc_routine
  d_timebase_init :: soc_routine
  d_get_timebase :: soc_routine
  d_handle_interrupt :: soc_routine
  d_timer_value :: soc_routine
  d_timer_enabled :: soc_routine
  d_framebuffer_init :: soc_routine

record soc =
  gGICDistBase :: u32
  gGICCPUBase :: u32
  gUARTBase :: u32
  clock_decrementer :: u64
  clock_initialized :: bool
  clock_had_irq :: bool
  clock_absolute_time :: u64
  timebase_frequency_hz :: u64
  timer_ctl :: u32
  gPESocDispatch :: "SocDeviceDispatch option"
  n_reads :: nat
  n_counts :: nat
  n_turns :: nat
  trace :: "soc_event list"

abbreviation (input) MSM8916_GIC_DIST_BASE :: u32 where "MSM8916_GIC_DIST_BASE \<equiv> 0x0B000000"
abbreviation (input) MSM8916_GIC_CPU_BASE :: u32 where "MSM8916_GIC_CPU_BASE \<equiv> 0x0B002000"
abbreviation (input) MSM8916_BLSP1_UART2_BASE :: u32 where "MSM8916_BLSP1_UART2_BASE \<equiv> 0x078B0000"
abbreviation (input) INT_DEBUG_TIMER_EXP :: u32 where "INT_DEBUG_TIMER_EXP \<equiv> 17"
abbreviation (input) NR_IRQS :: u32 where "NR_IRQS \<equiv> 256"

text \<open>A volatile read, a volatile store and a call that leaves the file.\<close>

definition hw_read :: "soc_env \<Rightarrow> u32 \<Rightarrow> soc \<Rightarrow> u32 \<times> soc" where
  "hw_read env a s = (io_read env (n_reads s) a, s\<lparr>n_reads := Suc (n_reads s)\<rparr>)"

definition emit :: "soc_event \<Rightarrow> soc \<Rightarrow> soc" where
  "emit e s = s\<lparr>trace := trace s @ [e]\<rparr>"

abbreviation hw_write :: "u32 \<Rightarrow> u32 \<Rightarrow> soc \<Rightarrow> soc" where
  "hw_write a v \<equiv> emit (Store a v)"

section \<open>Timer\<close>

definition timer_configure :: "soc \<Rightarrow> soc" where
  "timer_configure s =
     emit (Rtc_configure 19200000) (s\<lparr>timebase_frequency_hz := 19200000, clock_decrementer := 1000\<rparr>)"

text \<open>The counter register, and the enable bit of the timer's control register.\<close>

definition msm8916_timer_value :: "soc_env \<Rightarrow> soc \<Rightarrow> u64 \<times> soc" where
  "msm8916_timer_value env s = (counter env (n_counts s), s\<lparr>n_counts := Suc (n_counts s)\<rparr>)"

definition msm8916_timer_enabled :: "bool \<Rightarrow> soc \<Rightarrow> soc" where
  "msm8916_timer_enabled enable s =
     s\<lparr>timer_ctl := (if enable then timer_ctl s OR 1 else timer_ctl s AND NOT 1)\<rparr>"

section \<open>Console\<close>

definition putc_raw :: "soc_env \<Rightarrow> u32 \<Rightarrow> soc \<Rightarrow> soc option" where
  "putc_raw env c s = do {
     k \<leftarrow> uart_wait (\<lambda>n. io_read env n (gUARTBase s + 0x0A0)) (n_reads s);
     Some (hw_write (gUARTBase s + 0x0A8) c (s\<lparr>n_reads := k\<rparr>))
   }"

definition msm8916_putc :: "soc_env \<Rightarrow> u32 \<Rightarrow> soc \<Rightarrow> soc option" where
  "msm8916_putc env c s =
     (if gUARTBase s = 0 then Some s
      else do {
        s1 \<leftarrow> (if c = 0x0A then putc_raw env 0x0D s else Some s);
        putc_raw env c s1
      })"

definition msm8916_getc :: "soc_env \<Rightarrow> soc \<Rightarrow> int \<times> soc" where
  "msm8916_getc env s =
     (if gUARTBase s = 0 then (- 1, s)
      else case hw_read env (gUARTBase s + 0x0A0) s of (sr, s1) \<Rightarrow>
        if sr AND 1 \<noteq> 0 then
          (case hw_read env (gUARTBase s + 0x0AC) s1 of (c, s2) \<Rightarrow> (uint (c AND 0xFF), s2))
        else (- 1, s1))"

definition msm8916_uart_init :: "soc_env \<Rightarrow> soc \<Rightarrow> soc" where
  "msm8916_uart_init env s = s\<lparr>gUARTBase := ml_io_map env MSM8916_BLSP1_UART2_BASE 0x1000\<rparr>"

section \<open>Interrupt controller\<close>

text \<open>\<open>for (i = a; i < n; i += d)\<close> with a positive step.\<close>

function for_step :: "nat \<Rightarrow> nat \<Rightarrow> nat \<Rightarrow> (nat \<Rightarrow> 'a \<Rightarrow> 'a) \<Rightarrow> 'a \<Rightarrow> 'a" where
  "for_step i n d f s = (if i < n \<and> 0 < d then for_step (i + d) n d f (f i s) else s)"
  by pat_completeness auto
termination by (relation "measure (\<lambda>(i, n, d, f, s). n - i)") auto

declare for_step.simps [simp del]

definition qgic_dist_init :: "soc_env \<Rightarrow> soc \<Rightarrow> soc" where
  "qgic_dist_init env s =
     (let b = gGICDistBase s;
          cpumask = 0x01010101;
          s1 = hw_write b 0 s;
          (ctr, s2) = hw_read env (b + 0x004) s1;
          num_irq = (unat (ctr AND 0x1F) + 1) * 32;
          s3 = for_step 32 num_irq 16 (\<lambda>i. hw_write (b + 0xC00 + of_nat (i * 4 div 16)) 0xFFFFFFFF) s2;
          s4 = hw_write (b + 0xC00 + 4) 0xFFFFFFFF s3;
          s5 = for_step 32 num_irq 4 (\<lambda>i. hw_write (b + 0x800 + of_nat (i * 4 div 4)) cpumask) s4;
          s6 = for_step 0 num_irq 4 (\<lambda>i. hw_write (b + 0x400) 0xA0A0A0A0) s5;
          s7 = for_step 0 num_irq 32 (\<lambda>i. hw_write (b + 0x180 + of_nat (i * 4 div 32)) 0xFFFFFFFF) s6
      in hw_write b 1 (hw_write (b + 0x100) 0xFFFF s7))"

definition qgic_cpu_init :: "soc \<Rightarrow> soc" where
  "qgic_cpu_init s = hw_write (gGICCPUBase s) 1 (hw_write (gGICCPUBase s + 0x04) 0xF0 s)"

definition msm8916_interrupt_init :: "soc_env \<Rightarrow> soc \<Rightarrow> soc" where
  "msm8916_interrupt_init env s =
     qgic_cpu_init (qgic_dist_init env
       (s\<lparr>gGICDistBase := ml_io_map env MSM8916_GIC_DIST_BASE 0x1000,
          gGICCPUBase := ml_io_map env MSM8916_GIC_CPU_BASE 0x1000\<rparr>))"

definition msm8916_handle_interrupt :: "soc_env \<Rightarrow> soc \<Rightarrow> soc" where
  "msm8916_handle_interrupt env s =
     (case hw_read env (gGICCPUBase s + 0x0C) s of (irq_no, s1) \<Rightarrow>
        if irq_no > NR_IRQS then s1
        else
          let s2 =
            (if irq_no = INT_DEBUG_TIMER_EXP then
               (case msm8916_timer_value env (msm8916_timer_enabled False s1) of (t, s3) \<Rightarrow>
                  (msm8916_timer_enabled True
                    (emit Rtclock_intr
                      (s3\<lparr>clock_absolute_time := clock_absolute_time s3 + (clock_decrementer s3 - t)\<rparr>)))
                    \<lparr>clock_had_irq := True\<rparr>)
             else emit (Irq_iokit_dispatch irq_no) s1)
          in hw_write (gGICCPUBase s2 + 0x10) irq_no s2)"

section \<open>Time base\<close>

text \<open>Waiting for the first timer interrupt; in each turn of the loop an interrupt may arrive.\<close>

partial_function (option) wait_irq :: "soc_env \<Rightarrow> soc \<Rightarrow> soc option" where
  "wait_irq env s =
     (if clock_had_irq s then Some s
      else wait_irq env
        (if irq_line env (n_turns s)
         then msm8916_handle_interrupt env (s\<lparr>n_turns := Suc (n_turns s)\<rparr>)
         else s\<lparr>n_turns := Suc (n_turns s)\<rparr>))"

definition msm8916_timebase_init :: "soc_env \<Rightarrow> soc \<Rightarrow> soc option" where
  "msm8916_timebase_init env s =
     (let s1 = msm8916_timer_enabled False (timer_configure s);
          reg = 0x100 + (INT_DEBUG_TIMER_EXP div 32) * 4;
          s2 = hw_write (gGICDistBase s1 + reg) (push_bit (unat (INT_DEBUG_TIMER_EXP AND 31)) 1) s1;
          s3 = msm8916_timer_enabled True (emit (Set_interrupts_enabled True) s2)
      in wait_irq env (s3\<lparr>clock_initialized := True\<rparr>))"

definition msm8916_get_timebase :: "soc_env \<Rightarrow> soc \<Rightarrow> u64 \<times> soc" where
  "msm8916_get_timebase env s =
     (if \<not> clock_initialized s then (0, s)
      else case msm8916_timer_value env s of (t, s1) \<Rightarrow>
        let timestamp = (ucast t :: u32) in
        if timestamp \<noteq> 0 then (clock_absolute_time s1 + (clock_decrementer s1 - ucast timestamp), s1)
        else
          let s2 = s1\<lparr>clock_absolute_time := clock_absolute_time s1 + clock_decrementer s1\<rparr>
          in (clock_absolute_time s2, s2))"

section \<open>Framebuffer console, restart and dispatch table\<close>

definition fb_putc :: "u32 \<Rightarrow> soc \<Rightarrow> soc" where
  "fb_putc c s = emit (Vcputc c) (if c = 0x0A then emit (Vcputc 0x0D) s else s)"

text \<open>Only prints what the boot loader has configured.\<close>

definition msm8916_framebuffer_init :: "soc \<Rightarrow> soc" where
  "msm8916_framebuffer_init s = s"

definition msm8916_halt_restart :: "int \<Rightarrow> int" where
  "msm8916_halt_restart type = 0"

definition PE_init_SocSupport_msm8916 :: "soc_env \<Rightarrow> soc \<Rightarrow> soc" where
  "PE_init_SocSupport_msm8916 env s =
     msm8916_framebuffer_init (msm8916_uart_init env (s\<lparr>gPESocDispatch := Some
       \<lparr>d_uart_getc = Msm8916_getc, d_uart_putc = Msm8916_putc, d_uart_init = Msm8916_uart_init,
        d_interrupt_init = Msm8916_interrupt_init, d_timebase_init = Msm8916_timebase_init,
        d_get_timebase = Msm8916_get_timebase, d_handle_interrupt = Msm8916_handle_interrupt,
        d_timer_value = Msm8916_timer_value, d_timer_enabled = Msm8916_timer_enabled,
        d_framebuffer_init = Msm8916_framebuffer_init\<rparr>\<rparr>))"

text \<open>The stub that is linked in for this board; the line it prints is not kept.\<close>

definition PE_init_SocSupport_stub :: "soc_env \<Rightarrow> soc \<Rightarrow> soc" where
  "PE_init_SocSupport_stub env s = PE_init_SocSupport_msm8916 env s"

end
