(* ===== verification/Pex_Soc_Props.thy ===== *)
theory Pex_Soc_Props
  imports Pex_Soc
begin

text \<open>
  Properties of the MSM8916 board support: the registers of the interrupt controller after its
  initialisation, the treatment of an interrupt, the console, and the time base.
\<close>

section \<open>The distributor after initialisation\<close>

text \<open>The value last stored at an address.\<close>

fun last_store :: "soc_event list \<Rightarrow> u32 \<Rightarrow> u32 option" where
  "last_store [] a = None"
| "last_store (e # es) a =
     (case last_store es a of
        Some v \<Rightarrow> Some v
      | None \<Rightarrow> (case e of Store x v \<Rightarrow> if x = a then Some v else None | _ \<Rightarrow> None))"

lemma last_store_append:
  "last_store (xs @ ys) a = (case last_store ys a of Some v \<Rightarrow> Some v | None \<Rightarrow> last_store xs a)"
  by (induction xs) (auto split: option.splits)

lemma last_store_map:
  "last_store (map (\<lambda>i. Store (f i) c) xs) a = (if \<exists>i \<in> set xs. f i = a then Some c else None)"
  by (induction xs) auto

text \<open>The values of the loop variable of a loop with a step.\<close>

function steps :: "nat \<Rightarrow> nat \<Rightarrow> nat \<Rightarrow> nat list" where
  "steps i n d = (if i < n \<and> 0 < d then i # steps (i + d) n d else [])"
  by pat_completeness auto
termination by (relation "measure (\<lambda>(i, n, d). n - i)") auto

declare steps.simps [simp del]

lemma set_steps: "0 < d \<Longrightarrow> set (steps i n d) = {j. \<exists>k. j = i + k * d \<and> j < n}"
proof (induction i n d rule: steps.induct)
  case (1 i n d)
  show ?case
  proof (cases "i < n")
    case True
    have "(\<exists>k. j = i + k * d \<and> j < n) \<longleftrightarrow> j = i \<or> (\<exists>k. j = i + d + k * d \<and> j < n)" for j
    proof (intro iffI; elim exE disjE conjE)
      fix k assume "j = i + k * d" "j < n"
      then show "j = i \<or> (\<exists>k. j = i + d + k * d \<and> j < n)" by (cases k) auto
    next
      fix k assume "j = i + d + k * d" "j < n"
      then show "\<exists>k. j = i + k * d \<and> j < n" by (intro exI [of _ "Suc k"]) simp
    qed (use True in \<open>auto intro: exI [of _ 0]\<close>)
    then show ?thesis using 1 True by (subst steps.simps) auto
  next
    case False
    then show ?thesis by (subst steps.simps) auto
  qed
qed

lemma for_step_emit:
  "for_step i n d (\<lambda>i. emit (e i)) s = s\<lparr>trace := trace s @ map e (steps i n d)\<rparr>"
proof (induction i n d "\<lambda>i. emit (e i)" s rule: for_step.induct)
  case (1 i n d s)
  then show ?case by (subst for_step.simps, subst steps.simps) (auto simp: emit_def)
qed

lemma offset_iff:
  assumes "k < 2 ^ 32"
  shows "b + of_nat k = (a :: u32) \<longleftrightarrow> unat (a - b) = k"
proof -
  have "b + of_nat k = a \<longleftrightarrow> of_nat k = a - b" by (auto simp: algebra_simps)
  also have "\<dots> \<longleftrightarrow> unat (a - b) = k" using assms by (auto simp: word_unat_eq_iff unat_of_nat)
  finally show ?thesis .
qed

lemma reach_iff:
  assumes "\<And>i. i < n \<Longrightarrow> g i < 2 ^ 32" "0 < d"
  shows "(\<exists>i \<in> set (steps i0 n d). b + of_nat (g i) = (a :: u32)) \<longleftrightarrow>
    (\<exists>k. i0 + k * d < n \<and> unat (a - b) = g (i0 + k * d))"
proof -
  have "b + of_nat (g i) = a \<longleftrightarrow> unat (a - b) = g i" if "i < n" for i
    using offset_iff [OF assms(1) [OF that]] .
  then show ?thesis using set_steps [OF assms(2), of i0 n] by auto
qed

text \<open>The registers of the distributor, by their offset, for \<open>m\<close> groups of 32 interrupts.\<close>

definition dist_register :: "nat \<Rightarrow> nat \<Rightarrow> u32 option" where
  "dist_register m x =
     (if x = 0 then Some 1
      else if x = 0x100 then Some 0xFFFF
      else if 4 dvd x \<and> 0x180 \<le> x \<and> x < 0x180 + 4 * m then Some 0xFFFFFFFF
      else if x = 0x400 then Some 0xA0A0A0A0
      else if 4 dvd x \<and> 0x820 \<le> x \<and> x < 0x800 + 32 * m then Some 0x01010101
      else if x = 0xC04 then Some 0xFFFFFFFF
      else if 4 dvd x \<and> 0xC08 \<le> x \<and> x < 0xC00 + 8 * m then Some 0xFFFFFFFF
      else None)"

lemma qgic_dist_init_trace:
  assumes "m = unat (io_read env (n_reads s) (gGICDistBase s + 4) AND 0x1F) + 1"
  shows "trace (qgic_dist_init env s) = trace s @
    (let b = gGICDistBase s in
     [Store b 0] @ map (\<lambda>i. Store (b + of_nat (0xC00 + i * 4 div 16)) 0xFFFFFFFF) (steps 32 (m * 32) 16) @
     [Store (b + of_nat 0xC04) 0xFFFFFFFF] @
     map (\<lambda>i. Store (b + of_nat (0x800 + i)) 0x01010101) (steps 32 (m * 32) 4) @
     map (\<lambda>i. Store (b + of_nat 0x400) 0xA0A0A0A0) (steps 0 (m * 32) 4) @
     map (\<lambda>i. Store (b + of_nat (0x180 + i * 4 div 32)) 0xFFFFFFFF) (steps 0 (m * 32) 32) @
     [Store (b + of_nat 0x100) 0xFFFF, Store b 1])"
  unfolding qgic_dist_init_def for_step_emit hw_read_def
  by (simp add: Let_def emit_def assms add.assoc)

lemma every_fourth:
  fixes x b c :: nat
  assumes "4 dvd b"
  shows "(\<exists>k < c. x = b + 4 * k) \<longleftrightarrow> 4 dvd x \<and> b \<le> x \<and> x < b + 4 * c"
proof (intro iffI conjI)
  assume "4 dvd x \<and> b \<le> x \<and> x < b + 4 * c"
  moreover from this assms obtain k where "x - b = 4 * k" by (meson dvdE dvd_diff_nat)
  ultimately show "\<exists>k < c. x = b + 4 * k" by (intro exI [of _ k]) auto
qed (use assms in auto)

lemma loop_offsets:
  fixes x m :: nat
  shows "(\<exists>k. 32 + k * 16 < m * 32 \<and> x = 0xC00 + (32 + k * 16) * 4 div 16) \<longleftrightarrow>
      4 dvd x \<and> 0xC08 \<le> x \<and> x < 0xC08 + 4 * (2 * m - 2)"
    and "(\<exists>k. 32 + k * 4 < m * 32 \<and> x = 0x800 + (32 + k * 4)) \<longleftrightarrow>
      4 dvd x \<and> 0x820 \<le> x \<and> x < 0x820 + 4 * (8 * m - 8)"
    and "(\<exists>k. 0 + k * 32 < m * 32 \<and> x = 0x180 + (0 + k * 32) * 4 div 32) \<longleftrightarrow>
      4 dvd x \<and> 0x180 \<le> x \<and> x < 0x180 + 4 * m"
    and "0 < m \<Longrightarrow> (\<exists>k. 0 + k * 4 < m * 32 \<and> x = 0x400) \<longleftrightarrow> x = 0x400"
proof -
  have "32 + k * 16 < m * 32 \<longleftrightarrow> k < 2 * m - 2" "(32 + k * 16) * 4 div 16 = 8 + 4 * k" for k :: nat by auto
  then show "(\<exists>k. 32 + k * 16 < m * 32 \<and> x = 0xC00 + (32 + k * 16) * 4 div 16) \<longleftrightarrow>
      4 dvd x \<and> 0xC08 \<le> x \<and> x < 0xC08 + 4 * (2 * m - 2)"
    using every_fourth [of "0xC08" "2 * m - 2" x] by simp
  have "32 + k * 4 < m * 32 \<longleftrightarrow> k < 8 * m - 8" for k :: nat by auto
  then show "(\<exists>k. 32 + k * 4 < m * 32 \<and> x = 0x800 + (32 + k * 4)) \<longleftrightarrow>
      4 dvd x \<and> 0x820 \<le> x \<and> x < 0x820 + 4 * (8 * m - 8)"
    using every_fourth [of "0x820" "8 * m - 8" x] by (simp add: mult.commute)
  have "(0 + k * 32) * 4 div 32 = 4 * k" for k :: nat by auto
  then show "(\<exists>k. 0 + k * 32 < m * 32 \<and> x = 0x180 + (0 + k * 32) * 4 div 32) \<longleftrightarrow>
      4 dvd x \<and> 0x180 \<le> x \<and> x < 0x180 + 4 * m"
    using every_fourth [of "0x180" m x] by simp
  show "0 < m \<Longrightarrow> (\<exists>k. 0 + k * 4 < m * 32 \<and> x = 0x400) \<longleftrightarrow> x = 0x400" by (auto intro: exI [of _ 0])
qed

text \<open>
  The distributor of the interrupt controller after \<open>qgic_dist_init\<close>, for a controller
  that reports \<open>m\<close> groups of 32 interrupts: it is on, all interrupts are disabled and then the
  first sixteen enabled, every shared interrupt goes to the first processor and is edge-triggered,
  and no address outside the listed registers is stored to. Of the priority registers only the first
  one is set, although the loop runs once for each of them.
\<close>

theorem qgic_dist_init_registers:
  assumes "m = unat (io_read env (n_reads s) (gGICDistBase s + 4) AND 0x1F) + 1" "trace s = []"
  shows "last_store (trace (qgic_dist_init env s)) a = dist_register m (unat (a - gGICDistBase s))"
proof -
  have "io_read env (n_reads s) (gGICDistBase s + 4) AND 0x1F \<le> 0x1F" by (rule word_and_le1)
  then have m: "0 < m" "m \<le> 32" using assms(1) by (simp_all add: word_le_nat_alt)
  let ?x = "unat (a - gGICDistBase s)"
  have off: "gGICDistBase s + of_nat k = a \<longleftrightarrow> ?x = k" if "k < 2 ^ 32" for k using that by (rule offset_iff)
  have b: "gGICDistBase s = a \<longleftrightarrow> ?x = 0" using off [of 0] by simp
  have single: "gGICDistBase s + of_nat 0x100 = a \<longleftrightarrow> ?x = 0x100" "gGICDistBase s + of_nat 0xC04 = a \<longleftrightarrow> ?x = 0xC04"
    by (rule off; simp)+
  note r = reach_iff [where n = "m * 32" and b = "gGICDistBase s" and a = a]
  have loops:
    "(\<exists>i \<in> set (steps 32 (m * 32) 16). gGICDistBase s + of_nat (0xC00 + i * 4 div 16) = a) \<longleftrightarrow>
      4 dvd ?x \<and> 0xC08 \<le> ?x \<and> ?x < 0xC08 + 4 * (2 * m - 2)"
    "(\<exists>i \<in> set (steps 32 (m * 32) 4). gGICDistBase s + of_nat (0x800 + i) = a) \<longleftrightarrow>
      4 dvd ?x \<and> 0x820 \<le> ?x \<and> ?x < 0x820 + 4 * (8 * m - 8)"
    "(\<exists>i \<in> set (steps 0 (m * 32) 4). gGICDistBase s + of_nat 0x400 = a) \<longleftrightarrow> ?x = 0x400"
    "(\<exists>i \<in> set (steps 0 (m * 32) 32). gGICDistBase s + of_nat (0x180 + i * 4 div 32) = a) \<longleftrightarrow>
      4 dvd ?x \<and> 0x180 \<le> ?x \<and> ?x < 0x180 + 4 * m"
  proof -
    show "(\<exists>i \<in> set (steps 0 (m * 32) 4). gGICDistBase s + of_nat 0x400 = a) \<longleftrightarrow> ?x = 0x400"
      by (rule trans [OF r [where g = "\<lambda>_. 0x400"] loop_offsets(4)]) (use m in simp_all)
  qed (rule trans [OF r loop_offsets(1)] trans [OF r loop_offsets(2)] trans [OF r loop_offsets(3)];
      use m in simp)+
  have bounds: "?x < 0x820 + 4 * (8 * m - 8) \<longleftrightarrow> ?x < 0x800 + 32 * m"
    "?x < 0xC08 + 4 * (2 * m - 2) \<longleftrightarrow> ?x < 0xC00 + 8 * m"
    using m by auto
  have chain: "(case if A then Some u else r of None \<Rightarrow> r' | Some v \<Rightarrow> Some v) =
      (if A then Some u else case r of None \<Rightarrow> r' | Some v \<Rightarrow> Some v)"
    for A and u :: u32 and r r'
    by simp
  show ?thesis
    unfolding qgic_dist_init_trace [OF assms(1)] assms(2) Let_def append_Nil last_store_append last_store_map loops
      last_store.simps soc_event.case option.case b single dist_register_def bounds chain
    by (cases "?x = 0") (simp_all only: if_True if_False simp_thms)
qed

text \<open>A controller and a state for the witnesses: 4 groups of interrupts, the timer's number in every acknowledge read.\<close>

definition sample_soc_env :: soc_env where
  "sample_soc_env = \<lparr>io_read = (\<lambda>n a. if a = 0x4 then 3 else if a = 0x200C then 17 else 8), ml_io_map = (\<lambda>a n. a),
     counter = (\<lambda>n. of_nat (100 + n)), irq_line = (\<lambda>n. n = 5)\<rparr>"

definition sample_soc :: soc where
  "sample_soc = \<lparr>gGICDistBase = 0, gGICCPUBase = 0x2000, gUARTBase = 0x5000, clock_decrementer = 1000,
     clock_initialized = True, clock_had_irq = False, clock_absolute_time = 0, timebase_frequency_hz = 0,
     timer_ctl = 0, gPESocDispatch = None, n_reads = 0, n_counts = 0, n_turns = 0, trace = []\<rparr>"

theorem qgic_dist_init_registers_witness:
  "last_store (trace (qgic_dist_init sample_soc_env sample_soc)) 0x820 = Some 0x01010101 \<and>
   last_store (trace (qgic_dist_init sample_soc_env sample_soc)) 0x404 = None"
proof -
  have m: "4 = unat (io_read sample_soc_env (n_reads sample_soc) (gGICDistBase sample_soc + 4) AND 0x1F) + 1"
    "trace sample_soc = []"
    by (simp_all add: sample_soc_env_def sample_soc_def)
  show ?thesis
    unfolding qgic_dist_init_registers [OF m] by (simp add: sample_soc_def dist_register_def)
qed

section \<open>Interrupts\<close>

text \<open>
  An interrupt whose number the controller reports as at most 256 is acknowledged with
  exactly that number, as the last thing that is done, after one call of its handler; the timer
  interrupt advances the clock, leaves the timer running and is seen by the waiting loop. A larger
  number is left alone: nothing is called and nothing is stored.
\<close>

theorem handle_interrupt_acknowledges:
  assumes "irq = io_read env (n_reads s) (gGICCPUBase s + 0x0C)"
  shows "\<exists>s'. msm8916_handle_interrupt env s = s' \<and>
    (if irq > 256 then trace s' = trace s \<and> clock_absolute_time s' = clock_absolute_time s \<and>
       clock_had_irq s' = clock_had_irq s \<and> timer_ctl s' = timer_ctl s
     else trace s' = trace s @ [if irq = 17 then Rtclock_intr else Irq_iokit_dispatch irq,
         Store (gGICCPUBase s + 0x10) irq] \<and>
       (if irq = 17
        then clock_absolute_time s' = clock_absolute_time s + (clock_decrementer s - counter env (n_counts s)) \<and>
          clock_had_irq s' \<and> timer_ctl s' AND 1 = 1
        else clock_absolute_time s' = clock_absolute_time s \<and> clock_had_irq s' = clock_had_irq s \<and>
          timer_ctl s' = timer_ctl s))"
proof -
  have "(w OR 1) AND 1 = (1 :: u32)" for w by (rule bit_word_eqI) (auto simp: bit_simps)
  then show ?thesis
    by (auto simp: assms msm8916_handle_interrupt_def hw_read_def msm8916_timer_value_def
        msm8916_timer_enabled_def emit_def Let_def)
qed

theorem handle_interrupt_acknowledges_witness:
  "trace (msm8916_handle_interrupt sample_soc_env sample_soc) = [Rtclock_intr, Store 0x2010 17]"
  using handle_interrupt_acknowledges [of 17 sample_soc_env sample_soc]
  by (simp add: sample_soc_env_def sample_soc_def)

section \<open>Console\<close>

text \<open>
  The console of the kernel sends a character, and a carriage return before every line
  feed, as soon as the transmitter is empty often enough; while the status register never shows
  an empty transmitter it waits forever.
\<close>

theorem msm8916_putc_sends:
  assumes "gUARTBase s \<noteq> 0" and "st = (\<lambda>n. io_read env n (gUARTBase s + 0x0A0))"
  shows "((\<forall>n. \<exists>k \<ge> n. st k AND 8 \<noteq> 0) \<longrightarrow>
      (\<exists>s'. msm8916_putc env c s = Some s' \<and>
        trace s' = trace s @ map (Store (gUARTBase s + 0x0A8)) (if c = 0x0A then [0x0D, c] else [c]))) \<and>
    ((\<forall>n. st n AND 8 = 0) \<longrightarrow> msm8916_putc env c s = None)"
proof (intro conjI impI)
  assume "\<forall>n. \<exists>k \<ge> n. st k AND 8 \<noteq> 0"
  then have "\<exists>k. uart_wait st n = Some k" for n by (rule uart_wait_defined)
  then have raw: "\<exists>k. putc_raw env d s' = Some (hw_write (gUARTBase s + 0x0A8) d (s'\<lparr>n_reads := k\<rparr>))"
    if "gUARTBase s' = gUARTBase s" for d s'
    using that assms(2) by (simp add: putc_raw_def) (metis bind.bind_lunit)
  obtain s1 where s1: "(if c = 0x0A then putc_raw env 0x0D s else Some s) = Some s1"
    "gUARTBase s1 = gUARTBase s" "trace s1 = trace s @ map (Store (gUARTBase s + 0x0A8)) (if c = 0x0A then [0x0D] else [])"
    using raw [of s "0x0D"] by (cases "c = 0x0A") (auto simp: emit_def)
  then show "\<exists>s'. msm8916_putc env c s = Some s' \<and>
      trace s' = trace s @ map (Store (gUARTBase s + 0x0A8)) (if c = 0x0A then [0x0D, c] else [c])"
    using raw [of s1 c] assms(1) by (auto simp: msm8916_putc_def emit_def)
next
  assume "\<forall>n. st n AND 8 = 0"
  then have "uart_wait st n = None" for n by (intro uart_wait_stuck) simp
  then show "msm8916_putc env c s = None"
    using assms by (simp add: msm8916_putc_def putc_raw_def)
qed

theorem msm8916_putc_sends_witness:
  "\<exists>s'. msm8916_putc sample_soc_env 0x0A sample_soc = Some s' \<and> trace s' = [Store 0x50A8 0x0D, Store 0x50A8 0x0A]"
  using msm8916_putc_sends [of sample_soc _ sample_soc_env "0x0A"]
  by (auto simp: sample_soc_env_def sample_soc_def)

section \<open>Time base\<close>

text \<open>
  The time base runs backwards between two timer interrupts. The counter that is read
  counts up, and the code subtracts it from the decrementer as if it counted down, so when the
  counter has advanced by some amount the time base has gone back by the same amount.
\<close>

theorem timebase_runs_backwards:
  assumes "clock_initialized s" "0 < counter env (n_counts s)"
    "counter env (n_counts s) < counter env (Suc (n_counts s))" "counter env (Suc (n_counts s)) < 2 ^ 32"
    "msm8916_get_timebase env s = (v, s')" "msm8916_get_timebase env s' = (v', s'')"
  shows "v' = v - (counter env (Suc (n_counts s)) - counter env (n_counts s))"
proof -
  let ?c = "counter env (n_counts s)" and ?d = "counter env (Suc (n_counts s))"
  have id: "ucast (ucast t :: u32) = t" if "t < 2 ^ 32" for t :: u64
  proof -
    have "ucast (ucast t :: u32) = take_bit 32 t" by (rule bit_word_eqI) (auto simp: bit_simps)
    then show ?thesis using less_mask_eq [OF that] by (simp add: take_bit_eq_mask)
  qed
  have lt: "?c < 2 ^ 32" using assms(3,4) by (rule less_trans)
  have "(ucast t :: u32) \<noteq> 0" if "0 < t" "t < 2 ^ 32" for t :: u64
    using id [OF that(2)] that(1) by auto
  then have nz: "(ucast ?c :: u32) \<noteq> 0" "(ucast ?d :: u32) \<noteq> 0"
    using lt assms(2,4) less_trans [OF assms(2,3)] by blast+
  have v: "v = clock_absolute_time s + (clock_decrementer s - ?c)" "s' = s\<lparr>n_counts := Suc (n_counts s)\<rparr>"
    using assms(1,5) nz(1) id [OF lt] by (auto simp: msm8916_get_timebase_def msm8916_timer_value_def Let_def)
  then have "v' = clock_absolute_time s + (clock_decrementer s - ?d)"
    using assms(1,6) nz(2) id [OF assms(4)] by (auto simp: msm8916_get_timebase_def msm8916_timer_value_def Let_def)
  then show ?thesis using v(1) by simp
qed

theorem timebase_runs_backwards_witness:
  "fst (msm8916_get_timebase sample_soc_env (snd (msm8916_get_timebase sample_soc_env sample_soc))) =
    fst (msm8916_get_timebase sample_soc_env sample_soc) - 1"
proof -
  have "fst (msm8916_get_timebase sample_soc_env (snd (msm8916_get_timebase sample_soc_env sample_soc))) =
      fst (msm8916_get_timebase sample_soc_env sample_soc) -
      (counter sample_soc_env (Suc (n_counts sample_soc)) - counter sample_soc_env (n_counts sample_soc))"
    by (rule timebase_runs_backwards [OF _ _ _ _ prod.collapse [symmetric] prod.collapse [symmetric]])
      (simp_all add: sample_soc_env_def sample_soc_def)
  then show ?thesis by (simp add: sample_soc_env_def sample_soc_def)
qed

lemma wait_irq_done: "clock_had_irq s \<Longrightarrow> wait_irq env s = Some s"
  by (simp add: wait_irq.simps)

lemma timer_irq:
  assumes "io_read env (n_reads s) (gGICCPUBase s + 0x0C) = 17"
  shows "clock_had_irq (msm8916_handle_interrupt env s)" "timer_ctl (msm8916_handle_interrupt env s) AND 1 = 1"
    "clock_initialized (msm8916_handle_interrupt env s) = clock_initialized s"
    "timebase_frequency_hz (msm8916_handle_interrupt env s) = timebase_frequency_hz s"
proof -
  have "(w OR 1) AND 1 = (1 :: u32)" for w by (rule bit_word_eqI) (auto simp: bit_simps)
  then show "clock_had_irq (msm8916_handle_interrupt env s)" "timer_ctl (msm8916_handle_interrupt env s) AND 1 = 1"
    "clock_initialized (msm8916_handle_interrupt env s) = clock_initialized s"
    "timebase_frequency_hz (msm8916_handle_interrupt env s) = timebase_frequency_hz s"
    using assms by (auto simp: msm8916_handle_interrupt_def hw_read_def msm8916_timer_value_def
        msm8916_timer_enabled_def emit_def Let_def)
qed

lemma wait_irq_arrives:
  assumes "irq_line env k" "n_turns s \<le> k" "\<forall>n. io_read env n (gGICCPUBase s + 0x0C) = 17" "\<not> clock_had_irq s"
  shows "\<exists>s'. wait_irq env s = Some s' \<and> clock_had_irq s' \<and> clock_initialized s' = clock_initialized s \<and>
    timer_ctl s' AND 1 = 1 \<and> timebase_frequency_hz s' = timebase_frequency_hz s"
  using assms
proof (induction "k - n_turns s" arbitrary: s)
  case 0
  let ?s = "s\<lparr>n_turns := Suc (n_turns s)\<rparr>"
  have "wait_irq env s = wait_irq env (msm8916_handle_interrupt env ?s)"
    using 0 by (subst wait_irq.simps) simp
  then show ?case using timer_irq [of env ?s] wait_irq_done 0 by simp
next
  case (Suc d)
  let ?s = "s\<lparr>n_turns := Suc (n_turns s)\<rparr>"
  show ?case
  proof (cases "irq_line env (n_turns s)")
    case True
    then have "wait_irq env s = wait_irq env (msm8916_handle_interrupt env ?s)"
      using Suc.prems by (subst wait_irq.simps) simp
    then show ?thesis using timer_irq [of env ?s] wait_irq_done Suc.prems by simp
  next
    case False
    then have "wait_irq env s = wait_irq env ?s" using Suc.prems by (subst wait_irq.simps) simp
    then show ?thesis using Suc.hyps(1) [of ?s] Suc.hyps(2) Suc.prems by simp
  qed
qed

lemma wait_irq_stuck:
  assumes "\<not> clock_had_irq s" "\<forall>k \<ge> n_turns s. \<not> irq_line env k"
  shows "wait_irq env s = None"
proof -
  have "clock_had_irq s \<or> (\<exists>k \<ge> n_turns s. irq_line env k)" if "wait_irq env s = Some s'" for s'
  proof (rule wait_irq.raw_induct [OF _ that])
    fix w env s y
    assume ih: "\<And>env s y. w env s = Some y \<Longrightarrow> clock_had_irq s \<or> (\<exists>k \<ge> n_turns s. irq_line env k)"
      and step: "(if clock_had_irq s then Some s
        else w env (if irq_line env (n_turns s) then msm8916_handle_interrupt env (s\<lparr>n_turns := Suc (n_turns s)\<rparr>)
          else s\<lparr>n_turns := Suc (n_turns s)\<rparr>)) = Some y"
    show "clock_had_irq s \<or> (\<exists>k \<ge> n_turns s. irq_line env k)"
    proof (cases "clock_had_irq s \<or> irq_line env (n_turns s)")
      case False
      then have "\<exists>k \<ge> Suc (n_turns s). irq_line env k" using step ih [of env "s\<lparr>n_turns := Suc (n_turns s)\<rparr>" y] by simp
      then show ?thesis by (meson Suc_leD)
    qed auto
  qed
  with assms show ?thesis by (cases "wait_irq env s") auto
qed

text \<open>
  Setting up the time base ends when an interrupt arrives whose number is that of the
  timer, with the clock marked as running and the interrupt seen; while no interrupt arrives
  it waits forever.
\<close>

theorem timebase_init_waits_for_timer:
  assumes "\<not> clock_had_irq s"
  shows "((\<forall>n. io_read env n (gGICCPUBase s + 0x0C) = 17) \<and> (\<exists>k \<ge> n_turns s. irq_line env k) \<longrightarrow>
      (\<exists>s'. msm8916_timebase_init env s = Some s' \<and> clock_had_irq s' \<and> clock_initialized s' \<and>
        timer_ctl s' AND 1 = 1 \<and> timebase_frequency_hz s' = 19200000)) \<and>
    ((\<forall>k \<ge> n_turns s. \<not> irq_line env k) \<longrightarrow> msm8916_timebase_init env s = None)"
proof -
  obtain s0 where s0: "msm8916_timebase_init env s = wait_irq env s0" "n_turns s0 = n_turns s" "\<not> clock_had_irq s0"
    "gGICCPUBase s0 = gGICCPUBase s" "clock_initialized s0" "timebase_frequency_hz s0 = 19200000"
    using assms by (auto simp: msm8916_timebase_init_def Let_def emit_def msm8916_timer_enabled_def timer_configure_def)
  show ?thesis
    using wait_irq_arrives [of env _ s0] wait_irq_stuck [OF s0(3), of env] s0 by auto
qed

theorem timebase_init_waits_for_timer_witness:
  "\<exists>s'. msm8916_timebase_init sample_soc_env sample_soc = Some s' \<and> clock_had_irq s'"
  using timebase_init_waits_for_timer [of sample_soc sample_soc_env]
  by (auto simp: sample_soc_env_def sample_soc_def)

end
