(* ===== verification/Img_Maker.thy ===== *)
theory Img_Maker
  imports Prelude
begin

text \<open>
  The image packer \<open>SDK/image3maker/image3maker.c\<close>. The growing heap block of the image is its list of
  bytes; what \<open>malloc\<close> and \<open>realloc\<close> leave in new memory is a parameter \<open>junk\<close>, and a store outside the
  block is the error \<open>Out_of_bounds\<close>. A failing \<open>assert\<close> and the calls of \<open>exit\<close> are errors too. The
  options as \<open>getopt_long\<close> returns them, the file system and whether an allocation succeeds are
  inputs.
\<close>

datatype img_error = Assert_failed | Out_of_bounds | Exit_failure

type_synonym 'a img = "img_error + 'a"

definition bindE :: "'a img \<Rightarrow> ('a \<Rightarrow> 'b img) \<Rightarrow> 'b img" where
  "bindE x f = (case x of Inl e \<Rightarrow> Inl e | Inr a \<Rightarrow> f a)"

definition assertE :: "bool \<Rightarrow> unit img" where
  "assertE b = (if b then Inr () else Inl Assert_failed)"

lemma bindE_simps [simp]: "bindE (Inl e) f = Inl e" "bindE (Inr a) f = f a"
  by (simp_all add: bindE_def)

lemma assertE_simps [simp]: "assertE True = Inr ()" "assertE False = Inl Assert_failed"
  by (simp_all add: assertE_def)

section \<open>Heap blocks\<close>

definition blk_put :: "u8 list \<Rightarrow> nat \<Rightarrow> u8 list \<Rightarrow> u8 list img" where
  "blk_put b i bs =
     (if i + length bs \<le> length b then Inr (take i b @ bs @ drop (i + length bs) b) else Inl Out_of_bounds)"

definition bytes32 :: "u32 \<Rightarrow> u8 list" where
  "bytes32 w = [byte_of 0 w, byte_of 1 w, byte_of 2 w, byte_of 3 w]"

definition bytes64 :: "u64 \<Rightarrow> u8 list" where
  "bytes64 w = map (\<lambda>i. byte_of i w) [0..<8]"

definition blk_get32 :: "u8 list \<Rightarrow> nat \<Rightarrow> u32" where
  "blk_get32 b i = le32 (b ! i) (b ! (i + 1)) (b ! (i + 2)) (b ! (i + 3))"

text \<open>\<open>realloc\<close>: the old bytes as far as they fit, then whatever the new memory holds.\<close>

definition blk_realloc :: "(nat \<Rightarrow> u8) \<Rightarrow> u8 list \<Rightarrow> nat \<Rightarrow> u8 list" where
  "blk_realloc junk b n = take n b @ map junk [length b..<n]"

section \<open>Data\<close>

abbreviation (input) IMAGE3_SEPO_S5L8920 :: u32 where "IMAGE3_SEPO_S5L8920 \<equiv> 4"
abbreviation (input) IMAGE3_SEPO_S5L8922 :: u32 where "IMAGE3_SEPO_S5L8922 \<equiv> 2"
abbreviation (input) IMAGE3_SEPO_S5L8930 :: u32 where "IMAGE3_SEPO_S5L8930 \<equiv> 2"
abbreviation (input) IMAGE3_SEPO_S5L8940 :: u32 where "IMAGE3_SEPO_S5L8940 \<equiv> 17"
abbreviation (input) IMAGE3_SEPO_S5L8942 :: u32 where "IMAGE3_SEPO_S5L8942 \<equiv> 16"
abbreviation (input) IMAGE3_SEPO_S5L8945 :: u32 where "IMAGE3_SEPO_S5L8945 \<equiv> 16"
abbreviation (input) IMAGE3_SEPO_S5L8947 :: u32 where "IMAGE3_SEPO_S5L8947 \<equiv> 16"
abbreviation (input) IMAGE3_SEPO_S5L8950 :: u32 where "IMAGE3_SEPO_S5L8950 \<equiv> 16"
abbreviation (input) IMAGE3_SEPO_S5L8955 :: u32 where "IMAGE3_SEPO_S5L8955 \<equiv> 16"
abbreviation (input) IMAGE3_SEPO_S5L8747 :: u32 where "IMAGE3_SEPO_S5L8747 \<equiv> 16"

abbreviation (input) IMAGE3_SDOM_FACTORY :: u32 where "IMAGE3_SDOM_FACTORY \<equiv> 0"
abbreviation (input) IMAGE3_SDOM_DARWIN :: u32 where "IMAGE3_SDOM_DARWIN \<equiv> 1"
abbreviation (input) IMAGE3_PROD_DEVELOPMENT :: u32 where "IMAGE3_PROD_DEVELOPMENT \<equiv> 0"
abbreviation (input) IMAGE3_PROD_PRODUCTION :: u32 where "IMAGE3_PROD_PRODUCTION \<equiv> 1"

text \<open>The multi-character constants \<open>'Img3'\<close>, \<open>'TYPE'\<close>, \<open>'DATA'\<close> and so on.\<close>

abbreviation (input) kImage3Magic :: u32 where "kImage3Magic \<equiv> 0x496D6733"
abbreviation (input) kImage3TagType :: u32 where "kImage3TagType \<equiv> 0x54595045"
abbreviation (input) kImage3TagData :: u32 where "kImage3TagData \<equiv> 0x44415441"
abbreviation (input) kImage3TagVersion :: u32 where "kImage3TagVersion \<equiv> 0x56455253"
abbreviation (input) kImage3TagSecurityEpoch :: u32 where "kImage3TagSecurityEpoch \<equiv> 0x5345504F"
abbreviation (input) kImage3TagChipEpoch :: u32 where "kImage3TagChipEpoch \<equiv> 0x4345504F"
abbreviation (input) kImage3TagSecurityDomain :: u32 where "kImage3TagSecurityDomain \<equiv> 0x53444F4D"
abbreviation (input) kImage3TagProduct :: u32 where "kImage3TagProduct \<equiv> 0x50524F44"
abbreviation (input) kImage3TagChip :: u32 where "kImage3TagChip \<equiv> 0x43484950"
abbreviation (input) kImage3TagBoard :: u32 where "kImage3TagBoard \<equiv> 0x424F5244"
abbreviation (input) kImage3TagECID :: u32 where "kImage3TagECID \<equiv> 0x45434944"

text \<open>The option strings of the command line.\<close>

record img_options =
  inputFile :: "string option"
  outputFile :: "string option"
  imageTag :: "string option"
  imageVersion :: "string option"
  imageDomain :: "string option"
  imageProduction :: "string option"
  hardwareEpoch :: "string option"
  chipType :: "string option"
  boardType :: "string option"
  uniqueIdentifier :: "string option"
  aesKey :: "string option"
  aesIv :: "string option"
  certificateBlob :: "string option"
  imageSecurityEpoch :: "string option"

text \<open>What the preprocessing derives from them.\<close>

record Image3Struct =
  rootHeader :: "u8 list"
  backingData :: "u8 list"
  backingDataSize :: u32
  backingCertificate :: "u8 list"
  backingCertificateSize :: u32
  c_imageVersion :: "string option"
  c_imageType :: u32
  c_imageSecurityEpoch :: u32
  c_imageDomain :: u32
  c_imageProductionType :: u32
  c_imageHardwareEpoch :: u32
  c_imageChipType :: u32
  c_imageBoardType :: u32
  c_imageUniqueIdentifier :: u64

record img_env =
  files :: "string \<Rightarrow> u8 list option"
  alloc_ok :: "nat \<Rightarrow> bool"
  junk :: "nat \<Rightarrow> u8"
  out_ok :: bool

section \<open>Reserving space for a tag\<close>

text \<open>\<open>round_up\<close> on machine integers; \<open>m\<close> is a power of two.\<close>

definition round_up :: "u32 \<Rightarrow> u32 \<Rightarrow> u32" where
  "round_up n m = (n + m - 1) AND NOT (m - 1)"

text \<open>The root header's fields \<open>size\<close> and \<open>dataSize\<close>.\<close>

abbreviation (input) hdr_size :: "u8 list \<Rightarrow> u32" where "hdr_size b \<equiv> blk_get32 b 4"
abbreviation (input) hdr_dataSize :: "u8 list \<Rightarrow> u32" where "hdr_dataSize b \<equiv> blk_get32 b 8"

text \<open>
  The common part: grow the block to \<open>size\<close>, clear the new tag if asked to, write its header at the
  old end and adjust the root header. The value is the position of the tag's data.
\<close>

definition reserve :: "img_env \<Rightarrow> bool \<Rightarrow> u32 \<Rightarrow> u32 \<Rightarrow> u32 \<Rightarrow> u32 \<Rightarrow> u8 list \<Rightarrow> (nat \<times> u8 list) img" where
  "reserve env clear sz len tag dlen b =
     bindE (assertE (alloc_ok env (unat sz))) (\<lambda>_.
       let b1 = blk_realloc (junk env) b (unat sz);
           h = unat (hdr_size b1)
       in
       bindE (if clear then blk_put b1 h (replicate (unat len) 0) else Inr b1) (\<lambda>b2.
       bindE (blk_put b2 (h + 8) (bytes32 dlen)) (\<lambda>b3.
       bindE (blk_put b3 (h + 4) (bytes32 len)) (\<lambda>b4.
       bindE (blk_put b4 h (bytes32 tag)) (\<lambda>b5.
       bindE (blk_put b5 4 (bytes32 sz)) (\<lambda>b6.
       bindE (blk_put b6 8 (bytes32 (hdr_dataSize b6 + len))) (\<lambda>b7.
       Inr (h + 12, b7))))))))"

definition image3_reserve_version :: "img_env \<Rightarrow> u32 \<Rightarrow> u32 \<Rightarrow> u8 list \<Rightarrow> (nat \<times> u8 list) img" where
  "image3_reserve_version env tag dlen b =
     (let len0 = round_up (dlen + 12) 2;
          sz0 = round_up (hdr_size b + len0) 16;
          len1 = len0 + (round_up (hdr_size b + len0) 16 - round_up (hdr_size b + len0) 2);
          len = len1 - 4;
          sz = sz0 - 4
      in reserve env True sz len tag dlen b)"

definition image3_reserve_data :: "img_env \<Rightarrow> u32 \<Rightarrow> u32 \<Rightarrow> u8 list \<Rightarrow> (nat \<times> u8 list) img" where
  "image3_reserve_data env tag dlen b =
     (let len0 = round_up (dlen + 12) 2;
          sz = round_up (hdr_size b + len0) 16;
          len = len0 + (round_up (hdr_size b + len0) 16 - round_up (hdr_size b + len0) 2)
      in reserve env True sz len tag dlen b)"

definition image3_reserve_tag :: "img_env \<Rightarrow> u32 \<Rightarrow> u32 \<Rightarrow> u8 list \<Rightarrow> (nat \<times> u8 list) img" where
  "image3_reserve_tag env tag dlen b =
     (let len = dlen + 24 in reserve env True (hdr_size b + len) len tag dlen b)"

definition image3_reserve_ecid :: "img_env \<Rightarrow> u32 \<Rightarrow> u32 \<Rightarrow> u8 list \<Rightarrow> (nat \<times> u8 list) img" where
  "image3_reserve_ecid env tag dlen b =
     (let len = dlen + 20 in reserve env True (hdr_size b + len) len tag dlen b)"

text \<open>The type tag is not cleared.\<close>

definition image3_reserve_type :: "img_env \<Rightarrow> u32 \<Rightarrow> u32 \<Rightarrow> u8 list \<Rightarrow> (nat \<times> u8 list) img" where
  "image3_reserve_type env tag dlen b =
     (let len = dlen + 28 in reserve env False (hdr_size b + len) len tag dlen b)"

section \<open>Creating the image\<close>

definition put_at :: "u8 list \<Rightarrow> nat \<times> u8 list \<Rightarrow> u8 list img" where
  "put_at bs pb = blk_put (snd pb) (fst pb) bs"

definition add_tag32 :: "img_env \<Rightarrow> bool \<Rightarrow> u32 \<Rightarrow> u32 \<Rightarrow> u8 list \<Rightarrow> u8 list img" where
  "add_tag32 env present tag v b =
     (if present then bindE (image3_reserve_tag env tag 4 b) (put_at (bytes32 v)) else Inr b)"

definition string_bytes :: "string \<Rightarrow> u8 list" where
  "string_bytes s = map of_char s"

definition add_version :: "img_env \<Rightarrow> string option \<Rightarrow> u8 list \<Rightarrow> u8 list img" where
  "add_version env v b =
     (case v of
        None \<Rightarrow> Inr b
      | Some s \<Rightarrow>
          bindE (image3_reserve_version env kImage3TagVersion (of_nat (length s) + 4) b) (\<lambda>(p, b1).
          bindE (blk_put b1 p (bytes32 (of_nat (length s)))) (\<lambda>b2.
          blk_put b2 (p + 4) (string_bytes s))))"

text \<open>The tags behind the version, each only if its option was given.\<close>

definition add_tags :: "img_env \<Rightarrow> img_options \<Rightarrow> Image3Struct \<Rightarrow> u8 list \<Rightarrow> u8 list img" where
  "add_tags env opt core b =
     bindE (add_tag32 env (imageSecurityEpoch opt \<noteq> None) kImage3TagSecurityEpoch (c_imageSecurityEpoch core) b) (\<lambda>b1.
     bindE (add_tag32 env (hardwareEpoch opt \<noteq> None) kImage3TagChipEpoch (c_imageHardwareEpoch core) b1) (\<lambda>b2.
     bindE (add_tag32 env (imageDomain opt \<noteq> None) kImage3TagSecurityDomain (c_imageDomain core) b2) (\<lambda>b3.
     bindE (add_tag32 env (imageProduction opt \<noteq> None) kImage3TagProduct (c_imageProductionType core) b3) (\<lambda>b4.
     bindE (add_tag32 env (chipType opt \<noteq> None) kImage3TagChip (c_imageChipType core) b4) (\<lambda>b5.
     bindE (add_tag32 env (boardType opt \<noteq> None) kImage3TagBoard (c_imageBoardType core) b5) (\<lambda>b6.
     if uniqueIdentifier opt \<noteq> None
     then bindE (image3_reserve_ecid env kImage3TagECID 8 b6) (put_at (bytes64 (c_imageUniqueIdentifier core)))
     else Inr b6))))))"

text \<open>The root header, as far as it is filled before the first tag.\<close>

definition create_root :: "img_env \<Rightarrow> Image3Struct \<Rightarrow> u8 list img" where
  "create_root env core =
     bindE (assertE (alloc_ok env 20)) (\<lambda>_.
     bindE (blk_put (blk_realloc (junk env) [] 20) 0 (bytes32 kImage3Magic)) (\<lambda>b1.
     bindE (blk_put b1 16 (bytes32 (c_imageType core))) (\<lambda>b2.
     bindE (blk_put b2 12 (bytes32 0)) (\<lambda>b3.
     bindE (blk_put b3 4 (bytes32 0)) (\<lambda>b4.
     bindE (blk_put b4 8 (bytes32 0)) (\<lambda>b5.
     blk_put b5 4 (bytes32 20)))))))"

text \<open>
  \<open>memcpy\<close> of the input file. The size is an \<open>int\<close>; a negative one becomes a count that no block can hold.
\<close>

definition put_data :: "Image3Struct \<Rightarrow> nat \<times> u8 list \<Rightarrow> u8 list img" where
  "put_data core pb =
     (let n = sint (backingDataSize core) in
      if n < 0 \<or> int (length (backingData core)) < n then Inl Out_of_bounds
      else put_at (take (nat n) (backingData core)) pb)"

definition create_image :: "img_env \<Rightarrow> img_options \<Rightarrow> Image3Struct \<Rightarrow> Image3Struct img" where
  "create_image env opt core =
     bindE (create_root env core) (\<lambda>b0.
     bindE (bindE (image3_reserve_type env kImage3TagType 4 b0) (put_at (bytes32 (c_imageType core)))) (\<lambda>b1.
     bindE (bindE (image3_reserve_data env kImage3TagData (backingDataSize core) b1) (put_data core)) (\<lambda>b2.
     bindE (add_version env (imageVersion opt) b2) (\<lambda>b3.
     bindE (add_tags env opt core b3) (\<lambda>b4.
     Inr (core\<lparr>rootHeader := b4\<rparr>))))))"

section \<open>Files and options\<close>

text \<open>
  Reading a file, with its size as an \<open>int\<close>. The last assertion compares the size with the number of items read, which is 1,
  so a file of one byte is refused.
\<close>

definition map_file :: "img_env \<Rightarrow> string \<Rightarrow> (u8 list \<times> u32) img" where
  "map_file env path =
     (case files env path of
        None \<Rightarrow> Inl Assert_failed
      | Some bs \<Rightarrow>
          bindE (assertE (length bs \<noteq> 0)) (\<lambda>_.
          bindE (assertE (alloc_ok env (length bs))) (\<lambda>_.
          bindE (assertE (length bs \<noteq> 1)) (\<lambda>_. Inr (bs, of_nat (length bs))))))"

definition print_usage :: "'a img" where
  "print_usage = Inl Exit_failure"

text \<open>The four bytes of the tag, most significant first.\<close>

definition fourcc_to_uint :: "string \<Rightarrow> u32 img" where
  "fourcc_to_uint str =
     bindE (assertE (length str = 4)) (\<lambda>_.
       Inr (le32 (of_char (str ! 3)) (of_char (str ! 2)) (of_char (str ! 1)) (of_char (str ! 0))))"

text \<open>Characters without case, and \<open>strcasecmp\<close> as equality.\<close>

definition lower :: "char \<Rightarrow> char" where
  "lower c = (if 65 \<le> (of_char c :: nat) \<and> (of_char c :: nat) \<le> 90 then char_of ((of_char c :: nat) + 32) else c)"

definition same_nocase :: "string \<Rightarrow> string \<Rightarrow> bool" where
  "same_nocase s t \<longleftrightarrow> map lower s = map lower t"

text \<open>
  \<open>strtoul\<close> in base 16: white space, a sign, an optional \<open>0x\<close> and hexadecimal digits; too large a
  number is the largest one.
\<close>

definition hex_digit :: "char \<Rightarrow> nat option" where
  "hex_digit c =
     (let n = (of_char c :: nat) in
      if 48 \<le> n \<and> n \<le> 57 then Some (n - 48)
      else if 97 \<le> n \<and> n \<le> 102 then Some (n - 87)
      else if 65 \<le> n \<and> n \<le> 70 then Some (n - 55)
      else None)"

fun hex_digits_value :: "nat \<Rightarrow> string \<Rightarrow> nat" where
  "hex_digits_value acc [] = acc"
| "hex_digits_value acc (c # s) =
     (case hex_digit c of None \<Rightarrow> acc | Some d \<Rightarrow> hex_digits_value (acc * 16 + d) s)"

definition is_space :: "char \<Rightarrow> bool" where
  "is_space c \<longleftrightarrow> (of_char c :: nat) = 32 \<or> (9 \<le> (of_char c :: nat) \<and> (of_char c :: nat) \<le> 13)"

definition strtoul16 :: "string \<Rightarrow> u64" where
  "strtoul16 s =
     (let s1 = dropWhile is_space s;
          neg = (case s1 of c # _ \<Rightarrow> c = CHR ''-'' | [] \<Rightarrow> False);
          s2 = (case s1 of c # r \<Rightarrow> if c = CHR ''-'' \<or> c = CHR ''+'' then r else s1 | [] \<Rightarrow> []);
          s3 = (case s2 of
                  a # b # c # r \<Rightarrow> if a = CHR ''0'' \<and> lower b = CHR ''x'' \<and> hex_digit c \<noteq> None then c # r else s2
                | _ \<Rightarrow> s2);
          n = hex_digits_value 0 s3
      in if n \<ge> 2 ^ 64 then - 1 else if neg then - of_nat n else of_nat n)"

text \<open>The values of the named options; an unknown name ends the program.\<close>

definition security_epoch :: "string \<Rightarrow> u32 img" where
  "security_epoch s =
     (if same_nocase s ''s5l8920x'' then Inr IMAGE3_SEPO_S5L8920
      else if same_nocase s ''s5l8922x'' then Inr IMAGE3_SEPO_S5L8922
      else if same_nocase s ''s5l8930x'' then Inr IMAGE3_SEPO_S5L8930
      else if same_nocase s ''s5l8940x'' then Inr IMAGE3_SEPO_S5L8940
      else if same_nocase s ''s5l8950x'' then Inr IMAGE3_SEPO_S5L8950
      else if same_nocase s ''s5l8955x'' then Inr IMAGE3_SEPO_S5L8955
      else if same_nocase s ''s5l8947x'' then Inr IMAGE3_SEPO_S5L8947
      else if same_nocase s ''s5l8942x'' then Inr IMAGE3_SEPO_S5L8942
      else if same_nocase s ''s5l8747x'' then Inr IMAGE3_SEPO_S5L8747
      else Inl Exit_failure)"

definition security_domain :: "string \<Rightarrow> u32 img" where
  "security_domain s =
     (if same_nocase s ''darwin'' then Inr IMAGE3_SDOM_DARWIN
      else if same_nocase s ''manufacturer'' then Inr IMAGE3_SDOM_FACTORY
      else Inl Exit_failure)"

definition production_type :: "string \<Rightarrow> u32 img" where
  "production_type s =
     (if same_nocase s ''production'' then Inr IMAGE3_PROD_PRODUCTION
      else if same_nocase s ''development'' then Inr IMAGE3_PROD_DEVELOPMENT
      else Inl Exit_failure)"

text \<open>An optional string: nothing to do without it.\<close>

definition optE :: "'a \<Rightarrow> ('b \<Rightarrow> 'a img) \<Rightarrow> 'b option \<Rightarrow> 'a img" where
  "optE d f x = (case x of None \<Rightarrow> Inr d | Some y \<Rightarrow> f y)"

text \<open>The key and the vector are converted and checked for their length; nothing uses their bytes.\<close>

definition hex_to_bytes_size :: "string \<Rightarrow> nat" where
  "hex_to_bytes_size hex = length hex div 2"

text \<open>The two files are read and their sizes must not be 0.\<close>

definition map_sized_file :: "img_env \<Rightarrow> string \<Rightarrow> (u8 list \<times> u32) img" where
  "map_sized_file env path =
     bindE (map_file env path) (\<lambda>(bs, n). bindE (assertE (n \<noteq> 0)) (\<lambda>_. Inr (bs, n)))"

definition create_image_preprocess :: "img_env \<Rightarrow> img_options \<Rightarrow> Image3Struct img" where
  "create_image_preprocess env opt =
     (case (inputFile opt, imageTag opt, outputFile opt) of
        (Some input, Some tag, Some output) \<Rightarrow>
          bindE (map_sized_file env input) (\<lambda>(data, dsize).
          bindE (optE ([], 0) (map_sized_file env) (certificateBlob opt)) (\<lambda>(cert, csize).
          bindE (fourcc_to_uint tag) (\<lambda>type.
          bindE (optE 0 security_epoch (imageSecurityEpoch opt)) (\<lambda>epoch.
          bindE (optE 0 security_domain (imageDomain opt)) (\<lambda>domain.
          bindE (optE 0 production_type (imageProduction opt)) (\<lambda>prod.
          let num = (\<lambda>x. case x of None \<Rightarrow> 0 | Some s \<Rightarrow> strtoul16 s) in
          bindE (case (aesKey opt, aesIv opt) of
                   (Some k, Some i) \<Rightarrow> assertE (hex_to_bytes_size k = 32 \<and> hex_to_bytes_size i = 16)
                 | _ \<Rightarrow> Inr ()) (\<lambda>_.
          Inr \<lparr>rootHeader = [], backingData = data, backingDataSize = dsize, backingCertificate = cert,
            backingCertificateSize = csize, c_imageVersion = imageVersion opt, c_imageType = type,
            c_imageSecurityEpoch = epoch, c_imageDomain = domain, c_imageProductionType = prod,
            c_imageHardwareEpoch = ucast (num (hardwareEpoch opt)), c_imageChipType = ucast (num (chipType opt)),
            c_imageBoardType = ucast (num (boardType opt)), c_imageUniqueIdentifier = num (uniqueIdentifier opt)\<rparr>)))))))
      | _ \<Rightarrow> Inl Assert_failed)"

text \<open>One option: its letter and its argument.\<close>

definition set_option :: "char \<Rightarrow> string \<Rightarrow> img_options \<Rightarrow> img_options img" where
  "set_option c optarg opt =
     (if c = CHR ''s'' then Inr (opt\<lparr>imageSecurityEpoch := Some optarg\<rparr>)
      else if c = CHR ''c'' then Inr (opt\<lparr>certificateBlob := Some optarg\<rparr>)
      else if c = CHR ''f'' then Inr (opt\<lparr>inputFile := Some optarg\<rparr>)
      else if c = CHR ''o'' then Inr (opt\<lparr>outputFile := Some optarg\<rparr>)
      else if c = CHR ''t'' then Inr (opt\<lparr>imageTag := Some optarg\<rparr>)
      else if c = CHR ''v'' then Inr (opt\<lparr>imageVersion := Some optarg\<rparr>)
      else if c = CHR ''d'' then Inr (opt\<lparr>imageDomain := Some optarg\<rparr>)
      else if c = CHR ''p'' then Inr (opt\<lparr>imageProduction := Some optarg\<rparr>)
      else if c = CHR ''h'' then Inr (opt\<lparr>hardwareEpoch := Some optarg\<rparr>)
      else if c = CHR ''y'' then Inr (opt\<lparr>chipType := Some optarg\<rparr>)
      else if c = CHR ''b'' then Inr (opt\<lparr>boardType := Some optarg\<rparr>)
      else if c = CHR ''e'' then Inr (opt\<lparr>uniqueIdentifier := Some optarg\<rparr>)
      else if c = CHR ''a'' then Inr (opt\<lparr>aesKey := Some optarg\<rparr>)
      else if c = CHR ''i'' then Inr (opt\<lparr>aesIv := Some optarg\<rparr>)
      else print_usage)"

fun set_options :: "(char \<times> string) list \<Rightarrow> img_options \<Rightarrow> img_options img" where
  "set_options [] opt = Inr opt"
| "set_options ((c, optarg) # rest) opt = bindE (set_option c optarg opt) (set_options rest)"

definition no_options :: img_options where
  "no_options = \<lparr>inputFile = None, outputFile = None, imageTag = None, imageVersion = None, imageDomain = None,
     imageProduction = None, hardwareEpoch = None, chipType = None, boardType = None, uniqueIdentifier = None,
     aesKey = None, aesIv = None, certificateBlob = None, imageSecurityEpoch = None\<rparr>"

definition process_options :: "(char \<times> string) list \<Rightarrow> img_options img" where
  "process_options args =
     bindE (set_options args no_options) (\<lambda>opt.
       if inputFile opt = None then print_usage
       else if outputFile opt = None then print_usage
       else if imageTag opt = None then print_usage
       else Inr opt)"

text \<open>
  Writing the file: \<open>fwrite\<close> of one item returns 1 or 0, which the assertion requires to differ from the
  size. The value is the file that is written.
\<close>

definition output_image :: "img_env \<Rightarrow> img_options \<Rightarrow> Image3Struct \<Rightarrow> (string \<times> u8 list) img" where
  "output_image env opt core =
     (case outputFile opt of
        None \<Rightarrow> Inl Assert_failed
      | Some f \<Rightarrow>
          bindE (assertE (out_ok env)) (\<lambda>_.
          bindE (assertE (hdr_size (rootHeader core) \<noteq> 1)) (\<lambda>_.
          Inr (f, take (unat (hdr_size (rootHeader core))) (rootHeader core)))))"

definition img_main :: "img_env \<Rightarrow> (char \<times> string) list \<Rightarrow> (string \<times> u8 list) img" where
  "img_main env args =
     bindE (process_options args) (\<lambda>opt.
     bindE (create_image_preprocess env opt) (\<lambda>core.
     bindE (create_image env opt core) (output_image env opt)))"

end
