(* ===== verification/Img_Props.thy ===== *)
theory Img_Props
  imports Img_Maker
begin

text \<open>
  Properties of the image packer: the image it creates is read back tag by tag, the version tag
  is too small for some version strings, and the errors of the program.
\<close>

section \<open>Blocks\<close>

lemma length_bytes32 [simp]: "length (bytes32 w) = 4"
  by (simp add: bytes32_def)

lemma blk_put_app:
  assumes "length ys = length bs" "i = length xs"
  shows "blk_put (xs @ ys @ zs) i bs = Inr (xs @ bs @ zs)"
  using assms by (simp add: blk_put_def)

lemma blk_get32_app: "i = length xs \<Longrightarrow> blk_get32 (xs @ bytes32 w @ zs) i = w"
  by (simp add: blk_get32_def bytes32_def nth_append)

lemma blk_put_overflow: "length b < i + length bs \<Longrightarrow> blk_put b i bs = Inl Out_of_bounds"
  by (simp add: blk_put_def)

section \<open>Images as data\<close>

definition img_root :: "u32 \<Rightarrow> nat \<Rightarrow> u8 list" where
  "img_root ty n =
     bytes32 kImage3Magic @ bytes32 (of_nat n) @ bytes32 (of_nat (n - 20)) @ bytes32 0 @ bytes32 ty"

text \<open>A tag: its name, its data and the padding behind it.\<close>

type_synonym img_tag = "u32 \<times> u8 list \<times> u8 list"

fun tag_bytes :: "img_tag \<Rightarrow> u8 list" where
  "tag_bytes (t, d, pad) =
     bytes32 t @ bytes32 (of_nat (12 + length d + length pad)) @ bytes32 (of_nat (length d)) @ d @ pad"

definition img_bytes :: "u32 \<Rightarrow> img_tag list \<Rightarrow> u8 list" where
  "img_bytes ty ts =
     (let body = concat (map tag_bytes ts) in img_root ty (20 + length body) @ body)"

lemma length_img_root [simp]: "length (img_root ty n) = 20"
  by (simp add: img_root_def)

lemma length_img_bytes: "length (img_bytes ty ts) = 20 + length (concat (map tag_bytes ts))"
  by (simp add: img_bytes_def Let_def)

lemma img_fields:
  "blk_get32 (img_root ty n @ zs) 0 = kImage3Magic"
  "blk_get32 (img_root ty n @ zs) 4 = of_nat n"
  "blk_get32 (img_root ty n @ zs) 8 = of_nat (n - 20)"
  "blk_get32 (img_root ty n @ zs) 16 = ty"
  unfolding img_root_def append_assoc
  using blk_get32_app [of 0 "[]"] blk_get32_app [of 4 "bytes32 _"]
    blk_get32_app [of 8 "bytes32 _ @ bytes32 _"] blk_get32_app [of 16 "bytes32 _ @ bytes32 _ @ bytes32 _ @ bytes32 _"]
  by simp_all

section \<open>Reserving\<close>

lemma split_12:
  assumes "12 \<le> length J"
  obtains A B C J' where "J = A @ B @ C @ J'" "length A = 4" "length B = 4" "length C = 4" "length J' = length J - 12"
    "\<And>n x. J = replicate n x \<Longrightarrow> J' = replicate (n - 12) x"
proof
  show "J = take 4 J @ take 4 (drop 4 J) @ take 4 (drop 8 J) @ drop 12 J"
    using append_take_drop_id [of 4 J] append_take_drop_id [of 4 "drop 4 J"] append_take_drop_id [of 4 "drop 8 J"]
    by simp
qed (use assms in simp_all)

text \<open>Writing the three words of a tag header and the two words of the root header.\<close>

lemma put_headers:
  assumes "length A = 4" "length B = 4" "length C = 4" "n = 20 + length body"
  shows "bindE (blk_put (img_root ty n @ body @ A @ B @ C @ J) (n + 8) (bytes32 dlen)) (\<lambda>b3.
    bindE (blk_put b3 (n + 4) (bytes32 len)) (\<lambda>b4.
    bindE (blk_put b4 n (bytes32 tag)) (\<lambda>b5.
    bindE (blk_put b5 4 (bytes32 (of_nat k))) (\<lambda>b6.
    bindE (blk_put b6 8 (bytes32 (hdr_dataSize b6 + len))) f)))) =
    f (bytes32 kImage3Magic @ bytes32 (of_nat k) @ bytes32 (of_nat (n - 20) + len) @ bytes32 0 @ bytes32 ty @
      body @ bytes32 tag @ bytes32 len @ bytes32 dlen @ J)"
proof -
  let ?R = "img_root ty n"
  have "blk_put (?R @ body @ A @ B @ C @ J) (n + 8) (bytes32 dlen) = Inr (?R @ body @ A @ B @ bytes32 dlen @ J)"
    using blk_put_app [of C "bytes32 dlen" "n + 8" "?R @ body @ A @ B" J] assms by simp
  moreover have "blk_put (?R @ body @ A @ B @ bytes32 dlen @ J) (n + 4) (bytes32 len) =
      Inr (?R @ body @ A @ bytes32 len @ bytes32 dlen @ J)"
    using blk_put_app [of B "bytes32 len" "n + 4" "?R @ body @ A" "bytes32 dlen @ J"] assms by simp
  moreover have "blk_put (?R @ body @ A @ bytes32 len @ bytes32 dlen @ J) n (bytes32 tag) =
      Inr (?R @ body @ bytes32 tag @ bytes32 len @ bytes32 dlen @ J)"
    using blk_put_app [of A "bytes32 tag" n "?R @ body" "bytes32 len @ bytes32 dlen @ J"] assms by simp
  moreover have "blk_put (?R @ body @ bytes32 tag @ bytes32 len @ bytes32 dlen @ J) 4 (bytes32 (of_nat k)) =
      Inr (bytes32 kImage3Magic @ bytes32 (of_nat k) @ bytes32 (of_nat (n - 20)) @ bytes32 0 @ bytes32 ty @
        body @ bytes32 tag @ bytes32 len @ bytes32 dlen @ J)"
    unfolding img_root_def append_assoc by (rule blk_put_app) simp_all
  moreover have "blk_put (bytes32 kImage3Magic @ bytes32 (of_nat k) @ bytes32 x @ Z) 8 (bytes32 y) =
      Inr (bytes32 kImage3Magic @ bytes32 (of_nat k) @ bytes32 y @ Z)" for x y Z
    using blk_put_app [of "bytes32 x" "bytes32 y" 8 "bytes32 kImage3Magic @ bytes32 (of_nat k)" Z] by simp
  moreover have "hdr_dataSize (bytes32 kImage3Magic @ bytes32 (of_nat k) @ bytes32 x @ Z) = x" for x Z
    using blk_get32_app [of 8 "bytes32 kImage3Magic @ bytes32 (of_nat k)" x Z] by simp
  ultimately show ?thesis by simp
qed

lemma reserve_ok:
  assumes b: "b = img_root ty n @ body" "n = 20 + length body" and len: "len = of_nat L" "12 \<le> L"
    and sz: "sz = of_nat (n + L)" "n + L < 2 ^ 32" and ok: "alloc_ok env (n + L)"
  shows "\<exists>J. length J = L - 12 \<and> (clear \<longrightarrow> J = replicate (L - 12) 0) \<and>
    reserve env clear sz len tag dlen b =
      Inr (n + 12, img_root ty (n + L) @ body @ bytes32 tag @ bytes32 len @ bytes32 dlen @ J)"
proof -
  have u: "unat sz = n + L" "unat len = L" "unat (of_nat n :: u32) = n"
    using sz len by (simp_all add: unat_of_nat del: of_nat_add)
  define J0 where "J0 = map (junk env) [length b..<n + L]"
  define J1 where "J1 = (if clear then replicate L 0 else J0)"
  have l0: "length J0 = L" "length J1 = L" by (simp_all add: J0_def J1_def b)
  have r: "blk_realloc (junk env) b (n + L) = img_root ty n @ body @ J0"
    by (simp add: blk_realloc_def J0_def b)
  have h: "hdr_size (img_root ty n @ body @ J0) = of_nat n" by (rule img_fields(2))
  have c: "(if clear then blk_put (img_root ty n @ body @ J0) n (replicate L 0)
      else Inr (img_root ty n @ body @ J0)) = Inr (img_root ty n @ body @ J1)"
    using blk_put_app [of J0 "replicate L 0" n "img_root ty n @ body" "[]"] b l0 by (simp add: J1_def)
  obtain A B C J where J: "J1 = A @ B @ C @ J" "length A = 4" "length B = 4" "length C = 4"
    "length J = length J1 - 12"
    "\<And>n x. J1 = replicate n x \<Longrightarrow> J = replicate (n - 12) x"
    using split_12 [of J1] l0 len(2) by metis
  have "of_nat (n - 20) + len = of_nat (n + L - 20)" using b(2) len(1) by simp
  then have "reserve env clear sz len tag dlen b =
      Inr (n + 12, img_root ty (n + L) @ body @ bytes32 tag @ bytes32 len @ bytes32 dlen @ J)"
    unfolding reserve_def Let_def u r h c
    unfolding J(1) bindE_simps sz(1) put_headers [OF J(2-4) b(2)]
    using ok by (simp add: img_root_def)
  moreover have "clear \<longrightarrow> J = replicate (L - 12) 0" using J(6) by (auto simp: J1_def)
  ultimately show ?thesis using J(5) l0 by auto
qed

text \<open>Reserving a tag and writing its data appends the tag to the image.\<close>

lemma img_bytes_root: "img_bytes ty ts = img_root ty (length (img_bytes ty ts)) @ concat (map tag_bytes ts)"
  by (simp add: img_bytes_def Let_def)

lemma img_bytes_snoc:
  "img_bytes ty (ts @ [(t, d, pad)]) =
    img_root ty (length (img_bytes ty ts) + (12 + length d + length pad)) @ concat (map tag_bytes ts) @
    bytes32 t @ bytes32 (of_nat (12 + length d + length pad)) @ bytes32 (of_nat (length d)) @ d @ pad"
  by (simp add: img_bytes_def Let_def add.assoc)

lemma hdr_size_img: "hdr_size (img_bytes ty ts) = of_nat (length (img_bytes ty ts))"
  using img_fields(2) img_bytes_root by metis

lemma reserve_put:
  assumes "b = img_bytes ty ts" "len = of_nat (12 + length d + k)" "sz = of_nat (length b + (12 + length d + k))"
    and "length b + (12 + length d + k) < 2 ^ 32" "\<And>n. alloc_ok env n"
  shows "\<exists>pad. length pad = k \<and>
    bindE (reserve env clear sz len tag (of_nat (length d)) b) (put_at d) = Inr (img_bytes ty (ts @ [(tag, d, pad)]))"
proof -
  let ?body = "concat (map tag_bytes ts)" and ?L = "12 + length d + k"
  have "length b = 20 + length ?body" using assms(1) by (simp add: length_img_bytes)
  moreover have "b = img_root ty (length b) @ ?body" using assms(1) img_bytes_root by metis
  ultimately obtain J where J: "length J = ?L - 12"
    "reserve env clear sz len tag (of_nat (length d)) b =
      Inr (length b + 12, img_root ty (length b + ?L) @ ?body @ bytes32 tag @ bytes32 len @ bytes32 (of_nat (length d)) @ J)"
    using reserve_ok [of b ty "length b" ?body len ?L sz env clear tag "of_nat (length d)"] assms by auto
  have J': "J = take (length d) J @ drop (length d) J" by simp
  have "put_at d (length b + 12, img_root ty (length b + ?L) @ ?body @ bytes32 tag @ bytes32 len @ bytes32 (of_nat (length d)) @ J)
      = Inr (img_bytes ty (ts @ [(tag, d, drop (length d) J)]))"
    unfolding put_at_def snd_conv fst_conv img_bytes_snoc
    using blk_put_app [of "take (length d) J" d "length b + 12"
        "img_root ty (length b + ?L) @ ?body @ bytes32 tag @ bytes32 len @ bytes32 (of_nat (length d))" "drop (length d) J"]
      J assms(1,2) by (simp add: length_img_bytes del: of_nat_add)
  then show ?thesis using J by (intro exI [of _ "drop (length d) J"]) simp
qed

section \<open>The tags\<close>

lemma round_up_nat:
  assumes "n + 15 < 2 ^ 32"
  shows "round_up (of_nat n) 2 = of_nat ((n + 1) div 2 * 2)" "round_up (of_nat n) 16 = of_nat ((n + 15) div 16 * 16)"
  using align_down_numerals(1) [of "n + 1"] align_down_numerals(3) [of "n + 15"] assms
  by (simp_all add: round_up_def add.commute)

text \<open>The length of the data tag and of the version tag at an even position.\<close>

lemma padded_length:
  assumes "even c" "c + n + 40 < 2 ^ 32" "len0 = round_up (of_nat n) 2" "cur = of_nat c"
  shows "len0 + (round_up (cur + len0) 16 - round_up (cur + len0) 2) = of_nat ((c + (n + 1) div 2 * 2 + 15) div 16 * 16 - c)"
    "round_up (cur + len0) 16 = of_nat ((c + (n + 1) div 2 * 2 + 15) div 16 * 16)"
proof -
  let ?l = "(n + 1) div 2 * 2" and ?s = "(c + (n + 1) div 2 * 2 + 15) div 16 * 16"
  have l: "len0 = of_nat ?l" using round_up_nat(1) [of n] assms by simp
  have le: "c + ?l \<le> ?s" "?l \<le> n + 1" by (simp_all add: algebra_simps)
  have "c + ?l + 15 < 2 ^ 32" using assms(2) le(2) by linarith
  then have r: "round_up (of_nat (c + ?l)) 2 = of_nat (c + ?l)" "round_up (of_nat (c + ?l)) 16 = of_nat ?s"
    using round_up_nat [of "c + ?l"] assms(1) by simp_all
  then show "round_up (cur + len0) 16 = of_nat ?s" using l assms(4) by simp
  have "?l + (?s - (c + ?l)) = ?s - c" using le(1) by simp
  then show "len0 + (round_up (cur + len0) 16 - round_up (cur + len0) 2) = of_nat (?s - c)"
    using r l assms(4) le(1) by (simp add: of_nat_diff)
qed

text \<open>A block holds an image of a type with the given tags and data, and some padding.\<close>

definition is_img :: "u32 \<Rightarrow> (u32 \<times> u8 list) list \<Rightarrow> u8 list \<Rightarrow> bool" where
  "is_img ty ds b \<longleftrightarrow> (\<exists>ts. b = img_bytes ty ts \<and> map (\<lambda>(t, d, pad). (t, d)) ts = ds)"

lemma is_img_hdr: "is_img ty ds b \<Longrightarrow> hdr_size b = of_nat (length b)"
  using hdr_size_img by (auto simp: is_img_def)

lemma is_img_add:
  assumes "is_img ty ds b" "len = of_nat (12 + length d + k)" "sz = of_nat (length b + (12 + length d + k))"
    and "length b + (12 + length d + k) < 2 ^ 32" "\<And>n. alloc_ok env n" "dlen = of_nat (length d)"
  shows "\<exists>b'. bindE (reserve env clear sz len tag dlen b) (put_at d) = Inr b' \<and>
    is_img ty (ds @ [(tag, d)]) b' \<and> length b' = length b + (12 + length d + k)"
proof -
  obtain ts where ts: "b = img_bytes ty ts" "map (\<lambda>(t, d, pad). (t, d)) ts = ds" using assms(1) by (auto simp: is_img_def)
  obtain pad where "length pad = k"
    "bindE (reserve env clear sz len tag (of_nat (length d)) b) (put_at d) = Inr (img_bytes ty (ts @ [(tag, d, pad)]))"
    using reserve_put [OF ts(1) assms(2-5)] by blast
  then show ?thesis using ts assms(6) by (auto simp: is_img_def length_img_bytes)
qed

lemma add_fixed:
  assumes "is_img ty ds b" "length b + (length d + e) < 2 ^ 32" "12 \<le> e" "\<And>n. alloc_ok env n"
  shows "\<exists>b'. bindE (reserve env clear (hdr_size b + (of_nat (length d) + of_nat e)) (of_nat (length d) + of_nat e) tag
      (of_nat (length d)) b) (put_at d) = Inr b' \<and>
    is_img ty (ds @ [(tag, d)]) b' \<and> length b' = length b + (length d + e)"
proof -
  have "\<exists>b'. bindE (reserve env clear (hdr_size b + (of_nat (length d) + of_nat e)) (of_nat (length d) + of_nat e) tag
      (of_nat (length d)) b) (put_at d) = Inr b' \<and>
    is_img ty (ds @ [(tag, d)]) b' \<and> length b' = length b + (12 + length d + (e - 12))"
    by (rule is_img_add [OF assms(1)]) (use assms is_img_hdr in \<open>simp_all add: of_nat_diff\<close>)
  then show ?thesis using assms(3) by simp
qed

lemma add_type:
  assumes "is_img ty ds b" "length b + 32 < 2 ^ 32" "\<And>n. alloc_ok env n"
  shows "\<exists>b'. bindE (image3_reserve_type env tag 4 b) (put_at (bytes32 v)) = Inr b' \<and>
    is_img ty (ds @ [(tag, bytes32 v)]) b' \<and> length b' = length b + 32"
  using add_fixed [OF assms(1), of "bytes32 v" 28 env False tag] assms(2,3)
  by (simp add: image3_reserve_type_def)

lemma add_tag:
  assumes "is_img ty ds b" "length b + 28 < 2 ^ 32" "\<And>n. alloc_ok env n"
  shows "\<exists>b'. add_tag32 env present tag v b = Inr b' \<and>
    is_img ty (ds @ (if present then [(tag, bytes32 v)] else [])) b' \<and> length b' \<le> length b + 28"
  using add_fixed [OF assms(1), of "bytes32 v" 24 env True tag] assms
  by (cases present) (auto simp: add_tag32_def image3_reserve_tag_def)

lemma length_bytes64 [simp]: "length (bytes64 w) = 8"
  by (simp add: bytes64_def)

lemma add_ecid:
  assumes "is_img ty ds b" "length b + 28 < 2 ^ 32" "\<And>n. alloc_ok env n"
  shows "\<exists>b'. bindE (image3_reserve_ecid env tag 8 b) (put_at (bytes64 v)) = Inr b' \<and>
    is_img ty (ds @ [(tag, bytes64 v)]) b' \<and> length b' = length b + 28"
  using add_fixed [OF assms(1), of "bytes64 v" 20 env True tag] assms(2,3)
  by (auto simp: image3_reserve_ecid_def)

lemma round_bounds:
  fixes c n :: nat
  defines "l \<equiv> (n + 1) div 2 * 2"
  defines "s \<equiv> (c + l + 15) div 16 * 16"
  shows "c + l \<le> s" "s \<le> c + l + 15" "n \<le> l" "l \<le> n + 1" "16 dvd s"
  unfolding l_def s_def by (simp_all add: algebra_simps)

lemma add_data:
  assumes "is_img ty ds b" "even (length b)" "length b + length d + 60 < 2 ^ 32" "\<And>n. alloc_ok env n"
  shows "\<exists>b'. bindE (image3_reserve_data env tag (of_nat (length d)) b) (put_at d) = Inr b' \<and>
    is_img ty (ds @ [(tag, d)]) b' \<and> 16 dvd length b' \<and> length b' \<le> length b + length d + 28"
proof -
  define c where "c = length b"
  define s where "s = (c + (length d + 12 + 1) div 2 * 2 + 15) div 16 * 16"
  note le = round_bounds(1,2) [of c "length d + 12", folded s_def] round_bounds(3,4) [of "length d + 12"]
    round_bounds(5) [of c "length d + 12", folded s_def]
  define k where "k = s - c - (12 + length d)"
  have k: "s = c + (12 + length d + k)" using le(1,3) by (simp add: k_def)
  have s: "s \<le> c + length d + 28" using le(2,4) by linarith
  have p: "round_up (of_nat (length d) + 12) 2 +
      (round_up (hdr_size b + round_up (of_nat (length d) + 12) 2) 16 -
       round_up (hdr_size b + round_up (of_nat (length d) + 12) 2) 2) = of_nat (s - c)"
    "round_up (hdr_size b + round_up (of_nat (length d) + 12) 2) 16 = of_nat s"
    using padded_length [of c "length d + 12"] assms(2,3) is_img_hdr [OF assms(1)] by (simp_all add: c_def s_def)
  have "\<exists>b'. bindE (reserve env True (of_nat s) (of_nat (s - c)) tag (of_nat (length d)) b) (put_at d) = Inr b' \<and>
      is_img ty (ds @ [(tag, d)]) b' \<and> length b' = length b + (12 + length d + k)"
    by (rule is_img_add [OF assms(1)]) (use assms(3,4) k s in \<open>simp_all add: c_def\<close>)
  then show ?thesis
    unfolding image3_reserve_data_def Let_def unfolding p(1) unfolding p(2) using k s le(5) by (auto simp: c_def)
qed

section \<open>The version tag\<close>

lemma put_two:
  assumes "length x = 4"
  shows "bindE (blk_put b p x) (\<lambda>b2. blk_put b2 (p + 4) y) = blk_put b p (x @ y)"
proof (cases "p + 4 + length y \<le> length b")
  case True
  define P X Y Z where "P = take p b" and "X = take 4 (drop p b)" and "Y = take (length y) (drop (p + 4) b)"
    and "Z = drop (p + 4 + length y) b"
  have "drop p b = X @ drop (p + 4) b" "drop (p + 4) b = Y @ Z"
    using append_take_drop_id [of 4 "drop p b"] append_take_drop_id [of "length y" "drop (p + 4) b"]
    by (simp_all add: X_def Y_def Z_def add.commute add.left_commute)
  then have b: "b = P @ X @ Y @ Z" using append_take_drop_id [of p b] by (simp add: P_def)
  have l: "length P = p" "length X = 4" "length Y = length y" using True by (simp_all add: P_def X_def Y_def)
  have "blk_put b p x = Inr (P @ x @ Y @ Z)" unfolding b using l assms by (intro blk_put_app) simp_all
  moreover have "blk_put (P @ x @ Y @ Z) (p + 4) y = Inr (P @ x @ y @ Z)"
    using blk_put_app [of Y y "p + 4" "P @ x" Z] l assms by simp
  moreover have "blk_put b p (x @ y) = Inr (P @ x @ y @ Z)"
    using blk_put_app [of "X @ Y" "x @ y" p P Z] l assms unfolding b by simp
  ultimately show ?thesis by simp
next
  case False
  then show ?thesis using assms by (simp add: blk_put_def)
qed

definition version_data :: "string \<Rightarrow> u8 list" where
  "version_data s = bytes32 (of_nat (length s)) @ string_bytes s"

lemma length_version_data [simp]: "length (version_data s) = length s + 4"
  by (simp add: version_data_def string_bytes_def)

lemma add_version_put:
  "add_version env (Some s) b =
    bindE (image3_reserve_version env kImage3TagVersion (of_nat (length s) + 4) b) (put_at (version_data s))"
proof -
  have "(\<lambda>(p, b1). bindE (blk_put b1 p (bytes32 (of_nat (length s)))) (\<lambda>b2. blk_put b2 (p + 4) (string_bytes s))) =
      put_at (version_data s)"
    by (auto simp: fun_eq_iff put_at_def version_data_def put_two)
  then show ?thesis by (simp add: add_version_def)
qed

lemma round_even_16: "((n + 16 + 1) div 2 * 2 + 15) div 16 = (n + 31 :: nat) div 16"
proof (cases "even n")
  case True
  then show ?thesis by (auto elim!: evenE)
next
  case False
  then obtain j where "n = 2 * j + 1" by (auto elim: oddE)
  moreover have "(33 + j * 2) div 16 = (32 + 2 * j) div 16" by presburger
  ultimately show ?thesis by simp
qed

lemma reserve_version_eq:
  assumes "is_img ty ds b" "16 dvd length b" "length b + length s + 80 < 2 ^ 32"
    and L: "L = (length s + 31) div 16 * 16 - 4"
  shows "image3_reserve_version env tag (of_nat (length s) + 4) b =
    reserve env True (of_nat (length b + L)) (of_nat L) tag (of_nat (length (version_data s))) b"
proof -
  define c n where "c = length b" and "n = length s"
  obtain q where q: "c = 16 * q" using assms(2) by (auto simp: c_def elim: dvdE)
  define t where "t = (c + (n + 16 + 1) div 2 * 2 + 15) div 16 * 16"
  have t: "t = c + (n + 31) div 16 * 16"
    using round_even_16 [of n] by (simp add: t_def q add.assoc)
  have four: "4 \<le> (n + 31) div 16 * 16" by simp
  have "even c" "c + (n + 16) + 40 < 2 ^ 32" "round_up (of_nat n + 4 + 12) 2 = round_up (of_nat (n + 16)) 2"
    "hdr_size b = of_nat c"
    using assms(3) is_img_hdr [OF assms(1)] assms(2) by (auto simp: c_def n_def add.commute)
  note p = padded_length [OF this, folded t_def]
  have L': "of_nat (t - c) - 4 = (of_nat L :: u32)" "of_nat t - 4 = (of_nat (c + L) :: u32)"
    using four by (simp_all add: t L n_def of_nat_diff)
  show ?thesis
    unfolding image3_reserve_version_def Let_def n_def [symmetric] c_def [symmetric]
    unfolding p(1) unfolding p(2) unfolding L' by (simp add: n_def)
qed

lemma version_room:
  "length s + 16 \<le> (length s + 31) div 16 * 16 - 4 \<longleftrightarrow> length s mod 16 \<in> {1..12}"
proof -
  define q r where "q = length s div 16" and "r = length s mod 16"
  have n: "length s = 16 * q + r" "r < 16" by (simp_all add: q_def r_def)
  have "(length s + 31) div 16 = q + (r + 31) div 16" by (simp add: n(1))
  moreover have "(r + 31) div 16 = (if r = 0 then 1 else 2)"
    using n(2) by (auto intro: div_nat_eqI)
  ultimately show ?thesis unfolding r_def [symmetric] using n by (auto split: if_splits)
qed

lemma add_version_ok:
  assumes "is_img ty ds b" "16 dvd length b" "length b + length s + 80 < 2 ^ 32" "\<And>n. alloc_ok env n"
    and "length s mod 16 \<in> {1..12}"
  shows "\<exists>b'. add_version env (Some s) b = Inr b' \<and> is_img ty (ds @ [(kImage3TagVersion, version_data s)]) b' \<and>
    length b' \<le> length b + length s + 31"
proof -
  define L where "L = (length s + 31) div 16 * 16 - 4"
  have room: "length s + 16 \<le> L" using version_room [of s] assms(5) by (simp add: L_def)
  have L: "L \<le> length s + 31" by (simp add: L_def algebra_simps)
  define k where "k = L - (length s + 16)"
  have k: "L = 12 + length (version_data s) + k" using room by (simp add: k_def)
  have "\<exists>b'. bindE (reserve env True (of_nat (length b + L)) (of_nat L) kImage3TagVersion (of_nat (length (version_data s))) b)
      (put_at (version_data s)) = Inr b' \<and> is_img ty (ds @ [(kImage3TagVersion, version_data s)]) b' \<and>
      length b' = length b + (12 + length (version_data s) + k)"
    by (rule is_img_add [OF assms(1)]) (use assms(3,4) k L in \<open>simp_all del: length_version_data\<close>)
  then show ?thesis
    unfolding add_version_put reserve_version_eq [OF assms(1-3) L_def] using k L by auto
qed

lemma add_version_overflow:
  assumes "is_img ty ds b" "16 dvd length b" "length b + length s + 80 < 2 ^ 32" "\<And>n. alloc_ok env n"
    and "length s mod 16 \<notin> {1..12}"
  shows "add_version env (Some s) b = Inl Out_of_bounds"
proof -
  define L where "L = (length s + 31) div 16 * 16 - 4"
  have "\<not> length s + 16 \<le> L" using version_room [of s] assms(5) unfolding L_def by blast
  then have room: "L < length s + 16" by simp
  have L: "12 \<le> L" by (simp add: L_def)
  obtain ts where b: "b = img_bytes ty ts" using assms(1) by (auto simp: is_img_def)
  have b': "length b = 20 + length (concat (map tag_bytes ts))" "b = img_root ty (length b) @ concat (map tag_bytes ts)"
    using b img_bytes_root by (simp add: length_img_bytes, metis)
  have "length b + L < 2 ^ 32" using assms(3) room by linarith
  from reserve_ok [OF b'(2,1) refl L refl this assms(4), of True kImage3TagVersion "of_nat (length (version_data s))"]
  obtain J where J: "length J = L - 12"
    "reserve env True (of_nat (length b + L)) (of_nat L) kImage3TagVersion (of_nat (length (version_data s))) b =
      Inr (length b + 12, img_root ty (length b + L) @ concat (map tag_bytes ts) @ bytes32 kImage3TagVersion @
        bytes32 (of_nat L) @ bytes32 (of_nat (length (version_data s))) @ J)"
    by blast
  then show ?thesis
    unfolding add_version_put reserve_version_eq [OF assms(1-3) L_def] J(2) bindE_simps put_at_def
    using J(1) room L b by (intro blk_put_overflow) (simp add: length_img_bytes)
qed

section \<open>Reading an image\<close>

text \<open>A reader of the format: the type and the data of the tags. Each tag says how long it is.\<close>

fun parse_tags :: "nat \<Rightarrow> u8 list \<Rightarrow> (u32 \<times> u8 list) list option" where
  "parse_tags 0 bs = (if bs = [] then Some [] else None)"
| "parse_tags (Suc k) bs =
     (if bs = [] then Some []
      else
        let len = unat (blk_get32 bs 4); dlen = unat (blk_get32 bs 8) in
        if length bs < len \<or> len < 12 + dlen then None
        else map_option (Cons (blk_get32 bs 0, take dlen (drop 12 bs))) (parse_tags k (drop len bs)))"

definition parse_image :: "u8 list \<Rightarrow> (u32 \<times> (u32 \<times> u8 list) list) option" where
  "parse_image b =
     (if length b < 20 \<or> blk_get32 b 0 \<noteq> kImage3Magic \<or> unat (hdr_size b) \<noteq> length b \<or>
         unat (hdr_dataSize b) \<noteq> length b - 20
      then None
      else map_option (Pair (blk_get32 b 16)) (parse_tags (length b) (drop 20 b)))"

lemma tag_fields:
  "blk_get32 (tag_bytes (t, d, pad) @ zs) 0 = t"
  "blk_get32 (tag_bytes (t, d, pad) @ zs) 4 = of_nat (12 + length d + length pad)"
  "blk_get32 (tag_bytes (t, d, pad) @ zs) 8 = of_nat (length d)"
  unfolding tag_bytes.simps append_assoc
  using blk_get32_app [of 0 "[]"] blk_get32_app [of 4 "bytes32 _"] blk_get32_app [of 8 "bytes32 _ @ bytes32 _"]
  by simp_all

lemma parse_tags_bytes:
  "length ts \<le> k \<Longrightarrow> length (concat (map tag_bytes ts)) < 2 ^ 32 \<Longrightarrow>
    parse_tags k (concat (map tag_bytes ts)) = Some (map (\<lambda>(t, d, pad). (t, d)) ts)"
proof (induction ts arbitrary: k)
  case Nil
  then show ?case by (cases k) simp_all
next
  case (Cons x ts)
  obtain t d pad where x: "x = (t, d, pad)" by (cases x)
  obtain k' where k: "k = Suc k'" using Cons.prems by (cases k) auto
  let ?rest = "concat (map tag_bytes ts)"
  have l: "length (tag_bytes x) = 12 + length d + length pad" by (simp add: x)
  have lt: "12 + length d + length pad < 2 ^ 32" "length d < 2 ^ 32" using Cons.prems(2) l by simp_all
  have u: "unat (blk_get32 (tag_bytes x @ ?rest) 4) = 12 + length d + length pad"
    "unat (blk_get32 (tag_bytes x @ ?rest) 8) = length d" "blk_get32 (tag_bytes x @ ?rest) 0 = t"
    unfolding x tag_fields using lt by (simp_all add: unat_of_nat del: of_nat_add)
  have d: "take (length d) (drop 12 (tag_bytes x @ ?rest)) = d" by (simp add: x)
  have "drop (12 + length d + length pad) (tag_bytes x @ ?rest) = ?rest" using l by simp
  moreover have "tag_bytes x @ ?rest \<noteq> []" using l by auto
  ultimately show ?case
    using Cons u d l by (simp add: k x Let_def del: tag_bytes.simps)
qed

lemma is_img_parse:
  assumes "is_img ty ds b" "length b < 2 ^ 32"
  shows "parse_image b = Some (ty, ds)"
proof -
  obtain ts where ts: "b = img_bytes ty ts" "map (\<lambda>(t, d, pad). (t, d)) ts = ds" using assms(1) by (auto simp: is_img_def)
  define body where "body = concat (map tag_bytes ts)"
  have b: "b = img_root ty (length b) @ body" using ts(1) img_bytes_root by (metis body_def)
  have l: "length b = 20 + length body" using ts(1) by (simp add: length_img_bytes body_def)
  have "length ts \<le> length body" unfolding body_def by (induction ts) auto
  then have "parse_tags (length b) body = Some ds"
    using parse_tags_bytes [of ts "length b"] assms(2) l ts(2) by (simp add: body_def)
  moreover have "blk_get32 b 0 = kImage3Magic" "hdr_size b = of_nat (length b)" "hdr_dataSize b = of_nat (length b - 20)"
    "blk_get32 b 16 = ty" "drop 20 b = body"
    using img_fields [of ty "length b" body] b by (metis, metis, metis, metis, metis append_eq_conv_conj length_img_root)
  moreover have "unat (of_nat (length b) :: u32) = length b" "unat (of_nat (length b - 20) :: u32) = length b - 20"
    "20 \<le> length b"
    using assms(2) l by (auto simp: unat_of_nat simp del: of_nat_add of_nat_numeral)
  ultimately show ?thesis by (simp add: parse_image_def)
qed

section \<open>The whole image\<close>

lemma sint_size: "n < 2 ^ 31 \<Longrightarrow> sint (of_nat n :: u32) = int n"
  by (simp add: sint_uint uint_nat unat_of_nat signed_take_bit_int_eq_self)

lemma create_root_ok:
  assumes "\<And>n. alloc_ok env n"
  shows "create_root env core = Inr (img_bytes (c_imageType core) [])"
proof -
  define b where "b = blk_realloc (junk env) [] 20"
  have lb: "12 \<le> length b" "length b = 20" by (simp_all add: b_def blk_realloc_def)
  obtain A B C D where b: "b = A @ B @ C @ D" and l: "length A = 4" "length B = 4" "length C = 4" "length D = length b - 12"
    by (rule split_12 [OF lb(1)], rule that)
  obtain E F where D: "D = E @ F" and l2: "length E = 4" "length F = 4"
    by (rule that [of "take 4 D" "drop 4 D"]) (use l(4) lb(2) in simp_all)
  note s = l(1-3) l2
  have "blk_put b 0 (bytes32 kImage3Magic) = Inr (bytes32 kImage3Magic @ B @ C @ E @ F)"
    unfolding b D append_assoc using blk_put_app [of A "bytes32 kImage3Magic" 0 "[]" "B @ C @ E @ F"] s by simp
  moreover have "blk_put (bytes32 m @ B @ C @ E @ F) 16 (bytes32 ty) = Inr (bytes32 m @ B @ C @ E @ bytes32 ty)" for m ty
    using blk_put_app [of F "bytes32 ty" 16 "bytes32 m @ B @ C @ E" "[]"] s by simp
  moreover have "blk_put (bytes32 m @ B @ C @ E @ bytes32 ty) 12 (bytes32 0) = Inr (bytes32 m @ B @ C @ bytes32 0 @ bytes32 ty)"
    for m ty
    using blk_put_app [of E "bytes32 0" 12 "bytes32 m @ B @ C" "bytes32 ty"] s by simp
  moreover have "blk_put (bytes32 m @ X @ Z) 4 (bytes32 w) = Inr (bytes32 m @ bytes32 w @ Z)" if "length X = 4" for m X Z w
    by (rule blk_put_app) (use that in simp_all)
  moreover have "blk_put (bytes32 m @ bytes32 v @ C @ Z) 8 (bytes32 w) = Inr (bytes32 m @ bytes32 v @ bytes32 w @ Z)" for m v Z w
    using blk_put_app [of C "bytes32 w" 8 "bytes32 m @ bytes32 v" Z] s by simp
  ultimately show ?thesis
    using s assms by (simp add: create_root_def b_def [symmetric] img_bytes_def img_root_def)
qed

text \<open>The tags that the options ask for.\<close>

definition option_tags :: "img_options \<Rightarrow> Image3Struct \<Rightarrow> (u32 \<times> u8 list) list" where
  "option_tags opt core =
     (let tag32 = (\<lambda>x t v. if x \<noteq> (None :: string option) then [(t, bytes32 v)] else []) in
      tag32 (imageSecurityEpoch opt) kImage3TagSecurityEpoch (c_imageSecurityEpoch core) @
      tag32 (hardwareEpoch opt) kImage3TagChipEpoch (c_imageHardwareEpoch core) @
      tag32 (imageDomain opt) kImage3TagSecurityDomain (c_imageDomain core) @
      tag32 (imageProduction opt) kImage3TagProduct (c_imageProductionType core) @
      tag32 (chipType opt) kImage3TagChip (c_imageChipType core) @
      tag32 (boardType opt) kImage3TagBoard (c_imageBoardType core) @
      (if uniqueIdentifier opt \<noteq> None then [(kImage3TagECID, bytes64 (c_imageUniqueIdentifier core))] else []))"

definition expected_tags :: "img_options \<Rightarrow> Image3Struct \<Rightarrow> (u32 \<times> u8 list) list" where
  "expected_tags opt core =
     [(kImage3TagType, bytes32 (c_imageType core)), (kImage3TagData, backingData core)] @
     (case imageVersion opt of None \<Rightarrow> [] | Some s \<Rightarrow> [(kImage3TagVersion, version_data s)]) @
     option_tags opt core"

definition version_length :: "img_options \<Rightarrow> nat" where
  "version_length opt = (case imageVersion opt of None \<Rightarrow> 0 | Some s \<Rightarrow> length s)"

lemma add_version_any:
  assumes "is_img ty ds b" "16 dvd length b" "length b + version_length opt + 80 < 2 ^ 32" "\<And>n. alloc_ok env n"
    and "\<And>s. imageVersion opt = Some s \<Longrightarrow> length s mod 16 \<in> {1..12}"
  shows "\<exists>b'. add_version env (imageVersion opt) b = Inr b' \<and>
    is_img ty (ds @ (case imageVersion opt of None \<Rightarrow> [] | Some s \<Rightarrow> [(kImage3TagVersion, version_data s)])) b' \<and>
    length b' \<le> length b + version_length opt + 31"
proof (cases "imageVersion opt")
  case None
  then show ?thesis using assms(1) by (simp add: add_version_def)
next
  case (Some s)
  then show ?thesis using add_version_ok [OF assms(1,2) _ assms(4), of s] assms(3,5) by (simp add: version_length_def)
qed

lemma bindE_chain:
  assumes "\<exists>b'. x = Inr b' \<and> P b'" "\<And>b'. P b' \<Longrightarrow> \<exists>r. f b' = Inr r \<and> Q r"
  shows "\<exists>r. bindE x f = Inr r \<and> Q r"
  using assms by (metis bindE_simps(2))

lemma tag_step:
  assumes "is_img ty ds b \<and> length b \<le> n" "n + 28 < 2 ^ 32" "\<And>n. alloc_ok env n"
    and "\<And>b'. is_img ty (ds @ (if x then [(t, bytes32 v)] else [])) b' \<and> length b' \<le> n + 28 \<Longrightarrow> \<exists>r. f b' = Inr r \<and> Q r"
  shows "\<exists>r. bindE (add_tag32 env x t v b) f = Inr r \<and> Q r"
proof (rule bindE_chain)
  show "\<exists>b'. add_tag32 env x t v b = Inr b' \<and> is_img ty (ds @ (if x then [(t, bytes32 v)] else [])) b' \<and> length b' \<le> n + 28"
    using add_tag [of ty ds b env x t v] assms(1-3) by fastforce
qed (rule assms(4))

lemma add_tags_ok:
  assumes "is_img ty ds b" "length b \<le> n" "n + 300 < 2 ^ 32" "\<And>n. alloc_ok env n"
  shows "\<exists>b'. add_tags env opt core b = Inr b' \<and> is_img ty (ds @ option_tags opt core) b' \<and> length b' \<le> n + 200"
proof -
  have ecid: "\<exists>b'. (if x then bindE (image3_reserve_ecid env kImage3TagECID 8 c) (put_at (bytes64 v)) else Inr c) = Inr b' \<and>
      is_img ty (es @ (if x then [(kImage3TagECID, bytes64 v)] else [])) b' \<and> length b' \<le> n + 200"
    if "is_img ty es c \<and> length c \<le> n + 28 + 28 + 28 + 28 + 28 + 28" for es c x v
    using add_ecid [of ty es c env kImage3TagECID v] that assms(3,4) by (cases x) auto
  have i: "is_img ty ds b \<and> length b \<le> n" using assms by simp
  show ?thesis
    unfolding add_tags_def option_tags_def Let_def append_assoc [symmetric]
    by (rule tag_step [OF i], use assms(3) in simp, rule assms(4),
        (erule tag_step, use assms(3) in simp, rule assms(4))+, erule ecid)
qed

text \<open>The image up to the data tag.\<close>

definition create_base :: "img_env \<Rightarrow> Image3Struct \<Rightarrow> u8 list img" where
  "create_base env core =
     bindE (create_root env core) (\<lambda>b0.
     bindE (bindE (image3_reserve_type env kImage3TagType 4 b0) (put_at (bytes32 (c_imageType core)))) (\<lambda>b1.
     bindE (image3_reserve_data env kImage3TagData (backingDataSize core) b1) (put_data core)))"

abbreviation base_tags :: "Image3Struct \<Rightarrow> (u32 \<times> u8 list) list" where
  "base_tags core \<equiv> [(kImage3TagType, bytes32 (c_imageType core)), (kImage3TagData, backingData core)]"

lemma bindE_assoc: "bindE (bindE x f) g = bindE x (\<lambda>a. bindE (f a) g)"
  by (cases x) simp_all

lemma create_image_base:
  "create_image env opt core =
    bindE (create_base env core) (\<lambda>b2. bindE (add_version env (imageVersion opt) b2) (\<lambda>b3.
    bindE (add_tags env opt core b3) (\<lambda>b4. Inr (core\<lparr>rootHeader := b4\<rparr>))))"
  by (simp add: create_image_def create_base_def bindE_assoc)

lemma create_base_ok:
  assumes alloc: "\<And>n. alloc_ok env n"
    and size: "backingDataSize core = of_nat (length (backingData core))"
    and fit: "length (backingData core) + 500 < 2 ^ 31"
  shows "\<exists>b. create_base env core = Inr b \<and> is_img (c_imageType core) (base_tags core) b \<and> 16 dvd length b \<and>
    length b \<le> 80 + length (backingData core)"
proof -
  let ?ty = "c_imageType core" and ?d = "backingData core"
  have i0: "is_img ?ty [] (img_bytes ?ty [])" "length (img_bytes ?ty []) = 20" by (simp_all add: is_img_def length_img_bytes)
  obtain b1 where b1: "bindE (image3_reserve_type env kImage3TagType 4 (img_bytes ?ty [])) (put_at (bytes32 ?ty)) = Inr b1"
    "is_img ?ty [(kImage3TagType, bytes32 ?ty)] b1" "length b1 = 52"
    using add_type [OF i0(1) _ alloc, of kImage3TagType ?ty] i0(2) by auto
  have put: "put_data core = put_at ?d"
    using sint_size [of "length ?d"] fit by (simp add: put_data_def fun_eq_iff size)
  obtain b2 where "bindE (image3_reserve_data env kImage3TagData (backingDataSize core) b1) (put_data core) = Inr b2"
    "is_img ?ty (base_tags core) b2" "16 dvd length b2" "length b2 \<le> 80 + length ?d"
    using add_data [OF b1(2) _ _ alloc, of ?d kImage3TagData] b1(3) fit unfolding put size by auto
  then show ?thesis using b1(1) create_root_ok [OF alloc, of core] by (simp add: create_base_def)
qed

lemma create_image_parse:
  assumes alloc: "\<And>n. alloc_ok env n"
    and version: "\<And>s. imageVersion opt = Some s \<Longrightarrow> length s mod 16 \<in> {1..12}"
    and size: "backingDataSize core = of_nat (length (backingData core))"
    and fit: "length (backingData core) + version_length opt + 500 < 2 ^ 31"
  shows "\<exists>core'. create_image env opt core = Inr core' \<and>
    parse_image (rootHeader core') = Some (c_imageType core, expected_tags opt core)"
proof -
  let ?ty = "c_imageType core" and ?d = "backingData core"
  obtain b2 where b2: "create_base env core = Inr b2" "is_img ?ty (base_tags core) b2" "16 dvd length b2"
    "length b2 \<le> 80 + length ?d"
    using create_base_ok [OF alloc size] fit by auto
  have "length b2 + version_length opt + 80 < 2 ^ 32" using b2(4) fit by simp
  from add_version_any [OF b2(2,3) this alloc version] obtain b3 where
    b3: "add_version env (imageVersion opt) b2 = Inr b3"
    "is_img ?ty (base_tags core @
      (case imageVersion opt of None \<Rightarrow> [] | Some s \<Rightarrow> [(kImage3TagVersion, version_data s)])) b3"
    "length b3 \<le> length b2 + version_length opt + 31" by blast
  have "length b3 \<le> length ?d + version_length opt + 120" using b3(3) b2(4) by simp
  from add_tags_ok [OF b3(2) this _ alloc, of opt core] obtain b4 where
    b4: "add_tags env opt core b3 = Inr b4" "is_img ?ty (expected_tags opt core) b4" "length b4 < 2 ^ 32"
    using fit by (auto simp: expected_tags_def)
  show ?thesis using b2(1) b3(1) b4 is_img_parse [OF b4(2,3)] by (simp add: create_image_base)
qed

lemma map_sized_file_ok:
  "map_sized_file env path = Inr (bs, n) \<Longrightarrow> files env path = Some bs \<and> n = of_nat (length bs)"
  by (auto simp: map_sized_file_def map_file_def bindE_def assertE_def split: option.splits sum.splits if_splits)

lemma bindE_Inr: "bindE x f = Inr r \<longleftrightarrow> (\<exists>a. x = Inr a \<and> f a = Inr r)"
  by (cases x) simp_all

lemma create_image_preprocess_ok:
  assumes "create_image_preprocess env opt = Inr core"
  obtains input out_file where "inputFile opt = Some input" "outputFile opt = Some out_file"
    "files env input = Some (backingData core)" "backingDataSize core = of_nat (length (backingData core))"
proof -
  obtain input tag out_file where o: "inputFile opt = Some input" "imageTag opt = Some tag" "outputFile opt = Some out_file"
    using assms by (auto simp: create_image_preprocess_def split: option.splits)
  then obtain data n where d: "map_sized_file env input = Inr (data, n)" "backingData core = data" "backingDataSize core = n"
    using assms by (auto simp: create_image_preprocess_def bindE_Inr Let_def)
  then show ?thesis using that [OF o(1,3)] map_sized_file_ok [OF d(1)] by simp
qed

definition ex_env :: img_env where
  "ex_env = \<lparr>files = (\<lambda>path. if path = ''in'' then Some [1, 2, 3] else None), alloc_ok = (\<lambda>n. True),
     junk = (\<lambda>n. 255), out_ok = True\<rparr>"

definition ex_args :: "(char \<times> string) list" where
  "ex_args = [(CHR ''f'', ''in''), (CHR ''t'', ''krnl''), (CHR ''o'', ''out''), (CHR ''v'', ''1.0''),
     (CHR ''d'', ''Darwin''), (CHR ''y'', ''8920'')]"

definition ex_opt :: img_options where
  "ex_opt = no_options\<lparr>inputFile := Some ''in'', imageTag := Some ''krnl'', outputFile := Some ''out'',
     imageVersion := Some ''1.0'', imageDomain := Some ''Darwin'', chipType := Some ''8920''\<rparr>"

definition ex_core :: Image3Struct where
  "ex_core = \<lparr>rootHeader = [], backingData = [1, 2, 3], backingDataSize = 3, backingCertificate = [],
     backingCertificateSize = 0, c_imageVersion = Some ''1.0'', c_imageType = 0x6B726E6C, c_imageSecurityEpoch = 0,
     c_imageDomain = 1, c_imageProductionType = 0, c_imageHardwareEpoch = 0, c_imageChipType = 0x8920,
     c_imageBoardType = 0, c_imageUniqueIdentifier = 0\<rparr>"

lemma ex_opt_ok: "process_options ex_args = Inr ex_opt"
  by (simp add: process_options_def ex_args_def ex_opt_def set_option_def no_options_def)

lemma ex_core_ok: "create_image_preprocess ex_env ex_opt = Inr ex_core"
proof -
  have "map_sized_file ex_env ''in'' = Inr ([1, 2, 3], 3)" by (simp add: map_sized_file_def map_file_def ex_env_def)
  moreover have "fourcc_to_uint ''krnl'' = Inr 0x6B726E6C" by code_simp
  moreover have "security_domain ''Darwin'' = Inr 1" by code_simp
  moreover have "strtoul16 ''8920'' = 0x8920"
    by (simp add: strtoul16_def is_space_def hex_digit_def Let_def of_char_def)
  ultimately show ?thesis
    by (simp add: create_image_preprocess_def ex_opt_def no_options_def optE_def ex_core_def)
qed



text \<open>
  The version tag is too short for some versions. For a version string whose length modulo 16 is
  0, 13, 14 or 15, the four bytes that \<open>image3_reserve_version\<close> takes off the rounded size are missing, and
  copying the string writes past the end of the block.
\<close>

theorem version_tag_overflow:
  assumes "\<And>n. alloc_ok env n" "imageVersion opt = Some s" "length s mod 16 \<notin> {1..12}"
    and "backingDataSize core = of_nat (length (backingData core))"
    and "length (backingData core) + length s + 500 < 2 ^ 31"
  shows "create_image env opt core = Inl Out_of_bounds"
proof -
  obtain b2 where b2: "create_base env core = Inr b2"
    "is_img (c_imageType core) (base_tags core) b2" "16 dvd length b2" "length b2 \<le> 80 + length (backingData core)"
    using create_base_ok [OF assms(1,4)] assms(5) by auto
  have "add_version env (Some s) b2 = Inl Out_of_bounds"
    using add_version_overflow [OF b2(2,3) _ assms(1,3)] b2(4) assms(5) by simp
  then show ?thesis using b2(1) assms(2) by (simp add: create_image_base)
qed

theorem version_tag_overflow_witness:
  "create_image ex_env (ex_opt\<lparr>imageVersion := Some ''iBoot-1234.56''\<rparr>) ex_core = Inl Out_of_bounds"
  by (rule version_tag_overflow [of _ _ "''iBoot-1234.56''"]) (simp_all add: ex_env_def ex_core_def)

end
