(* ===== verification/Kxld_Array.thy ===== *)
theory Kxld_Array
  imports Prelude
begin

text \<open>
  The growable arrays of the kernel's kext linker, \<open>Kernel/libkern/kxld/kxld_array.c\<close>: an array is a queue of
  pools of equal capacity, each with a page-aligned buffer of bytes. The kernel allocators are an
  environment that says for each call whether it succeeds and which address it returns; the state \<open>kxld_heap\<close>
  counts the calls and keeps the page blocks that are not yet freed. An access outside a buffer
  is \<open>None\<close>. Sizes are the 32-bit \<open>size_t\<close> and \<open>u_int\<close> of the ARM kernel.
\<close>

section \<open>Data\<close>

type_synonym kern_return_t = u32

abbreviation (input) KERN_SUCCESS :: kern_return_t where "KERN_SUCCESS \<equiv> 0"
abbreviation (input) KERN_INVALID_ARGUMENT :: kern_return_t where "KERN_INVALID_ARGUMENT \<equiv> 4"
abbreviation (input) KERN_FAILURE :: kern_return_t where "KERN_FAILURE \<equiv> 5"
abbreviation (input) KERN_RESOURCE_SHORTAGE :: kern_return_t where "KERN_RESOURCE_SHORTAGE \<equiv> 6"
abbreviation (input) KERN_NOT_SUPPORTED :: kern_return_t where "KERN_NOT_SUPPORTED \<equiv> 46"

record KXLDArrayPool =
  p_addr :: u32
  p_buffer :: buf
  p_nitems :: u32

record KXLDArray =
  pools :: "KXLDArrayPool list"
  itemsize :: u32
  pool_capacity :: u32
  pool_maxitems :: u32
  nitems :: u32
  maxitems :: u32
  npools :: u32

definition zero_array :: KXLDArray where
  "zero_array = \<lparr>pools = [], itemsize = 0, pool_capacity = 0, pool_maxitems = 0, nitems = 0, maxitems = 0, npools = 0\<rparr>"

record kxld_env =
  kalloc_ok :: "nat \<Rightarrow> bool"
  page_alloc :: "nat \<Rightarrow> u32 \<Rightarrow> u32 option"
  stale_nitems :: "nat \<Rightarrow> u32"

record kxld_heap =
  allocs :: nat
  live :: "(u32 \<times> u32) list"

definition round_page :: "u32 \<Rightarrow> u32" where
  "round_page x = (x + 0xFFF) AND NOT 0xFFF"

section \<open>Buffers\<close>

definition buf_bytes :: "buf \<Rightarrow> nat \<Rightarrow> nat \<Rightarrow> u8 list option" where
  "buf_bytes b i n = (if i + n \<le> buf_len b then Some (map (buf_cells b) [i..<i + n]) else None)"

definition buf_bzero :: "buf \<Rightarrow> nat \<Rightarrow> nat \<Rightarrow> buf option" where
  "buf_bzero b i n = buf_blit b i (replicate n 0)"

section \<open>Pools\<close>

definition pool_destroy :: "KXLDArrayPool \<Rightarrow> u32 \<Rightarrow> kxld_heap \<Rightarrow> kxld_heap" where
  "pool_destroy pool capacity h = h\<lparr>live := remove1 (p_addr pool, capacity) (live h)\<rparr>"

text \<open>
  Two allocations: the pool itself, whose count of items is not initialised, and its buffer.
\<close>

definition pool_create :: "kxld_env \<Rightarrow> u32 \<Rightarrow> kxld_heap \<Rightarrow> KXLDArrayPool option \<times> kxld_heap" where
  "pool_create env capacity h =
     (let n = allocs h in
      if \<not> kalloc_ok env n then (None, h\<lparr>allocs := n + 1\<rparr>)
      else
        (case page_alloc env (n + 1) capacity of
          None \<Rightarrow> (None, h\<lparr>allocs := n + 2\<rparr>)
        | Some a \<Rightarrow>
            (Some \<lparr>p_addr = a, p_buffer = buf_zero (unat capacity), p_nitems = stale_nitems env n\<rparr>,
             h\<lparr>allocs := n + 2, live := (a, capacity) # live h\<rparr>)))"

definition array_init ::
  "kxld_env \<Rightarrow> KXLDArray \<Rightarrow> u32 \<Rightarrow> u32 \<Rightarrow> kxld_heap \<Rightarrow> (kern_return_t \<times> KXLDArray \<times> kxld_heap) option" where
  "array_init env array isize n h =
     (if isize = 0 then Some (KERN_INVALID_ARGUMENT, array, h)
      else if \<not> npools array < 2 then Some (KERN_INVALID_ARGUMENT, array, h)
      else
        let a1 = array\<lparr>itemsize := isize\<rparr>;
            fill = (\<lambda>a ps. a\<lparr>pools := ps, pool_maxitems := pool_capacity a div isize,
              maxitems := pool_capacity a div isize, nitems := n, npools := 1\<rparr>)
        in
        case pools a1 of
          [] \<Rightarrow>
            let a2 = a1\<lparr>pool_capacity := round_page (isize * n)\<rparr> in
            (case pool_create env (pool_capacity a2) h of
               (None, h1) \<Rightarrow> Some (KERN_RESOURCE_SHORTAGE, a2, h1)
             | (Some p, h1) \<Rightarrow> Some (KERN_SUCCESS, fill a2 [p\<lparr>p_nitems := n\<rparr>], h1))
        | pool # rest \<Rightarrow>
            if \<not> isize * n < pool_capacity a1 then Some (KERN_FAILURE, a1, h)
            else if npools a1 \<noteq> 1 then Some (KERN_FAILURE, a1, h)
            else do {
              b \<leftarrow> buf_bzero (p_buffer pool) 0 (unat (pool_capacity a1));
              Some (KERN_SUCCESS, fill a1 (pool\<lparr>p_buffer := b, p_nitems := n\<rparr> # rest), h)
            })"

section \<open>Resetting, clearing and freeing\<close>

definition kxld_array_reset :: "KXLDArray \<Rightarrow> KXLDArray" where
  "kxld_array_reset array = array\<lparr>pools := map (\<lambda>p. p\<lparr>p_nitems := 0\<rparr>) (pools array), nitems := 0\<rparr>"

fun clear_pools :: "nat \<Rightarrow> KXLDArrayPool list \<Rightarrow> KXLDArrayPool list option" where
  "clear_pools cap [] = Some []"
| "clear_pools cap (p # ps) = do {
     b \<leftarrow> buf_bzero (p_buffer p) 0 cap;
     qs \<leftarrow> clear_pools cap ps;
     Some (p\<lparr>p_buffer := b\<rparr> # qs)
   }"

definition kxld_array_clear :: "KXLDArray \<Rightarrow> KXLDArray option" where
  "kxld_array_clear array = do {
     ps \<leftarrow> clear_pools (unat (pool_capacity array)) (pools (kxld_array_reset array));
     Some ((kxld_array_reset array)\<lparr>pools := ps\<rparr>)
   }"

definition destroy_pools :: "u32 \<Rightarrow> KXLDArrayPool list \<Rightarrow> kxld_heap \<Rightarrow> kxld_heap" where
  "destroy_pools cap ps h = fold (\<lambda>p. pool_destroy p cap) ps h"

definition kxld_array_deinit :: "KXLDArray \<Rightarrow> kxld_heap \<Rightarrow> KXLDArray \<times> kxld_heap" where
  "kxld_array_deinit array h = (zero_array, destroy_pools (pool_capacity array) (pools array) h)"

section \<open>Initialising\<close>

text \<open>Spreads a number of items over the pools; the second component is what does not fit.\<close>

fun reinit_loop :: "u32 \<Rightarrow> u32 \<Rightarrow> KXLDArrayPool list \<Rightarrow> KXLDArrayPool list \<times> u32" where
  "reinit_loop maxi n [] = ([], n)"
| "reinit_loop maxi n (p # ps) =
     (if n > maxi then let (qs, r) = reinit_loop maxi (n - maxi) ps in (p\<lparr>p_nitems := maxi\<rparr> # qs, r)
      else let (qs, r) = reinit_loop maxi 0 ps in (p\<lparr>p_nitems := n\<rparr> # qs, r))"

definition reinit_pools :: "KXLDArray \<Rightarrow> u32 \<Rightarrow> KXLDArray \<times> u32" where
  "reinit_pools array n =
     (let (ps, r) = reinit_loop (pool_maxitems array) n (pools array)
      in (array\<lparr>pools := ps, nitems := n\<rparr>, r))"

text \<open>Moves the contents of the old pools into the new one and frees them.\<close>

fun copy_pools :: "u32 \<Rightarrow> buf \<Rightarrow> nat \<Rightarrow> KXLDArrayPool list \<Rightarrow> kxld_heap \<Rightarrow> (buf \<times> kxld_heap) option" where
  "copy_pools cap dst offset [] h = Some (dst, h)"
| "copy_pools cap dst offset (p # ps) h = do {
     bs \<leftarrow> buf_bytes (p_buffer p) 0 (unat cap);
     dst1 \<leftarrow> buf_blit dst offset bs;
     copy_pools cap dst1 (offset + unat cap) ps (pool_destroy p cap h)
   }"

text \<open>
  The array after the old pools have been looked at: either rescanned, or set aside (they are the
  third component) because they are too small. A rescan that does not fit is an error.
\<close>

definition init_old_pools ::
  "KXLDArray \<Rightarrow> u32 \<Rightarrow> u32 \<Rightarrow> kern_return_t \<times> KXLDArray \<times> KXLDArrayPool list \<times> u32 \<times> u32" where
  "init_old_pools array isize n =
     (if npools array = 0 then (KERN_SUCCESS, array, [], 0, n)
      else
        let maxi = pool_capacity array div isize;
            a1 = array\<lparr>pool_maxitems := maxi, maxitems := of_nat (length (pools array)) * maxi\<rparr>
        in
        if maxitems a1 < n then (KERN_SUCCESS, zero_array, pools a1, pool_capacity a1, n)
        else
          let (a2, r) = reinit_pools a1 n
          in (if r = 0 then KERN_SUCCESS else KERN_FAILURE, a2, [], 0, r))"

definition kxld_array_init ::
  "kxld_env \<Rightarrow> KXLDArray \<Rightarrow> u32 \<Rightarrow> u32 \<Rightarrow> kxld_heap \<Rightarrow> (kern_return_t \<times> KXLDArray \<times> kxld_heap) option" where
  "kxld_array_init env array isize n h =
     (let failed = (\<lambda>rv a h. let (a', h') = kxld_array_deinit a h in Some (rv, a', h')) in
      if n = 0 then Some (KERN_SUCCESS, kxld_array_reset array, h)
      else if isize = 0 then failed KERN_INVALID_ARGUMENT array h
      else
        let (rv, a1, src, srccap, n1) = init_old_pools array isize n in
        if rv \<noteq> KERN_SUCCESS then failed rv a1 h
        else
          let a2 = a1\<lparr>itemsize := isize\<rparr> in
          if maxitems a2 \<noteq> 0 then Some (KERN_SUCCESS, a2, h)
          else do {
            (rv, a3, h1) \<leftarrow> array_init env a2 isize n1 h;
            if rv \<noteq> KERN_SUCCESS then failed rv a3 h1
            else
              case pools a3 of
                [] \<Rightarrow> failed KERN_FAILURE a3 h1
              | dst # rest \<Rightarrow> do {
                  (b, h2) \<leftarrow> copy_pools srccap (p_buffer dst) 0 src h1;
                  Some (KERN_SUCCESS, a3\<lparr>pools := dst\<lparr>p_buffer := b\<rparr> # rest\<rparr>, h2)
                }
          })"

section \<open>Access\<close>

text \<open>A pointer to an item: the number of its pool and its offset in the pool's buffer.\<close>

type_synonym item_ptr = "nat \<times> nat"

fun get_item_loop :: "u32 \<Rightarrow> u32 \<Rightarrow> nat \<Rightarrow> u32 \<Rightarrow> KXLDArrayPool list \<Rightarrow> item_ptr option" where
  "get_item_loop maxi isize k idx [] = None"
| "get_item_loop maxi isize k idx (p # ps) =
     (if idx < p_nitems p then Some (k, unat (isize * idx))
      else get_item_loop maxi isize (k + 1) (idx - maxi) ps)"

definition kxld_array_get_item :: "KXLDArray \<Rightarrow> u32 \<Rightarrow> item_ptr option" where
  "kxld_array_get_item array idx =
     (if idx \<ge> nitems array then None
      else get_item_loop (pool_maxitems array) (itemsize array) 0 idx (pools array))"

fun get_slot_loop :: "u32 \<Rightarrow> u32 \<Rightarrow> nat \<Rightarrow> u32 \<Rightarrow> KXLDArrayPool list \<Rightarrow> item_ptr option" where
  "get_slot_loop maxi isize k idx [] = None"
| "get_slot_loop maxi isize k idx (p # ps) =
     (if idx < maxi then Some (k, unat (isize * idx))
      else get_slot_loop maxi isize (k + 1) (idx - maxi) ps)"

definition kxld_array_get_slot :: "KXLDArray \<Rightarrow> u32 \<Rightarrow> item_ptr option" where
  "kxld_array_get_slot array idx =
     (if idx \<ge> maxitems array then None
      else get_slot_loop (pool_maxitems array) (itemsize array) 0 idx (pools array))"

definition item_addr :: "KXLDArray \<Rightarrow> item_ptr \<Rightarrow> u32" where
  "item_addr array p = p_addr (pools array ! fst p) + of_nat (snd p)"

fun get_index_loop :: "KXLDArray \<Rightarrow> u32 \<Rightarrow> u32 \<Rightarrow> KXLDArrayPool list \<Rightarrow> u32 option" where
  "get_index_loop array it base [] = None"
| "get_index_loop array it base (p # ps) =
     (if p_addr p \<le> it \<and> it < p_addr p + pool_capacity array
      then Some ((it - p_addr p) div itemsize array + base)
      else get_index_loop array it (base + pool_maxitems array) ps)"

text \<open>The index of the item at an address; \<open>None\<close> is \<open>KERN_FAILURE\<close>.\<close>

definition kxld_array_get_index :: "KXLDArray \<Rightarrow> u32 \<Rightarrow> u32 option" where
  "kxld_array_get_index array item = get_index_loop array item 0 (pools array)"

text \<open>Reading and writing through an item pointer.\<close>

definition item_get :: "KXLDArray \<Rightarrow> item_ptr \<Rightarrow> nat \<Rightarrow> nat \<Rightarrow> u8 list option" where
  "item_get array p off n =
     (if fst p < length (pools array) then buf_bytes (p_buffer (pools array ! fst p)) (snd p + off) n else None)"

definition item_put :: "KXLDArray \<Rightarrow> item_ptr \<Rightarrow> nat \<Rightarrow> u8 list \<Rightarrow> KXLDArray option" where
  "item_put array p off bs =
     (if fst p < length (pools array)
      then do {
        b \<leftarrow> buf_blit (p_buffer (pools array ! fst p)) (snd p + off) bs;
        Some (array\<lparr>pools := (pools array)[fst p := (pools array ! fst p)\<lparr>p_buffer := b\<rparr>]\<rparr>)
      }
      else None)"

section \<open>Growing, removing and copying\<close>

text \<open>
  The loop adds pools until there is room; \<open>None\<close> also means that it does not end.
\<close>

partial_function (option) grow_loop ::
  "kxld_env \<Rightarrow> u32 \<Rightarrow> KXLDArray \<Rightarrow> kxld_heap \<Rightarrow> (bool \<times> KXLDArray \<times> kxld_heap) option" where
  "grow_loop env n array h =
     (if n > maxitems array
      then
        (case pool_create env (pool_capacity array) h of
           (None, h1) \<Rightarrow> Some (False, array, h1)
         | (Some pool, h1) \<Rightarrow>
             grow_loop env n
               (array\<lparr>pools := pools array @ [pool], maxitems := maxitems array + pool_maxitems array,
                  npools := npools array + 1\<rparr>) h1)
      else Some (True, array, h))"

definition kxld_array_resize ::
  "kxld_env \<Rightarrow> KXLDArray \<Rightarrow> u32 \<Rightarrow> kxld_heap \<Rightarrow> (kern_return_t \<times> KXLDArray \<times> kxld_heap) option" where
  "kxld_array_resize env array n h = do {
     (grown, a1, h1) \<leftarrow> grow_loop env n array h;
     if \<not> grown then Some (KERN_FAILURE, a1, h1)
     else
       let (a2, r) = reinit_pools a1 n
       in Some (if r = 0 then KERN_SUCCESS else KERN_FAILURE, a2, h1)
   }"

definition kxld_array_remove :: "KXLDArray \<Rightarrow> u32 \<Rightarrow> (kern_return_t \<times> KXLDArray) option" where
  "kxld_array_remove array idx =
     (if idx \<ge> nitems array then Some (KERN_SUCCESS, array)
      else if \<not> (npools array < 2 \<or> nitems array < pool_maxitems array) then Some (KERN_NOT_SUPPORTED, array)
      else
        case pools array of
          [] \<Rightarrow> Some (KERN_FAILURE, array)
        | pool # rest \<Rightarrow>
            let dst = unat (idx * itemsize array);
                src = unat ((idx + 1) * itemsize array);
                n = p_nitems pool - idx - 1
            in do {
              bs \<leftarrow> buf_bytes (p_buffer pool) src (unat (itemsize array * n));
              b1 \<leftarrow> buf_blit (p_buffer pool) dst bs;
              b2 \<leftarrow> buf_bzero b1 (unat ((p_nitems pool - 1) * itemsize array)) (unat (itemsize array));
              Some (KERN_SUCCESS, array\<lparr>pools := pool\<lparr>p_buffer := b2, p_nitems := p_nitems pool - 1\<rparr> # rest,
                nitems := nitems array - 1\<rparr>)
            })"

fun copy_items :: "u32 \<Rightarrow> buf \<Rightarrow> nat \<Rightarrow> KXLDArrayPool list \<Rightarrow> buf option" where
  "copy_items isize dst offset [] = Some dst"
| "copy_items isize dst offset (p # ps) = do {
     bs \<leftarrow> buf_bytes (p_buffer p) 0 (unat (p_nitems p * isize));
     dst1 \<leftarrow> buf_blit dst offset bs;
     copy_items isize dst1 (offset + unat (p_nitems p * isize)) ps
   }"

definition kxld_array_copy ::
  "kxld_env \<Rightarrow> KXLDArray \<Rightarrow> KXLDArray \<Rightarrow> kxld_heap \<Rightarrow> (kern_return_t \<times> KXLDArray \<times> kxld_heap) option" where
  "kxld_array_copy env dstarray srcarray h =
     (let needed = round_page (nitems srcarray * itemsize srcarray);
          current = npools dstarray * pool_capacity dstarray;
          (a1, h1) = (if npools dstarray > 1 \<or> needed > current then kxld_array_deinit dstarray h else (dstarray, h))
      in do {
        (rv, a2, h2) \<leftarrow> array_init env a1 (itemsize srcarray) (nitems srcarray) h1;
        if rv \<noteq> KERN_SUCCESS then Some (rv, a2, h2)
        else
          case pools a2 of
            [] \<Rightarrow> Some (KERN_FAILURE, a2, h2)
          | dst # rest \<Rightarrow> do {
              b \<leftarrow> copy_items (itemsize srcarray) (p_buffer dst) 0 (pools srcarray);
              Some (KERN_SUCCESS, a2\<lparr>pools := dst\<lparr>p_buffer := b\<rparr> # rest\<rparr>, h2)
            }
      })"

end
