(* ===== verification/Kxld_Items.thy ===== *)
theory Kxld_Items
  imports Kxld_Array
begin

text \<open>
  What the arrays of the kext linker contain. \<open>arr_ok\<close> is their invariant; \<open>contents\<close> reads an array as
  the list of its items. The lemmas give every access and modification in terms of that list.
\<close>

section \<open>The invariant\<close>

text \<open>The pools of an array with \<open>n\<close> items are filled in order.\<close>

definition filled :: "nat \<Rightarrow> nat \<Rightarrow> KXLDArrayPool list \<Rightarrow> bool" where
  "filled M n ps \<longleftrightarrow> (\<forall>k < length ps. unat (p_nitems (ps ! k)) = min M (n - k * M))"

definition pools_ok :: "KXLDArray \<Rightarrow> bool" where
  "pools_ok a \<longleftrightarrow>
     0 < itemsize a \<and> pool_maxitems a = pool_capacity a div itemsize a \<and> 0 < pool_maxitems a \<and>
     unat (npools a) = length (pools a) \<and> unat (maxitems a) = length (pools a) * unat (pool_maxitems a) \<and>
     (\<forall>p \<in> set (pools a). buf_len (p_buffer p) = unat (pool_capacity a))"

definition arr_ok :: "KXLDArray \<Rightarrow> bool" where
  "arr_ok a \<longleftrightarrow> pools_ok a \<and> nitems a \<le> maxitems a \<and> filled (unat (pool_maxitems a)) (unat (nitems a)) (pools a)"

lemma filled_Nil [simp]: "filled M n []"
  by (simp add: filled_def)

lemma filled_Cons:
  "filled M n (p # ps) \<longleftrightarrow> unat (p_nitems p) = min M n \<and> filled M (n - M) ps"
proof -
  have "(\<forall>k < length (p # ps). unat (p_nitems ((p # ps) ! k)) = min M (n - k * M)) \<longleftrightarrow>
      unat (p_nitems p) = min M n \<and> (\<forall>k < length ps. unat (p_nitems (ps ! k)) = min M (n - M - k * M))"
    by (auto simp: All_less_Suc2)
  then show ?thesis by (simp add: filled_def)
qed

lemma unat_u32: "unat (x :: u32) < 2 ^ 32"
  using unsigned_less [of x] by simp

lemma unat_sub: "y \<le> x \<Longrightarrow> unat (x - y) = unat x - unat (y :: u32)"
  by (simp add: unat_sub_if' word_le_nat_alt)

section \<open>Access\<close>

lemma get_item_loop_ok:
  assumes "filled (unat maxi) N ps" "0 < unat maxi" "unat idx < N" "N \<le> length ps * unat maxi"
  shows "get_item_loop maxi isize k idx ps =
    Some (k + unat idx div unat maxi, unat (isize * of_nat (unat idx mod unat maxi)))"
  using assms
proof (induction ps arbitrary: k idx N)
  case (Cons p ps)
  show ?case
  proof (cases "unat idx < unat maxi")
    case True
    then have "idx < p_nitems p" using Cons.prems by (simp add: filled_Cons word_less_nat_alt)
    then show ?thesis using True by simp
  next
    case False
    then have i: "\<not> idx < p_nitems p" "unat (idx - maxi) = unat idx - unat maxi"
      using Cons.prems by (simp_all add: filled_Cons word_less_nat_alt word_le_nat_alt unat_sub)
    have "get_item_loop maxi isize (k + 1) (idx - maxi) ps =
        Some (k + 1 + unat (idx - maxi) div unat maxi, unat (isize * of_nat (unat (idx - maxi) mod unat maxi)))"
      using Cons.prems False i by (intro Cons.IH [of "N - unat maxi"]) (auto simp: filled_Cons)
    moreover have "unat idx div unat maxi = 1 + (unat idx - unat maxi) div unat maxi"
      "(unat idx - unat maxi) mod unat maxi = unat idx mod unat maxi"
      using False Cons.prems(2) by (simp_all add: le_div_geq le_mod_geq)
    ultimately show ?thesis using i by simp
  qed
qed simp

text \<open>The place of the item with a given index.\<close>

definition item_place :: "KXLDArray \<Rightarrow> nat \<Rightarrow> item_ptr" where
  "item_place a i = (i div unat (pool_maxitems a), i mod unat (pool_maxitems a) * unat (itemsize a))"

lemma pools_ok_bounds:
  assumes "pools_ok a"
  shows "unat (pool_maxitems a) * unat (itemsize a) \<le> unat (pool_capacity a)" "0 < unat (itemsize a)" "0 < unat (pool_maxitems a)"
  using assms by (auto simp: pools_ok_def unat_div_distrib word_less_nat_alt)

lemma slot_fits:
  assumes "pools_ok a" "j < unat (pool_maxitems a)"
  shows "j * unat (itemsize a) + unat (itemsize a) \<le> unat (pool_capacity a)"
    "unat (itemsize a * of_nat j) = j * unat (itemsize a)"
proof -
  have "(j + 1) * unat (itemsize a) \<le> unat (pool_maxitems a) * unat (itemsize a)"
    using assms(2) by (intro mult_le_mono1) simp
  then show le: "j * unat (itemsize a) + unat (itemsize a) \<le> unat (pool_capacity a)"
    using pools_ok_bounds [OF assms(1)] by simp
  have c: "unat (pool_capacity a) < 2 ^ 32" by (rule unat_u32)
  have "j < 2 ^ 32" using assms(2) unat_u32 [of "pool_maxitems a"] by simp
  then have "unat (of_nat j :: u32) = j" by (simp add: unat_of_nat)
  moreover have "unat (itemsize a) * j < 2 ^ 32" using le c by (simp add: mult.commute)
  ultimately show "unat (itemsize a * of_nat j) = j * unat (itemsize a)"
    by (simp add: unat_word_ariths mult.commute)
qed

lemma get_item_ok:
  assumes "arr_ok a" "i < nitems a"
  shows "kxld_array_get_item a i = Some (item_place a (unat i))"
proof -
  have ok: "pools_ok a" using assms(1) by (simp add: arr_ok_def)
  note b = pools_ok_bounds [OF ok]
  have "get_item_loop (pool_maxitems a) (itemsize a) 0 i (pools a) =
      Some (0 + unat i div unat (pool_maxitems a), unat (itemsize a * of_nat (unat i mod unat (pool_maxitems a))))"
    using assms ok b by (intro get_item_loop_ok [of _ "unat (nitems a)"])
      (auto simp: arr_ok_def pools_ok_def word_less_nat_alt word_le_nat_alt)
  then show ?thesis
    using assms(2) slot_fits(2) [OF ok, of "unat i mod unat (pool_maxitems a)"] b(3)
    by (simp add: kxld_array_get_item_def item_place_def not_le)
qed

lemma get_item_None: "\<not> i < nitems a \<Longrightarrow> kxld_array_get_item a i = None"
  by (simp add: kxld_array_get_item_def not_less)

text \<open>The place lies inside its pool, and different indices have places that do not overlap.\<close>

lemma item_place_ok:
  assumes "pools_ok a" "i < unat (maxitems a)"
  shows "fst (item_place a i) < length (pools a)"
    "snd (item_place a i) + unat (itemsize a) \<le> buf_len (p_buffer (pools a ! fst (item_place a i)))"
proof -
  have M: "0 < unat (pool_maxitems a)" by (rule pools_ok_bounds [OF assms(1)])
  show f: "fst (item_place a i) < length (pools a)"
    using assms M by (simp add: item_place_def pools_ok_def less_mult_imp_div_less)
  have "buf_len (p_buffer (pools a ! fst (item_place a i))) = unat (pool_capacity a)"
    using assms(1) nth_mem [OF f] by (simp add: pools_ok_def)
  then show "snd (item_place a i) + unat (itemsize a) \<le> buf_len (p_buffer (pools a ! fst (item_place a i)))"
    using slot_fits(1) [OF assms(1), of "i mod unat (pool_maxitems a)"] M by (simp add: item_place_def)
qed

lemma item_place_disjoint:
  assumes "pools_ok a" "i \<noteq> j" "fst (item_place a i) = fst (item_place a j)"
  shows "snd (item_place a i) + unat (itemsize a) \<le> snd (item_place a j) \<or>
    snd (item_place a j) + unat (itemsize a) \<le> snd (item_place a i)"
proof -
  let ?M = "unat (pool_maxitems a)" and ?s = "unat (itemsize a)"
  have "i mod ?M \<noteq> j mod ?M" using assms(2,3) div_mult_mod_eq [of i ?M] div_mult_mod_eq [of j ?M]
    by (auto simp: item_place_def)
  then consider "i mod ?M + 1 \<le> j mod ?M" | "j mod ?M + 1 \<le> i mod ?M" by linarith
  then show ?thesis
  proof cases
    case 1
    then have "(i mod ?M + 1) * ?s \<le> (j mod ?M) * ?s" by (rule mult_le_mono1)
    then show ?thesis by (simp add: item_place_def)
  next
    case 2
    then have "(j mod ?M + 1) * ?s \<le> (i mod ?M) * ?s" by (rule mult_le_mono1)
    then show ?thesis by (simp add: item_place_def)
  qed
qed

section \<open>Items as bytes\<close>

definition item_bytes :: "KXLDArray \<Rightarrow> nat \<Rightarrow> u8 list" where
  "item_bytes a i =
     (let (k, off) = item_place a i in map (buf_cells (p_buffer (pools a ! k))) [off..<off + unat (itemsize a)])"

definition contents :: "KXLDArray \<Rightarrow> u8 list list" where
  "contents a = map (item_bytes a) [0..<unat (nitems a)]"

lemma length_item_bytes [simp]: "length (item_bytes a i) = unat (itemsize a)"
  by (simp add: item_bytes_def case_prod_beta Let_def)

lemma length_contents [simp]: "length (contents a) = unat (nitems a)"
  by (simp add: contents_def)

lemma nth_contents [simp]: "i < unat (nitems a) \<Longrightarrow> contents a ! i = item_bytes a i"
  by (simp add: contents_def)

lemma arr_ok_max: "arr_ok a \<Longrightarrow> i < unat (nitems a) \<Longrightarrow> i < unat (maxitems a)"
  by (simp add: arr_ok_def word_le_nat_alt)

lemma item_get_ok:
  assumes "arr_ok a" "i < unat (nitems a)" "off + n \<le> unat (itemsize a)"
  shows "item_get a (item_place a i) off n = Some (take n (drop off (contents a ! i)))"
proof -
  have ok: "pools_ok a" using assms(1) by (simp add: arr_ok_def)
  note p = item_place_ok [OF ok arr_ok_max [OF assms(1,2)]]
  show ?thesis
    using p assms(2,3)
    by (simp add: item_get_def buf_bytes_def item_bytes_def case_prod_beta Let_def drop_map take_map ac_simps)
qed

text \<open>The array with the buffer of one pool replaced.\<close>

abbreviation set_buffer :: "KXLDArray \<Rightarrow> nat \<Rightarrow> buf \<Rightarrow> KXLDArray" where
  "set_buffer a k b \<equiv> a\<lparr>pools := (pools a)[k := (pools a ! k)\<lparr>p_buffer := b\<rparr>]\<rparr>"

lemma arr_ok_set_buffer:
  "arr_ok a \<Longrightarrow> k < length (pools a) \<Longrightarrow> buf_len b = buf_len (p_buffer (pools a ! k)) \<Longrightarrow> arr_ok (set_buffer a k b)"
  unfolding arr_ok_def pools_ok_def filled_def
  by (auto simp: nth_list_update dest!: in_set_conv_nth [THEN iffD1])

lemma item_bytes_set_buffer:
  assumes "fst (item_place a j) < length (pools a)" "k < length (pools a)"
    and "\<And>x. fst (item_place a j) = k \<Longrightarrow> snd (item_place a j) \<le> x \<Longrightarrow> x < snd (item_place a j) + unat (itemsize a) \<Longrightarrow>
      buf_cells b x = buf_cells (p_buffer (pools a ! k)) x"
  shows "item_bytes (set_buffer a k b) j = item_bytes a j"
  using assms by (auto simp: item_bytes_def item_place_def Let_def nth_list_update)

text \<open>Writing bytes inside an item changes that item only.\<close>

lemma item_put_ok:
  assumes "arr_ok a" "i < unat (nitems a)" "off + length bs \<le> unat (itemsize a)"
  shows "\<exists>a'. item_put a (item_place a i) off bs = Some a' \<and> arr_ok a' \<and> nitems a' = nitems a \<and> itemsize a' = itemsize a \<and>
    length (pools a') = length (pools a) \<and>
    contents a' = (contents a)[i := take off (contents a ! i) @ bs @ drop (off + length bs) (contents a ! i)]"
proof -
  have ok: "pools_ok a" using assms(1) by (simp add: arr_ok_def)
  define k where "k = fst (item_place a i)"
  define o0 where "o0 = snd (item_place a i)"
  note p = item_place_ok [OF ok arr_ok_max [OF assms(1,2)], folded k_def o0_def]
  define b where "b = p_buffer (pools a ! k)"
  define b' where "b' = Buf (buf_len b) (\<lambda>x. if o0 + off \<le> x \<and> x < o0 + off + length bs then bs ! (x - (o0 + off)) else buf_cells b x)"
  define a' where "a' = set_buffer a k b'"
  have blit: "buf_blit b (o0 + off) bs = Some b'"
    unfolding b'_def using p(2) assms(3) by (intro buf_blit_Some) (simp add: b_def)
  then have put: "item_put a (item_place a i) off bs = Some a'"
    using p(1) by (simp add: item_put_def a'_def k_def o0_def b_def)
  have ok': "arr_ok a'" unfolding a'_def using assms(1) p(1) by (intro arr_ok_set_buffer) (simp_all add: b'_def b_def)
  have at: "item_bytes a' i = take off (item_bytes a i) @ bs @ drop (off + length bs) (item_bytes a i)"
    using p(1) assms(3)
    by (intro nth_equalityI) (auto simp: item_bytes_def item_place_def a'_def Let_def nth_append b'_def b_def k_def o0_def
        intro!: arg_cong [where f = "(!) bs"] arg_cong [where f = "buf_cells _"])
  have others: "item_bytes a' j = item_bytes a j" if "j < unat (nitems a)" "j \<noteq> i" for j
    unfolding a'_def using item_place_disjoint [OF ok, of i j] that assms(3) p(1)
      item_place_ok(1) [OF ok arr_ok_max [OF assms(1) that(1)]]
    by (intro item_bytes_set_buffer) (auto simp: b'_def b_def k_def o0_def)
  have "contents a' = (contents a)[i := take off (contents a ! i) @ bs @ drop (off + length bs) (contents a ! i)]"
    by (rule nth_equalityI) (use at others assms(2) in \<open>auto simp: a'_def nth_list_update\<close>)
  then show ?thesis using put ok' by (simp add: a'_def)
qed

section \<open>Initialising\<close>

lemma round_page_nat:
  assumes "n + 4095 < 2 ^ 32"
  shows "round_page (of_nat n) = of_nat ((n + 4095) div 4096 * 4096)" "n \<le> (n + 4095) div 4096 * 4096"
proof -
  have "(NOT 0xFFF :: u32) = NOT (mask 12)" by (simp add: mask_eq_exp_minus_1)
  then show "round_page (of_nat n) = of_nat ((n + 4095) div 4096 * 4096)"
    unfolding round_page_def using align_down [OF assms, of 12] by simp
qed (use div_mod_decomp [of "n + 4095" 4096] in simp)

text \<open>An environment in which every allocation succeeds.\<close>

definition env_ok :: "kxld_env \<Rightarrow> bool" where
  "env_ok env \<longleftrightarrow> (\<forall>n. kalloc_ok env n \<and> (\<forall>c. page_alloc env n c \<noteq> None))"

lemma pool_create_ok:
  assumes "env_ok env"
  shows "\<exists>a j h'. pool_create env c h = (Some \<lparr>p_addr = a, p_buffer = buf_zero (unat c), p_nitems = j\<rparr>, h')"
  using assms by (auto simp: env_ok_def pool_create_def Let_def split: option.split)

definition zero_buf :: "buf \<Rightarrow> bool" where
  "zero_buf b \<longleftrightarrow> (\<forall>x < buf_len b. buf_cells b x = 0)"

lemma zero_buf_zero [simp]: "zero_buf (buf_zero n)"
  by (simp add: zero_buf_def)

text \<open>An array with one pool and \<open>n\<close> items of zeros.\<close>

definition fresh_array :: "u32 \<Rightarrow> u32 \<Rightarrow> KXLDArray \<Rightarrow> bool" where
  "fresh_array isize n a \<longleftrightarrow> arr_ok a \<and> itemsize a = isize \<and> nitems a = n \<and> length (pools a) = 1 \<and>
     (\<forall>p \<in> set (pools a). zero_buf (p_buffer p))"

lemma fresh_contents:
  assumes "fresh_array isize n a"
  shows "contents a = replicate (unat n) (replicate (unat isize) 0)"
proof (rule nth_equalityI)
  fix i assume "i < length (contents a)"
  then have i: "i < unat (nitems a)" by simp
  have ok: "pools_ok a" "arr_ok a" using assms by (auto simp: fresh_array_def arr_ok_def)
  note p = item_place_ok [OF ok(1) arr_ok_max [OF ok(2) i]]
  have "zero_buf (p_buffer (pools a ! fst (item_place a i)))" using assms nth_mem [OF p(1)] by (simp add: fresh_array_def)
  then have "item_bytes a i = replicate (unat isize) 0"
    using p(2) assms by (intro nth_equalityI) (auto simp: item_bytes_def zero_buf_def fresh_array_def case_prod_beta Let_def)
  then show "contents a ! i = replicate (unat n) (replicate (unat isize) 0) ! i" using i assms by (simp add: fresh_array_def)
qed (use assms in \<open>simp add: fresh_array_def\<close>)

lemma page_sized:
  assumes "0 < unat isize" "0 < unat n" "unat isize * unat n + 4095 < 2 ^ 32"
  shows "unat (isize * n) = unat isize * unat n" "unat isize * unat n \<le> unat (round_page (isize * n))"
    "n \<le> round_page (isize * n) div isize"
proof -
  have lt: "unat isize * unat n < 2 ^ 32" using assms(3) by simp
  then show u: "unat (isize * n) = unat isize * unat n" by (simp add: unat_word_ariths)
  then have "isize * n = of_nat (unat isize * unat n)" by (simp flip: u)
  moreover have "(unat isize * unat n + 4095) div 4096 * 4096 < 2 ^ 32"
    using assms(3) div_mod_decomp [of "unat isize * unat n + 4095" 4096] by linarith
  ultimately show le: "unat isize * unat n \<le> unat (round_page (isize * n))"
    using round_page_nat [OF assms(3)] by (simp add: unat_of_nat del: of_nat_mult)
  have "unat n \<le> unat (round_page (isize * n)) div unat isize"
    using div_le_mono [OF le, of "unat isize"] assms(1) by simp
  then show "n \<le> round_page (isize * n) div isize" by (simp add: word_le_nat_alt unat_div_distrib)
qed

lemma array_init_fresh:
  assumes "env_ok env" "pools a = []" "npools a = 0" "0 < isize" "0 < n" "unat isize * unat n + 4095 < 2 ^ 32"
  shows "\<exists>a' h'. array_init env a isize n h = Some (KERN_SUCCESS, a', h') \<and> fresh_array isize n a' \<and>
    pool_capacity a' = round_page (isize * n)"
proof -
  let ?c = "round_page (isize * n)"
  obtain ad j h' where c: "pool_create env ?c h = (Some \<lparr>p_addr = ad, p_buffer = buf_zero (unat ?c), p_nitems = j\<rparr>, h')"
    using pool_create_ok [OF assms(1)] by blast
  have z: "0 < unat isize" "0 < unat n" using assms(4,5) by (simp_all add: word_less_nat_alt)
  note ps = page_sized [OF z assms(6)]
  let ?a = "a\<lparr>itemsize := isize, pool_capacity := ?c, pools := [\<lparr>p_addr = ad, p_buffer = buf_zero (unat ?c), p_nitems = n\<rparr>],
    pool_maxitems := ?c div isize, maxitems := ?c div isize, nitems := n, npools := 1\<rparr>"
  have "array_init env a isize n h = Some (KERN_SUCCESS, ?a, h')"
    using assms(2-4) c by (simp add: array_init_def Let_def)
  moreover have "fresh_array isize n ?a"
    using assms(4) ps(3) z(2) by (auto simp: fresh_array_def arr_ok_def pools_ok_def filled_def word_le_nat_alt word_less_nat_alt)
  ultimately show ?thesis by auto
qed

text \<open>An array that can be initialised again: without pools, or cleared with one pool.\<close>

definition blank_array :: "u32 \<Rightarrow> KXLDArray \<Rightarrow> bool" where
  "blank_array isize a \<longleftrightarrow> (pools a = [] \<and> npools a = 0 \<and> maxitems a = 0) \<or> fresh_array isize 0 a"

lemma blank_zero [simp]: "blank_array isize zero_array"
  by (simp add: blank_array_def zero_array_def)

lemma single_pool: "length (pools a) = 1 \<Longrightarrow> \<exists>p. pools a = [p]"
  by (cases "pools a") auto

text \<open>The three ways: a first pool, a larger pool in place of the old one, the old pool again.\<close>

lemma kxld_array_init_first:
  assumes "env_ok env" "pools a = []" "npools a = 0" "maxitems a = 0" "0 < isize" "0 < n"
    and "unat isize * unat n + 4095 < 2 ^ 32"
  shows "\<exists>a' h'. kxld_array_init env a isize n h = Some (KERN_SUCCESS, a', h') \<and> fresh_array isize n a'"
proof -
  obtain a' h' where i: "array_init env (a\<lparr>itemsize := isize\<rparr>) isize n h = Some (KERN_SUCCESS, a', h')" "fresh_array isize n a'"
    using array_init_fresh [OF assms(1) _ _ assms(5-7), of "a\<lparr>itemsize := isize\<rparr>" h] assms(2,3) by auto
  obtain p where p: "pools a' = [p]" using single_pool i(2) by (auto simp: fresh_array_def)
  then have "fresh_array isize n (a'\<lparr>pools := [p]\<rparr>)" using i(2) by (cases a') simp
  then show ?thesis using p assms i by (auto simp: kxld_array_init_def init_old_pools_def Let_def word_less_nat_alt)
qed

lemma copy_pools_zero:
  assumes "unat cap \<le> buf_len d" "zero_buf d" "zero_buf (p_buffer p)" "buf_len (p_buffer p) = unat cap"
  shows "\<exists>b. copy_pools cap d 0 [p] h = Some (b, pool_destroy p cap h) \<and> zero_buf b \<and> buf_len b = buf_len d"
  using buf_blit_Some [of 0 "map (buf_cells (p_buffer p)) [0..<unat cap]" d] assms
  by (auto simp: buf_bytes_def zero_buf_def)

lemma kxld_array_init_larger:
  assumes "env_ok env" "fresh_array isize 0 a" "0 < isize" "0 < n" "unat isize * unat n + 4095 < 2 ^ 32"
    and "pool_capacity a div isize < n"
  shows "\<exists>a' h'. kxld_array_init env a isize n h = Some (KERN_SUCCESS, a', h') \<and> fresh_array isize n a'"
proof -
  let ?cap = "pool_capacity a"
  obtain p where p: "pools a = [p]" using single_pool assms(2) by (auto simp: fresh_array_def)
  have ok: "npools a = 1" "zero_buf (p_buffer p)" "buf_len (p_buffer p) = unat ?cap"
    using assms(2) p by (auto simp: fresh_array_def arr_ok_def pools_ok_def word_unat_eq_iff)
  have z: "0 < unat isize" "0 < unat n" using assms(3,4) by (simp_all add: word_less_nat_alt)
  obtain a' h' where i: "array_init env (zero_array\<lparr>itemsize := isize\<rparr>) isize n h = Some (KERN_SUCCESS, a', h')"
    "fresh_array isize n a'" "pool_capacity a' = round_page (isize * n)"
    using array_init_fresh [OF assms(1) _ _ assms(3-5), of "zero_array\<lparr>itemsize := isize\<rparr>" h]
    by (auto simp: zero_array_def)
  obtain d where d: "pools a' = [d]" using single_pool i(2) by (auto simp: fresh_array_def)
  have "unat ?cap div unat isize < unat n" using assms(6) by (simp add: word_less_nat_alt unat_div_distrib)
  then have "unat ?cap < unat isize * unat n" using z(1) by (simp add: div_less_iff_less_mult mult.commute)
  then have le: "unat ?cap \<le> buf_len (p_buffer d)" "zero_buf (p_buffer d)"
    using page_sized(2) [OF z assms(5)] i(2,3) d by (auto simp: fresh_array_def arr_ok_def pools_ok_def)
  obtain b where b: "copy_pools ?cap (p_buffer d) 0 [p] h' = Some (b, pool_destroy p ?cap h')" "zero_buf b"
    "buf_len b = buf_len (p_buffer d)"
    using copy_pools_zero [OF le ok(2,3)] by blast
  have "fresh_array isize n (a'\<lparr>pools := [d\<lparr>p_buffer := b\<rparr>]\<rparr>)"
    using i(2) d b(2,3) by (auto simp: fresh_array_def arr_ok_def pools_ok_def filled_def)
  moreover have "init_old_pools a isize n = (KERN_SUCCESS, zero_array, [p], ?cap, n)"
    using ok(1) p assms(6) by (simp add: init_old_pools_def Let_def)
  moreover have "maxitems (zero_array\<lparr>itemsize := isize\<rparr>) = 0" by (simp add: zero_array_def)
  ultimately show ?thesis
    using assms(3,4) i(1) d b(1) by (auto simp: kxld_array_init_def Let_def word_less_nat_alt simp del: copy_pools.simps)
qed

lemma kxld_array_init_again:
  assumes "fresh_array isize 0 a" "0 < isize" "0 < n" "\<not> pool_capacity a div isize < n"
  shows "\<exists>a' h'. kxld_array_init env a isize n h = Some (KERN_SUCCESS, a', h') \<and> fresh_array isize n a'"
proof -
  let ?cap = "pool_capacity a"
  obtain p where p: "pools a = [p]" using single_pool assms(1) by (auto simp: fresh_array_def)
  then have "npools a = 1" using assms(1) by (auto simp: fresh_array_def arr_ok_def pools_ok_def word_unat_eq_iff)
  let ?a = "a\<lparr>pool_maxitems := ?cap div isize, maxitems := ?cap div isize, pools := [p\<lparr>p_nitems := n\<rparr>], nitems := n\<rparr>"
  have "init_old_pools a isize n = (KERN_SUCCESS, ?a, [], 0, 0)"
    using \<open>npools a = 1\<close> p assms(4) by (simp add: init_old_pools_def reinit_pools_def Let_def not_less)
  moreover have "?cap div isize \<noteq> 0" using assms(3,4) by auto
  moreover have "fresh_array isize n (?a\<lparr>itemsize := isize\<rparr>)"
    using assms(1,4) p by (auto simp: fresh_array_def arr_ok_def pools_ok_def filled_def word_le_nat_alt word_less_nat_alt)
  ultimately show ?thesis using assms(2,3) by (auto simp: kxld_array_init_def Let_def word_less_nat_alt)
qed

lemma kxld_array_init_blank:
  assumes "env_ok env" "blank_array isize a" "0 < isize" "0 < n" "unat isize * unat n + 4095 < 2 ^ 32"
  shows "\<exists>a' h'. kxld_array_init env a isize n h = Some (KERN_SUCCESS, a', h') \<and> fresh_array isize n a'"
  using assms kxld_array_init_first kxld_array_init_larger kxld_array_init_again unfolding blank_array_def by metis

lemma kxld_array_clear_single:
  assumes "arr_ok a" "length (pools a) = 1"
  shows "\<exists>a'. kxld_array_clear a = Some a' \<and> fresh_array (itemsize a) 0 a'"
proof -
  obtain p where p: "pools a = [p]" using single_pool [OF assms(2)] by blast
  have "buf_len (p_buffer p) = unat (pool_capacity a)" using assms(1) p by (simp add: arr_ok_def pools_ok_def)
  then have "buf_bzero (p_buffer p) 0 (unat (pool_capacity a)) = Some (Buf (unat (pool_capacity a))
      (\<lambda>k. if k < unat (pool_capacity a) then replicate (unat (pool_capacity a)) 0 ! k else buf_cells (p_buffer p) k))"
    using buf_blit_Some [of 0 "replicate (unat (pool_capacity a)) 0" "p_buffer p"] by (simp add: buf_bzero_def cong: if_cong)
  then show ?thesis
    using assms(1) p by (auto simp: kxld_array_clear_def kxld_array_reset_def fresh_array_def arr_ok_def pools_ok_def
        filled_def zero_buf_def)
qed

end
