(* ===== verification/Kxld_Dict.thy ===== *)
theory Kxld_Dict
  imports Kxld_Array Flat_Mem
begin

text \<open>
  The dictionaries of the kext linker, \<open>Kernel/libkern/kxld/kxld_dict.c\<close>: hash tables with linear probing over an
  array of buckets. A bucket is the 12-byte structure of the 32-bit kernel (key pointer, value pointer,
  state). The hash and comparison functions are fields of the dictionary; they are given the
  number of buckets and the key pointers, and \<open>None\<close> means that they do not return.
\<close>

section \<open>Data\<close>

abbreviation (input) EMPTY :: u32 where "EMPTY \<equiv> 0"
abbreviation (input) USED :: u32 where "USED \<equiv> 1"
abbreviation (input) DELETED :: u32 where "DELETED \<equiv> 2"

record DictEntry =
  de_key :: u32
  de_value :: u32
  de_state :: u32

record KXLDDict =
  buckets :: KXLDArray
  resize_buckets :: KXLDArray
  dict_hash :: "u32 \<Rightarrow> u32 \<Rightarrow> u32 option"
  dict_cmp :: "u32 \<Rightarrow> u32 \<Rightarrow> bool option"
  num_entries :: u32
  resize_threshold :: u32

definition RESIZE_THRESHOLD :: "u32 \<Rightarrow> u32" where
  "RESIZE_THRESHOLD x = x * 7 div 10"

definition MIN_BUCKETS :: "u32 \<Rightarrow> u32" where
  "MIN_BUCKETS x = x * 10 div 7"

abbreviation (input) DEFAULT_DICT_SIZE :: u32 where "DEFAULT_DICT_SIZE \<equiv> 89"

section \<open>Buckets\<close>

definition word_bytes :: "u32 \<Rightarrow> u8 list" where
  "word_bytes w = [byte_of 0 w, byte_of 1 w, byte_of 2 w, byte_of 3 w]"

definition bytes_word :: "u8 list \<Rightarrow> u32" where
  "bytes_word bs = le32 (bs ! 0) (bs ! 1) (bs ! 2) (bs ! 3)"

abbreviation (input) entry_size :: u32 where "entry_size \<equiv> 12"

definition entry_bytes :: "DictEntry \<Rightarrow> u8 list" where
  "entry_bytes e = word_bytes (de_key e) @ word_bytes (de_value e) @ word_bytes (de_state e)"

definition bytes_entry :: "u8 list \<Rightarrow> DictEntry" where
  "bytes_entry bs =
     \<lparr>de_key = bytes_word (take 4 bs), de_value = bytes_word (take 4 (drop 4 bs)), de_state = bytes_word (drop 8 bs)\<rparr>"

text \<open>The structure at an index of the array, and storing it; a null item pointer is \<open>None\<close>.\<close>

definition get_entry :: "KXLDArray \<Rightarrow> u32 \<Rightarrow> DictEntry option" where
  "get_entry array idx = do {
     p \<leftarrow> kxld_array_get_item array idx;
     bs \<leftarrow> item_get array p 0 12;
     Some (bytes_entry bs)
   }"

definition put_entry :: "KXLDArray \<Rightarrow> u32 \<Rightarrow> DictEntry \<Rightarrow> KXLDArray option" where
  "put_entry array idx e = do {
     p \<leftarrow> kxld_array_get_item array idx;
     item_put array p 0 (entry_bytes e)
   }"

section \<open>Creating and clearing\<close>

partial_function (option) size_loop :: "u32 \<Rightarrow> u32 \<Rightarrow> u32 option" where
  "size_loop min_buckets num_buckets =
     (if min_buckets > num_buckets then size_loop min_buckets (num_buckets * 2 + 1) else Some num_buckets)"

definition kxld_dict_init ::
  "kxld_env \<Rightarrow> KXLDDict \<Rightarrow> (u32 \<Rightarrow> u32 \<Rightarrow> u32 option) \<Rightarrow> (u32 \<Rightarrow> u32 \<Rightarrow> bool option) \<Rightarrow> u32 \<Rightarrow> kxld_heap \<Rightarrow>
    (kern_return_t \<times> KXLDDict \<times> kxld_heap) option" where
  "kxld_dict_init env dict hash cmp n h = do {
     num_buckets \<leftarrow> size_loop (MIN_BUCKETS n) DEFAULT_DICT_SIZE;
     (rv, a, h1) \<leftarrow> kxld_array_init env (buckets dict) entry_size num_buckets h;
     Some (if rv \<noteq> KERN_SUCCESS then (rv, dict\<lparr>buckets := a\<rparr>, h1)
       else (KERN_SUCCESS, dict\<lparr>buckets := a, dict_hash := hash, dict_cmp := cmp, num_entries := 0,
         resize_threshold := RESIZE_THRESHOLD num_buckets\<rparr>, h1))
   }"

text \<open>Clearing leaves null function pointers; calling them does not return.\<close>

definition kxld_dict_clear :: "KXLDDict \<Rightarrow> KXLDDict option" where
  "kxld_dict_clear dict = do {
     a \<leftarrow> kxld_array_clear (buckets dict);
     r \<leftarrow> kxld_array_clear (resize_buckets dict);
     Some \<lparr>buckets = a, resize_buckets = r, dict_hash = (\<lambda>_ _. None), dict_cmp = (\<lambda>_ _. None), num_entries = 0,
       resize_threshold = 0\<rparr>
   }"

definition kxld_dict_deinit :: "KXLDDict \<Rightarrow> kxld_heap \<Rightarrow> KXLDDict \<times> kxld_heap" where
  "kxld_dict_deinit dict h =
     (let (a, h1) = kxld_array_deinit (buckets dict) h; (r, h2) = kxld_array_deinit (resize_buckets dict) h1
      in (dict\<lparr>buckets := a, resize_buckets := r\<rparr>, h2))"

definition kxld_dict_get_num_entries :: "KXLDDict \<Rightarrow> u32" where
  "kxld_dict_get_num_entries dict = num_entries dict"

section \<open>Finding\<close>

text \<open>The inner option is the result: \<open>None\<close> is \<open>KERN_FAILURE\<close>.\<close>

partial_function (option) locate_loop :: "KXLDDict \<Rightarrow> u32 \<Rightarrow> u32 \<Rightarrow> u32 \<Rightarrow> u32 option option" where
  "locate_loop dict key base idx = do {
     entry \<leftarrow> get_entry (buckets dict) idx;
     eq \<leftarrow> dict_cmp dict (de_key entry) key;
     if eq then Some (Some idx)
     else if de_state entry = EMPTY then Some None
     else if (idx + 1) mod nitems (buckets dict) = base then Some None
     else locate_loop dict key base ((idx + 1) mod nitems (buckets dict))
   }"

definition get_locate_index :: "KXLDDict \<Rightarrow> u32 \<Rightarrow> u32 option option" where
  "get_locate_index dict key = do {
     base \<leftarrow> dict_hash dict (nitems (buckets dict)) key;
     locate_loop dict key base base
   }"

text \<open>A null value pointer is the answer for an absent key.\<close>

definition kxld_dict_find :: "KXLDDict \<Rightarrow> u32 \<Rightarrow> u32 option" where
  "kxld_dict_find dict key = do {
     r \<leftarrow> get_locate_index dict key;
     case r of
       None \<Rightarrow> Some 0
     | Some idx \<Rightarrow> map_option de_value (get_entry (buckets dict) idx)
   }"

section \<open>Inserting and removing\<close>

partial_function (option) insert_loop :: "KXLDDict \<Rightarrow> u32 \<Rightarrow> u32 \<Rightarrow> u32 \<Rightarrow> u32 option option" where
  "insert_loop dict key base idx = do {
     entry \<leftarrow> get_entry (buckets dict) idx;
     eq \<leftarrow> (if de_state entry = USED then dict_cmp dict (de_key entry) key else Some True);
     if eq then Some (Some idx)
     else if base = (idx + 1) mod nitems (buckets dict) then Some None
     else insert_loop dict key base ((idx + 1) mod nitems (buckets dict))
   }"

definition get_insert_index :: "KXLDDict \<Rightarrow> u32 \<Rightarrow> u32 option option" where
  "get_insert_index dict key = do {
     base \<leftarrow> dict_hash dict (nitems (buckets dict)) key;
     insert_loop dict key base base
   }"

text \<open>The part of \<open>kxld_dict_insert\<close> behind the resizing.\<close>

definition insert_entry :: "KXLDDict \<Rightarrow> u32 \<Rightarrow> u32 \<Rightarrow> (kern_return_t \<times> KXLDDict) option" where
  "insert_entry dict key value = do {
     r \<leftarrow> get_insert_index dict key;
     case r of
       None \<Rightarrow> Some (KERN_FAILURE, dict)
     | Some idx \<Rightarrow> do {
         entry \<leftarrow> get_entry (buckets dict) idx;
         let d1 = (if de_state entry \<noteq> USED then dict\<lparr>num_entries := num_entries dict + 1\<rparr> else dict);
         let e1 = (if de_state entry \<noteq> USED then entry\<lparr>de_key := key, de_state := USED\<rparr> else entry);
         a \<leftarrow> put_entry (buckets dict) idx (e1\<lparr>de_value := value\<rparr>);
         Some (KERN_SUCCESS, d1\<lparr>buckets := a\<rparr>)
       }
   }"

text \<open>
  \<open>kxld_dict_insert\<close> and \<open>resize_dict\<close> call each other. They are one recursive function here, with the loop
  that rehashes the old buckets as a third case.
\<close>

datatype dict_call = Insert u32 u32 | Resize | Rehash u32

partial_function (option) dict_run ::
  "kxld_env \<Rightarrow> dict_call \<Rightarrow> KXLDDict \<Rightarrow> kxld_heap \<Rightarrow> (kern_return_t \<times> KXLDDict \<times> kxld_heap) option" where
  "dict_run env call dict h =
     (case call of
        Insert key value \<Rightarrow>
          if num_entries dict > resize_threshold dict
          then do {
            (rv, d1, h1) \<leftarrow> dict_run env Resize dict h;
            if rv \<noteq> KERN_SUCCESS then Some (rv, d1, h1) else dict_run env (Insert key value) d1 h1
          }
          else do {
            (rv, d1) \<leftarrow> insert_entry dict key value;
            Some (rv, d1, h)
          }
      | Resize \<Rightarrow> do {
          (rv, a, h1) \<leftarrow> kxld_array_init env (resize_buckets dict) entry_size (nitems (buckets dict) * 2 + 1) h;
          if rv \<noteq> KERN_SUCCESS then Some (rv, dict\<lparr>resize_buckets := a\<rparr>, h1)
          else
            dict_run env (Rehash 0)
              (dict\<lparr>buckets := a, resize_buckets := buckets dict, num_entries := 0,
                 resize_threshold := RESIZE_THRESHOLD (nitems a)\<rparr>) h1
        }
      | Rehash i \<Rightarrow>
          if i < nitems (resize_buckets dict)
          then do {
            entry \<leftarrow> get_entry (resize_buckets dict) i;
            if de_state entry = USED
            then do {
              (rv, d1, h1) \<leftarrow> dict_run env (Insert (de_key entry) (de_value entry)) dict h;
              if rv \<noteq> KERN_SUCCESS then Some (rv, d1, h1) else dict_run env (Rehash (i + 1)) d1 h1
            }
            else dict_run env (Rehash (i + 1)) dict h
          }
          else do {
            a \<leftarrow> kxld_array_clear (resize_buckets dict);
            Some (KERN_SUCCESS, dict\<lparr>resize_buckets := a\<rparr>, h)
          })"

definition kxld_dict_insert ::
  "kxld_env \<Rightarrow> KXLDDict \<Rightarrow> u32 \<Rightarrow> u32 \<Rightarrow> kxld_heap \<Rightarrow> (kern_return_t \<times> KXLDDict \<times> kxld_heap) option" where
  "kxld_dict_insert env dict key value h = dict_run env (Insert key value) dict h"

definition resize_dict :: "kxld_env \<Rightarrow> KXLDDict \<Rightarrow> kxld_heap \<Rightarrow> (kern_return_t \<times> KXLDDict \<times> kxld_heap) option" where
  "resize_dict env dict h = dict_run env Resize dict h"

text \<open>Removing returns the value that the key had, or a null pointer.\<close>

definition kxld_dict_remove :: "KXLDDict \<Rightarrow> u32 \<Rightarrow> (u32 \<times> KXLDDict) option" where
  "kxld_dict_remove dict key = do {
     r \<leftarrow> get_locate_index dict key;
     case r of
       None \<Rightarrow> Some (0, dict)
     | Some idx \<Rightarrow> do {
         entry \<leftarrow> get_entry (buckets dict) idx;
         a \<leftarrow> put_entry (buckets dict) idx \<lparr>de_key = 0, de_value = 0, de_state = DELETED\<rparr>;
         Some (de_value entry, dict\<lparr>buckets := a, num_entries := num_entries dict - 1\<rparr>)
       }
   }"

section \<open>Iterating\<close>

text \<open>The iterator is its index; a step returns the new index, the key and the value.\<close>

partial_function (option) next_loop :: "KXLDDict \<Rightarrow> u32 \<Rightarrow> (u32 \<times> u32 \<times> u32) option" where
  "next_loop dict idx =
     (if idx < nitems (buckets dict)
      then do {
        entry \<leftarrow> get_entry (buckets dict) idx;
        if de_state entry = USED then Some (idx + 1, de_key entry, de_value entry) else next_loop dict (idx + 1)
      }
      else Some (idx, 0, 0))"

definition kxld_dict_iterator_init :: u32 where
  "kxld_dict_iterator_init = 0"

definition kxld_dict_iterator_get_next :: "KXLDDict \<Rightarrow> u32 \<Rightarrow> (u32 \<times> u32 \<times> u32) option" where
  "kxld_dict_iterator_get_next dict idx = next_loop dict idx"

definition kxld_dict_iterator_reset :: u32 where
  "kxld_dict_iterator_reset = 0"

section \<open>Hash and comparison functions\<close>

text \<open>Strings and numbers are read from the memory of the kernel; \<open>char\<close> is signed.\<close>

partial_function (option) string_hash_loop :: "mem \<Rightarrow> u32 \<Rightarrow> u32 \<Rightarrow> u32 option" where
  "string_hash_loop m key hash_val =
     (if m key = 0 then Some hash_val
      else string_hash_loop m (key + 1) ((push_bit 5 hash_val + hash_val) XOR scast (m key)))"

definition kxld_dict_string_hash :: "mem \<Rightarrow> u32 \<Rightarrow> u32 \<Rightarrow> u32 option" where
  "kxld_dict_string_hash m n key = map_option (\<lambda>v. v mod n) (string_hash_loop m key 5381)"

definition kxld_dict_uint32_hash :: "mem \<Rightarrow> u32 \<Rightarrow> u32 \<Rightarrow> u32 option" where
  "kxld_dict_uint32_hash m n key = Some (ld32 m key mod n)"

text \<open>\<open>kxld_addr_t\<close> is \<open>uint32_t\<close> in the 32-bit kernel.\<close>

definition kxld_dict_kxldaddr_hash :: "mem \<Rightarrow> u32 \<Rightarrow> u32 \<Rightarrow> u32 option" where
  "kxld_dict_kxldaddr_hash m n key = Some (ld32 m key mod n)"

text \<open>\<open>streq\<close>: null pointers are equal to nothing.\<close>

partial_function (option) strcmp_loop :: "mem \<Rightarrow> u32 \<Rightarrow> u32 \<Rightarrow> bool option" where
  "strcmp_loop m a b =
     (if m a \<noteq> m b then Some False else if m a = 0 then Some True else strcmp_loop m (a + 1) (b + 1))"

definition kxld_dict_string_cmp :: "mem \<Rightarrow> u32 \<Rightarrow> u32 \<Rightarrow> bool option" where
  "kxld_dict_string_cmp m a b = (if a \<noteq> 0 \<and> b \<noteq> 0 then strcmp_loop m a b else Some False)"

definition kxld_dict_uint32_cmp :: "mem \<Rightarrow> u32 \<Rightarrow> u32 \<Rightarrow> bool option" where
  "kxld_dict_uint32_cmp m a b = Some (a \<noteq> 0 \<and> b \<noteq> 0 \<and> ld32 m a = ld32 m b)"

definition kxld_dict_kxldaddr_cmp :: "mem \<Rightarrow> u32 \<Rightarrow> u32 \<Rightarrow> bool option" where
  "kxld_dict_kxldaddr_cmp m a b = Some (a \<noteq> 0 \<and> b \<noteq> 0 \<and> ld32 m a = ld32 m b)"

end
