(* ===== verification/Kxld_Table.thy ===== *)
theory Kxld_Table
  imports Kxld_Items Kxld_Dict
begin

text \<open>
  The dictionary of the kext linker as a map. \<open>table_ok\<close> is the invariant of a probing hash table, \<open>table_map\<close>
  the map it stands for. The locale \<open>dict_keys\<close> is what the dictionary needs from its hash and comparison
  functions; the lemmas inside it hold for every such pair, and the interpretations at the end give
  them for the three kinds of keys of the source.
\<close>

section \<open>Buckets as a list\<close>

lemma length_word_bytes [simp]: "length (word_bytes w) = 4"
  by (simp add: word_bytes_def)

lemma bytes_word_bytes [simp]: "bytes_word (word_bytes w) = w"
  by (simp add: word_bytes_def bytes_word_def)

lemma length_entry_bytes [simp]: "length (entry_bytes e) = 12"
  by (simp add: entry_bytes_def)

lemma bytes_entry_bytes [simp]: "bytes_entry (entry_bytes e) = e"
  by (simp add: entry_bytes_def bytes_entry_def)

definition entries :: "KXLDArray \<Rightarrow> DictEntry list" where
  "entries a = map bytes_entry (contents a)"

lemma length_entries [simp]: "length (entries a) = unat (nitems a)"
  by (simp add: entries_def)

definition bucket_array :: "KXLDArray \<Rightarrow> bool" where
  "bucket_array a \<longleftrightarrow> arr_ok a \<and> itemsize a = entry_size \<and> length (pools a) = 1 \<and> 0 < nitems a"

lemma bucket_array_pos: "bucket_array a \<Longrightarrow> 0 < unat (nitems a)"
  by (simp add: bucket_array_def word_less_nat_alt)

lemma get_entry_ok:
  assumes "bucket_array a" "i < nitems a"
  shows "get_entry a i = Some (entries a ! unat i)"
proof -
  have a: "arr_ok a" "itemsize a = 12" and i: "unat i < unat (nitems a)"
    using assms by (simp_all add: bucket_array_def word_less_nat_alt)
  have "item_get a (item_place a (unat i)) 0 12 = Some (contents a ! unat i)"
    using item_get_ok [OF a(1) i, of 0 12] a(2) i by simp
  then show ?thesis using get_item_ok [OF a(1) assms(2)] i by (simp add: get_entry_def entries_def)
qed

lemma put_entry_ok:
  assumes "bucket_array a" "i < nitems a"
  shows "\<exists>a'. put_entry a i e = Some a' \<and> bucket_array a' \<and> nitems a' = nitems a \<and> entries a' = (entries a)[unat i := e]"
proof -
  have a: "arr_ok a" "itemsize a = 12" and i: "unat i < unat (nitems a)"
    using assms by (simp_all add: bucket_array_def word_less_nat_alt)
  obtain a' where a': "item_put a (item_place a (unat i)) 0 (entry_bytes e) = Some a'" "arr_ok a'" "nitems a' = nitems a"
    "itemsize a' = itemsize a" "length (pools a') = length (pools a)" "contents a' = (contents a)[unat i := entry_bytes e]"
    using item_put_ok [OF a(1) i, of 0 "entry_bytes e"] a(2) i by auto
  then show ?thesis
    using get_item_ok [OF a(1) assms(2)] assms(1)
    by (auto simp: put_entry_def entries_def map_update bucket_array_def)
qed

section \<open>Probing\<close>

text \<open>The walk along the buckets, started at the home bucket: stop at a match, or without one.\<close>

fun walk :: "('a \<Rightarrow> bool) \<Rightarrow> ('a \<Rightarrow> bool) \<Rightarrow> 'a list \<Rightarrow> nat \<Rightarrow> nat option" where
  "walk M S [] j = None"
| "walk M S (x # xs) j = (if M x then Some j else if S x then None else walk M S xs (j + 1))"

lemma walk_first:
  "i < length xs \<Longrightarrow> M (xs ! i) \<Longrightarrow> (\<And>k. k < i \<Longrightarrow> \<not> M (xs ! k) \<and> \<not> S (xs ! k)) \<Longrightarrow> walk M S xs j = Some (j + i)"
proof (induction xs arbitrary: i j)
  case (Cons x xs)
  show ?case
  proof (cases i)
    case (Suc i')
    have "\<not> M (xs ! k) \<and> \<not> S (xs ! k)" if "k < i'" for k using Cons.prems(3) [of "Suc k"] that Suc by simp
    then have "walk M S xs (j + 1) = Some (j + 1 + i')" using Cons.prems(1,2) Suc by (intro Cons.IH) simp_all
    then show ?thesis using Cons.prems(3) [of 0] Suc by simp
  qed (use Cons.prems in simp)
qed simp

lemma walk_SomeD:
  "walk M S xs j = Some r \<Longrightarrow> \<exists>i < length xs. r = j + i \<and> M (xs ! i) \<and> (\<forall>k < i. \<not> M (xs ! k))"
proof (induction xs arbitrary: j)
  case (Cons x xs)
  show ?case
  proof (cases "M x")
    case True
    then show ?thesis using Cons.prems by (intro exI [of _ 0]) simp
  next
    case False
    then obtain i where i: "i < length xs" "r = j + 1 + i" "M (xs ! i)" "\<forall>k < i. \<not> M (xs ! k)"
      using Cons.IH [of "j + 1"] Cons.prems by (auto split: if_splits)
    then show ?thesis using False by (intro exI [of _ "Suc i"]) (auto simp: nth_Cons' less_Suc_eq_0_disj)
  qed
qed simp

lemma walk_none: "(\<And>x. x \<in> set xs \<Longrightarrow> \<not> M x) \<Longrightarrow> walk M S xs j = None"
  by (induction xs arbitrary: j) simp_all

lemma next_index:
  assumes "x < unat (n :: u32)" "(0 :: u32) < n"
  shows "(of_nat x + 1) mod n = of_nat ((x + 1) mod unat n)"
proof -
  have x: "unat (of_nat x :: u32) = x" using assms(1) unat_u32 [of n] by (simp add: unat_of_nat)
  then have "unat (of_nat x + 1 :: u32) = x + 1"
    using unat_plus_1 [of "of_nat x" n] assms(1) by (simp add: word_less_nat_alt)
  then have "unat ((of_nat x + 1) mod n) = (x + 1) mod unat n" by (simp add: unat_mod_distrib)
  then have "of_nat (unat ((of_nat x + 1) mod n)) = (of_nat ((x + 1) mod unat n) :: u32)" by simp
  then show ?thesis by simp
qed

lemma wrap_around:
  assumes "b < n" "j < (n :: nat)"
  shows "(b + j + 1) mod n = b \<longleftrightarrow> j + 1 = n"
proof
  assume eq: "(b + j + 1) mod n = b"
  then have "(b + (j + 1)) mod n = (b + 0) mod n" using assms(1) by (simp add: add.assoc)
  then have "n dvd j + 1" using mod_eq_dvd_iff_nat [of b "b + (j + 1)" n] by simp
  then show "j + 1 = n" using assms(2) by (auto dest: dvd_imp_le)
next
  assume "j + 1 = n"
  then have "b + j + 1 = b + n" by simp
  then show "(b + j + 1) mod n = b" using assms(1) by (simp only: mod_add_self2 mod_less)
qed

section \<open>The loops as walks\<close>

lemma drop_rotate:
  assumes "b < length es" "j < length es"
  shows "drop j (rotate b es) = es ! ((b + j) mod length es) # drop (j + 1) (rotate b es)"
  using Cons_nth_drop_Suc [of j "rotate b es"] assms by (simp add: nth_rotate)

lemma get_entry_at:
  assumes "bucket_array a" "x < unat (nitems a)"
  shows "get_entry a (of_nat x) = Some (entries a ! x)"
proof -
  have "unat (of_nat x :: u32) = x" using assms(2) unat_u32 [of "nitems a"] by (simp add: unat_of_nat)
  then show ?thesis using get_entry_ok [OF assms(1), of "of_nat x"] assms(2) by (simp add: word_less_nat_alt)
qed

text \<open>One step along the buckets: the entry, the next index, and when it is the home bucket again.\<close>

lemma probe_step:
  fixes base :: u32
  assumes "bucket_array a" "unat base = b" "b < unat (nitems a)" "j < unat (nitems a)"
  shows "get_entry a (of_nat ((b + j) mod unat (nitems a))) = Some (entries a ! ((b + j) mod unat (nitems a)))"
    "(of_nat ((b + j) mod unat (nitems a)) + 1) mod nitems a = of_nat ((b + (j + 1)) mod unat (nitems a))"
    "of_nat ((b + (j + 1)) mod unat (nitems a)) = base \<longleftrightarrow> j + 1 = unat (nitems a)"
proof -
  let ?n = "unat (nitems a)" and ?x = "(b + j) mod unat (nitems a)"
  have n: "0 < ?n" "0 < nitems a" using bucket_array_pos [OF assms(1)] by (simp_all add: word_less_nat_alt)
  show "get_entry a (of_nat ?x) = Some (entries a ! ?x)" using n by (intro get_entry_at assms(1)) simp
  show "(of_nat ?x + 1) mod nitems a = of_nat ((b + (j + 1)) mod ?n)"
    using next_index [of ?x "nitems a"] n by (simp add: mod_Suc_eq)
  have "(b + (j + 1)) mod ?n < 2 ^ 32" using n(1) unat_u32 [of "nitems a"] by (meson mod_less_divisor less_trans)
  then have "unat (of_nat ((b + (j + 1)) mod ?n) :: u32) = (b + (j + 1)) mod ?n" by (simp add: unat_of_nat)
  then show "of_nat ((b + (j + 1)) mod ?n) = base \<longleftrightarrow> j + 1 = ?n"
    using wrap_around [OF assms(3,4)] assms(2) by (simp add: word_unat_eq_iff add.assoc)
qed

lemma locate_loop_walk:
  assumes "bucket_array (buckets d)" "unat base = b" "b < unat (nitems (buckets d))" "j < unat (nitems (buckets d))"
    and "\<And>e. e \<in> set (entries (buckets d)) \<Longrightarrow> dict_cmp d (de_key e) key = Some (M e)"
  shows "locate_loop d key base (of_nat ((b + j) mod unat (nitems (buckets d)))) =
    Some (map_option (\<lambda>i. of_nat ((b + i) mod unat (nitems (buckets d))))
      (walk M (\<lambda>e. de_state e = EMPTY) (drop j (rotate b (entries (buckets d)))) j))"
  using assms(4)
proof (induction "unat (nitems (buckets d)) - j" arbitrary: j rule: less_induct)
  case less
  let ?n = "unat (nitems (buckets d))" and ?es = "entries (buckets d)"
  note st = probe_step [OF assms(1-3) less.prems]
  have c: "dict_cmp d (de_key (?es ! ((b + j) mod ?n))) key = Some (M (?es ! ((b + j) mod ?n)))"
    using bucket_array_pos [OF assms(1)] by (intro assms(5) nth_mem) simp
  have d: "drop j (rotate b ?es) = ?es ! ((b + j) mod ?n) # drop (j + 1) (rotate b ?es)"
    using drop_rotate [of b ?es j] assms(3) less.prems by simp
  show ?case
  proof (cases "j + 1 = ?n")
    case True
    then show ?thesis using st(3) by (subst locate_loop.simps) (simp add: st(1,2) c d del: of_nat_mod)
  next
    case False
    then show ?thesis
      using less.hyps [of "j + 1"] less.prems st(3)
      by (subst locate_loop.simps) (simp add: st(1,2) c d)
  qed
qed

lemma insert_loop_walk:
  assumes "bucket_array (buckets d)" "unat base = b" "b < unat (nitems (buckets d))" "j < unat (nitems (buckets d))"
    and "\<And>e. e \<in> set (entries (buckets d)) \<Longrightarrow> de_state e = USED \<Longrightarrow> dict_cmp d (de_key e) key = Some (M e)"
  shows "insert_loop d key base (of_nat ((b + j) mod unat (nitems (buckets d)))) =
    Some (map_option (\<lambda>i. of_nat ((b + i) mod unat (nitems (buckets d))))
      (walk (\<lambda>e. de_state e = USED \<longrightarrow> M e) (\<lambda>_. False) (drop j (rotate b (entries (buckets d)))) j))"
  using assms(4)
proof (induction "unat (nitems (buckets d)) - j" arbitrary: j rule: less_induct)
  case less
  let ?n = "unat (nitems (buckets d))" and ?es = "entries (buckets d)"
  note st = probe_step [OF assms(1-3) less.prems]
  have c: "(if de_state (?es ! ((b + j) mod ?n)) = USED then dict_cmp d (de_key (?es ! ((b + j) mod ?n))) key else Some True) =
      Some (de_state (?es ! ((b + j) mod ?n)) = USED \<longrightarrow> M (?es ! ((b + j) mod ?n)))"
    using assms(5) [of "?es ! ((b + j) mod ?n)"] bucket_array_pos [OF assms(1)] by simp
  have d: "drop j (rotate b ?es) = ?es ! ((b + j) mod ?n) # drop (j + 1) (rotate b ?es)"
    using drop_rotate [of b ?es j] assms(3) less.prems by simp
  show ?case
  proof (cases "j + 1 = ?n")
    case True
    then show ?thesis
      using st(3) by (subst insert_loop.simps) (simp add: st(1,2) c d eq_commute [of base] del: of_nat_mod)
  next
    case False
    then show ?thesis
      using less.hyps [of "j + 1"] less.prems st(3)
      by (subst insert_loop.simps) (simp add: st(1,2) c d eq_commute [of base])
  qed
qed

section \<open>The invariant of a table and the map it stands for\<close>

definition used :: "DictEntry \<Rightarrow> bool" where
  "used e \<longleftrightarrow> de_state e = USED"

definition slot_ok :: "(u32 \<Rightarrow> bool) \<Rightarrow> DictEntry \<Rightarrow> bool" where
  "slot_ok valid e \<longleftrightarrow> (if used e then valid (de_key e) else de_key e = 0 \<and> (de_state e = EMPTY \<or> de_state e = DELETED))"

definition home :: "(u32 \<Rightarrow> u32 \<Rightarrow> u32 option) \<Rightarrow> nat \<Rightarrow> u32 \<Rightarrow> nat" where
  "home hash n k = (case hash (of_nat n) k of None \<Rightarrow> 0 | Some i \<Rightarrow> unat i)"

text \<open>
  Every bucket is well-formed, keys are unique, and no bucket between the home of a key and its
  bucket is empty.
\<close>

definition table_ok :: "(u32 \<Rightarrow> u32 \<Rightarrow> u32 option) \<Rightarrow> (u32 \<Rightarrow> bool) \<Rightarrow> (u32 \<Rightarrow> 'k) \<Rightarrow> DictEntry list \<Rightarrow> bool" where
  "table_ok hash valid content es \<longleftrightarrow>
     (\<forall>e \<in> set es. slot_ok valid e) \<and>
     (\<forall>i < length es. \<forall>j < length es. used (es ! i) \<longrightarrow> used (es ! j) \<longrightarrow>
        content (de_key (es ! i)) = content (de_key (es ! j)) \<longrightarrow> i = j) \<and>
     (\<forall>i < length es. used (es ! i) \<longrightarrow>
        (\<forall>j < length es. i = (home hash (length es) (de_key (es ! i)) + j) mod length es \<longrightarrow>
          (\<forall>j' < j. de_state (es ! ((home hash (length es) (de_key (es ! i)) + j') mod length es)) \<noteq> EMPTY)))"

definition table_map :: "(u32 \<Rightarrow> 'k) \<Rightarrow> DictEntry list \<Rightarrow> 'k \<Rightarrow> u32 option" where
  "table_map content es c = map_option de_value (find (\<lambda>e. used e \<and> content (de_key e) = c) es)"

lemma table_ok_slot: "table_ok hash valid content es \<Longrightarrow> i < length es \<Longrightarrow> slot_ok valid (es ! i)"
  by (simp add: table_ok_def)

lemma table_ok_unique:
  "table_ok hash valid content es \<Longrightarrow> i < length es \<Longrightarrow> j < length es \<Longrightarrow> used (es ! i) \<Longrightarrow> used (es ! j) \<Longrightarrow>
    content (de_key (es ! i)) = content (de_key (es ! j)) \<Longrightarrow> i = j"
  unfolding table_ok_def by blast

lemma table_ok_probe:
  "table_ok hash valid content es \<Longrightarrow> i < length es \<Longrightarrow> used (es ! i) \<Longrightarrow> j < length es \<Longrightarrow>
    i = (home hash (length es) (de_key (es ! i)) + j) mod length es \<Longrightarrow> j' < j \<Longrightarrow>
    de_state (es ! ((home hash (length es) (de_key (es ! i)) + j') mod length es)) \<noteq> EMPTY"
  unfolding table_ok_def by blast

lemma table_map_iff:
  assumes "table_ok hash valid content es"
  shows "table_map content es c = Some v \<longleftrightarrow>
    (\<exists>i < length es. used (es ! i) \<and> content (de_key (es ! i)) = c \<and> de_value (es ! i) = v)"
proof
  assume "table_map content es c = Some v"
  then show "\<exists>i < length es. used (es ! i) \<and> content (de_key (es ! i)) = c \<and> de_value (es ! i) = v"
    by (auto simp: table_map_def find_Some_iff)
next
  assume "\<exists>i < length es. used (es ! i) \<and> content (de_key (es ! i)) = c \<and> de_value (es ! i) = v"
  then obtain i where i: "i < length es" "used (es ! i)" "content (de_key (es ! i)) = c" "de_value (es ! i) = v" by blast
  have "\<not> (used (es ! k) \<and> content (de_key (es ! k)) = c)" if "k < i" for k
    using table_ok_unique [OF assms, of k i] that i by auto
  then have "find (\<lambda>e. used e \<and> content (de_key e) = c) es = Some (es ! i)"
    unfolding find_Some_iff using i by blast
  then show "table_map content es c = Some v" using i(4) by (simp add: table_map_def)
qed

lemma table_map_None: "table_map content es c = None \<longleftrightarrow> (\<forall>e \<in> set es. used e \<longrightarrow> content (de_key e) \<noteq> c)"
  by (auto simp: table_map_def find_None_iff)

lemma table_map_at:
  "table_ok hash valid content es \<Longrightarrow> i < length es \<Longrightarrow> used (es ! i) \<Longrightarrow>
    table_map content es (content (de_key (es ! i))) = Some (de_value (es ! i))"
  by (auto simp: table_map_iff)

text \<open>The used buckets are as many as the keys of the map.\<close>

lemma card_table_map:
  assumes "table_ok hash valid content es"
  shows "length (filter used es) = card (dom (table_map content es))"
proof -
  let ?U = "{i. i < length es \<and> used (es ! i)}" and ?c = "\<lambda>i. content (de_key (es ! i))"
  have "dom (table_map content es) = ?c ` ?U"
    using table_map_iff [OF assms] by (auto simp: dom_def image_def)
  moreover have "inj_on ?c ?U" using table_ok_unique [OF assms] by (auto simp: inj_on_def)
  ultimately show ?thesis by (simp add: card_image length_filter_conv_card)
qed

lemma map_eqI: "(\<And>c v. f c = Some v \<longleftrightarrow> g c = Some v) \<Longrightarrow> f = g"
  by (rule ext) (metis not_Some_eq)

lemma offset_ex:
  assumes "i < n" "b < (n :: nat)"
  shows "\<exists>j < n. i = (b + j) mod n"
proof (cases "b \<le> i")
  case True
  then show ?thesis using assms by (intro exI [of _ "i - b"]) simp
next
  case False
  then have "(b + (i + n - b)) mod n = i" using assms by simp
  then show ?thesis using assms False by (intro exI [of _ "i + n - b"]) auto
qed

lemma offset_inj:
  assumes "(b + j) mod n = (b + j') mod n" "j < n" "j' < (n :: nat)"
  shows "j = j'"
  using assms
proof (induction j j' rule: linorder_wlog)
  case (le j j')
  then have "n dvd (b + j') - (b + j)" using mod_eq_dvd_iff_nat [of "b + j" "b + j'" n] by simp
  then show ?case using le by (auto dest: dvd_imp_le)
qed simp

section \<open>Changing a bucket\<close>

text \<open>Replacing an entry keeps the invariant if no bucket becomes empty and the new entry is in its place.\<close>

lemma table_ok_update:
  assumes ok: "table_ok hash valid content es" and i: "i < length es" and e: "slot_ok valid e" "de_state e \<noteq> EMPTY"
    and new: "\<And>k. used e \<Longrightarrow> k < length es \<Longrightarrow> k \<noteq> i \<Longrightarrow> used (es ! k) \<Longrightarrow> content (de_key (es ! k)) \<noteq> content (de_key e)"
    and place: "\<And>j j'. used e \<Longrightarrow> j < length es \<Longrightarrow> i = (home hash (length es) (de_key e) + j) mod length es \<Longrightarrow> j' < j \<Longrightarrow>
      de_state (es ! ((home hash (length es) (de_key e) + j') mod length es)) \<noteq> EMPTY"
  shows "table_ok hash valid content (es[i := e])"
proof -
  have st: "de_state (es[i := e] ! x) \<noteq> EMPTY" if "de_state (es ! x) \<noteq> EMPTY" for x
    using that e(2) i by (cases "x = i") simp_all
  have "slot_ok valid x" if "x \<in> set (es[i := e])" for x
    using that ok e(1) set_update_subset_insert [of es i e] by (auto simp: table_ok_def)
  moreover have "k = l" if "k < length es" "l < length es" "used (es[i := e] ! k)" "used (es[i := e] ! l)"
    "content (de_key (es[i := e] ! k)) = content (de_key (es[i := e] ! l))" for k l
    using that new [of k] new [of l] table_ok_unique [OF ok, of k l] i
    by (cases "k = i"; cases "l = i") auto
  moreover have "de_state (es[i := e] ! ((home hash (length es) (de_key (es[i := e] ! k)) + j') mod length es)) \<noteq> EMPTY"
    if "k < length es" "used (es[i := e] ! k)" "j < length es"
      "k = (home hash (length es) (de_key (es[i := e] ! k)) + j) mod length es" "j' < j" for k j j'
    using that place [of j j'] table_ok_probe [OF ok, of k j j'] i by (intro st) (cases "k = i"; auto)
  ultimately show ?thesis unfolding table_ok_def length_list_update by blast
qed

lemma table_map_insert:
  assumes ok: "table_ok hash valid content es" and ok': "table_ok hash valid content (es[i := e])" and "i < length es" "used e"
    and same: "used (es ! i) \<Longrightarrow> content (de_key (es ! i)) = content (de_key e)"
  shows "table_map content (es[i := e]) = (table_map content es)(content (de_key e) \<mapsto> de_value e)"
proof (rule map_eqI)
  fix c v
  have m: "table_map content (es[i := e]) (content (de_key e)) = Some (de_value e)"
    using table_map_at [OF ok', of i] assms(3,4) by simp
  show "table_map content (es[i := e]) c = Some v \<longleftrightarrow> ((table_map content es)(content (de_key e) \<mapsto> de_value e)) c = Some v"
  proof (cases "c = content (de_key e)")
    case False
    have "(\<exists>k < length es. used (es[i := e] ! k) \<and> content (de_key (es[i := e] ! k)) = c \<and> de_value (es[i := e] ! k) = v) \<longleftrightarrow>
        (\<exists>k < length es. used (es ! k) \<and> content (de_key (es ! k)) = c \<and> de_value (es ! k) = v)"
      using False same assms(3) by (metis nth_list_update_eq nth_list_update_neq)
    then show ?thesis using False table_map_iff [OF ok] table_map_iff [OF ok'] by simp
  qed (use m in simp)
qed

lemma table_map_delete:
  assumes ok: "table_ok hash valid content es" and ok': "table_ok hash valid content (es[i := e])" and "i < length es"
    and "used (es ! i)" "\<not> used e"
  shows "table_map content (es[i := e]) = (table_map content es)(content (de_key (es ! i)) := None)"
proof (rule map_eqI)
  fix c v
  have "(\<exists>k < length es. used (es[i := e] ! k) \<and> content (de_key (es[i := e] ! k)) = c \<and> de_value (es[i := e] ! k) = v) \<longleftrightarrow>
      (\<exists>k < length es. used (es ! k) \<and> content (de_key (es ! k)) = c \<and> de_value (es ! k) = v) \<and> c \<noteq> content (de_key (es ! i))"
    using assms(3-5) table_ok_unique [OF ok, of i] by (metis nth_list_update_eq nth_list_update_neq)
  then show "table_map content (es[i := e]) c = Some v \<longleftrightarrow>
      ((table_map content es)(content (de_key (es ! i)) := None)) c = Some v"
    using table_map_iff [OF ok] table_map_iff [OF ok'] by simp
qed

lemma filter_update:
  assumes "i < length es"
  shows "length (filter P (es[i := e])) + of_bool (P (es ! i)) = length (filter P es) + of_bool (P e)"
proof -
  have es: "es = take i es @ es ! i # drop (Suc i) es" using assms by (simp add: id_take_nth_drop)
  have "es[i := e] = take i es @ e # drop (Suc i) es" using assms by (simp add: upd_conv_take_nth_drop)
  then have "length (filter P (es[i := e])) = length (filter P (take i es)) + of_bool (P e) + length (filter P (drop (Suc i) es))"
    by simp
  moreover have "length (filter P es) = length (filter P (take i es)) + of_bool (P (es ! i)) + length (filter P (drop (Suc i) es))"
    by (subst es) simp
  ultimately show ?thesis by simp
qed

section \<open>Dictionaries\<close>

text \<open>
  The invariant of a dictionary, without and with its helper array. The bound on the number of buckets
  keeps the threshold computation inside 32 bits.
\<close>

definition dict_core ::
  "(u32 \<Rightarrow> u32 \<Rightarrow> u32 option) \<Rightarrow> (u32 \<Rightarrow> u32 \<Rightarrow> bool option) \<Rightarrow> (u32 \<Rightarrow> bool) \<Rightarrow> (u32 \<Rightarrow> 'k) \<Rightarrow> KXLDDict \<Rightarrow> bool" where
  "dict_core hash cmp valid content d \<longleftrightarrow>
     bucket_array (buckets d) \<and> dict_hash d = hash \<and> dict_cmp d = cmp \<and>
     table_ok hash valid content (entries (buckets d)) \<and>
     unat (num_entries d) = length (filter used (entries (buckets d))) \<and>
     unat (nitems (buckets d)) < 2 ^ 29 \<and> resize_threshold d = RESIZE_THRESHOLD (nitems (buckets d))"

definition dict_ok ::
  "(u32 \<Rightarrow> u32 \<Rightarrow> u32 option) \<Rightarrow> (u32 \<Rightarrow> u32 \<Rightarrow> bool option) \<Rightarrow> (u32 \<Rightarrow> bool) \<Rightarrow> (u32 \<Rightarrow> 'k) \<Rightarrow> KXLDDict \<Rightarrow> bool" where
  "dict_ok hash cmp valid content d \<longleftrightarrow>
     dict_core hash cmp valid content d \<and> blank_array entry_size (resize_buckets d)"

definition dict_map :: "(u32 \<Rightarrow> 'k) \<Rightarrow> KXLDDict \<Rightarrow> 'k \<Rightarrow> u32 option" where
  "dict_map content d = table_map content (entries (buckets d))"

text \<open>A null pointer stands for no value.\<close>

definition or_null :: "u32 option \<Rightarrow> u32" where
  "or_null x = (case x of None \<Rightarrow> 0 | Some v \<Rightarrow> v)"

text \<open>No bucket is marked as deleted.\<close>

definition undeleted :: "KXLDDict \<Rightarrow> bool" where
  "undeleted d \<longleftrightarrow> (\<forall>e \<in> set (entries (buckets d)). de_state e \<noteq> DELETED)"

lemma threshold_nat:
  "unat n < 2 ^ 29 \<Longrightarrow> unat (RESIZE_THRESHOLD n) = unat n * 7 div 10"
  by (simp add: RESIZE_THRESHOLD_def unat_div_distrib unat_word_ariths)

locale dict_keys =
  fixes hash :: "u32 \<Rightarrow> u32 \<Rightarrow> u32 option"
    and cmp :: "u32 \<Rightarrow> u32 \<Rightarrow> bool option"
    and valid :: "u32 \<Rightarrow> bool"
    and content :: "u32 \<Rightarrow> 'k"
  assumes hash_total: "valid k \<Longrightarrow> 0 < n \<Longrightarrow> \<exists>i. hash n k = Some i \<and> i < n"
    and hash_content: "valid k \<Longrightarrow> valid k' \<Longrightarrow> content k = content k' \<Longrightarrow> hash n k = hash n k'"
    and cmp_content: "valid k \<Longrightarrow> valid k' \<Longrightarrow> cmp k k' = Some (content k = content k')"
    and cmp_null: "valid k \<Longrightarrow> cmp 0 k = Some False"
begin

abbreviation core :: "KXLDDict \<Rightarrow> bool" where
  "core \<equiv> dict_core hash cmp valid content"

text \<open>What the loops need: well-formed buckets, not yet a well-formed table.\<close>

definition frame :: "KXLDDict \<Rightarrow> bool" where
  "frame d \<longleftrightarrow> bucket_array (buckets d) \<and> dict_hash d = hash \<and> dict_cmp d = cmp \<and>
     (\<forall>e \<in> set (entries (buckets d)). slot_ok valid e)"

lemma core_frame: "core d \<Longrightarrow> frame d"
  by (simp add: dict_core_def frame_def table_ok_def)

lemma frame_home:
  assumes "frame d" "valid k"
  shows "\<exists>base. dict_hash d (nitems (buckets d)) k = Some base \<and> unat base = home hash (unat (nitems (buckets d))) k \<and>
    home hash (unat (nitems (buckets d))) k < unat (nitems (buckets d))"
proof -
  have "0 < nitems (buckets d)" using assms(1) by (simp add: frame_def bucket_array_def)
  then show ?thesis
    using hash_total [OF assms(2), of "nitems (buckets d)"] assms(1) by (auto simp: home_def frame_def word_less_nat_alt)
qed

lemmas hash_home = frame_home [OF core_frame]

lemma cmp_slot:
  assumes "slot_ok valid e" "valid k"
  shows "cmp (de_key e) k = Some (used e \<and> content (de_key e) = content k)"
  using assms cmp_content cmp_null by (auto simp: slot_ok_def split: if_splits)

lemma same_home:
  "valid k \<Longrightarrow> valid k' \<Longrightarrow> content k = content k' \<Longrightarrow> home hash n k = home hash n k'"
  using hash_content [of k k' "of_nat n"] by (simp add: home_def)

lemma frame_walk:
  assumes "frame d" "valid k"
  shows "get_locate_index d k = Some (map_option (\<lambda>i. of_nat ((home hash (unat (nitems (buckets d))) k + i) mod unat (nitems (buckets d))))
    (walk (\<lambda>e. used e \<and> content (de_key e) = content k) (\<lambda>e. de_state e = EMPTY)
      (rotate (home hash (unat (nitems (buckets d))) k) (entries (buckets d))) 0))"
proof -
  let ?n = "unat (nitems (buckets d))"
  obtain base where b: "dict_hash d (nitems (buckets d)) k = Some base" "unat base = home hash ?n k" "home hash ?n k < ?n"
    using frame_home [OF assms] by blast
  have c: "dict_cmp d (de_key e) k = Some (used e \<and> content (de_key e) = content k)" if "e \<in> set (entries (buckets d))" for e
    using cmp_slot [OF _ assms(2), of e] assms(1) that by (simp add: frame_def)
  have a: "bucket_array (buckets d)" using assms(1) by (simp add: frame_def)
  have "of_nat ((home hash ?n k + 0) mod ?n) = base" using b(2,3) by (simp flip: b(2))
  then show ?thesis
    using locate_loop_walk [OF a b(2,3), of 0, OF _ c] b(3) by (simp add: get_locate_index_def b(1))
qed

lemmas locate_walk = frame_walk [OF core_frame]

lemma insert_walk:
  assumes "core d" "valid k"
  shows "get_insert_index d k = Some (map_option (\<lambda>i. of_nat ((home hash (unat (nitems (buckets d))) k + i) mod unat (nitems (buckets d))))
    (walk (\<lambda>e. used e \<longrightarrow> content (de_key e) = content k) (\<lambda>_. False)
      (rotate (home hash (unat (nitems (buckets d))) k) (entries (buckets d))) 0))"
proof -
  let ?n = "unat (nitems (buckets d))"
  obtain base where b: "dict_hash d (nitems (buckets d)) k = Some base" "unat base = home hash ?n k" "home hash ?n k < ?n"
    using hash_home [OF assms] by blast
  have c: "dict_cmp d (de_key e) k = Some (content (de_key e) = content k)" if "e \<in> set (entries (buckets d))" "de_state e = USED" for e
    using cmp_slot [OF _ assms(2), of e] assms(1) that by (simp add: dict_core_def table_ok_def used_def)
  have a: "bucket_array (buckets d)" using assms(1) by (simp add: dict_core_def)
  have e: "of_nat ((home hash ?n k + 0) mod ?n) = base" using b(2,3) by (simp flip: b(2))
  have n: "0 < ?n" using b(3) by simp
  note w = insert_loop_walk [where j = 0 and M = "\<lambda>e. content (de_key e) = content k", OF a b(2,3) n c]
  have "insert_loop d k base base = Some (map_option (\<lambda>i. of_nat ((home hash ?n k + i) mod ?n))
      (walk (\<lambda>e. used e \<longrightarrow> content (de_key e) = content k) (\<lambda>_. False) (rotate (home hash ?n k) (entries (buckets d))) 0))"
    by (rule w [unfolded drop0 e, folded used_def])
  then show ?thesis by (simp add: get_insert_index_def b(1))
qed

text \<open>A key that is present is found in its bucket.\<close>

lemma probe_to:
  assumes "core d" "valid k" "i < unat (nitems (buckets d))" "used (entries (buckets d) ! i)"
    "content (de_key (entries (buckets d) ! i)) = content k"
  shows "\<exists>j < unat (nitems (buckets d)). i = (home hash (unat (nitems (buckets d))) k + j) mod unat (nitems (buckets d)) \<and>
    (\<forall>j' < j. let e = entries (buckets d) ! ((home hash (unat (nitems (buckets d))) k + j') mod unat (nitems (buckets d)))
      in de_state e \<noteq> EMPTY \<and> \<not> (used e \<and> content (de_key e) = content k))"
proof -
  let ?n = "unat (nitems (buckets d))" and ?es = "entries (buckets d)"
  have t: "table_ok hash valid content ?es" using assms(1) by (simp add: dict_core_def)
  have b: "home hash ?n k < ?n" using hash_home [OF assms(1,2)] by blast
  obtain j where j: "j < ?n" "i = (home hash ?n k + j) mod ?n" using offset_ex [OF assms(3) b] by blast
  have "valid (de_key (?es ! i))" using table_ok_slot [OF t, of i] assms(3,4) by (simp add: slot_ok_def)
  then have h: "home hash ?n (de_key (?es ! i)) = home hash ?n k" using same_home assms(2,5) by blast
  have "de_state (?es ! ((home hash ?n k + j') mod ?n)) \<noteq> EMPTY" if "j' < j" for j'
    by (rule table_ok_probe [OF t, of i j j', unfolded length_entries h, OF assms(3,4) j that])
  moreover have "\<not> (used (?es ! ((home hash ?n k + j') mod ?n)) \<and> content (de_key (?es ! ((home hash ?n k + j') mod ?n))) = content k)"
    if "j' < j" for j'
  proof
    assume "used (?es ! ((home hash ?n k + j') mod ?n)) \<and> content (de_key (?es ! ((home hash ?n k + j') mod ?n))) = content k"
    then have "(home hash ?n k + j') mod ?n = i"
      using table_ok_unique [OF t, of "(home hash ?n k + j') mod ?n" i, unfolded length_entries] assms(3-5) by auto
    then show False using offset_inj [of "home hash ?n k" j' ?n j] j that by auto
  qed
  ultimately show ?thesis using j by (auto simp: Let_def)
qed

lemma nth_rotate_n:
  "j < unat (nitems (buckets d)) \<Longrightarrow>
    rotate b (entries (buckets d)) ! j = entries (buckets d) ! ((b + j) mod unat (nitems (buckets d)))"
  by (simp add: nth_rotate)

lemma locate_present:
  assumes "core d" "valid k" "i < unat (nitems (buckets d))" "used (entries (buckets d) ! i)"
    "content (de_key (entries (buckets d) ! i)) = content k"
  shows "get_locate_index d k = Some (Some (of_nat i))"
proof -
  let ?n = "unat (nitems (buckets d))"
  obtain j where j: "j < ?n" "i = (home hash ?n k + j) mod ?n"
    "\<forall>j' < j. let e = entries (buckets d) ! ((home hash ?n k + j') mod ?n)
      in de_state e \<noteq> EMPTY \<and> \<not> (used e \<and> content (de_key e) = content k)"
    using probe_to [OF assms] by blast
  have "walk (\<lambda>e. used e \<and> content (de_key e) = content k) (\<lambda>e. de_state e = EMPTY)
      (rotate (home hash ?n k) (entries (buckets d))) 0 = Some (0 + j)"
    using j assms(4,5) by (intro walk_first) (auto simp: nth_rotate_n Let_def)
  then show ?thesis using locate_walk [OF assms(1,2)] j(2) by simp
qed

lemma locate_absent:
  assumes "core d" "valid k" "dict_map content d (content k) = None"
  shows "get_locate_index d k = Some None"
  using assms(3) walk_none [of "rotate _ (entries (buckets d))" "\<lambda>e. used e \<and> content (de_key e) = content k"]
  by (simp add: locate_walk [OF assms(1,2)] dict_map_def table_map_None)

lemma insert_present:
  assumes "core d" "valid k" "i < unat (nitems (buckets d))" "used (entries (buckets d) ! i)"
    "content (de_key (entries (buckets d) ! i)) = content k" "undeleted d"
  shows "get_insert_index d k = Some (Some (of_nat i))"
proof -
  let ?n = "unat (nitems (buckets d))" and ?es = "entries (buckets d)"
  obtain j where j: "j < ?n" "i = (home hash ?n k + j) mod ?n"
    "\<forall>j' < j. let e = ?es ! ((home hash ?n k + j') mod ?n)
      in de_state e \<noteq> EMPTY \<and> \<not> (used e \<and> content (de_key e) = content k)"
    using probe_to [OF assms(1-5)] by blast
  have "used (?es ! x)" if "x < ?n" "de_state (?es ! x) \<noteq> EMPTY" for x
    using that assms(1,6) table_ok_slot [of hash valid content ?es x]
    by (auto simp: dict_core_def slot_ok_def undeleted_def split: if_splits)
  then have "walk (\<lambda>e. used e \<longrightarrow> content (de_key e) = content k) (\<lambda>_. False) (rotate (home hash ?n k) ?es) 0 = Some (0 + j)"
    using j assms(4,5) by (intro walk_first) (auto simp: nth_rotate_n Let_def)
  then show ?thesis using insert_walk [OF assms(1,2)] j(2) by simp
qed

end

end
