(* ===== verification/Kxld_Map.thy ===== *)
theory Kxld_Map
  imports Kxld_Table
begin

text \<open>
  The operations of the dictionary on the map it stands for: finding, removing, inserting into a
  bucket, rehashing into larger buckets, and the insertion with its resizing.
\<close>

section \<open>One bucket\<close>

lemma unused_ex:
  assumes "length (filter P xs) < length xs"
  shows "\<exists>i < length xs. \<not> P (xs ! i)"
proof (rule ccontr)
  assume "\<not> (\<exists>i < length xs. \<not> P (xs ! i))"
  then have "filter P xs = xs" by (auto simp: filter_id_conv in_set_conv_nth)
  then show False using assms by simp
qed

lemma undeleted_update:
  "undeleted d \<Longrightarrow> de_state e \<noteq> DELETED \<Longrightarrow> entries (buckets d') = (entries (buckets d))[i := e] \<Longrightarrow> undeleted d'"
  using set_update_subset_insert [of "entries (buckets d)" i e] by (auto simp: undeleted_def)

section \<open>New buckets\<close>

abbreviation empty_entry :: DictEntry where
  "empty_entry \<equiv> \<lparr>de_key = 0, de_value = 0, de_state = EMPTY\<rparr>"

lemma bytes_entry_zero: "bytes_entry (replicate 12 0) = empty_entry"
  by (simp add: bytes_entry_def bytes_word_def le32_def)

lemma fresh_buckets:
  assumes "fresh_array entry_size n a" "0 < n"
  shows "bucket_array a" "entries a = replicate (unat n) empty_entry" "nitems a = n"
proof -
  have "bytes_entry (replicate (unat entry_size) 0) = empty_entry" using bytes_entry_zero by simp
  then show "entries a = replicate (unat n) empty_entry"
    using fresh_contents [OF assms(1)] unfolding entries_def by (simp only: map_replicate)
qed (use assms in \<open>auto simp: bucket_array_def fresh_array_def\<close>)

lemma empty_table:
  "table_ok hash valid content (replicate n empty_entry)" "table_map content (replicate n empty_entry) = Map.empty"
  "filter used (replicate n empty_entry) = []"
  by (auto simp: table_ok_def slot_ok_def used_def table_map_def fun_eq_iff find_None_iff)

lemma find_snoc:
  "find P (xs @ [e]) = (case find P xs of None \<Rightarrow> if P e then Some e else None | Some y \<Rightarrow> Some y)"
  by (induction xs) simp_all

lemma table_map_snoc:
  assumes "used e \<Longrightarrow> table_map content es (content (de_key e)) = None"
  shows "table_map content (es @ [e]) =
    (if used e then (table_map content es)(content (de_key e) \<mapsto> de_value e) else table_map content es)"
proof (rule ext)
  fix c
  show "table_map content (es @ [e]) c =
      (if used e then (table_map content es)(content (de_key e) \<mapsto> de_value e) else table_map content es) c"
    using assms by (auto simp: table_map_def find_snoc split: option.splits)
qed

context dict_keys
begin

lemma find_map:
  assumes "core d" "valid k"
  shows "kxld_dict_find d k = Some (or_null (dict_map content d (content k)))"
proof (cases "dict_map content d (content k)")
  case None
  then show ?thesis using locate_absent [OF assms] by (simp add: kxld_dict_find_def or_null_def)
next
  case (Some v)
  have t: "table_ok hash valid content (entries (buckets d))" "bucket_array (buckets d)"
    using assms(1) by (simp_all add: dict_core_def)
  obtain i where i: "i < unat (nitems (buckets d))" "used (entries (buckets d) ! i)"
    "content (de_key (entries (buckets d) ! i)) = content k" "de_value (entries (buckets d) ! i) = v"
    using Some table_map_iff [OF t(1)] by (auto simp: dict_map_def)
  show ?thesis
    using locate_present [OF assms i(1-3)] get_entry_at [OF t(2) i(1)] i(4) Some by (simp add: kxld_dict_find_def or_null_def)
qed

text \<open>Replacing the entry of one bucket in a dictionary.\<close>

lemma core_update:
  assumes "core d" "i < unat (nitems (buckets d))" "table_ok hash valid content ((entries (buckets d))[i := e])"
    and "bucket_array a" "nitems a = nitems (buckets d)" "entries a = (entries (buckets d))[i := e]"
    and "unat c = length (filter used ((entries (buckets d))[i := e]))"
  shows "core (d\<lparr>buckets := a, num_entries := c\<rparr>)"
  using assms by (simp add: dict_core_def)

lemma remove_map:
  assumes "core d" "valid k"
  shows "\<exists>d'. kxld_dict_remove d k = Some (or_null (dict_map content d (content k)), d') \<and> core d' \<and>
    dict_map content d' = (dict_map content d)(content k := None) \<and> resize_buckets d' = resize_buckets d \<and>
    nitems (buckets d') = nitems (buckets d) \<and> (dict_map content d (content k) = None \<longrightarrow> d' = d)"
proof (cases "dict_map content d (content k)")
  case None
  then have "(dict_map content d)(content k := None) = dict_map content d" by auto
  then show ?thesis using None locate_absent [OF assms None] assms(1) by (simp add: kxld_dict_remove_def or_null_def)
next
  case (Some v)
  let ?es = "entries (buckets d)" and ?e = "\<lparr>de_key = 0, de_value = 0, de_state = DELETED\<rparr>"
  have t: "table_ok hash valid content ?es" "bucket_array (buckets d)" "unat (num_entries d) = length (filter used ?es)"
    using assms(1) by (simp_all add: dict_core_def)
  obtain i where i: "i < unat (nitems (buckets d))" "used (?es ! i)" "content (de_key (?es ! i)) = content k" "de_value (?es ! i) = v"
    using Some table_map_iff [OF t(1)] by (auto simp: dict_map_def)
  have ui: "unat (of_nat i :: u32) = i" using i(1) unat_u32 [of "nitems (buckets d)"] by (simp add: unat_of_nat)
  then obtain a where a: "put_entry (buckets d) (of_nat i) ?e = Some a" "bucket_array a" "nitems a = nitems (buckets d)"
    "entries a = ?es[i := ?e]"
    using put_entry_ok [OF t(2), of "of_nat i" ?e] i(1) by (auto simp: word_less_nat_alt)
  have ok': "table_ok hash valid content (?es[i := ?e])"
    using i(1) by (intro table_ok_update [OF t(1)]) (simp_all add: slot_ok_def used_def)
  have "length (filter used (?es[i := ?e])) + 1 = length (filter used ?es)"
    using filter_update [of i ?es used ?e] i(1,2) by (simp add: used_def)
  then have "unat (num_entries d - 1) = length (filter used (?es[i := ?e]))"
    using t(3) unat_sub [of 1 "num_entries d"] by (simp add: word_le_nat_alt)
  then have "core (d\<lparr>buckets := a, num_entries := num_entries d - 1\<rparr>)"
    using core_update [OF assms(1) i(1) ok' a(2-4)] by blast
  moreover have "table_map content (?es[i := ?e]) = (table_map content ?es)(content k := None)"
    using table_map_delete [OF t(1) ok'] i(1-3) by (simp add: used_def)
  ultimately show ?thesis
    using locate_present [OF assms i(1-3)] get_entry_at [OF t(2) i(1)] a i(4) Some
    by (simp add: kxld_dict_remove_def or_null_def dict_map_def)
qed

lemma insert_absent:
  assumes "core d" "valid k" "dict_map content d (content k) = None" "num_entries d < nitems (buckets d)"
  shows "\<exists>i j. i < unat (nitems (buckets d)) \<and> j < unat (nitems (buckets d)) \<and> get_insert_index d k = Some (Some (of_nat i)) \<and>
    \<not> used (entries (buckets d) ! i) \<and> i = (home hash (unat (nitems (buckets d))) k + j) mod unat (nitems (buckets d)) \<and>
    (\<forall>j' < j. used (entries (buckets d) ! ((home hash (unat (nitems (buckets d))) k + j') mod unat (nitems (buckets d)))))"
proof -
  let ?n = "unat (nitems (buckets d))" and ?es = "entries (buckets d)"
  let ?R = "rotate (home hash ?n k) ?es"
  have "length (filter used ?es) < ?n" using assms(1,4) by (simp add: dict_core_def word_less_nat_alt)
  then obtain i0 where i0: "i0 < ?n" "\<not> used (?es ! i0)" using unused_ex [of used ?es] by auto
  have b: "home hash ?n k < ?n" using hash_home [OF assms(1,2)] by blast
  then obtain j0 where "j0 < ?n" "\<not> used (?R ! j0)" using offset_ex [OF i0(1)] i0 by (auto simp: nth_rotate)
  then obtain j where j: "j < ?n" "\<not> used (?R ! j)" "\<And>j'. j' < j \<Longrightarrow> used (?R ! j')"
    using exists_least_iff [of "\<lambda>j. j < ?n \<and> \<not> used (?R ! j)"] by (meson less_trans)
  have "content (de_key e) \<noteq> content k" if "e \<in> set ?es" "used e" for e
    using assms(3) that by (simp add: dict_map_def table_map_None)
  moreover have "?R ! j' \<in> set ?es" if "j' < ?n" for j' using that nth_mem [of j' ?R] by simp
  ultimately have "walk (\<lambda>e. used e \<longrightarrow> content (de_key e) = content k) (\<lambda>_. False) ?R 0 = Some (0 + j)"
    using j by (intro walk_first) auto
  then show ?thesis
    using insert_walk [OF assms(1,2)] j b
    by (intro exI [of _ "(home hash ?n k + j) mod ?n"] exI [of _ j]) (auto simp: nth_rotate)
qed

text \<open>
  Inserting without resizing. A key that is present may only be inserted again while no bucket is
  marked as deleted.
\<close>

lemma insert_new:
  assumes "core d" "valid k" "dict_map content d (content k) = None" "num_entries d < nitems (buckets d)"
  shows "\<exists>d'. insert_entry d k v = Some (KERN_SUCCESS, d') \<and> core d' \<and>
    dict_map content d' = (dict_map content d)(content k \<mapsto> v) \<and> resize_buckets d' = resize_buckets d \<and>
    nitems (buckets d') = nitems (buckets d) \<and> num_entries d' = num_entries d + 1 \<and> (undeleted d \<longrightarrow> undeleted d')"
proof -
  let ?n = "unat (nitems (buckets d))" and ?es = "entries (buckets d)"
  have t: "table_ok hash valid content ?es" "bucket_array (buckets d)" "unat (num_entries d) = length (filter used ?es)"
    using assms(1) by (simp_all add: dict_core_def)
  obtain i j where i: "i < ?n" "j < ?n" "get_insert_index d k = Some (Some (of_nat i))" "\<not> used (?es ! i)"
    "i = (home hash ?n k + j) mod ?n" "\<And>j'. j' < j \<Longrightarrow> used (?es ! ((home hash ?n k + j') mod ?n))"
    using insert_absent [OF assms] by blast
  let ?e = "(?es ! i)\<lparr>de_key := k, de_state := USED, de_value := v\<rparr>"
  have "unat (of_nat i :: u32) = i" using i(1) unat_u32 [of "nitems (buckets d)"] by (simp add: unat_of_nat)
  then obtain a where a: "put_entry (buckets d) (of_nat i) ?e = Some a" "bucket_array a" "nitems a = nitems (buckets d)"
    "entries a = ?es[i := ?e]"
    using put_entry_ok [OF t(2), of "of_nat i" ?e] i(1) by (auto simp: word_less_nat_alt)
  have u: "used ?e" by (simp add: used_def)
  have ok': "table_ok hash valid content (?es[i := ?e])"
  proof (rule table_ok_update [OF t(1)])
    fix l assume "l < length ?es" "used (?es ! l)"
    then show "content (de_key (?es ! l)) \<noteq> content (de_key ?e)" using assms(3) by (simp add: dict_map_def table_map_None)
  next
    fix j1 j' assume A: "j1 < length ?es" "i = (home hash (length ?es) (de_key ?e) + j1) mod length ?es" "j' < j1"
    have ek: "de_key ?e = k" by simp
    have "j1 = j"
      using A(1) i(2) by (intro offset_inj [OF trans [OF A(2) [unfolded length_entries ek, symmetric] i(5)]]) simp_all
    then have "j' < j" using A(3) by simp
    then show "de_state (?es ! ((home hash (length ?es) (de_key ?e) + j') mod length ?es)) \<noteq> EMPTY"
      using i(6) [of j'] by (simp add: used_def)
  qed (use i(1) assms(2) in \<open>simp_all add: slot_ok_def used_def\<close>)
  have "length (filter used (?es[i := ?e])) = length (filter used ?es) + 1"
    using filter_update [of i ?es used ?e] i(1,4) u by simp
  then have "unat (num_entries d + 1) = length (filter used (?es[i := ?e]))"
    using t(3) unat_plus_1 [OF assms(4)] by simp
  then have "core (d\<lparr>buckets := a, num_entries := num_entries d + 1\<rparr>)" using core_update [OF assms(1) i(1) ok' a(2-4)] by blast
  moreover have "table_map content (?es[i := ?e]) = (table_map content ?es)(content k \<mapsto> v)"
    using table_map_insert [OF t(1) ok'] i(1,4) u by simp
  moreover have "undeleted d \<longrightarrow> undeleted (d\<lparr>buckets := a, num_entries := num_entries d + 1\<rparr>)"
    using undeleted_update [of d ?e "d\<lparr>buckets := a, num_entries := num_entries d + 1\<rparr>" i] a(4) by auto
  moreover have "d\<lparr>num_entries := num_entries d + 1, buckets := a\<rparr> = d\<lparr>buckets := a, num_entries := num_entries d + 1\<rparr>"
    by (cases d) simp
  then have "insert_entry d k v = Some (KERN_SUCCESS, d\<lparr>buckets := a, num_entries := num_entries d + 1\<rparr>)"
    using get_entry_at [OF t(2) i(1)] a(1) i(3,4) by (simp add: insert_entry_def used_def Let_def)
  ultimately show ?thesis using a by (simp add: dict_map_def)
qed

lemma insert_again:
  assumes "core d" "valid k" "dict_map content d (content k) \<noteq> None" "undeleted d"
  shows "\<exists>d'. insert_entry d k v = Some (KERN_SUCCESS, d') \<and> core d' \<and>
    dict_map content d' = (dict_map content d)(content k \<mapsto> v) \<and> resize_buckets d' = resize_buckets d \<and>
    nitems (buckets d') = nitems (buckets d) \<and> num_entries d' = num_entries d \<and> undeleted d'"
proof -
  let ?n = "unat (nitems (buckets d))" and ?es = "entries (buckets d)"
  have t: "table_ok hash valid content ?es" "bucket_array (buckets d)" "unat (num_entries d) = length (filter used ?es)"
    using assms(1) by (simp_all add: dict_core_def)
  obtain i where i: "i < ?n" "used (?es ! i)" "content (de_key (?es ! i)) = content k"
    using assms(3) table_map_iff [OF t(1)] by (auto simp: dict_map_def)
  let ?e = "(?es ! i)\<lparr>de_value := v\<rparr>"
  have "unat (of_nat i :: u32) = i" using i(1) unat_u32 [of "nitems (buckets d)"] by (simp add: unat_of_nat)
  then obtain a where a: "put_entry (buckets d) (of_nat i) ?e = Some a" "bucket_array a" "nitems a = nitems (buckets d)"
    "entries a = ?es[i := ?e]"
    using put_entry_ok [OF t(2), of "of_nat i" ?e] i(1) by (auto simp: word_less_nat_alt)
  have u: "used ?e" "de_state ?e = USED" using i(2) by (simp_all add: used_def)
  have ok': "table_ok hash valid content (?es[i := ?e])"
  proof (rule table_ok_update [OF t(1)])
    show "slot_ok valid ?e" using table_ok_slot [OF t(1), of i] i(1) by (simp add: slot_ok_def used_def)
    fix l assume "l < length ?es" "l \<noteq> i" "used (?es ! l)"
    then show "content (de_key (?es ! l)) \<noteq> content (de_key ?e)" using table_ok_unique [OF t(1), of l i] i(1,2) by auto
  next
    fix j j' assume "j < length ?es" "i = (home hash (length ?es) (de_key ?e) + j) mod length ?es" "j' < j"
    then show "de_state (?es ! ((home hash (length ?es) (de_key ?e) + j') mod length ?es)) \<noteq> EMPTY"
      using table_ok_probe [OF t(1), of i j j'] i(1,2) by simp
  qed (use i(1) u in simp_all)
  have "unat (num_entries d) = length (filter used (?es[i := ?e]))"
    using filter_update [of i ?es used ?e] i(1,2) u t(3) by simp
  then have "core (d\<lparr>buckets := a, num_entries := num_entries d\<rparr>)" using core_update [OF assms(1) i(1) ok' a(2-4)] by blast
  moreover have "table_map content (?es[i := ?e]) = (table_map content ?es)(content k \<mapsto> v)"
    using table_map_insert [OF t(1) ok'] i u by simp
  moreover have "undeleted (d\<lparr>buckets := a\<rparr>)" using undeleted_update [OF assms(4), of ?e "d\<lparr>buckets := a\<rparr>" i] a(4) u(2) by simp
  moreover have "insert_entry d k v = Some (KERN_SUCCESS, d\<lparr>buckets := a\<rparr>)"
    using insert_present [OF assms(1,2) i assms(4)] get_entry_at [OF t(2) i(1)] a(1) u by (simp add: insert_entry_def used_def)
  ultimately show ?thesis using a by (simp add: dict_map_def)
qed

text \<open>Below the threshold there is room.\<close>

lemma below_threshold:
  assumes "core d" "num_entries d \<le> resize_threshold d"
  shows "num_entries d < nitems (buckets d)"
proof -
  have "unat (resize_threshold d) = unat (nitems (buckets d)) * 7 div 10" "0 < unat (nitems (buckets d))"
    using assms(1) by (simp_all add: dict_core_def threshold_nat bucket_array_pos)
  then have "unat (resize_threshold d) < unat (nitems (buckets d))" by linarith
  then show ?thesis using assms(2) by (simp add: word_less_nat_alt word_le_nat_alt)
qed

lemma insert_fits:
  assumes "core d" "valid k" "undeleted d \<or> dict_map content d (content k) = None" "num_entries d \<le> resize_threshold d"
  shows "\<exists>d'. dict_run env (Insert k v) d h = Some (KERN_SUCCESS, d', h) \<and> core d' \<and>
    dict_map content d' = (dict_map content d)(content k \<mapsto> v) \<and> resize_buckets d' = resize_buckets d \<and>
    nitems (buckets d') = nitems (buckets d) \<and> (undeleted d \<longrightarrow> undeleted d') \<and>
    unat (num_entries d') \<le> unat (num_entries d) + 1"
proof -
  note room = below_threshold [OF assms(1,4)]
  have "\<exists>d'. insert_entry d k v = Some (KERN_SUCCESS, d') \<and> core d' \<and>
    dict_map content d' = (dict_map content d)(content k \<mapsto> v) \<and> resize_buckets d' = resize_buckets d \<and>
    nitems (buckets d') = nitems (buckets d) \<and> (undeleted d \<longrightarrow> undeleted d') \<and>
    unat (num_entries d') \<le> unat (num_entries d) + 1"
  proof (cases "dict_map content d (content k) = None")
    case True
    then show ?thesis using insert_new [OF assms(1,2) True room, of v] unat_plus_1 [OF room] by auto
  next
    case False
    then show ?thesis using insert_again [OF assms(1,2) False, of v] assms(3) by auto
  qed
  then show ?thesis using assms(4) by (subst dict_run.simps) (auto simp: not_less)
qed

lemma num_entries_card: "core d \<Longrightarrow> unat (num_entries d) = card (dom (dict_map content d))"
  using card_table_map by (auto simp: dict_core_def dict_map_def)

section \<open>Rehashing\<close>

text \<open>The state between two steps of the rehashing loop.\<close>

definition rehashing :: "KXLDArray \<Rightarrow> nat \<Rightarrow> KXLDDict \<Rightarrow> bool" where
  "rehashing old i d \<longleftrightarrow> core d \<and> undeleted d \<and> resize_buckets d = old \<and> i \<le> unat (nitems old) \<and>
     dict_map content d = table_map content (take i (entries old)) \<and> unat (num_entries d) \<le> i \<and>
     unat (nitems (buckets d)) = 2 * unat (nitems old) + 1"

lemma rehashing_room:
  assumes "rehashing old i d"
  shows "num_entries d \<le> resize_threshold d"
proof -
  have "unat (resize_threshold d) = (2 * unat (nitems old) + 1) * 7 div 10"
    using assms threshold_nat [of "nitems (buckets d)"] by (simp add: rehashing_def dict_core_def)
  moreover have "unat (nitems old) * 10 div 10 \<le> (2 * unat (nitems old) + 1) * 7 div 10" by (rule div_le_mono) simp
  ultimately have "unat (nitems old) \<le> unat (resize_threshold d)" by simp
  then show ?thesis using assms by (simp add: rehashing_def word_le_nat_alt)
qed

lemma rehash_step:
  assumes "rehashing old i d" "bucket_array old" "table_ok hash valid content (entries old)" "i < unat (nitems old)"
  shows "\<exists>d'. rehashing old (i + 1) d' \<and> dict_run env (Rehash (of_nat i)) d h = dict_run env (Rehash (of_nat (i + 1))) d' h"
proof -
  let ?e = "entries old ! i"
  have d: "core d" "undeleted d" "resize_buckets d = old" "dict_map content d = table_map content (take i (entries old))"
    "unat (num_entries d) \<le> i" "unat (nitems (buckets d)) = 2 * unat (nitems old) + 1"
    using assms(1) by (simp_all add: rehashing_def)
  have lt: "of_nat i < nitems old" "unat (of_nat i :: u32) = i"
    using assms(4) unat_u32 [of "nitems old"] by (simp_all add: word_less_nat_alt unat_of_nat)
  note ge = get_entry_at [OF assms(2,4)]
  have abs: "table_map content (take i (entries old)) (content (de_key ?e)) = None" if "used ?e"
    unfolding table_map_None
  proof (intro ballI impI)
    fix e assume e: "e \<in> set (take i (entries old))" "used e"
    then obtain l where "l < i" "e = entries old ! l" using assms(4) by (auto simp: in_set_conv_nth)
    then show "content (de_key e) \<noteq> content (de_key ?e)"
      using table_ok_unique [OF assms(3), of l i] assms(4) that e(2) by auto
  qed
  have snoc: "table_map content (take (i + 1) (entries old)) =
      (if used ?e then (table_map content (take i (entries old)))(content (de_key ?e) \<mapsto> de_value ?e)
       else table_map content (take i (entries old)))"
    using table_map_snoc [OF abs] assms(4) by (simp add: take_Suc_conv_app_nth)
  show ?thesis
  proof (cases "used ?e")
    case True
    have v: "valid (de_key ?e)" using table_ok_slot [OF assms(3), of i] assms(4) True by (simp add: slot_ok_def)
    obtain d' where d': "dict_run env (Insert (de_key ?e) (de_value ?e)) d h = Some (KERN_SUCCESS, d', h)" "core d'"
      "dict_map content d' = (dict_map content d)(content (de_key ?e) \<mapsto> de_value ?e)" "resize_buckets d' = old"
      "nitems (buckets d') = nitems (buckets d)" "undeleted d'" "unat (num_entries d') \<le> unat (num_entries d) + 1"
      using insert_fits [OF d(1) v _ rehashing_room [OF assms(1)], where v = "de_value ?e" and env = env and h = h] d(2,3) by auto
    have "rehashing old (i + 1) d'" using d' d(4-6) assms(4) snoc True by (simp add: rehashing_def)
    moreover have "dict_run env (Rehash (of_nat i)) d h = dict_run env (Rehash (of_nat (i + 1))) d' h"
      using lt d(3) ge d'(1) True by (subst dict_run.simps) (simp add: used_def add.commute)
    ultimately show ?thesis by blast
  next
    case False
    then have "rehashing old (i + 1) d" using d assms(4) snoc by (simp add: rehashing_def)
    moreover have "dict_run env (Rehash (of_nat i)) d h = dict_run env (Rehash (of_nat (i + 1))) d h"
      using lt d(3) ge False by (subst dict_run.simps) (simp add: used_def add.commute)
    ultimately show ?thesis by blast
  qed
qed

lemma rehash_all:
  assumes "rehashing old i d" "bucket_array old" "table_ok hash valid content (entries old)"
  shows "\<exists>d'. dict_run env (Rehash (of_nat i)) d h = Some (KERN_SUCCESS, d', h) \<and> core d' \<and> undeleted d' \<and>
    dict_map content d' = table_map content (entries old) \<and> fresh_array entry_size 0 (resize_buckets d') \<and>
    num_entries d' \<le> resize_threshold d' \<and> unat (nitems (buckets d')) = 2 * unat (nitems old) + 1"
  using assms(1)
proof (induction "unat (nitems old) - i" arbitrary: i d)
  case 0
  then have i: "i = unat (nitems old)" by (simp add: rehashing_def)
  have d: "core d" "undeleted d" "resize_buckets d = old" "dict_map content d = table_map content (take i (entries old))"
    "unat (nitems (buckets d)) = 2 * unat (nitems old) + 1"
    using 0 by (simp_all add: rehashing_def)
  have "arr_ok old" "length (pools old) = 1" "itemsize old = entry_size" using assms(2) by (simp_all add: bucket_array_def)
  then obtain a where a: "kxld_array_clear old = Some a" "fresh_array entry_size 0 a" using kxld_array_clear_single by metis
  have "dict_run env (Rehash (of_nat i)) d h = Some (KERN_SUCCESS, d\<lparr>resize_buckets := a\<rparr>, h)"
    using d(3) a(1) i by (subst dict_run.simps) simp
  then show ?case using d a(2) i rehashing_room [OF 0(2)] by (simp add: dict_core_def undeleted_def dict_map_def)
next
  case (Suc x)
  then have "i < unat (nitems old)" by simp
  then obtain d' where d': "rehashing old (i + 1) d'"
    "dict_run env (Rehash (of_nat i)) d h = dict_run env (Rehash (of_nat (i + 1))) d' h"
    using rehash_step [OF Suc.prems assms(2,3)] by blast
  then show ?case using Suc.hyps(1) [OF _ d'(1)] Suc.hyps(2) by simp
qed

lemma resize_map:
  assumes "env_ok env" "dict_ok hash cmp valid content d" "unat (nitems (buckets d)) \<le> 2 ^ 27"
  shows "\<exists>d' h'. dict_run env Resize d h = Some (KERN_SUCCESS, d', h') \<and> dict_ok hash cmp valid content d' \<and> undeleted d' \<and>
    dict_map content d' = dict_map content d \<and> num_entries d' \<le> resize_threshold d' \<and>
    unat (nitems (buckets d')) = 2 * unat (nitems (buckets d)) + 1"
proof -
  let ?n = "nitems (buckets d) * 2 + 1"
  have d: "core d" "blank_array entry_size (resize_buckets d)" using assms(2) by (simp_all add: dict_ok_def)
  have t: "bucket_array (buckets d)" "table_ok hash valid content (entries (buckets d))" using d(1) by (simp_all add: dict_core_def)
  have n: "unat ?n = 2 * unat (nitems (buckets d)) + 1" using assms(3) by (simp add: unat_word_ariths)
  then have "0 < ?n" "unat entry_size * unat ?n + 4095 < 2 ^ 32" using assms(3) by (simp_all add: word_less_nat_alt)
  then obtain a h1 where a: "kxld_array_init env (resize_buckets d) entry_size ?n h = Some (KERN_SUCCESS, a, h1)" "fresh_array entry_size ?n a"
    using kxld_array_init_blank [OF assms(1) d(2), of ?n h] by auto
  note f = fresh_buckets [OF a(2) \<open>0 < ?n\<close>]
  let ?d = "d\<lparr>buckets := a, resize_buckets := buckets d, num_entries := 0, resize_threshold := RESIZE_THRESHOLD (nitems a)\<rparr>"
  have e: "table_ok hash valid content (entries a)" "table_map content (entries a) = Map.empty" "filter used (entries a) = []"
    "\<forall>x \<in> set (entries a). de_state x = EMPTY"
    unfolding f(2) by (simp_all only: empty_table) simp
  then have "core ?d" using d(1) f(1,3) n assms(3) by (simp add: dict_core_def)
  moreover have "undeleted ?d" "dict_map content ?d = table_map content (take 0 (entries (buckets d)))"
    using e(2,4) by (auto simp: undeleted_def dict_map_def table_map_def)
  ultimately have "rehashing (buckets d) 0 ?d" using f(3) n by (simp add: rehashing_def)
  from rehash_all [OF this t, of env h1] obtain d' where
    d': "dict_run env (Rehash 0) ?d h1 = Some (KERN_SUCCESS, d', h1)" "core d'" "undeleted d'"
      "dict_map content d' = table_map content (entries (buckets d))" "fresh_array entry_size 0 (resize_buckets d')"
      "num_entries d' \<le> resize_threshold d'" "unat (nitems (buckets d')) = 2 * unat (nitems (buckets d)) + 1" by auto
  have "dict_run env Resize d h = Some (KERN_SUCCESS, d', h1)" using a(1) d'(1) by (subst dict_run.simps) simp
  then show ?thesis using d' by (auto simp: dict_ok_def blank_array_def dict_map_def)
qed

text \<open>
  The insertion. The number of buckets grows only with the number of keys.
\<close>

lemma insert_map:
  assumes "env_ok env" "dict_ok hash cmp valid content d" "valid k" "undeleted d \<or> dict_map content d (content k) = None"
    and "unat (nitems (buckets d)) \<le> 2 ^ 27"
  shows "\<exists>d' h'. kxld_dict_insert env d k v h = Some (KERN_SUCCESS, d', h') \<and> dict_ok hash cmp valid content d' \<and>
    dict_map content d' = (dict_map content d)(content k \<mapsto> v) \<and> (undeleted d \<longrightarrow> undeleted d') \<and>
    unat (nitems (buckets d')) \<le> max (unat (nitems (buckets d))) (3 * card (dom (dict_map content d)) + 1)"
proof (cases "num_entries d \<le> resize_threshold d")
  case True
  have "core d" "blank_array entry_size (resize_buckets d)" using assms(2) by (simp_all add: dict_ok_def)
  then show ?thesis
    using insert_fits [OF _ assms(3,4) True, where v = v and env = env and h = h]
    by (auto simp: kxld_dict_insert_def dict_ok_def)
next
  case False
  obtain d1 h1 where d1: "dict_run env Resize d h = Some (KERN_SUCCESS, d1, h1)" "dict_ok hash cmp valid content d1" "undeleted d1"
    "dict_map content d1 = dict_map content d" "num_entries d1 \<le> resize_threshold d1"
    "unat (nitems (buckets d1)) = 2 * unat (nitems (buckets d)) + 1"
    using resize_map [OF assms(1,2,5)] by blast
  have b: "core d1" "blank_array entry_size (resize_buckets d1)" using d1(2) by (simp_all add: dict_ok_def)
  then obtain d' where d': "dict_run env (Insert k v) d1 h1 = Some (KERN_SUCCESS, d', h1)" "core d'"
    "dict_map content d' = (dict_map content d1)(content k \<mapsto> v)" "resize_buckets d' = resize_buckets d1" "undeleted d'"
    "nitems (buckets d') = nitems (buckets d1)"
    using insert_fits [OF _ assms(3) _ d1(5), where v = v and env = env and h = h1] d1(3) by auto
  have "kxld_dict_insert env d k v h = Some (KERN_SUCCESS, d', h1)"
    unfolding kxld_dict_insert_def using False d1(1) d'(1) by (subst dict_run.simps) (simp add: not_le)
  moreover have "unat (nitems (buckets d)) * 7 div 10 < card (dom (dict_map content d))"
    using False assms(2) num_entries_card [of d] threshold_nat [of "nitems (buckets d)"]
    by (simp add: dict_ok_def dict_core_def word_less_nat_alt not_le)
  then have "2 * unat (nitems (buckets d)) \<le> 3 * card (dom (dict_map content d))" by linarith
  ultimately show ?thesis using d' d1(4,6) b(2) by (auto simp: dict_ok_def)
qed

end

end
