(* ===== verification/Kxld_Props.thy ===== *)
theory Kxld_Props
  imports Kxld_Map Libc_String
begin

text \<open>
  Properties of the dictionaries of the kext linker: sequences of operations behave like a map, new
  dictionaries are sized so that they need not grow, the iterator, and what happens when a key is
  inserted again behind a deleted bucket.
\<close>

section \<open>Keys\<close>

interpretation uint32_keys: dict_keys "kxld_dict_uint32_hash m" "kxld_dict_uint32_cmp m" "\<lambda>k. k \<noteq> 0" "ld32 m"
  for m :: mem
  by unfold_locales
    (auto simp: kxld_dict_uint32_hash_def kxld_dict_uint32_cmp_def word_less_nat_alt unat_mod_distrib)

interpretation addr_keys: dict_keys "kxld_dict_kxldaddr_hash m" "kxld_dict_kxldaddr_cmp m" "\<lambda>k. k \<noteq> 0" "ld32 m"
  for m :: mem
  by unfold_locales
    (auto simp: kxld_dict_kxldaddr_hash_def kxld_dict_kxldaddr_cmp_def word_less_nat_alt unat_mod_distrib)

text \<open>A string key is a pointer to a terminated string; its content is the text.\<close>

definition string_key :: "mem \<Rightarrow> u32 \<Rightarrow> bool" where
  "string_key m k \<longleftrightarrow> k \<noteq> 0 \<and> (\<exists>s. cstr m k s)"

definition text_at :: "mem \<Rightarrow> u32 \<Rightarrow> u8 list" where
  "text_at m k = (case strlen m k of None \<Rightarrow> [] | Some n \<Rightarrow> bytes m k (unat n))"

lemma text_at_cstr: "cstr m k s \<Longrightarrow> text_at m k = s"
proof -
  assume c: "cstr m k s"
  then have "unat (of_nat (length s) :: u32) = length s" using cstr_length by (simp add: unat_of_nat)
  then show ?thesis using c by (intro nth_equalityI) (auto simp: text_at_def nth_bytes dest: cstr_nth)
qed

fun hash_text :: "u8 list \<Rightarrow> u32 \<Rightarrow> u32" where
  "hash_text [] v = v"
| "hash_text (c # s) v = hash_text s ((push_bit 5 v + v) XOR scast c)"

lemma string_hash_cstr: "cstr m k s \<Longrightarrow> string_hash_loop m k v = Some (hash_text s v)"
  by (induction s arbitrary: k v) (subst string_hash_loop.simps, simp)+

lemma strcmp_loop_cstr: "cstr m a s \<Longrightarrow> cstr m b t \<Longrightarrow> strcmp_loop m a b = Some (s = t)"
proof (induction s arbitrary: a b t)
  case Nil
  then show ?case by (cases t) (subst strcmp_loop.simps, auto)+
next
  case (Cons c s)
  then show ?case by (cases t) (subst strcmp_loop.simps, auto)+
qed

interpretation string_keys: dict_keys "kxld_dict_string_hash m" "kxld_dict_string_cmp m" "string_key m" "text_at m"
  for m :: mem
proof
  fix k n assume "string_key m k" "(0 :: u32) < n"
  then show "\<exists>i. kxld_dict_string_hash m n k = Some i \<and> i < n"
    by (auto simp: string_key_def kxld_dict_string_hash_def string_hash_cstr word_less_nat_alt unat_mod_distrib)
next
  fix k k' n assume "string_key m k" "string_key m k'" "text_at m k = text_at m k'"
  then show "kxld_dict_string_hash m n k = kxld_dict_string_hash m n k'"
    by (auto simp: string_key_def kxld_dict_string_hash_def string_hash_cstr text_at_cstr)
next
  fix k k' assume "string_key m k" "string_key m k'"
  then show "kxld_dict_string_cmp m k k' = Some (text_at m k = text_at m k')"
    by (auto simp: string_key_def kxld_dict_string_cmp_def strcmp_loop_cstr text_at_cstr)
qed (simp add: kxld_dict_string_cmp_def)

section \<open>New dictionaries\<close>

lemma unat_double:
  assumes "k < 24"
  shows "of_nat (90 * 2 ^ k - 1) * 2 + 1 = (of_nat (90 * 2 ^ (k + 1) - 1) :: u32)"
proof -
  obtain y where y: "90 * 2 ^ k = Suc y" using gr0_implies_Suc [of "90 * 2 ^ k"] by auto
  have "90 * 2 ^ (k + 1) = 2 * (90 * 2 ^ k :: nat)" by simp
  then have "90 * 2 ^ (k + 1) - 1 = (90 * 2 ^ k - 1) * 2 + (1 :: nat)" unfolding y by simp
  then show ?thesis by (simp only: of_nat_add of_nat_mult of_nat_1 of_nat_numeral)
qed

lemma bucket_sizes: "k \<le> 23 \<Longrightarrow> unat (of_nat (90 * 2 ^ k - 1) :: u32) = 90 * 2 ^ k - 1"
proof -
  assume "k \<le> 23"
  then have "(2 :: nat) ^ k \<le> 2 ^ 23" by (intro power_increasing) simp_all
  then have "90 * 2 ^ k - 1 < (2 :: nat) ^ 32" by simp
  then show ?thesis by (simp add: unat_of_nat del: of_nat_diff)
qed

text \<open>The sizes of the loop are 89, 179, 359 and so on; one of the first 24 is large enough.\<close>

lemma size_loop_from:
  assumes "k \<le> 23" "unat mn < 90 * 2 ^ 23"
  shows "\<exists>n. size_loop mn (of_nat (90 * 2 ^ k - 1)) = Some n \<and> mn \<le> n \<and> 90 * 2 ^ k - 1 \<le> unat n \<and>
    (n = of_nat (90 * 2 ^ k - 1) \<or> unat n \<le> 2 * unat mn)"
  using assms(1)
proof (induction "23 - k" arbitrary: k)
  case 0
  then have "\<not> mn > of_nat (90 * 2 ^ k - 1)" using assms(2) bucket_sizes [of k] by (simp add: word_less_nat_alt)
  then show ?case using bucket_sizes [of k] 0 by (subst size_loop.simps) auto
next
  case (Suc x)
  show ?case
  proof (cases "mn > of_nat (90 * 2 ^ k - 1)")
    case True
    obtain n where n: "size_loop mn (of_nat (90 * 2 ^ (k + 1) - 1)) = Some n" "mn \<le> n" "90 * 2 ^ (k + 1) - 1 \<le> unat n"
      "n = of_nat (90 * 2 ^ (k + 1) - 1) \<or> unat n \<le> 2 * unat mn"
    proof -
      have "x = 23 - (k + 1)" "k + 1 \<le> 23" using Suc.hyps(2) by linarith+
      from Suc.hyps(1) [OF this] show thesis using that by blast
    qed
    have "unat (of_nat (90 * 2 ^ (k + 1) - 1) :: u32) \<le> 2 * unat mn"
      using True bucket_sizes [of k] bucket_sizes [of "k + 1"] Suc.hyps(2) by (simp add: word_less_nat_alt)
    moreover have "size_loop mn (of_nat (90 * 2 ^ k - 1)) = size_loop mn (of_nat (90 * 2 ^ (k + 1) - 1))"
      using True unat_double [of k] Suc.prems by (subst size_loop.simps) (simp del: of_nat_diff)
    ultimately show ?thesis using n by auto
  next
    case False
    then show ?thesis using bucket_sizes [OF Suc.prems] by (subst size_loop.simps) auto
  qed
qed

text \<open>The size for a requested number of entries: enough that this many insertions need no resizing.\<close>

lemma min_buckets: "unat (MIN_BUCKETS n) \<le> 2 ^ 32 div 7" "unat n \<le> 2 ^ 25 \<Longrightarrow> unat (MIN_BUCKETS n) = unat n * 10 div 7"
proof -
  have "unat (n * 10) div 7 \<le> 2 ^ 32 div 7" using unat_u32 [of "n * 10"] by (intro div_le_mono) simp
  then show "unat (MIN_BUCKETS n) \<le> 2 ^ 32 div 7" by (simp add: MIN_BUCKETS_def unat_div_distrib)
  assume "unat n \<le> 2 ^ 25"
  then have "unat (n * 10) = unat n * 10" by (simp add: unat_word_ariths)
  then show "unat (MIN_BUCKETS n) = unat n * 10 div 7" by (simp add: MIN_BUCKETS_def unat_div_distrib)
qed

lemma size_loop_ends: "\<exists>s. size_loop (MIN_BUCKETS n) DEFAULT_DICT_SIZE = Some s \<and> MIN_BUCKETS n \<le> s \<and>
  (s = DEFAULT_DICT_SIZE \<or> unat s \<le> 2 * unat (MIN_BUCKETS n)) \<and> 89 \<le> unat s"
  using size_loop_from [of 0 "MIN_BUCKETS n"] min_buckets(1) [of n] by simp blast

definition zero_dict :: KXLDDict where
  "zero_dict = \<lparr>buckets = zero_array, resize_buckets = zero_array, dict_hash = (\<lambda>_ _. None), dict_cmp = (\<lambda>_ _. None),
     num_entries = 0, resize_threshold = 0\<rparr>"

context dict_keys
begin

lemma init_map:
  assumes "env_ok env" "unat n \<le> 2 ^ 25"
  shows "\<exists>d h'. kxld_dict_init env zero_dict hash cmp n h = Some (KERN_SUCCESS, d, h') \<and> dict_ok hash cmp valid content d \<and>
    dict_map content d = Map.empty \<and> undeleted d \<and> unat (nitems (buckets d)) \<le> 2 ^ 27 \<and>
    unat n \<le> unat (resize_threshold d) + 1"
proof -
  obtain s where s: "size_loop (MIN_BUCKETS n) DEFAULT_DICT_SIZE = Some s" "MIN_BUCKETS n \<le> s"
    "s = DEFAULT_DICT_SIZE \<or> unat s \<le> 2 * unat (MIN_BUCKETS n)" "89 \<le> unat s"
    using size_loop_ends [of n] by blast
  have le: "unat s \<le> 2 ^ 27" "unat n * 10 div 7 \<le> unat s"
    using s(2,3) min_buckets(2) [OF assms(2)] assms(2) by (auto simp: word_le_nat_alt)
  have "0 < s" using s(4) by (simp add: word_less_nat_alt)
  moreover have "unat entry_size * unat s + 4095 < 2 ^ 32" using le(1) by simp
  ultimately obtain a h1 where a: "kxld_array_init env zero_array entry_size s h = Some (KERN_SUCCESS, a, h1)" "fresh_array entry_size s a"
    using kxld_array_init_blank [OF assms(1), of entry_size zero_array s h] by auto
  note f = fresh_buckets [OF a(2) \<open>0 < s\<close>]
  have t: "unat (RESIZE_THRESHOLD s) = unat s * 7 div 10" using le(1) by (intro threshold_nat) simp
  have "unat n \<le> unat s * 7 div 10 + 1" using le(2) by linarith
  moreover have "table_ok hash valid content (entries a)" "filter used (entries a) = []" "table_map content (entries a) = Map.empty"
    "\<forall>x \<in> set (entries a). de_state x = EMPTY"
    unfolding f(2) by (simp_all only: empty_table) simp
  ultimately show ?thesis
    using s(1) a(1) f(1,3) le(1) t
    by (auto simp: kxld_dict_init_def zero_dict_def dict_ok_def dict_core_def dict_map_def undeleted_def
        blank_array_def zero_array_def)
qed

end

section \<open>A deleted bucket in front of a key\<close>

context dict_keys
begin

text \<open>
  When the bucket found for a key that is present is a deleted one, the insertion stores the key a
  second time, in front; the next removal takes that copy and the old value is back.
\<close>

lemma insert_shadows:
  assumes "core d" "valid k" "dict_map content d (content k) = Some old" "num_entries d \<le> resize_threshold d"
    and "get_insert_index d k = Some (Some idx)" "idx < nitems (buckets d)"
    and del: "entries (buckets d) ! unat idx = \<lparr>de_key = 0, de_value = 0, de_state = DELETED\<rparr>"
  shows "\<exists>d1 d2. kxld_dict_insert env d k v h = Some (KERN_SUCCESS, d1, h) \<and> kxld_dict_remove d1 k = Some (v, d2) \<and>
    kxld_dict_find d2 k = Some (or_null (Some old))"
proof -
  let ?n = "unat (nitems (buckets d))" and ?es = "entries (buckets d)" and ?i = "unat idx" and ?b = "home hash (unat (nitems (buckets d))) k"
  let ?e = "\<lparr>de_key = k, de_value = v, de_state = USED\<rparr>" and ?x = "\<lparr>de_key = 0, de_value = 0, de_state = DELETED\<rparr>"
  have ba: "bucket_array (buckets d)" using assms(1) by (simp add: dict_core_def)
  have i: "?i < ?n" using assms(6) by (simp add: word_less_nat_alt)
  have bn: "?b < ?n" using hash_home [OF assms(1,2)] by blast
  obtain j where j: "j < ?n" "idx = of_nat ((?b + j) mod ?n)" "\<And>j'. j' < j \<Longrightarrow> used (?es ! ((?b + j') mod ?n)) \<and>
      content (de_key (?es ! ((?b + j') mod ?n))) \<noteq> content k"
    using assms(5) walk_SomeD [of "\<lambda>e. used e \<longrightarrow> content (de_key e) = content k" "\<lambda>_. False" "rotate ?b ?es" 0]
    by (fastforce simp: insert_walk [OF assms(1,2)] nth_rotate)
  have "(?b + j) mod ?n < ?n" using i by simp
  then have "(?b + j) mod ?n < 2 ^ 32" using unat_u32 [of "nitems (buckets d)"] by (rule less_trans)
  then have ij: "?i = (?b + j) mod ?n" using j(2) by (simp add: unat_of_nat)
  obtain a1 where a1: "put_entry (buckets d) idx ?e = Some a1" "bucket_array a1" "nitems a1 = nitems (buckets d)" "entries a1 = ?es[?i := ?e]"
    using put_entry_ok [OF ba assms(6), of ?e] by blast
  obtain a2 where a2: "put_entry a1 idx ?x = Some a2" "bucket_array a2" "nitems a2 = nitems a1" "entries a2 = (entries a1)[?i := ?x]"
    using put_entry_ok [OF a1(2), of idx ?x] assms(6) a1(3) by auto
  define d1 where "d1 = d\<lparr>num_entries := num_entries d + 1, buckets := a1\<rparr>"
  define d2 where "d2 = d1\<lparr>buckets := a2, num_entries := num_entries d1 - 1\<rparr>"
  have "kxld_dict_insert env d k v h = Some (KERN_SUCCESS, d1, h)"
    using assms(4,5) get_entry_ok [OF ba assms(6)] del a1(1)
    unfolding kxld_dict_insert_def by (subst dict_run.simps) (auto simp: insert_entry_def d1_def)
  moreover have "slot_ok valid ?e" using assms(2) by (simp add: slot_ok_def used_def)
  then have f1: "frame d1"
    using core_frame [OF assms(1)] a1(2,4) set_update_subset_insert [of ?es ?i ?e] by (auto simp: frame_def d1_def)
  have "rotate ?b (entries a1) ! j' = (if j' = j then ?e else rotate ?b ?es ! j')" if "j' < ?n" for j'
    using that a1(3,4) i ij offset_inj [of ?b j' ?n j] j(1) by (auto simp: nth_rotate nth_list_update)
  then have "walk (\<lambda>e. used e \<and> content (de_key e) = content k) (\<lambda>e. de_state e = EMPTY) (rotate ?b (entries a1)) 0 = Some (0 + j)"
    using j(1,3) a1(3) by (intro walk_first) (auto simp: used_def nth_rotate)
  then have "get_locate_index d1 k = Some (Some idx)" using frame_walk [OF f1 assms(2)] a1(3) j(2) by (simp add: d1_def)
  then have "kxld_dict_remove d1 k = Some (v, d2)"
    using get_entry_ok [OF a1(2), of idx] assms(6) a1(3,4) a2(1) i by (simp add: kxld_dict_remove_def d1_def d2_def)
  moreover have e2: "entries (buckets d2) = ?es" using a2(4) a1(4) del i by (simp add: d2_def) (metis list_update_id)
  then have "core d2" using assms(1) a1(3) a2(2,3) by (simp add: dict_core_def d1_def d2_def)
  then have "kxld_dict_find d2 k = Some (or_null (Some old))"
    using find_map [OF _ assms(2), of d2] assms(3) e2 by (simp add: dict_map_def)
  ultimately show ?thesis by blast
qed

end

section \<open>Sequences of operations\<close>

datatype dict_op = Ins u32 u32 | Del u32 | Look u32

text \<open>The results are the return code, the removed value and the found value.\<close>

fun run_ops :: "kxld_env \<Rightarrow> dict_op list \<Rightarrow> KXLDDict \<Rightarrow> kxld_heap \<Rightarrow> (u32 list \<times> KXLDDict \<times> kxld_heap) option" where
  "run_ops env [] d h = Some ([], d, h)"
| "run_ops env (Ins k v # ops) d h = do {
     (rv, d1, h1) \<leftarrow> kxld_dict_insert env d k v h;
     (rs, d2, h2) \<leftarrow> run_ops env ops d1 h1;
     Some (rv # rs, d2, h2)
   }"
| "run_ops env (Del k # ops) d h = do {
     (v, d1) \<leftarrow> kxld_dict_remove d k;
     (rs, d2, h2) \<leftarrow> run_ops env ops d1 h;
     Some (v # rs, d2, h2)
   }"
| "run_ops env (Look k # ops) d h = do {
     v \<leftarrow> kxld_dict_find d k;
     (rs, d2, h2) \<leftarrow> run_ops env ops d h;
     Some (v # rs, d2, h2)
   }"

text \<open>The same operations on a map from the contents of keys to values.\<close>

fun map_ops :: "(u32 \<Rightarrow> 'k) \<Rightarrow> dict_op list \<Rightarrow> ('k \<rightharpoonup> u32) \<Rightarrow> u32 list \<times> ('k \<rightharpoonup> u32)" where
  "map_ops content [] m = ([], m)"
| "map_ops content (Ins k v # ops) m = apfst (Cons 0) (map_ops content ops (m(content k \<mapsto> v)))"
| "map_ops content (Del k # ops) m = apfst (Cons (or_null (m (content k)))) (map_ops content ops (m(content k := None)))"
| "map_ops content (Look k # ops) m = apfst (Cons (or_null (m (content k)))) (map_ops content ops m)"

text \<open>After a key has been removed, only new keys are inserted.\<close>

fun no_overwrite :: "(u32 \<Rightarrow> 'k) \<Rightarrow> bool \<Rightarrow> dict_op list \<Rightarrow> ('k \<rightharpoonup> u32) \<Rightarrow> bool" where
  "no_overwrite content removed [] m \<longleftrightarrow> True"
| "no_overwrite content removed (Ins k v # ops) m \<longleftrightarrow>
     (removed \<longrightarrow> m (content k) = None) \<and> no_overwrite content removed ops (m(content k \<mapsto> v))"
| "no_overwrite content removed (Del k # ops) m \<longleftrightarrow>
     no_overwrite content (removed \<or> m (content k) \<noteq> None) ops (m(content k := None))"
| "no_overwrite content removed (Look k # ops) m \<longleftrightarrow> no_overwrite content removed ops m"

fun op_key :: "dict_op \<Rightarrow> u32" where
  "op_key (Ins k v) = k" | "op_key (Del k) = k" | "op_key (Look k) = k"

lemma card_dom_upd: "finite (dom m) \<Longrightarrow> card (dom (m(c \<mapsto> v))) \<le> card (dom m) + 1" "finite (dom m) \<Longrightarrow> card (dom (m(c := None))) \<le> card (dom m)"
  by (simp_all add: card_insert_if card_Diff_singleton_if)

context dict_keys
begin

lemma finite_dict_map: "core d \<Longrightarrow> finite (dom (dict_map content d))"
proof -
  assume "core d"
  then have "dom (dict_map content d) \<subseteq> (\<lambda>e. content (de_key e)) ` set (entries (buckets d))"
    by (auto simp: dict_map_def table_map_def find_Some_iff)
  then show ?thesis by (rule finite_subset) simp
qed

lemma run_ops_map:
  assumes "env_ok env" "dict_ok hash cmp valid content d" "\<And>op. op \<in> set ops \<Longrightarrow> valid (op_key op)"
    and "no_overwrite content removed ops (dict_map content d)" "removed \<or> undeleted d"
    and "unat (nitems (buckets d)) \<le> 2 ^ 27" "3 * (card (dom (dict_map content d)) + length ops) \<le> 2 ^ 26"
  shows "\<exists>d' h'. run_ops env ops d h = Some (fst (map_ops content ops (dict_map content d)), d', h') \<and>
    dict_ok hash cmp valid content d' \<and> dict_map content d' = snd (map_ops content ops (dict_map content d))"
  using assms(2-7)
proof (induction ops arbitrary: d h removed)
  case Nil
  then show ?case by simp
next
  case (Cons op ops)
  have c: "core d" "valid (op_key op)" "finite (dom (dict_map content d))"
    using Cons.prems(1) Cons.prems(2) [of op] finite_dict_map by (simp_all add: dict_ok_def)
  note IH = Cons.IH
  show ?case
  proof (cases op)
    case (Ins k v)
    have "undeleted d \<or> dict_map content d (content k) = None" using Cons.prems(3,4) Ins by auto
    then obtain d1 h1 where d1: "kxld_dict_insert env d k v h = Some (KERN_SUCCESS, d1, h1)" "dict_ok hash cmp valid content d1"
      "dict_map content d1 = (dict_map content d)(content k \<mapsto> v)" "undeleted d \<longrightarrow> undeleted d1"
      "unat (nitems (buckets d1)) \<le> max (unat (nitems (buckets d))) (3 * card (dom (dict_map content d)) + 1)"
      using insert_map [OF assms(1) Cons.prems(1) _ _ Cons.prems(5), of k v h] c(2) Ins by auto
    obtain d2 h2 where "run_ops env ops d1 h1 = Some (fst (map_ops content ops (dict_map content d1)), d2, h2)"
      "dict_ok hash cmp valid content d2" "dict_map content d2 = snd (map_ops content ops (dict_map content d1))"
      using IH [OF d1(2), of removed h1] Cons.prems d1(3-5) Ins card_dom_upd(1) [OF c(3), of "content k" v] by fastforce
    then show ?thesis using d1(1,3) Ins by simp
  next
    case (Del k)
    obtain d1 where d1: "kxld_dict_remove d k = Some (or_null (dict_map content d (content k)), d1)" "core d1"
      "dict_map content d1 = (dict_map content d)(content k := None)" "resize_buckets d1 = resize_buckets d"
      "nitems (buckets d1) = nitems (buckets d)" "dict_map content d (content k) = None \<longrightarrow> d1 = d"
      using remove_map [OF c(1), of k] c(2) Del by auto
    have "dict_ok hash cmp valid content d1" using d1(2,4) Cons.prems(1) by (simp add: dict_ok_def)
    then obtain d2 h2 where "run_ops env ops d1 h = Some (fst (map_ops content ops (dict_map content d1)), d2, h2)"
      "dict_ok hash cmp valid content d2" "dict_map content d2 = snd (map_ops content ops (dict_map content d1))"
      using IH [of d1 "removed \<or> dict_map content d (content k) \<noteq> None" h] Cons.prems d1(3,5,6) Del
        card_dom_upd(2) [OF c(3), of "content k"] by fastforce
    then show ?thesis using d1(1,3) Del by simp
  next
    case (Look k)
    obtain d2 h2 where "run_ops env ops d h = Some (fst (map_ops content ops (dict_map content d)), d2, h2)"
      "dict_ok hash cmp valid content d2" "dict_map content d2 = snd (map_ops content ops (dict_map content d))"
      using IH [OF Cons.prems(1), of removed h] Cons.prems Look by fastforce
    then show ?thesis using find_map [OF c(1), of k] c(2) Look by simp
  qed
qed

end

text \<open>
  C21: a dictionary of the kext linker is a map. In a new dictionary for string keys, any sequence of
  insertions, removals and lookups returns (no loop runs forever, no access leaves a buffer) and gives
  the results of the same operations on a map from the texts of the keys to their values, resizing included;
  the condition is that a key that is present is not inserted again once some key has been removed.
\<close>

theorem string_dict_refines_map:
  assumes "env_ok env" "unat n \<le> 2 ^ 25" "length ops \<le> 2 ^ 24" "\<And>op. op \<in> set ops \<Longrightarrow> string_key m (op_key op)"
    and "no_overwrite (text_at m) False ops Map.empty"
  shows "\<exists>d h1 d' h'. kxld_dict_init env zero_dict (kxld_dict_string_hash m) (kxld_dict_string_cmp m) n h = Some (KERN_SUCCESS, d, h1) \<and>
    run_ops env ops d h1 = Some (fst (map_ops (text_at m) ops Map.empty), d', h') \<and>
    dict_map (text_at m) d' = snd (map_ops (text_at m) ops Map.empty)"
proof -
  obtain d h1 where d: "kxld_dict_init env zero_dict (kxld_dict_string_hash m) (kxld_dict_string_cmp m) n h = Some (KERN_SUCCESS, d, h1)"
    "dict_ok (kxld_dict_string_hash m) (kxld_dict_string_cmp m) (string_key m) (text_at m) d" "dict_map (text_at m) d = Map.empty"
    "undeleted d" "unat (nitems (buckets d)) \<le> 2 ^ 27"
    using string_keys.init_map [OF assms(1,2), of m h] by blast
  then show ?thesis
    using string_keys.run_ops_map [OF assms(1) d(2) assms(4), of ops False h1] assms(3,5) by fastforce
qed

text \<open>Memory with the strings \<open>a\<close> at 0x100 and \<open>b\<close> at 0x200, and an allocator that always succeeds.\<close>

definition ex_strings :: mem where
  "ex_strings = (\<lambda>_. 0)(0x100 := 0x61, 0x200 := 0x62)"

definition ex_kxld_env :: kxld_env where
  "ex_kxld_env = \<lparr>kalloc_ok = (\<lambda>_. True), page_alloc = (\<lambda>n c. Some (0x10000 * of_nat n)), stale_nitems = (\<lambda>_. 7)\<rparr>"

definition ex_heap :: kxld_heap where
  "ex_heap = \<lparr>allocs = 0, live = []\<rparr>"

lemma ex_env_ok: "env_ok ex_kxld_env"
  by (simp add: env_ok_def ex_kxld_env_def)

lemma ex_texts: "cstr ex_strings 0x100 [0x61]" "cstr ex_strings 0x200 [0x62]"
  by (simp_all add: ex_strings_def)

theorem string_dict_refines_map_witness:
  "\<exists>d h1 d' h'. kxld_dict_init ex_kxld_env zero_dict (kxld_dict_string_hash ex_strings) (kxld_dict_string_cmp ex_strings) 10 ex_heap =
      Some (KERN_SUCCESS, d, h1) \<and>
    run_ops ex_kxld_env [Ins 0x100 5, Ins 0x200 6, Ins 0x100 7, Look 0x100, Del 0x100, Look 0x100, Look 0x200] d h1 =
      Some ([0, 0, 0, 7, 7, 0, 6], d', h') \<and> dict_map (text_at ex_strings) d' = [[0x62] \<mapsto> 6]"
proof -
  have t: "text_at ex_strings 0x100 = [0x61]" "text_at ex_strings 0x200 = [0x62]"
    using text_at_cstr [OF ex_texts(1)] text_at_cstr [OF ex_texts(2)] by simp_all
  have k: "string_key ex_strings 0x100" "string_key ex_strings 0x200"
    unfolding string_key_def using exI [of "cstr ex_strings _", OF ex_texts(1)] exI [of "cstr ex_strings _", OF ex_texts(2)]
    by simp_all
  let ?ops = "[Ins 0x100 5, Ins 0x200 6, Ins 0x100 7, Look 0x100, Del 0x100, Look 0x100, Look 0x200]"
  have "map_ops (text_at ex_strings) ?ops Map.empty = ([0, 0, 0, 7, 7, 0, 6], [[0x62] \<mapsto> 6])"
    "no_overwrite (text_at ex_strings) False ?ops Map.empty"
    by (auto simp: t or_null_def fun_eq_iff)
  then show ?thesis
    using string_dict_refines_map [OF ex_env_ok, of 10 ?ops ex_strings ex_heap] t k by force
qed

text \<open>
  Sizing a dictionary always ends, and the size is enough: for every number of entries the loop of
  \<open>kxld_dict_init\<close> ends, and up to \<open>2 ^ 25\<close> entries the new dictionary takes this many insertions before the
  count exceeds the threshold for resizing.
\<close>

theorem kxld_dict_init_sizes:
  "size_loop (MIN_BUCKETS n) DEFAULT_DICT_SIZE \<noteq> None \<and>
   (env_ok env \<and> unat n \<le> 2 ^ 25 \<longrightarrow>
     (\<exists>d h'. kxld_dict_init env zero_dict (kxld_dict_uint32_hash m) (kxld_dict_uint32_cmp m) n h = Some (KERN_SUCCESS, d, h') \<and>
       num_entries d = 0 \<and> dict_map (ld32 m) d = Map.empty \<and> unat n \<le> unat (resize_threshold d) + 1))"
proof (intro conjI impI)
  show "size_loop (MIN_BUCKETS n) DEFAULT_DICT_SIZE \<noteq> None" using size_loop_ends [of n] by auto
  assume "env_ok env \<and> unat n \<le> 2 ^ 25"
  then obtain d h' where d: "kxld_dict_init env zero_dict (kxld_dict_uint32_hash m) (kxld_dict_uint32_cmp m) n h = Some (KERN_SUCCESS, d, h')"
    "dict_ok (kxld_dict_uint32_hash m) (kxld_dict_uint32_cmp m) (\<lambda>k. k \<noteq> 0) (ld32 m) d" "dict_map (ld32 m) d = Map.empty"
    "unat n \<le> unat (resize_threshold d) + 1"
    using uint32_keys.init_map [of env n m h] by blast
  then have "unat (num_entries d) = 0" using uint32_keys.num_entries_card [of m d] by (simp add: dict_ok_def)
  then show "\<exists>d h'. kxld_dict_init env zero_dict (kxld_dict_uint32_hash m) (kxld_dict_uint32_cmp m) n h = Some (KERN_SUCCESS, d, h') \<and>
      num_entries d = 0 \<and> dict_map (ld32 m) d = Map.empty \<and> unat n \<le> unat (resize_threshold d) + 1"
    using d by (auto simp: unat_eq_0)
qed

theorem kxld_dict_init_sizes_witness:
  "\<exists>d h'. kxld_dict_init ex_kxld_env zero_dict (kxld_dict_uint32_hash ex_strings) (kxld_dict_uint32_cmp ex_strings) 1000 ex_heap =
    Some (KERN_SUCCESS, d, h') \<and> 999 \<le> unat (resize_threshold d)"
  using kxld_dict_init_sizes [of 1000 ex_kxld_env ex_strings ex_heap] ex_env_ok by auto

text \<open>
  A value can come back after its key was removed. If the bucket that \<open>get_insert_index\<close> gives for a key
  that is already present is a deleted one in front of it, then \<open>kxld_dict_insert\<close> stores a second copy of
  the key instead of replacing the value; after \<open>kxld_dict_remove\<close>, which returns the new value,
  \<open>kxld_dict_find\<close> still finds the key, with the value from before the insertion.
\<close>

theorem removed_value_returns:
  assumes "dict_core (kxld_dict_uint32_hash m) (kxld_dict_uint32_cmp m) (\<lambda>k. k \<noteq> 0) (ld32 m) d" "k \<noteq> 0"
    and "kxld_dict_find d k = Some old" "old \<noteq> 0" "num_entries d \<le> resize_threshold d"
    and "get_insert_index d k = Some (Some idx)" "idx < nitems (buckets d)"
    and "entries (buckets d) ! unat idx = \<lparr>de_key = 0, de_value = 0, de_state = DELETED\<rparr>"
  shows "\<exists>d1 d2. kxld_dict_insert env d k v h = Some (KERN_SUCCESS, d1, h) \<and> kxld_dict_remove d1 k = Some (v, d2) \<and>
    kxld_dict_find d2 k = Some old"
proof -
  have "dict_map (ld32 m) d (ld32 m k) = Some old"
    using uint32_keys.find_map [OF assms(1,2)] assms(3,4) by (auto simp: or_null_def split: option.splits)
  then show ?thesis
    using uint32_keys.insert_shadows [OF assms(1,2) _ assms(5-8), of old env v h] by (simp add: or_null_def)
qed

text \<open>Three buckets: a deleted one, the key 3 (stored at 0x200) and an empty one.\<close>

definition ex_buckets :: "DictEntry list" where
  "ex_buckets = [\<lparr>de_key = 0, de_value = 0, de_state = DELETED\<rparr>, \<lparr>de_key = 0x200, de_value = 6, de_state = USED\<rparr>, empty_entry]"

definition ex_array :: KXLDArray where
  "ex_array = \<lparr>pools = [\<lparr>p_addr = 0x1000, p_buffer = Buf 36 (nth (concat (map entry_bytes ex_buckets))), p_nitems = 3\<rparr>],
     itemsize = 12, pool_capacity = 36, pool_maxitems = 3, nitems = 3, maxitems = 3, npools = 1\<rparr>"

definition ex_numbers :: mem where
  "ex_numbers = (\<lambda>_. 0)(0x200 := 3)"

definition ex_dict :: KXLDDict where
  "ex_dict = \<lparr>buckets = ex_array, resize_buckets = zero_array, dict_hash = kxld_dict_uint32_hash ex_numbers,
     dict_cmp = kxld_dict_uint32_cmp ex_numbers, num_entries = 1, resize_threshold = 2\<rparr>"

lemma ex_entries: "entries ex_array = ex_buckets"
  by code_simp

lemma ex_bucket_array: "bucket_array ex_array"
  by (simp add: bucket_array_def arr_ok_def pools_ok_def filled_def ex_array_def)

lemma ex_number: "ld32 ex_numbers 0x200 = 3"
  by (simp add: ld32_def ex_numbers_def le32_def)

lemma all_less_3: "(\<forall>i < (3 :: nat). P i) \<longleftrightarrow> P 0 \<and> P 1 \<and> P 2"
  by (auto simp: numeral_eq_Suc less_Suc_eq)

lemma ex_dict_core:
  "dict_core (kxld_dict_uint32_hash ex_numbers) (kxld_dict_uint32_cmp ex_numbers) (\<lambda>k. k \<noteq> 0) (ld32 ex_numbers) ex_dict"
proof -
  have "home (kxld_dict_uint32_hash ex_numbers) 3 0x200 = 0" by (simp add: home_def kxld_dict_uint32_hash_def ex_number)
  moreover have "length ex_buckets = 3" by (simp add: ex_buckets_def)
  ultimately have "table_ok (kxld_dict_uint32_hash ex_numbers) (\<lambda>k. k \<noteq> 0) (ld32 ex_numbers) ex_buckets"
    unfolding table_ok_def by (simp only: all_less_3) (simp add: ex_buckets_def slot_ok_def used_def)
  moreover have "filter used ex_buckets = [\<lparr>de_key = 0x200, de_value = 6, de_state = USED\<rparr>]" "nitems ex_array = 3"
    by (simp_all add: ex_buckets_def used_def ex_array_def)
  ultimately show ?thesis
    using ex_bucket_array by (simp add: dict_core_def ex_dict_def ex_entries RESIZE_THRESHOLD_def)
qed

theorem removed_value_returns_witness:
  "\<exists>d1 d2. kxld_dict_insert ex_kxld_env ex_dict 0x200 9 ex_heap = Some (KERN_SUCCESS, d1, ex_heap) \<and>
    kxld_dict_remove d1 0x200 = Some (9, d2) \<and> kxld_dict_find d2 0x200 = Some 6"
proof (rule removed_value_returns [OF ex_dict_core])
  have b: "get_entry (buckets ex_dict) i = Some (ex_buckets ! unat i)" if "i < 3" for i
    using get_entry_ok [OF ex_bucket_array, of i] that by (simp add: ex_dict_def ex_entries) (simp add: ex_array_def)
  have n: "nitems (buckets ex_dict) = 3" by (simp add: ex_dict_def ex_array_def)
  show "kxld_dict_find ex_dict 0x200 = Some 6"
    using uint32_keys.find_map [where k = "0x200", OF ex_dict_core]
    by (simp add: dict_map_def ex_dict_def ex_entries ex_buckets_def table_map_def used_def ex_number or_null_def)
  show "get_insert_index ex_dict 0x200 = Some (Some 0)"
    using b [of 0] by (simp add: get_insert_index_def ex_dict_def kxld_dict_uint32_hash_def ex_number ex_array_def insert_loop.simps ex_buckets_def)
  show "entries (buckets ex_dict) ! unat (0 :: u32) = \<lparr>de_key = 0, de_value = 0, de_state = DELETED\<rparr>"
    by (simp add: ex_dict_def ex_entries ex_buckets_def)
qed (simp_all add: ex_dict_def ex_array_def)

section \<open>Iterating\<close>

text \<open>A client's loop: the keys and values until the iterator returns a null key.\<close>

fun iterate :: "nat \<Rightarrow> KXLDDict \<Rightarrow> u32 \<Rightarrow> (u32 \<times> u32) list option" where
  "iterate 0 d idx = None"
| "iterate (Suc fuel) d idx = do {
     (idx', k, v) \<leftarrow> kxld_dict_iterator_get_next d idx;
     if k = 0 then Some [] else map_option (Cons (k, v)) (iterate fuel d idx')
   }"

lemma next_loop_list:
  assumes "bucket_array (buckets d)" "i \<le> unat (nitems (buckets d))"
  shows "next_loop d (of_nat i) = Some (case dropWhile (\<lambda>e. \<not> used e) (drop i (entries (buckets d))) of
    [] \<Rightarrow> (nitems (buckets d), 0, 0)
  | e # rest \<Rightarrow> (of_nat (unat (nitems (buckets d)) - length rest), de_key e, de_value e))"
  using assms(2)
proof (induction "unat (nitems (buckets d)) - i" arbitrary: i)
  case 0
  then have "of_nat i = nitems (buckets d)" "i = unat (nitems (buckets d))" by auto
  then show ?case by (subst next_loop.simps) simp
next
  case (Suc x)
  let ?n = "unat (nitems (buckets d))" and ?es = "entries (buckets d)"
  have i: "i < ?n" using Suc.hyps(2) by simp
  then have w: "of_nat i < nitems (buckets d)" using unat_u32 [of "nitems (buckets d)"] by (simp add: word_less_nat_alt unat_of_nat)
  have d: "drop i ?es = ?es ! i # drop (i + 1) ?es" using Cons_nth_drop_Suc [of i ?es] i by simp
  have "next_loop d (of_nat (i + 1)) = Some (case dropWhile (\<lambda>e. \<not> used e) (drop (i + 1) ?es) of
      [] \<Rightarrow> (nitems (buckets d), 0, 0) | e # rest \<Rightarrow> (of_nat (?n - length rest), de_key e, de_value e))"
    using Suc.hyps(2) by (intro Suc.hyps(1)) simp_all
  then show ?case
    using w d i get_entry_at [OF assms(1) i] by (subst next_loop.simps) (simp add: used_def add.commute)
qed

lemma dropWhile_split:
  assumes "dropWhile P xs = y # ys"
  shows "filter (\<lambda>x. \<not> P x) xs = y # filter (\<lambda>x. \<not> P x) ys \<and> ys = drop (length xs - length ys) xs"
proof -
  have xs: "takeWhile P xs @ y # ys = xs" using takeWhile_dropWhile_id [of P xs] assms by simp
  have "\<not> P y" "filter (\<lambda>x. \<not> P x) (takeWhile P xs) = []"
    using assms by (auto simp: filter_empty_conv dropWhile_eq_Cons_conv dest: set_takeWhileD)
  then have "filter (\<lambda>x. \<not> P x) (takeWhile P xs @ y # ys) = y # filter (\<lambda>x. \<not> P x) ys" by simp
  moreover have "ys = drop (length (takeWhile P xs @ y # ys) - length ys) (takeWhile P xs @ y # ys)" by simp
  ultimately show ?thesis unfolding xs by simp
qed

text \<open>
  The iterator visits every entry once. From the start, the iterator returns the keys and values of
  the used buckets in the order of the buckets, each once, and then a null key.
\<close>

theorem iterator_visits_entries:
  assumes "dict_core hash cmp valid content d" "\<not> valid 0" "unat (num_entries d) < fuel"
  shows "iterate fuel d kxld_dict_iterator_init = Some (map (\<lambda>e. (de_key e, de_value e)) (filter used (entries (buckets d))))"
proof -
  let ?es = "entries (buckets d)"
  have ba: "bucket_array (buckets d)" and v: "\<And>e. e \<in> set ?es \<Longrightarrow> used e \<Longrightarrow> de_key e \<noteq> 0"
    using assms(1,2) by (auto simp: dict_core_def table_ok_def slot_ok_def split: if_splits)
  have "length (filter used (drop i ?es)) < f \<Longrightarrow> i \<le> length ?es \<Longrightarrow>
      iterate f d (of_nat i) = Some (map (\<lambda>e. (de_key e, de_value e)) (filter used (drop i ?es)))" for f i
  proof (induction f arbitrary: i)
    case (Suc f)
    note nl = next_loop_list [OF ba, of i]
    show ?case
    proof (cases "dropWhile (\<lambda>e. \<not> used e) (drop i ?es)")
      case Nil
      then have "filter used (drop i ?es) = []" by (auto simp: filter_empty_conv dropWhile_eq_Nil_conv)
      then show ?thesis using nl Nil Suc.prems(2) by (simp add: kxld_dict_iterator_get_next_def)
    next
      case (Cons e rest)
      have f: "filter used (drop i ?es) = e # filter used rest" "rest = drop (length ?es - length rest) ?es"
        using dropWhile_split [OF Cons] length_dropWhile_le [of "\<lambda>e. \<not> used e" "drop i ?es"] Suc.prems(2) Cons by auto
      have "e \<in> set (filter used (drop i ?es))" using f(1) by simp
      then have "e \<in> set ?es" "used e" by (auto dest: in_set_dropD)
      then show ?thesis
        using nl Cons Suc f v [of e] Suc.IH [of "length ?es - length rest"]
        by (simp add: kxld_dict_iterator_get_next_def)
    qed
  qed simp
  from this [of 0 fuel] show ?thesis
    using assms(1,3) by (simp add: kxld_dict_iterator_init_def dict_core_def)
qed

theorem iterator_visits_entries_witness: "iterate 2 ex_dict kxld_dict_iterator_init = Some [(0x200, 6)]"
  using iterator_visits_entries [OF ex_dict_core, of 2]
  by (simp add: ex_dict_def ex_entries) (simp add: ex_buckets_def used_def)

end
