(* ===== verification/Kxld_Array_Props.thy ===== *)
theory Kxld_Array_Props
  imports Kxld_Items
begin

text \<open>
  Properties of the arrays of the kext linker: growing keeps the items, addresses and indices are
  inverse, removing is removing from a list, and a copy into an array of exactly the needed size fails.
\<close>

section \<open>Growing\<close>

lemma reinit_loop_ok:
  assumes "unat n \<le> length ps * unat maxi"
  shows "\<exists>qs. reinit_loop maxi n ps = (qs, 0) \<and> filled (unat maxi) (unat n) qs \<and> map p_buffer qs = map p_buffer ps"
  using assms
proof (induction ps arbitrary: n)
  case Nil
  then show ?case by (simp add: unat_eq_0)
next
  case (Cons p ps)
  show ?case
  proof (cases "n > maxi")
    case True
    then have u: "unat (n - maxi) = unat n - unat maxi" "unat maxi < unat n"
      using unat_sub [OF less_imp_le [OF True]] by (simp_all add: word_less_nat_alt)
    then have "unat (n - maxi) \<le> length ps * unat maxi" using Cons.prems by simp
    then obtain qs where "reinit_loop maxi (n - maxi) ps = (qs, 0)" "filled (unat maxi) (unat n - unat maxi) qs"
      "map p_buffer qs = map p_buffer ps"
      using Cons.IH [of "n - maxi"] u(1) by auto
    then show ?thesis using True u(2) by (simp add: filled_Cons)
  next
    case False
    obtain qs where "reinit_loop maxi 0 ps = (qs, 0)" "filled (unat maxi) 0 qs" "map p_buffer qs = map p_buffer ps"
      using Cons.IH [of 0] by auto
    then show ?thesis using False by (simp add: filled_Cons word_less_nat_alt not_less min_def)
  qed
qed

text \<open>The array after some pools have been added.\<close>

definition grown :: "KXLDArray \<Rightarrow> KXLDArray \<Rightarrow> bool" where
  "grown a a' \<longleftrightarrow> pools_ok a' \<and> itemsize a' = itemsize a \<and> pool_maxitems a' = pool_maxitems a \<and>
     pool_capacity a' = pool_capacity a \<and>
     (\<exists>new. pools a' = pools a @ new \<and> (\<forall>p \<in> set new. zero_buf (p_buffer p)))"

lemma grow_loop_ok:
  assumes "env_ok env" "grown a0 a" "unat n + unat (pool_maxitems a) < 2 ^ 32"
  shows "\<exists>a' h'. grow_loop env n a h = Some (True, a', h') \<and> grown a0 a' \<and> n \<le> maxitems a'"
  using assms(2,3)
proof (induction "unat n - unat (maxitems a)" arbitrary: a h rule: less_induct)
  case less
  show ?case
  proof (cases "n > maxitems a")
    case False
    then show ?thesis using less.prems by (subst grow_loop.simps) auto
  next
    case True
    obtain ad j h1 where c: "pool_create env (pool_capacity a) h = (Some \<lparr>p_addr = ad, p_buffer = buf_zero (unat (pool_capacity a)), p_nitems = j\<rparr>, h1)"
      using pool_create_ok [OF assms(1)] by blast
    let ?p = "\<lparr>p_addr = ad, p_buffer = buf_zero (unat (pool_capacity a)), p_nitems = j\<rparr>"
    let ?a = "a\<lparr>pools := pools a @ [?p], maxitems := maxitems a + pool_maxitems a, npools := npools a + 1\<rparr>"
    have g: "pools_ok a" using less.prems(1) by (simp add: grown_def)
    note b = pools_ok_bounds [OF g]
    have lt: "unat (maxitems a) < unat n" using True by (simp add: word_less_nat_alt)
    have m: "unat (maxitems a + pool_maxitems a) = unat (maxitems a) + unat (pool_maxitems a)"
      using lt less.prems(2) by (simp add: unat_word_ariths)
    have "unat (npools a) * 1 \<le> unat (maxitems a)" using g b(3) unfolding pools_ok_def by (metis mult_le_mono2 Suc_leI One_nat_def)
    then have "npools a < n" using lt by (simp add: word_less_nat_alt)
    then have np: "unat (npools a + 1) = unat (npools a) + 1" by (rule unat_plus_1)
    have "pools_ok ?a" using g m np by (auto simp: pools_ok_def)
    then have "grown a0 ?a" using less.prems(1) by (auto simp: grown_def)
    moreover have "unat n - unat (maxitems ?a) < unat n - unat (maxitems a)" using m b(3) lt by simp
    moreover have "unat n + unat (pool_maxitems ?a) < 2 ^ 32" using less.prems(2) by simp
    ultimately obtain a' h' where "grow_loop env n ?a h1 = Some (True, a', h')" "grown a0 a'" "n \<le> maxitems a'"
      using less.hyps [of ?a h1] by blast
    then show ?thesis using True c by (subst grow_loop.simps) simp
  qed
qed

lemma item_bytes_buffers:
  assumes "map p_buffer (pools a') = map p_buffer (pools a)" "itemsize a' = itemsize a" "pool_maxitems a' = pool_maxitems a"
    "fst (item_place a i) < length (pools a)"
  shows "item_bytes a' i = item_bytes a i"
proof -
  have "p_buffer (pools a' ! fst (item_place a i)) = p_buffer (pools a ! fst (item_place a i))"
    using assms(1,4) by (metis nth_map length_map)
  then show ?thesis using assms(2,3) by (simp add: item_bytes_def item_place_def Let_def)
qed

text \<open>
  C29: growing an array keeps its items. If the allocator succeeds, \<open>kxld_array_resize\<close> ends with
  success for every new size (as long as the number of slots fits 32 bits); the array has that many items, those
  below the old number are unchanged, and the slots of added pools are zero.
\<close>

theorem array_resize_keeps_items:
  assumes "env_ok env" "arr_ok a" "unat n + unat (pool_maxitems a) < 2 ^ 32"
  shows "\<exists>a' h'. kxld_array_resize env a n h = Some (KERN_SUCCESS, a', h') \<and> arr_ok a' \<and> nitems a' = n \<and>
    (\<forall>i. i < unat n \<and> i < unat (nitems a) \<longrightarrow> contents a' ! i = contents a ! i) \<and>
    (\<forall>i. i < unat n \<and> unat (maxitems a) \<le> i \<longrightarrow> contents a' ! i = replicate (unat (itemsize a)) 0)"
proof -
  have ok: "pools_ok a" using assms(2) by (simp add: arr_ok_def)
  then have "grown a a" by (simp add: grown_def)
  then obtain a1 h1 where g: "grow_loop env n a h = Some (True, a1, h1)" "grown a a1" "n \<le> maxitems a1"
    using grow_loop_ok [OF assms(1) _ assms(3)] by blast
  then obtain new where new: "pools a1 = pools a @ new" "\<And>p. p \<in> set new \<Longrightarrow> zero_buf (p_buffer p)"
    and s: "pools_ok a1" "itemsize a1 = itemsize a" "pool_maxitems a1 = pool_maxitems a" "pool_capacity a1 = pool_capacity a"
    by (auto simp: grown_def)
  obtain qs where qs: "reinit_loop (pool_maxitems a1) n (pools a1) = (qs, 0)" "filled (unat (pool_maxitems a1)) (unat n) qs"
    "map p_buffer qs = map p_buffer (pools a1)"
    using reinit_loop_ok [of n "pools a1" "pool_maxitems a1"] g(3) s(1) by (auto simp: pools_ok_def word_le_nat_alt)
  let ?a = "a1\<lparr>pools := qs, nitems := n\<rparr>"
  have r: "kxld_array_resize env a n h = Some (KERN_SUCCESS, ?a, h1)"
    using g(1) qs(1) by (simp add: kxld_array_resize_def reinit_pools_def)
  have "length qs = length (pools a1)" using qs(3) map_eq_imp_length_eq by blast
  moreover have "\<forall>p \<in> set qs. buf_len (p_buffer p) = unat (pool_capacity a1)"
    using s(1) qs(3) unfolding pools_ok_def by (metis image_eqI image_iff list.set_map)
  ultimately have ok': "arr_ok ?a" using s(1) qs(2) g(3) by (auto simp: arr_ok_def pools_ok_def)
  have place: "item_place ?a i = item_place a i" "item_place a1 i = item_place a i" for i by (simp_all add: item_place_def s)
  have le: "fst (item_place a1 i) < length (pools a1)" if "i < unat n" for i
    using item_place_ok(1) [OF s(1)] that g(3) by (simp add: word_le_nat_alt)
  have bytes: "item_bytes ?a i = item_bytes a1 i" if "i < unat n" for i
    using that le qs(3) by (intro item_bytes_buffers) simp_all
  have "item_bytes a1 i = item_bytes a i" if "i < unat n" "i < unat (nitems a)" for i
    using item_place_ok(1) [OF ok arr_ok_max [OF assms(2) that(2)]] new(1)
    by (simp add: item_bytes_def place(2) s(2) Let_def case_prod_beta nth_append)
  moreover have "item_bytes a1 i = replicate (unat (itemsize a)) 0" if i: "i < unat n" "unat (maxitems a) \<le> i" for i
  proof -
    have M: "0 < unat (pool_maxitems a)" by (rule pools_ok_bounds [OF ok])
    have "length (pools a) \<le> fst (item_place a1 i)"
      using i(2) ok M by (simp add: item_place_def s(3) pools_ok_def less_eq_div_iff_mult_less_eq)
    then have "pools a1 ! fst (item_place a1 i) \<in> set new" using le [OF i(1)] by (simp add: new(1) nth_append)
    then show ?thesis
      using new(2) item_place_ok(2) [OF s(1), of i] i(1) g(3) s(2)
      by (intro nth_equalityI) (auto simp: item_bytes_def zero_buf_def Let_def case_prod_beta word_le_nat_alt)
  qed
  ultimately show ?thesis using r ok' bytes by auto
qed

text \<open>A one-page array of 1000 words.\<close>

definition word_array :: KXLDArray where
  "word_array = \<lparr>pools = [\<lparr>p_addr = 0x10000, p_buffer = Buf 4096 of_nat, p_nitems = 1000\<rparr>], itemsize = 4,
     pool_capacity = 4096, pool_maxitems = 1024, nitems = 1000, maxitems = 1024, npools = 1\<rparr>"

definition plain_env :: kxld_env where
  "plain_env = \<lparr>kalloc_ok = \<lambda>n. True, page_alloc = \<lambda>n c. Some (0x100000 * of_nat n), stale_nitems = \<lambda>n. 7\<rparr>"

lemma word_array_ok: "arr_ok word_array" "env_ok plain_env"
  by (simp_all add: arr_ok_def pools_ok_def filled_def word_array_def env_ok_def plain_env_def)

theorem array_resize_keeps_items_witness:
  "\<exists>a' h'. kxld_array_resize plain_env word_array 3000 \<lparr>allocs = 0, live = []\<rparr> = Some (KERN_SUCCESS, a', h') \<and>
     nitems a' = 3000 \<and> contents a' ! 1 = contents word_array ! 1 \<and> contents a' ! 2999 = [0, 0, 0, 0]"
proof -
  have "unat (3000 :: u32) + unat (pool_maxitems word_array) < 2 ^ 32" by (simp add: word_array_def)
  from array_resize_keeps_items [OF word_array_ok(2,1) this, of "\<lparr>allocs = 0, live = []\<rparr>"]
  obtain a' h' where r: "kxld_array_resize plain_env word_array 3000 \<lparr>allocs = 0, live = []\<rparr> = Some (KERN_SUCCESS, a', h')"
    "nitems a' = 3000" and low: "\<And>i. i < 3000 \<and> i < unat (nitems word_array) \<Longrightarrow> contents a' ! i = contents word_array ! i"
    and high: "\<And>i. i < 3000 \<and> unat (maxitems word_array) \<le> i \<Longrightarrow> contents a' ! i = replicate (unat (itemsize word_array)) 0"
    by auto
  have "replicate (unat (itemsize word_array)) (0 :: u8) = [0, 0, 0, 0]" by (simp add: word_array_def) (simp add: numeral_eq_Suc)
  then show ?thesis using r low [of 1] high [of 2999] by (simp add: word_array_def)
qed

section \<open>Removing\<close>

lemma item_bytes_first:
  assumes "i < unat (pool_maxitems a)" "pools a = p # ps"
  shows "item_bytes a i = map (buf_cells (p_buffer p)) [i * unat (itemsize a)..<i * unat (itemsize a) + unat (itemsize a)]"
  using assms by (simp add: item_bytes_def item_place_def)

text \<open>An array whose items are all in its first pool.\<close>

lemma first_pool:
  assumes "arr_ok a" "i < nitems a" "npools a < 2 \<or> nitems a < pool_maxitems a"
  shows "\<exists>p ps. pools a = p # ps \<and> p_nitems p = nitems a \<and> nitems a \<le> pool_maxitems a \<and>
    buf_len (p_buffer p) = unat (pool_capacity a)"
proof -
  have "length (pools a) \<noteq> 0" using assms by (auto simp: arr_ok_def pools_ok_def word_le_nat_alt word_less_nat_alt)
  then obtain p ps where p: "pools a = p # ps" by (cases "pools a") auto
  have "nitems a \<le> pool_maxitems a"
  proof (cases "nitems a < pool_maxitems a")
    case False
    then have "length (pools a) < 2" using assms by (simp add: arr_ok_def pools_ok_def word_less_nat_alt)
    then show ?thesis using assms(1) p by (auto simp: arr_ok_def pools_ok_def word_le_nat_alt)
  qed simp
  then show ?thesis using assms(1) p by (auto simp: arr_ok_def pools_ok_def filled_Cons word_le_nat_alt word_unat_eq_iff)
qed

text \<open>Moving the bytes of the items after the removed one down and zeroing the last slot.\<close>

lemma shift_down:
  assumes "k < N" "N * s \<le> buf_len b"
  shows "\<exists>b1 b2. buf_bytes b ((k + 1) * s) (s * (N - k - 1)) \<bind> (\<lambda>bs. buf_blit b (k * s) bs) = Some b1 \<and>
    buf_bzero b1 ((N - 1) * s) s = Some b2 \<and> buf_len b2 = buf_len b \<and>
    (\<forall>x < (N - 1) * s. buf_cells b2 x = buf_cells b (if x < k * s then x else x + s))"
proof -
  define d where "d = N - k - 1"
  have N: "N = k + d + 1" using assms(1) by (simp add: d_def)
  let ?bs = "map (buf_cells b) [(k + 1) * s..<(k + 1) * s + s * d]"
  let ?b1 = "Buf (buf_len b) (\<lambda>x. if k * s \<le> x \<and> x < k * s + length ?bs then ?bs ! (x - k * s) else buf_cells b x)"
  have le: "(k + 1) * s + s * d \<le> buf_len b" using assms(2) by (simp add: N algebra_simps)
  have 1: "buf_bytes b ((k + 1) * s) (s * d) \<bind> (\<lambda>bs. buf_blit b (k * s) bs) = Some ?b1"
    using buf_blit_Some [of "k * s" ?bs b] le by (simp add: buf_bytes_def)
  have "(k + d) * s + s \<le> buf_len ?b1" using le by (simp add: algebra_simps)
  then obtain b2 where 2: "buf_bzero ?b1 ((k + d) * s) s = Some b2" "buf_len b2 = buf_len b"
    "\<And>x. x < (k + d) * s \<Longrightarrow> buf_cells b2 x = buf_cells ?b1 x"
    using buf_blit_Some [of "(k + d) * s" "replicate s 0" ?b1] by (auto simp: buf_bzero_def)
  have "buf_cells ?b1 x = buf_cells b (if x < k * s then x else x + s)" if "x < (k + d) * s" for x
    using that by (auto simp: algebra_simps not_less intro!: arg_cong [where f = "buf_cells b"])
  then show ?thesis using 1 2 by (auto simp: N d_def [symmetric])
qed

lemma contents_shifted:
  fixes a :: KXLDArray
  assumes "pools a = p # ps" "k < unat (nitems a)" "unat (nitems a) \<le> unat (pool_maxitems a)"
    "unat n = unat (nitems a) - 1" "p_buffer q = b"
    "\<And>x. x < (unat (nitems a) - 1) * unat (itemsize a) \<Longrightarrow>
      buf_cells b x = buf_cells (p_buffer p) (if x < k * unat (itemsize a) then x else x + unat (itemsize a))"
  shows "contents (a\<lparr>pools := q # ps, nitems := n\<rparr>) = take k (contents a) @ drop (k + 1) (contents a)"
proof (rule nth_equalityI)
  let ?a = "a\<lparr>pools := q # ps, nitems := n\<rparr>" and ?N = "unat (nitems a)" and ?s = "unat (itemsize a)"
  fix j assume "j < length (contents ?a)"
  then have j: "j < ?N - 1" using assms(4) by simp
  have le: "j * ?s + ?s \<le> (?N - 1) * ?s" using mult_le_mono1 [of "j + 1" "?N - 1" ?s] j by simp
  have new: "item_bytes ?a j = map (buf_cells b) [j * ?s..<j * ?s + ?s]"
    using item_bytes_first [of j ?a q ps] j assms(3,5) by simp
  have old: "item_bytes a m = map (buf_cells (p_buffer p)) [m * ?s..<m * ?s + ?s]" if "m < ?N" for m
    using item_bytes_first [OF _ assms(1)] that assms(3) by simp
  have "item_bytes ?a j = item_bytes a (if j < k then j else j + 1)"
  proof (cases "j < k")
    case True
    then have "j * ?s + ?s \<le> k * ?s" using mult_le_mono1 [of "j + 1" k ?s] by simp
    then show ?thesis using new old [of j] True assms(2,6) le by simp
  next
    case False
    then have ge: "\<not> j * ?s + x < k * ?s" for x using mult_le_mono1 [of k j ?s] by linarith
    have "buf_cells b (j * ?s + x) = buf_cells (p_buffer p) ((j + 1) * ?s + x)" if "x < ?s" for x
      using assms(6) [of "j * ?s + x"] le ge that by (simp add: ac_simps)
    then show ?thesis using new old [of "j + 1"] False j by (intro nth_equalityI) auto
  qed
  then show "contents ?a ! j = (take k (contents a) @ drop (k + 1) (contents a)) ! j"
    using j assms(2,4) by (auto simp: nth_append)
qed (use assms in simp)

text \<open>
  Removing an item deletes it from the list of items. When all items are in one pool,
  \<open>kxld_array_remove\<close> of a valid index succeeds, the invariant holds, and the items are the others in order.
  An index past the end changes nothing; items spread over several pools give \<open>KERN_NOT_SUPPORTED\<close>.
\<close>

theorem array_remove_deletes:
  assumes "arr_ok a"
  shows "if nitems a \<le> i then kxld_array_remove a i = Some (KERN_SUCCESS, a)
    else if npools a < 2 \<or> nitems a < pool_maxitems a
    then \<exists>a'. kxld_array_remove a i = Some (KERN_SUCCESS, a') \<and> arr_ok a' \<and>
      contents a' = take (unat i) (contents a) @ drop (unat i + 1) (contents a)
    else kxld_array_remove a i = Some (KERN_NOT_SUPPORTED, a)"
proof -
  have "\<exists>a'. kxld_array_remove a i = Some (KERN_SUCCESS, a') \<and> arr_ok a' \<and>
      contents a' = take (unat i) (contents a) @ drop (unat i + 1) (contents a)"
    if lt: "i < nitems a" and one: "npools a < 2 \<or> nitems a < pool_maxitems a"
  proof -
    obtain p ps where p: "pools a = p # ps" "p_nitems p = nitems a" "nitems a \<le> pool_maxitems a"
      "buf_len (p_buffer p) = unat (pool_capacity a)"
      using first_pool [OF assms lt one] by blast
    have ok: "pools_ok a" using assms by (simp add: arr_ok_def)
    define s where "s = unat (itemsize a)"
    define N where "N = unat (nitems a)"
    define k where "k = unat i"
    have kN: "k < N" "N \<le> unat (pool_maxitems a)" using lt p(3) by (simp_all add: k_def N_def word_less_nat_alt word_le_nat_alt)
    have fit: "unat (w * itemsize a) = unat w * s" "unat w * s \<le> unat (pool_capacity a)" if "unat w \<le> N" for w
    proof -
      show le: "unat w * s \<le> unat (pool_capacity a)"
        using pools_ok_bounds(1) [OF ok] that kN(2) unfolding s_def by (meson le_trans mult_le_mono1)
      then show "unat (w * itemsize a) = unat w * s"
        using unat_u32 [of "pool_capacity a"] by (simp add: unat_word_ariths s_def)
    qed
    have i1: "unat (i + 1) = k + 1" using lt by (simp add: unat_plus_1 k_def)
    have n1: "unat (nitems a - 1) = N - 1" using unat_sub [of 1 "nitems a"] kN by (simp add: N_def word_le_nat_alt)
    have n2: "unat (nitems a - i - 1) = N - k - 1"
      using unat_sub [of 1 "nitems a - i"] unat_sub [of i "nitems a"] lt kN by (simp add: N_def k_def word_le_nat_alt less_imp_le)
    obtain b1 b2 where b: "buf_bytes (p_buffer p) ((k + 1) * s) (s * (N - k - 1)) \<bind> (\<lambda>bs. buf_blit (p_buffer p) (k * s) bs) = Some b1"
      "buf_bzero b1 ((N - 1) * s) s = Some b2" "buf_len b2 = buf_len (p_buffer p)"
      "\<And>x. x < (N - 1) * s \<Longrightarrow> buf_cells b2 x = buf_cells (p_buffer p) (if x < k * s then x else x + s)"
      using shift_down [of k N s "p_buffer p"] kN(1) fit(2) [of "nitems a"] p(4) by (auto simp: N_def)
    have u: "unat (i * itemsize a) = k * s" "unat ((i + 1) * itemsize a) = (k + 1) * s"
      "unat (itemsize a * (nitems a - i - 1)) = s * (N - k - 1)" "unat ((nitems a - 1) * itemsize a) = (N - 1) * s"
      using fit(1) [of i] fit(1) [of "i + 1"] fit(1) [of "nitems a - i - 1"] fit(1) [of "nitems a - 1"] i1 n1 n2 kN
      by (simp_all add: k_def mult.commute)
    let ?a = "a\<lparr>pools := p\<lparr>p_buffer := b2, p_nitems := nitems a - 1\<rparr> # ps, nitems := nitems a - 1\<rparr>"
    have "kxld_array_remove a i = Some (KERN_SUCCESS, ?a)"
      using b(1,2) lt one by (simp add: kxld_array_remove_def p(1,2) u s_def [symmetric] Let_def not_le bind_eq_Some_conv) auto
    moreover have "arr_ok ?a"
      using assms p(1,4) b(3) kN n1 by (auto simp: arr_ok_def pools_ok_def filled_Cons word_le_nat_alt N_def)
    moreover have "contents ?a = take k (contents a) @ drop (k + 1) (contents a)"
      using kN n1 b(4) unfolding N_def s_def by (intro contents_shifted [OF p(1)]) auto
    ultimately show ?thesis by (auto simp: k_def)
  qed
  then show ?thesis by (auto simp: kxld_array_remove_def not_le)
qed

theorem array_remove_deletes_witness:
  "\<exists>a'. kxld_array_remove word_array 2 = Some (KERN_SUCCESS, a') \<and> contents a' ! 2 = contents word_array ! 3"
proof -
  have "\<exists>a'. kxld_array_remove word_array 2 = Some (KERN_SUCCESS, a') \<and> arr_ok a' \<and>
      contents a' = take 2 (contents word_array) @ drop 3 (contents word_array)"
    using array_remove_deletes [OF word_array_ok(1), of 2] by (simp add: word_array_def)
  then show ?thesis by (auto simp: nth_append word_array_def)
qed

section \<open>Addresses and indices\<close>

text \<open>The pools lie in the address space without overlapping.\<close>

definition pool_has :: "KXLDArray \<Rightarrow> KXLDArrayPool \<Rightarrow> u32 \<Rightarrow> bool" where
  "pool_has a p x \<longleftrightarrow> unat (p_addr p) \<le> unat x \<and> unat x < unat (p_addr p) + unat (pool_capacity a)"

definition pools_apart :: "KXLDArray \<Rightarrow> bool" where
  "pools_apart a \<longleftrightarrow>
     (\<forall>p \<in> set (pools a). unat (p_addr p) + unat (pool_capacity a) < 2 ^ 32) \<and>
     (\<forall>k < length (pools a). \<forall>l < k.
        unat (p_addr (pools a ! k)) + unat (pool_capacity a) \<le> unat (p_addr (pools a ! l)) \<or>
        unat (p_addr (pools a ! l)) + unat (pool_capacity a) \<le> unat (p_addr (pools a ! k)))"

lemma get_index_loop_at:
  assumes "k < length ps" "pool_has a (ps ! k) x" "\<And>l. l < k \<Longrightarrow> \<not> pool_has a (ps ! l) x"
    "\<And>p. p \<in> set ps \<Longrightarrow> unat (p_addr p) + unat (pool_capacity a) < 2 ^ 32"
  shows "get_index_loop a x base ps =
    Some ((x - p_addr (ps ! k)) div itemsize a + (base + of_nat k * pool_maxitems a))"
  using assms
proof (induction ps arbitrary: k base)
  case (Cons p ps)
  have has: "p_addr p \<le> x \<and> x < p_addr p + pool_capacity a \<longleftrightarrow> pool_has a p x"
    using Cons.prems(4) [of p] by (simp add: pool_has_def word_le_nat_alt word_less_nat_alt unat_word_ariths)
  show ?case
  proof (cases k)
    case 0
    then show ?thesis using Cons.prems(2) has by simp
  next
    case (Suc j)
    then have "\<not> pool_has a p x" using Cons.prems(3) [of 0] by simp
    moreover have "\<not> pool_has a (ps ! l) x" if "l < j" for l using Cons.prems(3) [of "Suc l"] that Suc by simp
    ultimately have "get_index_loop a x base (p # ps) =
        Some ((x - p_addr (ps ! j)) div itemsize a + (base + pool_maxitems a + of_nat j * pool_maxitems a))"
      using Cons.IH [of j "base + pool_maxitems a"] Cons.prems(1,2,4) Suc has by auto
    then show ?thesis using Suc by (simp add: algebra_simps)
  qed
qed simp

text \<open>
  An address of an item gives its index. In an array whose pools do not overlap, the pointer that
  \<open>kxld_array_get_item\<close> returns for an index, and every address inside that item, is mapped back
  to the index by \<open>kxld_array_get_index\<close>.
\<close>

theorem array_index_of_item:
  assumes "arr_ok a" "pools_apart a" "i < nitems a" "unat off < unat (itemsize a)"
  shows "\<exists>p. kxld_array_get_item a i = Some p \<and> kxld_array_get_index a (item_addr a p + off) = Some i"
proof -
  have ok: "pools_ok a" using assms(1) by (simp add: arr_ok_def)
  let ?M = "unat (pool_maxitems a)" and ?s = "unat (itemsize a)"
  define k where "k = unat i div ?M"
  define j where "j = unat i mod ?M"
  note b = pools_ok_bounds [OF ok]
  have i: "unat i < unat (maxitems a)" using arr_ok_max [OF assms(1)] assms(3) by (simp add: word_less_nat_alt)
  have place: "item_place a (unat i) = (k, j * ?s)" by (simp add: item_place_def k_def j_def)
  have kl: "k < length (pools a)" using item_place_ok(1) [OF ok i] place by simp
  have jm: "j < ?M" using b(3) by (simp add: j_def)
  define p where "p = pools a ! k"
  have end_p: "unat (p_addr p) + unat (pool_capacity a) < 2 ^ 32" using assms(2) kl by (simp add: pools_apart_def p_def)
  have fit: "j * ?s + unat off < unat (pool_capacity a)" using slot_fits(1) [OF ok jm] assms(4) by simp
  define x where "x = item_addr a (k, j * ?s) + off"
  have u: "unat x = unat (p_addr p) + (j * ?s + unat off)"
    using fit end_p
    by (simp add: x_def item_addr_def p_def [symmetric] unat_word_ariths unat_of_nat add.assoc mod_simps del: of_nat_mult)
  have has: "pool_has a p x" using u fit by (simp add: pool_has_def)
  have "\<not> pool_has a (pools a ! l) x" if "l < k" for l
    using assms(2) that kl has unfolding pools_apart_def pool_has_def p_def by fastforce
  then have "kxld_array_get_index a x = Some ((x - p_addr p) div itemsize a + of_nat k * pool_maxitems a)"
    using get_index_loop_at [of k "pools a" a x 0] kl has assms(2)
    by (auto simp: kxld_array_get_index_def p_def pools_apart_def)
  moreover have "(x - p_addr p) div itemsize a + of_nat k * pool_maxitems a = i"
  proof (rule word_unat_eq_iff [THEN iffD2])
    have "unat (x - p_addr p) = j * ?s + unat off" using u by (simp add: unat_sub word_le_nat_alt)
    then have "unat ((x - p_addr p) div itemsize a) = j" using assms(4) by (simp add: unat_div_distrib)
    moreover have "j + k * ?M = unat i" by (simp add: j_def k_def)
    ultimately show "unat ((x - p_addr p) div itemsize a + of_nat k * pool_maxitems a) = unat i"
      using unat_u32 [of i] by (simp add: unat_word_ariths unat_of_nat mod_simps)
  qed
  ultimately show ?thesis using get_item_ok [OF assms(1,3)] place by (simp add: x_def)
qed

theorem array_index_of_item_witness:
  "\<exists>p. kxld_array_get_item word_array 700 = Some p \<and> kxld_array_get_index word_array (item_addr word_array p + 3) = Some 700"
proof -
  have "pools_apart word_array" by (simp add: pools_apart_def word_array_def)
  moreover have "700 < nitems word_array" "unat (3 :: u32) < unat (itemsize word_array)" by (simp_all add: word_array_def)
  ultimately show ?thesis by (rule array_index_of_item [OF word_array_ok(1)])
qed

section \<open>Copying\<close>

text \<open>
  A copy that fits exactly fails. \<open>kxld_array_copy\<close> keeps the pool of the destination when it is at
  least as large as the rounded size of the source, but \<open>array_init\<close> then asks for a pool that is strictly larger
  than the items: with a source that fills its pages, the copy into a destination of the same size returns
  \<open>KERN_FAILURE\<close>, though the items would fit.
\<close>

theorem array_copy_exact_fit_fails:
  assumes "arr_ok src" "arr_ok dst" "npools dst = 1"
    and "unat (nitems src) * unat (itemsize src) = unat (pool_capacity dst)"
    and "round_page (pool_capacity dst) = pool_capacity dst"
  shows "kxld_array_copy env dst src h = Some (KERN_FAILURE, dst\<lparr>itemsize := itemsize src\<rparr>, h)"
proof -
  have "nitems src * itemsize src = pool_capacity dst"
    using assms(4) unat_u32 [of "pool_capacity dst"] by (simp add: word_unat_eq_iff unat_word_ariths)
  moreover obtain p ps where "pools dst = p # ps"
    using assms(2,3) by (cases "pools dst") (auto simp: arr_ok_def pools_ok_def)
  moreover have "itemsize src \<noteq> 0" using assms(1) by (auto simp: arr_ok_def pools_ok_def)
  ultimately show ?thesis
    using assms(3,5) by (simp add: kxld_array_copy_def array_init_def mult.commute)
qed

text \<open>A page full of words.\<close>

definition full_array :: KXLDArray where
  "full_array = word_array\<lparr>pools := [\<lparr>p_addr = 0x10000, p_buffer = Buf 4096 of_nat, p_nitems = 1024\<rparr>], nitems := 1024\<rparr>"

theorem array_copy_exact_fit_fails_witness:
  "kxld_array_copy plain_env word_array full_array \<lparr>allocs = 0, live = []\<rparr> =
     Some (KERN_FAILURE, word_array, \<lparr>allocs = 0, live = []\<rparr>)"
proof -
  have "arr_ok full_array" by (simp add: arr_ok_def pools_ok_def filled_def full_array_def word_array_def)
  moreover have "round_page (pool_capacity word_array) = pool_capacity word_array"
    by (simp add: round_page_def word_array_def)
  moreover have "npools word_array = 1" "word_array\<lparr>itemsize := itemsize full_array\<rparr> = word_array"
    "unat (nitems full_array) * unat (itemsize full_array) = unat (pool_capacity word_array)"
    by (simp_all add: word_array_def full_array_def)
  ultimately show ?thesis using array_copy_exact_fit_fails [OF _ word_array_ok(1)] by metis
qed

end
