(* ===== verification/Xc_Ini.thy ===== *)
theory Xc_Ini
  imports Prelude
begin

text \<open>
  The configuration file parser of \<open>xcrun\<close>, \<open>SDK/xcode_tools/xcrun/ini.c\<close> with the settings of \<open>ini.h\<close> (several
  lines for one value allowed, byte order mark allowed, lines of at most 200 bytes). A file is the list of its
  characters; the line buffer is the string in it up to the first NUL, and pointers into it are
  suffixes. The handler gets the user data, section, name and value, and returns whether it accepts them and the new
  user data. Read errors and line numbers above \<open>2 ^ 31\<close> are left out.
\<close>

section \<open>Strings\<close>

definition NUL :: char where "NUL = CHR 0x00"
definition newline :: char where "newline = CHR 0x0A"

definition isspace_char :: "char \<Rightarrow> bool" where
  "isspace_char c \<longleftrightarrow> c \<in> {CHR 0x20, CHR 0x09, CHR 0x0A, CHR 0x0B, CHR 0x0C, CHR 0x0D}"

text \<open>The character at a position; behind the end it is the NUL.\<close>

definition char_at :: "string \<Rightarrow> nat \<Rightarrow> char" where
  "char_at s n = (if n < length s then s ! n else NUL)"

definition cstring :: "string \<Rightarrow> string" where
  "cstring s = takeWhile (\<lambda>c. c \<noteq> NUL) s"

definition rstrip :: "string \<Rightarrow> string" where
  "rstrip s = rev (dropWhile isspace_char (rev s))"

definition lskip :: "string \<Rightarrow> string" where
  "lskip s = dropWhile isspace_char s"

fun find_loop :: "char \<Rightarrow> bool \<Rightarrow> string \<Rightarrow> nat" where
  "find_loop c was_whitespace [] = 0"
| "find_loop c was_whitespace (x # s) =
     (if x \<noteq> c \<and> \<not> (was_whitespace \<and> x = CHR '';'') then Suc (find_loop c (isspace_char x) s) else 0)"

definition find_char_or_comment :: "string \<Rightarrow> char \<Rightarrow> nat" where
  "find_char_or_comment s c = find_loop c False s"

definition strncpy0 :: "string \<Rightarrow> nat \<Rightarrow> string" where
  "strncpy0 src n = take (n - 1) src"

section \<open>Reading lines\<close>

abbreviation (input) MAX_SECTION :: nat where "MAX_SECTION \<equiv> 50"
abbreviation (input) MAX_NAME :: nat where "MAX_NAME \<equiv> 50"
abbreviation (input) INI_MAX_LINE :: nat where "INI_MAX_LINE \<equiv> 200"

text \<open>\<open>fgets\<close> with room for the given number of characters: the line with its newline, and the rest of the file.\<close>

fun read_line :: "nat \<Rightarrow> string \<Rightarrow> string \<times> string" where
  "read_line 0 s = ([], s)"
| "read_line (Suc n) [] = ([], [])"
| "read_line (Suc n) (c # s) =
     (if c = newline then ([c], s) else let (l, r) = read_line n s in (c # l, r))"

definition fgets :: "nat \<Rightarrow> string \<Rightarrow> (string \<times> string) option" where
  "fgets n file = (if file = [] then None else Some (read_line (n - 1) file))"

section \<open>The parser\<close>

type_synonym 'u ini_handler = "'u \<Rightarrow> string \<Rightarrow> string \<Rightarrow> string \<Rightarrow> bool \<times> 'u"

record 'u ini_state =
  ini_section :: string
  prev_name :: string
  ini_error :: int
  ini_user :: 'u

definition note_error :: "int \<Rightarrow> 'u ini_state \<Rightarrow> 'u ini_state" where
  "note_error lineno st = (if ini_error st = 0 then st\<lparr>ini_error := lineno\<rparr> else st)"

definition call_handler :: "'u ini_handler \<Rightarrow> int \<Rightarrow> string \<Rightarrow> string \<Rightarrow> 'u ini_state \<Rightarrow> 'u ini_state" where
  "call_handler handler lineno name val st =
     (let (ok, u) = handler (ini_user st) (ini_section st) name val; st1 = st\<lparr>ini_user := u\<rparr>
      in if ok then st1 else note_error lineno st1)"

definition section_line :: "int \<Rightarrow> string \<Rightarrow> 'u ini_state \<Rightarrow> 'u ini_state" where
  "section_line lineno start st =
     (let s = tl start; e = find_char_or_comment s (CHR '']'') in
      if char_at s e = CHR '']'' then st\<lparr>ini_section := strncpy0 (take e s) MAX_SECTION, prev_name := []\<rparr>
      else note_error lineno st)"

definition pair_line :: "'u ini_handler \<Rightarrow> int \<Rightarrow> string \<Rightarrow> 'u ini_state \<Rightarrow> 'u ini_state" where
  "pair_line handler lineno start st =
     (let e1 = find_char_or_comment start (CHR ''='');
          e = (if char_at start e1 \<noteq> CHR ''='' then find_char_or_comment start (CHR '':'') else e1)
      in
      if char_at start e = CHR ''='' \<or> char_at start e = CHR '':''
      then
        let name = rstrip (take e start);
            val = lskip (drop (e + 1) start);
            e2 = find_char_or_comment val NUL;
            val1 = rstrip (if char_at val e2 = CHR '';'' then take e2 val else val)
        in call_handler handler lineno name val1 (st\<lparr>prev_name := strncpy0 name MAX_NAME\<rparr>)
      else note_error lineno st)"

text \<open>One turn of the loop; \<open>bom\<close> is a byte order mark at the start of the file.\<close>

definition ini_line :: "'u ini_handler \<Rightarrow> int \<Rightarrow> string \<Rightarrow> 'u ini_state \<Rightarrow> 'u ini_state" where
  "ini_line handler lineno line st =
     (let buf = cstring line;
          bom = (lineno = 1 \<and> take 3 buf = [CHR 0xEF, CHR 0xBB, CHR 0xBF]);
          s = rstrip (if bom then drop 3 buf else buf);
          start = lskip s;
          moved = (bom \<or> start \<noteq> s);
          c = char_at start 0
      in
      if c = CHR '';'' \<or> c = CHR ''#'' then st
      else if prev_name st \<noteq> [] \<and> start \<noteq> [] \<and> moved then call_handler handler lineno (prev_name st) start st
      else if c = CHR ''['' then section_line lineno start st
      else if start \<noteq> [] then pair_line handler lineno start st
      else st)"

lemma read_line_le: "length (snd (read_line n s)) \<le> length s"
  by (induction n s rule: read_line.induct) (auto split: prod.split)

lemma read_line_rest: "n > 0 \<Longrightarrow> s \<noteq> [] \<Longrightarrow> length (snd (read_line n s)) < length s"
proof (cases n; cases s)
  fix k c t assume "n = Suc k" "s = c # t"
  then show ?thesis using read_line_le [of k t] by (auto split: prod.split)
qed auto

function ini_lines :: "'u ini_handler \<Rightarrow> int \<Rightarrow> string \<Rightarrow> 'u ini_state \<Rightarrow> 'u ini_state" where
  "ini_lines handler lineno file st =
     (case fgets INI_MAX_LINE file of
        None \<Rightarrow> st
      | Some (line, rest) \<Rightarrow> ini_lines handler (lineno + 1) rest (ini_line handler (lineno + 1) line st))"
  by auto
termination
proof (relation "measure (\<lambda>(_, _, file, _). length file)", simp, clarsimp)
  fix f l r
  assume "fgets INI_MAX_LINE f = Some (l, r)"
  then show "length r < length f"
    using read_line_rest [of 199 f] by (auto simp: fgets_def split: if_splits)
qed

definition ini_parse_file :: "string \<Rightarrow> 'u ini_handler \<Rightarrow> 'u \<Rightarrow> int \<times> 'u" where
  "ini_parse_file file handler user =
     (let st = ini_lines handler 0 file \<lparr>ini_section = [], prev_name = [], ini_error = 0, ini_user = user\<rparr>
      in (ini_error st, ini_user st))"

text \<open>The file system gives the contents of the files that can be opened.\<close>

definition ini_parse :: "(string \<Rightarrow> string option) \<Rightarrow> string \<Rightarrow> 'u ini_handler \<Rightarrow> 'u \<Rightarrow> int \<times> 'u" where
  "ini_parse files filename handler user =
     (case files filename of None \<Rightarrow> (- 1, user) | Some file \<Rightarrow> ini_parse_file file handler user)"

declare ini_lines.simps [simp del]

end
