(* ===== verification/Decimal.thy ===== *)
theory Decimal
  imports Main
begin

text \<open>
  Decimal output, as the \<open>%d\<close> and \<open>%u\<close> conversions of the C library print a number that is not negative,
  with the facts that the printed versions of \<open>xcrun\<close> and of the kernel's kext versions share.
\<close>

fun decimal :: "nat \<Rightarrow> string" where
  "decimal n = (if n < 10 then [char_of (0x30 + n)] else decimal (n div 10) @ [char_of (0x30 + n mod 10)])"

declare decimal.simps [simp del]

lemma decimal_small: "n < 10 \<Longrightarrow> decimal n = [char_of (0x30 + n)]"
  by (simp add: decimal.simps)

lemma decimal_step: "10 \<le> n \<Longrightarrow> decimal n = decimal (n div 10) @ [char_of (0x30 + n mod 10)]"
  by (simp add: decimal.simps [of n])

lemma decimal_not_Nil: "decimal n \<noteq> []"
  by (subst decimal.simps) simp

lemma decimal_chars: "c \<in> set (decimal n) \<Longrightarrow> c \<in> (\<lambda>d. char_of (0x30 + d :: nat)) ` {..<10}"
proof (induction n rule: decimal.induct)
  case (1 n)
  show ?case
  proof (cases "n < 10")
    case True
    then show ?thesis using 1(2) by (simp add: decimal_small image_eqI [of _ _ n])
  next
    case False
    have "n mod 10 \<in> {..<10}" by simp
    then show ?thesis using 1 False imageI [of "n mod 10" "{..<10}" "\<lambda>d. char_of (0x30 + d :: nat)"]
      by (auto simp: decimal_step simp del: char_of_eq_iff)
  qed
qed

lemma length_decimal: "n < 10 ^ Suc k \<Longrightarrow> length (decimal n) \<le> Suc k"
proof (induction k arbitrary: n)
  case (Suc k)
  then have "n div 10 < 10 ^ Suc k" by auto
  then show ?case using Suc.IH by (cases "n < 10") (auto simp: decimal_small decimal_step)
qed (simp add: decimal_small)

end
