(* ===== verification/Xc_Run.thy ===== *)
theory Xc_Run
  imports Xc_Ini Decimal
begin

text \<open>
  The tool launcher \<open>SDK/xcode_tools/xcrun/xcrun.c\<close>. Its global variables are the record \<open>xcrun_state\<close>; environment
  variables, files and the results of \<open>access\<close>, \<open>stat\<close> and \<open>execve\<close> are the record \<open>xc_env\<close>. A
  computation returns a value or stops: the process exits, is replaced by another program, or does something the
  C standard leaves undefined (a buffer overflow, a use of an uninitialised pointer). Standard output is kept, standard error is
  not; allocations succeed. Options are a list of what \<open>getopt_long_only\<close> returns, each with the value of \<open>optind\<close>
  after it.
\<close>

section \<open>State and effects\<close>

abbreviation (input) PATH_MAX :: nat where "PATH_MAX \<equiv> 4096"
abbreviation (input) NAME_MAX :: nat where "NAME_MAX \<equiv> 255"
abbreviation (input) SDK_CFG :: string where "SDK_CFG \<equiv> ''.xcdev.dat''"
abbreviation (input) XCRUN_DEFAULT_CFG :: string where "XCRUN_DEFAULT_CFG \<equiv> ''/etc/xcrun.ini''"

text \<open>A field that is still \<open>None\<close> is an uninitialised pointer.\<close>

record toolchain_config =
  tc_name :: "string option"
  tc_version :: "string option"

record sdk_config =
  sdk_name :: "string option"
  sdk_version :: "string option"
  sdk_toolchain :: "string option"
  sdk_default_arch :: "string option"
  sdk_deployment_target :: "string option"

record default_config =
  def_sdk :: "string option"
  def_toolchain :: "string option"

record xcrun_state =
  logging_mode :: bool
  verbose_mode :: bool
  finding_mode :: bool
  explicit_sdk_mode :: bool
  explicit_toolchain_mode :: bool
  ios_deployment_target_set :: bool
  macosx_deployment_target_set :: bool
  developer_dir :: string
  current_sdk :: string
  current_toolchain :: string
  alternate_sdk_path :: "string option"
  alternate_toolchain_path :: "string option"
  stdout :: string

definition initial_xcrun :: xcrun_state where
  "initial_xcrun = \<lparr>logging_mode = False, verbose_mode = False, finding_mode = False, explicit_sdk_mode = False,
     explicit_toolchain_mode = False, ios_deployment_target_set = False, macosx_deployment_target_set = False,
     developer_dir = [], current_sdk = [], current_toolchain = [], alternate_sdk_path = None,
     alternate_toolchain_path = None, stdout = []\<rparr>"

record xc_env =
  env_var :: "string \<Rightarrow> string option"
  file_text :: "string \<Rightarrow> string option"
  is_dir :: "string \<Rightarrow> bool"
  exists_file :: "string \<Rightarrow> bool"
  can_exec :: "string \<Rightarrow> bool"
  execve_ok :: "string \<Rightarrow> bool"
  stale_null :: bool

datatype xc_stop = Exited int | Execed string "string list" "string list" | Undefined

type_synonym 'a xc = "xcrun_state \<Rightarrow> (xc_stop + 'a) \<times> xcrun_state"

definition xret :: "'a \<Rightarrow> 'a xc" where "xret v s = (Inr v, s)"
definition xhalt :: "xc_stop \<Rightarrow> 'a xc" where "xhalt e s = (Inl e, s)"
definition xget :: "(xcrun_state \<Rightarrow> 'a) \<Rightarrow> 'a xc" where "xget f s = (Inr (f s), s)"
definition xmod :: "(xcrun_state \<Rightarrow> xcrun_state) \<Rightarrow> unit xc" where "xmod f s = (Inr (), f s)"

definition xbind :: "'a xc \<Rightarrow> ('a \<Rightarrow> 'b xc) \<Rightarrow> 'b xc" where
  "xbind m f s = (case m s of (Inl e, s') \<Rightarrow> (Inl e, s') | (Inr v, s') \<Rightarrow> f v s')"

text \<open>\<open>sprintf\<close> into an array, \<open>strncpy\<close> without a terminator over the old contents of an array, and a use of a pointer.\<close>

definition sprintf_to :: "nat \<Rightarrow> string \<Rightarrow> string xc" where
  "sprintf_to n str = (if length str < n then xret str else xhalt Undefined)"

definition strncpy_over :: "nat \<Rightarrow> string \<Rightarrow> string \<Rightarrow> string xc" where
  "strncpy_over n old src = sprintf_to n (src @ drop (length src) old)"

definition deref :: "string option \<Rightarrow> string xc" where
  "deref p = (case p of None \<Rightarrow> xhalt Undefined | Some v \<Rightarrow> xret v)"

text \<open>\<open>basename\<close>: the last component, without trailing slashes.\<close>

definition basename :: "string \<Rightarrow> string" where
  "basename s =
     (let t = rev (dropWhile (\<lambda>c. c = CHR ''/'') (rev s)) in
      if s = [] then ''.'' else if t = [] then ''/'' else rev (takeWhile (\<lambda>c. c \<noteq> CHR ''/'') (rev t)))"

section \<open>Helpers\<close>

definition stripext :: "string \<Rightarrow> string \<Rightarrow> string xc" where
  "stripext dst src = strncpy_over PATH_MAX dst (takeWhile (\<lambda>c. c \<noteq> CHR ''.'') src)"

definition test_sdk_authenticity :: "xc_env \<Rightarrow> string \<Rightarrow> bool xc" where
  "test_sdk_authenticity env path = xbind (sprintf_to PATH_MAX (path @ ''/info.ini'')) (\<lambda>fname. xret (exists_file env fname))"

definition verbose_printf :: "string \<Rightarrow> unit xc" where
  "verbose_printf str = xmod (\<lambda>s. if verbose_mode s then s\<lparr>stdout := stdout s @ str\<rparr> else s)"

definition logging_printf :: "string \<Rightarrow> unit xc" where
  "logging_printf str = xmod (\<lambda>s. if logging_mode s then s\<lparr>stdout := stdout s @ str\<rparr> else s)"

definition xprint :: "string \<Rightarrow> unit xc" where
  "xprint str = xmod (\<lambda>s. s\<lparr>stdout := stdout s @ str\<rparr>)"

definition xcrun_usage :: "int xc" where
  "xcrun_usage = xret 0"

definition xcrun_version :: "int xc" where
  "xcrun_version = xbind (xprint (''xcrun version 1.0.0'' @ [newline])) (\<lambda>_. xret 0)"

definition validate_directory_path :: "xc_env \<Rightarrow> string \<Rightarrow> int" where
  "validate_directory_path env dir = (if is_dir env dir then 0 else - 1)"

section \<open>Configuration files\<close>

definition toolchain_cfg_handler :: "toolchain_config ini_handler" where
  "toolchain_cfg_handler config sect name val =
     (if sect = ''TOOLCHAIN'' \<and> name = ''name'' then (True, config\<lparr>tc_name := Some val\<rparr>)
      else if sect = ''TOOLCHAIN'' \<and> name = ''version'' then (True, config\<lparr>tc_version := Some val\<rparr>)
      else (False, config))"

text \<open>The handler of the SDK file also sets two global variables.\<close>

definition sdk_cfg_handler :: "(sdk_config \<times> xcrun_state) ini_handler" where
  "sdk_cfg_handler u sect name val =
     (let (config, s) = u in
      if sect = ''SDK'' \<and> name = ''name'' then (True, config\<lparr>sdk_name := Some val\<rparr>, s)
      else if sect = ''SDK'' \<and> name = ''version'' then (True, config\<lparr>sdk_version := Some val\<rparr>, s)
      else if sect = ''SDK'' \<and> name = ''toolchain'' then (True, config\<lparr>sdk_toolchain := Some val\<rparr>, s)
      else if sect = ''SDK'' \<and> name = ''default_arch'' then (True, config\<lparr>sdk_default_arch := Some val\<rparr>, s)
      else if sect = ''SDK'' \<and> name = ''iphoneos_deployment_target'' then
        (True, config\<lparr>sdk_deployment_target := Some val\<rparr>,
         s\<lparr>ios_deployment_target_set := True, macosx_deployment_target_set := False\<rparr>)
      else if sect = ''SDK'' \<and> name = ''macosx_deployment_target'' then
        (True, config\<lparr>sdk_deployment_target := Some val\<rparr>,
         s\<lparr>ios_deployment_target_set := False, macosx_deployment_target_set := True\<rparr>)
      else (False, config, s))"

definition default_cfg_handler :: "default_config ini_handler" where
  "default_cfg_handler config sect name val =
     (if sect = ''SDK'' \<and> name = ''name'' then (True, config\<lparr>def_sdk := Some val\<rparr>)
      else if sect = ''TOOLCHAIN'' \<and> name = ''name'' then (True, config\<lparr>def_toolchain := Some val\<rparr>)
      else (False, config))"

definition get_toolchain_info :: "xc_env \<Rightarrow> string \<Rightarrow> toolchain_config xc" where
  "get_toolchain_info env path =
     xbind (sprintf_to PATH_MAX (path @ ''/info.ini'')) (\<lambda>info_path.
       let (r, config) = ini_parse (file_text env) info_path toolchain_cfg_handler \<lparr>tc_name = None, tc_version = None\<rparr>
       in if r \<noteq> - 1 then xret config else xhalt (Exited 1))"

definition uninit_sdk :: sdk_config where
  "uninit_sdk = \<lparr>sdk_name = None, sdk_version = None, sdk_toolchain = None, sdk_default_arch = None, sdk_deployment_target = None\<rparr>"

definition get_sdk_info :: "xc_env \<Rightarrow> string \<Rightarrow> sdk_config xc" where
  "get_sdk_info env path =
     xbind (sprintf_to PATH_MAX (path @ ''/info.ini'')) (\<lambda>info_path s.
       let (r, config, s') = ini_parse (file_text env) info_path sdk_cfg_handler (uninit_sdk, s)
       in if r \<noteq> - 1 then (Inr config, s') else (Inl (Exited 1), s'))"

definition get_default_info :: "xc_env \<Rightarrow> string \<Rightarrow> default_config xc" where
  "get_default_info env path =
     (let (r, config) = ini_parse (file_text env) path default_cfg_handler \<lparr>def_sdk = None, def_toolchain = None\<rparr>
      in if r \<noteq> - 1 then xret config else xhalt (Exited 1))"

section \<open>Paths\<close>

text \<open>
  The number of bytes read: for the configuration cache, which \<open>fread\<close> reads as one item, 1 or 0.
\<close>

definition get_developer_path :: "xc_env \<Rightarrow> int xc" where
  "get_developer_path env =
     xbind (verbose_printf (''xcrun: info: attempting to retrieve developer path from DEVELOPER_DIR...'' @ [newline])) (\<lambda>_.
     case env_var env ''DEVELOPER_DIR'' of
       Some dev_path \<Rightarrow>
         xbind (verbose_printf (''xcrun: info: using developer path '' @ [CHR 0x27] @ dev_path @ [CHR 0x27] @ '' from DEVELOPER_DIR.'' @ [newline])) (\<lambda>_.
         xbind (xget developer_dir) (\<lambda>old.
         xbind (strncpy_over PATH_MAX old dev_path) (\<lambda>new.
         xbind (xmod (\<lambda>s. s\<lparr>developer_dir := new\<rparr>)) (\<lambda>_.
         xret (int (length dev_path))))))
     | None \<Rightarrow>
         xbind (verbose_printf (''xcrun: info: attempting to retrieve developer path from configuration cache...'' @ [newline])) (\<lambda>_.
         case env_var env ''HOME'' of
           None \<Rightarrow> xret 0
         | Some home_path \<Rightarrow>
             xbind (sprintf_to PATH_MAX (home_path @ ''/'' @ SDK_CFG)) (\<lambda>cfg_path.
             case file_text env cfg_path of
               None \<Rightarrow> xret 0
             | Some f \<Rightarrow>
                 xbind (xget developer_dir) (\<lambda>old.
                 xbind (if length f \<le> PATH_MAX then sprintf_to PATH_MAX (cstring (f @ drop (length f) old)) else xhalt Undefined) (\<lambda>new.
                 xbind (xmod (\<lambda>s. s\<lparr>developer_dir := new\<rparr>)) (\<lambda>_.
                 xbind (verbose_printf (''xcrun: info: using developer path '' @ [CHR 0x27] @ new @ [CHR 0x27] @ '' from configuration cache.'' @ [newline])) (\<lambda>_.
                 xret (if f = [] then 0 else 1))))))))"

definition get_toolchain_path :: "xc_env \<Rightarrow> string \<Rightarrow> string xc" where
  "get_toolchain_path env name =
     xbind (xget developer_dir) (\<lambda>devpath.
     xbind (sprintf_to PATH_MAX (devpath @ ''/Toolchains/'' @ name @ ''.toolchain'')) (\<lambda>path.
     if validate_directory_path env path \<noteq> - 1 then xret path else xhalt (Exited 1)))"

definition get_sdk_path :: "xc_env \<Rightarrow> string \<Rightarrow> string xc" where
  "get_sdk_path env name =
     xbind (xget developer_dir) (\<lambda>devpath.
     xbind (sprintf_to PATH_MAX (devpath @ ''/SDKs/'' @ name @ ''.sdk'')) (\<lambda>path.
     if validate_directory_path env path \<noteq> - 1 then xret path else xhalt (Exited 1)))"

section \<open>Target triples\<close>

definition is_digit :: "char \<Rightarrow> bool" where
  "is_digit c \<longleftrightarrow> 0x30 \<le> (of_char c :: nat) \<and> (of_char c :: nat) \<le> 0x39"

text \<open>The numbers are \<open>int\<close>s of 32 bits, whose overflow is undefined.\<close>

definition add_digit :: "int \<Rightarrow> char \<Rightarrow> int option" where
  "add_digit n c = (let v = n * 10 + (of_char c - 0x30) in if v < 2 ^ 31 then Some v else None)"

fun version_loop :: "nat \<Rightarrow> int \<Rightarrow> int \<Rightarrow> int \<Rightarrow> string \<Rightarrow> (int \<times> int \<times> int) option" where
  "version_loop pos xx yy zz [] = Some (xx, yy, zz)"
| "version_loop pos xx yy zz (ch # ver) =
     (if is_digit ch then
        (if pos = 1 then Option.bind (add_digit xx ch) (\<lambda>v. version_loop pos v yy zz ver)
         else if pos = 2 then Option.bind (add_digit yy ch) (\<lambda>v. version_loop pos xx v zz ver)
         else if pos = 3 then Option.bind (add_digit zz ch) (\<lambda>v. version_loop pos xx yy v ver)
         else version_loop pos xx yy zz ver)
      else version_loop (pos + 1) xx yy zz ver)"

definition kern_version :: "bool \<Rightarrow> int \<Rightarrow> int \<Rightarrow> int" where
  "kern_version is_macosx xx yy =
     (if xx = 11 then 17
      else if xx = 10 then (if is_macosx then yy + 4 else 16)
      else if xx = 9 then 15
      else if xx = 8 \<or> xx = 7 then 14
      else if xx = 6 then 13
      else if xx = 5 then 11
      else if xx = 4 then (if yy \<le> 2 then 10 else 11)
      else if xx = 3 then 10
      else if xx = 2 then 9
      else 9)"

definition parse_target_triple :: "string \<Rightarrow> string \<Rightarrow> string xc" where
  "parse_target_triple ver arch =
     (case version_loop 1 0 0 0 ver of
        None \<Rightarrow> xhalt Undefined
      | Some (xx, yy, zz) \<Rightarrow>
          let kern_ver = kern_version (arch = ''x86_64'' \<or> arch = ''i386'') xx yy in
          if kern_ver < 2 ^ 31 then sprintf_to NAME_MAX (arch @ ''-apple-darwin'' @ decimal (nat kern_ver))
          else xhalt Undefined)"

definition get_target_triple :: "xc_env \<Rightarrow> string \<Rightarrow> string xc" where
  "get_target_triple env sdk =
     (case env_var env ''TARGET_TRIPLE'' of
        Some triple \<Rightarrow> xret triple
      | None \<Rightarrow>
          xbind (get_sdk_path env sdk) (\<lambda>p1. xbind (get_sdk_info env p1) (\<lambda>c1. xbind (deref (sdk_default_arch c1)) (\<lambda>arch.
          xbind (get_sdk_path env sdk) (\<lambda>p2. xbind (get_sdk_info env p2) (\<lambda>c2. xbind (deref (sdk_deployment_target c2)) (\<lambda>target.
          parse_target_triple target arch)))))))"

end
