(* ===== verification/Xc_Main.thy ===== *)
theory Xc_Main
  imports Xc_Run
begin

text \<open>
  The second half of \<open>xcrun.c\<close>: searching and executing a program, the command line and \<open>main\<close>.
\<close>

section \<open>Executing\<close>

definition getenv_text :: "xc_env \<Rightarrow> string \<Rightarrow> string xc" where
  "getenv_text env name = deref (env_var env name)"

text \<open>The deployment target variable of the new environment.\<close>

definition deployment_setting :: "xc_env \<Rightarrow> string xc" where
  "deployment_setting env =
     (case env_var env ''IPHONEOS_DEPLOYMENT_TARGET'' of
        Some t \<Rightarrow> sprintf_to NAME_MAX (''IPHONEOS_DEPLOYMENT_TARGET='' @ t)
      | None \<Rightarrow>
          (case env_var env ''MACOSX_DEPLOYMENT_TARGET'' of
             Some t \<Rightarrow> sprintf_to NAME_MAX (''MACOSX_DEPLOYMENT_TARGET='' @ t)
           | None \<Rightarrow>
               xbind (xget current_sdk) (\<lambda>sdk.
               xbind (get_sdk_path env sdk) (\<lambda>p.
               xbind (get_sdk_info env p) (\<lambda>config.
               xbind (deref (sdk_deployment_target config)) (\<lambda>t.
               xbind (xget macosx_deployment_target_set) (\<lambda>mac.
               xbind (xget ios_deployment_target_set) (\<lambda>ios.
               if mac then sprintf_to NAME_MAX (''MACOSX_DEPLOYMENT_TARGET='' @ t)
               else if ios then sprintf_to NAME_MAX (''IPHONEOS_DEPLOYMENT_TARGET='' @ t)
               else xret []))))))))"

definition log_command :: "string \<Rightarrow> string list \<Rightarrow> unit xc" where
  "log_command cmd argv =
     logging_printf (''xcrun: info: invoking command:'' @ [newline, CHR 0x09, CHR 0x22] @ cmd @
       concat (map (\<lambda>a. '' '' @ a) (tl argv)) @ [CHR 0x22, newline])"

definition call_command :: "xc_env \<Rightarrow> string \<Rightarrow> string list \<Rightarrow> int xc" where
  "call_command env cmd argv =
     xbind (xget current_sdk) (\<lambda>sdk. xbind (xget current_toolchain) (\<lambda>toolchain. xbind (xget developer_dir) (\<lambda>dev.
     xbind (get_sdk_path env sdk) (\<lambda>sdk_path.
     xbind (sprintf_to PATH_MAX (''SDKROOT='' @ sdk_path)) (\<lambda>e0.
     xbind (get_toolchain_path env toolchain) (\<lambda>toolchain_path.
     xbind (getenv_text env ''PATH'') (\<lambda>path.
     xbind (sprintf_to PATH_MAX (''PATH='' @ dev @ ''/usr/bin:'' @ toolchain_path @ ''/usr/bin:'' @ path)) (\<lambda>e1.
     xbind (sprintf_to PATH_MAX (''LD_LIBRARY_PATH='' @ toolchain_path @ ''/usr/lib'')) (\<lambda>e2.
     xbind (getenv_text env ''HOME'') (\<lambda>home.
     xbind (sprintf_to PATH_MAX (''HOME='' @ home)) (\<lambda>e3.
     xbind (sprintf_to PATH_MAX (''DEVELOPER_DIR='' @ dev)) (\<lambda>e6.
     xbind (get_target_triple env sdk) (\<lambda>triple.
     xbind (sprintf_to NAME_MAX (''TARGET_TRIPLE='' @ triple)) (\<lambda>e4.
     xbind (deployment_setting env) (\<lambda>e5.
     xbind (log_command cmd argv) (\<lambda>_.
     if execve_ok env cmd then xhalt (Execed cmd argv [e0, e1, e2, e3, e4, e5, e6]) else xret (- 1)))))))))))))))))"

section \<open>Searching\<close>

text \<open>\<open>strtok\<close> with colons: the parts that are not empty.\<close>

fun split_colon :: "string \<Rightarrow> string list" where
  "split_colon [] = [[]]"
| "split_colon (c # s) =
     (if c = CHR '':'' then [] # split_colon s
      else case split_colon s of [] \<Rightarrow> [[c]] | t # ts \<Rightarrow> (c # t) # ts)"

definition colon_tokens :: "string \<Rightarrow> string list" where
  "colon_tokens s = filter (\<lambda>t. t \<noteq> []) (split_colon s)"

definition quoted :: "string \<Rightarrow> string" where
  "quoted s = [CHR 0x27] @ s @ [CHR 0x27]"

text \<open>The absolute path of the command, or \<open>None\<close> for the result \<open>-1\<close>.\<close>

fun search_loop :: "xc_env \<Rightarrow> string \<Rightarrow> string list \<Rightarrow> string option xc" where
  "search_loop env name [] = xret None"
| "search_loop env name (dir # dirs) =
     xbind (verbose_printf (''xcrun: info: checking directory '' @ quoted dir @ '' for command '' @ quoted name @ ''...'' @ [newline])) (\<lambda>_.
     xbind (sprintf_to PATH_MAX (dir @ ''/'' @ name)) (\<lambda>path.
     if can_exec env path
     then xbind (verbose_printf (''xcrun: info: found command'' @ [CHR 0x27] @ ''s absolute path: '' @ quoted path @ [newline])) (\<lambda>_.
       xret (Some path))
     else search_loop env name dirs))"

definition search_command :: "xc_env \<Rightarrow> string \<Rightarrow> string \<Rightarrow> string option xc" where
  "search_command env name dirs = search_loop env name (colon_tokens dirs)"

text \<open>The current SDK and toolchain, when they are not set yet.\<close>

definition fallback_sdk :: "xc_env \<Rightarrow> unit xc" where
  "fallback_sdk env =
     xbind (xget current_sdk) (\<lambda>sdk.
     if sdk \<noteq> [] then xret ()
     else
       xbind (case env_var env ''SDKROOT'' of
           Some sdk_env \<Rightarrow> stripext sdk (basename sdk_env)
         | None \<Rightarrow> xbind (get_default_info env XCRUN_DEFAULT_CFG) (\<lambda>info.
             xbind (deref (def_sdk info)) (\<lambda>name. strncpy_over PATH_MAX sdk name))) (\<lambda>new.
       xmod (\<lambda>s. s\<lparr>current_sdk := new\<rparr>)))"

definition fallback_toolchain :: "xc_env \<Rightarrow> unit xc" where
  "fallback_toolchain env =
     xbind (xget current_toolchain) (\<lambda>toolchain.
     if toolchain \<noteq> [] then xret ()
     else
       xbind (case env_var env ''TOOLCHAINS'' of
           Some toolchain_env \<Rightarrow> stripext toolchain (basename toolchain_env)
         | None \<Rightarrow> xbind (get_default_info env XCRUN_DEFAULT_CFG) (\<lambda>info.
             xbind (deref (def_toolchain info)) (\<lambda>name. strncpy_over PATH_MAX toolchain name))) (\<lambda>new.
       xmod (\<lambda>s. s\<lparr>current_toolchain := new\<rparr>)))"

text \<open>The directories to search, as one string with colons.\<close>

definition search_string :: "xc_env \<Rightarrow> string xc" where
  "search_string env =
     xbind (xget id) (\<lambda>s.
     let base = developer_dir s @ ''/usr/bin:'' in
     if explicit_sdk_mode s then
       xbind (get_sdk_path env (current_sdk s)) (\<lambda>p0. xbind (get_sdk_info env p0) (\<lambda>config.
       xbind (deref (sdk_toolchain config)) (\<lambda>toolch_name.
       xbind (get_sdk_path env (current_sdk s)) (\<lambda>p. xbind (get_toolchain_path env toolch_name) (\<lambda>t.
       sprintf_to (PATH_MAX * 256) (base @ p @ ''/usr/bin:'' @ t @ ''/usr/bin''))))))
     else if explicit_toolchain_mode s then
       xbind (get_toolchain_path env (current_toolchain s)) (\<lambda>t.
       sprintf_to (PATH_MAX * 256) (base @ t @ ''/usr/bin''))
     else
       xbind (case alternate_sdk_path s of
           None \<Rightarrow> xret (base, False)
         | Some sdk \<Rightarrow>
             xbind (sprintf_to (PATH_MAX * 256) (base @ sdk @ ''/usr/bin:'')) (\<lambda>s1.
             xbind (test_sdk_authenticity env sdk) (\<lambda>authentic.
             if authentic then
               xbind (get_sdk_info env sdk) (\<lambda>config. xbind (deref (sdk_toolchain config)) (\<lambda>toolch_name.
               xbind (get_toolchain_path env toolch_name) (\<lambda>t.
               xbind (sprintf_to (PATH_MAX * 256) (s1 @ t @ ''/usr/bin'')) (\<lambda>s2. xret (s2, True)))))
             else xret (s1, False)))) (\<lambda>(s1, found).
       if found then xret s1
       else
         xbind (case alternate_toolchain_path s of
             None \<Rightarrow> xret s1
           | Some t \<Rightarrow> sprintf_to (PATH_MAX * 256) (s1 @ t @ ''/usr/bin'')) (\<lambda>s2.
         if alternate_toolchain_path s = None \<and> alternate_sdk_path s = None then
           xbind (get_sdk_path env (current_sdk s)) (\<lambda>p. xbind (get_toolchain_path env (current_toolchain s)) (\<lambda>t.
           sprintf_to (PATH_MAX * 256) (s2 @ p @ ''/usr/bin:'' @ t @ ''/usr/bin'')))
         else xret s2)))"

definition request_command :: "xc_env \<Rightarrow> string \<Rightarrow> string list \<Rightarrow> int xc" where
  "request_command env name argv =
     xbind (fallback_sdk env) (\<lambda>_. xbind (fallback_toolchain env) (\<lambda>_.
     xbind (search_string env) (\<lambda>dirs. xbind (search_command env name dirs) (\<lambda>found.
     case found of
       None \<Rightarrow> xret (- 1)
     | Some cmd \<Rightarrow>
         xbind (xget finding_mode) (\<lambda>finding.
         if finding then
           (if can_exec env cmd then xbind (xprint (cmd @ [newline])) (\<lambda>_. xret 0) else xret (- 1))
         else xbind (call_command env cmd argv) (\<lambda>_. xret (- 1)))))))"

section \<open>The command line\<close>

text \<open>
  One result of \<open>getopt_long_only\<close>: a character with its argument, a long option by its index in the table, or
  an unknown option.
\<close>

datatype xc_opt = Short char string | Long nat string | Bad

datatype tool_ptr = Null | Wild | Tool string

record xc_flags =
  help_f :: bool
  verbose_f :: bool
  log_f :: bool
  find_f :: bool
  run_f :: bool
  nocache_f :: bool
  killcache_f :: bool
  version_f :: bool
  ssdkp_f :: bool
  ssdkv_f :: bool
  ssdkpp_f :: bool
  ssdktt_f :: bool
  ssdkpv_f :: bool
  tool_called :: tool_ptr
  argc_offset :: nat
  optind :: nat

definition initial_flags :: "xc_env \<Rightarrow> xc_flags" where
  "initial_flags env = \<lparr>help_f = False, verbose_f = False, log_f = False, find_f = False, run_f = False, nocache_f = False,
     killcache_f = False, version_f = False, ssdkp_f = False, ssdkv_f = False, ssdkpp_f = False, ssdktt_f = False,
     ssdkpv_f = False, tool_called = (if stale_null env then Null else Wild), argc_offset = 0, optind = 1\<rparr>"

definition short_option :: "char \<Rightarrow> string \<Rightarrow> xc_flags \<Rightarrow> xc_flags" where
  "short_option ch optarg f =
     (if ch = CHR ''h'' then f\<lparr>help_f := True\<rparr>
      else if ch = CHR ''v'' then f\<lparr>verbose_f := True\<rparr>
      else if ch = CHR ''l'' then f\<lparr>log_f := True\<rparr>
      else if ch = CHR ''r'' then f\<lparr>run_f := True, tool_called := Tool (basename optarg), argc_offset := argc_offset f + 1\<rparr>
      else if ch = CHR ''f'' then f\<lparr>find_f := True, tool_called := Tool (basename optarg), argc_offset := argc_offset f + 1\<rparr>
      else if ch = CHR ''n'' then f\<lparr>nocache_f := True\<rparr>
      else if ch = CHR ''k'' then f\<lparr>killcache_f := True\<rparr>
      else f\<lparr>help_f := True\<rparr>)"

text \<open>The SDK and toolchain options take an absolute path or a short name.\<close>

definition sdk_option :: "xc_env \<Rightarrow> string \<Rightarrow> xc_flags \<Rightarrow> xc_flags xc" where
  "sdk_option env optarg f =
     (if char_at optarg 0 = CHR ''-'' then xhalt (Exited 1)
      else if char_at optarg 0 = CHR ''/'' then
        (if validate_directory_path env optarg \<noteq> - 1
         then xbind (xmod (\<lambda>s. s\<lparr>alternate_sdk_path := Some optarg\<rparr>)) (\<lambda>_. xret (f\<lparr>argc_offset := argc_offset f + 1\<rparr>))
         else xhalt (Exited 1))
      else
        xbind (xmod (\<lambda>s. s\<lparr>explicit_sdk_mode := True\<rparr>)) (\<lambda>_. xbind (xget current_sdk) (\<lambda>old. xbind (stripext old optarg) (\<lambda>new.
        xbind (xmod (\<lambda>s. s\<lparr>current_sdk := new\<rparr>)) (\<lambda>_. xret (f\<lparr>argc_offset := argc_offset f + 1\<rparr>))))))"

definition toolchain_option :: "xc_env \<Rightarrow> string \<Rightarrow> xc_flags \<Rightarrow> xc_flags xc" where
  "toolchain_option env optarg f =
     (if char_at optarg 0 = CHR ''-'' then xhalt (Exited 1)
      else if char_at optarg 0 = CHR ''/'' then
        (if validate_directory_path env optarg \<noteq> - 1
         then xbind (xmod (\<lambda>s. s\<lparr>alternate_toolchain_path := Some optarg\<rparr>)) (\<lambda>_. xret (f\<lparr>argc_offset := argc_offset f + 1\<rparr>))
         else xhalt (Exited 1))
      else
        xbind (xmod (\<lambda>s. s\<lparr>explicit_toolchain_mode := True\<rparr>)) (\<lambda>_. xbind (xget current_toolchain) (\<lambda>old. xbind (stripext old optarg) (\<lambda>new.
        xbind (xmod (\<lambda>s. s\<lparr>current_toolchain := new\<rparr>)) (\<lambda>_. xret (f\<lparr>argc_offset := argc_offset f + 1\<rparr>))))))"

definition long_option :: "xc_env \<Rightarrow> nat \<Rightarrow> string \<Rightarrow> xc_flags \<Rightarrow> xc_flags xc" where
  "long_option env i optarg f =
     (if i = 1 then xret (f\<lparr>version_f := True\<rparr>)
      else if i = 3 then sdk_option env optarg f
      else if i = 4 then toolchain_option env optarg f
      else if i = 10 then xret (f\<lparr>ssdkp_f := True\<rparr>)
      else if i = 11 then xret (f\<lparr>ssdkv_f := True\<rparr>)
      else if i = 12 then xret (f\<lparr>ssdktt_f := True\<rparr>)
      else if i = 13 then xret (f\<lparr>ssdkpp_f := True\<rparr>)
      else if i = 14 then xret (f\<lparr>ssdkpv_f := True\<rparr>)
      else xret f)"

fun option_loop :: "xc_env \<Rightarrow> (xc_opt \<times> nat) list \<Rightarrow> xc_flags \<Rightarrow> xc_flags xc" where
  "option_loop env [] f = xret f"
| "option_loop env ((opt, ind) # opts) f =
     xbind (case opt of
         Short ch optarg \<Rightarrow> xret (short_option ch optarg f)
       | Long i optarg \<Rightarrow> long_option env i optarg f
       | Bad \<Rightarrow> xret (f\<lparr>help_f := True\<rparr>)) (\<lambda>f1.
     let f2 = f1\<lparr>argc_offset := argc_offset f1 + 1, optind := ind\<rparr> in
     if (case opt of Short ch _ \<Rightarrow> ch = CHR ''f'' \<or> ch = CHR ''r'' | _ \<Rightarrow> False) then xret f2 else option_loop env opts f2)"

definition parse_options :: "xc_env \<Rightarrow> string list \<Rightarrow> (xc_opt \<times> nat) list \<Rightarrow> xc_flags xc" where
  "parse_options env argv opts =
     xbind (if char_at (argv ! 1) 0 = CHR ''-'' then option_loop env opts (initial_flags env)
       else xret ((initial_flags env)\<lparr>tool_called := Tool (basename (argv ! 1)), argc_offset := 1\<rparr>)) (\<lambda>f.
     xret (if optind f < length argv \<and> (\<not> run_f f \<or> \<not> find_f f) \<and> tool_called f = Null
       then f\<lparr>tool_called := Tool (basename (argv ! optind f)), optind := optind f + 1, argc_offset := argc_offset f + 1\<rparr>
       else f))"

definition show_sdk_version :: "xc_env \<Rightarrow> string \<Rightarrow> int xc" where
  "show_sdk_version env sdk =
     xbind (get_sdk_path env sdk) (\<lambda>p. xbind (get_sdk_info env p) (\<lambda>c1. xbind (deref (sdk_name c1)) (\<lambda>name.
     xbind (get_sdk_path env sdk) (\<lambda>p2. xbind (get_sdk_info env p2) (\<lambda>c2. xbind (deref (sdk_version c2)) (\<lambda>ver.
     xbind (xprint (name @ '' SDK version '' @ ver @ [newline])) (\<lambda>_. xret 0)))))))"

definition show_toolchain_version :: "xc_env \<Rightarrow> string \<Rightarrow> string \<Rightarrow> int xc" where
  "show_toolchain_version env sdk toolchain =
     xbind (get_sdk_path env sdk) (\<lambda>p. xbind (get_sdk_info env p) (\<lambda>c1. xbind (deref (sdk_name c1)) (\<lambda>name.
     xbind (get_toolchain_path env toolchain) (\<lambda>t. xbind (get_toolchain_info env t) (\<lambda>c2. xbind (deref (tc_version c2)) (\<lambda>ver.
     xbind (get_toolchain_path env toolchain) (\<lambda>t2. xbind (get_toolchain_info env t2) (\<lambda>c3. xbind (deref (tc_name c3)) (\<lambda>tname.
     xbind (xprint (name @ '' SDK Toolchain version '' @ ver @ '' ('' @ tname @ '')'' @ [newline])) (\<lambda>_. xret 0))))))))))"

text \<open>Running the tool: a pointer that was never set cannot be used, and the arguments start at the counted offset.\<close>

definition run_tool :: "xc_env \<Rightarrow> string list \<Rightarrow> xc_flags \<Rightarrow> int xc" where
  "run_tool env argv f =
     (case tool_called f of
        Null \<Rightarrow> xret 1
      | Wild \<Rightarrow> xhalt Undefined
      | Tool tool \<Rightarrow>
          if find_f f then
            xbind (xmod (\<lambda>s. s\<lparr>finding_mode := True\<rparr>)) (\<lambda>_. xbind (request_command env tool []) (\<lambda>r.
            xret (if r = 0 then 0 else 1)))
          else if argc_offset f > length argv then xhalt Undefined
          else xbind (request_command env tool (drop (argc_offset f) argv)) (\<lambda>_. xret 1))"

definition xcrun_main :: "xc_env \<Rightarrow> string list \<Rightarrow> (xc_opt \<times> nat) list \<Rightarrow> int xc" where
  "xcrun_main env argv opts =
     (if length argv < 2 then xcrun_usage
      else if argv ! 1 = ''-'' \<or> argv ! 1 = ''--'' then xcrun_usage
      else xbind (parse_options env argv opts) (\<lambda>f.
        if (verbose_f f \<or> log_f f) \<and> tool_called f = Null then xret 1
        else if help_f f then xcrun_usage
        else if version_f f then xcrun_version
        else
          xbind (fallback_sdk env) (\<lambda>_. xbind (fallback_toolchain env) (\<lambda>_.
          xbind (xget current_sdk) (\<lambda>sdk. xbind (xget current_toolchain) (\<lambda>toolchain.
          if ssdkp_f f then xbind (get_sdk_path env sdk) (\<lambda>p. xbind (xprint (p @ [newline])) (\<lambda>_. xret 0))
          else if ssdkv_f f then show_sdk_version env sdk
          else if ssdkpp_f f then xbind (get_toolchain_path env toolchain) (\<lambda>p. xbind (xprint (p @ [newline])) (\<lambda>_. xret 0))
          else if ssdkpv_f f then show_toolchain_version env sdk toolchain
          else if ssdktt_f f then xbind (get_target_triple env sdk) (\<lambda>t. xbind (xprint (t @ [newline])) (\<lambda>_. xret 0))
          else
            xbind (xmod (\<lambda>s. s\<lparr>verbose_mode := verbose_mode s \<or> verbose_f f, logging_mode := logging_mode s \<or> log_f f\<rparr>)) (\<lambda>_.
            run_tool env argv f)))))))"

definition multicall_tool_names :: "string list" where
  "multicall_tool_names = [''xcrun'', ''xcrun_log'', ''xcrun_verbose'', ''xcrun_nocache'']"

fun multicall_loop :: "string \<Rightarrow> string list \<Rightarrow> nat \<Rightarrow> nat \<Rightarrow> int" where
  "multicall_loop cmd state i 0 = - 1"
| "multicall_loop cmd state i (Suc n) = (if cmd = state ! i then int i + 1 else multicall_loop cmd state (i + 1) n)"

definition get_multicall_state :: "string \<Rightarrow> string list \<Rightarrow> nat \<Rightarrow> int" where
  "get_multicall_state cmd state state_size = multicall_loop cmd state 0 (state_size - 1)"

definition xc_main :: "xc_env \<Rightarrow> string list \<Rightarrow> (xc_opt \<times> nat) list \<Rightarrow> int xc" where
  "xc_main env argv opts =
     (let progname = basename (argv ! 0) in
      xbind (get_developer_path env) (\<lambda>len.
      if len = 0 then xret 1
      else
        let call_state = get_multicall_state progname multicall_tool_names 4 in
        if call_state = 1 then xcrun_main env argv opts
        else if call_state = 2 then xbind (xmod (\<lambda>s. s\<lparr>logging_mode := True\<rparr>)) (\<lambda>_. xcrun_main env argv opts)
        else if call_state = 3 then xbind (xmod (\<lambda>s. s\<lparr>verbose_mode := True\<rparr>)) (\<lambda>_. xcrun_main env argv opts)
        else if call_state = 4 then xcrun_main env argv opts
        else xbind (request_command env progname argv) (\<lambda>_. xret 1)))"

text \<open>How the process ends, and what it has printed.\<close>

definition xcrun_run :: "xc_env \<Rightarrow> string list \<Rightarrow> (xc_opt \<times> nat) list \<Rightarrow> xc_stop \<times> string" where
  "xcrun_run env argv opts =
     (case xc_main env argv opts initial_xcrun of
        (Inl e, s) \<Rightarrow> (e, stdout s)
      | (Inr r, s) \<Rightarrow> (Exited r, stdout s))"

end
