(* ===== verification/Xc_Select.thy ===== *)
theory Xc_Select
  imports Xc_Main
begin

text \<open>
  \<open>SDK/xcode_tools/xcode-select/xcode-select.c\<close>, which stores the developer directory that \<open>xcrun\<close> reads. Both of
  its operations append to the string that \<open>getenv\<close> returns for \<open>HOME\<close>: afterwards \<open>HOME\<close> is the path of the
  configuration file, and the variable behind it in memory has been overwritten; what is then read for
  \<open>DEVELOPER_DIR\<close> is the parameter \<open>overwritten\<close>.
\<close>

record select_env =
  sel_is_dir :: "string \<Rightarrow> bool"
  can_write :: "string \<Rightarrow> bool"
  overwritten :: "string option \<Rightarrow> string option"

record select_state =
  sel_home :: "string option"
  sel_dev :: "string option"
  sel_files :: "string \<Rightarrow> string option"
  sel_path :: string
  sel_stdout :: string

text \<open>What an option ends with: the process exits, the result is undefined, or the loop goes on.\<close>

datatype 'a sel = Sel_exit int | Sel_undefined | Sel_go 'a

definition select_validate :: "select_env \<Rightarrow> string \<Rightarrow> int" where
  "select_validate env dir = (if sel_is_dir env dir then 0 else - 1)"

text \<open>The path of the configuration file, and the state after the environment was overwritten.\<close>

definition config_path :: "select_env \<Rightarrow> string \<Rightarrow> select_state \<Rightarrow> string \<times> select_state" where
  "config_path env home st =
     (let cfg = home @ ''/'' @ SDK_CFG in (cfg, st\<lparr>sel_home := Some cfg, sel_dev := overwritten env (sel_dev st)\<rparr>))"

definition select_get_path :: "select_env \<Rightarrow> select_state \<Rightarrow> (int \<times> select_state) sel" where
  "select_get_path env st =
     (case sel_dev st of
        Some dev_path \<Rightarrow>
          let p = dev_path @ drop (length dev_path) (sel_path st) in
          if length p < PATH_MAX then Sel_go (int (length dev_path), st\<lparr>sel_path := p\<rparr>) else Sel_undefined
      | None \<Rightarrow>
          (case sel_home st of
             None \<Rightarrow> Sel_go (0, st)
           | Some home \<Rightarrow>
               let (cfg, st1) = config_path env home st in
               (case sel_files st1 cfg of
                  None \<Rightarrow> Sel_go (0, st1)
                | Some f \<Rightarrow>
                    let p = cstring (f @ drop (length f) (sel_path st1)) in
                    if length f \<le> PATH_MAX \<and> length p < PATH_MAX
                    then Sel_go (if f = [] then 0 else 1, st1\<lparr>sel_path := p\<rparr>)
                    else Sel_undefined)))"

definition set_developer_path :: "select_env \<Rightarrow> string \<Rightarrow> select_state \<Rightarrow> int \<times> select_state" where
  "set_developer_path env path st =
     (if select_validate env path < 0 then (- 1, st)
      else
        case sel_home st of
          None \<Rightarrow> (- 1, st)
        | Some home \<Rightarrow>
            let (cfg, st1) = config_path env home st in
            if can_write env cfg then (0, st1\<lparr>sel_files := (sel_files st1)(cfg \<mapsto> path)\<rparr>) else (- 1, st1))"

datatype select_opt = Opt_help | Opt_version | Opt_switch string | Opt_print | Opt_bad

fun select_loop :: "select_env \<Rightarrow> select_opt list \<Rightarrow> int \<Rightarrow> select_state \<Rightarrow> (int \<times> select_state) sel" where
  "select_loop env [] status st = Sel_go (status, st)"
| "select_loop env (Opt_help # opts) status st = Sel_exit 1"
| "select_loop env (Opt_version # opts) status st = Sel_exit 0"
| "select_loop env (Opt_switch arg # opts) status st =
     (let p = arg @ drop (length arg) (sel_path st) in
      if length p < PATH_MAX
      then let (r, st1) = set_developer_path env p (st\<lparr>sel_path := p\<rparr>) in select_loop env opts r st1
      else Sel_undefined)"
| "select_loop env (Opt_print # opts) status st =
     (case select_get_path env st of
        Sel_exit r \<Rightarrow> Sel_exit r
      | Sel_undefined \<Rightarrow> Sel_undefined
      | Sel_go (n, st1) \<Rightarrow>
          if n > 0 then select_loop env opts 0 (st1\<lparr>sel_stdout := sel_stdout st1 @ sel_path st1 @ [newline]\<rparr>)
          else select_loop env opts status st1)"
| "select_loop env (Opt_bad # opts) status st = Sel_exit 1"

definition select_main :: "select_env \<Rightarrow> nat \<Rightarrow> select_opt list \<Rightarrow> select_state \<Rightarrow> (int \<times> select_state) sel" where
  "select_main env argc opts st = (if argc < 2 then Sel_exit 1 else select_loop env opts (- 1) (st\<lparr>sel_path := []\<rparr>))"

end
