(* ===== verification/Xc_Ini_Props.thy ===== *)
theory Xc_Ini_Props
  imports Xc_Ini
begin

text \<open>
  The configuration parser reads back what a configuration prints to. \<open>print_ini\<close> writes sections of names and
  values; the lemmas follow the parser line by line.
\<close>

section \<open>Configurations as data\<close>

type_synonym ini_config = "(string \<times> (string \<times> string) list) list"

definition print_pair :: "string \<times> string \<Rightarrow> string" where
  "print_pair p = fst p @ CHR ''='' # snd p @ [newline]"

definition print_section :: "string \<times> (string \<times> string) list \<Rightarrow> string" where
  "print_section s = CHR ''['' # fst s @ CHR '']'' # newline # concat (map print_pair (snd s))"

definition print_ini :: "ini_config \<Rightarrow> string" where
  "print_ini cfg = concat (map print_section cfg)"

text \<open>No semicolon behind white space.\<close>

fun no_comment :: "bool \<Rightarrow> string \<Rightarrow> bool" where
  "no_comment ws [] \<longleftrightarrow> True"
| "no_comment ws (c # s) \<longleftrightarrow> \<not> (ws \<and> c = CHR '';'') \<and> no_comment (isspace_char c) s"

definition plain :: "string \<Rightarrow> bool" where
  "plain s \<longleftrightarrow> newline \<notin> set s \<and> NUL \<notin> set s \<and> no_comment False s"

definition trimmed :: "string \<Rightarrow> bool" where
  "trimmed s \<longleftrightarrow> s = [] \<or> \<not> isspace_char (hd s) \<and> \<not> isspace_char (last s)"

definition good_name :: "string \<Rightarrow> bool" where
  "good_name n \<longleftrightarrow> n \<noteq> [] \<and> plain n \<and> trimmed n \<and> CHR ''='' \<notin> set n \<and> hd n \<notin> {CHR '';'', CHR ''#'', CHR ''[''}"

definition good_pair :: "string \<times> string \<Rightarrow> bool" where
  "good_pair p \<longleftrightarrow> good_name (fst p) \<and> plain (snd p) \<and> trimmed (snd p) \<and> length (fst p) + length (snd p) \<le> 197"

definition good_section :: "string \<times> (string \<times> string) list \<Rightarrow> bool" where
  "good_section s \<longleftrightarrow> plain (fst s) \<and> CHR '']'' \<notin> set (fst s) \<and> length (fst s) \<le> 49 \<and> (\<forall>p \<in> set (snd s). good_pair p)"

text \<open>What the handler sees, and its answers: whether all calls are accepted, and the last user data.\<close>

definition settings :: "ini_config \<Rightarrow> (string \<times> string \<times> string) list" where
  "settings cfg = concat (map (\<lambda>(s, ps). map (\<lambda>(n, v). (s, n, v)) ps) cfg)"

fun feed :: "'u ini_handler \<Rightarrow> (string \<times> string \<times> string) list \<Rightarrow> 'u \<Rightarrow> bool \<times> 'u" where
  "feed h [] u = (True, u)"
| "feed h ((s, n, v) # ts) u = (let (ok, u1) = h u s n v; (oks, u2) = feed h ts u1 in (ok \<and> oks, u2))"

section \<open>Lines\<close>

lemma read_line_newline:
  "newline \<notin> set s \<Longrightarrow> length s < n \<Longrightarrow> read_line n (s @ newline # r) = (s @ [newline], r)"
proof (induction s arbitrary: n)
  case Nil
  then show ?case by (cases n) auto
next
  case (Cons c s)
  then show ?case by (cases n) auto
qed

lemma ini_lines_step:
  assumes "newline \<notin> set s" "length s < 199"
  shows "ini_lines h k (s @ newline # r) st = ini_lines h (k + 1) r (ini_line h (k + 1) (s @ [newline]) st)"
  using read_line_newline [OF assms] by (subst ini_lines.simps) (simp add: fgets_def)

lemma find_loop_stop: "no_comment ws s \<Longrightarrow> c \<notin> set s \<Longrightarrow> find_loop c ws (s @ c # t) = length s"
  by (induction s arbitrary: ws) auto

lemma find_loop_end: "no_comment ws s \<Longrightarrow> c \<notin> set s \<Longrightarrow> find_loop c ws s = length s"
  by (induction s arbitrary: ws) auto

lemma isspace_newline [simp]: "isspace_char newline"
  by (simp add: isspace_char_def newline_def)

lemma rstrip_newline [simp]: "rstrip (s @ [newline]) = rstrip s"
  by (simp add: rstrip_def)

lemma rstrip_id: "s = [] \<or> \<not> isspace_char (last s) \<Longrightarrow> rstrip s = s"
  by (cases s rule: rev_cases) (auto simp: rstrip_def)

lemma lskip_id: "s = [] \<or> \<not> isspace_char (hd s) \<Longrightarrow> lskip s = s"
  by (cases s) (auto simp: lskip_def)

lemma cstring_id: "NUL \<notin> set s \<Longrightarrow> cstring s = s"
  by (induction s) (auto simp: cstring_def)

lemma newline_NUL [simp]: "newline \<noteq> NUL" "NUL \<noteq> newline"
  by (simp_all add: newline_def NUL_def)

lemma not_special [simp]:
  "CHR ''='' \<noteq> NUL" "CHR '']'' \<noteq> NUL" "CHR ''['' \<noteq> NUL" "CHR ''='' \<noteq> newline" "CHR '']'' \<noteq> newline" "CHR ''['' \<noteq> newline"
  "NUL \<noteq> CHR ''=''" "NUL \<noteq> CHR '']''" "NUL \<noteq> CHR ''[''" "newline \<noteq> CHR ''=''" "newline \<noteq> CHR '']''" "newline \<noteq> CHR ''[''"
  "\<not> isspace_char (CHR ''='')" "\<not> isspace_char (CHR '']'')" "\<not> isspace_char (CHR ''['')"
  by (simp_all add: NUL_def newline_def isspace_char_def)

text \<open>A clean line, with neither byte order mark nor leading or trailing space.\<close>

lemma ini_line_clean:
  assumes "NUL \<notin> set s" "s \<noteq> []" "\<not> isspace_char (hd s)" "\<not> isspace_char (last s)" "k = 1 \<longrightarrow> hd s = CHR ''[''"
    "hd s \<noteq> CHR '';''" "hd s \<noteq> CHR ''#''"
  shows "ini_line h k (s @ [newline]) st =
    (if hd s = CHR ''['' then section_line k s st else pair_line h k s st)"
proof -
  have "cstring (s @ [newline]) = s @ [newline]" using assms(1) by (intro cstring_id) auto
  moreover have "rstrip s = s" "lskip s = s" using assms(3,4) by (auto intro: rstrip_id lskip_id)
  moreover have "char_at s 0 = hd s" using assms(2) by (simp add: char_at_def hd_conv_nth)
  moreover have "\<not> (k = 1 \<and> take 3 (s @ [newline]) = [CHR 0xEF, CHR 0xBB, CHR 0xBF])"
    using assms(2,5) by (cases s) (auto simp: numeral_3_eq_3)
  ultimately show ?thesis using assms(2,6,7) by (auto simp: ini_line_def Let_def)
qed

lemma ini_line_pair:
  assumes "good_pair (n, v)" "k \<noteq> 1"
  shows "ini_line h k (n @ CHR ''='' # v @ [newline]) st = call_handler h k n v (st\<lparr>prev_name := strncpy0 n 50\<rparr>)"
proof -
  note g = assms(1) [unfolded good_pair_def good_name_def plain_def trimmed_def, simplified]
  let ?s = "n @ CHR ''='' # v"
  have "ini_line h k (?s @ [newline]) st = pair_line h k ?s st"
    using g assms(2) by (subst ini_line_clean) (auto simp: last_append)
  moreover have e: "find_char_or_comment ?s (CHR ''='') = length n"
    unfolding find_char_or_comment_def using g by (intro find_loop_stop) auto
  moreover have "rstrip n = n" "lskip v = v" "rstrip v = v" using g by (auto intro: rstrip_id lskip_id)
  moreover have "find_char_or_comment v NUL = length v"
    unfolding find_char_or_comment_def using g by (intro find_loop_end) auto
  moreover have "char_at ?s (length n) = CHR ''=''" "char_at v (length v) = NUL" by (simp_all add: char_at_def nth_append)
  moreover have "CHR '';'' \<noteq> NUL" by (simp add: NUL_def)
  ultimately show ?thesis by (simp add: pair_line_def Let_def)
qed

lemma ini_line_section:
  assumes "plain s" "CHR '']'' \<notin> set s" "length s \<le> 49"
  shows "ini_line h k (CHR ''['' # s @ [CHR '']'', newline]) st = st\<lparr>ini_section := s, prev_name := []\<rparr>"
proof -
  let ?s = "CHR ''['' # s @ [CHR '']'']"
  have "ini_line h k (?s @ [newline]) st = section_line k ?s st"
    using assms by (subst ini_line_clean) (auto simp: plain_def)
  moreover have "find_char_or_comment (s @ [CHR '']'']) (CHR '']'') = length s"
    unfolding find_char_or_comment_def using assms(1,2) by (intro find_loop_stop) (auto simp: plain_def)
  ultimately show ?thesis using assms(3) by (simp add: section_line_def Let_def char_at_def strncpy0_def)
qed

section \<open>Files\<close>

lemma call_handler_effect:
  assumes "h (ini_user st) (ini_section st) n v = (ok, u)" "0 < k"
  shows "ini_user (call_handler h k n v st) = u" "ini_section (call_handler h k n v st) = ini_section st"
    "ini_error (call_handler h k n v st) = 0 \<longleftrightarrow> ini_error st = 0 \<and> ok"
  using assms by (auto simp: call_handler_def note_error_def Let_def)

lemma ini_lines_pairs:
  assumes "\<forall>p \<in> set ps. good_pair p" "0 < k"
  shows "\<exists>st'. ini_lines h k (concat (map print_pair ps) @ r) st = ini_lines h (k + int (length ps)) r st' \<and>
    ini_section st' = ini_section st \<and>
    (ini_error st' = 0 \<longleftrightarrow> ini_error st = 0 \<and> fst (feed h (map (\<lambda>(n, v). (ini_section st, n, v)) ps) (ini_user st))) \<and>
    ini_user st' = snd (feed h (map (\<lambda>(n, v). (ini_section st, n, v)) ps) (ini_user st))"
  using assms
proof (induction ps arbitrary: k st)
  case (Cons p ps)
  obtain n v where p: "p = (n, v)" by (cases p)
  obtain ok u where h: "h (ini_user st) (ini_section st) n v = (ok, u)" by (cases "h (ini_user st) (ini_section st) n v")
  let ?st = "call_handler h (k + 1) n v (st\<lparr>prev_name := strncpy0 n 50\<rparr>)"
  have g: "good_pair (n, v)" using Cons.prems(1) p by simp
  then have "newline \<notin> set (n @ CHR ''='' # v)" "length (n @ CHR ''='' # v) < 199"
    by (auto simp: good_pair_def good_name_def plain_def)
  then have step: "ini_lines h k (concat (map print_pair (p # ps)) @ r) st = ini_lines h (k + 1) (concat (map print_pair ps) @ r) ?st"
    using ini_lines_step [of "n @ CHR ''='' # v" h k "concat (map print_pair ps) @ r" st] ini_line_pair [OF g, of "k + 1" h st]
      Cons.prems(2) by (simp add: p print_pair_def)
  have e: "ini_user ?st = u" "ini_section ?st = ini_section st" "ini_error ?st = 0 \<longleftrightarrow> ini_error st = 0 \<and> ok"
    using call_handler_effect [of h "st\<lparr>prev_name := strncpy0 n 50\<rparr>" n v ok u "k + 1"] h Cons.prems(2) by simp_all
  obtain st' where "ini_lines h (k + 1) (concat (map print_pair ps) @ r) ?st = ini_lines h (k + 1 + int (length ps)) r st'"
    "ini_section st' = ini_section ?st"
    "ini_error st' = 0 \<longleftrightarrow> ini_error ?st = 0 \<and> fst (feed h (map (\<lambda>(n, v). (ini_section ?st, n, v)) ps) (ini_user ?st))"
    "ini_user st' = snd (feed h (map (\<lambda>(n, v). (ini_section ?st, n, v)) ps) (ini_user ?st))"
    using Cons.IH [of "k + 1" ?st] Cons.prems by auto
  then show ?case
    using step e h by (intro exI [of _ st']) (auto simp: p add.assoc split: prod.splits)
qed auto

lemma feed_append:
  "feed h (xs @ ys) u = (let (a, u1) = feed h xs u; (b, u2) = feed h ys u1 in (a \<and> b, u2))"
  by (induction xs arbitrary: u) (auto split: prod.splits)

lemma ini_lines_sections:
  assumes "\<forall>s \<in> set cfg. good_section s" "0 \<le> k"
  shows "\<exists>st'. ini_lines h k (print_ini cfg) st = st' \<and>
    (ini_error st' = 0 \<longleftrightarrow> ini_error st = 0 \<and> fst (feed h (settings cfg) (ini_user st))) \<and>
    ini_user st' = snd (feed h (settings cfg) (ini_user st))"
  using assms
proof (induction cfg arbitrary: k st)
  case Nil
  then show ?case by (subst ini_lines.simps) (simp add: fgets_def print_ini_def settings_def)
next
  case (Cons s cfg)
  obtain name ps where s: "s = (name, ps)" by (cases s)
  have g: "plain name" "CHR '']'' \<notin> set name" "length name \<le> 49" "\<forall>p \<in> set ps. good_pair p"
    using Cons.prems(1) by (auto simp: s good_section_def)
  let ?line = "CHR ''['' # name @ [CHR '']'']" and ?st = "st\<lparr>ini_section := name, prev_name := []\<rparr>"
  have "newline \<notin> set ?line" "length ?line < 199" using g(1,3) by (auto simp: plain_def)
  then have "ini_lines h k (print_ini (s # cfg)) st = ini_lines h (k + 1) (concat (map print_pair ps) @ print_ini cfg) ?st"
    using ini_lines_step [of ?line h k "concat (map print_pair ps) @ print_ini cfg" st] ini_line_section [OF g(1-3), of h "k + 1" st]
    by (simp add: print_ini_def print_section_def s)
  moreover obtain st1 where "ini_lines h (k + 1) (concat (map print_pair ps) @ print_ini cfg) ?st =
      ini_lines h (k + 1 + int (length ps)) (print_ini cfg) st1"
    "ini_error st1 = 0 \<longleftrightarrow> ini_error st = 0 \<and> fst (feed h (map (\<lambda>(n, v). (name, n, v)) ps) (ini_user st))"
    "ini_user st1 = snd (feed h (map (\<lambda>(n, v). (name, n, v)) ps) (ini_user st))"
    using ini_lines_pairs [OF g(4), of "k + 1" h "print_ini cfg" ?st] Cons.prems(2) by auto
  moreover obtain st2 where "ini_lines h (k + 1 + int (length ps)) (print_ini cfg) st1 = st2"
    "ini_error st2 = 0 \<longleftrightarrow> ini_error st1 = 0 \<and> fst (feed h (settings cfg) (ini_user st1))"
    "ini_user st2 = snd (feed h (settings cfg) (ini_user st1))"
    using Cons.IH [of "k + 1 + int (length ps)" st1] Cons.prems by auto
  ultimately show ?case
    by (intro exI [of _ st2]) (auto simp: s settings_def feed_append split: prod.splits)
qed

lemma ini_parse_printed:
  assumes "files path = Some (print_ini cfg)" "\<forall>s \<in> set cfg. good_section s"
  shows "\<exists>e. ini_parse files path h u = (e, snd (feed h (settings cfg) u)) \<and> (e = 0 \<longleftrightarrow> fst (feed h (settings cfg) u))"
  using ini_lines_sections [OF assms(2), of 0 h "\<lparr>ini_section = [], prev_name = [], ini_error = 0, ini_user = u\<rparr>"]
  by (auto simp: ini_parse_def assms(1) ini_parse_file_def Let_def)

text \<open>
  C28: the parser reads back a printed configuration. For sections, names and values that have no
  line ends, comments or outer spaces and fit the buffers, \<open>ini_parse\<close> of the printed file calls the handler for
  every setting, in order and with exactly the section, name and value that were printed; the result
  is zero if and only if the handler accepts all of them.
\<close>

theorem ini_parse_roundtrip:
  assumes "files path = Some (print_ini cfg)" "\<forall>s \<in> set cfg. good_section s"
  shows "snd (ini_parse files path h u) = snd (feed h (settings cfg) u) \<and>
    (fst (ini_parse files path h u) = 0 \<longleftrightarrow> fst (feed h (settings cfg) u))"
  using ini_parse_printed [of files path cfg h u] assms by auto

definition collect_settings :: "(string \<times> string \<times> string) list ini_handler" where
  "collect_settings u s n v = (n \<noteq> ''x'', u @ [(s, n, v)])"

theorem ini_parse_roundtrip_witness:
  "snd (ini_parse (\<lambda>_. Some (print_ini [(''SDK'', [(''name'', ''a;b c''), (''x'', [])]), (''Q'', [])])) ''f'' collect_settings []) =
     [(''SDK'', ''name'', ''a;b c''), (''SDK'', ''x'', [])] \<and>
   fst (ini_parse (\<lambda>_. Some (print_ini [(''SDK'', [(''name'', ''a;b c''), (''x'', [])]), (''Q'', [])])) ''f'' collect_settings []) \<noteq> 0"
proof -
  let ?cfg = "[(''SDK'', [(''name'', ''a;b c''), (''x'', [])]), (''Q'', [])]"
  have "\<forall>s \<in> set ?cfg. good_section s" by code_simp
  moreover have "feed collect_settings (settings ?cfg) [] = (False, [(''SDK'', ''name'', ''a;b c''), (''SDK'', ''x'', [])])"
    by code_simp
  ultimately show ?thesis
    using ini_parse_roundtrip [of "\<lambda>_. Some (print_ini ?cfg)" "''f''" ?cfg collect_settings "[]"] by simp
qed

end
