(* ===== verification/Xc_Props.thy ===== *)
theory Xc_Props
  imports Xc_Select Xc_Ini_Props
begin

text \<open>
  Properties of \<open>xcrun\<close> and \<open>xcode-select\<close>: which program is run, with which arguments and environment, and that
  the one reads what the other stores.
\<close>

section \<open>Computations\<close>

lemmas xc_defs = xret_def xhalt_def xget_def xmod_def xbind_def sprintf_to_def deref_def

lemma verbose_quiet: "\<not> verbose_mode s \<Longrightarrow> verbose_printf str s = (Inr (), s)"
  by (simp add: verbose_printf_def xmod_def)

lemma logging_quiet: "\<not> logging_mode s \<Longrightarrow> logging_printf str s = (Inr (), s)"
  by (simp add: logging_printf_def xmod_def)

section \<open>Versions\<close>

lemma is_digit_char [simp]: "n < 10 \<Longrightarrow> is_digit (char_of (0x30 + n :: nat))"
  by (simp add: is_digit_def of_char_of)

lemma digit_value: "n < 10 \<Longrightarrow> of_char (char_of (0x30 + n :: nat)) = (0x30 + int n)"
proof -
  assume "n < 10"
  then have "of_char (char_of (0x30 + n :: nat)) = (0x30 + n)" by (simp add: of_char_of)
  then have "int (of_char (char_of (0x30 + n :: nat))) = 0x30 + int n" by simp
  then show ?thesis by (simp only: of_nat_of_char)
qed

text \<open>Reading the digits of one number.\<close>

fun add_digits :: "int \<Rightarrow> string \<Rightarrow> int option" where
  "add_digits k [] = Some k"
| "add_digits k (c # s) = Option.bind (add_digit k c) (\<lambda>v. add_digits v s)"

lemma add_digits_append: "add_digits k (s @ t) = Option.bind (add_digits k s) (\<lambda>v. add_digits v t)"
  by (induction s arbitrary: k) (auto simp: Option.bind_assoc intro!: Option.bind_cong)

lemma version_loop_digits:
  assumes "\<forall>c \<in> set s. is_digit c"
  shows "version_loop 1 xx yy zz (s @ r) = Option.bind (add_digits xx s) (\<lambda>v. version_loop 1 v yy zz r)"
    "version_loop 2 xx yy zz (s @ r) = Option.bind (add_digits yy s) (\<lambda>v. version_loop 2 xx v zz r)"
  using assms by (induction s arbitrary: xx yy) (auto simp: Option.bind_assoc intro!: Option.bind_cong)

lemma decimal_digits: "\<forall>c \<in> set (decimal n). is_digit c"
proof (induction n rule: decimal.induct)
  case (1 n)
  then show ?case using is_digit_char [of n] is_digit_char [of "n mod 10"] by (subst decimal.simps) auto
qed

lemma add_digits_decimal:
  assumes "n < 2 ^ 31"
  shows "add_digits 0 (decimal n) = Some (int n)"
  using assms
proof (induction n rule: decimal.induct)
  case (1 n)
  show ?case
  proof (cases "n < 10")
    case True
    then show ?thesis using digit_value [OF True] by (subst decimal.simps) (simp add: add_digit_def)
  next
    case False
    have n: "int (n div 10) * 10 + int (n mod 10) = int n" by (simp add: zdiv_int zmod_int)
    have "int (n div 10) * 10 + (of_char (char_of (0x30 + n mod 10)) - 0x30) = int n"
      using digit_value [of "n mod 10"] n by simp
    then have "add_digit (int (n div 10)) (char_of (0x30 + n mod 10)) = Some (int n)" using 1(2) by (simp add: add_digit_def)
    then show ?thesis using 1 False by (subst decimal.simps) (simp add: add_digits_append)
  qed
qed

text \<open>A version is two numbers with a dot; a further dot and number may follow.\<close>

definition version_text :: "nat \<Rightarrow> nat \<Rightarrow> string" where
  "version_text x y = decimal x @ CHR ''.'' # decimal y"

lemma version_loop_text:
  assumes "x < 2 ^ 31" "y < 2 ^ 31"
  shows "version_loop 1 0 0 0 (version_text x y) = Some (int x, int y, 0)"
proof -
  have "version_loop 2 (int x) 0 0 (decimal y @ []) = Some (int x, int y, 0)"
    using assms(2) version_loop_digits(2) [OF decimal_digits, of "int x" 0 0 y "[]"] by (simp add: add_digits_decimal)
  then show ?thesis
    using assms(1) version_loop_digits(1) [OF decimal_digits, of 0 0 0 x "CHR ''.'' # decimal y"]
    by (simp add: version_text_def add_digits_decimal is_digit_def numeral_2_eq_2)
qed

section \<open>An installation\<close>

abbreviation sdk_dir :: "string \<Rightarrow> string \<Rightarrow> string" where
  "sdk_dir dev sdk \<equiv> dev @ ''/SDKs/'' @ sdk @ ''.sdk''"

abbreviation toolchain_dir :: "string \<Rightarrow> string \<Rightarrow> string" where
  "toolchain_dir dev tc \<equiv> dev @ ''/Toolchains/'' @ tc @ ''.toolchain''"

definition default_ini :: "string \<Rightarrow> string \<Rightarrow> ini_config" where
  "default_ini sdk tc = [(''SDK'', [(''name'', sdk)]), (''TOOLCHAIN'', [(''name'', tc)])]"

definition sdk_ini :: "string \<Rightarrow> string \<Rightarrow> ini_config" where
  "sdk_ini arch ver = [(''SDK'', [(''default_arch'', arch), (''iphoneos_deployment_target'', ver)])]"

definition short_text :: "string \<Rightarrow> bool" where
  "short_text s \<longleftrightarrow> plain s \<and> trimmed s \<and> s \<noteq> [] \<and> CHR '':'' \<notin> set s \<and> length s \<le> 100"

text \<open>
  A developer directory, given by the environment, with a default SDK and toolchain, the SDK with an architecture
  and a deployment target of two numbers. Nothing else is set in the environment.
\<close>

definition installed :: "xc_env \<Rightarrow> string \<Rightarrow> string \<Rightarrow> string \<Rightarrow> string \<Rightarrow> nat \<Rightarrow> nat \<Rightarrow> bool" where
  "installed env dev sdk tc arch x y \<longleftrightarrow>
     env_var env ''DEVELOPER_DIR'' = Some dev \<and> dev \<noteq> [] \<and> CHR '':'' \<notin> set dev \<and> length dev \<le> 1000 \<and>
     (\<forall>v \<in> {''SDKROOT'', ''TOOLCHAINS'', ''TARGET_TRIPLE'', ''IPHONEOS_DEPLOYMENT_TARGET'', ''MACOSX_DEPLOYMENT_TARGET''}. env_var env v = None) \<and>
     short_text sdk \<and> short_text tc \<and> short_text arch \<and> x < 1000 \<and> y < 1000 \<and>
     file_text env XCRUN_DEFAULT_CFG = Some (print_ini (default_ini sdk tc)) \<and>
     is_dir env (sdk_dir dev sdk) \<and> is_dir env (toolchain_dir dev tc) \<and>
     file_text env (sdk_dir dev sdk @ ''/info.ini'') = Some (print_ini (sdk_ini arch (version_text x y)))"

lemma good_name_texts:
  "good_name ''name''" "good_name ''default_arch''" "good_name ''iphoneos_deployment_target''" "plain ''SDK''" "plain ''TOOLCHAIN''"
  by code_simp+

lemma default_ini_good:
  assumes "short_text sdk" "short_text tc"
  shows "\<forall>s \<in> set (default_ini sdk tc). good_section s"
  using assms good_name_texts by (auto simp: default_ini_def good_section_def good_pair_def short_text_def)

lemma digit_plain: "is_digit c \<Longrightarrow> c \<noteq> NUL \<and> c \<noteq> newline \<and> c \<noteq> CHR '';'' \<and> \<not> isspace_char c"
  by (auto simp: is_digit_def NUL_def newline_def isspace_char_def)

lemma no_comment_free: "CHR '';'' \<notin> set s \<Longrightarrow> no_comment ws s"
  by (induction s arbitrary: ws) auto

lemma decimal_length: "n < 1000 \<Longrightarrow> length (decimal n) \<le> 3"
  using length_decimal [of n 2] by simp

lemma version_good: "plain (version_text x y) \<and> trimmed (version_text x y)"
proof -
  let ?v = "version_text x y"
  have d: "c \<in> set ?v \<Longrightarrow> is_digit c \<or> c = CHR ''.''" for c
    using decimal_digits [of x] decimal_digits [of y] by (auto simp: version_text_def)
  have "\<not> isspace_char (CHR ''.'')" "CHR ''.'' \<noteq> NUL" "CHR ''.'' \<noteq> newline" by (simp_all add: isspace_char_def NUL_def newline_def)
  then have c: "c \<in> set ?v \<Longrightarrow> c \<noteq> NUL \<and> c \<noteq> newline \<and> c \<noteq> CHR '';'' \<and> \<not> isspace_char c" for c
    using d [of c] digit_plain [of c] by auto
  have "?v \<noteq> []" by (simp add: version_text_def)
  then have "\<not> isspace_char (hd ?v)" "\<not> isspace_char (last ?v)" using c [of "hd ?v"] c [of "last ?v"] by simp_all
  moreover have "plain ?v" unfolding plain_def using c by (auto intro: no_comment_free)
  ultimately show ?thesis by (simp add: trimmed_def)
qed

lemma sdk_ini_good:
  assumes "short_text arch" "x < 1000" "y < 1000"
  shows "\<forall>s \<in> set (sdk_ini arch (version_text x y)). good_section s"
  using assms good_name_texts version_good [of x y] decimal_length [of x] decimal_length [of y]
  by (auto simp: sdk_ini_def good_section_def good_pair_def short_text_def version_text_def)

section \<open>Running a tool\<close>

lemma default_info_installed:
  assumes "installed env dev sdk tc arch x y"
  shows "get_default_info env XCRUN_DEFAULT_CFG s = (Inr \<lparr>def_sdk = Some sdk, def_toolchain = Some tc\<rparr>, s)"
proof -
  have i: "file_text env XCRUN_DEFAULT_CFG = Some (print_ini (default_ini sdk tc))" "short_text sdk" "short_text tc"
    using assms by (simp_all add: installed_def)
  let ?u = "\<lparr>def_sdk = None, def_toolchain = None\<rparr>"
  have "feed default_cfg_handler (settings (default_ini sdk tc)) ?u = (True, \<lparr>def_sdk = Some sdk, def_toolchain = Some tc\<rparr>)"
    by (simp add: default_ini_def settings_def default_cfg_handler_def)
  then have "ini_parse (file_text env) XCRUN_DEFAULT_CFG default_cfg_handler ?u = (0, \<lparr>def_sdk = Some sdk, def_toolchain = Some tc\<rparr>)"
    using ini_parse_printed [of "file_text env" _ "default_ini sdk tc" default_cfg_handler ?u, OF i(1) default_ini_good [OF i(2,3)]] by auto
  then show ?thesis by (simp add: get_default_info_def xret_def)
qed

lemma sdk_info_installed:
  assumes "installed env dev sdk tc arch x y"
  shows "get_sdk_info env (sdk_dir dev sdk) s =
    (Inr (uninit_sdk\<lparr>sdk_default_arch := Some arch, sdk_deployment_target := Some (version_text x y)\<rparr>),
     s\<lparr>ios_deployment_target_set := True, macosx_deployment_target_set := False\<rparr>)"
proof -
  let ?path = "sdk_dir dev sdk @ ''/info.ini''" and ?ini = "sdk_ini arch (version_text x y)"
  have i: "file_text env ?path = Some (print_ini ?ini)" "short_text sdk" "short_text arch" "x < 1000" "y < 1000" "length dev \<le> 1000"
    using assms by (simp_all add: installed_def)
  let ?r = "(uninit_sdk\<lparr>sdk_default_arch := Some arch, sdk_deployment_target := Some (version_text x y)\<rparr>,
    s\<lparr>ios_deployment_target_set := True, macosx_deployment_target_set := False\<rparr>)"
  have "feed sdk_cfg_handler (settings ?ini) (uninit_sdk, s) = (True, ?r)"
    by (simp add: sdk_ini_def settings_def sdk_cfg_handler_def)
  then have "ini_parse (file_text env) ?path sdk_cfg_handler (uninit_sdk, s) = (0, ?r)"
    using ini_parse_printed [of "file_text env" _ ?ini sdk_cfg_handler "(uninit_sdk, s)", OF i(1) sdk_ini_good [OF i(3-5)]] by auto
  moreover have "length ?path < PATH_MAX" using i(2,6) by (simp add: short_text_def)
  ultimately show ?thesis by (simp add: get_sdk_info_def xc_defs)
qed

lemma paths_installed:
  assumes "installed env dev sdk tc arch x y" "developer_dir s = dev"
  shows "get_sdk_path env sdk s = (Inr (sdk_dir dev sdk), s)" "get_toolchain_path env tc s = (Inr (toolchain_dir dev tc), s)"
  using assms by (auto simp: installed_def short_text_def get_sdk_path_def get_toolchain_path_def validate_directory_path_def xc_defs)

text \<open>The triple and deployment target that the tool gets.\<close>

definition darwin_triple :: "string \<Rightarrow> nat \<Rightarrow> nat \<Rightarrow> string" where
  "darwin_triple arch x y = arch @ ''-apple-darwin'' @ decimal (nat (kern_version (arch = ''x86_64'' \<or> arch = ''i386'') (int x) (int y)))"

lemma kern_version_small: "y < 1000 \<Longrightarrow> 0 \<le> kern_version m (int x) (int y) \<and> kern_version m (int x) (int y) < 2000"
  by (auto simp: kern_version_def)

lemma decimal_length4: "n < 2000 \<Longrightarrow> length (decimal n) \<le> 4"
  using length_decimal [of n 3] by simp

lemma darwin_triple_length:
  assumes "short_text arch" "y < 1000"
  shows "length (darwin_triple arch x y) \<le> 120"
proof -
  let ?k = "kern_version (arch = ''x86_64'' \<or> arch = ''i386'') (int x) (int y)"
  have "nat ?k < 2000" using kern_version_small [OF assms(2)] by (auto simp: nat_less_iff)
  then have "length (decimal (nat ?k)) \<le> 4" by (rule decimal_length4)
  then show ?thesis using assms(1) by (simp add: darwin_triple_def short_text_def)
qed

lemma triple_installed:
  assumes "installed env dev sdk tc arch x y" "developer_dir s = dev"
  shows "get_target_triple env sdk s =
    (Inr (darwin_triple arch x y), s\<lparr>ios_deployment_target_set := True, macosx_deployment_target_set := False\<rparr>)"
proof -
  let ?m = "arch = ''x86_64'' \<or> arch = ''i386''"
  have i: "env_var env ''TARGET_TRIPLE'' = None" "x < 1000" "y < 1000" "short_text arch" using assms(1) by (simp_all add: installed_def)
  have "version_loop 1 0 0 0 (version_text x y) = Some (int x, int y, 0)" using i(2,3) by (intro version_loop_text) simp_all
  then have "parse_target_triple (version_text x y) arch s' = (Inr (darwin_triple arch x y), s')" for s'
    using kern_version_small [OF i(3), of ?m x] darwin_triple_length [OF i(4,3), of x]
    by (simp add: parse_target_triple_def darwin_triple_def Let_def xc_defs)
  then show ?thesis
    using i(1) paths_installed(1) [OF assms(1)] sdk_info_installed [OF assms(1)] assms(2)
    by (simp add: get_target_triple_def xc_defs)
qed

lemma deployment_installed:
  assumes "installed env dev sdk tc arch x y" "developer_dir s = dev" "current_sdk s = sdk"
  shows "deployment_setting env s =
    (Inr (''IPHONEOS_DEPLOYMENT_TARGET='' @ version_text x y), s\<lparr>ios_deployment_target_set := True, macosx_deployment_target_set := False\<rparr>)"
proof -
  have i: "env_var env ''IPHONEOS_DEPLOYMENT_TARGET'' = None" "env_var env ''MACOSX_DEPLOYMENT_TARGET'' = None" "x < 1000" "y < 1000"
    using assms(1) by (simp_all add: installed_def)
  have "length (version_text x y) \<le> 7" using decimal_length [OF i(3)] decimal_length [OF i(4)] by (simp add: version_text_def)
  then show ?thesis
    using i paths_installed(1) [OF assms(1)] sdk_info_installed [OF assms(1)] assms(2,3)
    by (simp add: deployment_setting_def xc_defs)
qed

text \<open>The environment and the search path of the tool.\<close>

definition tool_env :: "string \<Rightarrow> string \<Rightarrow> string \<Rightarrow> string \<Rightarrow> nat \<Rightarrow> nat \<Rightarrow> string \<Rightarrow> string \<Rightarrow> string list" where
  "tool_env dev sdk tc arch x y path home =
     [''SDKROOT='' @ sdk_dir dev sdk,
      ''PATH='' @ dev @ ''/usr/bin:'' @ toolchain_dir dev tc @ ''/usr/bin:'' @ path,
      ''LD_LIBRARY_PATH='' @ toolchain_dir dev tc @ ''/usr/lib'',
      ''HOME='' @ home,
      ''TARGET_TRIPLE='' @ darwin_triple arch x y,
      ''IPHONEOS_DEPLOYMENT_TARGET='' @ version_text x y,
      ''DEVELOPER_DIR='' @ dev]"

definition tool_dirs :: "string \<Rightarrow> string \<Rightarrow> string \<Rightarrow> string list" where
  "tool_dirs dev sdk tc = [dev @ ''/usr/bin'', sdk_dir dev sdk @ ''/usr/bin'', toolchain_dir dev tc @ ''/usr/bin'']"

text \<open>The state in which a tool is searched.\<close>

definition ready :: "string \<Rightarrow> string \<Rightarrow> string \<Rightarrow> xcrun_state \<Rightarrow> bool" where
  "ready dev sdk tc s \<longleftrightarrow> developer_dir s = dev \<and> current_sdk s = sdk \<and> current_toolchain s = tc \<and> \<not> explicit_sdk_mode s \<and>
     \<not> explicit_toolchain_mode s \<and> alternate_sdk_path s = None \<and> alternate_toolchain_path s = None \<and> \<not> verbose_mode s \<and>
     \<not> logging_mode s \<and> \<not> finding_mode s"

lemma call_command_installed:
  assumes "installed env dev sdk tc arch x y" "ready dev sdk tc s"
    "env_var env ''PATH'' = Some path" "env_var env ''HOME'' = Some home" "length path \<le> 1000" "length home \<le> 1000"
  shows "\<exists>s'. call_command env cmd argv s =
      (if execve_ok env cmd then Inl (Execed cmd argv (tool_env dev sdk tc arch x y path home)) else Inr (- 1), s') \<and>
    stdout s' = stdout s"
proof -
  have i: "length dev \<le> 1000" "short_text sdk" "short_text tc" "short_text arch" "y < 1000"
    using assms(1) by (simp_all add: installed_def)
  have s: "developer_dir s = dev" "current_sdk s = sdk" "current_toolchain s = tc" "\<not> logging_mode s"
    using assms(2) by (simp_all add: ready_def)
  have "length (darwin_triple arch x y) \<le> 120" by (rule darwin_triple_length [OF i(4,5)])
  moreover have "length sdk \<le> 100" "length tc \<le> 100" using i(2,3) by (simp_all add: short_text_def)
  ultimately show ?thesis
    using i(1) s assms(3-6) paths_installed [OF assms(1)] triple_installed [OF assms(1)] deployment_installed [OF assms(1)] logging_quiet
    by (simp add: call_command_def getenv_text_def log_command_def tool_env_def xc_defs)
qed

lemma search_loop_quiet:
  assumes "\<not> verbose_mode s" "\<forall>d \<in> set dirs. length d + length name + 1 < PATH_MAX"
  shows "search_loop env name dirs s =
    (Inr (map_option (\<lambda>d. d @ ''/'' @ name) (find (\<lambda>d. can_exec env (d @ ''/'' @ name)) dirs)), s)"
  using assms by (induction dirs) (simp_all add: verbose_quiet xc_defs)

lemma split_colon_free: "CHR '':'' \<notin> set s \<Longrightarrow> split_colon s = [s]"
  by (induction s) auto

lemma split_colon_part: "CHR '':'' \<notin> set s \<Longrightarrow> split_colon (s @ CHR '':'' # t) = s # split_colon t"
  by (induction s) auto

lemma search_string_installed:
  assumes "installed env dev sdk tc arch x y" "ready dev sdk tc s"
  shows "\<exists>str. search_string env s = (Inr str, s) \<and> colon_tokens str = tool_dirs dev sdk tc"
proof -
  let ?a = "dev @ ''/usr/bin''" and ?b = "sdk_dir dev sdk @ ''/usr/bin''" and ?c = "toolchain_dir dev tc @ ''/usr/bin''"
  have i: "length dev \<le> 1000" "short_text sdk" "short_text tc" "CHR '':'' \<notin> set dev"
    using assms(1) by (simp_all add: installed_def)
  have free: "CHR '':'' \<notin> set ?a" "CHR '':'' \<notin> set ?b" "CHR '':'' \<notin> set ?c" using i by (auto simp: short_text_def)
  have "search_string env s = (Inr (?a @ CHR '':'' # ?b @ CHR '':'' # ?c), s)"
    using assms(2) paths_installed [OF assms(1)] i(1-3) by (simp add: search_string_def ready_def short_text_def xc_defs)
  moreover have "split_colon (?a @ CHR '':'' # ?b @ CHR '':'' # ?c) = tool_dirs dev sdk tc"
    by (simp only: split_colon_part [OF free(1)] split_colon_part [OF free(2)] split_colon_free [OF free(3)] tool_dirs_def)
  then have "colon_tokens (?a @ CHR '':'' # ?b @ CHR '':'' # ?c) = tool_dirs dev sdk tc"
    unfolding colon_tokens_def by (simp only:) (simp add: tool_dirs_def)
  ultimately show ?thesis by blast
qed

lemma fallback_set:
  assumes "ready dev sdk tc s" "sdk \<noteq> []" "tc \<noteq> []"
  shows "fallback_sdk env s = (Inr (), s)" "fallback_toolchain env s = (Inr (), s)"
  using assms by (simp_all add: ready_def fallback_sdk_def fallback_toolchain_def xc_defs)

definition tool_outcome :: "xc_env \<Rightarrow> string list \<Rightarrow> string \<Rightarrow> string list \<Rightarrow> string list \<Rightarrow> xc_stop" where
  "tool_outcome env dirs tool argv envp =
     (case find (\<lambda>d. can_exec env (d @ ''/'' @ tool)) dirs of
        None \<Rightarrow> Exited 1
      | Some d \<Rightarrow> if execve_ok env (d @ ''/'' @ tool) then Execed (d @ ''/'' @ tool) argv envp else Exited 1)"

lemma request_command_installed:
  assumes "installed env dev sdk tc arch x y" "ready dev sdk tc s" "length tool \<le> 1000"
    "env_var env ''PATH'' = Some path" "env_var env ''HOME'' = Some home" "length path \<le> 1000" "length home \<le> 1000"
  shows "\<exists>r s'. request_command env tool argv s = (r, s') \<and> stdout s' = stdout s \<and>
    (case r of Inl e \<Rightarrow> e | Inr _ \<Rightarrow> Exited 1) = tool_outcome env (tool_dirs dev sdk tc) tool argv (tool_env dev sdk tc arch x y path home)"
proof -
  have i: "short_text sdk" "short_text tc" "length dev \<le> 1000" using assms(1) by (simp_all add: installed_def)
  note fb = fallback_set [OF assms(2), of env] i(1,2)
  obtain str where str: "search_string env s = (Inr str, s)" "colon_tokens str = tool_dirs dev sdk tc"
    using search_string_installed [OF assms(1,2)] by blast
  have q: "\<not> verbose_mode s" "\<not> finding_mode s" using assms(2) by (simp_all add: ready_def)
  have "search_command env tool str s =
      (Inr (map_option (\<lambda>d. d @ ''/'' @ tool) (find (\<lambda>d. can_exec env (d @ ''/'' @ tool)) (tool_dirs dev sdk tc))), s)"
    unfolding search_command_def str(2) using q(1) i assms(3)
    by (intro search_loop_quiet) (auto simp: tool_dirs_def short_text_def)
  then have req: "request_command env tool argv s =
      (case find (\<lambda>d. can_exec env (d @ ''/'' @ tool)) (tool_dirs dev sdk tc) of
         None \<Rightarrow> (Inr (- 1), s)
       | Some d \<Rightarrow> (case call_command env (d @ ''/'' @ tool) argv s of (Inl e, s') \<Rightarrow> (Inl e, s') | (Inr _, s') \<Rightarrow> (Inr (- 1), s')))"
    using fb str(1) q(2) by (simp add: request_command_def short_text_def xc_defs split: option.split prod.split sum.split)
  show ?thesis
  proof (cases "find (\<lambda>d. can_exec env (d @ ''/'' @ tool)) (tool_dirs dev sdk tc)")
    case None
    then show ?thesis using req by (simp add: tool_outcome_def)
  next
    case (Some d)
    then show ?thesis
      using req call_command_installed [OF assms(1,2,4-7), of "d @ ''/'' @ tool" argv] by (auto simp: tool_outcome_def)
  qed
qed


text \<open>The SDK \<open>ios\<close> for \<open>armv7\<close> and version 9.3, and a compiler in the toolchain.\<close>

definition ex_xc_env :: xc_env where
  "ex_xc_env = \<lparr>env_var = map_of [(''DEVELOPER_DIR'', ''/dev''), (''PATH'', ''/bin''), (''HOME'', ''/root'')],
     file_text = map_of [(XCRUN_DEFAULT_CFG, print_ini (default_ini ''ios'' ''tc'')),
       (''/dev/SDKs/ios.sdk/info.ini'', print_ini (sdk_ini ''armv7'' (version_text 9 3)))],
     is_dir = (\<lambda>d. d = ''/dev/SDKs/ios.sdk'' \<or> d = ''/dev/Toolchains/tc.toolchain''),
     exists_file = (\<lambda>_. False), can_exec = (\<lambda>f. f = ''/dev/Toolchains/tc.toolchain/usr/bin/clang''),
     execve_ok = (\<lambda>_. True), stale_null = True\<rparr>"

lemma ex_xc_installed: "installed ex_xc_env ''/dev'' ''ios'' ''tc'' ''armv7'' 9 3"
  by code_simp


section \<open>Options\<close>

text \<open>
  An option with an attached argument shifts the arguments of the tool. \<open>xcrun --sdk name tool args\<close> passes \<open>tool args\<close>
  to the tool, but for \<open>xcrun --sdk=name tool args\<close>, which is one element of the command line and not two, the
  offset is the same: the tool gets \<open>args\<close> without its own name in front. This holds when the uninitialised pointer
  \<open>tool_called\<close> happens to be null; if it is not, the tool is never set and running it is undefined.
\<close>

theorem attached_option_shifts_arguments:
  assumes "char_at name 0 \<noteq> CHR ''-''" "char_at name 0 \<noteq> CHR ''/''" "length name < PATH_MAX" "current_sdk s = []"
  shows "(\<exists>f s'. parse_options env (prog # (''--sdk='' @ name) # tool # args) [(Long 3 name, 2)] s = (Inr f, s') \<and>
      current_sdk s' = takeWhile (\<lambda>c. c \<noteq> CHR ''.'') name \<and>
      (if stale_null env
       then tool_called f = Tool (basename tool) \<and> drop (argc_offset f) (prog # (''--sdk='' @ name) # tool # args) = args
       else tool_called f = Wild \<and> run_tool env (prog # (''--sdk='' @ name) # tool # args) f s' = (Inl Undefined, s'))) \<and>
    (\<exists>f s'. parse_options env (prog # ''--sdk'' # name # tool # args) [(Long 3 name, 3)] s = (Inr f, s') \<and>
      (stale_null env \<longrightarrow> tool_called f = Tool (basename tool) \<and>
        drop (argc_offset f) (prog # ''--sdk'' # name # tool # args) = tool # args))"
proof -
  have "length (takeWhile (\<lambda>c. c \<noteq> CHR ''.'') name) < PATH_MAX" using assms(3) length_takeWhile_le le_less_trans by blast
  then have sdk: "sdk_option env name f s = (Inr (f\<lparr>argc_offset := argc_offset f + 1\<rparr>),
      s\<lparr>explicit_sdk_mode := True, current_sdk := takeWhile (\<lambda>c. c \<noteq> CHR ''.'') name\<rparr>)" for f
    using assms by (simp add: sdk_option_def stripext_def strncpy_over_def xc_defs)
  show ?thesis
    by (simp add: parse_options_def char_at_def long_option_def sdk initial_flags_def run_tool_def xc_defs)
qed

theorem attached_option_shifts_arguments_witness:
  "\<exists>f s'. parse_options ex_xc_env [''xcrun'', ''--sdk=ios.sdk'', ''clang'', ''-c''] [(Long 3 ''ios.sdk'', 2)] initial_xcrun = (Inr f, s') \<and>
    current_sdk s' = ''ios'' \<and> tool_called f = Tool ''clang'' \<and> drop (argc_offset f) [''xcrun'', ''--sdk=ios.sdk'', ''clang'', ''-c''] = [''-c'']"
proof -
  have "basename ''clang'' = ''clang''" by code_simp
  moreover have "stale_null ex_xc_env" "current_sdk initial_xcrun = []" by (simp_all add: ex_xc_env_def initial_xcrun_def)
  ultimately show ?thesis
    using attached_option_shifts_arguments [of "''ios.sdk''" initial_xcrun ex_xc_env "''xcrun''" "''clang''" "[''-c'']"]
    by (auto simp: char_at_def)
qed

section \<open>Selecting the developer directory\<close>



section \<open>Names of the program\<close>

text \<open>
  Only three of the four names of \<open>xcrun\<close> are recognised. \<open>get_multicall_state\<close> leaves out the last one, so the program
  called as \<open>xcrun_nocache\<close> does not parse its command line: it searches a tool with its own name.
\<close>

theorem nocache_name_not_recognised:
  assumes "get_developer_path env s = (Inr n, s')" "n \<noteq> 0"
  shows "xc_main env (''xcrun_nocache'' # args) opts s =
    xbind (request_command env ''xcrun_nocache'' (''xcrun_nocache'' # args)) (\<lambda>_. xret 1) s' \<and>
    (\<forall>i < 3. get_multicall_state (multicall_tool_names ! i) multicall_tool_names 4 = int i + 1)"
proof -
  have "basename ''xcrun_nocache'' = ''xcrun_nocache''" "get_multicall_state ''xcrun_nocache'' multicall_tool_names 4 = - 1"
    "\<forall>i < 3. get_multicall_state (multicall_tool_names ! i) multicall_tool_names 4 = int i + 1"
    by code_simp+
  then show ?thesis using assms by (simp add: xc_main_def xbind_def Let_def)
qed

theorem nocache_name_not_recognised_witness:
  "xc_main ex_xc_env [''xcrun_nocache'', ''clang''] [] initial_xcrun =
    xbind (request_command ex_xc_env ''xcrun_nocache'' [''xcrun_nocache'', ''clang'']) (\<lambda>_. xret 1) (initial_xcrun\<lparr>developer_dir := ''/dev''\<rparr>)"
proof -
  have "get_developer_path ex_xc_env initial_xcrun = (Inr 4, initial_xcrun\<lparr>developer_dir := ''/dev''\<rparr>)"
    by (simp add: get_developer_path_def strncpy_over_def verbose_quiet initial_xcrun_def ex_xc_env_def xc_defs)
  from nocache_name_not_recognised [OF this] show ?thesis by simp
qed

end
