(* ===== verification/Wk_Compress.thy ===== *)
theory Wk_Compress
  imports Prelude
begin

text \<open>
  The page compressor of the hibernation code, \<open>Kernel/iokit/Kernel/WKdmCompress.c\<close> and \<open>WKdmDecompress.c\<close> with
  \<open>WKdm.h\<close> (the copies under \<open>libkern/kxld\<close> differ in casts only). Source and destination are lists of words; the
  temporary arrays are the list of what has been written to them, with their size as bound, and their
  unwritten rest is the parameter \<open>junk\<close>. An access outside an array is \<open>None\<close>. Bytes and words overlay each other in
  little-endian order.
\<close>

section \<open>Layout and constants\<close>

type_synonym WK_word = u32

abbreviation (input) PAGE_SIZE_IN_WORDS :: nat where "PAGE_SIZE_IN_WORDS \<equiv> 1024"
abbreviation (input) DICTIONARY_SIZE :: nat where "DICTIONARY_SIZE \<equiv> 16"
abbreviation (input) HEADER_SIZE_IN_WORDS :: nat where "HEADER_SIZE_IN_WORDS \<equiv> 4"
abbreviation (input) TAGS_AREA_OFFSET :: nat where "TAGS_AREA_OFFSET \<equiv> 4"
abbreviation (input) TAGS_AREA_SIZE :: nat where "TAGS_AREA_SIZE \<equiv> 64"
abbreviation (input) TWO_BITS_PACKING_MASK :: WK_word where "TWO_BITS_PACKING_MASK \<equiv> 0x03030303"
abbreviation (input) FOUR_BITS_PACKING_MASK :: WK_word where "FOUR_BITS_PACKING_MASK \<equiv> 0x0F0F0F0F"
abbreviation (input) LOW_BITS_MASK :: WK_word where "LOW_BITS_MASK \<equiv> 0x3FF"
abbreviation (input) NUM_LOW_BITS :: nat where "NUM_LOW_BITS \<equiv> 10"

abbreviation (input) ZERO_TAG :: u8 where "ZERO_TAG \<equiv> 0"
abbreviation (input) PARTIAL_TAG :: u8 where "PARTIAL_TAG \<equiv> 1"
abbreviation (input) MISS_TAG :: u8 where "MISS_TAG \<equiv> 2"
abbreviation (input) EXACT_TAG :: u8 where "EXACT_TAG \<equiv> 3"

text \<open>The sizes of the temporary arrays: 300 words of tags and of positions, 1200 words of low bits.\<close>

abbreviation (input) temp_bytes :: nat where "temp_bytes \<equiv> 1200"
abbreviation (input) temp_lows :: nat where "temp_lows \<equiv> 1200"

definition hashLookupTable :: "nat list" where
  "hashLookupTable =
    [0, 52, 8, 56, 16, 12, 28, 20, 4, 36, 48, 24, 44, 40, 32, 60, 8, 12, 28, 20, 4, 60, 16, 36, 24, 48, 44, 32, 52, 56, 40, 12,
     8, 48, 16, 52, 60, 28, 56, 32, 20, 24, 36, 40, 44, 4, 8, 40, 60, 32, 20, 44, 4, 36, 52, 24, 16, 56, 48, 12, 28, 16, 8, 40,
     36, 28, 32, 12, 4, 44, 52, 20, 24, 48, 60, 56, 40, 48, 8, 32, 28, 36, 4, 44, 20, 56, 60, 24, 52, 16, 12, 12, 4, 48, 20, 8,
     52, 16, 60, 24, 36, 44, 28, 56, 40, 32, 36, 20, 24, 60, 40, 44, 52, 16, 32, 4, 48, 8, 28, 56, 12, 28, 32, 40, 52, 36, 16, 20,
     48, 8, 4, 60, 24, 56, 44, 12, 8, 36, 24, 28, 16, 60, 20, 56, 32, 40, 48, 12, 4, 44, 52, 44, 40, 12, 56, 8, 36, 24, 60, 28,
     48, 4, 32, 20, 16, 52, 60, 12, 24, 36, 8, 4, 16, 56, 48, 44, 40, 52, 32, 20, 28, 32, 12, 36, 28, 24, 56, 40, 16, 52, 44, 4,
     20, 60, 8, 48, 48, 52, 12, 20, 32, 44, 36, 28, 4, 40, 24, 8, 56, 60, 16, 36, 32, 8, 40, 4, 52, 24, 44, 20, 12, 28, 48, 56,
     16, 60, 4, 52, 60, 48, 20, 16, 56, 44, 24, 8, 40, 12, 32, 28, 36, 24, 32, 12, 4, 20, 16, 60, 36, 28, 8, 52, 40, 48, 44, 56]"

definition HIGH_BITS :: "WK_word \<Rightarrow> WK_word" where
  "HIGH_BITS w = drop_bit NUM_LOW_BITS w"

definition LOW_BITS :: "WK_word \<Rightarrow> WK_word" where
  "LOW_BITS w = w AND LOW_BITS_MASK"

definition HASH_TO_DICT_BYTE_OFFSET :: "WK_word \<Rightarrow> nat" where
  "HASH_TO_DICT_BYTE_OFFSET pattern = hashLookupTable ! unat (drop_bit 10 pattern AND 0xFF)"

text \<open>The dictionary entry at the hashed byte offset.\<close>

definition dict_location :: "WK_word \<Rightarrow> nat" where
  "dict_location w = HASH_TO_DICT_BYTE_OFFSET w div 4"

definition PRELOAD_DICTIONARY :: "WK_word list" where
  "PRELOAD_DICTIONARY = replicate DICTIONARY_SIZE 1"

section \<open>Arrays\<close>

definition wload :: "'a list \<Rightarrow> nat \<Rightarrow> 'a option" where
  "wload xs i = (if i < length xs then Some (xs ! i) else None)"

definition wstore :: "'a list \<Rightarrow> nat \<Rightarrow> 'a \<Rightarrow> 'a list option" where
  "wstore xs i v = (if i < length xs then Some (xs[i := v]) else None)"

text \<open>Writing at the fill pointer of a temporary array.\<close>

definition EMIT :: "nat \<Rightarrow> 'a list \<Rightarrow> 'a \<Rightarrow> 'a list option" where
  "EMIT cap xs v = (if length xs < cap then Some (xs @ [v]) else None)"

fun le_words :: "u8 list \<Rightarrow> u32 list" where
  "le_words (a # b # c # d # r) = le32 a b c d # le_words r"
| "le_words _ = []"

fun words_bytes :: "u32 list \<Rightarrow> u8 list" where
  "words_bytes [] = []"
| "words_bytes (w # ws) = byte_of 0 w # byte_of 1 w # byte_of 2 w # byte_of 3 w # words_bytes ws"

text \<open>A temporary array as it is read: what was written, then what it held before.\<close>

definition whole :: "(nat \<Rightarrow> 'a) \<Rightarrow> nat \<Rightarrow> 'a list \<Rightarrow> 'a list" where
  "whole junk cap xs = xs @ map junk [length xs..<cap]"

section \<open>Packing\<close>

text \<open>
  The words from the source pointer on, the number of words up to the end pointer, the
  destination and the index of the next word in it.
\<close>

fun WK_pack_2bits :: "WK_word list \<Rightarrow> nat \<Rightarrow> WK_word list \<Rightarrow> nat \<Rightarrow> (WK_word list \<times> nat) option" where
  "WK_pack_2bits (a # b # c # d # r) n dest i =
     (if n = 0 then Some (dest, i)
      else do {
        dest1 \<leftarrow> wstore dest i (a OR push_bit 2 b OR push_bit 4 c OR push_bit 6 d);
        WK_pack_2bits r (n - 4) dest1 (i + 1)
      })"
| "WK_pack_2bits r n dest i = (if n = 0 then Some (dest, i) else None)"

fun WK_pack_4bits :: "WK_word list \<Rightarrow> nat \<Rightarrow> WK_word list \<Rightarrow> nat \<Rightarrow> (WK_word list \<times> nat) option" where
  "WK_pack_4bits (a # b # r) n dest i =
     (if n = 0 then Some (dest, i)
      else do {
        dest1 \<leftarrow> wstore dest i (a OR push_bit 4 b);
        WK_pack_4bits r (n - 2) dest1 (i + 1)
      })"
| "WK_pack_4bits r n dest i = (if n = 0 then Some (dest, i) else None)"

fun WK_pack_3_tenbits :: "WK_word list \<Rightarrow> nat \<Rightarrow> WK_word list \<Rightarrow> nat \<Rightarrow> (WK_word list \<times> nat) option" where
  "WK_pack_3_tenbits (a # b # c # r) n dest i =
     (if n = 0 then Some (dest, i)
      else do {
        dest1 \<leftarrow> wstore dest i (a OR push_bit 10 b OR push_bit 20 c);
        WK_pack_3_tenbits r (n - 3) dest1 (i + 1)
      })"
| "WK_pack_3_tenbits r n dest i = (if n = 0 then Some (dest, i) else None)"

section \<open>Compressing\<close>

record wk_state =
  dictionary :: "WK_word list"
  wk_tags :: "u8 list"
  wk_qpos :: "u8 list"
  wk_lows :: "WK_word list"
  next_full_patt :: nat
  wk_dest :: "WK_word list"

definition RECORD_ZERO :: "wk_state \<Rightarrow> wk_state option" where
  "RECORD_ZERO st = do { t \<leftarrow> EMIT temp_bytes (wk_tags st) ZERO_TAG; Some (st\<lparr>wk_tags := t\<rparr>) }"

definition RECORD_EXACT :: "nat \<Rightarrow> wk_state \<Rightarrow> wk_state option" where
  "RECORD_EXACT queue_posn st = do {
     t \<leftarrow> EMIT temp_bytes (wk_tags st) EXACT_TAG;
     q \<leftarrow> EMIT temp_bytes (wk_qpos st) (of_nat queue_posn);
     Some (st\<lparr>wk_tags := t, wk_qpos := q\<rparr>)
   }"

definition RECORD_PARTIAL :: "nat \<Rightarrow> WK_word \<Rightarrow> wk_state \<Rightarrow> wk_state option" where
  "RECORD_PARTIAL queue_posn low st = do {
     t \<leftarrow> EMIT temp_bytes (wk_tags st) PARTIAL_TAG;
     q \<leftarrow> EMIT temp_bytes (wk_qpos st) (of_nat queue_posn);
     l \<leftarrow> EMIT temp_lows (wk_lows st) low;
     Some (st\<lparr>wk_tags := t, wk_qpos := q, wk_lows := l\<rparr>)
   }"

definition RECORD_MISS :: "WK_word \<Rightarrow> wk_state \<Rightarrow> wk_state option" where
  "RECORD_MISS w st = do {
     t \<leftarrow> EMIT temp_bytes (wk_tags st) MISS_TAG;
     d \<leftarrow> wstore (wk_dest st) (next_full_patt st) w;
     Some (st\<lparr>wk_tags := t, wk_dest := d, next_full_patt := next_full_patt st + 1\<rparr>)
   }"

text \<open>One word of the input.\<close>

definition model_word :: "WK_word \<Rightarrow> wk_state \<Rightarrow> wk_state option" where
  "model_word input_word st =
     (let loc = dict_location input_word in do {
      dict_word \<leftarrow> wload (dictionary st) loc;
      if input_word = dict_word then RECORD_EXACT loc st
      else if input_word = 0 then RECORD_ZERO st
      else if HIGH_BITS input_word = HIGH_BITS dict_word
      then do {
        st1 \<leftarrow> RECORD_PARTIAL loc (LOW_BITS input_word) st;
        d \<leftarrow> wstore (dictionary st1) loc input_word;
        Some (st1\<lparr>dictionary := d\<rparr>)
      }
      else do {
        st1 \<leftarrow> RECORD_MISS input_word st;
        d \<leftarrow> wstore (dictionary st1) loc input_word;
        Some (st1\<lparr>dictionary := d\<rparr>)
      }
    })"

fun model_loop :: "WK_word list \<Rightarrow> wk_state \<Rightarrow> wk_state option" where
  "model_loop [] st = Some st"
| "model_loop (w # ws) st = do { st1 \<leftarrow> model_word w st; model_loop ws st1 }"

text \<open>Padding a temporary array with zeros up to an index.\<close>

definition pad_to :: "nat \<Rightarrow> nat \<Rightarrow> 'a \<Rightarrow> 'a list \<Rightarrow> 'a list option" where
  "pad_to cap n z xs = (if length xs < n \<and> n > cap then None else Some (xs @ replicate (n - length xs) z))"

text \<open>The new destination and the size of the result in bytes.\<close>

definition WKdm_compress ::
  "(nat \<Rightarrow> u8) \<Rightarrow> (nat \<Rightarrow> WK_word) \<Rightarrow> WK_word list \<Rightarrow> WK_word list \<Rightarrow> nat \<Rightarrow> (WK_word list \<times> nat) option" where
  "WKdm_compress junk junkw src_buf dest_buf num_input_words = do {
     st \<leftarrow> (if num_input_words \<le> length src_buf
        then model_loop (take num_input_words src_buf)
          \<lparr>dictionary = PRELOAD_DICTIONARY, wk_tags = [], wk_qpos = [], wk_lows = [],
           next_full_patt = TAGS_AREA_OFFSET + num_input_words div 16, wk_dest = dest_buf\<rparr>
        else None);
     d1 \<leftarrow> wstore (wk_dest st) 1 (of_nat (next_full_patt st));
     (d2, _) \<leftarrow> WK_pack_2bits (le_words (whole junk temp_bytes (wk_tags st))) ((length (wk_tags st) + 3) div 4) d1 HEADER_SIZE_IN_WORDS;
     let qwords = ((length (wk_qpos st) + 7) div 8) * 2;
     q \<leftarrow> pad_to temp_bytes (4 * qwords) 0 (wk_qpos st);
     (d3, b1) \<leftarrow> WK_pack_4bits (le_words (whole junk temp_bytes q)) qwords d2 (next_full_patt st);
     d4 \<leftarrow> wstore d3 2 (of_nat b1);
     let lwords = ((length (wk_lows st) + 2) div 3) * 3;
     l \<leftarrow> pad_to temp_lows lwords 0 (wk_lows st);
     (d5, b2) \<leftarrow> WK_pack_3_tenbits (whole junkw temp_lows l) lwords d4 b1;
     d6 \<leftarrow> wstore d5 3 (of_nat b2);
     Some (d6, 4 * b2)
   }"

section \<open>Unpacking\<close>

text \<open>The source, the indices from the start to the end of an area, and the output array filled so far.\<close>

fun WK_unpack_2bits :: "WK_word list \<Rightarrow> nat list \<Rightarrow> nat \<Rightarrow> WK_word list \<Rightarrow> WK_word list option" where
  "WK_unpack_2bits src [] cap out = Some out"
| "WK_unpack_2bits src (i # is) cap out = do {
     temp \<leftarrow> wload src i;
     let new = out @ [temp AND TWO_BITS_PACKING_MASK, drop_bit 2 temp AND TWO_BITS_PACKING_MASK,
       drop_bit 4 temp AND TWO_BITS_PACKING_MASK, drop_bit 6 temp AND TWO_BITS_PACKING_MASK];
     if length new \<le> cap then WK_unpack_2bits src is cap new else None
   }"

fun WK_unpack_4bits :: "WK_word list \<Rightarrow> nat list \<Rightarrow> nat \<Rightarrow> WK_word list \<Rightarrow> WK_word list option" where
  "WK_unpack_4bits src [] cap out = Some out"
| "WK_unpack_4bits src (i # is) cap out = do {
     temp \<leftarrow> wload src i;
     let new = out @ [temp AND FOUR_BITS_PACKING_MASK, drop_bit 4 temp AND FOUR_BITS_PACKING_MASK];
     if length new \<le> cap then WK_unpack_4bits src is cap new else None
   }"

fun WK_unpack_3_tenbits :: "WK_word list \<Rightarrow> nat list \<Rightarrow> nat \<Rightarrow> WK_word list \<Rightarrow> WK_word list option" where
  "WK_unpack_3_tenbits src [] cap out = Some out"
| "WK_unpack_3_tenbits src (i # is) cap out = do {
     temp \<leftarrow> wload src i;
     let new = out @ [temp AND LOW_BITS_MASK, drop_bit 10 temp AND LOW_BITS_MASK, drop_bit 20 temp];
     if length new \<le> cap then WK_unpack_3_tenbits src is cap new else None
   }"

section \<open>Decompressing\<close>

text \<open>
  The loop over the tags, with the positions and low bits that are left and the index of the next full word.
  A read behind the unpacked part of a temporary array is undefined.
\<close>

fun decode_loop :: "WK_word list \<Rightarrow> u8 list \<Rightarrow> WK_word list \<Rightarrow> u8 list \<Rightarrow> WK_word list \<Rightarrow> nat \<Rightarrow> WK_word list option" where
  "decode_loop src [] dict qs ls k = Some []"
| "decode_loop src (tag # tags) dict qs ls k =
     (if tag = ZERO_TAG then map_option (Cons 0) (decode_loop src tags dict qs ls k)
      else if tag = EXACT_TAG then do {
        q \<leftarrow> wload qs 0;
        w \<leftarrow> wload dict (unat q);
        map_option (Cons w) (decode_loop src tags dict (tl qs) ls k)
      }
      else if tag = PARTIAL_TAG then do {
        q \<leftarrow> wload qs 0;
        old \<leftarrow> wload dict (unat q);
        l \<leftarrow> wload ls 0;
        let temp = push_bit NUM_LOW_BITS (drop_bit NUM_LOW_BITS old) OR l;
        dict1 \<leftarrow> wstore dict (unat q) temp;
        map_option (Cons temp) (decode_loop src tags dict1 (tl qs) (tl ls) k)
      }
      else if tag = MISS_TAG then do {
        w \<leftarrow> wload src k;
        dict1 \<leftarrow> wstore dict (dict_location w) w;
        map_option (Cons w) (decode_loop src tags dict1 qs ls (k + 1))
      }
      else None)"

text \<open>The words of the page; the parameter for their number is not used.\<close>

definition WKdm_decompress :: "WK_word list \<Rightarrow> WK_word list option" where
  "WKdm_decompress src_buf = do {
     h1 \<leftarrow> wload src_buf 1;
     h2 \<leftarrow> wload src_buf 2;
     h3 \<leftarrow> wload src_buf 3;
     let tags_end = TAGS_AREA_OFFSET + TAGS_AREA_SIZE;
     t \<leftarrow> WK_unpack_2bits src_buf [TAGS_AREA_OFFSET..<tags_end] 300 [];
     q \<leftarrow> WK_unpack_4bits src_buf [unat h1..<unat h2] 300 [];
     l \<leftarrow> WK_unpack_3_tenbits src_buf [unat h2..<unat h3] 1200 [];
     decode_loop src_buf (take PAGE_SIZE_IN_WORDS (words_bytes t)) PRELOAD_DICTIONARY (words_bytes q) l tags_end
   }"

end
