(* ===== verification/Wk_Props.thy ===== *)
theory Wk_Props
  imports Wk_Compress
begin

text \<open>
  The page compressor loses nothing: decompressing a compressed page gives the page back, and the compressed form has
  a bounded size. The modelling phase is separated from packing: \<open>encode\<close> is what it records, the
  bit lemmas show that each packed word unpacks to its group.
\<close>

section \<open>Bits\<close>

lemma bit_mask2: "bit (0x03030303 :: u32) n \<longleftrightarrow> n < 32 \<and> n mod 8 < 2"
proof -
  have "\<forall>n \<in> set [0..<32]. bit (0x03030303 :: u32) n \<longleftrightarrow> n mod 8 < 2" by code_simp
  then show ?thesis using bit_imp_le_length [of "0x03030303 :: u32" n] by auto
qed

lemma bit_mask4: "bit (0x0F0F0F0F :: u32) n \<longleftrightarrow> n < 32 \<and> n mod 8 < 4"
proof -
  have "\<forall>n \<in> set [0..<32]. bit (0x0F0F0F0F :: u32) n \<longleftrightarrow> n mod 8 < 4" by code_simp
  then show ?thesis using bit_imp_le_length [of "0x0F0F0F0F :: u32" n] by auto
qed

lemma bit_mask10: "bit (0x3FF :: u32) n \<longleftrightarrow> n < 10"
proof -
  have "\<forall>n \<in> set [0..<32]. bit (0x3FF :: u32) n \<longleftrightarrow> n < 10" by code_simp
  then show ?thesis using bit_imp_le_length [of "0x3FF :: u32" n] by auto
qed

lemma bit_and_masks:
  "bit (w AND 0x03030303 :: u32) n \<longleftrightarrow> bit w n \<and> n mod 8 < 2" "bit (w AND 0x0F0F0F0F :: u32) n \<longleftrightarrow> bit w n \<and> n mod 8 < 4"
  "bit (w AND 0x3FF :: u32) n \<longleftrightarrow> bit w n \<and> n < 10"
  using bit_imp_le_length [of w n] by (simp_all only: bit_and_iff bit_mask2 bit_mask4 bit_mask10) auto

text \<open>Words that hold values of two and four bits in each byte, and values of ten bits.\<close>

definition twos :: "u32 \<Rightarrow> bool" where "twos w \<longleftrightarrow> (\<forall>n. bit w n \<longrightarrow> n mod 8 < 2)"
definition fours :: "u32 \<Rightarrow> bool" where "fours w \<longleftrightarrow> (\<forall>n. bit w n \<longrightarrow> n mod 8 < 4)"
definition tens :: "u32 \<Rightarrow> bool" where "tens w \<longleftrightarrow> (\<forall>n. bit w n \<longrightarrow> n < 10)"

lemma mod8_disjoint:
  fixes n :: nat
  assumes "n < 32" "n mod 8 < 2"
  shows "2 \<le> n \<Longrightarrow> \<not> (n - 2) mod 8 < 2" "4 \<le> n \<Longrightarrow> \<not> (n - 4) mod 8 < 2" "6 \<le> n \<Longrightarrow> \<not> (n - 6) mod 8 < 2"
    "\<not> (n + 2) mod 8 < 2" "\<not> (n + 4) mod 8 < 2" "\<not> (n + 6) mod 8 < 2" "n + 6 < 32"
proof -
  have "\<forall>n \<in> set [0..<32]. n mod 8 < 2 \<longrightarrow> (2 \<le> n \<longrightarrow> \<not> (n - 2) mod 8 < 2) \<and> (4 \<le> n \<longrightarrow> \<not> (n - 4) mod 8 < 2) \<and>
      (6 \<le> n \<longrightarrow> \<not> (n - 6) mod 8 < 2) \<and> \<not> (n + 2) mod 8 < 2 \<and> \<not> (n + 4) mod 8 < 2 \<and> \<not> (n + 6) mod (8 :: nat) < 2 \<and> n + 6 < 32" by code_simp
  then show "2 \<le> n \<Longrightarrow> \<not> (n - 2) mod 8 < 2" "4 \<le> n \<Longrightarrow> \<not> (n - 4) mod 8 < 2" "6 \<le> n \<Longrightarrow> \<not> (n - 6) mod 8 < 2"
    "\<not> (n + 2) mod 8 < 2" "\<not> (n + 4) mod 8 < 2" "\<not> (n + 6) mod 8 < 2" "n + 6 < 32"
    using assms by auto
qed

lemma mod8_disjoint4:
  fixes n :: nat
  assumes "n < 32" "n mod 8 < 4"
  shows "4 \<le> n \<Longrightarrow> \<not> (n - 4) mod 8 < 4" "\<not> (n + 4) mod 8 < 4" "n + 4 < 32"
proof -
  have "\<forall>n \<in> set [0..<32]. n mod 8 < 4 \<longrightarrow> (4 \<le> n \<longrightarrow> \<not> (n - 4) mod 8 < 4) \<and> \<not> (n + 4) mod (8 :: nat) < 4 \<and> n + 4 < 32" by code_simp
  then show "4 \<le> n \<Longrightarrow> \<not> (n - 4) mod 8 < 4" "\<not> (n + 4) mod 8 < 4" "n + 4 < 32" using assms by auto
qed

lemma unpack_twos:
  assumes "twos a" "twos b" "twos c" "twos d"
  defines "w \<equiv> a OR push_bit 2 b OR push_bit 4 c OR push_bit 6 d"
  shows "w AND 0x03030303 = a" "drop_bit 2 w AND 0x03030303 = b" "drop_bit 4 w AND 0x03030303 = c" "drop_bit 6 w AND 0x03030303 = d"
proof -
  have t: "\<And>n. bit a n \<Longrightarrow> n mod 8 < 2" "\<And>n. bit b n \<Longrightarrow> n mod 8 < 2" "\<And>n. bit c n \<Longrightarrow> n mod 8 < 2" "\<And>n. bit d n \<Longrightarrow> n mod 8 < 2"
    using assms(1-4) by (auto simp: twos_def)
  have w: "bit w n \<longleftrightarrow> n < 32 \<and> (bit a n \<or> 2 \<le> n \<and> bit b (n - 2) \<or> 4 \<le> n \<and> bit c (n - 4) \<or> 6 \<le> n \<and> bit d (n - 6))" for n
    using bit_imp_le_length [of a n] by (auto simp: w_def bit_or_iff bit_push_bit_iff)
  have "bit (w AND 0x03030303) n \<longleftrightarrow> bit a n" "bit (drop_bit 2 w AND 0x03030303) n \<longleftrightarrow> bit b n"
    "bit (drop_bit 4 w AND 0x03030303) n \<longleftrightarrow> bit c n" "bit (drop_bit 6 w AND 0x03030303) n \<longleftrightarrow> bit d n" if "n < 32" for n
    using t mod8_disjoint [OF that] by (auto simp: bit_and_masks w bit_drop_bit_eq add.commute numeral_2_eq_2)
  then show "w AND 0x03030303 = a" "drop_bit 2 w AND 0x03030303 = b" "drop_bit 4 w AND 0x03030303 = c" "drop_bit 6 w AND 0x03030303 = d"
    by (auto intro!: bit_word_eqI)
qed

lemma unpack_fours:
  assumes "fours a" "fours b"
  defines "w \<equiv> a OR push_bit 4 b"
  shows "w AND 0x0F0F0F0F = a" "drop_bit 4 w AND 0x0F0F0F0F = b"
proof -
  have t: "\<And>n. bit a n \<Longrightarrow> n mod 8 < 4" "\<And>n. bit b n \<Longrightarrow> n mod 8 < 4" using assms(1,2) by (auto simp: fours_def)
  have w: "bit w n \<longleftrightarrow> n < 32 \<and> (bit a n \<or> 4 \<le> n \<and> bit b (n - 4))" for n
    using bit_imp_le_length [of a n] by (auto simp: w_def bit_or_iff bit_push_bit_iff)
  have "bit (w AND 0x0F0F0F0F) n \<longleftrightarrow> bit a n" "bit (drop_bit 4 w AND 0x0F0F0F0F) n \<longleftrightarrow> bit b n" if "n < 32" for n
    using t mod8_disjoint4 [OF that] by (auto simp: bit_and_masks w bit_drop_bit_eq add.commute)
  then show "w AND 0x0F0F0F0F = a" "drop_bit 4 w AND 0x0F0F0F0F = b" by (auto intro!: bit_word_eqI)
qed

lemma unpack_tens:
  assumes "tens a" "tens b" "tens c"
  defines "w \<equiv> a OR push_bit 10 b OR push_bit 20 c"
  shows "w AND 0x3FF = a" "drop_bit 10 w AND 0x3FF = b" "drop_bit 20 w = c"
proof -
  have t: "\<And>n. bit a n \<Longrightarrow> n < 10" "\<And>n. bit b n \<Longrightarrow> n < 10" "\<And>n. bit c n \<Longrightarrow> n < 10" using assms(1-3) by (auto simp: tens_def)
  have w: "bit w n \<longleftrightarrow> n < 32 \<and> (bit a n \<or> 10 \<le> n \<and> bit b (n - 10) \<or> 20 \<le> n \<and> bit c (n - 20))" for n
    using bit_imp_le_length [of a n] by (auto simp: w_def bit_or_iff bit_push_bit_iff)
  have "bit (w AND 0x3FF) n \<longleftrightarrow> bit a n" "bit (drop_bit 10 w AND 0x3FF) n \<longleftrightarrow> bit b n" "bit (drop_bit 20 w) n \<longleftrightarrow> bit c n" for n
    using t(1) [of n] t(2) [of n] t(3) [of n] t(1) [of "n + 10"] t(1) [of "n + 20"] t(2) [of "n + 10"]
    by (auto simp: bit_and_masks w bit_drop_bit_eq add.commute)
  then show "w AND 0x3FF = a" "drop_bit 10 w AND 0x3FF = b" "drop_bit 20 w = c" by (auto intro!: bit_word_eqI)
qed

lemma bit_small: "unat (x :: u8) < 2 ^ k \<Longrightarrow> bit x n \<Longrightarrow> n < k"
proof -
  assume a: "unat x < 2 ^ k" "bit x n"
  then have "bit (unat x) n" by (simp add: bit_unsigned_iff)
  moreover have "take_bit k (unat x) = unat x" using a(1) by (rule take_bit_nat_eq_self)
  ultimately have "bit (take_bit k (unat x)) n" by simp
  then show ?thesis by (simp add: bit_take_bit_iff)
qed

lemma byte_position: "8 * i \<le> n \<Longrightarrow> n - 8 * i < k \<Longrightarrow> k \<le> 8 \<Longrightarrow> n mod 8 < (k :: nat)"
proof -
  assume a: "8 * i \<le> n" "n - 8 * i < k" "k \<le> 8"
  then have "(8 * i + (n - 8 * i)) mod 8 = n - 8 * i" by (subst mod_mult_self4) simp
  then show ?thesis using a by simp
qed

lemma le32_small:
  assumes "unat a < 2 ^ k" "unat b < 2 ^ k" "unat c < 2 ^ k" "unat d < 2 ^ k" "k \<le> 8" "bit (le32 a b c d) n"
  shows "n mod 8 < k"
  using assms(6) bit_small [OF assms(1), of n] bit_small [OF assms(2), of "n - 8"] bit_small [OF assms(3), of "n - 16"]
    bit_small [OF assms(4), of "n - 24"] byte_position [of 0 n k] byte_position [of 1 n k] byte_position [of 2 n k] byte_position [of 3 n k] assms(5)
  by (auto simp: bit_le32 split: if_splits)

lemma tens_LOW_BITS: "tens (LOW_BITS w)"
  by (simp add: tens_def LOW_BITS_def bit_and_masks)

lemma partial_word:
  assumes "HIGH_BITS w = HIGH_BITS x"
  shows "push_bit 10 (drop_bit 10 x) OR LOW_BITS w = w"
proof (rule bit_word_eqI)
  fix n assume n: "n < LENGTH(32)"
  have "bit (HIGH_BITS w) (n - 10) \<longleftrightarrow> bit (HIGH_BITS x) (n - 10)" using assms by simp
  then have "10 \<le> n \<Longrightarrow> bit w n \<longleftrightarrow> bit x n" by (simp add: HIGH_BITS_def bit_drop_bit_eq)
  then show "bit (push_bit 10 (drop_bit 10 x) OR LOW_BITS w) n \<longleftrightarrow> bit w n"
    using n by (auto simp: bit_or_iff LOW_BITS_def bit_and_masks bit_push_bit_iff bit_drop_bit_eq)
qed

section \<open>Modelling\<close>

text \<open>What the modelling phase records: tags, dictionary positions, low bits and full words.\<close>

fun encode :: "WK_word list \<Rightarrow> WK_word list \<Rightarrow> u8 list \<times> u8 list \<times> WK_word list \<times> WK_word list" where
  "encode d [] = ([], [], [], [])"
| "encode d (w # ws) =
     (let loc = dict_location w; x = d ! loc in
      if w = x then (let (t, q, l, f) = encode d ws in (EXACT_TAG # t, of_nat loc # q, l, f))
      else if w = 0 then (let (t, q, l, f) = encode d ws in (ZERO_TAG # t, q, l, f))
      else if HIGH_BITS w = HIGH_BITS x
      then (let (t, q, l, f) = encode (d[loc := w]) ws in (PARTIAL_TAG # t, of_nat loc # q, LOW_BITS w # l, f))
      else (let (t, q, l, f) = encode (d[loc := w]) ws in (MISS_TAG # t, q, l, w # f)))"

lemma dict_location_less: "dict_location w < 16"
proof -
  have "unat (drop_bit 10 w AND 0xFF) < 256"
    using and_mask_less' [of 8 "drop_bit 10 w"] by (simp add: word_less_nat_alt mask_eq_exp_minus_1)
  moreover have "\<forall>i \<in> set [0..<256]. hashLookupTable ! i < 64" by code_simp
  ultimately show ?thesis by (auto simp: dict_location_def HASH_TO_DICT_BYTE_OFFSET_def div_less_iff_less_mult)
qed

lemma encode_sizes:
  assumes "encode d ws = (t, q, l, f)" "length d = 16"
  shows "length t = length ws \<and> length q + length f \<le> length ws \<and> length l \<le> length q \<and>
    (\<forall>x \<in> set t. unat x < 4) \<and> (\<forall>x \<in> set q. unat x < 16) \<and> (\<forall>x \<in> set l. tens x)"
  using assms
proof (induction ws arbitrary: d t q l f)
  case (Cons w ws)
  let ?loc = "dict_location w"
  have loc: "unat (of_nat ?loc :: u8) < 16" using dict_location_less [of w] by (simp add: unat_of_nat)
  obtain t1 q1 l1 f1 where e1: "encode d ws = (t1, q1, l1, f1)" by (cases "encode d ws")
  obtain t2 q2 l2 f2 where e2: "encode (d[?loc := w]) ws = (t2, q2, l2, f2)" by (cases "encode (d[?loc := w]) ws")
  have "length (d[?loc := w]) = 16" using Cons.prems(2) by simp
  note i = Cons.IH [OF e1 Cons.prems(2)] Cons.IH [OF e2 this]
  show ?case using Cons.prems(1) e1 e2 i loc tens_LOW_BITS [of w] by (auto simp: Let_def split: if_splits)
qed auto

text \<open>Replacing a run of words of the destination.\<close>

definition overlay :: "'a list \<Rightarrow> nat \<Rightarrow> 'a list \<Rightarrow> 'a list" where
  "overlay d i xs = take i d @ xs @ drop (i + length xs) d"

lemma wk_overlay_Nil [simp]: "overlay d i [] = d"
  by (simp add: overlay_def)

lemma wk_overlay_Cons:
  assumes "i < length d"
  shows "overlay (d[i := x]) (Suc i) xs = overlay d i (x # xs)"
  using assms by (simp add: overlay_def take_Suc_conv_app_nth drop_update_cancel)

lemma length_overlay [simp]: "i + length xs \<le> length d \<Longrightarrow> length (overlay d i xs) = length d"
  by (simp add: overlay_def)

lemma nth_overlay:
  assumes "i + length xs \<le> length d" "j < length d"
  shows "overlay d i xs ! j = (if i \<le> j \<and> j < i + length xs then xs ! (j - i) else d ! j)"
  using assms by (auto simp: overlay_def nth_append min_def)

lemma model_loop_encode:
  assumes "encode (dictionary st) ws = (t, q, l, f)" "length (dictionary st) = 16" "length (wk_tags st) + length ws \<le> 1200"
    "length (wk_qpos st) + length ws \<le> 1200" "length (wk_lows st) + length ws \<le> 1200" "next_full_patt st + length f \<le> length (wk_dest st)"
  shows "\<exists>d. model_loop ws st = Some (st\<lparr>dictionary := d, wk_tags := wk_tags st @ t, wk_qpos := wk_qpos st @ q, wk_lows := wk_lows st @ l,
    next_full_patt := next_full_patt st + length f, wk_dest := overlay (wk_dest st) (next_full_patt st) f\<rparr>)"
  using assms
proof (induction ws arbitrary: st t q l f)
  case Nil
  then show ?case by (auto intro!: exI [of _ "dictionary st"])
next
  case (Cons w ws)
  let ?loc = "dict_location w" and ?x = "dictionary st ! dict_location w"
  have loc: "?loc < length (dictionary st)" using dict_location_less [of w] Cons.prems(2) by simp
  obtain t1 q1 l1 f1 where e1: "encode (dictionary st) ws = (t1, q1, l1, f1)" by (cases "encode (dictionary st) ws")
  obtain t2 q2 l2 f2 where e2: "encode ((dictionary st)[?loc := w]) ws = (t2, q2, l2, f2)" by (cases "encode ((dictionary st)[?loc := w]) ws")
  note b = Cons.prems(3-5)
  consider (exact) "w = ?x" | (zero) "w \<noteq> ?x" "w = 0" | (part) "w \<noteq> ?x" "w \<noteq> 0" "HIGH_BITS w = HIGH_BITS ?x"
    | (miss) "w \<noteq> ?x" "w \<noteq> 0" "HIGH_BITS w \<noteq> HIGH_BITS ?x" by blast
  then show ?case
  proof cases
    case exact
    let ?st = "st\<lparr>wk_tags := wk_tags st @ [EXACT_TAG], wk_qpos := wk_qpos st @ [of_nat ?loc]\<rparr>"
    have "model_word w st = Some ?st" using exact loc b by (simp add: model_word_def wload_def RECORD_EXACT_def EMIT_def)
    moreover have "t = EXACT_TAG # t1" "q = of_nat ?loc # q1" "l = l1" "f = f1" using Cons.prems(1) exact e1 by (auto simp: Let_def)
    ultimately show ?thesis using Cons.IH [of ?st t1 q1 l1 f1] e1 b Cons.prems(2,6) by auto
  next
    case zero
    let ?st = "st\<lparr>wk_tags := wk_tags st @ [ZERO_TAG]\<rparr>"
    have "model_word w st = Some ?st" using zero loc b by (simp add: model_word_def wload_def RECORD_ZERO_def EMIT_def)
    moreover have "t = ZERO_TAG # t1" "q = q1" "l = l1" "f = f1" using Cons.prems(1) zero e1 by (auto simp: Let_def)
    ultimately show ?thesis using Cons.IH [of ?st t1 q1 l1 f1] e1 b Cons.prems(2,6) by auto
  next
    case part
    let ?st = "st\<lparr>wk_tags := wk_tags st @ [PARTIAL_TAG], wk_qpos := wk_qpos st @ [of_nat ?loc], wk_lows := wk_lows st @ [LOW_BITS w],
      dictionary := (dictionary st)[?loc := w]\<rparr>"
    have "model_word w st = Some ?st"
      using part loc b by (simp add: model_word_def wload_def wstore_def RECORD_PARTIAL_def EMIT_def Let_def)
    moreover have "t = PARTIAL_TAG # t2" "q = of_nat ?loc # q2" "l = LOW_BITS w # l2" "f = f2"
      using Cons.prems(1) part e2 by (auto simp: Let_def)
    ultimately show ?thesis using Cons.IH [of ?st t2 q2 l2 f2] e2 b Cons.prems(2,6) by auto
  next
    case miss
    let ?k = "next_full_patt st"
    let ?st = "st\<lparr>wk_tags := wk_tags st @ [MISS_TAG], wk_dest := (wk_dest st)[?k := w], next_full_patt := ?k + 1,
      dictionary := (dictionary st)[?loc := w]\<rparr>"
    have f: "t = MISS_TAG # t2" "q = q2" "l = l2" "f = w # f2" using Cons.prems(1) miss e2 by (auto simp: Let_def)
    then have k: "?k < length (wk_dest st)" using Cons.prems(6) by simp
    then have "model_word w st = Some ?st"
      using miss loc b by (simp add: model_word_def wload_def wstore_def RECORD_MISS_def EMIT_def Let_def)
    then show ?thesis using Cons.IH [of ?st t2 q2 l2 f2] e2 b Cons.prems(2,6) f wk_overlay_Cons [OF k, of w f2] by auto
  qed
qed

text \<open>The decoder follows the encoder, with the same dictionary.\<close>

lemma decode_encode:
  assumes "encode d ws = (t, q, l, f)" "length d = 16" "k + length f \<le> length src" "\<And>i. i < length f \<Longrightarrow> src ! (k + i) = f ! i"
  shows "decode_loop src t d (q @ q') (l @ l') k = Some ws"
  using assms
proof (induction ws arbitrary: d t q l f k)
  case (Cons w ws)
  let ?loc = "dict_location w" and ?x = "d ! dict_location w"
  have loc: "?loc < 16" "unat (of_nat ?loc :: u8) = ?loc" using dict_location_less [of w] by (simp_all add: unat_of_nat)
  obtain t1 q1 l1 f1 where e1: "encode d ws = (t1, q1, l1, f1)" by (cases "encode d ws")
  obtain t2 q2 l2 f2 where e2: "encode (d[?loc := w]) ws = (t2, q2, l2, f2)" by (cases "encode (d[?loc := w]) ws")
  have i1: "f = f1 \<Longrightarrow> decode_loop src t1 d (q1 @ q') (l1 @ l') k = Some ws" using Cons.IH [OF e1] Cons.prems(2-4) by simp
  have i2: "f = f2 \<Longrightarrow> decode_loop src t2 (d[?loc := w]) (q2 @ q') (l2 @ l') k = Some ws" using Cons.IH [OF e2] Cons.prems(2-4) by simp
  have i3: "decode_loop src t2 (d[?loc := w]) (q2 @ q') (l2 @ l') (k + 1) = Some ws \<and> src ! k = w \<and> k < length src" if f: "f = w # f2"
  proof -
    have "src ! (k + 1 + i) = f2 ! i" if "i < length f2" for i using Cons.prems(4) [of "Suc i"] that f by simp
    moreover have "src ! k = w" using Cons.prems(4) [of 0] f by simp
    ultimately show ?thesis using Cons.IH [OF e2, of "k + 1"] Cons.prems(2,3) f by simp
  qed
  show ?case
    using Cons.prems(1,2) e1 e2 i1 i2 i3 loc partial_word [of w ?x]
    by (auto simp: Let_def wload_def wstore_def split: if_splits)
qed simp

section \<open>Packing\<close>

fun packed2 :: "u32 list \<Rightarrow> u32 list" where
  "packed2 (a # b # c # d # r) = (a OR push_bit 2 b OR push_bit 4 c OR push_bit 6 d) # packed2 r"
| "packed2 _ = []"

fun packed4 :: "u32 list \<Rightarrow> u32 list" where
  "packed4 (a # b # r) = (a OR push_bit 4 b) # packed4 r"
| "packed4 _ = []"

fun packed10 :: "u32 list \<Rightarrow> u32 list" where
  "packed10 (a # b # c # r) = (a OR push_bit 10 b OR push_bit 20 c) # packed10 r"
| "packed10 _ = []"

definition unpacked2 :: "u32 \<Rightarrow> u32 list" where
  "unpacked2 w = [w AND 0x03030303, drop_bit 2 w AND 0x03030303, drop_bit 4 w AND 0x03030303, drop_bit 6 w AND 0x03030303]"

definition unpacked4 :: "u32 \<Rightarrow> u32 list" where
  "unpacked4 w = [w AND 0x0F0F0F0F, drop_bit 4 w AND 0x0F0F0F0F]"

definition unpacked10 :: "u32 \<Rightarrow> u32 list" where
  "unpacked10 w = [w AND 0x3FF, drop_bit 10 w AND 0x3FF, drop_bit 20 w]"

lemma split_groups:
  "length ws = 4 * Suc m \<Longrightarrow> \<exists>a b c d r. ws = a # b # c # d # r \<and> length r = 4 * m"
  "length ws = 2 * Suc m \<Longrightarrow> \<exists>a b r. ws = a # b # r \<and> length r = 2 * m"
  "length ws = 3 * Suc m \<Longrightarrow> \<exists>a b c r. ws = a # b # c # r \<and> length r = 3 * m"
  by (auto simp: length_Suc_conv numeral_eq_Suc)

lemma unpacked_group:
  "twos a \<Longrightarrow> twos b \<Longrightarrow> twos c \<Longrightarrow> twos d \<Longrightarrow> unpacked2 (a OR push_bit 2 b OR push_bit 4 c OR push_bit 6 d) = [a, b, c, d]"
  "fours a \<Longrightarrow> fours b \<Longrightarrow> unpacked4 (a OR push_bit 4 b) = [a, b]"
  "tens a \<Longrightarrow> tens b \<Longrightarrow> tens c \<Longrightarrow> unpacked10 (a OR push_bit 10 b OR push_bit 20 c) = [a, b, c]"
  by (simp_all only: unpacked2_def unpacked4_def unpacked10_def unpack_twos unpack_fours unpack_tens)

lemma pack_none:
  "WK_pack_2bits r 0 dest i = Some (dest, i)" "WK_pack_4bits r 0 dest i = Some (dest, i)" "WK_pack_3_tenbits r 0 dest i = Some (dest, i)"
  by (induction r "0 :: nat" dest i rule: WK_pack_2bits.induct) auto

text \<open>Each packer writes the packed words over the destination; unpacking them gives the source back.\<close>

lemma pack2_ok:
  assumes "length ws = 4 * m"
  shows "i + m \<le> length dest \<Longrightarrow> WK_pack_2bits (ws @ rest) (4 * m) dest i = Some (overlay dest i (packed2 ws), i + m)"
    "length (packed2 ws) = m" "\<forall>w \<in> set ws. twos w \<Longrightarrow> concat (map unpacked2 (packed2 ws)) = ws"
  using assms
proof (induction m arbitrary: ws dest i)
  case 0
  { case 1 then show ?case by (simp add: pack_none) }
  { case 2 then show ?case by simp }
  { case 3 then show ?case by simp }
next
  case (Suc m)
  { case 1
    then obtain a b c d r where "ws = a # b # c # d # r" "length r = 4 * m" using split_groups(1) by blast
    then show ?case using 1 Suc.IH(1) [of "i + 1" "dest[i := _]" r] by (simp add: wstore_def wk_overlay_Cons) }
  { case 2
    then obtain a b c d r where "ws = a # b # c # d # r" "length r = 4 * m" using split_groups(1) by blast
    then show ?case using Suc.IH(2) by simp }
  { case 3
    then obtain a b c d r where "ws = a # b # c # d # r" "length r = 4 * m" using split_groups(1) by blast
    then show ?case using 3 Suc.IH(3) by (simp add: unpacked_group) }
qed

lemma pack4_ok:
  assumes "length ws = 2 * m"
  shows "i + m \<le> length dest \<Longrightarrow> WK_pack_4bits (ws @ rest) (2 * m) dest i = Some (overlay dest i (packed4 ws), i + m)"
    "length (packed4 ws) = m" "\<forall>w \<in> set ws. fours w \<Longrightarrow> concat (map unpacked4 (packed4 ws)) = ws"
  using assms
proof (induction m arbitrary: ws dest i)
  case 0
  { case 1 then show ?case by (simp add: pack_none) }
  { case 2 then show ?case by simp }
  { case 3 then show ?case by simp }
next
  case (Suc m)
  { case 1
    then obtain a b r where "ws = a # b # r" "length r = 2 * m" using split_groups(2) by blast
    then show ?case using 1 Suc.IH(1) [of "i + 1" "dest[i := _]" r] by (simp add: wstore_def wk_overlay_Cons) }
  { case 2
    then obtain a b r where "ws = a # b # r" "length r = 2 * m" using split_groups(2) by blast
    then show ?case using Suc.IH(2) by simp }
  { case 3
    then obtain a b r where "ws = a # b # r" "length r = 2 * m" using split_groups(2) by blast
    then show ?case using 3 Suc.IH(3) by (simp add: unpacked_group) }
qed

lemma pack10_ok:
  assumes "length ws = 3 * m"
  shows "i + m \<le> length dest \<Longrightarrow> WK_pack_3_tenbits (ws @ rest) (3 * m) dest i = Some (overlay dest i (packed10 ws), i + m)"
    "length (packed10 ws) = m" "\<forall>w \<in> set ws. tens w \<Longrightarrow> concat (map unpacked10 (packed10 ws)) = ws"
  using assms
proof (induction m arbitrary: ws dest i)
  case 0
  { case 1 then show ?case by (simp add: pack_none) }
  { case 2 then show ?case by simp }
  { case 3 then show ?case by simp }
next
  case (Suc m)
  { case 1
    then obtain a b c r where "ws = a # b # c # r" "length r = 3 * m" using split_groups(3) by blast
    then show ?case using 1 Suc.IH(1) [of "i + 1" "dest[i := _]" r] by (simp add: wstore_def wk_overlay_Cons) }
  { case 2
    then obtain a b c r where "ws = a # b # c # r" "length r = 3 * m" using split_groups(3) by blast
    then show ?case using Suc.IH(2) by simp }
  { case 3
    then obtain a b c r where "ws = a # b # c # r" "length r = 3 * m" using split_groups(3) by blast
    then show ?case using 3 Suc.IH(3) by (simp add: unpacked_group) }
qed

lemma unpack2_ok:
  assumes "\<forall>i \<in> set is. i < length src" "length out + 4 * length is \<le> cap"
  shows "WK_unpack_2bits src is cap out = Some (out @ concat (map unpacked2 (map (nth src) is)))"
  using assms by (induction "is" arbitrary: out) (auto simp: wload_def unpacked2_def)

lemma unpack4_ok:
  assumes "\<forall>i \<in> set is. i < length src" "length out + 2 * length is \<le> cap"
  shows "WK_unpack_4bits src is cap out = Some (out @ concat (map unpacked4 (map (nth src) is)))"
  using assms by (induction "is" arbitrary: out) (auto simp: wload_def unpacked4_def)

lemma unpack10_ok:
  assumes "\<forall>i \<in> set is. i < length src" "length out + 3 * length is \<le> cap"
  shows "WK_unpack_3_tenbits src is cap out = Some (out @ concat (map unpacked10 (map (nth src) is)))"
  using assms by (induction "is" arbitrary: out) (auto simp: wload_def unpacked10_def)

text \<open>Bytes and words.\<close>

lemma le_words_ok:
  assumes "length bs = 4 * n"
  shows "length (le_words bs) = n" "le_words (bs @ rest) = le_words bs @ le_words rest" "words_bytes (le_words bs) = bs"
    "k \<le> 8 \<Longrightarrow> \<forall>b \<in> set bs. unat b < 2 ^ k \<Longrightarrow> \<forall>w \<in> set (le_words bs). \<forall>j. bit w j \<longrightarrow> j mod 8 < k"
proof -
  have "length (le_words bs) = n \<and> le_words (bs @ rest) = le_words bs @ le_words rest \<and> words_bytes (le_words bs) = bs \<and>
      (k \<le> 8 \<and> (\<forall>b \<in> set bs. unat b < 2 ^ k) \<longrightarrow> (\<forall>w \<in> set (le_words bs). \<forall>j. bit w j \<longrightarrow> j mod 8 < k))"
    using assms
  proof (induction n arbitrary: bs)
    case (Suc n)
    then obtain a b c d r where "bs = a # b # c # d # r" "length r = 4 * n" using split_groups(1) by blast
    then show ?case using Suc.IH [of r] le32_small [of a k b c d] byte_of_le32 [of a b c d] by auto
  qed simp
  then show "length (le_words bs) = n" "le_words (bs @ rest) = le_words bs @ le_words rest" "words_bytes (le_words bs) = bs"
    "k \<le> 8 \<Longrightarrow> \<forall>b \<in> set bs. unat b < 2 ^ k \<Longrightarrow> \<forall>w \<in> set (le_words bs). \<forall>j. bit w j \<longrightarrow> j mod 8 < k"
    by blast+
qed

section \<open>Whole pages\<close>

text \<open>The compressed form of what the modelling phase recorded: where its areas are and what they hold.\<close>

definition padded :: "nat \<Rightarrow> 'a \<Rightarrow> 'a list \<Rightarrow> 'a list" where
  "padded k z xs = xs @ replicate (k * ((length xs + (k - 1)) div k) - length xs) z"

definition laid_out :: "u8 list \<Rightarrow> u8 list \<Rightarrow> WK_word list \<Rightarrow> WK_word list \<Rightarrow> WK_word list \<Rightarrow> bool" where
  "laid_out t q l f d \<longleftrightarrow>
     (let q0 = 68 + length f; l0 = q0 + (length q + 7) div 8; e = l0 + (length l + 2) div 3 in
      e \<le> length d \<and> d ! 1 = of_nat q0 \<and> d ! 2 = of_nat l0 \<and> d ! 3 = of_nat e \<and>
      map (nth d) [4..<68] = packed2 (le_words t) \<and> map (nth d) [68..<q0] = f \<and>
      map (nth d) [q0..<l0] = packed4 (le_words (padded 8 0 q)) \<and> map (nth d) [l0..<e] = packed10 (padded 3 0 l))"

lemma length_padded: "0 < k \<Longrightarrow> length (padded k z xs) = k * ((length xs + (k - 1)) div k)"
proof -
  assume "0 < k"
  then have "length xs \<le> k * ((length xs + (k - 1)) div k)"
    using mult_div_mod_eq [of k "length xs + (k - 1)"] mod_less_divisor [of k "length xs + (k - 1)"] by linarith
  then show ?thesis by (simp add: padded_def)
qed

lemma pad_to_padded: "0 < k \<Longrightarrow> k * ((length xs + (k - 1)) div k) \<le> cap \<Longrightarrow> pad_to cap (k * ((length xs + (k - 1)) div k)) z xs = Some (padded k z xs)"
  by (simp add: pad_to_def padded_def)

text \<open>Writing the areas and the header one after the other.\<close>

definition assemble :: "'a list \<Rightarrow> 'a list \<Rightarrow> 'a list \<Rightarrow> 'a list \<Rightarrow> 'a list \<Rightarrow> 'a \<Rightarrow> 'a \<Rightarrow> 'a \<Rightarrow> 'a list" where
  "assemble dest A f B C h1 h2 h3 =
     (overlay ((overlay (overlay ((overlay dest 68 f)[1 := h1]) 4 A) (68 + length f) B)[2 := h2]) (68 + length f + length B) C)[3 := h3]"

lemma length_assemble:
  assumes "length A = 64" "68 + length f + length B + length C \<le> length dest"
  shows "length (assemble dest A f B C h1 h2 h3) = length dest"
  using assms by (simp add: assemble_def)

lemma nth_assemble:
  assumes "length A = 64" "68 + length f + length B + length C \<le> length dest" "i < length dest"
  shows "assemble dest A f B C h1 h2 h3 ! i =
    (if i = 1 then h1 else if i = 2 then h2 else if i = 3 then h3 else if i = 0 then dest ! 0
     else if i < 68 then A ! (i - 4) else if i < 68 + length f then f ! (i - 68)
     else if i < 68 + length f + length B then B ! (i - (68 + length f))
     else if i < 68 + length f + length B + length C then C ! (i - (68 + length f + length B)) else dest ! i)"
  using assms by (auto simp: assemble_def nth_overlay nth_list_update)

lemma map_nth_area: "(\<And>j. j < length A \<Longrightarrow> X ! (a + j) = A ! j) \<Longrightarrow> map (nth X) [a..<a + length A] = A"
  by (rule nth_equalityI) simp_all

lemma map_assemble:
  assumes "length A = 64" "68 + length f + length B + length C \<le> length dest"
  shows "map (nth (assemble dest A f B C h1 h2 h3)) [4..<68] = A" "map (nth (assemble dest A f B C h1 h2 h3)) [68..<68 + length f] = f"
    "map (nth (assemble dest A f B C h1 h2 h3)) [68 + length f..<68 + length f + length B] = B"
    "map (nth (assemble dest A f B C h1 h2 h3)) [68 + length f + length B..<68 + length f + length B + length C] = C"
proof -
  note n = nth_assemble [OF assms]
  have "map (nth (assemble dest A f B C h1 h2 h3)) [4..<4 + length A] = A" using assms by (intro map_nth_area) (simp add: n)
  moreover have "4 + length A = 68" using assms(1) by simp
  ultimately show "map (nth (assemble dest A f B C h1 h2 h3)) [4..<68] = A" by (simp only:)
qed (use assms in \<open>simp_all add: nth_assemble map_nth_area\<close>)

lemma packed_areas:
  assumes "length t = 1024"
  shows "length (packed2 (le_words t)) = 64" "length (packed4 (le_words (padded 8 0 q))) = (length q + 7) div 8"
    "length (packed10 (padded 3 0 l)) = (length l + 2) div 3"
proof -
  have "length (le_words t) = 4 * 64" using le_words_ok(1) [of t 256] assms by simp
  then show "length (packed2 (le_words t)) = 64" by (rule pack2_ok(2))
  have "length (le_words (padded 8 0 q)) = 2 * ((length q + 7) div 8)"
    using le_words_ok(1) [of "padded 8 0 q" "2 * ((length q + 7) div 8)"] by (simp add: length_padded)
  then show "length (packed4 (le_words (padded 8 0 q))) = (length q + 7) div 8" by (rule pack4_ok(2))
  have "length (padded 3 0 l) = 3 * ((length l + 2) div 3)" by (simp add: length_padded)
  then show "length (packed10 (padded 3 0 l)) = (length l + 2) div 3" by (rule pack10_ok(2))
qed

lemma pack_calls:
  assumes "length t = 1024"
  shows "68 \<le> length d \<Longrightarrow> WK_pack_2bits (le_words (whole junk 1200 t)) 256 d 4 = Some (overlay d 4 (packed2 (le_words t)), 68)"
    "i + (length q + 7) div 8 \<le> length d \<Longrightarrow>
      WK_pack_4bits (le_words (whole junk 1200 (padded 8 0 q))) ((length q + 7) div 8 * 2) d i =
        Some (overlay d i (packed4 (le_words (padded 8 0 q))), i + (length q + 7) div 8)"
    "i + (length l + 2) div 3 \<le> length d \<Longrightarrow>
      WK_pack_3_tenbits (whole junkw 1200 (padded 3 0 l)) ((length l + 2) div 3 * 3) d i =
        Some (overlay d i (packed10 (padded 3 0 l)), i + (length l + 2) div 3)"
proof -
  note t = le_words_ok(1,2) [of t 256, simplified, OF assms]
  show "68 \<le> length d \<Longrightarrow> WK_pack_2bits (le_words (whole junk 1200 t)) 256 d 4 = Some (overlay d 4 (packed2 (le_words t)), 68)"
    using pack2_ok(1) [of "le_words t" 64 4 d] t by (simp add: whole_def)
  have "length (padded 8 0 q) = 4 * (2 * ((length q + 7) div 8))" by (simp add: length_padded)
  note q = le_words_ok(1,2) [OF this]
  show "i + (length q + 7) div 8 \<le> length d \<Longrightarrow>
      WK_pack_4bits (le_words (whole junk 1200 (padded 8 0 q))) ((length q + 7) div 8 * 2) d i =
        Some (overlay d i (packed4 (le_words (padded 8 0 q))), i + (length q + 7) div 8)"
    using pack4_ok(1) [OF q(1), of i d] q(2) by (simp add: whole_def mult.commute)
  have l: "length (padded 3 0 l) = 3 * ((length l + 2) div 3)" by (simp add: length_padded)
  show "i + (length l + 2) div 3 \<le> length d \<Longrightarrow>
      WK_pack_3_tenbits (whole junkw 1200 (padded 3 0 l)) ((length l + 2) div 3 * 3) d i =
        Some (overlay d i (packed10 (padded 3 0 l)), i + (length l + 2) div 3)"
    using pack10_ok(1) [OF l, of i d] by (simp add: whole_def mult.commute)
qed

lemma compress_layout:
  assumes "length page = 1024" "1093 \<le> length dest" "encode PRELOAD_DICTIONARY page = (t, q, l, f)"
  defines "e \<equiv> 68 + length f + (length q + 7) div 8 + (length l + 2) div 3"
  shows "\<exists>d. WKdm_compress junk junkw page dest 1024 = Some (d, 4 * e) \<and> e \<le> 1093 \<and> length d = length dest \<and> laid_out t q l f d \<and>
    (\<forall>i. e \<le> i \<and> i < length dest \<longrightarrow> d ! i = dest ! i)"
proof -
  have z: "length t = 1024" "length q + length f \<le> 1024" "length l \<le> length q"
    using encode_sizes [OF assms(3)] assms(1) by (auto simp: PRELOAD_DICTIONARY_def)
  define Q where "Q = (length q + 7) div 8"
  define L where "L = (length l + 2) div 3"
  have e: "e = 68 + length f + Q + L" and L2: "Suc (Suc (length l)) div 3 = L" by (simp_all add: e_def Q_def L_def)
  have b: "Q \<le> 128" "L \<le> 342" "e \<le> 1093" using z unfolding e Q_def L_def by linarith+
  let ?A = "packed2 (le_words t)" and ?B = "packed4 (le_words (padded 8 0 q))" and ?C = "packed10 (padded 3 0 l)"
  let ?d = "assemble dest ?A f ?B ?C (of_nat (68 + length f)) (of_nat (68 + length f + Q)) (of_nat e)"
  note len = packed_areas(1) [OF z(1)] packed_areas(2) [OF z(1), of q, folded Q_def] packed_areas(3) [OF z(1), of l, folded L_def]
  have fit: "68 + length f + length ?B + length ?C \<le> length dest" using b(3) assms(2) len e by simp
  let ?st = "\<lparr>dictionary = PRELOAD_DICTIONARY, wk_tags = [], wk_qpos = [], wk_lows = [], next_full_patt = 68, wk_dest = dest\<rparr>"
  obtain dict where m: "model_loop page ?st = Some (?st\<lparr>dictionary := dict, wk_tags := t, wk_qpos := q, wk_lows := l,
      next_full_patt := 68 + length f, wk_dest := overlay dest 68 f\<rparr>)"
    using model_loop_encode [of ?st page t q l f] assms z by (auto simp: PRELOAD_DICTIONARY_def)
  have "WKdm_compress junk junkw page dest 1024 = Some (?d, 4 * e)"
    using m assms(1,2) b fit len e z pad_to_padded [of 8 q 1200 0, folded Q_def] pad_to_padded [of 3 l 1200 0, folded L_def]
      pack_calls(1) [OF z(1)] pack_calls(2) [OF z(1), of _ q, folded Q_def] pack_calls(3) [OF z(1), of _ l, folded L_def]
    by (simp add: WKdm_compress_def wstore_def assemble_def Q_def [symmetric] L2 mult.commute)
  moreover have "laid_out t q l f ?d"
    using map_assemble [OF len(1) fit] nth_assemble [OF len(1) fit] length_assemble [OF len(1) fit] fit len e
    by (simp add: laid_out_def Q_def [symmetric] L2)
  moreover have "\<forall>i. e \<le> i \<and> i < length dest \<longrightarrow> ?d ! i = dest ! i"
    using nth_assemble [OF len(1) fit] len e by auto
  ultimately show ?thesis using b(3) length_assemble [OF len(1) fit] by blast
qed

lemma laid_out_take:
  assumes "laid_out t q l f d"
  shows "laid_out t q l f (take (68 + length f + (length q + 7) div 8 + (length l + 2) div 3) d)"
proof -
  let ?e = "68 + length f + (length q + 7) div 8 + (length l + 2) div 3"
  have "map (nth (take ?e d)) [a..<b] = map (nth d) [a..<b]" if "b \<le> ?e" for a b using that by simp
  from this [of 68 4] this [of "68 + length f" 68] this [of "68 + length f + (length q + 7) div 8" "68 + length f"] this [of ?e "68 + length f + (length q + 7) div 8"]
  show ?thesis using assms by (simp add: laid_out_def Let_def min_def del: map_eq_conv)
qed

lemma decompress_layout:
  assumes "laid_out t q l f d" "encode PRELOAD_DICTIONARY page = (t, q, l, f)" "length page = 1024"
  shows "WKdm_decompress d = Some page"
proof -
  have d16: "length PRELOAD_DICTIONARY = 16" by (simp add: PRELOAD_DICTIONARY_def)
  have z: "length t = 1024" "length q + length f \<le> 1024" "length l \<le> length q" "\<forall>x \<in> set t. unat x < 2 ^ 2"
    "\<forall>x \<in> set q. unat x < 2 ^ 4" "\<forall>x \<in> set l. tens x"
    using encode_sizes [OF assms(2) d16] assms(3) by auto
  define q0 where "q0 = 68 + length f"
  define l0 where "l0 = q0 + (length q + 7) div 8"
  define e where "e = l0 + (length l + 2) div 3"
  have a: "e \<le> length d" "d ! 1 = of_nat q0" "d ! 2 = of_nat l0" "d ! 3 = of_nat e" "map (nth d) [4..<68] = packed2 (le_words t)"
    "map (nth d) [68..<q0] = f" "map (nth d) [q0..<l0] = packed4 (le_words (padded 8 0 q))" "map (nth d) [l0..<e] = packed10 (padded 3 0 l)"
    using assms(1) by (simp_all add: laid_out_def Let_def q0_def l0_def e_def)
  have b: "68 \<le> q0" "q0 \<le> l0" "l0 \<le> e" "e \<le> 1093" "l0 - q0 \<le> 128" "e - l0 \<le> 342" using z(2,3) unfolding e_def l0_def q0_def by linarith+
  then have u: "unat (of_nat q0 :: u32) = q0" "unat (of_nat l0 :: u32) = l0" "unat (of_nat e :: u32) = e" by (simp_all add: unat_of_nat)
  have lt: "length t = 4 * 256" "length (padded 8 0 q) = 4 * (2 * ((length q + 7) div 8))" "length (padded 3 0 l) = 3 * ((length l + 2) div 3)"
    using z(1) by (simp_all add: length_padded)
  have good: "\<forall>w \<in> set (le_words t). twos w" "\<forall>w \<in> set (le_words (padded 8 0 q)). fours w" "\<forall>w \<in> set (padded 3 0 l). tens w"
  proof -
    show "\<forall>w \<in> set (le_words t). twos w" using le_words_ok(4) [OF lt(1), of 2] z(4) by (simp add: twos_def)
    have "\<forall>x \<in> set (padded 8 0 q). unat x < 2 ^ 4" using z(5) by (auto simp: padded_def)
    then show "\<forall>w \<in> set (le_words (padded 8 0 q)). fours w" using le_words_ok(4) [OF lt(2), of 4] by (simp add: fours_def)
    show "\<forall>w \<in> set (padded 3 0 l). tens w" using z(6) by (auto simp: padded_def tens_def)
  qed
  have "length (le_words t) = 4 * 64" using le_words_ok(1) [OF lt(1)] by simp
  then have T: "WK_unpack_2bits d [4..<68] 300 [] = Some (le_words t)"
    using unpack2_ok [of "[4..<68]" d "[]" 300] a(1,5) b pack2_ok(3) [OF _ good(1)] by (simp del: upt_rec_numeral)
  have Q: "WK_unpack_4bits d [q0..<l0] 300 [] = Some (le_words (padded 8 0 q))"
    using unpack4_ok [of "[q0..<l0]" d "[]" 300] a(1,7) b pack4_ok(3) [OF le_words_ok(1) [OF lt(2)] good(2)] by simp
  have L: "WK_unpack_3_tenbits d [l0..<e] 1200 [] = Some (padded 3 0 l)"
    using unpack10_ok [of "[l0..<e]" d "[]" 1200] a(1,8) b pack10_ok(3) [OF lt(3) good(3)] by simp
  have "d ! (68 + i) = f ! i" if "i < length f" for i
    using arg_cong [OF a(6), of "\<lambda>xs. xs ! i"] that by (simp add: q0_def)
  moreover have "68 + length f \<le> length d" using a(1) b by (simp add: q0_def)
  ultimately have "decode_loop d t PRELOAD_DICTIONARY (padded 8 0 q) (padded 3 0 l) 68 = Some page"
    using decode_encode [OF assms(2) d16, of 68 d] by (simp add: padded_def)
  moreover have "3 < length d" using a(1) b by linarith
  ultimately show ?thesis
    using T Q L a(2-4) u z(1) le_words_ok(3) [OF lt(1)] le_words_ok(3) [OF lt(2)]
    by (simp add: WKdm_decompress_def wload_def del: upt_rec_numeral)
qed

text \<open>
  C7: compressing loses nothing. For every page of 1024 words and a destination of at least 1093 words, whatever the
  temporary arrays and the destination hold, \<open>WKdm_compress\<close> ends without leaving its arrays, its result has at most
  4372 bytes, no word behind the result is changed, and \<open>WKdm_decompress\<close> of exactly these bytes gives the page.
\<close>

theorem WKdm_roundtrip:
  assumes "length page = 1024" "1093 \<le> length dest"
  shows "\<exists>d n. WKdm_compress junk junkw page dest 1024 = Some (d, n) \<and> n \<le> 4372 \<and> length d = length dest \<and>
    (\<forall>i. n div 4 \<le> i \<and> i < length dest \<longrightarrow> d ! i = dest ! i) \<and> WKdm_decompress (take (n div 4) d) = Some page"
proof -
  obtain t q l f where e: "encode PRELOAD_DICTIONARY page = (t, q, l, f)" by (cases "encode PRELOAD_DICTIONARY page")
  show ?thesis
    using compress_layout [OF assms e, of junk junkw] decompress_layout [OF laid_out_take e assms(1)] by fastforce
qed

theorem WKdm_roundtrip_witness:
  "\<exists>d n. WKdm_compress (\<lambda>_. 0xAA) (\<lambda>_. 0xAAAAAAAA) (map of_nat [5000..<6024]) (replicate 1093 7) 1024 = Some (d, n) \<and>
    n \<le> 4372 \<and> WKdm_decompress (take (n div 4) d) = Some (map of_nat [5000..<6024])"
proof -
  have "length (map of_nat [5000..<6024] :: u32 list) = 1024" "1093 \<le> length (replicate 1093 (7 :: u32))"
    by (simp_all only: length_map length_upt length_replicate)
  from WKdm_roundtrip [OF this, of "\<lambda>_. 0xAA" "\<lambda>_. 0xAAAAAAAA"] show ?thesis by blast
qed

end
