(* ===== verification/Kext_Version.thy ===== *)
theory Kext_Version
  imports Decimal
begin

text \<open>
  Kext versions (\<open>libkern/OSKextVersion.c\<close>). A version text such as \<open>10.4.2fc3\<close> is read into one number whose decimal
  digits are the fields, so that versions compare as numbers, and such a number is printed back into a buffer of the
  caller. The labels of the parser are functions: each takes the fields read so far and the rest of the text. A text is
  the list of its characters, reading at its end gives the terminating NUL; no reader goes past a NUL. The number is a
  C \<open>int64_t\<close>; the largest value any branch computes is below \<open>10 ^ 12\<close>, so integers serve for it. A store
  outside the caller's buffer is the value \<open>None\<close>.
\<close>

section \<open>Characters and stages\<close>

definition kOSKextVersionMaxLength :: nat where "kOSKextVersionMaxLength = 20"

definition VERS_MAJOR_MULT :: int where "VERS_MAJOR_MULT = 100000000"
definition VERS_MINOR_MULT :: int where "VERS_MINOR_MULT = 1000000"
definition VERS_REVISION_MULT :: int where "VERS_REVISION_MULT = 10000"
definition VERS_STAGE_MULT :: int where "VERS_STAGE_MULT = 1000"

lemmas vers_mults = VERS_MAJOR_MULT_def VERS_MINOR_MULT_def VERS_REVISION_MULT_def VERS_STAGE_MULT_def

abbreviation (input) "StageInvalid \<equiv> 0 :: int"
abbreviation (input) "StageDevelopment \<equiv> 1 :: int"
abbreviation (input) "StageAlpha \<equiv> 3 :: int"
abbreviation (input) "StageBeta \<equiv> 5 :: int"
abbreviation (input) "StageCandidate \<equiv> 7 :: int"
abbreviation (input) "StageRelease \<equiv> 9 :: int"

abbreviation nul :: char where "nul \<equiv> CHR 0x00"

definition vers_isdigit :: "char \<Rightarrow> bool" where
  "vers_isdigit c \<longleftrightarrow> c \<in> set ''0123456789''"

definition vers_isspace :: "char \<Rightarrow> bool" where
  "vers_isspace c \<longleftrightarrow> c = CHR '' '' \<or> c = CHR 0x09 \<or> c = CHR 0x0D \<or> c = CHR 0x0A"

definition vers_digit_for_char :: "char \<Rightarrow> int" where
  "vers_digit_for_char c = (if vers_isdigit c then of_char c - 0x30 else -1)"

definition VERS_isreleasestate :: "char \<Rightarrow> bool" where
  "VERS_isreleasestate c \<longleftrightarrow> c = CHR ''d'' \<or> c = CHR ''a'' \<or> c = CHR ''b'' \<or> c = CHR ''f''"

text \<open>The character at a position of a text, and the end of a version: white space or the terminating NUL.\<close>

definition char_at :: "string \<Rightarrow> nat \<Rightarrow> char" where
  "char_at p i = (if i < length p then p ! i else nul)"

definition vers_ends :: "char \<Rightarrow> bool" where
  "vers_ends c \<longleftrightarrow> vers_isspace c \<or> c = nul"

text \<open>The stage that a text starts with, and the text after it.\<close>

definition OSKextVersionStageForString :: "string \<Rightarrow> int \<times> string" where
  "OSKextVersionStageForString p =
     (let c = char_at p 0 in
      if vers_ends c then (StageRelease, p)
      else if c = CHR ''d'' then (if vers_isdigit (char_at p 1) then (StageDevelopment, drop 1 p) else (StageInvalid, p))
      else if c = CHR ''a'' then (if vers_isdigit (char_at p 1) then (StageAlpha, drop 1 p) else (StageInvalid, p))
      else if c = CHR ''b'' then (if vers_isdigit (char_at p 1) then (StageBeta, drop 1 p) else (StageInvalid, p))
      else if c = CHR ''f'' then
        (if vers_isdigit (char_at p 1) then (StageCandidate, drop 1 p)
         else if char_at p 1 = CHR ''c'' \<and> vers_isdigit (char_at p 2) then (StageCandidate, drop 2 p)
         else (StageInvalid, p))
      else (StageInvalid, p))"

definition OSKextVersionStringForStage :: "int \<Rightarrow> string option" where
  "OSKextVersionStringForStage stage =
     (if stage = StageInvalid then None
      else if stage = StageDevelopment then Some ''d''
      else if stage = StageAlpha then Some ''a''
      else if stage = StageBeta then Some ''b''
      else if stage = StageCandidate then Some ''f''
      else if stage = StageRelease then Some ''''
      else None)"

section \<open>Reading a version\<close>

text \<open>
  The three loops over the digits of a field differ in the number of digits and in whether a period ends the field. A
  loop ends at the end of the version, at a stage letter, after a period, at a character that is not legal, or when it
  has read all the digits that the field may have.
\<close>

datatype scan_end = Finished | AtStage | AfterPeriod | Illegal | AllDigits

fun vers_scan :: "bool \<Rightarrow> nat \<Rightarrow> int \<Rightarrow> string \<Rightarrow> scan_end \<times> int \<times> string" where
  "vers_scan period 0 v p = (AllDigits, v, p)"
| "vers_scan period (Suc digits) v p =
     (let c = char_at p 0 in
      if vers_ends c then (Finished, v, p)
      else if vers_isdigit c then
        (if vers_digit_for_char c < 0 then (Illegal, v, p)
         else vers_scan period digits (v * 10 + vers_digit_for_char c) (drop 1 p))
      else if VERS_isreleasestate c then (AtStage, v, p)
      else if period \<and> c = CHR ''.'' then (AfterPeriod, v, drop 1 p)
      else (Illegal, v, p))"

text \<open>After all the digits of a field: a period is skipped, one more digit is an error, anything else is left.\<close>

definition too_many_digits :: "string \<Rightarrow> string option" where
  "too_many_digits p =
     (if char_at p 0 = CHR ''.'' then Some (drop 1 p)
      else if vers_isdigit (char_at p 0) then None
      else Some p)"

definition vers_finish :: "int \<Rightarrow> int \<Rightarrow> int \<Rightarrow> int \<Rightarrow> int \<Rightarrow> int" where
  "vers_finish major minor revision stage level =
     (if stage = StageCandidate \<and> level = 0 then -1
      else major * VERS_MAJOR_MULT + minor * VERS_MINOR_MULT + revision * VERS_REVISION_MULT
        + stage * VERS_STAGE_MULT + level)"

text \<open>The digits of the stage level: at least one and at most three, and nothing but the end after them.\<close>

function level_scan :: "nat \<Rightarrow> int \<Rightarrow> string \<Rightarrow> int option" where
  "level_scan n v p =
     (if n < 3 then
        (let c = char_at p 0 in
         if vers_ends c then (if n \<noteq> 0 then Some v else None)
         else if vers_isdigit c then
           (if vers_digit_for_char c < 0 then None
            else level_scan (n + 1) (v * 10 + vers_digit_for_char c) (drop 1 p))
         else None)
      else if \<not> vers_ends (char_at p 0) then None
      else if v > 255 then None
      else Some v)"
  by pat_completeness auto
termination by (relation "measure (\<lambda>(n, v, p). 3 - n)") auto

declare level_scan.simps [simp del]

definition release_state :: "int \<Rightarrow> int \<Rightarrow> int \<Rightarrow> string \<Rightarrow> int" where
  "release_state major minor revision p =
     (if vers_ends (char_at p 0) then vers_finish major minor revision StageRelease 0
      else case OSKextVersionStageForString p of (stage, q) \<Rightarrow>
        if stage = StageInvalid then -1
        else case level_scan 0 0 q of
               None \<Rightarrow> -1
             | Some level \<Rightarrow> vers_finish major minor revision stage level)"

definition vers_revision :: "int \<Rightarrow> int \<Rightarrow> string \<Rightarrow> int" where
  "vers_revision major minor p =
     (case vers_scan False 2 0 p of
        (Finished, revision, q) \<Rightarrow> vers_finish major minor revision StageRelease 0
      | (AtStage, revision, q) \<Rightarrow> release_state major minor revision q
      | (AllDigits, revision, q) \<Rightarrow>
          (case too_many_digits q of None \<Rightarrow> -1 | Some q' \<Rightarrow> release_state major minor revision q')
      | (_, revision, q) \<Rightarrow> -1)"

definition minor_version :: "int \<Rightarrow> string \<Rightarrow> int" where
  "minor_version major p =
     (case vers_scan True 2 0 p of
        (Finished, minor, q) \<Rightarrow> vers_finish major minor 0 StageRelease 0
      | (AtStage, minor, q) \<Rightarrow> release_state major minor 0 q
      | (AfterPeriod, minor, q) \<Rightarrow> vers_revision major minor q
      | (AllDigits, minor, q) \<Rightarrow>
          (case too_many_digits q of None \<Rightarrow> -1 | Some q' \<Rightarrow> vers_revision major minor q')
      | (Illegal, minor, q) \<Rightarrow> -1)"

definition OSKextParseVersionString :: "string option \<Rightarrow> int" where
  "OSKextParseVersionString versionString =
     (case versionString of
        None \<Rightarrow> -1
      | Some p \<Rightarrow>
          if char_at p 0 = nul then -1
          else if vers_digit_for_char (char_at p 0) < 0 then -1
          else case vers_scan True 3 (vers_digit_for_char (char_at p 0)) (drop 1 p) of
              (Finished, major, q) \<Rightarrow> vers_finish major 0 0 StageRelease 0
            | (AtStage, major, q) \<Rightarrow> release_state major 0 0 q
            | (AfterPeriod, major, q) \<Rightarrow> minor_version major q
            | (AllDigits, major, q) \<Rightarrow>
                (case too_many_digits q of None \<Rightarrow> -1 | Some q' \<Rightarrow> minor_version major q')
            | (Illegal, major, q) \<Rightarrow> -1)"

section \<open>Printing a version\<close>

text \<open>
  The buffer is the list of its characters. \<open>snprintf\<close> at a position of the buffer writes what fits of the text and a
  NUL, and returns the length of the whole text; at a position behind the buffer the size that the code passes wraps
  around, which is a store outside the buffer.
\<close>

definition overwrite :: "'a list \<Rightarrow> nat \<Rightarrow> 'a list \<Rightarrow> 'a list" where
  "overwrite b i t = take i b @ t @ drop (i + length t) b"

definition snprintf_at :: "string \<Rightarrow> nat \<Rightarrow> string \<Rightarrow> (string \<times> nat) option" where
  "snprintf_at b i t =
     (if i < length b then Some (overwrite b i (take (length b - i - 1) t @ [nul]), length t)
      else if i = length b then Some (b, length t)
      else None)"

definition strlcpy_to :: "string \<Rightarrow> string \<Rightarrow> string option" where
  "strlcpy_to b t = map_option fst (snprintf_at b 0 t)"

definition c_text :: "string \<Rightarrow> string" where
  "c_text b = takeWhile (\<lambda>c. c \<noteq> nul) b"

definition strlcat_to :: "string \<Rightarrow> string \<Rightarrow> string option" where
  "strlcat_to b t = map_option fst (snprintf_at b (length (c_text b)) t)"

definition store_char :: "string \<Rightarrow> nat \<Rightarrow> char \<Rightarrow> string option" where
  "store_char b i c = (if i < length b then Some (b[i := c]) else None)"

definition print_version :: "int \<Rightarrow> int \<Rightarrow> int \<Rightarrow> int \<Rightarrow> int \<Rightarrow> string \<Rightarrow> string option" where
  "print_version major minor revision stage level b =
     Option.bind (snprintf_at b 0 (decimal (nat major))) (\<lambda>(b, cpos).
     Option.bind (store_char b cpos (CHR ''.'')) (\<lambda>b.
     Option.bind (snprintf_at b (cpos + 1) (decimal (nat minor))) (\<lambda>(b, n).
     let cpos = cpos + 1 + n in
     Option.bind
       (if revision \<noteq> 0 then
          Option.bind (store_char b cpos (CHR ''.'')) (\<lambda>b.
          map_option (\<lambda>(b, n). (b, cpos + 1 + n)) (snprintf_at b (cpos + 1) (decimal (nat revision))))
        else Some (b, cpos)) (\<lambda>(b, cpos).
     case OSKextVersionStringForStage stage of
       None \<Rightarrow> strlcpy_to b ''(invalid)''
     | Some t \<Rightarrow>
         Option.bind (if t \<noteq> [] then map_option (\<lambda>b. (b, cpos + length t)) (strlcat_to b t) else Some (b, cpos)) (\<lambda>(b, cpos).
         if stage < StageRelease then map_option fst (snprintf_at b cpos (decimal (nat level))) else Some b)))))"

definition OSKextVersionGetString :: "int \<Rightarrow> string option \<Rightarrow> (bool \<times> string option) option" where
  "OSKextVersionGetString aVersion buffer =
     (case buffer of
        None \<Rightarrow> Some (False, None)
      | Some b \<Rightarrow>
          if length b < kOSKextVersionMaxLength then Some (False, Some b)
          else
            let b = replicate (length b) nul;
                answer = map_option (\<lambda>b. (True, Some b)) in
            if aVersion < 0 then answer (strlcpy_to b ''(invalid)'')
            else if aVersion = 0 then answer (strlcpy_to b ''(missing)'')
            else
              let major = aVersion div VERS_MAJOR_MULT in
              if major > 9999 then answer (strlcpy_to b ''(invalid)'')
              else
                let minor = (aVersion - major * VERS_MAJOR_MULT) div VERS_MINOR_MULT;
                    revision = (aVersion - (major * VERS_MAJOR_MULT + minor * VERS_MINOR_MULT)) div VERS_REVISION_MULT;
                    stage = (aVersion - (major * VERS_MAJOR_MULT + minor * VERS_MINOR_MULT + revision * VERS_REVISION_MULT))
                      div VERS_STAGE_MULT;
                    level = aVersion - (major * VERS_MAJOR_MULT + minor * VERS_MINOR_MULT + revision * VERS_REVISION_MULT
                      + stage * VERS_STAGE_MULT) in
                if level > 255 then answer (strlcpy_to b ''(invalid)'')
                else answer (print_version major minor revision stage level b))"

end
