(* ===== verification/Kext_Version_Props.thy ===== *)
theory Kext_Version_Props
  imports Kext_Version
begin

text \<open>
  Reading and printing of kext versions fit together: every number that the parser returns is the encoding of fields in
  their ranges, it is printed into any buffer of the documented size without leaving it, and the printed text is read
  back as the same number.
\<close>

section \<open>Digits\<close>

lemma vers_isdigit_code: "vers_isdigit c \<longleftrightarrow> 0x30 \<le> (of_char c :: nat) \<and> (of_char c :: nat) \<le> 0x39"
proof
  assume "0x30 \<le> (of_char c :: nat) \<and> (of_char c :: nat) \<le> 0x39"
  then have "(of_char c :: nat) \<in> {0x30 ..< 0x3A}" by simp
  also have "{0x30 ..< 0x3A} = (of_char ` set ''0123456789'' :: nat set)" by (auto simp: numeral_eq_Suc less_Suc_eq)
  finally show "vers_isdigit c" unfolding vers_isdigit_def by (simp only: inj_image_mem_iff [OF inj_of_char])
qed (auto simp: vers_isdigit_def)

lemma vers_char_facts:
  assumes "d < 10"
  shows "vers_isdigit (char_of (0x30 + d :: nat))" "vers_digit_for_char (char_of (0x30 + d)) = int d"
proof -
  have c: "of_char (char_of (0x30 + d :: nat)) = 0x30 + d" using assms by simp
  then have "(of_char (char_of (0x30 + d)) :: int) = int (0x30 + d)" by (metis of_nat_of_char)
  moreover show "vers_isdigit (char_of (0x30 + d :: nat))" using assms c by (simp add: vers_isdigit_code)
  ultimately show "vers_digit_for_char (char_of (0x30 + d)) = int d" by (simp add: vers_digit_for_char_def)
qed

lemma vers_isdigit_not_end: "vers_isdigit c \<Longrightarrow> \<not> vers_ends c \<and> c \<noteq> nul"
  by (auto simp: vers_isdigit_def vers_ends_def vers_isspace_def)

lemma vers_digit_range: "vers_isdigit c \<Longrightarrow> 0 \<le> vers_digit_for_char c \<and> vers_digit_for_char c \<le> 9"
  by (auto simp: vers_digit_for_char_def vers_isdigit_def)

lemma vers_digit_neg: "vers_digit_for_char c < 0 \<longleftrightarrow> \<not> vers_isdigit c"
  using vers_digit_range [of c] by (auto simp: vers_digit_for_char_def)

lemma char_at_simps [simp]: "char_at [] i = nul" "char_at (c # p) 0 = c" "char_at (c # p) (Suc i) = char_at p i"
  by (simp_all add: char_at_def)

lemma vers_ends_nul [simp]: "vers_ends nul"
  by (simp add: vers_ends_def)

text \<open>The number that a run of digits adds to what is read already.\<close>

definition digits_value :: "int \<Rightarrow> string \<Rightarrow> int" where
  "digits_value v ds = foldl (\<lambda>a c. a * 10 + vers_digit_for_char c) v ds"

lemma digits_value_simps [simp]:
  "digits_value v [] = v" "digits_value v (c # ds) = digits_value (v * 10 + vers_digit_for_char c) ds"
  "digits_value v (ds @ es) = digits_value (digits_value v ds) es"
  by (simp_all add: digits_value_def)

lemma decimal_vers_digits: "c \<in> set (decimal n) \<Longrightarrow> vers_isdigit c"
  using decimal_chars [of c n] vers_char_facts(1) by auto

lemma digits_value_decimal: "digits_value 0 (decimal n) = int n"
proof (induction n rule: decimal.induct)
  case (1 n)
  show ?case
  proof (cases "n < 10")
    case True
    then show ?thesis using vers_char_facts(2) [of n] by (simp add: decimal_small)
  next
    case False
    then have "digits_value 0 (decimal n) = int (n div 10) * 10 + int (n mod 10)"
      using 1 vers_char_facts(2) [of "n mod 10"] by (simp add: decimal_step)
    also have "\<dots> = int n" by (simp add: zdiv_int zmod_int)
    finally show ?thesis .
  qed
qed

lemma vers_scan_digits:
  assumes "\<forall>c \<in> set ds. vers_isdigit c" "length ds \<le> n"
  shows "vers_scan period n v (ds @ p) = vers_scan period (n - length ds) (digits_value v ds) p"
  using assms
proof (induction ds arbitrary: n v)
  case (Cons c ds)
  then obtain m where m: "n = Suc m" by (cases n) auto
  show ?case using Cons vers_isdigit_not_end [of c] vers_digit_neg [of c] by (simp add: m)
qed simp

lemma level_scan_digits:
  assumes "\<forall>c \<in> set ds. vers_isdigit c" "n + length ds \<le> 3"
  shows "level_scan n v (ds @ p) = level_scan (n + length ds) (digits_value v ds) p"
  using assms
proof (induction ds arbitrary: n v)
  case (Cons c ds)
  have "level_scan n v ((c # ds) @ p) = level_scan (n + 1) (v * 10 + vers_digit_for_char c) (ds @ p)"
    using Cons.prems vers_isdigit_not_end [of c] vers_digit_neg [of c] by (subst level_scan.simps) simp
  then show ?case using Cons by simp
qed simp

section \<open>What the parser returns\<close>

text \<open>The fields of a version in their ranges: a released version has no level, a candidate has a level above zero.\<close>

definition valid_fields :: "int \<Rightarrow> int \<Rightarrow> int \<Rightarrow> int \<Rightarrow> int \<Rightarrow> bool" where
  "valid_fields major minor revision stage level \<longleftrightarrow>
     0 \<le> major \<and> major < 10000 \<and> 0 \<le> minor \<and> minor < 100 \<and> 0 \<le> revision \<and> revision < 100 \<and>
     stage \<in> {1, 3, 5, 7, 9} \<and> 0 \<le> level \<and> level \<le> 255 \<and> (stage = 9 \<longrightarrow> level = 0) \<and> (stage = 7 \<longrightarrow> level \<noteq> 0)"

definition version_number :: "int \<Rightarrow> bool" where
  "version_number v \<longleftrightarrow> v = -1 \<or> (\<exists>major minor revision stage level.
     valid_fields major minor revision stage level \<and> v = vers_finish major minor revision stage level)"

lemma version_number_error [simp]: "version_number (-1)"
  by (simp add: version_number_def)

lemma vers_scan_range:
  "vers_scan period n v p = (e, w, q) \<Longrightarrow> 0 \<le> v \<Longrightarrow> v < 10 ^ k \<Longrightarrow> 0 \<le> w \<and> w < 10 ^ (k + n)"
proof (induction period n v p arbitrary: k rule: vers_scan.induct)
  case (2 period n v p)
  let ?c = "char_at p 0"
  have grow: "v < 10 ^ (k + Suc n)" using 2(4) power_increasing [of k "k + Suc n" "10 :: int"] by linarith
  show ?case
  proof (cases "\<not> vers_ends ?c \<and> vers_isdigit ?c \<and> \<not> vers_digit_for_char ?c < 0")
    case True
    then have "vers_scan period n (v * 10 + vers_digit_for_char ?c) (drop 1 p) = (e, w, q)" using 2(2) by (simp add: Let_def)
    moreover have "v * 10 + vers_digit_for_char ?c < 10 ^ Suc k" using 2(4) vers_digit_range [of ?c] True by simp
    ultimately show ?thesis using 2(1) [of ?c "Suc k"] True 2(3) vers_digit_range [of ?c] by simp
  next
    case False
    then have "w = v" using 2(2) by (auto simp: Let_def split: if_splits)
    then show ?thesis using grow 2(3) by simp
  qed
qed simp

lemma level_scan_range: "level_scan n v p = Some w \<Longrightarrow> 0 \<le> v \<Longrightarrow> v < 10 ^ n \<Longrightarrow> 0 \<le> w \<and> w \<le> 255"
proof (induction n v p rule: level_scan.induct)
  case (1 n v p)
  let ?c = "char_at p 0"
  show ?case
  proof (cases "n < 3 \<and> \<not> vers_ends ?c \<and> vers_isdigit ?c")
    case True
    then have "level_scan (n + 1) (v * 10 + vers_digit_for_char ?c) (drop 1 p) = Some w"
      using 1(2) vers_digit_neg [of ?c] by (subst (asm) level_scan.simps) simp
    then show ?thesis using 1 True vers_digit_neg [of ?c] vers_digit_range [of ?c] by simp
  next
    case False
    have small: "n < 3 \<Longrightarrow> v < 100" using 1(4) power_increasing [of n 2 "10 :: int"] by simp
    have "w = v \<and> (n < 3 \<or> v \<le> 255)"
      using 1(2) False by (subst (asm) level_scan.simps) (auto simp: Let_def split: if_splits)
    then show ?thesis using small 1(3) by auto
  qed
qed

lemma release_state_number:
  assumes "0 \<le> major" "major < 10000" "0 \<le> minor" "minor < 100" "0 \<le> revision" "revision < 100"
  shows "version_number (release_state major minor revision p)"
proof (cases "vers_ends (char_at p 0)")
  case True
  have "valid_fields major minor revision 9 0" using assms by (simp add: valid_fields_def)
  then show ?thesis using True unfolding release_state_def version_number_def by (simp only: if_True) blast
next
  case False
  obtain stage q where s: "OSKextVersionStageForString p = (stage, q)" by fastforce
  have st: "stage \<noteq> 0 \<Longrightarrow> stage \<in> {1, 3, 5, 7}"
    using s False by (auto simp: OSKextVersionStageForString_def Let_def split: if_splits)
  have "version_number (vers_finish major minor revision stage level)" if "level_scan 0 0 q = Some level" "stage \<noteq> 0" for level
  proof (cases "stage = 7 \<and> level = 0")
    case False
    then have "valid_fields major minor revision stage level"
      using level_scan_range [OF that(1)] st [OF that(2)] assms by (auto simp: valid_fields_def)
    then show ?thesis unfolding version_number_def by blast
  qed (simp add: vers_finish_def)
  then show ?thesis using False s by (auto simp: release_state_def split: option.split)
qed

lemma vers_finish_release:
  assumes "0 \<le> major" "major < 10000" "0 \<le> minor" "minor < 100" "0 \<le> revision" "revision < 100"
  shows "version_number (vers_finish major minor revision 9 0)"
  using release_state_number [OF assms, of "[]"] by (simp add: release_state_def)

lemma vers_revision_number:
  assumes "0 \<le> major" "major < 10000" "0 \<le> minor" "minor < 100"
  shows "version_number (vers_revision major minor p)"
proof -
  obtain e revision q where s: "vers_scan False 2 0 p = (e, revision, q)" by (metis prod_cases3)
  have "0 \<le> revision" "revision < 100" using vers_scan_range [OF s, of 0] by simp_all
  then show ?thesis using s release_state_number [OF assms] vers_finish_release [OF assms]
    by (simp add: vers_revision_def split: scan_end.split option.split)
qed

lemma minor_version_number:
  assumes "0 \<le> major" "major < 10000"
  shows "version_number (minor_version major p)"
proof -
  obtain e minor q where s: "vers_scan True 2 0 p = (e, minor, q)" by (metis prod_cases3)
  have "0 \<le> minor" "minor < 100" using vers_scan_range [OF s, of 0] by simp_all
  then show ?thesis using s release_state_number [OF assms] vers_finish_release [OF assms] vers_revision_number [OF assms]
    by (simp add: minor_version_def split: scan_end.split option.split)
qed

lemma parse_version_number: "version_number (OSKextParseVersionString s)"
proof (cases s)
  case (Some p)
  let ?d = "vers_digit_for_char (char_at p 0)"
  obtain e major q where s: "vers_scan True 3 ?d (drop 1 p) = (e, major, q)" by (metis prod_cases3)
  show ?thesis
  proof (cases "?d < 0")
    case False
    then have "0 \<le> ?d" "?d < 10 ^ 1" using vers_digit_neg [of "char_at p 0"] vers_digit_range [of "char_at p 0"] by simp_all
    then have "0 \<le> major" "major < 10000" using vers_scan_range [OF s, of 1] by simp_all
    then show ?thesis using Some s release_state_number vers_finish_release minor_version_number
      by (simp add: OSKextParseVersionString_def split: scan_end.split option.split)
  qed (simp add: Some OSKextParseVersionString_def)
qed (simp add: OSKextParseVersionString_def)

section \<open>What is printed\<close>

text \<open>A buffer that holds a text and zeros after it: the text grows at its end.\<close>

definition holds :: "nat \<Rightarrow> string \<Rightarrow> string" where
  "holds n t = t @ replicate (n - length t) nul"

lemma length_holds [simp]: "length t \<le> n \<Longrightarrow> length (holds n t) = n"
  by (simp add: holds_def)

lemma snprintf_holds:
  assumes "length t + length u < n"
  shows "snprintf_at (holds n t) (length t) u = Some (holds n (t @ u), length u)"
proof -
  have "drop (length t + (length u + 1)) (holds n t) = replicate (n - (length t + length u + 1)) nul" by (simp add: holds_def)
  then have "overwrite (holds n t) (length t) (u @ [nul]) = t @ u @ nul # replicate (n - (length t + length u + 1)) nul"
    by (simp add: overwrite_def) (simp add: holds_def)
  also have "\<dots> = holds n (t @ u)" using assms replicate_Suc [of "n - (length t + length u + 1)" nul]
    by (simp add: holds_def Suc_diff_Suc del: replicate_Suc)
  finally show ?thesis using assms by (simp add: snprintf_at_def)
qed

lemma store_holds:
  assumes "length t < n"
  shows "store_char (holds n t) (length t) c = Some (holds n (t @ [c]))"
proof -
  obtain k where k: "n - length t = Suc k" using assms by (cases "n - length t") auto
  then have "n - Suc (length t) = k" by simp
  then show ?thesis using assms k by (simp add: store_char_def holds_def)
qed

lemma c_text_holds: "nul \<notin> set t \<Longrightarrow> c_text (holds n t) = t"
  by (auto simp: c_text_def holds_def takeWhile_append)

text \<open>The text of a version.\<close>

definition version_fields_text :: "int \<Rightarrow> int \<Rightarrow> int \<Rightarrow> int \<Rightarrow> int \<Rightarrow> string" where
  "version_fields_text major minor revision stage level =
     decimal (nat major) @ CHR ''.'' # decimal (nat minor)
     @ (if revision \<noteq> 0 then CHR ''.'' # decimal (nat revision) else [])
     @ the (OSKextVersionStringForStage stage) @ (if stage < 9 then decimal (nat level) else [])"

lemma field_lengths:
  assumes "valid_fields major minor revision stage level"
  shows "length (decimal (nat major)) \<le> 4" "length (decimal (nat minor)) \<le> 2" "length (decimal (nat revision)) \<le> 2"
    "length (decimal (nat level)) \<le> 3"
  using assms length_decimal [of "nat major" 3] length_decimal [of "nat minor" 1] length_decimal [of "nat revision" 1]
    length_decimal [of "nat level" 2]
  by (simp_all add: valid_fields_def nat_less_iff)

lemma stage_texts:
  assumes "valid_fields major minor revision stage level"
  obtains t where "OSKextVersionStringForStage stage = Some t" "length t \<le> 1" "nul \<notin> set t" "t = [] \<longleftrightarrow> stage = 9"
  using assms by (auto simp: valid_fields_def OSKextVersionStringForStage_def)

lemma nul_decimal: "nul \<notin> set (decimal n)"
  using decimal_vers_digits vers_isdigit_not_end by blast

lemma print_version_text:
  assumes v: "valid_fields major minor revision stage level" and n: "20 \<le> n"
  shows "print_version major minor revision stage level (replicate n nul)
    = Some (holds n (version_fields_text major minor revision stage level))"
proof -
  obtain t where t: "OSKextVersionStringForStage stage = Some t" "length t \<le> 1" "nul \<notin> set t" "t = [] \<longleftrightarrow> stage = 9"
    using stage_texts [OF v] .
  let ?M = "decimal (nat major)" and ?m = "decimal (nat minor)" and ?r = "decimal (nat revision)" and ?l = "decimal (nat level)"
  let ?a = "?M @ CHR ''.'' # ?m" and ?b = "?M @ CHR ''.'' # ?m @ (if revision \<noteq> 0 then CHR ''.'' # ?r else [])"
  note len = field_lengths [OF v] n
  have 1: "snprintf_at (replicate n nul) 0 ?M = Some (holds n ?M, length ?M)"
    using snprintf_holds [of "[]" ?M n] len by (simp add: holds_def)
  have 2: "store_char (holds n ?M) (length ?M) (CHR ''.'') = Some (holds n (?M @ ''.''))" using len by (intro store_holds) simp
  have 3: "snprintf_at (holds n (?M @ ''.'')) (Suc (length ?M)) ?m = Some (holds n ?a, length ?m)"
    using snprintf_holds [of "?M @ ''.''" ?m n] len by simp
  have 4: "store_char (holds n ?a) (Suc (length ?M + length ?m)) (CHR ''.'') = Some (holds n (?a @ ''.''))"
    using store_holds [of ?a n] len by simp
  have 5: "snprintf_at (holds n (?a @ ''.'')) (Suc (Suc (length ?M + length ?m))) ?r = Some (holds n (?a @ CHR ''.'' # ?r), length ?r)"
    using snprintf_holds [of "?a @ ''.''" ?r n] len by simp
  have b: "nul \<notin> set ?b" using nul_decimal by auto
  have 6: "strlcat_to (holds n ?b) t = Some (holds n (?b @ t))"
    using c_text_holds [OF b] snprintf_holds [of ?b t n] len t(2) by (simp add: strlcat_to_def)
  have 7: "snprintf_at (holds n (?b @ t)) (length (?b @ t)) ?l = Some (holds n (?b @ t @ ?l), length ?l)"
    using snprintf_holds [of "?b @ t" ?l n] len t(2) by simp
  have "stage \<le> 9" using v by (auto simp: valid_fields_def)
  then show ?thesis using 6 7 t 5 4 by (auto simp: print_version_def version_fields_text_def 1 2 3 add.assoc)
qed

section \<open>Reading back what is printed\<close>

lemma release_state_text:
  assumes "valid_fields major minor revision stage level"
  shows "release_state major minor revision (the (OSKextVersionStringForStage stage) @ (if stage < 9 then decimal (nat level) else []))
    = vers_finish major minor revision stage level"
proof (cases "stage = 9")
  case True
  then show ?thesis using assms by (simp add: release_state_def OSKextVersionStringForStage_def valid_fields_def)
next
  case False
  let ?l = "decimal (nat level)"
  have v: "0 \<le> level" "level \<le> 255" "stage \<in> {1, 3, 5, 7}" using assms False by (auto simp: valid_fields_def)
  obtain c ds where c: "?l = c # ds" using decimal_not_Nil by (cases ?l) auto
  then have d: "vers_isdigit c" using decimal_vers_digits [of c "nat level"] by simp
  have "level_scan 0 0 ?l = level_scan (length ?l) level []"
    using level_scan_digits [of ?l 0 0 "[]"] decimal_vers_digits field_lengths(4) [OF assms] v(1)
    by (simp add: digits_value_decimal)
  also have "\<dots> = Some level" using v(2) c by (subst level_scan.simps) simp
  finally have l: "level_scan 0 0 ?l = Some level" .
  have "\<not> vers_ends (CHR ''d'')" "\<not> vers_ends (CHR ''a'')" "\<not> vers_ends (CHR ''b'')" "\<not> vers_ends (CHR ''f'')"
    by (simp_all add: vers_ends_def vers_isspace_def)
  then show ?thesis using v(3) l d
    by (auto simp: release_state_def OSKextVersionStringForStage_def OSKextVersionStageForString_def c)
qed

text \<open>What follows a field: a period, or the stage letter with its level, or nothing.\<close>

definition stage_tail :: "string \<Rightarrow> bool" where
  "stage_tail t \<longleftrightarrow> t = [] \<or> VERS_isreleasestate (hd t)"

lemma stage_letter: "VERS_isreleasestate c \<Longrightarrow> \<not> vers_ends c \<and> \<not> vers_isdigit c \<and> c \<noteq> CHR ''.''"
  by (auto simp: VERS_isreleasestate_def vers_ends_def vers_isspace_def vers_isdigit_def)

lemma scan_at_period:
  "vers_scan True k v (CHR ''.'' # r) = (if k = 0 then (AllDigits, v, CHR ''.'' # r) else (AfterPeriod, v, r))"
  by (cases k) (simp_all add: vers_ends_def vers_isspace_def vers_isdigit_def VERS_isreleasestate_def)

lemma scan_at_tail:
  assumes "stage_tail t"
  shows "vers_scan period k v t = (if k = 0 then AllDigits else if t = [] then Finished else AtStage, v, t)"
  using assms stage_letter [of "hd t"] by (cases k; cases t) (simp_all add: stage_tail_def)

lemma too_many_tail: "stage_tail t \<Longrightarrow> too_many_digits t = Some t"
  using stage_letter [of "hd t"] by (cases t) (auto simp: too_many_digits_def stage_tail_def vers_isdigit_def)

lemma too_many_period [simp]: "too_many_digits (CHR ''.'' # r) = Some r"
  by (simp add: too_many_digits_def)

lemma scan_decimal:
  assumes "length (decimal n) \<le> k"
  shows "vers_scan period k 0 (decimal n @ p) = vers_scan period (k - length (decimal n)) (int n) p"
  using assms decimal_vers_digits by (simp add: vers_scan_digits digits_value_decimal)

lemma release_state_end: "release_state major minor revision [] = vers_finish major minor revision 9 0"
  by (simp add: release_state_def)

lemma vers_revision_text:
  assumes "stage_tail t" "length (decimal n) \<le> 2"
  shows "vers_revision major minor (decimal n @ t) = release_state major minor (int n) t"
    and "vers_revision major minor t = release_state major minor 0 t"
  using assms by (simp_all add: vers_revision_def scan_decimal scan_at_tail too_many_tail release_state_end)

lemma minor_version_text:
  assumes "length (decimal n) \<le> 2"
  shows "minor_version major (decimal n @ CHR ''.'' # p) = vers_revision major (int n) p"
    and "stage_tail t \<Longrightarrow> minor_version major (decimal n @ t) = release_state major (int n) 0 t"
  using assms vers_revision_text(2)
  by (auto simp: minor_version_def scan_decimal scan_at_period scan_at_tail too_many_tail release_state_end)

lemma major_version_text:
  assumes "length (decimal n) \<le> 4"
  shows "OSKextParseVersionString (Some (decimal n @ CHR ''.'' # p)) = minor_version (int n) p"
proof -
  obtain c ds where c: "decimal n = c # ds" using decimal_not_Nil by (cases "decimal n") auto
  have d: "vers_isdigit c" "\<forall>c \<in> set ds. vers_isdigit c" using decimal_vers_digits [of _ n] c by auto
  have "digits_value (vers_digit_for_char c) ds = int n" using digits_value_decimal [of n] c by simp
  then have "vers_scan True 3 (vers_digit_for_char c) (ds @ CHR ''.'' # p) = vers_scan True (3 - length ds) (int n) (CHR ''.'' # p)"
    using vers_scan_digits [OF d(2)] assms c by simp
  then show ?thesis using d vers_isdigit_not_end [of c] vers_digit_neg [of c]
    by (simp add: OSKextParseVersionString_def c scan_at_period)
qed

lemma parse_version_text:
  assumes v: "valid_fields major minor revision stage level"
  shows "OSKextParseVersionString (Some (version_fields_text major minor revision stage level))
    = vers_finish major minor revision stage level"
proof -
  let ?t = "the (OSKextVersionStringForStage stage) @ (if stage < 9 then decimal (nat level) else [])"
  have n: "int (nat major) = major" "int (nat minor) = minor" "int (nat revision) = revision" and "stage \<in> {1, 3, 5, 7, 9}"
    using v by (simp_all add: valid_fields_def)
  then have t: "stage_tail ?t" by (auto simp: stage_tail_def OSKextVersionStringForStage_def VERS_isreleasestate_def)
  have "OSKextParseVersionString (Some (version_fields_text major minor revision stage level)) = release_state major minor revision ?t"
    using field_lengths [OF v] t n
    by (auto simp: version_fields_text_def major_version_text minor_version_text vers_revision_text)
  then show ?thesis using release_state_text [OF v] by simp
qed

text \<open>The fields of a number are found again by the divisions.\<close>

lemma get_string_fields:
  assumes v: "valid_fields major minor revision stage level" and n: "20 \<le> length b"
  shows "OSKextVersionGetString (vers_finish major minor revision stage level) (Some b)
    = map_option (\<lambda>b. (True, Some b)) (print_version major minor revision stage level (replicate (length b) nul))"
proof -
  define v where "v = major * 100000000 + minor * 1000000 + revision * 10000 + stage * 1000 + level"
  have s: "0 < stage" "stage \<le> 9" using assms(1) by (auto simp: valid_fields_def)
  note r = assms(1) [unfolded valid_fields_def] s
  have f: "vers_finish major minor revision stage level = v" using r by (simp add: vers_finish_def vers_mults v_def)
  have 1: "v div 100000000 = major"
    using r by (intro int_div_pos_eq [where r = "minor * 1000000 + revision * 10000 + stage * 1000 + level"]) (simp_all add: v_def)
  have 2: "(v - major * 100000000) div 1000000 = minor"
    using r by (intro int_div_pos_eq [where r = "revision * 10000 + stage * 1000 + level"]) (simp_all add: v_def)
  have 3: "(v - (major * 100000000 + minor * 1000000)) div 10000 = revision"
    using r by (intro int_div_pos_eq [where r = "stage * 1000 + level"]) (simp_all add: v_def)
  have 4: "(v - (major * 100000000 + minor * 1000000 + revision * 10000)) div 1000 = stage"
    using r by (intro int_div_pos_eq [where r = level]) (simp_all add: v_def)
  have 5: "v - (major * 100000000 + minor * 1000000 + revision * 10000 + stage * 1000) = level" by (simp add: v_def)
  have "0 < v" using r by (simp add: v_def)
  then show ?thesis using n r
    by (simp add: f OSKextVersionGetString_def vers_mults kOSKextVersionMaxLength_def 1 2 3 4 5 Let_def)
qed

lemma version_text_no_nul: "valid_fields major minor revision stage level \<Longrightarrow> nul \<notin> set (version_fields_text major minor revision stage level)"
  using nul_decimal by (auto simp: version_fields_text_def valid_fields_def OSKextVersionStringForStage_def)

text \<open>
  C40: Whatever text it is given, the parser returns -1 or a number that is put together from fields in their ranges: a
  major number below 10000, a minor number and a revision below 100, one of the five stages and a level of at most 255,
  where a released version has level 0 and a candidate has not.
\<close>

theorem OSKextParseVersionString_well_formed:
  "OSKextParseVersionString s = -1 \<or> (\<exists>major minor revision stage level. valid_fields major minor revision stage level
     \<and> OSKextParseVersionString s = major * 100000000 + minor * 1000000 + revision * 10000 + stage * 1000 + level)"
proof -
  have "valid_fields major minor revision stage level \<Longrightarrow>
      vers_finish major minor revision stage level = major * 100000000 + minor * 1000000 + revision * 10000 + stage * 1000 + level"
    for major minor revision stage level by (auto simp: vers_finish_def valid_fields_def vers_mults)
  then show ?thesis using parse_version_number [of s] unfolding version_number_def by metis
qed

text \<open>
  C16: A version text that the parser accepts gives a number that is printed, into any buffer of at least the documented
  20 characters and without a store outside it, as a text that the parser reads as the same number.
\<close>

theorem OSKextVersion_roundtrip:
  assumes "OSKextParseVersionString (Some s) = v" "v \<noteq> -1" "kOSKextVersionMaxLength \<le> length b"
  shows "\<exists>b'. OSKextVersionGetString v (Some b) = Some (True, Some b') \<and> length b' = length b
    \<and> OSKextParseVersionString (Some (c_text b')) = v"
proof -
  have n: "20 \<le> length b" using assms(3) by (simp add: kOSKextVersionMaxLength_def)
  obtain major minor revision stage level where f: "valid_fields major minor revision stage level"
    and v: "v = vers_finish major minor revision stage level"
    using parse_version_number [of "Some s"] assms(1,2) by (auto simp: version_number_def)
  let ?t = "version_fields_text major minor revision stage level"
  have "OSKextVersionGetString v (Some b) = Some (True, Some (holds (length b) ?t))"
    by (simp add: v get_string_fields [OF f n] print_version_text [OF f n])
  moreover have "length ?t \<le> 20"
    using field_lengths [OF f] f by (auto simp: version_fields_text_def valid_fields_def OSKextVersionStringForStage_def)
  moreover have "OSKextParseVersionString (Some (c_text (holds (length b) ?t))) = v"
    by (simp add: c_text_holds [OF version_text_no_nul [OF f]] parse_version_text [OF f] v)
  ultimately show ?thesis using n by auto
qed

theorem OSKextVersion_roundtrip_witness:
  "\<exists>b'. OSKextVersionGetString 1004027012 (Some (replicate 20 nul)) = Some (True, Some b') \<and> length b' = 20
    \<and> OSKextParseVersionString (Some (c_text b')) = 1004027012"
proof -
  have "level_scan 0 0 ''12'' = Some 12"
    by (simp add: level_scan.simps vers_ends_def vers_isspace_def vers_isdigit_def vers_digit_for_char_def)
  then have "OSKextParseVersionString (Some ''10.04.2fc12'') = 1004027012"
    by (simp add: OSKextParseVersionString_def minor_version_def vers_revision_def release_state_def vers_finish_def
        OSKextVersionStageForString_def vers_ends_def vers_isspace_def vers_isdigit_def vers_digit_for_char_def
        VERS_isreleasestate_def too_many_digits_def vers_mults numeral_2_eq_2 numeral_3_eq_3 Let_def)
  from OSKextVersion_roundtrip [OF this, of "replicate 20 nul"] show ?thesis by (simp add: kOSKextVersionMaxLength_def)
qed

end
