(* ===== verification/Pmap_Asid.thy ===== *)
theory Pmap_Asid
  imports Prelude
begin

text \<open>
  Address space identifiers of the ARM port (\<open>osfmk/arm/pmap_asid.c\<close>) and the operations of \<open>osfmk/arm/pmap.c\<close> that
  use them: creating, referencing, switching to, flushing and destroying a physical map. Every processor counts, for each
  of its 255 tags, the maps that hold the tag; every map has one tag for each processor. A map is an object of a heap, a
  pointer to it is a 32-bit word; \<open>None\<close> stands for a failed assertion, a panic, an access outside an array or through a
  pointer to no object. Operations run one after another; the assertions on the interrupt level, messages, locks, the
  VM object, the ledger and the pages of a map are left out.
\<close>

section \<open>State\<close>

type_synonym pmap_t = u32

definition PMAP_INVALID :: pmap_t where "PMAP_INVALID = 0xDEAD7347"
definition PMAP_ASID_INVALID_ASID :: u16 where "PMAP_ASID_INVALID_ASID = 0xDEAD"
definition PMAP_ASID_MAX_REFCOUNT :: u8 where "PMAP_ASID_MAX_REFCOUNT = 0xF0"
definition PMAP_ASID_MIN_ASID :: nat where "PMAP_ASID_MIN_ASID = 1"
definition PMAP_ASID_MAX_ASID :: nat where "PMAP_ASID_MAX_ASID = 0xFF"
definition PMAP_ASID_MAX_CPUS :: nat where "PMAP_ASID_MAX_CPUS = 48"

lemmas asid_consts = PMAP_ASID_INVALID_ASID_def PMAP_ASID_MAX_REFCOUNT_def PMAP_ASID_MIN_ASID_def PMAP_ASID_MAX_ASID_def
  PMAP_ASID_MAX_CPUS_def

text \<open>The fields of \<open>cpu_data\<close> that the code uses, with the translation table register of the processor.\<close>

record cpu_data =
  cpu_running :: bool
  user_pmap :: pmap_t
  cpu_active_asid :: u16
  cpu_pmap_asid_coherentp :: "(pmap_t \<times> nat) option"
  cpu_pmap_asid_coherentp_kernel :: "(pmap_t \<times> nat) option"
  cpu_asid_free_hint :: u16
  cpu_asid_refcounts :: "u8 list"
  cpu_asid_last_pmap_dispatched :: "pmap_t list"
  cpu_ttbr :: u32

record pmap =
  pm_l1_phys :: u32
  pm_refcnt :: u32
  pm_shared :: bool
  pm_asid :: u32
  pmap_asid_cpus :: "u16 list"
  pmap_asid_coherency_vector :: "u8 list"

datatype hw_op = FlushID | FlushID_ASID u32 | SetContextId u32 | ContextSwitch u32

text \<open>Global variables and the heap of maps; the processors are numbered from 0 up to \<open>real_ncpus\<close>.\<close>

record pmap_state =
  cpus :: "cpu_data list"
  pmaps :: "pmap_t \<rightharpoonup> pmap"
  kernel_pmap :: pmap_t
  pmap_asid_disabled :: bool
  pmap_asid_ncpus :: u32
  hw_log :: "hw_op list"

abbreviation real_ncpus :: "pmap_state \<Rightarrow> nat" where "real_ncpus st \<equiv> length (cpus st)"

definition rd :: "'a list \<Rightarrow> nat \<Rightarrow> 'a option" where
  "rd xs i = (if i < length xs then Some (xs ! i) else None)"

definition wr :: "'a list \<Rightarrow> nat \<Rightarrow> 'a \<Rightarrow> 'a list option" where
  "wr xs i v = (if i < length xs then Some (xs[i := v]) else None)"

definition assert_that :: "bool \<Rightarrow> unit option" where
  "assert_that b = (if b then Some () else None)"

abbreviation cpu_datap :: "pmap_state \<Rightarrow> nat \<Rightarrow> cpu_data option" where
  "cpu_datap st c \<equiv> rd (cpus st) c"

definition set_cpu :: "nat \<Rightarrow> cpu_data \<Rightarrow> pmap_state \<Rightarrow> pmap_state" where
  "set_cpu c d st = st\<lparr>cpus := (cpus st)[c := d]\<rparr>"

definition set_pmap :: "pmap_t \<Rightarrow> pmap \<Rightarrow> pmap_state \<Rightarrow> pmap_state" where
  "set_pmap p m st = st\<lparr>pmaps := (pmaps st)(p \<mapsto> m)\<rparr>"

definition emit :: "hw_op \<Rightarrow> pmap_state \<Rightarrow> pmap_state" where
  "emit h st = st\<lparr>hw_log := hw_log st @ [h]\<rparr>"

section \<open>Coherency of the translation caches\<close>

text \<open>Eight entries of the vector are written at a time.\<close>

function invalidate_loop :: "nat \<Rightarrow> nat \<Rightarrow> u8 list \<Rightarrow> u8 list option" where
  "invalidate_loop n i v =
     (if i < n then
        (if i + 8 \<le> length v then invalidate_loop n (i + 8) (take i v @ replicate 8 0xFF @ drop (i + 8) v) else None)
      else Some v)"
  by pat_completeness auto
termination by (relation "measure (\<lambda>(n, i, v). n - i)") auto

declare invalidate_loop.simps [simp del]

definition pmap_asid_invalidate_all_cpus :: "pmap_t \<Rightarrow> pmap_state \<Rightarrow> pmap_state option" where
  "pmap_asid_invalidate_all_cpus tpmap st =
     do { m \<leftarrow> pmaps st tpmap;
          assert_that (length (pmap_asid_coherency_vector m) \<ge> real_ncpus st);
          v \<leftarrow> invalidate_loop (real_ncpus st) 0 (pmap_asid_coherency_vector m);
          Some (set_pmap tpmap (m\<lparr>pmap_asid_coherency_vector := v\<rparr>) st) }"

definition set_coherency :: "pmap_t \<Rightarrow> nat \<Rightarrow> u8 \<Rightarrow> pmap_state \<Rightarrow> pmap_state option" where
  "set_coherency tpmap ccpu b st =
     do { m \<leftarrow> pmaps st tpmap;
          v \<leftarrow> wr (pmap_asid_coherency_vector m) ccpu b;
          Some (set_pmap tpmap (m\<lparr>pmap_asid_coherency_vector := v\<rparr>) st) }"

definition pmap_asid_invalidate_cpu :: "pmap_t \<Rightarrow> nat \<Rightarrow> pmap_state \<Rightarrow> pmap_state option" where
  "pmap_asid_invalidate_cpu tpmap ccpu = set_coherency tpmap ccpu 0xFF"

definition pmap_asid_validate_cpu :: "pmap_t \<Rightarrow> nat \<Rightarrow> pmap_state \<Rightarrow> pmap_state option" where
  "pmap_asid_validate_cpu tpmap ccpu = set_coherency tpmap ccpu 0"

text \<open>The map of the running thread is an argument.\<close>

definition pmap_asid_validate_current :: "nat \<Rightarrow> pmap_t \<Rightarrow> pmap_state \<Rightarrow> pmap_state option" where
  "pmap_asid_validate_current ccpu current st =
     do { d \<leftarrow> cpu_datap st ccpu;
          assert_that (cpu_pmap_asid_coherentp d = Some (current, ccpu));
          (case cpu_pmap_asid_coherentp d of None \<Rightarrow> Some st | Some (p, i) \<Rightarrow> set_coherency p i 0 st) }"

section \<open>Configuration\<close>

definition pmap_asid_configure :: "nat \<Rightarrow> pmap_state \<Rightarrow> pmap_state option" where
  "pmap_asid_configure ccpu st =
     (if pmap_asid_disabled st then Some st
      else
        do { let st = emit FlushID (st\<lparr>pmap_asid_ncpus := pmap_asid_ncpus st + 1\<rparr>);
             d \<leftarrow> cpu_datap st ccpu;
             r \<leftarrow> wr (cpu_asid_refcounts d) 0 1;
             Some (set_cpu ccpu (d\<lparr>cpu_pmap_asid_coherentp := Some (kernel_pmap st, ccpu),
               cpu_pmap_asid_coherentp_kernel := Some (kernel_pmap st, ccpu), cpu_asid_refcounts := r\<rparr>) st) })"

definition pmap_asid_initialize :: "pmap \<Rightarrow> pmap" where
  "pmap_asid_initialize m = m\<lparr>pmap_asid_cpus := replicate PMAP_ASID_MAX_CPUS PMAP_ASID_INVALID_ASID\<rparr>"

definition pmap_asid_initialize_kernel :: "pmap \<Rightarrow> pmap" where
  "pmap_asid_initialize_kernel m = m\<lparr>pmap_asid_cpus := replicate PMAP_ASID_MAX_CPUS 0\<rparr>"

section \<open>Tags\<close>

text \<open>The scan for a free tag: \<open>Inl\<close> the first tag that no map holds, \<open>Inr\<close> the first of the tags that the fewest hold.\<close>

function alloc_scan :: "u8 list \<Rightarrow> nat \<Rightarrow> u8 \<Rightarrow> nat \<Rightarrow> (nat + nat) option" where
  "alloc_scan refs i cur_min cur_min_index =
     (if i < PMAP_ASID_MAX_ASID then
        do { cur_refcount \<leftarrow> rd refs i;
             assert_that (cur_refcount < PMAP_ASID_MAX_REFCOUNT);
             (if cur_refcount = 0 then Some (Inl i)
              else if cur_refcount < cur_min then alloc_scan refs (i + 1) cur_refcount i
              else alloc_scan refs (i + 1) cur_min cur_min_index) }
      else Some (Inr cur_min_index))"
  by pat_completeness auto
termination by (relation "measure (\<lambda>(refs, i, m, k). PMAP_ASID_MAX_ASID - i)") auto

declare alloc_scan.simps [simp del]

definition take_tag :: "nat \<Rightarrow> nat \<Rightarrow> cpu_data \<Rightarrow> pmap_state \<Rightarrow> (u16 \<times> pmap_state) option" where
  "take_tag ccpu i d st =
     do { r \<leftarrow> rd (cpu_asid_refcounts d) i;
          refs \<leftarrow> wr (cpu_asid_refcounts d) i (r + 1);
          Some (of_nat i, set_cpu ccpu (d\<lparr>cpu_asid_refcounts := refs\<rparr>) st) }"

definition pmap_asid_allocate_asid :: "nat \<Rightarrow> pmap_state \<Rightarrow> (u16 \<times> pmap_state) option" where
  "pmap_asid_allocate_asid ccpu st =
     do { d \<leftarrow> cpu_datap st ccpu;
          let i = unat (cpu_asid_free_hint d);
          hit \<leftarrow> (if i \<noteq> 0 then map_option (\<lambda>r. r = 0) (rd (cpu_asid_refcounts d) i) else Some False);
          (if hit then take_tag ccpu i (d\<lparr>cpu_asid_free_hint := 0\<rparr>) st
           else
             do { found \<leftarrow> alloc_scan (cpu_asid_refcounts d) PMAP_ASID_MIN_ASID 0xFF 0xFFFFFFFE;
                  (case found of
                     Inl i \<Rightarrow> take_tag ccpu i d st
                   | Inr k \<Rightarrow>
                       do { assert_that (k > 0 \<and> k < PMAP_ASID_MAX_ASID);
                            old_count \<leftarrow> rd (cpu_asid_refcounts d) k;
                            res \<leftarrow> take_tag ccpu k d st;
                            assert_that (old_count < PMAP_ASID_MAX_REFCOUNT);
                            Some res }) }) }"

definition pmap_asid_deallocate_asid :: "nat \<Rightarrow> pmap_t \<Rightarrow> pmap_state \<Rightarrow> pmap_state option" where
  "pmap_asid_deallocate_asid ccpu tpmap st =
     do { m \<leftarrow> pmaps st tpmap;
          asid \<leftarrow> rd (pmap_asid_cpus m) ccpu;
          assert_that (asid \<noteq> PMAP_ASID_INVALID_ASID);
          d \<leftarrow> cpu_datap st ccpu;
          lp \<leftarrow> rd (cpu_asid_last_pmap_dispatched d) (unat asid);
          assert_that (unat asid > 0 \<and> unat asid < PMAP_ASID_MAX_ASID);
          prior_count \<leftarrow> rd (cpu_asid_refcounts d) (unat asid);
          assert_that (prior_count \<ge> 1);
          last \<leftarrow> (if lp = tpmap then wr (cpu_asid_last_pmap_dispatched d) (unat asid) PMAP_INVALID
                     else Some (cpu_asid_last_pmap_dispatched d));
          refs \<leftarrow> wr (cpu_asid_refcounts d) (unat asid) (prior_count - 1);
          assert_that (prior_count \<le> PMAP_ASID_MAX_REFCOUNT);
          Some (set_cpu ccpu (d\<lparr>cpu_asid_last_pmap_dispatched := last, cpu_asid_refcounts := refs,
            cpu_asid_free_hint := (if prior_count = 1 then asid else cpu_asid_free_hint d)\<rparr>) st) }"

fun destroy_loop :: "nat list \<Rightarrow> pmap_t \<Rightarrow> pmap_state \<Rightarrow> pmap_state option" where
  "destroy_loop [] p st = Some st"
| "destroy_loop (i # is) p st =
     do { m \<leftarrow> pmaps st p;
          asid \<leftarrow> rd (pmap_asid_cpus m) i;
          st \<leftarrow> (if asid \<noteq> PMAP_ASID_INVALID_ASID then pmap_asid_deallocate_asid i p st else Some st);
          destroy_loop is p st }"

definition pmap_destroy_asid_sync :: "pmap_t \<Rightarrow> pmap_state \<Rightarrow> pmap_state option" where
  "pmap_destroy_asid_sync p st = destroy_loop [0..<PMAP_ASID_MAX_CPUS] p st"

definition asid_for_pmap_cpu_tuple :: "pmap_state \<Rightarrow> pmap_t \<Rightarrow> nat \<Rightarrow> u16 option" where
  "asid_for_pmap_cpu_tuple st p ccpu = do { m \<leftarrow> pmaps st p; rd (pmap_asid_cpus m) ccpu }"

text \<open>Updates of one field through a pointer.\<close>

definition modify_cpu :: "nat \<Rightarrow> (cpu_data \<Rightarrow> cpu_data) \<Rightarrow> pmap_state \<Rightarrow> pmap_state option" where
  "modify_cpu c f st = do { d \<leftarrow> cpu_datap st c; Some (set_cpu c (f d) st) }"

definition modify_pmap :: "pmap_t \<Rightarrow> (pmap \<Rightarrow> pmap) \<Rightarrow> pmap_state \<Rightarrow> pmap_state option" where
  "modify_pmap p f st = do { m \<leftarrow> pmaps st p; Some (set_pmap p (f m) st) }"

definition pending_flush :: "pmap_t \<Rightarrow> nat \<Rightarrow> pmap_state \<Rightarrow> bool option" where
  "pending_flush p ccpu st = do { m \<leftarrow> pmaps st p; b \<leftarrow> rd (pmap_asid_coherency_vector m) ccpu; Some (b \<noteq> 0) }"

text \<open>The first part of an activation: the tag of the map on the processor, allocated when it has none yet.\<close>

definition activate_tag :: "pmap_t \<Rightarrow> nat \<Rightarrow> pmap_state \<Rightarrow> (u16 \<times> pmap_state) option" where
  "activate_tag tpmap ccpu st =
     do { m \<leftarrow> pmaps st tpmap;
          asid \<leftarrow> rd (pmap_asid_cpus m) ccpu;
          (if asid = PMAP_ASID_INVALID_ASID then
             do { (a, st) \<leftarrow> pmap_asid_allocate_asid ccpu st;
                  v \<leftarrow> wr (pmap_asid_cpus m) ccpu a;
                  Some (a, set_pmap tpmap (m\<lparr>pmap_asid_cpus := v\<rparr>) st) }
           else Some (asid, st)) }"

text \<open>The second part: the tag becomes the active one and the map the last that was dispatched with it; the result says
  whether a flush was pending.\<close>

definition dispatch_tag :: "pmap_t \<Rightarrow> nat \<Rightarrow> u16 \<Rightarrow> pmap_state \<Rightarrow> (bool \<times> pmap_state) option" where
  "dispatch_tag tpmap ccpu new_asid st =
     do { assert_that (new_asid \<noteq> PMAP_ASID_INVALID_ASID);
          st \<leftarrow> modify_cpu ccpu (cpu_active_asid_update (\<lambda>_. new_asid)) st;
          pending \<leftarrow> pending_flush tpmap ccpu st;
          d \<leftarrow> cpu_datap st ccpu;
          asid_conflict \<leftarrow>
            (if \<not> pending
             then map_option (\<lambda>last_pmap. last_pmap \<noteq> 0 \<and> tpmap \<noteq> last_pmap) (rd (cpu_asid_last_pmap_dispatched d) (unat new_asid))
             else Some False);
          st \<leftarrow> (if pending \<or> asid_conflict then pmap_asid_validate_cpu tpmap ccpu st else Some st);
          last \<leftarrow> wr (cpu_asid_last_pmap_dispatched d) (unat new_asid) tpmap;
          st \<leftarrow> modify_cpu ccpu (cpu_asid_last_pmap_dispatched_update (\<lambda>_. last)) st;
          Some (pending, st) }"

text \<open>The last part: the tag is recorded in the map, and a flush that became pending meanwhile is noticed.\<close>

definition record_tag :: "pmap_t \<Rightarrow> nat \<Rightarrow> u16 \<Rightarrow> bool \<Rightarrow> pmap_state \<Rightarrow> pmap_state option" where
  "record_tag tpmap ccpu new_asid pending st =
     do { assert_that (unat new_asid < PMAP_ASID_MAX_ASID);
          assert_that ((tpmap = kernel_pmap st \<and> new_asid = 0) \<or> (new_asid \<noteq> PMAP_ASID_INVALID_ASID \<and> new_asid \<noteq> 0));
          st \<leftarrow> modify_pmap tpmap (pm_asid_update (\<lambda>_. ucast new_asid)) st;
          st \<leftarrow> (if \<not> pending then
                   do { again \<leftarrow> pending_flush tpmap ccpu st;
                        (if again then
                           do { st \<leftarrow> pmap_asid_validate_cpu tpmap ccpu st;
                                modify_pmap tpmap (pm_asid_update (\<lambda>_. ucast new_asid)) st }
                         else Some st) }
                 else Some st);
          modify_cpu ccpu (cpu_pmap_asid_coherentp_update (\<lambda>_. Some (tpmap, ccpu))) st }"

definition pmap_asid_activate :: "pmap_t \<Rightarrow> nat \<Rightarrow> pmap_state \<Rightarrow> pmap_state option" where
  "pmap_asid_activate tpmap ccpu st =
     do { (new_asid, st) \<leftarrow> activate_tag tpmap ccpu st;
          (pending, st) \<leftarrow> dispatch_tag tpmap ccpu new_asid st;
          record_tag tpmap ccpu new_asid pending st }"

section \<open>Physical maps\<close>

text \<open>
  \<open>arm_context_switch\<close> loads the translation table register with the address of the table and the attribute bits of a
  processor that is not part of a multiprocessor; it also flushes the translation cache.
\<close>

definition arm_context_switch :: "nat \<Rightarrow> u32 \<Rightarrow> pmap_state \<Rightarrow> pmap_state option" where
  "arm_context_switch ccpu l1 st = modify_cpu ccpu (cpu_ttbr_update (\<lambda>_. l1 OR 0x1B)) (emit (ContextSwitch l1) st)"

definition pmap_switch :: "nat \<Rightarrow> pmap_t \<Rightarrow> pmap_state \<Rightarrow> pmap_state option" where
  "pmap_switch ccpu new_pmap st =
     (if new_pmap = kernel_pmap st then Some st
      else
        do { d \<leftarrow> cpu_datap st ccpu;
             (if user_pmap d = new_pmap then Some st
              else
                do { st \<leftarrow> (if pmap_asid_ncpus st \<noteq> 0 then pmap_asid_activate new_pmap ccpu st else Some st);
                     st \<leftarrow> modify_cpu ccpu (user_pmap_update (\<lambda>_. new_pmap)) st;
                     m \<leftarrow> pmaps st new_pmap;
                     let st = emit (SetContextId (pm_asid m AND 0xFF)) st;
                     arm_context_switch ccpu (pm_l1_phys m) st }) })"

text \<open>The loop over the processors: the register that it reads is the one of the processor that runs the loop.\<close>

fun flush_loop :: "nat list \<Rightarrow> nat \<Rightarrow> u32 \<Rightarrow> bool \<Rightarrow> pmap_state \<Rightarrow> bool \<Rightarrow> bool option" where
  "flush_loop [] my_cpu ttb shared st flush_self = Some flush_self"
| "flush_loop (cpu # rest) my_cpu ttb shared st flush_self =
     do { d \<leftarrow> cpu_datap st cpu;
          (if \<not> cpu_running d then flush_loop rest my_cpu ttb shared st flush_self
           else
             do { me \<leftarrow> cpu_datap st my_cpu;
                  let ttbr_pmap = cpu_ttbr me AND 0xFFFFFF00;
                  (if (ttb = ttbr_pmap \<or> shared) \<and> cpu = my_cpu then flush_loop rest my_cpu ttb shared st True
                   else flush_loop rest my_cpu ttb shared st flush_self) }) }"

definition pmap_flush_tlbs :: "nat \<Rightarrow> pmap_t \<Rightarrow> pmap_state \<Rightarrow> pmap_state option" where
  "pmap_flush_tlbs my_cpu p st =
     do { m \<leftarrow> pmaps st p;
          let shared = (pm_shared m \<or> p = kernel_pmap st);
          st \<leftarrow> (if pmap_asid_ncpus st \<noteq> 0 then pmap_asid_invalidate_all_cpus p st else Some st);
          flush_self \<leftarrow> flush_loop [0..<real_ncpus st] my_cpu (pm_l1_phys m) shared st False;
          st \<leftarrow> (if flush_self then
                   (if pmap_asid_ncpus st \<noteq> 0 then
                      do { st \<leftarrow> pmap_asid_validate_cpu p my_cpu st;
                           Some (if shared then emit FlushID st else emit (FlushID_ASID (pm_asid m AND 0xFF)) st) }
                    else Some (emit FlushID st))
                 else Some st);
          (if p = kernel_pmap st \<and> \<not> flush_self then None else Some st) }"

text \<open>
  \<open>pmap_create\<close>: the object that the zone gives, with whatever it contains, and the page of the first-level table are
  arguments; so are the conditions under which it returns no map.
\<close>

definition pmap_create :: "bool \<Rightarrow> u32 \<Rightarrow> pmap_t \<Rightarrow> pmap \<Rightarrow> u32 \<Rightarrow> pmap_state \<Rightarrow> (pmap_t \<times> pmap_state) option" where
  "pmap_create initialized sz our_pmap contents l1 st =
     (if \<not> initialized \<or> sz \<noteq> 0 then Some (0, st)
      else if our_pmap = 0 then None
      else
        let m = contents\<lparr>pm_refcnt := 1, pm_asid := 0, pm_shared := False\<rparr>;
            m = (if pmap_asid_ncpus st \<noteq> 0 then pmap_asid_initialize m else m)
        in Some (our_pmap, set_pmap our_pmap (m\<lparr>pm_l1_phys := l1\<rparr>) st))"

definition pmap_reference :: "pmap_t \<Rightarrow> pmap_state \<Rightarrow> pmap_state option" where
  "pmap_reference p st = (if p \<noteq> 0 then modify_pmap p (pm_refcnt_update (\<lambda>n. n + 1)) st else Some st)"

definition pmap_destroy :: "nat \<Rightarrow> pmap_t \<Rightarrow> pmap_state \<Rightarrow> pmap_state option" where
  "pmap_destroy my_cpu p st =
     (if p = kernel_pmap st then None
      else
        do { m \<leftarrow> pmaps st p;
             let refcnt = pm_refcnt m - 1;
             let st = set_pmap p (m\<lparr>pm_refcnt := refcnt\<rparr>) st;
             (if refcnt = 0 then
                do { st \<leftarrow> pmap_flush_tlbs my_cpu p st;
                     st \<leftarrow> (if pmap_asid_ncpus st \<noteq> 0 then pmap_destroy_asid_sync p st else Some st);
                     Some (st\<lparr>pmaps := (pmaps st)(p := None)\<rparr>) }
              else Some st) })"

end
