(* ===== verification/Guarded_System.thy ===== *)
theory Guarded_System
  imports Main
begin

text \<open>
  Systems that are driven by operations. An operation may fail, which is the value \<open>None\<close>; the callers keep a protocol,
  which says when an operation is allowed. The locale states what makes such a system safe: an invariant that holds at
  the start, and that every allowed operation, which then does not fail, keeps.
\<close>

inductive reachable :: "('s \<Rightarrow> bool) \<Rightarrow> ('op \<Rightarrow> 's \<Rightarrow> bool) \<Rightarrow> ('op \<Rightarrow> 's \<Rightarrow> 's option) \<Rightarrow> 's \<Rightarrow> bool"
  for start allowed exec where
  begin_at: "start s \<Longrightarrow> reachable start allowed exec s"
| next_op: "reachable start allowed exec s \<Longrightarrow> allowed x s \<Longrightarrow> exec x s = Some t \<Longrightarrow> reachable start allowed exec t"

locale guarded_system =
  fixes start :: "'s \<Rightarrow> bool" and allowed :: "'op \<Rightarrow> 's \<Rightarrow> bool" and exec :: "'op \<Rightarrow> 's \<Rightarrow> 's option" and inv :: "'s \<Rightarrow> bool"
  assumes start_inv: "start s \<Longrightarrow> inv s"
    and exec_inv: "inv s \<Longrightarrow> allowed x s \<Longrightarrow> \<exists>t. exec x s = Some t \<and> inv t"
begin

lemma reachable_inv: "reachable start allowed exec s \<Longrightarrow> inv s"
proof (induction rule: reachable.induct)
  case (next_op s x t)
  then show ?case using exec_inv [of s x] by auto
qed (rule start_inv)

lemma progress: "reachable start allowed exec s \<Longrightarrow> allowed x s \<Longrightarrow> \<exists>t. exec x s = Some t"
  using exec_inv reachable_inv by blast

lemma exec_reachable:
  assumes "reachable start allowed exec s" "allowed x s"
  obtains t where "exec x s = Some t" "reachable start allowed exec t" "inv t"
  using assms exec_inv [OF reachable_inv] reachable.next_op by metis

end

end
