(* ===== verification/Pmap_Asid_Props.thy ===== *)
theory Pmap_Asid_Props
  imports Pmap_Asid Guarded_System
begin

text \<open>
  The invariant of the address space identifiers: on every processor, the reference count of a tag is the number of maps
  that hold it. It is stated on a view of the state that keeps the counts, the hints and the tags of the maps, and every
  operation is shown to be defined and to change the view in a way that keeps it, as long as no more than 60706 maps are
  alive at a time.
\<close>

section \<open>The view\<close>

record tag_view =
  v_ncpus :: nat
  v_refs :: "nat \<Rightarrow> u8 list"
  v_hint :: "nat \<Rightarrow> u16"
  v_lasts :: "nat \<Rightarrow> nat"
  v_tags :: "pmap_t \<rightharpoonup> u16 list"
  v_vec :: "pmap_t \<rightharpoonup> nat"
  v_kernel :: pmap_t
  v_on :: bool

definition view :: "pmap_state \<Rightarrow> tag_view" where
  "view st = \<lparr>v_ncpus = real_ncpus st,
     v_refs = (\<lambda>c. if c < real_ncpus st then cpu_asid_refcounts (cpus st ! c) else []),
     v_hint = (\<lambda>c. if c < real_ncpus st then cpu_asid_free_hint (cpus st ! c) else 0),
     v_lasts = (\<lambda>c. if c < real_ncpus st then length (cpu_asid_last_pmap_dispatched (cpus st ! c)) else 0),
     v_tags = (\<lambda>p. map_option pmap_asid_cpus (pmaps st p)),
     v_vec = (\<lambda>p. map_option (\<lambda>m. length (pmap_asid_coherency_vector m)) (pmaps st p)),
     v_kernel = kernel_pmap st, v_on = (pmap_asid_ncpus st \<noteq> 0)\<rparr>"

lemma view_fields [simp]:
  "v_ncpus (view st) = real_ncpus st" "v_kernel (view st) = kernel_pmap st" "v_on (view st) \<longleftrightarrow> pmap_asid_ncpus st \<noteq> 0"
  "v_tags (view st) p = map_option pmap_asid_cpus (pmaps st p)"
  "v_vec (view st) p = map_option (\<lambda>m. length (pmap_asid_coherency_vector m)) (pmaps st p)"
  "c < real_ncpus st \<Longrightarrow> v_refs (view st) c = cpu_asid_refcounts (cpus st ! c)"
  "c < real_ncpus st \<Longrightarrow> v_hint (view st) c = cpu_asid_free_hint (cpus st ! c)"
  "c < real_ncpus st \<Longrightarrow> v_lasts (view st) c = length (cpu_asid_last_pmap_dispatched (cpus st ! c))"
  by (simp_all add: view_def)

lemma view_quiet [simp]:
  "view (emit h st) = view st"
  "view (st\<lparr>hw_log := l\<rparr>) = view st"
  by (simp_all add: view_def emit_def cong: if_cong)

lemma view_set_cpu:
  assumes "c < real_ncpus st"
  shows "view (set_cpu c d st) = (view st)\<lparr>v_refs := (v_refs (view st))(c := cpu_asid_refcounts d),
    v_hint := (v_hint (view st))(c := cpu_asid_free_hint d),
    v_lasts := (v_lasts (view st))(c := length (cpu_asid_last_pmap_dispatched d))\<rparr>"
  using assms by (auto simp: view_def set_cpu_def fun_eq_iff nth_list_update)

lemma view_set_pmap:
  "view (set_pmap p m st) = (view st)\<lparr>v_tags := (v_tags (view st))(p \<mapsto> pmap_asid_cpus m),
    v_vec := (v_vec (view st))(p \<mapsto> length (pmap_asid_coherency_vector m))\<rparr>"
  by (auto simp: view_def set_pmap_def fun_eq_iff)

lemma view_set_cpu_same:
  assumes "c < real_ncpus st" "cpu_asid_refcounts d = cpu_asid_refcounts (cpus st ! c)"
    "cpu_asid_free_hint d = cpu_asid_free_hint (cpus st ! c)"
    "length (cpu_asid_last_pmap_dispatched d) = length (cpu_asid_last_pmap_dispatched (cpus st ! c))"
  shows "view (set_cpu c d st) = view st"
  using assms by (simp add: view_set_cpu fun_upd_idem)

lemma view_set_pmap_same:
  assumes "pmaps st p = Some m0" "pmap_asid_cpus m = pmap_asid_cpus m0"
    "length (pmap_asid_coherency_vector m) = length (pmap_asid_coherency_vector m0)"
  shows "view (set_pmap p m st) = view st"
  using assms by (simp add: view_set_pmap fun_upd_idem)

lemma set_fields [simp]:
  "cpus (set_pmap p m st) = cpus st" "pmaps (set_cpu c d st) = pmaps st" "kernel_pmap (set_pmap p m st) = kernel_pmap st"
  "kernel_pmap (set_cpu c d st) = kernel_pmap st" "pmap_asid_ncpus (set_pmap p m st) = pmap_asid_ncpus st"
  "pmap_asid_ncpus (set_cpu c d st) = pmap_asid_ncpus st" "length (cpus (set_cpu c d st)) = length (cpus st)"
  "pmaps (set_pmap p m st) = (pmaps st)(p \<mapsto> m)" "cpus (emit h st) = cpus st" "pmaps (emit h st) = pmaps st"
  "kernel_pmap (emit h st) = kernel_pmap st" "pmap_asid_ncpus (emit h st) = pmap_asid_ncpus st"
  "c < real_ncpus st \<Longrightarrow> cpus (set_cpu c d st) ! c = d"
  by (simp_all add: set_pmap_def set_cpu_def emit_def)

lemma bounds_simps [simp]:
  "i < length xs \<Longrightarrow> rd xs i = Some (xs ! i)" "i < length xs \<Longrightarrow> wr xs i v = Some (xs[i := v])"
  "b \<Longrightarrow> assert_that b = Some ()"
  by (simp_all add: rd_def wr_def assert_that_def)

section \<open>The invariant\<close>

definition v_users :: "tag_view \<Rightarrow> pmap_t set" where
  "v_users v = dom (v_tags v) - {v_kernel v}"

definition tag_of :: "tag_view \<Rightarrow> pmap_t \<Rightarrow> nat \<Rightarrow> nat" where
  "tag_of v q c = unat (the (v_tags v q) ! c)"

definition holders :: "tag_view \<Rightarrow> pmap_t set \<Rightarrow> nat \<Rightarrow> nat \<Rightarrow> pmap_t set" where
  "holders v H c a = {q \<in> H. tag_of v q c = a}"

definition counted :: "tag_view \<Rightarrow> nat \<Rightarrow> pmap_t set \<Rightarrow> bool" where
  "counted v c H \<longleftrightarrow> (\<forall>a \<in> {1..<255}. unat (v_refs v c ! a) = card (holders v H c a) \<and> unat (v_refs v c ! a) < 240)"

lemma countedD: "counted v c H \<Longrightarrow> a \<in> {1..<255} \<Longrightarrow> unat (v_refs v c ! a) = card (holders v H c a) \<and> unat (v_refs v c ! a) < 240"
  unfolding counted_def by blast

definition tags_ok :: "tag_view \<Rightarrow> u16 list \<Rightarrow> bool" where
  "tags_ok v ts \<longleftrightarrow> length ts = 48 \<and>
     (\<forall>c < 48. ts ! c = PMAP_ASID_INVALID_ASID \<or> c < v_ncpus v \<and> unat (ts ! c) \<in> {1..<255})"

definition base_ok :: "tag_view \<Rightarrow> bool" where
  "base_ok v \<longleftrightarrow> finite (dom (v_tags v)) \<and> v_ncpus v \<le> 48 \<and> v_kernel v \<in> dom (v_tags v) \<and> (v_users v \<noteq> {} \<longrightarrow> v_on v)
     \<and> (\<forall>c < v_ncpus v. length (v_refs v c) = 255 \<and> v_lasts v c = 255 \<and> unat (v_hint v c) < 255)
     \<and> (\<forall>q \<in> dom (v_tags v). v_vec v q = Some 48) \<and> (\<forall>q \<in> v_users v. tags_ok v (the (v_tags v q)))"

definition asid_inv :: "tag_view \<Rightarrow> bool" where
  "asid_inv v \<longleftrightarrow> base_ok v \<and> card (v_users v) \<le> 60706 \<and> (\<forall>c < v_ncpus v. counted v c (v_users v))"

text \<open>Some tag is held by at most 238 of the maps when the map that is to get a tag has none.\<close>

lemma holders_disjoint: "a \<noteq> b \<Longrightarrow> holders v H c a \<inter> holders v H c b = {}"
  by (auto simp: holders_def)

lemma least_count:
  assumes "counted v c H" "finite H" "card H \<le> 60706" "p \<in> H" "tag_of v p c \<notin> {1..<255}"
  shows "\<exists>a \<in> {1..<255}. unat (v_refs v c ! a) \<le> 238"
proof (rule ccontr)
  assume "\<not> ?thesis"
  then have 1: "239 \<le> card (holders v H c a)" if "a \<in> {1..<255}" for a
    using that assms(1) by (force simp: counted_def)
  have "254 * 239 \<le> (\<Sum>a \<in> {1..<255}. card (holders v H c a))"
    using sum_bounded_below [of "{1..<255}" 239 "\<lambda>a. card (holders v H c a)"] 1 by simp
  also have "\<dots> = card (\<Union>a \<in> {1..<255}. holders v H c a)"
    using assms(2) holders_disjoint by (intro card_UN_disjoint [symmetric]) (auto simp: holders_def)
  also have "\<dots> \<le> card (H - {p})" using assms(2,5) by (intro card_mono) (auto simp: holders_def)
  also have "\<dots> < card H" using assms(2,4) by (intro psubset_card_mono) auto
  finally show False using assms(3) by simp
qed

section \<open>Taking and giving back a tag\<close>

text \<open>The scan finds a tag with the least count.\<close>

lemma alloc_scan_least:
  assumes "length refs = 255" "\<forall>a \<in> {1..<255}. refs ! a < 0xF0" "1 \<le> i" "i \<le> 255"
    "\<forall>a \<in> {1..<i}. m \<le> refs ! a" "\<forall>a \<in> {1..<i}. refs ! a \<noteq> 0" "1 < i \<longrightarrow> k \<in> {1..<i} \<and> refs ! k = m" "i = 1 \<longrightarrow> m = 0xFF"
  shows "\<exists>r. alloc_scan refs i m k = Some r \<and>
    (case r of Inl a \<Rightarrow> a \<in> {1..<255} \<and> refs ! a = 0
     | Inr a \<Rightarrow> a \<in> {1..<255} \<and> (\<forall>b \<in> {1..<255}. refs ! a \<le> refs ! b \<and> refs ! b \<noteq> 0))"
  using assms
proof (induction refs i m k rule: alloc_scan.induct)
  case (1 refs i m k)
  show ?case
  proof (cases "i < 255")
    case False
    then have i: "i = 255" using 1(6) by simp
    then show ?thesis using 1(7-9) by (subst alloc_scan.simps) (simp add: asid_consts)
  next
    case True
    let ?r = "refs ! i"
    have r: "?r < 0xF0" using 1(4) True 1(5) by simp
    have rd: "rd refs i = Some ?r" using True 1(3) by simp
    have split: "{1..<i + 1} = insert i {1..<i}" using 1(5) by auto
    show ?thesis
    proof (cases "?r = 0")
      case True
      then show ?thesis using \<open>i < 255\<close> rd 1(5) by (subst alloc_scan.simps) (simp add: asid_consts)
    next
      case nz: False
      show ?thesis
      proof (cases "?r < m")
        case True
        have "alloc_scan refs i m k = alloc_scan refs (i + 1) ?r i"
          using \<open>i < 255\<close> rd r nz True by (subst alloc_scan.simps) (simp add: asid_consts)
        moreover have "\<forall>a \<in> {1..<i + 1}. ?r \<le> refs ! a" using 1(7) True unfolding split by (auto intro: order.strict_implies_order order.trans)
        moreover have "\<forall>a \<in> {1..<i + 1}. refs ! a \<noteq> 0" using 1(8) nz unfolding split by auto
        ultimately show ?thesis using 1(1) [of ?r "()"] \<open>i < 255\<close> rd r nz True 1(3-8) by (simp add: asid_consts)
      next
        case False
        have i: "1 < i" using 1(5,10) False r by (cases "i = 1") (auto simp: word_less_nat_alt)
        have "alloc_scan refs i m k = alloc_scan refs (i + 1) m k"
          using \<open>i < 255\<close> rd r nz False by (subst alloc_scan.simps) (simp add: asid_consts)
        moreover have "\<forall>a \<in> {1..<i + 1}. refs ! a \<noteq> 0" "\<forall>a \<in> {1..<i + 1}. m \<le> refs ! a"
          using 1(7,8) nz False unfolding split by auto
        ultimately show ?thesis using 1(2) [of ?r "()"] \<open>i < 255\<close> rd r nz False 1(3-9) i by (simp add: asid_consts)
      qed
    qed
  qed
qed

lemma allocate_least:
  assumes "base_ok (view st)" "c < real_ncpus st" "counted (view st) c H"
  defines "d \<equiv> cpus st ! c"
  obtains a h where "a \<in> {1..<255}" "\<forall>b \<in> {1..<255}. cpu_asid_refcounts d ! a \<le> cpu_asid_refcounts d ! b" "unat h < 255"
    "pmap_asid_allocate_asid c st = Some (of_nat a,
       set_cpu c (d\<lparr>cpu_asid_free_hint := h, cpu_asid_refcounts := (cpu_asid_refcounts d)[a := cpu_asid_refcounts d ! a + 1]\<rparr>) st)"
proof -
  let ?refs = "cpu_asid_refcounts d" and ?i = "unat (cpu_asid_free_hint d)"
  have len: "length ?refs = 255" "?i < 255" using assms by (simp_all add: base_ok_def)
  have small: "\<forall>a \<in> {1..<255}. ?refs ! a < 0xF0" using assms(2,3) by (simp only: d_def counted_def word_less_nat_alt view_fields) auto
  have same: "d\<lparr>cpu_asid_free_hint := cpu_asid_free_hint d\<rparr> = d" by simp
  have take: "take_tag c a e st = Some (of_nat a, set_cpu c (e\<lparr>cpu_asid_refcounts := (cpu_asid_refcounts e)[a := cpu_asid_refcounts e ! a + 1]\<rparr>) st)"
    if "a < length (cpu_asid_refcounts e)" for a e using that by (simp add: take_tag_def)
  show ?thesis
  proof (cases "?i \<noteq> 0 \<and> ?refs ! ?i = 0")
    case True
    then have "pmap_asid_allocate_asid c st = take_tag c ?i (d\<lparr>cpu_asid_free_hint := 0\<rparr>) st"
      using assms(2) len by (simp add: pmap_asid_allocate_asid_def d_def)
    then show ?thesis using that [of ?i 0] True len by (simp add: take)
  next
    case False
    have "\<exists>r. alloc_scan ?refs 1 0xFF 0xFFFFFFFE = Some r \<and>
      (case r of Inl a \<Rightarrow> a \<in> {1..<255} \<and> ?refs ! a = 0
       | Inr a \<Rightarrow> a \<in> {1..<255} \<and> (\<forall>b \<in> {1..<255}. ?refs ! a \<le> ?refs ! b \<and> ?refs ! b \<noteq> 0))"
      using len small by (intro alloc_scan_least) simp_all
    then obtain r where r: "alloc_scan ?refs 1 0xFF 0xFFFFFFFE = Some r"
      "case r of Inl a \<Rightarrow> a \<in> {1..<255} \<and> ?refs ! a = 0
       | Inr a \<Rightarrow> a \<in> {1..<255} \<and> (\<forall>b \<in> {1..<255}. ?refs ! a \<le> ?refs ! b \<and> ?refs ! b \<noteq> 0)" by blast
    obtain a where a: "a \<in> {1..<255}" "\<forall>b \<in> {1..<255}. ?refs ! a \<le> ?refs ! b" "r = Inl a \<or> r = Inr a"
    proof (cases r)
      case (Inl k)
      then show ?thesis using r(2) that [of k] by simp
    next
      case (Inr k)
      then show ?thesis using r(2) that [of k] by simp
    qed
    have hit: "(if ?i \<noteq> 0 then map_option (\<lambda>r. r = 0) (rd ?refs ?i) else Some False) = Some False" using False len by auto
    have "?refs ! a < 0xF0" using small a(1) by blast
    then have "pmap_asid_allocate_asid c st = take_tag c a d st"
      using a(1,3) r(1) hit assms(2) len
      by (auto simp: pmap_asid_allocate_asid_def d_def [symmetric] Let_def PMAP_ASID_MIN_ASID_def PMAP_ASID_MAX_ASID_def
          PMAP_ASID_MAX_REFCOUNT_def take simp del: neq0_conv split del: if_split)
    then show ?thesis using that [of a "cpu_asid_free_hint d"] a len by (simp add: take same)
  qed
qed

definition v_take :: "tag_view \<Rightarrow> pmap_t \<Rightarrow> nat \<Rightarrow> nat \<Rightarrow> u16 \<Rightarrow> tag_view" where
  "v_take v p c a h = v\<lparr>v_refs := (v_refs v)(c := (v_refs v c)[a := v_refs v c ! a + 1]), v_hint := (v_hint v)(c := h),
     v_tags := (v_tags v)(p \<mapsto> (the (v_tags v p))[c := of_nat a])\<rparr>"

lemma v_take_users: "p \<in> v_users v \<Longrightarrow> v_users (v_take v p c a h) = v_users v"
  by (auto simp: v_users_def v_take_def)

lemma v_take_tag:
  assumes "c < length (the (v_tags v p))" "a < 255"
  shows "tag_of (v_take v p c a h) q e = (if q = p \<and> e = c then a else tag_of v q e)"
  using assms by (auto simp: tag_of_def v_take_def unat_of_nat nth_list_update)

lemma v_take_inv:
  assumes v: "asid_inv v" and p: "p \<in> v_users v" "c < v_ncpus v" "the (v_tags v p) ! c = PMAP_ASID_INVALID_ASID"
    and a: "a \<in> {1..<255}" "\<forall>b \<in> {1..<255}. v_refs v c ! a \<le> v_refs v c ! b" "unat h < 255"
  shows "asid_inv (v_take v p c a h)"
proof -
  let ?w = "v_take v p c a h"
  have base: "base_ok v" and cnt: "counted v c (v_users v)" "card (v_users v) \<le> 60706" using v p by (simp_all add: asid_inv_def)
  then have fin: "finite (v_users v)" by (simp add: base_ok_def v_users_def)
  have len: "length (the (v_tags v p)) = 48" "c < 48" "length (v_refs v c) = 255" using base p by (auto simp: base_ok_def tags_ok_def)
  have none: "tag_of v p c \<notin> {1..<255}" using p(3) by (simp add: tag_of_def asid_consts)
  obtain b where "b \<in> {1..<255}" "unat (v_refs v c ! b) \<le> 238" using least_count [OF cnt(1) fin cnt(2) p(1) none] by blast
  then have least: "unat (v_refs v c ! a) \<le> 238" using bspec [OF a(2), of b] by (simp add: word_le_nat_alt)
  have up: "unat (v_refs v c ! a + 1) = unat (v_refs v c ! a) + 1" using least by (simp add: unat_plus_simple [THEN iffD1] unat_word_ariths)
  have tag: "tag_of ?w q e = (if q = p \<and> e = c then a else tag_of v q e)" for q e using v_take_tag [of c v p a] len a(1) by simp
  have "counted ?w c (v_users v)" unfolding counted_def
  proof
    fix b :: nat assume b: "b \<in> {1..<255}"
    have "holders ?w (v_users v) c b = (if b = a then insert p (holders v (v_users v) c b) else holders v (v_users v) c b)"
      using none p(1) b by (auto simp: holders_def tag)
    moreover have "p \<notin> holders v (v_users v) c b" "finite (holders v (v_users v) c b)" using none b fin by (auto simp: holders_def)
    moreover have "v_refs ?w c ! b = (if b = a then v_refs v c ! a + 1 else v_refs v c ! b)" using len(3) a(1) by (simp add: v_take_def)
    moreover have "unat (v_refs v c ! b) = card (holders v (v_users v) c b) \<and> unat (v_refs v c ! b) < 240"
      using countedD [OF cnt(1) b] .
    ultimately show "unat (v_refs ?w c ! b) = card (holders ?w (v_users v) c b) \<and> unat (v_refs ?w c ! b) < 240"
      using up least by (cases "b = a") auto
  qed
  moreover have "counted ?w e (v_users v)" if "e \<noteq> c" "e < v_ncpus v" for e
  proof -
    have "v_refs ?w e = v_refs v e" using that by (simp add: v_take_def)
    moreover have "holders ?w (v_users v) e = holders v (v_users v) e" using that by (simp add: holders_def tag fun_eq_iff)
    moreover have "counted v e (v_users v)" using v that by (simp add: asid_inv_def)
    ultimately show ?thesis by (simp only: counted_def)
  qed
  moreover have "base_ok ?w"
    using base p(1,2) len a(1,3) by (auto simp: base_ok_def v_take_def v_users_def tags_ok_def nth_list_update unat_of_nat)
  moreover have "v_ncpus ?w = v_ncpus v" by (simp add: v_take_def)
  ultimately show ?thesis using v v_take_users [OF p(1)] unfolding asid_inv_def by metis
qed

text \<open>Activation keeps the invariant and gives the map a tag of the processor; nothing else of the view changes.\<close>

definition activated :: "pmap_t \<Rightarrow> nat \<Rightarrow> tag_view \<Rightarrow> tag_view \<Rightarrow> bool" where
  "activated p c v w \<longleftrightarrow> (tag_of v p c \<in> {1..<255} \<and> w = v) \<or>
     (\<exists>a h. the (v_tags v p) ! c = PMAP_ASID_INVALID_ASID \<and> a \<in> {1..<255}
        \<and> (\<forall>b \<in> {1..<255}. v_refs v c ! a \<le> v_refs v c ! b) \<and> unat h < 255 \<and> w = v_take v p c a h)"

lemma activated_inv:
  assumes "asid_inv v" "p \<in> v_users v" "c < v_ncpus v" "activated p c v w"
  shows "asid_inv w"
  using assms v_take_inv unfolding activated_def by blast

lemma activated_keeps:
  assumes "activated p c v w"
  shows "v_ncpus w = v_ncpus v" "v_kernel w = v_kernel v" "p \<in> dom (v_tags v) \<Longrightarrow> p \<in> dom (v_tags w)"
  using assms by (auto simp: activated_def v_take_def)

lemma user_map:
  assumes "base_ok (view st)" "p \<in> v_users (view st)"
  obtains m where "pmaps st p = Some m" "p \<noteq> kernel_pmap st" "tags_ok (view st) (pmap_asid_cpus m)"
    "length (pmap_asid_coherency_vector m) = 48"
proof -
  have d: "p \<in> dom (v_tags (view st))" "p \<noteq> kernel_pmap st" using assms(2) by (auto simp: v_users_def)
  then obtain m where m: "pmaps st p = Some m" by (auto simp: view_def)
  have "v_vec (view st) p = Some 48" "tags_ok (view st) (the (v_tags (view st) p))" using assms d(1) unfolding base_ok_def by blast+
  then show ?thesis using that [OF m d(2)] m by simp
qed

lemma activate_tag_ok:
  assumes inv: "asid_inv (view st)" and p: "p \<in> v_users (view st)" "c < real_ncpus st"
  obtains a st' where "activate_tag p c st = Some (of_nat a, st')" "a \<in> {1..<255}" "activated p c (view st) (view st')"
    "kernel_pmap st' = kernel_pmap st" "real_ncpus st' = real_ncpus st" "pmap_asid_ncpus st' = pmap_asid_ncpus st"
proof -
  have base: "base_ok (view st)" "counted (view st) c (v_users (view st))" using inv p(2) by (simp_all add: asid_inv_def)
  obtain m where m: "pmaps st p = Some m" "tags_ok (view st) (pmap_asid_cpus m)" using user_map [OF base(1) p(1)] .
  have c: "c < 48" "length (pmap_asid_cpus m) = 48" using base(1) p(2) m(2) by (auto simp: base_ok_def tags_ok_def)
  show ?thesis
  proof (cases "pmap_asid_cpus m ! c = PMAP_ASID_INVALID_ASID")
    case False
    then have "unat (pmap_asid_cpus m ! c) \<in> {1..<255}" using m(2) c(1) by (auto simp: tags_ok_def)
    moreover have "activate_tag p c st = Some (of_nat (unat (pmap_asid_cpus m ! c)), st)"
      using False m(1) c by (simp add: activate_tag_def)
    ultimately show ?thesis using that [of "unat (pmap_asid_cpus m ! c)" st] m(1) by (simp add: activated_def tag_of_def)
  next
    case True
    let ?d = "cpus st ! c"
    obtain a h where a: "a \<in> {1..<255}" "\<forall>b \<in> {1..<255}. cpu_asid_refcounts ?d ! a \<le> cpu_asid_refcounts ?d ! b" "unat h < 255"
      and al: "pmap_asid_allocate_asid c st = Some (of_nat a,
       set_cpu c (?d\<lparr>cpu_asid_free_hint := h, cpu_asid_refcounts := (cpu_asid_refcounts ?d)[a := cpu_asid_refcounts ?d ! a + 1]\<rparr>) st)"
      using allocate_least [OF base(1) p(2) base(2)] .
    let ?s = "set_cpu c (?d\<lparr>cpu_asid_free_hint := h, cpu_asid_refcounts := (cpu_asid_refcounts ?d)[a := cpu_asid_refcounts ?d ! a + 1]\<rparr>) st"
    let ?t = "set_pmap p (m\<lparr>pmap_asid_cpus := (pmap_asid_cpus m)[c := of_nat a]\<rparr>) ?s"
    have "activate_tag p c st = Some (of_nat a, ?t)" using True m(1) c al by (simp add: activate_tag_def)
    moreover have "view ?t = v_take (view st) p c a h"
      using p(2) m(1) by (simp add: view_set_pmap view_set_cpu v_take_def fun_upd_idem)
    ultimately show ?thesis using that [of a ?t] a True m(1) p(2) by (auto simp: activated_def)
  qed
qed

section \<open>Steps that keep the view\<close>

lemma view_eq_ncpus: "view st' = view st \<Longrightarrow> real_ncpus st' = real_ncpus st"
  by (drule arg_cong [where f = v_ncpus]) simp

lemma live_map:
  assumes "base_ok (view st)" "p \<in> dom (v_tags (view st))"
  obtains m where "pmaps st p = Some m" "length (pmap_asid_coherency_vector m) = 48"
proof -
  obtain m where m: "pmaps st p = Some m" using assms(2) by (auto simp: view_def)
  have "v_vec (view st) p = Some 48" using assms unfolding base_ok_def by blast
  then show ?thesis using that m by simp
qed

lemma modify_cpu_quiet:
  assumes "c < real_ncpus st" "cpu_asid_refcounts (f (cpus st ! c)) = cpu_asid_refcounts (cpus st ! c)"
    "cpu_asid_free_hint (f (cpus st ! c)) = cpu_asid_free_hint (cpus st ! c)"
    "length (cpu_asid_last_pmap_dispatched (f (cpus st ! c))) = length (cpu_asid_last_pmap_dispatched (cpus st ! c))"
  obtains st' where "modify_cpu c f st = Some st'" "view st' = view st" "kernel_pmap st' = kernel_pmap st" "cpus st' ! c = f (cpus st ! c)"
  using assms that [of "set_cpu c (f (cpus st ! c)) st"] by (simp add: modify_cpu_def view_set_cpu_same)

lemma modify_pmap_quiet:
  assumes "base_ok (view st)" "p \<in> dom (v_tags (view st))" "\<And>m. pmap_asid_cpus (f m) = pmap_asid_cpus m"
    "\<And>m. pmap_asid_coherency_vector (f m) = pmap_asid_coherency_vector m"
  obtains st' where "modify_pmap p f st = Some st'" "view st' = view st" "kernel_pmap st' = kernel_pmap st" "cpus st' = cpus st"
proof -
  obtain m where m: "pmaps st p = Some m" using live_map [OF assms(1,2)] .
  then show ?thesis using that [of "set_pmap p (f m) st"] assms(3,4) by (simp add: modify_pmap_def view_set_pmap_same [OF m])
qed

lemma validate_quiet:
  assumes "base_ok (view st)" "p \<in> dom (v_tags (view st))" "c < 48"
  obtains st' where "pmap_asid_validate_cpu p c st = Some st'" "view st' = view st" "kernel_pmap st' = kernel_pmap st"
    "cpus st' = cpus st"
proof -
  obtain m where m: "pmaps st p = Some m" "length (pmap_asid_coherency_vector m) = 48" using live_map [OF assms(1,2)] .
  let ?m = "m\<lparr>pmap_asid_coherency_vector := (pmap_asid_coherency_vector m)[c := 0]\<rparr>"
  have "pmap_asid_validate_cpu p c st = Some (set_pmap p ?m st)"
    using m assms(3) by (simp add: pmap_asid_validate_cpu_def set_coherency_def)
  then show ?thesis using that [of "set_pmap p ?m st"] view_set_pmap_same [OF m(1), of ?m] by simp
qed

lemma pending_flush_ok:
  assumes "base_ok (view st)" "p \<in> dom (v_tags (view st))" "c < 48"
  obtains b where "pending_flush p c st = Some b"
proof -
  obtain m where m: "pmaps st p = Some m" "length (pmap_asid_coherency_vector m) = 48" using live_map [OF assms(1,2)] .
  then show ?thesis using that assms(3) by (simp add: pending_flush_def)
qed

text \<open>A tag that is in range, as a word.\<close>

lemma tag_word:
  assumes "a \<in> {1..<255}"
  shows "unat (of_nat a :: u16) = a" "(of_nat a :: u16) \<noteq> PMAP_ASID_INVALID_ASID" "(of_nat a :: u16) \<noteq> 0"
  using assms by (auto simp: asid_consts word_unat_eq_iff unat_of_nat)

lemma dispatch_tag_quiet:
  assumes b: "base_ok (view s)" and d: "p \<in> dom (v_tags (view s))" and cs: "c < real_ncpus s" and a: "a \<in> {1..<255}"
  obtains pend s' where "dispatch_tag p c (of_nat a) s = Some (pend, s')" "view s' = view s"
proof -
  have c: "c < 48" and L: "length (cpu_asid_last_pmap_dispatched (cpus s ! c)) = 255" using b cs by (auto simp: base_ok_def)
  obtain s1 where s1: "modify_cpu c (cpu_active_asid_update (\<lambda>_. of_nat a)) s = Some s1" "view s1 = view s"
    "cpus s1 ! c = (cpus s ! c)\<lparr>cpu_active_asid := of_nat a\<rparr>"
    using modify_cpu_quiet [OF cs, of "cpu_active_asid_update (\<lambda>_. of_nat a)"] by auto
  let ?l = "cpu_asid_last_pmap_dispatched (cpus s1 ! c)"
  have n1: "cpu_datap s1 c = Some (cpus s1 ! c)" "c < real_ncpus s1" using view_eq_ncpus [OF s1(2)] cs by simp_all
  obtain pend where pend: "pending_flush p c s1 = Some pend" using pending_flush_ok [of s1 p c] b d c s1(2) by auto
  obtain y where y: "pmap_asid_validate_cpu p c s1 = Some y" "view y = view s1" "cpus y = cpus s1"
    using validate_quiet [of s1 p c] b d c s1(2) by auto
  define s2 where "s2 = (if pend \<or> (?l ! a \<noteq> 0 \<and> p \<noteq> ?l ! a) then y else s1)"
  have s2: "view s2 = view s1" "cpus s2 = cpus s1" using y by (simp_all add: s2_def)
  obtain s3 where s3: "modify_cpu c (cpu_asid_last_pmap_dispatched_update (\<lambda>_. ?l[a := p])) s2 = Some s3" "view s3 = view s2"
    using modify_cpu_quiet [of c s2 "cpu_asid_last_pmap_dispatched_update (\<lambda>_. ?l[a := p])"] n1(2) s2(2) by auto
  have "dispatch_tag p c (of_nat a) s = Some (pend, s3)"
    using tag_word [OF a] a L s1 pend n1 y(1) s3(1) s2_def by (cases pend) (auto simp: dispatch_tag_def)
  then show ?thesis using that s1(2) s2(1) s3(2) by simp
qed

lemma record_tag_quiet:
  assumes b: "base_ok (view s)" and d: "p \<in> dom (v_tags (view s))" and cs: "c < real_ncpus s" and a: "a \<in> {1..<255}"
  obtains s' where "record_tag p c (of_nat a) pend s = Some s'" "view s' = view s"
proof -
  have c: "c < 48" using b cs by (auto simp: base_ok_def)
  let ?f = "pm_asid_update (\<lambda>_. ucast (of_nat a :: u16))"
  obtain s4 where s4: "modify_pmap p ?f s = Some s4" "view s4 = view s" using modify_pmap_quiet [of s p ?f] b d by auto
  obtain again where again: "pending_flush p c s4 = Some again" using pending_flush_ok [of s4 p c] b d c s4 by auto
  obtain s5 where s5: "pmap_asid_validate_cpu p c s4 = Some s5" "view s5 = view s4" using validate_quiet [of s4 p c] b d c s4 by auto
  obtain s6 where s6: "modify_pmap p ?f s5 = Some s6" "view s6 = view s5" using modify_pmap_quiet [of s5 p ?f] b d s4(2) s5(2) by auto
  define s7 where "s7 = (if \<not> pend \<and> again then s6 else s4)"
  have v7: "view s7 = view s" using s4(2) s5(2) s6(2) by (simp add: s7_def)
  obtain s8 where s8: "modify_cpu c (cpu_pmap_asid_coherentp_update (\<lambda>_. Some (p, c))) s7 = Some s8" "view s8 = view s7"
    using modify_cpu_quiet [of c s7 "cpu_pmap_asid_coherentp_update (\<lambda>_. Some (p, c))"] view_eq_ncpus [OF v7] cs by auto
  have "record_tag p c (of_nat a) pend s = Some s8"
    using tag_word [OF a] a s4(1) again s5(1) s6(1) s8(1)
    by (cases pend; cases again) (simp_all add: record_tag_def s7_def asid_consts)
  then show ?thesis using that s8(2) v7 by simp
qed

lemma activate_ok:
  assumes inv: "asid_inv (view st)" and p: "p \<in> v_users (view st)" and c: "c < real_ncpus st"
  obtains st' where "pmap_asid_activate p c st = Some st'" "activated p c (view st) (view st')"
proof -
  obtain a s where t: "activate_tag p c st = Some (of_nat a, s)" "a \<in> {1..<255}" "activated p c (view st) (view s)"
    "real_ncpus s = real_ncpus st" using activate_tag_ok [OF inv p c] .
  have "asid_inv (view s)" using activated_inv [OF inv p _ t(3)] c by simp
  then have b: "base_ok (view s)" by (simp add: asid_inv_def)
  have d: "p \<in> dom (v_tags (view s))" using t(3) p by (auto simp: activated_def v_take_def v_users_def)
  obtain pend s1 where s1: "dispatch_tag p c (of_nat a) s = Some (pend, s1)" "view s1 = view s"
    using dispatch_tag_quiet [OF b d _ t(2), of c] c t(4) by auto
  obtain s2 where s2: "record_tag p c (of_nat a) pend s1 = Some s2" "view s2 = view s1"
    using record_tag_quiet [of s1 p c a pend] b d c t(2,4) s1(2) view_eq_ncpus [OF s1(2)] by auto
  show ?thesis using that [of s2] t(1,3) s1 s2 by (simp add: pmap_asid_activate_def)
qed

section \<open>Giving back the tags of a map\<close>

text \<open>While a map is destroyed, the processors below \<open>i\<close> do not count it any more.\<close>

definition dropped :: "pmap_t \<Rightarrow> nat \<Rightarrow> tag_view \<Rightarrow> bool" where
  "dropped p i v \<longleftrightarrow> base_ok v \<and> p \<in> v_users v \<and>
     (\<forall>c < v_ncpus v. counted v c (if c < i then v_users v - {p} else v_users v))"

definition v_drop :: "tag_view \<Rightarrow> nat \<Rightarrow> nat \<Rightarrow> u16 \<Rightarrow> tag_view" where
  "v_drop v c a h = v\<lparr>v_refs := (v_refs v)(c := (v_refs v c)[a := v_refs v c ! a - 1]), v_hint := (v_hint v)(c := h)\<rparr>"

lemma v_drop_fields [simp]:
  "v_tags (v_drop v c a h) = v_tags v" "v_users (v_drop v c a h) = v_users v" "v_ncpus (v_drop v c a h) = v_ncpus v"
  "v_kernel (v_drop v c a h) = v_kernel v" "v_on (v_drop v c a h) = v_on v" "holders (v_drop v c a h) = holders v"
  by (simp_all add: v_drop_def v_users_def holders_def tag_of_def fun_eq_iff)

lemma holders_minus:
  assumes "finite H" "p \<in> H"
  shows "card (holders v (H - {p}) c b) = card (holders v H c b) - (if tag_of v p c = b then 1 else 0)"
proof -
  have "holders v (H - {p}) c b = holders v H c b - (if tag_of v p c = b then {p} else {})" by (auto simp: holders_def)
  moreover have "tag_of v p c = b \<Longrightarrow> p \<in> holders v H c b" using assms by (simp add: holders_def)
  ultimately show ?thesis using assms by (simp add: holders_def)
qed

lemma dropped_users: "dropped p i v \<Longrightarrow> finite (v_users v)"
  by (simp add: dropped_def base_ok_def v_users_def)

lemma counted_no_tag:
  assumes "counted v c H" "finite H" "p \<in> H" "tag_of v p c \<notin> {1..<255}"
  shows "counted v c (H - {p})"
  using assms by (auto simp: counted_def holders_minus)

lemma dropped_skip:
  assumes "dropped p i v" "tag_of v p i \<notin> {1..<255}"
  shows "dropped p (Suc i) v"
proof -
  have "counted v c (if c < Suc i then v_users v - {p} else v_users v)" if "c < v_ncpus v" for c
  proof (cases "c = i")
    case True
    then have "counted v c (v_users v)" using assms(1) that by (auto simp: dropped_def)
    then show ?thesis using counted_no_tag [OF _ dropped_users [OF assms(1)]] assms True by (simp add: dropped_def)
  next
    case False
    then have "c < Suc i \<longleftrightarrow> c < i" by auto
    then show ?thesis using assms(1) that by (auto simp: dropped_def)
  qed
  then show ?thesis using assms(1) by (simp add: dropped_def)
qed

lemma held_count:
  assumes "dropped p i v" "tag_of v p i \<in> {1..<255}" "i < v_ncpus v"
  shows "1 \<le> unat (v_refs v i ! tag_of v p i)" "unat (v_refs v i ! tag_of v p i) < 240"
proof -
  let ?a = "tag_of v p i"
  have c: "unat (v_refs v i ! ?a) = card (holders v (v_users v) i ?a)" "unat (v_refs v i ! ?a) < 240"
    using countedD [of v i "v_users v" ?a] assms by (auto simp: dropped_def)
  have "p \<in> holders v (v_users v) i ?a" "finite (holders v (v_users v) i ?a)"
    using assms(1) dropped_users [OF assms(1)] by (auto simp: holders_def dropped_def)
  then have "1 \<le> card (holders v (v_users v) i ?a)" by (auto simp: Suc_le_eq card_gt_0_iff)
  then show "1 \<le> unat (v_refs v i ! ?a)" "unat (v_refs v i ! ?a) < 240" using c by simp_all
qed

lemma dropped_drop:
  assumes d: "dropped p i v" and a: "tag_of v p i \<in> {1..<255}" and i: "i < v_ncpus v" and h: "unat h < 255"
  shows "dropped p (Suc i) (v_drop v i (tag_of v p i) h)"
proof -
  let ?a = "tag_of v p i" and ?w = "v_drop v i (tag_of v p i) h"
  have len: "length (v_refs v i) = 255" using d i by (simp add: dropped_def base_ok_def)
  have down: "unat (v_refs v i ! ?a - 1) = unat (v_refs v i ! ?a) - 1"
    using held_count(1) [OF d a i] by (simp add: unat_sub word_le_nat_alt)
  have "counted ?w c (if c < Suc i then v_users v - {p} else v_users v)" if c: "c < v_ncpus v" for c
  proof (cases "c = i")
    case True
    have cnt: "counted v i (v_users v)" using d i by (auto simp: dropped_def)
    have "unat (v_refs ?w i ! b) = card (holders v (v_users v - {p}) i b) \<and> unat (v_refs ?w i ! b) < 240" if "b \<in> {1..<255}" for b
    proof -
      have "v_refs ?w i ! b = (if b = ?a then v_refs v i ! ?a - 1 else v_refs v i ! b)" using len a by (simp add: v_drop_def)
      moreover have "unat (v_refs v i ! b) = card (holders v (v_users v) i b) \<and> unat (v_refs v i ! b) < 240"
        using countedD [OF cnt that] .
      ultimately show ?thesis using down holders_minus [OF dropped_users [OF d], of p v i b] d
        by (cases "b = ?a") (auto simp: dropped_def)
    qed
    then have "counted ?w i (v_users v - {p})" unfolding counted_def v_drop_fields by blast
    then show ?thesis using True by simp
  next
    case False
    then have "c < Suc i \<longleftrightarrow> c < i" "v_refs ?w c = v_refs v c" by (auto simp: v_drop_def)
    moreover have "counted v c (if c < i then v_users v - {p} else v_users v)" using d c by (simp add: dropped_def)
    ultimately show ?thesis by (simp only: counted_def v_drop_fields)
  qed
  moreover have "base_ok ?w" using d i h by (auto simp: dropped_def base_ok_def v_drop_def v_users_def tags_ok_def)
  ultimately show ?thesis using d unfolding dropped_def v_drop_fields by blast
qed

lemma deallocate_ok:
  assumes d: "dropped p i (view st)" and i: "i < 48" and t: "the (v_tags (view st) p) ! i \<noteq> PMAP_ASID_INVALID_ASID"
  obtains st' where "pmap_asid_deallocate_asid i p st = Some st'" "dropped p (Suc i) (view st')" "pmaps st' = pmaps st"
    "kernel_pmap st' = kernel_pmap st"
proof -
  have b: "base_ok (view st)" "p \<in> v_users (view st)" using d by (simp_all add: dropped_def)
  obtain m where m: "pmaps st p = Some m" "tags_ok (view st) (pmap_asid_cpus m)" using user_map [OF b] .
  let ?a = "pmap_asid_cpus m ! i" and ?d = "cpus st ! i"
  have a: "length (pmap_asid_cpus m) = 48" "i < real_ncpus st" "unat ?a \<in> {1..<255}" "?a \<noteq> PMAP_ASID_INVALID_ASID"
    using m i t by (auto simp: tags_ok_def)
  have len: "length (cpu_asid_refcounts ?d) = 255" "length (cpu_asid_last_pmap_dispatched ?d) = 255" "unat (cpu_asid_free_hint ?d) < 255"
    using b(1) a(2) by (simp_all add: base_ok_def)
  have tag: "tag_of (view st) p i = unat ?a" using m(1) by (simp add: tag_of_def)
  let ?r = "cpu_asid_refcounts ?d ! unat ?a"
  have r: "1 \<le> ?r" "?r \<le> 0xF0" using held_count [OF d] a(2,3) tag by (simp_all add: word_le_nat_alt)
  define l where "l = (if cpu_asid_last_pmap_dispatched ?d ! unat ?a = p then (cpu_asid_last_pmap_dispatched ?d)[unat ?a := PMAP_INVALID]
    else cpu_asid_last_pmap_dispatched ?d)"
  define h where "h = (if ?r = 1 then ?a else cpu_asid_free_hint ?d)"
  let ?e = "?d\<lparr>cpu_asid_last_pmap_dispatched := l, cpu_asid_refcounts := (cpu_asid_refcounts ?d)[unat ?a := ?r - 1], cpu_asid_free_hint := h\<rparr>"
  have "pmap_asid_deallocate_asid i p st = Some (set_cpu i ?e st)"
    using m(1) a i len r by (simp add: pmap_asid_deallocate_asid_def l_def h_def PMAP_ASID_MAX_ASID_def PMAP_ASID_MAX_REFCOUNT_def)
  moreover have "view (set_cpu i ?e st) = v_drop (view st) i (unat ?a) h"
    using a(2) len(2) by (simp add: view_set_cpu v_drop_def l_def fun_upd_idem)
  moreover have "dropped p (Suc i) (v_drop (view st) i (unat ?a) h)"
    using dropped_drop [OF d, of h] tag a(2,3) len(3) by (simp add: h_def)
  ultimately show ?thesis using that [of "set_cpu i ?e st"] by simp
qed

lemma destroy_loop_ok:
  assumes "dropped p i (view st)" "i \<le> 48"
  shows "\<exists>st'. destroy_loop [i..<48] p st = Some st' \<and> dropped p 48 (view st') \<and> pmaps st' = pmaps st \<and> kernel_pmap st' = kernel_pmap st"
  using assms(2,1)
proof (induction i arbitrary: st rule: inc_induct)
  case (step i)
  have b: "base_ok (view st)" "p \<in> v_users (view st)" using step.prems by (simp_all add: dropped_def)
  obtain m where m: "pmaps st p = Some m" "tags_ok (view st) (pmap_asid_cpus m)" using user_map [OF b] .
  have i: "i < length (pmap_asid_cpus m)" using m(2) step.hyps(2) by (simp add: tags_ok_def)
  have up: "[i..<48] = i # [Suc i..<48]" using step.hyps(2) by (rule upt_conv_Cons)
  show ?case
  proof (cases "pmap_asid_cpus m ! i = PMAP_ASID_INVALID_ASID")
    case True
    then have "tag_of (view st) p i \<notin> {1..<255}" using m(1) by (simp add: tag_of_def asid_consts)
    then show ?thesis using step.IH [of st] dropped_skip [OF step.prems] m(1) i True by (simp add: up)
  next
    case False
    then obtain s where "pmap_asid_deallocate_asid i p st = Some s" "dropped p (Suc i) (view s)" "pmaps s = pmaps st" "kernel_pmap s = kernel_pmap st"
      using deallocate_ok [OF step.prems step.hyps(2)] m(1) by auto
    then show ?thesis using step.IH [of s] m(1) i False by (simp add: up)
  qed
qed simp

text \<open>Freeing the map then restores the invariant.\<close>

lemma view_free: "view (st\<lparr>pmaps := (pmaps st)(p := None)\<rparr>) = (view st)\<lparr>v_tags := (v_tags (view st))(p := None), v_vec := (v_vec (view st))(p := None)\<rparr>"
  by (auto simp: view_def fun_eq_iff)

lemma dropped_free:
  assumes d: "dropped p 48 v" and c: "card (v_users v) \<le> 60706"
  defines "w \<equiv> v\<lparr>v_tags := (v_tags v)(p := None), v_vec := (v_vec v)(p := None)\<rparr>"
  shows "asid_inv w"
proof -
  have u: "v_users w = v_users v - {p}" "p \<noteq> v_kernel v" using d by (auto simp: w_def v_users_def dropped_def)
  have h: "holders w (v_users v - {p}) = holders v (v_users v - {p})" by (auto simp: w_def holders_def tag_of_def fun_eq_iff)
  have r: "v_refs w = v_refs v" "v_ncpus w = v_ncpus v" by (simp_all add: w_def)
  have "v_ncpus v \<le> 48" using d by (simp add: dropped_def base_ok_def)
  then have "\<forall>c < v_ncpus v. counted v c (v_users v - {p})" using d by (auto simp: dropped_def)
  then have "\<forall>c < v_ncpus w. counted w c (v_users w)" by (simp only: counted_def u r h)
  moreover have "base_ok w" using d u(2) by (auto simp: dropped_def base_ok_def w_def v_users_def tags_ok_def)
  moreover have "card (v_users w) \<le> 60706" using c card_Diff1_le [of "v_users v" p] by (simp only: u)
  ultimately show ?thesis by (simp add: asid_inv_def)
qed

section \<open>The operations on maps\<close>

lemma invalidate_loop_ok:
  "length v = 48 \<Longrightarrow> n \<le> 48 \<Longrightarrow> 8 dvd i \<Longrightarrow> \<exists>w. invalidate_loop n i v = Some w \<and> length w = 48"
proof (induction n i v rule: invalidate_loop.induct)
  case (1 n i v)
  show ?case
  proof (cases "i < n")
    case True
    then have "i + 8 \<le> 48" using 1(3,4) by presburger
    then show ?thesis using 1 True by (subst invalidate_loop.simps) simp
  qed (use 1 in \<open>simp add: invalidate_loop.simps\<close>)
qed

lemma invalidate_all_quiet:
  assumes "base_ok (view st)" "p \<in> dom (v_tags (view st))"
  obtains st' where "pmap_asid_invalidate_all_cpus p st = Some st'" "view st' = view st" "cpus st' = cpus st"
    "pmap_asid_ncpus st' = pmap_asid_ncpus st" "kernel_pmap st' = kernel_pmap st"
proof -
  obtain m where m: "pmaps st p = Some m" "length (pmap_asid_coherency_vector m) = 48" using live_map [OF assms] .
  have n: "real_ncpus st \<le> 48" using assms(1) by (simp add: base_ok_def)
  obtain w where w: "invalidate_loop (real_ncpus st) 0 (pmap_asid_coherency_vector m) = Some w" "length w = 48"
    using invalidate_loop_ok [OF m(2) n, of 0] by auto
  let ?m = "m\<lparr>pmap_asid_coherency_vector := w\<rparr>"
  have "pmap_asid_invalidate_all_cpus p st = Some (set_pmap p ?m st)" using m n w by (simp add: pmap_asid_invalidate_all_cpus_def)
  then show ?thesis using that [of "set_pmap p ?m st"] view_set_pmap_same [OF m(1), of ?m] m(2) w(2) by simp
qed

lemma flush_loop_ok:
  assumes "\<forall>c \<in> set cs. c < real_ncpus st" "my < real_ncpus st"
  shows "\<exists>b. flush_loop cs my ttb shared st f = Some b \<and> (f \<or> my \<in> set cs \<and> shared \<and> cpu_running (cpus st ! my) \<longrightarrow> b)"
  using assms(1)
proof (induction cs arbitrary: f)
  case (Cons c cs)
  then show ?case using assms(2) Cons.IH [of f] Cons.IH [of True] by (auto simp: Let_def)
qed simp

lemma flush_quiet:
  assumes b: "base_ok (view st)" and p: "p \<in> dom (v_tags (view st))" and c: "c < real_ncpus st"
    and k: "p = kernel_pmap st \<longrightarrow> cpu_running (cpus st ! c)"
  obtains st' where "pmap_flush_tlbs c p st = Some st'" "view st' = view st"
proof -
  obtain m where m: "pmaps st p = Some m" using live_map [OF b p] .
  have c48: "c < 48" using b c by (auto simp: base_ok_def)
  obtain s where s: "pmap_asid_invalidate_all_cpus p st = Some s" "view s = view st" "cpus s = cpus st"
    "pmap_asid_ncpus s = pmap_asid_ncpus st" "kernel_pmap s = kernel_pmap st" using invalidate_all_quiet [OF b p] .
  define s1 where "s1 = (if pmap_asid_ncpus st \<noteq> 0 then s else st)"
  have s1: "(if pmap_asid_ncpus st \<noteq> 0 then pmap_asid_invalidate_all_cpus p st else Some st) = Some s1" "view s1 = view st"
    "cpus s1 = cpus st" "kernel_pmap s1 = kernel_pmap st" using s by (simp_all add: s1_def)
  let ?sh = "pm_shared m \<or> p = kernel_pmap st"
  obtain f where f: "flush_loop [0..<real_ncpus s1] c (pm_l1_phys m) ?sh s1 False = Some f" "p = kernel_pmap st \<longrightarrow> f"
    using flush_loop_ok [of "[0..<real_ncpus s1]" s1 c "pm_l1_phys m" ?sh False] c s1(3) k by auto
  obtain y where y: "pmap_asid_validate_cpu p c s1 = Some y" "view y = view s1" "kernel_pmap y = kernel_pmap s1"
    using validate_quiet [of s1 p c] b p c48 s1(2) by auto
  define s2 where "s2 = (if f then if pmap_asid_ncpus s1 \<noteq> 0 then if ?sh then emit FlushID y else emit (FlushID_ASID (pm_asid m AND 0xFF)) y
    else emit FlushID s1 else s1)"
  have "pmap_flush_tlbs c p st = Some s2"
    unfolding pmap_flush_tlbs_def m Option.bind.simps Let_def s1(1) f(1) using f(2) y s1(4) by (auto simp: s2_def)
  then show ?thesis using that y(2) s1(2) by (simp add: s2_def)
qed

lemma switch_ok:
  assumes inv: "asid_inv (view st)" and p: "p \<in> dom (v_tags (view st))" and c: "c < real_ncpus st"
  obtains st' where "pmap_switch c p st = Some st'" "asid_inv (view st')"
proof (cases "p = kernel_pmap st \<or> user_pmap (cpus st ! c) = p")
  case True
  then show ?thesis using that [of st] inv c by (auto simp: pmap_switch_def)
next
  case False
  then have u: "p \<in> v_users (view st)" using p by (simp add: v_users_def)
  then have on: "pmap_asid_ncpus st \<noteq> 0" using inv by (auto simp: asid_inv_def base_ok_def)
  obtain s where s: "pmap_asid_activate p c st = Some s" "activated p c (view st) (view s)" using activate_ok [OF inv u c] .
  have i: "asid_inv (view s)" using activated_inv [OF inv u _ s(2)] c by simp
  have n: "c < real_ncpus s" "p \<in> dom (v_tags (view s))" using activated_keeps [OF s(2)] p c by simp_all
  obtain s1 where s1: "modify_cpu c (user_pmap_update (\<lambda>_. p)) s = Some s1" "view s1 = view s"
    using modify_cpu_quiet [OF n(1), of "user_pmap_update (\<lambda>_. p)"] by auto
  obtain m where m: "pmaps s1 p = Some m" using live_map [of s1 p] i n s1(2) by (auto simp: asid_inv_def)
  let ?s2 = "emit (ContextSwitch (pm_l1_phys m)) (emit (SetContextId (pm_asid m AND 0xFF)) s1)"
  obtain s3 where s3: "modify_cpu c (cpu_ttbr_update (\<lambda>_. pm_l1_phys m OR 0x1B)) ?s2 = Some s3" "view s3 = view ?s2"
    using modify_cpu_quiet [of c ?s2 "cpu_ttbr_update (\<lambda>_. pm_l1_phys m OR 0x1B)"] n(1) view_eq_ncpus [OF s1(2)] by auto
  have "pmap_switch c p st = Some s3" using False c on s(1) s1(1) m s3(1) by (simp add: pmap_switch_def arm_context_switch_def)
  then show ?thesis using that i s1(2) s3(2) by simp
qed

lemma destroy_ok:
  assumes inv: "asid_inv (view st)" and p: "p \<in> v_users (view st)" and c: "c < real_ncpus st"
  obtains st' where "pmap_destroy c p st = Some st'" "asid_inv (view st')"
proof -
  have b: "base_ok (view st)" using inv by (simp add: asid_inv_def)
  have on: "pmap_asid_ncpus st \<noteq> 0" using b p by (auto simp: base_ok_def)
  obtain m where m: "pmaps st p = Some m" "p \<noteq> kernel_pmap st" using user_map [OF b p] .
  let ?s = "set_pmap p (m\<lparr>pm_refcnt := pm_refcnt m - 1\<rparr>) st"
  have v: "view ?s = view st" using view_set_pmap_same [OF m(1)] by simp
  show ?thesis
  proof (cases "pm_refcnt m - 1 = 0")
    case False
    then show ?thesis using that [of ?s] m v inv by (simp add: pmap_destroy_def)
  next
    case True
    obtain s1 where s1: "pmap_flush_tlbs c p ?s = Some s1" "view s1 = view st"
      using flush_quiet [of ?s p c] b p c v m(2) by (auto simp: v_users_def)
    have "dropped p 0 (view s1)" using inv p s1(2) by (simp add: dropped_def asid_inv_def)
    then obtain s2 where s2: "pmap_destroy_asid_sync p s1 = Some s2" "dropped p 48 (view s2)" "pmaps s2 = pmaps s1" "kernel_pmap s2 = kernel_pmap s1"
      using destroy_loop_ok [of p 0 s1] by (auto simp: pmap_destroy_asid_sync_def PMAP_ASID_MAX_CPUS_def)
    have "v_users (view s2) = v_users (view s1)" using s2(3,4) by (simp add: v_users_def view_def)
    then have "card (v_users (view s2)) \<le> 60706" using inv s1(2) by (simp add: asid_inv_def)
    then have i: "asid_inv (view (s2\<lparr>pmaps := (pmaps s2)(p := None)\<rparr>))" unfolding view_free by (rule dropped_free [OF s2(2)])
    have "v_on (view s1)" using on s1(2) by simp
    then have "pmap_destroy c p st = Some (s2\<lparr>pmaps := (pmaps s2)(p := None)\<rparr>)"
      using m True s1(1) s2(1) by (simp add: pmap_destroy_def)
    then show ?thesis using that i by blast
  qed
qed

end
