(* ===== verification/Pmap_Props.thy ===== *)
theory Pmap_Props
  imports Pmap_Asid_Props
begin

text \<open>
  The physical maps as a system: its operations, the protocol of the machine-independent layer that calls them, and what
  holds of every state that can be reached. The last section shows what happens when a map is destroyed while it is the
  one that the processor switched to last.
\<close>

section \<open>Operations and their protocol\<close>

datatype pmap_op = Configure nat | Create pmap_t pmap u32 | Reference pmap_t | Switch nat pmap_t | Flush nat pmap_t
  | Destroy nat pmap_t

fun pmap_exec :: "pmap_op \<Rightarrow> pmap_state \<Rightarrow> pmap_state option" where
  "pmap_exec (Configure c) st = pmap_asid_configure c st"
| "pmap_exec (Create p contents l1) st = map_option snd (pmap_create True 0 p contents l1 st)"
| "pmap_exec (Reference p) st = pmap_reference p st"
| "pmap_exec (Switch c p) st = pmap_switch c p st"
| "pmap_exec (Flush c p) st = pmap_flush_tlbs c p st"
| "pmap_exec (Destroy c p) st = pmap_destroy c p st"

definition user_maps :: "pmap_state \<Rightarrow> pmap_t set" where
  "user_maps st = dom (pmaps st) - {kernel_pmap st}"

text \<open>
  A processor is configured before the first map is created, a map is created in memory that holds none, and every other
  operation gets a processor that exists and a map that is alive; the kernel's map is flushed by a running processor only,
  and never destroyed. No more than 60706 maps are alive at a time.
\<close>

fun pmap_allowed :: "pmap_op \<Rightarrow> pmap_state \<Rightarrow> bool" where
  "pmap_allowed (Configure c) st \<longleftrightarrow> c < real_ncpus st \<and> pmap_asid_ncpus st < 48"
| "pmap_allowed (Create p contents l1) st \<longleftrightarrow> p \<noteq> 0 \<and> pmaps st p = None \<and> pmap_asid_ncpus st \<noteq> 0
     \<and> length (pmap_asid_coherency_vector contents) = PMAP_ASID_MAX_CPUS \<and> card (user_maps st) < 60706"
| "pmap_allowed (Reference p) st \<longleftrightarrow> p \<in> dom (pmaps st)"
| "pmap_allowed (Switch c p) st \<longleftrightarrow> c < real_ncpus st \<and> p \<in> dom (pmaps st)"
| "pmap_allowed (Flush c p) st \<longleftrightarrow> c < real_ncpus st \<and> p \<in> dom (pmaps st) \<and> (p = kernel_pmap st \<longrightarrow> cpu_running (cpus st ! c))"
| "pmap_allowed (Destroy c p) st \<longleftrightarrow> c < real_ncpus st \<and> p \<in> user_maps st"

text \<open>The state after \<open>pmap_bootstrap\<close>: cleared processor data and the map of the kernel.\<close>

definition booted :: "pmap_state \<Rightarrow> bool" where
  "booted st \<longleftrightarrow> real_ncpus st \<le> PMAP_ASID_MAX_CPUS \<and> \<not> pmap_asid_disabled st \<and> pmap_asid_ncpus st = 0
     \<and> (\<forall>d \<in> set (cpus st). cpu_asid_refcounts d = replicate PMAP_ASID_MAX_ASID 0 \<and> cpu_asid_free_hint d = 0
          \<and> cpu_asid_last_pmap_dispatched d = replicate PMAP_ASID_MAX_ASID 0)
     \<and> (\<exists>m. pmaps st = [kernel_pmap st \<mapsto> pmap_asid_initialize_kernel m] \<and> length (pmap_asid_coherency_vector m) = PMAP_ASID_MAX_CPUS)"

abbreviation pmap_reachable :: "pmap_state \<Rightarrow> bool" where
  "pmap_reachable \<equiv> reachable booted pmap_allowed pmap_exec"

section \<open>Every operation keeps the invariant\<close>

lemma users_view: "v_users (view st) = user_maps st" "dom (v_tags (view st)) = dom (pmaps st)"
  by (auto simp: v_users_def user_maps_def view_def)

lemma booted_inv:
  assumes "booted st"
  shows "asid_inv (view st)"
proof -
  obtain m where m: "pmaps st = [kernel_pmap st \<mapsto> pmap_asid_initialize_kernel m]" "length (pmap_asid_coherency_vector m) = 48"
    using assms by (auto simp: booted_def PMAP_ASID_MAX_CPUS_def)
  have c: "cpu_asid_refcounts (cpus st ! c) = replicate 255 0" "cpu_asid_free_hint (cpus st ! c) = 0"
    "length (cpu_asid_last_pmap_dispatched (cpus st ! c)) = 255" if "c < real_ncpus st" for c
    using assms that by (auto simp: booted_def PMAP_ASID_MAX_ASID_def)
  have u: "v_users (view st) = {}" using m(1) by (simp add: users_view user_maps_def)
  have k: "dom (v_tags (view st)) = {kernel_pmap st}" using m(1) by (simp add: users_view)
  have "real_ncpus st \<le> 48" using assms by (simp add: booted_def PMAP_ASID_MAX_CPUS_def)
  then have "base_ok (view st)" using u k m c by (simp add: base_ok_def pmap_asid_initialize_kernel_def)
  moreover have "counted (view st) c {}" if "c < real_ncpus st" for c using c(1) [OF that] that by (auto simp: counted_def holders_def)
  ultimately show ?thesis by (simp add: asid_inv_def u)
qed

lemma configure_ok:
  assumes inv: "asid_inv (view st)" and c: "c < real_ncpus st" and n: "pmap_asid_ncpus st < 48"
  shows "\<exists>t. pmap_asid_configure c st = Some t \<and> asid_inv (view t)"
proof (cases "pmap_asid_disabled st")
  case False
  let ?s = "emit FlushID (st\<lparr>pmap_asid_ncpus := pmap_asid_ncpus st + 1\<rparr>)" and ?d = "cpus st ! c"
  let ?k = "Some (kernel_pmap st, c)"
  let ?e = "?d\<lparr>cpu_pmap_asid_coherentp := ?k, cpu_pmap_asid_coherentp_kernel := ?k, cpu_asid_refcounts := (cpu_asid_refcounts ?d)[0 := 1]\<rparr>"
  have len: "length (cpu_asid_refcounts ?d) = 255" using inv c by (simp add: asid_inv_def base_ok_def)
  have on: "pmap_asid_ncpus st + 1 \<noteq> 0" using n eq_neg_iff_add_eq_0 [of "pmap_asid_ncpus st" 1] by auto
  have "pmap_asid_configure c st = Some (set_cpu c ?e ?s)" using False c len by (simp add: pmap_asid_configure_def emit_def)
  moreover have "view (set_cpu c ?e ?s) = (view st)\<lparr>v_refs := (v_refs (view st))(c := (v_refs (view st) c)[0 := 1]), v_on := True\<rparr>"
    using c on by (auto simp: view_def set_cpu_def emit_def fun_eq_iff nth_list_update)
  moreover have "asid_inv (v\<lparr>v_refs := (v_refs v)(c := (v_refs v c)[0 := 1]), v_on := True\<rparr>)" if "asid_inv v" for v
  proof -
    let ?w = "v\<lparr>v_refs := (v_refs v)(c := (v_refs v c)[0 := 1]), v_on := True\<rparr>"
    have u: "v_users ?w = v_users v" "holders ?w = holders v" by (simp_all add: v_users_def holders_def tag_of_def fun_eq_iff)
    have "v_refs ?w e ! a = v_refs v e ! a" if "a \<in> {1..<255}" for e a using that by auto
    then have "counted ?w e (v_users v) = counted v e (v_users v)" for e by (simp only: counted_def u cong: ball_cong)
    moreover have "base_ok ?w" using that by (auto simp: asid_inv_def base_ok_def v_users_def tags_ok_def)
    ultimately show ?thesis using that by (simp add: asid_inv_def u)
  qed
  ultimately show ?thesis using inv by simp
qed (use inv in \<open>simp add: pmap_asid_configure_def\<close>)

lemma create_ok:
  assumes inv: "asid_inv (view st)" and a: "pmap_allowed (Create p contents l1) st"
  shows "\<exists>t. pmap_create True 0 p contents l1 st = Some (p, t) \<and> asid_inv (view t)"
proof -
  have new: "p \<noteq> 0" "pmaps st p = None" "pmap_asid_ncpus st \<noteq> 0" "length (pmap_asid_coherency_vector contents) = 48"
    "card (user_maps st) < 60706" using a by (simp_all add: PMAP_ASID_MAX_CPUS_def)
  define m where "m = pmap_asid_initialize (contents\<lparr>pm_refcnt := 1, pm_asid := 0, pm_shared := False\<rparr>)\<lparr>pm_l1_phys := l1\<rparr>"
  let ?v = "view st" and ?t = "set_pmap p m st"
  define w where "w = view ?t"
  have c: "pmap_create True 0 p contents l1 st = Some (p, ?t)" using new by (simp add: pmap_create_def m_def)
  have mm: "pmap_asid_cpus m = replicate 48 PMAP_ASID_INVALID_ASID" "length (pmap_asid_coherency_vector m) = 48"
    using new(4) by (simp_all add: m_def pmap_asid_initialize_def PMAP_ASID_MAX_CPUS_def)
  have w: "w = ?v\<lparr>v_tags := (v_tags ?v)(p \<mapsto> replicate 48 PMAP_ASID_INVALID_ASID), v_vec := (v_vec ?v)(p \<mapsto> 48)\<rparr>"
    by (simp add: w_def view_set_pmap mm)
  have b: "base_ok ?v" using inv by (simp add: asid_inv_def)
  have pk: "p \<noteq> kernel_pmap st" using b new(2) by (auto simp: base_ok_def)
  have u: "v_users w = insert p (v_users ?v)" "p \<notin> v_users ?v" using pk new(2) by (auto simp: w v_users_def)
  have fin: "finite (v_users ?v)" using b by (simp add: base_ok_def v_users_def)
  have tag: "tag_of w p e \<notin> {1..<255}" if "e < 48" for e using that by (simp add: w tag_of_def asid_consts)
  have "holders w (v_users w) e b = holders ?v (v_users ?v) e b" if "e < 48" "b \<in> {1..<255}" for e b
    using tag [OF that(1)] that(2) u by (auto simp: holders_def) (auto simp: w tag_of_def)
  moreover have n: "real_ncpus st \<le> 48" using b by (simp add: base_ok_def)
  ultimately have "counted w e (v_users w) = counted ?v e (v_users ?v)" if "e < real_ncpus st" for e
    using that by (simp add: counted_def) (simp add: w)
  moreover have "base_ok w" using b new(3) pk unfolding w base_ok_def v_users_def tags_ok_def by auto
  moreover have "card (v_users w) \<le> 60706" using new(5) u fin by (simp add: users_view)
  ultimately have "asid_inv w" using inv by (simp add: asid_inv_def) (simp add: w)
  then show ?thesis using c by (simp add: w_def)
qed

lemma pmap_exec_ok:
  assumes inv: "asid_inv (view st)" and a: "pmap_allowed x st"
  shows "\<exists>t. pmap_exec x st = Some t \<and> asid_inv (view t)"
proof (cases x)
  case (Configure c)
  then show ?thesis using configure_ok [OF inv] a by simp
next
  case (Create p contents l1)
  then show ?thesis using create_ok [OF inv, of p contents l1] a by auto
next
  case (Reference p)
  obtain t where t: "modify_pmap p (pm_refcnt_update (\<lambda>n. n + 1)) st = Some t" "view t = view st"
    using modify_pmap_quiet [of st p "pm_refcnt_update (\<lambda>n. n + 1)"] inv a Reference by (auto simp: asid_inv_def users_view)
  then show ?thesis using inv Reference by (simp add: pmap_reference_def)
next
  case (Switch c p)
  obtain t where "pmap_switch c p st = Some t" "asid_inv (view t)" using switch_ok [OF inv, of p c] a Switch by (auto simp: users_view)
  then show ?thesis using Switch by simp
next
  case (Flush c p)
  obtain t where "pmap_flush_tlbs c p st = Some t" "view t = view st"
    using flush_quiet [of st p c] inv a Flush by (auto simp: users_view asid_inv_def)
  then show ?thesis using inv Flush by simp
next
  case (Destroy c p)
  obtain t where "pmap_destroy c p st = Some t" "asid_inv (view t)" using destroy_ok [OF inv, of p c] a Destroy by (auto simp: users_view)
  then show ?thesis using Destroy by simp
qed

interpretation maps: guarded_system booted pmap_allowed pmap_exec "\<lambda>st. asid_inv (view st)"
  by unfold_locales (simp_all add: booted_inv pmap_exec_ok)

section \<open>What holds of the tags\<close>

text \<open>A system with one processor and one user map, for the examples.\<close>

definition ex_cpu :: cpu_data where
  "ex_cpu = \<lparr>cpu_running = True, user_pmap = 0, cpu_active_asid = 0, cpu_pmap_asid_coherentp = None,
     cpu_pmap_asid_coherentp_kernel = None, cpu_asid_free_hint = 0, cpu_asid_refcounts = replicate PMAP_ASID_MAX_ASID 0,
     cpu_asid_last_pmap_dispatched = replicate PMAP_ASID_MAX_ASID 0, cpu_ttbr = 0\<rparr>"

definition ex_map :: pmap where
  "ex_map = \<lparr>pm_l1_phys = 0x80000000, pm_refcnt = 1, pm_shared = False, pm_asid = 0, pmap_asid_cpus = [],
     pmap_asid_coherency_vector = replicate 48 0\<rparr>"

definition ex_boot :: pmap_state where
  "ex_boot = \<lparr>cpus = [ex_cpu], pmaps = [0x80001000 \<mapsto> pmap_asid_initialize_kernel ex_map], kernel_pmap = 0x80001000,
     pmap_asid_disabled = False, pmap_asid_ncpus = 0, hw_log = []\<rparr>"

lemma ex_booted: "booted ex_boot"
proof -
  have "length (pmap_asid_coherency_vector ex_map) = PMAP_ASID_MAX_CPUS" by (simp add: ex_map_def PMAP_ASID_MAX_CPUS_def)
  then have "\<exists>m. pmaps ex_boot = [kernel_pmap ex_boot \<mapsto> pmap_asid_initialize_kernel m]
      \<and> length (pmap_asid_coherency_vector m) = PMAP_ASID_MAX_CPUS"
    by (intro exI [of _ ex_map]) (simp add: ex_boot_def)
  then show ?thesis unfolding booted_def by (simp add: ex_boot_def ex_cpu_def PMAP_ASID_MAX_CPUS_def)
qed

lemma ex_configured:
  obtains s where "pmap_reachable s" "pmaps s = pmaps ex_boot" "kernel_pmap s = 0x80001000" "real_ncpus s = 1" "pmap_asid_ncpus s = 1"
    "cpu_asid_refcounts (cpus s ! 0) = (replicate 255 0)[0 := 1]"
proof -
  let ?k = "Some (0x80001000, 0) :: (pmap_t \<times> nat) option"
  let ?e = "ex_cpu\<lparr>cpu_pmap_asid_coherentp := ?k, cpu_pmap_asid_coherentp_kernel := ?k, cpu_asid_refcounts := (replicate 255 0)[0 := 1]\<rparr>"
  define s where "s = set_cpu 0 ?e (emit FlushID (ex_boot\<lparr>pmap_asid_ncpus := 1\<rparr>))"
  have "pmap_exec (Configure 0) ex_boot = Some s"
    by (simp add: s_def pmap_asid_configure_def ex_boot_def ex_cpu_def emit_def rd_def wr_def PMAP_ASID_MAX_ASID_def)
  moreover have "pmap_allowed (Configure 0) ex_boot" by (simp add: ex_boot_def)
  ultimately have "pmap_reachable s" using reachable.begin_at [where start = booted, OF ex_booted] reachable.next_op by metis
  moreover have "pmaps s = pmaps ex_boot" "kernel_pmap s = 0x80001000" "real_ncpus s = 1" "pmap_asid_ncpus s = 1"
    "cpu_asid_refcounts (cpus s ! 0) = (replicate 255 0)[0 := 1]" by (simp_all add: s_def emit_def set_cpu_def ex_boot_def)
  ultimately show ?thesis by (rule that)
qed

definition ex_user :: "u32 \<Rightarrow> pmap" where
  "ex_user l1 = (pmap_asid_initialize ex_map)\<lparr>pm_l1_phys := l1\<rparr>"

lemma ex_add_map:
  assumes "pmap_reachable s" "pmap_asid_ncpus s = 1" "p \<noteq> 0" "pmaps s p = None" "card (user_maps s) < 60706"
  shows "pmap_reachable (set_pmap p (ex_user l1) s)"
proof -
  have "pmap_allowed (Create p ex_map l1) s" using assms(2-5) by (simp add: ex_map_def PMAP_ASID_MAX_CPUS_def)
  moreover have "pmap_exec (Create p ex_map l1) s = Some (set_pmap p (ex_user l1) s)"
    using assms(2,3) by (simp add: pmap_create_def ex_user_def pmap_asid_initialize_def ex_map_def)
  ultimately show ?thesis using assms(1) reachable.next_op by metis
qed

lemma two_user_maps:
  obtains st where "pmap_reachable st" "pmaps st 0x80002000 = Some (ex_user 0x80004000)" "pmaps st 0x80003000 = Some (ex_user 0x80008000)"
    "kernel_pmap st = 0x80001000" "real_ncpus st = 1" "cpu_asid_refcounts (cpus st ! 0) = (replicate 255 0)[0 := 1]"
proof -
  obtain s where s: "pmap_reachable s" "pmaps s = pmaps ex_boot" "kernel_pmap s = 0x80001000" "real_ncpus s = 1" "pmap_asid_ncpus s = 1"
    "cpu_asid_refcounts (cpus s ! 0) = (replicate 255 0)[0 := 1]" by (rule ex_configured)
  let ?s = "set_pmap 0x80002000 (ex_user 0x80004000) s"
  have "pmap_reachable ?s" using s by (intro ex_add_map) (simp_all add: ex_boot_def user_maps_def)
  then have "pmap_reachable (set_pmap 0x80003000 (ex_user 0x80008000) ?s)"
    using s by (intro ex_add_map) (simp_all add: ex_boot_def user_maps_def)
  then show ?thesis using s(3,4,6) that [of "set_pmap 0x80003000 (ex_user 0x80008000) ?s"] by simp
qed



text \<open>
  C15: In every state that the system reaches and on every processor, the reference count of a tag is the number of user
  maps that hold the tag, and it is below the limit of 240.
\<close>

theorem asid_refcounts_exact:
  assumes "pmap_reachable st" "c < real_ncpus st" "a \<in> {1..<255}"
  shows "unat (cpu_asid_refcounts (cpus st ! c) ! a) = card {p \<in> user_maps st. unat (pmap_asid_cpus (the (pmaps st p)) ! c) = a}
    \<and> unat (cpu_asid_refcounts (cpus st ! c) ! a) < 240"
proof -
  have "asid_inv (view st)" using assms(1) by (rule maps.reachable_inv)
  then have "counted (view st) c (user_maps st)" using assms(2) by (simp add: asid_inv_def users_view)
  note k = countedD [OF this assms(3), unfolded view_fields(6) [OF assms(2)]]
  have h: "holders (view st) (user_maps st) c a = {p \<in> user_maps st. unat (pmap_asid_cpus (the (pmaps st p)) ! c) = a}"
    by (auto simp: holders_def tag_of_def user_maps_def)
  show ?thesis using k unfolding h .
qed

theorem asid_refcounts_exact_witness:
  "\<exists>st. pmap_reachable st \<and> user_maps st \<noteq> {} \<and>
     unat (cpu_asid_refcounts (cpus st ! 0) ! 1) = card {p \<in> user_maps st. unat (pmap_asid_cpus (the (pmaps st p)) ! 0) = 1}"
proof -
  obtain st where st: "pmap_reachable st" "pmaps st 0x80002000 = Some (ex_user 0x80004000)" "kernel_pmap st = 0x80001000" "real_ncpus st = 1"
    by (rule two_user_maps)
  then have "0x80002000 \<in> user_maps st" by (auto simp: user_maps_def)
  then show ?thesis using asid_refcounts_exact [OF st(1), of 0 1] st(1,4) by auto
qed

text \<open>
  C39: As long as a processor has a tag that no map holds, a map that is activated there for the first time gets a tag of
  its own: no other user map has the same one on that processor.
\<close>

theorem asid_not_shared:
  assumes r: "pmap_reachable st" and p: "p \<in> user_maps st" "q \<in> user_maps st" "q \<noteq> p" and c: "c < real_ncpus st"
    and new: "asid_for_pmap_cpu_tuple st p c = Some PMAP_ASID_INVALID_ASID"
    and free: "a \<in> {1..<255}" "cpu_asid_refcounts (cpus st ! c) ! a = 0"
    and act: "pmap_asid_activate p c st = Some st'"
  shows "\<exists>x. asid_for_pmap_cpu_tuple st' p c = Some x \<and> asid_for_pmap_cpu_tuple st' q c \<noteq> Some x"
proof -
  let ?v = "view st" and ?w = "view st'"
  have inv: "asid_inv ?v" using r by (rule maps.reachable_inv)
  have pv: "p \<in> v_users ?v" "q \<in> v_users ?v" using p by (simp_all add: users_view)
  have av: "activated p c ?v ?w" using activate_ok [OF inv pv(1) c] act by auto
  obtain m where m: "pmaps st p = Some m" "pmap_asid_cpus m ! c = PMAP_ASID_INVALID_ASID"
    using new by (auto simp: asid_for_pmap_cpu_tuple_def rd_def bind_eq_Some_conv split: if_splits)
  then have "tag_of ?v p c \<notin> {1..<255}" by (simp add: tag_of_def asid_consts)
  then obtain b h where b: "b \<in> {1..<255}" "\<forall>e \<in> {1..<255}. v_refs ?v c ! b \<le> v_refs ?v c ! e" "?w = v_take ?v p c b h"
    using av by (auto simp: activated_def)
  have "v_refs ?v c ! b \<le> 0" using b(2) free c by (metis view_fields(6))
  then have z: "card (holders ?v (v_users ?v) c b) = 0" using countedD [of ?v c "v_users ?v" b] inv c b(1) by (simp add: asid_inv_def)
  have "finite (v_users ?v)" and len: "length (the (v_tags ?v p)) = 48" "length (the (v_tags ?v q)) = 48" "c < 48"
    using inv pv c by (auto simp: asid_inv_def base_ok_def v_users_def tags_ok_def)
  then have "tag_of ?v q c \<noteq> b" using z pv(2) by (auto simp: holders_def)
  then have t: "tag_of ?w p c = b" "tag_of ?w q c \<noteq> b" using v_take_tag [of c ?v p b h] len b(1) p(3) by (simp_all add: b(3))
  have l: "length (the (v_tags ?w p)) = 48" "v_tags ?w p \<noteq> None" "v_tags ?w q \<noteq> None" "length (the (v_tags ?w q)) = 48"
    using len p(3) pv by (auto simp: b(3) v_take_def v_users_def)
  then obtain x y where "pmaps st' p = Some x" "pmaps st' q = Some y" by auto
  then show ?thesis using t l len(3) by (auto simp: asid_for_pmap_cpu_tuple_def tag_of_def)
qed

theorem asid_not_shared_witness:
  "\<exists>st st' x. pmap_asid_activate 0x80002000 0 st = Some st' \<and> asid_for_pmap_cpu_tuple st' 0x80002000 0 = Some x
     \<and> asid_for_pmap_cpu_tuple st' 0x80003000 0 \<noteq> Some x"
proof -
  obtain st where st: "pmap_reachable st" "pmaps st 0x80002000 = Some (ex_user 0x80004000)" "pmaps st 0x80003000 = Some (ex_user 0x80008000)"
    "kernel_pmap st = 0x80001000" "real_ncpus st = 1" "cpu_asid_refcounts (cpus st ! 0) = (replicate 255 0)[0 := 1]"
    by (rule two_user_maps)
  have u: "0x80002000 \<in> user_maps st" "0x80003000 \<in> user_maps st" using st(2-4) by (auto simp: user_maps_def)
  obtain st' where a: "pmap_asid_activate 0x80002000 0 st = Some st'"
    using activate_ok [OF maps.reachable_inv [OF st(1)], where p = "0x80002000" and c = 0] u(1) st(5) by (auto simp: users_view)
  have "asid_for_pmap_cpu_tuple st 0x80002000 0 = Some PMAP_ASID_INVALID_ASID"
    using st(2) by (simp add: asid_for_pmap_cpu_tuple_def ex_user_def pmap_asid_initialize_def PMAP_ASID_MAX_CPUS_def)
  from asid_not_shared [OF st(1) u _ _ this _ _ a, of 1] show ?thesis using a st(5,6) by auto
qed

section \<open>A map that is destroyed while it is in use\<close>

text \<open>What an operation leaves of a processor: the map it switched to last and its translation table register.\<close>

definition user_side :: "pmap_state \<Rightarrow> (pmap_t \<times> u32) list \<times> pmap_t" where
  "user_side st = (map (\<lambda>d. (user_pmap d, cpu_ttbr d)) (cpus st), kernel_pmap st)"

lemma user_side_set_cpu:
  "c < real_ncpus st \<Longrightarrow> user_pmap d = user_pmap (cpus st ! c) \<Longrightarrow> cpu_ttbr d = cpu_ttbr (cpus st ! c) \<Longrightarrow> user_side (set_cpu c d st) = user_side st"
  by (auto simp: user_side_def set_cpu_def map_update list_update_same_conv)

lemma user_side_simps [simp]:
  "user_side (set_pmap p m st) = user_side st" "user_side (emit h st) = user_side st" "user_side (st\<lparr>pmaps := f\<rparr>) = user_side st"
  by (simp_all add: user_side_def set_pmap_def emit_def)

lemma deallocate_user_side: "pmap_asid_deallocate_asid i p st = Some t \<Longrightarrow> user_side t = user_side st"
  by (auto simp: pmap_asid_deallocate_asid_def bind_eq_Some_conv rd_def split: if_splits intro!: user_side_set_cpu)

lemma destroy_loop_user_side: "destroy_loop is p st = Some t \<Longrightarrow> user_side t = user_side st"
  by (induction "is" arbitrary: st) (auto simp: bind_eq_Some_conv split: if_splits dest!: deallocate_user_side)

lemma validate_user_side: "set_coherency p i b st = Some t \<Longrightarrow> user_side t = user_side st"
  by (auto simp: set_coherency_def bind_eq_Some_conv)

lemma invalidate_all_user_side: "pmap_asid_invalidate_all_cpus p st = Some t \<Longrightarrow> user_side t = user_side st"
  by (auto simp: pmap_asid_invalidate_all_cpus_def bind_eq_Some_conv)

lemma flush_user_side: "pmap_flush_tlbs c p st = Some t \<Longrightarrow> user_side t = user_side st"
  by (auto simp: pmap_flush_tlbs_def pmap_asid_validate_cpu_def bind_eq_Some_conv Let_def split: if_splits
      dest!: validate_user_side invalidate_all_user_side)

lemma destroy_user_side:
  assumes "pmap_destroy c p st = Some t" "pmaps st p = Some m" "pm_refcnt m = 1"
  shows "user_side t = user_side st" "pmaps t p = None"
  using assms by (auto simp: pmap_destroy_def pmap_destroy_asid_sync_def bind_eq_Some_conv Let_def split: if_splits
      dest!: flush_user_side destroy_loop_user_side)

text \<open>
  When the last reference to a map goes while a processor still has it as the map it switched to last, and the zone
  hands out its memory for the next map, switching to the new map does nothing: the processor goes on with the page table
  of the destroyed map.
\<close>

theorem pmap_switch_misses_recycled_map:
  assumes "c < real_ncpus st" "user_pmap (cpus st ! c) = p" "pmaps st p = Some m" "pm_refcnt m = 1" "p \<noteq> 0"
    and d: "pmap_destroy c p st = Some st1" and n: "pmap_create True 0 p contents l1 st1 = Some (p, st2)"
  shows "pmap_switch c p st2 = Some st2 \<and> cpu_ttbr (cpus st2 ! c) = cpu_ttbr (cpus st ! c)
    \<and> map_option pm_l1_phys (pmaps st2 p) = Some l1"
proof -
  have "user_side st2 = user_side st1" using n assms(5) by (auto simp: pmap_create_def Let_def split: if_splits)
  then have u: "user_side st2 = user_side st" using destroy_user_side(1) [OF d assms(3,4)] by simp
  then have len: "real_ncpus st2 = real_ncpus st" by (auto simp: user_side_def dest: map_eq_imp_length_eq)
  have "map (\<lambda>d. (user_pmap d, cpu_ttbr d)) (cpus st2) ! c = map (\<lambda>d. (user_pmap d, cpu_ttbr d)) (cpus st) ! c"
    using u by (simp add: user_side_def)
  then have "user_pmap (cpus st2 ! c) = p" "cpu_ttbr (cpus st2 ! c) = cpu_ttbr (cpus st ! c)" using assms(1,2) len by simp_all
  moreover have "map_option pm_l1_phys (pmaps st2 p) = Some l1" using n assms(5) by (auto simp: pmap_create_def Let_def split: if_splits)
  ultimately show ?thesis using assms(1) len by (simp add: pmap_switch_def)
qed

lemma ex_in_use:
  assumes "st = \<lparr>cpus = [ex_cpu\<lparr>user_pmap := 0x80002000, cpu_ttbr := 0x8000401B\<rparr>],
     pmaps = [0x80001000 \<mapsto> pmap_asid_initialize_kernel ex_map, 0x80002000 \<mapsto> ex_user 0x80004000],
     kernel_pmap = 0x80001000, pmap_asid_disabled = False, pmap_asid_ncpus = 1, hw_log = []\<rparr>"
  shows "asid_inv (view st)" "0x80002000 \<in> v_users (view st)"
proof -
  have u: "v_users (view st) = {0x80002000}" by (auto simp: users_view user_maps_def assms)
  have t: "the (v_tags (view st) 0x80002000) = replicate 48 PMAP_ASID_INVALID_ASID"
    by (simp add: assms ex_user_def pmap_asid_initialize_def PMAP_ASID_MAX_CPUS_def)
  have "base_ok (view st)" unfolding base_ok_def u
    by (auto simp: t tags_ok_def users_view assms ex_cpu_def ex_map_def ex_user_def pmap_asid_initialize_def
        pmap_asid_initialize_kernel_def PMAP_ASID_MAX_ASID_def PMAP_ASID_MAX_CPUS_def split: if_splits)
  moreover have "counted (view st) 0 {0x80002000}" unfolding counted_def holders_def tag_of_def
    by (auto simp: t view_def assms ex_cpu_def PMAP_ASID_MAX_ASID_def PMAP_ASID_INVALID_ASID_def ex_user_def pmap_asid_initialize_def
        PMAP_ASID_MAX_CPUS_def)
  moreover have "v_ncpus (view st) = 1" by (simp add: assms)
  ultimately show "asid_inv (view st)" by (simp add: asid_inv_def u)
  show "0x80002000 \<in> v_users (view st)" by (simp add: u)
qed

theorem pmap_switch_misses_recycled_map_witness:
  "\<exists>st2. pmap_switch 0 0x80002000 st2 = Some st2 \<and> cpu_ttbr (cpus st2 ! 0) = 0x8000401B
     \<and> map_option pm_l1_phys (pmaps st2 0x80002000) = Some 0x80008000"
proof -
  let ?st = "\<lparr>cpus = [ex_cpu\<lparr>user_pmap := 0x80002000, cpu_ttbr := 0x8000401B\<rparr>],
     pmaps = [0x80001000 \<mapsto> pmap_asid_initialize_kernel ex_map, 0x80002000 \<mapsto> ex_user 0x80004000],
     kernel_pmap = 0x80001000, pmap_asid_disabled = False, pmap_asid_ncpus = 1, hw_log = []\<rparr>"
  obtain st1 where d: "pmap_destroy 0 0x80002000 ?st = Some st1"
    using destroy_ok [OF ex_in_use [OF refl], where c = 0] by auto
  obtain st2 where n: "pmap_create True 0 0x80002000 ex_map 0x80008000 st1 = Some (0x80002000, st2)" by (auto simp: pmap_create_def Let_def)
  from pmap_switch_misses_recycled_map [OF _ _ _ _ _ d n] show ?thesis
    by (auto simp: ex_user_def ex_map_def pmap_asid_initialize_def)
qed

end
