(* ===== verification/Pv_Lists.thy ===== *)
theory Pv_Lists
  imports Prelude
begin

text \<open>
  The reverse map of the ARM port (\<open>osfmk/arm/pmap.c\<close>): for every physical page the list of its mappings. The first
  mapping of a page is its rooted entry, an element of a table with one entry for each page; further mappings are hashed
  entries, which are queued behind the rooted one (\<open>osfmk/kern/queue.h\<close>) and linked into the chain of a hash bucket.
  A pointer names an object: a rooted entry by its index in the table, a hashed entry by its address in the zone; the
  code casts between the two, which have their first fields in common. \<open>None\<close> stands for a panic, a failed assertion, an
  access through a null pointer or to no object, and for loops that do not end. Locks do nothing here.
\<close>

section \<open>Entries\<close>

datatype pvref = Null | Root nat | Hashed u32

record pv_entry =
  qnext :: pvref
  qprev :: pvref
  pv_va :: u32
  pv_pmap :: u32
  pv_flags :: u32
  pv_ppn :: u32
  nexth :: pvref

datatype pv_incident = ROOT_PRESENT | ROOT_ABSENT
datatype pv_reason = PTE_VALID | PTE_SUPERVISOR | PTE_BITFLIP | PV_BITFLIP
datatype pv_action = ACTION_IGNORE | ACTION_ASSERT | ACTION_RETRY | ACTION_RETRY_RELOCK

record corruption_record =
  cr_incident :: pv_incident
  cr_reason :: pv_reason
  cr_action :: pv_action
  cr_pmap :: u32
  cr_vaddr :: u32
  cr_pte :: u32
  cr_ppn :: u32
  cr_pvpmap :: u32
  cr_pvva :: u32
  cr_abstime :: u64

text \<open>
  The tables and the free lists of hashed entries, the words of the page tables, the counters of the maps, and what the
  code keeps about damaged tables. The clock, the boot arguments,
  the allocation of further entries from the zone and the growth of a page table are given.
\<close>

record pv_state =
  entries :: "pvref \<rightharpoonup> pv_entry"
  pv_hash_table :: "pvref list"
  npvhash :: u32
  gPhysBase :: u32
  gVirtBase :: u32
  avail_start :: u32
  avail_end :: u32
  pv_kernel_pmap :: u32
  pmap_initialized :: bool
  pv_hashed_free_list :: pvref
  pv_hashed_free_count :: int
  pv_hashed_kern_free_list :: pvref
  pv_hashed_kern_free_count :: int
  mappingrecurse :: bool
  adjust_calls :: nat
  pv_hashlist_walks :: nat
  pv_hashlist_cnts :: nat
  pv_hashlist_max :: nat
  pm_l1_virt :: "u32 \<Rightarrow> u32"
  pt_words :: "u32 \<Rightarrow> u32"
  resident_count :: "u32 \<Rightarrow> int"
  wired_count :: "u32 \<Rightarrow> int"
  corruption_incidents :: nat
  corruption_records :: "corruption_record list"
  corruption_last_abstime :: u64
  corruption_interval :: u64
  corruption_timeout :: bool
  clock_reads :: nat

record pv_env =
  abstime :: "nat \<Rightarrow> u64"
  corruption_deassert :: bool
  debug_boot_arg :: bool
  zalloc_pv :: "pv_state \<Rightarrow> pvref \<times> pv_entry"
  pmap_expand :: "u32 \<Rightarrow> u32 \<Rightarrow> pv_state \<Rightarrow> pv_state option"

definition upd_entry :: "pvref \<Rightarrow> (pv_entry \<Rightarrow> pv_entry) \<Rightarrow> pv_state \<Rightarrow> pv_state option" where
  "upd_entry r f st = do { e \<leftarrow> entries st r; Some (st\<lparr>entries := (entries st)(r \<mapsto> f e)\<rparr>) }"

definition pv_assert :: "bool \<Rightarrow> unit option" where
  "pv_assert b = (if b then Some () else None)"

definition pa_index :: "u32 \<Rightarrow> u32" where
  "pa_index pa = drop_bit 12 pa"

abbreviation first_page :: "pv_state \<Rightarrow> u32" where "first_page st \<equiv> pa_index (gPhysBase st)"

definition pai_to_pvh :: "pv_state \<Rightarrow> u32 \<Rightarrow> pvref" where
  "pai_to_pvh st pai = Root (unat (pai - first_page st))"

definition pmap_valid_page :: "pv_state \<Rightarrow> u32 \<Rightarrow> bool" where
  "pmap_valid_page st p \<longleftrightarrow> push_bit 12 p > avail_start st \<and> push_bit 12 p < avail_end st"

section \<open>Queues\<close>

definition insque :: "pvref \<Rightarrow> pvref \<Rightarrow> pv_state \<Rightarrow> pv_state option" where
  "insque entry pred st =
     do { p \<leftarrow> entries st pred;
          st \<leftarrow> upd_entry entry (\<lambda>e. e\<lparr>qnext := qnext p, qprev := pred\<rparr>) st;
          p \<leftarrow> entries st pred;
          st \<leftarrow> upd_entry (qnext p) (\<lambda>e. e\<lparr>qprev := entry\<rparr>) st;
          upd_entry pred (\<lambda>e. e\<lparr>qnext := entry\<rparr>) st }"

definition remque :: "pvref \<Rightarrow> pv_state \<Rightarrow> pv_state option" where
  "remque elt st =
     do { e \<leftarrow> entries st elt;
          st \<leftarrow> upd_entry (qnext e) (\<lambda>x. x\<lparr>qprev := qprev e\<rparr>) st;
          e \<leftarrow> entries st elt;
          st \<leftarrow> upd_entry (qprev e) (\<lambda>x. x\<lparr>qnext := qnext e\<rparr>) st;
          upd_entry elt (\<lambda>x. x\<lparr>qnext := Null, qprev := Null\<rparr>) st }"

definition queue_init :: "pvref \<Rightarrow> pv_state \<Rightarrow> pv_state option" where
  "queue_init q = upd_entry q (\<lambda>e. e\<lparr>qnext := q, qprev := q\<rparr>)"

section \<open>The hash chains\<close>

definition pvhashidx :: "pv_state \<Rightarrow> u32 \<Rightarrow> u32 \<Rightarrow> nat" where
  "pvhashidx st p v = unat ((p XOR drop_bit 12 v) AND npvhash st)"

text \<open>A place that holds the pointer to a hashed entry: the anchor of a bucket or the link in an entry.\<close>

datatype pv_slot = Anchor nat | Link pvref

fun get_slot :: "pv_slot \<Rightarrow> pv_state \<Rightarrow> pvref option" where
  "get_slot (Anchor i) st = (if i < length (pv_hash_table st) then Some (pv_hash_table st ! i) else None)"
| "get_slot (Link r) st = map_option nexth (entries st r)"

fun set_slot :: "pv_slot \<Rightarrow> pvref \<Rightarrow> pv_state \<Rightarrow> pv_state option" where
  "set_slot (Anchor i) x st =
     (if i < length (pv_hash_table st) then Some (st\<lparr>pv_hash_table := (pv_hash_table st)[i := x]\<rparr>) else None)"
| "set_slot (Link r) x st = upd_entry r (\<lambda>e. e\<lparr>nexth := x\<rparr>) st"

definition pv_hash_add :: "pvref \<Rightarrow> pvref \<Rightarrow> pv_state \<Rightarrow> pv_state option" where
  "pv_hash_add pvh_e pv_h st =
     do { e \<leftarrow> entries st pvh_e;
          let idx = pvhashidx st (pv_pmap e) (pv_va e);
          st \<leftarrow> insque pvh_e pv_h st;
          h \<leftarrow> get_slot (Anchor idx) st;
          st \<leftarrow> upd_entry pvh_e (\<lambda>e. e\<lparr>nexth := h\<rparr>) st;
          set_slot (Anchor idx) pvh_e st }"

partial_function (option) unlink_walk :: "pvref \<Rightarrow> pv_slot \<Rightarrow> pvref \<Rightarrow> pv_state \<Rightarrow> pv_slot option" where
  "unlink_walk pvh pprevh curh st =
     (if curh = Null then None
      else if pvh = curh then Some pprevh
      else do { e \<leftarrow> entries st curh; unlink_walk pvh (Link curh) (nexth e) st })"

definition pmap_pvh_unlink :: "pvref \<Rightarrow> pv_state \<Rightarrow> pv_state option" where
  "pmap_pvh_unlink pvh st =
     do { e \<leftarrow> entries st pvh;
          let anchor = Anchor (pvhashidx st (pv_pmap e) (pv_va e));
          curh \<leftarrow> get_slot anchor st;
          pprevh \<leftarrow> unlink_walk pvh anchor curh st;
          set_slot pprevh (nexth e) st }"

definition pv_hash_remove :: "pvref \<Rightarrow> pv_state \<Rightarrow> pv_state option" where
  "pv_hash_remove pvh_e st = do { st \<leftarrow> remque pvh_e st; pmap_pvh_unlink pvh_e st }"

section \<open>Damaged tables\<close>

definition popcnt1 :: "u32 \<Rightarrow> bool" where
  "popcnt1 distance \<longleftrightarrow> distance AND (distance - 1) = 0"

definition mach_absolute_time :: "pv_env \<Rightarrow> pv_state \<Rightarrow> u64 \<times> pv_state" where
  "mach_absolute_time env st = (abstime env (clock_reads st), st\<lparr>clock_reads := clock_reads st + 1\<rparr>)"

text \<open>The search for an entry of the page that differs in one bit.\<close>

partial_function (option) bitflip_walk :: "u32 \<Rightarrow> u32 \<Rightarrow> pvref \<Rightarrow> pvref \<Rightarrow> pv_state \<Rightarrow> pvref option" where
  "bitflip_walk p vaddr pv_h pv_e st =
     do { e \<leftarrow> entries st pv_e;
          (if (popcnt1 (pv_pmap e XOR p) \<and> pv_va e = vaddr) \<or> (pv_pmap e = p \<and> popcnt1 (pv_va e XOR vaddr)) then Some pv_e
           else if qnext e \<noteq> Null \<and> qnext e \<noteq> pv_h then bitflip_walk p vaddr pv_h (qnext e) st
           else Some Null) }"

text \<open>The search for a page whose number differs in one bit and that has the mapping as its root.\<close>

fun frame_walk :: "nat list \<Rightarrow> u32 \<Rightarrow> u32 \<Rightarrow> u32 \<Rightarrow> pv_state \<Rightarrow> u32 option option" where
  "frame_walk [] cpn p vaddr st = Some None"
| "frame_walk (bitdex # rest) cpn p vaddr st =
     (let npn = cpn XOR push_bit bitdex 1 in
      do { e \<leftarrow> entries st (pai_to_pvh st npn);
           (if pv_va e = vaddr \<and> pv_pmap e = p then Some (Some npn) else frame_walk rest cpn p vaddr st) })"

text \<open>The record that is logged; the call that prints the log later is left out.\<close>

definition pmap_pagetable_corruption_log :: "pv_env \<Rightarrow> corruption_record \<Rightarrow> pv_state \<Rightarrow> pv_state option" where
  "pmap_pagetable_corruption_log env r st =
     (let i = corruption_incidents st mod 8; (t, st) = mach_absolute_time env (st\<lparr>corruption_incidents := corruption_incidents st + 1\<rparr>) in
      if i < length (corruption_records st)
      then Some (st\<lparr>corruption_records := (corruption_records st)[i := r\<lparr>cr_abstime := t\<rparr>]\<rparr>) else None)"

text \<open>The first part: what is to be done, for which page, with the entry corrected when one bit of it was wrong.\<close>

definition classify_action :: "u32 \<Rightarrow> u32 \<Rightarrow> u32 \<Rightarrow> u32 \<Rightarrow> pv_state \<Rightarrow> (pv_action \<times> pv_reason \<times> u32 \<times> pv_state) option" where
  "classify_action p vaddr ppn cpte st =
     (let pv_h = pai_to_pvh st ppn; cpn = pa_index (cpte AND 0xFFFFF000) in
      do { found \<leftarrow> bitflip_walk p vaddr pv_h pv_h st;
           (if found \<noteq> Null then
              do { st \<leftarrow> upd_entry found (\<lambda>e. e\<lparr>pv_pmap := p, pv_va := vaddr\<rparr>) st;
                   Some (ACTION_RETRY, PV_BITFLIP, ppn, st) }
            else
              do { frame \<leftarrow> frame_walk [0..<32] cpn p vaddr st;
                   (case frame of
                      Some npn \<Rightarrow> Some (ACTION_RETRY_RELOCK, PTE_BITFLIP, npn, st)
                    | None \<Rightarrow>
                        if p = pv_kernel_pmap st then Some (ACTION_ASSERT, PTE_VALID, ppn, st)
                        else if cpte AND 0x20 = 0 then Some (ACTION_IGNORE, PTE_SUPERVISOR, ppn, st)
                        else Some (ACTION_ASSERT, PTE_VALID, ppn, st)) }) })"

definition pmap_classify_pagetable_corruption ::
  "pv_env \<Rightarrow> u32 \<Rightarrow> u32 \<Rightarrow> u32 \<Rightarrow> u32 option \<Rightarrow> pv_incident \<Rightarrow> pv_state \<Rightarrow> (pv_action \<times> u32 \<times> pv_state) option" where
  "pmap_classify_pagetable_corruption env p vaddr ppn pte incident st =
     do { cpte \<leftarrow> pte;
          h \<leftarrow> entries st (pai_to_pvh st ppn);
          (action, reason, ppn, st) \<leftarrow> classify_action p vaddr ppn cpte st;
          let action = (if debug_boot_arg env \<and> \<not> corruption_deassert env then ACTION_ASSERT else action);
          let (now, st) = mach_absolute_time env st;
          let (action, st) =
            (if now - corruption_last_abstime st < corruption_interval st then (ACTION_ASSERT, st\<lparr>corruption_timeout := True\<rparr>)
             else let (now, st) = mach_absolute_time env st in (action, st\<lparr>corruption_last_abstime := now\<rparr>));
          st \<leftarrow> pmap_pagetable_corruption_log env
            \<lparr>cr_incident = incident, cr_reason = reason, cr_action = action, cr_pmap = p, cr_vaddr = vaddr, cr_pte = cpte,
             cr_ppn = ppn, cr_pvpmap = pv_pmap h, cr_pvva = pv_va h, cr_abstime = 0\<rparr> st;
          Some (action, ppn, st) }"

section \<open>Removing a mapping\<close>

text \<open>The mapping is the rooted one: the next entry, if there is one, takes its place and is given back instead.\<close>

definition remove_rooted :: "pvref \<Rightarrow> pv_state \<Rightarrow> (pvref \<times> pv_state) option" where
  "remove_rooted pv_h st =
     do { h \<leftarrow> entries st pv_h;
          let pvh_e = qnext h;
          (if pv_h \<noteq> pvh_e then
             do { e \<leftarrow> entries st pvh_e;
                  st \<leftarrow> remque pvh_e st;
                  first \<leftarrow> get_slot (Anchor (pvhashidx st (pv_pmap e) (pv_va e))) st;
                  pv_assert (first \<noteq> Null);
                  st \<leftarrow> pmap_pvh_unlink pvh_e st;
                  st \<leftarrow> upd_entry pv_h (\<lambda>h. h\<lparr>pv_pmap := pv_pmap e, pv_va := pv_va e\<rparr>) st;
                  Some (pvh_e, st) }
           else do { st \<leftarrow> upd_entry pv_h (\<lambda>h. h\<lparr>pv_pmap := 0\<rparr>) st; Some (Null, st) }) }"

text \<open>The walk along a hash chain to the entry of a mapping, with the number of entries looked at.\<close>

partial_function (option) find_walk ::
  "u32 \<Rightarrow> u32 \<Rightarrow> u32 \<Rightarrow> pv_slot \<Rightarrow> pvref \<Rightarrow> nat \<Rightarrow> pv_state \<Rightarrow> (pv_slot \<times> pvref \<times> nat) option" where
  "find_walk p vaddr ppn pprevh pvh_e cnt st =
     (if pvh_e = Null then Some (pprevh, Null, cnt)
      else
        do { e \<leftarrow> entries st pvh_e;
             (if pv_pmap e = p \<and> pv_va e = vaddr \<and> pv_ppn e = ppn then Some (pprevh, pvh_e, cnt + 1)
              else find_walk p vaddr ppn (Link pvh_e) (nexth e) (cnt + 1) st) })"

definition find_hashed :: "u32 \<Rightarrow> u32 \<Rightarrow> u32 \<Rightarrow> pv_state \<Rightarrow> (pv_slot \<times> pvref \<times> nat) option" where
  "find_hashed p vaddr ppn st =
     (let anchor = Anchor (pvhashidx st p vaddr) in
      do { first \<leftarrow> get_slot anchor st;
           pv_assert (first \<noteq> Null);
           find_walk p vaddr ppn anchor first 0 st })"

definition remove_hashed :: "pv_slot \<Rightarrow> pvref \<Rightarrow> nat \<Rightarrow> pv_state \<Rightarrow> pv_state option" where
  "remove_hashed pprevh pvh_e cnt st =
     (let st = st\<lparr>pv_hashlist_cnts := pv_hashlist_cnts st + cnt,
                 pv_hashlist_max := (if pv_hashlist_max st < cnt then cnt else pv_hashlist_max st)\<rparr> in
      do { e \<leftarrow> entries st pvh_e;
           st \<leftarrow> set_slot pprevh (nexth e) st;
           remque pvh_e st })"

text \<open>
  The result is the entry to be freed, or none, and the page number, which the repair of a damaged table may have changed.
  After a repair the removal is tried again.
\<close>

partial_function (option) pmap_pv_remove ::
  "pv_env \<Rightarrow> u32 \<Rightarrow> u32 \<Rightarrow> u32 \<Rightarrow> u32 option \<Rightarrow> pv_state \<Rightarrow> (pvref \<times> u32 \<times> pv_state) option" where
  "pmap_pv_remove env p vaddr ppn pte st =
     Option.bind (entries st (pai_to_pvh st ppn)) (\<lambda>h.
       if pv_pmap h = 0 then
         Option.bind (pmap_classify_pagetable_corruption env p vaddr ppn pte ROOT_ABSENT st) (\<lambda>r.
           if fst r = ACTION_IGNORE then Some (Null, fst (snd r), snd (snd r))
           else if fst r = ACTION_ASSERT then None
           else pmap_pv_remove env p vaddr (fst (snd r)) pte (snd (snd r)))
       else if pv_va h = vaddr \<and> pv_pmap h = p then
         Option.bind (remove_rooted (pai_to_pvh st ppn) st) (\<lambda>r. Some (fst r, ppn, snd r))
       else
         Option.bind (find_hashed p vaddr ppn st) (\<lambda>f.
           let st1 = st\<lparr>pv_hashlist_walks := pv_hashlist_walks st + 1\<rparr> in
           if fst (snd f) = Null then
             Option.bind (pmap_classify_pagetable_corruption env p vaddr ppn pte ROOT_PRESENT st1) (\<lambda>r.
               if fst r = ACTION_ASSERT then None
               else if fst r = ACTION_IGNORE then Some (Null, fst (snd r), snd (snd r))
               else pmap_pv_remove env p vaddr (fst (snd r)) pte (snd (snd r)))
           else
             Option.bind (remove_hashed (fst f) (fst (snd f)) (snd (snd f)) st1) (\<lambda>st2. Some (fst (snd f), ppn, st2))))"

section \<open>Free lists and page attributes\<close>

definition PV_HASHED_LOW_WATER_MARK :: int where "PV_HASHED_LOW_WATER_MARK = 5000"
definition PV_HASHED_KERN_LOW_WATER_MARK :: int where "PV_HASHED_KERN_LOW_WATER_MARK = 100"

text \<open>When a list runs low, the thread that refills it is called, unless it was called already.\<close>

definition call_adjust :: "bool \<Rightarrow> pv_state \<Rightarrow> pv_state" where
  "call_adjust low st = (if low \<and> \<not> mappingrecurse st then st\<lparr>mappingrecurse := True, adjust_calls := adjust_calls st + 1\<rparr> else st)"

definition PV_HASHED_ALLOC :: "pv_state \<Rightarrow> (pvref \<times> pv_state) option" where
  "PV_HASHED_ALLOC st =
     (let r = pv_hashed_free_list st in
      if r = Null then Some (Null, st)
      else
        do { e \<leftarrow> entries st r;
             let n = pv_hashed_free_count st - 1;
             Some (r, call_adjust (n < PV_HASHED_LOW_WATER_MARK) (st\<lparr>pv_hashed_free_list := qnext e, pv_hashed_free_count := n\<rparr>)) })"

definition PV_HASHED_KERN_ALLOC :: "pv_state \<Rightarrow> (pvref \<times> pv_state) option" where
  "PV_HASHED_KERN_ALLOC st =
     (let r = pv_hashed_kern_free_list st in
      if r = Null then Some (Null, st)
      else
        do { e \<leftarrow> entries st r;
             let n = pv_hashed_kern_free_count st - 1;
             Some (r, call_adjust (n < PV_HASHED_KERN_LOW_WATER_MARK)
               (st\<lparr>pv_hashed_kern_free_list := qnext e, pv_hashed_kern_free_count := n\<rparr>)) })"

definition PV_HASHED_FREE_LIST :: "pvref \<Rightarrow> pvref \<Rightarrow> int \<Rightarrow> pv_state \<Rightarrow> pv_state option" where
  "PV_HASHED_FREE_LIST pvh_eh pvh_et pv_cnt st =
     do { st \<leftarrow> upd_entry pvh_et (\<lambda>e. e\<lparr>qnext := pv_hashed_free_list st\<rparr>) st;
          Some (st\<lparr>pv_hashed_free_list := pvh_eh, pv_hashed_free_count := pv_hashed_free_count st + pv_cnt\<rparr>) }"

definition PV_HASHED_KERN_FREE_LIST :: "pvref \<Rightarrow> pvref \<Rightarrow> int \<Rightarrow> pv_state \<Rightarrow> pv_state option" where
  "PV_HASHED_KERN_FREE_LIST pvh_eh pvh_et pv_cnt st =
     do { st \<leftarrow> upd_entry pvh_et (\<lambda>e. e\<lparr>qnext := pv_hashed_kern_free_list st\<rparr>) st;
          Some (st\<lparr>pv_hashed_kern_free_list := pvh_eh, pv_hashed_kern_free_count := pv_hashed_kern_free_count st + pv_cnt\<rparr>) }"

definition TYPE_WIRED :: u32 where "TYPE_WIRED = 1"
definition TYPE_REFERENCED :: u32 where "TYPE_REFERENCED = 2"
definition TYPE_MODIFIED :: u32 where "TYPE_MODIFIED = 4"
definition TYPE_NOCACHE :: u32 where "TYPE_NOCACHE = 0x10"

definition vm_page_fictitious_addr :: u32 where "vm_page_fictitious_addr = 0xFFFFFFFF"

definition phys_attribute_clear :: "u32 \<Rightarrow> u32 \<Rightarrow> pv_state \<Rightarrow> pv_state option" where
  "phys_attribute_clear pn bits st =
     do { pv_assert (pn \<noteq> vm_page_fictitious_addr);
          upd_entry (pai_to_pvh st pn) (\<lambda>e. e\<lparr>pv_flags := pv_flags e AND NOT bits\<rparr>) st }"

definition phys_attribute_test :: "u32 \<Rightarrow> u32 \<Rightarrow> pv_state \<Rightarrow> u32 option" where
  "phys_attribute_test pn bits st =
     do { pv_assert (pn \<noteq> vm_page_fictitious_addr);
          h \<leftarrow> entries st (pai_to_pvh st pn);
          Some (if pv_flags h AND bits = bits then bits else pv_flags h AND bits) }"

definition phys_attribute_set :: "u32 \<Rightarrow> u32 \<Rightarrow> pv_state \<Rightarrow> pv_state option" where
  "phys_attribute_set pn bits st =
     do { pv_assert (pn \<noteq> vm_page_fictitious_addr);
          upd_entry (pai_to_pvh st pn) (\<lambda>e. e\<lparr>pv_flags := pv_flags e OR bits\<rparr>) st }"

definition pmap_get_refmod :: "u32 \<Rightarrow> pv_state \<Rightarrow> u32 option" where
  "pmap_get_refmod pn st =
     do { refmod \<leftarrow> phys_attribute_test pn (TYPE_MODIFIED OR TYPE_REFERENCED) st;
          Some ((if refmod AND TYPE_MODIFIED \<noteq> 0 then 1 else 0) OR (if refmod AND TYPE_REFERENCED \<noteq> 0 then 2 else 0)) }"

definition pmap_verify_free :: "u32 \<Rightarrow> pv_state \<Rightarrow> bool option" where
  "pmap_verify_free phys st =
     do { pv_assert (phys \<noteq> vm_page_fictitious_addr);
          (if \<not> pmap_initialized st then Some True
           else if \<not> pmap_valid_page st phys then Some False
           else do { h \<leftarrow> entries st (pai_to_pvh st phys); Some (pv_pmap h = 0) }) }"

end
