(* ===== verification/Pv_Chain.thy ===== *)
theory Pv_Chain
  imports Pv_Lists
begin

text \<open>
  The chains of the hash table of the reverse map: each bucket links the hashed entries of its index, and walking a chain
  finds the place that points to an entry, through which it is taken out.
\<close>

type_synonym pv_heap = "pvref \<rightharpoonup> pv_entry"

abbreviation ent :: "pv_heap \<Rightarrow> pvref \<Rightarrow> pv_entry" where "ent h r \<equiv> the (h r)"

primrec chain :: "pv_heap \<Rightarrow> pvref \<Rightarrow> pvref list \<Rightarrow> bool" where
  "chain h a [] \<longleftrightarrow> a = Null"
| "chain h a (x # xs) \<longleftrightarrow> a = x \<and> x \<noteq> Null \<and> x \<in> dom h \<and> chain h (nexth (ent h x)) xs"

text \<open>The place that points behind the entries of a list, of which the anchor points to the first.\<close>

definition slot_after :: "pv_slot \<Rightarrow> pvref list \<Rightarrow> pv_slot" where
  "slot_after s xs = (if xs = [] then s else Link (last xs))"

lemma slot_after_simps [simp]: "slot_after s [] = s" "slot_after s (x # xs) = slot_after (Link x) xs"
  by (simp_all add: slot_after_def)

lemma chain_cong:
  assumes "\<And>x. x \<in> set xs \<Longrightarrow> (x \<in> dom h') = (x \<in> dom h) \<and> nexth (ent h' x) = nexth (ent h x)"
  shows "chain h' a xs = chain h a xs"
  using assms by (induction xs arbitrary: a) auto

lemma unlink_walk_chain:
  assumes "chain (entries st) a (xs @ e # ys)" "e \<notin> set xs"
  shows "unlink_walk e s a st = Some (slot_after s xs)"
  using assms
proof (induction xs arbitrary: a s)
  case Nil
  then show ?case by (subst unlink_walk.simps) auto
next
  case (Cons x xs)
  then have "a = x" "x \<noteq> Null" "x \<noteq> e" "entries st x = Some (ent (entries st) x)" by auto
  then show ?case using Cons by (subst unlink_walk.simps) auto
qed

text \<open>An entry that the search looks for.\<close>

definition entry_is :: "u32 \<Rightarrow> u32 \<Rightarrow> u32 \<Rightarrow> pv_entry \<Rightarrow> bool" where
  "entry_is p v n e \<longleftrightarrow> pv_pmap e = p \<and> pv_va e = v \<and> pv_ppn e = n"

lemma find_walk_chain:
  assumes "chain (entries st) a (xs @ e # ys)" "entry_is p v n (ent (entries st) e)"
    "\<And>x. x \<in> set xs \<Longrightarrow> \<not> entry_is p v n (ent (entries st) x)"
  shows "find_walk p v n s a k st = Some (slot_after s xs, e, k + length xs + 1)"
  using assms
proof (induction xs arbitrary: a s k)
  case Nil
  then have "entries st e = Some (ent (entries st) e)" by auto
  then show ?case using Nil by (subst find_walk.simps) (auto simp: entry_is_def)
next
  case (Cons x xs)
  then obtain y where y: "a = x" "x \<noteq> Null" "entries st x = Some y" by auto
  moreover have "\<not> entry_is p v n y" using Cons.prems(3)[of x] y by simp
  moreover have "find_walk p v n (Link x) (nexth y) (k + 1) st = Some (slot_after (Link x) xs, e, k + 1 + length xs + 1)"
    using Cons.prems y by (intro Cons.IH) auto
  ultimately show ?case by (subst find_walk.simps) (auto simp: entry_is_def)
qed

section \<open>The hash table\<close>

definition hidx :: "u32 \<Rightarrow> pv_entry \<Rightarrow> nat" where
  "hidx n e = unat ((pv_pmap e XOR drop_bit 12 (pv_va e)) AND n)"

lemma pvhashidx_entry: "pvhashidx st (pv_pmap e) (pv_va e) = hidx (npvhash st) e"
  by (simp add: pvhashidx_def hidx_def)

text \<open>The buckets hold the entries of a set, each that of its index.\<close>

definition buckets_ok :: "u32 \<Rightarrow> pv_heap \<Rightarrow> pvref list \<Rightarrow> pvref set \<Rightarrow> (nat \<Rightarrow> pvref list) \<Rightarrow> bool" where
  "buckets_ok n h tbl E B \<longleftrightarrow>
     unat n < length tbl \<and>
     (\<forall>b < length tbl. chain h (tbl ! b) (B b) \<and> distinct (B b) \<and> set (B b) = {e \<in> E. hidx n (ent h e) = b})"

lemma hidx_le: "hidx n e \<le> unat n"
  unfolding hidx_def by (meson word_and_le1 word_le_nat_alt)

lemma bucketsD:
  assumes "buckets_ok n h tbl E B" "e \<in> E"
  shows "hidx n (ent h e) < length tbl" "e \<in> set (B (hidx n (ent h e)))"
    "chain h (tbl ! hidx n (ent h e)) (B (hidx n (ent h e)))" "distinct (B (hidx n (ent h e)))"
proof -
  show l: "hidx n (ent h e) < length tbl" using assms(1) hidx_le[of n "ent h e"] by (auto simp: buckets_ok_def)
  then show "e \<in> set (B (hidx n (ent h e)))" "chain h (tbl ! hidx n (ent h e)) (B (hidx n (ent h e)))"
    "distinct (B (hidx n (ent h e)))" using assms by (auto simp: buckets_ok_def)
qed

text \<open>Two heaps in which the entries of a set have the same mappings and the same links of chains.\<close>

definition same_hash :: "pvref set \<Rightarrow> pv_heap \<Rightarrow> pv_heap \<Rightarrow> bool" where
  "same_hash E h h' \<longleftrightarrow> (\<forall>x \<in> E. (x \<in> dom h') = (x \<in> dom h) \<and> nexth (ent h' x) = nexth (ent h x) \<and>
     pv_pmap (ent h' x) = pv_pmap (ent h x) \<and> pv_va (ent h' x) = pv_va (ent h x))"

lemma buckets_cong:
  assumes "buckets_ok n h tbl E B" "same_hash E h h'"
  shows "buckets_ok n h' tbl E B"
proof -
  have i: "hidx n (ent h' e) = hidx n (ent h e)" if "e \<in> E" for e using assms(2) that by (auto simp: same_hash_def hidx_def)
  have "chain h' (tbl ! b) (B b)" if b: "b < length tbl" for b
  proof -
    have "set (B b) \<subseteq> E" "chain h (tbl ! b) (B b)" using assms(1) b by (auto simp: buckets_ok_def)
    moreover have "chain h' (tbl ! b) (B b) = chain h (tbl ! b) (B b)"
      using assms(2) \<open>set (B b) \<subseteq> E\<close> by (intro chain_cong) (auto simp: same_hash_def)
    ultimately show ?thesis by simp
  qed
  moreover have "{e \<in> E. hidx n (ent h' e) = b} = {e \<in> E. hidx n (ent h e) = b}" for b using i by auto
  ultimately show ?thesis using assms(1) by (simp add: buckets_ok_def)
qed

lemma chain_nonempty: "chain h a xs \<Longrightarrow> x \<in> set xs \<Longrightarrow> a \<noteq> Null"
  by (cases xs) auto

lemma chain_in_dom: "chain h a xs \<Longrightarrow> set xs \<subseteq> dom h"
  by (induction xs arbitrary: a) auto

text \<open>The new entry goes in front of its chain.\<close>

lemma buckets_add:
  assumes "buckets_ok n h tbl E B" "e \<notin> E" "e \<in> dom h" "e \<noteq> Null" and b: "b = hidx n (ent h e)"
  shows "buckets_ok n (h(e \<mapsto> (ent h e)\<lparr>nexth := tbl ! b\<rparr>)) (tbl[b := e]) (insert e E) (B(b := e # B b))"
proof -
  let ?h = "h(e \<mapsto> (ent h e)\<lparr>nexth := tbl ! b\<rparr>)"
  have "same_hash E h ?h" using assms(2) by (auto simp: same_hash_def)
  then have c: "buckets_ok n ?h tbl E B" using assms(1) buckets_cong by blast
  have bl: "b < length tbl" using assms(1) hidx_le[of n "ent h e"] b by (auto simp: buckets_ok_def)
  have i: "hidx n (ent ?h e) = b" by (simp add: b hidx_def)
  have old: "{x \<in> insert e E. hidx n (ent ?h x) = c} = (if c = b then insert e {x \<in> E. hidx n (ent ?h x) = c} else {x \<in> E. hidx n (ent ?h x) = c})" for c
    using i by auto
  show ?thesis unfolding buckets_ok_def old using c bl assms(2-4) by (auto simp: buckets_ok_def nth_list_update)
qed

lemma set_slot_after:
  assumes "chain (entries st) (pv_hash_table st ! b) (xs @ e # ys)" "distinct (xs @ e # ys)" "b < length (pv_hash_table st)"
  obtains h' tbl' where "set_slot (slot_after (Anchor b) xs) y st = Some (st\<lparr>entries := h', pv_hash_table := tbl'\<rparr>)"
    "length tbl' = length (pv_hash_table st)" "\<forall>c. c \<noteq> b \<longrightarrow> tbl' ! c = pv_hash_table st ! c"
    "dom h' = dom (entries st)" "\<forall>x. h' x = entries st x \<or> (x \<in> set xs \<and> h' x = Some ((ent (entries st) x)\<lparr>nexth := nexth (ent h' x)\<rparr>))"
    "y = nexth (ent (entries st) e) \<Longrightarrow> chain h' (tbl' ! b) (xs @ ys)"
proof (cases xs rule: rev_cases)
  case Nil
  then show ?thesis
    using assms that[where h' = "entries st" and tbl' = "(pv_hash_table st)[b := y]"] by (auto simp: slot_after_def)
next
  case (snoc us c)
  let ?h = "entries st"
  define h' where "h' = ?h(c \<mapsto> (ent ?h c)\<lparr>nexth := y\<rparr>)"
  have d: "c \<in> dom ?h" using chain_in_dom[OF assms(1)] snoc by auto
  have h': "dom h' = dom ?h" "nexth (ent h' c) = y" "\<And>x. x \<noteq> c \<Longrightarrow> h' x = ?h x" using d by (auto simp: h'_def)
  have ch: "chain h' a (us @ c # ys)" if "chain ?h a (us @ c # e # ys)" "c \<notin> set us" "y = nexth (ent ?h e)" "c \<notin> set ys" for a
    using that
  proof (induction us arbitrary: a)
    case Nil
    have "h' x = ?h x" if "x \<in> set ys" for x using that Nil(4) h'(3) by metis
    then have "chain h' y ys = chain ?h y ys" using h'(1) by (intro chain_cong) auto
    then show ?case using Nil h' by simp
  qed (use h' in auto)
  have st': "set_slot (slot_after (Anchor b) xs) y st = Some (st\<lparr>entries := h', pv_hash_table := pv_hash_table st\<rparr>)"
    using d snoc by (auto simp: slot_after_def upd_entry_def h'_def)
  have upd: "h' x = ?h x \<or> x \<in> set xs \<and> h' x = Some ((ent ?h x)\<lparr>nexth := nexth (ent h' x)\<rparr>)" for x
    using snoc by (simp add: h'_def)
  have "chain h' (pv_hash_table st ! b) (xs @ ys)" if "y = nexth (ent ?h e)"
    using ch[of "pv_hash_table st ! b"] that assms(1,2) snoc by simp
  then show ?thesis using that[OF st'] h'(1) upd by simp
qed

text \<open>Two heaps that differ in nothing but the links of chains.\<close>

definition but_nexth :: "pv_entry \<Rightarrow> pv_entry" where
  "but_nexth e = e\<lparr>nexth := Null\<rparr>"

definition same_rest :: "pv_heap \<Rightarrow> pv_heap \<Rightarrow> bool" where
  "same_rest h h' \<longleftrightarrow> dom h' = dom h \<and> (\<forall>x. but_nexth (ent h' x) = but_nexth (ent h x))"

lemma but_nexth_fields:
  assumes "but_nexth e = but_nexth f"
  shows "qnext e = qnext f" "qprev e = qprev f" "pv_va e = pv_va f" "pv_pmap e = pv_pmap f" "pv_flags e = pv_flags f" "pv_ppn e = pv_ppn f"
  using assms by (cases e; cases f; simp add: but_nexth_def)+

lemma buckets_remove:
  assumes "buckets_ok n (entries st) (pv_hash_table st) E B" "e \<in> E" "b = hidx n (ent (entries st) e)" and B: "B b = xs @ e # ys"
  obtains h' tbl' where
    "set_slot (slot_after (Anchor b) xs) (nexth (ent (entries st) e)) st = Some (st\<lparr>entries := h', pv_hash_table := tbl'\<rparr>)"
    "buckets_ok n h' tbl' (E - {e}) (B(b := xs @ ys))" "same_rest (entries st) h'"
proof -
  let ?h = "entries st" and ?t = "pv_hash_table st"
  have bl: "b < length ?t" and ch: "chain ?h (?t ! b) (xs @ e # ys)" and di: "distinct (xs @ e # ys)"
    using bucketsD[OF assms(1,2)] assms(3) B by auto
  obtain h' tbl' where st': "set_slot (slot_after (Anchor b) xs) (nexth (ent ?h e)) st = Some (st\<lparr>entries := h', pv_hash_table := tbl'\<rparr>)"
    and len: "length tbl' = length ?t" and tb: "\<forall>c. c \<noteq> b \<longrightarrow> tbl' ! c = ?t ! c" and dm: "dom h' = dom ?h"
    and up: "\<forall>x. h' x = ?h x \<or> (x \<in> set xs \<and> h' x = Some ((ent ?h x)\<lparr>nexth := nexth (ent h' x)\<rparr>))"
    and cb: "chain h' (tbl' ! b) (xs @ ys)"
    using set_slot_after[OF ch di bl, of "nexth (ent ?h e)"] by metis
  have rest: "but_nexth (ent h' x) = but_nexth (ent ?h x)" for x
    using up[rule_format, of x] by (auto simp: but_nexth_def) (metis option.sel pv_entry.update_convs(7) pv_entry.surjective)
  have i: "hidx n (ent h' x) = hidx n (ent ?h x)" for x using but_nexth_fields[OF rest[of x]] by (simp add: hidx_def)
  have "chain h' (tbl' ! c) (B c)" if c: "c < length ?t" "c \<noteq> b" for c
  proof -
    have "set xs \<subseteq> {x \<in> E. hidx n (ent ?h x) = b}" "set (B c) = {x \<in> E. hidx n (ent ?h x) = c}"
      using assms(1) c bl B unfolding buckets_ok_def by (metis Un_upper1 set_append)+
    then have "set (B c) \<inter> set xs = {}" using c(2) by auto
    then have "chain h' (tbl' ! c) (B c) = chain ?h (tbl' ! c) (B c)" using up dm by (intro chain_cong) (metis disjoint_iff)
    then show ?thesis using assms(1) c tb by (simp add: buckets_ok_def)
  qed
  moreover have "set ((B(b := xs @ ys)) c) = {x \<in> E - {e}. hidx n (ent ?h x) = c}" if c: "c < length ?t" for c
  proof -
    have "set (B c) = {x \<in> E. hidx n (ent ?h x) = c}" using assms(1) c by (simp add: buckets_ok_def)
    moreover have "set (xs @ ys) = set (B b) - {e}" using di B by auto
    ultimately show ?thesis using assms(3) by auto
  qed
  moreover have "distinct ((B(b := xs @ ys)) c)" if "c < length ?t" for c
    using that di assms(1) by (auto simp: buckets_ok_def)
  ultimately have "buckets_ok n h' tbl' (E - {e}) (B(b := xs @ ys))"
    using assms(1) cb len unfolding buckets_ok_def i by simp
  then show ?thesis using that st' rest dm by (auto simp: same_rest_def)
qed

lemma get_slot_anchor: "b < length (pv_hash_table st) \<Longrightarrow> get_slot (Anchor b) st = Some (pv_hash_table st ! b)"
  by simp

lemma pmap_pvh_unlink_ok:
  assumes "buckets_ok (npvhash st) (entries st) (pv_hash_table st) E B" "e \<in> E"
  obtains h' tbl' B' where "pmap_pvh_unlink e st = Some (st\<lparr>entries := h', pv_hash_table := tbl'\<rparr>)"
    "buckets_ok (npvhash st) h' tbl' (E - {e}) B'" "same_rest (entries st) h'"
proof -
  let ?h = "entries st"
  define b where "b = hidx (npvhash st) (ent ?h e)"
  note c = bucketsD[OF assms, folded b_def]
  obtain xs ys where B: "B b = xs @ e # ys" "e \<notin> set xs" using c(2) by (metis split_list_first)
  have ch: "chain ?h (pv_hash_table st ! b) (xs @ e # ys)" using c(3) B by simp
  then obtain y where y: "?h e = Some y" using chain_in_dom by fastforce
  obtain h' tbl' where s: "set_slot (slot_after (Anchor b) xs) (nexth (ent ?h e)) st = Some (st\<lparr>entries := h', pv_hash_table := tbl'\<rparr>)"
    and ok: "buckets_ok (npvhash st) h' tbl' (E - {e}) (B(b := xs @ ys))" "same_rest ?h h'"
    using buckets_remove[OF assms b_def B(1)] by blast
  have "pmap_pvh_unlink e st = Some (st\<lparr>entries := h', pv_hash_table := tbl'\<rparr>)"
    using s unlink_walk_chain[OF ch B(2)] y c(1) by (simp add: pmap_pvh_unlink_def pvhashidx_entry b_def)
  then show ?thesis using ok that by blast
qed

end
