(* ===== verification/Pv_Rep.thy ===== *)
theory Pv_Rep
  imports Pv_Chain
begin

text \<open>
  What the tables of the reverse map represent: for every page the list of its mappings. The rooted entry of a page and
  the hashed entries queued behind it form a ring, and the chain of a hash bucket holds the hashed entries of all rings
  that belong to the bucket. The lemmas follow the pointer operations on rings and chains.
\<close>

section \<open>Rings\<close>

definition linked :: "pv_heap \<Rightarrow> pvref \<Rightarrow> pvref \<Rightarrow> bool" where
  "linked h a b \<longleftrightarrow> qnext (ent h a) = b \<and> qprev (ent h b) = a"

primrec qpath :: "pv_heap \<Rightarrow> pvref \<Rightarrow> pvref list \<Rightarrow> pvref \<Rightarrow> bool" where
  "qpath h a [] z \<longleftrightarrow> linked h a z"
| "qpath h a (b # bs) z \<longleftrightarrow> linked h a b \<and> qpath h b bs z"

lemma qpath_append: "qpath h a (xs @ b # ys) z \<longleftrightarrow> qpath h a xs b \<and> qpath h b ys z"
  by (induction xs arbitrary: a) auto

lemma qpath_snoc: "qpath h a (xs @ [b]) z \<longleftrightarrow> qpath h a xs b \<and> linked h b z"
  by (simp add: qpath_append)

definition ring :: "pv_heap \<Rightarrow> pvref list \<Rightarrow> bool" where
  "ring h xs \<longleftrightarrow> xs \<noteq> [] \<and> distinct xs \<and> set xs \<subseteq> dom h \<and> qpath h (hd xs) (tl xs) (hd xs)"

text \<open>A path depends on the forward links of its nodes but the last and on the backward links of those but the first.\<close>

lemma qpath_cong:
  assumes "\<And>x. x \<in> insert a (set xs) \<Longrightarrow> qnext (ent h' x) = qnext (ent h x)"
    "\<And>x. x \<in> insert z (set xs) \<Longrightarrow> qprev (ent h' x) = qprev (ent h x)"
  shows "qpath h' a xs z = qpath h a xs z"
  using assms by (induction xs arbitrary: a) (auto simp: linked_def)

text \<open>The fields of an entry that are not links of a queue.\<close>

definition data :: "pv_entry \<Rightarrow> pv_entry" where
  "data e = e\<lparr>qnext := Null, qprev := Null\<rparr>"

definition same_data :: "pvref set \<Rightarrow> pv_heap \<Rightarrow> pv_heap \<Rightarrow> bool" where
  "same_data X h h' \<longleftrightarrow> dom h' = dom h \<and> (\<forall>x. data (ent h' x) = data (ent h x)) \<and> (\<forall>x. x \<notin> X \<longrightarrow> h' x = h x)"

lemma data_fields:
  assumes "data e = data f"
  shows "pv_va e = pv_va f" "pv_pmap e = pv_pmap f" "pv_flags e = pv_flags f" "pv_ppn e = pv_ppn f" "nexth e = nexth f"
proof -
  have "pv_va (data e) = pv_va (data f)" "pv_pmap (data e) = pv_pmap (data f)" "pv_flags (data e) = pv_flags (data f)"
    "pv_ppn (data e) = pv_ppn (data f)" "nexth (data e) = nexth (data f)" using assms by simp_all
  then show "pv_va e = pv_va f" "pv_pmap e = pv_pmap f" "pv_flags e = pv_flags f" "pv_ppn e = pv_ppn f" "nexth e = nexth f"
    by (simp_all add: data_def)
qed

lemma upd_entry_Some: "r \<in> dom (entries st) \<Longrightarrow>
    upd_entry r f st = Some (st\<lparr>entries := (entries st)(r \<mapsto> f (ent (entries st) r))\<rparr>)"
  by (auto simp: upd_entry_def)

lemma entries_Some: "r \<in> dom h \<Longrightarrow> h r = Some (ent h r)"
  by auto

lemma insque_ok:
  assumes r: "ring (entries st) (r # es)" and e: "e \<in> dom (entries st)" "e \<notin> set (r # es)"
  obtains h' where "insque e r st = Some (st\<lparr>entries := h'\<rparr>)" "ring h' (r # e # es)" "same_data (insert e (set (r # es))) (entries st) h'"
proof -
  let ?h = "entries st"
  let ?n = "qnext (ent ?h r)"
  have d: "r \<in> dom ?h" "distinct (r # es)" "set (r # es) \<subseteq> dom ?h" using r by (auto simp: ring_def)
  have n: "?n = hd (es @ [r])" "qprev (ent ?h ?n) = r" using r by (cases es; auto simp: ring_def linked_def)+
  then have n': "?n \<in> set (r # es)" "?n \<noteq> e" "?n \<in> dom ?h" using d e by (cases es; auto)+
  define h1 where "h1 = ?h(e \<mapsto> (ent ?h e)\<lparr>qnext := ?n, qprev := r\<rparr>)"
  define h2 where "h2 = h1(?n \<mapsto> (ent h1 ?n)\<lparr>qprev := e\<rparr>)"
  define h3 where "h3 = h2(r \<mapsto> (ent h2 r)\<lparr>qnext := e\<rparr>)"
  have re: "r \<noteq> e" using e(2) by auto
  have "insque e r st = Some (st\<lparr>entries := h3\<rparr>)"
    using e d(1) n' re by (auto simp: insque_def upd_entry_def h1_def h2_def h3_def)
  moreover have "same_data (insert e (set (r # es))) ?h h3"
    using e d n' by (auto simp: same_data_def h1_def h2_def h3_def data_def)
  moreover have "ring h3 (r # e # es)"
  proof -
    have 1: "linked h3 r e" "linked h3 e ?n" using n' re by (auto simp: linked_def h1_def h2_def h3_def)
    have 2: "qnext (ent h3 x) = qnext (ent ?h x)" if "x \<in> set es" for x using that e d(2) by (auto simp: h1_def h2_def h3_def)
    have "qpath h3 e es r"
    proof (cases es)
      case Nil
      then show ?thesis using 1 n by simp
    next
      case (Cons b bs)
      have "qprev (ent h3 x) = qprev (ent ?h x)" if "x \<in> insert r (set bs)" for x
        using that e d(2) n Cons by (auto simp: h1_def h2_def h3_def)
      then have "qpath h3 b bs r = qpath ?h b bs r" using 2 Cons by (intro qpath_cong) auto
      then show ?thesis using r 1(2) n(1) Cons by (simp add: ring_def)
    qed
    then show ?thesis using 1(1) d e by (auto simp: ring_def h1_def h2_def h3_def)
  qed
  ultimately show ?thesis using that by blast
qed

lemma remque_ok:
  assumes r: "ring (entries st) (r # ys @ e # zs)"
  obtains h' where "remque e st = Some (st\<lparr>entries := h'\<rparr>)" "ring h' (r # ys @ zs)" "same_data (set (r # ys @ e # zs)) (entries st) h'"
proof -
  let ?h = "entries st"
  obtain a b where eq: "a = hd (zs @ [r])" "b = last (r # ys)" by blast
  have d: "distinct (r # ys @ e # zs)" "set (r # ys @ e # zs) \<subseteq> dom ?h" using r by (simp_all add: ring_def)
  have p: "qpath ?h r ys e" "qpath ?h e zs r" using r by (simp_all add: ring_def qpath_append)
  have n: "qnext (ent ?h e) = a" "qprev (ent ?h a) = e" using p(2) eq(1) by (cases zs; auto simp: linked_def)+
  have q: "qprev (ent ?h e) = b" "qnext (ent ?h b) = e"
    using p(1) eq(2) by (cases ys rule: rev_cases; auto simp: linked_def qpath_append)+
  have ab: "a \<in> set (r # zs)" "b \<in> set (r # ys)" using eq by (cases zs; simp) (use eq in \<open>cases ys rule: rev_cases; simp\<close>)
  then have ne: "a \<noteq> e" "b \<noteq> e" "a \<in> dom ?h" "b \<in> dom ?h" "e \<in> dom ?h" using d by auto
  define h1 where "h1 = ?h(a \<mapsto> (ent ?h a)\<lparr>qprev := b\<rparr>)"
  define h2 where "h2 = h1(b \<mapsto> (ent h1 b)\<lparr>qnext := a\<rparr>)"
  define h3 where "h3 = h2(e \<mapsto> (ent h2 e)\<lparr>qnext := Null, qprev := Null\<rparr>)"
  have "remque e st = Some (st\<lparr>entries := h3\<rparr>)"
    using ne n(1) q(1) by (auto simp: remque_def upd_entry_def h1_def h2_def h3_def)
  moreover have "same_data (set (r # ys @ e # zs)) ?h h3"
    using ne ab by (auto simp: same_data_def h1_def h2_def h3_def data_def)
  moreover have "ring h3 (r # ys @ zs)"
  proof -
    have mid: "linked h3 b a" using ne by (auto simp: linked_def h1_def h2_def h3_def)
    have nx: "qnext (ent h3 x) = qnext (ent ?h x)" if "x \<noteq> b" "x \<noteq> e" for x using that by (auto simp: h1_def h2_def h3_def)
    have pv: "qprev (ent h3 x) = qprev (ent ?h x)" if "x \<noteq> a" "x \<noteq> e" for x using that by (auto simp: h1_def h2_def h3_def)
    have left: "qpath h3 r (butlast ys) (last ys)" if nonempty: "ys \<noteq> []"
    proof -
      obtain us c where ys: "ys = us @ [c]" using nonempty by (metis rev_exhaust)
      have "qpath h3 r us c = qpath ?h r us c" using d(1) ys ab(1) eq by (intro qpath_cong nx pv) auto
      then show ?thesis using p(1) ys by (simp add: qpath_append)
    qed
    have right: "qpath h3 (hd zs) (tl zs) r" if nonempty: "zs \<noteq> []"
    proof -
      obtain c us where zs: "zs = c # us" using nonempty by (metis list.exhaust)
      have "qpath h3 c us r = qpath ?h c us r" using d(1) zs ab(2) eq by (intro qpath_cong nx pv) auto
      then show ?thesis using p(2) zs by simp
    qed
    have "qpath h3 r (ys @ zs) r"
    proof (cases zs)
      case Nil
      then show ?thesis using mid left eq by (cases ys rule: rev_cases) (auto simp: qpath_snoc)
    next
      case (Cons c us)
      have "qpath h3 r ys c" using mid left eq Cons by (cases ys rule: rev_cases) (auto simp: qpath_snoc)
      then show ?thesis using right Cons by (simp add: qpath_append)
    qed
    moreover have "dom h3 = dom ?h" using ne by (auto simp: h1_def h2_def h3_def)
    ultimately show ?thesis using d by (auto simp: ring_def)
  qed
  ultimately show ?thesis using that by blast
qed

section \<open>Pages\<close>

definition mapping :: "pv_entry \<Rightarrow> u32 \<times> u32" where
  "mapping e = (pv_pmap e, pv_va e)"

definition page_list :: "pv_heap \<Rightarrow> nat \<Rightarrow> pvref list \<Rightarrow> (u32 \<times> u32) list" where
  "page_list h i es = (if pv_pmap (ent h (Root i)) = 0 then [] else map (\<lambda>r. mapping (ent h r)) (Root i # es))"

definition page_ok :: "pv_heap \<Rightarrow> u32 \<Rightarrow> nat \<Rightarrow> pvref list \<Rightarrow> bool" where
  "page_ok h fp i es \<longleftrightarrow>
     Root i \<in> dom h \<and> (if pv_pmap (ent h (Root i)) = 0 then es = [] else ring h (Root i # es)) \<and>
     distinct (page_list h i es) \<and>
     (\<forall>e \<in> set es. (\<exists>a. e = Hashed a) \<and> pv_pmap (ent h e) \<noteq> 0 \<and> pv_ppn (ent h e) = fp + of_nat i)"

lemma ring_cong:
  assumes "\<And>x. x \<in> set xs \<Longrightarrow> (x \<in> dom h') = (x \<in> dom h) \<and> qnext (ent h' x) = qnext (ent h x) \<and> qprev (ent h' x) = qprev (ent h x)"
  shows "ring h' xs = ring h xs"
proof (cases xs)
  case (Cons a as)
  have "qpath h' a as a = qpath h a as a" using assms Cons by (intro qpath_cong) auto
  moreover have "set xs \<subseteq> dom h' \<longleftrightarrow> set xs \<subseteq> dom h" using assms by (meson subset_iff)
  ultimately show ?thesis using Cons by (simp add: ring_def)
qed (simp add: ring_def)

lemma page_cong:
  assumes "\<And>x. x \<in> set (Root i # es) \<Longrightarrow> (x \<in> dom h') = (x \<in> dom h) \<and> but_nexth (ent h' x) = but_nexth (ent h x)"
  shows "page_list h' i es = page_list h i es" "page_ok h' fp i es = page_ok h fp i es"
proof -
  note f = but_nexth_fields
  have e: "qnext (ent h' x) = qnext (ent h x)" "qprev (ent h' x) = qprev (ent h x)" "pv_pmap (ent h' x) = pv_pmap (ent h x)"
    "mapping (ent h' x) = mapping (ent h x)" "pv_ppn (ent h' x) = pv_ppn (ent h x)" if "x \<in> set (Root i # es)" for x
    using f[of "ent h' x" "ent h x"] assms[OF that] by (simp_all add: mapping_def)
  have "map (\<lambda>r. mapping (ent h' r)) (Root i # es) = map (\<lambda>r. mapping (ent h r)) (Root i # es)"
    using e(4) by (intro map_cong) auto
  then show l: "page_list h' i es = page_list h i es" unfolding page_list_def using e(3)[of "Root i"] by simp
  have "ring h' (Root i # es) = ring h (Root i # es)" using assms e(1,2) by (intro ring_cong) blast
  then show "page_ok h' fp i es = page_ok h fp i es"
    unfolding page_ok_def l using e(3)[of "Root i"] assms[of "Root i"] e(3,5) by auto
qed

section \<open>Free lists\<close>

primrec flist :: "pv_heap \<Rightarrow> pvref \<Rightarrow> pvref list \<Rightarrow> bool" where
  "flist h a [] \<longleftrightarrow> a = Null"
| "flist h a (x # xs) \<longleftrightarrow> a = x \<and> x \<noteq> Null \<and> flist h (qnext (ent h x)) xs"

lemma flist_cong:
  assumes "\<And>x. x \<in> set xs \<Longrightarrow> qnext (ent h' x) = qnext (ent h x)"
  shows "flist h' a xs = flist h a xs"
  using assms by (induction xs arbitrary: a) auto

section \<open>The tables\<close>

text \<open>
  The entries queued behind the roots of the pages, the buckets, the entries that are taken from a free list and in no
  queue, and the two free lists.
\<close>

definition used :: "nat \<Rightarrow> (nat \<Rightarrow> pvref list) \<Rightarrow> pvref set" where
  "used np rows = (\<Union>i < np. set (rows i))"

definition pages_ok :: "nat \<Rightarrow> (nat \<Rightarrow> pvref list) \<Rightarrow> u32 \<Rightarrow> pv_heap \<Rightarrow> bool" where
  "pages_ok np rows fp h \<longleftrightarrow>
     (\<forall>i < np. page_ok h fp i (rows i)) \<and> (\<forall>i < np. \<forall>j < np. i \<noteq> j \<longrightarrow> set (rows i) \<inter> set (rows j) = {})"

definition lists_ok :: "pvref set \<Rightarrow> pvref list \<Rightarrow> pvref list \<Rightarrow> pvref list \<Rightarrow> pv_state \<Rightarrow> bool" where
  "lists_ok U L F K st \<longleftrightarrow>
     flist (entries st) (pv_hashed_free_list st) F \<and> pv_hashed_free_count st = int (length F) \<and>
     flist (entries st) (pv_hashed_kern_free_list st) K \<and> pv_hashed_kern_free_count st = int (length K) \<and>
     distinct (L @ F @ K) \<and> set (L @ F @ K) \<inter> U = {} \<and>
     (\<forall>x \<in> set (L @ F @ K). (\<exists>a. x = Hashed a) \<and> x \<in> dom (entries st))"

definition pv_inv ::
  "nat \<Rightarrow> (nat \<Rightarrow> pvref list) \<Rightarrow> (nat \<Rightarrow> pvref list) \<Rightarrow> pvref list \<Rightarrow> pvref list \<Rightarrow> pvref list \<Rightarrow> pv_state \<Rightarrow> bool" where
  "pv_inv np rows B L F K st \<longleftrightarrow>
     np \<le> 2 ^ 32 \<and> pages_ok np rows (first_page st) (entries st) \<and>
     buckets_ok (npvhash st) (entries st) (pv_hash_table st) (used np rows) B \<and> lists_ok (used np rows) L F K st"

text \<open>The mappings of the pages, which the tables represent.\<close>

definition pv_rep :: "nat \<Rightarrow> (nat \<Rightarrow> (u32 \<times> u32) list) \<Rightarrow> pvref list \<Rightarrow> pvref list \<Rightarrow> pvref list \<Rightarrow> pv_state \<Rightarrow> bool" where
  "pv_rep np M L F K st \<longleftrightarrow>
     (\<exists>rows B. pv_inv np rows B L F K st \<and> (\<forall>i < np. M i = page_list (entries st) i (rows i)))"

text \<open>
  An operation works on one page: it changes the entries of the page and loose ones, and may move entries between the two.
\<close>

lemma used_upd: "i < np \<Longrightarrow> used np (rows(i := es)) = (\<Union>j \<in> {..<np} - {i}. set (rows j)) \<union> set es"
  by (fastforce simp: used_def split: if_splits)

lemma pv_inv_update:
  assumes inv: "pv_inv np rows B L F K st" and i: "i < np"
    and pg: "page_ok h' (first_page st) i es'"
    and ch: "buckets_ok (npvhash st) h' tbl' (used np (rows(i := es'))) B'"
    and dm: "dom h' = dom (entries st)"
    and fr: "\<And>x. x \<notin> insert (Root i) (set (rows i) \<union> set L) \<Longrightarrow> but_nexth (ent h' x) = but_nexth (ent (entries st) x)"
    and mv: "set es' \<union> set L' = set (rows i) \<union> set L" "set es' \<inter> set L' = {}" "distinct L'"
  shows "pv_inv np (rows(i := es')) B' L' F K (st\<lparr>entries := h', pv_hash_table := tbl'\<rparr>)"
    "\<And>j. j < np \<Longrightarrow> j \<noteq> i \<Longrightarrow> page_list h' j (rows j) = page_list (entries st) j (rows j)"
proof -
  let ?h = "entries st"
  have ok: "pages_ok np rows (first_page st) ?h" and li: "lists_ok (used np rows) L F K st" using inv by (auto simp: pv_inv_def)
  have hashed: "\<forall>x \<in> set (rows j). \<exists>a. x = Hashed a" if "j < np" for j using ok that by (auto simp: pages_ok_def page_ok_def)
  have out: "x \<notin> insert (Root i) (set (rows i) \<union> set L)" if "x \<in> set (Root j # rows j)" "j < np" "j \<noteq> i" for x j
  proof -
    have "set (rows i) \<inter> set (rows j) = {}" "set L \<inter> set (rows j) = {}" "\<forall>y \<in> set L. \<exists>a. y = Hashed a"
      using ok li that i by (auto simp: pages_ok_def lists_ok_def used_def)
    then show ?thesis using that hashed[OF i] hashed[OF that(2)] by auto
  qed
  have cong: "page_list h' j (rows j) = page_list ?h j (rows j) \<and> page_ok h' fp j (rows j) = page_ok ?h fp j (rows j)"
    if "j < np" "j \<noteq> i" for j fp
  proof -
    have "(x \<in> dom h') = (x \<in> dom ?h) \<and> but_nexth (ent h' x) = but_nexth (ent ?h x)" if "x \<in> set (Root j # rows j)" for x
      using fr[OF out[OF that \<open>j < np\<close> \<open>j \<noteq> i\<close>]] dm by simp
    then show ?thesis using page_cong(1)[of j "rows j" h' ?h] page_cong(2)[of j "rows j" h' ?h fp] by simp
  qed
  then show "\<And>j. j < np \<Longrightarrow> j \<noteq> i \<Longrightarrow> page_list h' j (rows j) = page_list ?h j (rows j)" by blast
  have disj: "set es' \<inter> set (rows j) = {}" if "j < np" "j \<noteq> i" for j
  proof -
    have "x \<notin> set (rows i) \<union> set L" if "x \<in> set (rows j)" for x using out[of x j] that \<open>j < np\<close> \<open>j \<noteq> i\<close> by simp
    then show ?thesis using mv(1) by blast
  qed
  have "pages_ok np (rows(i := es')) (first_page st) h'"
    using ok cong pg disj by (auto simp: pages_ok_def)
  moreover have "lists_ok (used np (rows(i := es'))) L' F K (st\<lparr>entries := h', pv_hash_table := tbl'\<rparr>)"
  proof -
    have FK: "x \<notin> insert (Root i) (set (rows i) \<union> set L)" if "x \<in> set F \<union> set K" for x
      using that li i by (auto simp: lists_ok_def used_def)
    then have q: "qnext (ent h' x) = qnext (ent ?h x)" if "x \<in> set F \<union> set K" for x using that fr but_nexth_fields(1) by metis
    have fl: "flist h' a F = flist ?h a F" "flist h' a K = flist ?h a K" for a using q by (auto intro!: flist_cong)
    have L: "set L' \<subseteq> set (rows i) \<union> set L" using mv(1) by blast
    have 1: "distinct (L' @ F @ K)" using li mv(3) L FK by (auto simp: lists_ok_def)
    have 2: "set (L' @ F @ K) \<inter> used np (rows(i := es')) = {}"
    proof -
      have "set (F @ K) \<inter> set es' = {}" using FK mv(1) by auto
      moreover have "set (L' @ F @ K) \<inter> set (rows j) = {}" if "j < np" "j \<noteq> i" for j
      proof -
        have "x \<notin> set (rows i) \<union> set L" if "x \<in> set (rows j)" for x using out[of x j] that \<open>j < np\<close> \<open>j \<noteq> i\<close> by simp
        moreover have "set (F @ K) \<inter> set (rows j) = {}" using li \<open>j < np\<close> by (auto simp: lists_ok_def used_def)
        ultimately show ?thesis using L by auto
      qed
      ultimately show ?thesis unfolding used_upd[OF i] using mv(2) by auto
    qed
    have 3: "\<forall>x \<in> set (L' @ F @ K). (\<exists>a. x = Hashed a) \<and> x \<in> dom h'"
    proof -
      have "set (rows i) \<subseteq> dom ?h" using ok i by (auto simp: pages_ok_def page_ok_def ring_def split: if_splits)
      then have "\<forall>x \<in> set (rows i) \<union> set L. (\<exists>a. x = Hashed a) \<and> x \<in> dom ?h" using hashed[OF i] li by (auto simp: lists_ok_def)
      moreover have "\<forall>x \<in> set (F @ K). (\<exists>a. x = Hashed a) \<and> x \<in> dom ?h" using li by (simp add: lists_ok_def)
      ultimately show ?thesis unfolding dm set_append using L by (meson Un_iff subset_iff)
    qed
    show ?thesis using li fl 1 2 3 unfolding lists_ok_def by simp
  qed
  ultimately show "pv_inv np (rows(i := es')) B' L' F K (st\<lparr>entries := h', pv_hash_table := tbl'\<rparr>)"
    using inv ch by (simp add: pv_inv_def)
qed

text \<open>The parts of the state that the operations on the reverse map leave alone.\<close>

definition same_sys :: "pv_state \<Rightarrow> pv_state \<Rightarrow> bool" where
  "same_sys st st' \<longleftrightarrow>
     pt_words st' = pt_words st \<and> pm_l1_virt st' = pm_l1_virt st \<and> gPhysBase st' = gPhysBase st \<and> gVirtBase st' = gVirtBase st \<and>
     avail_start st' = avail_start st \<and> avail_end st' = avail_end st \<and> pv_kernel_pmap st' = pv_kernel_pmap st \<and>
     pmap_initialized st' = pmap_initialized st \<and> resident_count st' = resident_count st \<and> wired_count st' = wired_count st"

lemma same_sys_refl [simp]: "same_sys st st"
  by (simp add: same_sys_def)

lemma same_sys_trans: "same_sys a b \<Longrightarrow> same_sys b c \<Longrightarrow> same_sys a c"
  by (simp add: same_sys_def)

lemma same_sys_tables [simp]: "same_sys st (st\<lparr>entries := h, pv_hash_table := t\<rparr>)" "same_sys st (st\<lparr>entries := h\<rparr>)"
  by (simp_all add: same_sys_def)

end
