(* ===== verification/Pv_Remove.thy ===== *)
theory Pv_Remove
  imports Pv_Rep
begin

text \<open>
  What the operations on the reverse map do to the mappings of a page: taking a mapping away and adding one. Both keep the
  tables well formed, find every mapping that is there, and account for every hashed entry.
\<close>

lemma pv_rep_update:
  assumes "pv_inv np rows B L F K st" "\<forall>j < np. M j = page_list (entries st) j (rows j)" "i < np"
    "page_ok h' (first_page st) i es'" "buckets_ok (npvhash st) h' tbl' (used np (rows(i := es'))) B'" "dom h' = dom (entries st)"
    "\<And>x. x \<notin> insert (Root i) (set (rows i) \<union> set L) \<Longrightarrow> but_nexth (ent h' x) = but_nexth (ent (entries st) x)"
    "set es' \<union> set L' = set (rows i) \<union> set L" "set es' \<inter> set L' = {}" "distinct L'" "page_list h' i es' = l"
  shows "pv_rep np (M(i := l)) L' F K (st\<lparr>entries := h', pv_hash_table := tbl'\<rparr>)"
proof -
  note u = pv_inv_update[OF assms(1,3-10)]
  have "(M(i := l)) j = page_list h' j ((rows(i := es')) j)" if "j < np" for j
    using u(2)[of j] assms(2,11) that by simp
  then show ?thesis unfolding pv_rep_def using u(1) by (intro exI[of _ "rows(i := es')"] exI[of _ B']) simp
qed

text \<open>The facts about the page of an operation.\<close>

lemma pv_invD:
  assumes "pv_inv np rows B L F K st" "i < np"
  shows "page_ok (entries st) (first_page st) i (rows i)" "Root i \<in> dom (entries st)"
    "buckets_ok (npvhash st) (entries st) (pv_hash_table st) (used np rows) B"
    "set (rows i) \<subseteq> used np rows" "set L \<inter> used np rows = {}" "distinct L"
    "\<And>a. Root a \<notin> used np rows" "Null \<notin> used np rows" "\<And>x. x \<in> set L \<Longrightarrow> x \<notin> insert (Root i) (set (rows i))"
proof -
  have p: "page_ok (entries st) (first_page st) j (rows j)" if "j < np" for j using assms(1) that by (auto simp: pv_inv_def pages_ok_def)
  show "page_ok (entries st) (first_page st) i (rows i)" using p assms(2) .
  then show "Root i \<in> dom (entries st)" by (simp add: page_ok_def)
  show "buckets_ok (npvhash st) (entries st) (pv_hash_table st) (used np rows) B" using assms(1) by (simp add: pv_inv_def)
  show "set (rows i) \<subseteq> used np rows" using assms(2) by (auto simp: used_def)
  show "x \<notin> insert (Root i) (set (rows i))" if "x \<in> set L" for x
    using assms that by (fastforce simp: pv_inv_def lists_ok_def used_def)
  show "set L \<inter> used np rows = {}" "distinct L" using assms(1) by (auto simp: pv_inv_def lists_ok_def)
  show "Root a \<notin> used np rows" for a using p by (fastforce simp: used_def page_ok_def)
  show "Null \<notin> used np rows" using p by (fastforce simp: used_def page_ok_def)
qed

lemma used_remove:
  assumes "pv_inv np rows B L F K st" "i < np" "rows i = ys @ e # zs" "distinct (rows i)"
  shows "used np (rows(i := ys @ zs)) = used np rows - {e}"
proof -
  have "e \<notin> set (rows j)" if "j < np" "j \<noteq> i" for j
    using assms that by (fastforce simp: pv_inv_def pages_ok_def)
  moreover have "used np rows = (\<Union>j \<in> {..<np} - {i}. set (rows j)) \<union> set (rows i)" using assms(2) by (auto simp: used_def)
  ultimately show ?thesis unfolding used_upd[OF assms(2)] using assms(3,4) by auto
qed

lemma same_hash_data: "same_data X h h' \<Longrightarrow> same_hash E h h'"
  unfolding same_data_def same_hash_def using data_fields by metis

lemma same_hash_sym: "same_hash E h h' \<Longrightarrow> same_hash E h' h"
  by (auto simp: same_hash_def)

lemma mapping_eqI: "data e = data f \<Longrightarrow> mapping e = mapping f" "but_nexth e = but_nexth f \<Longrightarrow> mapping e = mapping f"
  using data_fields[of e f] but_nexth_fields[of e f] by (simp_all add: mapping_def)

section \<open>Taking the rooted mapping away\<close>

lemma remove_rooted_single:
  assumes inv: "pv_inv np rows B L F K st" and M: "\<forall>j < np. M j = page_list (entries st) j (rows j)" and i: "i < np"
    and root: "pv_pmap (ent (entries st) (Root i)) \<noteq> 0" and es: "rows i = []"
  obtains st' where "remove_rooted (Root i) st = Some (Null, st')" "pv_rep np (M(i := [])) L F K st'" "same_sys st st'"
    "\<forall>x \<in> set L. but_nexth (ent (entries st') x) = but_nexth (ent (entries st) x)"
proof -
  let ?h = "entries st"
  note d = pv_invD[OF inv i]
  define h' where "h' = ?h(Root i \<mapsto> (ent ?h (Root i))\<lparr>pv_pmap := 0\<rparr>)"
  have "qnext (ent ?h (Root i)) = Root i" using d(1) root es by (simp add: page_ok_def ring_def linked_def)
  then have "remove_rooted (Root i) st = Some (Null, st\<lparr>entries := h', pv_hash_table := pv_hash_table st\<rparr>)"
    using d(2) by (auto simp: remove_rooted_def upd_entry_def h'_def)
  moreover have "pv_rep np (M(i := [])) L F K (st\<lparr>entries := h', pv_hash_table := pv_hash_table st\<rparr>)"
  proof (rule pv_rep_update[OF inv M i])
    have "same_hash (used np rows) ?h h'" using d(7) d(2) by (auto simp: same_hash_def h'_def)
    moreover have "rows(i := []) = rows" using es by auto
    ultimately show "buckets_ok (npvhash st) h' (pv_hash_table st) (used np (rows(i := []))) B" using d(3) buckets_cong by metis
  qed (use d es in \<open>auto simp: page_ok_def page_list_def h'_def\<close>)
  moreover have "but_nexth (ent h' x) = but_nexth (ent ?h x)" if "x \<in> set L" for x using d(9)[OF that] by (simp add: h'_def)
  ultimately show ?thesis using that same_sys_tables(1) by auto
qed

lemma remove_rooted_next:
  assumes inv: "pv_inv np rows B L F K st" and M: "\<forall>j < np. M j = page_list (entries st) j (rows j)" and i: "i < np"
    and root: "pv_pmap (ent (entries st) (Root i)) \<noteq> 0" and es: "rows i = e # es"
  obtains st' where "remove_rooted (Root i) st = Some (e, st')" "pv_rep np (M(i := tl (M i))) (e # L) F K st'" "same_sys st st'"
    "\<forall>x \<in> set L. but_nexth (ent (entries st') x) = but_nexth (ent (entries st) x)"
proof -
  let ?h = "entries st" and ?n = "npvhash st"
  note d = pv_invD[OF inv i]
  have rg: "ring ?h (Root i # [] @ e # es)" using d(1) root es by (simp add: page_ok_def)
  then have di: "distinct (Root i # e # es)" "set (Root i # e # es) \<subseteq> dom ?h" by (simp_all add: ring_def)
  have eu: "e \<in> used np rows" using d(4) es by auto
  obtain h1 where r1: "remque e st = Some (st\<lparr>entries := h1\<rparr>)" "ring h1 (Root i # es)" and s1: "same_data (set (Root i # e # es)) ?h h1"
    using remque_ok[OF rg] by (metis append_Nil)
  have c1: "buckets_ok ?n h1 (pv_hash_table st) (used np rows) B" using buckets_cong[OF d(3) same_hash_data[OF s1]] .
  obtain h2 tbl' B' where r2: "pmap_pvh_unlink e (st\<lparr>entries := h1\<rparr>) = Some (st\<lparr>entries := h2, pv_hash_table := tbl'\<rparr>)"
    and c2: "buckets_ok ?n h2 tbl' (used np rows - {e}) B'" and s2: "same_rest h1 h2"
    using pmap_pvh_unlink_ok[of "st\<lparr>entries := h1\<rparr>" "used np rows" B e, simplified, OF c1 eu] by blast
  define h3 where "h3 = h2(Root i \<mapsto> (ent h2 (Root i))\<lparr>pv_pmap := pv_pmap (ent ?h e), pv_va := pv_va (ent ?h e)\<rparr>)"
  have dm: "dom h1 = dom ?h" "dom h2 = dom ?h" "dom h3 = dom ?h" using s1 s2 d(2) by (auto simp: same_data_def same_rest_def h3_def)
  have f: "mapping (ent h2 x) = mapping (ent ?h x)" "pv_ppn (ent h2 x) = pv_ppn (ent ?h x)" for x
    using s1 s2 mapping_eqI data_fields(4) but_nexth_fields(6) unfolding same_data_def same_rest_def by metis+
  then have f': "pv_pmap (ent h2 x) = pv_pmap (ent ?h x)" for x by (simp add: mapping_def)
  have q: "qnext (ent h2 x) = qnext (ent h1 x)" "qprev (ent h2 x) = qprev (ent h1 x)" for x
    using s2 but_nexth_fields(1,2) unfolding same_rest_def by metis+
  have hd_ne: "hidx ?n (ent ?h e) < length (pv_hash_table st)" "pv_hash_table st ! hidx ?n (ent ?h e) \<noteq> Null"
    using bucketsD[OF d(3) eu] chain_nonempty by blast+
  have "e \<in> dom ?h" "Root i \<in> dom h2" using di(2) dm(2) d(2) by auto
  then obtain y z where y: "?h e = Some y" "h2 (Root i) = Some z" by blast
  have "qnext (ent ?h (Root i)) = e" using rg by (simp add: ring_def linked_def)
  moreover have "e \<noteq> Root i" using di(1) by auto
  ultimately have run: "remove_rooted (Root i) st = Some (e, st\<lparr>entries := h3, pv_hash_table := tbl'\<rparr>)"
    using r1(1) r2 y hd_ne d(2) dm(2) by (auto simp: remove_rooted_def upd_entry_def pvhashidx_entry pv_assert_def h3_def)
  have fr: "but_nexth (ent h3 x) = but_nexth (ent ?h x)" if "x \<notin> insert (Root i) (set (rows i))" for x
    using that s1 s2 es by (auto simp: same_data_def same_rest_def h3_def)
  have "pv_rep np (M(i := tl (M i))) (e # L) F K (st\<lparr>entries := h3, pv_hash_table := tbl'\<rparr>)"
  proof (rule pv_rep_update[OF inv M i])
    have root3: "mapping (ent h3 (Root i)) = mapping (ent ?h e)" by (simp add: h3_def mapping_def)
    have rest3: "ent h3 x = ent h2 x" if "x \<noteq> Root i" for x using that by (simp add: h3_def)
    have es3: "ent h3 x = ent h2 x" if "x \<in> set es" for x using that rest3[of x] di(1) by auto
    have pe: "pv_pmap (ent ?h e) \<noteq> 0" using d(1) es by (simp add: page_ok_def)
    have ml: "map (\<lambda>r. mapping (ent h3 r)) es = map (\<lambda>r. mapping (ent ?h r)) es" using f(1) es3 by (intro map_cong) auto
    show l: "page_list h3 i es = tl (M i)"
      using M i es root pe ml root3 by (simp add: page_list_def h3_def)
    have "ring h3 (Root i # es) = ring h1 (Root i # es)" using q dm by (intro ring_cong) (auto simp: h3_def)
    moreover have "distinct (tl (M i))" using M i d(1) by (simp add: page_ok_def distinct_tl)
    ultimately show "page_ok h3 (first_page st) i es"
      using d(1,2) dm(3) r1(2) pe l es f' f(2) es3 by (auto simp: page_ok_def h3_def)
    have "same_hash (used np rows - {e}) h2 h3" using d(7) d(2) dm by (auto simp: same_hash_def h3_def)
    then show "buckets_ok ?n h3 tbl' (used np (rows(i := es))) B'"
      using buckets_cong[OF c2] used_remove[OF inv i, of "[]" e es] es di(1) by simp
    show "but_nexth (ent h3 x) = but_nexth (ent ?h x)" if "x \<notin> insert (Root i) (set (rows i) \<union> set L)" for x
      using that fr by auto
  qed (use dm d es di eu in auto)
  then show ?thesis using that run same_sys_tables(1) fr d(9) by simp
qed

section \<open>Taking a hashed mapping away\<close>

text \<open>The search in the hash table finds the entry of the page, whatever else is in its bucket.\<close>

lemma entry_unique:
  assumes inv: "pv_inv np rows B L F K st" and i: "i < np" and e: "e \<in> set (rows i)" and x: "x \<in> used np rows"
    and is_e: "entry_is p v (first_page st + of_nat i) (ent (entries st) e)" and is_x: "entry_is p v (first_page st + of_nat i) (ent (entries st) x)"
  shows "x = e"
proof -
  let ?h = "entries st"
  obtain j where j: "j < np" "x \<in> set (rows j)" using x by (auto simp: used_def)
  have np: "np \<le> 2 ^ 32" using inv by (simp add: pv_inv_def)
  have "pv_ppn (ent ?h x) = first_page st + of_nat j" using pv_invD(1)[OF inv j(1)] j(2) by (simp add: page_ok_def)
  then have "(of_nat j :: u32) = of_nat i" using is_x by (simp add: entry_is_def)
  then have "unat (of_nat j :: u32) = unat (of_nat i :: u32)" by simp
  then have "i = j" using np i j(1) by (simp add: unat_of_nat)
  moreover have "distinct (map (\<lambda>r. mapping (ent ?h r)) (rows i))"
    using pv_invD(1)[OF inv i] e by (auto simp: page_ok_def page_list_def split: if_splits)
  moreover have "mapping (ent ?h x) = mapping (ent ?h e)" using is_x is_e by (simp add: entry_is_def mapping_def)
  ultimately show ?thesis using e j(2) by (auto simp: distinct_map dest: inj_onD)
qed

lemma find_hashed_ok:
  assumes inv: "pv_inv np rows B L F K st" and i: "i < np" and e: "e \<in> set (rows i)"
    and is_e: "entry_is p v (first_page st + of_nat i) (ent (entries st) e)"
  obtains b xs ys k where "find_hashed p v (first_page st + of_nat i) st = Some (slot_after (Anchor b) xs, e, k)"
    "b = hidx (npvhash st) (ent (entries st) e)" "B b = xs @ e # ys"
proof -
  let ?h = "entries st"
  note d = pv_invD[OF inv i]
  have eu: "e \<in> used np rows" using d(4) e by auto
  define b where "b = hidx (npvhash st) (ent ?h e)"
  note c = bucketsD[OF d(3) eu, folded b_def]
  obtain xs ys where B: "B b = xs @ e # ys" "e \<notin> set xs" using c(2) by (metis split_list_first)
  have ch: "chain ?h (pv_hash_table st ! b) (xs @ e # ys)" using c(3) B by simp
  have "x \<in> used np rows" if "x \<in> set xs" for x using that d(3) c(1) B by (fastforce simp: buckets_ok_def)
  then have none: "\<not> entry_is p v (first_page st + of_nat i) (ent ?h x)" if "x \<in> set xs" for x
    using that entry_unique[OF inv i e _ is_e] B(2) by blast
  have "pvhashidx st p v = b" using is_e by (simp add: b_def entry_is_def flip: pvhashidx_entry)
  moreover have "pv_hash_table st ! b \<noteq> Null" using ch by (cases xs) auto
  ultimately have "find_hashed p v (first_page st + of_nat i) st = Some (slot_after (Anchor b) xs, e, 0 + length xs + 1)"
    using find_walk_chain[OF ch is_e none, of "Anchor b" 0] c(1) by (simp add: find_hashed_def pv_assert_def)
  then show ?thesis using that b_def B(1) by blast
qed

lemma remove_hashed_ok:
  assumes inv: "pv_inv np rows B L F K st" and M: "\<forall>j < np. M j = page_list (entries st) j (rows j)" and i: "i < np"
    and e: "e \<in> set (rows i)" and b: "b = hidx (npvhash st) (ent (entries st) e)" "B b = xs @ e # us"
  obtains st' where "remove_hashed (slot_after (Anchor b) xs) e k st = Some st'"
    "pv_rep np (M(i := remove1 (mapping (ent (entries st) e)) (M i))) (e # L) F K st'" "same_sys st st'"
    "\<forall>x \<in> set L. but_nexth (ent (entries st') x) = but_nexth (ent (entries st) x)"
proof -
  define s1 where "s1 = st\<lparr>pv_hashlist_cnts := pv_hashlist_cnts st + k,
                 pv_hashlist_max := (if pv_hashlist_max st < k then k else pv_hashlist_max st)\<rparr>"
  let ?h = "entries s1" and ?n = "npvhash s1"
  have inv: "pv_inv np rows B L F K s1" and M: "\<forall>j < np. M j = page_list ?h j (rows j)"
    using inv M by (auto simp: s1_def pv_inv_def lists_ok_def)
  note d = pv_invD[OF inv i]
  have s1: "entries s1 = entries st" "npvhash s1 = npvhash st" by (simp_all add: s1_def)
  obtain ys zs where row: "rows i = ys @ e # zs" using e by (metis split_list)
  have root: "pv_pmap (ent ?h (Root i)) \<noteq> 0" and rg: "ring ?h (Root i # ys @ e # zs)"
    using d(1) row by (auto simp: page_ok_def split: if_splits)
  have di: "distinct (Root i # ys @ e # zs)" "set (Root i # ys @ e # zs) \<subseteq> dom ?h" using rg by (simp_all add: ring_def)
  have eu: "e \<in> used np rows" using d(4) e by auto
  obtain h1 tbl' where r1: "set_slot (slot_after (Anchor b) xs) (nexth (ent ?h e)) s1 = Some (s1\<lparr>entries := h1, pv_hash_table := tbl'\<rparr>)"
    and c1: "buckets_ok ?n h1 tbl' (used np rows - {e}) (B(b := xs @ us))" and t1: "same_rest ?h h1"
    using buckets_remove[OF d(3) eu _ b(2)] b(1) s1 by metis
  have q: "qnext (ent h1 x) = qnext (ent ?h x)" "qprev (ent h1 x) = qprev (ent ?h x)" for x
    using t1 but_nexth_fields(1,2) unfolding same_rest_def by metis+
  have dm1: "dom h1 = dom ?h" using t1 by (simp add: same_rest_def)
  define s2 where "s2 = s1\<lparr>entries := h1, pv_hash_table := tbl'\<rparr>"
  have "ring h1 (Root i # ys @ e # zs) = ring ?h (Root i # ys @ e # zs)" using q dm1 by (intro ring_cong) simp
  then have rg1: "ring (entries s2) (Root i # ys @ e # zs)" using rg by (simp add: s2_def)
  obtain h2 where r2: "remque e s2 = Some (s2\<lparr>entries := h2\<rparr>)"
    and rg2: "ring h2 (Root i # ys @ zs)" and t2': "same_data (set (Root i # ys @ e # zs)) (entries s2) h2"
    using remque_ok[OF rg1] by blast
  have t2: "same_data (set (Root i # ys @ e # zs)) h1 h2" using t2' by (simp add: s2_def)
  have f: "mapping (ent h2 x) = mapping (ent ?h x)" "pv_ppn (ent h2 x) = pv_ppn (ent ?h x)" for x
    using t1 t2 mapping_eqI data_fields(4) but_nexth_fields(6) unfolding same_data_def same_rest_def by metis+
  then have f': "pv_pmap (ent h2 x) = pv_pmap (ent ?h x)" for x by (simp add: mapping_def)
  have dm: "dom h2 = dom ?h" using t2 dm1 by (simp add: same_data_def)
  obtain y where y: "?h e = Some y" using di(2) by auto
  have run: "remove_hashed (slot_after (Anchor b) xs) e k st = Some (s1\<lparr>entries := h2, pv_hash_table := tbl'\<rparr>)"
    using r1 r2 y by (simp add: remove_hashed_def s2_def flip: s1_def)
  have fr: "but_nexth (ent h2 x) = but_nexth (ent ?h x)" if "x \<notin> insert (Root i) (set (rows i))" for x
    using that t1 t2 row by (auto simp: same_data_def same_rest_def)
  have "pv_rep np (M(i := remove1 (mapping (ent ?h e)) (M i))) (e # L) F K (s1\<lparr>entries := h2, pv_hash_table := tbl'\<rparr>)"
  proof (rule pv_rep_update[OF inv M i])
    have Mi: "M i = map (\<lambda>r. mapping (ent ?h r)) (Root i # ys @ e # zs)" "distinct (M i)"
      using M i root row d(1) by (auto simp: page_list_def page_ok_def)
    then have "remove1 (mapping (ent ?h e)) (M i) = map (\<lambda>r. mapping (ent ?h r)) (Root i # ys @ zs)"
      by (auto simp: remove1_append)
    then show l: "page_list h2 i (ys @ zs) = remove1 (mapping (ent ?h e)) (M i)" using root f f' by (simp add: page_list_def)
    then show "page_ok h2 (first_page s1) i (ys @ zs)"
      using d(1,2) dm rg2 root Mi(2) row f(2) f' by (auto simp: page_ok_def distinct_remove1)
    show "buckets_ok ?n h2 tbl' (used np (rows(i := ys @ zs))) (B(b := xs @ us))"
      using buckets_cong[OF c1 same_hash_data[OF t2]] used_remove[OF inv i row] row di(1) by simp
    show "but_nexth (ent h2 x) = but_nexth (ent ?h x)" if "x \<notin> insert (Root i) (set (rows i) \<union> set L)" for x
      using that fr by auto
  qed (use dm d row di eu in auto)
  then show ?thesis using that run s1 fr d(9) by (simp add: s1_def same_sys_def)
qed

section \<open>Removing a mapping\<close>

lemma pai_to_pvh_page:
  assumes "pv_rep np M L F K st" "i < np"
  shows "pai_to_pvh st (first_page st + of_nat i) = Root i"
  using assms by (auto simp: pv_rep_def pv_inv_def pai_to_pvh_def unat_of_nat)

text \<open>A mapping that is there is found and removed, and the repair of damaged tables has nothing to do.\<close>

lemma pmap_pv_remove_present:
  assumes rep: "pv_rep np M L F K st" and i: "i < np" and m: "(p, v) \<in> set (M i)"
  obtains r st' where "pmap_pv_remove env p v (first_page st + of_nat i) pte st = Some (r, first_page st + of_nat i, st')"
    "pv_rep np (M(i := remove1 (p, v) (M i))) (if r = Null then L else r # L) F K st'" "r = Null \<longleftrightarrow> length (M i) = 1" "same_sys st st'"
    "\<forall>x \<in> set L. but_nexth (ent (entries st') x) = but_nexth (ent (entries st) x)"
proof -
  let ?h = "entries st" and ?n = "first_page st + of_nat i"
  obtain rows B where inv: "pv_inv np rows B L F K st" and M: "\<forall>j < np. M j = page_list ?h j (rows j)"
    using rep by (auto simp: pv_rep_def)
  note d = pv_invD[OF inv i]
  obtain h where h: "?h (Root i) = Some h" using d(2) by auto
  have root: "pv_pmap h \<noteq> 0" and Mi: "M i = map (\<lambda>r. mapping (ent ?h r)) (Root i # rows i)"
    using m M i h by (auto simp: page_list_def split: if_splits)
  note pv = pmap_pv_remove.simps[of env p v ?n pte st] pai_to_pvh_page[OF rep i]
  show ?thesis
  proof (cases "mapping h = (p, v)")
    case True
    then have hit: "pv_pmap h = p" "pv_va h = v" and rm: "remove1 (p, v) (M i) = tl (M i)" using Mi h by (auto simp: mapping_def)
    show ?thesis
    proof (cases "rows i")
      case Nil
      then obtain st' where "remove_rooted (Root i) st = Some (Null, st')" "pv_rep np (M(i := [])) L F K st'" "same_sys st st'"
        "\<forall>x \<in> set L. but_nexth (ent (entries st') x) = but_nexth (ent ?h x)"
        using remove_rooted_single[OF inv M i _ Nil] h root by auto
      moreover have "tl (M i) = []" "length (M i) = 1" using Mi Nil by auto
      ultimately show ?thesis using pv h root hit rm by (intro that[of Null st']) simp_all
    next
      case (Cons e es)
      have "e \<noteq> Null" using d(4,8) Cons by auto
      moreover obtain st' where "remove_rooted (Root i) st = Some (e, st')" "pv_rep np (M(i := tl (M i))) (e # L) F K st'" "same_sys st st'"
        "\<forall>x \<in> set L. but_nexth (ent (entries st') x) = but_nexth (ent ?h x)"
        using remove_rooted_next[OF inv M i _ Cons] h root by auto
      moreover have "length (M i) \<noteq> 1" using Mi Cons by simp
      ultimately show ?thesis using pv h root hit rm by (intro that[of e st']) simp_all
    qed
  next
    case False
    then obtain e where e: "e \<in> set (rows i)" "mapping (ent ?h e) = (p, v)" using m Mi h by auto
    have is_e: "entry_is p v ?n (ent ?h e)" using d(1) e by (auto simp: page_ok_def entry_is_def mapping_def)
    have "e \<noteq> Null" "length (M i) \<noteq> 1" using d(4,8) e Mi by auto
    moreover obtain b xs ys k where f: "find_hashed p v ?n st = Some (slot_after (Anchor b) xs, e, k)"
      and b: "b = hidx (npvhash st) (ent ?h e)" "B b = xs @ e # ys"
      by (rule find_hashed_ok[OF inv i e(1) is_e])
    define s1 where "s1 = st\<lparr>pv_hashlist_walks := pv_hashlist_walks st + 1\<rparr>"
    have inv1: "pv_inv np rows B L F K s1" and M1: "\<forall>j < np. M j = page_list (entries s1) j (rows j)"
      and b1: "b = hidx (npvhash s1) (ent (entries s1) e)" using inv M b by (auto simp: s1_def pv_inv_def lists_ok_def)
    obtain st' where r: "remove_hashed (slot_after (Anchor b) xs) e k s1 = Some st'"
      "pv_rep np (M(i := remove1 (mapping (ent (entries s1) e)) (M i))) (e # L) F K st'" "same_sys s1 st'"
      "\<forall>x \<in> set L. but_nexth (ent (entries st') x) = but_nexth (ent (entries s1) x)"
      by (rule remove_hashed_ok[OF inv1 M1 i e(1) b1 b(2)])
    moreover have "pmap_pv_remove env p v ?n pte st = Some (e, ?n, st')"
      using h root False f r(1) \<open>e \<noteq> Null\<close>
      by (subst pmap_pv_remove.simps) (auto simp: mapping_def Let_def s1_def pai_to_pvh_page[OF rep i])
    ultimately show ?thesis using e(2) r(2-4) by (intro that[of e st']) (auto simp: s1_def same_sys_def)
  qed
qed

section \<open>Adding a mapping\<close>

text \<open>The first mapping of a page goes into its root.\<close>

lemma add_rooted:
  assumes rep: "pv_rep np M L F K st" and i: "i < np" and empty: "M i = []" and p: "p \<noteq> 0"
  obtains st' where "upd_entry (Root i) (\<lambda>e. e\<lparr>pv_va := v, pv_pmap := p\<rparr>) st \<bind> queue_init (Root i) = Some st'"
    "pv_rep np (M(i := [(p, v)])) L F K st'" "same_sys st st'"
proof -
  let ?h = "entries st"
  obtain rows B where inv: "pv_inv np rows B L F K st" and M: "\<forall>j < np. M j = page_list ?h j (rows j)"
    using rep by (auto simp: pv_rep_def)
  note d = pv_invD[OF inv i]
  have es: "rows i = []" using empty M i d(1) by (auto simp: page_list_def page_ok_def split: if_splits)
  define h' where "h' = ?h(Root i \<mapsto> (ent ?h (Root i))\<lparr>pv_va := v, pv_pmap := p, qnext := Root i, qprev := Root i\<rparr>)"
  have "upd_entry (Root i) (\<lambda>e. e\<lparr>pv_va := v, pv_pmap := p\<rparr>) st \<bind> queue_init (Root i) =
      Some (st\<lparr>entries := h', pv_hash_table := pv_hash_table st\<rparr>)"
    using d(2) by (auto simp: upd_entry_def queue_init_def h'_def)
  moreover have "pv_rep np (M(i := [(p, v)])) L F K (st\<lparr>entries := h', pv_hash_table := pv_hash_table st\<rparr>)"
  proof (rule pv_rep_update[OF inv M i])
    have "same_hash (used np rows) ?h h'" using d(7) d(2) by (auto simp: same_hash_def h'_def)
    moreover have "rows(i := []) = rows" using es by auto
    ultimately show "buckets_ok (npvhash st) h' (pv_hash_table st) (used np (rows(i := []))) B" using d(3) buckets_cong by metis
  qed (use d es p in \<open>auto simp: page_ok_def page_list_def h'_def ring_def linked_def mapping_def\<close>)
  ultimately show ?thesis using that same_sys_tables(1) by blast
qed

text \<open>Further ones go into a loose entry, which is queued behind the root.\<close>

lemma add_hashed:
  assumes rep: "pv_rep np M (e # L) F K st" and i: "i < np" and some: "M i \<noteq> []" and p: "p \<noteq> 0" and new: "(p, v) \<notin> set (M i)"
  obtains st' where
    "upd_entry e (\<lambda>e. e\<lparr>pv_va := v, pv_pmap := p, pv_ppn := first_page st + of_nat i\<rparr>) st \<bind> pv_hash_add e (Root i) = Some st'"
    "pv_rep np (M(i := hd (M i) # (p, v) # tl (M i))) L F K st'" "same_sys st st'"
proof -
  let ?h = "entries st" and ?n = "npvhash st"
  obtain rows B where inv: "pv_inv np rows B (e # L) F K st" and M: "\<forall>j < np. M j = page_list ?h j (rows j)"
    using rep by (auto simp: pv_rep_def)
  note d = pv_invD[OF inv i]
  have root: "pv_pmap (ent ?h (Root i)) \<noteq> 0" and rg: "ring ?h (Root i # rows i)"
    using some M i d(1) by (auto simp: page_list_def page_ok_def split: if_splits)
  have e: "e \<in> dom ?h" "\<exists>a. e = Hashed a" "e \<notin> used np rows" "e \<notin> set L" using inv by (auto simp: pv_inv_def lists_ok_def)
  define h0 where "h0 = ?h(e \<mapsto> (ent ?h e)\<lparr>pv_va := v, pv_pmap := p, pv_ppn := first_page st + of_nat i\<rparr>)"
  define s0 where "s0 = st\<lparr>entries := h0\<rparr>"
  have u0: "upd_entry e (\<lambda>e. e\<lparr>pv_va := v, pv_pmap := p, pv_ppn := first_page st + of_nat i\<rparr>) st = Some s0"
    using e by (auto simp: upd_entry_def h0_def s0_def)
  have er: "e \<notin> set (Root i # rows i)" using e d(4) by auto
  have same0: "h0 x = ?h x" if "x \<noteq> e" for x using that by (simp add: h0_def)
  have dm0: "dom h0 = dom ?h" using e by (auto simp: h0_def)
  have "ring h0 (Root i # rows i) = ring ?h (Root i # rows i)" using same0 er dm0 by (intro ring_cong) metis
  then have rg0: "ring (entries s0) (Root i # rows i)" using rg by (simp add: s0_def)
  obtain h1 where r1: "insque e (Root i) s0 = Some (s0\<lparr>entries := h1\<rparr>)" and rg1: "ring h1 (Root i # e # rows i)"
    and t1: "same_data (insert e (set (Root i # rows i))) h0 h1"
    using insque_ok[OF rg0, of e] er dm0 e(1) by (auto simp: s0_def)
  have "same_hash (used np rows) ?h h0" using same0 e(3) dm0 by (auto simp: same_hash_def) metis+
  then have c1: "buckets_ok ?n h1 (pv_hash_table st) (used np rows) B"
    using buckets_cong[OF d(3)] buckets_cong[OF _ same_hash_data[OF t1]] by blast
  define b where "b = hidx ?n (ent h1 e)"
  define h2 where "h2 = h1(e \<mapsto> (ent h1 e)\<lparr>nexth := pv_hash_table st ! b\<rparr>)"
  have dm1: "dom h1 = dom ?h" using t1 dm0 by (simp add: same_data_def)
  obtain z where e1: "h1 e = Some z" using dm1 e(1) by blast
  have c2: "buckets_ok ?n h2 ((pv_hash_table st)[b := e]) (insert e (used np rows)) (B(b := e # B b))"
    using buckets_add[OF c1 e(3) _ _ b_def] e(1,2) dm1 by (auto simp: h2_def)
  have bl: "b < length (pv_hash_table st)" using c1 hidx_le[of ?n "ent h1 e"] by (auto simp: buckets_ok_def b_def)
  have me: "data (ent h1 x) = data (ent h0 x)" for x using t1 by (simp add: same_data_def)
  have "hidx ?n (ent h0 e) = b" using data_fields[OF me[of e]] by (simp add: b_def hidx_def)
  then have run: "pv_hash_add e (Root i) s0 = Some (st\<lparr>entries := h2, pv_hash_table := (pv_hash_table st)[b := e]\<rparr>)"
    using r1 e(1) e1 bl by (auto simp: pv_hash_add_def s0_def pvhashidx_entry upd_entry_def h2_def h0_def pvhashidx_def hidx_def)
  have "pv_rep np (M(i := hd (M i) # (p, v) # tl (M i))) L F K (st\<lparr>entries := h2, pv_hash_table := (pv_hash_table st)[b := e]\<rparr>)"
  proof (rule pv_rep_update[OF inv M i])
    have e2: "mapping (ent h2 e) = (p, v)" "pv_ppn (ent h2 e) = first_page st + of_nat i"
      using data_fields[OF me[of e]] by (simp_all add: h2_def h0_def mapping_def)
    have x2: "mapping (ent h2 x) = mapping (ent ?h x)" "pv_ppn (ent h2 x) = pv_ppn (ent ?h x)" "pv_pmap (ent h2 x) = pv_pmap (ent ?h x)" if "x \<noteq> e" for x
      using data_fields[OF me[of x]] same0[OF that] that by (simp_all add: h2_def mapping_def)
    have xe: "x \<noteq> e" if "x \<in> set (Root i # rows i)" for x using that er by metis
    have "map (\<lambda>r. mapping (ent h2 r)) (Root i # rows i) = map (\<lambda>r. mapping (ent ?h r)) (Root i # rows i)"
      using x2(1)[OF xe] by (intro map_cong) auto
    then show l: "page_list h2 i (e # rows i) = hd (M i) # (p, v) # tl (M i)"
      using M i root e2(1) x2(3)[OF xe, of "Root i"] by (simp add: page_list_def)
    have "ring h2 (Root i # e # rows i)" using rg1 ring_cong[of "Root i # e # rows i" h2 h1] e(1) dm1 by (auto simp: h2_def)
    moreover have "distinct (hd (M i) # (p, v) # tl (M i))" using new some d(1) M i by (cases "M i") (auto simp: page_ok_def)
    ultimately show "page_ok h2 (first_page st) i (e # rows i)"
      using l d(1) e e2 x2[OF xe] p dm1 root e1 by (auto simp: page_ok_def h2_def mapping_def)
    show "but_nexth (ent h2 x) = but_nexth (ent ?h x)" if "x \<notin> insert (Root i) (set (rows i) \<union> set (e # L))" for x
      using that t1 same0[of x] by (auto simp: same_data_def h2_def)
    have "used np (rows(i := e # rows i)) = insert e (used np rows)" using i by (auto simp: used_def split: if_splits)
    then show "buckets_ok ?n h2 ((pv_hash_table st)[b := e]) (used np (rows(i := e # rows i))) (B(b := e # B b))" using c2 by simp
  qed (use d e dm1 in \<open>auto simp: h2_def\<close>)
  then show ?thesis using that u0 run by simp
qed

end
