(* ===== verification/Pv_Enter.thy ===== *)
theory Pv_Enter
  imports Pv_Lists
begin

text \<open>
  The operations of the ARM port that change page tables and the reverse map together (\<open>osfmk/arm/pmap.c\<close>): entering a
  mapping, removing and protecting a range of addresses, and taking a page away from all maps. The tables are words at
  virtual addresses. The ledgers of the tasks and the flushing of translation caches are left out, the locks are empty macros in
  the source, and \<open>nx_enabled\<close> has the value it is defined with.
\<close>

section \<open>Table entries\<close>

definition COMM_PAGE_BASE_ADDRESS :: u32 where "COMM_PAGE_BASE_ADDRESS = 0x40000000"
definition L1_SIZE :: u32 where "L1_SIZE = 0x4000"
definition L2_SIZE :: u32 where "L2_SIZE = 0x400"
definition L1_PTE_ADDR_MASK :: u32 where "L1_PTE_ADDR_MASK = 0xFFFFFC00"
definition L2_ADDR_MASK :: u32 where "L2_ADDR_MASK = 0xFFFFF000"
definition L2_ACCESS_PRW :: u32 where "L2_ACCESS_PRW = 0x10"
definition L2_ACCESS_USER :: u32 where "L2_ACCESS_USER = 0x20"
definition L2_ACCESS_APX :: u32 where "L2_ACCESS_APX = 0x200"
definition L2_SMALL_PAGE :: u32 where "L2_SMALL_PAGE = 2"
definition L2_NX_BIT :: u32 where "L2_NX_BIT = 1"

definition phys_to_virt :: "pv_state \<Rightarrow> u32 \<Rightarrow> u32" where
  "phys_to_virt st p = p - gPhysBase st + gVirtBase st"

definition tte_offset :: "u32 \<Rightarrow> u32" where
  "tte_offset addr = push_bit 2 (drop_bit 20 addr AND 0xFFF)"

definition pte_offset :: "u32 \<Rightarrow> u32" where
  "pte_offset addr = push_bit 2 (drop_bit 12 (addr AND 0xFFFFF))"

definition pmap_tte :: "u32 \<Rightarrow> u32 \<Rightarrow> pv_state \<Rightarrow> u32 option" where
  "pmap_tte p virt st =
     (let base = pm_l1_virt st p in if base + L1_SIZE < base + tte_offset virt then None else Some (base + tte_offset virt))"

text \<open>Zero is the answer where there is no second-level table.\<close>

definition pmap_pte :: "u32 \<Rightarrow> u32 \<Rightarrow> pv_state \<Rightarrow> u32 option" where
  "pmap_pte p virt st =
     do { ttep \<leftarrow> pmap_tte p virt st;
          pv_assert (ttep \<noteq> 0);
          let tte = pt_words st ttep;
          (if p \<noteq> pv_kernel_pmap st \<and> virt \<ge> COMM_PAGE_BASE_ADDRESS then Some 0
           else if tte AND 3 = 2 then None
           else if tte AND L1_PTE_ADDR_MASK = 0 then Some 0
           else Some (phys_to_virt st (tte AND L1_PTE_ADDR_MASK) + pte_offset virt)) }"

definition pmap_vm_prot_to_page_flags :: "pv_state \<Rightarrow> u32 \<Rightarrow> u32 \<Rightarrow> u32" where
  "pmap_vm_prot_to_page_flags st p prot =
     (let pte = (if p \<noteq> pv_kernel_pmap st then L2_ACCESS_USER else 0) OR L2_ACCESS_PRW;
          pte = (if prot AND 2 \<noteq> 0 then pte AND NOT L2_ACCESS_APX else pte OR L2_ACCESS_APX) in
      if prot AND 4 = 0 then pte OR L2_NX_BIT else pte)"

definition write_through :: u32 where
  "write_through = push_bit 2 2 OR push_bit 6 ((4 OR 2) AND 7)"

definition pmap_get_cache_attributes :: "u32 \<Rightarrow> pv_state \<Rightarrow> u32 option" where
  "pmap_get_cache_attributes pn st =
     (if \<not> pmap_initialized st then Some write_through
      else if \<not> pmap_valid_page st pn then Some 0
      else
        do { pv_assert (pn \<noteq> vm_page_fictitious_addr);
             h \<leftarrow> entries st (pai_to_pvh st pn);
             Some (if pv_flags h AND TYPE_NOCACHE \<noteq> 0 then 0 else write_through) })"

definition pmap_template :: "u32 \<Rightarrow> u32 \<Rightarrow> u32 \<Rightarrow> u32 \<Rightarrow> pv_state \<Rightarrow> u32 option" where
  "pmap_template p va pa prot st =
     do { cache \<leftarrow> pmap_get_cache_attributes pa st;
          Some ((push_bit 12 pa AND L2_ADDR_MASK) OR L2_SMALL_PAGE OR pmap_vm_prot_to_page_flags st p prot
                OR (if va = COMM_PAGE_BASE_ADDRESS then L2_ACCESS_USER else 0) OR cache) }"

section \<open>Entering a mapping\<close>

definition set_word :: "u32 \<Rightarrow> u32 \<Rightarrow> pv_state \<Rightarrow> pv_state" where
  "set_word a w st = st\<lparr>pt_words := (pt_words st)(a := w)\<rparr>"

definition add_resident :: "u32 \<Rightarrow> int \<Rightarrow> pv_state \<Rightarrow> pv_state" where
  "add_resident p n st = st\<lparr>resident_count := (resident_count st)(p := resident_count st p + n)\<rparr>"

definition add_wired :: "u32 \<Rightarrow> int \<Rightarrow> pv_state \<Rightarrow> pv_state" where
  "add_wired p n st = st\<lparr>wired_count := (wired_count st)(p := wired_count st p + n)\<rparr>"

text \<open>The table is made larger until it has an entry for the address.\<close>

partial_function (option) expand_loop :: "pv_env \<Rightarrow> u32 \<Rightarrow> u32 \<Rightarrow> pv_state \<Rightarrow> (u32 \<times> pv_state) option" where
  "expand_loop env p va st =
     Option.bind (pmap_pte p va st) (\<lambda>pte.
       if pte = 0 then Option.bind (pmap_expand env p va st) (\<lambda>st. expand_loop env p va st) else Some (pte, st))"

text \<open>The page is mapped there already: only the protection changes.\<close>

definition enter_same_page :: "u32 \<Rightarrow> u32 \<Rightarrow> u32 \<Rightarrow> u32 \<Rightarrow> bool \<Rightarrow> u32 \<Rightarrow> pv_state \<Rightarrow> pv_state option" where
  "enter_same_page p va pa prot wired pte st =
     do { template \<leftarrow> pmap_template p va pa prot st;
          st \<leftarrow> (if \<not> wired then Some st
                 else
                   do { w \<leftarrow> phys_attribute_test pa TYPE_WIRED st;
                        (if w = 0 then phys_attribute_set pa TYPE_WIRED (add_wired p 1 st)
                         else do { pv_assert (wired_count st p \<ge> 1); Some (add_wired p (-1) st) }) });
          Some (set_word pte template st) }"

text \<open>Another page was mapped there: its mapping is removed. The answer is the entry that became free.\<close>

definition enter_replace :: "pv_env \<Rightarrow> u32 \<Rightarrow> u32 \<Rightarrow> u32 \<Rightarrow> u32 \<Rightarrow> u32 \<Rightarrow> pv_state \<Rightarrow> (pvref \<times> pv_state) option" where
  "enter_replace env p va pa pte old_pte st =
     (let pai = pa_index (old_pte AND L2_ADDR_MASK); st = set_word pte 0 st in
      if \<not> pmap_valid_page st pa then Some (Null, st)
      else
        do { pv_assert (resident_count st p \<ge> 1);
             let st = add_resident p (-1) st;
             w \<leftarrow> phys_attribute_test pa TYPE_WIRED st;
             st \<leftarrow> (if w = 0 then Some st
                    else do { pv_assert (wired_count st p \<ge> 1); phys_attribute_clear pa TYPE_WIRED (add_wired p (-1) st) });
             h \<leftarrow> entries st (pai_to_pvh st pai);
             pv_assert (pv_pmap h \<noteq> 0);
             (r, _, st) \<leftarrow> pmap_pv_remove env p va pai None st;
             Some (r, st) })"

text \<open>
  The new mapping of a page that is managed: the rooted entry, or the entry that became free, that was brought along, or
  that a free list has. A user map gets a new one from the zone and starts again.
\<close>

definition enter_entry :: "u32 \<Rightarrow> pvref \<Rightarrow> pvref \<Rightarrow> pv_state \<Rightarrow> (pvref \<times> pvref \<times> pv_state) option" where
  "enter_entry p pvh_e pvh_new st =
     (if pvh_e \<noteq> Null then Some (pvh_e, pvh_new, st)
      else if pvh_new \<noteq> Null then Some (pvh_new, Null, st)
      else
        do { (e, st) \<leftarrow> PV_HASHED_ALLOC st;
             (if e = Null \<and> pv_kernel_pmap st = p then do { (e, st) \<leftarrow> PV_HASHED_KERN_ALLOC st; Some (e, Null, st) }
              else Some (e, Null, st)) })"

datatype enter_result = Entered pvref pvref pv_state | Retry pvref pv_state

definition enter_pv :: "pv_env \<Rightarrow> u32 \<Rightarrow> u32 \<Rightarrow> u32 \<Rightarrow> bool \<Rightarrow> pvref \<Rightarrow> pvref \<Rightarrow> pv_state \<Rightarrow> enter_result option" where
  "enter_pv env p va pa wired pvh_e pvh_new st =
     (let pv_h = pai_to_pvh st pa in
      do { h \<leftarrow> entries st pv_h;
           (if pv_pmap h = 0 then
              do { st \<leftarrow> upd_entry pv_h (\<lambda>e. e\<lparr>pv_va := va, pv_pmap := p\<rparr>) st \<bind> queue_init pv_h;
                   st \<leftarrow> (if wired then phys_attribute_set pa TYPE_WIRED st else Some st);
                   Some (Entered pvh_e pvh_new st) }
            else
              do { (e, new, st) \<leftarrow> enter_entry p pvh_e pvh_new st;
                   (if e = Null then
                      if pv_kernel_pmap st = p then None
                      else let (r, x) = zalloc_pv env st in Some (Retry r (st\<lparr>entries := (entries st)(r \<mapsto> x)\<rparr>))
                    else
                      do { st \<leftarrow> upd_entry e (\<lambda>e. e\<lparr>pv_va := va, pv_pmap := p, pv_ppn := pa\<rparr>) st \<bind> pv_hash_add e pv_h;
                           Some (Entered Null new st) }) }) })"

text \<open>The entry of the table is written and the mapping counted.\<close>

definition enter_pte :: "u32 \<Rightarrow> u32 \<Rightarrow> u32 \<Rightarrow> u32 \<Rightarrow> bool \<Rightarrow> u32 \<Rightarrow> pv_state \<Rightarrow> pv_state option" where
  "enter_pte p va pa prot wired pte st =
     (let st = add_resident p 1 st; st = (if wired then add_wired p 1 st else st) in
      do { template \<leftarrow> pmap_template p va pa prot st; Some (set_word pte template st) })"

definition enter_done :: "pvref \<Rightarrow> pvref \<Rightarrow> pv_state \<Rightarrow> pv_state option" where
  "enter_done pvh_e pvh_new st =
     do { st \<leftarrow> (if pvh_e \<noteq> Null then PV_HASHED_FREE_LIST pvh_e pvh_e 1 st else Some st);
          (if pvh_new \<noteq> Null then PV_HASHED_KERN_FREE_LIST pvh_new pvh_new 1 st else Some st) }"

partial_function (option) enter_retry :: "pv_env \<Rightarrow> u32 \<Rightarrow> u32 \<Rightarrow> u32 \<Rightarrow> u32 \<Rightarrow> bool \<Rightarrow> pvref \<Rightarrow> pv_state \<Rightarrow> pv_state option" where
  "enter_retry env p va pa prot wired pvh_new st =
     Option.bind (expand_loop env p va st) (\<lambda>r.
       let pte = fst r; st = snd r; old_pte = pt_words st pte in
       if old_pte AND L2_ADDR_MASK = push_bit 12 pa then
         Option.bind (enter_same_page p va pa prot wired pte st) (enter_done Null pvh_new)
       else if \<not> pmap_initialized st then
         Option.bind (enter_pte p va pa prot wired pte st) (enter_done Null pvh_new)
       else
         Option.bind (if old_pte AND L2_ADDR_MASK \<noteq> 0 then enter_replace env p va pa pte old_pte st else Some (Null, st)) (\<lambda>q.
           if \<not> pmap_valid_page (snd q) pa then
             Option.bind (enter_pte p va pa prot wired pte (snd q)) (enter_done (fst q) pvh_new)
           else
             Option.bind (enter_pv env p va pa wired (fst q) pvh_new (snd q)) (\<lambda>x.
               case x of
                 Retry new st \<Rightarrow> enter_retry env p va pa prot wired new st
               | Entered e new st \<Rightarrow> Option.bind (enter_pte p va pa prot wired pte st) (enter_done e new))))"

datatype kern_return = KERN_SUCCESS | KERN_INVALID_ARGUMENT

definition pmap_enter_options ::
  "pv_env \<Rightarrow> u32 \<Rightarrow> u32 \<Rightarrow> u32 \<Rightarrow> u32 \<Rightarrow> bool \<Rightarrow> pv_state \<Rightarrow> (kern_return \<times> pv_state) option" where
  "pmap_enter_options env p va pa prot wired st =
     do { pv_assert (pa \<noteq> vm_page_fictitious_addr);
          (if va > COMM_PAGE_BASE_ADDRESS \<and> p \<noteq> pv_kernel_pmap st then Some (KERN_INVALID_ARGUMENT, st)
           else do { st \<leftarrow> enter_retry env p va pa prot wired Null st; Some (KERN_SUCCESS, st) }) }"

definition pmap_enter :: "pv_env \<Rightarrow> u32 \<Rightarrow> u32 \<Rightarrow> u32 \<Rightarrow> u32 \<Rightarrow> bool \<Rightarrow> pv_state \<Rightarrow> pv_state option" where
  "pmap_enter env p va pa prot wired st = map_option snd (pmap_enter_options env p va pa prot wired st)"

section \<open>Removing a range\<close>

text \<open>The entries that became free, as a list with its last element and its length.\<close>

record free_chain =
  pvh_eh :: pvref
  pvh_et :: pvref
  pvh_cnt :: nat

definition empty_chain :: free_chain where
  "empty_chain = \<lparr>pvh_eh = Null, pvh_et = Null, pvh_cnt = 0\<rparr>"

definition chain_push :: "pvref \<Rightarrow> free_chain \<Rightarrow> pv_state \<Rightarrow> (free_chain \<times> pv_state) option" where
  "chain_push e c st =
     do { st \<leftarrow> upd_entry e (\<lambda>x. x\<lparr>qnext := pvh_eh c\<rparr>) st;
          Some (\<lparr>pvh_eh = e, pvh_et = (if pvh_et c = Null then e else pvh_et c), pvh_cnt = pvh_cnt c + 1\<rparr>, st) }"

definition chain_free :: "free_chain \<Rightarrow> pv_state \<Rightarrow> pv_state option" where
  "chain_free c st = (if pvh_eh c \<noteq> Null then PV_HASHED_FREE_LIST (pvh_eh c) (pvh_et c) (int (pvh_cnt c)) st else Some st)"

fun remove_loop ::
  "pv_env \<Rightarrow> nat \<Rightarrow> u32 \<Rightarrow> u32 \<Rightarrow> u32 \<Rightarrow> u32 \<Rightarrow> free_chain \<Rightarrow> int \<Rightarrow> int \<Rightarrow> pv_state \<Rightarrow> (free_chain \<times> int \<times> int \<times> pv_state) option" where
  "remove_loop env 0 p vaddr cpte page c removed unwired st = Some (c, removed, unwired, st)"
| "remove_loop env (Suc n) p vaddr cpte page c removed unwired st =
     (let pai = pa_index (pt_words st cpte AND L2_ADDR_MASK) in
      if pai = 0 \<or> \<not> pmap_valid_page st pai then remove_loop env n p (vaddr + page) (cpte + 4) page c removed unwired st
      else
        do { w \<leftarrow> phys_attribute_test pai TYPE_WIRED st;
             st \<leftarrow> (if w \<noteq> 0 then phys_attribute_clear pai TYPE_WIRED st else Some st);
             let st = set_word cpte 0 st;
             (c, st) \<leftarrow>
               (if \<not> pmap_initialized st then Some (c, st)
                else
                  do { (e, _, st) \<leftarrow> pmap_pv_remove env p vaddr pai (Some (pt_words st cpte)) st;
                       (if e \<noteq> Null then chain_push e c st else Some (c, st)) });
             remove_loop env n p (vaddr + page) (cpte + 4) page c (removed + 1) (if w \<noteq> 0 then unwired + 1 else unwired) st })"

definition pmap_remove_range :: "pv_env \<Rightarrow> u32 \<Rightarrow> u32 \<Rightarrow> u32 \<Rightarrow> u32 \<Rightarrow> bool \<Rightarrow> pv_state \<Rightarrow> pv_state option" where
  "pmap_remove_range env p start_vaddr spte epte is_sect st =
     do { pv_assert (epte - spte \<le> L2_SIZE);
          let n = (if spte < epte then (unat (epte - spte) + 3) div 4 else 0);
          (c, removed, unwired, st) \<leftarrow>
            remove_loop env n p start_vaddr spte (if is_sect then 0x100000 else 0x1000) empty_chain 0 0 st;
          st \<leftarrow> chain_free c st;
          pv_assert (resident_count st p \<ge> removed);
          let st = add_resident p (- removed) st;
          pv_assert (wired_count st p \<ge> unwired);
          Some (add_wired p (- unwired) st) }"

text \<open>The entries of the table for the addresses from \<open>sva\<close> to \<open>lva\<close>, which are at most a megabyte.\<close>

definition pte_range :: "u32 \<Rightarrow> u32 \<Rightarrow> u32 \<Rightarrow> pv_state \<Rightarrow> (u32 \<times> u32) option option" where
  "pte_range p sva lva st =
     do { ttep \<leftarrow> pmap_tte p sva st;
          pv_assert (ttep \<noteq> 0);
          let tte = pt_words st ttep;
          (if tte AND 3 = 1 then
             let spte_begin = phys_to_virt st (tte AND L1_PTE_ADDR_MASK);
                 spte = spte_begin + pte_offset sva;
                 mb_off = drop_bit 20 lva - drop_bit 20 sva;
                 epte = (if drop_bit 20 sva \<noteq> drop_bit 20 lva then spte_begin + 0x400 * mb_off + pte_offset lva
                         else spte_begin + pte_offset lva) in
             do { pv_assert (epte \<ge> spte); pv_assert (epte - spte \<le> L2_SIZE); Some (Some (spte, epte)) }
           else Some None) }"

definition next_mb :: "u32 \<Rightarrow> u32 \<Rightarrow> u32" where
  "next_mb sva eva = (let lva = (sva + 0x100000) AND NOT 0xFFFFF in if lva > eva then eva else lva)"

partial_function (option) remove_mbs :: "pv_env \<Rightarrow> u32 \<Rightarrow> u32 \<Rightarrow> u32 \<Rightarrow> pv_state \<Rightarrow> pv_state option" where
  "remove_mbs env p sva eva st =
     (if \<not> sva < eva then Some st
      else Option.bind (pte_range p sva (next_mb sva eva) st) (\<lambda>r.
        Option.bind (case r of None \<Rightarrow> Some st | Some q \<Rightarrow> pmap_remove_range env p sva (fst q) (snd q) False st) (\<lambda>st.
          remove_mbs env p (next_mb sva eva) eva st)))"

definition pmap_remove :: "pv_env \<Rightarrow> u32 \<Rightarrow> u32 \<Rightarrow> u32 \<Rightarrow> pv_state \<Rightarrow> pv_state option" where
  "pmap_remove env p sva eva st =
     do { pv_assert (sva AND 0xFFF = 0); pv_assert (eva AND 0xFFF = 0); remove_mbs env p sva eva st }"

section \<open>Protecting a range\<close>

definition protect_word :: "u32 \<Rightarrow> u32 \<Rightarrow> u32" where
  "protect_word prot w =
     (if w AND 2 = 0 then w
      else let w = (if prot AND 2 \<noteq> 0 then w AND NOT L2_ACCESS_APX else w OR L2_ACCESS_APX) in
           if prot AND 4 \<noteq> 0 then w AND NOT L2_NX_BIT else w OR L2_NX_BIT)"

fun protect_loop :: "nat \<Rightarrow> u32 \<Rightarrow> u32 \<Rightarrow> pv_state \<Rightarrow> pv_state" where
  "protect_loop 0 prot spte st = st"
| "protect_loop (Suc n) prot spte st = protect_loop n prot (spte + 4) (set_word spte (protect_word prot (pt_words st spte)) st)"

partial_function (option) protect_mbs :: "u32 \<Rightarrow> u32 \<Rightarrow> u32 \<Rightarrow> u32 \<Rightarrow> pv_state \<Rightarrow> pv_state option" where
  "protect_mbs p sva eva prot st =
     (if \<not> sva < eva then Some st
      else Option.bind (pte_range p sva (next_mb sva eva) st) (\<lambda>r.
        protect_mbs p (next_mb sva eva) eva prot
          (case r of None \<Rightarrow> st | Some q \<Rightarrow> protect_loop ((unat (snd q - fst q) + 3) div 4) prot (fst q) st)))"

definition pmap_protect :: "pv_env \<Rightarrow> u32 \<Rightarrow> u32 \<Rightarrow> u32 \<Rightarrow> u32 \<Rightarrow> pv_state \<Rightarrow> pv_state option" where
  "pmap_protect env p sva eva prot st =
     do { pv_assert (sva AND 0xFFF = 0); pv_assert (eva AND 0xFFF = 0);
          (if p = 0 then Some st else if prot = 0 then pmap_remove env p sva eva st else protect_mbs p sva eva prot st) }"

section \<open>Taking a page away\<close>

text \<open>The walk along the entries of a page, which removes mappings or takes the right to write from them.\<close>

partial_function (option) page_walk :: "bool \<Rightarrow> u32 \<Rightarrow> pvref \<Rightarrow> pvref \<Rightarrow> free_chain \<Rightarrow> pv_state \<Rightarrow> (free_chain \<times> pv_state) option" where
  "page_walk remove pn pv_h pv_e c st =
     Option.bind (entries st pv_e) (\<lambda>e.
     Option.bind (pmap_pte (pv_pmap e) (pv_va e) st) (\<lambda>pte.
     if pte = 0 then None
     else
       Option.bind
         (if remove \<or> pv_pmap e = pv_kernel_pmap st then
            do { st \<leftarrow> phys_attribute_clear pn (TYPE_REFERENCED OR TYPE_MODIFIED) (set_word pte 0 st);
                 pv_assert (resident_count st (pv_pmap e) \<ge> 1);
                 let st = add_resident (pv_pmap e) (-1) st;
                 (if pv_e = pv_h then do { st \<leftarrow> upd_entry pv_h (\<lambda>h. h\<lparr>pv_pmap := 0\<rparr>) st; Some (c, st) }
                  else do { st \<leftarrow> pv_hash_remove pv_e st; chain_push pv_e c st }) }
          else Some (c, set_word pte (pt_words st pte OR L2_ACCESS_APX) st)) (\<lambda>r.
       if qnext e = pv_h then Some r else page_walk remove pn pv_h (qnext e) (fst r) (snd r))))"

text \<open>Where the rooted mapping was removed and others are left, the first of them takes its place.\<close>

definition page_fix_root :: "pvref \<Rightarrow> free_chain \<Rightarrow> pv_state \<Rightarrow> (free_chain \<times> pv_state) option" where
  "page_fix_root pv_h c st =
     do { h \<leftarrow> entries st pv_h;
          (if pv_pmap h = 0 \<and> qnext h \<noteq> pv_h then
             do { st \<leftarrow> pv_hash_remove (qnext h) st;
                  e \<leftarrow> entries st (qnext h);
                  st \<leftarrow> upd_entry pv_h (\<lambda>x. x\<lparr>pv_pmap := pv_pmap e, pv_va := pv_va e\<rparr>) st;
                  chain_push (qnext h) c st }
           else Some (c, st)) }"

definition pmap_page_protect :: "u32 \<Rightarrow> u32 \<Rightarrow> pv_state \<Rightarrow> pv_state option" where
  "pmap_page_protect pn prot st =
     do { pv_assert (pn \<noteq> vm_page_fictitious_addr);
          pv_assert (pmap_initialized st);
          (if \<not> pmap_valid_page st pn \<or> prot = 7 then Some st
           else
             let remove = (prot \<noteq> 1 \<and> prot \<noteq> 5); pv_h = pai_to_pvh st pn in
             do { h \<leftarrow> entries st pv_h;
                  (if pv_pmap h = 0 then Some st
                   else
                     do { (c, st) \<leftarrow> page_walk remove pn pv_h pv_h empty_chain st;
                          (c, st) \<leftarrow> page_fix_root pv_h c st;
                          chain_free c st }) }) }"

definition pmap_disconnect :: "u32 \<Rightarrow> pv_state \<Rightarrow> (u32 \<times> pv_state) option" where
  "pmap_disconnect pa st =
     do { st \<leftarrow> pmap_page_protect pa 0 st; refmod \<leftarrow> pmap_get_refmod pa st; Some (refmod, st) }"

section \<open>Referenced and modified pages\<close>

definition pmap_set_modify :: "u32 \<Rightarrow> pv_state \<Rightarrow> pv_state option" where
  "pmap_set_modify pn = phys_attribute_set pn TYPE_MODIFIED"

definition pmap_clear_modify :: "u32 \<Rightarrow> pv_state \<Rightarrow> pv_state option" where
  "pmap_clear_modify pn = phys_attribute_clear pn TYPE_MODIFIED"

definition pmap_set_reference :: "u32 \<Rightarrow> pv_state \<Rightarrow> pv_state option" where
  "pmap_set_reference pn = phys_attribute_set pn TYPE_REFERENCED"

definition pmap_clear_reference :: "u32 \<Rightarrow> pv_state \<Rightarrow> pv_state option" where
  "pmap_clear_reference pn = phys_attribute_clear pn TYPE_REFERENCED"

definition pmap_is_modified :: "u32 \<Rightarrow> pv_state \<Rightarrow> u32 option" where
  "pmap_is_modified phys = phys_attribute_test phys TYPE_MODIFIED"

definition pmap_is_referenced :: "u32 \<Rightarrow> pv_state \<Rightarrow> u32 option" where
  "pmap_is_referenced phys = phys_attribute_test phys TYPE_REFERENCED"

definition pmap_clear_refmod :: "u32 \<Rightarrow> u32 \<Rightarrow> pv_state \<Rightarrow> pv_state option" where
  "pmap_clear_refmod pn bits = phys_attribute_clear pn bits"

end
