(* ===== verification/Pv_Pool.thy ===== *)
theory Pv_Pool
  imports Pv_Remove Pv_Enter
begin

text \<open>
  The pool of hashed entries: each is in the queue of a page, on one of the two free lists, or loose between two steps of an
  operation. Taking an entry from a list and giving entries back keeps the accounts.
\<close>

lemma pv_rep_lists:
  assumes rep: "pv_rep np M L F K st"
    and st': "npvhash st' = npvhash st" "gPhysBase st' = gPhysBase st" "pv_hash_table st' = pv_hash_table st" "dom (entries st') = dom (entries st)"
    and fr: "\<And>x. x \<notin> set (L @ F @ K) \<Longrightarrow> entries st' x = entries st x"
    and fl: "flist (entries st') (pv_hashed_free_list st') F'" "pv_hashed_free_count st' = int (length F')"
    "flist (entries st') (pv_hashed_kern_free_list st') K'" "pv_hashed_kern_free_count st' = int (length K')"
    and mv: "distinct (L' @ F' @ K')" "set (L' @ F' @ K') = set (L @ F @ K)"
  shows "pv_rep np M L' F' K' st'"
proof -
  let ?h = "entries st" and ?h' = "entries st'"
  obtain rows B where inv: "pv_inv np rows B L F K st" and M: "\<forall>j < np. M j = page_list ?h j (rows j)"
    using rep by (auto simp: pv_rep_def)
  have li: "lists_ok (used np rows) L F K st" using inv by (simp add: pv_inv_def)
  have same: "?h' x = ?h x" if "x \<in> set (Root j # rows j)" "j < np" for x j
  proof -
    have "x \<notin> set (L @ F @ K)" using li that by (fastforce simp: lists_ok_def used_def)
    then show ?thesis by (rule fr)
  qed
  have pg: "page_list ?h' j (rows j) = page_list ?h j (rows j)" "page_ok ?h' fp j (rows j) = page_ok ?h fp j (rows j)" if "j < np" for j fp
    using same[OF _ that] st'(4) by (intro page_cong; simp)+
  have "same_hash (used np rows) ?h ?h'" using same st'(4) unfolding same_hash_def used_def by fastforce
  then have "buckets_ok (npvhash st) ?h' (pv_hash_table st) (used np rows) B" using inv buckets_cong by (auto simp: pv_inv_def)
  moreover have "pages_ok np rows (first_page st) ?h'" using inv pg(2) by (simp add: pv_inv_def pages_ok_def)
  moreover have "lists_ok (used np rows) L' F' K' st'" using li fl mv st'(4) by (simp add: lists_ok_def)
  ultimately have "pv_inv np rows B L' F' K' st'" using inv st' by (simp add: pv_inv_def)
  then show ?thesis using M pg(1) by (auto simp: pv_rep_def)
qed

lemma pv_repD:
  assumes "pv_rep np M L F K st"
  shows "flist (entries st) (pv_hashed_free_list st) F" "pv_hashed_free_count st = int (length F)"
    "flist (entries st) (pv_hashed_kern_free_list st) K" "pv_hashed_kern_free_count st = int (length K)"
    "distinct (L @ F @ K)" "\<And>x. x \<in> set (L @ F @ K) \<Longrightarrow> x \<noteq> Null \<and> x \<in> dom (entries st)" "np \<le> 2 ^ 32"
    "\<And>x j. x \<in> set (L @ F @ K) \<Longrightarrow> x \<noteq> Root j"
proof -
  obtain rows where li: "lists_ok (used np rows) L F K st" "np \<le> 2 ^ 32" using assms by (auto simp: pv_rep_def pv_inv_def)
  then show "flist (entries st) (pv_hashed_free_list st) F" "pv_hashed_free_count st = int (length F)"
    "flist (entries st) (pv_hashed_kern_free_list st) K" "pv_hashed_kern_free_count st = int (length K)"
    "distinct (L @ F @ K)" "np \<le> 2 ^ 32" by (simp_all add: lists_ok_def)
  show "x \<noteq> Null \<and> x \<in> dom (entries st)" if "x \<in> set (L @ F @ K)" for x
  proof -
    have "(\<exists>a. x = Hashed a) \<and> x \<in> dom (entries st)" using li(1) that unfolding lists_ok_def by blast
    then show ?thesis by auto
  qed
  show "x \<noteq> Root j" if "x \<in> set (L @ F @ K)" for x j
  proof -
    have "\<exists>a. x = Hashed a" using li(1) that unfolding lists_ok_def by blast
    then show ?thesis by auto
  qed
qed

lemma pv_rep_root:
  assumes "pv_rep np M L F K st" "i < np"
  obtains h where "entries st (Root i) = Some h" "pv_pmap h = 0 \<longleftrightarrow> M i = []"
  using assms pv_invD(2) by (fastforce simp: pv_rep_def page_list_def)

lemma pv_rep_distinct:
  assumes "pv_rep np M L F K st" "j < np"
  shows "distinct (M j)"
proof -
  obtain rows B where inv: "pv_inv np rows B L F K st" and M: "\<forall>j < np. M j = page_list (entries st) j (rows j)"
    using assms(1) by (auto simp: pv_rep_def)
  show ?thesis using pv_invD(1)[OF inv assms(2)] M assms(2) by (simp add: page_ok_def)
qed

text \<open>What the tables represent does not depend on the other parts of the state.\<close>

lemma pv_rep_other [simp]:
  "pv_rep np M L F K (set_word a w st) = pv_rep np M L F K st"
  "pv_rep np M L F K (add_resident p n st) = pv_rep np M L F K st"
  "pv_rep np M L F K (add_wired p n st) = pv_rep np M L F K st"
  by (simp_all add: pv_rep_def pv_inv_def lists_ok_def set_word_def add_resident_def add_wired_def)

section \<open>The free lists\<close>

lemma flist_cons: "flist h a (e # F) \<Longrightarrow> a = e \<and> flist h (qnext (ent h e)) F"
  by simp

lemma PV_HASHED_ALLOC_ok:
  assumes rep: "pv_rep np M L (e # F) K st"
  obtains st' where "PV_HASHED_ALLOC st = Some (e, st')" "pv_rep np M (e # L) F K st'" "same_sys st st'"
proof -
  note d = pv_repD[OF rep]
  obtain x where x: "entries st e = Some x" "e \<noteq> Null" using d(6)[of e] by auto
  let ?s = "call_adjust (pv_hashed_free_count st - 1 < PV_HASHED_LOW_WATER_MARK)
    (st\<lparr>pv_hashed_free_list := qnext x, pv_hashed_free_count := pv_hashed_free_count st - 1\<rparr>)"
  have "PV_HASHED_ALLOC st = Some (e, ?s)" using x flist_cons[OF d(1)] by (simp add: PV_HASHED_ALLOC_def Let_def)
  moreover have "pv_rep np M (e # L) F K ?s"
    using d x by (intro pv_rep_lists[OF rep]) (auto simp: call_adjust_def)
  moreover have "same_sys st ?s" by (simp add: same_sys_def call_adjust_def)
  ultimately show ?thesis using that by blast
qed

lemma PV_HASHED_ALLOC_none:
  assumes "pv_rep np M L [] K st"
  shows "PV_HASHED_ALLOC st = Some (Null, st)"
  using pv_repD(1)[OF assms] by (simp add: PV_HASHED_ALLOC_def)

lemma PV_HASHED_KERN_ALLOC_ok:
  assumes rep: "pv_rep np M L F (e # K) st"
  obtains st' where "PV_HASHED_KERN_ALLOC st = Some (e, st')" "pv_rep np M (e # L) F K st'" "same_sys st st'"
proof -
  note d = pv_repD[OF rep]
  obtain x where x: "entries st e = Some x" "e \<noteq> Null" using d(6)[of e] by auto
  let ?s = "call_adjust (pv_hashed_kern_free_count st - 1 < PV_HASHED_KERN_LOW_WATER_MARK)
    (st\<lparr>pv_hashed_kern_free_list := qnext x, pv_hashed_kern_free_count := pv_hashed_kern_free_count st - 1\<rparr>)"
  have "PV_HASHED_KERN_ALLOC st = Some (e, ?s)" using x flist_cons[OF d(3)] by (simp add: PV_HASHED_KERN_ALLOC_def Let_def)
  moreover have "pv_rep np M (e # L) F K ?s"
    using d x by (intro pv_rep_lists[OF rep]) (auto simp: call_adjust_def)
  moreover have "same_sys st ?s" by (simp add: same_sys_def call_adjust_def)
  ultimately show ?thesis using that by blast
qed

text \<open>A list of loose entries, linked and with its last element at hand, is put in front of the free list.\<close>

primrec fseg :: "pv_heap \<Rightarrow> pvref \<Rightarrow> pvref list \<Rightarrow> pvref \<Rightarrow> bool" where
  "fseg h a [] z \<longleftrightarrow> a = z"
| "fseg h a (x # xs) z \<longleftrightarrow> a = x \<and> fseg h (qnext (ent h x)) xs z"

lemma fseg_cong:
  assumes "\<And>x. x \<in> set xs \<Longrightarrow> qnext (ent h' x) = qnext (ent h x)"
  shows "fseg h' a xs z = fseg h a xs z"
  using assms by (induction xs arbitrary: a) auto

lemma fseg_flist: "fseg h a xs z \<Longrightarrow> flist h z F \<Longrightarrow> Null \<notin> set xs \<Longrightarrow> flist h a (xs @ F)"
  by (induction xs arbitrary: a) auto

lemma fseg_last:
  assumes "fseg h a (xs @ [t]) y" "t \<notin> set xs" "\<And>x. x \<noteq> t \<Longrightarrow> h' x = h x" "qnext (ent h' t) = z"
  shows "fseg h' a (xs @ [t]) z"
  using assms(1,2)
proof (induction xs arbitrary: a)
  case (Cons x xs)
  then have "h' x = h x" using assms(3) by auto
  then show ?case using Cons by auto
qed (use assms(4) in auto)

lemma PV_HASHED_FREE_LIST_ok:
  assumes rep: "pv_rep np M (xs @ L) F K st" and seg: "fseg (entries st) a xs y" and ne: "xs \<noteq> []"
  obtains st' where "PV_HASHED_FREE_LIST a (last xs) (int (length xs)) st = Some st'" "pv_rep np M L (xs @ F) K st'" "same_sys st st'"
    "\<And>j. entries st' (Root j) = entries st (Root j)"
proof -
  let ?h = "entries st" and ?t = "last xs"
  note d = pv_repD[OF rep]
  have xs: "xs = butlast xs @ [?t]" using ne by simp
  obtain x where x: "?h ?t = Some x" using d(6)[of ?t] ne by auto
  define h' where "h' = ?h(?t \<mapsto> x\<lparr>qnext := pv_hashed_free_list st\<rparr>)"
  let ?s = "st\<lparr>entries := h', pv_hashed_free_list := a, pv_hashed_free_count := pv_hashed_free_count st + int (length xs)\<rparr>"
  have run: "PV_HASHED_FREE_LIST a ?t (int (length xs)) st = Some ?s" using x by (simp add: PV_HASHED_FREE_LIST_def upd_entry_def h'_def)
  have t: "?t \<in> set xs" using ne by simp
  have tF: "?t \<notin> set F" "?t \<notin> set K" "?t \<notin> set (butlast xs)"
  proof -
    have "distinct (butlast xs @ [?t])" using d(5) xs by (metis distinct_append)
    then show "?t \<notin> set (butlast xs)" by simp
    show "?t \<notin> set F" "?t \<notin> set K" using d(5) t by auto
  qed
  have q: "h' z = ?h z" if "z \<noteq> ?t" for z using that by (simp add: h'_def)
  have "fseg h' a (butlast xs @ [?t]) (pv_hashed_free_list st)"
    using fseg_last[of ?h a "butlast xs" ?t y h'] seg tF(3) q xs by (simp add: h'_def)
  then have 1: "fseg h' a xs (pv_hashed_free_list st)" using xs by simp
  have 2: "flist h' b F = flist ?h b F" "flist h' b K = flist ?h b K" for b
    using tF q by (auto intro!: flist_cong) metis+
  have "Null \<notin> set xs" using d(6) by auto
  then have 3: "flist h' a (xs @ F)" using fseg_flist[OF 1] 2 d(1) by simp
  have "pv_rep np M L (xs @ F) K ?s"
  proof (rule pv_rep_lists[OF rep])
    show "dom (entries ?s) = dom ?h" using x by (auto simp: h'_def)
    show "entries ?s z = ?h z" if "z \<notin> set ((xs @ L) @ F @ K)" for z using that t q[of z] by auto
  qed (use 2 3 d in auto)
  moreover have "same_sys st ?s" by (simp add: same_sys_def)
  moreover have "entries ?s (Root j) = ?h (Root j)" for j using q[of "Root j"] d(8)[of ?t j] t by auto
  ultimately show ?thesis using that run by blast
qed

section \<open>Chains of entries that became free\<close>

definition chain_rep :: "pv_heap \<Rightarrow> free_chain \<Rightarrow> pvref list \<Rightarrow> bool" where
  "chain_rep h c G \<longleftrightarrow>
     fseg h (pvh_eh c) G Null \<and> pvh_cnt c = length G \<and> pvh_et c = (if G = [] then Null else last G) \<and> Null \<notin> set G"

lemma chain_rep_empty [simp]: "chain_rep h empty_chain []"
  by (simp add: chain_rep_def empty_chain_def)

lemma chain_rep_cong:
  assumes "\<And>x. x \<in> set G \<Longrightarrow> qnext (ent h' x) = qnext (ent h x)"
  shows "chain_rep h' c G = chain_rep h c G"
  using fseg_cong[of G h' h "pvh_eh c" Null] assms by (simp add: chain_rep_def)

lemma chain_push_ok:
  assumes "chain_rep (entries st) c G" "e \<in> dom (entries st)" "e \<noteq> Null" "e \<notin> set G"
  obtains c' where "chain_push e c st = Some (c', st\<lparr>entries := (entries st)(e \<mapsto> (ent (entries st) e)\<lparr>qnext := pvh_eh c\<rparr>)\<rparr>)"
    "chain_rep ((entries st)(e \<mapsto> (ent (entries st) e)\<lparr>qnext := pvh_eh c\<rparr>)) c' (e # G)"
proof -
  let ?h' = "(entries st)(e \<mapsto> (ent (entries st) e)\<lparr>qnext := pvh_eh c\<rparr>)"
  have et: "pvh_et c = Null \<longleftrightarrow> G = []" using assms(1) by (auto simp: chain_rep_def dest: last_in_set)
  let ?c = "\<lparr>pvh_eh = e, pvh_et = (if pvh_et c = Null then e else pvh_et c), pvh_cnt = pvh_cnt c + 1\<rparr>"
  have "chain_rep ?h' c G = chain_rep (entries st) c G" using assms(4) by (intro chain_rep_cong) auto
  then have "chain_rep ?h' ?c (e # G)" using assms(1,3) et by (simp add: chain_rep_def)
  moreover have "chain_push e c st = Some (?c, st\<lparr>entries := ?h'\<rparr>)" using assms(2) by (auto simp: chain_push_def upd_entry_def)
  ultimately show ?thesis using that by blast
qed

lemma chain_free_ok:
  assumes rep: "pv_rep np M (G @ L) F K st" and c: "chain_rep (entries st) c G"
  obtains st' where "chain_free c st = Some st'" "pv_rep np M L (G @ F) K st'" "same_sys st st'"
    "\<And>j. entries st' (Root j) = entries st (Root j)"
proof (cases "G = []")
  case True
  then have "chain_free c st = Some st" using c by (simp add: chain_free_def chain_rep_def)
  then show ?thesis using that rep True by simp
next
  case False
  have f: "fseg (entries st) (pvh_eh c) G Null" "pvh_cnt c = length G" "pvh_et c = last G" using c False by (simp_all add: chain_rep_def)
  have "pvh_eh c \<noteq> Null" using f(1) c False by (cases G) (auto simp: chain_rep_def)
  then have "chain_free c st = PV_HASHED_FREE_LIST (pvh_eh c) (last G) (int (length G)) st" using f by (simp add: chain_free_def)
  then show ?thesis using PV_HASHED_FREE_LIST_ok[OF rep f(1) False] that by metis
qed

lemma enter_done_ok:
  assumes rep: "pv_rep np M (if e = Null then [] else [e]) F K st"
  obtains F' st' where "enter_done e Null st = Some st'" "pv_rep np M [] F' K st'" "same_sys st st'"
proof (cases "e = Null")
  case True
  then show ?thesis using that[of st F] rep by (simp add: enter_done_def)
next
  case False
  then have r: "pv_rep np M ([e] @ []) F K st" using rep by simp
  have "fseg (entries st) e [e] (qnext (ent (entries st) e))" by simp
  from PV_HASHED_FREE_LIST_ok[OF r this] obtain st' where "PV_HASHED_FREE_LIST e e 1 st = Some st'" "pv_rep np M [] (e # F) K st'" "same_sys st st'"
    by auto
  then show ?thesis using that False by (simp add: enter_done_def)
qed

section \<open>Attributes\<close>

text \<open>The flags of a page have no part in the reverse map.\<close>

lemma upd_flags_ok:
  assumes rep: "pv_rep np M L F K st" and i: "i < np"
  obtains h' where "upd_entry (Root i) (\<lambda>e. e\<lparr>pv_flags := f e\<rparr>) st = Some (st\<lparr>entries := h'\<rparr>)"
    "pv_rep np M L F K (st\<lparr>entries := h'\<rparr>)" "h' = (entries st)(Root i \<mapsto> (ent (entries st) (Root i))\<lparr>pv_flags := f (ent (entries st) (Root i))\<rparr>)"
proof -
  let ?h = "entries st"
  obtain rows B where inv: "pv_inv np rows B L F K st" and M: "\<forall>j < np. M j = page_list ?h j (rows j)"
    using rep by (auto simp: pv_rep_def)
  note d = pv_invD[OF inv i]
  define h' where "h' = ?h(Root i \<mapsto> (ent ?h (Root i))\<lparr>pv_flags := f (ent ?h (Root i))\<rparr>)"
  have same: "qnext (ent h' x) = qnext (ent ?h x)" "qprev (ent h' x) = qprev (ent ?h x)" "pv_pmap (ent h' x) = pv_pmap (ent ?h x)"
    "mapping (ent h' x) = mapping (ent ?h x)" "pv_ppn (ent h' x) = pv_ppn (ent ?h x)" for x by (simp_all add: h'_def mapping_def)
  have dm: "dom h' = dom ?h" using d(2) by (auto simp: h'_def)
  have l: "page_list h' i (rows i) = page_list ?h i (rows i)" by (simp add: page_list_def same)
  have "ring h' (Root i # rows i) = ring ?h (Root i # rows i)" using same dm by (intro ring_cong) simp
  then have pg: "page_ok h' (first_page st) i (rows i)" using d(1) by (simp add: page_ok_def same l dm)
  have "same_hash (used np rows) ?h h'" using d(7) dm by (auto simp: same_hash_def h'_def)
  then have "buckets_ok (npvhash st) h' (pv_hash_table st) (used np rows) B" using d(3) buckets_cong by blast
  then have ch: "buckets_ok (npvhash st) h' (pv_hash_table st) (used np (rows(i := rows i))) B" by simp
  have "pv_rep np (M(i := M i)) L F K (st\<lparr>entries := h', pv_hash_table := pv_hash_table st\<rparr>)"
    by (rule pv_rep_update[OF inv M i pg ch dm]) (use d(4-6) M i l in \<open>auto simp: h'_def\<close>)
  then have "pv_rep np M L F K (st\<lparr>entries := h'\<rparr>)" by simp
  moreover have "upd_entry (Root i) (\<lambda>e. e\<lparr>pv_flags := f e\<rparr>) st = Some (st\<lparr>entries := h'\<rparr>)" using d(2) by (auto simp: upd_entry_def h'_def)
  ultimately show ?thesis using that h'_def by blast
qed

end
