(* ===== verification/Pv_Tables.thy ===== *)
theory Pv_Tables
  imports Pv_Pool
begin

text \<open>
  Page tables and reverse map say the same: a mapping is in the list of a page if and only if its table entry names the
  page. Stated for a set of mappings (pairs of a map and an address) whose table entries exist and are all different.
\<close>

definition pte_of :: "pv_state \<Rightarrow> u32 \<times> u32 \<Rightarrow> u32" where
  "pte_of st m = (case pmap_pte (fst m) (snd m) st of Some a \<Rightarrow> a | None \<Rightarrow> 0)"

definition tte_of :: "pv_state \<Rightarrow> u32 \<times> u32 \<Rightarrow> u32" where
  "tte_of st m = (case pmap_tte (fst m) (snd m) st of Some t \<Rightarrow> t | None \<Rightarrow> 0)"

definition tables_ok :: "(u32 \<times> u32) set \<Rightarrow> pv_state \<Rightarrow> bool" where
  "tables_ok D st \<longleftrightarrow>
     (\<forall>m \<in> D. pmap_pte (fst m) (snd m) st = Some (pte_of st m) \<and> pte_of st m \<noteq> 0 \<and> fst m \<noteq> 0) \<and>
     inj_on (pte_of st) D \<and> (\<forall>m \<in> D. \<forall>n \<in> D. tte_of st m \<noteq> pte_of st n)"

definition page_frame :: "pv_state \<Rightarrow> nat \<Rightarrow> u32" where
  "page_frame st i = push_bit 12 (first_page st + of_nat i)"

definition maps_page :: "pv_state \<Rightarrow> u32 \<times> u32 \<Rightarrow> nat \<Rightarrow> bool" where
  "maps_page st m i \<longleftrightarrow> pt_words st (pte_of st m) AND L2_ADDR_MASK = page_frame st i"

definition coherent :: "(u32 \<times> u32) set \<Rightarrow> nat \<Rightarrow> (nat \<Rightarrow> (u32 \<times> u32) list) \<Rightarrow> pv_state \<Rightarrow> bool" where
  "coherent D np M st \<longleftrightarrow>
     (\<forall>i < np. set (M i) = {m \<in> D. pmap_valid_page st (first_page st + of_nat i) \<and> maps_page st m i})"

text \<open>The state between two operations, when the subsystem is up.\<close>

definition pmap_wf ::
  "nat \<Rightarrow> (u32 \<times> u32) set \<Rightarrow> (nat \<Rightarrow> (u32 \<times> u32) list) \<Rightarrow> pvref list \<Rightarrow> pvref list \<Rightarrow> pv_state \<Rightarrow> bool" where
  "pmap_wf np D M F K st \<longleftrightarrow>
     pv_rep np M [] F K st \<and> tables_ok D st \<and> coherent D np M st \<and> pmap_initialized st \<and> unat (first_page st) + np \<le> 2 ^ 20"

section \<open>Frames\<close>

lemma unat_page:
  assumes "unat (first_page st) + np \<le> 2 ^ 20" "i < np"
  shows "unat (first_page st + of_nat i) = unat (first_page st) + i"
proof -
  have "unat (of_nat i :: u32) = i" using assms by (simp add: unat_of_nat)
  moreover have "unat (first_page st) + unat (of_nat i :: u32) < 2 ^ 32" using assms calculation by simp
  ultimately show ?thesis using unat_add_lem[of "first_page st" "of_nat i :: u32"] by simp
qed

lemma unat_push_bit_12: "unat w < 2 ^ 20 \<Longrightarrow> unat (push_bit 12 (w :: u32)) = 4096 * unat w"
  by (simp add: push_bit_eq_mult unat_word_ariths mult.commute)

lemma unat_page_frame:
  assumes "unat (first_page st) + np \<le> 2 ^ 20" "i < np"
  shows "unat (page_frame st i) = 4096 * (unat (first_page st) + i)"
  using unat_push_bit_12[of "first_page st + of_nat i"] unat_page[OF assms] assms by (simp add: page_frame_def)

lemma pa_index_frame:
  assumes "unat (first_page st) + np \<le> 2 ^ 20" "i < np"
  shows "pa_index (page_frame st i) = first_page st + of_nat i"
proof (rule word_unat_eq_iff[THEN iffD2])
  have "unat (pa_index (page_frame st i)) = unat (page_frame st i) div 4096"
    by (simp add: pa_index_def drop_bit_eq_div unat_div)
  then show "unat (pa_index (page_frame st i)) = unat (first_page st + of_nat i)"
    using unat_page_frame[OF assms] unat_page[OF assms] by simp
qed

lemma page_frame_inj:
  assumes "unat (first_page st) + np \<le> 2 ^ 20" "i < np" "j < np" "page_frame st i = page_frame st j"
  shows "i = j"
proof -
  have "4096 * (unat (first_page st) + i) = 4096 * (unat (first_page st) + j)"
    using unat_page_frame[OF assms(1,2)] unat_page_frame[OF assms(1,3)] assms(4) by metis
  then show ?thesis by simp
qed

lemma valid_page_frame: "pmap_valid_page st (first_page st + of_nat i) \<Longrightarrow> page_frame st i \<noteq> 0"
  by (auto simp: pmap_valid_page_def page_frame_def)

text \<open>The flags of a table entry leave its frame alone.\<close>

lemma pmap_template_frame:
  assumes "pmap_template p va pa prot st = Some w"
  shows "w AND L2_ADDR_MASK = push_bit 12 pa AND L2_ADDR_MASK"
proof -
  obtain c where c: "pmap_get_cache_attributes pa st = Some c" using assms by (auto simp: pmap_template_def bind_eq_Some_conv)
  have "write_through AND L2_ADDR_MASK = 0" by (simp add: write_through_def L2_ADDR_MASK_def push_bit_eq_mult)
  then have 1: "c AND L2_ADDR_MASK = 0"
    using c by (auto simp: pmap_get_cache_attributes_def bind_eq_Some_conv split: if_splits)
  have 2: "pmap_vm_prot_to_page_flags st p prot AND L2_ADDR_MASK = 0"
    by (simp add: pmap_vm_prot_to_page_flags_def L2_ADDR_MASK_def L2_ACCESS_USER_def L2_ACCESS_PRW_def L2_ACCESS_APX_def L2_NX_BIT_def Let_def)
  have 3: "L2_SMALL_PAGE AND L2_ADDR_MASK = 0" "L2_ACCESS_USER AND L2_ADDR_MASK = 0"
    by (simp_all add: L2_SMALL_PAGE_def L2_ADDR_MASK_def L2_ACCESS_USER_def)
  show ?thesis using assms c
    by (auto simp: pmap_template_def bit.conj_disj_distrib2 1 2 3 and.assoc split: if_splits)
qed

lemma push_bit_frame: "push_bit 12 (pa :: u32) AND L2_ADDR_MASK = push_bit 12 pa"
proof -
  have m: "L2_ADDR_MASK = NOT (mask 12)" by (simp add: L2_ADDR_MASK_def mask_eq_exp_minus_1)
  show ?thesis unfolding m by (rule bit_word_eqI) (auto simp: bit_simps)
qed

section \<open>Changes of the tables\<close>

definition same_base :: "pv_state \<Rightarrow> pv_state \<Rightarrow> bool" where
  "same_base st st' \<longleftrightarrow>
     pm_l1_virt st' = pm_l1_virt st \<and> gPhysBase st' = gPhysBase st \<and> gVirtBase st' = gVirtBase st \<and>
     avail_start st' = avail_start st \<and> avail_end st' = avail_end st \<and> pv_kernel_pmap st' = pv_kernel_pmap st \<and>
     pmap_initialized st' = pmap_initialized st"

lemma same_base_sys: "same_sys st st' \<Longrightarrow> same_base st st'"
  by (simp add: same_sys_def same_base_def)

lemma same_base_trans: "same_base a b \<Longrightarrow> same_base b c \<Longrightarrow> same_base a c"
  by (simp add: same_base_def)

lemma same_base_simps [simp]:
  "same_base st st" "same_base st (set_word a w s) = same_base st s" "same_base st (add_resident p n s) = same_base st s"
  "same_base st (add_wired p n s) = same_base st s" "same_base st (s\<lparr>entries := h\<rparr>) = same_base st s"
  by (simp_all add: same_base_def set_word_def add_resident_def add_wired_def)

lemma state_fields [simp]:
  "pt_words (set_word a w st) = (pt_words st)(a := w)" "resident_count (set_word a w st) = resident_count st"
  "wired_count (set_word a w st) = wired_count st" "entries (set_word a w st) = entries st"
  "pt_words (add_resident p n st) = pt_words st" "resident_count (add_resident p n st) = (resident_count st)(p := resident_count st p + n)"
  "wired_count (add_resident p n st) = wired_count st" "entries (add_resident p n st) = entries st"
  "pt_words (add_wired p n st) = pt_words st" "resident_count (add_wired p n st) = resident_count st"
  "wired_count (add_wired p n st) = (wired_count st)(p := wired_count st p + n)" "entries (add_wired p n st) = entries st"
  by (simp_all add: set_word_def add_resident_def add_wired_def)

lemma same_base_page:
  assumes "same_base st st'"
  shows "page_frame st' i = page_frame st i" "pmap_valid_page st' pn = pmap_valid_page st pn" "first_page st' = first_page st"
    "pai_to_pvh st' pn = pai_to_pvh st pn" "tte_of st' m = tte_of st m"
  using assms by (simp_all add: same_base_def page_frame_def pmap_valid_page_def pai_to_pvh_def tte_of_def pmap_tte_def)

lemma pmap_pte_stable:
  assumes "same_base st st'" "pt_words st' (tte_of st m) = pt_words st (tte_of st m)"
  shows "pmap_pte (fst m) (snd m) st' = pmap_pte (fst m) (snd m) st"
proof (cases "pmap_tte (fst m) (snd m) st")
  case (Some t)
  have "pmap_tte (fst m) (snd m) st' = pmap_tte (fst m) (snd m) st" "phys_to_virt st' = phys_to_virt st"
    "pv_kernel_pmap st' = pv_kernel_pmap st"
    using assms(1) by (auto simp: same_base_def pmap_tte_def phys_to_virt_def)
  moreover have "pt_words st' t = pt_words st t" using Some assms(2) by (simp add: tte_of_def)
  ultimately show ?thesis using Some unfolding pmap_pte_def by (simp cong: if_cong)
next
  case None
  moreover have "pmap_tte (fst m) (snd m) st' = pmap_tte (fst m) (snd m) st" using assms(1) by (simp add: same_base_def pmap_tte_def)
  ultimately show ?thesis by (simp add: pmap_pte_def)
qed

text \<open>Writing table entries keeps the tables in place.\<close>

lemma tables_stable:
  assumes "tables_ok D st" "same_base st st'" "\<And>a. a \<notin> pte_of st ` D \<Longrightarrow> pt_words st' a = pt_words st a"
  shows "tables_ok D st'" "\<And>m. m \<in> D \<Longrightarrow> pte_of st' m = pte_of st m" "\<And>m. m \<in> D \<Longrightarrow> pmap_pte (fst m) (snd m) st' = Some (pte_of st m)"
proof -
  have t: "pmap_pte (fst m) (snd m) st' = pmap_pte (fst m) (snd m) st" if "m \<in> D" for m
  proof (rule pmap_pte_stable[OF assms(2)])
    have "tte_of st m \<notin> pte_of st ` D" using assms(1) that by (auto simp: tables_ok_def)
    then show "pt_words st' (tte_of st m) = pt_words st (tte_of st m)" by (rule assms(3))
  qed
  then show p: "\<And>m. m \<in> D \<Longrightarrow> pte_of st' m = pte_of st m" by (simp add: pte_of_def)
  show "\<And>m. m \<in> D \<Longrightarrow> pmap_pte (fst m) (snd m) st' = Some (pte_of st m)" using t assms(1) by (simp add: tables_ok_def)
  show "tables_ok D st'"
    using assms(1) t p same_base_page(5)[OF assms(2)] unfolding tables_ok_def by (auto simp: inj_on_def)
qed

text \<open>A mapping is made to name a page: it leaves the other lists and joins that of the page.\<close>

lemma coherent_enter:
  assumes co: "coherent D np M st" and t: "tables_ok D st" and b: "same_base st st'" and m: "m \<in> D"
    and w: "pt_words st' = (pt_words st)(pte_of st m := w)" "w AND L2_ADDR_MASK = page_frame st i"
    and i: "i < np" "pmap_valid_page st (first_page st + of_nat i)" "unat (first_page st) + np \<le> 2 ^ 20"
    and M': "\<And>j. j < np \<Longrightarrow> set (M' j) = (if j = i then insert m (set (M j)) else set (M j) - {m})"
  shows "coherent D np M' st'"
proof -
  have p: "pte_of st' n = pte_of st n" if "n \<in> D" for n
    by (rule tables_stable(2)[OF t b _ that]) (use w(1) m in auto)
  have pi: "pte_of st n = pte_of st m \<longleftrightarrow> n = m" if "n \<in> D" for n using t m that by (auto simp: tables_ok_def inj_on_def)
  have mp: "maps_page st' n j = (if n = m then j = i else maps_page st n j)" if "n \<in> D" "j < np" for n j
    using p[OF that(1)] pi[OF that(1)] w same_base_page(1)[OF b] page_frame_inj[OF i(3) i(1) that(2)]
    by (auto simp: maps_page_def)
  show ?thesis unfolding coherent_def
  proof (intro allI impI)
    fix j assume j: "j < np"
    have old: "set (M j) = {n \<in> D. pmap_valid_page st (first_page st + of_nat j) \<and> maps_page st n j}" using co j by (simp add: coherent_def)
    show "set (M' j) = {n \<in> D. pmap_valid_page st' (first_page st' + of_nat j) \<and> maps_page st' n j}"
      unfolding M'[OF j] old same_base_page(2,3)[OF b] using mp[OF _ j] m i(2) by (auto split: if_splits)
  qed
qed

end
