(* ===== verification/Pv_Enter_Ok.thy ===== *)
theory Pv_Enter_Ok
  imports Pv_Tables
begin

text \<open>
  Entering a mapping step by step: the removal of the mapping that was there, the entry of the reverse map, the table entry.
\<close>

definition add_behind_head :: "'a \<Rightarrow> 'a list \<Rightarrow> 'a list" where
  "add_behind_head m xs = (case xs of [] \<Rightarrow> [m] | x # r \<Rightarrow> x # m # r)"

lemma set_add_behind_head [simp]: "set (add_behind_head m xs) = insert m (set xs)"
  by (auto simp: add_behind_head_def split: list.splits)

text \<open>What entering does to the lists: the mapping leaves the list of the page it had and joins that of the new page.\<close>

definition enter_lists :: "(nat \<Rightarrow> 'a list) \<Rightarrow> nat \<Rightarrow> 'a \<Rightarrow> nat \<Rightarrow> 'a list" where
  "enter_lists M i m =
     (if m \<in> set (M i) then M else (\<lambda>j. if j = i then add_behind_head m (M i) else remove1 m (M j)))"

lemma pv_rep_cong:
  assumes "pv_rep np M L F K st" "\<And>j. j < np \<Longrightarrow> M' j = M j"
  shows "pv_rep np M' L F K st"
  using assms by (auto simp: pv_rep_def)

lemma attributes_ok:
  assumes rep: "pv_rep np M L F K st" and i: "i < np" and pn: "pn = first_page st + of_nat i" "pn \<noteq> vm_page_fictitious_addr"
  shows "\<exists>w. phys_attribute_test pn b st = Some w"
    "\<exists>h'. phys_attribute_set pn b st = Some (st\<lparr>entries := h'\<rparr>) \<and> pv_rep np M L F K (st\<lparr>entries := h'\<rparr>)"
    "\<exists>h'. phys_attribute_clear pn b st = Some (st\<lparr>entries := h'\<rparr>) \<and> pv_rep np M L F K (st\<lparr>entries := h'\<rparr>)"
    "\<exists>w. pmap_get_cache_attributes pn st = Some w"
proof -
  note r = pai_to_pvh_page[OF rep i]
  obtain h where h: "entries st (Root i) = Some h" using pv_rep_root[OF rep i] by blast
  show "\<exists>w. phys_attribute_test pn b st = Some w" "\<exists>w. pmap_get_cache_attributes pn st = Some w"
    using h r pn by (auto simp: phys_attribute_test_def pmap_get_cache_attributes_def pv_assert_def)
  show "\<exists>h'. phys_attribute_set pn b st = Some (st\<lparr>entries := h'\<rparr>) \<and> pv_rep np M L F K (st\<lparr>entries := h'\<rparr>)"
    using upd_flags_ok[OF rep i, of "\<lambda>e. pv_flags e OR b"] r pn by (auto simp: phys_attribute_set_def pv_assert_def)
  show "\<exists>h'. phys_attribute_clear pn b st = Some (st\<lparr>entries := h'\<rparr>) \<and> pv_rep np M L F K (st\<lparr>entries := h'\<rparr>)"
    using upd_flags_ok[OF rep i, of "\<lambda>e. pv_flags e AND NOT b"] r pn by (auto simp: phys_attribute_clear_def pv_assert_def)
qed

abbreviation loose :: "pvref \<Rightarrow> pvref list" where "loose e \<equiv> (if e = Null then [] else [e])"

lemma enter_entry_ok:
  assumes rep: "pv_rep np M (loose e) F K st" and av: "F \<noteq> []"
  obtains f F' st' where "enter_entry p e Null st = Some (f, Null, st')" "f \<noteq> Null" "pv_rep np M [f] F' K st'" "same_sys st st'"
proof (cases "e = Null")
  case True
  obtain f F' where F: "F = f # F'" using av by (cases F) auto
  have rep': "pv_rep np M [] (f # F') K st" using rep True F by simp
  obtain s1 where "PV_HASHED_ALLOC st = Some (f, s1)" "pv_rep np M [f] F' K s1" "same_sys st s1" using PV_HASHED_ALLOC_ok[OF rep'] by blast
  moreover have "f \<noteq> Null" using pv_repD(6)[OF rep', of f] by simp
  ultimately show ?thesis using that True by (simp add: enter_entry_def)
next
  case False
  then show ?thesis using that[of e st F] rep by (simp add: enter_entry_def)
qed

lemma enter_pv_ok:
  assumes rep: "pv_rep np M (loose e) F K st" and i: "i < np" and pn: "pn = first_page st + of_nat i" "pn \<noteq> vm_page_fictitious_addr"
    and new: "(p, va) \<notin> set (M i)" "p \<noteq> 0" and av: "F \<noteq> []"
  obtains e' F' st' where "enter_pv env p va pn wired e Null st = Some (Entered e' Null st')"
    "pv_rep np (M(i := add_behind_head (p, va) (M i))) (loose e') F' K st'" "same_sys st st'"
proof -
  have r: "pai_to_pvh st pn = Root i" using pai_to_pvh_page[OF rep i] pn(1) by simp
  obtain h where h: "entries st (Root i) = Some h" "pv_pmap h = 0 \<longleftrightarrow> M i = []" using pv_rep_root[OF rep i] by blast
  show ?thesis
  proof (cases "M i = []")
    case True
    obtain s1 where s1: "upd_entry (Root i) (\<lambda>e. e\<lparr>pv_va := va, pv_pmap := p\<rparr>) st \<bind> queue_init (Root i) = Some s1"
      "pv_rep np (M(i := [(p, va)])) (loose e) F K s1" "same_sys st s1" using add_rooted[OF rep i True new(2)] by blast
    have b1: "first_page s1 = first_page st" using s1(3) by (simp add: same_sys_def)
    obtain h' where "phys_attribute_set pn TYPE_WIRED s1 = Some (s1\<lparr>entries := h'\<rparr>)"
      "pv_rep np (M(i := [(p, va)])) (loose e) F K (s1\<lparr>entries := h'\<rparr>)" using attributes_ok(2)[OF s1(2) i] pn b1 by auto
    then obtain s2 where "(if wired then phys_attribute_set pn TYPE_WIRED s1 else Some s1) = Some s2"
      "pv_rep np (M(i := [(p, va)])) (loose e) F K s2" "same_sys st s2"
      using s1 same_sys_trans same_sys_tables(2) by (cases wired) auto
    moreover from this have "enter_pv env p va pn wired e Null st = Some (Entered e Null s2)"
      using True h r s1(1) by (simp add: enter_pv_def split del: if_split)
    ultimately show ?thesis using that[of e s2 F] True by (simp add: add_behind_head_def)
  next
    case False
    obtain f F' s1 where al: "enter_entry p e Null st = Some (f, Null, s1)"
      and f: "f \<noteq> Null" "pv_rep np M [f] F' K s1" "same_sys st s1" by (rule enter_entry_ok[OF rep av])
    have b1: "first_page s1 = first_page st" using f(3) by (simp add: same_sys_def)
    obtain s2 where s2: "upd_entry f (\<lambda>e. e\<lparr>pv_va := va, pv_pmap := p, pv_ppn := pn\<rparr>) s1 \<bind> pv_hash_add f (Root i) = Some s2"
      "pv_rep np (M(i := hd (M i) # (p, va) # tl (M i))) [] F' K s2" "same_sys s1 s2"
      using add_hashed[OF f(2) i False new(2,1)] pn b1 by metis
    have "enter_pv env p va pn wired e Null st = Some (Entered Null Null s2)"
      using al f(1) s2(1) h False r by (auto simp: enter_pv_def bind_eq_Some_conv)
    moreover have "add_behind_head (p, va) (M i) = hd (M i) # (p, va) # tl (M i)" using False by (simp add: add_behind_head_def split: list.splits)
    ultimately show ?thesis using that[of Null s2 F'] s2(2,3) f(3) same_sys_trans by auto
  qed
qed

lemma enter_pte_ok:
  assumes rep: "pv_rep np M L F K st" and i: "i < np" and pn: "pn = first_page st + of_nat i" "pn \<noteq> vm_page_fictitious_addr"
  obtains w st' where "enter_pte p va pn prot wired a st = Some st'" "pv_rep np M L F K st'" "same_base st st'"
    "pt_words st' = (pt_words st)(a := w)" "w AND L2_ADDR_MASK = page_frame st i"
    "resident_count st' = (resident_count st)(p := resident_count st p + 1)"
proof -
  define s1 where "s1 = (if wired then add_wired p 1 (add_resident p 1 st) else add_resident p 1 st)"
  have s1: "pv_rep np M L F K s1" "same_base st s1" "pt_words s1 = pt_words st"
    "resident_count s1 = (resident_count st)(p := resident_count st p + 1)" using rep by (auto simp: s1_def)
  have fp: "first_page s1 = first_page st" using s1(2) by (simp add: same_base_def)
  obtain c where "pmap_get_cache_attributes pn s1 = Some c" using attributes_ok(4)[OF s1(1) i] pn fp by auto
  then obtain w where w: "pmap_template p va pn prot s1 = Some w" by (simp add: pmap_template_def)
  have "enter_pte p va pn prot wired a st = Some (set_word a w s1)" using w by (simp add: enter_pte_def Let_def s1_def)
  moreover have "same_base st (set_word a w s1)" using s1(2) by simp
  moreover have "w AND L2_ADDR_MASK = page_frame st i" using pmap_template_frame[OF w] push_bit_frame pn(1) by (simp add: page_frame_def)
  ultimately show ?thesis using that s1 by simp
qed

lemma enter_replace_ok:
  assumes rep: "pv_rep np M [] F K st" and i: "i < np" and pn: "pn = first_page st + of_nat i" "pn \<noteq> vm_page_fictitious_addr"
    and j: "j < np" "old AND L2_ADDR_MASK = page_frame st j" "(p, va) \<in> set (M j)" and np: "unat (first_page st) + np \<le> 2 ^ 20"
    and ok: "pmap_valid_page st pn" "resident_count st p \<ge> 1" "wired_count st p \<ge> 1"
  obtains r st' where "enter_replace env p va pn a old st = Some (r, st')"
    "pv_rep np (M(j := remove1 (p, va) (M j))) (loose r) F K st'" "same_base st st'" "pt_words st' = (pt_words st)(a := 0)"
    "resident_count st' = (resident_count st)(p := resident_count st p - 1)"
proof -
  define s1 where "s1 = add_resident p (-1) (set_word a 0 st)"
  have s1: "pv_rep np M [] F K s1" "same_base st s1" "pt_words s1 = (pt_words st)(a := 0)" "wired_count s1 = wired_count st"
    "resident_count s1 = (resident_count st)(p := resident_count st p - 1)" using rep by (auto simp: s1_def)
  have fp: "first_page s1 = first_page st" using s1(2) by (simp add: same_base_def)
  obtain w where w: "phys_attribute_test pn TYPE_WIRED s1 = Some w" using attributes_ok(1)[OF s1(1) i] pn fp by auto
  have "\<exists>s2. (if w = 0 then Some s1 else do { pv_assert (wired_count s1 p \<ge> 1); phys_attribute_clear pn TYPE_WIRED (add_wired p (-1) s1) }) = Some s2
      \<and> pv_rep np M [] F K s2 \<and> same_base st s2 \<and> pt_words s2 = (pt_words st)(a := 0) \<and>
      resident_count s2 = (resident_count st)(p := resident_count st p - 1)"
  proof (cases "w = 0")
    case False
    define s where "s = add_wired p (-1) s1"
    have "pv_rep np M [] F K s" "same_base st s" "pt_words s = (pt_words st)(a := 0)" "first_page s = first_page st"
      "resident_count s = (resident_count st)(p := resident_count st p - 1)" using s1 fp by (auto simp: s_def) (simp add: add_wired_def)
    moreover from this obtain h' where "phys_attribute_clear pn TYPE_WIRED s = Some (s\<lparr>entries := h'\<rparr>)" "pv_rep np M [] F K (s\<lparr>entries := h'\<rparr>)"
      using attributes_ok(3)[of np M "[]" F K s i pn] i pn by auto
    ultimately show ?thesis using False ok(3) s1(4) by (auto simp: pv_assert_def same_base_def simp flip: s_def)
  qed (use s1 in auto)
  then obtain s2 where c: "(if w = 0 then Some s1 else do { pv_assert (wired_count s1 p \<ge> 1); phys_attribute_clear pn TYPE_WIRED (add_wired p (-1) s1) }) = Some s2"
    and s2: "pv_rep np M [] F K s2" "same_base st s2" "pt_words s2 = (pt_words st)(a := 0)"
      "resident_count s2 = (resident_count st)(p := resident_count st p - 1)" by blast
  have fp2: "first_page s2 = first_page st" using s2(2) by (simp add: same_base_def)
  obtain h where h: "entries s2 (Root j) = Some h" "pv_pmap h = 0 \<longleftrightarrow> M j = []" using pv_rep_root[OF s2(1) j(1)] by blast
  obtain r s3 where s3: "pmap_pv_remove env p va (first_page s2 + of_nat j) None s2 = Some (r, first_page s2 + of_nat j, s3)"
    "pv_rep np (M(j := remove1 (p, va) (M j))) (loose r) F K s3" "same_sys s2 s3"
    using pmap_pv_remove_present[OF s2(1) j(1,3), of env None] by (metis (no_types, lifting))
  have "pmap_valid_page (set_word a 0 st) pn" using ok(1) by (simp add: pmap_valid_page_def set_word_def)
  moreover have "resident_count (set_word a 0 st) p \<ge> 1" using ok(2) by (simp add: set_word_def)
  moreover have "pv_pmap h \<noteq> 0" using h(2) j(3) by auto
  moreover have "pa_index (old AND L2_ADDR_MASK) = first_page s2 + of_nat j" using pa_index_frame[OF np j(1)] j(2) fp2 by simp
  moreover have "pai_to_pvh s2 (first_page s2 + of_nat j) = Root j" by (rule pai_to_pvh_page[OF s2(1) j(1)])
  ultimately have "enter_replace env p va pn a old st = Some (r, s3)"
    using w c h(1) s3(1) by (simp add: enter_replace_def Let_def pv_assert_def flip: s1_def split del: if_split)
  moreover have "same_base st s3" "pt_words s3 = (pt_words st)(a := 0)" "resident_count s3 = (resident_count st)(p := resident_count st p - 1)"
    using same_base_trans[OF s2(2) same_base_sys[OF s3(3)]] s2(3,4) s3(3) by (simp_all add: same_sys_def)
  ultimately show ?thesis using that s3(2) by blast
qed

lemma enter_same_page_ok:
  assumes rep: "pv_rep np M L F K st" and i: "i < np" and pn: "pn = first_page st + of_nat i" "pn \<noteq> vm_page_fictitious_addr"
    and ok: "wired_count st p \<ge> 1"
  obtains w st' where "enter_same_page p va pn prot wired a st = Some st'" "pv_rep np M L F K st'" "same_base st st'"
    "pt_words st' = (pt_words st)(a := w)" "w AND L2_ADDR_MASK = page_frame st i" "resident_count st' = resident_count st"
proof -
  obtain c where "pmap_get_cache_attributes pn st = Some c" using attributes_ok(4)[OF rep i] pn by auto
  then obtain w where w: "pmap_template p va pn prot st = Some w" by (simp add: pmap_template_def)
  obtain t where t: "phys_attribute_test pn TYPE_WIRED st = Some t" using attributes_ok(1)[OF rep i] pn by auto
  define s1 where "s1 = add_wired p 1 st"
  have s1: "pv_rep np M L F K s1" "same_base st s1" "pt_words s1 = pt_words st" "first_page s1 = first_page st"
    "resident_count s1 = resident_count st" using rep by (auto simp: s1_def) (simp add: add_wired_def)
  obtain h' where h': "phys_attribute_set pn TYPE_WIRED s1 = Some (s1\<lparr>entries := h'\<rparr>)" "pv_rep np M L F K (s1\<lparr>entries := h'\<rparr>)"
    using attributes_ok(2)[OF s1(1) i] pn s1(4) by auto
  define s2 where "s2 = (if \<not> wired then st else if t = 0 then s1\<lparr>entries := h'\<rparr> else add_wired p (-1) st)"
  have "enter_same_page p va pn prot wired a st = Some (set_word a w s2)"
    using w t h'(1) ok by (auto simp: enter_same_page_def s2_def pv_assert_def simp flip: s1_def)
  moreover have "pv_rep np M L F K s2" "same_base st s2" "pt_words s2 = pt_words st" "resident_count s2 = resident_count st" using rep h'(2) s1 by (auto simp: s2_def)
  moreover have "w AND L2_ADDR_MASK = page_frame st i" using pmap_template_frame[OF w] push_bit_frame pn(1) by (simp add: page_frame_def)
  ultimately show ?thesis using that by simp
qed

section \<open>The whole operation\<close>

lemma page_not_fictitious:
  assumes "unat (first_page st) + np \<le> 2 ^ 20" "i < np"
  shows "first_page st + of_nat i \<noteq> vm_page_fictitious_addr"
proof
  assume "first_page st + of_nat i = vm_page_fictitious_addr"
  then have "unat (vm_page_fictitious_addr :: u32) = unat (first_page st) + i" using unat_page[OF assms] by simp
  then have "unat (vm_page_fictitious_addr :: u32) < 2 ^ 20" using assms by linarith
  then show False by (simp add: vm_page_fictitious_addr_def)
qed

lemma expand_loop_ready: "pmap_pte p va st = Some a \<Longrightarrow> a \<noteq> 0 \<Longrightarrow> expand_loop env p va st = Some (a, st)"
  by (subst expand_loop.simps) simp

text \<open>The new entry of the reverse map and of the table, after the old mapping is gone.\<close>

lemma enter_new_ok:
  assumes rep: "pv_rep np M (loose e) F K st" and i: "i < np" and pn: "pn = first_page st + of_nat i" "pn \<noteq> vm_page_fictitious_addr"
    and new: "(p, va) \<notin> set (M i)" "p \<noteq> 0" and av: "F \<noteq> []"
  obtains e' w F' s1 s2 st' where "enter_pv env p va pn wired e Null st = Some (Entered e' Null s1)"
    "enter_pte p va pn prot wired a s1 = Some s2" "enter_done e' Null s2 = Some st'"
    "pv_rep np (M(i := add_behind_head (p, va) (M i))) [] F' K st'" "same_base st st'"
    "pt_words st' = (pt_words st)(a := w)" "w AND L2_ADDR_MASK = page_frame st i"
    "resident_count st' = (resident_count st)(p := resident_count st p + 1)"
proof -
  obtain e' F1 s1 where 1: "enter_pv env p va pn wired e Null st = Some (Entered e' Null s1)"
    "pv_rep np (M(i := add_behind_head (p, va) (M i))) (loose e') F1 K s1" "same_sys st s1" by (rule enter_pv_ok[OF assms])
  have b1: "same_base st s1" "pt_words s1 = pt_words st" using 1(3) same_base_sys by (auto simp: same_sys_def)
  then have pn1: "pn = first_page s1 + of_nat i" using pn(1) by (simp add: same_base_def)
  obtain w s2 where 2: "enter_pte p va pn prot wired a s1 = Some s2" "pv_rep np (M(i := add_behind_head (p, va) (M i))) (loose e') F1 K s2"
    "same_base s1 s2" "pt_words s2 = (pt_words s1)(a := w)" "w AND L2_ADDR_MASK = page_frame s1 i"
    "resident_count s2 = (resident_count s1)(p := resident_count s1 p + 1)" by (rule enter_pte_ok[OF 1(2) i pn1 pn(2)])
  obtain F' st' where 3: "enter_done e' Null s2 = Some st'" "pv_rep np (M(i := add_behind_head (p, va) (M i))) [] F' K st'" "same_sys s2 st'"
    by (rule enter_done_ok[OF 2(2)])
  have "same_base st st'" using same_base_trans[OF same_base_trans[OF b1(1) 2(3)] same_base_sys[OF 3(3)]] .
  moreover have "pt_words st' = (pt_words st)(a := w)" using b1(2) 2(4) 3(3) by (simp add: same_sys_def)
  moreover have "w AND L2_ADDR_MASK = page_frame st i" using 2(5) same_base_page(1)[OF b1(1)] by simp
  moreover have "resident_count st' = (resident_count st)(p := resident_count st p + 1)" using 1(3) 2(6) 3(3) by (simp add: same_sys_def)
  ultimately show ?thesis using that 1(1) 2(1) 3(1,2) by blast
qed

text \<open>Whatever was mapped at the address before, its mapping is taken out of the lists.\<close>

lemma enter_clear_ok:
  assumes rep: "pv_rep np M [] F K st" and np: "unat (first_page st) + np \<le> 2 ^ 20" and i: "i < np" "pn = first_page st + of_nat i" "pn \<noteq> vm_page_fictitious_addr" "pmap_valid_page st pn"
    and old: "old = pt_words st a AND L2_ADDR_MASK" "old = 0 \<or> (\<exists>j < np. old = page_frame st j \<and> pmap_valid_page st (first_page st + of_nat j))" "old \<noteq> page_frame st i"
    and ok: "old \<noteq> 0 \<Longrightarrow> resident_count st p \<ge> 1 \<and> wired_count st p \<ge> 1"
    and inM: "\<And>j. j < np \<Longrightarrow> (p, va) \<in> set (M j) \<longleftrightarrow> pmap_valid_page st (first_page st + of_nat j) \<and> old = page_frame st j"
  obtains e s1 M1 where
    "(if old \<noteq> 0 then enter_replace env p va pn a (pt_words st a) st else Some (Null, st)) = Some (e, s1)"
    "pv_rep np M1 (loose e) F K s1" "same_base st s1" "\<forall>w. (pt_words s1)(a := w) = (pt_words st)(a := w)"
    "M1 i = M i" "\<forall>j < np. j \<noteq> i \<longrightarrow> M1 j = remove1 (p, va) (M j)"
    "resident_count s1 = (resident_count st)(p := resident_count st p - (if old = 0 then 0 else 1))"
proof (cases "old = 0")
  case True
  then have "M j = remove1 (p, va) (M j)" if "j < np" for j using inM[OF that] valid_page_frame[of st j] by (auto simp: remove1_idem)
  then show ?thesis using True rep by (intro that[of Null st M]) auto
next
  case False
  then obtain j where j: "j < np" "old = page_frame st j" "pmap_valid_page st (first_page st + of_nat j)" using old(2) by auto
  have ji: "j \<noteq> i" using old(3) j(2) by auto
  have mj: "(p, va) \<in> set (M j)" using inM[OF j(1)] j by simp
  have "pt_words st a AND L2_ADDR_MASK = page_frame st j" using old(1) j(2) by simp
  then obtain r s1 where r: "enter_replace env p va pn a (pt_words st a) st = Some (r, s1)"
    "pv_rep np (M(j := remove1 (p, va) (M j))) (loose r) F K s1" "same_base st s1" "pt_words s1 = (pt_words st)(a := 0)"
    "resident_count s1 = (resident_count st)(p := resident_count st p - 1)"
    using enter_replace_ok[OF rep i(1-3) j(1) _ mj np i(4), of "pt_words st a" env a] ok[OF False] by blast
  have "remove1 (p, va) (M k) = M k" if "k < np" "k \<noteq> j" for k
    using inM[OF that(1)] page_frame_inj[OF np that(1) j(1)] j(2) that(2) by (auto simp: remove1_idem)
  then show ?thesis using False r ji by (intro that[of r s1 "M(j := remove1 (p, va) (M j))"]) auto
qed

text \<open>The steps that change the state, whatever was mapped at the address before.\<close>

lemma enter_retry_ok:
  assumes wf: "pmap_wf np D M F K st" and i: "i < np" "pn = first_page st + of_nat i" "pmap_valid_page st pn" and m: "(p, va) \<in> D" and av: "F \<noteq> []"
    and old: "old = pt_words st (pte_of st (p, va)) AND L2_ADDR_MASK" "old = 0 \<or> (\<exists>j < np. old = page_frame st j \<and> pmap_valid_page st (first_page st + of_nat j))"
    and ok: "old \<noteq> 0 \<Longrightarrow> resident_count st p \<ge> 1 \<and> wired_count st p \<ge> 1"
  obtains w F' st' where "enter_retry env p va pn prot wired Null st = Some st'" "pv_rep np (enter_lists M i (p, va)) [] F' K st'"
    "same_base st st'" "pt_words st' = (pt_words st)(pte_of st (p, va) := w)" "w AND L2_ADDR_MASK = page_frame st i"
    "resident_count st' = (resident_count st)(p := resident_count st p + (if old = 0 then 1 else 0))"
proof -
  let ?a = "pte_of st (p, va)" and ?m = "(p, va)"
  have rep: "pv_rep np M [] F K st" and t: "tables_ok D st" and co: "coherent D np M st" and init: "pmap_initialized st"
    and np: "unat (first_page st) + np \<le> 2 ^ 20" using wf by (auto simp: pmap_wf_def)
  have fict: "pn \<noteq> vm_page_fictitious_addr" using page_not_fictitious[OF np i(1)] i(2) by simp
  have pte: "pmap_pte p va st = Some ?a" "?a \<noteq> 0" "p \<noteq> 0" using t m by (auto simp: tables_ok_def)
  note run = enter_retry.simps[of env p va pn prot wired Null st, unfolded expand_loop_ready[OF pte(1,2)]]
  have pf: "push_bit 12 pn = page_frame st i" using i(2) by (simp add: page_frame_def)
  have inM: "?m \<in> set (M j) \<longleftrightarrow> pmap_valid_page st (first_page st + of_nat j) \<and> old = page_frame st j" if "j < np" for j
    using co m that old(1) by (auto simp: coherent_def maps_page_def)
  show ?thesis
  proof (cases "old = page_frame st i")
    case True
    have "old \<noteq> 0" using True valid_page_frame i(2,3) by metis
    then obtain w s1 where 1: "enter_same_page p va pn prot wired ?a st = Some s1" "pv_rep np M [] F K s1" "same_base st s1"
      "pt_words s1 = (pt_words st)(?a := w)" "w AND L2_ADDR_MASK = page_frame st i" "resident_count s1 = resident_count st"
      using enter_same_page_ok[OF rep i(1,2) fict] ok by metis
    obtain F' st' where 2: "enter_done Null Null s1 = Some st'" "pv_rep np M [] F' K st'" "same_sys s1 st'"
      using enter_done_ok[of np M Null F K s1, simplified, OF 1(2)] by blast
    have "enter_retry env p va pn prot wired Null st = Some st'" using run True old(1) pf 1(1) 2(1) by simp
    moreover have "enter_lists M i ?m = M" using inM[OF i(1)] i(2,3) True by (simp add: enter_lists_def)
    moreover have "same_base st st'" "pt_words st' = (pt_words st)(?a := w)"
      using same_base_trans[OF 1(3) same_base_sys[OF 2(3)]] 1(4) 2(3) by (auto simp: same_sys_def)
    moreover have "resident_count st' = (resident_count st)(p := resident_count st p + (if old = 0 then 1 else 0))"
      using 1(6) 2(3) \<open>old \<noteq> 0\<close> by (simp add: same_sys_def)
    ultimately show ?thesis using that 1(5) 2(2) by metis
  next
    case False
    have new: "?m \<notin> set (M i)" using inM[OF i(1)] False by simp
    obtain e s1 M1 where 1: "(if old \<noteq> 0 then enter_replace env p va pn ?a (pt_words st ?a) st else Some (Null, st)) = Some (e, s1)"
      and s1: "pv_rep np M1 (loose e) F K s1" "same_base st s1" "\<forall>w. (pt_words s1)(?a := w) = (pt_words st)(?a := w)"
      and M1: "M1 i = M i" "\<forall>j < np. j \<noteq> i \<longrightarrow> M1 j = remove1 ?m (M j)"
      and rc: "resident_count s1 = (resident_count st)(p := resident_count st p - (if old = 0 then 0 else 1))"
      by (rule enter_clear_ok[OF rep np i(1,2) fict i(3) old False ok inM])
    have pn1: "pn = first_page s1 + of_nat i" "pmap_valid_page s1 pn" using same_base_page(2,3)[OF s1(2)] i(2,3) by auto
    have new1: "?m \<notin> set (M1 i)" using new M1(1) by simp
    obtain e' w F' s2 s3 st' where 2: "enter_pv env p va pn wired e Null s1 = Some (Entered e' Null s2)"
      "enter_pte p va pn prot wired ?a s2 = Some s3" "enter_done e' Null s3 = Some st'"
      "pv_rep np (M1(i := add_behind_head ?m (M1 i))) [] F' K st'" "same_base s1 st'"
      "pt_words st' = (pt_words s1)(?a := w)" "w AND L2_ADDR_MASK = page_frame s1 i"
      "resident_count st' = (resident_count s1)(p := resident_count s1 p + 1)"
      by (rule enter_new_ok[OF s1(1) i(1) pn1(1) fict new1 pte(3) av])
    have "enter_retry env p va pn prot wired Null st = Some st'"
      using run False old(1) pf init 1 pn1(2) 2(1-3) by (simp split: if_splits)
    moreover have "pv_rep np (enter_lists M i ?m) [] F' K st'"
      using pv_rep_cong[OF 2(4)] new M1 by (auto simp: enter_lists_def)
    moreover have "same_base st st'" "pt_words st' = (pt_words st)(?a := w)" using same_base_trans[OF s1(2) 2(5)] 2(6) s1(3) by auto
    moreover have "resident_count st' = (resident_count st)(p := resident_count st p + (if old = 0 then 1 else 0))"
      using 2(8) rc by (simp add: fun_eq_iff)
    ultimately show ?thesis using that 2(7) same_base_page(1)[OF s1(2)] by metis
  qed
qed

end
