(* ===== verification/Pv_Page_Ok.thy ===== *)
theory Pv_Page_Ok
  imports Pv_Tables
begin

text \<open>
  Taking a page away from all maps: the walk along the entries of the page clears the table entry of each mapping and takes
  the hashed entries out of queue and hash chain.
\<close>

text \<open>Two heaps with the same mappings, which differ only in some entries and in the links of chains.\<close>

definition moved :: "pvref set \<Rightarrow> pv_heap \<Rightarrow> pv_heap \<Rightarrow> bool" where
  "moved X h h' \<longleftrightarrow> dom h' = dom h \<and> (\<forall>x. mapping (ent h' x) = mapping (ent h x)) \<and> (\<forall>x. x \<notin> X \<longrightarrow> but_nexth (ent h' x) = but_nexth (ent h x))"

lemma moved_trans: "moved X h h' \<Longrightarrow> moved Y h' h'' \<Longrightarrow> moved (X \<union> Y) h h''"
  by (simp add: moved_def)

lemma moved_mono: "moved X h h' \<Longrightarrow> X \<subseteq> Y \<Longrightarrow> moved Y h h'"
  by (auto simp: moved_def)

lemma moved_data: "same_data X h h' \<Longrightarrow> moved X h h'"
proof -
  assume r: "same_data X h h'"
  then have "data (ent h' x) = data (ent h x)" for x by (simp add: same_data_def)
  then have "mapping (ent h' x) = mapping (ent h x)" for x by (rule mapping_eqI(1))
  then show ?thesis using r by (simp add: moved_def same_data_def)
qed

lemma moved_rest: "same_rest h h' \<Longrightarrow> moved X h h'"
proof -
  assume r: "same_rest h h'"
  then have b: "but_nexth (ent h' x) = but_nexth (ent h x)" for x by (simp add: same_rest_def)
  then have "mapping (ent h' x) = mapping (ent h x)" for x by (rule mapping_eqI(2))
  then show ?thesis using r b by (simp add: moved_def same_rest_def)
qed

lemma chain_rep_moved: "moved X h h' \<Longrightarrow> set G \<inter> X = {} \<Longrightarrow> chain_rep h' c G = chain_rep h c G"
proof (rule chain_rep_cong)
  fix x assume "moved X h h'" "set G \<inter> X = {}" "x \<in> set G"
  then have "but_nexth (ent h' x) = but_nexth (ent h x)" by (auto simp: moved_def)
  then show "qnext (ent h' x) = qnext (ent h x)" by (rule but_nexth_fields(1))
qed

lemma pv_hash_remove_ok:
  assumes rg: "ring (entries st) (r # ys @ e # zs)" and bu: "buckets_ok (npvhash st) (entries st) (pv_hash_table st) U B" and e: "e \<in> U"
  obtains h' tbl' B' where "pv_hash_remove e st = Some (st\<lparr>entries := h', pv_hash_table := tbl'\<rparr>)" "ring h' (r # ys @ zs)"
    "buckets_ok (npvhash st) h' tbl' (U - {e}) B'" "moved (set (r # ys @ e # zs)) (entries st) h'"
    "\<forall>x. pv_flags (ent h' x) = pv_flags (ent (entries st) x)"
proof -
  let ?h = "entries st"
  obtain h1 where 1: "remque e st = Some (st\<lparr>entries := h1\<rparr>)" "ring h1 (r # ys @ zs)" "same_data (set (r # ys @ e # zs)) ?h h1"
    by (rule remque_ok[OF rg])
  have "buckets_ok (npvhash st) h1 (pv_hash_table st) U B" by (rule buckets_cong[OF bu same_hash_data[OF 1(3)]])
  then obtain h2 tbl' B' where 2: "pmap_pvh_unlink e (st\<lparr>entries := h1\<rparr>) = Some (st\<lparr>entries := h2, pv_hash_table := tbl'\<rparr>)"
    "buckets_ok (npvhash st) h2 tbl' (U - {e}) B'" "same_rest h1 h2"
    using pmap_pvh_unlink_ok[of "st\<lparr>entries := h1\<rparr>" U B e, simplified, OF _ e] by blast
  have q: "qnext (ent h2 x) = qnext (ent h1 x)" "qprev (ent h2 x) = qprev (ent h1 x)" "pv_flags (ent h2 x) = pv_flags (ent h1 x)" for x
    using 2(3) but_nexth_fields(1,2,5) unfolding same_rest_def by metis+
  have "ring h2 (r # ys @ zs) = ring h1 (r # ys @ zs)" using q 2(3) by (intro ring_cong) (simp add: same_rest_def)
  moreover have "moved (set (r # ys @ e # zs)) ?h h2" using moved_trans[OF moved_data[OF 1(3)] moved_rest[OF 2(3), of "{}"]] by simp
  moreover have "pv_flags (ent h2 x) = pv_flags (ent ?h x)" for x
    using q(3) 1(3) data_fields(3) unfolding same_data_def by metis
  ultimately show ?thesis using that[where h' = h2 and tbl' = tbl' and B' = B'] 1(1,2) 2(1,2) by (simp add: pv_hash_remove_def)
qed

text \<open>One hashed entry: it leaves the tables and joins the list of entries that are free.\<close>

lemma page_step_ok:
  assumes rg: "ring (entries st) (r # e # es)" and bu: "buckets_ok (npvhash st) (entries st) (pv_hash_table st) U B" and e: "e \<in> U" "e \<noteq> Null"
    and c: "chain_rep (entries st) c G" "set G \<inter> set (r # e # es) = {}"
  obtains h' tbl' B' c' where "pv_hash_remove e st \<bind> chain_push e c = Some (c', st\<lparr>entries := h', pv_hash_table := tbl'\<rparr>)"
    "ring h' (r # es)" "buckets_ok (npvhash st) h' tbl' (U - {e}) B'" "chain_rep h' c' (e # G)" "moved (set (r # e # es)) (entries st) h'"
    "\<forall>x. pv_flags (ent h' x) = pv_flags (ent (entries st) x)"
proof -
  let ?h = "entries st"
  have rg': "ring ?h (r # [] @ e # es)" using rg by simp
  obtain h1 tbl' B' where 1: "pv_hash_remove e st = Some (st\<lparr>entries := h1, pv_hash_table := tbl'\<rparr>)" "ring h1 (r # es)"
    "buckets_ok (npvhash st) h1 tbl' (U - {e}) B'" "moved (set (r # e # es)) ?h h1" "\<forall>x. pv_flags (ent h1 x) = pv_flags (ent ?h x)"
    using pv_hash_remove_ok[OF rg' bu e(1)] by (metis append_Nil)
  define s1 where "s1 = st\<lparr>entries := h1, pv_hash_table := tbl'\<rparr>"
  have ed: "e \<in> dom h1" "e \<notin> set (r # es)" using rg 1(4) by (auto simp: ring_def moved_def)
  have c1: "chain_rep (entries s1) c G" using chain_rep_moved[OF 1(4) c(2)] c(1) by (simp add: s1_def)
  define h2 where "h2 = h1(e \<mapsto> (ent h1 e)\<lparr>qnext := pvh_eh c\<rparr>)"
  obtain c' where 2: "chain_push e c s1 = Some (c', s1\<lparr>entries := h2\<rparr>)" "chain_rep h2 c' (e # G)"
    using chain_push_ok[OF c1] ed e(2) c(2) by (auto simp: s1_def h2_def)
  have same: "h2 x = h1 x" if "x \<noteq> e" for x using that by (simp add: h2_def)
  have "ring h2 (r # es) = ring h1 (r # es)"
  proof (rule ring_cong)
    fix x assume "x \<in> set (r # es)"
    then have "h2 x = h1 x" using ed(2) same by metis
    then show "(x \<in> dom h2) = (x \<in> dom h1) \<and> qnext (ent h2 x) = qnext (ent h1 x) \<and> qprev (ent h2 x) = qprev (ent h1 x)" by (simp add: domIff)
  qed
  moreover have "same_hash (U - {e}) h1 h2" using same by (auto simp: same_hash_def domIff)
  moreover have m2: "moved {e} h1 h2" using ed(1) by (auto simp: moved_def h2_def mapping_def)
  moreover have "moved (set (r # e # es)) ?h h2" using moved_trans[OF 1(4) m2] by (simp add: insert_commute insert_absorb)
  moreover have "pv_flags (ent h2 x) = pv_flags (ent ?h x)" for x using 1(5) by (simp add: h2_def)
  moreover have "pv_hash_remove e st \<bind> chain_push e c = Some (c', st\<lparr>entries := h2, pv_hash_table := tbl'\<rparr>)" using 1(1) 2(1) by (simp add: s1_def)
  ultimately show ?thesis using that[where h' = h2 and tbl' = tbl' and B' = B' and c' = c'] 1(2,3) 2(2) buckets_cong by blast
qed

text \<open>The references and modifications that are noted for the page are forgotten.\<close>

lemma clear_flags_ok:
  assumes "pai_to_pvh st pn = Root i" "pn \<noteq> vm_page_fictitious_addr" "Root i \<in> dom (entries st)"
  obtains h' where "phys_attribute_clear pn b st = Some (st\<lparr>entries := h'\<rparr>)" "moved {Root i} (entries st) h'"
    "\<forall>x. qnext (ent h' x) = qnext (ent (entries st) x) \<and> qprev (ent h' x) = qprev (ent (entries st) x) \<and> nexth (ent h' x) = nexth (ent (entries st) x)"
    "pv_flags (ent h' (Root i)) = pv_flags (ent (entries st) (Root i)) AND NOT b"
proof -
  let ?h = "entries st"
  let ?h' = "?h(Root i \<mapsto> (ent ?h (Root i))\<lparr>pv_flags := pv_flags (ent ?h (Root i)) AND NOT b\<rparr>)"
  have "phys_attribute_clear pn b st = Some (st\<lparr>entries := ?h'\<rparr>)" using assms by (auto simp: phys_attribute_clear_def pv_assert_def upd_entry_def)
  moreover have "moved {Root i} ?h ?h'" using assms(3) by (auto simp: moved_def mapping_def)
  ultimately show ?thesis using that[of ?h'] by simp
qed

lemma same_hash_moved:
  assumes "moved X h h'" "\<forall>x. nexth (ent h' x) = nexth (ent h x)"
  shows "same_hash E h h'"
proof -
  have "pv_pmap (ent h' x) = pv_pmap (ent h x)" "pv_va (ent h' x) = pv_va (ent h x)" for x
    using assms(1) by (simp_all add: moved_def mapping_def)
  then show ?thesis using assms by (simp add: same_hash_def moved_def)
qed

section \<open>The walk\<close>

definition refmod :: u32 where "refmod = TYPE_REFERENCED OR TYPE_MODIFIED"

definition count_pmap :: "pv_heap \<Rightarrow> pvref list \<Rightarrow> u32 \<Rightarrow> int" where
  "count_pmap h es p = int (length (filter (\<lambda>e. pv_pmap (ent h e) = p) es))"

definition zeroed :: "pv_state \<Rightarrow> (u32 \<times> u32) set \<Rightarrow> u32 \<Rightarrow> u32" where
  "zeroed st ms a = (if a \<in> pte_of st ` ms then 0 else pt_words st a)"

text \<open>What the walk leaves: the table entries of the mappings are zero, they are no longer counted.\<close>

definition page_cleared :: "pv_heap \<Rightarrow> pvref list \<Rightarrow> pv_heap \<Rightarrow> pvref list \<Rightarrow> pv_state \<Rightarrow> pv_state" where
  "page_cleared h es h' tbl' st =
     st\<lparr>entries := h', pv_hash_table := tbl', pt_words := zeroed st ((\<lambda>e. mapping (ent h e)) ` set es),
        resident_count := (\<lambda>p. resident_count st p - count_pmap h es p)\<rparr>"

definition walk_ok :: "(u32 \<times> u32) set \<Rightarrow> u32 \<Rightarrow> nat \<Rightarrow> pvref list \<Rightarrow> pv_state \<Rightarrow> bool" where
  "walk_ok D pn i es st \<longleftrightarrow>
     tables_ok D st \<and> pai_to_pvh st pn = Root i \<and> pn \<noteq> vm_page_fictitious_addr \<and> Root i \<in> dom (entries st) \<and>
     (\<forall>e \<in> set es. mapping (ent (entries st) e) \<in> D) \<and> (\<forall>p. count_pmap (entries st) es p \<le> resident_count st p)"

text \<open>What all iterations have in common.\<close>

lemma page_iteration:
  assumes ok: "walk_ok D pn i (e # es) st" and e: "e \<in> dom (entries st)" and bu: "buckets_ok (npvhash st) (entries st) (pv_hash_table st) U B"
    and x: "entries st e = Some x" "a = pte_of st (mapping x)"
  obtains h1 s1 where "phys_attribute_clear pn refmod (set_word a 0 st) = Some s1" "resident_count s1 (pv_pmap x) \<ge> 1"
    "add_resident (pv_pmap x) (-1) s1 = page_cleared (entries st) [e] h1 (pv_hash_table st) st"
    "pmap_pte (pv_pmap x) (pv_va x) st = Some a" "a \<noteq> 0"
    "buckets_ok (npvhash st) h1 (pv_hash_table st) U B" "moved {Root i} (entries st) h1" "pv_flags (ent h1 (Root i)) AND refmod = 0"
    "\<forall>x. qnext (ent h1 x) = qnext (ent (entries st) x) \<and> qprev (ent h1 x) = qprev (ent (entries st) x)"
proof -
  let ?h = "entries st"
  have mD: "mapping x \<in> D" using ok x by (simp add: walk_ok_def)
  have pte: "pmap_pte (pv_pmap x) (pv_va x) st = Some a" "a \<noteq> 0" using ok mD x(2) by (auto simp: walk_ok_def tables_ok_def mapping_def)
  have ps: "pai_to_pvh (set_word a 0 st) pn = Root i" using ok by (simp add: walk_ok_def pai_to_pvh_def set_word_def)
  have pn: "pn \<noteq> vm_page_fictitious_addr" "Root i \<in> dom (entries (set_word a 0 st))" using ok by (simp_all add: walk_ok_def)
  obtain h1 where h1: "phys_attribute_clear pn refmod (set_word a 0 st) = Some ((set_word a 0 st)\<lparr>entries := h1\<rparr>)" "moved {Root i} ?h h1"
    "\<forall>x. qnext (ent h1 x) = qnext (ent ?h x) \<and> qprev (ent h1 x) = qprev (ent ?h x) \<and> nexth (ent h1 x) = nexth (ent ?h x)"
    "pv_flags (ent h1 (Root i)) = pv_flags (ent ?h (Root i)) AND NOT refmod"
    using clear_flags_ok[OF ps pn, of refmod] by (metis state_fields(4))
  have "buckets_ok (npvhash st) h1 (pv_hash_table st) U B" using buckets_cong[OF bu same_hash_moved[OF h1(2)]] h1(3) by blast
  moreover have "count_pmap ?h (e # es) (pv_pmap x) \<ge> 1" using x by (simp add: count_pmap_def)
  then have "resident_count st (pv_pmap x) \<ge> 1" using ok unfolding walk_ok_def by (meson order_trans)
  moreover have "add_resident (pv_pmap x) (-1) ((set_word a 0 st)\<lparr>entries := h1\<rparr>) = page_cleared ?h [e] h1 (pv_hash_table st) st"
    using x by (auto simp: page_cleared_def add_resident_def set_word_def zeroed_def count_pmap_def fun_eq_iff)
  moreover have "pv_flags (ent h1 (Root i)) AND refmod = 0" unfolding h1(4) by (simp add: and.assoc)
  ultimately show ?thesis using that[of "(set_word a 0 st)\<lparr>entries := h1\<rparr>" h1] h1(1,2,3) pte by simp
qed

text \<open>Two parts of the walk, one after the other.\<close>

lemma page_cleared_base: "same_base st (page_cleared h es h' tbl' st)"
  by (simp add: same_base_def page_cleared_def)

lemma page_cleared_append:
  assumes t: "tables_ok D st" and D: "\<forall>e \<in> set (xs @ ys). mapping (ent h e) \<in> D" and m: "\<forall>x \<in> set ys. mapping (ent h1 x) = mapping (ent h x)"
  shows "page_cleared h1 ys h' tbl' (page_cleared h xs h1 tbl1 st) = page_cleared h (xs @ ys) h' tbl' st"
proof -
  let ?s = "page_cleared h xs h1 tbl1 st"
  have p: "pte_of ?s n = pte_of st n" if "n \<in> D" for n
    by (rule tables_stable(2)[OF t page_cleared_base _ that]) (use D in \<open>auto simp: page_cleared_def zeroed_def\<close>)
  have "pte_of ?s ` (\<lambda>e. mapping (ent h e)) ` set ys = pte_of st ` (\<lambda>e. mapping (ent h e)) ` set ys"
    by (intro image_cong refl p) (use D in auto)
  then have "zeroed ?s ((\<lambda>e. mapping (ent h e)) ` set ys) a = zeroed st ((\<lambda>e. mapping (ent h e)) ` set (xs @ ys)) a" for a
    by (auto simp: zeroed_def page_cleared_def image_Un)
  moreover have "filter (\<lambda>e. pv_pmap (ent h1 e) = p) ys = filter (\<lambda>e. pv_pmap (ent h e) = p) ys" for p
    using m by (intro filter_cong) (auto simp: mapping_def)
  moreover have "(\<lambda>e. mapping (ent h1 e)) ` set ys = (\<lambda>e. mapping (ent h e)) ` set ys" using m by (intro image_cong) auto
  ultimately show ?thesis by (simp add: page_cleared_def count_pmap_def fun_eq_iff)
qed

lemma walk_ok_step:
  assumes ok: "walk_ok D pn i (e # es) st" and mv: "dom h' = dom (entries st)" "\<forall>x \<in> set es. mapping (ent h' x) = mapping (ent (entries st) x)"
  shows "walk_ok D pn i es (page_cleared (entries st) [e] h' tbl' st)"
proof -
  let ?s = "page_cleared (entries st) [e] h' tbl' st"
  have "tables_ok D ?s"
    by (rule tables_stable(1)[OF _ page_cleared_base]) (use ok in \<open>auto simp: walk_ok_def page_cleared_def zeroed_def\<close>)
  moreover have "filter (\<lambda>e. pv_pmap (ent h' e) = p) es = filter (\<lambda>e. pv_pmap (ent (entries st) e) = p) es" for p
    using mv(2) by (intro filter_cong) (auto simp: mapping_def)
  then have "count_pmap h' es p = count_pmap (entries st) (e # es) p - count_pmap (entries st) [e] p" for p by (simp add: count_pmap_def)
  ultimately show ?thesis using ok mv
    by (simp add: walk_ok_def page_cleared_def pai_to_pvh_def)
qed

text \<open>The hashed entries of the page.\<close>

lemma page_walk_hashed:
  assumes "es \<noteq> []" "walk_ok D pn i es st" "ring (entries st) (Root i # es)"
    "buckets_ok (npvhash st) (entries st) (pv_hash_table st) (V \<union> set es) B" "V \<inter> set es = {}" "Null \<notin> set es"
    "chain_rep (entries st) c G" "set G \<inter> set (Root i # es) = {}"
  shows "\<exists>c' h' tbl' B'. page_walk True pn (Root i) (hd es) c st = Some (c', page_cleared (entries st) es h' tbl' st) \<and>
     chain_rep h' c' (rev es @ G) \<and> buckets_ok (npvhash st) h' tbl' V B' \<and> ring h' [Root i] \<and>
     moved (insert (Root i) (set es)) (entries st) h' \<and> pv_flags (ent h' (Root i)) AND refmod = 0"
  using assms
proof (induction es arbitrary: st c G B)
  case (Cons e es)
  let ?h = "entries st"
  have di: "distinct (Root i # e # es)" "e \<in> dom ?h" using Cons.prems(3) by (auto simp: ring_def)
  obtain x where x: "?h e = Some x" using di(2) by auto
  define a where "a = pte_of st (mapping x)"
  obtain h1 s1 where 1: "phys_attribute_clear pn refmod (set_word a 0 st) = Some s1" "resident_count s1 (pv_pmap x) \<ge> 1"
    "add_resident (pv_pmap x) (-1) s1 = page_cleared ?h [e] h1 (pv_hash_table st) st"
    "pmap_pte (pv_pmap x) (pv_va x) st = Some a" "a \<noteq> 0"
    "buckets_ok (npvhash st) h1 (pv_hash_table st) (V \<union> set (e # es)) B" "moved {Root i} ?h h1" "pv_flags (ent h1 (Root i)) AND refmod = 0"
    "\<forall>x. qnext (ent h1 x) = qnext (ent ?h x) \<and> qprev (ent h1 x) = qprev (ent ?h x)"
    by (rule page_iteration[OF Cons.prems(2) di(2) Cons.prems(4) x a_def])
  define s2 where "s2 = page_cleared ?h [e] h1 (pv_hash_table st) st"
  have s2: "entries s2 = h1" "pv_hash_table s2 = pv_hash_table st" "npvhash s2 = npvhash st" by (simp_all add: s2_def page_cleared_def)
  have "ring h1 (Root i # e # es) = ring ?h (Root i # e # es)" using 1(7,9) by (intro ring_cong) (simp add: moved_def)
  then have rg: "ring (entries s2) (Root i # e # es)" using Cons.prems(3) s2 by simp
  have bu: "buckets_ok (npvhash s2) (entries s2) (pv_hash_table s2) (V \<union> set (e # es)) B" using 1(6) s2 by simp
  have e: "e \<in> V \<union> set (e # es)" "e \<noteq> Null" using Cons.prems(6) by auto
  have c: "chain_rep (entries s2) c G" using chain_rep_moved[OF 1(7)] Cons.prems(7,8) s2 by auto
  obtain h2 tbl' B' c' where 2: "pv_hash_remove e s2 \<bind> chain_push e c = Some (c', s2\<lparr>entries := h2, pv_hash_table := tbl'\<rparr>)"
    "ring h2 (Root i # es)" "buckets_ok (npvhash s2) h2 tbl' (V \<union> set (e # es) - {e}) B'" "chain_rep h2 c' (e # G)"
    "moved (set (Root i # e # es)) (entries s2) h2" "\<forall>x. pv_flags (ent h2 x) = pv_flags (ent (entries s2) x)"
    by (rule page_step_ok[OF rg bu e c Cons.prems(8)])
  define s3 where "s3 = page_cleared ?h [e] h2 tbl' st"
  have s23: "s2\<lparr>entries := h2, pv_hash_table := tbl'\<rparr> = s3" by (simp add: s2_def s3_def page_cleared_def)
  have s3: "entries s3 = h2" "pv_hash_table s3 = tbl'" "npvhash s3 = npvhash st" by (simp_all add: s3_def page_cleared_def)
  have mv: "moved (insert (Root i) (set (e # es))) ?h h2" using moved_trans[OF 1(7) 2(5)[unfolded s2(1)]] by (simp add: insert_commute)
  have body: "(if True \<or> pv_pmap x = pv_kernel_pmap st then
            do { st \<leftarrow> phys_attribute_clear pn (TYPE_REFERENCED OR TYPE_MODIFIED) (set_word a 0 st);
                 pv_assert (resident_count st (pv_pmap x) \<ge> 1);
                 let st = add_resident (pv_pmap x) (-1) st;
                 (if e = Root i then do { st \<leftarrow> upd_entry (Root i) (\<lambda>h. h\<lparr>pv_pmap := 0\<rparr>) st; Some (c, st) }
                  else do { st \<leftarrow> pv_hash_remove e st; chain_push e c st }) }
          else Some (c, set_word a (pt_words st a OR L2_ACCESS_APX) st)) = Some (c', s3)"
    using 1(1-3) 2(1) di(1) s23 by (auto simp: pv_assert_def refmod_def s2_def)
  have step: "page_walk True pn (Root i) e c st = (if qnext x = Root i then Some (c', s3) else page_walk True pn (Root i) (qnext x) c' s3)"
    using 1(4,5) x body by (subst page_walk.simps) simp
  have V: "V \<union> set (e # es) - {e} = V \<union> set es" using Cons.prems(5) di(1) by auto
  have ok3: "walk_ok D pn i es s3" unfolding s3_def using mv by (intro walk_ok_step[OF Cons.prems(2)]) (auto simp: moved_def)
  show ?case
  proof (cases es)
    case Nil
    have "qnext x = Root i" using Cons.prems(3) Nil x by (simp add: ring_def linked_def)
    then show ?thesis
      using step 2(2-4,6) 1(8) V Nil mv s2 by (intro exI[of _ c'] exI[of _ h2] exI[of _ tbl'] exI[of _ B']) (simp add: s3_def)
  next
    case (Cons f fs)
    have q: "qnext x = f" "f \<noteq> Root i" using Cons.prems(3) Cons x di(1) by (auto simp: ring_def linked_def)
    have G: "set (e # G) \<inter> set (Root i # es) = {}" using Cons.prems(8) di(1) by auto
    have "es \<noteq> []" "ring (entries s3) (Root i # es)" "buckets_ok (npvhash s3) (entries s3) (pv_hash_table s3) (V \<union> set es) B'"
      "V \<inter> set es = {}" "Null \<notin> set es" "chain_rep (entries s3) c' (e # G)"
      using Cons 2(2-4) s3 s2(3) V Cons.prems(5,6) by auto
    from Cons.IH[OF this(1) ok3 this(2-6) G] obtain c'' h' tbl'' B'' where
      3: "page_walk True pn (Root i) (hd es) c' s3 = Some (c'', page_cleared h2 es h' tbl'' s3)" "chain_rep h' c'' (rev es @ e # G)"
        "buckets_ok (npvhash st) h' tbl'' V B''" "ring h' [Root i]" "moved (insert (Root i) (set es)) h2 h'" "pv_flags (ent h' (Root i)) AND refmod = 0"
      unfolding s3 by blast
    have "page_cleared h2 es h' tbl'' s3 = page_cleared ?h ([e] @ es) h' tbl'' st"
      unfolding s3_def using Cons.prems(2) mv by (intro page_cleared_append) (auto simp: walk_ok_def moved_def)
    moreover have "moved (insert (Root i) (set (e # es))) ?h h'" using moved_trans[OF mv 3(5)] by (simp add: insert_commute insert_absorb Un_absorb2)
    ultimately show ?thesis
      using step q 3 Cons by (intro exI[of _ c''] exI[of _ h'] exI[of _ tbl''] exI[of _ B'']) simp
  qed
qed simp

section \<open>The whole page\<close>

text \<open>The rooted entry first.\<close>

lemma page_walk_root:
  assumes ok: "walk_ok D pn i (Root i # es) st" and rg: "ring (entries st) (Root i # es)"
    and bu: "buckets_ok (npvhash st) (entries st) (pv_hash_table st) U B" and U: "Root i \<notin> U"
  obtains h1 where
    "page_walk True pn (Root i) (Root i) c st =
       (let s = page_cleared (entries st) [Root i] h1 (pv_hash_table st) st in
        if es = [] then Some (c, s) else page_walk True pn (Root i) (hd es) c s)"
    "walk_ok D pn i es (page_cleared (entries st) [Root i] h1 (pv_hash_table st) st)" "ring h1 (Root i # es)"
    "buckets_ok (npvhash st) h1 (pv_hash_table st) U B" "dom h1 = dom (entries st)" "pv_pmap (ent h1 (Root i)) = 0"
    "pv_flags (ent h1 (Root i)) AND refmod = 0"
    "\<forall>x. x \<noteq> Root i \<longrightarrow> but_nexth (ent h1 x) = but_nexth (ent (entries st) x)"
proof -
  let ?h = "entries st"
  have di: "distinct (Root i # es)" "Root i \<in> dom ?h" using rg by (auto simp: ring_def)
  obtain x where x: "?h (Root i) = Some x" using di(2) by auto
  define a where "a = pte_of st (mapping x)"
  obtain h0 s1 where 1: "phys_attribute_clear pn refmod (set_word a 0 st) = Some s1" "resident_count s1 (pv_pmap x) \<ge> 1"
    "add_resident (pv_pmap x) (-1) s1 = page_cleared ?h [Root i] h0 (pv_hash_table st) st"
    "pmap_pte (pv_pmap x) (pv_va x) st = Some a" "a \<noteq> 0"
    "buckets_ok (npvhash st) h0 (pv_hash_table st) U B" "moved {Root i} ?h h0" "pv_flags (ent h0 (Root i)) AND refmod = 0"
    "\<forall>x. qnext (ent h0 x) = qnext (ent ?h x) \<and> qprev (ent h0 x) = qprev (ent ?h x)"
    by (rule page_iteration[OF ok di(2) bu x a_def])
  define h1 where "h1 = h0(Root i \<mapsto> (ent h0 (Root i))\<lparr>pv_pmap := 0\<rparr>)"
  have d0: "Root i \<in> dom h0" "dom h0 = dom ?h" using 1(7) di(2) by (auto simp: moved_def)
  have dm: "dom h1 = dom ?h" using d0 by (auto simp: h1_def)
  have q: "qnext (ent h1 x) = qnext (ent ?h x)" "qprev (ent h1 x) = qprev (ent ?h x)" for x using 1(9) by (simp_all add: h1_def)
  have fr: "\<forall>x. x \<noteq> Root i \<longrightarrow> but_nexth (ent h1 x) = but_nexth (ent ?h x)" using 1(7) by (auto simp: moved_def h1_def)
  have "ring h1 (Root i # es) = ring ?h (Root i # es)" using q dm by (intro ring_cong) simp
  then have rg1: "ring h1 (Root i # es)" using rg by simp
  have "same_hash U h0 h1" using U by (auto simp: same_hash_def h1_def)
  then have bu1: "buckets_ok (npvhash st) h1 (pv_hash_table st) U B" using buckets_cong[OF 1(6)] by blast
  have ok1: "walk_ok D pn i es (page_cleared ?h [Root i] h1 (pv_hash_table st) st)"
  proof (rule walk_ok_step[OF ok dm], intro ballI)
    fix y assume "y \<in> set es"
    then have "y \<noteq> Root i" using di(1) by auto
    then have "but_nexth (ent h1 y) = but_nexth (ent ?h y)" using fr by blast
    then show "mapping (ent h1 y) = mapping (ent ?h y)" by (rule mapping_eqI(2))
  qed
  have s: "upd_entry (Root i) (\<lambda>h. h\<lparr>pv_pmap := 0\<rparr>) (page_cleared ?h [Root i] h0 (pv_hash_table st) st) =
      Some (page_cleared ?h [Root i] h1 (pv_hash_table st) st)"
    using d0(1) by (auto simp: upd_entry_def page_cleared_def h1_def)
  have nx: "qnext x = hd (es @ [Root i])" using rg x by (cases es) (auto simp: ring_def linked_def)
  have "page_walk True pn (Root i) (Root i) c st =
       (let s = page_cleared ?h [Root i] h1 (pv_hash_table st) st in
        if es = [] then Some (c, s) else page_walk True pn (Root i) (hd es) c s)"
    using 1(1-5) x s nx di(1) by (subst page_walk.simps) (cases es; auto simp: pv_assert_def refmod_def Let_def)
  moreover have "pv_pmap (ent h1 (Root i)) = 0" "pv_flags (ent h1 (Root i)) AND refmod = 0" using 1(8) by (simp_all add: h1_def)
  ultimately show ?thesis using that ok1 rg1 bu1 dm fr by blast
qed

text \<open>All entries of a page that is mapped.\<close>

lemma page_walk_ok:
  assumes inv: "pv_inv np rows B [] F K st" and i: "i < np" and root: "pv_pmap (ent (entries st) (Root i)) \<noteq> 0"
    and ok: "walk_ok D pn i (Root i # rows i) st"
  obtains c h' tbl' B' where
    "page_walk True pn (Root i) (Root i) empty_chain st = Some (c, page_cleared (entries st) (Root i # rows i) h' tbl' st)"
    "chain_rep h' c (rev (rows i))" "buckets_ok (npvhash st) h' tbl' (used np rows - set (rows i)) B'" "ring h' [Root i]"
    "dom h' = dom (entries st)" "pv_pmap (ent h' (Root i)) = 0" "pv_flags (ent h' (Root i)) AND refmod = 0"
    "\<forall>x. x \<notin> insert (Root i) (set (rows i)) \<longrightarrow> but_nexth (ent h' x) = but_nexth (ent (entries st) x)"
proof -
  let ?h = "entries st" and ?es = "rows i"
  note d = pv_invD[OF inv i]
  have rg: "ring ?h (Root i # ?es)" using d(1) root by (simp add: page_ok_def)
  obtain h1 where 1: "page_walk True pn (Root i) (Root i) empty_chain st =
       (let s = page_cleared ?h [Root i] h1 (pv_hash_table st) st in
        if ?es = [] then Some (empty_chain, s) else page_walk True pn (Root i) (hd ?es) empty_chain s)"
    "walk_ok D pn i ?es (page_cleared ?h [Root i] h1 (pv_hash_table st) st)" "ring h1 (Root i # ?es)"
    "buckets_ok (npvhash st) h1 (pv_hash_table st) (used np rows) B" "dom h1 = dom ?h" "pv_pmap (ent h1 (Root i)) = 0"
    "pv_flags (ent h1 (Root i)) AND refmod = 0" "\<forall>x. x \<noteq> Root i \<longrightarrow> but_nexth (ent h1 x) = but_nexth (ent ?h x)"
    by (rule page_walk_root[OF ok rg d(3) d(7)])
  show ?thesis
  proof (cases "?es = []")
    case True
    then show ?thesis using that[of empty_chain h1 "pv_hash_table st" B] 1 by simp
  next
    case False
    define s where "s = page_cleared ?h [Root i] h1 (pv_hash_table st) st"
    have s: "entries s = h1" "pv_hash_table s = pv_hash_table st" "npvhash s = npvhash st" by (simp_all add: s_def page_cleared_def)
    have U: "used np rows - set ?es \<union> set ?es = used np rows" using d(4) by auto
    have nn: "Null \<notin> set ?es" using d(4,8) by auto
    have ok1: "walk_ok D pn i ?es s" using 1(2) by (simp add: s_def)
    have "\<exists>c' h' tbl' B'. page_walk True pn (Root i) (hd ?es) empty_chain s = Some (c', page_cleared (entries s) ?es h' tbl' s) \<and>
        chain_rep h' c' (rev ?es @ []) \<and> buckets_ok (npvhash s) h' tbl' (used np rows - set ?es) B' \<and> ring h' [Root i] \<and>
        moved (insert (Root i) (set ?es)) (entries s) h' \<and> pv_flags (ent h' (Root i)) AND refmod = 0"
      by (rule page_walk_hashed[OF False ok1]) (use 1(3,4) s U nn in auto)
    then obtain c h' tbl' B' where 2: "page_walk True pn (Root i) (hd ?es) empty_chain s = Some (c, page_cleared h1 ?es h' tbl' s)"
      "chain_rep h' c (rev ?es)" "buckets_ok (npvhash st) h' tbl' (used np rows - set ?es) B'" "ring h' [Root i]"
      "moved (insert (Root i) (set ?es)) h1 h'" "pv_flags (ent h' (Root i)) AND refmod = 0" unfolding s by auto
    have m1: "\<forall>x \<in> set ?es. mapping (ent h1 x) = mapping (ent ?h x)"
    proof
      fix y assume "y \<in> set ?es"
      then have "y \<noteq> Root i" using rg by (auto simp: ring_def)
      then show "mapping (ent h1 y) = mapping (ent ?h y)" using 1(8) mapping_eqI(2) by blast
    qed
    have "page_cleared h1 ?es h' tbl' s = page_cleared ?h ([Root i] @ ?es) h' tbl' st"
      unfolding s_def by (rule page_cleared_append[OF _ _ m1]) (use ok in \<open>auto simp: walk_ok_def\<close>)
    moreover have "pv_pmap (ent h' (Root i)) = 0" using 2(5) 1(6) by (simp add: moved_def mapping_def)
    moreover have "\<forall>x. x \<notin> insert (Root i) (set ?es) \<longrightarrow> but_nexth (ent h' x) = but_nexth (ent ?h x)" "dom h' = dom ?h"
      using 2(5) 1(5,8) by (simp_all add: moved_def)
    ultimately show ?thesis using that[of c h' tbl' B'] 1(1) 2 False by (simp add: s_def Let_def)
  qed
qed

text \<open>A page leaves all maps: table entries that named it name no page any more.\<close>

lemma coherent_clear:
  assumes co: "coherent D np M st" and t: "tables_ok D st" and b: "same_base st st'" and i: "i < np" and np: "unat (first_page st) + np \<le> 2 ^ 20"
    and w: "pt_words st' = zeroed st (set (M i))"
  shows "coherent D np (M(i := [])) st'" "tables_ok D st'"
proof -
  have MD: "set (M i) \<subseteq> D" using co i by (auto simp: coherent_def)
  have out: "pt_words st' a = pt_words st a" if "a \<notin> pte_of st ` D" for a using that w MD by (auto simp: zeroed_def)
  show "tables_ok D st'" by (rule tables_stable(1)[OF t b out])
  have p: "pte_of st' n = pte_of st n" if "n \<in> D" for n by (rule tables_stable(2)[OF t b out that])
  have inj: "pte_of st n \<in> pte_of st ` set (M i) \<longleftrightarrow> n \<in> set (M i)" if "n \<in> D" for n
    using t that MD by (auto simp: tables_ok_def inj_on_def)
  show "coherent D np (M(i := [])) st'" unfolding coherent_def
  proof (intro allI impI)
    fix j assume j: "j < np"
    have mp: "maps_page st' n j \<longleftrightarrow> maps_page st n j \<and> n \<notin> set (M i)" if "n \<in> D" "pmap_valid_page st (first_page st + of_nat j)" for n
      using p[OF that(1)] inj[OF that(1)] w valid_page_frame[OF that(2)] same_base_page(1)[OF b] by (auto simp: maps_page_def zeroed_def)
    have old: "set (M k) = {n \<in> D. pmap_valid_page st (first_page st + of_nat k) \<and> maps_page st n k}" if "k < np" for k
      using co that by (simp add: coherent_def)
    have dis: "n \<notin> set (M i)" if "n \<in> set (M j)" "j \<noteq> i" for n
      using that old[OF j] old[OF i] page_frame_inj[OF np j i] by (auto simp: maps_page_def)
    show "set ((M(i := [])) j) = {n \<in> D. pmap_valid_page st' (first_page st' + of_nat j) \<and> maps_page st' n j}"
      unfolding same_base_page(2,3)[OF b] using mp old[OF j] dis by auto
  qed
qed

lemma pv_rep_fields:
  assumes "pv_rep np M L F K st" "entries st' = entries st" "npvhash st' = npvhash st" "gPhysBase st' = gPhysBase st" "pv_hash_table st' = pv_hash_table st"
    "pv_hashed_free_list st' = pv_hashed_free_list st" "pv_hashed_free_count st' = pv_hashed_free_count st"
    "pv_hashed_kern_free_list st' = pv_hashed_kern_free_list st" "pv_hashed_kern_free_count st' = pv_hashed_kern_free_count st"
  shows "pv_rep np M L F K st'"
  using assms by (simp add: pv_rep_def pv_inv_def lists_ok_def)

text \<open>The mappings of each map are counted.\<close>

definition counted :: "(u32 \<times> u32) list \<Rightarrow> pv_state \<Rightarrow> bool" where
  "counted ms st \<longleftrightarrow> (\<forall>p. int (length (filter (\<lambda>m. fst m = p) ms)) \<le> resident_count st p)"

lemma page_cleared_rep:
  assumes inv: "pv_inv np rows B [] F K st" and M: "\<forall>j < np. M j = page_list (entries st) j (rows j)" and i: "i < np"
    and root: "pv_pmap (ent (entries st) (Root i)) \<noteq> 0" and bu: "buckets_ok (npvhash st) h' tbl' (used np rows - set (rows i)) B'"
    and h': "dom h' = dom (entries st)" "pv_pmap (ent h' (Root i)) = 0"
    "\<forall>x. x \<notin> insert (Root i) (set (rows i)) \<longrightarrow> but_nexth (ent h' x) = but_nexth (ent (entries st) x)"
  shows "pv_rep np (M(i := [])) (rev (rows i)) F K (page_cleared (entries st) es h' tbl' st)"
proof -
  note d = pv_invD[OF inv i]
  have "pv_rep np (M(i := [])) (rev (rows i)) F K (st\<lparr>entries := h', pv_hash_table := tbl'\<rparr>)"
  proof (rule pv_rep_update[OF inv M i])
    have "set (rows j) \<inter> set (rows i) = {}" if "j < np" "j \<noteq> i" for j using inv i that by (auto simp: pv_inv_def pages_ok_def)
    moreover have "used np rows = (\<Union>j \<in> {..<np} - {i}. set (rows j)) \<union> set (rows i)" using i by (auto simp: used_def)
    ultimately have "used np (rows(i := [])) = used np rows - set (rows i)" unfolding used_upd[OF i] by auto
    then show "buckets_ok (npvhash st) h' tbl' (used np (rows(i := []))) B'" using bu by simp
    show "distinct (rev (rows i))" using d(1) root by (simp add: page_ok_def ring_def)
    show "page_ok h' (first_page st) i []" using h' d(2) by (simp add: page_ok_def page_list_def)
  qed (use h' in \<open>auto simp: page_list_def\<close>)
  then show ?thesis by (rule pv_rep_fields) (simp_all add: page_cleared_def)
qed

lemma pmap_page_protect_ok:
  assumes wf: "pmap_wf np D M F K st" and i: "i < np" "pn = first_page st + of_nat i" "pmap_valid_page st pn" "pn \<noteq> vm_page_fictitious_addr"
    and prot: "prot \<notin> {1, 5, 7}" and cnt: "counted (M i) st"
  obtains F' st' h where "pmap_page_protect pn prot st = Some st'" "pmap_wf np D (M(i := [])) F' K st'" "same_base st st'"
    "entries st' (Root i) = Some h" "pv_pmap h = 0" "M i \<noteq> [] \<Longrightarrow> pv_flags h AND refmod = 0"
    "resident_count st' = (\<lambda>p. resident_count st p - int (length (filter (\<lambda>m. fst m = p) (M i))))"
proof -
  let ?h = "entries st"
  have rep: "pv_rep np M [] F K st" and t: "tables_ok D st" and co: "coherent D np M st" and init: "pmap_initialized st"
    and np: "unat (first_page st) + np \<le> 2 ^ 20" using wf by (auto simp: pmap_wf_def)
  obtain rows B where inv: "pv_inv np rows B [] F K st" and M: "\<forall>j < np. M j = page_list ?h j (rows j)" using rep by (auto simp: pv_rep_def)
  note d = pv_invD[OF inv i(1)]
  obtain x where x: "?h (Root i) = Some x" using d(2) by auto
  have pr: "pai_to_pvh st pn = Root i" using pai_to_pvh_page[OF rep i(1)] i(2) by simp
  note run = pmap_page_protect_def[of pn prot st, unfolded pr]
  show ?thesis
  proof (cases "pv_pmap x = 0")
    case True
    then have "M i = []" using M i(1) x by (simp add: page_list_def)
    moreover from this have "M(i := []) = M" by auto
    moreover have "pmap_page_protect pn prot st = Some st" using run x True init i(3,4) prot by (simp add: pv_assert_def)
    ultimately show ?thesis using that[of st F x] wf x True by simp
  next
    case False
    let ?es = "Root i # rows i"
    have Mi: "M i = map (\<lambda>e. mapping (ent ?h e)) ?es" using M i(1) x False by (simp add: page_list_def)
    have "filter (\<lambda>m. fst m = p) (map (\<lambda>e. mapping (ent ?h e)) ?es) = map (\<lambda>e. mapping (ent ?h e)) (filter (\<lambda>e. pv_pmap (ent ?h e) = p) ?es)" for p
      by (simp add: filter_map o_def mapping_def)
    then have cp: "count_pmap ?h ?es p = int (length (filter (\<lambda>m. fst m = p) (M i)))" for p unfolding Mi by (metis count_pmap_def length_map)
    then have "count_pmap ?h ?es p \<le> resident_count st p" for p using cnt by (simp add: counted_def)
    moreover have "mapping (ent ?h e) \<in> D" if "e \<in> set ?es" for e
    proof -
      have "mapping (ent ?h e) \<in> set (M i)" unfolding Mi using that by auto
      then show ?thesis using co i(1) by (auto simp: coherent_def)
    qed
    ultimately have ok: "walk_ok D pn i ?es st" using t pr i(4) d(2) by (auto simp: walk_ok_def)
    have root: "pv_pmap (ent ?h (Root i)) \<noteq> 0" using x False by simp
    obtain c h' tbl' B' where 1: "page_walk True pn (Root i) (Root i) empty_chain st = Some (c, page_cleared ?h ?es h' tbl' st)"
      "chain_rep h' c (rev (rows i))" "buckets_ok (npvhash st) h' tbl' (used np rows - set (rows i)) B'" "ring h' [Root i]"
      "dom h' = dom ?h" "pv_pmap (ent h' (Root i)) = 0" "pv_flags (ent h' (Root i)) AND refmod = 0"
      "\<forall>x. x \<notin> insert (Root i) (set (rows i)) \<longrightarrow> but_nexth (ent h' x) = but_nexth (ent ?h x)"
      by (rule page_walk_ok[OF inv i(1) root ok])
    define s1 where "s1 = page_cleared ?h ?es h' tbl' st"
    have s1: "entries s1 = h'" "pt_words s1 = zeroed st (set (M i))" "same_base st s1"
      using Mi page_cleared_base by (auto simp: s1_def) (simp_all add: page_cleared_def)
    obtain y where y: "h' (Root i) = Some y" using 1(5) d(2) by blast
    have fix_root: "page_fix_root (Root i) c s1 = Some (c, s1)" using y 1(4,6) s1(1) by (simp add: page_fix_root_def ring_def linked_def)
    have "pv_rep np (M(i := [])) (rev (rows i) @ []) F K s1"
      unfolding s1_def using page_cleared_rep[OF inv M i(1) root 1(3,5,6,8)] by simp
    then obtain st' where 2: "chain_free c s1 = Some st'" "pv_rep np (M(i := [])) [] (rev (rows i) @ F) K st'" "same_sys s1 st'"
      "\<And>j. entries st' (Root j) = entries s1 (Root j)" using chain_free_ok 1(2) s1(1) by blast
    have b: "same_base st st'" by (rule same_base_trans[OF s1(3) same_base_sys[OF 2(3)]])
    have "pt_words st' = zeroed st (set (M i))" using 2(3) s1(2) by (simp add: same_sys_def)
    note cl = coherent_clear[OF co t b i(1) np this]
    have "pmap_wf np D (M(i := [])) (rev (rows i) @ F) K st'" using 2(2) cl b init np by (simp add: pmap_wf_def same_base_def)
    moreover have "pmap_page_protect pn prot st = Some st'"
      using run x False init i(3,4) prot 1(1) fix_root 2(1) by (simp add: pv_assert_def s1_def)
    moreover obtain z where "entries st' (Root i) = Some z" "pv_pmap z = 0" "pv_flags z AND refmod = 0"
      using 2(4) s1(1) y 1(6,7) by (metis option.sel)
    moreover have "resident_count st' = (\<lambda>p. resident_count st p - int (length (filter (\<lambda>m. fst m = p) (M i))))"
      using 2(3) cp by (simp add: same_sys_def s1_def page_cleared_def)
    ultimately show ?thesis using that b by metis
  qed
qed

end
