(* ===== verification/Pv_Range_Ok.thy ===== *)
theory Pv_Range_Ok
  imports Pv_Enter_Ok Pv_Page_Ok
begin

text \<open>
  Counting the mappings of a map, and removing those of a range of addresses: the loop visits the table entries one by one and
  collects the entries of the reverse map that become free.
\<close>

section \<open>Counting mappings\<close>

definition of_pmap :: "u32 \<Rightarrow> (u32 \<times> u32) list \<Rightarrow> int" where
  "of_pmap p ms = int (length (filter (\<lambda>m. fst m = p) ms))"

definition total_maps :: "nat \<Rightarrow> (nat \<Rightarrow> (u32 \<times> u32) list) \<Rightarrow> u32 \<Rightarrow> int" where
  "total_maps np M p = (\<Sum>i < np. of_pmap p (M i))"

lemma of_pmap_simps: "of_pmap p (add_behind_head m xs) = of_pmap p xs + (if fst m = p then 1 else 0)"
    "of_pmap p (remove1 m xs) = of_pmap p xs - (if fst m = p \<and> m \<in> set xs then 1 else 0)" "of_pmap p xs \<ge> 0"
proof -
  show "of_pmap p (add_behind_head m xs) = of_pmap p xs + (if fst m = p then 1 else 0)"
    by (cases xs) (simp_all add: of_pmap_def add_behind_head_def)
  have "filter (\<lambda>m. fst m = p) (remove1 m xs) = remove1 m (filter (\<lambda>m. fst m = p) xs)" by (induction xs) auto
  moreover have "m \<in> set (filter (\<lambda>m. fst m = p) xs) \<Longrightarrow> length (filter (\<lambda>m. fst m = p) xs) \<ge> 1" by (cases "filter (\<lambda>m. fst m = p) xs") auto
  ultimately show "of_pmap p (remove1 m xs) = of_pmap p xs - (if fst m = p \<and> m \<in> set xs then 1 else 0)"
    by (auto simp: of_pmap_def length_remove1 of_nat_diff)
  show "of_pmap p xs \<ge> 0" by (simp add: of_pmap_def)
qed

lemma total_ge: "i < np \<Longrightarrow> of_pmap p (M i) \<le> total_maps np M p"
  unfolding total_maps_def by (rule member_le_sum) (auto simp: of_pmap_simps(3))

lemma total_remove: "i < np \<Longrightarrow> total_maps np (M(i := [])) p = total_maps np M p - of_pmap p (M i)"
  by (simp add: total_maps_def sum.remove[of "{..<np}" i] of_pmap_def)

lemma total_enter:
  assumes i: "i < np" and m: "fst m = q"
  shows "total_maps np (enter_lists M i m) p \<le> total_maps np M p + (if p = q \<and> (\<forall>j < np. m \<notin> set (M j)) then 1 else 0)"
proof (cases "m \<in> set (M i)")
  case True
  then show ?thesis by (simp add: enter_lists_def)
next
  case False
  let ?a = "if fst m = p then 1 else 0 :: int"
  have E: "of_pmap p (enter_lists M i m j) = of_pmap p (M j) + (if j = i then ?a else 0) - (if j \<noteq> i \<and> m \<in> set (M j) then ?a else 0)" for j
    using False by (auto simp: enter_lists_def of_pmap_simps)
  show ?thesis
  proof (cases "\<exists>k < np. m \<in> set (M k)")
    case True
    then obtain k where k: "k < np" "m \<in> set (M k)" by blast
    have ki: "k \<noteq> i" using k(2) False by auto
    have "of_pmap p (enter_lists M i m j) \<le> of_pmap p (M j) + ((if j = i then ?a else 0) - (if j = k then ?a else 0))" for j
      using E[of j] k(2) ki by auto
    then have "total_maps np (enter_lists M i m) p \<le> (\<Sum>j < np. of_pmap p (M j) + ((if j = i then ?a else 0) - (if j = k then ?a else 0)))"
      unfolding total_maps_def by (intro sum_mono)
    also have "\<dots> = total_maps np M p" using i k(1) by (simp add: total_maps_def sum.distrib sum_subtractf)
    finally show ?thesis using k by auto
  next
    case False
    have "of_pmap p (enter_lists M i m j) \<le> of_pmap p (M j) + (if j = i then ?a else 0)" for j using E[of j] by auto
    then have "total_maps np (enter_lists M i m) p \<le> (\<Sum>j < np. of_pmap p (M j) + (if j = i then ?a else 0))" unfolding total_maps_def by (intro sum_mono)
    also have "\<dots> = total_maps np M p + ?a" using i by (simp add: total_maps_def sum.distrib)
    finally show ?thesis using False m by auto
  qed
qed

section \<open>One table entry\<close>

lemma clear_attribute_ok:
  assumes rep: "pv_rep np M L F K st" and i: "i < np" and pn: "pn = first_page st + of_nat i" "pn \<noteq> vm_page_fictitious_addr"
  obtains h' where "phys_attribute_clear pn b st = Some (st\<lparr>entries := h'\<rparr>)" "pv_rep np M L F K (st\<lparr>entries := h'\<rparr>)"
    "\<forall>x. qnext (ent h' x) = qnext (ent (entries st) x)"
proof -
  obtain h' where 1: "phys_attribute_clear pn b st = Some (st\<lparr>entries := h'\<rparr>)" "pv_rep np M L F K (st\<lparr>entries := h'\<rparr>)"
    using attributes_ok(3)[OF rep i pn] by blast
  have "pai_to_pvh st pn = Root i" "Root i \<in> dom (entries st)" using pai_to_pvh_page[OF rep i] pn(1) pv_rep_root[OF rep i] by auto
  then obtain h2 where 2: "phys_attribute_clear pn b st = Some (st\<lparr>entries := h2\<rparr>)" "\<forall>x. qnext (ent h2 x) = qnext (ent (entries st) x)"
    using clear_flags_ok[of st pn i b] pn(2) by metis
  have "entries (st\<lparr>entries := h'\<rparr>) = entries (st\<lparr>entries := h2\<rparr>)" using 1(1) 2(1) by simp
  then show ?thesis using that 1 2(2) by simp
qed

lemma chain_push_rep:
  assumes rep: "pv_rep np M (e # G) F K st" and c: "chain_rep (entries st) c G"
  obtains c' st' where "chain_push e c st = Some (c', st')" "pv_rep np M (e # G) F K st'" "chain_rep (entries st') c' (e # G)" "same_sys st st'"
proof -
  note d = pv_repD[OF rep]
  let ?h = "(entries st)(e \<mapsto> (ent (entries st) e)\<lparr>qnext := pvh_eh c\<rparr>)"
  have e: "e \<in> dom (entries st)" "e \<noteq> Null" "e \<notin> set G" "e \<notin> set F" "e \<notin> set K" using d(5) d(6)[of e] by auto
  obtain c' where 1: "chain_push e c st = Some (c', st\<lparr>entries := ?h\<rparr>)" "chain_rep ?h c' (e # G)" by (rule chain_push_ok[OF c e(1-3)])
  have q: "flist ?h a F = flist (entries st) a F" "flist ?h a K = flist (entries st) a K" for a
    using e(4,5) by (intro flist_cong; auto)+
  have "pv_rep np M (e # G) F K (st\<lparr>entries := ?h\<rparr>)"
    by (rule pv_rep_lists[OF rep]) (use d e(1) q in auto)
  then show ?thesis using that 1 by simp
qed

text \<open>The entry of a managed page: its mapping leaves table and reverse map.\<close>

lemma remove_hit:
  assumes rep: "pv_rep np M G F K st" and c: "chain_rep (entries st) c G" and init: "pmap_initialized st"
    and j: "j < np" "pa_index (pt_words st cpte AND L2_ADDR_MASK) = pn" "pn = first_page st + of_nat j" "pn \<noteq> vm_page_fictitious_addr" "pn \<noteq> 0"
    "pmap_valid_page st pn" and m: "(p, va) \<in> set (M j)"
  obtains u c' G' st' where
    "remove_loop env (Suc n) p va cpte page c removed unwired st = remove_loop env n p (va + page) (cpte + 4) page c' (removed + 1) (unwired + u) st'"
    "u = 0 \<or> u = 1" "pv_rep np (M(j := remove1 (p, va) (M j))) G' F K st'" "chain_rep (entries st') c' G'" "same_base st st'"
    "pt_words st' = (pt_words st)(cpte := 0)" "resident_count st' = resident_count st" "wired_count st' = wired_count st"
proof -
  obtain w where w: "phys_attribute_test pn TYPE_WIRED st = Some w" using attributes_ok(1)[OF rep j(1) j(3,4)] by blast
  obtain h' where h': "phys_attribute_clear pn TYPE_WIRED st = Some (st\<lparr>entries := h'\<rparr>)" "pv_rep np M G F K (st\<lparr>entries := h'\<rparr>)"
    "\<forall>x. qnext (ent h' x) = qnext (ent (entries st) x)" by (rule clear_attribute_ok[OF rep j(1) j(3,4)])
  define s1 where "s1 = (if w \<noteq> 0 then st\<lparr>entries := h'\<rparr> else st)"
  have a: "(if w \<noteq> 0 then phys_attribute_clear pn TYPE_WIRED st else Some st) = Some s1" using h'(1) by (simp add: s1_def)
  define s2 where "s2 = set_word cpte 0 s1"
  have s2: "pv_rep np M G F K s2" "same_base st s2" "pt_words s2 = (pt_words st)(cpte := 0)" "resident_count s2 = resident_count st"
    "wired_count s2 = wired_count st" using rep h'(2) by (auto simp: s1_def s2_def)
  have fp: "first_page s2 = first_page st" "pmap_initialized s2" using s2(2) init by (auto simp: same_base_def)
  have c2: "chain_rep (entries s2) c G" using c h'(3) chain_rep_cong[of G h' "entries st" c] by (auto simp: s1_def s2_def)
  obtain r s3 where 3: "pmap_pv_remove env p va (first_page s2 + of_nat j) (Some (pt_words s2 cpte)) s2 = Some (r, first_page s2 + of_nat j, s3)"
    "pv_rep np (M(j := remove1 (p, va) (M j))) (if r = Null then G else r # G) F K s3" "r = Null \<longleftrightarrow> length (M j) = 1" "same_sys s2 s3"
    "\<forall>x \<in> set G. but_nexth (ent (entries s3) x) = but_nexth (ent (entries s2) x)"
    by (rule pmap_pv_remove_present[OF s2(1) j(1) m])
  have "qnext (ent (entries s3) x) = qnext (ent (entries s2) x)" if "x \<in> set G" for x using 3(5) that by (intro but_nexth_fields(1)) blast
  then have c3: "chain_rep (entries s3) c G" using c2 chain_rep_cong by blast
  have "\<exists>c' G' s4. (if r \<noteq> Null then chain_push r c s3 else Some (c, s3)) = Some (c', s4) \<and>
      pv_rep np (M(j := remove1 (p, va) (M j))) G' F K s4 \<and> chain_rep (entries s4) c' G' \<and> same_sys s3 s4"
  proof (cases "r = Null")
    case False
    then have "pv_rep np (M(j := remove1 (p, va) (M j))) (r # G) F K s3" using 3(2) by simp
    from chain_push_rep[OF this c3] show ?thesis using False by metis
  qed (use 3(2) c3 in auto)
  then obtain c' G' s4 where 4: "(if r \<noteq> Null then chain_push r c s3 else Some (c, s3)) = Some (c', s4)"
    "pv_rep np (M(j := remove1 (p, va) (M j))) G' F K s4" "chain_rep (entries s4) c' G'" "same_sys s3 s4" by blast
  have pv: "pmap_pv_remove env p va pn (Some (pt_words s2 cpte)) s2 = Some (r, pn, s3)" using 3(1) fp(1) j(3) by simp
  have "remove_loop env (Suc n) p va cpte page c removed unwired st =
      remove_loop env n p (va + page) (cpte + 4) page c' (removed + 1) (if w \<noteq> 0 then unwired + 1 else unwired) s4"
    using w a pv 4(1) fp(2) j(2,5,6) by (simp add: Let_def flip: s2_def split del: if_split)
  moreover have ss: "same_sys s2 s4" by (rule same_sys_trans[OF 3(4) 4(4)])
  moreover have "same_base st s4" by (rule same_base_trans[OF s2(2) same_base_sys[OF ss]])
  ultimately show ?thesis using that[of c' "if w \<noteq> 0 then 1 else 0" s4 G'] 4(2,3) s2 by (auto simp: same_sys_def split: if_splits)
qed

section \<open>The range\<close>

text \<open>The table of rooted entries has one for each page that counts as managed.\<close>

definition covers :: "nat \<Rightarrow> pv_state \<Rightarrow> bool" where
  "covers np st \<longleftrightarrow> (\<forall>pn. unat pn < 2 ^ 20 \<and> pmap_valid_page st pn \<longrightarrow> (\<exists>j < np. pn = first_page st + of_nat j))"

definition range_maps :: "u32 \<Rightarrow> u32 \<Rightarrow> nat \<Rightarrow> (u32 \<times> u32) set" where
  "range_maps p va n = (\<lambda>k. (p, va + of_nat k * 0x1000)) ` {..<n}"

lemma range_maps_Suc: "range_maps p va (Suc n) = insert (p, va) (range_maps p (va + 0x1000) n)"
proof -
  have "{..<Suc n} = insert 0 (Suc ` {..<n})" by (auto simp: lessThan_Suc_eq_insert_0)
  then show ?thesis by (auto simp: range_maps_def image_image algebra_simps)
qed

lemma frame_of_index: "push_bit 12 (pa_index (w AND L2_ADDR_MASK)) = w AND L2_ADDR_MASK" "unat (pa_index w) < 2 ^ 20"
proof -
  have m: "L2_ADDR_MASK = NOT (mask 12)" by (simp add: L2_ADDR_MASK_def mask_eq_exp_minus_1)
  show "push_bit 12 (pa_index (w AND L2_ADDR_MASK)) = w AND L2_ADDR_MASK"
    unfolding m pa_index_def by (rule bit_word_eqI) (auto simp: bit_simps)
  have "unat w < 2 ^ LENGTH(32)" by (rule unsigned_less)
  then show "unat (pa_index w) < 2 ^ 20" by (simp add: pa_index_def drop_bit_eq_div unat_div)
qed

lemma coherent_drop:
  assumes co: "coherent D np M st" and t: "tables_ok D st" and b: "same_base st st'" and m: "m \<in> D"
    and w: "pt_words st' = (pt_words st)(pte_of st m := 0)" and M': "\<And>j. j < np \<Longrightarrow> set (M' j) = set (M j) - {m}"
  shows "coherent D np M' st'" "tables_ok D st'" "\<And>n. n \<in> D \<Longrightarrow> pte_of st' n = pte_of st n"
proof -
  have out: "pt_words st' a = pt_words st a" if "a \<notin> pte_of st ` D" for a using that w m by auto
  show "tables_ok D st'" by (rule tables_stable(1)[OF t b out])
  show p: "pte_of st' n = pte_of st n" if "n \<in> D" for n by (rule tables_stable(2)[OF t b out that])
  have pi: "pte_of st n = pte_of st m \<longleftrightarrow> n = m" if "n \<in> D" for n using t m that by (auto simp: tables_ok_def inj_on_def)
  show "coherent D np M' st'" unfolding coherent_def
  proof (intro allI impI)
    fix j assume j: "j < np"
    have mp: "maps_page st' n j \<longleftrightarrow> maps_page st n j \<and> n \<noteq> m" if "n \<in> D" "pmap_valid_page st (first_page st + of_nat j)" for n
      using p[OF that(1)] pi[OF that(1)] w valid_page_frame[OF that(2)] same_base_page(1)[OF b] by (auto simp: maps_page_def)
    have old: "set (M j) = {n \<in> D. pmap_valid_page st (first_page st + of_nat j) \<and> maps_page st n j}" using co j by (simp add: coherent_def)
    show "set (M' j) = {n \<in> D. pmap_valid_page st' (first_page st' + of_nat j) \<and> maps_page st' n j}"
      unfolding M'[OF j] old same_base_page(2,3)[OF b] using mp by auto
  qed
qed

text \<open>The state of the loop: as between two operations, with the entries that became free not yet on the free list.\<close>

definition range_wf :: "nat \<Rightarrow> (u32 \<times> u32) set \<Rightarrow> (nat \<Rightarrow> (u32 \<times> u32) list) \<Rightarrow> pvref list \<Rightarrow> pvref list \<Rightarrow> free_chain \<Rightarrow> pvref list \<Rightarrow> pv_state \<Rightarrow> bool" where
  "range_wf np D M F K c G st \<longleftrightarrow>
     pv_rep np M G F K st \<and> chain_rep (entries st) c G \<and> tables_ok D st \<and> coherent D np M st \<and> pmap_initialized st \<and>
     unat (first_page st) + np \<le> 2 ^ 20 \<and> covers np st"

lemma covers_base: "same_base st st' \<Longrightarrow> covers np st' = covers np st"
  by (simp add: covers_def same_base_page)

text \<open>A table entry that names no managed page is passed over, and its mapping is in no list.\<close>

lemma remove_miss:
  assumes wf: "range_wf np D M F K c G st" and m: "(p, va) \<in> D" "pte_of st (p, va) = cpte"
    and no: "pa_index (pt_words st cpte AND L2_ADDR_MASK) = 0 \<or> \<not> pmap_valid_page st (pa_index (pt_words st cpte AND L2_ADDR_MASK))" and i: "i < np"
  shows "(p, va) \<notin> set (M i)"
proof
  assume a: "(p, va) \<in> set (M i)"
  have co: "coherent D np M st" and np: "unat (first_page st) + np \<le> 2 ^ 20" using wf by (auto simp: range_wf_def)
  have v: "pmap_valid_page st (first_page st + of_nat i)" "pt_words st cpte AND L2_ADDR_MASK = page_frame st i"
    using a co i m by (auto simp: coherent_def maps_page_def)
  then have "pa_index (pt_words st cpte AND L2_ADDR_MASK) = first_page st + of_nat i" using pa_index_frame[OF np i] by simp
  moreover have "first_page st + of_nat i \<noteq> 0" using v(1) by (auto simp: pmap_valid_page_def)
  ultimately show False using no v(1) by simp
qed

text \<open>One turn of the loop.\<close>

lemma remove_turn:
  assumes wf: "range_wf np D M F K c G st" and m: "(p, va) \<in> D" "pte_of st (p, va) = cpte"
  obtains u r c' G' st' M' where
    "remove_loop env (Suc n) p va cpte page c removed unwired st = remove_loop env n p (va + page) (cpte + 4) page c' (removed + r) (unwired + u) st'"
    "0 \<le> u" "u \<le> r" "r \<le> 1" "range_wf np D M' F K c' G' st'" "same_base st st'" "resident_count st' = resident_count st" "wired_count st' = wired_count st"
    "\<forall>i < np. M' i = filter (\<lambda>x. x \<noteq> (p, va)) (M i)" "\<forall>q. total_maps np M' q + (if q = p then r else 0) = total_maps np M q"
    "\<forall>x \<in> D. pte_of st' x = pte_of st x"
proof -
  let ?pn = "pa_index (pt_words st cpte AND L2_ADDR_MASK)" and ?m = "(p, va)"
  have rep: "pv_rep np M G F K st" and c: "chain_rep (entries st) c G" and t: "tables_ok D st" and co: "coherent D np M st" and init: "pmap_initialized st"
    and np: "unat (first_page st) + np \<le> 2 ^ 20" and cov: "covers np st" using wf by (auto simp: range_wf_def)
  show ?thesis
  proof (cases "?pn = 0 \<or> \<not> pmap_valid_page st ?pn")
    case True
    then have "M i = filter (\<lambda>x. x \<noteq> ?m) (M i)" if "i < np" for i
      using remove_miss[OF wf m True that] by (metis (mono_tags, lifting) filter_True)
    moreover have "remove_loop env (Suc n) p va cpte page c removed unwired st = remove_loop env n p (va + page) (cpte + 4) page c removed unwired st"
      using True by (simp add: Let_def)
    ultimately show ?thesis using that[where u = 0 and r = 0 and c' = c and st' = st and M' = M and G' = G] wf by simp
  next
    case False
    have "unat ?pn < 2 ^ 20" by (rule frame_of_index(2))
    then obtain j where j: "j < np" "?pn = first_page st + of_nat j" using False cov by (auto simp: covers_def)
    have "maps_page st ?m j" using frame_of_index(1)[of "pt_words st cpte"] j(2) m(2) by (simp add: maps_page_def page_frame_def)
    then have mj: "?m \<in> set (M j)" using co m(1) j False by (auto simp: coherent_def)
    have f: "?pn \<noteq> vm_page_fictitious_addr" using page_not_fictitious[OF np j(1)] j(2) by simp
    define M' where "M' = M(j := remove1 ?m (M j))"
    obtain u c' G' st' where r: "remove_loop env (Suc n) p va cpte page c removed unwired st = remove_loop env n p (va + page) (cpte + 4) page c' (removed + 1) (unwired + u) st'"
      "u = 0 \<or> u = 1" "pv_rep np M' G' F K st'" "chain_rep (entries st') c' G'" "same_base st st'"
      "pt_words st' = (pt_words st)(cpte := 0)" "resident_count st' = resident_count st" "wired_count st' = wired_count st"
      unfolding M'_def by (rule remove_hit[OF rep c init j(1) refl j(2) f _ _ mj]) (use False in auto)
    have only: "?m \<notin> set (M i)" if "i < np" "i \<noteq> j" for i
      using that co mj j(1) page_frame_inj[OF np that(1) j(1)] by (auto simp: coherent_def maps_page_def)
    have fi: "M' i = filter (\<lambda>x. x \<noteq> ?m) (M i)" if i: "i < np" for i
    proof (cases "i = j")
      case True
      have "remove1 ?m (M j) = removeAll ?m (M j)" using pv_rep_distinct[OF rep j(1)] by (simp add: distinct_remove1_removeAll)
      then show ?thesis using True by (simp add: M'_def removeAll_filter_not_eq eq_commute)
    next
      case False
      then show ?thesis using only[OF i False] by (auto simp: M'_def filter_id_conv intro: sym)
    qed
    have setM: "set (M' i) = set (M i) - {?m}" if "i < np" for i using fi[OF that] by auto
    note cl = coherent_drop[OF co t r(5) m(1) r(6)[folded m(2)] setM]
    have tot: "total_maps np M' q + (if q = p then 1 else 0) = total_maps np M q" for q
      using j(1) mj by (simp add: M'_def total_maps_def sum.remove[of "{..<np}" j] of_pmap_simps(2))
    have "range_wf np D M' F K c' G' st'" using r(3-5) cl(1,2) init np cov covers_base[OF r(5)] by (simp add: range_wf_def same_base_def)
    then show ?thesis using that[where u = u and r = 1 and c' = c' and st' = st' and M' = M' and G' = G'] r(1,2,5,7,8) fi tot cl(3) by auto
  qed
qed

lemma remove_loop_ok:
  assumes "range_wf np D M F K c G st"
    "\<forall>k < n. (p, va + of_nat k * 0x1000) \<in> D \<and> pte_of st (p, va + of_nat k * 0x1000) = cpte + 4 * of_nat k"
  shows "\<exists>u r c' G' st' M'. remove_loop env n p va cpte 0x1000 c removed unwired st = Some (c', removed + r, unwired + u, st') \<and>
    0 \<le> u \<and> u \<le> r \<and> r \<le> int n \<and> range_wf np D M' F K c' G' st' \<and> same_base st st' \<and> resident_count st' = resident_count st \<and>
    wired_count st' = wired_count st \<and> (\<forall>i < np. M' i = filter (\<lambda>m. m \<notin> range_maps p va n) (M i)) \<and>
    (\<forall>q. total_maps np M' q + (if q = p then r else 0) = total_maps np M q)"
  using assms
proof (induction n arbitrary: va cpte M c G st removed unwired)
  case 0
  have "\<forall>i < np. M i = filter (\<lambda>m. m \<notin> range_maps p va 0) (M i)" by (simp add: range_maps_def)
  then show ?case using 0(1) by (intro exI[of _ 0] exI[of _ c] exI[of _ G] exI[of _ st] exI[of _ M]) simp
next
  case (Suc n)
  have m: "(p, va) \<in> D" "pte_of st (p, va) = cpte" using Suc.prems(2)[rule_format, of 0] by simp_all
  obtain u r c1 G1 s1 M1 where 1:
    "remove_loop env (Suc n) p va cpte 0x1000 c removed unwired st = remove_loop env n p (va + 0x1000) (cpte + 4) 0x1000 c1 (removed + r) (unwired + u) s1"
    "0 \<le> u" "u \<le> r" "r \<le> 1" "range_wf np D M1 F K c1 G1 s1" "same_base st s1" "resident_count s1 = resident_count st" "wired_count s1 = wired_count st"
    "\<forall>i < np. M1 i = filter (\<lambda>x. x \<noteq> (p, va)) (M i)" "\<forall>q. total_maps np M1 q + (if q = p then r else 0) = total_maps np M q"
    "\<forall>x \<in> D. pte_of s1 x = pte_of st x" by (rule remove_turn[OF Suc.prems(1) m])
  have "\<forall>k < n. (p, va + 0x1000 + of_nat k * 0x1000) \<in> D \<and> pte_of s1 (p, va + 0x1000 + of_nat k * 0x1000) = cpte + 4 + 4 * of_nat k"
    using Suc.prems(2)[rule_format, of "Suc k" for k] 1(11) by (simp add: algebra_simps)
  from Suc.IH[OF 1(5) this, of "removed + r" "unwired + u"] obtain u2 r2 c2 G2 s2 M2 where 2:
    "remove_loop env n p (va + 0x1000) (cpte + 4) 0x1000 c1 (removed + r) (unwired + u) s1 = Some (c2, removed + r + r2, unwired + u + u2, s2)"
    "0 \<le> u2" "u2 \<le> r2" "r2 \<le> int n" "range_wf np D M2 F K c2 G2 s2" "same_base s1 s2" "resident_count s2 = resident_count s1" "wired_count s2 = wired_count s1"
    "\<forall>i < np. M2 i = filter (\<lambda>m. m \<notin> range_maps p (va + 0x1000) n) (M1 i)" "\<forall>q. total_maps np M2 q + (if q = p then r2 else 0) = total_maps np M1 q"
    by blast
  have "\<forall>i < np. M2 i = filter (\<lambda>m. m \<notin> range_maps p va (Suc n)) (M i)"
    using 1(9) 2(9) by (simp add: range_maps_Suc conj_commute)
  moreover have "total_maps np M2 q + (if q = p then r + r2 else 0) = total_maps np M q" for q
    using 1(10)[rule_format, of q] 2(10)[rule_format, of q] by (auto split: if_splits)
  ultimately show ?case
    using 1(1-4,7,8) 2(1-8) same_base_trans[OF 1(6) 2(6)]
    by (intro exI[of _ "u + u2"] exI[of _ "r + r2"] exI[of _ c2] exI[of _ G2] exI[of _ s2] exI[of _ M2]) (simp add: add.assoc)
qed

lemma pmap_remove_range_ok:
  assumes wf: "pmap_wf np D M F K st" and cov: "covers np st" and n: "n \<le> 256" "spte < epte" "epte = spte + 4 * of_nat n"
    and ran: "\<forall>k < n. (p, va + of_nat k * 0x1000) \<in> D \<and> pte_of st (p, va + of_nat k * 0x1000) = spte + 4 * of_nat k"
    and tot: "\<forall>q. total_maps np M q \<le> resident_count st q" and wi: "wired_count st p \<ge> int n"
  obtains st' F' M' where "pmap_remove_range env p va spte epte False st = Some st'" "pmap_wf np D M' F' K st'" "same_base st st'"
    "\<forall>i < np. M' i = filter (\<lambda>m. m \<notin> range_maps p va n) (M i)" "\<forall>q. total_maps np M' q \<le> resident_count st' q"
proof -
  have "range_wf np D M F K empty_chain [] st" using wf cov by (simp add: range_wf_def pmap_wf_def)
  from remove_loop_ok[OF this ran, of env 0 0] obtain u r c G s1 M' where 1:
    "remove_loop env n p va spte 0x1000 empty_chain 0 0 st = Some (c, r, u, s1)" "0 \<le> u" "u \<le> r" "r \<le> int n" "range_wf np D M' F K c G s1" "same_base st s1"
    "resident_count s1 = resident_count st" "wired_count s1 = wired_count st" "\<forall>i < np. M' i = filter (\<lambda>m. m \<notin> range_maps p va n) (M i)"
    "\<forall>q. total_maps np M' q + (if q = p then r else 0) = total_maps np M q" by auto
  have rep: "pv_rep np M' (G @ []) F K s1" and c: "chain_rep (entries s1) c G" using 1(5) by (simp_all add: range_wf_def)
  obtain s2 where 2: "chain_free c s1 = Some s2" "pv_rep np M' [] (G @ F) K s2" "same_sys s1 s2" using chain_free_ok[OF rep c] by blast
  have d: "epte - spte = 4 * of_nat n" using n(3) by simp
  have un: "unat (4 * of_nat n :: u32) = 4 * n" using n(1) by (simp add: unat_word_ariths unat_of_nat)
  have lim: "epte - spte \<le> L2_SIZE" unfolding d word_le_nat_alt un using n(1) by (simp add: L2_SIZE_def)
  have cnt: "(unat (epte - spte) + 3) div 4 = n" unfolding d un by simp
  have tp: "total_maps np M' p \<ge> 0" by (simp add: total_maps_def sum_nonneg of_pmap_simps(3))
  have rr: "r \<le> resident_count s2 p" using 1(10)[rule_format, of p] tp tot[rule_format, of p] 1(7) 2(3) by (simp add: same_sys_def)
  have ww: "u \<le> wired_count s2 p" using wi 1(3,4,8) 2(3) by (simp add: same_sys_def)
  define st' where "st' = add_wired p (- u) (add_resident p (- r) s2)"
  have "pmap_remove_range env p va spte epte False st = Some st'"
    using lim cnt n(2) 1(1) 2(1) rr ww by (simp add: pmap_remove_range_def pv_assert_def st'_def)
  moreover have b: "same_base st st'" using same_base_trans[OF 1(6) same_base_sys[OF 2(3)]] by (simp add: st'_def)
  moreover have "pmap_wf np D M' (G @ F) K st'"
  proof -
    have b1: "same_base s1 st'" using same_base_sys[OF 2(3)] by (simp add: st'_def)
    have w1: "pt_words st' = pt_words s1" using 2(3) by (simp add: st'_def same_sys_def)
    have t1: "tables_ok D s1" and co: "coherent D np M' s1" and i1: "pmap_initialized s1" "unat (first_page s1) + np \<le> 2 ^ 20" using 1(5) by (auto simp: range_wf_def)
    have "tables_ok D st'" by (rule tables_stable(1)[OF t1 b1]) (simp add: w1)
    moreover have "pte_of st' m = pte_of s1 m" if "m \<in> D" for m by (rule tables_stable(2)[OF t1 b1 _ that]) (simp add: w1)
    then have "coherent D np M' st'"
      using co same_base_page[OF b1] w1 by (auto simp: coherent_def maps_page_def)
    moreover have "pv_rep np M' [] (G @ F) K st'" using 2(2) by (simp add: st'_def)
    ultimately show ?thesis using i1 b1 by (simp add: pmap_wf_def same_base_def)
  qed
  moreover have "total_maps np M' q \<le> resident_count st' q" for q
    using 1(10)[rule_format, of q] tot[rule_format, of q] 1(7) 2(3) by (auto simp: st'_def same_sys_def split: if_splits)
  ultimately show ?thesis using that 1(9) by blast
qed

end
