(* ===== verification/Pv_System.thy ===== *)
theory Pv_System
  imports Pv_Range_Ok Guarded_System
begin

text \<open>
  The pages as a system: mappings are entered and removed, pages are taken away and their attributes are noted, in any order. The
  invariant says that tables, reverse map, pool of entries and counters agree.
\<close>

section \<open>Operations\<close>

datatype page_op = Enter u32 u32 nat u32 bool | RemoveRange u32 u32 u32 nat | Disconnect nat | SetModify nat | ClearModify nat | SetReference nat | ClearReference nat

fun page_exec :: "pv_env \<Rightarrow> page_op \<Rightarrow> pv_state \<Rightarrow> pv_state option" where
  "page_exec env (Enter p va i prot wired) st = pmap_enter env p va (first_page st + of_nat i) prot wired st"
| "page_exec env (RemoveRange p va spte n) st = pmap_remove_range env p va spte (spte + 4 * of_nat n) False st"
| "page_exec env (Disconnect i) st = map_option snd (pmap_disconnect (first_page st + of_nat i) st)"
| "page_exec env (SetModify i) st = pmap_set_modify (first_page st + of_nat i) st"
| "page_exec env (ClearModify i) st = pmap_clear_modify (first_page st + of_nat i) st"
| "page_exec env (SetReference i) st = pmap_set_reference (first_page st + of_nat i) st"
| "page_exec env (ClearReference i) st = pmap_clear_reference (first_page st + of_nat i) st"

text \<open>
  What the code needs of its callers. A mapping that is entered belongs to the set that is considered, its page is managed,
  a free entry is at hand, and the address is unused or names a managed page; in the second case the count of wired pages
  must not be zero, because the code takes the attributes of the new page for those of the old one.
\<close>

definition old_frame :: "pv_state \<Rightarrow> u32 \<times> u32 \<Rightarrow> u32" where
  "old_frame st m = pt_words st (pte_of st m) AND L2_ADDR_MASK"

definition managed :: "nat \<Rightarrow> pv_state \<Rightarrow> nat \<Rightarrow> bool" where
  "managed np st i \<longleftrightarrow> i < np \<and> pmap_valid_page st (first_page st + of_nat i)"

definition can_enter :: "nat \<Rightarrow> (u32 \<times> u32) set \<Rightarrow> u32 \<times> u32 \<Rightarrow> nat \<Rightarrow> pv_state \<Rightarrow> bool" where
  "can_enter np D m i st \<longleftrightarrow>
     m \<in> D \<and> managed np st i \<and> pv_hashed_free_list st \<noteq> Null \<and>
     (old_frame st m = 0 \<or> wired_count st (fst m) \<ge> 1 \<and> (\<exists>j < np. managed np st j \<and> old_frame st m = page_frame st j))"

text \<open>
  A range is given by the table entries of its addresses, at most those of one second-level table; at least as many pages
  must be counted as wired, because the code unwires every wired page of the range, whoever wired it.
\<close>

definition can_remove :: "(u32 \<times> u32) set \<Rightarrow> u32 \<Rightarrow> u32 \<Rightarrow> u32 \<Rightarrow> nat \<Rightarrow> pv_state \<Rightarrow> bool" where
  "can_remove D p va spte n st \<longleftrightarrow>
     n \<le> 256 \<and> spte < spte + 4 * of_nat n \<and> wired_count st p \<ge> int n \<and>
     (\<forall>k < n. (p, va + of_nat k * 0x1000) \<in> D \<and> pte_of st (p, va + of_nat k * 0x1000) = spte + 4 * of_nat k)"

fun page_allowed :: "nat \<Rightarrow> (u32 \<times> u32) set \<Rightarrow> page_op \<Rightarrow> pv_state \<Rightarrow> bool" where
  "page_allowed np D (Enter p va i prot wired) st \<longleftrightarrow> can_enter np D (p, va) i st"
| "page_allowed np D (RemoveRange p va spte n) st \<longleftrightarrow> can_remove D p va spte n st"
| "page_allowed np D (Disconnect i) st \<longleftrightarrow> managed np st i"
| "page_allowed np D (SetModify i) st \<longleftrightarrow> i < np"
| "page_allowed np D (ClearModify i) st \<longleftrightarrow> i < np"
| "page_allowed np D (SetReference i) st \<longleftrightarrow> i < np"
| "page_allowed np D (ClearReference i) st \<longleftrightarrow> i < np"

definition pages_wf :: "nat \<Rightarrow> (u32 \<times> u32) set \<Rightarrow> (nat \<Rightarrow> (u32 \<times> u32) list) \<Rightarrow> pv_state \<Rightarrow> bool" where
  "pages_wf np D M st \<longleftrightarrow>
     (\<exists>F K. pmap_wf np D M F K st) \<and> (\<forall>p. total_maps np M p \<le> resident_count st p) \<and> covers np st"

text \<open>The state when the subsystem comes up: no mapping is known.\<close>

definition page_start :: "nat \<Rightarrow> (u32 \<times> u32) set \<Rightarrow> pv_state \<Rightarrow> bool" where
  "page_start np D st \<longleftrightarrow> pages_wf np D (\<lambda>_. []) st"

section \<open>Every operation keeps the invariant\<close>

lemma pmap_pte_low:
  assumes "pmap_pte p va st = Some a" "a \<noteq> 0"
  shows "\<not> (va > COMM_PAGE_BASE_ADDRESS \<and> p \<noteq> pv_kernel_pmap st)"
  using assms by (auto simp: pmap_pte_def bind_eq_Some_conv Let_def split: if_splits)

lemma enter_wf:
  assumes wf: "pages_wf np D M st" and ce: "can_enter np D (p, va) i st"
  obtains st' where "pmap_enter_options env p va (first_page st + of_nat i) prot wired st = Some (KERN_SUCCESS, st')"
    "pages_wf np D (enter_lists M i (p, va)) st'" "same_base st st'"
proof -
  let ?m = "(p, va)" and ?pn = "first_page st + of_nat i"
  obtain F K where w: "pmap_wf np D M F K st" and tot: "\<And>q. total_maps np M q \<le> resident_count st q" using wf by (auto simp: pages_wf_def)
  have rep: "pv_rep np M [] F K st" and t: "tables_ok D st" and co: "coherent D np M st" and np: "unat (first_page st) + np \<le> 2 ^ 20"
    using w by (auto simp: pmap_wf_def)
  have m: "?m \<in> D" and i: "i < np" "pmap_valid_page st ?pn" using ce by (auto simp: can_enter_def managed_def)
  have av: "F \<noteq> []" using pv_repD(1)[OF rep] ce by (auto simp: can_enter_def)
  define old where "old = old_frame st ?m"
  have old': "old = pt_words st (pte_of st ?m) AND L2_ADDR_MASK" by (simp add: old_def old_frame_def)
  have o: "old = 0 \<or> (\<exists>j < np. old = page_frame st j \<and> pmap_valid_page st (first_page st + of_nat j))"
    using ce by (auto simp: can_enter_def managed_def old_def)
  have inM: "?m \<in> set (M j) \<longleftrightarrow> pmap_valid_page st (first_page st + of_nat j) \<and> old = page_frame st j" if "j < np" for j
    using co m that by (auto simp: coherent_def maps_page_def old')
  have none: "old = 0 \<longleftrightarrow> (\<forall>j < np. ?m \<notin> set (M j))" using o inM valid_page_frame by metis
  have need: "resident_count st p \<ge> 1 \<and> wired_count st p \<ge> 1" if o0: "old \<noteq> 0"
  proof -
    obtain j where j: "j < np" "?m \<in> set (M j)" using none o0 by auto
    then have "of_pmap p (M j) \<ge> 1" using of_pmap_simps(2)[of p ?m "M j"] of_pmap_simps(3)[of p "remove1 ?m (M j)"] by simp
    then show ?thesis using total_ge[OF j(1), of p M] tot[of p] ce o0 by (auto simp: can_enter_def old_def)
  qed
  obtain w' F' st' where r: "enter_retry env p va ?pn prot wired Null st = Some st'" "pv_rep np (enter_lists M i ?m) [] F' K st'"
    "same_base st st'" "pt_words st' = (pt_words st)(pte_of st ?m := w')" "w' AND L2_ADDR_MASK = page_frame st i"
    "resident_count st' = (resident_count st)(p := resident_count st p + (if old = 0 then 1 else 0))"
    by (rule enter_retry_ok[OF w i(1) refl i(2) m av old' o need])
  have set: "set (enter_lists M i ?m j) = (if j = i then insert ?m (set (M j)) else set (M j) - {?m})" if "j < np" for j
  proof -
    have "distinct (M j)" by (rule pv_rep_distinct[OF rep that])
    moreover have "?m \<notin> set (M j)" if "?m \<in> set (M i)" "j \<noteq> i"
      using that inM[OF i(1)] inM[OF \<open>j < np\<close>] page_frame_inj[OF np i(1) \<open>j < np\<close>] by auto
    ultimately show ?thesis by (auto simp: enter_lists_def)
  qed
  have "tables_ok D st'" by (rule tables_stable(1)[OF t r(3)]) (use r(4) m in auto)
  moreover have "coherent D np (enter_lists M i ?m) st'" by (rule coherent_enter[OF co t r(3) m r(4,5) i np set])
  ultimately have "pmap_wf np D (enter_lists M i ?m) F' K st'" using r(2,3) w by (simp add: pmap_wf_def same_base_def)
  moreover have "total_maps np (enter_lists M i ?m) q \<le> resident_count st' q" for q
    using total_enter[OF i(1), of ?m p M q] tot[of q] none r(6) by (auto split: if_splits)
  moreover have "pmap_enter_options env p va ?pn prot wired st = Some (KERN_SUCCESS, st')"
  proof -
    have "pmap_pte p va st = Some (pte_of st ?m)" "pte_of st ?m \<noteq> 0" using t m by (auto simp: tables_ok_def)
    then have "\<not> (va > COMM_PAGE_BASE_ADDRESS \<and> p \<noteq> pv_kernel_pmap st)" by (rule pmap_pte_low)
    then show ?thesis using r(1) page_not_fictitious[OF np i(1)] by (simp add: pmap_enter_options_def pv_assert_def)
  qed
  ultimately show ?thesis using that r(3) covers_base[OF r(3)] wf by (auto simp: pages_wf_def)
qed

lemma disconnect_wf:
  assumes wf: "pages_wf np D M st" and i: "managed np st i"
  obtains st' h where "pmap_page_protect (first_page st + of_nat i) 0 st = Some st'" "pages_wf np D (M(i := [])) st'" "same_base st st'"
    "entries st' (Root i) = Some h" "pv_pmap h = 0" "M i \<noteq> [] \<Longrightarrow> pv_flags h AND refmod = 0"
proof -
  obtain F K where w: "pmap_wf np D M F K st" and tot: "\<And>q. total_maps np M q \<le> resident_count st q" using wf by (auto simp: pages_wf_def)
  have i': "i < np" "pmap_valid_page st (first_page st + of_nat i)" using i by (auto simp: managed_def)
  have f: "first_page st + of_nat i \<noteq> vm_page_fictitious_addr" using page_not_fictitious[of st np i] w i'(1) by (simp add: pmap_wf_def)
  have "counted (M i) st" unfolding counted_def using tot total_ge[OF i'(1)] by (metis of_pmap_def order_trans)
  moreover have "0 \<notin> {1, 5, 7 :: u32}" by simp
  ultimately obtain F' st' h where r: "pmap_page_protect (first_page st + of_nat i) 0 st = Some st'" "pmap_wf np D (M(i := [])) F' K st'" "same_base st st'"
    "entries st' (Root i) = Some h" "pv_pmap h = 0" "M i \<noteq> [] \<Longrightarrow> pv_flags h AND refmod = 0"
    "resident_count st' = (\<lambda>p. resident_count st p - int (length (filter (\<lambda>m. fst m = p) (M i))))"
    using pmap_page_protect_ok[OF w i'(1) refl i'(2) f] by blast
  have "total_maps np (M(i := [])) q \<le> resident_count st' q" for q using r(7) total_remove[OF i'(1)] tot[of q] by (simp add: of_pmap_def)
  then have "pages_wf np D (M(i := [])) st'" using r(2) covers_base[OF r(3)] wf by (auto simp: pages_wf_def)
  from that[OF r(1) this r(3-6)] show ?thesis .
qed

lemma disconnect_result:
  assumes wf: "pages_wf np D M st" and i: "managed np st i"
  obtains r st' where "pmap_disconnect (first_page st + of_nat i) st = Some (r, st')" "pages_wf np D (M(i := [])) st'" "same_base st st'"
    "pmap_verify_free (first_page st + of_nat i) st' = Some True" "M i \<noteq> [] \<Longrightarrow> r = 0"
proof -
  let ?pn = "first_page st + of_nat i"
  obtain F K where w: "pmap_wf np D M F K st" using wf by (auto simp: pages_wf_def)
  have i': "i < np" "pmap_valid_page st ?pn" using i by (auto simp: managed_def)
  have f: "?pn \<noteq> vm_page_fictitious_addr" using page_not_fictitious[of st np i] w i'(1) by (simp add: pmap_wf_def)
  obtain st' h where s: "pmap_page_protect ?pn 0 st = Some st'" "pages_wf np D (M(i := [])) st'" "same_base st st'"
    "entries st' (Root i) = Some h" "pv_pmap h = 0" "M i \<noteq> [] \<Longrightarrow> pv_flags h AND refmod = 0" using disconnect_wf[OF wf i] by blast
  have pr: "pai_to_pvh st' ?pn = Root i"
    using pai_to_pvh_page[of np M "[]" F K st i] w i'(1) same_base_page(4)[OF s(3)] by (simp add: pmap_wf_def)
  define b where "b = TYPE_MODIFIED OR TYPE_REFERENCED"
  have b: "refmod = b" "b \<noteq> 0" by (simp_all add: b_def refmod_def TYPE_MODIFIED_def TYPE_REFERENCED_def)
  have t: "phys_attribute_test ?pn b st' = Some (if pv_flags h AND b = b then b else pv_flags h AND b)"
    using pr s(4) f by (simp add: phys_attribute_test_def pv_assert_def)
  then obtain r where r: "pmap_get_refmod ?pn st' = Some r" by (simp add: pmap_get_refmod_def b_def)
  have "r = 0" if "M i \<noteq> []"
  proof -
    have z: "pv_flags h AND b = 0" using s(6)[OF that] b(1) by simp
    show ?thesis using r t b(2) z by (simp add: pmap_get_refmod_def flip: b_def)
  qed
  moreover have "pmap_verify_free ?pn st' = Some True"
    using pr s(4,5) f i'(2) same_base_page(2)[OF s(3)] by (simp add: pmap_verify_free_def pv_assert_def)
  moreover have "pmap_disconnect ?pn st = Some (r, st')" using s(1) r by (simp add: pmap_disconnect_def)
  ultimately show ?thesis using that s(2,3) by blast
qed

lemma attributes_wf:
  assumes wf: "pages_wf np D M st" and i: "i < np"
  shows "\<exists>st'. phys_attribute_set (first_page st + of_nat i) b st = Some st' \<and> pages_wf np D M st'"
    "\<exists>st'. phys_attribute_clear (first_page st + of_nat i) b st = Some st' \<and> pages_wf np D M st'"
proof -
  obtain F K where w: "pmap_wf np D M F K st" and tot: "\<And>q. total_maps np M q \<le> resident_count st q" using wf by (auto simp: pages_wf_def)
  have rep: "pv_rep np M [] F K st" and f: "first_page st + of_nat i \<noteq> vm_page_fictitious_addr"
    using page_not_fictitious[of st np i] w i by (auto simp: pmap_wf_def)
  have p: "pte_of (st\<lparr>entries := h\<rparr>) = pte_of st" for h
    by (rule ext) (simp add: pte_of_def pmap_pte_def pmap_tte_def phys_to_virt_def cong: if_cong)
  have *: "pages_wf np D M (st\<lparr>entries := h\<rparr>)" if "pv_rep np M [] F K (st\<lparr>entries := h\<rparr>)" for h
  proof -
    have "tables_ok D (st\<lparr>entries := h\<rparr>)" by (rule tables_stable(1)[of D st]) (use w in \<open>auto simp: pmap_wf_def\<close>)
    moreover have "coherent D np M (st\<lparr>entries := h\<rparr>)"
      using w by (simp add: pmap_wf_def coherent_def maps_page_def p page_frame_def pmap_valid_page_def)
    moreover have "covers np (st\<lparr>entries := h\<rparr>)" using wf by (simp add: pages_wf_def covers_def pmap_valid_page_def)
    ultimately show ?thesis using w that tot by (auto simp: pages_wf_def pmap_wf_def)
  qed
  show "\<exists>st'. phys_attribute_set (first_page st + of_nat i) b st = Some st' \<and> pages_wf np D M st'"
    "\<exists>st'. phys_attribute_clear (first_page st + of_nat i) b st = Some st' \<and> pages_wf np D M st'"
    using attributes_ok(2,3)[OF rep i refl f, of b] * by blast+
qed

lemma range_removed:
  assumes wf: "pages_wf np D M st" and cr: "can_remove D p va spte n st"
  obtains st' M' where "pmap_remove_range env p va spte (spte + 4 * of_nat n) False st = Some st'" "pages_wf np D M' st'" "same_base st st'"
    "\<forall>i < np. M' i = filter (\<lambda>m. m \<notin> range_maps p va n) (M i)"
proof -
  obtain F K where w: "pmap_wf np D M F K st" and tot: "\<forall>q. total_maps np M q \<le> resident_count st q" and cov: "covers np st"
    using wf by (auto simp: pages_wf_def)
  have n: "n \<le> 256" "spte < spte + 4 * of_nat n" "wired_count st p \<ge> int n"
    "\<forall>k < n. (p, va + of_nat k * 0x1000) \<in> D \<and> pte_of st (p, va + of_nat k * 0x1000) = spte + 4 * of_nat k"
    using cr by (auto simp: can_remove_def)
  obtain st' F' M' where r: "pmap_remove_range env p va spte (spte + 4 * of_nat n) False st = Some st'" "pmap_wf np D M' F' K st'" "same_base st st'"
    "\<forall>i < np. M' i = filter (\<lambda>m. m \<notin> range_maps p va n) (M i)" "\<forall>q. total_maps np M' q \<le> resident_count st' q"
    by (rule pmap_remove_range_ok[OF w cov n(1,2) refl n(4) tot n(3)])
  have "pages_wf np D M' st'" using r(2,5) cov covers_base[OF r(3)] by (auto simp: pages_wf_def)
  from that[OF r(1) this r(3,4)] show ?thesis .
qed

lemma page_exec_ok:
  assumes "\<exists>M. pages_wf np D M st" "page_allowed np D x st"
  shows "\<exists>t. page_exec env x st = Some t \<and> (\<exists>M. pages_wf np D M t)"
proof -
  obtain M where wf: "pages_wf np D M st" using assms(1) by blast
  show ?thesis
  proof (cases x)
    case (Enter p va i prot wired)
    then have "can_enter np D (p, va) i st" using assms(2) by simp
    from enter_wf[OF wf this, of env prot wired] show ?thesis using Enter by (metis option.simps(9) page_exec.simps(1) pmap_enter_def snd_conv)
  next
    case (RemoveRange p va spte n)
    then have "can_remove D p va spte n st" using assms(2) by simp
    from range_removed[OF wf this, of env] show ?thesis using RemoveRange by (metis page_exec.simps(2))
  next
    case (Disconnect i)
    then have "managed np st i" using assms(2) by simp
    from disconnect_result[OF wf this] show ?thesis using Disconnect by (metis option.simps(9) page_exec.simps(3) snd_conv)
  qed (use assms(2) attributes_wf[OF wf] in
      \<open>auto simp: pmap_set_modify_def pmap_clear_modify_def pmap_set_reference_def pmap_clear_reference_def, blast+\<close>)
qed

interpretation pages: guarded_system "page_start np D" "page_allowed np D" "page_exec env" "\<lambda>st. \<exists>M. pages_wf np D M st" for np D env
  by unfold_locales (auto simp: page_start_def page_exec_ok)

end
