(* ===== verification/Pv_Props.thy ===== *)
theory Pv_Props
  imports Pv_System
begin

text \<open>
  What holds of the reverse map and of the page tables. The example has three pages, of which the last two are managed, a
  map of the kernel and a user map, and two entries in the pool.
\<close>

section \<open>An example\<close>

definition ex_entry :: pv_entry where
  "ex_entry = \<lparr>qnext = Null, qprev = Null, pv_va = 0, pv_pmap = 0, pv_flags = 0, pv_ppn = 0, nexth = Null\<rparr>"

definition ex_words :: "u32 \<Rightarrow> u32" where
  "ex_words = (\<lambda>_. 0)(0xC0000000 := 0x90000001, 0xC0008000 := 0x90000401)"

definition ex_up :: pv_state where
  "ex_up = \<lparr>entries = [Root 0 \<mapsto> ex_entry, Root 1 \<mapsto> ex_entry, Root 2 \<mapsto> ex_entry,
                     Hashed 1 \<mapsto> ex_entry\<lparr>qnext := Hashed 2\<rparr>, Hashed 2 \<mapsto> ex_entry],
     pv_hash_table = [Null, Null], npvhash = 1, gPhysBase = 0x80000000, gVirtBase = 0x80000000, avail_start = 0x80000000,
     avail_end = 0x80003000, pv_kernel_pmap = 0x1000, pmap_initialized = True, pv_hashed_free_list = Hashed 1,
     pv_hashed_free_count = 2, pv_hashed_kern_free_list = Null, pv_hashed_kern_free_count = 0, mappingrecurse = False,
     adjust_calls = 0, pv_hashlist_walks = 0, pv_hashlist_cnts = 0, pv_hashlist_max = 0,
     pm_l1_virt = (\<lambda>_. 0)(0x1000 := 0xC0000000, 0x2000 := 0xC0008000), pt_words = ex_words,
     resident_count = (\<lambda>_. 0), wired_count = (\<lambda>_. 0), corruption_incidents = 0, corruption_records = [],
     corruption_last_abstime = 0, corruption_interval = 0, corruption_timeout = False, clock_reads = 0\<rparr>"

text \<open>Both maps have the second page at the same address.\<close>

definition ex_shared :: pv_state where
  "ex_shared = ex_up\<lparr>entries := [Root 0 \<mapsto> ex_entry,
       Root 1 \<mapsto> ex_entry\<lparr>qnext := Hashed 1, qprev := Hashed 1, pv_va := 0x1000, pv_pmap := 0x1000, pv_flags := 4\<rparr>,
       Root 2 \<mapsto> ex_entry,
       Hashed 1 \<mapsto> ex_entry\<lparr>qnext := Root 1, qprev := Root 1, pv_va := 0x1000, pv_pmap := 0x2000, pv_ppn := 0x80001\<rparr>,
       Hashed 2 \<mapsto> ex_entry],
     pv_hash_table := [Null, Hashed 1], pv_hashed_free_list := Hashed 2, pv_hashed_free_count := 1,
     pt_words := ex_words(0x90000004 := 0x80001012, 0x90000404 := 0x80001032),
     resident_count := (\<lambda>_. 1), wired_count := (\<lambda>_. 1)\<rparr>"

definition ex_maps :: "(u32 \<times> u32) set" where
  "ex_maps = {(0x1000, 0x1000), (0x2000, 0x1000)}"

definition ex_lists :: "nat \<Rightarrow> (u32 \<times> u32) list" where
  "ex_lists = (\<lambda>_. [])(1 := [(0x1000, 0x1000), (0x2000, 0x1000)])"

lemmas ex_defs = ex_entry_def ex_words_def ex_up_def ex_shared_def ex_maps_def ex_lists_def

lemma less_3: "i < 3 \<longleftrightarrow> i = 0 \<or> i = 1 \<or> i = (2 :: nat)" "i < 2 \<longleftrightarrow> i = 0 \<or> i = (1 :: nat)"
  by auto

lemma ex_up_rep: "pv_rep 3 (\<lambda>_. []) [] [Hashed 1, Hashed 2] [] ex_up"
  unfolding pv_rep_def
proof (intro exI[of _ "\<lambda>_. []"] conjI)
  show "pv_inv 3 (\<lambda>_. []) (\<lambda>_. []) [] [Hashed 1, Hashed 2] [] ex_up"
    by (auto simp: pv_inv_def pages_ok_def page_ok_def page_list_def lists_ok_def buckets_ok_def used_def ex_defs less_3 less_Suc_eq)
qed (auto simp: page_list_def ex_defs less_3)

lemma ex_shared_rep: "pv_rep 3 ex_lists [] [Hashed 2] [] ex_shared"
  unfolding pv_rep_def
proof (intro exI[of _ "(\<lambda>_. [])(1 := [Hashed 1])"] conjI)
  let ?r = "(\<lambda>_. [])(1 := [Hashed 1])"
  have u: "used 3 ?r = {Hashed 1}" by (auto simp: used_def split: if_splits)
  show "pv_inv 3 ?r ?r [] [Hashed 2] [] ex_shared"
    unfolding pv_inv_def u
    by (auto simp: pages_ok_def page_ok_def page_list_def lists_ok_def buckets_ok_def ex_defs less_3 ring_def linked_def mapping_def hidx_def pa_index_def less_Suc_eq)
qed (auto simp: page_list_def ex_defs less_3 mapping_def)

text \<open>The table entries of the two mappings.\<close>

lemma ex_pte:
  assumes "st = ex_up \<or> st = ex_shared"
  shows "pmap_pte 0x1000 0x1000 st = Some 0x90000004" "pmap_pte 0x2000 0x1000 st = Some 0x90000404"
    "pmap_tte 0x1000 0x1000 st = Some 0xC0000000" "pmap_tte 0x2000 0x1000 st = Some 0xC0008000"
  using assms by (auto simp: pmap_pte_def pmap_tte_def tte_offset_def pte_offset_def phys_to_virt_def pv_assert_def ex_defs
      L1_SIZE_def L1_PTE_ADDR_MASK_def COMM_PAGE_BASE_ADDRESS_def drop_bit_eq_div push_bit_eq_mult)

lemma ex_tables:
  assumes "st = ex_up \<or> st = ex_shared"
  shows "tables_ok ex_maps st" "pte_of st (0x1000, 0x1000) = 0x90000004" "pte_of st (0x2000, 0x1000) = 0x90000404"
  using ex_pte[OF assms] by (auto simp: tables_ok_def pte_of_def tte_of_def ex_maps_def inj_on_def)

lemma ex_frame: "page_frame ex_up i = push_bit 12 (0x80000 + of_nat i)" "page_frame ex_shared i = push_bit 12 (0x80000 + of_nat i)"
  "first_page ex_up = 0x80000" "first_page ex_shared = 0x80000"
  by (simp_all add: page_frame_def pa_index_def ex_defs)

lemma ex_covers:
  assumes "st = ex_up \<or> st = ex_shared"
  shows "covers 3 st"
  unfolding covers_def
proof (intro allI impI)
  fix pn :: u32
  assume a: "unat pn < 2 ^ 20 \<and> pmap_valid_page st pn"
  have v: "avail_start st = 0x80000000" "avail_end st = 0x80003000" "first_page st = 0x80000"
    using assms ex_frame(3,4) by (auto simp: ex_up_def ex_shared_def)
  have "0x80000000 < 4096 * unat pn" "4096 * unat pn < 0x80003000"
    using a v unat_push_bit_12[of pn] by (auto simp: pmap_valid_page_def word_less_nat_alt)
  then have "unat pn = 0x80001 \<or> unat pn = 0x80002" by linarith
  then have "pn = 0x80000 + of_nat 1 \<or> pn = 0x80000 + of_nat 2" by (auto simp: word_unat_eq_iff)
  then show "\<exists>j < 3. pn = first_page st + of_nat j" unfolding v(3) by (elim disjE) (rule exI[of _ 1], simp, rule exI[of _ 2], simp)
qed

lemma ex_up_wf: "page_start 3 ex_maps ex_up"
proof -
  have "coherent ex_maps 3 (\<lambda>_. []) ex_up"
    by (auto simp: coherent_def maps_page_def ex_tables ex_frame ex_maps_def less_3 push_bit_eq_mult) (simp_all add: ex_defs)
  then have "pmap_wf 3 ex_maps (\<lambda>_. []) [Hashed 1, Hashed 2] [] ex_up"
    using ex_up_rep ex_tables(1) ex_frame(3) by (simp add: pmap_wf_def) (simp add: ex_defs)
  moreover have "covers 3 ex_up" by (rule ex_covers) simp
  ultimately show ?thesis by (auto simp: page_start_def pages_wf_def total_maps_def of_pmap_def) (simp add: ex_defs)
qed

lemma ex_shared_wf: "pages_wf 3 ex_maps ex_lists ex_shared"
proof -
  have v: "pmap_valid_page ex_shared (0x80000 + of_nat i) \<longleftrightarrow> i \<noteq> 0" if "i < 3" for i
    using that by (auto simp: pmap_valid_page_def less_3 push_bit_eq_mult) (simp_all add: ex_defs)
  have "coherent ex_maps 3 ex_lists ex_shared"
    by (auto simp: coherent_def maps_page_def ex_tables ex_frame ex_maps_def ex_lists_def less_3 v push_bit_eq_mult L2_ADDR_MASK_def)
      (simp_all add: ex_defs L2_ADDR_MASK_def)
  then have "pmap_wf 3 ex_maps ex_lists [Hashed 2] [] ex_shared"
    using ex_shared_rep ex_tables(1) ex_frame(4) by (simp add: pmap_wf_def) (simp add: ex_defs)
  moreover have "total_maps 3 ex_lists p \<le> 1" for p by (simp add: total_maps_def of_pmap_def ex_lists_def numeral_3_eq_3)
  moreover have "covers 3 ex_shared" by (rule ex_covers) simp
  ultimately show ?thesis by (auto simp: pages_wf_def) (simp add: ex_defs)
qed

section \<open>Properties\<close>

text \<open>
  C13: Removing a mapping that the list of a page has succeeds, whatever the boot arguments and the clock say, and takes this mapping
  and nothing else out of the lists: pointers, queue and hash chains again represent the lists. An entry is given back to
  be freed unless the mapping was the only one of its page; it is then in no queue, no chain and on no free list.
\<close>

theorem pmap_pv_remove_refines:
  assumes "pv_rep np M L F K st" "i < np" "(p, v) \<in> set (M i)"
  shows "\<exists>r st'. pmap_pv_remove env p v (first_page st + of_nat i) pte st = Some (r, first_page st + of_nat i, st') \<and>
    pv_rep np (M(i := remove1 (p, v) (M i))) (if r = Null then L else r # L) F K st' \<and> (r = Null \<longleftrightarrow> length (M i) = 1)"
  using pmap_pv_remove_present[OF assms, of env pte] by metis

theorem pmap_pv_remove_refines_witness:
  "pv_rep 3 ex_lists [] [Hashed 2] [] ex_shared \<and> (1 :: nat) < 3 \<and> (0x2000, 0x1000) \<in> set (ex_lists 1) \<and>
   (\<forall>env. \<exists>r st'. pmap_pv_remove env 0x2000 0x1000 (first_page ex_shared + of_nat 1) None ex_shared = Some (r, first_page ex_shared + of_nat 1, st') \<and>
      pv_rep 3 (ex_lists(1 := remove1 (0x2000, 0x1000) (ex_lists 1))) (if r = Null then [] else r # []) [Hashed 2] [] st' \<and>
      (r = Null \<longleftrightarrow> length (ex_lists 1) = 1))"
proof -
  have m: "(0x2000, 0x1000) \<in> set (ex_lists 1)" by (simp add: ex_lists_def)
  have n: "(1 :: nat) < 3" by simp
  show ?thesis using pmap_pv_remove_refines[OF ex_shared_rep n m] ex_shared_rep m n by blast
qed


lemma ex_can_enter: "can_enter 3 ex_maps (0x2000, 0x1000) 2 ex_shared" "can_enter 3 ex_maps (0x1000, 0x1000) 2 ex_up"
proof -
  have v: "managed 3 ex_shared 2" "managed 3 ex_up 2" "managed 3 ex_shared 1"
    by (simp_all add: managed_def ex_frame pmap_valid_page_def push_bit_eq_mult) (simp_all add: ex_defs)
  have o: "old_frame ex_shared (0x2000, 0x1000) = page_frame ex_shared 1" "old_frame ex_up (0x1000, 0x1000) = 0"
    by (simp_all add: old_frame_def ex_tables ex_frame L2_ADDR_MASK_def push_bit_eq_mult) (simp_all add: ex_defs)
  show "can_enter 3 ex_maps (0x2000, 0x1000) 2 ex_shared" unfolding can_enter_def using v o
    by (intro conjI disjI2 exI[of _ 1]) (simp_all add: ex_defs)
  show "can_enter 3 ex_maps (0x1000, 0x1000) 2 ex_up" unfolding can_enter_def using v o
    by (intro conjI disjI1) (simp_all add: ex_defs)
qed





lemma ex_can_remove: "can_remove ex_maps 0x2000 0x1000 0x90000404 1 ex_shared"
  unfolding can_remove_def by (simp add: ex_tables) (simp add: ex_defs)




text \<open>
  C9: In every state that such a sequence reaches, the reverse map is well formed and says what the page tables say: a mapping is in
  the list of a managed page if and only if its table entry names the page; and no map has more mappings than are counted.
\<close>

theorem reverse_map_agrees_with_tables:
  assumes "reachable (page_start np D) (page_allowed np D) (page_exec env) st"
  shows "\<exists>M F K. pv_rep np M [] F K st \<and>
    (\<forall>i < np. set (M i) = {m \<in> D. pmap_valid_page st (first_page st + of_nat i) \<and> maps_page st m i}) \<and>
    (\<forall>p. total_maps np M p \<le> resident_count st p)"
  using pages.reachable_inv[OF assms] by (auto simp: pages_wf_def pmap_wf_def coherent_def)

theorem reverse_map_agrees_with_tables_witness:
  "\<forall>env. \<exists>t. page_exec env (Enter 0x1000 0x1000 2 3 False) ex_up = Some t \<and>
     reachable (page_start 3 ex_maps) (page_allowed 3 ex_maps) (page_exec env) t \<and>
     (\<exists>M F K. pv_rep 3 M [] F K t \<and>
        (\<forall>i < 3. set (M i) = {m \<in> ex_maps. pmap_valid_page t (first_page t + of_nat i) \<and> maps_page t m i}) \<and>
        (\<forall>p. total_maps 3 M p \<le> resident_count t p))"
proof
  fix env
  have r: "reachable (page_start 3 ex_maps) (page_allowed 3 ex_maps) (page_exec env) ex_up" by (rule reachable.begin_at) (rule ex_up_wf)
  have a: "page_allowed 3 ex_maps (Enter 0x1000 0x1000 2 3 False) ex_up" using ex_can_enter(2) by simp
  obtain t where t: "page_exec env (Enter 0x1000 0x1000 2 3 False) ex_up = Some t" using pages.progress[OF r a] by blast
  have rt: "reachable (page_start 3 ex_maps) (page_allowed 3 ex_maps) (page_exec env) t" by (rule reachable.next_op[OF r a t])
  show "\<exists>t. page_exec env (Enter 0x1000 0x1000 2 3 False) ex_up = Some t \<and>
     reachable (page_start 3 ex_maps) (page_allowed 3 ex_maps) (page_exec env) t \<and>
     (\<exists>M F K. pv_rep 3 M [] F K t \<and>
        (\<forall>i < 3. set (M i) = {m \<in> ex_maps. pmap_valid_page t (first_page t + of_nat i) \<and> maps_page t m i}) \<and>
        (\<forall>p. total_maps 3 M p \<le> resident_count t p))"
    using t rt reverse_map_agrees_with_tables[OF rt] by blast
qed

section \<open>Where the code falls short\<close>

text \<open>Removing a range leaves the table entries of pages that are not managed as they are: such mappings stay usable.\<close>

lemma remove_loop_unmanaged:
  assumes "\<And>k. k < n \<Longrightarrow> \<not> pmap_valid_page st (pa_index (pt_words st (cpte + 4 * of_nat k) AND L2_ADDR_MASK))"
  shows "remove_loop env n p vaddr cpte page c removed unwired st = Some (c, removed, unwired, st)"
  using assms
proof (induction n arbitrary: vaddr cpte)
  case (Suc n)
  have "\<not> pmap_valid_page st (pa_index (pt_words st cpte AND L2_ADDR_MASK))" using Suc.prems[of 0] by simp
  moreover have "remove_loop env n p (vaddr + page) (cpte + 4) page c removed unwired st = Some (c, removed, unwired, st)"
    using Suc.prems[of "Suc k" for k] by (intro Suc.IH) (simp add: algebra_simps)
  ultimately show ?case by simp
qed simp

lemma remove_range_keeps_unmanaged:
  assumes "spte < epte" "epte - spte \<le> L2_SIZE" "resident_count st p \<ge> 0" "wired_count st p \<ge> 0"
    "\<And>k. k < 256 \<Longrightarrow> \<not> pmap_valid_page st (pa_index (pt_words st (spte + 4 * of_nat k) AND L2_ADDR_MASK))"
  shows "\<exists>st'. pmap_remove_range env p va spte epte is_sect st = Some st' \<and> pt_words st' = pt_words st"
proof -
  let ?n = "(unat (epte - spte) + 3) div 4"
  have "unat (epte - spte) \<le> unat L2_SIZE" using assms(2) by (simp add: word_le_nat_alt)
  then have "?n \<le> 256" by (simp add: L2_SIZE_def)
  then have "remove_loop env ?n p va spte (if is_sect then 0x100000 else 0x1000) empty_chain 0 0 st = Some (empty_chain, 0, 0, st)"
    using assms(5) by (intro remove_loop_unmanaged) auto
  then show ?thesis using assms(1-4)
    by (simp add: pmap_remove_range_def pv_assert_def chain_free_def empty_chain_def add_resident_def add_wired_def)
qed

text \<open>
  The bits of the machine-independent layer are not those of the attributes: asked to clear the modified bit (1), the code
  clears the wired one and leaves the page modified.
\<close>

lemma clear_refmod_leaves_modified:
  assumes "pn \<noteq> vm_page_fictitious_addr" "entries st (pai_to_pvh st pn) = Some h" "pv_flags h = TYPE_WIRED OR TYPE_MODIFIED"
  shows "\<exists>st'. pmap_clear_refmod pn 1 st = Some st' \<and> pmap_is_modified pn st' = Some TYPE_MODIFIED \<and>
    phys_attribute_test pn TYPE_WIRED st' = Some 0"
  using assms by (simp add: pmap_clear_refmod_def phys_attribute_clear_def pv_assert_def upd_entry_def pmap_is_modified_def
      phys_attribute_test_def pai_to_pvh_def TYPE_WIRED_def TYPE_MODIFIED_def)

end
