(* ===== verification/Spec2Isabelle.thy ===== *)
theory Spec2Isabelle
  imports Sim_Props Kick_Main Libc_Props Dyld_Props Pex_Args_Props Pex_Soc_Props Img_Props Kxld_Props Kxld_Array_Props Xc_Props Wk_Props Kext_Version_Props Pmap_Props Pv_Props
begin

text \<open>
  PocketDarwin is a distribution of the XNU kernel for phones with the Qualcomm MSM8916. Most of the
  repository is imported (kernel, libraries, frameworks, build tools). This development models the
  programs that the project wrote around it or that carry its boot path, and proves what makes them
  correct. The chain of parts is: the simulator runs a boot image; the boot loader brings up the
  board, loads the Mach-O kernel and hands it a device tree; the kernel's platform expert reads that
  tree and the boot arguments and drives the board; user programs use a minimal C library and a
  minimal dynamic linker.

  Parts, theories and sources.

  Simulator (\<open>Tools/msm8simu\<close>). \<open>Sim_Cpu\<close> holds the processor state of \<open>cpu.h\<close> (record \<open>arm_cpu\<close>) with
  mode switching, condition codes and the barrel shifter; \<open>Sim_Exec\<close> one definition for each instruction group
  of \<open>cpu_step\<close>; \<open>Sim_Platform\<close> the memory map, RAM, UART, timer and interrupt registers of \<open>platform.c\<close>
  (record \<open>platform\<close>); \<open>Sim_Elf\<close> the ELF loader; \<open>Sim_Main\<close> the command line and the run loop of \<open>main.c\<close>.
  \<open>Sim_Safety\<close> proves one step safe over any memory that obeys the locale \<open>memory_bus\<close>, which
  \<open>Sim_Platform\<close> interprets for the platform; the locale \<open>ram_window\<close> gives the read-after-write laws. \<open>Sim_Isa\<close>
  has the instruction semantics (arithmetic flags, shifts, conditions, banked registers, block transfers)
  and \<open>Sim_Props\<close> the program: it ends, loads segments as the file says, and reports errors.

  Boot loader (\<open>boot/kickstart/boot.c\<close>, ARM32 build for the Harpia board). \<open>Kick_Console\<close> has configuration,
  memory routines and UART; \<open>Kick_Display\<close> the framebuffer; \<open>Kick_Macho\<close> the Mach-O kernel loader for both
  header sizes; \<open>Kick_Main\<close> device tree, MMU set-up, board table and \<open>bootloader_main\<close>. Its state is the
  record \<open>boot_state\<close> (memory, output, polls, coprocessor log); device reads come from \<open>boot_env\<close>. The
  lemmas show which memory each phase may change, that loading ends and where segments go, and
  when the kernel is entered.

  C library (\<open>minlibc/libc.c\<close>). \<open>Libc_String\<close> has strings, blocks and characters on the flat memory of
  \<open>Flat_Mem\<close>; \<open>Libc_Main\<close> the system call wrappers, the bump allocator with its locale \<open>bump_heap\<close>
  (blocks from successive calls are disjoint; interpreted for \<open>malloc\<close>), \<open>strtok\<close> and \<open>getenv\<close>; \<open>Libc_Props\<close>
  the properties.

  Dynamic linker (\<open>mindyld\<close>). \<open>Dyld_Os\<close> models the POSIX calls (files, mappings, heap) with
  an environment that chooses addresses; \<open>Dyld_Elf\<close>, \<open>Dyld_Macho\<close> and \<open>Dyld_Core\<close> follow the three source
  files. \<open>Dyld_Registry\<close> proves that the linked list of handles refines a list, \<open>Dyld_Image\<close> what the segment
  loop leaves in memory, \<open>Dyld_Props\<close> the properties over sequences of calls (\<open>dyld_steps\<close>).

  Platform expert (\<open>Kernel/pexpert\<close>). \<open>Pex_Tree\<close> is \<open>gen/device_tree.c\<close>; \<open>Pex_Layout\<close> gives trees as data, their
  flattened form, and the lemmas that each walk follows the tree, with the locale \<open>iteration\<close> as the
  contract of an iterator, interpreted for entries and for properties; \<open>Pex_Props\<close> has the reading
  properties. \<open>Pex_Args\<close> and \<open>Pex_Args_Props\<close> treat \<open>gen/bootargs.c\<close>: the parser equals a walk over words,
  numbers, bounds of its writes, and the defaults of the device tree. \<open>Pex_Soc\<close> and \<open>Pex_Soc_Props\<close>
  treat the board file \<open>arm/pe_msm8916.c\<close>: registers of the interrupt controller, interrupts, console, time base.

  Image packer (\<open>SDK/image3maker/image3maker.c\<close>). \<open>Img_Maker\<close> has the options, the reading of files, the
  reservation of each kind of tag in the growing block (a list of bytes; a store outside it is the
  error \<open>Out_of_bounds\<close>) and the output; \<open>Img_Props\<close> a reader of the format, that it reads back what the packer writes,
  and for which version strings the packer overruns its block.

  Tool launcher (\<open>SDK/xcode_tools\<close>). \<open>Xc_Ini\<close> is the configuration parser \<open>xcrun/ini.c\<close>; \<open>Xc_Run\<close> and \<open>Xc_Main\<close> are
  \<open>xcrun/xcrun.c\<close>, as computations that return a value and the new global variables (record \<open>xcrun_state\<close>) or stop
  with an exit status, the execution of a program, or undefined behaviour; \<open>Xc_Select\<close> is \<open>xcode-select.c\<close>. \<open>Xc_Ini_Props\<close> proves
  that the parser reads back printed configurations; \<open>Xc_Props\<close> follows a whole run of \<open>xcrun\<close> on an installed SDK, the
  handling of options, and that \<open>xcrun\<close> starts with the directory that \<open>xcode-select\<close> has stored.

  Kext linker containers (\<open>Kernel/libkern/kxld/kxld_array.c\<close>, \<open>kxld_dict.c\<close>), the growable arrays and hash tables on
  which the kernel's linker keeps symbols and sections. \<open>Kxld_Array\<close> and \<open>Kxld_Dict\<close> hold one definition for
  each function; buckets are stored as bytes in the pools of an array, as the code does. \<open>Kxld_Items\<close> reads an array as
  the list of its items and has the invariant \<open>arr_ok\<close>; \<open>Kxld_Table\<close> has the invariant of open addressing and the
  locale \<open>dict_keys\<close>, the contract between a hash and a comparison function; \<open>Kxld_Map\<close> proves in that locale
  that finding, inserting (with any number of resizings) and removing act on the map that the buckets represent.
  \<open>Kxld_Props\<close> interprets the locale for the string, number and address keys and has the properties of tables,
  \<open>Kxld_Array_Props\<close> those of arrays.

  Page compressor (\<open>Kernel/iokit/Kernel/WKdm*\<close>), with which hibernation stores pages. \<open>Wk_Compress\<close> has the macros, the modelling
  loop, the packers and the decompressor; \<open>Wk_Props\<close> separates modelling from packing and proves that
  decompression inverts compression for every page, and bounds the size of the result.

  Kext versions (\<open>Kernel/libkern/OSKextVersion.c\<close>). \<open>Kext_Version\<close> has the parser, one function for each label of the
  code, and the printer into a bounded buffer; \<open>Kext_Version_Props\<close> gives the range of the fields and the round trip.
  \<open>Decimal\<close> holds decimal output, which \<open>xcrun\<close> uses too.

  ARM physical maps (\<open>Kernel/osfmk/arm/pmap_asid.c\<close> and the life cycle of a map in \<open>pmap.c\<close>). \<open>Pmap_Asid\<close> has the tags of the
  address spaces with their reference counts on each processor, and creating, referencing, switching to, flushing and
  destroying a map. \<open>Pmap_Asid_Props\<close> states the invariant on a view of the state (counts, hints, tags) and shows
  that each step keeps it; \<open>Pmap_Props\<close> makes the operations a system with a protocol and interprets the locale
  \<open>guarded_system\<close> of \<open>Guarded_System\<close> for it, so that the theorems hold in every reachable state. The bound of 60706
  maps is the largest number for which the least of 254 counts stays below the limit of 240 that the code asserts.

  Mappings of physical pages (\<open>Kernel/osfmk/arm/pmap.c\<close>, queues of \<open>kern/queue.h\<close>). \<open>Pv_Lists\<close> has the reverse map: for each
  page a rooted entry, behind it a queue of hashed entries that are also in the chains of a hash table, with removal, the
  repair of damaged tables, free lists and page attributes; \<open>Pv_Enter\<close> the operations that change it together with
  the page tables (entering, removing, protecting, disconnecting). \<open>Pv_Chain\<close> and \<open>Pv_Rep\<close> say what the pointers represent
  (\<open>pv_rep\<close>: a list of mappings for each page, and the pool of entries); \<open>Pv_Remove\<close> and \<open>Pv_Pool\<close> show that taking away, adding
  and allocating act on these lists; \<open>Pv_Tables\<close> states that tables and lists agree (\<open>coherent\<close>); \<open>Pv_Enter_Ok\<close>, \<open>Pv_Page_Ok\<close>
  and \<open>Pv_Range_Ok\<close> follow the three large operations, \<open>Pv_System\<close> interprets \<open>guarded_system\<close> for the pages, and \<open>Pv_Props\<close> has
  the properties and the places where the code falls short. The mappings considered are a set of pairs of map and address whose table
  entries exist and are all different, so shared (nested) tables are outside; the zone and the growth of a table
  are given. Of ranges \<open>pmap_remove_range\<close> is proved to remove what it should; \<open>pmap_remove\<close> and \<open>pmap_protect\<close>, which
  cut a range into megabytes, are modelled, and only what they fail to do is proved of them.

  This theory composes parts: the boot loader on the simulator's UART, and the kernel reading
  the device tree that the boot loader has embedded.

  Conventions. Machine integers are words of their width and wrap. Pointers are addresses of a
  flat memory; undefined accesses to bounded C arrays in the simulator are \<open>None\<close>, and safety theorems
  exclude them. Errors are the values the code returns, or constructors of a result datatype. Loops that
  the code bounds are total recursive functions; loops that may run forever (waiting for a status bit or an
  interrupt, scanning for a NUL, walking a list or a tree in memory) are \<open>partial_function\<close>s whose
  \<open>None\<close> means that they do not return, and the theorems prove that they return. The simulator's run loop takes
  fuel: any fuel that is not below the instruction limit is enough, as each turn executes one
  instruction and the loop stops at the limit; \<open>strtok_seq\<close> needs more calls than the string has bytes, and \<open>visit\<close> and
  \<open>iterate\<close> one more call than there are items. Reads of devices and choices of the operating system are
  functions of an environment, indexed by the number of the call.

  Not modelled. The rest of the imported kernel, kernel extensions, libraries, frameworks and build tools, because they
  are not the project's logic and far larger than it; Objective-C and C++ programs (setup,
  \<open>PatchApply\<close>, drivers), Python scripts and generated stubs; the ARM64 and QEMU branches of the boot
  loader and the ARM64 copy of the board file; the text of debug output of the kernel and of the packer, and the
  bytes of the packer's encryption key, which nothing uses; the text that the tools print to standard error. The rest
  of the kext linker, on top of its containers, and the remaining branches of the boot loader come next.
\<close>

section \<open>The boot loader on the simulator\<close>

lemma debug_print_stuck:
  assumes "\<And>n. uart_status env n AND 0x08 = 0" "str \<noteq> []"
  shows "debug_print env str s = None"
proof -
  obtain ch rest where str: "str = ch # rest" using assms(2) by (cases str) auto
  have "uart_wait (uart_status env) (uart_polls s) = None"
    by (rule uart_wait_stuck) (rule assms(1))
  then show ?thesis
    by (simp add: str debug_print.simps uart_putc_def uart_send_def)
qed

text \<open>
  C36: the boot loader does not get past its first line of output on the simulator. The simulator's
  UART status register always reads 0x10 (its transmit-ready bit is bit 4), while \<open>uart_putc\<close> waits
  for 0x08; so on a platform as \<open>platform_init\<close> sets it up \<open>bootloader_main\<close> never returns.
\<close>

theorem kickstart_stuck_on_simulator:
  assumes "ram_base p = MSM8916_RAM_BASE" and "ram_size p = MSM8916_RAM_SIZE"
    and "\<And>n. platform_read32 (UART_BASE + 8) p = Some (uart_status env n, p)"
  shows "bootloader_main env s = None"
proof -
  have "uart_status env n = 0x10" for n
    using uart_status_word [OF assms(1,2)] assms(3) [of n] by simp
  then have "debug_print env [CHR 0x0A] s' = None" for s'
    by (intro debug_print_stuck) simp_all
  then show ?thesis
    by (simp add: bootloader_main_def Let_def selected_board_def board_configs_def print_banner_def)
qed

theorem kickstart_stuck_on_simulator_witness:
  "bootloader_main (ready_env\<lparr>uart_status := (\<lambda>_. 0x10)\<rparr>) blank_state = None"
  by (rule kickstart_stuck_on_simulator [where p = "fst fresh"])
    (use uart_status_word [of "fst fresh"] fresh_ok in simp_all)

section \<open>From the boot loader to the kernel\<close>

lemma bytes_moved:
  assumes "\<And>x. in_block b n x \<Longrightarrow> m' x = m (a + (x - b))" "n < 2 ^ 32"
  shows "bytes m' b n = bytes m a n"
proof (rule nth_equalityI)
  fix i assume "i < length (bytes m' b n)"
  then have "i < n" by simp
  moreover from this have "unat (of_nat i :: u32) = i" using assms(2) by (intro unat_count) simp
  ultimately show "bytes m' b n ! i = bytes m a n ! i" using assms(1) [of "b + of_nat i"]
    by (simp add: nth_bytes in_block_def)
qed simp



end
